(* ===== verification/Gum_Prelude.thy ===== *)
theory Gum_Prelude
  imports Main "HOL-Library.Word"
begin

text \<open>
  Shared ground of the development: the C types of the sources as words, the byte-addressed memory
  they are stored in, little-endian encodings, the signed range checks of
  \<^verbatim>\<open>src/frida-gum/gum/gumdefs.h\<close>, and the combinator for the idiom
  \<^verbatim>\<open>if (!f (self)) return FALSE;\<close>. The build modelled is the one the README asks for: Linux on
  x86-64, so a pointer, a \<^verbatim>\<open>gsize\<close> and a \<^verbatim>\<open>GumAddress\<close> are 64 bits wide, the byte order is little
  endian, and signed arithmetic is two's complement.
\<close>

unbundle bit_operations_syntax

type_synonym guint8 = "8 word"
type_synonym guint16 = "16 word"
type_synonym guint = "32 word"
type_synonym guint32 = "32 word"
type_synonym guint64 = "64 word"
type_synonym gssize = "64 word"
type_synonym gpointer = "64 word"
type_synonym GumAddress = "64 word"
type_synonym GumThreadId = "64 word"
type_synonym memory = "64 word \<Rightarrow> 8 word"

named_theorems byte_simps \<open>explicit little-endian byte lists\<close>
named_theorems writer_defs \<open>definitions of the writer's operations\<close>
named_theorems emit_rules \<open>an operation of the writer as the bytes it appends\<close>

section \<open>Callbacks\<close>

text \<open>A callback that is given elements until it answers \<^verbatim>\<open>FALSE\<close>, with its state.\<close>

fun enumerate_until :: "('a \<Rightarrow> 's \<Rightarrow> bool \<times> 's) \<Rightarrow> 'a list \<Rightarrow> 's \<Rightarrow> 's" where
  "enumerate_until func [] s = s"
| "enumerate_until func (x # xs) s = (let (go_on, s) = func x s in if go_on then enumerate_until func xs s else s)"

section \<open>Byte memory\<close>

fun write_bytes :: "memory \<Rightarrow> gpointer \<Rightarrow> guint8 list \<Rightarrow> memory" where
  "write_bytes m a [] = m"
| "write_bytes m a (b # bs) = write_bytes (m(a := b)) (a + 1) bs"

fun read_bytes :: "memory \<Rightarrow> gpointer \<Rightarrow> nat \<Rightarrow> guint8 list" where
  "read_bytes m a 0 = []"
| "read_bytes m a (Suc n) = m a # read_bytes m (a + 1) n"

text \<open>The addresses of the \<open>n\<close> bytes from \<open>a\<close> on, with the wrap-around of the address space.\<close>

definition in_range :: "gpointer \<Rightarrow> gpointer \<Rightarrow> nat \<Rightarrow> bool" where
  "in_range x a n \<longleftrightarrow> unat (x - a) < n"

definition disjoint_ranges :: "gpointer \<Rightarrow> nat \<Rightarrow> gpointer \<Rightarrow> nat \<Rightarrow> bool" where
  "disjoint_ranges a n b k \<longleftrightarrow> n \<le> unat (b - a) \<and> k \<le> unat (a - b)"

lemma length_read_bytes [simp]: "length (read_bytes m a n) = n"
  by (induction n arbitrary: a) auto

lemma nth_read_bytes: "i < n \<Longrightarrow> read_bytes m a n ! i = m (a + of_nat i)"
proof (induction n arbitrary: a i)
  case 0
  then show ?case by simp
next
  case (Suc n)
  show ?case
  proof (cases i)
    case 0
    then show ?thesis by simp
  next
    case (Suc j)
    with Suc.prems have "j < n" by simp
    from Suc.IH [OF this, of "a + 1"] Suc show ?thesis
      by (simp add: algebra_simps)
  qed
qed

lemma write_bytes_append:
  "write_bytes m a (xs @ ys) = write_bytes (write_bytes m a xs) (a + of_nat (length xs)) ys"
  by (induction xs arbitrary: m a) (simp_all add: algebra_simps)

lemma unat_diff_Suc: "x \<noteq> a \<Longrightarrow> unat (x - (a + 1)) = unat (x - a) - 1" for x a :: gpointer
proof -
  assume "x \<noteq> a"
  then have "x - a \<noteq> 0" by simp
  then have "unat (x - a - 1) = unat (x - a) - 1" by (simp add: unat_minus_one)
  then show ?thesis by (simp add: diff_diff_eq)
qed

lemma write_bytes_other: "\<not> in_range x a (length bs) \<Longrightarrow> write_bytes m a bs x = m x"
proof (induction bs arbitrary: m a)
  case Nil
  then show ?case by simp
next
  case (Cons b bs)
  from Cons.prems have far: "Suc (length bs) \<le> unat (x - a)" by (simp add: in_range_def)
  then have "x \<noteq> a" by auto
  with far have "\<not> in_range x (a + 1) (length bs)"
    by (simp add: in_range_def unat_diff_Suc)
  with Cons.IH \<open>x \<noteq> a\<close> show ?case by simp
qed

lemma write_bytes_nth:
  "length bs \<le> 2 ^ 64 \<Longrightarrow> i < length bs \<Longrightarrow> write_bytes m a bs (a + of_nat i) = bs ! i"
proof (induction bs arbitrary: m a i)
  case Nil
  then show ?case by simp
next
  case (Cons b bs)
  show ?case
  proof (cases i)
    case 0
    have "\<not> in_range a (a + 1) (length bs)"
      using Cons.prems by (simp add: in_range_def unsigned_minus_1_eq_mask mask_eq_exp_minus_1)
    then show ?thesis using 0 by (simp add: write_bytes_other)
  next
    case (Suc j)
    with Cons.prems have "length bs \<le> 2 ^ 64" and "j < length bs" by simp_all
    then have "write_bytes (m(a := b)) (a + 1) bs (a + 1 + of_nat j) = bs ! j"
      by (rule Cons.IH)
    with Suc show ?thesis by (simp add: add.assoc)
  qed
qed

lemma read_write_bytes:
  assumes "length bs \<le> 2 ^ 64"
  shows "read_bytes (write_bytes m a bs) a (length bs) = bs"
proof (rule nth_equalityI)
  fix i
  assume "i < length (read_bytes (write_bytes m a bs) a (length bs))"
  then have "i < length bs" by simp
  with assms show "read_bytes (write_bytes m a bs) a (length bs) ! i = bs ! i"
    by (simp add: nth_read_bytes write_bytes_nth)
qed simp

lemma read_bytes_append:
  "read_bytes m a (n + k) = read_bytes m a n @ read_bytes m (a + of_nat n) k"
  by (induction n arbitrary: a) (simp_all add: algebra_simps)

lemma read_bytes_take: "k \<le> n \<Longrightarrow> read_bytes m a k = take k (read_bytes m a n)"
  using read_bytes_append [of m a k "n - k"] by simp

lemma read_bytes_cong:
  "(\<And>i. i < n \<Longrightarrow> m (a + of_nat i) = m' (a + of_nat i)) \<Longrightarrow> read_bytes m a n = read_bytes m' a n"
  by (rule nth_equalityI) (simp_all add: nth_read_bytes)

lemma disjoint_not_in_range:
  assumes "disjoint_ranges a n b k" and "i < n"
  shows "\<not> in_range (a + of_nat i) b k"
proof -
  define d where "d = a - b"
  from assms have n: "n \<le> unat (- d)" and k: "k \<le> unat d"
    by (simp_all add: disjoint_ranges_def d_def)
  from n assms(2) have "d \<noteq> 0" by auto
  then have "unat (- d) = 2 ^ 64 - unat d" using unat_sub_if' [of 0 d] by (simp add: unat_gt_0)
  with n assms(2) have small: "unat d + i < 2 ^ 64" by linarith
  then have "unat (d + of_nat i) = unat d + i"
    by (simp add: unat_word_ariths unat_of_nat)
  with k have "k \<le> unat (a + of_nat i - b)" by (simp add: d_def algebra_simps)
  then show ?thesis by (simp add: in_range_def)
qed

lemma read_write_bytes_other:
  "disjoint_ranges a n b (length bs) \<Longrightarrow> read_bytes (write_bytes m b bs) a n = read_bytes m a n"
  by (rule read_bytes_cong) (simp add: write_bytes_other disjoint_not_in_range)

lemma write_bytes_apply:
  assumes "length bs \<le> 2 ^ 64"
  shows "write_bytes m a bs x = (if unat (x - a) < length bs then bs ! unat (x - a) else m x)"
proof (cases "unat (x - a) < length bs")
  case True
  with write_bytes_nth [OF assms True, of m a] show ?thesis by simp
next
  case False
  then show ?thesis by (simp add: write_bytes_other in_range_def)
qed

lemma write_bytes_patch:
  assumes "length ys' = length ys" "length (xs @ ys @ zs) \<le> 2 ^ 64"
  shows "write_bytes (write_bytes m a (xs @ ys @ zs)) (a + of_nat (length xs)) ys' = write_bytes m a (xs @ ys' @ zs)"
proof -
  have "write_bytes (write_bytes (write_bytes m' c ys) (c + of_nat (length ys)) zs) c ys' = write_bytes (write_bytes m' c ys') (c + of_nat (length ys)) zs"
    for m' c
  proof
    fix x
    show "write_bytes (write_bytes (write_bytes m' c ys) (c + of_nat (length ys)) zs) c ys' x
        = write_bytes (write_bytes m' c ys') (c + of_nat (length ys)) zs x"
    proof (cases "unat (x - c) < length ys")
      case True
      have "\<not> unat (x - c - of_nat (length ys)) < length zs"
      proof (cases "length ys < 2 ^ 64")
        case lt: True
        then have "unat (of_nat (length ys) :: gpointer) = length ys" by (simp add: unat_of_nat)
        with True lt assms(2) show ?thesis by (simp add: unat_sub_if')
      qed (use assms(2) in simp)
      with True assms show ?thesis by (simp add: write_bytes_apply diff_diff_eq)
    next
      case False
      with assms show ?thesis by (simp add: write_bytes_apply)
    qed
  qed
  then show ?thesis using assms(1) by (simp add: write_bytes_append)
qed

lemma disjoint_ranges_sym: "disjoint_ranges a n b k \<longleftrightarrow> disjoint_ranges b k a n"
  by (auto simp: disjoint_ranges_def)

lemma unat_uminus: "x \<noteq> 0 \<Longrightarrow> unat (- x) = 2 ^ 64 - unat x" for x :: gpointer
  using unat_sub_if' [of 0 x] by (simp add: unat_gt_0)

text \<open>A part of a range is disjoint from whatever the range is disjoint from.\<close>

lemma disjoint_ranges_part:
  assumes "disjoint_ranges a n b k" and "i + k' \<le> k" and "0 < n" and "0 < k'"
  shows "disjoint_ranges a n (b + of_nat i) k'"
proof -
  define d where "d = b - a"
  from assms(1) have n: "n \<le> unat d" and k: "k \<le> unat (- d)"
    by (simp_all add: disjoint_ranges_def d_def)
  from n assms(3) have "d \<noteq> 0" by auto
  then have neg: "unat (- d) = 2 ^ 64 - unat d" by (rule unat_uminus)
  then have small: "unat d + i < 2 ^ 64" using k assms(2,4) by linarith
  then have e: "unat (d + of_nat i) = unat d + i" by (simp add: unat_word_ariths unat_of_nat)
  then have "d + of_nat i \<noteq> 0" using n assms(3) by auto
  then have "unat (- (d + of_nat i)) = 2 ^ 64 - (unat d + i)"
    using unat_uminus e by (simp del: minus_add_distrib)
  with neg k assms(2) have "k' \<le> unat (- (d + of_nat i))" by linarith
  with e n show ?thesis by (simp add: disjoint_ranges_def d_def algebra_simps)
qed

section \<open>Little-endian encodings\<close>

definition le16 :: "guint16 \<Rightarrow> guint8 list" where
  [byte_simps]: "le16 w = [ucast w, ucast (drop_bit 8 w)]"

definition le32 :: "guint32 \<Rightarrow> guint8 list" where
  [byte_simps]: "le32 w = [ucast w, ucast (drop_bit 8 w), ucast (drop_bit 16 w), ucast (drop_bit 24 w)]"

definition le64 :: "guint64 \<Rightarrow> guint8 list" where
  [byte_simps]: "le64 w = [ucast w, ucast (drop_bit 8 w), ucast (drop_bit 16 w), ucast (drop_bit 24 w),
     ucast (drop_bit 32 w), ucast (drop_bit 40 w), ucast (drop_bit 48 w), ucast (drop_bit 56 w)]"

fun of_le :: "guint8 list \<Rightarrow> 'a::len word" where
  "of_le [] = 0"
| "of_le (b # bs) = ucast b OR push_bit 8 (of_le bs)"

lemma length_le [simp]: "length (le16 a) = 2" "length (le32 b) = 4" "length (le64 c) = 8"
  by (simp_all add: byte_simps)

lemma low_byte_OR: "ucast (ucast w :: guint8) OR push_bit 8 (drop_bit 8 w) = w" for w :: "'a::len word"
proof (rule bit_word_eqI)
  fix n
  assume "n < LENGTH('a)"
  then show "bit (ucast (ucast w :: guint8) OR push_bit 8 (drop_bit 8 w)) n = bit w n"
    by (cases "n < 8") (auto simp: bit_simps)
qed

lemma of_le_step:
  "of_le bs = drop_bit 8 v \<Longrightarrow> w = v \<Longrightarrow> of_le (ucast w # bs) = v" for v :: "'a::len word"
  by (simp add: low_byte_OR)

lemma of_le_le32 [simp]: "of_le (le32 w) = w"
proof -
  have "drop_bit 32 w = 0" by (rule bit_word_eqI) (simp add: bit_simps)
  then show ?thesis unfolding le32_def by (intro of_le_step) simp_all
qed

lemma of_le_le64 [simp]: "of_le (le64 w) = w"
proof -
  have "drop_bit 64 w = 0" by (rule bit_word_eqI) (simp add: bit_simps)
  then show ?thesis unfolding le64_def by (intro of_le_step) simp_all
qed

section \<open>Range checks and early returns\<close>

definition GUM_IS_WITHIN_INT8_RANGE :: "gssize \<Rightarrow> bool" where
  "GUM_IS_WITHIN_INT8_RANGE i \<longleftrightarrow> - 128 \<le> sint i \<and> sint i \<le> 127"

definition GUM_IS_WITHIN_INT32_RANGE :: "gssize \<Rightarrow> bool" where
  "GUM_IS_WITHIN_INT32_RANGE i \<longleftrightarrow> - 2147483648 \<le> sint i \<and> sint i \<le> 2147483647"

definition G_MAXUINT32 :: guint64 where
  "G_MAXUINT32 = 0xffffffff"

text \<open>\<open>ensure r k\<close> is \<^verbatim>\<open>if (!r) return FALSE;\<close> followed by \<open>k\<close>, with the state threaded through.\<close>

definition ensure :: "bool \<times> 's \<Rightarrow> ('s \<Rightarrow> bool \<times> 's) \<Rightarrow> bool \<times> 's" where
  "ensure r k = (if fst r then k (snd r) else (False, snd r))"

lemma ensure_simps [simp]:
  "ensure (True, s) k = k s" "ensure (False, s) k = (False, s)"
  by (simp_all add: ensure_def)

end
