(* ===== verification/Gum_Memory.thy ===== *)
theory Gum_Memory
  imports Gum_Prelude
begin

text \<open>
  Page allocation near an address, from \<^verbatim>\<open>src/frida-gum/gum/backend-posix/gummemory-posix.c\<close> and
  \<^verbatim>\<open>gummemory.c\<close>: where the pages come from that the code allocator cuts into slices.

  The kernel is the argument \<open>k\<close>: what \<^verbatim>\<open>mmap\<close>, \<^verbatim>\<open>munmap\<close> and \<^verbatim>\<open>mprotect\<close> answer and which ranges the process has
  mapped, each as a function of the calls made so far, which the state \<open>vm\<close> keeps in \<open>vm_log\<close>
  together with the memory. Operations that can abort (\<^verbatim>\<open>g_assert\<close>, \<^verbatim>\<open>g_abort\<close>) return \<open>None\<close> there.
\<close>

section \<open>State\<close>

type_synonym gsize = "64 word"
type_synonym GumPageProtection = "32 word"

record GumAddressSpec =
  near_address :: gpointer
  max_distance :: guint64

record GumMemoryRange =
  base_address :: GumAddress
  range_size :: gsize

datatype vm_call = Mmap gpointer gsize gpointer | Munmap gpointer gsize | Mprotect gpointer gsize GumPageProtection

record vm =
  vm_log :: "vm_call list"
  vm_mem :: memory

record kernel =
  k_page_size :: guint
  k_mmap :: "vm_call list \<Rightarrow> gpointer \<Rightarrow> gsize \<Rightarrow> GumPageProtection \<Rightarrow> gpointer"
  k_munmap :: "vm_call list \<Rightarrow> gpointer \<Rightarrow> gsize \<Rightarrow> bool"
  k_mprotect :: "vm_call list \<Rightarrow> gpointer \<Rightarrow> gsize \<Rightarrow> GumPageProtection \<Rightarrow> bool"
  k_ranges :: "vm_call list \<Rightarrow> GumMemoryRange list"

definition MAP_FAILED :: gpointer where
  "MAP_FAILED = - 1"

definition GUM_PAGE_READ :: GumPageProtection where
  "GUM_PAGE_READ = 1"

definition GUM_PAGE_WRITE :: GumPageProtection where
  "GUM_PAGE_WRITE = 2"

definition GUM_PAGE_RW :: GumPageProtection where
  "GUM_PAGE_RW = GUM_PAGE_READ OR GUM_PAGE_WRITE"

definition GUM_PAGE_EXECUTE :: GumPageProtection where
  "GUM_PAGE_EXECUTE = 4"

definition GUM_PAGE_RX :: GumPageProtection where
  "GUM_PAGE_RX = GUM_PAGE_READ OR GUM_PAGE_EXECUTE"

definition GUM_PAGE_RWX :: GumPageProtection where
  "GUM_PAGE_RWX = GUM_PAGE_READ OR GUM_PAGE_WRITE OR GUM_PAGE_EXECUTE"

section \<open>Addresses\<close>

definition ABS :: "gssize \<Rightarrow> guint64" where
  "ABS x = (if sint x < 0 then - x else x)"

definition gum_address_spec_is_satisfied_by :: "GumAddressSpec \<Rightarrow> gpointer \<Rightarrow> bool" where
  "gum_address_spec_is_satisfied_by spec address \<longleftrightarrow> ABS (near_address spec - address) \<le> max_distance spec"

definition GUM_ALIGN_POINTER :: "gpointer \<Rightarrow> gsize \<Rightarrow> gpointer" where
  "GUM_ALIGN_POINTER p b = (p + (b - 1)) AND NOT (b - 1)"

definition GUM_ALIGN_SIZE :: "gsize \<Rightarrow> gsize \<Rightarrow> gsize" where
  "GUM_ALIGN_SIZE s b = (s + (b - 1)) AND NOT (b - 1)"

section \<open>Mapping and unmapping\<close>

definition gum_query_page_size :: "kernel \<Rightarrow> gsize" where
  "gum_query_page_size k = ucast (k_page_size k)"

definition gum_allocate_page_aligned ::
    "kernel \<Rightarrow> vm \<Rightarrow> gpointer \<Rightarrow> gsize \<Rightarrow> guint32 \<Rightarrow> gpointer \<times> vm" where
  "gum_allocate_page_aligned k v address sz prot =
     (let result = k_mmap k (vm_log v) address sz prot;
          v = v\<lparr>vm_log := Mmap address sz result # vm_log v\<rparr>
      in (if result \<noteq> MAP_FAILED then result else 0, v))"

definition gum_memory_free :: "kernel \<Rightarrow> vm \<Rightarrow> gpointer \<Rightarrow> gsize \<Rightarrow> bool \<times> vm" where
  "gum_memory_free k v address sz =
     (if k_munmap k (vm_log v) address sz then (True, v\<lparr>vm_log := Munmap address sz # vm_log v\<rparr>) else (False, v))"

definition gum_memory_release :: "kernel \<Rightarrow> vm \<Rightarrow> gpointer \<Rightarrow> gsize \<Rightarrow> bool \<times> vm" where
  "gum_memory_release k v address sz = gum_memory_free k v address sz"

text \<open>The constants \<^verbatim>\<open>PROT_READ\<close>, \<^verbatim>\<open>PROT_WRITE\<close> and \<^verbatim>\<open>PROT_EXEC\<close> of Linux are 1, 2 and 4.\<close>

definition gum_page_protection_to_posix :: "GumPageProtection \<Rightarrow> guint32" where
  "gum_page_protection_to_posix prot =
     (let posix_prot = 0;
          posix_prot = (if prot AND GUM_PAGE_READ \<noteq> 0 then posix_prot OR 1 else posix_prot);
          posix_prot = (if prot AND GUM_PAGE_WRITE \<noteq> 0 then posix_prot OR 2 else posix_prot)
      in if prot AND GUM_PAGE_EXECUTE \<noteq> 0 then posix_prot OR 4 else posix_prot)"

text \<open>The call that is made for the pages of a range; \<open>None\<close> is the failed assertion for an empty one.\<close>

definition gum_try_mprotect :: "kernel \<Rightarrow> vm \<Rightarrow> gpointer \<Rightarrow> gsize \<Rightarrow> GumPageProtection \<Rightarrow> (bool \<times> vm) option" where
  "gum_try_mprotect k v address sz prot =
     (if sz = 0 then None
      else
        let page_size = gum_query_page_size k;
            aligned_address = address AND NOT (page_size - 1);
            aligned_size = (1 + (address + sz - 1 - aligned_address) div page_size) * page_size;
            posix_prot = gum_page_protection_to_posix prot
        in if k_mprotect k (vm_log v) aligned_address aligned_size posix_prot
           then Some (True, v\<lparr>vm_log := Mprotect aligned_address aligned_size posix_prot # vm_log v\<rparr>)
           else Some (False, v))"

definition gum_mprotect :: "kernel \<Rightarrow> vm \<Rightarrow> gpointer \<Rightarrow> gsize \<Rightarrow> GumPageProtection \<Rightarrow> vm option" where
  "gum_mprotect k v address sz prot =
     (case gum_try_mprotect k v address sz prot of
        None \<Rightarrow> None
      | Some (success, v) \<Rightarrow> if success then Some v else None)"

definition gum_memory_allocate ::
    "kernel \<Rightarrow> vm \<Rightarrow> gpointer \<Rightarrow> gsize \<Rightarrow> gsize \<Rightarrow> GumPageProtection \<Rightarrow> (gpointer \<times> vm) option" where
  "gum_memory_allocate k v address sz alignment prot =
     (let address = GUM_ALIGN_POINTER address alignment;
          page_size = gum_query_page_size k;
          allocation_size = sz + (alignment - page_size);
          allocation_size = GUM_ALIGN_SIZE allocation_size page_size;
          (base, v) = gum_allocate_page_aligned k v address allocation_size (gum_page_protection_to_posix prot)
      in if base = 0 then Some (0, v)
         else
           let aligned_base = GUM_ALIGN_POINTER base alignment;
               prefix_size = aligned_base - base;
               (allocation_size, v) =
                 (if aligned_base \<noteq> base
                  then (allocation_size - prefix_size, snd (gum_memory_free k v base prefix_size))
                  else (allocation_size, v));
               suffix_size = allocation_size - sz;
               (allocation_size, v) =
                 (if allocation_size \<noteq> sz
                  then (allocation_size - suffix_size, snd (gum_memory_free k v (aligned_base + sz) suffix_size))
                  else (allocation_size, v))
           in if allocation_size = sz then Some (aligned_base, v) else None)"

section \<open>Allocating near an address\<close>

text \<open>The result of \<^verbatim>\<open>gum_try_suggest_allocation_base\<close>: \<open>None\<close> for \<^verbatim>\<open>FALSE\<close>.\<close>

record GumAllocNearContext =
  an_spec :: GumAddressSpec
  an_size :: gsize
  an_alignment :: gsize
  an_page_size :: gsize
  an_prot :: GumPageProtection
  an_result :: gpointer

definition gum_try_suggest_allocation_base :: "GumMemoryRange \<Rightarrow> GumAllocNearContext \<Rightarrow> gpointer option" where
  "gum_try_suggest_allocation_base r ctx =
     (let allocation_size = an_size ctx + (an_alignment ctx - an_page_size ctx);
          mask = NOT (an_alignment ctx - 1)
      in if range_size r < allocation_size then None
         else
           let base = (base_address r + an_alignment ctx - 1) AND mask
           in if gum_address_spec_is_satisfied_by (an_spec ctx) base then Some base
              else
                let base = (base_address r + range_size r - allocation_size) AND mask
                in if gum_address_spec_is_satisfied_by (an_spec ctx) base then Some base else None)"

text \<open>The boolean is the callback's result: whether to keep looking.\<close>

definition gum_try_alloc_in_range_if_near_enough ::
    "kernel \<Rightarrow> vm \<Rightarrow> GumMemoryRange \<Rightarrow> GumAllocNearContext \<Rightarrow> (bool \<times> GumAllocNearContext \<times> vm) option" where
  "gum_try_alloc_in_range_if_near_enough k v r ctx =
     (case gum_try_suggest_allocation_base r ctx of
        None \<Rightarrow> Some (True, ctx, v)
      | Some suggested_base \<Rightarrow>
          (case gum_memory_allocate k v suggested_base (an_size ctx) (an_alignment ctx) (an_prot ctx) of
             None \<Rightarrow> None
           | Some (received_base, v) \<Rightarrow>
               (if received_base = 0 then Some (True, ctx, v)
                else if \<not> gum_address_spec_is_satisfied_by (an_spec ctx) received_base
                then Some (True, ctx, snd (gum_memory_free k v received_base (an_size ctx)))
                else Some (False, ctx\<lparr>an_result := received_base\<rparr>, v))))"

text \<open>
  \<^verbatim>\<open>gum_emit_free_range\<close> as the callback of the enumeration of the mapped ranges, and the enumeration,
  which stops when the callback says so.
\<close>

definition gum_emit_free_range ::
    "kernel \<Rightarrow> vm \<Rightarrow> GumMemoryRange \<Rightarrow> GumAddress \<Rightarrow> GumAllocNearContext
     \<Rightarrow> (bool \<times> GumAddress \<times> GumAllocNearContext \<times> vm) option" where
  "gum_emit_free_range k v r prev_end ctx =
     (let start = base_address r;
          range_end = start + range_size r;
          gap_size = start - prev_end
      in if prev_end \<noteq> 0 \<and> gap_size > 0
         then (case gum_try_alloc_in_range_if_near_enough k v \<lparr>base_address = prev_end, range_size = gap_size\<rparr> ctx of
                 None \<Rightarrow> None
               | Some (carry_on, ctx, v) \<Rightarrow> Some (carry_on, range_end, ctx, v))
         else Some (True, range_end, ctx, v))"

fun gum_enumerate_free_ranges ::
    "kernel \<Rightarrow> vm \<Rightarrow> GumMemoryRange list \<Rightarrow> GumAddress \<Rightarrow> GumAllocNearContext \<Rightarrow> (GumAllocNearContext \<times> vm) option" where
  "gum_enumerate_free_ranges k v [] prev_end ctx = Some (ctx, v)"
| "gum_enumerate_free_ranges k v (r # ranges) prev_end ctx =
     (case gum_emit_free_range k v r prev_end ctx of
        None \<Rightarrow> None
      | Some (carry_on, prev_end, ctx, v) \<Rightarrow>
          (if carry_on then gum_enumerate_free_ranges k v ranges prev_end ctx else Some (ctx, v)))"

definition gum_memory_allocate_near ::
    "kernel \<Rightarrow> vm \<Rightarrow> GumAddressSpec option \<Rightarrow> gsize \<Rightarrow> gsize \<Rightarrow> GumPageProtection \<Rightarrow> (gpointer \<times> vm) option" where
  "gum_memory_allocate_near k v spec sz alignment prot =
     (let suggested_base = (case spec of None \<Rightarrow> 0 | Some s \<Rightarrow> near_address s)
      in case gum_memory_allocate k v suggested_base sz alignment prot of
           None \<Rightarrow> None
         | Some (received_base, v) \<Rightarrow>
             (if received_base = 0 then Some (0, v)
              else
                case spec of
                  None \<Rightarrow> Some (received_base, v)
                | Some s \<Rightarrow>
                    (if gum_address_spec_is_satisfied_by s received_base then Some (received_base, v)
                     else
                       let v = snd (gum_memory_free k v received_base sz);
                           ctx = \<lparr>an_spec = s, an_size = sz, an_alignment = alignment,
                                  an_page_size = gum_query_page_size k, an_prot = prot, an_result = 0\<rparr>
                       in case gum_enumerate_free_ranges k v (k_ranges k (vm_log v)) 0 ctx of
                            None \<Rightarrow> None
                          | Some (ctx, v) \<Rightarrow> Some (an_result ctx, v))))"

definition gum_try_alloc_n_pages_near ::
    "kernel \<Rightarrow> vm \<Rightarrow> guint \<Rightarrow> GumPageProtection \<Rightarrow> GumAddressSpec option \<Rightarrow> (gpointer \<times> vm) option" where
  "gum_try_alloc_n_pages_near k v n_pages prot spec =
     (let page_size = gum_query_page_size k;
          sz = ucast (1 + n_pages) * page_size
      in case gum_memory_allocate_near k v spec sz page_size prot of
           None \<Rightarrow> None
         | Some (base, v) \<Rightarrow>
             (if base = 0 then Some (0, v)
              else
                case (if prot AND GUM_PAGE_WRITE = 0 then gum_mprotect k v base page_size GUM_PAGE_RW else Some v) of
                  None \<Rightarrow> None
                | Some v \<Rightarrow>
                    (let v = v\<lparr>vm_mem := write_bytes (vm_mem v) base (le64 sz)\<rparr>
                     in case gum_mprotect k v base page_size GUM_PAGE_READ of
                          None \<Rightarrow> None
                        | Some v \<Rightarrow> Some (base + page_size, v))))"

definition gum_try_alloc_n_pages :: "kernel \<Rightarrow> vm \<Rightarrow> guint \<Rightarrow> GumPageProtection \<Rightarrow> (gpointer \<times> vm) option" where
  "gum_try_alloc_n_pages k v n_pages prot = gum_try_alloc_n_pages_near k v n_pages prot None"

definition gum_alloc_n_pages :: "kernel \<Rightarrow> vm \<Rightarrow> guint \<Rightarrow> GumPageProtection \<Rightarrow> (gpointer \<times> vm) option" where
  "gum_alloc_n_pages k v n_pages prot =
     (case gum_try_alloc_n_pages k v n_pages prot of
        None \<Rightarrow> None
      | Some (result, v) \<Rightarrow> (if result \<noteq> 0 then Some (result, v) else None))"

definition gum_alloc_n_pages_near ::
    "kernel \<Rightarrow> vm \<Rightarrow> guint \<Rightarrow> GumPageProtection \<Rightarrow> GumAddressSpec option \<Rightarrow> (gpointer \<times> vm) option" where
  "gum_alloc_n_pages_near k v n_pages prot spec =
     (case gum_try_alloc_n_pages_near k v n_pages prot spec of
        None \<Rightarrow> None
      | Some (result, v) \<Rightarrow> (if result \<noteq> 0 then Some (result, v) else None))"

definition gum_free_pages :: "kernel \<Rightarrow> vm \<Rightarrow> gpointer \<Rightarrow> vm" where
  "gum_free_pages k v mem =
     (let start = mem - gum_query_page_size k;
          sz = of_le (read_bytes (vm_mem v) start 8)
      in snd (gum_memory_release k v start sz))"

definition gum_query_page_allocation_range :: "kernel \<Rightarrow> gpointer \<Rightarrow> guint \<Rightarrow> GumMemoryRange" where
  "gum_query_page_allocation_range k mem sz =
     (let page_size = gum_query_page_size k
      in \<lparr>base_address = mem - page_size, range_size = ucast sz + page_size\<rparr>)"

section \<open>The kernel's promises\<close>

text \<open>
  Which bytes the process holds through the calls of the log, the latest call first, and what
  \<^verbatim>\<open>mmap(2)\<close> promises without \<^verbatim>\<open>MAP_FIXED\<close>: page-aligned addresses other than 0, and no byte that is
  still mapped. A page is a power of two bytes. \<^verbatim>\<open>munmap(2)\<close> is relied on to succeed for a range that begins at
  a page and is not empty (it can fail when the process has used up its number of mappings).
\<close>

fun mapped :: "vm_call list \<Rightarrow> gpointer \<Rightarrow> bool" where
  "mapped [] x = False"
| "mapped (Mmap a s r # l) x \<longleftrightarrow> mapped l x \<or> (r \<noteq> MAP_FAILED \<and> in_range x r (unat s))"
| "mapped (Munmap a s # l) x \<longleftrightarrow> mapped l x \<and> \<not> in_range x a (unat s)"
| "mapped (Mprotect a s p # l) x \<longleftrightarrow> mapped l x"

definition well_behaved :: "kernel \<Rightarrow> bool" where
  "well_behaved k \<longleftrightarrow>
     (\<exists>p < 32. k_page_size k = 2 ^ p) \<and>
     (\<forall>l a s p. let r = k_mmap k l a s p in r \<noteq> MAP_FAILED \<longrightarrow>
        r \<noteq> 0 \<and> r AND (gum_query_page_size k - 1) = 0 \<and> (\<forall>x. in_range x r (unat s) \<longrightarrow> \<not> mapped l x)) \<and>
     (\<forall>l a s. a AND (gum_query_page_size k - 1) = 0 \<and> s \<noteq> 0 \<longrightarrow> k_munmap k l a s)"

lemma mmap_promise:
  assumes "well_behaved k" and "k_mmap k l a s p \<noteq> MAP_FAILED"
  shows "k_mmap k l a s p \<noteq> 0" "k_mmap k l a s p AND (gum_query_page_size k - 1) = 0"
    "in_range x (k_mmap k l a s p) (unat s) \<Longrightarrow> \<not> mapped l x"
  using assms unfolding well_behaved_def Let_def by blast+

lemma munmap_promise:
  "well_behaved k \<Longrightarrow> a AND (gum_query_page_size k - 1) = 0 \<Longrightarrow> s \<noteq> 0 \<Longrightarrow> k_munmap k l a s"
  by (simp add: well_behaved_def)

lemma align_aligned: "p AND (b - 1) = 0 \<Longrightarrow> GUM_ALIGN_POINTER p b = p" "p AND (b - 1) = 0 \<Longrightarrow> GUM_ALIGN_SIZE p b = p"
proof -
  assume "p AND (b - 1) = 0"
  then have "p + (b - 1) = p OR (b - 1)" by (rule disjunctive_add_eq_or)
  moreover have "(p OR (b - 1)) AND NOT (b - 1) = p AND NOT (b - 1)"
    by (rule bit_word_eqI) (auto simp: bit_simps)
  moreover have "p AND NOT (b - 1) = p"
  proof (rule bit_word_eqI)
    fix n
    assume "n < LENGTH(64)"
    moreover from \<open>p AND (b - 1) = 0\<close> have "bit (p AND (b - 1)) n = False" by simp
    ultimately show "bit (p AND NOT (b - 1)) n = bit p n" by (auto simp: bit_simps)
  qed
  ultimately show "GUM_ALIGN_POINTER p b = p" "GUM_ALIGN_SIZE p b = p"
    by (simp_all add: GUM_ALIGN_POINTER_def GUM_ALIGN_SIZE_def)
qed

lemma pages_aligned:
  assumes "well_behaved k"
  shows "n * gum_query_page_size k AND (gum_query_page_size k - 1) = 0"
proof -
  from assms obtain p where p: "p < 32" "k_page_size k = 2 ^ p" by (auto simp: well_behaved_def)
  then have "gum_query_page_size k = 2 ^ p"
    by (auto simp: gum_query_page_size_def bit_simps intro!: bit_word_eqI)
  then have "n * gum_query_page_size k AND (gum_query_page_size k - 1) = take_bit p (push_bit p n)"
    by (simp add: push_bit_eq_mult take_bit_eq_mask mask_eq_exp_minus_1)
  then show ?thesis by (simp add: take_bit_push_bit)
qed

section \<open>What an allocation does\<close>

lemma allocate_pages:
  assumes "well_behaved k" and "sz AND (gum_query_page_size k - 1) = 0"
  shows "\<exists>a. let r = k_mmap k (vm_log v) a sz (gum_page_protection_to_posix prot) in
    gum_memory_allocate k v address sz (gum_query_page_size k) prot =
      Some (if r = MAP_FAILED then 0 else r, v\<lparr>vm_log := Mmap a sz r # vm_log v\<rparr>)"
proof -
  define a where "a = GUM_ALIGN_POINTER address (gum_query_page_size k)"
  define r where "r = k_mmap k (vm_log v) a sz (gum_page_protection_to_posix prot)"
  have "r \<noteq> MAP_FAILED \<Longrightarrow> GUM_ALIGN_POINTER r (gum_query_page_size k) = r \<and> r \<noteq> 0"
    using mmap_promise [OF assms(1), of "vm_log v" a sz "gum_page_protection_to_posix prot"] by (simp add: r_def align_aligned)
  then have "gum_memory_allocate k v address sz (gum_query_page_size k) prot =
      Some (if r = MAP_FAILED then 0 else r, v\<lparr>vm_log := Mmap a sz r # vm_log v\<rparr>)"
    using assms(2) by (simp add: gum_memory_allocate_def gum_allocate_page_aligned_def Let_def align_aligned flip: a_def r_def)
  then show ?thesis unfolding r_def Let_def by blast
qed

text \<open>The allocation keeps exactly the bytes it returns: \<open>holds k v r sz v'\<close>.\<close>

definition holds :: "kernel \<Rightarrow> vm \<Rightarrow> gpointer \<Rightarrow> gsize \<Rightarrow> vm \<Rightarrow> bool" where
  "holds k v r sz v' \<longleftrightarrow> vm_mem v' = vm_mem v \<and> r AND (gum_query_page_size k - 1) = 0 \<and>
     (\<forall>x. mapped (vm_log v') x \<longleftrightarrow> mapped (vm_log v) x \<or> (r \<noteq> 0 \<and> in_range x r (unat sz))) \<and>
     (\<forall>x. r \<noteq> 0 \<and> in_range x r (unat sz) \<longrightarrow> \<not> mapped (vm_log v) x)"

lemma allocate_holds:
  assumes "well_behaved k" "sz AND (gum_query_page_size k - 1) = 0"
    and "gum_memory_allocate k v address sz (gum_query_page_size k) prot = Some (r, v')"
  shows "holds k v r sz v'"
proof -
  let ?p = "gum_page_protection_to_posix prot"
  from allocate_pages [OF assms(1,2), of v prot address] assms(3) obtain a where
    r: "r = (let q = k_mmap k (vm_log v) a sz ?p in if q = MAP_FAILED then 0 else q)"
    and v': "v' = v\<lparr>vm_log := Mmap a sz (k_mmap k (vm_log v) a sz ?p) # vm_log v\<rparr>"
    by (auto simp: Let_def)
  show ?thesis
    using mmap_promise [OF assms(1), of "vm_log v" a sz ?p] by (auto simp: holds_def r v' Let_def)
qed

lemma free_mapped:
  assumes "well_behaved k" "r AND (gum_query_page_size k - 1) = 0"
  shows "mapped (vm_log (snd (gum_memory_free k v r sz))) x \<longleftrightarrow> mapped (vm_log v) x \<and> \<not> in_range x r (unat sz)"
    "vm_mem (snd (gum_memory_free k v r sz)) = vm_mem v"
  using munmap_promise [OF assms, of sz "vm_log v"] by (cases "sz = 0") (simp_all add: gum_memory_free_def in_range_def)

lemma holds_free: "well_behaved k \<Longrightarrow> holds k v r sz v' \<Longrightarrow> r \<noteq> 0 \<Longrightarrow> holds k v 0 sz (snd (gum_memory_free k v' r sz))"
  using free_mapped [of k r] by (auto simp: holds_def)

lemma holds_trans: "holds k v 0 sz v' \<Longrightarrow> holds k v' r sz v'' \<Longrightarrow> holds k v r sz v''"
  by (simp add: holds_def)

lemma holds_refl: "holds k v 0 sz v"
  by (simp add: holds_def)

text \<open>
  One callback, and the enumeration: looking on, nothing is held; stopping, the result is held and
  near enough. \<open>pages_ctx\<close> says that the context asks for whole pages.
\<close>

definition pages_ctx :: "kernel \<Rightarrow> GumAllocNearContext \<Rightarrow> bool" where
  "pages_ctx k ctx \<longleftrightarrow> an_alignment ctx = gum_query_page_size k \<and> an_size ctx AND (gum_query_page_size k - 1) = 0"

lemma allocate_ctx:
  assumes "well_behaved k" "pages_ctx k ctx"
  shows "\<exists>r v'. gum_memory_allocate k v a (an_size ctx) (an_alignment ctx) p = Some (r, v') \<and> holds k v r (an_size ctx) v'"
  using allocate_pages [OF assms(1), of "an_size ctx" v p a] allocate_holds [OF assms(1), of "an_size ctx" v a p] assms(2)
  unfolding pages_ctx_def Let_def by fastforce

lemma in_range_step:
  assumes "well_behaved k" "pages_ctx k ctx"
  shows "\<exists>go_on ctx' v'. gum_try_alloc_in_range_if_near_enough k v rg ctx = Some (go_on, ctx', v') \<and>
    (if go_on then ctx' = ctx \<and> holds k v 0 (an_size ctx) v'
     else \<exists>r. r \<noteq> 0 \<and> ctx' = ctx\<lparr>an_result := r\<rparr> \<and> gum_address_spec_is_satisfied_by (an_spec ctx) r \<and> holds k v r (an_size ctx) v')"
proof (cases "gum_try_suggest_allocation_base rg ctx")
  case None
  then show ?thesis by (auto simp: gum_try_alloc_in_range_if_near_enough_def holds_refl)
next
  case (Some b)
  from allocate_ctx [OF assms, of v b "an_prot ctx"] obtain r v' where
    "gum_memory_allocate k v b (an_size ctx) (an_alignment ctx) (an_prot ctx) = Some (r, v')" "holds k v r (an_size ctx) v'"
    by blast
  with Some show ?thesis by (auto simp: gum_try_alloc_in_range_if_near_enough_def intro: holds_free [OF assms(1)])
qed

lemma enumerate_holds:
  assumes "well_behaved k" "pages_ctx k ctx" "an_result ctx = 0"
  shows "\<exists>r v'. gum_enumerate_free_ranges k v ranges prev_end ctx = Some (ctx\<lparr>an_result := r\<rparr>, v') \<and>
    (r \<noteq> 0 \<longrightarrow> gum_address_spec_is_satisfied_by (an_spec ctx) r) \<and> holds k v r (an_size ctx) v'"
proof (induction ranges arbitrary: v prev_end)
  case Nil
  from assms(3) have "ctx\<lparr>an_result := 0\<rparr> = ctx" by simp
  then show ?case by (intro exI [of _ 0] exI [of _ v]) (simp add: holds_refl)
next
  case (Cons rg ranges)
  define gap where "gap = \<lparr>base_address = prev_end, range_size = base_address rg - prev_end\<rparr>"
  from in_range_step [OF assms(1,2), of v gap] obtain go_on ctx' v1 where
    step: "gum_try_alloc_in_range_if_near_enough k v gap ctx = Some (go_on, ctx', v1)"
      "if go_on then ctx' = ctx \<and> holds k v 0 (an_size ctx) v1
       else \<exists>r. r \<noteq> 0 \<and> ctx' = ctx\<lparr>an_result := r\<rparr> \<and> gum_address_spec_is_satisfied_by (an_spec ctx) r \<and> holds k v r (an_size ctx) v1"
    by blast
  from step Cons.IH [of v1 "base_address rg + range_size rg"] Cons.IH [of v "base_address rg + range_size rg"] show ?case
    by (cases go_on) (auto simp: gum_emit_free_range_def Let_def gap_def [symmetric] intro: holds_trans)
qed

lemma allocate_near_holds:
  assumes "well_behaved k"
  shows "\<exists>r v'. gum_memory_allocate_near k v spec (n * gum_query_page_size k) (gum_query_page_size k) prot = Some (r, v') \<and>
    holds k v r (n * gum_query_page_size k) v' \<and> (\<forall>s. spec = Some s \<and> r \<noteq> 0 \<longrightarrow> gum_address_spec_is_satisfied_by s r)"
proof -
  define ps where "ps = gum_query_page_size k"
  define sz where "sz = n * ps"
  define ctx where "ctx s = \<lparr>an_spec = s, an_size = sz, an_alignment = ps, an_page_size = ps, an_prot = prot, an_result = 0\<rparr>" for s
  have ctx: "pages_ctx k (ctx s)" for s
    using pages_aligned [OF assms] by (simp add: pages_ctx_def ctx_def sz_def ps_def)
  obtain r v1 where r: "gum_memory_allocate k v (case spec of None \<Rightarrow> 0 | Some s \<Rightarrow> near_address s) sz ps prot = Some (r, v1)"
      "holds k v r sz v1"
    using allocate_ctx [OF assms ctx [of undefined], of v "case spec of None \<Rightarrow> 0 | Some s \<Rightarrow> near_address s" prot]
    by (auto simp: ctx_def)
  show ?thesis
  proof (cases "\<exists>s. spec = Some s \<and> r \<noteq> 0 \<and> \<not> gum_address_spec_is_satisfied_by s r")
    case True
    then obtain s where s: "spec = Some s" "r \<noteq> 0" "\<not> gum_address_spec_is_satisfied_by s r" by blast
    define v2 where "v2 = snd (gum_memory_free k v1 r sz)"
    have "an_result (ctx s) = 0" by (simp add: ctx_def)
    from enumerate_holds [OF assms ctx this, of v2 "k_ranges k (vm_log v2)" 0] obtain q v' where
      q: "gum_enumerate_free_ranges k v2 (k_ranges k (vm_log v2)) 0 (ctx s) = Some ((ctx s)\<lparr>an_result := q\<rparr>, v')"
        "q \<noteq> 0 \<longrightarrow> gum_address_spec_is_satisfied_by s q" "holds k v2 q sz v'"
      by (auto simp: ctx_def)
    have "holds k v q sz v'" using holds_trans [OF holds_free [OF assms r(2) s(2)]] q(3) by (simp add: v2_def)
    with r(1) s q(1,2) show ?thesis
      by (simp add: gum_memory_allocate_near_def Let_def sz_def ps_def v2_def ctx_def)
  next
    case False
    with r show ?thesis
      by (cases spec) (auto simp: gum_memory_allocate_near_def Let_def sz_def ps_def)
  qed
qed

section \<open>The promises of the allocator\<close>

text \<open>
  C31: Pages near an address. With a kernel that keeps its promises, the search for pages near an
  address never aborts. Whether it succeeds or fails, it keeps mapped exactly the range it returns:
  every mapping it tried and rejected is gone. The range it returns was free before, and begins
  within the distance asked for.
\<close>

theorem allocate_near_exact:
  assumes "well_behaved k"
  shows "\<exists>r v'. gum_memory_allocate_near k v spec (n * gum_query_page_size k) (gum_query_page_size k) prot = Some (r, v') \<and>
    (\<forall>x. mapped (vm_log v') x \<longleftrightarrow> mapped (vm_log v) x \<or> (r \<noteq> 0 \<and> in_range x r (unat (n * gum_query_page_size k)))) \<and>
    (\<forall>x. r \<noteq> 0 \<and> in_range x r (unat (n * gum_query_page_size k)) \<longrightarrow> \<not> mapped (vm_log v) x) \<and>
    (case spec of None \<Rightarrow> True | Some s \<Rightarrow> r = 0 \<or> gum_address_spec_is_satisfied_by s r)"
  using allocate_near_holds [OF assms, of v spec n prot] by (auto simp: holds_def split: option.splits)

text \<open>A kernel that grants one request for two pages, at the given address, for the witnesses.\<close>

definition sample_kernel :: "gpointer \<Rightarrow> kernel" where
  "sample_kernel a = \<lparr>k_page_size = 4096,
     k_mmap = (\<lambda>l hint s p. if s = 0x2000 \<and> l = [] then a else MAP_FAILED),
     k_munmap = (\<lambda>l a s. True), k_mprotect = (\<lambda>l a s p. True), k_ranges = (\<lambda>l. [])\<rparr>"

lemma sample_kernel_well_behaved: "a AND 0xfff = 0 \<Longrightarrow> a \<noteq> 0 \<Longrightarrow> well_behaved (sample_kernel a)"
  by (auto simp: well_behaved_def sample_kernel_def gum_query_page_size_def Let_def intro!: exI [of _ 12])

definition sample_vm :: vm where
  "sample_vm = \<lparr>vm_log = [], vm_mem = (\<lambda>_. 0)\<rparr>"

theorem allocate_near_exact_witness:
  "\<exists>r v'. gum_memory_allocate_near (sample_kernel 0x7000) sample_vm (Some \<lparr>near_address = 0x100000, max_distance = 0x1000\<rparr>)
      (2 * gum_query_page_size (sample_kernel 0x7000)) (gum_query_page_size (sample_kernel 0x7000)) 3 = Some (r, v') \<and>
    (r = 0 \<or> gum_address_spec_is_satisfied_by \<lparr>near_address = 0x100000, max_distance = 0x1000\<rparr> r)"
  using allocate_near_exact [OF sample_kernel_well_behaved, of "0x7000" sample_vm
      "Some \<lparr>near_address = 0x100000, max_distance = 0x1000\<rparr>" 2 3]
  by auto

lemma mprotect_log:
  "gum_mprotect k v a s p = Some v' \<Longrightarrow> vm_mem v' = vm_mem v \<and> (\<forall>x. mapped (vm_log v') x = mapped (vm_log v) x)"
  by (auto simp: gum_mprotect_def gum_try_mprotect_def Let_def split: if_splits)

text \<open>
  Allocating and freeing pages. Pages allocated near an address hold one page more than asked
  for, in front of them, and what \<^verbatim>\<open>gum_free_pages\<close> reads there makes it unmap exactly that range: as
  long as the header page has not been overwritten, the process holds afterwards what it held before.
\<close>

theorem alloc_free_pages:
  assumes "well_behaved k" and "gum_try_alloc_n_pages_near k v n prot spec = Some (p, v')" and "p \<noteq> 0"
    and "vm_log v'' = vm_log v'"
    and "read_bytes (vm_mem v'') (p - gum_query_page_size k) 8 = read_bytes (vm_mem v') (p - gum_query_page_size k) 8"
  shows "(mapped (vm_log v') x \<longleftrightarrow> mapped (vm_log v) x \<or>
      in_range x (p - gum_query_page_size k) (unat (ucast (1 + n) * gum_query_page_size k))) \<and>
    (mapped (vm_log (gum_free_pages k v'' p)) x \<longleftrightarrow> mapped (vm_log v) x)"
proof -
  define ps where "ps = gum_query_page_size k"
  define sz where "sz = ucast (1 + n) * ps"
  from allocate_near_holds [OF assms(1), of v spec "ucast (1 + n)" prot] obtain base v1 where
    alloc: "gum_memory_allocate_near k v spec sz ps prot = Some (base, v1)" and h: "holds k v base sz v1"
    by (auto simp: sz_def ps_def)
  from assms(2,3) alloc have base: "base \<noteq> 0"
    by (auto simp: gum_try_alloc_n_pages_near_def Let_def sz_def ps_def)
  from assms(2) alloc base obtain v2 where
    v2: "(if prot AND GUM_PAGE_WRITE = 0 then gum_mprotect k v1 base ps GUM_PAGE_RW else Some v1) = Some v2"
      "gum_mprotect k (v2\<lparr>vm_mem := write_bytes (vm_mem v2) base (le64 sz)\<rparr>) base ps GUM_PAGE_READ = Some v'" "p = base + ps"
    unfolding gum_try_alloc_n_pages_near_def Let_def ps_def [symmetric] sz_def [symmetric]
    by (auto split: option.splits)
  from v2(1) have "mapped (vm_log v2) x = mapped (vm_log v1) x" for x
    by (auto dest: mprotect_log split: if_splits)
  with mprotect_log [OF v2(2)] have m: "mapped (vm_log v') x = mapped (vm_log v1) x" for x by simp
  have "read_bytes (vm_mem v'') base 8 = le64 sz"
    using assms(5) mprotect_log [OF v2(2)] read_write_bytes [of "le64 sz" "vm_mem v2" base] by (simp add: v2(3) ps_def)
  then have "gum_free_pages k v'' p = snd (gum_memory_free k v'' base sz)"
    by (simp add: gum_free_pages_def Let_def gum_memory_release_def v2(3) ps_def)
  with h m assms(4) base show ?thesis
    using free_mapped [OF assms(1), of base v'' sz] by (auto simp: holds_def v2(3) sz_def ps_def)
qed

theorem alloc_free_pages_witness:
  "\<exists>v'. gum_try_alloc_n_pages_near (sample_kernel 0x7000) sample_vm 1 5 None = Some (0x8000, v') \<and>
    \<not> mapped (vm_log (gum_free_pages (sample_kernel 0x7000) v' 0x8000)) 0x7123"
proof -
  have "\<exists>v'. gum_try_alloc_n_pages_near (sample_kernel 0x7000) sample_vm 1 5 None = Some (0x8000, v')"
    by (simp add: gum_try_alloc_n_pages_near_def gum_memory_allocate_near_def gum_memory_allocate_def gum_query_page_size_def
        gum_allocate_page_aligned_def gum_mprotect_def gum_try_mprotect_def gum_page_protection_to_posix_def GUM_PAGE_EXECUTE_def sample_kernel_def sample_vm_def GUM_ALIGN_POINTER_def GUM_ALIGN_SIZE_def
        MAP_FAILED_def GUM_PAGE_WRITE_def)
  then obtain v' where "gum_try_alloc_n_pages_near (sample_kernel 0x7000) sample_vm 1 5 None = Some (0x8000, v')" by blast
  with alloc_free_pages [of "sample_kernel 0x7000" sample_vm 1 5 None "0x8000" v' v' "0x7123"] sample_kernel_well_behaved [of "0x7000"]
  show ?thesis by (auto simp: sample_vm_def)
qed

end
