(* ===== verification/Gum_Libc.thy ===== *)
theory Gum_Libc
  imports Gum_Prelude
begin

text \<open>
  \<^verbatim>\<open>src/frida-gum/gum/gumlibc.c\<close>: filling, copying and moving bytes, one at a time, as built for x86-64.
  A loop over the offsets is a \<open>fold\<close> over them, in the loop's order.
\<close>

definition gum_memset :: "memory \<Rightarrow> gpointer \<Rightarrow> guint \<Rightarrow> 64 word \<Rightarrow> memory" where
  "gum_memset m dst c n = fold (\<lambda>offset m. m(dst + of_nat offset := ucast c)) [0..<unat n] m"

text \<open>The assignment in the loops of \<^verbatim>\<open>gum_memcpy\<close> and \<^verbatim>\<open>gum_memmove\<close>.\<close>

definition copy_byte :: "gpointer \<Rightarrow> gpointer \<Rightarrow> nat \<Rightarrow> memory \<Rightarrow> memory" where
  "copy_byte dst src i m = m(dst + of_nat i := m (src + of_nat i))"

definition gum_memcpy :: "memory \<Rightarrow> gpointer \<Rightarrow> gpointer \<Rightarrow> 64 word \<Rightarrow> memory" where
  "gum_memcpy m dst src n = fold (copy_byte dst src) [0..<unat n] m"

definition gum_memmove :: "memory \<Rightarrow> gpointer \<Rightarrow> gpointer \<Rightarrow> 64 word \<Rightarrow> memory" where
  "gum_memmove m dst src n =
     (if dst < src then fold (copy_byte dst src) [0..<unat n] m
      else if src < dst then fold (copy_byte dst src) (rev [0..<unat n]) m
      else m)"

section \<open>What they write\<close>

lemma offset_eq: "k < 2 ^ 64 \<Longrightarrow> x = dst + of_nat k \<longleftrightarrow> unat (x - dst) = k" for x dst :: gpointer
proof
  assume "k < 2 ^ 64" and "x = dst + of_nat k"
  then show "unat (x - dst) = k" by (simp add: unat_of_nat)
next
  assume "unat (x - dst) = k"
  then have "of_nat k = x - dst" by auto
  then show "x = dst + of_nat k" by simp
qed

lemma gum_memset_apply: "gum_memset m dst c n x = (if in_range x dst (unat n) then ucast c else m x)"
proof -
  have "k \<le> 2 ^ 64 \<Longrightarrow> fold (\<lambda>offset m. m(dst + of_nat offset := ucast c)) [0..<k] m x =
      (if in_range x dst k then ucast c else m x)" for k
  proof (induction k)
    case (Suc k)
    have "x = dst + of_nat k \<longleftrightarrow> unat (x - dst) = k" using Suc.prems by (intro offset_eq) simp
    then show ?case using Suc by (auto simp: in_range_def less_Suc_eq)
  qed (simp add: in_range_def)
  from this [of "unat n"] show ?thesis using unsigned_less [of n, where 'a = nat] by (simp add: gum_memset_def)
qed

lemma copy_byte_apply: "copy_byte dst src i m x = (if x = dst + of_nat i then m (src + of_nat i) else m x)"
  by (simp add: copy_byte_def)

text \<open>Copying upwards is right when the source is not below the destination, or the two are apart.\<close>

lemma copy_up:
  assumes "\<forall>i < n. \<not> in_range (src + of_nat i) dst i" and "n \<le> 2 ^ 64"
  shows "fold (copy_byte dst src) [0..<n] m x =
    (if in_range x dst n then m (src + (x - dst)) else m x)"
  using assms
proof (induction n arbitrary: x)
  case (Suc n)
  let ?f = "fold (copy_byte dst src) [0..<n] m"
  have IH: "?f y = (if in_range y dst n then m (src + (y - dst)) else m y)" for y
    using Suc.prems by (intro Suc.IH) simp_all
  have "?f (src + of_nat n) = m (src + of_nat n)" using IH [of "src + of_nat n"] Suc.prems(1) by simp
  moreover have "x = dst + of_nat n \<longleftrightarrow> unat (x - dst) = n" using Suc.prems(2) by (intro offset_eq) simp
  ultimately show ?case using IH [of x] copy_byte_apply [of dst src n ?f x] by (auto simp: in_range_def less_Suc_eq)
qed (simp add: in_range_def)

lemma copy_down:
  assumes "k \<le> n" and "\<forall>i < n. \<forall>j. i < j \<and> j < n \<longrightarrow> src + of_nat i \<noteq> dst + of_nat j" and "n \<le> 2 ^ 64"
  shows "fold (copy_byte dst src) (rev [n - k..<n]) m x =
    (if n - k \<le> unat (x - dst) \<and> unat (x - dst) < n then m (src + (x - dst)) else m x)"
  using assms(1)
proof (induction k arbitrary: x)
  case (Suc k)
  let ?f = "fold (copy_byte dst src) (rev [n - k..<n]) m"
  define i where "i = n - Suc k"
  have i: "i < n" "n - k = Suc i" using Suc.prems by (simp_all add: i_def)
  have IH: "?f y = (if Suc i \<le> unat (y - dst) \<and> unat (y - dst) < n then m (src + (y - dst)) else m y)" for y
    using Suc.IH [of y] Suc.prems by (simp add: i)
  have "src + of_nat i = dst + of_nat (unat (src + of_nat i - dst))" by simp
  with i assms(2) have "\<not> (Suc i \<le> unat (src + of_nat i - dst) \<and> unat (src + of_nat i - dst) < n)" by (metis Suc_le_lessD)
  then have s: "?f (src + of_nat i) = m (src + of_nat i)" using IH [of "src + of_nat i"] by auto
  have "rev [i..<n] = rev [n - k..<n] @ [i]" using i by (simp add: upt_conv_Cons)
  then have "fold (copy_byte dst src) (rev [n - Suc k..<n]) m =
      ?f(dst + of_nat i := ?f (src + of_nat i))" by (simp add: copy_byte_def flip: i_def)
  moreover have "x = dst + of_nat i \<longleftrightarrow> unat (x - dst) = i" using i assms(3) by (intro offset_eq) simp
  ultimately show ?case using IH [of x] i s by (auto simp: Suc_le_eq simp flip: i_def)
qed auto

lemma copied: "(\<lambda>x. if in_range x dst n then m (src + (x - dst)) else m x) = write_bytes m dst (read_bytes m src n)"
  if "n \<le> 2 ^ 64"
proof
  fix x
  show "(if in_range x dst n then m (src + (x - dst)) else m x) = write_bytes m dst (read_bytes m src n) x"
    using that by (simp add: write_bytes_apply in_range_def nth_read_bytes)
qed

lemma gum_memcpy_bytes:
  assumes "disjoint_ranges src (unat n) dst (unat n)"
  shows "gum_memcpy m dst src n = write_bytes m dst (read_bytes m src (unat n))"
proof -
  have n: "unat n \<le> 2 ^ 64" using unsigned_less [of n, where 'a = nat] by simp
  have "\<not> in_range (src + of_nat i) dst i" if "i < unat n" for i
    using disjoint_not_in_range [OF assms that] that by (simp add: in_range_def)
  with copy_up [OF _ n, of src dst m] have "gum_memcpy m dst src n = (\<lambda>x. if in_range x dst (unat n) then m (src + (x - dst)) else m x)"
    by (auto simp: gum_memcpy_def)
  then show ?thesis by (simp add: copied [OF n])
qed

lemma gum_memmove_nothing: "gum_memmove m dst src 0 = m"
  by (simp add: gum_memmove_def)

lemma gum_memmove_bytes:
  assumes "unat src + unat n \<le> 2 ^ 64" and "unat dst + unat n \<le> 2 ^ 64"
  shows "gum_memmove m dst src n = write_bytes m dst (read_bytes m src (unat n))"
proof -
  have n: "unat n \<le> 2 ^ 64" using assms(1) by linarith
  have at: "unat (src + of_nat i) = unat src + i" "unat (dst + of_nat i) = unat dst + i" if "i < unat n" for i
    using that assms by (simp_all add: unat_word_ariths unat_of_nat)
  consider (up) "dst < src" | (down) "src < dst" | (same) "src = dst" by (metis not_less_iff_gr_or_eq)
  then have "gum_memmove m dst src n = (\<lambda>x. if in_range x dst (unat n) then m (src + (x - dst)) else m x)"
  proof cases
    case up
    have "\<not> in_range (src + of_nat i) dst i" if "i < unat n" for i
    proof -
      have "dst \<le> src + of_nat i" using up at [OF that] by (simp add: word_le_nat_alt word_less_nat_alt)
      then have "unat (src + of_nat i - dst) = unat src + i - unat dst" using at [OF that] by (simp add: unat_sub word_le_nat_alt)
      then show ?thesis using up by (simp add: in_range_def word_less_nat_alt)
    qed
    with copy_up [OF _ n, of src dst m] up show ?thesis by (auto simp: gum_memmove_def)
  next
    case down
    have "src + of_nat i \<noteq> dst + of_nat j" if "i < j" "j < unat n" for i j
    proof -
      have "unat (src + of_nat i) < unat (dst + of_nat j)"
        using at(1) [of i] at(2) [of j] that down by (simp add: word_less_nat_alt del: unat_of_nat)
      then show ?thesis by auto
    qed
    with copy_down [OF order_refl _ n, of src dst m] down show ?thesis by (auto simp: gum_memmove_def in_range_def)
  next
    case same
    then show ?thesis by (auto simp: gum_memmove_def)
  qed
  then show ?thesis by (simp add: copied [OF n])
qed

end
