(* ===== verification/Gum_Metal_Array.thy ===== *)
theory Gum_Metal_Array
  imports Gum_Memory Gum_Libc
begin

text \<open>
  \<^verbatim>\<open>src/frida-gum/gum/gummetalarray.c\<close>: an array of elements of one size on pages of its own, which it
  replaces by more pages as it grows. It does not use the heap, so the cloak and the code that runs while threads are
  stopped can use it. Sizes are computed in 32 bits, as in the code.
\<close>

section \<open>Operations\<close>

record GumMetalArray =
  ma_data :: gpointer
  ma_length :: guint
  ma_capacity :: guint
  ma_element_size :: guint

definition gum_metal_array_init :: "kernel \<Rightarrow> vm \<Rightarrow> guint \<Rightarrow> (GumMetalArray \<times> vm) option" where
  "gum_metal_array_init k v element_size =
     (case gum_alloc_n_pages k v 1 GUM_PAGE_RW of
        None \<Rightarrow> None
      | Some (data, v) \<Rightarrow>
          if element_size = 0 then None
          else Some (\<lparr>ma_data = data, ma_length = 0, ma_capacity = k_page_size k div element_size,
                      ma_element_size = element_size\<rparr>, v))"

definition gum_metal_array_free :: "kernel \<Rightarrow> vm \<Rightarrow> GumMetalArray \<Rightarrow> GumMetalArray \<times> vm" where
  "gum_metal_array_free k v self =
     (let self = self\<lparr>ma_element_size := 0\<rparr>;
          self = self\<lparr>ma_capacity := 0, ma_length := 0\<rparr>;
          v = gum_free_pages k v (ma_data self)
      in (self\<lparr>ma_data := 0\<rparr>, v))"

definition gum_metal_array_element_at :: "GumMetalArray \<Rightarrow> guint \<Rightarrow> gpointer" where
  "gum_metal_array_element_at self i = ma_data self + ucast (i * ma_element_size self)"

definition gum_metal_array_ensure_capacity ::
    "kernel \<Rightarrow> vm \<Rightarrow> GumMetalArray \<Rightarrow> guint \<Rightarrow> (GumMetalArray \<times> vm) option" where
  "gum_metal_array_ensure_capacity k v self capacity =
     (if capacity \<le> ma_capacity self then Some (self, v)
      else
        let size_in_bytes = capacity * ma_element_size self;
            page_size = k_page_size k;
            size_in_pages = size_in_bytes div page_size;
            size_in_pages = (if size_in_bytes mod page_size \<noteq> 0 then size_in_pages + 1 else size_in_pages)
        in case gum_alloc_n_pages k v size_in_pages GUM_PAGE_RW of
             None \<Rightarrow> None
           | Some (new_data, v) \<Rightarrow>
               (let v = v\<lparr>vm_mem := gum_memcpy (vm_mem v) new_data (ma_data self)
                                     (ucast (ma_length self * ma_element_size self))\<rparr>;
                    v = gum_free_pages k v (ma_data self);
                    self = self\<lparr>ma_data := new_data\<rparr>;
                    self = self\<lparr>ma_capacity := size_in_pages * page_size div ma_element_size self\<rparr>
                in Some (self, v)))"

definition gum_metal_array_insert_at ::
    "kernel \<Rightarrow> vm \<Rightarrow> GumMetalArray \<Rightarrow> guint \<Rightarrow> (gpointer \<times> GumMetalArray \<times> vm) option" where
  "gum_metal_array_insert_at k v self i =
     (case gum_metal_array_ensure_capacity k v self (ma_length self + 1) of
        None \<Rightarrow> None
      | Some (self, v) \<Rightarrow>
          (let element = gum_metal_array_element_at self i;
               v = v\<lparr>vm_mem := gum_memmove (vm_mem v) (gum_metal_array_element_at self (i + 1)) element
                                (ucast ((ma_length self - i) * ma_element_size self))\<rparr>;
               self = self\<lparr>ma_length := ma_length self + 1\<rparr>
           in Some (element, self, v)))"

definition gum_metal_array_remove_at :: "vm \<Rightarrow> GumMetalArray \<Rightarrow> guint \<Rightarrow> GumMetalArray \<times> vm" where
  "gum_metal_array_remove_at v self i =
     (let v = (if i \<noteq> ma_length self - 1
               then v\<lparr>vm_mem := gum_memmove (vm_mem v) (gum_metal_array_element_at self i)
                        (gum_metal_array_element_at self (i + 1))
                        (ucast ((ma_length self - i - 1) * ma_element_size self))\<rparr>
               else v)
      in (self\<lparr>ma_length := ma_length self - 1\<rparr>, v))"

definition gum_metal_array_remove_all :: "GumMetalArray \<Rightarrow> GumMetalArray" where
  "gum_metal_array_remove_all self = self\<lparr>ma_length := 0\<rparr>"

definition gum_metal_array_append :: "kernel \<Rightarrow> vm \<Rightarrow> GumMetalArray \<Rightarrow> (gpointer \<times> GumMetalArray \<times> vm) option" where
  "gum_metal_array_append k v self =
     (case gum_metal_array_ensure_capacity k v self (ma_length self + 1) of
        None \<Rightarrow> None
      | Some (self, v) \<Rightarrow>
          Some (gum_metal_array_element_at self (ma_length self), self\<lparr>ma_length := ma_length self + 1\<rparr>, v))"

definition gum_round_up_to_page_size :: "kernel \<Rightarrow> guint \<Rightarrow> guint" where
  "gum_round_up_to_page_size k sz = (let page_mask = k_page_size k - 1 in (sz + page_mask) AND NOT page_mask)"

text \<open>The first address of the array's pages, with the page in front of them, and the address behind the last.\<close>

definition gum_metal_array_get_extents :: "kernel \<Rightarrow> GumMetalArray \<Rightarrow> gpointer \<times> gpointer" where
  "gum_metal_array_get_extents k self =
     (let sz = ucast (gum_metal_array_element_at self (ma_capacity self) - ma_data self);
          r = gum_query_page_allocation_range k (ma_data self) (gum_round_up_to_page_size k sz)
      in (base_address r, base_address r + range_size r))"

section \<open>Pages\<close>

text \<open>
  What the kernel does for processes beyond \<open>well_behaved\<close>: a page has at least 4096 bytes, and no mapping reaches
  the end of the address space.
\<close>

definition user_space :: "kernel \<Rightarrow> bool" where
  "user_space k \<longleftrightarrow> well_behaved k \<and> 4096 \<le> k_page_size k \<and>
     (\<forall>l a s p. k_mmap k l a s p \<noteq> MAP_FAILED \<longrightarrow> unat (k_mmap k l a s p) + unat s < 2 ^ 64)"

abbreviation page :: "kernel \<Rightarrow> nat" where
  "page k \<equiv> unat (k_page_size k)"

text \<open>
  Pages handed out by \<^verbatim>\<open>gum_alloc_n_pages\<close> at \<open>p\<close>: in front of them is a page that holds the size of the whole
  mapping. \<open>owned\<close> is the mapping according to that page, \<open>pages_at\<close> that it is what it should be.
\<close>

definition owned_size :: "kernel \<Rightarrow> vm \<Rightarrow> gpointer \<Rightarrow> gsize" where
  "owned_size k v p = of_le (read_bytes (vm_mem v) (p - gum_query_page_size k) 8)"

definition owned :: "kernel \<Rightarrow> vm \<Rightarrow> gpointer \<Rightarrow> gpointer \<Rightarrow> bool" where
  "owned k v p x \<longleftrightarrow> in_range x (p - gum_query_page_size k) (unat (owned_size k v p))"

definition pages_at :: "kernel \<Rightarrow> vm \<Rightarrow> gpointer \<Rightarrow> nat \<Rightarrow> bool" where
  "pages_at k v p n \<longleftrightarrow> unat (owned_size k v p) = (1 + n) * page k \<and> page k \<le> unat p \<and> unat p + n * page k < 2 ^ 64 \<and>
     (p - gum_query_page_size k) AND (gum_query_page_size k - 1) = 0 \<and> (\<forall>x. owned k v p x \<longrightarrow> mapped (vm_log v) x)"

lemma page_facts:
  assumes "user_space k"
  shows "4096 \<le> page k" "unat (gum_query_page_size k) = page k" "page k \<le> 2 ^ 31"
proof -
  from assms obtain b where b: "b < 32" "k_page_size k = 2 ^ b" by (auto simp: user_space_def well_behaved_def)
  show "4096 \<le> page k" using assms by (simp add: user_space_def word_le_nat_alt)
  have "page k < 2 ^ 32" using unsigned_less [of "k_page_size k", where 'a = nat] by simp
  then show "unat (gum_query_page_size k) = page k" by (simp add: gum_query_page_size_def unsigned_ucast_eq take_bit_nat_eq_self)
  have "(2 :: nat) ^ b < 2 ^ 32" using b(1) by (intro power_strict_increasing) auto
  moreover have "k_page_size k = of_nat (2 ^ b)" using b(2) by simp
  ultimately have "page k = 2 ^ b" by (simp only: unat_of_nat) simp
  then show "page k \<le> 2 ^ 31" using b(1) power_increasing [of b 31 "2 :: nat"] by simp
qed

lemma owned_data:
  assumes "pages_at k v p n" and "user_space k" and "i < n * page k"
  shows "owned k v p (p + of_nat i)"
proof -
  have "i + page k < 2 ^ 64" using assms(3) assms(1) by (simp add: pages_at_def)
  then have "unat (p + of_nat i - (p - gum_query_page_size k)) = i + page k"
    using page_facts [OF assms(2)] by (simp add: unat_word_ariths unat_of_nat)
  then show ?thesis using assms(1,3) by (simp add: owned_def in_range_def pages_at_def)
qed

lemma owned_header:
  assumes "pages_at k v p n" and "user_space k" and "i < page k"
  shows "owned k v p (p - gum_query_page_size k + of_nat i)"
proof -
  have "i < 2 ^ 64" using assms(3) page_facts(3) [OF assms(2)] by simp
  then have "unat (of_nat i :: gpointer) = i" by (simp add: unat_of_nat)
  then show ?thesis using assms(1,3) by (simp add: owned_def in_range_def pages_at_def)
qed

text \<open>Pages stay what they are as long as nobody touches them.\<close>

definition untouched :: "(gpointer \<Rightarrow> bool) \<Rightarrow> vm \<Rightarrow> vm \<Rightarrow> bool" where
  "untouched P v v' \<longleftrightarrow> (\<forall>x. P x \<longrightarrow> vm_mem v' x = vm_mem v x \<and> (mapped (vm_log v) x \<longrightarrow> mapped (vm_log v') x))"

lemma owned_size_untouched:
  assumes "pages_at k v p n" and "user_space k" and "untouched (owned k v p) v v'"
  shows "owned_size k v' p = owned_size k v p" "owned k v' p = owned k v p"
proof -
  have "read_bytes (vm_mem v') (p - gum_query_page_size k) 8 = read_bytes (vm_mem v) (p - gum_query_page_size k) 8"
    using owned_header [OF assms(1,2)] page_facts(1) [OF assms(2)] assms(3) by (intro read_bytes_cong) (simp add: untouched_def)
  then show "owned_size k v' p = owned_size k v p" by (simp add: owned_size_def)
  then show "owned k v' p = owned k v p" by (simp add: owned_def fun_eq_iff)
qed

lemma pages_untouched:
  assumes "pages_at k v p n" and "user_space k" and "untouched (owned k v p) v v'"
  shows "pages_at k v' p n"
  using assms(1) owned_size_untouched [OF assms] assms(3) by (simp add: pages_at_def untouched_def)

lemma data_untouched:
  assumes "pages_at k v p n" and "user_space k" and "untouched (owned k v p) v v'" and "i + j \<le> n * page k"
  shows "read_bytes (vm_mem v') (p + of_nat i) j = read_bytes (vm_mem v) (p + of_nat i) j"
proof (rule read_bytes_cong)
  fix l assume "l < j"
  with assms(4) have "owned k v p (p + of_nat (i + l))" by (intro owned_data [OF assms(1,2)]) simp
  then show "vm_mem v' (p + of_nat i + of_nat l) = vm_mem v (p + of_nat i + of_nat l)"
    using assms(3) by (simp add: untouched_def add.assoc)
qed

lemma alloc_pages:
  assumes "user_space k" and "gum_alloc_n_pages k v n prot = Some (p, v')" and "unat n + 1 < 2 ^ 32"
  shows "pages_at k v' p (unat n)" "untouched (mapped (vm_log v)) v v'"
    "\<And>x. mapped (vm_log v') x \<longleftrightarrow> mapped (vm_log v) x \<or> owned k v' p x" "\<And>x. owned k v' p x \<Longrightarrow> \<not> mapped (vm_log v) x"
proof -
  define ps where "ps = gum_query_page_size k"
  define sz where "sz = ucast (1 + n) * ps"
  note pg = page_facts [OF assms(1)]
  have wb: "well_behaved k" using assms(1) by (simp add: user_space_def)
  have "unat (1 + n) = 1 + unat n" using assms(3) by (simp add: unat_word_ariths)
  moreover have "unat (ucast (1 + n) :: gsize) = unat (1 + n)"
    using unsigned_less [of "1 + n", where 'a = nat] by (simp add: unsigned_ucast_eq take_bit_nat_eq_self)
  ultimately have n: "unat (ucast (1 + n) :: gsize) = 1 + unat n" by simp
  have "(1 + unat n) * page k \<le> (2 ^ 32 - 1) * 2 ^ 31" using assms(3) pg(3) by (intro mult_mono) auto
  then have sz: "unat sz = (1 + unat n) * page k" using n pg(2) by (simp add: sz_def ps_def unat_word_ariths)
  have "sz AND (ps - 1) = 0" unfolding sz_def ps_def by (rule pages_aligned [OF wb])
  then have aligned: "sz AND (gum_query_page_size k - 1) = 0" by (simp add: ps_def)
  from allocate_pages [OF wb aligned, of v prot 0] obtain a where
    al: "gum_memory_allocate k v 0 sz ps prot =
      (let r = k_mmap k (vm_log v) a sz (gum_page_protection_to_posix prot) in Some (if r = MAP_FAILED then 0 else r, v\<lparr>vm_log := Mmap a sz r # vm_log v\<rparr>))"
    unfolding Let_def ps_def [symmetric] by blast
  define r where "r = k_mmap k (vm_log v) a sz (gum_page_protection_to_posix prot)"
  define v1 where "v1 = v\<lparr>vm_log := Mmap a sz r # vm_log v\<rparr>"
  have near: "gum_memory_allocate_near k v None sz ps prot = Some (if r = MAP_FAILED then 0 else r, v1)"
    by (simp add: gum_memory_allocate_near_def al r_def v1_def Let_def)
  have ok: "r \<noteq> MAP_FAILED"
    using assms(2) near by (auto simp: gum_alloc_n_pages_def gum_try_alloc_n_pages_def gum_try_alloc_n_pages_near_def Let_def
        sz_def ps_def split: if_splits)
  then have r: "r \<noteq> 0" "\<And>x. in_range x r (unat sz) \<Longrightarrow> \<not> mapped (vm_log v) x" "r AND (ps - 1) = 0"
    using mmap_promise [OF wb, of "vm_log v" a sz "gum_page_protection_to_posix prot"] by (auto simp: r_def ps_def)
  have space: "unat r + unat sz < 2 ^ 64" using assms(1) ok unfolding user_space_def r_def by blast
  from assms(2) near ok r(1) obtain v2 where
    v2: "(if prot AND GUM_PAGE_WRITE = 0 then gum_mprotect k v1 r ps GUM_PAGE_RW else Some v1) = Some v2"
      "gum_mprotect k (v2\<lparr>vm_mem := write_bytes (vm_mem v2) r (le64 sz)\<rparr>) r ps GUM_PAGE_READ = Some v'" "p = r + ps"
    unfolding gum_alloc_n_pages_def gum_try_alloc_n_pages_def gum_try_alloc_n_pages_near_def Let_def ps_def [symmetric] sz_def [symmetric]
    by (auto split: option.splits if_splits)
  have v2v: "vm_mem v2 = vm_mem v" "mapped (vm_log v2) x = mapped (vm_log v1) x" for x
    using v2(1) by (auto dest: mprotect_log simp: v1_def split: if_splits)
  have mem: "vm_mem v' = write_bytes (vm_mem v) r (le64 sz)" and log: "mapped (vm_log v') x = mapped (vm_log v1) x" for x
    using mprotect_log [OF v2(2)] v2v by simp_all
  have "p - gum_query_page_size k = r" using v2(3) by (simp add: ps_def)
  then have own: "owned_size k v' p = sz" "owned k v' p x = in_range x r (unat sz)" for x
    using read_write_bytes [of "le64 sz" "vm_mem v" r] by (simp_all add: owned_size_def owned_def mem)
  have "unat r + page k < 2 ^ 64" using space sz by simp
  then have "unat p = unat r + page k"
    using pg(2) by (simp add: v2(3) ps_def unat_word_ariths)
  then show "pages_at k v' p (unat n)"
    using space sz own log ok r(3) by (auto simp: pages_at_def v1_def v2(3) ps_def)
  show "\<And>x. mapped (vm_log v') x \<longleftrightarrow> mapped (vm_log v) x \<or> owned k v' p x" "\<And>x. owned k v' p x \<Longrightarrow> \<not> mapped (vm_log v) x"
    using log own r(2) ok by (auto simp: v1_def)
  have "\<not> in_range x r 8" if "mapped (vm_log v) x" for x
  proof -
    have "\<not> in_range x r (unat sz)" using r(2) that by blast
    moreover have "8 \<le> unat sz" using sz pg(1) by simp
    ultimately show ?thesis by (simp add: in_range_def)
  qed
  then show "untouched (mapped (vm_log v)) v v'"
    using log by (auto simp: untouched_def mem v1_def write_bytes_other)
qed

lemma free_pages:
  assumes "user_space k" "pages_at k v p n"
  shows "vm_mem (gum_free_pages k v p) = vm_mem v"
    "\<And>x. mapped (vm_log (gum_free_pages k v p)) x \<longleftrightarrow> mapped (vm_log v) x \<and> \<not> owned k v p x"
  using assms free_mapped [of k "p - gum_query_page_size k" v "owned_size k v p"]
  by (simp_all add: gum_free_pages_def gum_memory_release_def Let_def owned_def owned_size_def user_space_def pages_at_def)

section \<open>The array on its pages\<close>

definition array_ok :: "kernel \<Rightarrow> vm \<Rightarrow> GumMetalArray \<Rightarrow> bool" where
  "array_ok k v a \<longleftrightarrow> 0 < unat (ma_element_size a) \<and> ma_length a \<le> ma_capacity a \<and>
     (\<exists>n. pages_at k v (ma_data a) n \<and> n * page k < 2 ^ 32 \<and> unat (ma_capacity a) = n * page k div unat (ma_element_size a))"

definition array_element :: "vm \<Rightarrow> GumMetalArray \<Rightarrow> nat \<Rightarrow> guint8 list" where
  "array_element v a i = read_bytes (vm_mem v) (ma_data a + of_nat (i * unat (ma_element_size a))) (unat (ma_element_size a))"

definition array_elements :: "vm \<Rightarrow> GumMetalArray \<Rightarrow> guint8 list list" where
  "array_elements v a = map (array_element v a) [0..<unat (ma_length a)]"

lemma length_array_elements [simp]: "length (array_elements v a) = unat (ma_length a)"
  by (simp add: array_elements_def)

lemma nth_array_elements [simp]: "i < unat (ma_length a) \<Longrightarrow> array_elements v a ! i = array_element v a i"
  by (simp add: array_elements_def)

text \<open>
  Between two states of memory, an operation on an array touches the mapping of the array and memory that was free, and
  releases what it does not own afterwards.
\<close>

definition localised :: "kernel \<Rightarrow> vm \<Rightarrow> gpointer \<Rightarrow> vm \<Rightarrow> gpointer \<Rightarrow> bool" where
  "localised k v p v' p' \<longleftrightarrow>
     (\<forall>x. mapped (vm_log v') x \<longleftrightarrow> mapped (vm_log v) x \<and> \<not> owned k v p x \<or> owned k v' p' x) \<and>
     (\<forall>x. owned k v' p' x \<longrightarrow> owned k v p x \<or> \<not> mapped (vm_log v) x) \<and>
     (\<forall>x. mapped (vm_log v) x \<and> \<not> owned k v p x \<longrightarrow> vm_mem v' x = vm_mem v x)"

lemma localised_trans: "localised k v p v1 p1 \<Longrightarrow> localised k v1 p1 v2 p2 \<Longrightarrow> localised k v p v2 p2"
  unfolding localised_def by metis

lemma localised_refl: "pages_at k v p n \<Longrightarrow> localised k v p v p"
  by (auto simp: localised_def pages_at_def)

lemma element_address:
  assumes "array_ok k v a" and "i \<le> ma_capacity a"
  shows "gum_metal_array_element_at a i = ma_data a + of_nat (unat i * unat (ma_element_size a))"
proof -
  from assms(1) obtain n where n: "n * page k < 2 ^ 32" "unat (ma_capacity a) = n * page k div unat (ma_element_size a)"
    by (auto simp: array_ok_def)
  have "unat i * unat (ma_element_size a) \<le> unat (ma_capacity a) * unat (ma_element_size a)"
    using assms(2) by (intro mult_right_mono) (simp_all add: word_le_nat_alt)
  then have "unat i * unat (ma_element_size a) < 2 ^ 32" using n div_times_less_eq_dividend [of "n * page k"] by (metis le_less_trans)
  then have "unat (i * ma_element_size a) = unat i * unat (ma_element_size a)" by (simp add: unat_word_ariths)
  moreover have "(ucast (i * ma_element_size a) :: gpointer) = of_nat (unat (i * ma_element_size a))" by simp
  ultimately show ?thesis by (simp add: gum_metal_array_element_at_def)
qed

lemma array_space:
  assumes "array_ok k v a" "pages_at k v (ma_data a) n" "user_space k"
  shows "unat (ma_capacity a) * unat (ma_element_size a) \<le> n * page k" "n * page k < 2 ^ 32"
    "unat (ma_data a) + n * page k < 2 ^ 64"
proof -
  from assms(1) obtain n' where n': "pages_at k v (ma_data a) n'" "n' * page k < 2 ^ 32"
    "unat (ma_capacity a) = n' * page k div unat (ma_element_size a)" by (auto simp: array_ok_def)
  have "(1 + n') * page k = (1 + n) * page k" using assms(2) n'(1) unfolding pages_at_def by metis
  then have "n' = n" using page_facts(1) [OF assms(3)] by simp
  then show "unat (ma_capacity a) * unat (ma_element_size a) \<le> n * page k" "n * page k < 2 ^ 32"
    "unat (ma_data a) + n * page k < 2 ^ 64"
    using n'(2,3) assms(2) by (simp_all add: pages_at_def)
qed

lemma slot_space: "i < c \<Longrightarrow> c * e \<le> N \<Longrightarrow> i * e + e \<le> N" for i :: nat
proof -
  assume "i < c" "c * e \<le> N"
  then have "(i + 1) * e \<le> c * e" by (intro mult_right_mono) simp_all
  with \<open>c * e \<le> N\<close> show ?thesis by simp
qed

lemma array_untouched:
  assumes "array_ok k v a" and "user_space k" and "untouched (owned k v (ma_data a)) v v'"
  shows "array_ok k v' a" "array_elements v' a = array_elements v a"
proof -
  from assms(1) obtain n where n: "pages_at k v (ma_data a) n" by (auto simp: array_ok_def)
  have "pages_at k v (ma_data a) m \<Longrightarrow> pages_at k v' (ma_data a) m" for m
    by (rule pages_untouched [OF _ assms(2,3)])
  then show "array_ok k v' a" using assms(1) by (auto simp: array_ok_def)
  have "array_element v' a i = array_element v a i" if "i < unat (ma_length a)" for i
    unfolding array_element_def
  proof (rule data_untouched [OF n assms(2,3)])
    have "i < unat (ma_capacity a)" using that assms(1) by (simp add: array_ok_def word_le_nat_alt)
    then show "i * unat (ma_element_size a) + unat (ma_element_size a) \<le> n * page k"
      using array_space(1) [OF assms(1) n assms(2)] by (rule slot_space)
  qed
  then show "array_elements v' a = array_elements v a" by (simp add: array_elements_def)
qed

text \<open>What other owners of pages see of an operation.\<close>

lemma localised_others:
  assumes "localised k v p v' p'" and "\<forall>x. owned k v q x \<longrightarrow> mapped (vm_log v) x \<and> \<not> owned k v p x"
  shows "untouched (owned k v q) v v'"
  using assms unfolding localised_def untouched_def by blast

section \<open>Writing to the array's pages\<close>

definition store :: "vm \<Rightarrow> gpointer \<Rightarrow> guint8 list \<Rightarrow> vm" where
  "store v p bs = v\<lparr>vm_mem := write_bytes (vm_mem v) p bs\<rparr>"

lemma write_at_offset:
  assumes "off + length bs \<le> N" "o' < N" "N \<le> 2 ^ 64"
  shows "write_bytes m (p + of_nat off) bs (p + of_nat o') =
    (if off \<le> o' \<and> o' < off + length bs then bs ! (o' - off) else m (p + of_nat o'))"
proof (cases "length bs = 0")
  case False
  then have small: "off < 2 ^ 64" "o' < 2 ^ 64" using assms by linarith+
  have "unat (p + of_nat o' - (p + of_nat off)) = (if off \<le> o' then o' - off else o' + 2 ^ 64 - off)"
    using small by (simp add: unat_sub_if' unat_of_nat)
  moreover have "length bs \<le> 2 ^ 64" using assms by linarith
  ultimately show ?thesis using assms by (auto simp: write_bytes_apply)
qed auto

lemma store_data:
  assumes "pages_at k v p n" and "user_space k" and "off + length bs \<le> n * page k"
  shows "owned k (store v (p + of_nat off) bs) p = owned k v p" "pages_at k (store v (p + of_nat off) bs) p n"
    "localised k v p (store v (p + of_nat off) bs) p"
    "i + j \<le> n * page k \<Longrightarrow> l < j \<Longrightarrow> read_bytes (vm_mem (store v (p + of_nat off) bs)) (p + of_nat i) j ! l =
      (if off \<le> i + l \<and> i + l < off + length bs then bs ! (i + l - off) else vm_mem v (p + of_nat (i + l)))"
proof -
  let ?v = "store v (p + of_nat off) bs"
  note pg = page_facts [OF assms(2)]
  have space: "page k \<le> unat p" "unat p + n * page k < 2 ^ 64" using assms(1) by (simp_all add: pages_at_def)
  have out: "vm_mem ?v x = vm_mem v x" if "\<not> (unat p \<le> unat x \<and> unat x < unat p + n * page k)" for x
  proof (cases "length bs = 0")
    case False
    then have "unat p + off < 2 ^ 64" "off < 2 ^ 64" using assms(3) space by linarith+
    then have "unat (p + of_nat off) = unat p + off" by (simp add: unat_word_ariths unat_of_nat)
    then have "unat (x - (p + of_nat off)) = (if unat p + off \<le> unat x then unat x - (unat p + off) else unat x + 2 ^ 64 - (unat p + off))"
      by (simp add: unat_sub_if')
    then have "\<not> in_range x (p + of_nat off) (length bs)" using that assms(3) space by (auto simp: in_range_def split: if_splits)
    then show ?thesis by (simp add: store_def write_bytes_other)
  qed (simp add: store_def)
  have "vm_mem ?v (p - gum_query_page_size k + of_nat i) = vm_mem v (p - gum_query_page_size k + of_nat i)" if "i < 8" for i
  proof (rule out)
    have "unat (p - gum_query_page_size k) = unat p - page k" using space(1) pg(2) by (simp add: unat_sub_if')
    then have "unat (p - gum_query_page_size k + of_nat i) = unat p - page k + i"
      using that space pg(1) unsigned_less [of p, where 'a = nat] by (simp add: unat_word_ariths unat_of_nat)
    then show "\<not> (unat p \<le> unat (p - gum_query_page_size k + of_nat i) \<and>
        unat (p - gum_query_page_size k + of_nat i) < unat p + n * page k)" using that space(1) pg(1) by linarith
  qed
  then have "read_bytes (vm_mem ?v) (p - gum_query_page_size k) 8 = read_bytes (vm_mem v) (p - gum_query_page_size k) 8"
    by (intro read_bytes_cong) blast
  then have size: "owned_size k ?v p = owned_size k v p" by (simp add: owned_size_def)
  then show own: "owned k ?v p = owned k v p" by (simp add: owned_def fun_eq_iff)
  have log: "vm_log ?v = vm_log v" by (simp add: store_def)
  show "pages_at k ?v p n" using assms(1) size own log by (simp add: pages_at_def)
  have "vm_mem ?v x = vm_mem v x" if "\<not> owned k v p x" for x
  proof (rule out, rule notI)
    assume x: "unat p \<le> unat x \<and> unat x < unat p + n * page k"
    then have "unat x - unat p < n * page k" by linarith
    from owned_data [OF assms(1,2) this] x that show False by (simp add: of_nat_diff)
  qed
  then show "localised k v p ?v p"
    using own log assms(1) unfolding localised_def by (auto simp: pages_at_def)
  assume i: "i + j \<le> n * page k" "l < j"
  have "read_bytes (vm_mem ?v) (p + of_nat i) j ! l = vm_mem ?v (p + of_nat (i + l))"
    using i by (simp add: nth_read_bytes add.assoc)
  moreover have "n * page k \<le> 2 ^ 64" using space by linarith
  ultimately show "read_bytes (vm_mem ?v) (p + of_nat i) j ! l =
      (if off \<le> i + l \<and> i + l < off + length bs then bs ! (i + l - off) else vm_mem v (p + of_nat (i + l)))"
    using write_at_offset [OF assms(3), of "i + l"] i unfolding store_def by simp
qed

section \<open>Growing\<close>

lemma owned_apart:
  assumes "pages_at k v p n" "pages_at k v q m" "user_space k" "\<forall>x. owned k v q x \<longrightarrow> \<not> owned k v p x"
    and "len \<le> n * page k" "len \<le> m * page k"
  shows "disjoint_ranges p len q len"
proof -
  have "len \<le> unat (b - a)" if "pages_at k v a i" "pages_at k v b j" "\<forall>x. owned k v b x \<longrightarrow> \<not> owned k v a x"
    "len \<le> i * page k" "len \<le> j * page k" for a b i j
  proof (rule ccontr)
    assume "\<not> len \<le> unat (b - a)"
    then have l: "unat (b - a) < i * page k" "0 < j * page k" using that(4,5) by linarith+
    from owned_data [OF that(1) assms(3) l(1)] have "owned k v a b" by simp
    moreover from owned_data [OF that(2) assms(3) l(2)] have "owned k v b b" by simp
    ultimately show False using that(3) by blast
  qed
  then show ?thesis using assms(1,2,4-6) unfolding disjoint_ranges_def by blast
qed

lemma pages_needed:
  assumes "user_space k" and "unat capacity * unat es + page k \<le> 2 ^ 32" and "0 < unat es"
    and "n = (let s = capacity * es; q = s div k_page_size k in if s mod k_page_size k \<noteq> 0 then q + 1 else q)"
  shows "unat n * page k < 2 ^ 32" "unat n + 1 < 2 ^ 32" "unat (n * k_page_size k div es) = unat n * page k div unat es"
    "unat capacity \<le> unat n * page k div unat es"
proof -
  note pg = page_facts [OF assms(1)]
  define s where "s = capacity * es"
  have s: "unat s = unat capacity * unat es" using assms(2) pg(1) by (simp add: s_def unat_word_ariths)
  have q: "unat (s div k_page_size k) = unat s div page k" "unat (s mod k_page_size k) = unat s mod page k"
    by (simp_all add: unat_div_distrib unat_mod_distrib)
  have "unat s div page k < 2 ^ 32 - 1"
  proof -
    have "unat s div page k \<le> unat s div 4096" using pg(1) by (intro div_le_mono2) simp_all
    then show ?thesis using unsigned_less [of s, where 'a = nat] by simp
  qed
  then have "unat (s div k_page_size k + 1) = unat s div page k + 1" using q(1) by (simp add: unat_word_ariths)
  moreover have "s mod k_page_size k = 0 \<longleftrightarrow> unat s mod page k = 0" using q(2) by (simp add: unat_eq_zero [symmetric] del: unat_eq_zero)
  ultimately have n: "unat n = unat s div page k + (if unat s mod page k = 0 then 0 else 1)"
    using assms(4) q(1) by (simp add: Let_def s_def [symmetric])
  define d r where "d = unat s div page k * page k" and "r = unat s mod page k"
  have "d + r = unat s" "r < page k" using pg(1) by (simp_all add: d_def r_def)
  moreover have "unat n * page k = d + (if r = 0 then 0 else page k)" using n by (simp add: d_def r_def)
  ultimately have bounds: "unat s \<le> unat n * page k" "unat n * page k < unat s + page k" by (auto split: if_splits)
  then show big: "unat n * page k < 2 ^ 32" using s assms(2) by linarith
  have "unat n * 4096 \<le> unat n * page k" using pg(1) by (intro mult_left_mono) simp_all
  then have "unat n * 4096 < 2 ^ 32" using big by (rule le_less_trans)
  then show "unat n + 1 < 2 ^ 32" by simp
  have "unat (n * k_page_size k) = unat n * page k" using big by (simp add: unat_word_ariths)
  then show "unat (n * k_page_size k div es) = unat n * page k div unat es" by (simp add: unat_div_distrib)
  have "unat capacity = unat capacity * unat es div unat es" using assms(3) by simp
  also have "\<dots> \<le> unat n * page k div unat es" using bounds(1) s by (intro div_le_mono) simp
  finally show "unat capacity \<le> unat n * page k div unat es" .
qed

text \<open>How an operation grows an array to at least the given number of elements, keeping what it holds.\<close>

definition fits :: "kernel \<Rightarrow> GumMetalArray \<Rightarrow> nat \<Rightarrow> bool" where
  "fits k a n \<longleftrightarrow> n * unat (ma_element_size a) + page k \<le> 2 ^ 32"

lemma ensure_capacity_ok:
  assumes "array_ok k v a" "user_space k" "fits k a (unat capacity)"
    and "gum_metal_array_ensure_capacity k v a capacity = Some (a', v')"
  shows "array_ok k v' a'" "capacity \<le> ma_capacity a'" "ma_length a' = ma_length a" "ma_element_size a' = ma_element_size a"
    "array_elements v' a' = array_elements v a" "localised k v (ma_data a) v' (ma_data a')"
proof -
  let ?es = "ma_element_size a"
  from assms(1) obtain n where n: "pages_at k v (ma_data a) n" by (auto simp: array_ok_def)
  have "array_ok k v' a' \<and> capacity \<le> ma_capacity a' \<and> ma_length a' = ma_length a \<and> ma_element_size a' = ?es \<and>
    array_elements v' a' = array_elements v a \<and> localised k v (ma_data a) v' (ma_data a')"
  proof (cases "capacity \<le> ma_capacity a")
    case True
    then have "a' = a" "v' = v" using assms(4) by (simp_all add: gum_metal_array_ensure_capacity_def)
    then show ?thesis using assms(1) True localised_refl [OF n] by simp
  next
    case False
    define m where "m = (let s = capacity * ?es; q = s div k_page_size k in if s mod k_page_size k \<noteq> 0 then q + 1 else q)"
    define len where "len = unat (ma_length a) * unat ?es"
    from assms(4) False obtain p v1 where al: "gum_alloc_n_pages k v m GUM_PAGE_RW = Some (p, v1)"
      and a': "a' = a\<lparr>ma_data := p, ma_capacity := m * k_page_size k div ?es\<rparr>"
      and v': "v' = gum_free_pages k (v1\<lparr>vm_mem := gum_memcpy (vm_mem v1) p (ma_data a) (ucast (ma_length a * ?es))\<rparr>) (ma_data a)"
      unfolding gum_metal_array_ensure_capacity_def m_def by (auto simp: Let_def split: option.splits)
    have es: "0 < unat ?es" and le: "ma_length a \<le> ma_capacity a" using assms(1) by (simp_all add: array_ok_def)
    note m = pages_needed [OF assms(2) assms(3) [unfolded fits_def] es m_def]
    note alloc = alloc_pages [OF assms(2) al m(2)]
    have own0: "owned k v (ma_data a) x \<Longrightarrow> mapped (vm_log v) x" for x using n by (simp add: pages_at_def)
    have "untouched (owned k v (ma_data a)) v v1" using alloc(2) own0 by (auto simp: untouched_def)
    note old = owned_size_untouched(2) [OF n assms(2) this] pages_untouched [OF n assms(2) this] array_untouched [OF assms(1,2) this]
    have apart: "\<forall>x. owned k v1 p x \<longrightarrow> \<not> owned k v1 (ma_data a) x" using alloc(4) own0 old(1) by auto
    have "len \<le> unat (ma_capacity a) * unat ?es" using le by (simp add: len_def word_le_nat_alt)
    then have small: "len \<le> n * page k" "len < 2 ^ 32" using array_space(1,2) [OF assms(1) n assms(2)] by linarith+
    have "len \<le> unat capacity * unat ?es" using le False by (simp add: len_def word_le_nat_alt)
    also have "\<dots> \<le> unat m * page k div unat ?es * unat ?es" using m(4) by (intro mult_right_mono) simp_all
    also have "\<dots> \<le> unat m * page k" by simp
    finally have fit: "len \<le> unat m * page k" .
    have L: "unat (ucast (ma_length a * ?es) :: gsize) = len"
      using small(2) by (simp add: len_def unat_word_ariths unsigned_ucast_eq take_bit_nat_eq_self)
    have "disjoint_ranges (ma_data a) len p len" by (rule owned_apart [OF old(2) alloc(1) assms(2) apart small(1) fit])
    with gum_memcpy_bytes [of "ma_data a" "ucast (ma_length a * ?es)" p "vm_mem v1"]
    have copied: "v1\<lparr>vm_mem := gum_memcpy (vm_mem v1) p (ma_data a) (ucast (ma_length a * ?es))\<rparr> =
        store v1 (p + of_nat 0) (read_bytes (vm_mem v1) (ma_data a) len)"
      by (simp add: L store_def)
    define v2 where "v2 = store v1 (p + of_nat 0) (read_bytes (vm_mem v1) (ma_data a) len)"
    have fit': "0 + length (read_bytes (vm_mem v1) (ma_data a) len) \<le> unat m * page k" using fit by simp
    note st = store_data [OF alloc(1) assms(2) fit', folded v2_def]
    have v': "v' = gum_free_pages k v2 (ma_data a)" using v' copied by (simp add: v2_def)
    have "\<forall>x. owned k v1 (ma_data a) x \<longrightarrow> mapped (vm_log v1) x \<and> \<not> owned k v1 p x"
      using old(2) apart unfolding pages_at_def by blast
    note aside = localised_others [OF st(3) this]
    have old2: "owned k v2 (ma_data a) = owned k v (ma_data a)"
      using aside owned_size_untouched(2) [OF old(2) assms(2)] old(1) by metis
    have still: "pages_at k v2 (ma_data a) n" by (rule pages_untouched [OF old(2) assms(2) aside])
    have mem: "vm_mem v' = vm_mem v2" and log: "mapped (vm_log v') x \<longleftrightarrow> mapped (vm_log v2) x \<and> \<not> owned k v (ma_data a) x" for x
      using free_pages [OF assms(2) still] old2 by (simp_all add: v')
    have "untouched (owned k v2 p) v2 v'" using mem log st(1) apart old(1) by (auto simp: untouched_def)
    note new = owned_size_untouched(2) [OF st(2) assms(2) this] pages_untouched [OF st(2) assms(2) this]
    have cap: "unat (ma_capacity a') = unat m * page k div unat ?es" "capacity \<le> ma_capacity a'"
      using m(3,4) by (simp_all add: a' word_le_nat_alt)
    have "ma_length a \<le> capacity" using le False by (simp add: word_le_nat_alt)
    then have "ma_length a' \<le> ma_capacity a'" using order_trans [OF _ cap(2)] by (simp add: a')
    then have ok: "array_ok k v' a'" using new(2) m(1) es cap(1) by (auto simp: array_ok_def a')
    have "array_element v' a' i = array_element v1 a i" if i: "i < unat (ma_length a)" for i
    proof (rule nth_equalityI)
      fix l assume "l < length (array_element v' a' i)"
      then have l: "l < unat ?es" by (simp add: array_element_def a')
      have bound: "i * unat ?es + unat ?es \<le> len" using slot_space [OF i, of "unat ?es" len] by (simp add: len_def)
      then have "i * unat ?es + unat ?es \<le> unat m * page k" using fit by linarith
      from st(4) [OF this l] l bound mem
      have "array_element v' a' i ! l = read_bytes (vm_mem v1) (ma_data a) len ! (i * unat ?es + l)"
        by (simp add: array_element_def a')
      with l bound show "array_element v' a' i ! l = array_element v1 a i ! l"
        by (simp add: array_element_def nth_read_bytes add.assoc)
    qed (simp add: array_element_def a')
    then have "array_elements v' a' = array_elements v1 a" by (simp add: array_elements_def a')
    moreover have "localised k v (ma_data a) v' p"
    proof -
      have "mapped (vm_log v2) x = mapped (vm_log v1) x" for x using st(1) alloc(3) st(3) unfolding localised_def by metis
      then have "mapped (vm_log v') x \<longleftrightarrow> mapped (vm_log v) x \<and> \<not> owned k v (ma_data a) x \<or> owned k v' p x" for x
        using log alloc(3,4) own0 st(1) new(1) by metis
      moreover have "vm_mem v' x = vm_mem v x" if "mapped (vm_log v) x" for x
      proof -
        have "\<not> owned k v1 p x" "mapped (vm_log v1) x" using alloc(3,4) that by blast+
        then have "vm_mem v2 x = vm_mem v1 x" using st(3) by (simp add: localised_def)
        then show ?thesis using mem alloc(2) that by (simp add: untouched_def)
      qed
      ultimately show ?thesis using st(1) new(1) alloc(4) unfolding localised_def by metis
    qed
    ultimately show ?thesis using ok cap(2) old(4) by (simp add: a')
  qed
  then show "array_ok k v' a'" "capacity \<le> ma_capacity a'" "ma_length a' = ma_length a" "ma_element_size a' = ma_element_size a"
    "array_elements v' a' = array_elements v a" "localised k v (ma_data a) v' (ma_data a')" by blast+
qed

section \<open>The operations on the elements\<close>

lemma array_keeps:
  assumes "array_ok k v a" "user_space k" "off + length bs \<le> n * page k" "pages_at k v (ma_data a) n"
  shows "array_ok k (store v (ma_data a + of_nat off) bs) a"
proof -
  have "pages_at k v (ma_data a) m \<Longrightarrow> m * page k < 2 ^ 32 \<Longrightarrow> m = n" for m
  proof -
    assume "pages_at k v (ma_data a) m"
    then have "(1 + m) * page k = (1 + n) * page k" using assms(4) unfolding pages_at_def by metis
    then show "m = n" using page_facts(1) [OF assms(2)] by simp
  qed
  then show ?thesis using assms(1) store_data(2) [OF assms(4,2,3)] unfolding array_ok_def by metis
qed

lemma store_element:
  assumes "array_ok k v a" "user_space k" "i < unat (ma_length a)" "length bs = unat (ma_element_size a)"
  shows "array_ok k (store v (gum_metal_array_element_at a (of_nat i)) bs) a"
    "array_elements (store v (gum_metal_array_element_at a (of_nat i)) bs) a = (array_elements v a)[i := bs]"
    "localised k v (ma_data a) (store v (gum_metal_array_element_at a (of_nat i)) bs) (ma_data a)"
proof -
  let ?es = "unat (ma_element_size a)"
  from assms(1) obtain n where n: "pages_at k v (ma_data a) n" by (auto simp: array_ok_def)
  have le: "unat (ma_length a) \<le> unat (ma_capacity a)" using assms(1) by (simp add: array_ok_def word_le_nat_alt)
  have u: "unat (of_nat i :: guint) = i"
    using assms(3) unsigned_less [of "ma_length a", where 'a = nat] by (simp add: unat_of_nat)
  then have "(of_nat i :: guint) \<le> ma_capacity a" using assms(3) le by (simp add: word_le_nat_alt)
  from element_address [OF assms(1) this] u
  have at: "gum_metal_array_element_at a (of_nat i) = ma_data a + of_nat (i * ?es)" by simp
  note space = array_space [OF assms(1) n assms(2)]
  have inside: "j * ?es + ?es \<le> n * page k" if "j < unat (ma_length a)" for j
    using that le by (intro slot_space [OF _ space(1)]) simp
  then have fit: "i * ?es + length bs \<le> n * page k" using assms(3,4) by simp
  note st = store_data [OF n assms(2) fit]
  show "array_ok k (store v (gum_metal_array_element_at a (of_nat i)) bs) a"
    using array_keeps [OF assms(1,2) fit n] at by simp
  show "localised k v (ma_data a) (store v (gum_metal_array_element_at a (of_nat i)) bs) (ma_data a)" using st(3) at by simp
  show "array_elements (store v (gum_metal_array_element_at a (of_nat i)) bs) a = (array_elements v a)[i := bs]"
  proof (rule nth_equalityI)
    fix j assume "j < length (array_elements (store v (gum_metal_array_element_at a (of_nat i)) bs) a)"
    then have j: "j < unat (ma_length a)" by simp
    have "array_element (store v (ma_data a + of_nat (i * ?es)) bs) a j = (if j = i then bs else array_element v a j)"
    proof (rule nth_equalityI)
      fix l assume "l < length (array_element (store v (ma_data a + of_nat (i * ?es)) bs) a j)"
      then have l: "l < ?es" by (simp add: array_element_def)
      have "i * ?es \<le> j * ?es + l \<and> j * ?es + l < i * ?es + ?es \<longleftrightarrow> j = i"
      proof (cases j i rule: linorder_cases)
        case less
        then have "(j + 1) * ?es \<le> i * ?es" by (intro mult_right_mono) simp_all
        then show ?thesis using l less by simp
      next
        case greater
        then have "(i + 1) * ?es \<le> j * ?es" by (intro mult_right_mono) simp_all
        then show ?thesis using l greater by simp
      qed (use l in simp)
      with st(4) [OF inside [OF j] l] assms(4) l
      show "array_element (store v (ma_data a + of_nat (i * ?es)) bs) a j ! l = (if j = i then bs else array_element v a j) ! l"
        by (auto simp: array_element_def nth_read_bytes add.assoc)
    qed (use assms(4) in \<open>simp add: array_element_def\<close>)
    then show "array_elements (store v (gum_metal_array_element_at a (of_nat i)) bs) a ! j = (array_elements v a)[i := bs] ! j"
      using j at by (simp add: nth_list_update)
  qed simp
qed

text \<open>Moving a run of elements to other slots.\<close>

lemma move_elements:
  assumes "array_ok k v a" "user_space k" "i + c \<le> unat (ma_capacity a)" "j + c \<le> unat (ma_capacity a)"
    and "v' = v\<lparr>vm_mem := gum_memmove (vm_mem v) (gum_metal_array_element_at a (of_nat j)) (gum_metal_array_element_at a (of_nat i))
           (ucast (of_nat c * ma_element_size a))\<rparr>"
  shows "array_ok k v' a" "localised k v (ma_data a) v' (ma_data a)"
    "\<And>l. l < unat (ma_capacity a) \<Longrightarrow> array_element v' a l =
       (if j \<le> l \<and> l < j + c then array_element v a (i + (l - j)) else array_element v a l)"
proof -
  let ?es = "unat (ma_element_size a)"
  from assms(1) obtain n where n: "pages_at k v (ma_data a) n" by (auto simp: array_ok_def)
  note space = array_space [OF assms(1) n assms(2)]
  have cap: "unat (ma_capacity a) < 2 ^ 32" using unsigned_less [of "ma_capacity a", where 'a = nat] by simp
  have at: "gum_metal_array_element_at a (of_nat x) = ma_data a + of_nat (x * ?es)" if "x \<le> unat (ma_capacity a)" for x
  proof -
    have u: "unat (of_nat x :: guint) = x" using that cap by (simp add: unat_of_nat)
    then have "(of_nat x :: guint) \<le> ma_capacity a" using that by (simp add: word_le_nat_alt)
    from element_address [OF assms(1) this] u show ?thesis by simp
  qed
  have bytes: "x * ?es + c * ?es \<le> n * page k" if "x + c \<le> unat (ma_capacity a)" for x
  proof -
    have "(x + c) * ?es \<le> unat (ma_capacity a) * ?es" using that by (intro mult_right_mono) simp_all
    then show ?thesis using space(1) by (simp add: add_mult_distrib)
  qed
  have offset: "unat (ma_data a + of_nat (x * ?es)) + c * ?es \<le> 2 ^ 64 \<or> c * ?es = 0" if "x + c \<le> unat (ma_capacity a)" for x
  proof (cases "c * ?es = 0")
    case False
    then have "unat (ma_data a) + x * ?es < 2 ^ 64" "x * ?es < 2 ^ 64" using bytes [OF that] space(3) by linarith+
    then have "unat (ma_data a + of_nat (x * ?es)) = unat (ma_data a) + x * ?es" by (simp add: unat_word_ariths unat_of_nat del: of_nat_mult)
    then show ?thesis using bytes [OF that] space(3) by linarith
  qed simp
  have "unat (of_nat c :: guint) = c" using assms(3) cap by (simp add: unat_of_nat)
  moreover have "c * ?es < 2 ^ 32" using bytes [OF assms(3)] space(2) by linarith
  ultimately have len: "unat (ucast (of_nat c * ma_element_size a) :: gsize) = c * ?es"
    by (simp add: unat_word_ariths unsigned_ucast_eq take_bit_nat_eq_self)
  let ?src = "ma_data a + of_nat (i * ?es)" and ?dst = "ma_data a + of_nat (j * ?es)"
  have "gum_memmove (vm_mem v) ?dst ?src (ucast (of_nat c * ma_element_size a)) =
      write_bytes (vm_mem v) ?dst (read_bytes (vm_mem v) ?src (c * ?es))"
  proof (cases "c * ?es = 0")
    case True
    then have "ucast (of_nat c * ma_element_size a) = (0 :: gsize)" using len by (simp only: unat_eq_zero)
    then show ?thesis by (simp only: True gum_memmove_nothing read_bytes.simps write_bytes.simps)
  next
    case False
    then show ?thesis
      using gum_memmove_bytes [of ?src "ucast (of_nat c * ma_element_size a)" ?dst "vm_mem v"] offset [OF assms(3)] offset [OF assms(4)]
      by (simp only: len) blast
  qed
  then have v': "v' = store v ?dst (read_bytes (vm_mem v) ?src (c * ?es))"
    using assms(3,4) by (simp add: assms(5) at store_def)
  have fit: "j * ?es + length (read_bytes (vm_mem v) ?src (c * ?es)) \<le> n * page k" using bytes [OF assms(4)] by simp
  note st = store_data [OF n assms(2) fit]
  show "array_ok k v' a" using array_keeps [OF assms(1,2) fit n] by (simp add: v')
  show "localised k v (ma_data a) v' (ma_data a)" using st(3) by (simp add: v')
  fix l assume l: "l < unat (ma_capacity a)"
  show "array_element v' a l = (if j \<le> l \<and> l < j + c then array_element v a (i + (l - j)) else array_element v a l)"
  proof (rule nth_equalityI)
    fix b assume "b < length (array_element v' a l)"
    then have b: "b < ?es" by (simp add: array_element_def)
    have "j * ?es \<le> l * ?es + b \<longleftrightarrow> j \<le> l"
    proof
      assume "j * ?es \<le> l * ?es + b"
      then have "j * ?es < (l + 1) * ?es" using b by simp
      then show "j \<le> l" using mult_less_cancel2 [of j ?es "l + 1"] by simp
    qed (simp add: trans_le_add1)
    moreover have "l * ?es + b < j * ?es + c * ?es \<longleftrightarrow> l < j + c"
    proof
      assume "l * ?es + b < j * ?es + c * ?es"
      then have "l * ?es < (j + c) * ?es" by (simp add: add_mult_distrib)
      then show "l < j + c" by simp
    next
      assume "l < j + c"
      then have "(l + 1) * ?es \<le> (j + c) * ?es" by (intro mult_right_mono) simp_all
      then show "l * ?es + b < j * ?es + c * ?es" using b by (simp add: add_mult_distrib)
    qed
    ultimately have inside: "(j * ?es \<le> l * ?es + b \<and> l * ?es + b < j * ?es + length (read_bytes (vm_mem v) ?src (c * ?es))) \<longleftrightarrow>
        j \<le> l \<and> l < j + c" by simp
    note at_b = st(4) [OF slot_space [OF l space(1)] b, unfolded inside, folded v']
    show "array_element v' a l ! b =
        (if j \<le> l \<and> l < j + c then array_element v a (i + (l - j)) else array_element v a l) ! b"
    proof (cases "j \<le> l \<and> l < j + c")
      case True
      then obtain d where d: "l = j + d" using le_Suc_ex by blast
      have "(d + 1) * ?es \<le> c * ?es" using True d by (intro mult_right_mono) simp_all
      then have db: "d * ?es + b < c * ?es" using b by simp
      have off: "l * ?es + b - j * ?es = d * ?es + b" by (simp add: d add_mult_distrib)
      have "array_element v' a l ! b = read_bytes (vm_mem v) ?src (c * ?es) ! (d * ?es + b)"
        unfolding array_element_def at_b off using True by simp
      also have "\<dots> = vm_mem v (?src + of_nat (d * ?es + b))" using db by (rule nth_read_bytes)
      also have "?src + of_nat (d * ?es + b) = ma_data a + of_nat ((i + d) * ?es) + of_nat b"
        by (simp add: algebra_simps)
      also have "vm_mem v \<dots> = array_element v a (i + d) ! b" using b by (simp add: array_element_def nth_read_bytes)
      finally show ?thesis using True d by simp
    next
      case False
      then have "array_element v' a l ! b = vm_mem v (ma_data a + of_nat (l * ?es + b))"
        unfolding array_element_def at_b by (simp only: if_False)
      also have "\<dots> = array_element v a l ! b" using b by (simp add: array_element_def nth_read_bytes add.assoc)
      finally show ?thesis unfolding if_not_P [OF False] .
    qed
  qed (simp add: array_element_def)
qed

lemma array_index:
  assumes "array_ok k v a"
  shows "i \<le> unat (ma_length a) \<Longrightarrow> unat (of_nat i :: guint) = i" "unat (ma_length a) \<le> unat (ma_capacity a)"
    "unat (ma_capacity a) < 2 ^ 32"
proof -
  show "unat (ma_capacity a) < 2 ^ 32" using unsigned_less [of "ma_capacity a", where 'a = nat] by simp
  show "unat (ma_length a) \<le> unat (ma_capacity a)" using assms by (simp add: array_ok_def word_le_nat_alt)
  show "i \<le> unat (ma_length a) \<Longrightarrow> unat (of_nat i :: guint) = i"
    using unsigned_less [of "ma_length a", where 'a = nat] by (simp add: unat_of_nat)
qed

text \<open>An array that has been grown for one more element, seen with that element.\<close>

lemma longer:
  assumes "array_ok k v a" "ma_length a + 1 \<le> ma_capacity a" "ma_length a + 1 \<noteq> 0"
  shows "array_ok k v (a\<lparr>ma_length := ma_length a + 1\<rparr>)" "unat (ma_length a + 1) = unat (ma_length a) + 1"
    "array_element v (a\<lparr>ma_length := ma_length a + 1\<rparr>) = array_element v a"
proof -
  show "unat (ma_length a + 1) = unat (ma_length a) + 1" using unatSuc [of "ma_length a"] assms(3) by (simp add: add.commute)
qed (use assms in \<open>auto simp: array_ok_def array_element_def fun_eq_iff\<close>)

lemma fits_next:
  assumes "fits k a (unat (ma_length a) + 1)" "array_ok k v a" "user_space k"
  shows "unat (ma_length a + 1) = unat (ma_length a) + 1" "ma_length a + 1 \<noteq> 0" "fits k a (unat (ma_length a + 1))"
proof -
  have "0 < unat (ma_element_size a)" using assms(2) by (simp add: array_ok_def)
  then have "(unat (ma_length a) + 1) * 1 \<le> (unat (ma_length a) + 1) * unat (ma_element_size a)" by (intro mult_left_mono) simp_all
  then have "unat (ma_length a) + 1 < 2 ^ 32" using assms(1) page_facts(1) [OF assms(3)] by (simp add: fits_def)
  then show u: "unat (ma_length a + 1) = unat (ma_length a) + 1" by (simp add: unat_word_ariths)
  then show "ma_length a + 1 \<noteq> 0" by (metis add_is_0 one_neq_zero unat_0)
  show "fits k a (unat (ma_length a + 1))" using assms(1) u by simp
qed

text \<open>\<^verbatim>\<open>gum_metal_array_append\<close>, and what the caller stores at the address it returns.\<close>

lemma append_store:
  assumes "array_ok k v a" "user_space k" "fits k a (unat (ma_length a) + 1)" "length bs = unat (ma_element_size a)"
    and "gum_metal_array_append k v a = Some (p, a', v')"
  shows "array_ok k (store v' p bs) a'" "array_elements (store v' p bs) a' = array_elements v a @ [bs]"
    "ma_element_size a' = ma_element_size a" "localised k v (ma_data a) (store v' p bs) (ma_data a')"
proof -
  note next_fits = fits_next [OF assms(3,1,2)]
  from assms(5) obtain a1 where grown: "gum_metal_array_ensure_capacity k v a (ma_length a + 1) = Some (a1, v')"
    and p: "p = gum_metal_array_element_at a1 (ma_length a1)" and a': "a' = a1\<lparr>ma_length := ma_length a1 + 1\<rparr>"
    by (auto simp: gum_metal_array_append_def split: option.splits)
  note ens = ensure_capacity_ok [OF assms(1,2) next_fits(3) grown]
  have "ma_length a1 + 1 \<le> ma_capacity a1" "ma_length a1 + 1 \<noteq> 0" using ens(2,3) next_fits(2) by simp_all
  note long = longer [OF ens(1) this, folded a']
  have p': "p = gum_metal_array_element_at a' (of_nat (unat (ma_length a1)))"
    by (simp add: p a' gum_metal_array_element_at_def)
  have len: "unat (ma_length a1) < unat (ma_length a')" "length bs = unat (ma_element_size a')"
    using long(2) assms(4) ens(4) by (simp_all add: a')
  note st = store_element [OF long(1) assms(2) len, folded p']
  show "array_ok k (store v' p bs) a'" by (rule st(1))
  show "ma_element_size a' = ma_element_size a" using ens(4) by (simp add: a')
  show "localised k v (ma_data a) (store v' p bs) (ma_data a')" using localised_trans [OF ens(6)] st(3) by (simp add: a')
  have "array_elements v' a' = array_elements v' a1 @ [array_element v' a1 (unat (ma_length a1))]"
    using long(2,3) by (simp add: array_elements_def a')
  then show "array_elements (store v' p bs) a' = array_elements v a @ [bs]"
    using st(2) ens(3,5) by (simp add: list_update_append)
qed

lemma insert_store:
  assumes "array_ok k v a" "user_space k" "fits k a (unat (ma_length a) + 1)" "length bs = unat (ma_element_size a)"
    and "i \<le> unat (ma_length a)" and "gum_metal_array_insert_at k v a (of_nat i) = Some (p, a', v')"
  shows "array_ok k (store v' p bs) a'"
    "array_elements (store v' p bs) a' = take i (array_elements v a) @ bs # drop i (array_elements v a)"
    "ma_element_size a' = ma_element_size a" "localised k v (ma_data a) (store v' p bs) (ma_data a')"
proof -
  note next_fits = fits_next [OF assms(3,1,2)]
  from assms(6) obtain a1 v1 where grown: "gum_metal_array_ensure_capacity k v a (ma_length a + 1) = Some (a1, v1)"
    and p: "p = gum_metal_array_element_at a1 (of_nat i)" and a': "a' = a1\<lparr>ma_length := ma_length a1 + 1\<rparr>"
    and v': "v' = v1\<lparr>vm_mem := gum_memmove (vm_mem v1) (gum_metal_array_element_at a1 (of_nat i + 1))
      (gum_metal_array_element_at a1 (of_nat i)) (ucast ((ma_length a1 - of_nat i) * ma_element_size a1))\<rparr>"
    by (auto simp: gum_metal_array_insert_at_def Let_def split: option.splits)
  note ens = ensure_capacity_ok [OF assms(1,2) next_fits(3) grown]
  have i: "i \<le> unat (ma_length a1)" using assms(5) ens(3) by simp
  have room: "ma_length a1 + 1 \<le> ma_capacity a1" "ma_length a1 + 1 \<noteq> 0" using ens(2,3) next_fits(2) by simp_all
  have cap: "unat (ma_length a1) + 1 \<le> unat (ma_capacity a1)" using room(1) next_fits(1) ens(3) by (simp add: word_le_nat_alt)
  define c where "c = unat (ma_length a1) - i"
  have "of_nat c = ma_length a1 - of_nat i" using i by (simp add: c_def of_nat_diff)
  then have v'': "v' = v1\<lparr>vm_mem := gum_memmove (vm_mem v1) (gum_metal_array_element_at a1 (of_nat (i + 1)))
      (gum_metal_array_element_at a1 (of_nat i)) (ucast (of_nat c * ma_element_size a1))\<rparr>"
    by (simp add: v' add.commute)
  have "i + c \<le> unat (ma_capacity a1)" "i + 1 + c \<le> unat (ma_capacity a1)" using cap i by (simp_all add: c_def)
  note mv = move_elements [OF ens(1) assms(2) this v'']
  note long = longer [OF mv(1) room, folded a']
  have p': "p = gum_metal_array_element_at a' (of_nat i)" by (simp add: p a' gum_metal_array_element_at_def)
  have len: "i < unat (ma_length a')" "length bs = unat (ma_element_size a')"
    using i long(2) assms(4) ens(4) by (simp_all add: a')
  note st = store_element [OF long(1) assms(2) len, folded p']
  show "array_ok k (store v' p bs) a'" by (rule st(1))
  show "ma_element_size a' = ma_element_size a" using ens(4) by (simp add: a')
  show "localised k v (ma_data a) (store v' p bs) (ma_data a')"
    using localised_trans [OF ens(6) localised_trans [OF mv(2)]] st(3) by (simp add: a')
  show "array_elements (store v' p bs) a' = take i (array_elements v a) @ bs # drop i (array_elements v a)"
  proof (rule nth_equalityI)
    show "length (array_elements (store v' p bs) a') = length (take i (array_elements v a) @ bs # drop i (array_elements v a))"
      using assms(5) long(2) ens(3) by (simp add: a')
    fix j assume "j < length (array_elements (store v' p bs) a')"
    then have j: "j < unat (ma_length a1) + 1" using long(2) by (simp add: a')
    have "array_elements (store v' p bs) a' ! j = (if j = i then bs else array_element v' a1 j)"
      using st(2) j long(2,3) by (simp add: a' nth_list_update)
    also have "\<dots> = (if j < i then array_elements v1 a1 ! j else if j = i then bs else array_elements v1 a1 ! (j - 1))"
    proof -
      have "j < unat (ma_capacity a1)" using j cap by simp
      from mv(3) [OF this] j i show ?thesis by (auto simp: c_def)
    qed
    finally show "array_elements (store v' p bs) a' ! j = (take i (array_elements v a) @ bs # drop i (array_elements v a)) ! j"
      using ens(3,5) assms(5) j by (auto simp: nth_append min_def nth_Cons')
  qed
qed

lemma remove_ok:
  assumes "array_ok k v a" "user_space k" "i < unat (ma_length a)"
    and "gum_metal_array_remove_at v a (of_nat i) = (a', v')"
  shows "array_ok k v' a'" "array_elements v' a' = take i (array_elements v a) @ drop (Suc i) (array_elements v a)"
    "ma_element_size a' = ma_element_size a" "localised k v (ma_data a) v' (ma_data a')"
proof -
  note ix = array_index [OF assms(1)]
  define c where "c = unat (ma_length a) - i - 1"
  have "ma_length a \<noteq> 0" using assms(3) by auto
  then have len: "unat (ma_length a - 1) = unat (ma_length a) - 1" by (simp add: unat_minus_one)
  have iw: "unat (of_nat i :: guint) = i" using ix(1) assms(3) by simp
  have "of_nat i = ma_length a - 1 \<longleftrightarrow> c = 0"
    using assms(3) len iw by (auto simp: c_def word_unat_eq_iff simp del: unat_of_nat)
  moreover have "of_nat c = ma_length a - of_nat i - 1" using assms(3) by (simp add: c_def of_nat_diff)
  ultimately have v': "v' = (if c = 0 then v else v\<lparr>vm_mem := gum_memmove (vm_mem v) (gum_metal_array_element_at a (of_nat i))
      (gum_metal_array_element_at a (of_nat (i + 1))) (ucast (of_nat c * ma_element_size a))\<rparr>)"
    and a': "a' = a\<lparr>ma_length := ma_length a - 1\<rparr>"
    using assms(4) by (auto simp: gum_metal_array_remove_at_def Let_def add.commute)
  have "i + 1 + c \<le> unat (ma_capacity a)" "i + c \<le> unat (ma_capacity a)" using assms(3) ix(2) by (simp_all add: c_def)
  note mv = move_elements [OF assms(1,2) this refl]
  from assms(1) obtain n where n: "pages_at k v (ma_data a) n" by (auto simp: array_ok_def)
  have v'_ok: "array_ok k v' a" "localised k v (ma_data a) v' (ma_data a)" using mv(1,2) assms(1) localised_refl [OF n] by (auto simp: v')
  have "ma_length a - 1 \<le> ma_capacity a" using ix(2) len by (simp add: word_le_nat_alt)
  then show "array_ok k v' a'" using v'_ok(1) by (simp add: array_ok_def a')
  show "ma_element_size a' = ma_element_size a" "localised k v (ma_data a) v' (ma_data a')" using v'_ok(2) by (simp_all add: a')
  have el: "array_element v' a' j = array_element v a (if i \<le> j then j + 1 else j)" if "j < unat (ma_length a) - 1" for j
  proof (cases "c = 0")
    case True
    then have "\<not> i \<le> j" using that assms(3) by (simp add: c_def)
    then show ?thesis using True by (simp add: v' a' array_element_def)
  next
    case False
    have "j < unat (ma_capacity a)" using that ix(2) by linarith
    note moved = mv(3) [OF this]
    have "array_element v' a' j = array_element v' a j" by (simp add: a' array_element_def)
    moreover have "i \<le> j \<longleftrightarrow> i \<le> j \<and> j < i + c" using that by (auto simp: c_def)
    ultimately show ?thesis using moved False by (simp add: v')
  qed
  show "array_elements v' a' = take i (array_elements v a) @ drop (Suc i) (array_elements v a)"
    using el len assms(3) by (intro nth_equalityI) (auto simp: a' nth_append min_def)
qed

lemma init_ok:
  assumes "user_space k" "gum_metal_array_init k v element_size = Some (a, v')"
  shows "array_ok k v' a" "array_elements v' a = []" "ma_element_size a = element_size" "untouched (mapped (vm_log v)) v v'"
    "\<And>x. mapped (vm_log v') x \<longleftrightarrow> mapped (vm_log v) x \<or> owned k v' (ma_data a) x"
    "\<And>x. owned k v' (ma_data a) x \<Longrightarrow> \<not> mapped (vm_log v) x"
proof -
  from assms(2) obtain p where al: "gum_alloc_n_pages k v 1 GUM_PAGE_RW = Some (p, v')" and es: "element_size \<noteq> 0"
    and a: "a = \<lparr>ma_data = p, ma_length = 0, ma_capacity = k_page_size k div element_size, ma_element_size = element_size\<rparr>"
    by (auto simp: gum_metal_array_init_def split: option.splits if_splits)
  note alloc = alloc_pages [OF assms(1) al]
  have "pages_at k v' p 1" using alloc(1) by simp
  moreover have "0 < unat element_size" using es by (simp add: unat_gt_0)
  ultimately show "array_ok k v' a"
    using page_facts(3) [OF assms(1)] by (auto simp: array_ok_def a unat_div_distrib intro!: exI [of _ 1])
  show "array_elements v' a = []" "ma_element_size a = element_size" by (simp_all add: array_elements_def a)
  show "untouched (mapped (vm_log v)) v v'"
    "\<And>x. mapped (vm_log v') x \<longleftrightarrow> mapped (vm_log v) x \<or> owned k v' (ma_data a) x"
    "\<And>x. owned k v' (ma_data a) x \<Longrightarrow> \<not> mapped (vm_log v) x"
    using alloc(2-4) by (simp_all add: a)
qed

text \<open>The extents of an array whose elements are no larger than a page are its mapping.\<close>

lemma round_up:
  assumes "user_space k" "unat s + page k \<le> 2 ^ 32"
  shows "unat (gum_round_up_to_page_size k s) = (unat s + page k - 1) div page k * page k"
proof -
  from assms(1) obtain b where b: "b < 32" "k_page_size k = 2 ^ b" by (auto simp: user_space_def well_behaved_def)
  have "(2 :: nat) ^ b < 2 ^ 32" using b(1) by (intro power_strict_increasing) auto
  moreover have "k_page_size k = of_nat (2 ^ b)" using b(2) by simp
  ultimately have pb: "page k = 2 ^ b" by (simp only: unat_of_nat) simp
  define t where "t = s + (k_page_size k - 1)"
  have "k_page_size k \<noteq> 0" using page_facts(1) [OF assms(1)] by auto
  then have "unat (k_page_size k - 1) = page k - 1" by (simp add: unat_minus_one)
  then have t: "unat t = unat s + page k - 1" using assms(2) page_facts(1) [OF assms(1)] by (simp add: t_def unat_word_ariths)
  have "gum_round_up_to_page_size k s = t AND NOT (mask b)"
    by (simp add: gum_round_up_to_page_size_def t_def b(2) mask_eq_exp_minus_1 Let_def)
  also have "\<dots> = push_bit b (drop_bit b t)" by (rule bit_word_eqI) (auto simp: bit_simps)
  finally have "gum_round_up_to_page_size k s = push_bit b (drop_bit b t)" .
  then have "unat (gum_round_up_to_page_size k s) = take_bit 32 (unat t div 2 ^ b * 2 ^ b)"
    using unsigned_less [of t, where 'a = nat]
    by (simp only: unsigned_push_bit_eq unsigned_drop_bit_eq) (simp add: push_bit_eq_mult drop_bit_eq_div take_bit_nat_eq_self)
  moreover have "unat t div 2 ^ b * 2 ^ b \<le> unat t" by simp
  then have "unat t div 2 ^ b * 2 ^ b < 2 ^ 32" using unsigned_less [of t, where 'a = nat]
    by (simp add: order.strict_trans1 [OF \<open>unat t div 2 ^ b * 2 ^ b \<le> unat t\<close>])
  ultimately show ?thesis by (simp add: pb t take_bit_nat_eq_self)
qed

lemma round_up_div: "0 < e \<Longrightarrow> e \<le> p \<Longrightarrow> (n * p div e * e + p - 1) div p * p = n * p" for n :: nat
proof -
  assume e: "0 < e" "e \<le> p"
  define s where "s = n * p div e * e"
  have "s + n * p mod e = n * p" by (simp add: s_def)
  moreover have "n * p mod e < e" using e by simp
  ultimately have "s \<le> n * p" "n * p + 1 \<le> s + p" using e by linarith+
  then have "s + p - 1 < (n + 1) * p" "n * p \<le> s + p - 1" using e by simp_all
  then have "(s + p - 1) div p = n" using e by (intro div_nat_eqI) (simp_all add: mult.commute)
  then show ?thesis by (simp add: s_def)
qed

lemma extents_exact:
  assumes "array_ok k v a" "user_space k" "unat (ma_element_size a) \<le> page k"
    and "gum_metal_array_get_extents k a = (start, stop)" and "pages_at k v (ma_data a) n"
  shows "unat start = unat (ma_data a) - page k" "stop = ma_data a + of_nat (n * page k)"
    "owned k v (ma_data a) x \<longleftrightarrow> start \<le> x \<and> x < stop"
proof -
  note pg = page_facts [OF assms(2)] and space = array_space [OF assms(1,5,2)]
  have p: "page k \<le> unat (ma_data a)" "unat (owned_size k v (ma_data a)) = (1 + n) * page k"
    using assms(5) by (simp_all add: pages_at_def)
  from assms(1) obtain n' where "pages_at k v (ma_data a) n'" and cap: "unat (ma_capacity a) = n' * page k div unat (ma_element_size a)"
    by (auto simp: array_ok_def)
  then have "(1 + n') * page k = (1 + n) * page k" using p(2) unfolding pages_at_def by metis
  then have n': "n' = n" using pg(1) by simp
  have es: "0 < unat (ma_element_size a)" using assms(1) by (simp add: array_ok_def)
  define used where "used = unat (ma_capacity a) * unat (ma_element_size a)"
  have "gum_metal_array_element_at a (ma_capacity a) - ma_data a = of_nat used"
    using element_address [OF assms(1) order_refl] by (simp add: used_def)
  moreover have "used < 2 ^ 32" using space(1,2) unfolding used_def by linarith
  ultimately have sz: "unat (ucast (gum_metal_array_element_at a (ma_capacity a) - ma_data a) :: guint) = used"
    by (simp add: unsigned_ucast_eq unat_of_nat take_bit_nat_eq_self take_bit_eq_mod)
  obtain b where b: "b < 32" "k_page_size k = 2 ^ b" using assms(2) by (auto simp: user_space_def well_behaved_def)
  have "(2 :: nat) ^ b < 2 ^ 32" using b(1) by (intro power_strict_increasing) auto
  moreover have "k_page_size k = of_nat (2 ^ b)" using b(2) by simp
  ultimately have pb: "page k = 2 ^ b" by (simp only: unat_of_nat) simp
  have whole: "n * page k + page k \<le> 2 ^ 32"
  proof -
    have e: "(2 :: nat) ^ 32 = 2 ^ (32 - b) * 2 ^ b" using b(1) by (simp flip: power_add)
    then have "n < 2 ^ (32 - b)" using space(2) unfolding pb by (metis mult_less_cancel2)
    then have "(n + 1) * 2 ^ b \<le> 2 ^ (32 - b) * 2 ^ b" by (intro mult_right_mono) simp_all
    then show ?thesis unfolding e pb by simp
  qed
  then have "used + page k \<le> 2 ^ 32" using space(1) unfolding used_def by linarith
  then have "unat (gum_round_up_to_page_size k (ucast (gum_metal_array_element_at a (ma_capacity a) - ma_data a))) = n * page k"
    using round_up [OF assms(2), of "ucast (gum_metal_array_element_at a (ma_capacity a) - ma_data a)"] sz
      round_up_div [OF es assms(3), of n] cap by (simp add: used_def n')
  then have r: "ucast (gum_round_up_to_page_size k (ucast (gum_metal_array_element_at a (ma_capacity a) - ma_data a))) = (of_nat (n * page k) :: gpointer)"
    by (metis of_nat_unat)
  have ext: "start = ma_data a - gum_query_page_size k" "stop = ma_data a + of_nat (n * page k)"
    using assms(4) by (simp_all add: gum_metal_array_get_extents_def gum_query_page_allocation_range_def Let_def r)
  show start: "unat start = unat (ma_data a) - page k" using p(1) pg(2) by (simp add: ext unat_sub_if')
  show "stop = ma_data a + of_nat (n * page k)" by (rule ext(2))
  have stop: "unat stop = unat (ma_data a) + n * page k" using space(2,3) by (simp add: ext unat_word_ariths unat_of_nat del: of_nat_mult)
  have "unat (x - start) = (if unat start \<le> unat x then unat x - unat start else unat x + 2 ^ 64 - unat start)" by (simp add: unat_sub_if')
  moreover have "owned k v (ma_data a) x \<longleftrightarrow> unat (x - start) < (1 + n) * page k" using p(2) by (simp add: owned_def in_range_def ext(1))
  moreover have "unat x + 2 ^ 64 - unat start \<ge> (1 + n) * page k"
    using start stop p(1) unsigned_less [of stop, where 'a = nat] by simp
  moreover have "unat x - unat start < (1 + n) * page k \<longleftrightarrow> unat x < unat stop" if "unat start \<le> unat x"
    using start stop p(1) that by auto
  ultimately show "owned k v (ma_data a) x \<longleftrightarrow> start \<le> x \<and> x < stop"
    by (auto simp: word_le_nat_alt word_less_nat_alt)
qed

section \<open>Histories\<close>

text \<open>
  What a client does to an array, what each action means for a list, and what it is for the array: the call and what the client
  writes at the address it returns. \<open>Elsewhere\<close> is anything the process does that leaves the array's mapping alone.
\<close>

datatype array_op =
    Array_append "guint8 list" | Array_insert nat "guint8 list" | Array_remove nat | Array_clear | Array_store nat "guint8 list" | Elsewhere

fun list_op :: "array_op \<Rightarrow> guint8 list list \<Rightarrow> guint8 list list" where
  "list_op (Array_append bs) xs = xs @ [bs]"
| "list_op (Array_insert i bs) xs = take i xs @ bs # drop i xs"
| "list_op (Array_remove i) xs = take i xs @ drop (Suc i) xs"
| "list_op Array_clear xs = []"
| "list_op (Array_store i bs) xs = xs[i := bs]"
| "list_op Elsewhere xs = xs"

inductive array_step :: "kernel \<Rightarrow> GumMetalArray \<times> vm \<Rightarrow> array_op \<Rightarrow> GumMetalArray \<times> vm \<Rightarrow> bool" for k where
  step_append: "fits k a (unat (ma_length a) + 1) \<Longrightarrow> length bs = unat (ma_element_size a) \<Longrightarrow>
    gum_metal_array_append k v a = Some (p, a', v') \<Longrightarrow> array_step k (a, v) (Array_append bs) (a', store v' p bs)"
| step_insert: "fits k a (unat (ma_length a) + 1) \<Longrightarrow> length bs = unat (ma_element_size a) \<Longrightarrow> i \<le> unat (ma_length a) \<Longrightarrow>
    gum_metal_array_insert_at k v a (of_nat i) = Some (p, a', v') \<Longrightarrow> array_step k (a, v) (Array_insert i bs) (a', store v' p bs)"
| step_remove: "i < unat (ma_length a) \<Longrightarrow> array_step k (a, v) (Array_remove i) (gum_metal_array_remove_at v a (of_nat i))"
| step_clear: "array_step k (a, v) Array_clear (gum_metal_array_remove_all a, v)"
| step_store: "i < unat (ma_length a) \<Longrightarrow> length bs = unat (ma_element_size a) \<Longrightarrow>
    array_step k (a, v) (Array_store i bs) (a, store v (gum_metal_array_element_at a (of_nat i)) bs)"
| step_elsewhere: "untouched (owned k v (ma_data a)) v v' \<Longrightarrow> array_step k (a, v) Elsewhere (a, v')"

inductive array_run :: "kernel \<Rightarrow> GumMetalArray \<times> vm \<Rightarrow> array_op list \<Rightarrow> GumMetalArray \<times> vm \<Rightarrow> bool" for k where
  run_end: "array_run k s [] s"
| run_step: "array_step k s op s1 \<Longrightarrow> array_run k s1 ops s2 \<Longrightarrow> array_run k s (op # ops) s2"

lemma clear_ok: "array_ok k v a \<Longrightarrow> array_ok k v (gum_metal_array_remove_all a)" "array_elements v (gum_metal_array_remove_all a) = []"
  by (auto simp: array_ok_def gum_metal_array_remove_all_def array_elements_def)

lemma array_step_ok:
  assumes "array_step k (a, v) op (a', v')" "array_ok k v a" "user_space k"
  shows "array_ok k v' a' \<and> array_elements v' a' = list_op op (array_elements v a) \<and>
    (op \<noteq> Elsewhere \<longrightarrow> localised k v (ma_data a) v' (ma_data a'))"
  using assms(1)
proof cases
  case (step_append bs p v1)
  show ?thesis using append_store [OF assms(2,3) step_append(3-5)] by (simp add: step_append(1,2))
next
  case (step_insert bs i p v1)
  show ?thesis using insert_store [OF assms(2,3) step_insert(3-6)] by (simp add: step_insert(1,2))
next
  case (step_remove i)
  then have r: "gum_metal_array_remove_at v a (of_nat i) = (a', v')" "i < unat (ma_length a)" "op = Array_remove i" by simp_all
  show ?thesis using remove_ok [OF assms(2,3) r(2,1)] by (simp add: r(3))
next
  case step_clear
  obtain n where "pages_at k v (ma_data a) n" using assms(2) by (auto simp: array_ok_def)
  then show ?thesis using step_clear clear_ok(1) [of k v a] clear_ok(2) [of v a] assms(2) localised_refl
    by (simp add: gum_metal_array_remove_all_def)
next
  case (step_store i bs)
  then have "a' = a" "v' = store v (gum_metal_array_element_at a (of_nat i)) bs" "op = Array_store i bs" by simp_all
  then show ?thesis using store_element [OF assms(2,3) step_store(4,5)] by (simp del: of_nat_unat)
next
  case step_elsewhere
  then have "a' = a" "op = Elsewhere" "untouched (owned k v (ma_data a)) v v'" by simp_all
  then show ?thesis using array_untouched [OF assms(2,3)] by simp
qed

lemma array_step_size:
  assumes "array_step k (a, v) op (a', v')" "array_ok k v a" "user_space k"
  shows "ma_element_size a' = ma_element_size a"
  using assms(1)
proof cases
  case (step_append bs p v1)
  then show ?thesis using append_store(3) [OF assms(2,3) step_append(3-5)] by simp
next
  case (step_insert bs i p v1)
  then show ?thesis using insert_store(3) [OF assms(2,3) step_insert(3-6)] by simp
qed (auto simp: gum_metal_array_remove_at_def gum_metal_array_remove_all_def Let_def)

lemma array_run_ok:
  assumes "array_run k s ops s'" "array_ok k (snd s) (fst s)" "user_space k"
  shows "array_ok k (snd s') (fst s') \<and> array_elements (snd s') (fst s') = fold list_op ops (array_elements (snd s) (fst s)) \<and>
    (Elsewhere \<notin> set ops \<longrightarrow> localised k (snd s) (ma_data (fst s)) (snd s') (ma_data (fst s')))"
  using assms(1,2)
proof induction
  case (run_end s)
  then obtain n where "pages_at k (snd s) (ma_data (fst s)) n" by (auto simp: array_ok_def)
  then show ?case using run_end localised_refl by simp
next
  case (run_step s op s1 ops s2)
  obtain a v a1 v1 where s: "s = (a, v)" "s1 = (a1, v1)" by (metis prod.exhaust)
  note step = array_step_ok [OF run_step.hyps(1) [unfolded s] _ assms(3)]
  show ?case using step run_step.IH run_step.prems localised_trans unfolding s by fastforce
qed

lemma array_run_size:
  "array_run k s ops s' \<Longrightarrow> array_ok k (snd s) (fst s) \<Longrightarrow> user_space k \<Longrightarrow>
    ma_element_size (fst s') = ma_element_size (fst s)"
proof (induction rule: array_run.induct)
  case (run_step s op s1 ops s2)
  obtain a v a1 v1 where s: "s = (a, v)" "s1 = (a1, v1)" by (metis prod.exhaust)
  have ok: "array_ok k v a" using run_step.prems(1) by (simp add: s)
  show ?case
    using array_step_size [OF run_step.hyps(1) [unfolded s] ok run_step.prems(2)]
      array_step_ok [OF run_step.hyps(1) [unfolded s] ok run_step.prems(2)] run_step.IH run_step.prems(2) by (simp add: s)
qed simp

lemma append_with_room:
  assumes "array_ok k v a" "unat (ma_length a) < unat (ma_capacity a)"
  shows "gum_metal_array_append k v a =
    Some (gum_metal_array_element_at a (ma_length a), a\<lparr>ma_length := ma_length a + 1\<rparr>, v)"
proof -
  have "unat (ma_length a) + 1 < 2 ^ 32" using array_index(3) [OF assms(1)] assms(2) by linarith
  then have "unat (ma_length a + 1) = unat (ma_length a) + 1" by (simp add: unat_word_ariths)
  then have "ma_length a + 1 \<le> ma_capacity a" using assms(2) by (simp add: word_le_nat_alt)
  then show ?thesis by (simp add: gum_metal_array_append_def gum_metal_array_ensure_capacity_def)
qed

section \<open>Properties\<close>

text \<open>
  C21: A metal array is a list of elements. After any history of appending, inserting, removing, clearing and storing, with growth
  in between and the rest of the process working elsewhere, the bytes at the address of each index are the
  element of the list there. No call asks the kernel for memory while there is room. Freeing unmaps exactly the
  array's pages; if nothing happened elsewhere, the process then holds what it held before the array was made.
\<close>

theorem metal_array_refines_list:
  assumes "user_space k" and "gum_metal_array_init k v0 element_size = Some (a0, v1)" and "array_run k (a0, v1) ops (a, v)"
  shows "length (fold list_op ops []) = unat (ma_length a) \<and>
    (\<forall>i < unat (ma_length a). read_bytes (vm_mem v) (gum_metal_array_element_at a (of_nat i)) (unat element_size) = fold list_op ops [] ! i) \<and>
    (ma_length a < ma_capacity a \<longrightarrow>
      gum_metal_array_append k v a = Some (gum_metal_array_element_at a (ma_length a), a\<lparr>ma_length := ma_length a + 1\<rparr>, v)) \<and>
    (\<forall>x. mapped (vm_log (snd (gum_metal_array_free k v a))) x \<longleftrightarrow> mapped (vm_log v) x \<and> \<not> owned k v (ma_data a) x) \<and>
    (Elsewhere \<notin> set ops \<longrightarrow> (\<forall>x. mapped (vm_log (snd (gum_metal_array_free k v a))) x \<longleftrightarrow> mapped (vm_log v0) x))"
proof -
  note init = init_ok [OF assms(1,2)]
  have ok: "array_ok k v a" and els: "array_elements v a = fold list_op ops []"
    and loc: "Elsewhere \<notin> set ops \<longrightarrow> localised k v1 (ma_data a0) v (ma_data a)"
    using array_run_ok [OF assms(3) _ assms(1)] init(1,2) by simp_all
  have es: "ma_element_size a = element_size" using array_run_size [OF assms(3) _ assms(1)] init(1,3) by simp
  have "length (fold list_op ops []) = unat (ma_length a)" using els by (metis length_array_elements)
  moreover have "read_bytes (vm_mem v) (gum_metal_array_element_at a (of_nat i)) (unat element_size) = fold list_op ops [] ! i"
    if i: "i < unat (ma_length a)" for i
  proof -
    have u: "unat (of_nat i :: guint) = i" "(of_nat i :: guint) \<le> ma_capacity a"
      using array_index(1) [OF ok, of i] array_index(2) [OF ok] i by (simp_all add: word_le_nat_alt)
    show ?thesis using element_address [OF ok u(2)] nth_array_elements [OF i, of v] u(1)
      by (simp add: els array_element_def es)
  qed
  moreover have free: "mapped (vm_log (snd (gum_metal_array_free k v a))) x \<longleftrightarrow> mapped (vm_log v) x \<and> \<not> owned k v (ma_data a) x" for x
  proof -
    obtain n where "pages_at k v (ma_data a) n" using ok by (auto simp: array_ok_def)
    from free_pages(2) [OF assms(1) this] show ?thesis by (simp add: gum_metal_array_free_def Let_def)
  qed
  moreover have "mapped (vm_log v) x \<and> \<not> owned k v (ma_data a) x \<longleftrightarrow> mapped (vm_log v0) x" if "Elsewhere \<notin> set ops" for x
    using loc that init(5,6) unfolding localised_def by metis
  moreover have "ma_length a < ma_capacity a \<longrightarrow>
      gum_metal_array_append k v a = Some (gum_metal_array_element_at a (ma_length a), a\<lparr>ma_length := ma_length a + 1\<rparr>, v)"
    using append_with_room [OF ok] by (simp add: word_less_nat_alt)
  ultimately show ?thesis by simp
qed

lemma sample_kernel_user_space: "user_space (sample_kernel 0x7000)"
  using sample_kernel_well_behaved [of "0x7000"]
  by (auto simp: user_space_def sample_kernel_def MAP_FAILED_def split: if_splits)

lemma sample_init:
  "\<exists>v. gum_metal_array_init (sample_kernel 0x7000) sample_vm 2 =
    Some (\<lparr>ma_data = 0x8000, ma_length = 0, ma_capacity = 2048, ma_element_size = 2\<rparr>, v)"
  by (simp add: gum_metal_array_init_def gum_alloc_n_pages_def gum_try_alloc_n_pages_def gum_try_alloc_n_pages_near_def
      gum_memory_allocate_near_def gum_memory_allocate_def gum_query_page_size_def gum_allocate_page_aligned_def gum_mprotect_def
      gum_try_mprotect_def gum_page_protection_to_posix_def GUM_PAGE_EXECUTE_def
      sample_kernel_def sample_vm_def GUM_ALIGN_POINTER_def GUM_ALIGN_SIZE_def MAP_FAILED_def GUM_PAGE_WRITE_def GUM_PAGE_RW_def
      GUM_PAGE_READ_def)

theorem metal_array_refines_list_witness:
  "\<exists>v0 a v. gum_metal_array_init (sample_kernel 0x7000) sample_vm 2 = Some (v0) \<and>
    array_run (sample_kernel 0x7000) v0 [Array_append [1, 2], Array_insert 0 [3, 4]] (a, v) \<and>
    read_bytes (vm_mem v) (gum_metal_array_element_at a 1) 2 = [1, 2]"
proof -
  let ?k = "sample_kernel 0x7000"
  obtain v where v: "gum_metal_array_init ?k sample_vm 2 =
      Some (\<lparr>ma_data = 0x8000, ma_length = 0, ma_capacity = 2048, ma_element_size = 2\<rparr>, v)" using sample_init by blast
  define a1 where "a1 = \<lparr>ma_data = 0x8000, ma_length = 1, ma_capacity = 2048, ma_element_size = 2\<rparr>"
  have p: "k_page_size ?k = 4096" by (simp add: sample_kernel_def)
  have "gum_metal_array_append ?k v \<lparr>ma_data = 0x8000, ma_length = 0, ma_capacity = 2048, ma_element_size = 2\<rparr> = Some (0x8000, a1, v)"
    by (simp add: gum_metal_array_append_def gum_metal_array_ensure_capacity_def gum_metal_array_element_at_def a1_def)
  from step_append [OF _ _ this, of "[1, 2]"]
  have s1: "array_step ?k (\<lparr>ma_data = 0x8000, ma_length = 0, ma_capacity = 2048, ma_element_size = 2\<rparr>, v) (Array_append [1, 2])
      (a1, store v 0x8000 [1, 2])" by (simp add: fits_def p)
  obtain b v2 where "gum_metal_array_insert_at ?k (store v 0x8000 [1, 2]) a1 (of_nat 0) = Some (0x8000, b, v2)"
    by (simp add: gum_metal_array_insert_at_def gum_metal_array_ensure_capacity_def gum_metal_array_element_at_def a1_def Let_def)
  moreover then have b: "ma_length b = 2"
    by (auto simp: gum_metal_array_insert_at_def gum_metal_array_ensure_capacity_def a1_def Let_def)
  ultimately have s2: "array_step ?k (a1, store v 0x8000 [1, 2]) (Array_insert 0 [3, 4]) (b, store v2 0x8000 [3, 4])"
    by (intro step_insert) (simp_all add: fits_def p a1_def)
  have run: "array_run ?k (\<lparr>ma_data = 0x8000, ma_length = 0, ma_capacity = 2048, ma_element_size = 2\<rparr>, v)
      [Array_append [1, 2], Array_insert 0 [3, 4]] (b, store v2 0x8000 [3, 4])"
    by (intro run_step [OF s1] run_step [OF s2] run_end)
  from metal_array_refines_list [OF sample_kernel_user_space v run]
  have "\<forall>i < unat (ma_length b). read_bytes (vm_mem (store v2 0x8000 [3, 4])) (gum_metal_array_element_at b (of_nat i)) (unat (2 :: guint)) =
      fold list_op [Array_append [1, 2], Array_insert 0 [3, 4]] [] ! i" by blast
  from this [rule_format, of 1] b
  have "read_bytes (vm_mem (store v2 0x8000 [3, 4])) (gum_metal_array_element_at b 1) 2 = [1, 2]" by simp
  with v run show ?thesis by auto
qed

end
