(* ===== verification/Gum_Cloak.thy ===== *)
theory Gum_Cloak
  imports Gum_Metal_Array
begin

text \<open>
  \<^verbatim>\<open>src/frida-gum/gum/gumcloak.c\<close>: the registry of threads, memory ranges and file descriptors that belong to the
  instrumentation and are hidden from the introspection of the process. It keeps them in three metal arrays, whose bytes are read
  and written here as the code does. Every operation holds a lock while it reads or changes the arrays, so an operation is one
  step; clipping releases the lock between its passes, and is modelled for arrays that no other thread changes meanwhile.

  An operation that may allocate returns \<open>None\<close> where the allocation aborts. The loops of removing and of clipping ranges
  need not end: their outer \<open>None\<close> is that.
\<close>

section \<open>State\<close>

type_synonym gint = "32 word"

record GumCloakedRange =
  cr_start :: gpointer
  cr_end :: gpointer

record cloak =
  cloaked_threads :: GumMetalArray
  cloaked_ranges :: GumMetalArray
  cloaked_fds :: GumMetalArray

definition gum_cloak_init :: "kernel \<Rightarrow> vm \<Rightarrow> (cloak \<times> vm) option" where
  "gum_cloak_init k v =
     (case gum_metal_array_init k v 8 of
        None \<Rightarrow> None
      | Some (threads, v) \<Rightarrow>
          (case gum_metal_array_init k v 16 of
             None \<Rightarrow> None
           | Some (ranges, v) \<Rightarrow>
               (case gum_metal_array_init k v 4 of
                  None \<Rightarrow> None
                | Some (fds, v) \<Rightarrow>
                    Some (\<lparr>cloaked_threads = threads, cloaked_ranges = ranges, cloaked_fds = fds\<rparr>, v))))"

definition gum_cloak_deinit :: "kernel \<Rightarrow> cloak \<times> vm \<Rightarrow> cloak \<times> vm" where
  "gum_cloak_deinit k s =
     (let (c, v) = s;
          (fds, v) = gum_metal_array_free k v (cloaked_fds c);
          (ranges, v) = gum_metal_array_free k v (cloaked_ranges c);
          (threads, v) = gum_metal_array_free k v (cloaked_threads c)
      in (\<lparr>cloaked_threads = threads, cloaked_ranges = ranges, cloaked_fds = fds\<rparr>, v))"

section \<open>Sorted arrays\<close>

text \<open>
  The descending loop that looks for the place of a new element: the index behind the last element that is not greater, or 0;
  and the binary search of the C library over indices, with the comparison of the sought element with the one at an index.
\<close>

fun insert_position :: "(nat \<Rightarrow> bool) \<Rightarrow> nat \<Rightarrow> nat" where
  "insert_position not_greater 0 = 0"
| "insert_position not_greater (Suc i) = (if not_greater i then Suc i else insert_position not_greater i)"

function bsearch :: "(nat \<Rightarrow> int) \<Rightarrow> nat \<Rightarrow> nat \<Rightarrow> nat option" where
  "bsearch compar l u =
     (if l < u
      then let idx = (l + u) div 2
           in if compar idx < 0 then bsearch compar l idx
              else if 0 < compar idx then bsearch compar (idx + 1) u
              else Some idx
      else None)"
  by pat_completeness auto
termination
  by (relation "measure (\<lambda>(compar, l, u). u - l)") auto

declare bsearch.simps [simp del]

section \<open>Threads\<close>

definition cloaked_thread_at :: "vm \<Rightarrow> GumMetalArray \<Rightarrow> nat \<Rightarrow> GumThreadId" where
  "cloaked_thread_at v a i = of_le (read_bytes (vm_mem v) (ma_data a + of_nat (8 * i)) 8)"

definition gum_thread_id_compare :: "GumThreadId \<Rightarrow> GumThreadId \<Rightarrow> int" where
  "gum_thread_id_compare a b = (if a = b then 0 else if a < b then - 1 else 1)"

definition gum_cloak_index_of_thread :: "GumThreadId \<Rightarrow> cloak \<times> vm \<Rightarrow> nat option" where
  "gum_cloak_index_of_thread tid s =
     (let (c, v) = s
      in bsearch (\<lambda>i. gum_thread_id_compare tid (cloaked_thread_at v (cloaked_threads c) i)) 0 (unat (ma_length (cloaked_threads c))))"

definition gum_cloak_add_thread :: "kernel \<Rightarrow> GumThreadId \<Rightarrow> cloak \<times> vm \<Rightarrow> (cloak \<times> vm) option" where
  "gum_cloak_add_thread k tid s =
     (let (c, v) = s;
          i = insert_position (\<lambda>i. cloaked_thread_at v (cloaked_threads c) i \<le> tid) (unat (ma_length (cloaked_threads c)))
      in case gum_metal_array_insert_at k v (cloaked_threads c) (of_nat i) of
           None \<Rightarrow> None
         | Some (element, threads, v) \<Rightarrow> Some (c\<lparr>cloaked_threads := threads\<rparr>, store v element (le64 tid)))"

definition gum_cloak_remove_thread :: "GumThreadId \<Rightarrow> cloak \<times> vm \<Rightarrow> cloak \<times> vm" where
  "gum_cloak_remove_thread tid s =
     (case gum_cloak_index_of_thread tid s of
        None \<Rightarrow> s
      | Some i \<Rightarrow>
          (let (c, v) = s;
               (threads, v) = gum_metal_array_remove_at v (cloaked_threads c) (of_nat i)
           in (c\<lparr>cloaked_threads := threads\<rparr>, v)))"

definition gum_cloak_has_thread :: "GumThreadId \<Rightarrow> cloak \<times> vm \<Rightarrow> bool" where
  "gum_cloak_has_thread tid s \<longleftrightarrow> gum_cloak_index_of_thread tid s \<noteq> None"

definition gum_cloak_enumerate_threads :: "(GumThreadId \<Rightarrow> 's \<Rightarrow> bool \<times> 's) \<Rightarrow> cloak \<times> vm \<Rightarrow> 's \<Rightarrow> 's" where
  "gum_cloak_enumerate_threads func s user_data =
     (let (c, v) = s
      in enumerate_until func (map (cloaked_thread_at v (cloaked_threads c)) [0..<unat (ma_length (cloaked_threads c))]) user_data)"

section \<open>File descriptors\<close>

definition fd_at :: "vm \<Rightarrow> GumMetalArray \<Rightarrow> nat \<Rightarrow> gint" where
  "fd_at v a i = of_le (read_bytes (vm_mem v) (ma_data a + of_nat (4 * i)) 4)"

definition gum_fd_compare :: "gint \<Rightarrow> gint \<Rightarrow> int" where
  "gum_fd_compare a b = (if a = b then 0 else if sint a < sint b then - 1 else 1)"

definition gum_cloak_index_of_fd :: "gint \<Rightarrow> cloak \<times> vm \<Rightarrow> nat option" where
  "gum_cloak_index_of_fd fd s =
     (let (c, v) = s
      in bsearch (\<lambda>i. gum_fd_compare fd (fd_at v (cloaked_fds c) i)) 0 (unat (ma_length (cloaked_fds c))))"

definition gum_cloak_add_file_descriptor :: "kernel \<Rightarrow> gint \<Rightarrow> cloak \<times> vm \<Rightarrow> (cloak \<times> vm) option" where
  "gum_cloak_add_file_descriptor k fd s =
     (let (c, v) = s;
          i = insert_position (\<lambda>i. sint (fd_at v (cloaked_fds c) i) \<le> sint fd) (unat (ma_length (cloaked_fds c)))
      in case gum_metal_array_insert_at k v (cloaked_fds c) (of_nat i) of
           None \<Rightarrow> None
         | Some (element, fds, v) \<Rightarrow> Some (c\<lparr>cloaked_fds := fds\<rparr>, store v element (le32 fd)))"

definition gum_cloak_remove_file_descriptor :: "gint \<Rightarrow> cloak \<times> vm \<Rightarrow> cloak \<times> vm" where
  "gum_cloak_remove_file_descriptor fd s =
     (case gum_cloak_index_of_fd fd s of
        None \<Rightarrow> s
      | Some i \<Rightarrow>
          (let (c, v) = s;
               (fds, v) = gum_metal_array_remove_at v (cloaked_fds c) (of_nat i)
           in (c\<lparr>cloaked_fds := fds\<rparr>, v)))"

definition gum_cloak_has_file_descriptor :: "gint \<Rightarrow> cloak \<times> vm \<Rightarrow> bool" where
  "gum_cloak_has_file_descriptor fd s \<longleftrightarrow> gum_cloak_index_of_fd fd s \<noteq> None"

definition gum_cloak_enumerate_file_descriptors :: "(gint \<Rightarrow> 's \<Rightarrow> bool \<times> 's) \<Rightarrow> cloak \<times> vm \<Rightarrow> 's \<Rightarrow> 's" where
  "gum_cloak_enumerate_file_descriptors func s user_data =
     (let (c, v) = s
      in enumerate_until func (map (fd_at v (cloaked_fds c)) [0..<unat (ma_length (cloaked_fds c))]) user_data)"

section \<open>Ranges\<close>

definition range_at :: "vm \<Rightarrow> gpointer \<Rightarrow> GumCloakedRange" where
  "range_at v p = \<lparr>cr_start = of_le (read_bytes (vm_mem v) p 8), cr_end = of_le (read_bytes (vm_mem v) (p + 8) 8)\<rparr>"

definition set_start :: "gpointer \<Rightarrow> gpointer \<Rightarrow> vm \<Rightarrow> vm" where
  "set_start p x v = store v p (le64 x)"

definition set_end :: "gpointer \<Rightarrow> gpointer \<Rightarrow> vm \<Rightarrow> vm" where
  "set_end p x v = store v (p + 8) (le64 x)"

text \<open>The loop over the ranges that extends an adjacent one, from index \<open>i\<close> with \<open>n\<close> to go: whether it found one.\<close>

fun extend_existing :: "gpointer \<Rightarrow> gpointer \<Rightarrow> GumMetalArray \<Rightarrow> nat \<Rightarrow> nat \<Rightarrow> vm \<Rightarrow> bool \<times> vm" where
  "extend_existing start stop a i 0 v = (False, v)"
| "extend_existing start stop a i (Suc n) v =
     (let cloaked = gum_metal_array_element_at a (of_nat i)
      in if cr_start (range_at v cloaked) = stop then (True, set_start cloaked start v)
         else if cr_end (range_at v cloaked) = start then (True, set_end cloaked stop v)
         else extend_existing start stop a (Suc i) n v)"

definition gum_cloak_add_range_unlocked :: "kernel \<Rightarrow> GumMemoryRange \<Rightarrow> cloak \<times> vm \<Rightarrow> (cloak \<times> vm) option" where
  "gum_cloak_add_range_unlocked k r s =
     (let (c, v) = s;
          start = base_address r;
          stop = start + range_size r;
          (added_to_existing, v) = extend_existing start stop (cloaked_ranges c) 0 (unat (ma_length (cloaked_ranges c))) v
      in if added_to_existing then Some (c, v)
         else case gum_metal_array_append k v (cloaked_ranges c) of
                None \<Rightarrow> None
              | Some (p, ranges, v) \<Rightarrow> Some (c\<lparr>cloaked_ranges := ranges\<rparr>, set_end p stop (set_start p start v)))"

definition gum_cloak_add_range :: "kernel \<Rightarrow> GumMemoryRange \<Rightarrow> cloak \<times> vm \<Rightarrow> (cloak \<times> vm) option" where
  "gum_cloak_add_range k r s = gum_cloak_add_range_unlocked k r s"

text \<open>The index of the first range that overlaps what is to be removed.\<close>

fun overlapping_from :: "gpointer \<Rightarrow> gpointer \<Rightarrow> GumMetalArray \<Rightarrow> vm \<Rightarrow> nat \<Rightarrow> nat \<Rightarrow> nat option" where
  "overlapping_from start stop a v i 0 = None"
| "overlapping_from start stop a v i (Suc n) =
     (let cloaked = range_at v (gum_metal_array_element_at a (of_nat i))
      in if stop \<le> cr_start cloaked \<or> cr_end cloaked \<le> start then overlapping_from start stop a v (Suc i) n
         else Some i)"

text \<open>What is done to the range found: it is removed, cut at one side, or cut in two.\<close>

definition cut_range :: "kernel \<Rightarrow> gpointer \<Rightarrow> gpointer \<Rightarrow> nat \<Rightarrow> cloak \<times> vm \<Rightarrow> (cloak \<times> vm) option" where
  "cut_range k start stop i s =
     (let (c, v) = s;
          cloaked = gum_metal_array_element_at (cloaked_ranges c) (of_nat i);
          r = range_at v cloaked;
          bottom_remainder = max (cr_start r) start - cr_start r;
          top_remainder = cr_end r - min (cr_end r) stop
      in if bottom_remainder + top_remainder = 0
         then let (ranges, v) = gum_metal_array_remove_at v (cloaked_ranges c) (of_nat i)
              in Some (c\<lparr>cloaked_ranges := ranges\<rparr>, v)
         else
           let previous_top_end = cr_end r;
               v = (if bottom_remainder \<noteq> 0 then set_end cloaked (cr_start r + bottom_remainder) v else v);
               slot_available = (bottom_remainder = 0)
           in if top_remainder \<noteq> 0
              then let top = \<lparr>base_address = previous_top_end - top_remainder, range_size = top_remainder\<rparr>
                   in if slot_available
                      then Some (c, set_end cloaked (base_address top + range_size top) (set_start cloaked (base_address top) v))
                      else gum_cloak_add_range_unlocked k top (c, v)
              else Some (c, v))"

partial_function (option) remove_loop ::
    "kernel \<Rightarrow> gpointer \<Rightarrow> gpointer \<Rightarrow> cloak \<times> vm \<Rightarrow> (cloak \<times> vm) option option" where
  "remove_loop k start stop s =
     (case overlapping_from start stop (cloaked_ranges (fst s)) (snd s) 0 (unat (ma_length (cloaked_ranges (fst s)))) of
        None \<Rightarrow> Some (Some s)
      | Some i \<Rightarrow>
          (case cut_range k start stop i s of
             None \<Rightarrow> Some None
           | Some s \<Rightarrow> remove_loop k start stop s))"

definition gum_cloak_remove_range_unlocked :: "kernel \<Rightarrow> GumMemoryRange \<Rightarrow> cloak \<times> vm \<Rightarrow> (cloak \<times> vm) option option" where
  "gum_cloak_remove_range_unlocked k r s = remove_loop k (base_address r) (base_address r + range_size r) s"

definition gum_cloak_remove_range :: "kernel \<Rightarrow> GumMemoryRange \<Rightarrow> cloak \<times> vm \<Rightarrow> (cloak \<times> vm) option option" where
  "gum_cloak_remove_range k r s = gum_cloak_remove_range_unlocked k r s"

definition cloaked_range_list :: "cloak \<times> vm \<Rightarrow> GumCloakedRange list" where
  "cloaked_range_list s =
     (let (c, v) = s
      in map (\<lambda>i. range_at v (gum_metal_array_element_at (cloaked_ranges c) (of_nat i))) [0..<unat (ma_length (cloaked_ranges c))])"

definition gum_cloak_has_range_containing :: "GumAddress \<Rightarrow> cloak \<times> vm \<Rightarrow> bool" where
  "gum_cloak_has_range_containing address s =
     list_ex (\<lambda>cr. cr_start cr \<le> address \<and> address < cr_end cr) (cloaked_range_list s)"

definition gum_cloak_enumerate_ranges :: "(GumMemoryRange \<Rightarrow> 's \<Rightarrow> bool \<times> 's) \<Rightarrow> cloak \<times> vm \<Rightarrow> 's \<Rightarrow> 's" where
  "gum_cloak_enumerate_ranges func s user_data =
     enumerate_until (\<lambda>cr. func \<lparr>base_address = cr_start cr, range_size = cr_end cr - cr_start cr\<rparr>)
       (cloaked_range_list s) user_data"

section \<open>Clipping\<close>

text \<open>What the first cloaked range that overlaps a chunk leaves of it: nothing, a part below, a part above, or both.\<close>

fun clip_chunk :: "GumMemoryRange \<Rightarrow> GumCloakedRange list \<Rightarrow> GumMemoryRange list option" where
  "clip_chunk chunk [] = None"
| "clip_chunk chunk (cloaked # rest) =
     (let chunk_start = base_address chunk;
          chunk_end = chunk_start + range_size chunk;
          lower_bound = max (cr_start cloaked) chunk_start;
          upper_bound = min (cr_end cloaked) chunk_end
      in if upper_bound \<le> lower_bound then clip_chunk chunk rest
         else
           let bottom_remainder = lower_bound - chunk_start;
               top_remainder = chunk_end - upper_bound;
               bottom = \<lparr>base_address = chunk_start, range_size = bottom_remainder\<rparr>;
               top = \<lparr>base_address = chunk_end - top_remainder, range_size = top_remainder\<rparr>
           in Some (if bottom_remainder + top_remainder = 0 then []
                    else (if bottom_remainder \<noteq> 0 then [bottom] else []) @ (if top_remainder \<noteq> 0 then [top] else [])))"

fun clip_pass :: "GumCloakedRange list \<Rightarrow> GumMemoryRange list \<Rightarrow> GumMemoryRange list option" where
  "clip_pass cloaked [] = None"
| "clip_pass cloaked (chunk # chunks) =
     (case clip_chunk chunk cloaked of
        Some parts \<Rightarrow> Some (parts @ chunks)
      | None \<Rightarrow> map_option ((#) chunk) (clip_pass cloaked chunks))"

partial_function (option) clip_loop :: "GumCloakedRange list \<Rightarrow> bool \<Rightarrow> GumMemoryRange list \<Rightarrow> GumMemoryRange list option option" where
  "clip_loop cloaked dirty chunks =
     (case clip_pass cloaked chunks of
        None \<Rightarrow> Some (if dirty then Some chunks else None)
      | Some chunks \<Rightarrow> clip_loop cloaked True chunks)"

definition extents :: "kernel \<Rightarrow> GumMetalArray \<Rightarrow> GumCloakedRange" where
  "extents k a = (let (start, stop) = gum_metal_array_get_extents k a in \<lparr>cr_start = start, cr_end = stop\<rparr>)"

text \<open>The inner \<open>None\<close> is the \<^verbatim>\<open>NULL\<close> for a range that nothing is hidden from.\<close>

definition gum_cloak_clip_range :: "kernel \<Rightarrow> GumMemoryRange \<Rightarrow> cloak \<times> vm \<Rightarrow> GumMemoryRange list option option" where
  "gum_cloak_clip_range k r s =
     clip_loop (extents k (cloaked_threads (fst s)) # extents k (cloaked_ranges (fst s)) # cloaked_range_list s) False [r]"

end
