(* ===== verification/Gum_Cloak_Correct.thy ===== *)
theory Gum_Cloak_Correct
  imports Gum_Cloak "HOL-Library.Multiset"
begin

text \<open>
  The cloak keeps two multisets, of threads and of file descriptors, and a set of addresses. The sorted arrays are treated once,
  in a locale for their element types; the ranges by what they cover.
\<close>

section \<open>Sorted lists\<close>

lemma insert_position_bounds:
  "insert_position p n \<le> n" "\<And>i. insert_position p n \<le> i \<Longrightarrow> i < n \<Longrightarrow> \<not> p i" "0 < insert_position p n \<Longrightarrow> p (insert_position p n - 1)"
proof (induction n)
  case (Suc n)
  { case 1 show ?case using Suc.IH(1) by simp }
  { case 2 then show ?case using Suc.IH(2) by (cases "i = n") (auto split: if_splits) }
  { case 3 then show ?case using Suc.IH(3) by (auto split: if_splits) }
qed simp_all

lemma insert_position_cong: "(\<And>i. i < n \<Longrightarrow> p i = q i) \<Longrightarrow> insert_position p n = insert_position q n"
  by (induction n) simp_all

lemma bsearch_unfold:
  "l < u \<Longrightarrow> bsearch compar l u =
     (if compar ((l + u) div 2) < 0 then bsearch compar l ((l + u) div 2)
      else if 0 < compar ((l + u) div 2) then bsearch compar ((l + u) div 2 + 1) u else Some ((l + u) div 2))"
  "\<not> l < u \<Longrightarrow> bsearch compar l u = None"
  by (simp_all add: bsearch.simps [of compar l u] Let_def)

lemma bsearch_finds: "bsearch compar l u = Some i \<Longrightarrow> l \<le> i \<and> i < u \<and> compar i = 0"
proof (induction "u - l" arbitrary: l u rule: less_induct)
  case less
  show ?case
  proof (cases "l < u")
    case True
    let ?m = "(l + u) div 2"
    have m: "l \<le> ?m" "?m < u" using True by simp_all
    consider "compar ?m < 0" | "0 < compar ?m" | "compar ?m = 0" by linarith
    then show ?thesis
    proof cases
      case 1
      then have "bsearch compar l ?m = Some i" "?m - l < u - l" using less.prems m True by (simp_all add: bsearch_unfold(1))
      from less.hyps [OF this(2,1)] m(2) show ?thesis by linarith
    next
      case 2
      then have "bsearch compar (?m + 1) u = Some i" "u - (?m + 1) < u - l" using less.prems m True by (simp_all add: bsearch_unfold(1))
      from less.hyps [OF this(2,1)] m(1) show ?thesis by linarith
    next
      case 3
      then show ?thesis using less.prems m True by (simp add: bsearch_unfold(1))
    qed
  qed (use less.prems in \<open>simp add: bsearch_unfold(2)\<close>)
qed

lemma bsearch_misses:
  assumes "\<forall>i j. i \<le> j \<and> j < n \<longrightarrow> (compar i < 0 \<longrightarrow> compar j < (0 :: int)) \<and> (0 < compar j \<longrightarrow> 0 < compar i)"
  shows "u \<le> n \<Longrightarrow> bsearch compar l u = None \<Longrightarrow> l \<le> i \<Longrightarrow> i < u \<Longrightarrow> compar i \<noteq> 0"
proof (induction "u - l" arbitrary: l u rule: less_induct)
  case less
  let ?m = "(l + u) div 2"
  have lu: "l < u" using less.prems by linarith
  have m: "l \<le> ?m" "?m < u" using lu by simp_all
  note search = less.prems(2) [unfolded bsearch_unfold(1) [OF lu]]
  consider (low) "compar ?m < 0" | (high) "0 < compar ?m" | "compar ?m = 0" by linarith
  then show ?case
  proof cases
    case low
    show ?thesis
    proof (cases "i < ?m")
      case True
      then show ?thesis using less.hyps [of ?m l] less.prems(1,3) search low m by simp
    next
      case False
      then show ?thesis using assms low less.prems(1,4) by (metis le_less_trans less_irrefl not_less order.strict_trans2)
    qed
  next
    case high
    show ?thesis
    proof (cases "?m < i")
      case True
      then show ?thesis using less.hyps [of u "?m + 1"] less.prems(1,4) search high m by simp
    next
      case False
      then show ?thesis using assms high less.prems(1) m(2) by (metis less_irrefl not_less order.strict_trans2)
    qed
  qed (use search in simp)
qed

lemma bsearch_cong: "(\<And>i. i < u \<Longrightarrow> p i = q i) \<Longrightarrow> bsearch p l u = bsearch q l u"
proof (induction "u - l" arbitrary: l u rule: less_induct)
  case less
  show ?case
  proof (cases "l < u")
    case True
    let ?m = "(l + u) div 2"
    have m: "l \<le> ?m" "?m < u" using True by simp_all
    have "p ?m = q ?m" using less.prems m(2) by simp
    moreover have "bsearch p l ?m = bsearch q l ?m" using less.hyps [of ?m l] less.prems m by simp
    moreover have "bsearch p (?m + 1) u = bsearch q (?m + 1) u" using less.hyps [of u "?m + 1"] less.prems m by simp
    ultimately show ?thesis using True by (simp add: bsearch_unfold(1))
  next
    case False
    then show ?thesis by (simp add: bsearch_unfold(2))
  qed
qed

text \<open>
  The elements of a sorted array: how they are stored and read, the number that orders them, and the comparison the code uses
  for searching.
\<close>

locale element_type =
  fixes enc :: "'a \<Rightarrow> guint8 list" and dec :: "guint8 list \<Rightarrow> 'a" and key :: "'a \<Rightarrow> int" and compar :: "'a \<Rightarrow> 'a \<Rightarrow> int"
    and width :: nat
  assumes dec_enc: "dec (enc x) = x" and length_enc: "length (enc x) = width"
    and key_eq: "key x = key y \<longleftrightarrow> x = y"
    and compar: "compar x y < 0 \<longleftrightarrow> key x < key y" "compar x y = 0 \<longleftrightarrow> x = y"
begin

definition contents :: "GumMetalArray \<Rightarrow> vm \<Rightarrow> 'a list" where
  "contents a v = map dec (array_elements v a)"

definition ordered :: "'a list \<Rightarrow> bool" where
  "ordered xs \<longleftrightarrow> sorted (map key xs)"

lemma insert_ordered:
  assumes "ordered xs" and "p = insert_position (\<lambda>i. key (xs ! i) \<le> key x) (length xs)"
  shows "p \<le> length xs" "ordered (take p xs @ x # drop p xs)" "mset (take p xs @ x # drop p xs) = add_mset x (mset xs)"
proof -
  note pos = insert_position_bounds [of "\<lambda>i. key (xs ! i) \<le> key x" "length xs", folded assms(2)]
  show "p \<le> length xs" by (rule pos(1))
  have low: "key y \<le> key x" if "y \<in> set (take p xs)" for y
  proof -
    from that obtain i where i: "i < p" "i < length xs" "y = xs ! i" by (auto simp: in_set_conv_nth)
    then have "key (xs ! i) \<le> key (xs ! (p - 1))"
      using assms(1) pos(1) sorted_nth_mono [of "map key xs" i "p - 1"] by (simp add: ordered_def)
    then show ?thesis using pos(3) i by simp
  qed
  moreover have "key x \<le> key y" if "y \<in> set (drop p xs)" for y
  proof -
    from that obtain j where "j < length xs - p" "y = xs ! (p + j)" by (auto simp: in_set_conv_nth)
    then have "p + j < length xs" "y = xs ! (p + j)" by simp_all
    then show ?thesis using pos(2) [OF le_add1, of j] by simp
  qed
  moreover have "sorted (map key (take p xs @ drop p xs))" using assms(1) by (simp add: ordered_def)
  ultimately show "ordered (take p xs @ x # drop p xs)"
    unfolding ordered_def map_append list.map sorted_append by (auto intro: order_trans)
  have "mset xs = mset (take p xs @ drop p xs)" by simp
  also have "\<dots> = mset (take p xs) + mset (drop p xs)" by (rule mset_append)
  finally show "mset (take p xs @ x # drop p xs) = add_mset x (mset xs)" by simp
qed

lemma search_ordered:
  assumes "ordered xs"
  shows "bsearch (\<lambda>i. compar x (xs ! i)) 0 (length xs) = Some i \<Longrightarrow> i < length xs \<and> xs ! i = x"
    "bsearch (\<lambda>i. compar x (xs ! i)) 0 (length xs) = None \<longleftrightarrow> x \<notin> set xs"
proof -
  show found: "bsearch (\<lambda>i. compar x (xs ! i)) 0 (length xs) = Some i \<Longrightarrow> i < length xs \<and> xs ! i = x" for i
    using bsearch_finds compar(2) by metis
  have "\<forall>i j. i \<le> j \<and> j < length xs \<longrightarrow> (compar x (xs ! i) < 0 \<longrightarrow> compar x (xs ! j) < 0) \<and>
      (0 < compar x (xs ! j) \<longrightarrow> 0 < compar x (xs ! i))"
  proof (intro allI impI)
    fix i j assume ij: "i \<le> j \<and> j < length xs"
    then have le: "key (xs ! i) \<le> key (xs ! j)" using assms sorted_nth_mono [of "map key xs" i j] by (simp add: ordered_def)
    have pos: "0 < compar x y \<longleftrightarrow> key y < key x" for y
      using compar [of x y] key_eq [of x y] by (metis linorder_neqE_linordered_idom not_less_iff_gr_or_eq)
    show "(compar x (xs ! i) < 0 \<longrightarrow> compar x (xs ! j) < 0) \<and> (0 < compar x (xs ! j) \<longrightarrow> 0 < compar x (xs ! i))"
      using le by (auto simp: pos compar(1))
  qed
  note misses = bsearch_misses [OF this order_refl]
  show "bsearch (\<lambda>i. compar x (xs ! i)) 0 (length xs) = None \<longleftrightarrow> x \<notin> set xs"
  proof
    assume none: "bsearch (\<lambda>i. compar x (xs ! i)) 0 (length xs) = None"
    show "x \<notin> set xs"
    proof
      assume "x \<in> set xs"
      then obtain i where i: "i < length xs" "xs ! i = x" by (auto simp: in_set_conv_nth)
      from misses [OF none le0 i(1)] show False using compar(2) [of x x] i(2) by simp
    qed
  next
    assume "x \<notin> set xs"
    then have "bsearch (\<lambda>i. compar x (xs ! i)) 0 (length xs) \<noteq> Some i" for i using found [of i] nth_mem by metis
    then show "bsearch (\<lambda>i. compar x (xs ! i)) 0 (length xs) = None" by (cases "bsearch (\<lambda>i. compar x (xs ! i)) 0 (length xs)") auto
  qed
qed

lemma remove_ordered:
  assumes "ordered xs" "i < length xs"
  shows "ordered (take i xs @ drop (Suc i) xs)" "mset (take i xs @ drop (Suc i) xs) = mset xs - {#xs ! i#}"
proof -
  have xs: "xs = take i xs @ xs ! i # drop (Suc i) xs" using assms(2) by (rule id_take_nth_drop)
  have "sorted (map key (take i xs @ xs ! i # drop (Suc i) xs))" using assms(1) xs by (simp add: ordered_def)
  then show "ordered (take i xs @ drop (Suc i) xs)" by (auto simp: ordered_def sorted_append)
  have "mset xs = mset (take i xs @ xs ! i # drop (Suc i) xs)" using xs by simp
  also have "\<dots> = add_mset (xs ! i) (mset (take i xs @ drop (Suc i) xs))" by (simp only: mset_append mset.simps) simp
  finally show "mset (take i xs @ drop (Suc i) xs) = mset xs - {#xs ! i#}" by simp
qed

text \<open>The same on an array.\<close>

lemma add_to_array:
  assumes "array_ok k v a" "user_space k" "fits k a (unat (ma_length a) + 1)" "unat (ma_element_size a) = width"
    and "ordered (contents a v)"
    and "p = insert_position (\<lambda>i. key (contents a v ! i) \<le> key x) (length (contents a v))"
    and "gum_metal_array_insert_at k v a (of_nat p) = Some (element, a', v')"
  shows "array_ok k (store v' element (enc x)) a'" "ma_element_size a' = ma_element_size a"
    "localised k v (ma_data a) (store v' element (enc x)) (ma_data a')" "ordered (contents a' (store v' element (enc x)))"
    "mset (contents a' (store v' element (enc x))) = add_mset x (mset (contents a v))"
proof -
  note ins = insert_ordered [OF assms(5,6)]
  have "length (enc x) = unat (ma_element_size a)" "p \<le> unat (ma_length a)"
    using ins(1) assms(4) by (simp_all add: length_enc contents_def)
  note st = insert_store [OF assms(1-3) this assms(7)]
  have "contents a' (store v' element (enc x)) = take p (contents a v) @ x # drop p (contents a v)"
    using st(2) by (simp add: contents_def take_map drop_map dec_enc)
  with st ins show "array_ok k (store v' element (enc x)) a'" "ma_element_size a' = ma_element_size a"
    "localised k v (ma_data a) (store v' element (enc x)) (ma_data a')" "ordered (contents a' (store v' element (enc x)))"
    "mset (contents a' (store v' element (enc x))) = add_mset x (mset (contents a v))" by simp_all
qed

lemma remove_from_array:
  assumes "array_ok k v a" "user_space k" "ordered (contents a v)"
    and "bsearch (\<lambda>i. compar x (contents a v ! i)) 0 (length (contents a v)) = Some i"
    and "gum_metal_array_remove_at v a (of_nat i) = (a', v')"
  shows "array_ok k v' a'" "ma_element_size a' = ma_element_size a" "localised k v (ma_data a) v' (ma_data a')"
    "ordered (contents a' v')" "mset (contents a' v') = mset (contents a v) - {#x#}"
proof -
  have i: "i < length (contents a v)" "contents a v ! i = x" using search_ordered(1) [OF assms(3,4)] by simp_all
  then have "i < unat (ma_length a)" by (simp add: contents_def)
  note rm = remove_ok [OF assms(1,2) this assms(5)]
  have "contents a' v' = take i (contents a v) @ drop (Suc i) (contents a v)"
    using rm(2) by (simp add: contents_def take_map drop_map)
  with rm remove_ordered [OF assms(3) i(1)] i(2)
  show "array_ok k v' a'" "ma_element_size a' = ma_element_size a" "localised k v (ma_data a) v' (ma_data a')"
    "ordered (contents a' v')" "mset (contents a' v') = mset (contents a v) - {#x#}" by simp_all
qed

end

interpretation threads: element_type le64 of_le uint gum_thread_id_compare 8
  by unfold_locales (auto simp: gum_thread_id_compare_def word_less_def word_uint_eq_iff)

interpretation fds: element_type le32 of_le sint gum_fd_compare 4
  by unfold_locales (auto simp: gum_fd_compare_def signed_word_eqI)

section \<open>Three arrays side by side\<close>

definition keep_apart :: "kernel \<Rightarrow> vm \<Rightarrow> gpointer \<Rightarrow> gpointer \<Rightarrow> bool" where
  "keep_apart k v p q \<longleftrightarrow> (\<forall>x. owned k v p x \<longrightarrow> \<not> owned k v q x)"

definition arrays_ok :: "kernel \<Rightarrow> cloak \<times> vm \<Rightarrow> bool" where
  "arrays_ok k s \<longleftrightarrow>
     array_ok k (snd s) (cloaked_threads (fst s)) \<and> unat (ma_element_size (cloaked_threads (fst s))) = 8 \<and>
     array_ok k (snd s) (cloaked_ranges (fst s)) \<and> unat (ma_element_size (cloaked_ranges (fst s))) = 16 \<and>
     array_ok k (snd s) (cloaked_fds (fst s)) \<and> unat (ma_element_size (cloaked_fds (fst s))) = 4 \<and>
     keep_apart k (snd s) (ma_data (cloaked_threads (fst s))) (ma_data (cloaked_ranges (fst s))) \<and>
     keep_apart k (snd s) (ma_data (cloaked_threads (fst s))) (ma_data (cloaked_fds (fst s))) \<and>
     keep_apart k (snd s) (ma_data (cloaked_ranges (fst s))) (ma_data (cloaked_fds (fst s)))"

lemma apart_sym: "keep_apart k v p q \<longleftrightarrow> keep_apart k v q p"
  by (auto simp: keep_apart_def)

lemma other_array:
  assumes "user_space k" "array_ok k v b" "keep_apart k v (ma_data b) p" "localised k v p v' p'"
  shows "array_ok k v' b" "array_elements v' b = array_elements v b" "owned k v' (ma_data b) = owned k v (ma_data b)"
    "keep_apart k v' (ma_data b) p'"
proof -
  from assms(2) obtain n where n: "pages_at k v (ma_data b) n" by (auto simp: array_ok_def)
  then have own: "owned k v (ma_data b) x \<Longrightarrow> mapped (vm_log v) x" for x by (simp add: pages_at_def)
  with assms(3) have "\<forall>x. owned k v (ma_data b) x \<longrightarrow> mapped (vm_log v) x \<and> \<not> owned k v p x" by (auto simp: keep_apart_def)
  from localised_others [OF assms(4) this] have u: "untouched (owned k v (ma_data b)) v v'" .
  show "array_ok k v' b" "array_elements v' b = array_elements v b" using array_untouched [OF assms(2,1) u] by simp_all
  show o: "owned k v' (ma_data b) = owned k v (ma_data b)" by (rule owned_size_untouched(2) [OF n assms(1) u])
  show "keep_apart k v' (ma_data b) p'"
    using assms(3,4) own unfolding keep_apart_def o localised_def by blast
qed

lemma both_others:
  assumes "user_space k" "array_ok k v a" "array_ok k v b" "keep_apart k v (ma_data a) p" "keep_apart k v (ma_data b) p"
    and "keep_apart k v (ma_data a) (ma_data b)" "localised k v p v' p'"
  shows "keep_apart k v' (ma_data a) (ma_data b)"
  using other_array(3) [OF assms(1,2,4,7)] other_array(3) [OF assms(1,3,5,7)] assms(6) by (simp add: keep_apart_def)

lemma arrays_threads:
  assumes "arrays_ok k (c, v)" "user_space k" "array_ok k v' a'" "ma_element_size a' = ma_element_size (cloaked_threads c)"
    and "localised k v (ma_data (cloaked_threads c)) v' (ma_data a')"
  shows "arrays_ok k (c\<lparr>cloaked_threads := a'\<rparr>, v')" "array_elements v' (cloaked_ranges c) = array_elements v (cloaked_ranges c)"
    "array_elements v' (cloaked_fds c) = array_elements v (cloaked_fds c)"
proof -
  from assms(1) have ok: "array_ok k v (cloaked_ranges c)" "array_ok k v (cloaked_fds c)"
    "keep_apart k v (ma_data (cloaked_ranges c)) (ma_data (cloaked_threads c))" "keep_apart k v (ma_data (cloaked_fds c)) (ma_data (cloaked_threads c))"
    "keep_apart k v (ma_data (cloaked_ranges c)) (ma_data (cloaked_fds c))"
    by (simp_all add: arrays_ok_def apart_sym)
  note r = other_array [OF assms(2) ok(1,3) assms(5)] and f = other_array [OF assms(2) ok(2,4) assms(5)]
  show "arrays_ok k (c\<lparr>cloaked_threads := a'\<rparr>, v')"
    using assms(1,3,4) r(1,4) f(1,4) both_others [OF assms(2) ok assms(5)] by (simp add: arrays_ok_def apart_sym)
  show "array_elements v' (cloaked_ranges c) = array_elements v (cloaked_ranges c)"
    "array_elements v' (cloaked_fds c) = array_elements v (cloaked_fds c)" using r(2) f(2) by simp_all
qed

lemma arrays_ranges:
  assumes "arrays_ok k (c, v)" "user_space k" "array_ok k v' a'" "ma_element_size a' = ma_element_size (cloaked_ranges c)"
    and "localised k v (ma_data (cloaked_ranges c)) v' (ma_data a')"
  shows "arrays_ok k (c\<lparr>cloaked_ranges := a'\<rparr>, v')" "array_elements v' (cloaked_threads c) = array_elements v (cloaked_threads c)"
    "array_elements v' (cloaked_fds c) = array_elements v (cloaked_fds c)"
proof -
  from assms(1) have ok: "array_ok k v (cloaked_threads c)" "array_ok k v (cloaked_fds c)"
    "keep_apart k v (ma_data (cloaked_threads c)) (ma_data (cloaked_ranges c))" "keep_apart k v (ma_data (cloaked_fds c)) (ma_data (cloaked_ranges c))"
    "keep_apart k v (ma_data (cloaked_threads c)) (ma_data (cloaked_fds c))"
    by (simp_all add: arrays_ok_def apart_sym)
  note r = other_array [OF assms(2) ok(1,3) assms(5)] and f = other_array [OF assms(2) ok(2,4) assms(5)]
  show "arrays_ok k (c\<lparr>cloaked_ranges := a'\<rparr>, v')"
    using assms(1,3,4) r(1,4) f(1,4) both_others [OF assms(2) ok assms(5)] by (simp add: arrays_ok_def apart_sym)
  show "array_elements v' (cloaked_threads c) = array_elements v (cloaked_threads c)"
    "array_elements v' (cloaked_fds c) = array_elements v (cloaked_fds c)" using r(2) f(2) by simp_all
qed

lemma arrays_fds:
  assumes "arrays_ok k (c, v)" "user_space k" "array_ok k v' a'" "ma_element_size a' = ma_element_size (cloaked_fds c)"
    and "localised k v (ma_data (cloaked_fds c)) v' (ma_data a')"
  shows "arrays_ok k (c\<lparr>cloaked_fds := a'\<rparr>, v')" "array_elements v' (cloaked_threads c) = array_elements v (cloaked_threads c)"
    "array_elements v' (cloaked_ranges c) = array_elements v (cloaked_ranges c)"
proof -
  from assms(1) have ok: "array_ok k v (cloaked_threads c)" "array_ok k v (cloaked_ranges c)"
    "keep_apart k v (ma_data (cloaked_threads c)) (ma_data (cloaked_fds c))" "keep_apart k v (ma_data (cloaked_ranges c)) (ma_data (cloaked_fds c))"
    "keep_apart k v (ma_data (cloaked_threads c)) (ma_data (cloaked_ranges c))"
    by (simp_all add: arrays_ok_def apart_sym)
  note r = other_array [OF assms(2) ok(1,3) assms(5)] and f = other_array [OF assms(2) ok(2,4) assms(5)]
  show "arrays_ok k (c\<lparr>cloaked_fds := a'\<rparr>, v')"
    using assms(1,3,4) r(1,4) f(1,4) both_others [OF assms(2) ok assms(5)] by (simp add: arrays_ok_def apart_sym)
  show "array_elements v' (cloaked_threads c) = array_elements v (cloaked_threads c)"
    "array_elements v' (cloaked_ranges c) = array_elements v (cloaked_ranges c)" using r(2) f(2) by simp_all
qed

section \<open>What the cloak holds\<close>

definition threads_of :: "cloak \<times> vm \<Rightarrow> GumThreadId list" where
  "threads_of s = threads.contents (cloaked_threads (fst s)) (snd s)"

definition fds_of :: "cloak \<times> vm \<Rightarrow> gint list" where
  "fds_of s = fds.contents (cloaked_fds (fst s)) (snd s)"

definition well_formed :: "kernel \<Rightarrow> cloak \<times> vm \<Rightarrow> bool" where
  "well_formed k s \<longleftrightarrow> arrays_ok k s \<and> sorted (threads_of s) \<and> sorted (map sint (fds_of s)) \<and>
     (\<forall>r \<in> set (cloaked_range_list s). cr_start r \<le> cr_end r)"

lemma ordered_threads: "threads.ordered xs \<longleftrightarrow> sorted xs"
  by (simp add: threads.ordered_def sorted_iff_nth_mono word_le_def)

lemma thread_reads:
  assumes "arrays_ok k (c, v)"
  shows "i < unat (ma_length (cloaked_threads c)) \<Longrightarrow> cloaked_thread_at v (cloaked_threads c) i = threads_of (c, v) ! i"
    "length (threads_of (c, v)) = unat (ma_length (cloaked_threads c))"
    "map (cloaked_thread_at v (cloaked_threads c)) [0..<unat (ma_length (cloaked_threads c))] = threads_of (c, v)"
proof -
  have es: "unat (ma_element_size (cloaked_threads c)) = 8" using assms by (simp add: arrays_ok_def)
  show "length (threads_of (c, v)) = unat (ma_length (cloaked_threads c))" by (simp add: threads_of_def threads.contents_def)
  show at: "i < unat (ma_length (cloaked_threads c)) \<Longrightarrow> cloaked_thread_at v (cloaked_threads c) i = threads_of (c, v) ! i" for i
    by (simp add: threads_of_def threads.contents_def cloaked_thread_at_def array_element_def es mult.commute)
  show "map (cloaked_thread_at v (cloaked_threads c)) [0..<unat (ma_length (cloaked_threads c))] = threads_of (c, v)"
    using at by (intro nth_equalityI) (simp_all add: threads_of_def threads.contents_def)
qed

lemma fd_reads:
  assumes "arrays_ok k (c, v)"
  shows "i < unat (ma_length (cloaked_fds c)) \<Longrightarrow> fd_at v (cloaked_fds c) i = fds_of (c, v) ! i"
    "length (fds_of (c, v)) = unat (ma_length (cloaked_fds c))"
    "map (fd_at v (cloaked_fds c)) [0..<unat (ma_length (cloaked_fds c))] = fds_of (c, v)"
proof -
  have es: "unat (ma_element_size (cloaked_fds c)) = 4" using assms by (simp add: arrays_ok_def)
  show "length (fds_of (c, v)) = unat (ma_length (cloaked_fds c))" by (simp add: fds_of_def fds.contents_def)
  show at: "i < unat (ma_length (cloaked_fds c)) \<Longrightarrow> fd_at v (cloaked_fds c) i = fds_of (c, v) ! i" for i
    by (simp add: fds_of_def fds.contents_def fd_at_def array_element_def es mult.commute)
  show "map (fd_at v (cloaked_fds c)) [0..<unat (ma_length (cloaked_fds c))] = fds_of (c, v)"
    using at by (intro nth_equalityI) (simp_all add: fds_of_def fds.contents_def)
qed

definition range_of :: "guint8 list \<Rightarrow> GumCloakedRange" where
  "range_of bs = \<lparr>cr_start = of_le (take 8 bs), cr_end = of_le (drop 8 bs)\<rparr>"

lemma range_reads:
  assumes "arrays_ok k (c, v)"
  shows "cloaked_range_list (c, v) = map range_of (array_elements v (cloaked_ranges c))"
    "length (cloaked_range_list (c, v)) = unat (ma_length (cloaked_ranges c))"
    "i < unat (ma_length (cloaked_ranges c)) \<Longrightarrow>
      range_at v (gum_metal_array_element_at (cloaked_ranges c) (of_nat i)) = cloaked_range_list (c, v) ! i"
proof -
  let ?a = "cloaked_ranges c"
  have ok: "array_ok k v ?a" and es: "unat (ma_element_size ?a) = 16" using assms by (simp_all add: arrays_ok_def)
  show len: "length (cloaked_range_list (c, v)) = unat (ma_length ?a)" by (simp add: cloaked_range_list_def)
  show at: "i < unat (ma_length ?a) \<Longrightarrow> range_at v (gum_metal_array_element_at ?a (of_nat i)) = cloaked_range_list (c, v) ! i" for i
    by (simp add: cloaked_range_list_def)
  show "cloaked_range_list (c, v) = map range_of (array_elements v ?a)"
  proof (rule nth_equalityI)
    fix i assume "i < length (cloaked_range_list (c, v))"
    then have i: "i < unat (ma_length ?a)" using len by simp
    then have "(of_nat i :: guint) \<le> ma_capacity ?a" "unat (of_nat i :: guint) = i"
      using array_index(1) [OF ok, of i] array_index(2) [OF ok] by (simp_all add: word_le_nat_alt)
    then have "gum_metal_array_element_at ?a (of_nat i) = ma_data ?a + of_nat (i * 16)" using element_address [OF ok] es by metis
    then show "cloaked_range_list (c, v) ! i = map range_of (array_elements v ?a) ! i"
      using i at [OF i, symmetric] read_bytes_append [of "vm_mem v" "ma_data ?a + of_nat (i * 16)" 8 8]
      by (simp add: range_at_def range_of_def array_element_def es)
  qed (simp add: len)
qed

section \<open>Threads and file descriptors\<close>

lemma add_thread_ok:
  assumes "well_formed k s" "user_space k" "fits k (cloaked_threads (fst s)) (length (threads_of s) + 1)"
    and "gum_cloak_add_thread k tid s = Some s'"
  shows "well_formed k s'" "mset (threads_of s') = add_mset tid (mset (threads_of s))" "fds_of s' = fds_of s"
    "cloaked_range_list s' = cloaked_range_list s"
proof -
  obtain c v where s: "s = (c, v)" by (metis prod.exhaust)
  let ?a = "cloaked_threads c"
  have arrays: "arrays_ok k (c, v)" and sorted: "threads.ordered (threads_of (c, v))"
    using assms(1) by (simp_all add: well_formed_def s ordered_threads)
  note reads = thread_reads [OF arrays]
  define p where "p = insert_position (\<lambda>i. cloaked_thread_at v ?a i \<le> tid) (unat (ma_length ?a))"
  from assms(4) obtain element a' v' where ins: "gum_metal_array_insert_at k v ?a (of_nat p) = Some (element, a', v')"
    and s': "s' = (c\<lparr>cloaked_threads := a'\<rparr>, store v' element (le64 tid))"
    by (auto simp: gum_cloak_add_thread_def s Let_def p_def split: option.splits)
  have "p = insert_position (\<lambda>i. uint (threads.contents ?a v ! i) \<le> uint tid) (unat (ma_length ?a))"
    unfolding p_def by (rule insert_position_cong) (simp add: reads(1) threads_of_def word_le_def)
  then have "p = insert_position (\<lambda>i. uint (threads.contents ?a v ! i) \<le> uint tid) (length (threads.contents ?a v))"
    using reads(2) by (simp add: threads_of_def)
  note add = threads.add_to_array [OF _ assms(2) _ _ _ this ins]
  have pre: "array_ok k v ?a" "fits k ?a (unat (ma_length ?a) + 1)" "unat (ma_element_size ?a) = 8" "threads.ordered (threads.contents ?a v)"
    using arrays assms(3) reads(2) sorted by (simp_all add: arrays_ok_def s threads_of_def)
  note add = add [OF pre]
  note frame = arrays_threads [OF arrays assms(2) add(1-3)]
  show "mset (threads_of s') = add_mset tid (mset (threads_of s))" using add(5) by (simp add: threads_of_def s s')
  show fds: "fds_of s' = fds_of s" using frame(3) by (simp add: fds_of_def fds.contents_def s s')
  show ranges: "cloaked_range_list s' = cloaked_range_list s"
    using range_reads(1) [OF frame(1)] range_reads(1) [OF arrays] frame(2) by (simp add: s s')
  show "well_formed k s'"
    using assms(1) frame(1) add(4) fds ranges by (simp add: well_formed_def s' threads_of_def flip: ordered_threads)
qed

lemma remove_thread_ok:
  assumes "well_formed k s" "user_space k"
  shows "well_formed k (gum_cloak_remove_thread tid s)"
    "mset (threads_of (gum_cloak_remove_thread tid s)) = mset (threads_of s) - {#tid#}"
    "fds_of (gum_cloak_remove_thread tid s) = fds_of s"
    "cloaked_range_list (gum_cloak_remove_thread tid s) = cloaked_range_list s"
    "gum_cloak_has_thread tid s \<longleftrightarrow> tid \<in> set (threads_of s)"
proof -
  let ?s' = "gum_cloak_remove_thread tid s"
  obtain c v where s: "s = (c, v)" by (metis prod.exhaust)
  let ?a = "cloaked_threads c"
  have arrays: "arrays_ok k (c, v)" and sorted: "threads.ordered (threads.contents ?a v)"
    using assms(1) by (simp_all add: well_formed_def s ordered_threads threads_of_def)
  note reads = thread_reads [OF arrays]
  have "gum_cloak_index_of_thread tid s =
      bsearch (\<lambda>i. gum_thread_id_compare tid (threads.contents ?a v ! i)) 0 (unat (ma_length ?a))"
    unfolding gum_cloak_index_of_thread_def s prod.case Let_def
    by (rule bsearch_cong) (simp add: reads(1) threads_of_def)
  then have index: "gum_cloak_index_of_thread tid s =
      bsearch (\<lambda>i. gum_thread_id_compare tid (threads.contents ?a v ! i)) 0 (length (threads.contents ?a v))"
    using reads(2) by (simp add: threads_of_def)
  note found = threads.search_ordered(2) [OF sorted, of tid, folded index]
  show "gum_cloak_has_thread tid s \<longleftrightarrow> tid \<in> set (threads_of s)"
    using found by (auto simp: gum_cloak_has_thread_def threads_of_def s)
  have "well_formed k ?s' \<and> mset (threads_of ?s') = mset (threads_of s) - {#tid#} \<and> fds_of ?s' = fds_of s \<and>
    cloaked_range_list ?s' = cloaked_range_list s"
  proof (cases "gum_cloak_index_of_thread tid s")
    case None
    then have "tid \<notin># mset (threads_of s)" using found by (simp add: threads_of_def s)
    then show ?thesis using None assms(1) by (simp add: gum_cloak_remove_thread_def)
  next
    case (Some i)
    obtain a' v' where rm: "gum_metal_array_remove_at v ?a (of_nat i) = (a', v')" by (metis prod.exhaust)
    have s': "?s' = (c\<lparr>cloaked_threads := a'\<rparr>, v')" using Some rm by (simp add: gum_cloak_remove_thread_def s)
    have ok: "array_ok k v ?a" using arrays by (simp add: arrays_ok_def)
    note rem = threads.remove_from_array [OF ok assms(2) sorted Some [unfolded index] rm]
    note frame = arrays_threads [OF arrays assms(2) rem(1-3)]
    have "cloaked_range_list ?s' = cloaked_range_list s"
      unfolding s' unfolding s using range_reads(1) [OF frame(1)] range_reads(1) [OF arrays] frame(2) by simp
    then show ?thesis unfolding s' unfolding s using assms(1) [unfolded s] frame rem(4,5)
      by (simp add: well_formed_def threads_of_def fds_of_def fds.contents_def flip: ordered_threads)
  qed
  then show "well_formed k ?s'" "mset (threads_of ?s') = mset (threads_of s) - {#tid#}" "fds_of ?s' = fds_of s"
    "cloaked_range_list ?s' = cloaked_range_list s" by simp_all
qed

lemma add_fd_ok:
  assumes "well_formed k s" "user_space k" "fits k (cloaked_fds (fst s)) (length (fds_of s) + 1)"
    and "gum_cloak_add_file_descriptor k fd s = Some s'"
  shows "well_formed k s'" "mset (fds_of s') = add_mset fd (mset (fds_of s))" "threads_of s' = threads_of s"
    "cloaked_range_list s' = cloaked_range_list s"
proof -
  obtain c v where s: "s = (c, v)" by (metis prod.exhaust)
  let ?a = "cloaked_fds c"
  have arrays: "arrays_ok k (c, v)" and sorted: "fds.ordered (fds_of (c, v))"
    using assms(1) by (simp_all add: well_formed_def s fds.ordered_def)
  note reads = fd_reads [OF arrays]
  define p where "p = insert_position (\<lambda>i. sint (fd_at v ?a i) \<le> sint fd) (unat (ma_length ?a))"
  from assms(4) obtain element a' v' where ins: "gum_metal_array_insert_at k v ?a (of_nat p) = Some (element, a', v')"
    and s': "s' = (c\<lparr>cloaked_fds := a'\<rparr>, store v' element (le32 fd))"
    by (auto simp: gum_cloak_add_file_descriptor_def s Let_def p_def split: option.splits)
  have "p = insert_position (\<lambda>i. sint (fds.contents ?a v ! i) \<le> sint fd) (unat (ma_length ?a))"
    unfolding p_def by (rule insert_position_cong) (simp add: reads(1) fds_of_def)
  then have "p = insert_position (\<lambda>i. sint (fds.contents ?a v ! i) \<le> sint fd) (length (fds.contents ?a v))"
    using reads(2) by (simp add: fds_of_def)
  note add = fds.add_to_array [OF _ assms(2) _ _ _ this ins]
  have pre: "array_ok k v ?a" "fits k ?a (unat (ma_length ?a) + 1)" "unat (ma_element_size ?a) = 4" "fds.ordered (fds.contents ?a v)"
    using arrays assms(3) reads(2) sorted by (simp_all add: arrays_ok_def s fds_of_def)
  note add = add [OF pre]
  note frame = arrays_fds [OF arrays assms(2) add(1-3)]
  show "mset (fds_of s') = add_mset fd (mset (fds_of s))" using add(5) by (simp add: fds_of_def s s')
  show threads: "threads_of s' = threads_of s" using frame(2) by (simp add: threads_of_def threads.contents_def s s')
  show ranges: "cloaked_range_list s' = cloaked_range_list s"
    using range_reads(1) [OF frame(1)] range_reads(1) [OF arrays] frame(3) by (simp add: s s')
  show "well_formed k s'"
    using assms(1) frame(1) add(4) threads ranges by (simp add: well_formed_def s' fds_of_def flip: fds.ordered_def)
qed

lemma remove_fd_ok:
  assumes "well_formed k s" "user_space k"
  shows "well_formed k (gum_cloak_remove_file_descriptor fd s)"
    "mset (fds_of (gum_cloak_remove_file_descriptor fd s)) = mset (fds_of s) - {#fd#}"
    "threads_of (gum_cloak_remove_file_descriptor fd s) = threads_of s"
    "cloaked_range_list (gum_cloak_remove_file_descriptor fd s) = cloaked_range_list s"
    "gum_cloak_has_file_descriptor fd s \<longleftrightarrow> fd \<in> set (fds_of s)"
proof -
  let ?s' = "gum_cloak_remove_file_descriptor fd s"
  obtain c v where s: "s = (c, v)" by (metis prod.exhaust)
  let ?a = "cloaked_fds c"
  have arrays: "arrays_ok k (c, v)" and sorted: "fds.ordered (fds.contents ?a v)"
    using assms(1) by (simp_all add: well_formed_def s fds.ordered_def fds_of_def)
  note reads = fd_reads [OF arrays]
  have "gum_cloak_index_of_fd fd s = bsearch (\<lambda>i. gum_fd_compare fd (fds.contents ?a v ! i)) 0 (unat (ma_length ?a))"
    unfolding gum_cloak_index_of_fd_def s prod.case Let_def
    by (rule bsearch_cong) (simp add: reads(1) fds_of_def)
  then have index: "gum_cloak_index_of_fd fd s =
      bsearch (\<lambda>i. gum_fd_compare fd (fds.contents ?a v ! i)) 0 (length (fds.contents ?a v))"
    using reads(2) by (simp add: fds_of_def)
  note found = fds.search_ordered(2) [OF sorted, of fd, folded index]
  show "gum_cloak_has_file_descriptor fd s \<longleftrightarrow> fd \<in> set (fds_of s)"
    using found by (auto simp: gum_cloak_has_file_descriptor_def fds_of_def s)
  have "well_formed k ?s' \<and> mset (fds_of ?s') = mset (fds_of s) - {#fd#} \<and> threads_of ?s' = threads_of s \<and>
    cloaked_range_list ?s' = cloaked_range_list s"
  proof (cases "gum_cloak_index_of_fd fd s")
    case None
    then have "fd \<notin># mset (fds_of s)" using found by (simp add: fds_of_def s)
    then show ?thesis using None assms(1) by (simp add: gum_cloak_remove_file_descriptor_def)
  next
    case (Some i)
    obtain a' v' where rm: "gum_metal_array_remove_at v ?a (of_nat i) = (a', v')" by (metis prod.exhaust)
    have s': "?s' = (c\<lparr>cloaked_fds := a'\<rparr>, v')" using Some rm by (simp add: gum_cloak_remove_file_descriptor_def s)
    have ok: "array_ok k v ?a" using arrays by (simp add: arrays_ok_def)
    note rem = fds.remove_from_array [OF ok assms(2) sorted Some [unfolded index] rm]
    note frame = arrays_fds [OF arrays assms(2) rem(1-3)]
    have "cloaked_range_list ?s' = cloaked_range_list s"
      unfolding s' unfolding s using range_reads(1) [OF frame(1)] range_reads(1) [OF arrays] frame(3) by simp
    then show ?thesis unfolding s' unfolding s using assms(1) [unfolded s] frame rem(4,5)
      by (simp add: well_formed_def threads_of_def fds_of_def threads.contents_def flip: fds.ordered_def)
  qed
  then show "well_formed k ?s'" "mset (fds_of ?s') = mset (fds_of s) - {#fd#}" "threads_of ?s' = threads_of s"
    "cloaked_range_list ?s' = cloaked_range_list s" by simp_all
qed

end
