(* ===== verification/Gum_Cloak_Ranges.thy ===== *)
theory Gum_Cloak_Ranges
  imports Gum_Cloak_Correct
begin

text \<open>
  The ranges of the cloak as a set of addresses: adding a range is union, removing one is difference and ends after each
  range that overlaps has been cut once, and clipping a range leaves its addresses that are not cloaked.
\<close>

section \<open>Writing a range\<close>

lemma write_back: "write_bytes m a (read_bytes m a n) = m"
  by (induction n arbitrary: a) simp_all

lemma set_start_store: "set_start p x v = store v p (le64 x @ read_bytes (vm_mem v) (p + 8) 8)"
proof -
  let ?m = "write_bytes (vm_mem v) p (le64 x)"
  have "disjoint_ranges (p + 8) 8 p (length (le64 x))" by (simp add: disjoint_ranges_def)
  then have "read_bytes ?m (p + 8) 8 = read_bytes (vm_mem v) (p + 8) 8" by (rule read_write_bytes_other)
  then have "write_bytes ?m (p + 8) (read_bytes (vm_mem v) (p + 8) 8) = ?m" using write_back [of ?m "p + 8" 8] by simp
  then show ?thesis by (simp add: set_start_def store_def write_bytes_append)
qed

lemma set_end_store: "set_end p x v = store v p (read_bytes (vm_mem v) p 8 @ le64 x)"
  by (simp add: set_end_def store_def write_bytes_append write_back)

lemma set_both_store: "set_end p y (set_start p x v) = store v p (le64 x @ le64 y)"
  by (simp add: set_end_def set_start_def store_def write_bytes_append)

lemma range_of_bytes: "range_of (le64 x @ le64 y) = \<lparr>cr_start = x, cr_end = y\<rparr>"
  by (simp add: range_of_def)

text \<open>What an operation on the ranges leaves alone.\<close>

definition rest_kept :: "cloak \<times> vm \<Rightarrow> cloak \<times> vm \<Rightarrow> bool" where
  "rest_kept s s' \<longleftrightarrow> threads_of s' = threads_of s \<and> fds_of s' = fds_of s \<and>
     ma_element_size (cloaked_ranges (fst s')) = ma_element_size (cloaked_ranges (fst s))"

lemma rest_kept_refl: "rest_kept s s"
  by (simp add: rest_kept_def)

lemma rest_kept_trans: "rest_kept s s1 \<Longrightarrow> rest_kept s1 s2 \<Longrightarrow> rest_kept s s2"
  by (simp add: rest_kept_def)

lemma rest_keptI:
  assumes "arrays_ok k (c, v)" "user_space k" "array_ok k v' a'" "ma_element_size a' = ma_element_size (cloaked_ranges c)"
    and "localised k v (ma_data (cloaked_ranges c)) v' (ma_data a')"
  shows "rest_kept (c, v) (c\<lparr>cloaked_ranges := a'\<rparr>, v')"
  using arrays_ranges(2,3) [OF assms] assms(4)
  by (simp add: rest_kept_def threads_of_def fds_of_def threads.contents_def fds.contents_def)

lemma range_store:
  assumes "arrays_ok k (c, v)" "user_space k" "i < length (cloaked_range_list (c, v))" "length bs = 16"
    and "p = gum_metal_array_element_at (cloaked_ranges c) (of_nat i)"
  shows "arrays_ok k (c, store v p bs)" "rest_kept (c, v) (c, store v p bs)"
    "cloaked_range_list (c, store v p bs) = (cloaked_range_list (c, v))[i := range_of bs]"
proof -
  let ?a = "cloaked_ranges c"
  have ok: "array_ok k v ?a" "length bs = unat (ma_element_size ?a)" using assms(1,4) by (simp_all add: arrays_ok_def)
  have i: "i < unat (ma_length ?a)" using assms(3) range_reads(2) [OF assms(1)] by simp
  note st = store_element [OF ok(1) assms(2) i ok(2), folded assms(5)]
  have c: "c\<lparr>cloaked_ranges := ?a\<rparr> = c" by simp
  note frame = arrays_ranges [OF assms(1,2) st(1) refl st(3), unfolded c]
  show "arrays_ok k (c, store v p bs)" by (rule frame(1))
  show "rest_kept (c, v) (c, store v p bs)" using rest_keptI [OF assms(1,2) st(1) refl st(3)] by simp
  show "cloaked_range_list (c, store v p bs) = (cloaked_range_list (c, v))[i := range_of bs]"
    using range_reads(1) [OF frame(1)] range_reads(1) [OF assms(1)] st(2) by (simp add: map_update)
qed

lemma range_set:
  assumes "arrays_ok k (c, v)" "user_space k" "i < length (cloaked_range_list (c, v))"
    and "p = gum_metal_array_element_at (cloaked_ranges c) (of_nat i)" and "r = cloaked_range_list (c, v) ! i"
  shows "arrays_ok k (c, set_start p x v)" "rest_kept (c, v) (c, set_start p x v)"
    "cloaked_range_list (c, set_start p x v) = (cloaked_range_list (c, v))[i := \<lparr>cr_start = x, cr_end = cr_end r\<rparr>]"
    "arrays_ok k (c, set_end p x v)" "rest_kept (c, v) (c, set_end p x v)"
    "cloaked_range_list (c, set_end p x v) = (cloaked_range_list (c, v))[i := \<lparr>cr_start = cr_start r, cr_end = x\<rparr>]"
proof -
  have i: "i < unat (ma_length (cloaked_ranges c))" using assms(3) range_reads(2) [OF assms(1)] by simp
  have r: "r = range_at v p" using range_reads(3) [OF assms(1) i] by (simp add: assms(4,5))
  note st = range_store [OF assms(1-3) _ assms(4), of "le64 x @ read_bytes (vm_mem v) (p + 8) 8", folded set_start_store]
    and en = range_store [OF assms(1-3) _ assms(4), of "read_bytes (vm_mem v) p 8 @ le64 x", folded set_end_store]
  show "arrays_ok k (c, set_start p x v)" "rest_kept (c, v) (c, set_start p x v)"
    "arrays_ok k (c, set_end p x v)" "rest_kept (c, v) (c, set_end p x v)" using st(1,2) en(1,2) by simp_all
  show "cloaked_range_list (c, set_start p x v) = (cloaked_range_list (c, v))[i := \<lparr>cr_start = x, cr_end = cr_end r\<rparr>]"
    using st(3) by (simp add: range_of_def r range_at_def)
  show "cloaked_range_list (c, set_end p x v) = (cloaked_range_list (c, v))[i := \<lparr>cr_start = cr_start r, cr_end = x\<rparr>]"
    using en(3) by (simp add: range_of_def r range_at_def)
qed

section \<open>What ranges cover\<close>

definition covered :: "GumCloakedRange list \<Rightarrow> gpointer set" where
  "covered rs = {x. \<exists>r \<in> set rs. cr_start r \<le> x \<and> x < cr_end r}"

definition proper :: "GumCloakedRange list \<Rightarrow> bool" where
  "proper rs \<longleftrightarrow> (\<forall>r \<in> set rs. cr_start r \<le> cr_end r)"

abbreviation overlaps :: "gpointer \<Rightarrow> gpointer \<Rightarrow> GumCloakedRange \<Rightarrow> bool" where
  "overlaps start stop r \<equiv> cr_start r < stop \<and> start < cr_end r"

definition overlapping :: "gpointer \<Rightarrow> gpointer \<Rightarrow> GumCloakedRange list \<Rightarrow> nat" where
  "overlapping start stop rs = length (filter (overlaps start stop) rs)"

text \<open>Lists with one element replaced, split there.\<close>

lemma split_update: "i < length rs \<Longrightarrow> rs = take i rs @ rs ! i # drop (Suc i) rs \<and> rs[i := r] = take i rs @ r # drop (Suc i) rs"
  by (simp add: id_take_nth_drop upd_conv_take_nth_drop)

lemma covered_simps [simp]:
  "covered [] = {}" "covered (r # rs) = {cr_start r..<cr_end r} \<union> covered rs" "covered (rs @ rs') = covered rs \<union> covered rs'"
  by (auto simp: covered_def)

lemma proper_simps [simp]:
  "proper []" "proper (r # rs) \<longleftrightarrow> cr_start r \<le> cr_end r \<and> proper rs" "proper (rs @ rs') \<longleftrightarrow> proper rs \<and> proper rs'"
  by (auto simp: proper_def)

lemma overlapping_simps [simp]:
  "overlapping a b [] = 0" "overlapping a b (r # rs) = (if overlaps a b r then 1 else 0) + overlapping a b rs"
  "overlapping a b (rs @ rs') = overlapping a b rs + overlapping a b rs'"
  by (simp_all add: overlapping_def)

lemma well_formed_proper: "well_formed k s \<longleftrightarrow> arrays_ok k s \<and> sorted (threads_of s) \<and> sorted (map sint (fds_of s)) \<and> proper (cloaked_range_list s)"
  by (simp add: well_formed_def proper_def)

lemma well_formed_kept:
  "well_formed k s \<Longrightarrow> rest_kept s s' \<Longrightarrow> arrays_ok k s' \<Longrightarrow> proper (cloaked_range_list s') \<Longrightarrow> well_formed k s'"
  by (simp add: well_formed_proper rest_kept_def)

section \<open>Adding a range\<close>

lemma extend_existing_cases:
  assumes "extend_existing start stop a i n v = (found, v')"
  shows "\<not> found \<and> v' = v \<or> found \<and> (\<exists>j. i \<le> j \<and> j < i + n \<and> (let p = gum_metal_array_element_at a (of_nat j) in
    cr_start (range_at v p) = stop \<and> v' = set_start p start v \<or> cr_end (range_at v p) = start \<and> v' = set_end p stop v))"
  using assms
proof (induction start stop a i n v rule: extend_existing.induct)
  case (2 start stop a i n v)
  let ?p = "gum_metal_array_element_at a (of_nat i)"
  consider "cr_start (range_at v ?p) = stop" | "cr_start (range_at v ?p) \<noteq> stop" "cr_end (range_at v ?p) = start"
    | "cr_start (range_at v ?p) \<noteq> stop" "cr_end (range_at v ?p) \<noteq> start" by blast
  then show ?case
  proof cases
    case 1
    then show ?thesis using 2(2) by (auto simp: Let_def intro!: exI [of _ i])
  next
    case 2
    then show ?thesis using "2.prems" by (auto simp: Let_def intro!: exI [of _ i])
  next
    case 3
    then have "extend_existing start stop a (Suc i) n v = (found, v')" using "2.prems" by (simp add: Let_def)
    from "2.IH" [OF refl 3 this] show ?thesis by (auto simp: Let_def intro: Suc_leD)
  qed
qed simp

text \<open>Adding, for the list of ranges: one of them is extended, or a new one appended.\<close>

definition extended :: "gpointer \<Rightarrow> gpointer \<Rightarrow> GumCloakedRange list \<Rightarrow> GumCloakedRange list \<Rightarrow> bool" where
  "extended start stop rs rs' \<longleftrightarrow>
     (\<exists>i < length rs. cr_start (rs ! i) = stop \<and> rs' = rs[i := \<lparr>cr_start = start, cr_end = cr_end (rs ! i)\<rparr>] \<or>
        cr_end (rs ! i) = start \<and> rs' = rs[i := \<lparr>cr_start = cr_start (rs ! i), cr_end = stop\<rparr>]) \<or>
     rs' = rs @ [\<lparr>cr_start = start, cr_end = stop\<rparr>]"

lemma extended_covers:
  assumes "extended start stop rs rs'" "start \<le> stop" "proper rs"
  shows "proper rs'" "covered rs' = covered rs \<union> {start..<stop}" "length rs' \<le> length rs + 1"
    "a < b \<Longrightarrow> stop \<le> a \<or> b \<le> start \<Longrightarrow> overlapping a b rs' = overlapping a b rs"
proof -
  consider (low) i where "i < length rs" "cr_start (rs ! i) = stop" "rs' = rs[i := \<lparr>cr_start = start, cr_end = cr_end (rs ! i)\<rparr>]"
    | (high) i where "i < length rs" "cr_end (rs ! i) = start" "rs' = rs[i := \<lparr>cr_start = cr_start (rs ! i), cr_end = stop\<rparr>]"
    | (new) "rs' = rs @ [\<lparr>cr_start = start, cr_end = stop\<rparr>]"
    using assms(1) unfolding extended_def by blast
  then have "proper rs' \<and> covered rs' = covered rs \<union> {start..<stop} \<and> length rs' \<le> length rs + 1 \<and>
    (a < b \<longrightarrow> stop \<le> a \<or> b \<le> start \<longrightarrow> overlapping a b rs' = overlapping a b rs)"
  proof cases
    case low
    obtain xs r ys where rs: "rs = xs @ r # ys" "rs' = xs @ \<lparr>cr_start = start, cr_end = cr_end r\<rparr> # ys" "cr_start r = stop"
      using split_update [OF low(1)] low(2,3) by metis
    have "stop \<le> cr_end r" using assms(3) rs by auto
    then show ?thesis using assms(2,3) rs by auto
  next
    case high
    obtain xs r ys where rs: "rs = xs @ r # ys" "rs' = xs @ \<lparr>cr_start = cr_start r, cr_end = stop\<rparr> # ys" "cr_end r = start"
      using split_update [OF high(1)] high(2,3) by metis
    have "cr_start r \<le> start" using assms(3) rs by auto
    then show ?thesis using assms(2,3) rs by auto
  next
    case new
    then show ?thesis using assms(2,3) by auto
  qed
  then show "proper rs'" "covered rs' = covered rs \<union> {start..<stop}" "length rs' \<le> length rs + 1"
    "a < b \<Longrightarrow> stop \<le> a \<or> b \<le> start \<Longrightarrow> overlapping a b rs' = overlapping a b rs" by blast+
qed

lemma add_range_extends:
  assumes "arrays_ok k s" "user_space k" "fits k (cloaked_ranges (fst s)) (length (cloaked_range_list s) + 1)"
    and "gum_cloak_add_range_unlocked k r s = Some s'"
  shows "arrays_ok k s'" "rest_kept s s'"
    "extended (base_address r) (base_address r + range_size r) (cloaked_range_list s) (cloaked_range_list s')"
proof -
  obtain c v where s: "s = (c, v)" by (metis prod.exhaust)
  let ?a = "cloaked_ranges c" and ?start = "base_address r" and ?stop = "base_address r + range_size r"
  have ok: "arrays_ok k (c, v)" using assms(1) by (simp add: s)
  note reads = range_reads [OF ok]
  obtain found v1 where ext: "extend_existing ?start ?stop ?a 0 (unat (ma_length ?a)) v = (found, v1)" by (metis prod.exhaust)
  have "arrays_ok k s' \<and> rest_kept s s' \<and> extended ?start ?stop (cloaked_range_list s) (cloaked_range_list s')"
  proof (cases found)
    case True
    then have s': "s' = (c, v1)" using assms(4) by (simp add: gum_cloak_add_range_unlocked_def s ext)
    from extend_existing_cases [OF ext] True obtain j where j: "j < unat (ma_length ?a)"
      and or: "cr_start (cloaked_range_list (c, v) ! j) = ?stop \<and> v1 = set_start (gum_metal_array_element_at ?a (of_nat j)) ?start v \<or>
        cr_end (cloaked_range_list (c, v) ! j) = ?start \<and> v1 = set_end (gum_metal_array_element_at ?a (of_nat j)) ?stop v"
      by (auto simp: Let_def reads(3))
    from j reads(2) have "j < length (cloaked_range_list (c, v))" by simp
    note set = range_set [OF ok assms(2) this refl refl]
    show ?thesis using or
    proof
      assume *: "cr_start (cloaked_range_list (c, v) ! j) = ?stop \<and> v1 = set_start (gum_metal_array_element_at ?a (of_nat j)) ?start v"
      then show ?thesis using set(1-3) j reads(2) unfolding s s' extended_def by auto
    next
      assume *: "cr_end (cloaked_range_list (c, v) ! j) = ?start \<and> v1 = set_end (gum_metal_array_element_at ?a (of_nat j)) ?stop v"
      then show ?thesis using set(4-6) j reads(2) unfolding s s' extended_def by auto
    qed
  next
    case False
    with extend_existing_cases [OF ext] have "v1 = v" by simp
    with assms(4) False obtain p a' v' where ap: "gum_metal_array_append k v ?a = Some (p, a', v')"
      and s': "s' = (c\<lparr>cloaked_ranges := a'\<rparr>, store v' p (le64 ?start @ le64 ?stop))"
      by (auto simp: gum_cloak_add_range_unlocked_def Let_def s ext set_both_store split: option.splits)
    have pre: "array_ok k v ?a" "fits k ?a (unat (ma_length ?a) + 1)" "length (le64 ?start @ le64 ?stop) = unat (ma_element_size ?a)"
      using ok assms(3) reads(2) by (simp_all add: arrays_ok_def s)
    note st = append_store [OF pre(1) assms(2) pre(2,3) ap]
    note frame = arrays_ranges(1) [OF ok assms(2) st(1,3,4)] and rest = rest_keptI [OF ok assms(2) st(1,3,4)]
    have "cloaked_range_list s' = cloaked_range_list s @ [\<lparr>cr_start = ?start, cr_end = ?stop\<rparr>]"
      using range_reads(1) [OF frame] reads(1) st(2) by (simp add: s s' range_of_bytes)
    then show ?thesis using frame rest by (simp add: s s' extended_def)
  qed
  then show "arrays_ok k s'" "rest_kept s s'" "extended ?start ?stop (cloaked_range_list s) (cloaked_range_list s')" by blast+
qed

section \<open>Removing a range\<close>

lemma overlapping_from_cases:
  "overlapping_from start stop a v i n = None \<Longrightarrow> i \<le> j \<Longrightarrow> j < i + n \<Longrightarrow>
     \<not> overlaps start stop (range_at v (gum_metal_array_element_at a (of_nat j)))"
  "overlapping_from start stop a v i n = Some j \<Longrightarrow>
     i \<le> j \<and> j < i + n \<and> overlaps start stop (range_at v (gum_metal_array_element_at a (of_nat j))) \<and>
     (\<forall>l. i \<le> l \<and> l < j \<longrightarrow> \<not> overlaps start stop (range_at v (gum_metal_array_element_at a (of_nat l))))"
proof (induction start stop a v i n rule: overlapping_from.induct)
  case (2 start stop a v i n)
  let ?r = "range_at v (gum_metal_array_element_at a (of_nat i))"
  { case 1
    then have no: "\<not> overlaps start stop ?r" by (auto simp: Let_def not_less split: if_splits)
    then have "overlapping_from start stop a v (Suc i) n = None" using 1(1) by (auto simp: Let_def not_less split: if_splits)
    from "2.IH"(1) [OF refl _ this] no 1(2,3) show ?case
      by (cases "i = j") (auto simp: not_less) }
  { case 2
    show ?case
    proof (cases "overlaps start stop ?r")
      case True
      then show ?thesis using 2 by (auto simp: Let_def not_less[symmetric])
    next
      case False
      then have stop: "stop \<le> cr_start ?r \<or> cr_end ?r \<le> start" by (auto simp: not_less)
      then have "overlapping_from start stop a v (Suc i) n = Some j" using 2 by (simp add: Let_def)
      from "2.IH"(2) [OF refl stop this] False show ?thesis
        using Suc_leD less_Suc_eq_le by (metis (no_types, lifting) add_Suc_right add_Suc Suc_leI le_neq_implies_less)
    qed }
qed simp_all

lemma remainder:
  fixes a b cs ce :: gpointer
  assumes "a < b" "cs < b" "a < ce" "cs \<le> ce"
  shows "max cs a - cs = 0 \<longleftrightarrow> a \<le> cs" "ce - min ce b = 0 \<longleftrightarrow> ce \<le> b"
    "(max cs a - cs) + (ce - min ce b) = 0 \<longleftrightarrow> a \<le> cs \<and> ce \<le> b"
    "cs < a \<Longrightarrow> cs + (max cs a - cs) = a" "b < ce \<Longrightarrow> ce - (ce - min ce b) = b"
proof -
  show bottom: "max cs a - cs = 0 \<longleftrightarrow> a \<le> cs" by (auto simp: max_def)
  show top: "ce - min ce b = 0 \<longleftrightarrow> ce \<le> b" by (auto simp: min_def)
  show "cs < a \<Longrightarrow> cs + (max cs a - cs) = a" "b < ce \<Longrightarrow> ce - (ce - min ce b) = b" by (auto simp: max_def min_def not_le)
  show "(max cs a - cs) + (ce - min ce b) = 0 \<longleftrightarrow> a \<le> cs \<and> ce \<le> b"
  proof (cases "cs < a \<and> b < ce")
    case True
    then have "(max cs a - cs) + (ce - min ce b) = (ce - cs) - (b - a)" by (auto simp: max_def min_def not_le)
    moreover have "unat (b - a) < unat (ce - cs)"
      using True assms(1) by (simp add: unat_sub word_le_nat_alt word_less_nat_alt) linarith
    then have "ce - cs \<noteq> b - a" by auto
    ultimately have "(max cs a - cs) + (ce - min ce b) \<noteq> 0" by (metis eq_iff_diff_eq_0)
    then show ?thesis using True by (meson not_le)
  next
    case False
    then show ?thesis using bottom top by (cases "a \<le> cs") (auto simp: not_less)
  qed
qed

text \<open>One cut, for the list of ranges.\<close>

definition cut :: "gpointer \<Rightarrow> gpointer \<Rightarrow> GumCloakedRange list \<Rightarrow> GumCloakedRange list \<Rightarrow> bool" where
  "cut start stop rs rs' \<longleftrightarrow> proper rs' \<and> covered rs' \<subseteq> covered rs \<and> covered rs - {start..<stop} \<subseteq> covered rs' \<and>
     overlapping start stop rs' < overlapping start stop rs \<and>
     length rs' + overlapping start stop rs' \<le> length rs + overlapping start stop rs"

lemma cut_cases:
  assumes "a < b" "proper rs" "i < length rs" "overlaps a b (rs ! i)"
  shows "a \<le> cr_start (rs ! i) \<Longrightarrow> cr_end (rs ! i) \<le> b \<Longrightarrow> cut a b rs (take i rs @ drop (Suc i) rs)"
    "cr_start (rs ! i) < a \<Longrightarrow> cr_end (rs ! i) \<le> b \<Longrightarrow> cut a b rs (rs[i := \<lparr>cr_start = cr_start (rs ! i), cr_end = a\<rparr>])"
    "a \<le> cr_start (rs ! i) \<Longrightarrow> b < cr_end (rs ! i) \<Longrightarrow> cut a b rs (rs[i := \<lparr>cr_start = b, cr_end = cr_end (rs ! i)\<rparr>])"
    "cr_start (rs ! i) < a \<Longrightarrow> b < cr_end (rs ! i) \<Longrightarrow>
      extended b (cr_end (rs ! i)) (rs[i := \<lparr>cr_start = cr_start (rs ! i), cr_end = a\<rparr>]) rs' \<Longrightarrow> cut a b rs rs'"
proof -
  obtain xs ys where parts: "xs = take i rs" "ys = drop (Suc i) rs" by simp
  let ?r = "rs ! i"
  have rs: "rs = xs @ ?r # ys" and up: "rs[i := q] = xs @ q # ys" for q using split_update [OF assms(3)] parts by simp_all
  have p: "proper (xs @ ?r # ys)" using assms(2) rs by simp
  have cov: "covered rs = covered (xs @ ?r # ys)" "overlapping a b rs = overlapping a b (xs @ ?r # ys)" "length rs = length (xs @ ?r # ys)"
    using rs by simp_all
  show "a \<le> cr_start ?r \<Longrightarrow> cr_end ?r \<le> b \<Longrightarrow> cut a b rs (take i rs @ drop (Suc i) rs)"
    using p assms(4) unfolding cut_def cov parts(1,2) [symmetric] by auto
  show "cr_start ?r < a \<Longrightarrow> cr_end ?r \<le> b \<Longrightarrow> cut a b rs (rs[i := \<lparr>cr_start = cr_start ?r, cr_end = a\<rparr>])"
    using p assms(4) unfolding cut_def cov up by auto
  show "a \<le> cr_start ?r \<Longrightarrow> b < cr_end ?r \<Longrightarrow> cut a b rs (rs[i := \<lparr>cr_start = b, cr_end = cr_end ?r\<rparr>])"
    using p assms(1,4) unfolding cut_def cov up by auto
  assume inside: "cr_start ?r < a" "b < cr_end ?r"
    and ext: "extended b (cr_end ?r) (rs[i := \<lparr>cr_start = cr_start ?r, cr_end = a\<rparr>]) rs'"
  have "proper (rs[i := \<lparr>cr_start = cr_start ?r, cr_end = a\<rparr>])" using p inside(1) unfolding up by auto
  note e = extended_covers [OF ext _ this]
  have le: "b \<le> cr_end ?r" using inside(2) by simp
  have "overlapping a b rs' = overlapping a b xs + overlapping a b ys" using e(4) [OF le assms(1)] unfolding up by simp
  moreover have "overlapping a b rs = overlapping a b xs + overlapping a b ys + 1" using cov(2) assms(4) by simp
  moreover have "length rs' \<le> length rs + 1" using e(3) [OF le] by simp
  moreover have "covered rs' = covered xs \<union> covered ys \<union> {cr_start ?r..<a} \<union> {b..<cr_end ?r}" using e(2) [OF le] unfolding up by auto
  moreover have "covered rs = covered xs \<union> covered ys \<union> {cr_start ?r..<cr_end ?r}" using cov(1) by auto
  moreover have "{cr_start ?r..<a} \<subseteq> {cr_start ?r..<cr_end ?r}" "{b..<cr_end ?r} \<subseteq> {cr_start ?r..<cr_end ?r}"
    using inside assms(1) by auto
  moreover have "{cr_start ?r..<cr_end ?r} - {a..<b} \<subseteq> {cr_start ?r..<a} \<union> {b..<cr_end ?r}" by auto
  ultimately show "cut a b rs rs'" unfolding cut_def using e(1) [OF le] by auto
qed

lemma cut_range_cuts:
  assumes "arrays_ok k s" "user_space k" "proper (cloaked_range_list s)" "a < b"
    and "i < length (cloaked_range_list s)" "overlaps a b (cloaked_range_list s ! i)"
    and "fits k (cloaked_ranges (fst s)) (length (cloaked_range_list s) + 1)" "cut_range k a b i s = Some s'"
  shows "arrays_ok k s'" "rest_kept s s'" "cut a b (cloaked_range_list s) (cloaked_range_list s')"
proof -
  obtain c v where s: "s = (c, v)" by (metis prod.exhaust)
  let ?rs = "cloaked_range_list (c, v)" and ?p = "gum_metal_array_element_at (cloaked_ranges c) (of_nat i)"
  define cs ce where "cs = cr_start (?rs ! i)" and "ce = cr_end (?rs ! i)"
  have ok: "arrays_ok k (c, v)" using assms(1) by (simp add: s)
  have i: "i < length ?rs" "i < unat (ma_length (cloaked_ranges c))" using assms(5) range_reads(2) [OF ok] by (simp_all add: s)
  have at: "range_at v ?p = ?rs ! i" by (rule range_reads(3) [OF ok i(2)])
  have le: "cs \<le> ce" using assms(3) i(1) by (simp add: proper_def s cs_def ce_def)
  have over: "cs < b" "a < ce" using assms(6) by (simp_all add: s cs_def ce_def)
  note rem = remainder [OF assms(4) over le]
  note cuts = cut_cases [OF assms(4) _ i(1), folded cs_def ce_def, OF assms(3) [unfolded s] assms(6) [unfolded s, folded cs_def ce_def]]
  note set = range_set [OF ok assms(2) i(1) refl refl, folded cs_def ce_def]
  have "arrays_ok k s' \<and> rest_kept s s' \<and> cut a b (cloaked_range_list s) (cloaked_range_list s')"
  proof (cases "a \<le> cs \<and> ce \<le> b")
    case True
    obtain a' v' where rm: "gum_metal_array_remove_at v (cloaked_ranges c) (of_nat i) = (a', v')" by (metis prod.exhaust)
    have s': "s' = (c\<lparr>cloaked_ranges := a'\<rparr>, v')"
      using assms(8) rem(3) True rm by (simp add: cut_range_def s at cs_def ce_def Let_def)
    have "array_ok k v (cloaked_ranges c)" using ok by (simp add: arrays_ok_def)
    note rok = remove_ok [OF this assms(2) i(2) rm]
    note frame = arrays_ranges(1) [OF ok assms(2) rok(1,3,4)] and rest = rest_keptI [OF ok assms(2) rok(1,3,4)]
    have "cloaked_range_list s' = take i ?rs @ drop (Suc i) ?rs"
      using range_reads(1) [OF frame] range_reads(1) [OF ok] rok(2) by (simp add: s' take_map drop_map)
    then show ?thesis using frame rest cuts(1) True by (simp add: s s')
  next
    case False
    then have sum: "max cs a - cs + (ce - min ce b) \<noteq> 0" using rem(3) by simp
    show ?thesis
    proof (cases "cs < a")
      case low: True
      then have bottom: "max cs a - cs \<noteq> 0" "cs + (max cs a - cs) = a" using rem(1,4) by auto
      let ?v = "set_end ?p a v"
      show ?thesis
      proof (cases "b < ce")
        case True
        then have top: "ce - min ce b \<noteq> 0" "ce - (ce - min ce b) = b" "b + (ce - min ce b) = ce" using rem(2,5) by auto
        have add: "gum_cloak_add_range_unlocked k \<lparr>base_address = b, range_size = ce - min ce b\<rparr> (c, ?v) = Some s'"
          using assms(8) sum bottom top by (simp add: cut_range_def s at cs_def [symmetric] ce_def [symmetric] Let_def)
        have fit: "fits k (cloaked_ranges (fst (c, ?v))) (length (cloaked_range_list (c, ?v)) + 1)" using assms(7) set(6) by (simp add: s)
        note ext = add_range_extends [OF set(4) assms(2) fit add]
        show ?thesis using ext(1) rest_kept_trans [OF set(5) ext(2)] ext(3) cuts(4) low True top(3) set(6) by (simp add: s)
      next
        case False
        then have "ce \<le> b" by simp
        then have "s' = (c, ?v)"
          using assms(8) sum bottom rem(2) by (simp add: cut_range_def s at cs_def [symmetric] ce_def [symmetric] Let_def)
        then show ?thesis using set(4-6) cuts(2) low \<open>ce \<le> b\<close> by (simp add: s)
      qed
    next
      case high: False
      then have bottom: "max cs a - cs = 0" using rem(1) by simp
      have "b < ce" using False high by auto
      then have top: "ce - min ce b \<noteq> 0" "ce - (ce - min ce b) = b" "b + (ce - min ce b) = ce" using rem(2,5) by auto
      have s': "s' = (c, store v ?p (le64 b @ le64 ce))"
        using assms(8) sum bottom top
        by (simp add: cut_range_def s at cs_def [symmetric] ce_def [symmetric] Let_def set_both_store)
      note st = range_store [OF ok assms(2) i(1) _ refl, of "le64 b @ le64 ce"]
      show ?thesis using st cuts(3) high \<open>b < ce\<close> by (simp add: s s' range_of_bytes)
    qed
  qed
  then show "arrays_ok k s'" "rest_kept s s'" "cut a b (cloaked_range_list s) (cloaked_range_list s')" by blast+
qed

lemma fits_mono: "fits k a m \<Longrightarrow> n \<le> m \<Longrightarrow> fits k a n"
  using mult_le_mono1 [of n m "unat (ma_element_size a)"] unfolding fits_def by linarith

lemma remove_loop_ends:
  assumes "arrays_ok k s" "user_space k" "proper (cloaked_range_list s)" "a < b"
    and "fits k (cloaked_ranges (fst s)) (length (cloaked_range_list s) + overlapping a b (cloaked_range_list s))"
  shows "\<exists>res. remove_loop k a b s = Some res \<and> (\<forall>s'. res = Some s' \<longrightarrow> arrays_ok k s' \<and> rest_kept s s' \<and>
    proper (cloaked_range_list s') \<and> covered (cloaked_range_list s') = covered (cloaked_range_list s) - {a..<b})"
  using assms
proof (induction "overlapping a b (cloaked_range_list s)" arbitrary: s rule: less_induct)
  case less
  obtain c v where s: "s = (c, v)" by (metis prod.exhaust)
  let ?rs = "cloaked_range_list s"
  have ok: "arrays_ok k (c, v)" using less.prems(1) by (simp add: s)
  note reads = range_reads [OF ok]
  show ?case
  proof (cases "overlapping_from a b (cloaked_ranges c) v 0 (unat (ma_length (cloaked_ranges c)))")
    case None
    have "\<not> overlaps a b (?rs ! j)" if "j < length ?rs" for j
      using overlapping_from_cases(1) [OF None, of j] that reads(2,3) by (simp add: s)
    then have no: "\<not> overlaps a b r" if "r \<in> set ?rs" for r using that by (auto simp: in_set_conv_nth)
    have "covered ?rs \<inter> {a..<b} = {}"
    proof -
      have "\<not> (cr_start r \<le> x \<and> x < cr_end r)" if "r \<in> set ?rs" "a \<le> x" "x < b" for r x
        using no [OF that(1)] that(2,3) by (meson le_less_trans)
      then show ?thesis by (auto simp: covered_def)
    qed
    then have "covered ?rs - {a..<b} = covered ?rs" by blast
    moreover have "remove_loop k a b s = Some (Some s)" using None by (subst remove_loop.simps) (simp add: s)
    ultimately show ?thesis using less.prems(1,3) rest_kept_refl by (metis option.inject)
  next
    case (Some i)
    note found = overlapping_from_cases(2) [OF Some]
    then have "i < unat (ma_length (cloaked_ranges c))" by simp
    with found have i: "i < length ?rs" "overlaps a b (?rs ! i)" using reads(2) reads(3) [of i] by (simp_all add: s)
    have "1 \<le> overlapping a b ?rs"
      using i nth_mem by (auto simp: overlapping_def Suc_le_eq filter_empty_conv)
    then have fit: "fits k (cloaked_ranges (fst s)) (length ?rs + 1)" using fits_mono [OF less.prems(5)] by simp
    have step: "remove_loop k a b s = (case cut_range k a b i s of None \<Rightarrow> Some None | Some s \<Rightarrow> remove_loop k a b s)"
      using Some by (subst remove_loop.simps) (simp add: s)
    show ?thesis
    proof (cases "cut_range k a b i s")
      case None
      then show ?thesis using step by simp
    next
      case (Some s1)
      note c1 = cut_range_cuts [OF less.prems(1-4) i fit Some]
      from c1(3) have cut: "proper (cloaked_range_list s1)" "covered (cloaked_range_list s1) \<subseteq> covered ?rs"
        "covered ?rs - {a..<b} \<subseteq> covered (cloaked_range_list s1)"
        "overlapping a b (cloaked_range_list s1) < overlapping a b ?rs"
        "length (cloaked_range_list s1) + overlapping a b (cloaked_range_list s1) \<le> length ?rs + overlapping a b ?rs"
        by (simp_all add: cut_def)
      have fit1: "fits k (cloaked_ranges (fst s1)) (length (cloaked_range_list s1) + overlapping a b (cloaked_range_list s1))"
        using fits_mono [OF less.prems(5) cut(5)] c1(2) by (simp add: fits_def rest_kept_def)
      from less.hyps [OF cut(4) c1(1) less.prems(2) cut(1) less.prems(4) fit1] obtain res where
        res: "remove_loop k a b s1 = Some res" and
        after: "\<forall>s'. res = Some s' \<longrightarrow> arrays_ok k s' \<and> rest_kept s1 s' \<and> proper (cloaked_range_list s') \<and>
          covered (cloaked_range_list s') = covered (cloaked_range_list s1) - {a..<b}" by blast
      have "covered (cloaked_range_list s1) - {a..<b} = covered ?rs - {a..<b}" using cut(2,3) by blast
      then show ?thesis using res after step Some rest_kept_trans [OF c1(2)] by auto
    qed
  qed
qed

text \<open>
  An empty range has no address to remove; but strictly inside a cloaked range it overlaps it, and the two parts that
  are made of that range are joined again.
\<close>

lemma le64_of_le:
  assumes "length bs = 8"
  shows "le64 (of_le bs) = bs"
proof -
  have drop: "drop_bit 8 (of_le (b # cs) :: 64 word) = take_bit 56 (of_le cs)" for b cs
    by (rule bit_word_eqI) (auto simp: bit_simps dest: bit_imp_le_length)
  have low: "ucast (of_le (b # cs) :: 64 word) = b" for b cs
    by (rule bit_word_eqI) (auto simp: bit_simps)
  have byte: "ucast (drop_bit (8 * k) (of_le cs :: 64 word)) = cs ! k" if "k < 8" "k < length cs" for k cs
    using that
  proof (induction k arbitrary: cs)
    case 0
    then show ?case using low by (cases cs) auto
  next
    case (Suc k)
    then obtain b ds where cs: "cs = b # ds" by (cases cs) auto
    have "drop_bit (8 * Suc k) (of_le cs :: 64 word) = drop_bit (8 * k) (drop_bit 8 (of_le cs))"
      by (simp only: drop_bit_drop_bit mult_Suc_right add.commute)
    then have "ucast (drop_bit (8 * Suc k) (of_le cs :: 64 word)) = (ucast (drop_bit (8 * k) (take_bit 56 (of_le ds :: 64 word))) :: guint8)"
      by (simp only: cs drop)
    also have "\<dots> = ucast (drop_bit (8 * k) (of_le ds :: 64 word))"
      using Suc.prems by (intro bit_word_eqI) (auto simp: bit_simps)
    finally show ?case using Suc by (simp add: cs)
  qed
  from assms obtain b0 b1 b2 b3 b4 b5 b6 b7 where bs: "bs = [b0, b1, b2, b3, b4, b5, b6, b7]"
    by (auto simp: length_Suc_conv numeral_eq_Suc)
  show ?thesis
    using byte [of 0 bs] byte [of 1 bs] byte [of 2 bs] byte [of 3 bs] byte [of 4 bs] byte [of 5 bs] byte [of 6 bs] byte [of 7 bs]
    by (simp add: le64_def bs del: of_le.simps)
qed

lemma cut_empty:
  assumes "arrays_ok k s" "user_space k" "i < length (cloaked_range_list s)"
    and "cr_start (cloaked_range_list s ! i) < a" "a < cr_end (cloaked_range_list s ! i)"
    and "\<forall>j < i. cr_start (cloaked_range_list s ! j) \<noteq> cr_end (cloaked_range_list s ! i) \<and> cr_end (cloaked_range_list s ! j) \<noteq> a"
  shows "cut_range k a a i s = Some s"
proof -
  obtain c v where s: "s = (c, v)" by (metis prod.exhaust)
  let ?rs = "cloaked_range_list (c, v)" and ?p = "gum_metal_array_element_at (cloaked_ranges c) (of_nat i)"
  have ok: "arrays_ok k (c, v)" using assms(1) by (simp add: s)
  have i: "i < length ?rs" "i < unat (ma_length (cloaked_ranges c))" using assms(3) range_reads(2) [OF ok] by (simp_all add: s)
  define cs ce where "cs = cr_start (?rs ! i)" and "ce = cr_end (?rs ! i)"
  have in_a: "cs < a" "a < ce" using assms(4,5) by (simp_all add: s cs_def ce_def)
  have at: "range_at v ?p = ?rs ! i" by (rule range_reads(3) [OF ok i(2)])
  let ?v = "set_end ?p a v"
  note set = range_set [OF ok assms(2) i(1) refl refl, folded cs_def ce_def]
  have cut: "cut_range k a a i s = gum_cloak_add_range_unlocked k \<lparr>base_address = a, range_size = ce - a\<rparr> (c, ?v)"
  proof -
    have "(a - cs) + (ce - a) \<noteq> 0" "a - cs \<noteq> 0" "ce - a \<noteq> 0" using in_a by auto
    moreover have "max cs a = a" "min ce a = a" using in_a by (auto simp: max_def min_def not_le)
    ultimately show ?thesis by (simp add: cut_range_def s at cs_def [symmetric] ce_def [symmetric] Let_def)
  qed
  have len: "length (cloaked_range_list (c, ?v)) = length ?rs" using set(6) by simp
  note reads = range_reads [OF set(4)]
  have look: "range_at ?v (gum_metal_array_element_at (cloaked_ranges c) (of_nat j)) = (if j = i then \<lparr>cr_start = cs, cr_end = a\<rparr> else ?rs ! j)"
    if "j < length ?rs" for j
    using reads(3) [of j] reads(2) that set(6) by (auto simp: nth_list_update)
  have restored: "set_end ?p ce ?v = v"
  proof -
    have "read_bytes (vm_mem v) (?p + 8) 8 = le64 ce"
    proof -
      have "of_le (read_bytes (vm_mem v) (?p + 8) 8) = ce" using arg_cong [OF at, of cr_end] by (simp add: range_at_def ce_def)
      moreover have "le64 (of_le bs) = bs" if "length bs = 8" for bs
        by (rule le64_of_le [OF that])
      ultimately show ?thesis by (metis length_read_bytes)
    qed
    moreover have "write_bytes (write_bytes m q (le64 x)) q (le64 y) = write_bytes m q (le64 y)" for m q x y
      using write_bytes_patch [of "le64 y" "le64 x" "[]" "[]" m q] by simp
    ultimately show ?thesis using write_back [of "vm_mem v" "?p + 8" 8] by (simp add: set_end_def store_def)
  qed
  have "extend_existing a ce (cloaked_ranges c) j (Suc (i - j) + n) ?v = (True, v)" if "j \<le> i" "i + n < length ?rs" for j n
    using that
  proof (induction "i - j" arbitrary: j)
    case 0
    then have "j = i" by simp
    then show ?case using look [OF i(1)] restored in_a by (simp add: Let_def)
  next
    case (Suc d)
    then have j: "j < i" "d = i - Suc j" "Suc j \<le> i" "Suc (i - j) + n = Suc (Suc (i - Suc j) + n)" by simp_all
    note next_one = Suc.hyps(1) [OF j(2,3) Suc.prems(2)]
    have "cr_start (?rs ! j) \<noteq> ce" "cr_end (?rs ! j) \<noteq> a" using assms(6) j(1) by (simp_all add: s ce_def)
    moreover have "j < length ?rs" using j(1) i(1) by simp
    ultimately show ?case using look [of j] j(1) unfolding j(4) extend_existing.simps(2) Let_def next_one by simp
  qed
  from this [of 0 "length ?rs - Suc i"] i
  have "extend_existing a ce (cloaked_ranges c) 0 (unat (ma_length (cloaked_ranges c))) ?v = (True, v)"
    using range_reads(2) [OF ok] by simp
  then show ?thesis unfolding cut by (simp add: gum_cloak_add_range_unlocked_def s)
qed

lemma remove_loop_stuck:
  assumes "overlapping_from a b (cloaked_ranges (fst s)) (snd s) 0 (unat (ma_length (cloaked_ranges (fst s)))) = Some i"
    and "cut_range k a b i s = Some s"
  shows "remove_loop k a b s = None"
proof -
  have "(k', a', b', s') \<noteq> (k, a, b, s)" if "remove_loop k' a' b' s' = Some y" for k' a' b' s' y
  proof (rule remove_loop.raw_induct [OF _ that])
    fix loop k' a' b' s' y
    assume IH: "\<And>k' a' b' s' y. loop k' a' b' s' = Some y \<Longrightarrow> (k', a', b', s') \<noteq> (k, a, b, s)"
      and eq: "(case overlapping_from a' b' (cloaked_ranges (fst s')) (snd s') 0 (unat (ma_length (cloaked_ranges (fst s')))) of
          None \<Rightarrow> Some (Some s') | Some i \<Rightarrow> (case cut_range k' a' b' i s' of None \<Rightarrow> Some None | Some s \<Rightarrow> loop k' a' b' s)) = Some y"
    show "(k', a', b', s') \<noteq> (k, a, b, s)"
    proof
      assume e: "(k', a', b', s') = (k, a, b, s)"
      then have "loop k a b s = Some y" using eq assms by simp
      then show False using IH by blast
    qed
  qed
  then show ?thesis by (metis option.exhaust)
qed

section \<open>Clipping\<close>

definition space :: "GumMemoryRange \<Rightarrow> gpointer set" where
  "space r = {base_address r..<base_address r + range_size r}"

definition bounded :: "GumMemoryRange \<Rightarrow> bool" where
  "bounded r \<longleftrightarrow> unat (base_address r) + unat (range_size r) < 2 ^ 64"

lemma bounded_end:
  assumes "bounded r"
  shows "unat (base_address r + range_size r) = unat (base_address r) + unat (range_size r)"
    "base_address r \<le> base_address r + range_size r"
    "range_size r \<noteq> 0 \<Longrightarrow> base_address r < base_address r + range_size r"
proof -
  show e: "unat (base_address r + range_size r) = unat (base_address r) + unat (range_size r)"
    using assms by (simp add: bounded_def unat_word_ariths)
  then show "base_address r \<le> base_address r + range_size r" by (simp add: word_le_nat_alt)
  show "range_size r \<noteq> 0 \<Longrightarrow> base_address r < base_address r + range_size r"
    using e unat_gt_0 [of "range_size r"] by (simp add: word_less_nat_alt)
qed

lemma part_between: "x \<le> y \<Longrightarrow> bounded \<lparr>base_address = x, range_size = y - x\<rparr>" "space \<lparr>base_address = x, range_size = y - x\<rparr> = {x..<y}"
  using unsigned_less [of y, where 'a = nat] by (auto simp: bounded_def space_def unat_sub word_le_nat_alt)

definition spaces :: "GumMemoryRange list \<Rightarrow> gpointer set" where
  "spaces chunks = (\<Union>r \<in> set chunks. space r)"

lemma spaces_simps [simp]: "spaces [] = {}" "spaces (r # rs) = space r \<union> spaces rs" "spaces (rs @ rs') = spaces rs \<union> spaces rs'"
  by (auto simp: spaces_def)

definition bytes :: "GumMemoryRange list \<Rightarrow> nat" where
  "bytes chunks = sum_list (map (\<lambda>r. unat (range_size r)) chunks)"

lemma clip_one:
  fixes s e lo hi :: gpointer
  assumes "s \<le> lo" "lo < hi" "hi \<le> e"
    and "parts = (if (lo - s) + (e - hi) = 0 then []
      else (if lo - s \<noteq> 0 then [\<lparr>base_address = s, range_size = lo - s\<rparr>] else []) @
        (if e - hi \<noteq> 0 then [\<lparr>base_address = e - (e - hi), range_size = e - hi\<rparr>] else []))"
  shows "spaces parts = {s..<lo} \<union> {hi..<e}" "list_all bounded parts" "bytes parts < unat (e - s)"
proof -
  have u: "unat (lo - s) = unat lo - unat s" "unat (e - hi) = unat e - unat hi" "unat (e - s) = unat e - unat s"
    using assms(1-3) by (simp_all add: unat_sub word_le_nat_alt word_less_nat_alt)
  have sum: "unat (lo - s) + unat (e - hi) < unat (e - s)" using u assms(1-3) by (simp add: word_le_nat_alt word_less_nat_alt)
  moreover have "unat (e - s) < 2 ^ 64" using unsigned_less [of "e - s", where 'a = nat] by simp
  ultimately have "unat ((lo - s) + (e - hi)) = unat (lo - s) + unat (e - hi)" by (simp add: unat_word_ariths)
  then have "(lo - s) + (e - hi) = 0 \<longleftrightarrow> lo - s = 0 \<and> e - hi = 0" by (metis add_is_0 unat_eq_zero)
  then have parts: "parts = (if lo - s \<noteq> 0 then [\<lparr>base_address = s, range_size = lo - s\<rparr>] else []) @
      (if e - hi \<noteq> 0 then [\<lparr>base_address = hi, range_size = e - hi\<rparr>] else [])" using assms(4) by simp
  show "spaces parts = {s..<lo} \<union> {hi..<e}" using part_between(2) [of s lo] part_between(2) [of hi e] by (auto simp: parts)
  show "list_all bounded parts" using part_between(1) assms(1,3) by (simp add: parts)
  have "bytes parts \<le> unat (lo - s) + unat (e - hi)" by (simp add: parts bytes_def)
  then show "bytes parts < unat (e - s)" using sum by (rule le_less_trans)
qed

lemma clip_chunk_cases:
  assumes "bounded chunk"
  shows "clip_chunk chunk cloaked = None \<Longrightarrow> space chunk \<inter> covered cloaked = {}"
    "clip_chunk chunk cloaked = Some parts \<Longrightarrow> space chunk - covered cloaked \<subseteq> spaces parts \<and> spaces parts \<subseteq> space chunk \<and>
       space chunk \<inter> covered cloaked \<noteq> {} \<and> list_all bounded parts \<and> bytes parts < unat (range_size chunk)"
proof (induction cloaked)
  case (Cons c cloaked)
  let ?s = "base_address chunk" and ?e = "base_address chunk + range_size chunk"
  define lo hi where "lo = max (cr_start c) ?s" and "hi = min (cr_end c) ?e"
  have bounds: "?s \<le> lo" "hi \<le> ?e" "lo = max (cr_start c) ?s" by (simp_all add: lo_def hi_def)
  have meet: "space chunk \<inter> {cr_start c..<cr_end c} = {lo..<hi}" by (auto simp: space_def lo_def hi_def)
  { case 1
    then have "hi \<le> lo" "clip_chunk chunk cloaked = None" by (auto simp: Let_def lo_def hi_def split: if_splits)
    then show ?case using Cons.IH(1) meet by auto }
  { case 2
    show ?case
    proof (cases "hi \<le> lo")
      case True
      then have "clip_chunk chunk cloaked = Some parts" using 2 by (simp add: Let_def lo_def hi_def)
      moreover have "space chunk \<inter> {cr_start c..<cr_end c} = {}" using True meet by simp
      ultimately show ?thesis using Cons.IH(2) by auto
    next
      case False
      then have parts: "parts = (if (lo - ?s) + (?e - hi) = 0 then []
          else (if lo - ?s \<noteq> 0 then [\<lparr>base_address = ?s, range_size = lo - ?s\<rparr>] else []) @
            (if ?e - hi \<noteq> 0 then [\<lparr>base_address = ?e - (?e - hi), range_size = ?e - hi\<rparr>] else []))"
        using 2 by (simp only: clip_chunk.simps Let_def lo_def [symmetric] hi_def [symmetric] if_False option.inject)
      from False have lt: "lo < hi" by simp
      note one = clip_one [OF bounds(1) lt bounds(2) parts]
      have "space chunk = {?s..<lo} \<union> {lo..<hi} \<union> {hi..<?e}"
        using bounds(1,2) lt by (simp add: space_def ivl_disj_un_two(3) less_imp_le)
      moreover have sub: "{lo..<hi} \<subseteq> covered (c # cloaked)" using meet by auto
      moreover have "lo \<in> space chunk \<inter> covered (c # cloaked)" using lt meet sub by auto
      then have "space chunk \<inter> covered (c # cloaked) \<noteq> {}" by blast
      moreover have "bytes parts < unat (range_size chunk)" using one(3) by simp
      ultimately show ?thesis using one(1,2) by blast
    qed }
qed simp_all

lemma clip_pass_cases:
  assumes "list_all bounded chunks"
  shows "clip_pass cloaked chunks = None \<Longrightarrow> spaces chunks \<inter> covered cloaked = {}"
    "clip_pass cloaked chunks = Some chunks' \<Longrightarrow> spaces chunks - covered cloaked \<subseteq> spaces chunks' \<and> spaces chunks' \<subseteq> spaces chunks \<and>
       spaces chunks \<inter> covered cloaked \<noteq> {} \<and> list_all bounded chunks' \<and> bytes chunks' < bytes chunks"
  using assms
proof (induction chunks arbitrary: chunks')
  case (Cons chunk chunks)
  { case 1
    then have b: "bounded chunk" "list_all bounded chunks" by simp_all
    from 1(1) have "clip_chunk chunk cloaked = None" "clip_pass cloaked chunks = None" by (auto split: option.splits)
    then show ?case using clip_chunk_cases(1) [OF b(1)] Cons.IH(1) [OF _ b(2)] by auto }
  { case 2
    then have b: "bounded chunk" "list_all bounded chunks" by simp_all
    show ?case
    proof (cases "clip_chunk chunk cloaked")
      case None
      then obtain rest where rest: "clip_pass cloaked chunks = Some rest" "chunks' = chunk # rest" using 2(1) by auto
      from Cons.IH(2) [OF rest(1) b(2)] show ?thesis using b(1) rest(2) by (auto simp: bytes_def)
    next
      case (Some parts)
      then have "chunks' = parts @ chunks" using 2(1) by simp
      then show ?thesis using clip_chunk_cases(2) [OF b(1) Some] b(2) by (auto simp: bytes_def)
    qed }
qed simp_all

lemma clip_loop_ends:
  "list_all bounded chunks \<Longrightarrow> \<exists>res. clip_loop cloaked True chunks = Some (Some res) \<and> spaces res = spaces chunks - covered cloaked"
proof (induction "bytes chunks" arbitrary: chunks rule: less_induct)
  case less
  show ?case
  proof (cases "clip_pass cloaked chunks")
    case None
    then have "clip_loop cloaked True chunks = Some (Some chunks)" by (subst clip_loop.simps) simp
    moreover have "spaces chunks - covered cloaked = spaces chunks" using clip_pass_cases(1) [OF less.prems None] by blast
    ultimately show ?thesis by simp
  next
    case (Some chunks')
    note c = clip_pass_cases(2) [OF less.prems Some]
    from less.hyps [of chunks'] c obtain res where
      "clip_loop cloaked True chunks' = Some (Some res)" "spaces res = spaces chunks' - covered cloaked" by blast
    moreover have "clip_loop cloaked True chunks = clip_loop cloaked True chunks'" using Some by (subst clip_loop.simps) simp
    moreover have "spaces chunks' - covered cloaked = spaces chunks - covered cloaked" using c by blast
    ultimately show ?thesis by simp
  qed
qed

lemma clip_loop_start:
  assumes "bounded r"
  shows "\<exists>res. clip_loop cloaked False [r] = Some res \<and>
    (case res of None \<Rightarrow> space r \<inter> covered cloaked = {}
     | Some chunks \<Rightarrow> space r \<inter> covered cloaked \<noteq> {} \<and> spaces chunks = space r - covered cloaked)"
proof (cases "clip_pass cloaked [r]")
  case None
  then have "clip_loop cloaked False [r] = Some None" by (subst clip_loop.simps) simp
  moreover have "space r \<inter> covered cloaked = {}" using clip_pass_cases(1) [OF _ None] assms by simp
  ultimately show ?thesis by simp
next
  case (Some chunks)
  then have c: "spaces [r] - covered cloaked \<subseteq> spaces chunks" "spaces chunks \<subseteq> spaces [r]" "spaces [r] \<inter> covered cloaked \<noteq> {}"
    "list_all bounded chunks" using clip_pass_cases(2) [OF _ Some] assms by simp_all
  have "clip_loop cloaked False [r] = clip_loop cloaked True chunks" using Some by (subst clip_loop.simps) simp
  moreover obtain res where "clip_loop cloaked True chunks = Some (Some res)" "spaces res = spaces chunks - covered cloaked"
    using clip_loop_ends [OF c(4)] by blast
  moreover have "spaces chunks - covered cloaked = space r - covered cloaked" using c(1,2) by auto
  ultimately show ?thesis using c(3) by simp
qed

lemma extents_owned:
  assumes "array_ok k v a" "user_space k" "unat (ma_element_size a) \<le> page k"
  shows "{cr_start (extents k a)..<cr_end (extents k a)} = {x. owned k v (ma_data a) x}"
proof -
  from assms(1) obtain n where n: "pages_at k v (ma_data a) n" by (auto simp: array_ok_def)
  obtain start stop where e: "gum_metal_array_get_extents k a = (start, stop)" by (metis prod.exhaust)
  show ?thesis
  proof (rule set_eqI)
    fix x
    show "x \<in> {cr_start (extents k a)..<cr_end (extents k a)} \<longleftrightarrow> x \<in> {x. owned k v (ma_data a) x}"
      using extents_exact(3) [OF assms e n, of x] by (simp add: extents_def e)
  qed
qed

end
