(* ===== verification/Gum_Cloak_Registry.thy ===== *)
theory Gum_Cloak_Registry
  imports Gum_Cloak_Ranges
begin

text \<open>
  Histories of the cloak against the registry it is meant to be, and the properties: what it answers, what it clips, which
  removals end, and one that does not.
\<close>

section \<open>The registry\<close>

type_synonym registry = "GumThreadId multiset \<times> gint multiset \<times> gpointer set"

datatype cloak_op =
    Add_thread GumThreadId | Remove_thread GumThreadId | Add_fd gint | Remove_fd gint
  | Add_range GumMemoryRange | Remove_range GumMemoryRange | Process_works

fun registry_op :: "cloak_op \<Rightarrow> registry \<Rightarrow> registry" where
  "registry_op (Add_thread t) (ts, fs, A) = (add_mset t ts, fs, A)"
| "registry_op (Remove_thread t) (ts, fs, A) = (ts - {#t#}, fs, A)"
| "registry_op (Add_fd f) (ts, fs, A) = (ts, add_mset f fs, A)"
| "registry_op (Remove_fd f) (ts, fs, A) = (ts, fs - {#f#}, A)"
| "registry_op (Add_range r) (ts, fs, A) = (ts, fs, A \<union> space r)"
| "registry_op (Remove_range r) (ts, fs, A) = (ts, fs, A - space r)"
| "registry_op Process_works reg = reg"

definition registry_of :: "cloak \<times> vm \<Rightarrow> registry" where
  "registry_of s = (mset (threads_of s), mset (fds_of s), covered (cloaked_range_list s))"

text \<open>
  The calls that return, with arrays that fit into 4 GiB, ranges that end in the address space and, for removals, hold an
  address; and the rest of the process, which leaves the arrays alone.
\<close>

inductive cloak_step :: "kernel \<Rightarrow> cloak \<times> vm \<Rightarrow> cloak_op \<Rightarrow> cloak \<times> vm \<Rightarrow> bool" for k where
  call_add_thread: "fits k (cloaked_threads (fst s)) (unat (ma_length (cloaked_threads (fst s))) + 1) \<Longrightarrow>
    gum_cloak_add_thread k t s = Some s' \<Longrightarrow> cloak_step k s (Add_thread t) s'"
| call_remove_thread: "cloak_step k s (Remove_thread t) (gum_cloak_remove_thread t s)"
| call_add_fd: "fits k (cloaked_fds (fst s)) (unat (ma_length (cloaked_fds (fst s))) + 1) \<Longrightarrow>
    gum_cloak_add_file_descriptor k f s = Some s' \<Longrightarrow> cloak_step k s (Add_fd f) s'"
| call_remove_fd: "cloak_step k s (Remove_fd f) (gum_cloak_remove_file_descriptor f s)"
| call_add_range: "fits k (cloaked_ranges (fst s)) (unat (ma_length (cloaked_ranges (fst s))) + 1) \<Longrightarrow> bounded r \<Longrightarrow>
    gum_cloak_add_range k r s = Some s' \<Longrightarrow> cloak_step k s (Add_range r) s'"
| call_remove_range: "fits k (cloaked_ranges (fst s)) (2 * unat (ma_length (cloaked_ranges (fst s)))) \<Longrightarrow> bounded r \<Longrightarrow>
    range_size r \<noteq> 0 \<Longrightarrow> gum_cloak_remove_range k r s = Some (Some s') \<Longrightarrow> cloak_step k s (Remove_range r) s'"
| process_works: "untouched (\<lambda>x. owned k v (ma_data (cloaked_threads c)) x \<or> owned k v (ma_data (cloaked_ranges c)) x \<or>
      owned k v (ma_data (cloaked_fds c)) x) v v' \<Longrightarrow> cloak_step k (c, v) Process_works (c, v')"

inductive cloak_run :: "kernel \<Rightarrow> cloak \<times> vm \<Rightarrow> cloak_op list \<Rightarrow> cloak \<times> vm \<Rightarrow> bool" for k where
  no_call: "cloak_run k s [] s"
| one_call: "cloak_step k s op s1 \<Longrightarrow> cloak_run k s1 ops s2 \<Longrightarrow> cloak_run k s (op # ops) s2"

lemma array_lengths:
  assumes "well_formed k s"
  shows "unat (ma_length (cloaked_threads (fst s))) = length (threads_of s)"
    "unat (ma_length (cloaked_fds (fst s))) = length (fds_of s)"
    "unat (ma_length (cloaked_ranges (fst s))) = length (cloaked_range_list s)"
proof -
  obtain c v where s: "s = (c, v)" by (metis prod.exhaust)
  have "arrays_ok k (c, v)" using assms by (simp add: well_formed_def s)
  from thread_reads(2) [OF this] fd_reads(2) [OF this] range_reads(2) [OF this]
  show "unat (ma_length (cloaked_threads (fst s))) = length (threads_of s)"
    "unat (ma_length (cloaked_fds (fst s))) = length (fds_of s)"
    "unat (ma_length (cloaked_ranges (fst s))) = length (cloaked_range_list s)" by (simp_all add: s)
qed

lemma remove_range_ends:
  assumes "well_formed k s" "user_space k" "bounded r" "range_size r \<noteq> 0"
    and "fits k (cloaked_ranges (fst s)) (2 * unat (ma_length (cloaked_ranges (fst s))))"
  shows "\<exists>res. gum_cloak_remove_range k r s = Some res \<and> (\<forall>s'. res = Some s' \<longrightarrow> well_formed k s' \<and> rest_kept s s' \<and>
    covered (cloaked_range_list s') = covered (cloaked_range_list s) - space r)"
proof -
  let ?a = "base_address r" and ?b = "base_address r + range_size r"
  have lt: "?a < ?b" by (rule bounded_end(3) [OF assms(3,4)])
  have "overlapping ?a ?b (cloaked_range_list s) \<le> length (cloaked_range_list s)" by (simp add: overlapping_def)
  then have fit: "fits k (cloaked_ranges (fst s)) (length (cloaked_range_list s) + overlapping ?a ?b (cloaked_range_list s))"
    using fits_mono [OF assms(5)] array_lengths(3) [OF assms(1)] by simp
  have wf: "arrays_ok k s" "proper (cloaked_range_list s)" using assms(1) by (simp_all add: well_formed_proper)
  from remove_loop_ends [OF wf(1) assms(2) wf(2) lt fit] obtain res where res: "remove_loop k ?a ?b s = Some res"
    and after: "\<forall>s'. res = Some s' \<longrightarrow> arrays_ok k s' \<and> rest_kept s s' \<and> proper (cloaked_range_list s') \<and>
      covered (cloaked_range_list s') = covered (cloaked_range_list s) - {?a..<?b}" by blast
  have "\<forall>s'. res = Some s' \<longrightarrow> well_formed k s' \<and> rest_kept s s' \<and>
      covered (cloaked_range_list s') = covered (cloaked_range_list s) - space r"
    using after well_formed_kept [OF assms(1)] unfolding space_def by blast
  then show ?thesis using res by (simp add: gum_cloak_remove_range_def gum_cloak_remove_range_unlocked_def)
qed

lemma cloak_step_ok:
  assumes "cloak_step k s op s'" "well_formed k s" "user_space k"
  shows "well_formed k s' \<and> registry_of s' = registry_op op (registry_of s)"
  using assms(1)
proof cases
  case (call_add_thread t)
  have fit: "fits k (cloaked_threads (fst s)) (length (threads_of s) + 1)"
    using call_add_thread(2) array_lengths(1) [OF assms(2)] by simp
  from add_thread_ok [OF assms(2,3) fit call_add_thread(3)] show ?thesis by (simp add: call_add_thread(1) registry_of_def)
next
  case (call_remove_thread t)
  then show ?thesis using remove_thread_ok [OF assms(2,3)] by (simp add: registry_of_def)
next
  case (call_add_fd f)
  have fit: "fits k (cloaked_fds (fst s)) (length (fds_of s) + 1)" using call_add_fd(2) array_lengths(2) [OF assms(2)] by simp
  from add_fd_ok [OF assms(2,3) fit call_add_fd(3)] show ?thesis by (simp add: call_add_fd(1) registry_of_def)
next
  case (call_remove_fd f)
  then show ?thesis using remove_fd_ok [OF assms(2,3)] by (simp add: registry_of_def)
next
  case (call_add_range r)
  have wf: "arrays_ok k s" "proper (cloaked_range_list s)" using assms(2) by (simp_all add: well_formed_proper)
  have fit: "fits k (cloaked_ranges (fst s)) (length (cloaked_range_list s) + 1)"
    using call_add_range(2) array_lengths(3) [OF assms(2)] by simp
  note add = add_range_extends [OF wf(1) assms(3) fit call_add_range(4) [unfolded gum_cloak_add_range_def]]
  note cov = extended_covers(1,2) [OF add(3) bounded_end(2) [OF call_add_range(3)] wf(2)]
  show ?thesis using well_formed_kept [OF assms(2) add(2,1) cov(1)] cov(2) add(2)
    by (simp add: call_add_range(1) registry_of_def space_def rest_kept_def)
next
  case (call_remove_range r)
  from remove_range_ends [OF assms(2,3) call_remove_range(3,4,2)] call_remove_range(5)
  have "well_formed k s' \<and> rest_kept s s' \<and> covered (cloaked_range_list s') = covered (cloaked_range_list s) - space r"
    by (metis option.inject)
  then show ?thesis by (simp add: call_remove_range(1) registry_of_def rest_kept_def)
next
  case (process_works v c v')
  have arrays: "arrays_ok k (c, v)" using assms(2) process_works(1) by (simp add: well_formed_def)
  have u: "untouched (owned k v (ma_data (cloaked_threads c))) v v'" "untouched (owned k v (ma_data (cloaked_ranges c))) v v'"
    "untouched (owned k v (ma_data (cloaked_fds c))) v v'" using process_works(4) unfolding untouched_def by blast+
  have ok: "array_ok k v (cloaked_threads c)" "array_ok k v (cloaked_ranges c)" "array_ok k v (cloaked_fds c)"
    using arrays by (simp_all add: arrays_ok_def)
  note t = array_untouched [OF ok(1) assms(3) u(1)] and r = array_untouched [OF ok(2) assms(3) u(2)]
    and f = array_untouched [OF ok(3) assms(3) u(3)]
  have same: "owned k v' (ma_data a) = owned k v (ma_data a)" if "array_ok k v a" "untouched (owned k v (ma_data a)) v v'" for a
    using that owned_size_untouched(2) [OF _ assms(3)] by (auto simp: array_ok_def)
  have after: "arrays_ok k (c, v')"
    using arrays t(1) r(1) f(1) same [OF ok(1) u(1)] same [OF ok(2) u(2)] same [OF ok(3) u(3)]
    by (simp add: arrays_ok_def keep_apart_def)
  have "threads_of s' = threads_of s" "fds_of s' = fds_of s" "cloaked_range_list s' = cloaked_range_list s"
    using t(2) f(2) range_reads(1) [OF arrays] range_reads(1) [OF after] r(2)
    by (simp_all add: process_works threads_of_def fds_of_def threads.contents_def fds.contents_def)
  then show ?thesis using assms(2) after by (simp add: well_formed_def registry_of_def process_works)
qed

lemma cloak_run_ok:
  assumes "cloak_run k s ops s'" "user_space k"
  shows "well_formed k s \<Longrightarrow> well_formed k s' \<and> registry_of s' = fold registry_op ops (registry_of s)"
  using assms(1)
proof induction
  case (one_call s op s1 ops s2)
  then show ?case using cloak_step_ok [OF one_call.hyps(1) _ assms(2)] by simp
qed simp

lemma init_arrays:
  assumes "user_space k" "gum_cloak_init k v = Some s"
  shows "well_formed k s" "registry_of s = ({#}, {#}, {})"
proof -
  from assms(2) obtain t v1 r v2 f v3 where t: "gum_metal_array_init k v 8 = Some (t, v1)"
    and r: "gum_metal_array_init k v1 16 = Some (r, v2)" and f: "gum_metal_array_init k v2 4 = Some (f, v3)"
    and s: "s = (\<lparr>cloaked_threads = t, cloaked_ranges = r, cloaked_fds = f\<rparr>, v3)"
    by (auto simp: gum_cloak_init_def split: option.splits)
  note it = init_ok [OF assms(1) t] and ir = init_ok [OF assms(1) r] and if' = init_ok [OF assms(1) f]
  have own: "owned k w (ma_data a) x \<Longrightarrow> mapped (vm_log w) x" if "array_ok k w a" for w a x
    using that by (auto simp: array_ok_def pages_at_def)
  have u1: "untouched (owned k v1 (ma_data t)) v1 v2" using ir(4) own [OF it(1)] by (auto simp: untouched_def)
  note t2 = array_untouched [OF it(1) assms(1) u1]
  have o2: "owned k v2 (ma_data t) = owned k v1 (ma_data t)"
    using it(1) owned_size_untouched(2) [OF _ assms(1) u1] by (auto simp: array_ok_def)
  have u2: "untouched (owned k v2 (ma_data a)) v2 v3" if "array_ok k v2 a" for a
    using if'(4) own [OF that] by (auto simp: untouched_def)
  note t3 = array_untouched [OF t2(1) assms(1) u2 [OF t2(1)]] and r3 = array_untouched [OF ir(1) assms(1) u2 [OF ir(1)]]
  have o3: "owned k v3 (ma_data a) = owned k v2 (ma_data a)" if "array_ok k v2 a" for a
    using that owned_size_untouched(2) [OF _ assms(1) u2 [OF that]] by (auto simp: array_ok_def)
  have "keep_apart k v3 (ma_data t) (ma_data r)"
    using ir(6) own [OF it(1)] unfolding keep_apart_def o3 [OF t2(1)] o3 [OF ir(1)] o2 by blast
  moreover have "keep_apart k v3 (ma_data t) (ma_data f)" "keep_apart k v3 (ma_data r) (ma_data f)"
    using if'(6) own [OF t2(1)] own [OF ir(1)] unfolding keep_apart_def o3 [OF t2(1)] o3 [OF ir(1)] by blast+
  ultimately have arrays: "arrays_ok k s"
    using t3(1) r3(1) if'(1) it(3) ir(3) if'(3) by (simp add: arrays_ok_def s)
  have empty: "threads_of s = []" "fds_of s = []" "cloaked_range_list s = []"
    using t3(2) t2(2) it(2) if'(2) range_reads(1) [OF arrays [unfolded s]] r3(2) ir(2)
    by (simp_all add: s threads_of_def fds_of_def threads.contents_def fds.contents_def)
  show "well_formed k s" "registry_of s = ({#}, {#}, {})" using arrays empty by (simp_all add: well_formed_def registry_of_def)
qed

section \<open>Properties\<close>

text \<open>
  C22: The cloak is a registry of threads, file descriptors and addresses. After any history of calls, the three questions
  it answers are membership in two multisets and a set, which the calls change as their names say; the enumerations
  visit each multiset in ascending order, and ranges that make up the set.
\<close>

theorem cloak_refines_registry:
  assumes "user_space k" and "gum_cloak_init k v = Some s0" and "cloak_run k s0 ops s"
    and "fold registry_op ops ({#}, {#}, {}) = (ts, fs, A)"
  shows "(\<forall>t. gum_cloak_has_thread t s \<longleftrightarrow> t \<in># ts) \<and> (\<forall>f. gum_cloak_has_file_descriptor f s \<longleftrightarrow> f \<in># fs) \<and>
    (\<forall>x. gum_cloak_has_range_containing x s \<longleftrightarrow> x \<in> A) \<and>
    (\<forall>(func :: _ \<Rightarrow> 'a \<Rightarrow> _) data. gum_cloak_enumerate_threads func s data = enumerate_until func (sorted_list_of_multiset ts) data) \<and>
    (\<exists>xs. sorted (map sint xs) \<and> mset xs = fs \<and>
      (\<forall>(func :: _ \<Rightarrow> 'b \<Rightarrow> _) data. gum_cloak_enumerate_file_descriptors func s data = enumerate_until func xs data)) \<and>
    (\<exists>rs :: GumCloakedRange list. (\<forall>r \<in> set rs. cr_start r \<le> cr_end r) \<and> (\<Union>r \<in> set rs. {cr_start r..<cr_end r}) = A \<and>
      (\<forall>(func :: _ \<Rightarrow> 'c \<Rightarrow> _) data. gum_cloak_enumerate_ranges func s data =
        enumerate_until (\<lambda>r. func \<lparr>base_address = cr_start r, range_size = cr_end r - cr_start r\<rparr>) rs data))"
proof -
  note init = init_arrays [OF assms(1,2)]
  have wf: "well_formed k s" and reg: "registry_of s = (ts, fs, A)"
    using cloak_run_ok [OF assms(3,1) init(1)] init(2) assms(4) by simp_all
  obtain c v' where s: "s = (c, v')" by (metis prod.exhaust)
  have arrays: "arrays_ok k (c, v')" using wf by (simp add: well_formed_def s)
  have ts: "mset (threads_of s) = ts" and fs: "mset (fds_of s) = fs" and A: "covered (cloaked_range_list s) = A"
    using reg by (simp_all add: registry_of_def)
  have "sorted_list_of_multiset ts = threads_of s"
    using wf ts by (metis sorted_list_of_multiset_mset sorted_sort_id well_formed_def)
  then have "gum_cloak_enumerate_threads func s data = enumerate_until func (sorted_list_of_multiset ts) data" for func :: "_ \<Rightarrow> 'a \<Rightarrow> _" and data
    using thread_reads(3) [OF arrays] by (simp add: gum_cloak_enumerate_threads_def s)
  moreover have "gum_cloak_enumerate_file_descriptors func s data = enumerate_until func (fds_of s) data" for func :: "_ \<Rightarrow> 'b \<Rightarrow> _" and data
    using fd_reads(3) [OF arrays] by (simp add: gum_cloak_enumerate_file_descriptors_def s)
  moreover have "gum_cloak_has_range_containing x s \<longleftrightarrow> x \<in> A" for x
    by (auto simp: gum_cloak_has_range_containing_def list_ex_iff covered_def simp flip: A)
  moreover have "gum_cloak_has_thread t s \<longleftrightarrow> t \<in># ts" "gum_cloak_has_file_descriptor f s \<longleftrightarrow> f \<in># fs" for t f
    using remove_thread_ok(5) [OF wf assms(1)] remove_fd_ok(5) [OF wf assms(1)] by (simp_all flip: ts fs)
  moreover have "(\<Union>r \<in> set (cloaked_range_list s). {cr_start r..<cr_end r}) = A" by (auto simp: covered_def simp flip: A)
  moreover have "sorted (map sint (fds_of s))" "\<forall>r \<in> set (cloaked_range_list s). cr_start r \<le> cr_end r"
    using wf by (simp_all add: well_formed_def)
  moreover have "\<exists>rs :: GumCloakedRange list. (\<forall>r \<in> set rs. cr_start r \<le> cr_end r) \<and> (\<Union>r \<in> set rs. {cr_start r..<cr_end r}) = A \<and>
      (\<forall>(func :: _ \<Rightarrow> 'c \<Rightarrow> _) data. gum_cloak_enumerate_ranges func s data =
        enumerate_until (\<lambda>r. func \<lparr>base_address = cr_start r, range_size = cr_end r - cr_start r\<rparr>) rs data)"
    using calculation(6,8) by (intro exI [of _ "cloaked_range_list s"]) (simp add: gum_cloak_enumerate_ranges_def)
  ultimately show ?thesis using fs by (intro conjI exI [of _ "fds_of s"]) simp_all
qed

text \<open>A kernel that grants every request above all earlier ones, for the witnesses.\<close>

definition fresh_at :: "vm_call list \<Rightarrow> gpointer" where
  "fresh_at l = 0x10000 * of_nat (1 + length l)"

definition growing_kernel :: kernel where
  "growing_kernel = \<lparr>k_page_size = 4096,
     k_mmap = (\<lambda>l a s p. if s = 0x2000 \<and> length l < 100 \<and>
         list_all (\<lambda>e. case e of Mmap b s q \<Rightarrow> q = MAP_FAILED \<or> unat q + unat s \<le> unat (fresh_at l) | _ \<Rightarrow> True) l
       then fresh_at l else MAP_FAILED),
     k_munmap = (\<lambda>l a s. True), k_mprotect = (\<lambda>l a s p. True), k_ranges = (\<lambda>l. [])\<rparr>"

lemma mapped_call: "mapped l x \<Longrightarrow> \<exists>a s q. Mmap a s q \<in> set l \<and> q \<noteq> MAP_FAILED \<and> in_range x q (unat s)"
  by (induction l x rule: mapped.induct) auto

lemma fresh_at_unat: "length l < 100 \<Longrightarrow> unat (fresh_at l) = 0x10000 * (1 + length l)"
  by (simp add: fresh_at_def unat_word_ariths unat_of_nat)

lemma growing_kernel_user_space: "user_space growing_kernel"
proof -
  have grant: "k_mmap growing_kernel l a s p \<noteq> 0 \<and> k_mmap growing_kernel l a s p AND 0xfff = 0 \<and>
      unat (k_mmap growing_kernel l a s p) + unat s < 2 ^ 64 \<and> (\<forall>x. in_range x (k_mmap growing_kernel l a s p) (unat s) \<longrightarrow> \<not> mapped l x)"
    if "k_mmap growing_kernel l a s p \<noteq> MAP_FAILED" for l a s p
  proof -
    from that have ok: "s = 0x2000" "length l < 100" "k_mmap growing_kernel l a s p = fresh_at l"
      "\<forall>e \<in> set l. case e of Mmap b s q \<Rightarrow> q = MAP_FAILED \<or> unat q + unat s \<le> unat (fresh_at l) | _ \<Rightarrow> True"
      by (auto simp: growing_kernel_def list_all_iff split: if_splits)
    have u: "unat (fresh_at l) = 0x10000 * (1 + length l)" by (rule fresh_at_unat [OF ok(2)])
    have free: "\<not> mapped l x" if x: "in_range x (fresh_at l) (unat s)" for x
    proof
      assume "mapped l x"
      then obtain b s' q where q: "Mmap b s' q \<in> set l" "q \<noteq> MAP_FAILED" "in_range x q (unat s')" using mapped_call by blast
      then have "unat q + unat s' \<le> unat (fresh_at l)" using ok(4) by fastforce
      moreover have "unat x < unat q + unat s'"
        using q(3) calculation unsigned_less [of "fresh_at l", where 'a = nat] by (auto simp: in_range_def unat_sub_if' split: if_splits)
      moreover have "unat (fresh_at l) \<le> unat x"
        using x u ok(1,2) by (auto simp: in_range_def unat_sub_if' split: if_splits)
      ultimately show False by linarith
    qed
    have "fresh_at l AND 0xfff = 0"
    proof -
      have "fresh_at l = push_bit 16 (of_nat (1 + length l))" by (simp add: fresh_at_def push_bit_eq_mult)
      moreover have "push_bit 16 y AND (mask 12 :: gpointer) = 0" for y by (rule bit_word_eqI) (auto simp: bit_simps)
      ultimately show ?thesis by (simp add: mask_eq_exp_minus_1)
    qed
    moreover have "fresh_at l \<noteq> 0" using u by auto
    moreover have "unat (fresh_at l) + unat s < 2 ^ 64" using u ok(1,2) by simp
    ultimately show ?thesis using free ok(3) by simp
  qed
  have "gum_query_page_size growing_kernel = 0x1000" by (simp add: gum_query_page_size_def growing_kernel_def)
  then have "well_behaved growing_kernel"
    unfolding well_behaved_def Let_def using grant by (auto simp: growing_kernel_def intro!: exI [of _ 12])
  then show ?thesis using grant by (auto simp: user_space_def growing_kernel_def)
qed

lemmas growing_alloc = gum_metal_array_init_def gum_alloc_n_pages_def gum_try_alloc_n_pages_def gum_try_alloc_n_pages_near_def
  gum_memory_allocate_near_def gum_memory_allocate_def gum_query_page_size_def gum_allocate_page_aligned_def gum_mprotect_def
      gum_try_mprotect_def gum_page_protection_to_posix_def GUM_PAGE_EXECUTE_def
  growing_kernel_def fresh_at_def GUM_ALIGN_POINTER_def GUM_ALIGN_SIZE_def MAP_FAILED_def GUM_PAGE_WRITE_def GUM_PAGE_RW_def
  GUM_PAGE_READ_def

definition sample_cloak :: cloak where
  "sample_cloak = \<lparr>cloaked_threads = \<lparr>ma_data = 0x11000, ma_length = 0, ma_capacity = 512, ma_element_size = 8\<rparr>,
     cloaked_ranges = \<lparr>ma_data = 0x31000, ma_length = 0, ma_capacity = 256, ma_element_size = 16\<rparr>,
     cloaked_fds = \<lparr>ma_data = 0x51000, ma_length = 0, ma_capacity = 1024, ma_element_size = 4\<rparr>\<rparr>"

lemma growing_inits:
  "\<exists>m'. gum_metal_array_init growing_kernel \<lparr>vm_log = [], vm_mem = m\<rparr> 8 =
    Some (cloaked_threads sample_cloak, \<lparr>vm_log = [Mprotect 0x10000 0x1000 1, Mmap 0 0x2000 0x10000], vm_mem = m'\<rparr>)"
  "\<exists>m'. gum_metal_array_init growing_kernel \<lparr>vm_log = [Mprotect 0x10000 0x1000 1, Mmap 0 0x2000 0x10000], vm_mem = m\<rparr> 16 =
    Some (cloaked_ranges sample_cloak, \<lparr>vm_log = [Mprotect 0x30000 0x1000 1, Mmap 0 0x2000 0x30000,
      Mprotect 0x10000 0x1000 1, Mmap 0 0x2000 0x10000], vm_mem = m'\<rparr>)"
  "\<exists>v. gum_metal_array_init growing_kernel \<lparr>vm_log = [Mprotect 0x30000 0x1000 1, Mmap 0 0x2000 0x30000,
      Mprotect 0x10000 0x1000 1, Mmap 0 0x2000 0x10000], vm_mem = m\<rparr> 4 = Some (cloaked_fds sample_cloak, v)"
  by (simp_all add: growing_alloc sample_cloak_def)

lemma sample_cloak_init: "\<exists>v. gum_cloak_init growing_kernel sample_vm = Some (sample_cloak, v)"
proof -
  obtain m1 where 1: "gum_metal_array_init growing_kernel sample_vm 8 =
      Some (cloaked_threads sample_cloak, \<lparr>vm_log = [Mprotect 0x10000 0x1000 1, Mmap 0 0x2000 0x10000], vm_mem = m1\<rparr>)"
    using growing_inits(1) [of "\<lambda>_. 0"] unfolding sample_vm_def by blast
  obtain m2 where 2: "gum_metal_array_init growing_kernel \<lparr>vm_log = [Mprotect 0x10000 0x1000 1, Mmap 0 0x2000 0x10000], vm_mem = m1\<rparr> 16 =
      Some (cloaked_ranges sample_cloak, \<lparr>vm_log = [Mprotect 0x30000 0x1000 1, Mmap 0 0x2000 0x30000,
        Mprotect 0x10000 0x1000 1, Mmap 0 0x2000 0x10000], vm_mem = m2\<rparr>)" using growing_inits(2) by blast
  obtain v where 3: "gum_metal_array_init growing_kernel \<lparr>vm_log = [Mprotect 0x30000 0x1000 1, Mmap 0 0x2000 0x30000,
      Mprotect 0x10000 0x1000 1, Mmap 0 0x2000 0x10000], vm_mem = m2\<rparr> 4 = Some (cloaked_fds sample_cloak, v)"
    using growing_inits(3) by blast
  show ?thesis using 1 2 3 by (simp add: gum_cloak_init_def)
qed

text \<open>A history of the sample cloak: a thread, then a range.\<close>

lemma sample_history:
  "\<exists>v s. gum_cloak_init growing_kernel sample_vm = Some (sample_cloak, v) \<and>
    cloak_run growing_kernel (sample_cloak, v) [Add_thread 7, Add_range \<lparr>base_address = 0x1000, range_size = 0x100\<rparr>] s \<and>
    cloaked_range_list s = [\<lparr>cr_start = 0x1000, cr_end = 0x1100\<rparr>] \<and> unat (ma_length (cloaked_ranges (fst s))) = 1 \<and>
    fits growing_kernel (cloaked_ranges (fst s)) 2"
proof -
  let ?k = growing_kernel and ?r = "\<lparr>base_address = 0x1000, range_size = 0x100\<rparr> :: GumMemoryRange"
  obtain v where v: "gum_cloak_init ?k sample_vm = Some (sample_cloak, v)" using sample_cloak_init by blast
  note init = init_arrays [OF growing_kernel_user_space v]
  have p: "k_page_size ?k = 4096" by (simp add: growing_kernel_def)
  obtain s1 where s1: "gum_cloak_add_thread ?k 7 (sample_cloak, v) = Some s1"
    and r1: "cloaked_ranges (fst s1) = cloaked_ranges sample_cloak"
    by (simp add: gum_cloak_add_thread_def sample_cloak_def gum_metal_array_insert_at_def gum_metal_array_ensure_capacity_def Let_def)
  have step1: "cloak_step ?k (sample_cloak, v) (Add_thread 7) s1"
    using s1 by (intro call_add_thread) (simp_all add: fits_def p sample_cloak_def)
  note ok1 = cloak_step_ok [OF step1 init(1) growing_kernel_user_space]
  have arrays1: "arrays_ok ?k s1" using ok1 by (simp add: well_formed_def)
  obtain s2 where s2: "gum_cloak_add_range_unlocked ?k ?r s1 = Some s2"
    using r1 by (cases s1) (simp add: gum_cloak_add_range_unlocked_def sample_cloak_def gum_metal_array_append_def
        gum_metal_array_ensure_capacity_def Let_def)
  have fit1: "fits ?k (cloaked_ranges (fst s1)) (unat (ma_length (cloaked_ranges (fst s1))) + 1)"
    by (simp add: fits_def p r1 sample_cloak_def)
  have len1: "cloaked_range_list s1 = []"
    using array_lengths(3) [of ?k s1] ok1 r1 by (simp add: sample_cloak_def)
  have "bounded ?r" by (simp add: bounded_def)
  then have step2: "cloak_step ?k s1 (Add_range ?r) s2"
    using s2 fit1 by (intro call_add_range) (simp_all add: gum_cloak_add_range_def)
  have fit1': "fits ?k (cloaked_ranges (fst s1)) (length (cloaked_range_list s1) + 1)" using fit1 len1 by (simp add: r1 sample_cloak_def)
  note ext = add_range_extends [OF arrays1 growing_kernel_user_space fit1' s2]
  have list2: "cloaked_range_list s2 = [\<lparr>cr_start = 0x1000, cr_end = 0x1100\<rparr>]" using ext(3) len1 by (simp add: extended_def)
  have wf2: "well_formed ?k s2" using cloak_step_ok [OF step2 _ growing_kernel_user_space] ok1 by simp
  have "cloak_run ?k (sample_cloak, v) [Add_thread 7, Add_range ?r] s2" by (intro one_call [OF step1] one_call [OF step2] no_call)
  moreover have "unat (ma_length (cloaked_ranges (fst s2))) = 1" using array_lengths(3) [OF wf2] list2 by simp
  moreover have "fits ?k (cloaked_ranges (fst s2)) 2"
    using ext(2) by (simp add: rest_kept_def fits_def p r1 sample_cloak_def)
  ultimately show ?thesis using v list2 by blast
qed

theorem cloak_refines_registry_witness:
  "\<exists>s. gum_cloak_has_thread 7 s \<and> \<not> gum_cloak_has_thread 8 s \<and> gum_cloak_has_range_containing 0x10ff s \<and>
    \<not> gum_cloak_has_range_containing 0x1100 s"
proof -
  obtain v s where h: "gum_cloak_init growing_kernel sample_vm = Some (sample_cloak, v)"
    "cloak_run growing_kernel (sample_cloak, v) [Add_thread 7, Add_range \<lparr>base_address = 0x1000, range_size = 0x100\<rparr>] s"
    using sample_history by blast
  have "fold registry_op [Add_thread 7, Add_range \<lparr>base_address = 0x1000, range_size = 0x100\<rparr>] ({#}, {#}, {}) =
      ({#7#}, {#}, {0x1000..<0x1100})" by (simp add: space_def)
  note all = cloak_refines_registry [OF growing_kernel_user_space h this]
  have "\<forall>t. gum_cloak_has_thread t s \<longleftrightarrow> t \<in># {#7#}" by (rule all [THEN conjunct1])
  moreover have "\<forall>x. gum_cloak_has_range_containing x s \<longleftrightarrow> x \<in> {0x1000..<0x1100}"
    by (rule all [THEN conjunct2, THEN conjunct2, THEN conjunct1])
  ultimately have "gum_cloak_has_thread 7 s \<and> \<not> gum_cloak_has_thread 8 s \<and> gum_cloak_has_range_containing 0x10ff s \<and>
      \<not> gum_cloak_has_range_containing 0x1100 s" by simp
  then show ?thesis by blast
qed

text \<open>
  C26: What every state of the cloak looks like: three arrays on mappings of their own that do not overlap, with elements of
  8, 16 and 4 bytes; thread identifiers in ascending order, file descriptors in ascending order as signed numbers, and no range
  that ends before it begins.
\<close>

theorem cloak_well_formed:
  assumes "user_space k" and "gum_cloak_init k v = Some s0" and "cloak_run k s0 ops s"
  shows "arrays_ok k s \<and> sorted (threads_of s) \<and> sorted (map sint (fds_of s)) \<and>
    (\<forall>r \<in> set (cloaked_range_list s). cr_start r \<le> cr_end r)"
  using cloak_run_ok [OF assms(3,1) init_arrays(1) [OF assms(1,2)]] unfolding well_formed_def by blast

theorem cloak_well_formed_witness:
  "\<exists>s. arrays_ok growing_kernel s \<and> cloaked_range_list s = [\<lparr>cr_start = 0x1000, cr_end = 0x1100\<rparr>]"
proof -
  obtain v s where h: "gum_cloak_init growing_kernel sample_vm = Some (sample_cloak, v)"
    "cloak_run growing_kernel (sample_cloak, v) [Add_thread 7, Add_range \<lparr>base_address = 0x1000, range_size = 0x100\<rparr>] s"
    "cloaked_range_list s = [\<lparr>cr_start = 0x1000, cr_end = 0x1100\<rparr>]"
    using sample_history by blast
  from cloak_well_formed [OF growing_kernel_user_space h(1,2)] h(3) show ?thesis by blast
qed

text \<open>The addresses that clipping hides: what is cloaked, and the pages of two of the three arrays.\<close>

definition hidden :: "kernel \<Rightarrow> cloak \<times> vm \<Rightarrow> gpointer set" where
  "hidden k s = {x. gum_cloak_has_range_containing x s \<or> owned k (snd s) (ma_data (cloaked_threads (fst s))) x \<or>
     owned k (snd s) (ma_data (cloaked_ranges (fst s))) x}"

lemma clip_hidden:
  assumes "arrays_ok k s" and "user_space k" and "bounded r"
  shows "\<exists>res. gum_cloak_clip_range k r s = Some res \<and>
    (case res of None \<Rightarrow> space r \<inter> hidden k s = {}
     | Some chunks \<Rightarrow> space r \<inter> hidden k s \<noteq> {} \<and> spaces chunks = space r - hidden k s)"
proof -
  have ok: "array_ok k (snd s) (cloaked_threads (fst s))" "array_ok k (snd s) (cloaked_ranges (fst s))"
    "unat (ma_element_size (cloaked_threads (fst s))) \<le> page k" "unat (ma_element_size (cloaked_ranges (fst s))) \<le> page k"
    using assms(1) page_facts(1) [OF assms(2)] by (simp_all add: arrays_ok_def)
  have "covered (extents k (cloaked_threads (fst s)) # extents k (cloaked_ranges (fst s)) # cloaked_range_list s) =
      {x. owned k (snd s) (ma_data (cloaked_threads (fst s))) x} \<union> ({x. owned k (snd s) (ma_data (cloaked_ranges (fst s))) x} \<union>
      covered (cloaked_range_list s))"
    unfolding covered_simps extents_owned [OF ok(1) assms(2) ok(3)] extents_owned [OF ok(2) assms(2) ok(4)] ..
  also have "\<dots> = hidden k s" by (auto simp: hidden_def covered_def gum_cloak_has_range_containing_def list_ex_iff)
  finally have "covered (extents k (cloaked_threads (fst s)) # extents k (cloaked_ranges (fst s)) # cloaked_range_list s) = hidden k s" .
  then show ?thesis using clip_loop_start [OF assms(3)] unfolding gum_cloak_clip_range_def by metis
qed

text \<open>
  C23: Clipping a range returns, with \<^verbatim>\<open>NULL\<close> if none of it is hidden and otherwise with chunks that make up exactly the
  addresses of the range that are not hidden. Hidden are the cloaked ranges and the pages of the arrays of threads and of ranges;
  the pages of the array of file descriptors are not.
\<close>

theorem clip_range_exact:
  assumes "user_space k" and "gum_cloak_init k v = Some s0" and "cloak_run k s0 ops s" and "bounded r"
  shows "\<exists>res. gum_cloak_clip_range k r s = Some res \<and>
    (case res of None \<Rightarrow> space r \<inter> hidden k s = {}
     | Some chunks \<Rightarrow> space r \<inter> hidden k s \<noteq> {} \<and> spaces chunks = space r - hidden k s)"
proof -
  have "arrays_ok k s" using cloak_run_ok [OF assms(3,1) init_arrays(1) [OF assms(1,2)]] by (simp add: well_formed_def)
  then show ?thesis by (rule clip_hidden [OF _ assms(1,4)])
qed

theorem clip_range_exact_witness:
  "\<exists>s chunks. gum_cloak_clip_range growing_kernel \<lparr>base_address = 0xf80, range_size = 0x100\<rparr> s = Some (Some chunks) \<and>
    0x1000 \<notin> spaces chunks"
proof -
  let ?r = "\<lparr>base_address = 0xf80, range_size = 0x100\<rparr> :: GumMemoryRange"
  obtain v s where h: "gum_cloak_init growing_kernel sample_vm = Some (sample_cloak, v)"
    "cloak_run growing_kernel (sample_cloak, v) [Add_thread 7, Add_range \<lparr>base_address = 0x1000, range_size = 0x100\<rparr>] s"
    "cloaked_range_list s = [\<lparr>cr_start = 0x1000, cr_end = 0x1100\<rparr>]"
    using sample_history by blast
  have "bounded ?r" by (simp add: bounded_def)
  from clip_range_exact [OF growing_kernel_user_space h(1,2) this] obtain res where
    res: "gum_cloak_clip_range growing_kernel ?r s = Some res"
      "case res of None \<Rightarrow> space ?r \<inter> hidden growing_kernel s = {}
       | Some chunks \<Rightarrow> space ?r \<inter> hidden growing_kernel s \<noteq> {} \<and> spaces chunks = space ?r - hidden growing_kernel s" by blast
  have "0x1000 \<in> hidden growing_kernel s" by (simp add: hidden_def gum_cloak_has_range_containing_def h(3))
  moreover have "0x1000 \<in> space ?r" by (simp add: space_def)
  ultimately have both: "0x1000 \<in> space ?r \<inter> hidden growing_kernel s" by blast
  show ?thesis
  proof (cases res)
    case None
    have "space ?r \<inter> hidden growing_kernel s = {}" using res(2) unfolding None option.case .
    then have False using both by blast
    then show ?thesis ..
  next
    case (Some chunks)
    have "spaces chunks = space ?r - hidden growing_kernel s" using res(2) unfolding Some option.case by (rule conjunct2)
    then have "0x1000 \<notin> spaces chunks" using both by blast
    then show ?thesis using res(1) Some by blast
  qed
qed

text \<open>
  C24: Removing a range that holds an address ends, however the cloaked ranges overlap it and each other, and uncloaks exactly its
  addresses, unless a page cannot be allocated for a range that is cut in two.
\<close>

theorem removing_ends:
  assumes "user_space k" and "gum_cloak_init k v = Some s0" and "cloak_run k s0 ops s" and "bounded r" and "range_size r \<noteq> 0"
    and "fits k (cloaked_ranges (fst s)) (2 * unat (ma_length (cloaked_ranges (fst s))))"
  shows "\<exists>res. gum_cloak_remove_range k r s = Some res \<and> (\<forall>s'. res = Some s' \<longrightarrow>
    (\<forall>x. gum_cloak_has_range_containing x s' \<longleftrightarrow> gum_cloak_has_range_containing x s \<and> x \<notin> space r))"
proof -
  have wf: "well_formed k s" using cloak_run_ok [OF assms(3,1) init_arrays(1) [OF assms(1,2)]] by simp
  have has: "gum_cloak_has_range_containing x s \<longleftrightarrow> x \<in> covered (cloaked_range_list s)" for x s
    by (auto simp: gum_cloak_has_range_containing_def list_ex_iff covered_def)
  from remove_range_ends [OF wf assms(1,4,5,6)] show ?thesis unfolding has by blast
qed

theorem removing_ends_witness:
  "\<exists>s res. gum_cloak_has_range_containing 0x1080 s \<and>
    gum_cloak_remove_range growing_kernel \<lparr>base_address = 0x1080, range_size = 8\<rparr> s = Some res"
proof -
  let ?r = "\<lparr>base_address = 0x1080, range_size = 8\<rparr> :: GumMemoryRange"
  obtain v s where h: "gum_cloak_init growing_kernel sample_vm = Some (sample_cloak, v)"
    "cloak_run growing_kernel (sample_cloak, v) [Add_thread 7, Add_range \<lparr>base_address = 0x1000, range_size = 0x100\<rparr>] s"
    "cloaked_range_list s = [\<lparr>cr_start = 0x1000, cr_end = 0x1100\<rparr>]" "unat (ma_length (cloaked_ranges (fst s))) = 1"
    "fits growing_kernel (cloaked_ranges (fst s)) 2"
    using sample_history by blast
  have "bounded ?r" "range_size ?r \<noteq> 0" "fits growing_kernel (cloaked_ranges (fst s)) (2 * unat (ma_length (cloaked_ranges (fst s))))"
    using h(4,5) by (simp_all add: bounded_def)
  from removing_ends [OF growing_kernel_user_space h(1,2) this]
  obtain res where "gum_cloak_remove_range growing_kernel ?r s = Some res" by blast
  moreover have "gum_cloak_has_range_containing 0x1080 s" by (simp add: gum_cloak_has_range_containing_def h(3))
  ultimately show ?thesis by blast
qed

text \<open>
  C25: Removing an empty range does not end when its address lies strictly inside a cloaked range, provided that no range
  stored before that one contains or touches the address, and none begins where that one ends. The range is cut
  in two at the address, and adding the upper part joins it to the lower one again, over and over, with the
  lock held. (An earlier range that touches the address or the end is extended by the upper part instead, which
  can end the loop.)
\<close>

theorem removing_nothing_never_ends:
  assumes "user_space k" and "gum_cloak_init k v = Some s0" and "cloak_run k s0 ops s" and "range_size r = 0"
    and "i < length (cloaked_range_list s)"
    and "cr_start (cloaked_range_list s ! i) < base_address r" and "base_address r < cr_end (cloaked_range_list s ! i)"
    and "\<forall>j < i. cr_end (cloaked_range_list s ! j) < base_address r \<or> base_address r \<le> cr_start (cloaked_range_list s ! j) \<and>
      cr_end (cloaked_range_list s ! j) \<noteq> base_address r \<and> cr_start (cloaked_range_list s ! j) \<noteq> cr_end (cloaked_range_list s ! i)"
  shows "gum_cloak_remove_range k r s = None"
proof -
  let ?a = "base_address r" and ?rs = "cloaked_range_list s"
  have wf: "well_formed k s" using cloak_run_ok [OF assms(3,1) init_arrays(1) [OF assms(1,2)]] by simp
  obtain c w where s: "s = (c, w)" by (metis prod.exhaust)
  have arrays: "arrays_ok k (c, w)" using wf by (simp add: well_formed_def s)
  note reads = range_reads [OF arrays]
  have early: "\<not> overlaps ?a ?a (?rs ! j)" "cr_start (?rs ! j) \<noteq> cr_end (?rs ! i) \<and> cr_end (?rs ! j) \<noteq> ?a" if "j < i" for j
  proof -
    have "cr_start (?rs ! j) \<le> cr_end (?rs ! j)" using wf that assms(5) by (simp add: well_formed_def)
    moreover have "cr_end (?rs ! j) < ?a \<or> ?a \<le> cr_start (?rs ! j) \<and> cr_end (?rs ! j) \<noteq> ?a \<and> cr_start (?rs ! j) \<noteq> cr_end (?rs ! i)"
      using assms(8) that by blast
    ultimately show "\<not> overlaps ?a ?a (?rs ! j)" "cr_start (?rs ! j) \<noteq> cr_end (?rs ! i) \<and> cr_end (?rs ! j) \<noteq> ?a"
      using assms(7) by auto
  qed
  have "\<exists>j. overlapping_from ?a ?a (cloaked_ranges c) w 0 (unat (ma_length (cloaked_ranges c))) = Some j"
    using overlapping_from_cases(1) [of ?a ?a "cloaked_ranges c" w 0 "unat (ma_length (cloaked_ranges c))" i]
      assms(5-7) reads(2) reads(3) [of i] by (auto simp: s)
  then obtain j where j: "overlapping_from ?a ?a (cloaked_ranges c) w 0 (unat (ma_length (cloaked_ranges c))) = Some j" by blast
  note found = overlapping_from_cases(2) [OF j]
  have "j < length ?rs" using found reads(2) by (simp add: s)
  then have "overlaps ?a ?a (?rs ! j)" using found reads(2) reads(3) [of j] by (simp add: s)
  then have "\<not> j < i" using early(1) by blast
  moreover have "\<not> i < j" using found assms(5-7) reads(2) reads(3) [of i] by (auto simp: s)
  ultimately have "j = i" by simp
  then have sel: "overlapping_from ?a ?a (cloaked_ranges (fst s)) (snd s) 0 (unat (ma_length (cloaked_ranges (fst s)))) = Some i"
    using j by (simp add: s)
  have "arrays_ok k s" using wf by (simp add: well_formed_def)
  from cut_empty [OF this assms(1,5-7)] early(2) have "cut_range k ?a ?a i s = Some s" by blast
  from remove_loop_stuck [OF sel this] show ?thesis
    by (simp add: gum_cloak_remove_range_def gum_cloak_remove_range_unlocked_def assms(4))
qed

theorem removing_nothing_never_ends_witness:
  "\<exists>s. gum_cloak_remove_range growing_kernel \<lparr>base_address = 0x1080, range_size = 0\<rparr> s = None"
proof -
  let ?r = "\<lparr>base_address = 0x1080, range_size = 0\<rparr> :: GumMemoryRange"
  obtain v s where h: "gum_cloak_init growing_kernel sample_vm = Some (sample_cloak, v)"
    "cloak_run growing_kernel (sample_cloak, v) [Add_thread 7, Add_range \<lparr>base_address = 0x1000, range_size = 0x100\<rparr>] s"
    "cloaked_range_list s = [\<lparr>cr_start = 0x1000, cr_end = 0x1100\<rparr>]"
    using sample_history by blast
  have "range_size ?r = 0" "0 < length (cloaked_range_list s)" "cr_start (cloaked_range_list s ! 0) < base_address ?r"
    "base_address ?r < cr_end (cloaked_range_list s ! 0)" by (simp_all add: h(3))
  from removing_nothing_never_ends [OF growing_kernel_user_space h(1,2) this] show ?thesis by blast
qed

end
