(* ===== verification/Gum_Pattern.thy ===== *)
theory Gum_Pattern
  imports Gum_Memory
begin

text \<open>
  Match patterns and scanning, \<^verbatim>\<open>src/frida-gum/gum/gummemory.c\<close>: the parser of patterns such as \<^verbatim>\<open>13 ?? 37 : 1f ff ff\<close>, the
  tokens it makes, and the search for a pattern in a range of memory.

  A C string is the list of its characters without the terminator. \<^verbatim>\<open>GPtrArray\<close> and \<^verbatim>\<open>GArray\<close> are lists, whose lengths are
  32-bit words; where the bytes of a token are stored is an argument, since the search skips that place. Regular expressions are
  the library's, given as arguments. Callbacks are functions on a state of their own and leave the scanned memory alone.
\<close>

section \<open>Data\<close>

datatype GumMatchType = GUM_MATCH_EXACT | GUM_MATCH_WILDCARD | GUM_MATCH_MASK

record GumMatchToken =
  mt_type :: GumMatchType
  mt_bytes :: "guint8 list"
  mt_masks :: "guint8 list option"
  mt_offset :: guint

record GumMatchPattern =
  mp_ref_count :: guint
  mp_tokens :: "GumMatchToken list"
  mp_size :: guint
  mp_regex :: gpointer

text \<open>The length of an array of bytes, \<^verbatim>\<open>bytes->len\<close>.\<close>

definition array_len :: "guint8 list \<Rightarrow> guint" where
  "array_len bs = of_nat (length bs)"

text \<open>
  What the regular expressions of GLib do: compiling one, which gives \<^verbatim>\<open>NULL\<close> if it is not valid, and its successive matches in a string of bytes as start and end,
  \<open>None\<close> for a match whose position cannot be fetched.
\<close>

record regexes =
  g_regex_new :: "string \<Rightarrow> gpointer"
  g_regex_matches :: "gpointer \<Rightarrow> guint8 list \<Rightarrow> (guint32 \<times> guint32) option list"

section \<open>Building a pattern\<close>

definition gum_match_token_new :: "GumMatchType \<Rightarrow> GumMatchToken" where
  "gum_match_token_new type = \<lparr>mt_type = type, mt_bytes = [], mt_masks = None, mt_offset = 0\<rparr>"

definition gum_match_token_append :: "guint8 \<Rightarrow> GumMatchToken \<Rightarrow> GumMatchToken" where
  "gum_match_token_append byte self = self\<lparr>mt_bytes := mt_bytes self @ [byte]\<rparr>"

definition gum_match_token_append_with_mask :: "guint8 \<Rightarrow> guint8 \<Rightarrow> GumMatchToken \<Rightarrow> GumMatchToken" where
  "gum_match_token_append_with_mask byte msk self =
     (let self = self\<lparr>mt_bytes := mt_bytes self @ [byte]\<rparr>;
          masks = (case mt_masks self of None \<Rightarrow> [] | Some masks \<Rightarrow> masks)
      in self\<lparr>mt_masks := Some (masks @ [msk])\<rparr>)"

definition gum_match_pattern_new :: "GumMatchPattern" where
  "gum_match_pattern_new = \<lparr>mp_ref_count = 1, mp_tokens = [], mp_size = 0, mp_regex = 0\<rparr>"

definition gum_match_pattern_ref :: "GumMatchPattern \<Rightarrow> GumMatchPattern" where
  "gum_match_pattern_ref self = self\<lparr>mp_ref_count := mp_ref_count self + 1\<rparr>"

text \<open>\<open>None\<close> when this was the last reference and the pattern is freed.\<close>

definition gum_match_pattern_unref :: "GumMatchPattern \<Rightarrow> GumMatchPattern option" where
  "gum_match_pattern_unref self =
     (let self = self\<lparr>mp_ref_count := mp_ref_count self - 1\<rparr>
      in if mp_ref_count self = 0 then None else Some self)"

definition gum_match_pattern_get_size :: "GumMatchPattern \<Rightarrow> guint" where
  "gum_match_pattern_get_size self = mp_size self"

definition gum_match_pattern_get_tokens :: "GumMatchPattern \<Rightarrow> GumMatchToken list" where
  "gum_match_pattern_get_tokens self = mp_tokens self"

definition gum_match_pattern_update_computed_size :: "GumMatchPattern \<Rightarrow> GumMatchPattern" where
  "gum_match_pattern_update_computed_size self =
     self\<lparr>mp_size := fold (\<lambda>token n. n + array_len (mt_bytes token)) (mp_tokens self) 0\<rparr>"

definition gum_match_pattern_push_token :: "GumMatchPattern \<Rightarrow> GumMatchType \<Rightarrow> GumMatchPattern" where
  "gum_match_pattern_push_token self type =
     (let self = gum_match_pattern_update_computed_size self;
          token = (gum_match_token_new type)\<lparr>mt_offset := mp_size self\<rparr>
      in self\<lparr>mp_tokens := mp_tokens self @ [token]\<rparr>)"

definition gum_match_pattern_seal :: "GumMatchPattern \<Rightarrow> bool \<times> GumMatchPattern" where
  "gum_match_pattern_seal self =
     (let self = gum_match_pattern_update_computed_size self
      in if mp_size self = 0 then (False, self)
         else if mt_type (mp_tokens self ! 0) = GUM_MATCH_WILDCARD then (False, self)
         else if mt_type (mp_tokens self ! (length (mp_tokens self) - 1)) = GUM_MATCH_WILDCARD then (False, self)
         else (True, self))"

section \<open>The parser\<close>

text \<open>
  The token of the loop is the last one pushed: a new one is pushed unless it has the wanted type, and the byte is appended to it.
\<close>

definition append_as :: "GumMatchType \<Rightarrow> (GumMatchToken \<Rightarrow> GumMatchToken) \<Rightarrow> GumMatchPattern \<Rightarrow> GumMatchPattern" where
  "append_as type append_byte pattern =
     (let pattern =
            (if mp_tokens pattern = [] \<or> mt_type (last (mp_tokens pattern)) \<noteq> type
             then gum_match_pattern_push_token pattern type else pattern)
      in pattern\<lparr>mp_tokens := butlast (mp_tokens pattern) @ [append_byte (last (mp_tokens pattern))]\<rparr>)"

definition append_value :: "guint8 \<Rightarrow> guint8 \<Rightarrow> GumMatchPattern \<Rightarrow> GumMatchPattern" where
  "append_value value msk pattern =
     (if msk = 0xff then append_as GUM_MATCH_EXACT (gum_match_token_append value) pattern
      else if msk = 0 then append_as GUM_MATCH_WILDCARD (gum_match_token_append 0x42) pattern
      else append_as GUM_MATCH_MASK (gum_match_token_append_with_mask value msk) pattern)"

text \<open>The value of a hexadecimal digit; \<open>None\<close> is -1, which is also the answer for the terminator.\<close>

definition g_ascii_xdigit_value :: "char \<Rightarrow> guint8 option" where
  "g_ascii_xdigit_value c =
     (let n = of_char c :: nat
      in if 48 \<le> n \<and> n \<le> 57 then Some (of_nat (n - 48))
         else if 65 \<le> n \<and> n \<le> 70 then Some (of_nat (n - 55))
         else if 97 \<le> n \<and> n \<le> 102 then Some (of_nat (n - 87))
         else None)"

fun xdigit_at :: "string \<Rightarrow> guint8 option" where
  "xdigit_at [] = None"
| "xdigit_at (c # cs) = g_ascii_xdigit_value c"

text \<open>The mask of a byte, and where the mask string stands then.\<close>

definition read_mask :: "string \<Rightarrow> (guint8 \<times> string) option" where
  "read_mask mh =
     (let mh = dropWhile (\<lambda>c. c = CHR '' '') mh
      in case xdigit_at mh of
           None \<Rightarrow> None
         | Some upper \<Rightarrow>
             (case xdigit_at (drop 1 mh) of
                None \<Rightarrow> None
              | Some lower \<Rightarrow> Some (push_bit 4 upper OR lower, mh)))"

text \<open>A nibble of the pattern: its value, and the mask left of the given one.\<close>

definition read_nibble :: "string \<Rightarrow> guint8 \<Rightarrow> guint8 \<Rightarrow> guint8 \<Rightarrow> (guint8 \<times> guint8) option" where
  "read_nibble ch placeholder keep msk =
     (if take 1 ch = ''?'' then Some (placeholder, msk AND keep)
      else map_option (\<lambda>v. (v, msk)) (xdigit_at ch))"

text \<open>The loop, over what is left of the pattern and, if there is one, of the mask string.\<close>

function (sequential) hexstring_loop :: "string \<Rightarrow> string option \<Rightarrow> GumMatchPattern \<Rightarrow> GumMatchPattern option" where
  "hexstring_loop [] mh pattern = Some pattern"
| "hexstring_loop (c # ch) mh pattern =
     (if mh = Some [] then Some pattern
      else if c = CHR '' '' then hexstring_loop ch (map_option (drop 1) mh) pattern
      else case (case mh of None \<Rightarrow> Some (0xff, None) | Some s \<Rightarrow> map_option (\<lambda>(msk, s). (msk, Some s)) (read_mask s)) of
             None \<Rightarrow> None
           | Some (msk, mh) \<Rightarrow>
               (case read_nibble (c # ch) 4 0x0f msk of
                  None \<Rightarrow> None
                | Some (upper, msk) \<Rightarrow>
                    (case read_nibble ch 2 0xf0 msk of
                       None \<Rightarrow> None
                     | Some (lower, msk) \<Rightarrow>
                         hexstring_loop (drop 1 ch) (map_option (drop 2) mh) (append_value (push_bit 4 upper OR lower) msk pattern))))"
  by pat_completeness auto
termination
  by (relation "measure (\<lambda>(ch, mh, pattern). length ch)") auto

text \<open>\<^verbatim>\<open>g_strsplit (s, ":", 2)\<close> of a string that is not empty.\<close>

fun split_at_colon :: "string \<Rightarrow> string \<times> string option" where
  "split_at_colon [] = ([], None)"
| "split_at_colon (c # cs) =
     (if c = CHR '':'' then ([], Some cs) else (let (a, b) = split_at_colon cs in (c # a, b)))"

definition gum_match_pattern_new_from_hexstring :: "string \<Rightarrow> GumMatchPattern option" where
  "gum_match_pattern_new_from_hexstring match_combined_str =
     (if match_combined_str = '''' then None
      else
        let (match_str, mask_str) = split_at_colon match_combined_str
        in if (case mask_str of None \<Rightarrow> False | Some s \<Rightarrow> length s \<noteq> length match_str) then None
           else case hexstring_loop match_str mask_str gum_match_pattern_new of
                  None \<Rightarrow> None
                | Some pattern \<Rightarrow>
                    (let (ok, pattern) = gum_match_pattern_seal pattern in if ok then Some pattern else None))"

definition gum_match_pattern_new_from_regex :: "regexes \<Rightarrow> string \<Rightarrow> GumMatchPattern option" where
  "gum_match_pattern_new_from_regex rx regex_str =
     (let regex = g_regex_new rx regex_str
      in if regex = 0 then None else Some (gum_match_pattern_new\<lparr>mp_regex := regex\<rparr>))"

text \<open>
  \<^verbatim>\<open>g_strndup\<close> copies up to \<open>n\<close> characters into a new buffer of \<open>n + 1\<close> bytes and terminates them; \<open>None\<close> when the size of
  the buffer wraps to nothing, so that there is no place for the terminator.
\<close>

definition g_strndup :: "string \<Rightarrow> gsize \<Rightarrow> string option" where
  "g_strndup str n = (if n + 1 = 0 then None else Some (take (unat n) str))"

text \<open>The outer \<open>None\<close> is that; the inner one is the \<^verbatim>\<open>NULL\<close> for a string that is no pattern.\<close>

definition gum_match_pattern_new_from_string :: "regexes \<Rightarrow> string \<Rightarrow> GumMatchPattern option option" where
  "gum_match_pattern_new_from_string rx pattern_str =
     (if pattern_str \<noteq> '''' \<and> hd pattern_str = CHR ''/'' \<and> last pattern_str = CHR ''/''
      then case g_strndup (drop 1 pattern_str) (of_nat (length pattern_str) - 2) of
             None \<Rightarrow> None
           | Some regex_str \<Rightarrow> Some (gum_match_pattern_new_from_regex rx regex_str)
      else Some (gum_match_pattern_new_from_hexstring pattern_str))"

section \<open>Matching\<close>

fun gum_memcmp_mask :: "guint8 list \<Rightarrow> guint8 list \<Rightarrow> guint8 list \<Rightarrow> int" where
  "gum_memcmp_mask (h # haystack) (n # needle) (k # msk) =
     (let value = h AND k; test_value = n AND k
      in if value \<noteq> test_value then uint value - uint test_value else gum_memcmp_mask haystack needle msk)"
| "gum_memcmp_mask haystack needle msk = 0"

definition gum_match_pattern_get_longest_token :: "GumMatchPattern \<Rightarrow> GumMatchType \<Rightarrow> GumMatchToken option" where
  "gum_match_pattern_get_longest_token self type =
     fold (\<lambda>token longest.
         if mt_type token = type \<and>
            (case longest of None \<Rightarrow> True | Some l \<Rightarrow> array_len (mt_bytes l) < array_len (mt_bytes token))
         then Some token else longest)
       (mp_tokens self) None"

text \<open>\<open>data i\<close> is where the bytes of the \<open>i\<close>-th token are stored.\<close>

definition exact_at :: "gpointer \<Rightarrow> memory \<Rightarrow> gpointer \<Rightarrow> GumMatchToken \<Rightarrow> bool" where
  "exact_at data m bytes token \<longleftrightarrow>
     (let p = bytes + ucast (mt_offset token)
      in \<not> (p = data \<or> read_bytes m p (length (mt_bytes token)) \<noteq> mt_bytes token))"

definition masked_at :: "memory \<Rightarrow> gpointer \<Rightarrow> GumMatchToken \<Rightarrow> bool" where
  "masked_at m bytes token \<longleftrightarrow>
     (case mt_masks token of
        None \<Rightarrow> False
      | Some masks \<Rightarrow>
          gum_memcmp_mask (read_bytes m (bytes + ucast (mt_offset token)) (length masks)) (mt_bytes token) masks = 0)"

definition gum_match_pattern_try_match_on :: "(nat \<Rightarrow> gpointer) \<Rightarrow> memory \<Rightarrow> GumMatchPattern \<Rightarrow> gpointer \<Rightarrow> bool" where
  "gum_match_pattern_try_match_on data m self bytes \<longleftrightarrow>
     list_all (\<lambda>(i, token). mt_type token = GUM_MATCH_EXACT \<longrightarrow> exact_at (data i) m bytes token)
       (zip [0..<length (mp_tokens self)] (mp_tokens self)) \<and>
     (list_all (\<lambda>token. mt_type token \<noteq> GUM_MATCH_MASK) (mp_tokens self) \<or>
      list_all (\<lambda>token. mt_type token = GUM_MATCH_MASK \<longrightarrow> masked_at m bytes token) (mp_tokens self))"

section \<open>Scanning\<close>

definition needle_at :: "memory \<Rightarrow> GumMatchToken \<Rightarrow> guint8 list option \<Rightarrow> gpointer \<Rightarrow> bool" where
  "needle_at m needle mask_data cur \<longleftrightarrow>
     (let needle_data = mt_bytes needle; here = read_bytes m cur (length needle_data)
      in case mask_data of
           None \<Rightarrow> m cur = needle_data ! 0 \<and> here = needle_data
         | Some msk \<Rightarrow> m cur AND msk ! 0 = needle_data ! 0 AND msk ! 0 \<and> gum_memcmp_mask here needle_data msk = 0)"

text \<open>The loop over the addresses where the longest token may be. It need not end for a pattern that the parser does not make.\<close>

partial_function (option) scan_loop ::
    "(nat \<Rightarrow> gpointer) \<Rightarrow> memory \<Rightarrow> GumMatchPattern \<Rightarrow> GumMatchToken \<Rightarrow> guint8 list option \<Rightarrow>
     (GumAddress \<Rightarrow> gsize \<Rightarrow> 's \<Rightarrow> bool \<times> 's) \<Rightarrow> gpointer \<Rightarrow> gpointer \<Rightarrow> 's \<Rightarrow> 's option" where
  "scan_loop data m pattern needle mask_data func end_address cur s =
     (if \<not> cur < end_address then Some s
      else if needle_at m needle mask_data cur \<and>
              gum_match_pattern_try_match_on data m pattern (cur - ucast (mt_offset needle))
      then case func (cur - ucast (mt_offset needle)) (ucast (gum_match_pattern_get_size pattern)) s of
             (go_on, s) \<Rightarrow>
               (if \<not> go_on then Some s
                else scan_loop data m pattern needle mask_data func end_address
                       (cur - ucast (mt_offset needle) + ucast (gum_match_pattern_get_size pattern) - 1 + 1) s)
      else scan_loop data m pattern needle mask_data func end_address (cur + 1) s)"

text \<open>The token searched for, with its masks if it is a masked one; \<open>None\<close> if there is no such token.\<close>

definition scan_needle :: "GumMatchPattern \<Rightarrow> (GumMatchToken \<times> guint8 list option) option" where
  "scan_needle pattern =
     (case gum_match_pattern_get_longest_token pattern GUM_MATCH_EXACT of
        Some needle \<Rightarrow> Some (needle, None)
      | None \<Rightarrow>
          (case gum_match_pattern_get_longest_token pattern GUM_MATCH_MASK of
             None \<Rightarrow> None
           | Some needle \<Rightarrow> (case mt_masks needle of None \<Rightarrow> None | Some masks \<Rightarrow> Some (needle, Some masks))))"

definition gum_memory_scan_raw ::
    "(nat \<Rightarrow> gpointer) \<Rightarrow> memory \<Rightarrow> GumMemoryRange \<Rightarrow> GumMatchPattern \<Rightarrow>
     (GumAddress \<Rightarrow> gsize \<Rightarrow> 's \<Rightarrow> bool \<times> 's) \<Rightarrow> 's \<Rightarrow> 's option" where
  "gum_memory_scan_raw data m r pattern func user_data =
     (case scan_needle pattern of
        None \<Rightarrow> None
      | Some (needle, mask_data) \<Rightarrow>
          (let pattern_size = gum_match_pattern_get_size pattern;
               cur = base_address r;
               end_address = cur + range_size r - ucast (pattern_size - mt_offset needle) + 1
           in scan_loop data m pattern needle mask_data func end_address cur user_data))"

fun scan_matches ::
    "GumMemoryRange \<Rightarrow> (GumAddress \<Rightarrow> gsize \<Rightarrow> 's \<Rightarrow> bool \<times> 's) \<Rightarrow> (guint32 \<times> guint32) option list \<Rightarrow> 's \<Rightarrow> 's" where
  "scan_matches r func [] s = s"
| "scan_matches r func (None # infos) s = s"
| "scan_matches r func (Some (start_pos, end_pos) # infos) s =
     (if range_size r < scast end_pos then s
      else let (go_on, s) = func (base_address r + scast start_pos) (scast (end_pos - start_pos)) s
           in if go_on then scan_matches r func infos s else s)"

definition gum_memory_scan_regex ::
    "regexes \<Rightarrow> memory \<Rightarrow> GumMemoryRange \<Rightarrow> gpointer \<Rightarrow> (GumAddress \<Rightarrow> gsize \<Rightarrow> 's \<Rightarrow> bool \<times> 's) \<Rightarrow> 's \<Rightarrow> 's" where
  "gum_memory_scan_regex rx m r regex func user_data =
     scan_matches r func
       (g_regex_matches rx regex (read_bytes m (base_address r) (unat (range_size r)))) user_data"

definition gum_memory_scan ::
    "regexes \<Rightarrow> (nat \<Rightarrow> gpointer) \<Rightarrow> memory \<Rightarrow> GumMemoryRange \<Rightarrow> GumMatchPattern \<Rightarrow>
     (GumAddress \<Rightarrow> gsize \<Rightarrow> 's \<Rightarrow> bool \<times> 's) \<Rightarrow> 's \<Rightarrow> 's option" where
  "gum_memory_scan rx data m r pattern func user_data =
     (if mp_regex pattern = 0 then gum_memory_scan_raw data m r pattern func user_data
      else Some (gum_memory_scan_regex rx m r (mp_regex pattern) func user_data))"

end
