(* ===== verification/Gum_Pattern_Correct.thy ===== *)
theory Gum_Pattern_Correct
  imports Gum_Pattern
begin

text \<open>
  What the tokens of a pattern mean, that the parser builds well-formed ones from the text of a pattern, and when a pattern matches.
\<close>

section \<open>Meaning of tokens\<close>

text \<open>A token asks of each of its bytes to have a value under a mask.\<close>

definition token_specs :: "GumMatchToken \<Rightarrow> (guint8 \<times> guint8) list" where
  "token_specs token =
     (case mt_type token of
        GUM_MATCH_EXACT \<Rightarrow> map (\<lambda>b. (b, 0xff)) (mt_bytes token)
      | GUM_MATCH_WILDCARD \<Rightarrow> map (\<lambda>b. (0, 0)) (mt_bytes token)
      | GUM_MATCH_MASK \<Rightarrow> map2 (\<lambda>b k. (b AND k, k)) (mt_bytes token) (case mt_masks token of None \<Rightarrow> [] | Some ks \<Rightarrow> ks))"

definition pattern_specs :: "GumMatchToken list \<Rightarrow> (guint8 \<times> guint8) list" where
  "pattern_specs tokens = concat (map token_specs tokens)"

definition meets :: "guint8 \<Rightarrow> guint8 \<times> guint8 \<Rightarrow> bool" where
  "meets b spec \<longleftrightarrow> b AND snd spec = fst spec AND snd spec"

text \<open>Tokens behind each other from offset \<open>n\<close> on, none of them empty, with masks that are neither full nor zero.\<close>

fun laid_out :: "nat \<Rightarrow> GumMatchToken list \<Rightarrow> bool" where
  "laid_out n [] = True"
| "laid_out n (t # ts) =
     (mt_offset t = of_nat n \<and> mt_bytes t \<noteq> [] \<and>
      (if mt_type t = GUM_MATCH_MASK
       then (case mt_masks t of None \<Rightarrow> False | Some ks \<Rightarrow> length ks = length (mt_bytes t) \<and> list_all (\<lambda>k. k \<noteq> 0) ks)
       else mt_masks t = None) \<and>
      laid_out (n + length (mt_bytes t)) ts)"

definition bytes_total :: "GumMatchToken list \<Rightarrow> nat" where
  "bytes_total ts = sum_list (map (\<lambda>t. length (mt_bytes t)) ts)"

lemma bytes_total_simps [simp]: "bytes_total [] = 0" "bytes_total (t # ts) = length (mt_bytes t) + bytes_total ts"
  "bytes_total (ts @ us) = bytes_total ts + bytes_total us"
  by (simp_all add: bytes_total_def)

lemma laid_out_append: "laid_out n (ts @ us) \<longleftrightarrow> laid_out n ts \<and> laid_out (n + bytes_total ts) us"
  by (induction ts arbitrary: n) (auto simp: add.assoc)

lemma computed_size: "fold (\<lambda>t n. n + array_len (mt_bytes t)) ts c = c + of_nat (bytes_total ts)"
  by (induction ts arbitrary: c) (simp_all add: array_len_def)

lemma pattern_specs_simps [simp]: "pattern_specs [] = []" "pattern_specs (t # ts) = token_specs t @ pattern_specs ts"
  "pattern_specs (ts @ us) = pattern_specs ts @ pattern_specs us"
  by (simp_all add: pattern_specs_def)

lemma length_token_specs: "laid_out n [t] \<Longrightarrow> length (token_specs t) = length (mt_bytes t)"
  by (cases "mt_type t") (auto simp: token_specs_def split: option.splits)

lemma length_pattern_specs: "laid_out n ts \<Longrightarrow> length (pattern_specs ts) = bytes_total ts"
proof (induction ts arbitrary: n)
  case (Cons t ts)
  then have "laid_out n [t]" "laid_out (n + length (mt_bytes t)) ts" by simp_all
  then show ?case using length_token_specs Cons.IH by simp
qed simp

section \<open>Appending\<close>

lemma append_as_tokens:
  "mp_tokens (append_as type f p) =
     (if mp_tokens p = [] \<or> mt_type (last (mp_tokens p)) \<noteq> type
      then mp_tokens p @ [f ((gum_match_token_new type)\<lparr>mt_offset := of_nat (bytes_total (mp_tokens p))\<rparr>)]
      else butlast (mp_tokens p) @ [f (last (mp_tokens p))])"
  by (simp add: append_as_def gum_match_pattern_push_token_def gum_match_pattern_update_computed_size_def computed_size Let_def)

lemma append_as_ok:
  assumes "laid_out 0 (mp_tokens p)"
    and new: "\<And>n. laid_out n [f ((gum_match_token_new type)\<lparr>mt_offset := of_nat n\<rparr>)] \<and>
      token_specs (f ((gum_match_token_new type)\<lparr>mt_offset := of_nat n\<rparr>)) = [spec]"
    and old: "\<And>n t. mt_type t = type \<Longrightarrow> laid_out n [t] \<Longrightarrow> laid_out n [f t] \<and> token_specs (f t) = token_specs t @ [spec]"
  shows "laid_out 0 (mp_tokens (append_as type f p)) \<and>
    pattern_specs (mp_tokens (append_as type f p)) = pattern_specs (mp_tokens p) @ [spec]"
proof (cases "mp_tokens p = [] \<or> mt_type (last (mp_tokens p)) \<noteq> type")
  case True
  then show ?thesis using assms(1) new [of "bytes_total (mp_tokens p)"]
    by (simp add: append_as_tokens laid_out_append del: laid_out.simps)
next
  case False
  then obtain ts t where ts: "mp_tokens p = ts @ [t]" by (cases "mp_tokens p" rule: rev_cases) auto
  with False have "mt_type t = type" by simp
  moreover have "laid_out (bytes_total ts) [t]" "laid_out 0 ts" using assms(1) by (simp_all add: ts laid_out_append)
  ultimately show ?thesis using old [of t "bytes_total ts"] False
    by (simp add: append_as_tokens ts laid_out_append del: laid_out.simps)
qed

lemma append_as_regex [simp]: "mp_regex (append_as type f p) = mp_regex p"
  by (simp add: append_as_def gum_match_pattern_push_token_def gum_match_pattern_update_computed_size_def Let_def)

lemma full_mask: "v AND 0xff = v" for v :: guint8
proof -
  have "(0xff :: guint8) = - 1" by simp
  then show ?thesis by (simp only: and.right_neutral)
qed

lemma append_value_ok:
  assumes "laid_out 0 (mp_tokens p)"
  shows "laid_out 0 (mp_tokens (append_value v k p)) \<and>
    pattern_specs (mp_tokens (append_value v k p)) = pattern_specs (mp_tokens p) @ [(v AND k, k)]"
proof (cases "k = 0xff \<or> k = 0")
  case True
  from True show ?thesis
  proof
    assume "k = 0xff"
    then show ?thesis unfolding append_value_def
      by (simp only: simp_thms if_True full_mask, intro append_as_ok [OF assms])
        (auto simp: gum_match_token_append_def gum_match_token_new_def token_specs_def)
  next
    assume "k = 0"
    then have "append_value v k p = append_as GUM_MATCH_WILDCARD (gum_match_token_append 0x42) p" by (simp add: append_value_def)
    moreover have "(v AND k, k) = (0, 0)" using \<open>k = 0\<close> by simp
    ultimately show ?thesis
      by (simp only:, intro append_as_ok [OF assms])
        (auto simp: gum_match_token_append_def gum_match_token_new_def token_specs_def)
  qed
next
  case False
  then have "append_value v k p = append_as GUM_MATCH_MASK (gum_match_token_append_with_mask v k) p" by (simp add: append_value_def)
  then show ?thesis using False
    by (simp only:, intro append_as_ok [OF assms])
      (auto simp: gum_match_token_append_with_mask_def gum_match_token_new_def token_specs_def split: option.splits)
qed

lemma append_value_regex [simp]: "mp_regex (append_value v k p) = mp_regex p"
  by (simp add: append_value_def)

section \<open>The parser keeps patterns well-formed\<close>

lemma hexstring_loop_ok:
  "hexstring_loop ch mh p = Some p' \<Longrightarrow> laid_out 0 (mp_tokens p) \<Longrightarrow>
   laid_out 0 (mp_tokens p') \<and> mp_regex p' = mp_regex p \<and>
   length (pattern_specs (mp_tokens p')) \<le> length (pattern_specs (mp_tokens p)) + length ch"
proof (induction ch mh p rule: hexstring_loop.induct)
  case (2 c ch mh p)
  show ?case
  proof (cases "mh = Some [] \<or> c = CHR '' ''")
    case True
    then show ?thesis using 2 by (fastforce split: if_splits)
  next
    case False
    with "2.prems"(1) obtain msk mh' upper msk' lower msk'' where steps:
      "(case mh of None \<Rightarrow> Some (0xff, None) | Some s \<Rightarrow> map_option (\<lambda>(msk, s). (msk, Some s)) (read_mask s)) = Some (msk, mh')"
      "read_nibble (c # ch) 4 0x0f msk = Some (upper, msk')" "read_nibble ch 2 0xf0 msk' = Some (lower, msk'')"
      and rest: "hexstring_loop (drop 1 ch) (map_option (drop 2) mh') (append_value (push_bit 4 upper OR lower) msk'' p) = Some p'"
      by (auto split: option.splits prod.splits)
    have "ch \<noteq> []" using steps(3) by (auto simp: read_nibble_def)
    note ok = append_value_ok [OF "2.prems"(2), of "push_bit 4 upper OR lower" msk'']
    from False have nf: "mh \<noteq> Some []" "c \<noteq> CHR '' ''" by simp_all
    from "2.IH"(2) [OF nf steps(1) _ steps(2) _ steps(3) _ rest] ok \<open>ch \<noteq> []\<close> show ?thesis
      by (cases ch) auto
  qed
qed simp

section \<open>The text of a pattern\<close>

definition hex_digit :: "nat \<Rightarrow> char" where
  "hex_digit n = ''0123456789abcdef'' ! n"

definition hex_byte :: "guint8 \<Rightarrow> string" where
  "hex_byte v = [hex_digit (unat (drop_bit 4 v)), hex_digit (unat (v AND 0x0f))]"

text \<open>A byte with a mask, with question marks for the nibbles that the mask leaves out.\<close>

fun pattern_byte :: "guint8 \<times> guint8 \<Rightarrow> string" where
  "pattern_byte (v, k) =
     [if k AND 0xf0 = 0 then CHR ''?'' else hex_digit (unat (drop_bit 4 v)),
      if k AND 0x0f = 0 then CHR ''?'' else hex_digit (unat (v AND 0x0f))]"

definition spaces_of :: "nat \<Rightarrow> string" where
  "spaces_of n = replicate n (CHR '' '')"

text \<open>The bytes of a pattern, each with the number of spaces before it; and their masks, in the same places.\<close>

type_synonym pattern_text = "(nat \<times> guint8 \<times> guint8) list"

definition body_text :: "pattern_text \<Rightarrow> string" where
  "body_text xs = concat (map (\<lambda>(n, x). spaces_of n @ pattern_byte x) xs)"

definition mask_text :: "pattern_text \<Rightarrow> string" where
  "mask_text xs = concat (map (\<lambda>(n, v, k). spaces_of n @ hex_byte k) xs)"

text \<open>Without a mask string, a mask covers nibbles; with one, it is any byte.\<close>

definition nibble_mask :: "guint8 \<Rightarrow> bool" where
  "nibble_mask k \<longleftrightarrow> k \<in> {0, 0x0f, 0xf0, 0xff}"

lemma hex_digits: "\<forall>n < 16. g_ascii_xdigit_value (hex_digit n) = Some (of_nat n) \<and> hex_digit n \<notin> {CHR '' '', CHR ''?'', CHR '':'', CHR ''/''}"
proof -
  have "list_all (\<lambda>n. g_ascii_xdigit_value (hex_digit n) = Some (of_nat n) \<and> hex_digit n \<notin> {CHR '' '', CHR ''?'', CHR '':'', CHR ''/''}) [0..<16]"
    by code_simp
  then show ?thesis by (simp add: list_all_iff)
qed

lemma nibbles: "unat (drop_bit 4 v) < 16" "unat (v AND 0x0f) < 16" for v :: guint8
proof -
  have "unat v < 2 ^ LENGTH(8)" by (rule unsigned_less)
  then have "unat v < 256" by simp
  then show "unat (drop_bit 4 v) < 16" by (simp add: drop_bit_eq_div unat_div)
  have "unat (v AND 0x0f) \<le> unat (0x0f :: guint8)" unfolding word_le_nat_alt [symmetric] by (rule word_and_le1)
  then show "unat (v AND 0x0f) < 16" by simp
qed

lemmas digit_of_nibble = hex_digits [rule_format, OF nibbles(1)] hex_digits [rule_format, OF nibbles(2)]

lemma low_mask: "(0x0f :: guint8) = mask 4" and high_mask: "(0xf0 :: guint8) = NOT (mask 4)"
  by (simp_all add: mask_eq_exp_minus_1)

lemma bit_byte_less: "bit (v :: guint8) n \<Longrightarrow> n < 8"
  using bit_imp_le_length [of v n] by simp

lemma join_nibbles: "push_bit 4 (drop_bit 4 v) OR (v AND 0x0f) = v" for v :: guint8
  unfolding low_mask by (rule bit_eqI) (auto simp: bit_simps dest: bit_byte_less)

lemma no_high: "k AND 0xf0 = 0 \<Longrightarrow> push_bit 4 u AND k = 0" for u k :: guint8
  unfolding high_mask bit_eq_iff by (auto simp: bit_simps dest: bit_byte_less)

lemma no_low: "k AND 0x0f = 0 \<Longrightarrow> l AND 0x0f = l \<Longrightarrow> l AND k = 0" for l k :: guint8
  unfolding low_mask by (metis and.assoc and.commute and_zero_eq)

lemma only_low: "k AND 0xf0 = 0 \<Longrightarrow> k AND 0x0f = k" for k :: guint8
  unfolding low_mask high_mask bit_eq_iff by (auto simp: bit_simps dest: bit_byte_less)

lemma only_high: "k AND 0x0f = 0 \<Longrightarrow> k AND 0xf0 = k" for k :: guint8
  unfolding low_mask high_mask bit_eq_iff by (auto simp: bit_simps dest: bit_byte_less)

text \<open>The mask that is given before a byte is read: its own, or a full one.\<close>

lemma read_pattern_byte:
  assumes "init = k \<or> init = 0xff \<and> nibble_mask k"
  obtains u m1 l where "read_nibble (pattern_byte (v, k) @ ch) 4 0x0f init = Some (u, m1)"
    "read_nibble (drop 1 (pattern_byte (v, k) @ ch)) 2 0xf0 m1 = Some (l, k)" "(push_bit 4 u OR l) AND k = v AND k"
proof -
  let ?u = "if k AND 0xf0 = 0 then 4 else drop_bit 4 v" and ?l = "if k AND 0x0f = 0 then 2 else v AND 0x0f"
  let ?m = "if k AND 0xf0 = 0 then init AND 0x0f else init"
  have "read_nibble (pattern_byte (v, k) @ ch) 4 0x0f init = Some (?u, ?m)"
    using digit_of_nibble(1) by (auto simp: read_nibble_def)
  moreover have "(if k AND 0x0f = 0 then ?m AND 0xf0 else ?m) = k"
    using assms only_low [of k] only_high [of k] by (auto simp: nibble_mask_def)
  then have "read_nibble (drop 1 (pattern_byte (v, k) @ ch)) 2 0xf0 ?m = Some (?l, k)"
    using digit_of_nibble(2) by (auto simp: read_nibble_def)
  moreover have "(push_bit 4 ?u OR ?l) AND k = v AND k"
  proof -
    have u: "push_bit 4 ?u AND k = push_bit 4 (drop_bit 4 v) AND k" using no_high [of k 4] no_high [of k "drop_bit 4 v"] by auto
    have "(2 :: guint8) AND 0x0f = 2" "(v AND 0x0f) AND 0x0f = v AND 0x0f" by (simp_all add: and.assoc)
    then have l: "?l AND k = (v AND 0x0f) AND k" using no_low [of k 2] no_low [of k "v AND 0x0f"] by auto
    have "(push_bit 4 ?u OR ?l) AND k = (push_bit 4 ?u AND k) OR (?l AND k)" by (rule bit.conj_disj_distrib2)
    also have "\<dots> = (push_bit 4 (drop_bit 4 v) OR (v AND 0x0f)) AND k" unfolding u l by (rule bit.conj_disj_distrib2 [symmetric])
    finally show ?thesis by (simp only: join_nibbles)
  qed
  ultimately show thesis by (rule that)
qed

lemma read_hex_byte: "read_mask (spaces_of n @ hex_byte k @ rest) = Some (k, hex_byte k @ rest)"
proof -
  have "dropWhile (\<lambda>c. c = CHR '' '') (spaces_of n @ hex_byte k @ rest) = hex_byte k @ rest"
    using digit_of_nibble(1) [of k] by (induction n) (auto simp: spaces_of_def hex_byte_def)
  then show ?thesis using digit_of_nibble [of k] by (simp add: read_mask_def Let_def) (simp add: hex_byte_def join_nibbles)
qed

section \<open>The loop over a text\<close>

lemma loop_trailing: "hexstring_loop (spaces_of t) mh p = Some p"
  by (induction t arbitrary: mh) (simp_all add: spaces_of_def)

lemma loop_spaces:
  assumes "mh = None \<and> mh' = None \<or> mh = Some (spaces_of (n + j) @ rest) \<and> mh' = Some (spaces_of j @ rest)"
  shows "hexstring_loop (spaces_of n @ ch) mh p = hexstring_loop ch mh' p"
  using assms
proof (induction n arbitrary: mh)
  case 0
  then show ?case by (auto simp: spaces_of_def)
next
  case (Suc n)
  have "hexstring_loop (spaces_of (Suc n) @ ch) mh p = hexstring_loop (spaces_of n @ ch) (map_option (drop 1) mh) p"
    using Suc.prems by (auto simp: spaces_of_def)
  also have "\<dots> = hexstring_loop ch mh' p" using Suc.prems by (intro Suc.IH) (auto simp: spaces_of_def)
  finally show ?case .
qed

lemma loop_byte:
  assumes "mh = None \<and> mh' = None \<and> nibble_mask k \<or> mh = Some (spaces_of j @ hex_byte k @ rest) \<and> mh' = Some rest"
  obtains v' where "hexstring_loop (pattern_byte (v, k) @ ch) mh p = hexstring_loop ch mh' (append_value v' k p)" "v' AND k = v AND k"
proof -
  obtain c0 c1 where b: "pattern_byte (v, k) = [c0, c1]" "c0 \<noteq> CHR '' ''"
    using digit_of_nibble(1) [of v] by auto
  let ?init = "if mh = None then 0xff else k" and ?mh = "if mh = None then None else Some (hex_byte k @ rest)"
  have msk: "(case mh of None \<Rightarrow> Some (0xff, None) | Some s \<Rightarrow> map_option (\<lambda>(msk, s). (msk, Some s)) (read_mask s)) = Some (?init, ?mh)"
    using assms read_hex_byte [of j k rest] by auto
  obtain u m1 l where r: "read_nibble (pattern_byte (v, k) @ ch) 4 0x0f ?init = Some (u, m1)"
    "read_nibble (drop 1 (pattern_byte (v, k) @ ch)) 2 0xf0 m1 = Some (l, k)" "(push_bit 4 u OR l) AND k = v AND k"
    using assms by (rule_tac read_pattern_byte [of ?init k v ch]) auto
  have "mh \<noteq> Some []" using assms by (auto simp: hex_byte_def)
  moreover have "map_option (drop 2) ?mh = mh'" using assms by (auto simp: hex_byte_def)
  ultimately have "hexstring_loop (pattern_byte (v, k) @ ch) mh p = hexstring_loop ch mh' (append_value (push_bit 4 u OR l) k p)"
    using r(1,2) msk b(2) unfolding b(1) by simp
  then show thesis using r(3) by (rule that)
qed

lemma loop_body:
  assumes "laid_out 0 (mp_tokens p)" and "mh = None \<and> (\<forall>(n, v, k) \<in> set xs. nibble_mask k) \<or> mh = Some (spaces_of j @ mask_text xs @ spaces_of t')"
  shows "\<exists>p'. hexstring_loop (body_text xs @ spaces_of t) mh p = Some p' \<and> laid_out 0 (mp_tokens p') \<and> mp_regex p' = mp_regex p \<and>
    pattern_specs (mp_tokens p') = pattern_specs (mp_tokens p) @ map (\<lambda>(n, v, k). (v AND k, k)) xs"
  using assms
proof (induction xs arbitrary: p mh j)
  case Nil
  then show ?case by (simp add: body_text_def loop_trailing)
next
  case (Cons x xs)
  obtain n v k where x: "x = (n, v, k)" by (cases x)
  let ?rest = "mask_text xs @ spaces_of t'" and ?ch = "body_text xs @ spaces_of t"
  define mh1 where "mh1 = (if mh = None then None else Some (spaces_of j @ hex_byte k @ ?rest))"
  define mh2 where "mh2 = (if mh = None then None else Some ?rest)"
  have sp: "mh = None \<and> mh1 = None \<or> mh = Some (spaces_of (n + j) @ hex_byte k @ ?rest) \<and> mh1 = Some (spaces_of j @ hex_byte k @ ?rest)"
    using Cons.prems(2) by (auto simp: mh1_def mask_text_def x spaces_of_def replicate_add [symmetric] add.commute simp flip: append_assoc)
  have at_byte: "mh1 = None \<and> mh2 = None \<and> nibble_mask k \<or> mh1 = Some (spaces_of j @ hex_byte k @ ?rest) \<and> mh2 = Some ?rest"
    using Cons.prems(2) by (auto simp: mh1_def mh2_def x)
  obtain v' where v': "hexstring_loop (pattern_byte (v, k) @ ?ch) mh1 p = hexstring_loop ?ch mh2 (append_value v' k p)" "v' AND k = v AND k"
    using at_byte by (rule loop_byte)
  have step: "hexstring_loop (body_text (x # xs) @ spaces_of t) mh p = hexstring_loop ?ch mh2 (append_value v' k p)"
    using loop_spaces [OF sp, of "pattern_byte (v, k) @ ?ch" p] v'(1) by (simp add: body_text_def x)
  note ok = append_value_ok [OF Cons.prems(1), of v' k]
  have "mh2 = None \<and> (\<forall>(n, v, k) \<in> set xs. nibble_mask k) \<or> mh2 = Some (spaces_of 0 @ mask_text xs @ spaces_of t')"
    using Cons.prems(2) by (auto simp: mh2_def spaces_of_def)
  from Cons.IH [OF conjunct1 [OF ok] this] show ?case using ok v'(2) unfolding step by (simp add: x)
qed

section \<open>Whole texts\<close>

definition plain_text :: "pattern_text \<Rightarrow> nat \<Rightarrow> string" where
  "plain_text xs t = body_text xs @ spaces_of t"

text \<open>With a mask string, up to \<open>t\<close> of the spaces at the end of the pattern may be at the start of the masks.\<close>

definition masked_text :: "pattern_text \<Rightarrow> nat \<Rightarrow> nat \<Rightarrow> string" where
  "masked_text xs t j = body_text xs @ spaces_of t @ '':'' @ spaces_of j @ mask_text xs @ spaces_of (t - j)"

lemma plain_chars: "c \<in> set (body_text xs @ spaces_of t) \<Longrightarrow> c \<noteq> CHR '':'' \<and> c \<noteq> CHR ''/''"
  using digit_of_nibble by (auto simp: body_text_def spaces_of_def split: if_splits)

lemma length_mask_text: "length (mask_text xs) = length (body_text xs)"
  by (induction xs) (auto simp: mask_text_def body_text_def hex_byte_def)

lemma split_without: "CHR '':'' \<notin> set s \<Longrightarrow> split_at_colon s = (s, None)"
  by (induction s) auto

lemma split_with: "CHR '':'' \<notin> set s \<Longrightarrow> split_at_colon (s @ '':'' @ r) = (s, Some r)"
  by (induction s) auto

lemma token_specs_ends:
  "laid_out n [t] \<Longrightarrow> token_specs t \<noteq> [] \<and> (\<forall>s \<in> set (token_specs t). snd s = 0 \<longleftrightarrow> mt_type t = GUM_MATCH_WILDCARD)"
  by (cases "mt_type t") (auto simp: token_specs_def list_all_iff set_zip split: option.splits)

lemma pattern_specs_ends:
  assumes "laid_out n ts" "ts \<noteq> []"
  shows "mt_type (ts ! 0) = GUM_MATCH_WILDCARD \<longleftrightarrow> snd (hd (pattern_specs ts)) = 0"
    "mt_type (ts ! (length ts - 1)) = GUM_MATCH_WILDCARD \<longleftrightarrow> snd (last (pattern_specs ts)) = 0"
proof -
  obtain t us where h: "ts = t # us" using assms(2) by (cases ts) auto
  then have "laid_out n [t]" using assms(1) by simp
  note first = token_specs_ends [OF this]
  then have "snd (hd (token_specs t)) = 0 \<longleftrightarrow> mt_type t = GUM_MATCH_WILDCARD" using hd_in_set by blast
  then show "mt_type (ts ! 0) = GUM_MATCH_WILDCARD \<longleftrightarrow> snd (hd (pattern_specs ts)) = 0" using first by (simp add: h)
  obtain u vs where l: "ts = vs @ [u]" using assms(2) by (cases ts rule: rev_cases) auto
  then have "laid_out (n + bytes_total vs) [u]" using assms(1) by (simp add: laid_out_append)
  note final = token_specs_ends [OF this]
  then have "snd (last (token_specs u)) = 0 \<longleftrightarrow> mt_type u = GUM_MATCH_WILDCARD" using last_in_set by blast
  then show "mt_type (ts ! (length ts - 1)) = GUM_MATCH_WILDCARD \<longleftrightarrow> snd (last (pattern_specs ts)) = 0" using final by (simp add: l)
qed

text \<open>A pattern as the parser returns it.\<close>

definition sealed :: "GumMatchPattern \<Rightarrow> bool" where
  "sealed p \<longleftrightarrow> laid_out 0 (mp_tokens p) \<and> mp_tokens p \<noteq> [] \<and> mt_type (mp_tokens p ! 0) \<noteq> GUM_MATCH_WILDCARD \<and>
     bytes_total (mp_tokens p) < 2 ^ 32 \<and> mp_size p = of_nat (bytes_total (mp_tokens p)) \<and> mp_regex p = 0"

lemma seal_ok:
  assumes "laid_out 0 (mp_tokens p)" "bytes_total (mp_tokens p) < 2 ^ 32" "mp_regex p = 0"
  defines "xs \<equiv> pattern_specs (mp_tokens p)"
  shows "if xs \<noteq> [] \<and> snd (hd xs) \<noteq> 0 \<and> snd (last xs) \<noteq> 0
     then \<exists>p'. gum_match_pattern_seal p = (True, p') \<and> sealed p' \<and> pattern_specs (mp_tokens p') = xs
     else fst (gum_match_pattern_seal p) = False"
proof -
  have len: "length xs = bytes_total (mp_tokens p)" unfolding xs_def by (rule length_pattern_specs [OF assms(1)])
  have size: "mp_size (gum_match_pattern_update_computed_size p) = of_nat (length xs)"
    by (simp add: gum_match_pattern_update_computed_size_def computed_size len)
  have toks: "mp_tokens (gum_match_pattern_update_computed_size p) = mp_tokens p" "mp_regex (gum_match_pattern_update_computed_size p) = 0"
    by (simp_all add: gum_match_pattern_update_computed_size_def assms(3))
  have zero: "(of_nat (length xs) :: guint) = 0 \<longleftrightarrow> xs = []"
    using assms(2) len by (simp add: word_of_nat_eq_0_iff) (auto dest: nat_dvd_not_less [rotated])
  have nil: "mp_tokens p \<noteq> []" if "xs \<noteq> []" using that by (auto simp: xs_def)
  note ends = pattern_specs_ends [OF assms(1) nil, folded xs_def]
  show ?thesis
  proof (cases "xs = []")
    case True
    then show ?thesis using size zero by (simp add: gum_match_pattern_seal_def Let_def)
  next
    case False
    then have "mp_tokens p \<noteq> []" by (rule nil)
    then show ?thesis using False zero ends size toks assms(1,2) len
      by (simp add: gum_match_pattern_seal_def sealed_def Let_def) (simp add: xs_def)
  qed
qed

lemma hexstring_text:
  assumes "length xs < 2 ^ 32"
    and "text = plain_text xs t \<and> (\<forall>(n, v, k) \<in> set xs. nibble_mask k) \<or> text = masked_text xs t j \<and> j \<le> t"
  shows "if xs \<noteq> [] \<and> snd (snd (hd xs)) \<noteq> 0 \<and> snd (snd (last xs)) \<noteq> 0
     then \<exists>p. gum_match_pattern_new_from_hexstring text = Some p \<and> sealed p \<and>
       pattern_specs (mp_tokens p) = map (\<lambda>(n, v, k). (v AND k, k)) xs
     else gum_match_pattern_new_from_hexstring text = None"
proof (cases "text = ''''")
  case True
  then have "xs = []" using assms(2) by (cases xs) (auto simp: plain_text_def masked_text_def body_text_def)
  then show ?thesis using True by (simp add: gum_match_pattern_new_from_hexstring_def)
next
  case False
  define ys where "ys = map (\<lambda>(n, v :: guint8, k). (v AND k, k)) xs"
  define mh where "mh = (if text = plain_text xs t then None else Some (spaces_of j @ mask_text xs @ spaces_of (t - j)))"
  have colon: "CHR '':'' \<notin> set (body_text xs @ spaces_of t)" using plain_chars [of _ xs t] by blast
  have "CHR '':'' \<in> set (masked_text xs t j)" by (simp add: masked_text_def)
  then have differ: "masked_text xs t j \<noteq> plain_text xs t" using colon by (metis plain_text_def)
  have split: "split_at_colon text = (body_text xs @ spaces_of t, mh)"
    using assms(2) split_without [OF colon] split_with [OF colon, of "spaces_of j @ mask_text xs @ spaces_of (t - j)"] differ
    by (auto simp: mh_def plain_text_def masked_text_def)
  have mh: "mh = None \<and> (\<forall>(n, v, k) \<in> set xs. nibble_mask k) \<or> mh = Some (spaces_of j @ mask_text xs @ spaces_of (t - j)) \<and> j \<le> t"
    using assms(2) differ by (auto simp: mh_def)
  then have lens: "\<not> (case mh of None \<Rightarrow> False | Some s \<Rightarrow> length s \<noteq> length (body_text xs @ spaces_of t))"
    by (auto simp: length_mask_text spaces_of_def)
  have new: "laid_out 0 (mp_tokens gum_match_pattern_new)" "mp_tokens gum_match_pattern_new = []" "mp_regex gum_match_pattern_new = 0"
    by (simp_all add: gum_match_pattern_new_def)
  from mh have mh': "mh = None \<and> (\<forall>(n, v, k) \<in> set xs. nibble_mask k) \<or> mh = Some (spaces_of j @ mask_text xs @ spaces_of (t - j))" by blast
  obtain p where p: "hexstring_loop (body_text xs @ spaces_of t) mh gum_match_pattern_new = Some p" "laid_out 0 (mp_tokens p)"
    "mp_regex p = 0" "pattern_specs (mp_tokens p) = ys"
    using loop_body [OF new(1) mh', of t] new(2,3) unfolding ys_def by auto
  have "bytes_total (mp_tokens p) < 2 ^ 32" using length_pattern_specs [OF p(2)] p(4) assms(1) by (simp add: ys_def)
  note seal = seal_ok [OF p(2) this p(3), unfolded p(4)]
  have ends: "ys \<noteq> [] \<and> snd (hd ys) \<noteq> 0 \<and> snd (last ys) \<noteq> 0 \<longleftrightarrow>
      xs \<noteq> [] \<and> snd (snd (hd xs)) \<noteq> 0 \<and> snd (snd (last xs)) \<noteq> 0"
    by (cases "xs = []") (auto simp: ys_def hd_map last_map split: prod.splits)
  have whole: "gum_match_pattern_new_from_hexstring text =
      (let (ok, pattern) = gum_match_pattern_seal p in if ok then Some pattern else None)"
    using False lens p(1) by (simp add: gum_match_pattern_new_from_hexstring_def split)
  show ?thesis using seal unfolding ends whole ys_def [symmetric] by (auto split: if_splits prod.splits)
qed

end
