(* ===== verification/Gum_Scan.thy ===== *)
theory Gum_Scan
  imports Gum_Pattern_Correct
begin

text \<open>
  When a pattern matches, and what scanning reports: the properties of match patterns.
\<close>

section \<open>Matching a pattern\<close>

lemma memcmp_mask_equal:
  "length hs = length ns \<Longrightarrow> length ns = length ks \<Longrightarrow>
   gum_memcmp_mask hs ns ks = 0 \<longleftrightarrow> (\<forall>i < length ks. hs ! i AND ks ! i = ns ! i AND ks ! i)"
proof (induction hs ns ks rule: list_induct3)
  case (Cons h hs n ns k ks)
  have "uint (h AND k) - uint (n AND k) = 0 \<longleftrightarrow> h AND k = n AND k" by (simp add: word_uint_eq_iff)
  then show ?case using Cons by (simp add: Let_def All_less_Suc2)
qed simp

definition token_at :: "memory \<Rightarrow> gpointer \<Rightarrow> GumMatchToken \<Rightarrow> bool" where
  "token_at m p t \<longleftrightarrow>
     (mt_type t = GUM_MATCH_EXACT \<longrightarrow> read_bytes m p (length (mt_bytes t)) = mt_bytes t) \<and>
     (mt_type t = GUM_MATCH_MASK \<longrightarrow> (\<exists>ks. mt_masks t = Some ks \<and> gum_memcmp_mask (read_bytes m p (length ks)) (mt_bytes t) ks = 0))"

lemma token_at_specs:
  assumes "laid_out n [t]"
  shows "token_at m p t \<longleftrightarrow> (\<forall>i < length (mt_bytes t). meets (m (p + of_nat i)) (token_specs t ! i))"
proof (cases "mt_type t")
  case GUM_MATCH_EXACT
  from GUM_MATCH_EXACT show ?thesis
    by (simp add: token_at_def token_specs_def meets_def full_mask list_eq_iff_nth_eq nth_read_bytes)
next
  case GUM_MATCH_WILDCARD
  then show ?thesis by (simp add: token_at_def token_specs_def meets_def)
next
  case GUM_MATCH_MASK
  with assms obtain ks where ks: "mt_masks t = Some ks" "length ks = length (mt_bytes t)" by (auto split: option.splits)
  have "gum_memcmp_mask (read_bytes m p (length ks)) (mt_bytes t) ks = 0 \<longleftrightarrow>
      (\<forall>i < length ks. m (p + of_nat i) AND ks ! i = mt_bytes t ! i AND ks ! i)"
    using ks(2) by (subst memcmp_mask_equal) (simp_all add: nth_read_bytes)
  then show ?thesis using GUM_MATCH_MASK ks by (simp add: token_at_def token_specs_def meets_def and.assoc)
qed

lemma all_less_add: "(\<forall>i < x + y. P i) \<longleftrightarrow> (\<forall>i < x. P i) \<and> (\<forall>i < y. P (x + i))" for x y :: nat
  by (metis add_less_cancel_left le_add_diff_inverse not_less trans_less_add1)

lemma offset_word: "n < 2 ^ 32 \<Longrightarrow> ucast (of_nat n :: guint) = (of_nat n :: gpointer)"
  by (simp add: unsigned_of_nat take_bit_nat_eq_self)

lemma tokens_at_specs:
  "laid_out n ts \<Longrightarrow> n + bytes_total ts \<le> 2 ^ 32 \<Longrightarrow>
   (\<forall>t \<in> set ts. token_at m (a + ucast (mt_offset t)) t) \<longleftrightarrow>
   (\<forall>i < bytes_total ts. meets (m (a + of_nat (n + i))) (pattern_specs ts ! i))"
proof (induction ts arbitrary: n)
  case (Cons t ts)
  let ?l = "length (mt_bytes t)"
  have t: "laid_out n [t]" "mt_offset t = of_nat n" "mt_bytes t \<noteq> []" "laid_out (n + ?l) ts" using Cons.prems(1) by auto
  then have n: "ucast (mt_offset t) = (of_nat n :: gpointer)" using Cons.prems(2) by (intro trans [OF _ offset_word]) (auto simp: neq_Nil_conv)
  have len: "length (token_specs t) = ?l" by (rule length_token_specs [OF t(1)])
  have "token_at m (a + ucast (mt_offset t)) t \<longleftrightarrow> (\<forall>i < ?l. meets (m (a + of_nat (n + i))) (pattern_specs (t # ts) ! i))"
    unfolding token_at_specs [OF t(1)] n by (simp add: nth_append len add.assoc)
  moreover have "(\<forall>u \<in> set ts. token_at m (a + ucast (mt_offset u)) u) \<longleftrightarrow>
      (\<forall>i < bytes_total ts. meets (m (a + of_nat (n + (?l + i)))) (pattern_specs (t # ts) ! (?l + i)))"
    using Cons.IH [OF t(4)] Cons.prems(2) by (simp add: nth_append len add.assoc)
  ultimately show ?case by (simp only: bytes_total_simps all_less_add list.set ball_simps)
qed simp

text \<open>A place is not stored data of a token.\<close>

definition foreign :: "(nat \<Rightarrow> gpointer) \<Rightarrow> gpointer \<Rightarrow> nat \<Rightarrow> bool" where
  "foreign data a n \<longleftrightarrow> (\<forall>i. \<forall>j < n. data i \<noteq> a + of_nat j)"

lemma sealed_offset:
  assumes "laid_out n ts" "t \<in> set ts" "n + bytes_total ts < 2 ^ 32"
  shows "n \<le> unat (mt_offset t)" "unat (mt_offset t) + length (mt_bytes t) \<le> n + bytes_total ts"
    "mt_bytes t \<noteq> []" "laid_out (unat (mt_offset t)) [t]"
proof -
  from assms(2) obtain us vs where ts: "ts = us @ t # vs" by (metis split_list)
  have t: "laid_out (n + bytes_total us) [t]" using assms(1) by (auto simp: ts laid_out_append)
  then have "mt_offset t = of_nat (n + bytes_total us)" by simp
  then have "unat (mt_offset t) = n + bytes_total us" using assms(3) by (simp add: ts unat_of_nat del: of_nat_add)
  then show "n \<le> unat (mt_offset t)" "unat (mt_offset t) + length (mt_bytes t) \<le> n + bytes_total ts"
    "mt_bytes t \<noteq> []" "laid_out (unat (mt_offset t)) [t]" using t by (simp_all add: ts)
qed

lemma matching:
  assumes "sealed p" "foreign data a (bytes_total (mp_tokens p))"
  shows "gum_match_pattern_try_match_on data m p a \<longleftrightarrow>
    (\<forall>i < length (pattern_specs (mp_tokens p)). meets (m (a + of_nat i)) (pattern_specs (mp_tokens p) ! i))"
proof -
  let ?ts = "mp_tokens p"
  have s: "laid_out 0 ?ts" "0 + bytes_total ?ts < 2 ^ 32" using assms(1) by (simp_all add: sealed_def)
  have token: "exact_at (data i) m a t \<longleftrightarrow> read_bytes m (a + ucast (mt_offset t)) (length (mt_bytes t)) = mt_bytes t"
    if "t \<in> set ?ts" for t i
  proof -
    note off = sealed_offset [OF s(1) that s(2)]
    have "unat (mt_offset t) < bytes_total ?ts" using off(2,3) by (cases "mt_bytes t") auto
    then have "data i \<noteq> a + of_nat (unat (mt_offset t))" using assms(2) unfolding foreign_def by blast
    moreover have "ucast (mt_offset t) = (of_nat (unat (mt_offset t)) :: gpointer)" by simp
    ultimately have "data i \<noteq> a + ucast (mt_offset t)" by metis
    then show ?thesis by (auto simp: exact_at_def Let_def)
  qed
  have exact: "list_all (\<lambda>(i, t). mt_type t = GUM_MATCH_EXACT \<longrightarrow> exact_at (data i) m a t) (zip [0..<length ?ts] ?ts) \<longleftrightarrow>
      (\<forall>t \<in> set ?ts. mt_type t = GUM_MATCH_EXACT \<longrightarrow> read_bytes m (a + ucast (mt_offset t)) (length (mt_bytes t)) = mt_bytes t)"
    using token by (fastforce simp: list_all_iff set_zip in_set_conv_nth)
  have "gum_match_pattern_try_match_on data m p a \<longleftrightarrow> (\<forall>t \<in> set ?ts. token_at m (a + ucast (mt_offset t)) t)"
    unfolding gum_match_pattern_try_match_on_def exact
    by (auto simp: token_at_def masked_at_def list_all_iff split: option.splits)
  also have "\<dots> \<longleftrightarrow> (\<forall>i < bytes_total ?ts. meets (m (a + of_nat i)) (pattern_specs ?ts ! i))"
    using tokens_at_specs [OF s(1), of m a] s(2) by simp
  finally show ?thesis by (simp add: length_pattern_specs [OF s(1)])
qed

section \<open>The needle\<close>

lemma longest_token_fold:
  defines "step \<equiv> \<lambda>type token longest. if mt_type token = type \<and>
      (case longest of None \<Rightarrow> True | Some l \<Rightarrow> array_len (mt_bytes l) < array_len (mt_bytes token)) then Some token else longest"
  shows "fold (step type) ts acc = Some t \<Longrightarrow> acc = Some t \<or> t \<in> set ts \<and> mt_type t = type"
    "fold (step type) ts acc = None \<longleftrightarrow> acc = None \<and> (\<forall>t \<in> set ts. mt_type t \<noteq> type)"
proof (induction ts arbitrary: acc)
  case (Cons u ts)
  { case 1
    then show ?case using Cons.IH(1) [of "step type u acc"] by (auto simp: step_def split: if_splits)
  next
    case 2
    then show ?case using Cons.IH(2) [of "step type u acc"] by (auto simp: step_def split: if_splits) }
qed auto

lemma longest_token:
  "gum_match_pattern_get_longest_token p type = Some t \<Longrightarrow> t \<in> set (mp_tokens p) \<and> mt_type t = type"
  "gum_match_pattern_get_longest_token p type = None \<longleftrightarrow> (\<forall>t \<in> set (mp_tokens p). mt_type t \<noteq> type)"
  unfolding gum_match_pattern_get_longest_token_def
  using longest_token_fold [of type "mp_tokens p" None] by blast+

definition needle_offset :: "GumMatchPattern \<Rightarrow> nat" where
  "needle_offset p = (case scan_needle p of None \<Rightarrow> 0 | Some (t, msk) \<Rightarrow> unat (mt_offset t))"

lemma scan_needle_ok:
  assumes "sealed p"
  obtains t msk where "scan_needle p = Some (t, msk)" "needle_offset p = unat (mt_offset t)"
    "needle_offset p < bytes_total (mp_tokens p)"
    "\<forall>data m cur. gum_match_pattern_try_match_on data m p (cur - ucast (mt_offset t)) \<longrightarrow> needle_at m t msk cur"
proof -
  let ?ts = "mp_tokens p"
  have s: "laid_out 0 ?ts" "0 + bytes_total ?ts < 2 ^ 32" using assms by (simp_all add: sealed_def)
  have inside: "unat (mt_offset t) < bytes_total ?ts" if "t \<in> set ?ts" for t
    using sealed_offset(2,3) [OF s(1) that s(2)] by (cases "mt_bytes t") auto
  show thesis
  proof (cases "gum_match_pattern_get_longest_token p GUM_MATCH_EXACT")
    case (Some t)
    then have t: "t \<in> set ?ts" "mt_type t = GUM_MATCH_EXACT" using longest_token(1) by auto
    have n: "scan_needle p = Some (t, None)" by (simp add: scan_needle_def Some)
    have "needle_at m t None cur" if "gum_match_pattern_try_match_on data m p (cur - ucast (mt_offset t))" for data m cur
    proof -
      obtain i where i: "i < length ?ts" "?ts ! i = t" using t(1) by (auto simp: in_set_conv_nth)
      have "\<forall>i < length ?ts. mt_type (?ts ! i) = GUM_MATCH_EXACT \<longrightarrow> exact_at (data i) m (cur - ucast (mt_offset t)) (?ts ! i)"
        using that by (simp add: gum_match_pattern_try_match_on_def list_all_length)
      then have "exact_at (data i) m (cur - ucast (mt_offset t)) t" using i t(2) by blast
      then have eq: "read_bytes m cur (length (mt_bytes t)) = mt_bytes t" by (simp add: exact_at_def Let_def)
      have "mt_bytes t \<noteq> []" by (rule sealed_offset(3) [OF s(1) t(1) s(2)])
      then have "m cur = mt_bytes t ! 0" using eq nth_read_bytes [of 0 "length (mt_bytes t)" m cur] by simp
      then show ?thesis using eq by (simp add: needle_at_def Let_def)
    qed
    then show thesis using that [OF n] inside [OF t(1)] by (simp add: needle_offset_def n)
  next
    case None
    then have no: "\<forall>t \<in> set ?ts. mt_type t \<noteq> GUM_MATCH_EXACT" using longest_token(2) [of p GUM_MATCH_EXACT] longest_token(2) [of p GUM_MATCH_MASK] by auto
    have first: "?ts ! 0 \<in> set ?ts" "mt_type (?ts ! 0) \<noteq> GUM_MATCH_WILDCARD" using assms by (simp_all add: sealed_def)
    then have "mt_type (?ts ! 0) = GUM_MATCH_MASK" using no by (cases "mt_type (?ts ! 0)") auto
    then have "gum_match_pattern_get_longest_token p GUM_MATCH_MASK \<noteq> None" using longest_token(2) [of p GUM_MATCH_EXACT] longest_token(2) [of p GUM_MATCH_MASK] first(1) by auto
    then obtain t where long: "gum_match_pattern_get_longest_token p GUM_MATCH_MASK = Some t" by blast
    then have t: "t \<in> set ?ts" "mt_type t = GUM_MATCH_MASK" using longest_token(1) by auto
    note off = sealed_offset [OF s(1) t(1) s(2)]
    obtain ks where ks: "mt_masks t = Some ks" "length ks = length (mt_bytes t)" using off(4) t(2) by (auto split: option.splits)
    have n: "scan_needle p = Some (t, Some ks)" by (simp add: scan_needle_def None long ks)
    have "needle_at m t (Some ks) cur" if "gum_match_pattern_try_match_on data m p (cur - ucast (mt_offset t))" for data m cur
    proof -
      have "masked_at m (cur - ucast (mt_offset t)) t"
        using that t by (auto simp: gum_match_pattern_try_match_on_def list_all_iff)
      then have zero: "gum_memcmp_mask (read_bytes m cur (length (mt_bytes t))) (mt_bytes t) ks = 0"
        by (simp add: masked_at_def ks)
      then have "read_bytes m cur (length (mt_bytes t)) ! 0 AND ks ! 0 = mt_bytes t ! 0 AND ks ! 0"
        using off(3) ks(2) by (subst (asm) memcmp_mask_equal) auto
      then show ?thesis using zero off(3) nth_read_bytes [of 0 "length (mt_bytes t)" m cur] by (simp add: needle_at_def Let_def)
    qed
    then show thesis using that [OF n] inside [OF t(1)] by (simp add: needle_offset_def n)
  qed
qed

section \<open>What is reported\<close>

text \<open>Positions with \<open>P\<close> from \<open>i\<close> on, each at least \<open>w\<close> behind the one before.\<close>

function greedy :: "(nat \<Rightarrow> bool) \<Rightarrow> nat \<Rightarrow> nat \<Rightarrow> nat \<Rightarrow> nat list" where
  "greedy P w i n = (if i < n then if P i then i # greedy P w (i + max 1 w) n else greedy P w (i + 1) n else [])"
  by pat_completeness auto
termination
  by (relation "measure (\<lambda>(P, w, i, n). n - i)") auto

declare greedy.simps [simp del]

lemma greedy_sound: "j \<in> set (greedy P w i n) \<Longrightarrow> i \<le> j \<and> j < n \<and> P j"
proof (induction P w i n rule: greedy.induct)
  case (1 P w i n)
  note unfolded = greedy.simps [of P w i n]
  show ?case
  proof (cases "i < n \<and> P i")
    case True
    then have "j = i \<or> j \<in> set (greedy P w (i + max 1 w) n)" using "1.prems" unfolded by simp
    then show ?thesis using "1.IH"(1) True by fastforce
  next
    case False
    then have "i < n" "\<not> P i" "j \<in> set (greedy P w (i + 1) n)" using "1.prems" unfolded by (simp_all split: if_splits)
    then show ?thesis using "1.IH"(2) by fastforce
  qed
qed

lemma greedy_apart: "0 < w \<Longrightarrow> sorted_wrt (\<lambda>a b. a + w \<le> b) (greedy P w i n)"
proof (induction P w i n rule: greedy.induct)
  case (1 P w i n)
  note unfolded = greedy.simps [of P w i n]
  have "\<forall>b \<in> set (greedy P w (i + max 1 w) n). i + w \<le> b" using greedy_sound [of _ P w "i + max 1 w" n] by fastforce
  then show ?case using 1 unfolded by simp
qed

lemma greedy_complete: "0 < w \<Longrightarrow> i \<le> j \<Longrightarrow> j < n \<Longrightarrow> P j \<Longrightarrow> \<exists>k \<in> set (greedy P w i n). k \<le> j \<and> j < k + w"
proof (induction P w i n rule: greedy.induct)
  case (1 P w i n)
  note unfolded = greedy.simps [of P w i n]
  have "i < n" using "1.prems" by simp
  show ?case
  proof (cases "P i")
    case True
    show ?thesis
    proof (cases "j < i + w")
      case True
      then show ?thesis using \<open>P i\<close> \<open>i < n\<close> "1.prems"(2) unfolded by simp
    next
      case False
      then have "i + max 1 w \<le> j" using "1.prems"(1) by simp
      from "1.IH"(1) [OF \<open>i < n\<close> \<open>P i\<close> "1.prems"(1) this "1.prems"(3,4)] show ?thesis using \<open>P i\<close> \<open>i < n\<close> unfolded by simp
    qed
  next
    case False
    then have "i + 1 \<le> j" using "1.prems"(2,4) by (cases "i = j") simp_all
    from "1.IH"(2) [OF \<open>i < n\<close> False "1.prems"(1) this "1.prems"(3,4)] show ?thesis using False \<open>i < n\<close> unfolded by simp
  qed
qed

lemma enumerate_until_Cons_stop: "\<not> fst (func x s) \<Longrightarrow> enumerate_until func (x # xs) s = snd (func x s)"
  and enumerate_until_Cons_go: "fst (func x s) \<Longrightarrow> enumerate_until func (x # xs) s = enumerate_until func xs (snd (func x s))"
  by (cases "func x s"; simp)+

lemma scan_loop_greedy:
  assumes "sealed p" "scan_needle p = Some (t, msk)" "needle_offset p = unat (mt_offset t)"
    and needle: "\<forall>data m cur. gum_match_pattern_try_match_on data m p (cur - ucast (mt_offset t)) \<longrightarrow> needle_at m t msk cur"
    and "0 < w" "w = bytes_total (mp_tokens p) - needle_offset p" "unat b + n + w \<le> 2 ^ 64"
  shows "i < n + w \<Longrightarrow> scan_loop data m p t msk func (b + of_nat n) (b + of_nat i) s =
    Some (enumerate_until (\<lambda>i. func (b - of_nat (needle_offset p) + of_nat i) (of_nat (bytes_total (mp_tokens p))))
      (greedy (\<lambda>i. gum_match_pattern_try_match_on data m p (b - of_nat (needle_offset p) + of_nat i)) w i n) s)"
proof -
  let ?o = "of_nat (needle_offset p) :: gpointer" and ?z = "bytes_total (mp_tokens p)"
  let ?P = "\<lambda>i. gum_match_pattern_try_match_on data m p (b - ?o + of_nat i)"
  have off: "ucast (mt_offset t) = ?o" using assms(3) by simp
  have z: "(ucast (gum_match_pattern_get_size p) :: gsize) = of_nat ?z"
    using assms(1) offset_word [of ?z] by (simp add: gum_match_pattern_get_size_def sealed_def)
  have le: "b + of_nat j < b + of_nat n \<longleftrightarrow> j < n" if "j < n + w" for j
  proof -
    have "unat (b + of_nat j) = unat b + j" "unat (b + of_nat n) = unat b + n" using that assms(5,7) by (simp_all add: unat_word_ariths unat_of_nat)
    then show ?thesis by (simp add: word_less_nat_alt)
  qed
  have start: "b + of_nat j - ?o = b - ?o + of_nat j" for j by (simp add: algebra_simps)
  have nxt: "b + of_nat j + 1 = b + of_nat (Suc j)" for j by simp
  have jump: "b - ?o + of_nat j + of_nat ?z = b + (of_nat j + of_nat (max (Suc 0) w))" for j
  proof -
    have "?z = w + needle_offset p" using assms(5,6) by simp
    then have "(of_nat ?z :: gpointer) = of_nat w + ?o" by simp
    then show ?thesis using assms(5) by (simp add: max_def)
  qed
  show "i < n + w \<Longrightarrow> scan_loop data m p t msk func (b + of_nat n) (b + of_nat i) s =
      Some (enumerate_until (\<lambda>i. func (b - ?o + of_nat i) (of_nat ?z)) (greedy ?P w i n) s)"
  proof (induction "n - i" arbitrary: i s rule: less_induct)
    case less
    note go = le [OF less.prems]
    show ?case
    proof (cases "i < n")
      case False
      then show ?thesis using go by (simp add: scan_loop.simps greedy.simps)
    next
      case True
      show ?thesis
      proof (cases "?P i")
        case False
        have "scan_loop data m p t msk func (b + of_nat n) (b + of_nat i) s = scan_loop data m p t msk func (b + of_nat n) (b + of_nat (Suc i)) s"
          using go True False unfolding nxt [of i, symmetric] by (subst scan_loop.simps) (simp add: off start)
        then show ?thesis using less.hyps [of "Suc i"] True False assms(5) by (simp add: greedy.simps [of ?P w i n])
      next
        case P: True
        then have at: "needle_at m t msk (b + of_nat i)" using needle [rule_format, of data m "b + of_nat i"] by (simp add: off start)
        obtain go_on s' where f: "func (b - ?o + of_nat i) (of_nat ?z) s = (go_on, s')" by (cases "func (b - ?o + of_nat i) (of_nat ?z) s")
        have "scan_loop data m p t msk func (b + of_nat n) (b + of_nat i) s =
            (if \<not> go_on then Some s' else scan_loop data m p t msk func (b + of_nat n) (b + of_nat (i + max 1 w)) s')"
          using go True P at f by (subst scan_loop.simps) (simp add: off start z jump)
        then show ?thesis using less.hyps [of "i + max 1 w" s'] True P f assms(5) by (simp add: greedy.simps [of ?P w i n])
      qed
    qed
  qed
qed

lemma scan_raw_greedy:
  assumes "sealed p" "unat (base_address r) + unat (range_size r) < 2 ^ 64"
    "bytes_total (mp_tokens p) \<le> unat (base_address r) + unat (range_size r)"
  defines "w \<equiv> bytes_total (mp_tokens p) - needle_offset p"
  shows "0 < w" "gum_memory_scan_raw data m r p func s =
    Some (enumerate_until (\<lambda>i. func (base_address r - of_nat (needle_offset p) + of_nat i) (of_nat (bytes_total (mp_tokens p))))
      (greedy (\<lambda>i. gum_match_pattern_try_match_on data m p (base_address r - of_nat (needle_offset p) + of_nat i)) w 0
        (unat (range_size r) + 1 - w)) s)"
proof -
  let ?b = "base_address r" and ?z = "bytes_total (mp_tokens p)"
  obtain t msk where n: "scan_needle p = Some (t, msk)" "needle_offset p = unat (mt_offset t)" "needle_offset p < ?z"
    "\<forall>data m cur. gum_match_pattern_try_match_on data m p (cur - ucast (mt_offset t)) \<longrightarrow> needle_at m t msk cur"
    by (rule scan_needle_ok [OF assms(1)])
  show w: "0 < w" using n(3) by (simp add: w_def)
  have z: "mp_size p = of_nat ?z" "?z < 2 ^ 32" using assms(1) by (simp_all add: sealed_def)
  have "mp_size p - mt_offset t = of_nat w"
    using n(2,3) by (simp add: z(1) w_def of_nat_diff)
  then have diff: "(ucast (mp_size p - mt_offset t) :: gpointer) = of_nat w" using offset_word [of w] z(2) by (simp add: w_def)
  define e where "e = ?b + range_size r - of_nat w + 1"
  have raw: "gum_memory_scan_raw data m r p func s = scan_loop data m p t msk func e ?b s"
    by (simp add: gum_memory_scan_raw_def n(1) gum_match_pattern_get_size_def diff e_def Let_def)
  show "gum_memory_scan_raw data m r p func s =
    Some (enumerate_until (\<lambda>i. func (?b - of_nat (needle_offset p) + of_nat i) (of_nat ?z))
      (greedy (\<lambda>i. gum_match_pattern_try_match_on data m p (?b - of_nat (needle_offset p) + of_nat i)) w 0
        (unat (range_size r) + 1 - w)) s)"
  proof (cases "w \<le> unat (range_size r) + 1")
    case True
    then have "(of_nat (unat (range_size r) + 1 - w) :: gpointer) = range_size r + 1 - of_nat w" by (simp add: of_nat_diff)
    then have e: "e = ?b + of_nat (unat (range_size r) + 1 - w)" by (simp add: e_def)
    show ?thesis
      using scan_loop_greedy [OF assms(1) n(1,2) n(4) w w_def [THEN meta_eq_to_obj_eq], of ?b "unat (range_size r) + 1 - w" 0 data m func s] True assms(2) w
      by (simp add: raw e)
  next
    case False
    have "unat (?b + range_size r) = unat ?b + unat (range_size r)" using assms(2) by (simp add: unat_word_ariths)
    moreover have "unat (of_nat w :: gpointer) = w" using z(2) by (simp add: w_def unat_of_nat)
    moreover have "w \<le> ?z" by (simp add: w_def)
    ultimately have "unat (?b + range_size r - of_nat w) = unat ?b + unat (range_size r) - w"
      using assms(3) by (simp add: unat_sub_if')
    then have "unat e \<le> unat ?b" using False assms(2,3) \<open>w \<le> ?z\<close> by (simp add: e_def unat_word_ariths)
    then show ?thesis using False by (simp add: raw scan_loop.simps greedy.simps word_less_nat_alt)
  qed
qed

section \<open>Patterns from the parser\<close>

lemma split_length: "length (fst (split_at_colon s)) \<le> length s"
  by (induction s) (auto split: prod.splits)

lemma hexstring_sealed:
  assumes "gum_match_pattern_new_from_hexstring text = Some p" "length text < 2 ^ 32"
  shows "sealed p"
proof -
  obtain s mh where parts: "split_at_colon text = (s, mh)" by (cases "split_at_colon text")
  then have s: "length s \<le> length text" using split_length [of "text"] by simp
  obtain q where q: "hexstring_loop s mh gum_match_pattern_new = Some q" "gum_match_pattern_seal q = (True, p)"
    using assms(1) by (auto simp: gum_match_pattern_new_from_hexstring_def parts split: if_splits option.splits prod.splits)
  have new: "laid_out 0 (mp_tokens gum_match_pattern_new)" "mp_tokens gum_match_pattern_new = []" "mp_regex gum_match_pattern_new = 0"
    by (simp_all add: gum_match_pattern_new_def)
  note ok = hexstring_loop_ok [OF q(1) new(1)]
  have "bytes_total (mp_tokens q) < 2 ^ 32" using length_pattern_specs [OF conjunct1 [OF ok]] ok new(2) s assms(2) by simp
  from seal_ok [OF conjunct1 [OF ok] this] ok new(3) q(2) show ?thesis by (auto split: if_splits)
qed

lemma string_sealed:
  assumes "gum_match_pattern_new_from_string rx text = Some (Some p)" "mp_regex p = 0" "length text < 2 ^ 32"
  shows "sealed p"
proof -
  have "gum_match_pattern_new_from_regex rx s \<noteq> Some p" for s
    using assms(2) by (auto simp: gum_match_pattern_new_from_regex_def Let_def split: if_splits)
  then have "gum_match_pattern_new_from_hexstring text = Some p"
    using assms(1) by (auto simp: gum_match_pattern_new_from_string_def split: if_splits option.splits)
  then show ?thesis using assms(3) by (rule hexstring_sealed)
qed

lemma sealed_size: "sealed p \<Longrightarrow> unat (gum_match_pattern_get_size p) = bytes_total (mp_tokens p)"
  "sealed p \<Longrightarrow> (ucast (gum_match_pattern_get_size p) :: gsize) = of_nat (bytes_total (mp_tokens p))"
  using offset_word [of "bytes_total (mp_tokens p)"] by (simp_all add: sealed_def gum_match_pattern_get_size_def unat_of_nat)

section \<open>Properties\<close>

text \<open>
  C27: The parser reads what the text of a pattern says. For fewer than 2^32 bytes with masks, written in hexadecimal with
  question marks for the nibbles that do not matter and any spaces between the bytes, or with a mask string behind a colon:
  if the first and the last byte have a mask that is not zero, it returns a pattern of that size that matches exactly
  where each byte agrees with its value under its mask, at all places that do not overlap the memory in which the pattern
  itself keeps its bytes. A text with no byte, or whose first or last byte is a full wildcard, is refused.
\<close>

theorem pattern_text_matches:
  assumes "length xs < 2 ^ 32"
    and "text = plain_text xs t \<and> (\<forall>(n, v, k) \<in> set xs. nibble_mask k) \<or> text = masked_text xs t j \<and> j \<le> t"
  shows "if xs \<noteq> [] \<and> snd (snd (hd xs)) \<noteq> 0 \<and> snd (snd (last xs)) \<noteq> 0
    then \<exists>p. gum_match_pattern_new_from_string rx text = Some (Some p) \<and> mp_regex p = 0 \<and>
      unat (gum_match_pattern_get_size p) = length xs \<and>
      (\<forall>data m a. foreign data a (length xs) \<longrightarrow>
        (gum_match_pattern_try_match_on data m p a \<longleftrightarrow>
          (\<forall>i < length xs. case xs ! i of (n, v, k) \<Rightarrow> m (a + of_nat i) AND k = v AND k)))
    else gum_match_pattern_new_from_string rx text = Some None"
proof -
  define body where "body = body_text xs @ spaces_of t"
  obtain rest where "text = body \<or> text = body @ CHR '':'' # rest"
    using assms(2) by (auto simp: plain_text_def masked_text_def body_def)
  moreover have "body = [] \<or> hd body \<noteq> CHR ''/''" using plain_chars [of _ xs t] hd_in_set unfolding body_def by blast
  ultimately have "text = '''' \<or> hd text \<noteq> CHR ''/''" by (cases body) auto
  then have new: "gum_match_pattern_new_from_string rx text = Some (gum_match_pattern_new_from_hexstring text)"
    by (auto simp: gum_match_pattern_new_from_string_def)
  show ?thesis
  proof (cases "xs \<noteq> [] \<and> snd (snd (hd xs)) \<noteq> 0 \<and> snd (snd (last xs)) \<noteq> 0")
    case True
    then obtain p where p: "gum_match_pattern_new_from_hexstring text = Some p" "sealed p"
      "pattern_specs (mp_tokens p) = map (\<lambda>(n, v, k). (v AND k, k)) xs" using hexstring_text [OF assms] by auto
    have len: "bytes_total (mp_tokens p) = length xs"
      using p(2,3) length_pattern_specs [of 0 "mp_tokens p"] by (simp add: sealed_def)
    have "gum_match_pattern_try_match_on data m p a \<longleftrightarrow> (\<forall>i < length xs. case xs ! i of (n, v, k) \<Rightarrow> m (a + of_nat i) AND k = v AND k)"
      if "foreign data a (length xs)" for data m a
      unfolding matching [OF p(2) that [folded len]] p(3) by (simp add: meets_def and.assoc split: prod.splits)
    moreover have "mp_regex p = 0" using p(2) by (simp add: sealed_def)
    ultimately show ?thesis using True p(1) sealed_size(1) [OF p(2)] unfolding new len by auto
  next
    case False
    then show ?thesis using hexstring_text [OF assms] unfolding new by auto
  qed
qed

definition no_regexes :: regexes where
  "no_regexes = \<lparr>g_regex_new = \<lambda>s. 0, g_regex_matches = \<lambda>regex bytes. []\<rparr>"

theorem pattern_text_matches_witness:
  "\<exists>p. gum_match_pattern_new_from_string no_regexes ''13 ?? 37'' = Some (Some p) \<and> unat (gum_match_pattern_get_size p) = 3"
proof -
  let ?xs = "[(0, 0x13, 0xff), (1, 0, 0), (1, 0x37, 0xff)] :: pattern_text"
  have "''13 ?? 37'' = plain_text ?xs 0" by code_simp
  then have "''13 ?? 37'' = plain_text ?xs 0 \<and> (\<forall>(n, v, k) \<in> set ?xs. nibble_mask k) \<or>
      ''13 ?? 37'' = masked_text ?xs 0 0 \<and> 0 \<le> (0 :: nat)" by (simp add: nibble_mask_def)
  from pattern_text_matches [OF _ this, of no_regexes] show ?thesis by auto
qed

text \<open>
  C28: What scanning a range for a parsed pattern reports. With \<open>w\<close> the size of the pattern from its longest token on, it looks at the
  positions from that token's offset before the range up to the last one where the pattern ends in the range; it calls the
  callback in ascending order at positions where the pattern matches, at least \<open>w\<close> apart, until the callback stops it; and
  any position where the pattern matches is among them or less than \<open>w\<close> behind one of them.
\<close>

theorem scan_reports:
  assumes "gum_match_pattern_new_from_string rx text = Some (Some p)" and "mp_regex p = 0" and "length text < 2 ^ 32"
    and "unat (base_address r) + unat (range_size r) < 2 ^ 64"
    and "unat (gum_match_pattern_get_size p) \<le> unat (base_address r) + unat (range_size r)"
    and "w = unat (gum_match_pattern_get_size p) - needle_offset p" and "lo = base_address r - of_nat (needle_offset p)"
  shows "\<exists>found. (\<forall>func s. gum_memory_scan rx data m r p func s =
      Some (enumerate_until (\<lambda>i. func (lo + of_nat i) (ucast (gum_match_pattern_get_size p))) found s)) \<and>
    0 < w \<and> sorted_wrt (\<lambda>i j. i + w \<le> j) found \<and>
    (\<forall>i \<in> set found. i + w \<le> unat (range_size r) \<and> gum_match_pattern_try_match_on data m p (lo + of_nat i)) \<and>
    (\<forall>i. i + w \<le> unat (range_size r) \<and> gum_match_pattern_try_match_on data m p (lo + of_nat i) \<longrightarrow>
      (\<exists>j \<in> set found. j \<le> i \<and> i < j + w))"
proof -
  have p: "sealed p" by (rule string_sealed [OF assms(1-3)])
  note size = sealed_size [OF p]
  let ?g = "greedy (\<lambda>i. gum_match_pattern_try_match_on data m p (lo + of_nat i)) w 0 (unat (range_size r) + 1 - w)"
  have w_eq: "w = bytes_total (mp_tokens p) - needle_offset p" using assms(6) by (simp add: size(1))
  note raw = scan_raw_greedy [OF p assms(4) assms(5) [unfolded size(1)], folded w_eq assms(7) size(2)]
  have w: "0 < w" by (rule raw(1))
  have "gum_memory_scan rx data m r p func s =
      Some (enumerate_until (\<lambda>i. func (lo + of_nat i) (ucast (gum_match_pattern_get_size p))) ?g s)" for func s
    using raw(2) [of data m func s] by (simp add: gum_memory_scan_def assms(2))
  moreover have n: "i < unat (range_size r) + 1 - w \<longleftrightarrow> i + w \<le> unat (range_size r)" for i using w by auto
  have "\<forall>i \<in> set ?g. i + w \<le> unat (range_size r) \<and> gum_match_pattern_try_match_on data m p (lo + of_nat i)"
    using greedy_sound [of _ "\<lambda>i. gum_match_pattern_try_match_on data m p (lo + of_nat i)" w 0] n by blast
  moreover have "\<forall>i. i + w \<le> unat (range_size r) \<and> gum_match_pattern_try_match_on data m p (lo + of_nat i) \<longrightarrow>
      (\<exists>j \<in> set ?g. j \<le> i \<and> i < j + w)"
    using greedy_complete [OF w, of 0 _ _ "\<lambda>i. gum_match_pattern_try_match_on data m p (lo + of_nat i)"] n by blast
  ultimately show ?thesis using w greedy_apart [OF w] by blast
qed

text \<open>The bytes \<^verbatim>\<open>61 00 62 63\<close> at 0x1000, and zeros elsewhere.\<close>

definition sample_bytes :: memory where
  "sample_bytes = write_bytes (\<lambda>x. 0) 0x1000 [0x61, 0, 0x62, 0x63]"

definition sample_pattern :: GumMatchPattern where
  "sample_pattern = \<lparr>mp_ref_count = 1, mp_tokens =
     [\<lparr>mt_type = GUM_MATCH_EXACT, mt_bytes = [0x61], mt_masks = None, mt_offset = 0\<rparr>,
      \<lparr>mt_type = GUM_MATCH_WILDCARD, mt_bytes = [0x42], mt_masks = None, mt_offset = 1\<rparr>,
      \<lparr>mt_type = GUM_MATCH_EXACT, mt_bytes = [0x62, 0x63], mt_masks = None, mt_offset = 2\<rparr>], mp_size = 4, mp_regex = 0\<rparr>"

lemma sample_parsed: "gum_match_pattern_new_from_string no_regexes ''61 ?? 62 63'' = Some (Some sample_pattern)"
  by code_simp

lemma sample_matches:
  "gum_match_pattern_try_match_on (\<lambda>i. 0) sample_bytes sample_pattern 0x1000"
  "needle_offset sample_pattern = 2" "mp_regex sample_pattern = 0" "unat (gum_match_pattern_get_size sample_pattern) = 4"
  by code_simp+

theorem scan_reports_witness:
  "\<exists>found. gum_memory_scan no_regexes (\<lambda>i. 0) sample_bytes \<lparr>base_address = 0x1000, range_size = 0x10\<rparr> sample_pattern (\<lambda>a n s. (True, s @ [a])) [] =
      Some (enumerate_until (\<lambda>i s. (True, s @ [0xffe + of_nat i])) found []) \<and> (\<exists>j \<in> set found. j \<le> 2 \<and> 2 < j + 2)"
proof -
  let ?r = "\<lparr>base_address = 0x1000, range_size = 0x10\<rparr> :: GumMemoryRange" and ?p = sample_pattern
  have "2 = unat (gum_match_pattern_get_size ?p) - needle_offset ?p" "0xffe = base_address ?r - of_nat (needle_offset ?p)"
    "unat (base_address ?r) + unat (range_size ?r) < 2 ^ 64" "unat (gum_match_pattern_get_size ?p) \<le> unat (base_address ?r) + unat (range_size ?r)"
    "length ''61 ?? 62 63'' < 2 ^ 32"
    by (simp_all add: sample_matches)
  from scan_reports [OF sample_parsed sample_matches(3) this(5,3,4,1,2), of "\<lambda>i. 0" sample_bytes] obtain found where
    found: "\<forall>(func :: _ \<Rightarrow> _ \<Rightarrow> gpointer list \<Rightarrow> _) s. gum_memory_scan no_regexes (\<lambda>i. 0) sample_bytes ?r ?p func s =
      Some (enumerate_until (\<lambda>i. func (0xffe + of_nat i) (ucast (gum_match_pattern_get_size ?p))) found s)"
    "\<forall>i. i + 2 \<le> unat (range_size ?r) \<and> gum_match_pattern_try_match_on (\<lambda>i. 0) sample_bytes ?p (0xffe + of_nat i) \<longrightarrow>
      (\<exists>j \<in> set found. j \<le> i \<and> i < j + 2)" by blast
  have "\<exists>j \<in> set found. j \<le> 2 \<and> 2 < j + 2" using found(2) [rule_format, of 2] sample_matches(1) by simp
  then show ?thesis using found(1) [rule_format, of "\<lambda>a n s. (True, s @ [a])" "[]"] by (intro exI [of _ found] conjI)
qed

text \<open>
  Scanning may leave the range. If the longest token of a pattern is not its first and the pattern matches so that this
  token is at the very start of the range, the match is reported, although it begins before the range.
\<close>

theorem scan_leaves_range:
  assumes "gum_match_pattern_new_from_string rx text = Some (Some p)" and "mp_regex p = 0" and "length text < 2 ^ 32"
    and "unat (base_address r) + unat (range_size r) < 2 ^ 64"
    and "unat (gum_match_pattern_get_size p) \<le> unat (base_address r)"
    and "0 < needle_offset p" and "unat (gum_match_pattern_get_size p) - needle_offset p \<le> unat (range_size r)"
    and "gum_match_pattern_try_match_on data m p (base_address r - of_nat (needle_offset p))"
  shows "\<exists>rest. gum_memory_scan rx data m r p (\<lambda>a n found. (True, found @ [a])) [] =
      Some ((base_address r - of_nat (needle_offset p)) # rest) \<and>
    base_address r - of_nat (needle_offset p) < base_address r"
proof -
  have p: "sealed p" by (rule string_sealed [OF assms(1-3)])
  note size = sealed_size [OF p]
  define lo where "lo = base_address r - of_nat (needle_offset p)"
  define w where "w = bytes_total (mp_tokens p) - needle_offset p"
  let ?P = "\<lambda>i. gum_match_pattern_try_match_on data m p (lo + of_nat i)"
  have "bytes_total (mp_tokens p) \<le> unat (base_address r) + unat (range_size r)" using assms(5) by (simp add: size)
  note raw = scan_raw_greedy [OF p assms(4) this, folded lo_def w_def]
  have "greedy ?P w 0 (unat (range_size r) + 1 - w) = 0 # greedy ?P w (0 + max 1 w) (unat (range_size r) + 1 - w)"
    using assms(7,8) by (subst greedy.simps) (simp add: size w_def lo_def)
  then obtain ks where ks: "greedy ?P w 0 (unat (range_size r) + 1 - w) = 0 # ks" by blast
  have append: "enumerate_until (\<lambda>i found. (True, found @ [lo + of_nat i])) js acc = acc @ map (\<lambda>i. lo + of_nat i) js" for js acc
    by (induction js arbitrary: acc) simp_all
  have "gum_memory_scan rx data m r p (\<lambda>a n found. (True, found @ [a])) [] = Some (lo # map (\<lambda>i. lo + of_nat i) ks)"
    using raw(2) [of data m "\<lambda>a n found. (True, found @ [a])" "[]", unfolded ks append] by (simp add: gum_memory_scan_def assms(2))
  moreover have "lo < base_address r"
  proof -
    obtain t msk where "needle_offset p < bytes_total (mp_tokens p)" using scan_needle_ok [OF p] by metis
    then have "unat (of_nat (needle_offset p) :: gpointer) = needle_offset p" "needle_offset p \<le> unat (base_address r)"
      using p assms(5) by (simp_all add: sealed_def unat_of_nat size)
    then show ?thesis using assms(6) by (simp add: lo_def word_less_nat_alt unat_sub_if')
  qed
  ultimately show ?thesis unfolding lo_def by blast
qed

theorem scan_leaves_range_witness:
  "\<exists>rest. gum_memory_scan no_regexes (\<lambda>i. 0) sample_bytes \<lparr>base_address = 0x1002, range_size = 0x10\<rparr> sample_pattern
    (\<lambda>a n found. (True, found @ [a])) [] = Some (0x1000 # rest)"
proof -
  let ?r = "\<lparr>base_address = 0x1002, range_size = 0x10\<rparr> :: GumMemoryRange"
  have "length ''61 ?? 62 63'' < 2 ^ 32" "unat (base_address ?r) + unat (range_size ?r) < 2 ^ 64"
    "unat (gum_match_pattern_get_size sample_pattern) \<le> unat (base_address ?r)" "0 < needle_offset sample_pattern"
    "unat (gum_match_pattern_get_size sample_pattern) - needle_offset sample_pattern \<le> unat (range_size ?r)"
    "gum_match_pattern_try_match_on (\<lambda>i. 0) sample_bytes sample_pattern (base_address ?r - of_nat (needle_offset sample_pattern))"
    by (simp_all add: sample_matches)
  from scan_leaves_range [OF sample_parsed sample_matches(3) this] show ?thesis by (auto simp: sample_matches)
qed

section \<open>Two more oddities of the parser\<close>

text \<open>
  Of the text \<^verbatim>\<open>/\<close>, which begins and ends with a slash, minus one characters are copied, into a buffer of no bytes. And a
  pattern ends where its mask string does, so that bytes behind that place are dropped without an error.
\<close>

lemma single_slash_overflows: "gum_match_pattern_new_from_string rx ''/'' = None"
  by (simp add: gum_match_pattern_new_from_string_def g_strndup_def)

lemma pattern_ends_with_its_mask:
  "gum_match_pattern_new_from_string no_regexes ''12   34:   ff  '' = gum_match_pattern_new_from_string no_regexes ''12''"
  by code_simp

end
