(* ===== verification/Gum_Memory_Access.thy ===== *)
theory Gum_Memory_Access
  imports Gum_Memory
begin

text \<open>
  Checked access to memory and code patching, from \<^verbatim>\<open>src/frida-gum/gum/backend-linux/gummemory-linux.c\<close>,
  \<^verbatim>\<open>backend-posix/gummemory-posix.c\<close> and \<^verbatim>\<open>gummemory.c\<close>: what protection a range of memory has, reading and writing that
  respect it, changing it, and patching code in place.

  The lines of \<^verbatim>\<open>/proc/self/maps\<close> are an argument, as the addresses and flags they hold, in their order. On the target code can be
  made writable and executable at once, so patching never goes through a code segment.
\<close>

section \<open>Protection of a range\<close>

definition GUM_PAGE_NO_ACCESS :: GumPageProtection where
  "GUM_PAGE_NO_ACCESS = 0"

record map_line =
  ml_start :: gpointer
  ml_end :: gpointer
  ml_read :: bool
  ml_write :: bool
  ml_exec :: bool

definition line_protection :: "map_line \<Rightarrow> GumPageProtection" where
  "line_protection l =
     (let prot = GUM_PAGE_NO_ACCESS;
          prot = (if ml_read l then prot OR GUM_PAGE_READ else prot);
          prot = (if ml_write l then prot OR GUM_PAGE_WRITE else prot)
      in if ml_exec l then prot OR GUM_PAGE_EXECUTE else prot)"

text \<open>The loop over the lines, for a range within a page: \<open>None\<close> is \<^verbatim>\<open>FALSE\<close>.\<close>

fun protection_at :: "gpointer \<Rightarrow> gsize \<Rightarrow> map_line list \<Rightarrow> GumPageProtection option" where
  "protection_at address n [] = None"
| "protection_at address n (l # ls) =
     (if address < ml_start l then None
      else if ml_start l \<le> address \<and> address + n - 1 < ml_end l then Some (line_protection l)
      else protection_at address n ls)"

text \<open>The loop over the pages behind the first one, with the number of pages left; it adds up the size and narrows the protection.\<close>

fun walk_pages :: "map_line list \<Rightarrow> gsize \<Rightarrow> gpointer \<Rightarrow> nat \<Rightarrow> gsize \<Rightarrow> GumPageProtection \<Rightarrow> gsize \<times> GumPageProtection" where
  "walk_pages maps page_size cur_page 0 sz prot = (sz, prot)"
| "walk_pages maps page_size cur_page (Suc left) sz prot =
     (case protection_at cur_page 1 maps of
        None \<Rightarrow> (sz, prot)
      | Some cur_prot \<Rightarrow>
          if cur_prot \<noteq> GUM_PAGE_NO_ACCESS \<or> prot = GUM_PAGE_NO_ACCESS
          then walk_pages maps page_size (cur_page + page_size) left (sz + page_size) (prot AND cur_prot)
          else (sz, prot))"

definition gum_memory_get_protection :: "kernel \<Rightarrow> map_line list \<Rightarrow> gpointer \<Rightarrow> gsize \<Rightarrow> (gsize \<times> GumPageProtection) option" where
  "gum_memory_get_protection k maps address n =
     (if n > 1
      then
        let page_size = gum_query_page_size k;
            start_page = address AND NOT (page_size - 1);
            end_page = (address + n - 1) AND NOT (page_size - 1)
        in case protection_at start_page 1 maps of
             None \<Rightarrow> None
           | Some prot \<Rightarrow>
               (let (sz, prot) = walk_pages maps page_size (start_page + page_size) (unat ((end_page - start_page) div page_size))
                      (page_size - (address - start_page)) prot
                in Some (min sz n, prot))
      else map_option (\<lambda>prot. (1, prot)) (protection_at address n maps))"

section \<open>Reading and writing\<close>

definition gum_memory_is_readable :: "kernel \<Rightarrow> map_line list \<Rightarrow> gpointer \<Rightarrow> gsize \<Rightarrow> bool" where
  "gum_memory_is_readable k maps address len =
     (case gum_memory_get_protection k maps address len of
        None \<Rightarrow> False
      | Some (sz, prot) \<Rightarrow> len \<le> sz \<and> prot AND GUM_PAGE_READ \<noteq> 0)"

definition gum_memory_is_writable :: "kernel \<Rightarrow> map_line list \<Rightarrow> gpointer \<Rightarrow> gsize \<Rightarrow> bool" where
  "gum_memory_is_writable k maps address len =
     (case gum_memory_get_protection k maps address len of
        None \<Rightarrow> False
      | Some (sz, prot) \<Rightarrow> len \<le> sz \<and> prot AND GUM_PAGE_WRITE \<noteq> 0)"

text \<open>The bytes read, if any, and their number.\<close>

definition gum_memory_read :: "kernel \<Rightarrow> map_line list \<Rightarrow> memory \<Rightarrow> gpointer \<Rightarrow> gsize \<Rightarrow> guint8 list option \<times> gsize" where
  "gum_memory_read k maps m address len =
     (case gum_memory_get_protection k maps address len of
        None \<Rightarrow> (None, 0)
      | Some (sz, prot) \<Rightarrow>
          if prot AND GUM_PAGE_READ \<noteq> 0
          then let result_len = min len sz in (Some (read_bytes m address (unat result_len)), result_len)
          else (None, 0))"

definition gum_memory_write :: "kernel \<Rightarrow> map_line list \<Rightarrow> memory \<Rightarrow> gpointer \<Rightarrow> guint8 list \<Rightarrow> bool \<times> memory" where
  "gum_memory_write k maps m address bytes =
     (if gum_memory_is_writable k maps address (of_nat (length bytes))
      then (True, write_bytes m address bytes) else (False, m))"

section \<open>Changing the protection\<close>

definition gum_memory_discard :: "(gpointer \<Rightarrow> gsize \<Rightarrow> bool) \<Rightarrow> gpointer \<Rightarrow> gsize \<Rightarrow> bool" where
  "gum_memory_discard madvise address sz = madvise address sz"

text \<open>The result is \<^verbatim>\<open>TRUE\<close> whatever the kernel answers.\<close>

definition gum_memory_recommit ::
    "kernel \<Rightarrow> (gpointer \<Rightarrow> gsize \<Rightarrow> bool) \<Rightarrow> vm \<Rightarrow> gpointer \<Rightarrow> gsize \<Rightarrow> GumPageProtection \<Rightarrow> (bool \<times> vm) option" where
  "gum_memory_recommit k madvise v address sz prot =
     (case gum_try_mprotect k v address sz prot of
        None \<Rightarrow> None
      | Some (success, v) \<Rightarrow>
          (let discarded = (if success \<and> prot = GUM_PAGE_NO_ACCESS then gum_memory_discard madvise address sz else False)
           in Some (True, v)))"

definition gum_query_is_rwx_supported :: bool where
  "gum_query_is_rwx_supported = True"

definition gum_strip_code_pointer :: "gpointer \<Rightarrow> gpointer" where
  "gum_strip_code_pointer v = v"

text \<open>
  \<open>apply_func\<close> is the callback with its data; clearing the instruction cache has no effect on this processor. \<open>None\<close> is the failed assertion
  on an empty range.
\<close>

definition gum_memory_patch_code ::
    "kernel \<Rightarrow> vm \<Rightarrow> gpointer \<Rightarrow> gsize \<Rightarrow> (gpointer \<Rightarrow> memory \<Rightarrow> memory) \<Rightarrow> (bool \<times> vm) option" where
  "gum_memory_patch_code k v address sz apply_func =
     (let address = gum_strip_code_pointer address;
          page_size = gum_query_page_size k;
          start_page = address AND NOT (page_size - 1);
          end_page = (address + sz - 1) AND NOT (page_size - 1);
          range_len = end_page + page_size - start_page;
          protection = (if gum_query_is_rwx_supported then GUM_PAGE_RWX else GUM_PAGE_RW)
      in case gum_try_mprotect k v start_page range_len protection of
           None \<Rightarrow> None
         | Some (success, v) \<Rightarrow>
             if \<not> success then Some (False, v)
             else gum_try_mprotect k (v\<lparr>vm_mem := apply_func address (vm_mem v)\<rparr>) start_page range_len GUM_PAGE_RX)"

definition gum_memory_mark_code :: "kernel \<Rightarrow> vm \<Rightarrow> gpointer \<Rightarrow> gsize \<Rightarrow> (bool \<times> vm) option" where
  "gum_memory_mark_code k v address sz = gum_try_mprotect k v address sz GUM_PAGE_RX"

section \<open>Pages\<close>

lemma page_power:
  assumes "well_behaved k"
  obtains b where "b < 32" "gum_query_page_size k = 2 ^ b" "unat (gum_query_page_size k) = 2 ^ b"
proof -
  from assms obtain b where b: "b < 32" "k_page_size k = 2 ^ b" by (auto simp: well_behaved_def)
  then have "gum_query_page_size k = 2 ^ b"
    by (auto simp: gum_query_page_size_def bit_simps intro!: bit_word_eqI)
  moreover have "unat (2 ^ b :: gsize) = 2 ^ b"
  proof -
    have "(2 :: nat) ^ b < 2 ^ 64" using b(1) by (intro power_strict_increasing) auto
    then have "unat (of_nat (2 ^ b) :: gsize) = 2 ^ b" by (subst unat_of_nat) simp
    then show ?thesis by simp
  qed
  ultimately show thesis using b(1) that by simp
qed

lemma page_start:
  fixes x :: gpointer
  assumes "b < 64"
  shows "unat (x AND NOT (2 ^ b - 1)) = unat x div 2 ^ b * 2 ^ b"
proof -
  have m: "(2 ^ b - 1 :: gpointer) = mask b" by (simp add: mask_eq_exp_minus_1)
  have "(x AND mask b) + (x AND NOT (mask b)) = (x AND mask b) OR (x AND NOT (mask b))"
    by (rule disjunctive_add_eq_or) (auto intro: bit_word_eqI simp: bit_simps)
  also have "\<dots> = x" by (rule bit_word_eqI) (auto simp: bit_simps)
  finally have "x AND NOT (mask b) = x - (x AND mask b)" by (simp add: algebra_simps)
  moreover have "unat (x AND mask b) = unat x mod 2 ^ b" 
    unfolding take_bit_eq_mask [symmetric] unsigned_take_bit_eq by (simp add: take_bit_eq_mod)
  moreover have "unat x mod 2 ^ b \<le> unat x" by simp
  ultimately have "unat (x AND NOT (mask b)) = unat x - unat x mod 2 ^ b" by (simp add: unat_sub_if')
  then show ?thesis unfolding m by (simp add: minus_mod_eq_div_mult)
qed

section \<open>The lines of the memory map\<close>

text \<open>What the kernel writes: ranges of whole pages, in ascending order, that do not overlap.\<close>

definition map_ok :: "kernel \<Rightarrow> map_line list \<Rightarrow> bool" where
  "map_ok k maps \<longleftrightarrow> sorted_wrt (\<lambda>a b. ml_end a \<le> ml_start b) maps \<and>
     (\<forall>l \<in> set maps. ml_start l < ml_end l \<and>
       unat (gum_query_page_size k) dvd unat (ml_start l) \<and> unat (gum_query_page_size k) dvd unat (ml_end l))"

definition line_at :: "map_line list \<Rightarrow> gpointer \<Rightarrow> map_line \<Rightarrow> bool" where
  "line_at maps x l \<longleftrightarrow> l \<in> set maps \<and> ml_start l \<le> x \<and> x < ml_end l"

definition readable :: "map_line list \<Rightarrow> gpointer \<Rightarrow> bool" where
  "readable maps x \<longleftrightarrow> (\<exists>l. line_at maps x l \<and> ml_read l)"

definition writable :: "map_line list \<Rightarrow> gpointer \<Rightarrow> bool" where
  "writable maps x \<longleftrightarrow> (\<exists>l. line_at maps x l \<and> ml_write l)"

lemma line_protection_flags:
  "line_protection l AND GUM_PAGE_READ \<noteq> 0 \<longleftrightarrow> ml_read l" "line_protection l AND GUM_PAGE_WRITE \<noteq> 0 \<longleftrightarrow> ml_write l"
  by (cases "ml_read l"; cases "ml_write l"; cases "ml_exec l";
      simp add: line_protection_def GUM_PAGE_NO_ACCESS_def GUM_PAGE_READ_def GUM_PAGE_WRITE_def GUM_PAGE_EXECUTE_def)+

lemma protection_at_line:
  "sorted_wrt (\<lambda>a b. ml_end a \<le> ml_start b) maps \<Longrightarrow> \<forall>l \<in> set maps. ml_start l < ml_end l \<Longrightarrow>
   protection_at x 1 maps = Some prot \<longleftrightarrow> (\<exists>l. line_at maps x l \<and> prot = line_protection l)"
proof (induction maps)
  case (Cons l ls)
  have later: "\<not> line_at ls x l'" if "x < ml_end l" for l'
    using that Cons.prems(1) by (auto simp: line_at_def)
  have "ml_start l < ml_end l" using Cons.prems(2) by simp
  consider "x < ml_start l" | "ml_start l \<le> x" "x < ml_end l" | "ml_start l \<le> x" "ml_end l \<le> x" by force
  then show ?case
  proof cases
    case 1
    then have "x < ml_end l" using \<open>ml_start l < ml_end l\<close> by simp
    then show ?thesis using 1 later by (auto simp: line_at_def)
  next
    case 2
    then show ?thesis using later by (auto simp: line_at_def)
  next
    case 3
    then show ?thesis using Cons by (auto simp: line_at_def)
  qed
qed (simp add: line_at_def)

lemma same_page_line:
  assumes "map_ok k maps" "unat (gum_query_page_size k) = P" "P dvd unat b" "b \<le> x" "unat x < unat b + P"
  shows "line_at maps x l \<longleftrightarrow> line_at maps b l"
proof -
  have "ml_start l \<le> x \<longleftrightarrow> ml_start l \<le> b" "x < ml_end l \<longleftrightarrow> b < ml_end l" if "l \<in> set maps"
  proof -
    have "P dvd unat (ml_start l)" "P dvd unat (ml_end l)" using assms(1,2) that by (auto simp: map_ok_def)
    then obtain i j h where "unat (ml_start l) = P * i" "unat (ml_end l) = P * j" "unat b = P * h" using assms(3) by (metis dvdE)
    moreover obtain r where r: "unat x = P * h + r" "r < P"
      using assms(4,5) \<open>unat b = P * h\<close> by (metis add_less_cancel_left le_Suc_ex word_le_nat_alt)
    moreover have "P * i \<le> P * h + r \<longleftrightarrow> P * i \<le> P * h" "P * h + r < P * j \<longleftrightarrow> P * h < P * j" for i j
    proof -
      have step: "P * a \<le> P * h + r \<longleftrightarrow> a \<le> h" for a
      proof
        assume "P * a \<le> P * h + r"
        then have "P * a < P * Suc h" using r(2) by simp
        then show "a \<le> h" by (metis less_Suc_eq_le mult_less_cancel1)
      qed (simp add: trans_le_add1)
      show "P * i \<le> P * h + r \<longleftrightarrow> P * i \<le> P * h" using step [of i] r(2) by simp
      show "P * h + r < P * j \<longleftrightarrow> P * h < P * j" using step [of j] r(2) by (simp flip: not_le)
    qed
    ultimately show "ml_start l \<le> x \<longleftrightarrow> ml_start l \<le> b" "x < ml_end l \<longleftrightarrow> b < ml_end l"
      by (simp_all add: word_le_nat_alt word_less_nat_alt)
  qed
  then show ?thesis by (auto simp: line_at_def)
qed

section \<open>Walking over the pages\<close>

lemma flags_and:
  fixes x y f :: GumPageProtection
  assumes "f = GUM_PAGE_READ \<or> f = GUM_PAGE_WRITE"
  shows "(x AND y) AND f \<noteq> 0 \<longleftrightarrow> x AND f \<noteq> 0 \<and> y AND f \<noteq> 0"
proof -
  have one: "x AND 1 \<noteq> 0 \<longleftrightarrow> bit x 0" for x :: guint32 by (simp add: and_one_eq bit_0 odd_iff_mod_2_eq_one)
  have two: "x AND 2 \<noteq> 0 \<longleftrightarrow> bit x 1" for x :: guint32
  proof -
    have "(2 :: guint32) = 2 ^ 1" by simp
    then show ?thesis using and_exp_eq_0_iff_not_bit [of x 1] by metis
  qed
  show ?thesis using assms unfolding GUM_PAGE_READ_def GUM_PAGE_WRITE_def by (metis one two bit_and_iff)
qed

text \<open>The walk ends behind its last page or before a page that it cannot take: one that is not mapped, or that has no access.\<close>

lemma walk_pages_result:
  assumes "walk_pages maps ps cur n sz prot = (sz', prot')"
  shows "\<exists>d \<le> n. sz' = sz + of_nat d * ps \<and>
    (\<forall>j < d. \<exists>q. protection_at (cur + of_nat j * ps) 1 maps = Some q) \<and>
    (\<forall>f. f = GUM_PAGE_READ \<or> f = GUM_PAGE_WRITE \<longrightarrow>
      (prot' AND f \<noteq> 0 \<longleftrightarrow> prot AND f \<noteq> 0 \<and> (\<forall>j < d. \<forall>q. protection_at (cur + of_nat j * ps) 1 maps = Some q \<longrightarrow> q AND f \<noteq> 0))) \<and>
    (d < n \<longrightarrow> protection_at (cur + of_nat d * ps) 1 maps \<in> {None, Some 0})"
  using assms
proof (induction n arbitrary: cur sz prot)
  case 0
  then show ?case by simp
next
  case (Suc n)
  show ?case
  proof (cases "\<exists>q. protection_at cur 1 maps = Some q \<and> (q \<noteq> 0 \<or> prot = 0)")
    case False
    then have "protection_at cur 1 maps \<in> {None, Some 0}" "sz' = sz" "prot' = prot"
      using Suc.prems by (auto simp: GUM_PAGE_NO_ACCESS_def split: option.splits if_splits)
    then show ?thesis by (intro exI [of _ 0]) simp
  next
    case True
    then obtain q where q: "protection_at cur 1 maps = Some q" "q \<noteq> 0 \<or> prot = 0" by blast
    then have "walk_pages maps ps (cur + ps) n (sz + ps) (prot AND q) = (sz', prot')"
      using Suc.prems by (simp add: GUM_PAGE_NO_ACCESS_def)
    from Suc.IH [OF this] obtain d where d: "d \<le> n" "sz' = sz + ps + of_nat d * ps"
      "\<forall>j < d. \<exists>q. protection_at (cur + ps + of_nat j * ps) 1 maps = Some q"
      "\<forall>f. f = GUM_PAGE_READ \<or> f = GUM_PAGE_WRITE \<longrightarrow> (prot' AND f \<noteq> 0 \<longleftrightarrow> (prot AND q) AND f \<noteq> 0 \<and>
        (\<forall>j < d. \<forall>q. protection_at (cur + ps + of_nat j * ps) 1 maps = Some q \<longrightarrow> q AND f \<noteq> 0))"
      "d < n \<longrightarrow> protection_at (cur + ps + of_nat d * ps) 1 maps \<in> {None, Some 0}" by blast
    have next_page: "cur + ps + of_nat j * ps = cur + of_nat (Suc j) * ps" for j by (simp add: algebra_simps)
    have flags: "prot' AND f \<noteq> 0 \<longleftrightarrow> prot AND f \<noteq> 0 \<and>
        (\<forall>j < Suc d. \<forall>q. protection_at (cur + of_nat j * ps) 1 maps = Some q \<longrightarrow> q AND f \<noteq> 0)"
      if "f = GUM_PAGE_READ \<or> f = GUM_PAGE_WRITE" for f
      using d(4) [rule_format, OF that] q(1) unfolding flags_and [OF that] All_less_Suc2 next_page by auto
    have "\<forall>j < Suc d. \<exists>q. protection_at (cur + of_nat j * ps) 1 maps = Some q"
      using d(3) q(1) unfolding All_less_Suc2 next_page by simp
    moreover have "Suc d < Suc n \<longrightarrow> protection_at (cur + of_nat (Suc d) * ps) 1 maps \<in> {None, Some 0}"
      using d(5) unfolding next_page by simp
    moreover have "sz' = sz + of_nat (Suc d) * ps" using d(2) by (simp add: algebra_simps)
    ultimately show ?thesis using d(1) flags by (intro exI [of _ "Suc d"]) blast
  qed
qed

section \<open>The protection of a range is that of its addresses\<close>

definition allows :: "map_line list \<Rightarrow> GumPageProtection \<Rightarrow> gpointer \<Rightarrow> bool" where
  "allows maps f x \<longleftrightarrow> (\<exists>l. line_at maps x l \<and> line_protection l AND f \<noteq> 0)"

lemma allows_flags: "allows maps GUM_PAGE_READ x = readable maps x" "allows maps GUM_PAGE_WRITE x = writable maps x"
  by (simp_all add: allows_def readable_def writable_def line_protection_flags)

lemma allows_page:
  assumes "map_ok k maps" "unat (gum_query_page_size k) dvd unat b" "b \<le> x" "unat x < unat b + unat (gum_query_page_size k)"
  shows "allows maps f x \<longleftrightarrow> (\<exists>q. protection_at b 1 maps = Some q \<and> q AND f \<noteq> 0)"
proof -
  have s: "sorted_wrt (\<lambda>a b. ml_end a \<le> ml_start b) maps" "\<forall>l \<in> set maps. ml_start l < ml_end l"
    using assms(1) by (auto simp: map_ok_def)
  show ?thesis using protection_at_line [OF s, of b] same_page_line [OF assms(1) refl assms(2-4)] by (auto simp: allows_def)
qed

lemma allows_address:
  assumes "map_ok k maps"
  shows "allows maps f x \<longleftrightarrow> (\<exists>q. protection_at x 1 maps = Some q \<and> q AND f \<noteq> 0)"
proof -
  have s: "sorted_wrt (\<lambda>a b. ml_end a \<le> ml_start b) maps" "\<forall>l \<in> set maps. ml_start l < ml_end l"
    using assms by (auto simp: map_ok_def)
  show ?thesis using protection_at_line [OF s, of x] by (auto simp: allows_def)
qed

text \<open>The pages of a range, by number, and whether the start of a page has an access.\<close>

definition first_page :: "kernel \<Rightarrow> gpointer \<Rightarrow> nat" where
  "first_page k address = unat address div unat (gum_query_page_size k)"

definition last_page :: "kernel \<Rightarrow> gpointer \<Rightarrow> gsize \<Rightarrow> nat" where
  "last_page k address len = (unat address + unat len - 1) div unat (gum_query_page_size k)"

definition page_base :: "kernel \<Rightarrow> nat \<Rightarrow> gpointer" where
  "page_base k i = of_nat i * gum_query_page_size k"

definition page_allows :: "kernel \<Rightarrow> map_line list \<Rightarrow> GumPageProtection \<Rightarrow> nat \<Rightarrow> bool" where
  "page_allows k maps f i \<longleftrightarrow> (\<exists>q. protection_at (page_base k i) 1 maps = Some q \<and> q AND f \<noteq> 0)"

definition below_top :: "kernel \<Rightarrow> gpointer \<Rightarrow> gsize \<Rightarrow> bool" where
  "below_top k address len \<longleftrightarrow> unat address + unat len + unat (gum_query_page_size k) \<le> 2 ^ 64"

lemma page_range:
  assumes "well_behaved k" "0 < len" "below_top k address len"
  defines "P \<equiv> unat (gum_query_page_size k)" and "S \<equiv> first_page k address" and "E \<equiv> last_page k address len"
  shows "0 < P" "S \<le> E" "S * P \<le> unat address" "unat address < S * P + P"
    "E * P < unat address + unat len" "unat address + unat len \<le> E * P + P" "i \<le> E \<Longrightarrow> unat (page_base k i) = i * P"
proof -
  obtain b where "P = 2 ^ b" unfolding P_def by (rule page_power [OF assms(1)])
  then show P: "0 < P" by simp
  have n: "0 < unat len" using assms(2) by (simp add: word_less_nat_alt)
  show "S \<le> E" unfolding S_def E_def first_page_def last_page_def by (rule div_le_mono) (use n in simp)
  show "S * P \<le> unat address" "unat address < S * P + P"
    using dividend_less_div_times [OF P, of "unat address"] by (simp_all add: S_def first_page_def P_def [symmetric] add.commute)
  have "E * P \<le> unat address + unat len - 1" "unat address + unat len - 1 < E * P + P"
    using dividend_less_div_times [OF P, of "unat address + unat len - 1"]
    by (simp_all add: E_def last_page_def P_def [symmetric] add.commute)
  then show E: "E * P < unat address + unat len" "unat address + unat len \<le> E * P + P" using n by simp_all
  assume "i \<le> E"
  then have "i * P \<le> E * P" by simp
  then have "i * P < 2 ^ 64" by (rule le_less_trans) (use E(1) assms(3) P in \<open>simp add: below_top_def P_def\<close>)
  then have "unat (of_nat (i * P) :: gpointer) = i * P" by (simp add: unat_of_nat del: of_nat_mult)
  then show "unat (page_base k i) = i * P" by (simp add: page_base_def P_def)
qed

lemma page_ends:
  assumes "well_behaved k" "0 < len" "below_top k address len"
  shows "address AND NOT (gum_query_page_size k - 1) = page_base k (first_page k address)"
    "(address + len - 1) AND NOT (gum_query_page_size k - 1) = page_base k (last_page k address len)"
    "unat ((page_base k (last_page k address len) - page_base k (first_page k address)) div gum_query_page_size k) =
       last_page k address len - first_page k address"
proof -
  note r = page_range [OF assms]
  obtain b where b: "b < 32" "gum_query_page_size k = 2 ^ b" "unat (gum_query_page_size k) = 2 ^ b" by (rule page_power [OF assms(1)])
  have "unat (address + len - 1) = unat address + unat len - 1"
  proof -
    have "unat (address + len) = unat address + unat len" using assms(3) r(1) by (simp add: below_top_def unat_word_ariths)
    moreover have "address + len \<noteq> 0" using calculation assms(2) by (auto simp: word_less_nat_alt)
    ultimately show ?thesis by (simp add: unat_minus_one)
  qed
  moreover have "unat (x AND NOT (gum_query_page_size k - 1)) = unat x div unat (gum_query_page_size k) * unat (gum_query_page_size k)" for x
    using page_start [of b x] b by simp
  ultimately show "address AND NOT (gum_query_page_size k - 1) = page_base k (first_page k address)"
    "(address + len - 1) AND NOT (gum_query_page_size k - 1) = page_base k (last_page k address len)"
    using r(2) r(7) [OF r(2)] r(7) [OF order_refl] by (simp_all add: word_unat_eq_iff first_page_def last_page_def)
  have "unat (page_base k (last_page k address len) - page_base k (first_page k address)) =
      (last_page k address len - first_page k address) * unat (gum_query_page_size k)"
    using r(2) r(7) [OF r(2)] r(7) [OF order_refl] by (simp add: unat_sub_if' diff_mult_distrib)
  then show "unat ((page_base k (last_page k address len) - page_base k (first_page k address)) div gum_query_page_size k) =
      last_page k address len - first_page k address" using r(1) by (simp add: unat_div)
qed

lemma get_protection_walk:
  assumes "well_behaved k" "1 < len" "below_top k address len"
  defines "P \<equiv> unat (gum_query_page_size k)" and "S \<equiv> first_page k address" and "E \<equiv> last_page k address len"
  shows "protection_at (page_base k S) 1 maps = None \<Longrightarrow> gum_memory_get_protection k maps address len = None"
    "protection_at (page_base k S) 1 maps \<noteq> None \<Longrightarrow> \<exists>e sz prot. S \<le> e \<and> e \<le> E \<and>
       gum_memory_get_protection k maps address len = Some (sz, prot) \<and> sz \<le> len \<and>
       unat sz = (if e = E then unat len else Suc e * P - unat address) \<and>
       (\<forall>f. f = GUM_PAGE_READ \<or> f = GUM_PAGE_WRITE \<longrightarrow> (prot AND f \<noteq> 0 \<longleftrightarrow> (\<forall>i. S \<le> i \<and> i \<le> e \<longrightarrow> page_allows k maps f i))) \<and>
       (e < E \<longrightarrow> (\<forall>f. \<not> page_allows k maps f (Suc e)))"
proof -
  let ?ps = "gum_query_page_size k"
  have len: "0 < len" using assms(2) by (simp add: word_less_nat_alt)
  note r = page_range [OF assms(1) len assms(3), folded P_def S_def E_def]
  have suc: "page_base k S + ?ps + of_nat j * ?ps = page_base k (S + Suc j)" for j by (simp add: page_base_def algebra_simps)
  have whole: "gum_memory_get_protection k maps address len =
      (case protection_at (page_base k S) 1 maps of None \<Rightarrow> None
       | Some prot \<Rightarrow> (let (sz, prot) = walk_pages maps ?ps (page_base k S + ?ps) (E - S) (?ps - (address - page_base k S)) prot in Some (min sz len, prot)))"
    using assms(2) unfolding gum_memory_get_protection_def Let_def page_ends [OF assms(1) len assms(3), folded S_def E_def] by simp
  show "protection_at (page_base k S) 1 maps = None \<Longrightarrow> gum_memory_get_protection k maps address len = None" by (simp add: whole)
  assume "protection_at (page_base k S) 1 maps \<noteq> None"
  then obtain prot0 where p0: "protection_at (page_base k S) 1 maps = Some prot0" by blast
  obtain sz prot where w: "walk_pages maps ?ps (page_base k S + ?ps) (E - S) (?ps - (address - page_base k S)) prot0 = (sz, prot)" by fastforce
  from walk_pages_result [OF w, unfolded suc] obtain d where d: "d \<le> E - S" "sz = ?ps - (address - page_base k S) + of_nat d * ?ps"
    "\<forall>j < d. \<exists>q. protection_at (page_base k (S + Suc j)) 1 maps = Some q"
    "\<forall>f. f = GUM_PAGE_READ \<or> f = GUM_PAGE_WRITE \<longrightarrow> (prot AND f \<noteq> 0 \<longleftrightarrow>
      prot0 AND f \<noteq> 0 \<and> (\<forall>j < d. \<forall>q. protection_at (page_base k (S + Suc j)) 1 maps = Some q \<longrightarrow> q AND f \<noteq> 0))"
    "d < E - S \<longrightarrow> protection_at (page_base k (S + Suc d)) 1 maps \<in> {None, Some 0}" by blast
  have split: "(\<forall>i. S \<le> i \<and> i \<le> S + d \<longrightarrow> Q i) \<longleftrightarrow> Q S \<and> (\<forall>j < d. Q (S + Suc j))" for Q
  proof -
    have "i = S \<or> (\<exists>j < d. i = S + Suc j)" if "S \<le> i" "i \<le> S + d" for i
      using that by (cases "i = S") (auto intro: exI [of _ "i - S - 1"])
    then show ?thesis by fastforce
  qed
  have flags: "prot AND f \<noteq> 0 \<longleftrightarrow> (\<forall>i. S \<le> i \<and> i \<le> S + d \<longrightarrow> page_allows k maps f i)" if "f = GUM_PAGE_READ \<or> f = GUM_PAGE_WRITE" for f
    using d(4) [rule_format, OF that] p0 d(3) unfolding split page_allows_def by fastforce
  have "(S + d) * P \<le> E * P" using d(1) r(2) by (intro mult_le_mono1) simp
  moreover have "Suc (S + d) * P = (S + d) * P + P" by simp
  ultimately have "Suc (S + d) * P < 2 ^ 64" using r(5) assms(3) [unfolded below_top_def, folded P_def] by linarith
  then have fit: "Suc (S + d) * P - unat address < 2 ^ 64" by linarith
  have "sz = of_nat (Suc (S + d)) * ?ps - address" by (simp add: d(2) page_base_def algebra_simps)
  also have "\<dots> = of_nat (Suc (S + d) * P - unat address)" using r(4) by (simp add: of_nat_diff P_def algebra_simps)
  finally have sz: "unat sz = Suc (S + d) * P - unat address" using fit by (simp add: unat_of_nat del: of_nat_mult of_nat_add of_nat_Suc)
  have reach: "unat len \<le> unat sz" if "S + d = E" using sz r(6) that by (simp add: algebra_simps)
  have miss: "unat sz < unat len" if "S + d \<noteq> E"
  proof -
    have "Suc (S + d) \<le> E" using that d(1) r(2) by simp
    then have "Suc (S + d) * P \<le> E * P" by (rule mult_le_mono1)
    then show ?thesis using sz r(4,5) by (simp add: algebra_simps)
  qed
  have "unat (min sz len) = min (unat sz) (unat len)" by (simp add: min_def word_le_nat_alt)
  then have "unat (min sz len) = (if S + d = E then unat len else Suc (S + d) * P - unat address)"
    unfolding sz [symmetric] using reach miss by (cases "S + d = E") (simp_all add: min_def)
  moreover have "S + d < E \<longrightarrow> (\<forall>f. \<not> page_allows k maps f (Suc (S + d)))" using d(5) by (auto simp: page_allows_def)
  moreover have "gum_memory_get_protection k maps address len = Some (min sz len, prot)" by (simp add: whole p0 w)
  ultimately show "\<exists>e sz prot. S \<le> e \<and> e \<le> E \<and>
       gum_memory_get_protection k maps address len = Some (sz, prot) \<and> sz \<le> len \<and>
       unat sz = (if e = E then unat len else Suc e * P - unat address) \<and>
       (\<forall>f. f = GUM_PAGE_READ \<or> f = GUM_PAGE_WRITE \<longrightarrow> (prot AND f \<noteq> 0 \<longleftrightarrow> (\<forall>i. S \<le> i \<and> i \<le> e \<longrightarrow> page_allows k maps f i))) \<and>
       (e < E \<longrightarrow> (\<forall>f. \<not> page_allows k maps f (Suc e)))"
    using flags d(1) r(2) by (intro exI [of _ "S + d"] exI [of _ "min sz len"] exI [of _ prot] conjI) (simp_all add: min_le_iff_disj)
qed

lemma get_protection_ok:
  assumes "map_ok k maps" "well_behaved k" "0 < len" "below_top k address len" and f: "f = GUM_PAGE_READ \<or> f = GUM_PAGE_WRITE"
  shows "gum_memory_get_protection k maps address len = Some (sz, prot) \<Longrightarrow> prot AND f \<noteq> 0 \<Longrightarrow>
      sz \<le> len \<and> (\<forall>x. address \<le> x \<and> unat x < unat address + unat sz \<longrightarrow> allows maps f x)"
    "(\<forall>x. address \<le> x \<and> unat x < unat address + unat len \<longrightarrow> allows maps f x) \<Longrightarrow>
      \<exists>prot. gum_memory_get_protection k maps address len = Some (len, prot) \<and> prot AND f \<noteq> 0"
proof -
  define P S E where "P = unat (gum_query_page_size k)" and "S = first_page k address" and "E = last_page k address len"
  note r = page_range [OF assms(2-4), folded P_def S_def E_def]
  have page: "allows maps f x \<longleftrightarrow> page_allows k maps f i" if "i \<le> E" "i * P \<le> unat x" "unat x < i * P + P" for x i
    unfolding page_allows_def using that r(7) [OF that(1)] by (intro allows_page [OF assms(1)]) (simp_all add: P_def word_le_nat_alt)
  have page_of: "\<exists>i. S \<le> i \<and> i * P \<le> unat x \<and> unat x < i * P + P" if "address \<le> x" for x
    using that dividend_less_div_times [OF r(1), of "unat x"]
    by (intro exI [of _ "unat x div P"]) (simp add: S_def first_page_def P_def [symmetric] div_le_mono word_le_nat_alt add.commute)
  have less: "i * P < j * P \<Longrightarrow> i < j" for i j by simp
  consider (one) "unat len = 1" | (more) "1 < unat len" using assms(3) by (fastforce simp: word_less_nat_alt)
  then have both: "(gum_memory_get_protection k maps address len = Some (sz, prot) \<longrightarrow> prot AND f \<noteq> 0 \<longrightarrow>
      sz \<le> len \<and> (\<forall>x. address \<le> x \<and> unat x < unat address + unat sz \<longrightarrow> allows maps f x)) \<and>
    ((\<forall>x. address \<le> x \<and> unat x < unat address + unat len \<longrightarrow> allows maps f x) \<longrightarrow>
      (\<exists>prot. gum_memory_get_protection k maps address len = Some (len, prot) \<and> prot AND f \<noteq> 0))"
  proof cases
    case one
    then have one: "len = 1" by (simp add: word_unat_eq_iff)
    then have g: "gum_memory_get_protection k maps address len = map_option (\<lambda>prot. (1, prot)) (protection_at address 1 maps)"
      by (simp add: gum_memory_get_protection_def)
    have "x = address" if "address \<le> x" "unat x < unat address + 1" for x
    proof -
      have "unat x = unat address" using that by (simp add: word_le_nat_alt)
      then show ?thesis by (simp add: word_unat_eq_iff)
    qed
    then show ?thesis using allows_address [OF assms(1), of f address] one unfolding g by auto
  next
    case more
    then have "1 < len" by (simp add: word_less_nat_alt)
    note walk = get_protection_walk [OF assms(2) this assms(4), folded P_def S_def E_def]
    show ?thesis
    proof (cases "protection_at (page_base k S) 1 maps")
      case None
      then have "\<not> allows maps f address" using page [OF r(2,3,4)] by (simp add: page_allows_def)
      then show ?thesis using walk(1) [OF None] assms(3) by (auto simp: word_less_nat_alt)
    next
      case (Some q)
      then obtain e sz' prot' where e: "S \<le> e" "e \<le> E" "gum_memory_get_protection k maps address len = Some (sz', prot')" "sz' \<le> len"
        "unat sz' = (if e = E then unat len else Suc e * P - unat address)"
        "prot' AND f \<noteq> 0 \<longleftrightarrow> (\<forall>i. S \<le> i \<and> i \<le> e \<longrightarrow> page_allows k maps f i)" "e < E \<longrightarrow> \<not> page_allows k maps f (Suc e)"
        using walk(2) f by (metis option.distinct(1))
      have inside: "allows maps f x" if "prot' AND f \<noteq> 0" "address \<le> x" "unat x < unat address + unat sz'" for x
      proof -
        note x = that
        obtain i where i: "S \<le> i" "i * P \<le> unat x" "unat x < i * P + P" using page_of [OF x(2)] by blast
        have "unat x < Suc e * P" using that(2,3) e(5) r(6) by (auto simp: word_le_nat_alt split: if_splits)
        then have "i \<le> e" using less [of i "Suc e"] i(2) by simp
        then show ?thesis using page [OF _ i(2,3)] e(2,6) that(1) i(1) by simp
      qed
      have complete: "e = E \<and> prot' AND f \<noteq> 0" if all: "\<forall>x. address \<le> x \<and> unat x < unat address + unat len \<longrightarrow> allows maps f x"
      proof -
        have pages: "page_allows k maps f i" if "S \<le> i" "i \<le> E" for i
        proof (cases "i = S")
          case True
          then show ?thesis using all page [OF r(2,3,4)] assms(3) by (auto simp: word_less_nat_alt)
        next
          case False
          then have "Suc S * P \<le> i * P" using that(1) by (intro mult_le_mono1) simp
          then have "unat address \<le> i * P" using r(4) by simp
          moreover have "i * P < unat address + unat len" using that(2) r(5) by (meson le_less_trans mult_le_mono1)
          ultimately have "allows maps f (page_base k i)" using all r(7) [OF that(2)] by (simp add: word_le_nat_alt)
          then show ?thesis using page [OF that(2)] r(1) r(7) [OF that(2)] by simp
        qed
        then have "\<not> e < E" using e(1,7) by auto
        then show ?thesis using e(1,2,6) pages by auto
      qed
      have "e = E \<Longrightarrow> sz' = len" using e(5) by (simp add: word_unat_eq_iff)
      then show ?thesis using inside complete e(4) unfolding e(3) by (metis option.inject prod.inject)
    qed
  qed
  then show "gum_memory_get_protection k maps address len = Some (sz, prot) \<Longrightarrow> prot AND f \<noteq> 0 \<Longrightarrow>
      sz \<le> len \<and> (\<forall>x. address \<le> x \<and> unat x < unat address + unat sz \<longrightarrow> allows maps f x)"
    "(\<forall>x. address \<le> x \<and> unat x < unat address + unat len \<longrightarrow> allows maps f x) \<Longrightarrow>
      \<exists>prot. gum_memory_get_protection k maps address len = Some (len, prot) \<and> prot AND f \<noteq> 0" by blast+
qed

lemma checked_access:
  assumes "map_ok k maps" "well_behaved k" "0 < len" "below_top k address len" and f: "f = GUM_PAGE_READ \<or> f = GUM_PAGE_WRITE"
  shows "(case gum_memory_get_protection k maps address len of None \<Rightarrow> False | Some (sz, prot) \<Rightarrow> len \<le> sz \<and> prot AND f \<noteq> 0) \<longleftrightarrow>
    (\<forall>x. address \<le> x \<and> unat x < unat address + unat len \<longrightarrow> allows maps f x)"
proof (cases "gum_memory_get_protection k maps address len")
  case None
  then show ?thesis using get_protection_ok(2) [OF assms] by auto
next
  case (Some a)
  then obtain sz prot where g: "gum_memory_get_protection k maps address len = Some (sz, prot)" by (cases a) simp
  note sound = get_protection_ok(1) [OF assms g] and complete = get_protection_ok(2) [OF assms, unfolded g]
  show ?thesis
  proof
    assume "case gum_memory_get_protection k maps address len of None \<Rightarrow> False | Some (sz, prot) \<Rightarrow> len \<le> sz \<and> prot AND f \<noteq> 0"
    then have "len \<le> sz" "prot AND f \<noteq> 0" by (simp_all add: g)
    then show "\<forall>x. address \<le> x \<and> unat x < unat address + unat len \<longrightarrow> allows maps f x"
      using sound by (metis antisym)
  next
    assume "\<forall>x. address \<le> x \<and> unat x < unat address + unat len \<longrightarrow> allows maps f x"
    from complete [OF this] show "case gum_memory_get_protection k maps address len of None \<Rightarrow> False
      | Some (sz, prot) \<Rightarrow> len \<le> sz \<and> prot AND f \<noteq> 0" by (auto simp: g)
  qed
qed

lemma read_ok:
  assumes "map_ok k maps" "well_behaved k" "0 < len" "below_top k address len" "gum_memory_read k maps m address len = (res, n)"
  shows "case res of None \<Rightarrow> n = 0 \<and> \<not> gum_memory_is_readable k maps address len
     | Some bytes \<Rightarrow> n \<le> len \<and> bytes = read_bytes m address (unat n) \<and>
         (\<forall>x. address \<le> x \<and> unat x < unat address + unat n \<longrightarrow> readable maps x) \<and>
         (gum_memory_is_readable k maps address len \<longrightarrow> n = len)"
proof (cases "gum_memory_get_protection k maps address len")
  case None
  then show ?thesis using assms(5) by (auto simp: gum_memory_read_def gum_memory_is_readable_def)
next
  case (Some a)
  then obtain sz prot where g: "gum_memory_get_protection k maps address len = Some (sz, prot)" by (cases a) simp
  note sound = get_protection_ok(1) [OF assms(1-4) _ g, of GUM_PAGE_READ, unfolded allows_flags]
  show ?thesis
  proof (cases "prot AND GUM_PAGE_READ = 0")
    case True
    then show ?thesis using assms(5) by (auto simp: gum_memory_read_def gum_memory_is_readable_def g)
  next
    case False
    then have s: "sz \<le> len" "\<forall>x. address \<le> x \<and> unat x < unat address + unat sz \<longrightarrow> readable maps x" using sound by simp_all
    then have "res = Some (read_bytes m address (unat sz))" "n = sz"
      using assms(5) False by (auto simp: gum_memory_read_def g Let_def min_def split: if_splits)
    then show ?thesis using s by (auto simp: gum_memory_is_readable_def g)
  qed
qed

lemma mprotect_pages:
  assumes "well_behaved k" "0 < n" "(i + n) * unat (gum_query_page_size k) \<le> 2 ^ 64" "n * unat (gum_query_page_size k) < 2 ^ 64"
  shows "gum_try_mprotect k v (page_base k i) (of_nat n * gum_query_page_size k) prot =
    (let posix_prot = gum_page_protection_to_posix prot; start = page_base k i; len = of_nat n * gum_query_page_size k
     in if k_mprotect k (vm_log v) start len posix_prot
        then Some (True, v\<lparr>vm_log := Mprotect start len posix_prot # vm_log v\<rparr>) else Some (False, v))"
proof -
  let ?ps = "gum_query_page_size k"
  obtain b where b: "b < 32" "?ps = 2 ^ b" "unat ?ps = 2 ^ b" by (rule page_power [OF assms(1)])
  have P: "0 < unat ?ps" using b(3) by simp
  have len: "unat (of_nat n * ?ps) = n * unat ?ps"
  proof -
    have "of_nat n * ?ps = of_nat (n * unat ?ps)" by simp
    also have "unat (of_nat (n * unat ?ps) :: gpointer) = n * unat ?ps" using assms(4) by (subst unat_of_nat) simp
    finally show ?thesis .
  qed
  then have pos: "of_nat n * ?ps \<noteq> 0" using assms(2) P by auto
  have start: "page_base k i AND NOT (?ps - 1) = page_base k i"
  proof -
    have "i * unat ?ps < (i + n) * unat ?ps" using assms(2) P by simp
    then have "i * unat ?ps < 2 ^ 64" using assms(3) by (rule less_le_trans)
    then have "unat (of_nat (i * unat ?ps) :: gpointer) = i * unat ?ps" by (subst unat_of_nat) simp
    then have "unat (page_base k i) = i * 2 ^ b" using b(2,3) by (simp add: page_base_def)
    then have "unat (page_base k i AND NOT (?ps - 1)) = unat (page_base k i)" using page_start [of b "page_base k i"] b(1,2) by simp
    then show ?thesis by (simp add: word_unat_eq_iff)
  qed
  have "unat (of_nat n * ?ps - 1) = n * unat ?ps - 1" using pos len by (simp add: unat_minus_one)
  moreover have "(n * unat ?ps - 1) div unat ?ps = n - 1"
  proof -
    have "n * unat ?ps - 1 = (n - 1) * unat ?ps + (unat ?ps - 1)" using assms(2) P by (cases n) simp_all
    moreover have "((n - 1) * unat ?ps + (unat ?ps - 1)) div unat ?ps = n - 1" using P by (subst div_mult_self3) simp_all
    ultimately show ?thesis by (simp only:)
  qed
  ultimately have "unat ((of_nat n * ?ps - 1) div ?ps) = n - 1" by (simp add: unat_div)
  moreover have "x = of_nat (unat x)" for x :: gpointer by simp
  ultimately have "(of_nat n * ?ps - 1) div ?ps = of_nat (n - 1)" by metis
  then have size: "(1 + (page_base k i + of_nat n * ?ps - 1 - page_base k i) div ?ps) * ?ps = of_nat n * ?ps"
    using assms(2) by (simp add: of_nat_diff Suc_le_eq algebra_simps)
  show ?thesis unfolding gum_try_mprotect_def Let_def start size using pos by simp
qed

section \<open>Properties\<close>

text \<open>
  C29: Checked access respects the protection of memory. For a range that is not empty and does not reach the last page, on a kernel
  that maps whole pages: a range is readable or writable exactly if each of its addresses is; reading returns bytes only from the
  start of the range as far as they are readable, and all of them if all are; and writing is done exactly if all are writable.
\<close>

theorem memory_access_exact:
  assumes "map_ok k maps" and "well_behaved k" and "0 < len" and "below_top k address len"
  shows "(gum_memory_is_readable k maps address len \<longleftrightarrow>
      (\<forall>x. address \<le> x \<and> unat x < unat address + unat len \<longrightarrow> readable maps x)) \<and>
    (\<forall>m. case gum_memory_read k maps m address len of
       (None, n) \<Rightarrow> n = 0 \<and> \<not> gum_memory_is_readable k maps address len
     | (Some bytes, n) \<Rightarrow> n \<le> len \<and> bytes = read_bytes m address (unat n) \<and>
         (\<forall>x. address \<le> x \<and> unat x < unat address + unat n \<longrightarrow> readable maps x) \<and>
         (gum_memory_is_readable k maps address len \<longrightarrow> n = len)) \<and>
    (\<forall>m bytes. length bytes = unat len \<longrightarrow> gum_memory_write k maps m address bytes =
      (if \<forall>x. address \<le> x \<and> unat x < unat address + unat len \<longrightarrow> writable maps x
       then (True, write_bytes m address bytes) else (False, m)))"
proof (intro conjI allI impI)
  show "gum_memory_is_readable k maps address len \<longleftrightarrow> (\<forall>x. address \<le> x \<and> unat x < unat address + unat len \<longrightarrow> readable maps x)"
    using checked_access [OF assms, of GUM_PAGE_READ] by (simp add: gum_memory_is_readable_def allows_flags)
next
  fix m
  show "case gum_memory_read k maps m address len of
       (None, n) \<Rightarrow> n = 0 \<and> \<not> gum_memory_is_readable k maps address len
     | (Some bytes, n) \<Rightarrow> n \<le> len \<and> bytes = read_bytes m address (unat n) \<and>
         (\<forall>x. address \<le> x \<and> unat x < unat address + unat n \<longrightarrow> readable maps x) \<and>
         (gum_memory_is_readable k maps address len \<longrightarrow> n = len)"
    using read_ok [OF assms, of m] by (auto split: prod.splits option.splits)
next
  fix m and bytes :: "guint8 list"
  assume "length bytes = unat len"
  then have "of_nat (length bytes) = len" by simp
  then show "gum_memory_write k maps m address bytes =
      (if \<forall>x. address \<le> x \<and> unat x < unat address + unat len \<longrightarrow> writable maps x
       then (True, write_bytes m address bytes) else (False, m))"
    using checked_access [OF assms, of GUM_PAGE_WRITE] by (simp add: gum_memory_write_def gum_memory_is_writable_def allows_flags)
qed

text \<open>Two mapped pages, of which the second is not readable.\<close>

definition sample_map :: "map_line list" where
  "sample_map = [\<lparr>ml_start = 0x1000, ml_end = 0x2000, ml_read = True, ml_write = True, ml_exec = False\<rparr>,
     \<lparr>ml_start = 0x2000, ml_end = 0x3000, ml_read = False, ml_write = False, ml_exec = False\<rparr>]"

theorem memory_access_exact_witness:
  "gum_memory_is_readable (sample_kernel 0x7000) sample_map 0x1ff0 0x10 \<and>
   \<not> gum_memory_is_readable (sample_kernel 0x7000) sample_map 0x1ff0 0x11"
proof -
  have ps: "unat (gum_query_page_size (sample_kernel 0x7000)) = 0x1000" by (simp add: gum_query_page_size_def sample_kernel_def)
  have ok: "map_ok (sample_kernel 0x7000) sample_map" by (simp add: map_ok_def ps sample_map_def)
  have wb: "well_behaved (sample_kernel 0x7000)" by (rule sample_kernel_well_behaved) simp_all
  have "readable maps x \<longleftrightarrow> list_ex (\<lambda>l. ml_start l \<le> x \<and> x < ml_end l \<and> ml_read l) maps" for maps x
    unfolding readable_def line_at_def list_ex_iff by blast
  then have line: "readable sample_map x \<longleftrightarrow> 0x1000 \<le> x \<and> x < 0x2000" for x by (simp add: sample_map_def)
  have "below_top (sample_kernel 0x7000) 0x1ff0 0x10" "below_top (sample_kernel 0x7000) 0x1ff0 0x11" by (simp_all add: below_top_def ps)
  note below = this
  have "(0 :: gsize) < 0x10" "(0 :: gsize) < 0x11" by simp_all
  note exact = memory_access_exact [OF ok wb this(1) below(1), THEN conjunct1] memory_access_exact [OF ok wb this(2) below(2), THEN conjunct1]
  have a: "gum_memory_is_readable (sample_kernel 0x7000) sample_map 0x1ff0 0x10 \<longleftrightarrow> (\<forall>x. 0x1ff0 \<le> x \<and> unat x < 0x2000 \<longrightarrow> readable sample_map x)"
    unfolding exact(1) by simp
  have b: "gum_memory_is_readable (sample_kernel 0x7000) sample_map 0x1ff0 0x11 \<longleftrightarrow> (\<forall>x. 0x1ff0 \<le> x \<and> unat x < 0x2001 \<longrightarrow> readable sample_map x)"
    unfolding exact(2) by simp
  have "readable sample_map x" if "0x1ff0 \<le> x" "unat x < 0x2000" for x
    using that unfolding line by (simp add: word_le_nat_alt word_less_nat_alt)
  moreover have "\<not> (\<forall>x. 0x1ff0 \<le> x \<and> unat x < 0x2001 \<longrightarrow> readable sample_map x)"
  proof
    assume "\<forall>x. 0x1ff0 \<le> x \<and> unat x < 0x2001 \<longrightarrow> readable sample_map x"
    then have "readable sample_map 0x2000" by (rule allE [of _ "0x2000"]) simp
    then show False by (simp add: line)
  qed
  ultimately show ?thesis unfolding a b by blast
qed

text \<open>
  C30: Patching code. The pages that a range touches, and no others, are made writable for the callback and then read-only and
  executable again; the callback runs only if the first step succeeds, its changes stay even if the second one fails, and the
  answer is whether both succeeded.
\<close>

theorem patch_code_pages:
  assumes "well_behaved k" and "0 < sz" and "below_top k address sz"
    and "start = page_base k (first_page k address)"
    and "len = of_nat (Suc (last_page k address sz - first_page k address)) * gum_query_page_size k"
    and "v1 = v\<lparr>vm_log := Mprotect start len 7 # vm_log v, vm_mem := apply_func address (vm_mem v)\<rparr>"
  shows "unat start \<le> unat address \<and> unat address + unat sz \<le> unat start + unat len \<and>
    unat address < unat start + unat (gum_query_page_size k) \<and> unat start + unat len < unat address + unat sz + unat (gum_query_page_size k) \<and>
    gum_memory_patch_code k v address sz apply_func =
      (if \<not> k_mprotect k (vm_log v) start len 7 then Some (False, v)
       else if \<not> k_mprotect k (vm_log v1) start len 5 then Some (False, v1)
       else Some (True, v1\<lparr>vm_log := Mprotect start len 5 # vm_log v1\<rparr>))"
proof -
  define P S E where "P = unat (gum_query_page_size k)" and "S = first_page k address" and "E = last_page k address sz"
  note r = page_range [OF assms(1-3), folded P_def S_def E_def]
  note ends = page_ends [OF assms(1-3), folded S_def E_def]
  have top: "E * P + P < 2 ^ 64" using r(5) assms(3) [unfolded below_top_def, folded P_def] by linarith
  have span: "Suc (E - S) * P = E * P + P - S * P" using r(2) by (simp add: diff_mult_distrib Suc_diff_le)
  then have small: "Suc (E - S) * P < 2 ^ 64" using top by linarith
  have len: "unat len = E * P + P - S * P"
  proof -
    have "len = of_nat (Suc (E - S) * P)" unfolding assms(5) of_nat_mult P_def S_def E_def by simp
    then show ?thesis using small unfolding span by (simp add: unat_of_nat)
  qed
  have start: "unat start = S * P" using r(7) [OF r(2)] by (simp add: assms(4) S_def)
  have "S * P \<le> E * P" using r(2) by simp
  then have cover: "unat start \<le> unat address \<and> unat address + unat sz \<le> unat start + unat len \<and>
      unat address < unat start + P \<and> unat start + unat len < unat address + unat sz + P"
    unfolding start len using r(3-6) by linarith
  have range_len: "page_base k E + gum_query_page_size k - page_base k S = of_nat (Suc (E - S)) * gum_query_page_size k"
    using r(2) by (simp add: page_base_def of_nat_diff algebra_simps)
  have fits: "(S + Suc (E - S)) * P \<le> 2 ^ 64" using r(2) top by (simp add: algebra_simps)
  note protect = mprotect_pages [OF assms(1) _ fits [unfolded P_def] small [unfolded P_def]]
  have posix: "gum_page_protection_to_posix GUM_PAGE_RWX = 7" "gum_page_protection_to_posix GUM_PAGE_RX = 5" by code_simp+
  have "gum_memory_patch_code k v address sz apply_func =
      (if \<not> k_mprotect k (vm_log v) start len 7 then Some (False, v)
       else if \<not> k_mprotect k (vm_log v1) start len 5 then Some (False, v1)
       else Some (True, v1\<lparr>vm_log := Mprotect start len 5 # vm_log v1\<rparr>))"
    unfolding gum_memory_patch_code_def gum_strip_code_pointer_def gum_query_is_rwx_supported_def Let_def ends range_len if_True
      assms(4-6) S_def [symmetric] E_def [symmetric]
    by (simp add: protect [OF zero_less_Suc] posix Let_def del: of_nat_Suc)
  then show ?thesis using cover by (simp add: P_def)
qed

theorem patch_code_pages_witness:
  "gum_memory_patch_code (sample_kernel 0x7000) sample_vm 0x1ffe 4 (\<lambda>a m. write_bytes m a [0xe9, 1, 2, 3]) =
    Some (True, \<lparr>vm_log = [Mprotect 0x1000 0x2000 5, Mprotect 0x1000 0x2000 7], vm_mem = write_bytes (vm_mem sample_vm) 0x1ffe [0xe9, 1, 2, 3]\<rparr>)"
proof -
  have ps: "gum_query_page_size (sample_kernel 0x7000) = 0x1000" by (simp add: gum_query_page_size_def sample_kernel_def)
  have wb: "well_behaved (sample_kernel 0x7000)" by (rule sample_kernel_well_behaved) simp_all
  have pages: "page_base (sample_kernel 0x7000) (first_page (sample_kernel 0x7000) 0x1ffe) = 0x1000"
    "of_nat (Suc (last_page (sample_kernel 0x7000) 0x1ffe 4 - first_page (sample_kernel 0x7000) 0x1ffe)) * gum_query_page_size (sample_kernel 0x7000) = 0x2000"
    by (simp_all add: page_base_def first_page_def last_page_def ps)
  have "below_top (sample_kernel 0x7000) 0x1ffe 4" by (simp add: below_top_def ps)
  from patch_code_pages [OF wb _ this pages(1) [symmetric] pages(2) [symmetric] refl, of sample_vm "\<lambda>a m. write_bytes m a [0xe9, 1, 2, 3]"]
  show ?thesis by (simp add: sample_kernel_def sample_vm_def)
qed

end
