(* ===== verification/Gum_X86_Regs.thy ===== *)
theory Gum_X86_Regs
  imports Gum_Prelude
begin

text \<open>
  The register names of \<^verbatim>\<open>src/frida-gum/gum/arch-x86/gumx86writer.h\<close>, the enums of
  \<^verbatim>\<open>gumdefs.h\<close> the writer switches on, and the decoding of a register name into the fields of an
  instruction (\<^verbatim>\<open>GumX86RegInfo\<close>), with the proof that it agrees with the register numbering of the
  architecture.
\<close>

section \<open>Enumerations\<close>

datatype GumCpuType = GUM_CPU_INVALID | GUM_CPU_IA32 | GUM_CPU_AMD64 | GUM_CPU_ARM | GUM_CPU_ARM64 | GUM_CPU_MIPS

datatype GumAbiType = GUM_ABI_UNIX | GUM_ABI_WINDOWS

datatype GumCallingConvention = GUM_CALL_CAPI | GUM_CALL_SYSAPI

datatype GumBranchHint = GUM_NO_HINT | GUM_LIKELY | GUM_UNLIKELY

datatype GumX86PtrTarget = GUM_X86_PTR_BYTE | GUM_X86_PTR_DWORD | GUM_X86_PTR_QWORD

datatype GumX86Reg =
    GUM_X86_EAX | GUM_X86_ECX | GUM_X86_EDX | GUM_X86_EBX | GUM_X86_ESP | GUM_X86_EBP
    | GUM_X86_ESI | GUM_X86_EDI | GUM_X86_R8D | GUM_X86_R9D | GUM_X86_R10D | GUM_X86_R11D
    | GUM_X86_R12D | GUM_X86_R13D | GUM_X86_R14D | GUM_X86_R15D | GUM_X86_EIP | GUM_X86_RAX
    | GUM_X86_RCX | GUM_X86_RDX | GUM_X86_RBX | GUM_X86_RSP | GUM_X86_RBP | GUM_X86_RSI
    | GUM_X86_RDI | GUM_X86_R8 | GUM_X86_R9 | GUM_X86_R10 | GUM_X86_R11 | GUM_X86_R12
    | GUM_X86_R13 | GUM_X86_R14 | GUM_X86_R15 | GUM_X86_RIP | GUM_X86_XAX | GUM_X86_XCX
    | GUM_X86_XDX | GUM_X86_XBX | GUM_X86_XSP | GUM_X86_XBP | GUM_X86_XSI | GUM_X86_XDI
    | GUM_X86_XIP | GUM_X86_NONE

text \<open>The value the enum gives each name: its position.\<close>

primrec gum_x86_reg_value :: "GumX86Reg \<Rightarrow> guint" where
  "gum_x86_reg_value GUM_X86_EAX = 0"
| "gum_x86_reg_value GUM_X86_ECX = 1"
| "gum_x86_reg_value GUM_X86_EDX = 2"
| "gum_x86_reg_value GUM_X86_EBX = 3"
| "gum_x86_reg_value GUM_X86_ESP = 4"
| "gum_x86_reg_value GUM_X86_EBP = 5"
| "gum_x86_reg_value GUM_X86_ESI = 6"
| "gum_x86_reg_value GUM_X86_EDI = 7"
| "gum_x86_reg_value GUM_X86_R8D = 8"
| "gum_x86_reg_value GUM_X86_R9D = 9"
| "gum_x86_reg_value GUM_X86_R10D = 10"
| "gum_x86_reg_value GUM_X86_R11D = 11"
| "gum_x86_reg_value GUM_X86_R12D = 12"
| "gum_x86_reg_value GUM_X86_R13D = 13"
| "gum_x86_reg_value GUM_X86_R14D = 14"
| "gum_x86_reg_value GUM_X86_R15D = 15"
| "gum_x86_reg_value GUM_X86_EIP = 16"
| "gum_x86_reg_value GUM_X86_RAX = 17"
| "gum_x86_reg_value GUM_X86_RCX = 18"
| "gum_x86_reg_value GUM_X86_RDX = 19"
| "gum_x86_reg_value GUM_X86_RBX = 20"
| "gum_x86_reg_value GUM_X86_RSP = 21"
| "gum_x86_reg_value GUM_X86_RBP = 22"
| "gum_x86_reg_value GUM_X86_RSI = 23"
| "gum_x86_reg_value GUM_X86_RDI = 24"
| "gum_x86_reg_value GUM_X86_R8 = 25"
| "gum_x86_reg_value GUM_X86_R9 = 26"
| "gum_x86_reg_value GUM_X86_R10 = 27"
| "gum_x86_reg_value GUM_X86_R11 = 28"
| "gum_x86_reg_value GUM_X86_R12 = 29"
| "gum_x86_reg_value GUM_X86_R13 = 30"
| "gum_x86_reg_value GUM_X86_R14 = 31"
| "gum_x86_reg_value GUM_X86_R15 = 32"
| "gum_x86_reg_value GUM_X86_RIP = 33"
| "gum_x86_reg_value GUM_X86_XAX = 34"
| "gum_x86_reg_value GUM_X86_XCX = 35"
| "gum_x86_reg_value GUM_X86_XDX = 36"
| "gum_x86_reg_value GUM_X86_XBX = 37"
| "gum_x86_reg_value GUM_X86_XSP = 38"
| "gum_x86_reg_value GUM_X86_XBP = 39"
| "gum_x86_reg_value GUM_X86_XSI = 40"
| "gum_x86_reg_value GUM_X86_XDI = 41"
| "gum_x86_reg_value GUM_X86_XIP = 42"
| "gum_x86_reg_value GUM_X86_NONE = 43"

section \<open>Register descriptions\<close>

record GumX86RegInfo =
  ri_meta :: guint
  ri_width :: guint
  ri_index :: guint
  ri_index_is_extended :: bool

abbreviation (input) GUM_X86_META_XAX :: guint where "GUM_X86_META_XAX \<equiv> 0"
abbreviation (input) GUM_X86_META_XSP :: guint where "GUM_X86_META_XSP \<equiv> 4"
abbreviation (input) GUM_X86_META_XBP :: guint where "GUM_X86_META_XBP \<equiv> 5"

definition gum_meta_reg_from_cpu_reg :: "guint \<Rightarrow> guint" where
  "gum_meta_reg_from_cpu_reg reg =
     (if gum_x86_reg_value GUM_X86_EAX \<le> reg \<and> reg \<le> gum_x86_reg_value GUM_X86_R15D
      then GUM_X86_META_XAX + reg - gum_x86_reg_value GUM_X86_EAX
      else if gum_x86_reg_value GUM_X86_RAX \<le> reg \<and> reg \<le> gum_x86_reg_value GUM_X86_R15
      then GUM_X86_META_XAX + reg - gum_x86_reg_value GUM_X86_RAX
      else GUM_X86_META_XAX + reg - gum_x86_reg_value GUM_X86_XAX)"

definition describe_cpu_reg :: "GumCpuType \<Rightarrow> GumX86Reg \<Rightarrow> GumX86RegInfo" where
  "describe_cpu_reg cpu r =
     (let reg = gum_x86_reg_value r;
          reg = (if gum_x86_reg_value GUM_X86_XAX \<le> reg \<and> reg \<le> gum_x86_reg_value GUM_X86_XDI
                 then (if cpu = GUM_CPU_IA32
                       then gum_x86_reg_value GUM_X86_EAX + reg - gum_x86_reg_value GUM_X86_XAX
                       else gum_x86_reg_value GUM_X86_RAX + reg - gum_x86_reg_value GUM_X86_XAX)
                 else reg);
          meta = gum_meta_reg_from_cpu_reg reg
      in if gum_x86_reg_value GUM_X86_RAX \<le> reg \<and> reg \<le> gum_x86_reg_value GUM_X86_R15
         then (if reg < gum_x86_reg_value GUM_X86_R8
               then \<lparr>ri_meta = meta, ri_width = 64,
                      ri_index = reg - gum_x86_reg_value GUM_X86_RAX, ri_index_is_extended = False\<rparr>
               else \<lparr>ri_meta = meta, ri_width = 64,
                      ri_index = reg - gum_x86_reg_value GUM_X86_R8, ri_index_is_extended = True\<rparr>)
         else (if reg < gum_x86_reg_value GUM_X86_R8D
               then \<lparr>ri_meta = meta, ri_width = 32,
                      ri_index = reg - gum_x86_reg_value GUM_X86_EAX, ri_index_is_extended = False\<rparr>
               else \<lparr>ri_meta = meta, ri_width = 32,
                      ri_index = reg - gum_x86_reg_value GUM_X86_R8D, ri_index_is_extended = True\<rparr>))"

section \<open>The architecture's numbering\<close>

text \<open>
  Independent of the code: the number (0 to 15) and the width of the general-purpose register a name
  stands for, as the processor manuals number them. The instruction pointers and
  \<open>GUM_X86_NONE\<close> are no general-purpose register.
\<close>

primrec gpr_of :: "GumCpuType \<Rightarrow> GumX86Reg \<Rightarrow> (nat \<times> nat) option" where
  "gpr_of cpu GUM_X86_EAX = Some (0, 32)"
| "gpr_of cpu GUM_X86_ECX = Some (1, 32)"
| "gpr_of cpu GUM_X86_EDX = Some (2, 32)"
| "gpr_of cpu GUM_X86_EBX = Some (3, 32)"
| "gpr_of cpu GUM_X86_ESP = Some (4, 32)"
| "gpr_of cpu GUM_X86_EBP = Some (5, 32)"
| "gpr_of cpu GUM_X86_ESI = Some (6, 32)"
| "gpr_of cpu GUM_X86_EDI = Some (7, 32)"
| "gpr_of cpu GUM_X86_R8D = Some (8, 32)"
| "gpr_of cpu GUM_X86_R9D = Some (9, 32)"
| "gpr_of cpu GUM_X86_R10D = Some (10, 32)"
| "gpr_of cpu GUM_X86_R11D = Some (11, 32)"
| "gpr_of cpu GUM_X86_R12D = Some (12, 32)"
| "gpr_of cpu GUM_X86_R13D = Some (13, 32)"
| "gpr_of cpu GUM_X86_R14D = Some (14, 32)"
| "gpr_of cpu GUM_X86_R15D = Some (15, 32)"
| "gpr_of cpu GUM_X86_EIP = None"
| "gpr_of cpu GUM_X86_RAX = Some (0, 64)"
| "gpr_of cpu GUM_X86_RCX = Some (1, 64)"
| "gpr_of cpu GUM_X86_RDX = Some (2, 64)"
| "gpr_of cpu GUM_X86_RBX = Some (3, 64)"
| "gpr_of cpu GUM_X86_RSP = Some (4, 64)"
| "gpr_of cpu GUM_X86_RBP = Some (5, 64)"
| "gpr_of cpu GUM_X86_RSI = Some (6, 64)"
| "gpr_of cpu GUM_X86_RDI = Some (7, 64)"
| "gpr_of cpu GUM_X86_R8 = Some (8, 64)"
| "gpr_of cpu GUM_X86_R9 = Some (9, 64)"
| "gpr_of cpu GUM_X86_R10 = Some (10, 64)"
| "gpr_of cpu GUM_X86_R11 = Some (11, 64)"
| "gpr_of cpu GUM_X86_R12 = Some (12, 64)"
| "gpr_of cpu GUM_X86_R13 = Some (13, 64)"
| "gpr_of cpu GUM_X86_R14 = Some (14, 64)"
| "gpr_of cpu GUM_X86_R15 = Some (15, 64)"
| "gpr_of cpu GUM_X86_RIP = None"
| "gpr_of cpu GUM_X86_XAX = Some (0, (if cpu = GUM_CPU_IA32 then 32 else 64))"
| "gpr_of cpu GUM_X86_XCX = Some (1, (if cpu = GUM_CPU_IA32 then 32 else 64))"
| "gpr_of cpu GUM_X86_XDX = Some (2, (if cpu = GUM_CPU_IA32 then 32 else 64))"
| "gpr_of cpu GUM_X86_XBX = Some (3, (if cpu = GUM_CPU_IA32 then 32 else 64))"
| "gpr_of cpu GUM_X86_XSP = Some (4, (if cpu = GUM_CPU_IA32 then 32 else 64))"
| "gpr_of cpu GUM_X86_XBP = Some (5, (if cpu = GUM_CPU_IA32 then 32 else 64))"
| "gpr_of cpu GUM_X86_XSI = Some (6, (if cpu = GUM_CPU_IA32 then 32 else 64))"
| "gpr_of cpu GUM_X86_XDI = Some (7, (if cpu = GUM_CPU_IA32 then 32 else 64))"
| "gpr_of cpu GUM_X86_XIP = None"
| "gpr_of cpu GUM_X86_NONE = None"

text \<open>A register description as the instruction formats need it.\<close>

definition reg_info :: "nat \<Rightarrow> nat \<Rightarrow> GumX86RegInfo" where
  "reg_info n w = \<lparr>ri_meta = of_nat n, ri_width = of_nat w, ri_index = of_nat (n mod 8),
     ri_index_is_extended = (8 \<le> n)\<rparr>"

lemmas describe_cpu_reg_eval = describe_cpu_reg_def gum_meta_reg_from_cpu_reg_def Let_def reg_info_def

lemma numeral_le_1_word: "numeral k \<le> (1 :: 'a::len word) \<longleftrightarrow> unat (numeral k :: 'a word) \<le> 1"
  by (simp add: word_le_nat_alt)

lemma describe_cpu_reg_cases:
  "case gpr_of cpu r of None \<Rightarrow> True | Some (n, w) \<Rightarrow> describe_cpu_reg cpu r = reg_info n w"
  by (cases r) (simp_all add: describe_cpu_reg_eval numeral_le_1_word)

lemma describe_cpu_reg_gpr: "gpr_of cpu r = Some (n, w) \<Longrightarrow> describe_cpu_reg cpu r = reg_info n w"
  using describe_cpu_reg_cases [of cpu r] by simp

lemma gpr_of_bounds: "gpr_of cpu r = Some (n, w) \<Longrightarrow> n < 16 \<and> (w = 32 \<or> w = 64)"
proof -
  have "case gpr_of cpu r of None \<Rightarrow> True | Some (n, w) \<Rightarrow> n < 16 \<and> (w = 32 \<or> w = 64)"
    by (cases r) simp_all
  then show "gpr_of cpu r = Some (n, w) \<Longrightarrow> n < 16 \<and> (w = 32 \<or> w = 64)" by simp
qed

end
