(* ===== verification/Gum_X86_Writer.thy ===== *)
theory Gum_X86_Writer
  imports Gum_X86_Regs
begin

text \<open>
  The core of \<^verbatim>\<open>src/frida-gum/gum/arch-x86/gumx86writer.c\<close>: the writer's state, its life cycle, the
  raw stores every instruction encoder is made of, labels with their deferred resolution
  (\<^verbatim>\<open>gum_x86_writer_flush\<close>), and the prefix bytes. The instruction encoders themselves are in
  \<^verbatim>\<open>Gum_X86_Branch\<close> and \<^verbatim>\<open>Gum_X86_Data\<close>.

  The struct is the record \<open>GumX86Writer\<close>, whose last field is the memory its stores go to. The
  label table \<^verbatim>\<open>label_defs\<close> is a \<^verbatim>\<open>GumMetalHashTable\<close> keyed by the address of the label's
  identifier: here \<open>None\<close> while it has not been allocated, then the finite map it holds. The array
  \<^verbatim>\<open>label_refs\<close> is \<open>None\<close> while its \<^verbatim>\<open>data\<close> is \<^verbatim>\<open>NULL\<close>, then the list of its elements. An operation
  of type \<^verbatim>\<open>gboolean\<close> returns its result and the new state, one of type \<^verbatim>\<open>void\<close> the new state.
\<close>

section \<open>State\<close>

datatype GumX86LabelRefSize = GUM_LREF_SHORT | GUM_LREF_NEAR | GUM_LREF_ABS

record GumX86LabelRef =
  lr_id :: gpointer
  lr_address :: gpointer
  lr_size :: GumX86LabelRefSize

record GumX86Writer =
  w_ref_count :: guint
  w_flush_on_destroy :: bool
  w_target_cpu :: GumCpuType
  w_target_abi :: GumAbiType
  w_base :: gpointer
  w_code :: gpointer
  w_pc :: GumAddress
  w_label_defs :: "(gpointer \<rightharpoonup> gpointer) option"
  w_label_refs :: "GumX86LabelRef list option"
  w_mem :: memory

definition gum_x86_writer_has_label_defs :: "GumX86Writer \<Rightarrow> bool" where
  "gum_x86_writer_has_label_defs self \<longleftrightarrow> w_label_defs self \<noteq> None"

definition gum_x86_writer_has_label_refs :: "GumX86Writer \<Rightarrow> bool" where
  "gum_x86_writer_has_label_refs self \<longleftrightarrow> w_label_refs self \<noteq> None"

definition gum_x86_writer_reset :: "GumX86Writer \<Rightarrow> gpointer \<Rightarrow> GumX86Writer" where
  "gum_x86_writer_reset writer code_address =
     (let writer = writer\<lparr>w_target_cpu := GUM_CPU_AMD64, w_target_abi := GUM_ABI_UNIX,
                          w_base := code_address, w_code := code_address, w_pc := code_address\<rparr>;
          writer = (if gum_x86_writer_has_label_defs writer
                    then writer\<lparr>w_label_defs := Some Map.empty\<rparr> else writer)
      in if gum_x86_writer_has_label_refs writer
         then writer\<lparr>w_label_refs := Some []\<rparr> else writer)"

definition gum_x86_writer_init :: "GumX86Writer \<Rightarrow> gpointer \<Rightarrow> GumX86Writer" where
  "gum_x86_writer_init writer code_address =
     gum_x86_writer_reset
       (writer\<lparr>w_ref_count := 1, w_flush_on_destroy := True,
               w_label_defs := None, w_label_refs := None\<rparr>) code_address"

text \<open>\<^verbatim>\<open>g_slice_new\<close> returns uninitialised storage, here the argument \<open>storage\<close>.\<close>

definition gum_x86_writer_new :: "GumX86Writer \<Rightarrow> gpointer \<Rightarrow> GumX86Writer" where
  "gum_x86_writer_new storage code_address = gum_x86_writer_init storage code_address"

definition gum_x86_writer_ref :: "GumX86Writer \<Rightarrow> GumX86Writer" where
  "gum_x86_writer_ref writer = writer\<lparr>w_ref_count := w_ref_count writer + 1\<rparr>"

definition gum_x86_writer_set_target_cpu :: "GumX86Writer \<Rightarrow> GumCpuType \<Rightarrow> GumX86Writer" where
  "gum_x86_writer_set_target_cpu self cpu_type = self\<lparr>w_target_cpu := cpu_type\<rparr>"

definition gum_x86_writer_set_target_abi :: "GumX86Writer \<Rightarrow> GumAbiType \<Rightarrow> GumX86Writer" where
  "gum_x86_writer_set_target_abi self abi_type = self\<lparr>w_target_abi := abi_type\<rparr>"

definition gum_x86_writer_cur :: "GumX86Writer \<Rightarrow> gpointer" where
  "gum_x86_writer_cur self = w_code self"

definition gum_x86_writer_offset :: "GumX86Writer \<Rightarrow> guint" where
  "gum_x86_writer_offset self = ucast (w_code self - w_base self)"

definition gum_x86_writer_commit :: "GumX86Writer \<Rightarrow> guint \<Rightarrow> GumX86Writer" where
  "gum_x86_writer_commit self n =
     self\<lparr>w_code := w_code self + ucast n, w_pc := w_pc self + ucast n\<rparr>"

section \<open>Raw stores\<close>

text \<open>
  The assignments of the encoders: \<^verbatim>\<open>self->code[i] = v\<close> and
  \<^verbatim>\<open>*((guint32 *) (self->code + i)) = GUINT32_TO_LE (v)\<close> with its 16- and 64-bit variants.
\<close>

definition poke8 :: "GumX86Writer \<Rightarrow> gpointer \<Rightarrow> guint8 \<Rightarrow> GumX86Writer" where
  "poke8 self i v = self\<lparr>w_mem := (w_mem self)(w_code self + i := v)\<rparr>"

definition poke16 :: "GumX86Writer \<Rightarrow> gpointer \<Rightarrow> guint16 \<Rightarrow> GumX86Writer" where
  "poke16 self i v = self\<lparr>w_mem := write_bytes (w_mem self) (w_code self + i) (le16 v)\<rparr>"

definition poke32 :: "GumX86Writer \<Rightarrow> gpointer \<Rightarrow> guint32 \<Rightarrow> GumX86Writer" where
  "poke32 self i v = self\<lparr>w_mem := write_bytes (w_mem self) (w_code self + i) (le32 v)\<rparr>"

definition poke64 :: "GumX86Writer \<Rightarrow> gpointer \<Rightarrow> guint64 \<Rightarrow> GumX86Writer" where
  "poke64 self i v = self\<lparr>w_mem := write_bytes (w_mem self) (w_code self + i) (le64 v)\<rparr>"

definition gum_x86_writer_put_u8 :: "GumX86Writer \<Rightarrow> guint8 \<Rightarrow> GumX86Writer" where
  "gum_x86_writer_put_u8 self value = gum_x86_writer_commit (poke8 self 0 value) 1"

definition gum_x86_writer_put_s8 :: "GumX86Writer \<Rightarrow> guint8 \<Rightarrow> GumX86Writer" where
  "gum_x86_writer_put_s8 self value = gum_x86_writer_commit (poke8 self 0 value) 1"

definition gum_x86_writer_put_bytes :: "GumX86Writer \<Rightarrow> guint8 list \<Rightarrow> GumX86Writer" where
  "gum_x86_writer_put_bytes self data =
     gum_x86_writer_commit (self\<lparr>w_mem := write_bytes (w_mem self) (w_code self) data\<rparr>)
       (of_nat (length data))"

section \<open>Labels\<close>

text \<open>\<^verbatim>\<open>gum_metal_hash_table_lookup\<close> returns \<^verbatim>\<open>NULL\<close> for a missing key.\<close>

definition label_lookup :: "(gpointer \<rightharpoonup> gpointer) \<Rightarrow> gpointer \<Rightarrow> gpointer" where
  "label_lookup defs k = (case defs k of None \<Rightarrow> 0 | Some v \<Rightarrow> v)"

definition gum_x86_writer_put_label :: "GumX86Writer \<Rightarrow> gpointer \<Rightarrow> bool \<times> GumX86Writer" where
  "gum_x86_writer_put_label self label_id =
     (let defs = (case w_label_defs self of None \<Rightarrow> Map.empty | Some d \<Rightarrow> d);
          self = self\<lparr>w_label_defs := Some defs\<rparr>
      in if label_lookup defs label_id \<noteq> 0 then (False, self)
         else (True, self\<lparr>w_label_defs := Some (defs(label_id \<mapsto> w_code self))\<rparr>))"

definition gum_x86_writer_add_label_reference_here ::
    "GumX86Writer \<Rightarrow> gpointer \<Rightarrow> GumX86LabelRefSize \<Rightarrow> GumX86Writer" where
  "gum_x86_writer_add_label_reference_here self label_id sz =
     (let refs = (case w_label_refs self of None \<Rightarrow> [] | Some r \<Rightarrow> r)
      in self\<lparr>w_label_refs := Some (refs @ [\<lparr>lr_id = label_id, lr_address = w_code self, lr_size = sz\<rparr>])\<rparr>)"

text \<open>
  The body of the loop of \<^verbatim>\<open>gum_x86_writer_flush\<close> for one reference: \<open>None\<close> is its
  \<^verbatim>\<open>goto error\<close>, otherwise the memory after the patch. The distance is a \<^verbatim>\<open>gint32\<close>, so the
  difference of the two addresses is truncated before the range check.
\<close>

definition flush_one :: "GumX86Writer \<Rightarrow> (gpointer \<rightharpoonup> gpointer) \<Rightarrow> GumX86LabelRef \<Rightarrow> memory option" where
  "flush_one self defs r =
     (let target_address = label_lookup defs (lr_id r)
      in if target_address = 0 then None
         else
           let distance = (ucast (target_address - lr_address r) :: guint32)
           in case lr_size r of
                GUM_LREF_SHORT \<Rightarrow>
                  (if \<not> GUM_IS_WITHIN_INT8_RANGE (scast distance) then None
                   else Some ((w_mem self)(lr_address r - 1 := ucast distance)))
              | GUM_LREF_NEAR \<Rightarrow> Some (write_bytes (w_mem self) (lr_address r - 4) (le32 distance))
              | GUM_LREF_ABS \<Rightarrow>
                  (let target_offset = target_address - w_base self;
                       base_pc = w_pc self - ucast (gum_x86_writer_offset self);
                       target_pc = base_pc + target_offset
                   in if w_target_cpu self = GUM_CPU_AMD64
                      then Some (write_bytes (w_mem self) (lr_address r - 8) (le64 target_pc))
                      else Some (write_bytes (w_mem self) (lr_address r - 4) (le32 (ucast target_pc)))))"

fun flush_refs :: "GumX86Writer \<Rightarrow> (gpointer \<rightharpoonup> gpointer) \<Rightarrow> GumX86LabelRef list \<Rightarrow> bool \<times> GumX86Writer" where
  "flush_refs self defs [] = (True, self)"
| "flush_refs self defs (r # rs) =
     (case flush_one self defs r of
        None \<Rightarrow> (False, self)
      | Some m \<Rightarrow> flush_refs (self\<lparr>w_mem := m\<rparr>) defs rs)"

definition gum_x86_writer_flush :: "GumX86Writer \<Rightarrow> bool \<times> GumX86Writer" where
  "gum_x86_writer_flush self =
     (case w_label_refs self of
        None \<Rightarrow> (True, self)
      | Some refs \<Rightarrow>
          (case w_label_defs self of
             None \<Rightarrow> (False, self)
           | Some defs \<Rightarrow>
               (let (ok, self) = flush_refs self defs refs
                in (ok, self\<lparr>w_label_refs := Some []\<rparr>))))"

text \<open>
  \<^verbatim>\<open>gum_x86_writer_clear\<close> drops the table and frees the array, so neither exists afterwards.
  \<^verbatim>\<open>gum_x86_writer_unref\<close> also says whether the last reference went and the storage was freed.
\<close>

definition gum_x86_writer_clear :: "GumX86Writer \<Rightarrow> GumX86Writer" where
  "gum_x86_writer_clear writer =
     (let writer = (if w_flush_on_destroy writer then snd (gum_x86_writer_flush writer) else writer)
      in writer\<lparr>w_label_defs := None, w_label_refs := None\<rparr>)"

definition gum_x86_writer_unref :: "GumX86Writer \<Rightarrow> bool \<times> GumX86Writer" where
  "gum_x86_writer_unref writer =
     (let writer = writer\<lparr>w_ref_count := w_ref_count writer - 1\<rparr>
      in if w_ref_count writer = 0 then (True, gum_x86_writer_clear writer) else (False, writer))"

section \<open>Registers and prefixes\<close>

definition gum_x86_writer_describe_cpu_reg :: "GumX86Writer \<Rightarrow> GumX86Reg \<Rightarrow> GumX86RegInfo" where
  "gum_x86_writer_describe_cpu_reg self reg = describe_cpu_reg (w_target_cpu self) reg"

definition gum_x86_writer_get_cpu_register_for_nth_argument :: "GumX86Writer \<Rightarrow> guint \<Rightarrow> GumX86Reg" where
  "gum_x86_writer_get_cpu_register_for_nth_argument self n =
     (let nth_or_none = (\<lambda>regs. if n < of_nat (length regs) then regs ! unat n else GUM_X86_NONE)
      in if w_target_cpu self = GUM_CPU_AMD64
         then (if w_target_abi self = GUM_ABI_UNIX
               then nth_or_none [GUM_X86_RDI, GUM_X86_RSI, GUM_X86_RDX, GUM_X86_RCX, GUM_X86_R8, GUM_X86_R9]
               else if w_target_abi self = GUM_ABI_WINDOWS
               then nth_or_none [GUM_X86_RCX, GUM_X86_RDX, GUM_X86_R8, GUM_X86_R9]
               else GUM_X86_NONE)
         else if w_target_cpu self = GUM_CPU_IA32
         then nth_or_none [GUM_X86_ECX, GUM_X86_EDX]
         else GUM_X86_NONE)"

definition gum_x86_writer_can_branch_directly_between :: "GumAddress \<Rightarrow> GumAddress \<Rightarrow> bool" where
  "gum_x86_writer_can_branch_directly_between from to =
     (let distance = to - (from + 5) in - 2147483648 \<le> sint distance \<and> sint distance \<le> 2147483647)"

definition gum_x86_writer_put_prefix_for_reg_info ::
    "GumX86Writer \<Rightarrow> GumX86RegInfo \<Rightarrow> nat \<Rightarrow> bool \<times> GumX86Writer" where
  "gum_x86_writer_put_prefix_for_reg_info self ri operand_index =
     (if w_target_cpu self = GUM_CPU_IA32
      then (if ri_width ri \<noteq> 32 \<or> ri_index_is_extended ri then (False, self) else (True, self))
      else
        let mask = push_bit (operand_index * 2) (1 :: guint)
        in if ri_width ri = 32
           then (if ri_index_is_extended ri
                 then (True, gum_x86_writer_put_u8 self (ucast (0x40 OR mask)))
                 else (True, self))
           else (True, gum_x86_writer_put_u8 self
                   (ucast (if ri_index_is_extended ri then 0x48 OR mask else 0x48))))"

text \<open>
  The variable arguments of \<^verbatim>\<open>gum_x86_writer_put_prefix_for_registers\<close> are one register and up to
  two more, ended by \<^verbatim>\<open>NULL\<close>: \<open>ra\<close> and the list \<open>others\<close>.
\<close>

definition gum_x86_writer_put_prefix_for_registers ::
    "GumX86Writer \<Rightarrow> GumX86RegInfo \<Rightarrow> guint \<Rightarrow> GumX86RegInfo \<Rightarrow> GumX86RegInfo list \<Rightarrow> bool \<times> GumX86Writer" where
  "gum_x86_writer_put_prefix_for_registers self width_reg default_width ra others =
     (let rb = (case others of [] \<Rightarrow> None | r # _ \<Rightarrow> Some r);
          rc = (case others of _ # r # _ \<Rightarrow> Some r | _ \<Rightarrow> None);
          bad = (\<lambda>r. ri_width r \<noteq> 32 \<or> ri_index_is_extended r)
      in if w_target_cpu self = GUM_CPU_IA32
         then (if bad ra then (False, self)
               else if (case rb of None \<Rightarrow> False | Some r \<Rightarrow> bad r) then (False, self)
               else if (case rc of None \<Rightarrow> False | Some r \<Rightarrow> bad r) then (False, self)
               else (True, self))
         else
           let nibble = (0 :: guint);
               nibble = (if ri_width width_reg \<noteq> default_width then nibble OR 0x8 else nibble);
               nibble = (if (case rb of None \<Rightarrow> False | Some r \<Rightarrow> ri_index_is_extended r)
                         then nibble OR 0x4 else nibble);
               nibble = (if (case rc of None \<Rightarrow> False | Some r \<Rightarrow> ri_index_is_extended r)
                         then nibble OR 0x2 else nibble);
               nibble = (if ri_index_is_extended ra then nibble OR 0x1 else nibble)
           in if nibble \<noteq> 0 then (True, gum_x86_writer_put_u8 self (ucast (0x40 OR nibble)))
              else (True, self))"

end
