(* ===== verification/Gum_X86_Data.thy ===== *)
theory Gum_X86_Data
  imports Gum_X86_Writer
begin

text \<open>
  The encoders of \<^verbatim>\<open>src/frida-gum/gum/arch-x86/gumx86writer.c\<close> that neither branch nor set up calls:
  arithmetic, logic, moves, stack operations, comparisons, flags, padding and state saving, in the
  order of the source. Each definition follows the C statement by statement: every
  \<^verbatim>\<open>return FALSE\<close> is a result \<open>False\<close> with whatever had been stored or committed by then.
\<close>

section \<open>Addition and subtraction\<close>

definition gum_x86_writer_put_add_or_sub_reg_imm ::
    "GumX86Writer \<Rightarrow> GumX86Reg \<Rightarrow> gssize \<Rightarrow> bool \<Rightarrow> bool \<times> GumX86Writer" where
  [writer_defs]: "gum_x86_writer_put_add_or_sub_reg_imm self reg imm_value add =
     (let ri = gum_x86_writer_describe_cpu_reg self reg;
          immediate_fits_in_i8 = GUM_IS_WITHIN_INT8_RANGE imm_value
      in ensure (gum_x86_writer_put_prefix_for_registers self ri 32 ri []) (\<lambda>self.
         let self = (if ri_meta ri = GUM_X86_META_XAX \<and> \<not> immediate_fits_in_i8
                     then gum_x86_writer_put_u8 self (if add then 0x05 else 0x2d)
                     else
                       let self = poke8 self 0 (if immediate_fits_in_i8 then 0x83 else 0x81);
                           self = poke8 self 1 (ucast ((if add then 0xc0 else 0xe8) OR ri_index ri))
                       in gum_x86_writer_commit self 2)
         in if immediate_fits_in_i8
            then (True, gum_x86_writer_put_s8 self (ucast imm_value))
            else (True, gum_x86_writer_commit (poke32 self 0 (ucast imm_value)) 4)))"

definition gum_x86_writer_put_add_reg_imm ::
    "GumX86Writer \<Rightarrow> GumX86Reg \<Rightarrow> gssize \<Rightarrow> bool \<times> GumX86Writer" where
  [writer_defs]: "gum_x86_writer_put_add_reg_imm self reg imm_value =
     gum_x86_writer_put_add_or_sub_reg_imm self reg imm_value True"

definition gum_x86_writer_put_add_reg_reg ::
    "GumX86Writer \<Rightarrow> GumX86Reg \<Rightarrow> GumX86Reg \<Rightarrow> bool \<times> GumX86Writer" where
  [writer_defs]: "gum_x86_writer_put_add_reg_reg self dst_reg src_reg =
     (let dst = gum_x86_writer_describe_cpu_reg self dst_reg;
          src = gum_x86_writer_describe_cpu_reg self src_reg
      in if ri_width src \<noteq> ri_width dst then (False, self)
         else ensure (gum_x86_writer_put_prefix_for_registers self dst 32 dst [src]) (\<lambda>self.
           let self = poke8 self 0 0x01;
               self = poke8 self 1 (ucast (0xc0 OR push_bit 3 (ri_index src) OR ri_index dst))
           in (True, gum_x86_writer_commit self 2)))"

text \<open>
  The tail shared, in the source by repetition, by the operations on a \<^verbatim>\<open>near_ptr\<close>: an absolute
  address in 32-bit mode, a distance from the end of the instruction otherwise.
\<close>

definition put_near_ptr_operand :: "GumX86Writer \<Rightarrow> GumAddress \<Rightarrow> bool \<times> GumX86Writer" where
  [writer_defs]: "put_near_ptr_operand self address =
     (if w_target_cpu self = GUM_CPU_IA32
      then (if G_MAXUINT32 < address then (False, self)
            else (True, gum_x86_writer_commit (poke32 self 0 (ucast address)) 4))
      else
        let distance = address - (w_pc self + 4)
        in if \<not> GUM_IS_WITHIN_INT32_RANGE distance then (False, self)
           else (True, gum_x86_writer_commit (poke32 self 0 (ucast distance)) 4))"

definition gum_x86_writer_put_add_reg_near_ptr ::
    "GumX86Writer \<Rightarrow> GumX86Reg \<Rightarrow> GumAddress \<Rightarrow> bool \<times> GumX86Writer" where
  [writer_defs]: "gum_x86_writer_put_add_reg_near_ptr self dst_reg src_address =
     (let dst = gum_x86_writer_describe_cpu_reg self dst_reg
      in ensure (gum_x86_writer_put_prefix_for_registers self dst 32 dst []) (\<lambda>self.
         let self = poke8 self 0 0x03;
             self = poke8 self 1 (ucast (0x05 OR push_bit 3 (ri_index dst)));
             self = gum_x86_writer_commit self 2
         in put_near_ptr_operand self src_address))"

definition gum_x86_writer_put_sub_reg_imm ::
    "GumX86Writer \<Rightarrow> GumX86Reg \<Rightarrow> gssize \<Rightarrow> bool \<times> GumX86Writer" where
  [writer_defs]: "gum_x86_writer_put_sub_reg_imm self reg imm_value =
     gum_x86_writer_put_add_or_sub_reg_imm self reg imm_value False"

definition gum_x86_writer_put_sub_reg_reg ::
    "GumX86Writer \<Rightarrow> GumX86Reg \<Rightarrow> GumX86Reg \<Rightarrow> bool \<times> GumX86Writer" where
  [writer_defs]: "gum_x86_writer_put_sub_reg_reg self dst_reg src_reg =
     (let dst = gum_x86_writer_describe_cpu_reg self dst_reg;
          src = gum_x86_writer_describe_cpu_reg self src_reg
      in if ri_width src \<noteq> ri_width dst then (False, self)
         else ensure (gum_x86_writer_put_prefix_for_registers self dst 32 dst [src]) (\<lambda>self.
           let self = poke8 self 0 0x29;
               self = poke8 self 1 (ucast (0xc0 OR push_bit 3 (ri_index src) OR ri_index dst))
           in (True, gum_x86_writer_commit self 2)))"

definition gum_x86_writer_put_sub_reg_near_ptr ::
    "GumX86Writer \<Rightarrow> GumX86Reg \<Rightarrow> GumAddress \<Rightarrow> bool \<times> GumX86Writer" where
  [writer_defs]: "gum_x86_writer_put_sub_reg_near_ptr self dst_reg src_address =
     (let dst = gum_x86_writer_describe_cpu_reg self dst_reg
      in ensure (gum_x86_writer_put_prefix_for_registers self dst 32 dst []) (\<lambda>self.
         let self = poke8 self 0 0x2b;
             self = poke8 self 1 (ucast (0x05 OR push_bit 3 (ri_index dst)));
             self = gum_x86_writer_commit self 2
         in put_near_ptr_operand self src_address))"

section \<open>Increment, decrement and atomic operations\<close>

definition gum_x86_writer_put_inc_reg :: "GumX86Writer \<Rightarrow> GumX86Reg \<Rightarrow> bool \<times> GumX86Writer" where
  [writer_defs]: "gum_x86_writer_put_inc_reg self reg =
     (let ri = gum_x86_writer_describe_cpu_reg self reg
      in if w_target_cpu self \<noteq> GUM_CPU_AMD64 \<and> (ri_width ri \<noteq> 32 \<or> ri_index_is_extended ri)
         then (False, self)
         else ensure (gum_x86_writer_put_prefix_for_registers self ri 32 ri []) (\<lambda>self.
           let self = poke8 self 0 0xff;
               self = poke8 self 1 (ucast (0xc0 OR ri_index ri))
           in (True, gum_x86_writer_commit self 2)))"

definition gum_x86_writer_put_dec_reg :: "GumX86Writer \<Rightarrow> GumX86Reg \<Rightarrow> bool \<times> GumX86Writer" where
  [writer_defs]: "gum_x86_writer_put_dec_reg self reg =
     (let ri = gum_x86_writer_describe_cpu_reg self reg
      in if w_target_cpu self \<noteq> GUM_CPU_AMD64 \<and> (ri_width ri \<noteq> 32 \<or> ri_index_is_extended ri)
         then (False, self)
         else ensure (gum_x86_writer_put_prefix_for_registers self ri 32 ri []) (\<lambda>self.
           let self = poke8 self 0 0xff;
               self = poke8 self 1 (ucast (0xc8 OR ri_index ri))
           in (True, gum_x86_writer_commit self 2)))"

definition gum_x86_writer_put_inc_or_dec_reg_ptr ::
    "GumX86Writer \<Rightarrow> GumX86PtrTarget \<Rightarrow> GumX86Reg \<Rightarrow> bool \<Rightarrow> bool \<times> GumX86Writer" where
  [writer_defs]: "gum_x86_writer_put_inc_or_dec_reg_ptr self target reg increment =
     (let ri = gum_x86_writer_describe_cpu_reg self reg;
          self = (if w_target_cpu self = GUM_CPU_AMD64
                  then (if target = GUM_X86_PTR_QWORD
                        then gum_x86_writer_put_u8 self (0x48 OR (if ri_index_is_extended ri then 0x01 else 0x00))
                        else if ri_index_is_extended ri then gum_x86_writer_put_u8 self 0x41
                        else self)
                  else self);
          tail = (\<lambda>self. (True, gum_x86_writer_put_u8 self
                             (ucast ((if increment then 0x00 else 0x08) OR ri_index ri))))
      in case target of
           GUM_X86_PTR_BYTE \<Rightarrow> tail (gum_x86_writer_put_u8 self 0xfe)
         | GUM_X86_PTR_QWORD \<Rightarrow>
             (if w_target_cpu self \<noteq> GUM_CPU_AMD64 then (False, self)
              else tail (gum_x86_writer_put_u8 self 0xff))
         | GUM_X86_PTR_DWORD \<Rightarrow> tail (gum_x86_writer_put_u8 self 0xff))"

definition gum_x86_writer_put_inc_reg_ptr ::
    "GumX86Writer \<Rightarrow> GumX86PtrTarget \<Rightarrow> GumX86Reg \<Rightarrow> bool \<times> GumX86Writer" where
  [writer_defs]: "gum_x86_writer_put_inc_reg_ptr self target reg =
     gum_x86_writer_put_inc_or_dec_reg_ptr self target reg True"

definition gum_x86_writer_put_dec_reg_ptr ::
    "GumX86Writer \<Rightarrow> GumX86PtrTarget \<Rightarrow> GumX86Reg \<Rightarrow> bool \<times> GumX86Writer" where
  [writer_defs]: "gum_x86_writer_put_dec_reg_ptr self target reg =
     gum_x86_writer_put_inc_or_dec_reg_ptr self target reg False"

text \<open>
  \<^verbatim>\<open>self->code[-1] |= 0x40; gum_x86_writer_put_u8 (self, 0x00);\<close> for a base register whose plain
  form would mean something else, and the SIB byte for the stack pointer.
\<close>

definition fixup_indirect_base :: "GumX86Writer \<Rightarrow> GumX86RegInfo \<Rightarrow> GumX86Writer" where
  [writer_defs]: "fixup_indirect_base self dst =
     (if ri_meta dst = GUM_X86_META_XSP then gum_x86_writer_put_u8 self 0x24
      else if ri_meta dst = GUM_X86_META_XBP
      then gum_x86_writer_put_u8 (poke8 self (- 1) (w_mem self (w_code self - 1) OR 0x40)) 0x00
      else self)"

definition gum_x86_writer_put_lock_xadd_reg_ptr_reg ::
    "GumX86Writer \<Rightarrow> GumX86Reg \<Rightarrow> GumX86Reg \<Rightarrow> bool \<times> GumX86Writer" where
  [writer_defs]: "gum_x86_writer_put_lock_xadd_reg_ptr_reg self dst_reg src_reg =
     (let dst = gum_x86_writer_describe_cpu_reg self dst_reg;
          src = gum_x86_writer_describe_cpu_reg self src_reg;
          self = gum_x86_writer_put_u8 self 0xf0
      in ensure (gum_x86_writer_put_prefix_for_registers self src 32 dst [src]) (\<lambda>self.
         let self = poke8 self 0 0x0f;
             self = poke8 self 1 0xc1;
             self = poke8 self 2 (ucast (0x00 OR push_bit 3 (ri_index src) OR ri_index dst));
             self = gum_x86_writer_commit self 3
         in (True, fixup_indirect_base self dst)))"

definition gum_x86_writer_put_lock_cmpxchg_reg_ptr_reg ::
    "GumX86Writer \<Rightarrow> GumX86Reg \<Rightarrow> GumX86Reg \<Rightarrow> bool \<times> GumX86Writer" where
  [writer_defs]: "gum_x86_writer_put_lock_cmpxchg_reg_ptr_reg self dst_reg src_reg =
     (let dst = gum_x86_writer_describe_cpu_reg self dst_reg;
          src = gum_x86_writer_describe_cpu_reg self src_reg
      in if (if w_target_cpu self = GUM_CPU_IA32 then ri_width dst \<noteq> 32 else ri_width dst \<noteq> 64)
         then (False, self)
         else if ri_index_is_extended dst then (False, self)
         else if ri_width src \<noteq> 32 \<or> ri_index_is_extended src then (False, self)
         else
           let self = poke8 self 0 0xf0;
               self = poke8 self 1 0x0f;
               self = poke8 self 2 0xb1;
               self = poke8 self 3 (ucast (0x00 OR push_bit 3 (ri_index src) OR ri_index dst));
               self = gum_x86_writer_commit self 4
           in (True, fixup_indirect_base self dst))"

definition gum_x86_writer_put_lock_inc_or_dec_imm32_ptr ::
    "GumX86Writer \<Rightarrow> gpointer \<Rightarrow> bool \<Rightarrow> bool \<times> GumX86Writer" where
  [writer_defs]: "gum_x86_writer_put_lock_inc_or_dec_imm32_ptr self target increment =
     (let self = poke8 self 0 0xf0;
          self = poke8 self 1 0xff;
          self = poke8 self 2 (if increment then 0x05 else 0x0d)
      in if w_target_cpu self = GUM_CPU_IA32
         then (True, gum_x86_writer_commit (poke32 self 3 (ucast target)) 7)
         else
           let distance = target - (w_pc self + 7)
           in if \<not> GUM_IS_WITHIN_INT32_RANGE distance then (False, self)
              else (True, gum_x86_writer_commit (poke32 self 3 (ucast distance)) 7))"

definition gum_x86_writer_put_lock_inc_imm32_ptr :: "GumX86Writer \<Rightarrow> gpointer \<Rightarrow> bool \<times> GumX86Writer" where
  [writer_defs]: "gum_x86_writer_put_lock_inc_imm32_ptr self target =
     gum_x86_writer_put_lock_inc_or_dec_imm32_ptr self target True"

definition gum_x86_writer_put_lock_dec_imm32_ptr :: "GumX86Writer \<Rightarrow> gpointer \<Rightarrow> bool \<times> GumX86Writer" where
  [writer_defs]: "gum_x86_writer_put_lock_dec_imm32_ptr self target =
     gum_x86_writer_put_lock_inc_or_dec_imm32_ptr self target False"

section \<open>Logic and shifts\<close>

definition gum_x86_writer_put_and_reg_reg ::
    "GumX86Writer \<Rightarrow> GumX86Reg \<Rightarrow> GumX86Reg \<Rightarrow> bool \<times> GumX86Writer" where
  [writer_defs]: "gum_x86_writer_put_and_reg_reg self dst_reg src_reg =
     (let dst = gum_x86_writer_describe_cpu_reg self dst_reg;
          src = gum_x86_writer_describe_cpu_reg self src_reg
      in if ri_width dst \<noteq> ri_width src then (False, self)
         else if ri_index_is_extended dst \<or> ri_index_is_extended src then (False, self)
         else ensure (gum_x86_writer_put_prefix_for_reg_info self dst 0) (\<lambda>self.
           let self = poke8 self 0 0x21;
               self = poke8 self 1 (ucast (0xc0 OR push_bit 3 (ri_index src) OR ri_index dst))
           in (True, gum_x86_writer_commit self 2)))"

definition gum_x86_writer_put_and_reg_u32 ::
    "GumX86Writer \<Rightarrow> GumX86Reg \<Rightarrow> guint32 \<Rightarrow> bool \<times> GumX86Writer" where
  [writer_defs]: "gum_x86_writer_put_and_reg_u32 self reg imm_value =
     (let ri = gum_x86_writer_describe_cpu_reg self reg
      in ensure (gum_x86_writer_put_prefix_for_registers self ri 32 ri []) (\<lambda>self.
         if ri_meta ri = GUM_X86_META_XAX
         then
           let self = poke8 self 0 0x25;
               self = poke32 self 1 imm_value
           in (True, gum_x86_writer_commit self 5)
         else
           let self = poke8 self 0 0x81;
               self = poke8 self 1 (ucast (0xe0 OR ri_index ri));
               self = poke32 self 2 imm_value
           in (True, gum_x86_writer_commit self 6)))"

definition gum_x86_writer_put_shl_reg_u8 ::
    "GumX86Writer \<Rightarrow> GumX86Reg \<Rightarrow> guint8 \<Rightarrow> bool \<times> GumX86Writer" where
  [writer_defs]: "gum_x86_writer_put_shl_reg_u8 self reg imm_value =
     (let ri = gum_x86_writer_describe_cpu_reg self reg
      in ensure (gum_x86_writer_put_prefix_for_registers self ri 32 ri []) (\<lambda>self.
         let self = poke8 self 0 0xc1;
             self = poke8 self 1 (ucast (0xe0 OR ri_index ri));
             self = poke8 self 2 imm_value
         in (True, gum_x86_writer_commit self 3)))"

definition gum_x86_writer_put_shr_reg_u8 ::
    "GumX86Writer \<Rightarrow> GumX86Reg \<Rightarrow> guint8 \<Rightarrow> bool \<times> GumX86Writer" where
  [writer_defs]: "gum_x86_writer_put_shr_reg_u8 self reg imm_value =
     (let ri = gum_x86_writer_describe_cpu_reg self reg
      in ensure (gum_x86_writer_put_prefix_for_registers self ri 32 ri []) (\<lambda>self.
         let self = poke8 self 0 0xc1;
             self = poke8 self 1 (ucast (0xe8 OR ri_index ri));
             self = poke8 self 2 imm_value
         in (True, gum_x86_writer_commit self 3)))"

definition gum_x86_writer_put_xor_reg_reg ::
    "GumX86Writer \<Rightarrow> GumX86Reg \<Rightarrow> GumX86Reg \<Rightarrow> bool \<times> GumX86Writer" where
  [writer_defs]: "gum_x86_writer_put_xor_reg_reg self dst_reg src_reg =
     (let dst = gum_x86_writer_describe_cpu_reg self dst_reg;
          src = gum_x86_writer_describe_cpu_reg self src_reg
      in if ri_width dst \<noteq> ri_width src then (False, self)
         else if ri_index_is_extended dst \<or> ri_index_is_extended src then (False, self)
         else ensure (gum_x86_writer_put_prefix_for_reg_info self dst 0) (\<lambda>self.
           let self = poke8 self 0 0x31;
               self = poke8 self 1 (ucast (0xc0 OR push_bit 3 (ri_index src) OR ri_index dst))
           in (True, gum_x86_writer_commit self 2)))"

section \<open>Moves\<close>

definition gum_x86_writer_put_mov_reg_reg ::
    "GumX86Writer \<Rightarrow> GumX86Reg \<Rightarrow> GumX86Reg \<Rightarrow> bool \<times> GumX86Writer" where
  [writer_defs]: "gum_x86_writer_put_mov_reg_reg self dst_reg src_reg =
     (let dst = gum_x86_writer_describe_cpu_reg self dst_reg;
          src = gum_x86_writer_describe_cpu_reg self src_reg
      in if ri_width dst \<noteq> ri_width src then (False, self)
         else ensure (gum_x86_writer_put_prefix_for_registers self dst 32 dst [src]) (\<lambda>self.
           let self = poke8 self 0 0x89;
               self = poke8 self 1 (ucast (0xc0 OR push_bit 3 (ri_index src) OR ri_index dst))
           in (True, gum_x86_writer_commit self 2)))"

definition gum_x86_writer_put_mov_reg_u32 ::
    "GumX86Writer \<Rightarrow> GumX86Reg \<Rightarrow> guint32 \<Rightarrow> bool \<times> GumX86Writer" where
  [writer_defs]: "gum_x86_writer_put_mov_reg_u32 self dst_reg imm_value =
     (let dst = gum_x86_writer_describe_cpu_reg self dst_reg
      in if ri_width dst \<noteq> 32 then (False, self)
         else ensure (gum_x86_writer_put_prefix_for_reg_info self dst 0) (\<lambda>self.
           let self = poke8 self 0 (ucast (0xb8 OR ri_index dst));
               self = poke32 self 1 imm_value
           in (True, gum_x86_writer_commit self 5)))"

definition gum_x86_writer_put_mov_reg_u64 ::
    "GumX86Writer \<Rightarrow> GumX86Reg \<Rightarrow> guint64 \<Rightarrow> bool \<times> GumX86Writer" where
  [writer_defs]: "gum_x86_writer_put_mov_reg_u64 self dst_reg imm_value =
     (if w_target_cpu self \<noteq> GUM_CPU_AMD64 then (False, self)
      else
        let dst = gum_x86_writer_describe_cpu_reg self dst_reg
        in if ri_width dst \<noteq> 64 then (False, self)
           else ensure (gum_x86_writer_put_prefix_for_reg_info self dst 0) (\<lambda>self.
             let self = poke8 self 0 (ucast (0xb8 OR ri_index dst));
                 self = poke64 self 1 imm_value
             in (True, gum_x86_writer_commit self 9)))"

definition gum_x86_writer_put_mov_reg_address :: "GumX86Writer \<Rightarrow> GumX86Reg \<Rightarrow> GumAddress \<Rightarrow> GumX86Writer" where
  [writer_defs]: "gum_x86_writer_put_mov_reg_address self dst_reg address =
     (let dst = gum_x86_writer_describe_cpu_reg self dst_reg
      in if ri_width dst = 32
         then snd (gum_x86_writer_put_mov_reg_u32 self dst_reg (ucast address))
         else snd (gum_x86_writer_put_mov_reg_u64 self dst_reg address))"

definition gum_x86_writer_put_mov_reg_offset_ptr_u32 ::
    "GumX86Writer \<Rightarrow> GumX86Reg \<Rightarrow> gssize \<Rightarrow> guint32 \<Rightarrow> bool \<times> GumX86Writer" where
  [writer_defs]: "gum_x86_writer_put_mov_reg_offset_ptr_u32 self dst_reg dst_offset imm_value =
     (let dst = gum_x86_writer_describe_cpu_reg self dst_reg
      in if (if w_target_cpu self = GUM_CPU_IA32 then ri_width dst \<noteq> 32 else ri_width dst \<noteq> 64)
         then (False, self)
         else
           let offset_fits_in_i8 = GUM_IS_WITHIN_INT8_RANGE dst_offset;
               self = gum_x86_writer_put_u8 self 0xc7;
               self = (if dst_offset = 0 \<and> ri_meta dst \<noteq> GUM_X86_META_XBP
                       then
                         let self = gum_x86_writer_put_u8 self (ucast (0x00 OR ri_index dst))
                         in if ri_meta dst = GUM_X86_META_XSP then gum_x86_writer_put_u8 self 0x24 else self
                       else
                         let self = gum_x86_writer_put_u8 self
                                      (ucast ((if offset_fits_in_i8 then 0x40 else 0x80) OR ri_index dst));
                             self = (if ri_meta dst = GUM_X86_META_XSP
                                     then gum_x86_writer_put_u8 self 0x24 else self)
                         in if offset_fits_in_i8
                            then gum_x86_writer_put_u8 self (ucast dst_offset)
                            else gum_x86_writer_commit (poke32 self 0 (ucast dst_offset)) 4);
               self = poke32 self 0 imm_value
           in (True, gum_x86_writer_commit self 4))"

definition gum_x86_writer_put_mov_reg_ptr_u32 :: "GumX86Writer \<Rightarrow> GumX86Reg \<Rightarrow> guint32 \<Rightarrow> GumX86Writer" where
  [writer_defs]: "gum_x86_writer_put_mov_reg_ptr_u32 self dst_reg imm_value =
     snd (gum_x86_writer_put_mov_reg_offset_ptr_u32 self dst_reg 0 imm_value)"

definition gum_x86_writer_put_mov_reg_offset_ptr_reg ::
    "GumX86Writer \<Rightarrow> GumX86Reg \<Rightarrow> gssize \<Rightarrow> GumX86Reg \<Rightarrow> bool \<times> GumX86Writer" where
  [writer_defs]: "gum_x86_writer_put_mov_reg_offset_ptr_reg self dst_reg dst_offset src_reg =
     (let dst = gum_x86_writer_describe_cpu_reg self dst_reg;
          src = gum_x86_writer_describe_cpu_reg self src_reg
      in if (if w_target_cpu self = GUM_CPU_IA32
             then ri_width dst \<noteq> 32 \<or> ri_width src \<noteq> 32 else ri_width dst \<noteq> 64)
         then (False, self)
         else
           let offset_fits_in_i8 = GUM_IS_WITHIN_INT8_RANGE dst_offset
           in ensure (gum_x86_writer_put_prefix_for_registers self src 32 dst [src]) (\<lambda>self.
              let self = gum_x86_writer_put_u8 self 0x89
              in (True,
                  if dst_offset = 0 \<and> ri_meta dst \<noteq> GUM_X86_META_XBP
                  then
                    let self = gum_x86_writer_put_u8 self
                                 (ucast (0x00 OR push_bit 3 (ri_index src) OR ri_index dst))
                    in if ri_meta dst = GUM_X86_META_XSP then gum_x86_writer_put_u8 self 0x24 else self
                  else
                    let self = gum_x86_writer_put_u8 self
                                 (ucast ((if offset_fits_in_i8 then 0x40 else 0x80)
                                    OR push_bit 3 (ri_index src) OR ri_index dst));
                        self = (if ri_meta dst = GUM_X86_META_XSP
                                then gum_x86_writer_put_u8 self 0x24 else self)
                    in if offset_fits_in_i8
                       then gum_x86_writer_put_s8 self (ucast dst_offset)
                       else gum_x86_writer_commit (poke32 self 0 (ucast dst_offset)) 4)))"

definition gum_x86_writer_put_mov_reg_ptr_reg :: "GumX86Writer \<Rightarrow> GumX86Reg \<Rightarrow> GumX86Reg \<Rightarrow> GumX86Writer" where
  [writer_defs]: "gum_x86_writer_put_mov_reg_ptr_reg self dst_reg src_reg =
     snd (gum_x86_writer_put_mov_reg_offset_ptr_reg self dst_reg 0 src_reg)"

definition gum_x86_writer_put_mov_reg_reg_offset_ptr ::
    "GumX86Writer \<Rightarrow> GumX86Reg \<Rightarrow> GumX86Reg \<Rightarrow> gssize \<Rightarrow> bool \<times> GumX86Writer" where
  [writer_defs]: "gum_x86_writer_put_mov_reg_reg_offset_ptr self dst_reg src_reg src_offset =
     (let dst = gum_x86_writer_describe_cpu_reg self dst_reg;
          src = gum_x86_writer_describe_cpu_reg self src_reg
      in if (if w_target_cpu self = GUM_CPU_IA32
             then ri_width dst \<noteq> 32 \<or> ri_width src \<noteq> 32 else ri_width src \<noteq> 64)
         then (False, self)
         else
           let offset_fits_in_i8 = GUM_IS_WITHIN_INT8_RANGE src_offset
           in ensure (gum_x86_writer_put_prefix_for_registers self dst 32 src [dst]) (\<lambda>self.
              let self = poke8 self 0 0x8b;
                  self = poke8 self 1 (ucast ((if offset_fits_in_i8 then 0x40 else 0x80)
                                         OR push_bit 3 (ri_index dst) OR ri_index src));
                  self = gum_x86_writer_commit self 2;
                  self = (if ri_meta src = GUM_X86_META_XSP then gum_x86_writer_put_u8 self 0x24 else self)
              in (True,
                  if offset_fits_in_i8
                  then gum_x86_writer_put_s8 self (ucast src_offset)
                  else gum_x86_writer_commit (poke32 self 0 (ucast src_offset)) 4)))"

definition gum_x86_writer_put_mov_reg_reg_ptr :: "GumX86Writer \<Rightarrow> GumX86Reg \<Rightarrow> GumX86Reg \<Rightarrow> GumX86Writer" where
  [writer_defs]: "gum_x86_writer_put_mov_reg_reg_ptr self dst_reg src_reg =
     snd (gum_x86_writer_put_mov_reg_reg_offset_ptr self dst_reg src_reg 0)"

definition gum_x86_writer_put_mov_reg_base_index_scale_offset_ptr ::
    "GumX86Writer \<Rightarrow> GumX86Reg \<Rightarrow> GumX86Reg \<Rightarrow> GumX86Reg \<Rightarrow> guint8 \<Rightarrow> gssize \<Rightarrow> bool \<times> GumX86Writer" where
  [writer_defs]: "gum_x86_writer_put_mov_reg_base_index_scale_offset_ptr self dst_reg base_reg index_reg scale offset =
     (let dst = gum_x86_writer_describe_cpu_reg self dst_reg;
          base = gum_x86_writer_describe_cpu_reg self base_reg;
          index = gum_x86_writer_describe_cpu_reg self index_reg;
          scale_lookup = [0xff, 0, 1, 0xff, 2, 0xff, 0xff, 0xff, 3] :: guint8 list
      in if ri_index_is_extended dst then (False, self)
         else if ri_width base \<noteq> ri_width index then (False, self)
         else if ri_index_is_extended base \<or> ri_index_is_extended index then (False, self)
         else if ri_meta index = GUM_X86_META_XSP then (False, self)
         else if scale \<noteq> 1 \<and> scale \<noteq> 2 \<and> scale \<noteq> 4 \<and> scale \<noteq> 8 then (False, self)
         else
           let offset_fits_in_i8 = GUM_IS_WITHIN_INT8_RANGE offset
           in if w_target_cpu self = GUM_CPU_AMD64
                 \<and> (ri_width dst \<noteq> 64 \<or> ri_width base \<noteq> 64 \<or> ri_width index \<noteq> 64)
              then (False, self)
              else
                let self = (if w_target_cpu self = GUM_CPU_AMD64
                            then gum_x86_writer_put_u8 self 0x48 else self);
                    self = poke8 self 0 0x8b;
                    self = poke8 self 1 (ucast ((if offset_fits_in_i8 then 0x40 else 0x80)
                                           OR push_bit 3 (ri_index dst) OR 0x04));
                    self = poke8 self 2 (ucast (push_bit 6 (ucast (scale_lookup ! unat scale))
                                           OR push_bit 3 (ri_index index) OR ri_index base));
                    self = gum_x86_writer_commit self 3
                in (True,
                    if offset_fits_in_i8
                    then gum_x86_writer_put_s8 self (ucast offset)
                    else gum_x86_writer_commit (poke32 self 0 (ucast offset)) 4))"

definition gum_x86_writer_put_mov_reg_near_ptr ::
    "GumX86Writer \<Rightarrow> GumX86Reg \<Rightarrow> GumAddress \<Rightarrow> bool \<times> GumX86Writer" where
  [writer_defs]: "gum_x86_writer_put_mov_reg_near_ptr self dst_reg src_address =
     (let dst = gum_x86_writer_describe_cpu_reg self dst_reg
      in ensure (gum_x86_writer_put_prefix_for_registers self dst 32 dst []) (\<lambda>self.
         let self = (if w_target_cpu self = GUM_CPU_IA32 \<and> ri_meta dst = GUM_X86_META_XAX
                     then gum_x86_writer_put_u8 self 0xa1
                     else
                       let self = poke8 self 0 0x8b;
                           self = poke8 self 1 (ucast (push_bit 3 (ri_index dst) OR 0x05))
                       in gum_x86_writer_commit self 2)
         in put_near_ptr_operand self src_address))"

definition gum_x86_writer_put_mov_near_ptr_reg ::
    "GumX86Writer \<Rightarrow> GumAddress \<Rightarrow> GumX86Reg \<Rightarrow> bool \<times> GumX86Writer" where
  [writer_defs]: "gum_x86_writer_put_mov_near_ptr_reg self dst_address src_reg =
     (let src = gum_x86_writer_describe_cpu_reg self src_reg
      in ensure (gum_x86_writer_put_prefix_for_registers self src 32 src []) (\<lambda>self.
         let self = (if w_target_cpu self = GUM_CPU_IA32 \<and> ri_meta src = GUM_X86_META_XAX
                     then gum_x86_writer_put_u8 self 0xa3
                     else
                       let self = poke8 self 0 0x89;
                           self = poke8 self 1 (ucast (push_bit 3 (ri_index src) OR 0x05))
                       in gum_x86_writer_commit self 2)
         in put_near_ptr_operand self dst_address))"

definition gum_x86_writer_put_mov_reg_imm_ptr ::
    "GumX86Writer \<Rightarrow> GumX86Reg \<Rightarrow> guint32 \<Rightarrow> bool \<times> GumX86Writer" where
  [writer_defs]: "gum_x86_writer_put_mov_reg_imm_ptr self dst_reg address =
     (let dst = gum_x86_writer_describe_cpu_reg self dst_reg
      in ensure (gum_x86_writer_put_prefix_for_registers self dst 32 dst []) (\<lambda>self.
         let self = poke8 self 0 0x8b;
             self = poke8 self 1 (ucast (push_bit 3 (ri_index dst) OR 0x04));
             self = poke8 self 2 0x25;
             self = poke32 self 3 address
         in (True, gum_x86_writer_commit self 7)))"

definition gum_x86_writer_put_mov_imm_ptr_reg ::
    "GumX86Writer \<Rightarrow> guint32 \<Rightarrow> GumX86Reg \<Rightarrow> bool \<times> GumX86Writer" where
  [writer_defs]: "gum_x86_writer_put_mov_imm_ptr_reg self address src_reg =
     (let src = gum_x86_writer_describe_cpu_reg self src_reg
      in ensure (gum_x86_writer_put_prefix_for_registers self src 32 src []) (\<lambda>self.
         let self = poke8 self 0 0x89;
             self = poke8 self 1 (ucast (push_bit 3 (ri_index src) OR 0x04));
             self = poke8 self 2 0x25;
             self = poke32 self 3 address
         in (True, gum_x86_writer_commit self 7)))"

definition gum_x86_writer_put_mov_fs_u32_ptr_reg ::
    "GumX86Writer \<Rightarrow> guint32 \<Rightarrow> GumX86Reg \<Rightarrow> bool \<times> GumX86Writer" where
  [writer_defs]: "gum_x86_writer_put_mov_fs_u32_ptr_reg self fs_offset src_reg =
     gum_x86_writer_put_mov_imm_ptr_reg (gum_x86_writer_put_u8 self 0x64) fs_offset src_reg"

definition gum_x86_writer_put_mov_reg_fs_u32_ptr ::
    "GumX86Writer \<Rightarrow> GumX86Reg \<Rightarrow> guint32 \<Rightarrow> bool \<times> GumX86Writer" where
  [writer_defs]: "gum_x86_writer_put_mov_reg_fs_u32_ptr self dst_reg fs_offset =
     gum_x86_writer_put_mov_reg_imm_ptr (gum_x86_writer_put_u8 self 0x64) dst_reg fs_offset"

definition gum_x86_writer_put_mov_gs_u32_ptr_reg ::
    "GumX86Writer \<Rightarrow> guint32 \<Rightarrow> GumX86Reg \<Rightarrow> bool \<times> GumX86Writer" where
  [writer_defs]: "gum_x86_writer_put_mov_gs_u32_ptr_reg self fs_offset src_reg =
     gum_x86_writer_put_mov_imm_ptr_reg (gum_x86_writer_put_u8 self 0x65) fs_offset src_reg"

definition gum_x86_writer_put_mov_reg_gs_u32_ptr ::
    "GumX86Writer \<Rightarrow> GumX86Reg \<Rightarrow> guint32 \<Rightarrow> bool \<times> GumX86Writer" where
  [writer_defs]: "gum_x86_writer_put_mov_reg_gs_u32_ptr self dst_reg fs_offset =
     gum_x86_writer_put_mov_reg_imm_ptr (gum_x86_writer_put_u8 self 0x65) dst_reg fs_offset"

definition gum_x86_writer_put_movq_xmm0_esp_offset_ptr :: "GumX86Writer \<Rightarrow> guint8 \<Rightarrow> GumX86Writer" where
  [writer_defs]: "gum_x86_writer_put_movq_xmm0_esp_offset_ptr self offset =
     (let self = poke8 self 0 0xf3; self = poke8 self 1 0x0f; self = poke8 self 2 0x7e;
          self = poke8 self 3 0x44; self = poke8 self 4 0x24; self = poke8 self 5 offset
      in gum_x86_writer_commit self 6)"

definition gum_x86_writer_put_movq_eax_offset_ptr_xmm0 :: "GumX86Writer \<Rightarrow> guint8 \<Rightarrow> GumX86Writer" where
  [writer_defs]: "gum_x86_writer_put_movq_eax_offset_ptr_xmm0 self offset =
     (let self = poke8 self 0 0x66; self = poke8 self 1 0x0f; self = poke8 self 2 0xd6;
          self = poke8 self 3 0x40; self = poke8 self 4 offset
      in gum_x86_writer_commit self 5)"

definition gum_x86_writer_put_movdqu_xmm0_esp_offset_ptr :: "GumX86Writer \<Rightarrow> guint8 \<Rightarrow> GumX86Writer" where
  [writer_defs]: "gum_x86_writer_put_movdqu_xmm0_esp_offset_ptr self offset =
     (let self = poke8 self 0 0xf3; self = poke8 self 1 0x0f; self = poke8 self 2 0x6f;
          self = poke8 self 3 0x44; self = poke8 self 4 0x24; self = poke8 self 5 offset
      in gum_x86_writer_commit self 6)"

definition gum_x86_writer_put_movdqu_eax_offset_ptr_xmm0 :: "GumX86Writer \<Rightarrow> guint8 \<Rightarrow> GumX86Writer" where
  [writer_defs]: "gum_x86_writer_put_movdqu_eax_offset_ptr_xmm0 self offset =
     (let self = poke8 self 0 0xf3; self = poke8 self 1 0x0f; self = poke8 self 2 0x7f;
          self = poke8 self 3 0x40; self = poke8 self 4 offset
      in gum_x86_writer_commit self 5)"

definition gum_x86_writer_put_lea_reg_reg_offset ::
    "GumX86Writer \<Rightarrow> GumX86Reg \<Rightarrow> GumX86Reg \<Rightarrow> gssize \<Rightarrow> bool \<times> GumX86Writer" where
  [writer_defs]: "gum_x86_writer_put_lea_reg_reg_offset self dst_reg src_reg src_offset =
     (let dst = gum_x86_writer_describe_cpu_reg self dst_reg;
          src = gum_x86_writer_describe_cpu_reg self src_reg
      in if ri_index_is_extended dst \<or> ri_index_is_extended src then (False, self)
         else
           let self = (if w_target_cpu self = GUM_CPU_AMD64
                       then
                         let self = (if ri_width src = 32 then gum_x86_writer_put_u8 self 0x67 else self)
                         in if ri_width dst = 64 then gum_x86_writer_put_u8 self 0x48 else self
                       else self);
               self = poke8 self 0 0x8d;
               self = poke8 self 1 (ucast (0x80 OR push_bit 3 (ri_index dst) OR ri_index src));
               self = gum_x86_writer_commit self 2;
               self = (if ri_meta src = GUM_X86_META_XSP then gum_x86_writer_put_u8 self 0x24 else self);
               self = poke32 self 0 (ucast src_offset)
           in (True, gum_x86_writer_commit self 4))"

definition gum_x86_writer_put_xchg_reg_reg_ptr ::
    "GumX86Writer \<Rightarrow> GumX86Reg \<Rightarrow> GumX86Reg \<Rightarrow> bool \<times> GumX86Writer" where
  [writer_defs]: "gum_x86_writer_put_xchg_reg_reg_ptr self left_reg right_reg =
     (let left = gum_x86_writer_describe_cpu_reg self left_reg;
          right = gum_x86_writer_describe_cpu_reg self right_reg
      in if (if w_target_cpu self = GUM_CPU_IA32 then ri_width right \<noteq> 32 else ri_width right \<noteq> 64)
         then (False, self)
         else ensure (gum_x86_writer_put_prefix_for_reg_info self left 1) (\<lambda>self.
           let self = poke8 self 0 0x87;
               self = poke8 self 1 (ucast (0x00 OR push_bit 3 (ri_index left) OR ri_index right));
               self = gum_x86_writer_commit self 2
           in (True, fixup_indirect_base self right)))"

section \<open>The stack\<close>

definition gum_x86_writer_put_push_u32 :: "GumX86Writer \<Rightarrow> guint32 \<Rightarrow> GumX86Writer" where
  [writer_defs]: "gum_x86_writer_put_push_u32 self imm_value =
     (let self = poke8 self 0 0x68;
          self = poke32 self 1 imm_value
      in gum_x86_writer_commit self 5)"

definition gum_x86_writer_put_push_near_ptr ::
    "GumX86Writer \<Rightarrow> GumAddress \<Rightarrow> bool \<times> GumX86Writer" where
  [writer_defs]: "gum_x86_writer_put_push_near_ptr self address =
     (let self = poke8 self 0 0xff;
          self = poke8 self 1 0x35
      in if w_target_cpu self = GUM_CPU_IA32
         then (if G_MAXUINT32 < address then (False, self)
               else (True, gum_x86_writer_commit (poke32 self 2 (ucast address)) 6))
         else
           let distance = address - (w_pc self + 6)
           in if \<not> GUM_IS_WITHIN_INT32_RANGE distance then (False, self)
              else (True, gum_x86_writer_commit (poke32 self 2 (ucast distance)) 6))"

definition gum_x86_writer_put_push_reg :: "GumX86Writer \<Rightarrow> GumX86Reg \<Rightarrow> bool \<times> GumX86Writer" where
  [writer_defs]: "gum_x86_writer_put_push_reg self reg =
     (let ri = gum_x86_writer_describe_cpu_reg self reg
      in if (if w_target_cpu self = GUM_CPU_IA32 then ri_width ri \<noteq> 32 else ri_width ri \<noteq> 64)
         then (False, self)
         else ensure (gum_x86_writer_put_prefix_for_registers self ri 64 ri []) (\<lambda>self.
           (True, gum_x86_writer_put_u8 self (ucast (0x50 OR ri_index ri)))))"

definition gum_x86_writer_put_pop_reg :: "GumX86Writer \<Rightarrow> GumX86Reg \<Rightarrow> bool \<times> GumX86Writer" where
  [writer_defs]: "gum_x86_writer_put_pop_reg self reg =
     (let ri = gum_x86_writer_describe_cpu_reg self reg
      in if (if w_target_cpu self = GUM_CPU_IA32 then ri_width ri \<noteq> 32 else ri_width ri \<noteq> 64)
         then (False, self)
         else ensure (gum_x86_writer_put_prefix_for_registers self ri 64 ri []) (\<lambda>self.
           (True, gum_x86_writer_put_u8 self (ucast (0x58 OR ri_index ri)))))"

definition gum_x86_writer_put_push_imm_ptr :: "GumX86Writer \<Rightarrow> gpointer \<Rightarrow> GumX86Writer" where
  [writer_defs]: "gum_x86_writer_put_push_imm_ptr self imm_ptr =
     (let self = poke8 self 0 0xff;
          self = poke8 self 1 0x35;
          self = poke32 self 2 (ucast imm_ptr)
      in gum_x86_writer_commit self 6)"

definition gum_x86_writer_put_pushax :: "GumX86Writer \<Rightarrow> GumX86Writer" where
  [writer_defs]: "gum_x86_writer_put_pushax self =
     (if w_target_cpu self = GUM_CPU_IA32 then gum_x86_writer_put_u8 self 0x60
      else
      let self = snd (gum_x86_writer_put_push_reg self GUM_X86_RAX);
          self = snd (gum_x86_writer_put_push_reg self GUM_X86_RCX);
          self = snd (gum_x86_writer_put_push_reg self GUM_X86_RDX);
          self = snd (gum_x86_writer_put_push_reg self GUM_X86_RBX);
          self = snd (gum_x86_writer_put_lea_reg_reg_offset self GUM_X86_RAX GUM_X86_RSP (4 * 8));
          self = snd (gum_x86_writer_put_push_reg self GUM_X86_RAX);
          self = snd (gum_x86_writer_put_mov_reg_reg_offset_ptr self GUM_X86_RAX GUM_X86_RSP (4 * 8));
          self = snd (gum_x86_writer_put_push_reg self GUM_X86_RBP);
          self = snd (gum_x86_writer_put_push_reg self GUM_X86_RSI);
          self = snd (gum_x86_writer_put_push_reg self GUM_X86_RDI);
          self = snd (gum_x86_writer_put_push_reg self GUM_X86_R8);
          self = snd (gum_x86_writer_put_push_reg self GUM_X86_R9);
          self = snd (gum_x86_writer_put_push_reg self GUM_X86_R10);
          self = snd (gum_x86_writer_put_push_reg self GUM_X86_R11);
          self = snd (gum_x86_writer_put_push_reg self GUM_X86_R12);
          self = snd (gum_x86_writer_put_push_reg self GUM_X86_R13);
          self = snd (gum_x86_writer_put_push_reg self GUM_X86_R14)
      in snd (gum_x86_writer_put_push_reg self GUM_X86_R15))"

definition gum_x86_writer_put_popax :: "GumX86Writer \<Rightarrow> GumX86Writer" where
  [writer_defs]: "gum_x86_writer_put_popax self =
     (if w_target_cpu self = GUM_CPU_IA32 then gum_x86_writer_put_u8 self 0x61
      else
      let self = snd (gum_x86_writer_put_pop_reg self GUM_X86_R15);
          self = snd (gum_x86_writer_put_pop_reg self GUM_X86_R14);
          self = snd (gum_x86_writer_put_pop_reg self GUM_X86_R13);
          self = snd (gum_x86_writer_put_pop_reg self GUM_X86_R12);
          self = snd (gum_x86_writer_put_pop_reg self GUM_X86_R11);
          self = snd (gum_x86_writer_put_pop_reg self GUM_X86_R10);
          self = snd (gum_x86_writer_put_pop_reg self GUM_X86_R9);
          self = snd (gum_x86_writer_put_pop_reg self GUM_X86_R8);
          self = snd (gum_x86_writer_put_pop_reg self GUM_X86_RDI);
          self = snd (gum_x86_writer_put_pop_reg self GUM_X86_RSI);
          self = snd (gum_x86_writer_put_pop_reg self GUM_X86_RBP);
          self = snd (gum_x86_writer_put_lea_reg_reg_offset self GUM_X86_RSP GUM_X86_RSP 8);
          self = snd (gum_x86_writer_put_pop_reg self GUM_X86_RBX);
          self = snd (gum_x86_writer_put_pop_reg self GUM_X86_RDX);
          self = snd (gum_x86_writer_put_pop_reg self GUM_X86_RCX)
      in snd (gum_x86_writer_put_pop_reg self GUM_X86_RAX))"

definition gum_x86_writer_put_pushfx :: "GumX86Writer \<Rightarrow> GumX86Writer" where
  [writer_defs]: "gum_x86_writer_put_pushfx self = gum_x86_writer_put_u8 self 0x9c"

definition gum_x86_writer_put_popfx :: "GumX86Writer \<Rightarrow> GumX86Writer" where
  [writer_defs]: "gum_x86_writer_put_popfx self = gum_x86_writer_put_u8 self 0x9d"

definition gum_x86_writer_put_sahf :: "GumX86Writer \<Rightarrow> GumX86Writer" where
  [writer_defs]: "gum_x86_writer_put_sahf self = gum_x86_writer_put_u8 self 0x9e"

definition gum_x86_writer_put_lahf :: "GumX86Writer \<Rightarrow> GumX86Writer" where
  [writer_defs]: "gum_x86_writer_put_lahf self = gum_x86_writer_put_u8 self 0x9f"

section \<open>Tests and comparisons\<close>

definition gum_x86_writer_put_test_reg_reg ::
    "GumX86Writer \<Rightarrow> GumX86Reg \<Rightarrow> GumX86Reg \<Rightarrow> bool \<times> GumX86Writer" where
  [writer_defs]: "gum_x86_writer_put_test_reg_reg self reg_a reg_b =
     (let a = gum_x86_writer_describe_cpu_reg self reg_a;
          b = gum_x86_writer_describe_cpu_reg self reg_b
      in if ri_width a \<noteq> ri_width b then (False, self)
         else ensure (gum_x86_writer_put_prefix_for_registers self a 32 a [b]) (\<lambda>self.
           let self = poke8 self 0 0x85;
               self = poke8 self 1 (ucast (0xc0 OR push_bit 3 (ri_index b) OR ri_index a))
           in (True, gum_x86_writer_commit self 2)))"

definition gum_x86_writer_put_test_reg_u32 ::
    "GumX86Writer \<Rightarrow> GumX86Reg \<Rightarrow> guint32 \<Rightarrow> bool \<times> GumX86Writer" where
  [writer_defs]: "gum_x86_writer_put_test_reg_u32 self reg imm_value =
     (let ri = gum_x86_writer_describe_cpu_reg self reg
      in ensure (gum_x86_writer_put_prefix_for_registers self ri 32 ri []) (\<lambda>self.
         if ri_meta ri = GUM_X86_META_XAX
         then
           let self = poke8 self 0 0xa9;
               self = poke32 self 1 imm_value
           in (True, gum_x86_writer_commit self 5)
         else
           let self = poke8 self 0 0xf7;
               self = poke8 self 1 (ucast (0xc0 OR ri_index ri));
               self = poke32 self 2 imm_value
           in (True, gum_x86_writer_commit self 6)))"

definition gum_x86_writer_put_cmp_reg_i32 ::
    "GumX86Writer \<Rightarrow> GumX86Reg \<Rightarrow> guint32 \<Rightarrow> bool \<times> GumX86Writer" where
  [writer_defs]: "gum_x86_writer_put_cmp_reg_i32 self reg imm_value =
     (let ri = gum_x86_writer_describe_cpu_reg self reg
      in ensure (gum_x86_writer_put_prefix_for_registers self ri 32 ri []) (\<lambda>self.
         let self = (if ri_meta ri = GUM_X86_META_XAX
                     then gum_x86_writer_put_u8 self 0x3d
                     else
                       let self = poke8 self 0 0x81;
                           self = poke8 self 1 (ucast (0xf8 OR ri_index ri))
                       in gum_x86_writer_commit self 2);
             self = poke32 self 0 imm_value
         in (True, gum_x86_writer_commit self 4)))"

definition gum_x86_writer_put_cmp_reg_offset_ptr_reg ::
    "GumX86Writer \<Rightarrow> GumX86Reg \<Rightarrow> gssize \<Rightarrow> GumX86Reg \<Rightarrow> bool \<times> GumX86Writer" where
  [writer_defs]: "gum_x86_writer_put_cmp_reg_offset_ptr_reg self reg_a offset reg_b =
     (let a = gum_x86_writer_describe_cpu_reg self reg_a;
          b = gum_x86_writer_describe_cpu_reg self reg_b
      in ensure (gum_x86_writer_put_prefix_for_registers self a 32 a [b]) (\<lambda>self.
         let offset_fits_in_i8 = GUM_IS_WITHIN_INT8_RANGE offset;
             self = poke8 self 0 0x39;
             self = poke8 self 1 (ucast ((if offset_fits_in_i8 then 0x40 else 0x80)
                                    OR push_bit 3 (ri_index b) OR ri_index a));
             self = gum_x86_writer_commit self 2;
             self = (if ri_index a = 4 then gum_x86_writer_put_u8 self 0x24 else self)
         in (True,
             if offset_fits_in_i8
             then gum_x86_writer_put_s8 self (ucast offset)
             else gum_x86_writer_commit (poke32 self 0 (ucast offset)) 4)))"

definition gum_x86_writer_put_cmp_imm_ptr_imm_u32 ::
    "GumX86Writer \<Rightarrow> gpointer \<Rightarrow> guint32 \<Rightarrow> GumX86Writer" where
  [writer_defs]: "gum_x86_writer_put_cmp_imm_ptr_imm_u32 self imm_ptr imm_value =
     (let self = poke8 self 0 0x81;
          self = poke8 self 1 0x3d;
          self = poke32 self 2 (ucast imm_ptr);
          self = poke32 self 6 imm_value
      in gum_x86_writer_commit self 10)"

definition gum_x86_writer_put_cmp_reg_reg ::
    "GumX86Writer \<Rightarrow> GumX86Reg \<Rightarrow> GumX86Reg \<Rightarrow> bool \<times> GumX86Writer" where
  [writer_defs]: "gum_x86_writer_put_cmp_reg_reg self reg_a reg_b =
     (let a = gum_x86_writer_describe_cpu_reg self reg_a;
          b = gum_x86_writer_describe_cpu_reg self reg_b
      in if ri_width a \<noteq> ri_width b then (False, self)
         else ensure (gum_x86_writer_put_prefix_for_registers self a 32 a [b]) (\<lambda>self.
           let self = poke8 self 0 0x39;
               self = poke8 self 1 (ucast (0xc0 OR push_bit 3 (ri_index b) OR ri_index a))
           in (True, gum_x86_writer_commit self 2)))"

section \<open>Flags, fences, padding and state saving\<close>

definition gum_x86_writer_put_clc :: "GumX86Writer \<Rightarrow> GumX86Writer" where
  [writer_defs]: "gum_x86_writer_put_clc self = gum_x86_writer_put_u8 self 0xf8"

definition gum_x86_writer_put_stc :: "GumX86Writer \<Rightarrow> GumX86Writer" where
  [writer_defs]: "gum_x86_writer_put_stc self = gum_x86_writer_put_u8 self 0xf9"

definition gum_x86_writer_put_cld :: "GumX86Writer \<Rightarrow> GumX86Writer" where
  [writer_defs]: "gum_x86_writer_put_cld self = gum_x86_writer_put_u8 self 0xfc"

definition gum_x86_writer_put_std :: "GumX86Writer \<Rightarrow> GumX86Writer" where
  [writer_defs]: "gum_x86_writer_put_std self = gum_x86_writer_put_u8 self 0xfd"

definition gum_x86_writer_put_cpuid :: "GumX86Writer \<Rightarrow> GumX86Writer" where
  [writer_defs]: "gum_x86_writer_put_cpuid self =
     (let self = poke8 self 0 0x0f; self = poke8 self 1 0xa2 in gum_x86_writer_commit self 2)"

definition gum_x86_writer_put_lfence :: "GumX86Writer \<Rightarrow> GumX86Writer" where
  [writer_defs]: "gum_x86_writer_put_lfence self =
     (let self = poke8 self 0 0x0f; self = poke8 self 1 0xae; self = poke8 self 2 0xe8
      in gum_x86_writer_commit self 3)"

definition gum_x86_writer_put_rdtsc :: "GumX86Writer \<Rightarrow> GumX86Writer" where
  [writer_defs]: "gum_x86_writer_put_rdtsc self =
     (let self = poke8 self 0 0x0f; self = poke8 self 1 0x31 in gum_x86_writer_commit self 2)"

definition gum_x86_writer_put_pause :: "GumX86Writer \<Rightarrow> GumX86Writer" where
  [writer_defs]: "gum_x86_writer_put_pause self =
     (let self = poke8 self 0 0xf3; self = poke8 self 1 0x90 in gum_x86_writer_commit self 2)"

definition gum_x86_writer_put_nop :: "GumX86Writer \<Rightarrow> GumX86Writer" where
  [writer_defs]: "gum_x86_writer_put_nop self = gum_x86_writer_put_u8 self 0x90"

definition gum_x86_writer_put_breakpoint :: "GumX86Writer \<Rightarrow> GumX86Writer" where
  [writer_defs]: "gum_x86_writer_put_breakpoint self = gum_x86_writer_put_u8 self 0xcc"

definition gum_x86_writer_put_padding :: "GumX86Writer \<Rightarrow> guint \<Rightarrow> GumX86Writer" where
  [writer_defs]: "gum_x86_writer_put_padding self n =
     gum_x86_writer_commit
       (self\<lparr>w_mem := write_bytes (w_mem self) (w_code self) (replicate (unat n) 0xcc)\<rparr>) n"

text \<open>The table of recommended multi-byte no-ops, and the loop that lays them out, longest first.\<close>

definition nop_index :: "guint8 list list" where
  "nop_index =
     [[0x90],
      [0x66, 0x90],
      [0x0f, 0x1f, 0x00],
      [0x0f, 0x1f, 0x40, 0x00],
      [0x0f, 0x1f, 0x44, 0x00, 0x00],
      [0x66, 0x0f, 0x1f, 0x44, 0x00, 0x00],
      [0x0f, 0x1f, 0x80, 0x00, 0x00, 0x00, 0x00],
      [0x0f, 0x1f, 0x84, 0x00, 0x00, 0x00, 0x00, 0x00],
      [0x66, 0x0f, 0x1f, 0x84, 0x00, 0x00, 0x00, 0x00, 0x00]]"

function nop_padding_loop :: "GumX86Writer \<Rightarrow> nat \<Rightarrow> GumX86Writer" where
  "nop_padding_loop self remaining =
     (if remaining = 0 then self
      else if remaining < 9 then gum_x86_writer_put_bytes self (nop_index ! (remaining - 1))
      else nop_padding_loop (gum_x86_writer_put_bytes self (nop_index ! (9 - 1))) (remaining - 9))"
  by pat_completeness auto
termination
  by (relation "measure (\<lambda>(self, remaining). remaining)") auto

declare nop_padding_loop.simps [simp del]

definition gum_x86_writer_put_nop_padding :: "GumX86Writer \<Rightarrow> guint \<Rightarrow> GumX86Writer" where
  "gum_x86_writer_put_nop_padding self n = nop_padding_loop self (unat n)"

definition gum_x86_writer_put_fx_save_or_restore_reg_ptr ::
    "GumX86Writer \<Rightarrow> guint8 \<Rightarrow> GumX86Reg \<Rightarrow> bool \<times> GumX86Writer" where
  [writer_defs]: "gum_x86_writer_put_fx_save_or_restore_reg_ptr self operation reg =
     (let ri = gum_x86_writer_describe_cpu_reg self reg
      in if (if w_target_cpu self = GUM_CPU_IA32
             then ri_width ri \<noteq> 32 \<or> ri_index_is_extended ri else ri_width ri \<noteq> 64)
         then (False, self)
         else ensure (gum_x86_writer_put_prefix_for_registers self ri 64 ri []) (\<lambda>self.
           let self = poke8 self 0 0x0f;
               self = poke8 self 1 0xae;
               self = poke8 self 2 (ucast (push_bit 3 (ucast operation) OR ri_index ri));
               self = gum_x86_writer_commit self 3
           in (True, if ri_index ri = 4 then gum_x86_writer_put_u8 self 0x24 else self)))"

definition gum_x86_writer_put_fxsave_reg_ptr :: "GumX86Writer \<Rightarrow> GumX86Reg \<Rightarrow> bool \<times> GumX86Writer" where
  [writer_defs]: "gum_x86_writer_put_fxsave_reg_ptr self reg =
     gum_x86_writer_put_fx_save_or_restore_reg_ptr self 0 reg"

definition gum_x86_writer_put_fxrstor_reg_ptr :: "GumX86Writer \<Rightarrow> GumX86Reg \<Rightarrow> bool \<times> GumX86Writer" where
  [writer_defs]: "gum_x86_writer_put_fxrstor_reg_ptr self reg =
     gum_x86_writer_put_fx_save_or_restore_reg_ptr self 1 reg"

end
