(* ===== verification/Gum_X86_Branch.thy ===== *)
theory Gum_X86_Branch
  imports Gum_X86_Data
begin

text \<open>
  The encoders of \<^verbatim>\<open>src/frida-gum/gum/arch-x86/gumx86writer.c\<close> for jumps, conditional jumps, calls
  and the argument set-up around calls. A C argument array or variable argument list is a list of
  \<open>GumArgument\<close>; \<open>n_args\<close> is passed beside it as in the source.
\<close>

section \<open>Instruction identifiers\<close>

text \<open>
  The identifiers of the disassembler's \<^verbatim>\<open>x86_insn\<close> enum that the sources name; every other
  instruction is \<open>X86_INS_other\<close> of its number.
\<close>

datatype x86_insn =
    X86_INS_JO | X86_INS_JNO | X86_INS_JB | X86_INS_JAE | X86_INS_JE | X86_INS_JNE | X86_INS_JBE
  | X86_INS_JA | X86_INS_JS | X86_INS_JNS | X86_INS_JP | X86_INS_JNP | X86_INS_JL | X86_INS_JGE
  | X86_INS_JLE | X86_INS_JG | X86_INS_JCXZ | X86_INS_JECXZ | X86_INS_JRCXZ
  | X86_INS_CALL | X86_INS_JMP | X86_INS_RET | X86_INS_RETF | X86_INS_SYSCALL | X86_INS_PUSH
  | X86_INS_CMPXCHG | X86_INS_other nat

definition gum_get_jcc_opcode :: "x86_insn \<Rightarrow> guint8" where
  "gum_get_jcc_opcode instruction_id =
     (case instruction_id of
        X86_INS_JO \<Rightarrow> 0x70 | X86_INS_JNO \<Rightarrow> 0x71 | X86_INS_JB \<Rightarrow> 0x72 | X86_INS_JAE \<Rightarrow> 0x73
      | X86_INS_JE \<Rightarrow> 0x74 | X86_INS_JNE \<Rightarrow> 0x75 | X86_INS_JBE \<Rightarrow> 0x76 | X86_INS_JA \<Rightarrow> 0x77
      | X86_INS_JS \<Rightarrow> 0x78 | X86_INS_JNS \<Rightarrow> 0x79 | X86_INS_JP \<Rightarrow> 0x7a | X86_INS_JNP \<Rightarrow> 0x7b
      | X86_INS_JL \<Rightarrow> 0x7c | X86_INS_JGE \<Rightarrow> 0x7d | X86_INS_JLE \<Rightarrow> 0x7e | X86_INS_JG \<Rightarrow> 0x7f
      | _ \<Rightarrow> 0xe3)"

section \<open>Jumps\<close>

definition gum_x86_writer_put_ud2 :: "GumX86Writer \<Rightarrow> GumX86Writer" where
  [writer_defs]: "gum_x86_writer_put_ud2 self =
     gum_x86_writer_put_u8 (gum_x86_writer_put_u8 self 0x0f) 0x0b"

text \<open>
  The 16-byte far form shared by the two jump encoders:
  \<^verbatim>\<open>jmp [rip + 2]\<close>, \<^verbatim>\<open>ud2\<close>, then the address.
\<close>

definition put_far_jmp :: "GumX86Writer \<Rightarrow> GumAddress \<Rightarrow> GumX86Writer" where
  [writer_defs]: "put_far_jmp self address =
     (let self = poke8 self 0 0xff;
          self = poke8 self 1 0x25;
          self = poke32 self 2 2;
          self = poke8 self 6 0x0f;
          self = poke8 self 7 0x0b;
          self = poke64 self 8 address
      in gum_x86_writer_commit self 16)"

definition gum_x86_writer_put_jmp_address :: "GumX86Writer \<Rightarrow> GumAddress \<Rightarrow> bool \<times> GumX86Writer" where
  [writer_defs]: "gum_x86_writer_put_jmp_address self address =
     (let distance = address - (w_pc self + 2)
      in if GUM_IS_WITHIN_INT8_RANGE distance
         then
           let self = poke8 self 0 0xeb;
               self = poke8 self 1 (ucast distance)
           in (True, gum_x86_writer_commit self 2)
         else
           let distance = address - (w_pc self + 5)
           in if GUM_IS_WITHIN_INT32_RANGE distance
              then
                let self = poke8 self 0 0xe9;
                    self = poke32 self 1 (ucast distance)
                in (True, gum_x86_writer_commit self 5)
              else if w_target_cpu self \<noteq> GUM_CPU_AMD64 then (False, self)
              else (True, put_far_jmp self address))"

definition gum_x86_writer_put_short_jmp :: "GumX86Writer \<Rightarrow> gpointer \<Rightarrow> bool \<times> GumX86Writer" where
  [writer_defs]: "gum_x86_writer_put_short_jmp self target =
     (let distance = target - (w_pc self + 2)
      in if \<not> GUM_IS_WITHIN_INT8_RANGE distance then (False, self)
         else
           let self = poke8 self 0 0xeb;
               self = poke8 self 1 (ucast distance)
           in (True, gum_x86_writer_commit self 2))"

definition gum_x86_writer_put_near_jmp :: "GumX86Writer \<Rightarrow> gpointer \<Rightarrow> bool \<times> GumX86Writer" where
  [writer_defs]: "gum_x86_writer_put_near_jmp self target =
     (let distance = target - (w_pc self + 5)
      in if GUM_IS_WITHIN_INT32_RANGE distance
         then
           let self = poke8 self 0 0xe9;
               self = poke32 self 1 (ucast distance)
           in (True, gum_x86_writer_commit self 5)
         else if w_target_cpu self \<noteq> GUM_CPU_AMD64 then (False, self)
         else (True, put_far_jmp self target))"

definition gum_x86_writer_put_jmp_short_label :: "GumX86Writer \<Rightarrow> gpointer \<Rightarrow> GumX86Writer" where
  [writer_defs]: "gum_x86_writer_put_jmp_short_label self label_id =
     (let self = snd (gum_x86_writer_put_short_jmp self (w_pc self))
      in gum_x86_writer_add_label_reference_here self label_id GUM_LREF_SHORT)"

definition gum_x86_writer_put_jmp_near_label :: "GumX86Writer \<Rightarrow> gpointer \<Rightarrow> GumX86Writer" where
  [writer_defs]: "gum_x86_writer_put_jmp_near_label self label_id =
     (let self = snd (gum_x86_writer_put_near_jmp self (w_pc self))
      in gum_x86_writer_add_label_reference_here self label_id GUM_LREF_NEAR)"

text \<open>The check of the address register's width, repeated by the indirect jumps and calls.\<close>

definition bad_branch_reg :: "GumX86Writer \<Rightarrow> GumX86RegInfo \<Rightarrow> bool" where
  [writer_defs]: "bad_branch_reg self ri \<longleftrightarrow>
     (if w_target_cpu self = GUM_CPU_IA32
      then ri_width ri \<noteq> 32 \<or> ri_index_is_extended ri else ri_width ri \<noteq> 64)"

definition gum_x86_writer_put_jmp_reg :: "GumX86Writer \<Rightarrow> GumX86Reg \<Rightarrow> bool \<times> GumX86Writer" where
  [writer_defs]: "gum_x86_writer_put_jmp_reg self reg =
     (let ri = gum_x86_writer_describe_cpu_reg self reg
      in if bad_branch_reg self ri then (False, self)
         else ensure (gum_x86_writer_put_prefix_for_registers self ri 64 ri []) (\<lambda>self.
           let self = poke8 self 0 0xff;
               self = poke8 self 1 (ucast (0xe0 OR ri_index ri));
               self = gum_x86_writer_commit self 2
           in (True, gum_x86_writer_put_ud2 self)))"

definition gum_x86_writer_put_jmp_reg_ptr :: "GumX86Writer \<Rightarrow> GumX86Reg \<Rightarrow> bool \<times> GumX86Writer" where
  [writer_defs]: "gum_x86_writer_put_jmp_reg_ptr self reg =
     (let ri = gum_x86_writer_describe_cpu_reg self reg
      in if bad_branch_reg self ri then (False, self)
         else ensure (gum_x86_writer_put_prefix_for_registers self ri 64 ri []) (\<lambda>self.
           let self = poke8 self 0 0xff;
               self = poke8 self 1 (ucast (0x20 OR ri_index ri));
               self = gum_x86_writer_commit self 2;
               self = (if ri_meta ri = GUM_X86_META_XSP then gum_x86_writer_put_u8 self 0x24 else self)
           in (True, gum_x86_writer_put_ud2 self)))"

definition gum_x86_writer_put_jmp_reg_offset_ptr ::
    "GumX86Writer \<Rightarrow> GumX86Reg \<Rightarrow> gssize \<Rightarrow> bool \<times> GumX86Writer" where
  [writer_defs]: "gum_x86_writer_put_jmp_reg_offset_ptr self reg offset =
     (let ri = gum_x86_writer_describe_cpu_reg self reg;
          offset_fits_in_i8 = GUM_IS_WITHIN_INT8_RANGE offset
      in if bad_branch_reg self ri then (False, self)
         else ensure (gum_x86_writer_put_prefix_for_registers self ri 64 ri []) (\<lambda>self.
           let self = poke8 self 0 0xff;
               self = poke8 self 1 (ucast ((if offset_fits_in_i8 then 0x60 else 0xa0) OR ri_index ri));
               self = gum_x86_writer_commit self 2;
               self = (if ri_index ri = 4 then gum_x86_writer_put_u8 self 0x24 else self);
               self = (if offset_fits_in_i8
                       then gum_x86_writer_put_s8 self (ucast offset)
                       else gum_x86_writer_commit (poke32 self 0 (ucast offset)) 4)
           in (True, gum_x86_writer_put_ud2 self)))"

definition gum_x86_writer_put_jmp_near_ptr :: "GumX86Writer \<Rightarrow> GumAddress \<Rightarrow> bool \<times> GumX86Writer" where
  [writer_defs]: "gum_x86_writer_put_jmp_near_ptr self address =
     (let self = poke8 self 0 0xff;
          self = poke8 self 1 0x25
      in if w_target_cpu self = GUM_CPU_IA32
         then (if G_MAXUINT32 < address then (False, self)
               else (True, gum_x86_writer_put_ud2 (gum_x86_writer_commit (poke32 self 2 (ucast address)) 6)))
         else
           let distance = address - (w_pc self + 6)
           in if \<not> GUM_IS_WITHIN_INT32_RANGE distance then (False, self)
              else (True, gum_x86_writer_put_ud2 (gum_x86_writer_commit (poke32 self 2 (ucast distance)) 6)))"

section \<open>Conditional jumps\<close>

definition put_hint :: "GumX86Writer \<Rightarrow> GumBranchHint \<Rightarrow> GumX86Writer" where
  [writer_defs]: "put_hint self hint =
     (if hint \<noteq> GUM_NO_HINT
      then gum_x86_writer_put_u8 self (if hint = GUM_LIKELY then 0x3e else 0x2e) else self)"

definition gum_x86_writer_put_jcc_short ::
    "GumX86Writer \<Rightarrow> x86_insn \<Rightarrow> gpointer \<Rightarrow> GumBranchHint \<Rightarrow> bool \<times> GumX86Writer" where
  [writer_defs]: "gum_x86_writer_put_jcc_short self instruction_id target hint =
     (let self = put_hint self hint;
          self = poke8 self 0 (gum_get_jcc_opcode instruction_id);
          distance = target - (w_pc self + 2)
      in if \<not> GUM_IS_WITHIN_INT8_RANGE distance then (False, self)
         else (True, gum_x86_writer_commit (poke8 self 1 (ucast distance)) 2))"

definition gum_x86_writer_put_jcc_near ::
    "GumX86Writer \<Rightarrow> x86_insn \<Rightarrow> gpointer \<Rightarrow> GumBranchHint \<Rightarrow> bool \<times> GumX86Writer" where
  [writer_defs]: "gum_x86_writer_put_jcc_near self instruction_id target hint =
     (let self = put_hint self hint;
          self = poke8 self 0 0x0f;
          self = poke8 self 1 (0x10 + gum_get_jcc_opcode instruction_id);
          distance = target - (w_pc self + 6)
      in if \<not> GUM_IS_WITHIN_INT32_RANGE distance then (False, self)
         else (True, gum_x86_writer_commit (poke32 self 2 (ucast distance)) 6))"

definition gum_x86_writer_put_jcc_short_label ::
    "GumX86Writer \<Rightarrow> x86_insn \<Rightarrow> gpointer \<Rightarrow> GumBranchHint \<Rightarrow> GumX86Writer" where
  [writer_defs]: "gum_x86_writer_put_jcc_short_label self instruction_id label_id hint =
     (let self = snd (gum_x86_writer_put_jcc_short self instruction_id (w_pc self) hint)
      in gum_x86_writer_add_label_reference_here self label_id GUM_LREF_SHORT)"

definition gum_x86_writer_put_jcc_near_label ::
    "GumX86Writer \<Rightarrow> x86_insn \<Rightarrow> gpointer \<Rightarrow> GumBranchHint \<Rightarrow> GumX86Writer" where
  [writer_defs]: "gum_x86_writer_put_jcc_near_label self instruction_id label_id hint =
     (let self = snd (gum_x86_writer_put_jcc_near self instruction_id (w_pc self) hint)
      in gum_x86_writer_add_label_reference_here self label_id GUM_LREF_NEAR)"

section \<open>Calls and returns\<close>

definition gum_x86_writer_put_call_indirect :: "GumX86Writer \<Rightarrow> GumAddress \<Rightarrow> bool \<times> GumX86Writer" where
  [writer_defs]: "gum_x86_writer_put_call_indirect self address =
     (if w_target_cpu self = GUM_CPU_AMD64
      then
        let distance = address - (w_pc self + 6)
        in if \<not> GUM_IS_WITHIN_INT32_RANGE distance then (False, self)
           else
             let self = poke8 self 0 0xff;
                 self = poke8 self 1 0x15;
                 self = poke32 self 2 (ucast distance)
             in (True, gum_x86_writer_commit self 6)
      else
        let self = poke8 self 0 0xff;
            self = poke8 self 1 0x15;
            self = poke32 self 2 (ucast address)
        in (True, gum_x86_writer_commit self 6))"

definition gum_x86_writer_put_call_indirect_label :: "GumX86Writer \<Rightarrow> gpointer \<Rightarrow> bool \<times> GumX86Writer" where
  [writer_defs]: "gum_x86_writer_put_call_indirect_label self label_id =
     ensure (gum_x86_writer_put_call_indirect self (w_pc self)) (\<lambda>self.
       (True, gum_x86_writer_add_label_reference_here self label_id
                (if w_target_cpu self = GUM_CPU_AMD64 then GUM_LREF_NEAR else GUM_LREF_ABS)))"

definition gum_x86_writer_put_call_address :: "GumX86Writer \<Rightarrow> GumAddress \<Rightarrow> bool \<times> GumX86Writer" where
  [writer_defs]: "gum_x86_writer_put_call_address self address =
     (let distance = address - (w_pc self + 5)
      in if GUM_IS_WITHIN_INT32_RANGE distance
         then
           let self = poke8 self 0 0xe8;
               self = poke32 self 1 (ucast distance)
           in (True, gum_x86_writer_commit self 5)
         else
           let call_target_storage = w_code self + 1;
               carry_on = w_code self + 2
           in if w_target_cpu self \<noteq> GUM_CPU_AMD64 then (False, self)
              else
                let self = snd (gum_x86_writer_put_call_indirect_label self call_target_storage);
                    self = gum_x86_writer_put_jmp_short_label self carry_on;
                    self = snd (gum_x86_writer_put_label self call_target_storage);
                    self = poke64 self 0 address;
                    self = gum_x86_writer_commit self 8
                in (True, snd (gum_x86_writer_put_label self carry_on)))"

definition gum_x86_writer_put_call_near_label :: "GumX86Writer \<Rightarrow> gpointer \<Rightarrow> GumX86Writer" where
  [writer_defs]: "gum_x86_writer_put_call_near_label self label_id =
     (let self = snd (gum_x86_writer_put_call_address self (w_pc self))
      in gum_x86_writer_add_label_reference_here self label_id GUM_LREF_NEAR)"

definition gum_x86_writer_put_call_reg :: "GumX86Writer \<Rightarrow> GumX86Reg \<Rightarrow> bool \<times> GumX86Writer" where
  [writer_defs]: "gum_x86_writer_put_call_reg self reg =
     (let ri = gum_x86_writer_describe_cpu_reg self reg
      in if bad_branch_reg self ri then (False, self)
         else
           let self = (if ri_index_is_extended ri then gum_x86_writer_put_u8 self 0x41 else self);
               self = poke8 self 0 0xff;
               self = poke8 self 1 (ucast (0xd0 OR ri_index ri))
           in (True, gum_x86_writer_commit self 2))"

definition gum_x86_writer_put_call_reg_offset_ptr ::
    "GumX86Writer \<Rightarrow> GumX86Reg \<Rightarrow> gssize \<Rightarrow> bool \<times> GumX86Writer" where
  [writer_defs]: "gum_x86_writer_put_call_reg_offset_ptr self reg offset =
     (let ri = gum_x86_writer_describe_cpu_reg self reg;
          offset_fits_in_i8 = GUM_IS_WITHIN_INT8_RANGE offset
      in if bad_branch_reg self ri then (False, self)
         else ensure (gum_x86_writer_put_prefix_for_registers self ri 64 ri []) (\<lambda>self.
           let self = poke8 self 0 0xff;
               self = poke8 self 1 (ucast ((if offset_fits_in_i8 then 0x50 else 0x90) OR ri_index ri));
               self = gum_x86_writer_commit self 2;
               self = (if ri_index ri = 4 then gum_x86_writer_put_u8 self 0x24 else self)
           in (True,
               if offset_fits_in_i8
               then gum_x86_writer_put_s8 self (ucast offset)
               else gum_x86_writer_commit (poke32 self 0 (ucast offset)) 4)))"

definition gum_x86_writer_put_leave :: "GumX86Writer \<Rightarrow> GumX86Writer" where
  [writer_defs]: "gum_x86_writer_put_leave self = gum_x86_writer_put_u8 self 0xc9"

definition gum_x86_writer_put_ret :: "GumX86Writer \<Rightarrow> GumX86Writer" where
  [writer_defs]: "gum_x86_writer_put_ret self = gum_x86_writer_put_u8 self 0xc3"

definition gum_x86_writer_put_ret_imm :: "GumX86Writer \<Rightarrow> guint16 \<Rightarrow> GumX86Writer" where
  [writer_defs]: "gum_x86_writer_put_ret_imm self imm_value =
     (let self = poke8 self 0 0xc2;
          self = poke16 self 1 imm_value
      in gum_x86_writer_commit self 3)"

section \<open>Arguments\<close>

datatype GumArgument = GUM_ARG_ADDRESS GumAddress | GUM_ARG_REGISTER GumX86Reg

definition reg_for_arg_unix_64 :: "GumX86Reg list" where
  "reg_for_arg_unix_64 = [GUM_X86_RDI, GUM_X86_RSI, GUM_X86_RDX, GUM_X86_RCX, GUM_X86_R8, GUM_X86_R9]"

definition reg_for_arg_unix_32 :: "GumX86Reg list" where
  "reg_for_arg_unix_32 = [GUM_X86_EDI, GUM_X86_ESI, GUM_X86_EDX, GUM_X86_ECX, GUM_X86_R8D, GUM_X86_R9D]"

definition reg_for_arg_windows_64 :: "GumX86Reg list" where
  "reg_for_arg_windows_64 = [GUM_X86_RCX, GUM_X86_RDX, GUM_X86_R8, GUM_X86_R9]"

definition reg_for_arg_windows_32 :: "GumX86Reg list" where
  "reg_for_arg_windows_32 = [GUM_X86_ECX, GUM_X86_EDX, GUM_X86_R8D, GUM_X86_R9D]"

text \<open>The body of the two argument loops, for one argument.\<close>

definition put_argument_ia32 :: "GumX86Writer \<Rightarrow> GumArgument \<Rightarrow> GumX86Writer" where
  [writer_defs]: "put_argument_ia32 self arg =
     (case arg of
        GUM_ARG_ADDRESS address \<Rightarrow> gum_x86_writer_put_push_u32 self (ucast address)
      | GUM_ARG_REGISTER reg \<Rightarrow> snd (gum_x86_writer_put_push_reg self reg))"

definition put_argument_amd64 :: "GumX86Writer \<Rightarrow> nat \<Rightarrow> GumArgument \<Rightarrow> GumX86Writer" where
  [writer_defs]: "put_argument_amd64 self arg_index arg =
     (let (reg_for_arg_64, reg_for_arg_32) =
            (if w_target_abi self = GUM_ABI_UNIX
             then (reg_for_arg_unix_64, reg_for_arg_unix_32)
             else (reg_for_arg_windows_64, reg_for_arg_windows_32))
      in if arg_index < length reg_for_arg_64
         then (case arg of
                 GUM_ARG_ADDRESS address \<Rightarrow>
                   snd (gum_x86_writer_put_mov_reg_u64 self (reg_for_arg_64 ! arg_index) address)
               | GUM_ARG_REGISTER reg \<Rightarrow>
                   (if gum_meta_reg_from_cpu_reg (gum_x86_reg_value reg) \<noteq>
                       gum_meta_reg_from_cpu_reg (gum_x86_reg_value (reg_for_arg_64 ! arg_index))
                    then (if gum_x86_reg_value GUM_X86_EAX \<le> gum_x86_reg_value reg
                             \<and> gum_x86_reg_value reg \<le> gum_x86_reg_value GUM_X86_EIP
                          then snd (gum_x86_writer_put_mov_reg_reg self (reg_for_arg_32 ! arg_index) reg)
                          else snd (gum_x86_writer_put_mov_reg_reg self (reg_for_arg_64 ! arg_index) reg))
                    else self))
         else (case arg of
                 GUM_ARG_ADDRESS address \<Rightarrow>
                   (let self = snd (gum_x86_writer_put_push_reg self GUM_X86_XAX);
                        self = gum_x86_writer_put_mov_reg_address self GUM_X86_RAX address
                    in snd (gum_x86_writer_put_xchg_reg_reg_ptr self GUM_X86_RAX GUM_X86_RSP))
               | GUM_ARG_REGISTER reg \<Rightarrow> snd (gum_x86_writer_put_push_reg self reg)))"

text \<open>
  The loops run over \<^verbatim>\<open>arg_index\<close> from \<^verbatim>\<open>(gint) n_args - 1\<close> down to 0: not at all when the count,
  read as a signed integer, is not positive.
\<close>

definition arg_indices :: "guint \<Rightarrow> nat list" where
  "arg_indices n_args = rev [0..<nat (sint n_args)]"

definition gum_x86_writer_put_argument_list_setup ::
    "GumX86Writer \<Rightarrow> GumCallingConvention \<Rightarrow> guint \<Rightarrow> GumArgument list \<Rightarrow> GumX86Writer" where
  [writer_defs]: "gum_x86_writer_put_argument_list_setup self conv n_args args =
     (if w_target_cpu self = GUM_CPU_IA32
      then fold (\<lambda>i self. put_argument_ia32 self (args ! i)) (arg_indices n_args) self
      else
        let self = fold (\<lambda>i self. put_argument_amd64 self i (args ! i)) (arg_indices n_args) self
        in if w_target_abi self = GUM_ABI_WINDOWS
           then snd (gum_x86_writer_put_sub_reg_imm self GUM_X86_RSP (4 * 8))
           else self)"

definition gum_x86_writer_put_argument_list_setup_va ::
    "GumX86Writer \<Rightarrow> GumCallingConvention \<Rightarrow> guint \<Rightarrow> GumArgument list \<Rightarrow> GumX86Writer" where
  [writer_defs]: "gum_x86_writer_put_argument_list_setup_va self conv n_args args =
     (let arg_values = map (\<lambda>arg_index. args ! arg_index) [0..<unat n_args]
      in gum_x86_writer_put_argument_list_setup self conv n_args arg_values)"

definition gum_x86_writer_put_argument_list_teardown ::
    "GumX86Writer \<Rightarrow> GumCallingConvention \<Rightarrow> guint \<Rightarrow> GumX86Writer" where
  [writer_defs]: "gum_x86_writer_put_argument_list_teardown self conv n_args =
     (if w_target_cpu self = GUM_CPU_IA32
      then (if conv = GUM_CALL_CAPI \<and> n_args \<noteq> 0
            then snd (gum_x86_writer_put_add_reg_imm self GUM_X86_ESP (ucast n_args * 4))
            else self)
      else if w_target_abi self = GUM_ABI_WINDOWS
      then snd (gum_x86_writer_put_add_reg_imm self GUM_X86_RSP (ucast (max n_args 4 * 8)))
      else if 6 < n_args
      then snd (gum_x86_writer_put_add_reg_imm self GUM_X86_RSP (ucast ((n_args - 6) * 8)))
      else self)"

definition gum_x86_writer_get_needed_alignment_correction :: "GumX86Writer \<Rightarrow> guint \<Rightarrow> guint" where
  "gum_x86_writer_get_needed_alignment_correction self n_args =
     (let (n_stack_args, pointer_size) =
            (if w_target_cpu self = GUM_CPU_IA32 then (n_args, 4)
             else if w_target_abi self = GUM_ABI_UNIX
             then ((if 6 < n_args then n_args - 6 else 0), 8)
             else ((if 4 < n_args then n_args - 4 else 0), 8));
          stack_args_size = n_stack_args * pointer_size;
          remainder = stack_args_size mod 16
      in if remainder \<noteq> 0 then 16 - remainder else 0)"

definition gum_x86_writer_put_aligned_argument_list_setup ::
    "GumX86Writer \<Rightarrow> GumCallingConvention \<Rightarrow> guint \<Rightarrow> GumArgument list \<Rightarrow> GumX86Writer" where
  [writer_defs]: "gum_x86_writer_put_aligned_argument_list_setup self conv n_args args =
     (let align_correction = gum_x86_writer_get_needed_alignment_correction self n_args;
          self = (if align_correction \<noteq> 0
                  then snd (gum_x86_writer_put_sub_reg_imm self GUM_X86_XSP (ucast align_correction))
                  else self)
      in gum_x86_writer_put_argument_list_setup self conv n_args args)"

definition gum_x86_writer_put_aligned_argument_list_setup_va ::
    "GumX86Writer \<Rightarrow> GumCallingConvention \<Rightarrow> guint \<Rightarrow> GumArgument list \<Rightarrow> GumX86Writer" where
  [writer_defs]: "gum_x86_writer_put_aligned_argument_list_setup_va self conv n_args args =
     (let align_correction = gum_x86_writer_get_needed_alignment_correction self n_args;
          self = (if align_correction \<noteq> 0
                  then snd (gum_x86_writer_put_sub_reg_imm self GUM_X86_XSP (ucast align_correction))
                  else self)
      in gum_x86_writer_put_argument_list_setup_va self conv n_args args)"

definition gum_x86_writer_put_aligned_argument_list_teardown ::
    "GumX86Writer \<Rightarrow> GumCallingConvention \<Rightarrow> guint \<Rightarrow> GumX86Writer" where
  [writer_defs]: "gum_x86_writer_put_aligned_argument_list_teardown self conv n_args =
     (let self = gum_x86_writer_put_argument_list_teardown self conv n_args;
          align_correction = gum_x86_writer_get_needed_alignment_correction self n_args
      in if align_correction \<noteq> 0
         then snd (gum_x86_writer_put_add_reg_imm self GUM_X86_XSP (ucast align_correction))
         else self)"

section \<open>Calls with arguments\<close>

definition gum_x86_writer_put_call_address_with_arguments ::
    "GumX86Writer \<Rightarrow> GumCallingConvention \<Rightarrow> GumAddress \<Rightarrow> guint \<Rightarrow> GumArgument list \<Rightarrow> bool \<times> GumX86Writer" where
  [writer_defs]: "gum_x86_writer_put_call_address_with_arguments self conv func n_args args =
     (let self = gum_x86_writer_put_argument_list_setup_va self conv n_args args
      in ensure (gum_x86_writer_put_call_address self func) (\<lambda>self.
           (True, gum_x86_writer_put_argument_list_teardown self conv n_args)))"

definition gum_x86_writer_put_call_address_with_arguments_array ::
    "GumX86Writer \<Rightarrow> GumCallingConvention \<Rightarrow> GumAddress \<Rightarrow> guint \<Rightarrow> GumArgument list \<Rightarrow> bool \<times> GumX86Writer" where
  [writer_defs]: "gum_x86_writer_put_call_address_with_arguments_array self conv func n_args args =
     (let self = gum_x86_writer_put_argument_list_setup self conv n_args args
      in ensure (gum_x86_writer_put_call_address self func) (\<lambda>self.
           (True, gum_x86_writer_put_argument_list_teardown self conv n_args)))"

definition gum_x86_writer_put_call_address_with_aligned_arguments ::
    "GumX86Writer \<Rightarrow> GumCallingConvention \<Rightarrow> GumAddress \<Rightarrow> guint \<Rightarrow> GumArgument list \<Rightarrow> bool \<times> GumX86Writer" where
  [writer_defs]: "gum_x86_writer_put_call_address_with_aligned_arguments self conv func n_args args =
     (let self = gum_x86_writer_put_aligned_argument_list_setup_va self conv n_args args
      in ensure (gum_x86_writer_put_call_address self func) (\<lambda>self.
           (True, gum_x86_writer_put_aligned_argument_list_teardown self conv n_args)))"

definition gum_x86_writer_put_call_address_with_aligned_arguments_array ::
    "GumX86Writer \<Rightarrow> GumCallingConvention \<Rightarrow> GumAddress \<Rightarrow> guint \<Rightarrow> GumArgument list \<Rightarrow> bool \<times> GumX86Writer" where
  [writer_defs]: "gum_x86_writer_put_call_address_with_aligned_arguments_array self conv func n_args args =
     (let self = gum_x86_writer_put_aligned_argument_list_setup self conv n_args args
      in ensure (gum_x86_writer_put_call_address self func) (\<lambda>self.
           (True, gum_x86_writer_put_aligned_argument_list_teardown self conv n_args)))"

definition gum_x86_writer_put_call_reg_with_arguments ::
    "GumX86Writer \<Rightarrow> GumCallingConvention \<Rightarrow> GumX86Reg \<Rightarrow> guint \<Rightarrow> GumArgument list \<Rightarrow> bool \<times> GumX86Writer" where
  [writer_defs]: "gum_x86_writer_put_call_reg_with_arguments self conv reg n_args args =
     (let self = gum_x86_writer_put_argument_list_setup_va self conv n_args args
      in ensure (gum_x86_writer_put_call_reg self reg) (\<lambda>self.
           (True, gum_x86_writer_put_argument_list_teardown self conv n_args)))"

definition gum_x86_writer_put_call_reg_with_arguments_array ::
    "GumX86Writer \<Rightarrow> GumCallingConvention \<Rightarrow> GumX86Reg \<Rightarrow> guint \<Rightarrow> GumArgument list \<Rightarrow> bool \<times> GumX86Writer" where
  [writer_defs]: "gum_x86_writer_put_call_reg_with_arguments_array self conv reg n_args args =
     (let self = gum_x86_writer_put_argument_list_setup self conv n_args args
      in ensure (gum_x86_writer_put_call_reg self reg) (\<lambda>self.
           (True, gum_x86_writer_put_argument_list_teardown self conv n_args)))"

definition gum_x86_writer_put_call_reg_with_aligned_arguments ::
    "GumX86Writer \<Rightarrow> GumCallingConvention \<Rightarrow> GumX86Reg \<Rightarrow> guint \<Rightarrow> GumArgument list \<Rightarrow> bool \<times> GumX86Writer" where
  [writer_defs]: "gum_x86_writer_put_call_reg_with_aligned_arguments self conv reg n_args args =
     (let self = gum_x86_writer_put_aligned_argument_list_setup_va self conv n_args args
      in ensure (gum_x86_writer_put_call_reg self reg) (\<lambda>self.
           (True, gum_x86_writer_put_aligned_argument_list_teardown self conv n_args)))"

definition gum_x86_writer_put_call_reg_with_aligned_arguments_array ::
    "GumX86Writer \<Rightarrow> GumCallingConvention \<Rightarrow> GumX86Reg \<Rightarrow> guint \<Rightarrow> GumArgument list \<Rightarrow> bool \<times> GumX86Writer" where
  [writer_defs]: "gum_x86_writer_put_call_reg_with_aligned_arguments_array self conv reg n_args args =
     (let self = gum_x86_writer_put_aligned_argument_list_setup self conv n_args args
      in ensure (gum_x86_writer_put_call_reg self reg) (\<lambda>self.
           (True, gum_x86_writer_put_aligned_argument_list_teardown self conv n_args)))"

definition gum_x86_writer_put_call_reg_offset_ptr_with_arguments ::
    "GumX86Writer \<Rightarrow> GumCallingConvention \<Rightarrow> GumX86Reg \<Rightarrow> gssize \<Rightarrow> guint \<Rightarrow> GumArgument list \<Rightarrow> bool \<times> GumX86Writer" where
  [writer_defs]: "gum_x86_writer_put_call_reg_offset_ptr_with_arguments self conv reg offset n_args args =
     (let self = gum_x86_writer_put_argument_list_setup_va self conv n_args args
      in ensure (gum_x86_writer_put_call_reg_offset_ptr self reg offset) (\<lambda>self.
           (True, gum_x86_writer_put_argument_list_teardown self conv n_args)))"

definition gum_x86_writer_put_call_reg_offset_ptr_with_arguments_array ::
    "GumX86Writer \<Rightarrow> GumCallingConvention \<Rightarrow> GumX86Reg \<Rightarrow> gssize \<Rightarrow> guint \<Rightarrow> GumArgument list \<Rightarrow> bool \<times> GumX86Writer" where
  [writer_defs]: "gum_x86_writer_put_call_reg_offset_ptr_with_arguments_array self conv reg offset n_args args =
     (let self = gum_x86_writer_put_argument_list_setup self conv n_args args
      in ensure (gum_x86_writer_put_call_reg_offset_ptr self reg offset) (\<lambda>self.
           (True, gum_x86_writer_put_argument_list_teardown self conv n_args)))"

definition gum_x86_writer_put_call_reg_offset_ptr_with_aligned_arguments ::
    "GumX86Writer \<Rightarrow> GumCallingConvention \<Rightarrow> GumX86Reg \<Rightarrow> gssize \<Rightarrow> guint \<Rightarrow> GumArgument list \<Rightarrow> bool \<times> GumX86Writer" where
  [writer_defs]: "gum_x86_writer_put_call_reg_offset_ptr_with_aligned_arguments self conv reg offset n_args args =
     (let self = gum_x86_writer_put_aligned_argument_list_setup_va self conv n_args args
      in ensure (gum_x86_writer_put_call_reg_offset_ptr self reg offset) (\<lambda>self.
           (True, gum_x86_writer_put_aligned_argument_list_teardown self conv n_args)))"

definition gum_x86_writer_put_call_reg_offset_ptr_with_aligned_arguments_array ::
    "GumX86Writer \<Rightarrow> GumCallingConvention \<Rightarrow> GumX86Reg \<Rightarrow> gssize \<Rightarrow> guint \<Rightarrow> GumArgument list \<Rightarrow> bool \<times> GumX86Writer" where
  [writer_defs]: "gum_x86_writer_put_call_reg_offset_ptr_with_aligned_arguments_array self conv reg offset n_args args =
     (let self = gum_x86_writer_put_aligned_argument_list_setup self conv n_args args
      in ensure (gum_x86_writer_put_call_reg_offset_ptr self reg offset) (\<lambda>self.
           (True, gum_x86_writer_put_aligned_argument_list_teardown self conv n_args)))"

end
