(* ===== verification/X86_Machine.thy ===== *)
theory X86_Machine
  imports Gum_Prelude
begin

text \<open>
  A specification of the target processor, written from the architecture manuals and independent of
  the sources: an instruction decoder for 64-bit mode and a small-step semantics, for the
  instructions the writer can emit. It is what the theorems about generated code are stated
  against; nothing in it models a file of the repository.

  The state has the sixteen general-purpose registers, the instruction pointer, the flags register
  as a word, the two segment bases, the 512-byte image of the FPU and SSE state, and the byte
  memory. \<open>decode\<close> and \<open>x86_step\<close> return \<open>None\<close> for bytes that are no instruction of this subset and
  for instructions that trap or whose result depends on more than this state
  (\<^verbatim>\<open>ud2\<close>, \<^verbatim>\<open>int3\<close>, \<^verbatim>\<open>cpuid\<close>, \<^verbatim>\<open>rdtsc\<close>).
\<close>

section \<open>Instructions\<close>

datatype width = W8 | W32 | W64

datatype segment = FS | GS

text \<open>An effective address: segment, 32-bit addressing, base, index with its scale, displacement.\<close>

datatype ea =
    EA "segment option" bool "nat option" "(nat \<times> nat) option" guint64
  | EA_rip "segment option" guint64

datatype operand = Reg nat | Mem ea

datatype alu = AluAdd | AluOr | AluAdc | AluSbb | AluAnd | AluSub | AluXor | AluCmp

datatype simple_insn =
    Pushf | Popf | Sahf | Lahf | Clc | Stc | Cld | Std | Ret | Leave | Nop | Pause | Lfence | Ud2 | Int3 | Cpuid | Rdtsc

datatype (plugins del: "quickcheck" size lifting transfer) insn =
    Alu alu width operand nat
  | AluLoad alu width nat operand
  | AluImm alu width operand guint64
  | Test width operand nat
  | TestImm width operand guint64
  | Inc width operand
  | Dec width operand
  | Shl width operand guint8
  | Shr width operand guint8
  | MovStore width operand nat
  | MovLoad width nat operand
  | MovImm width operand guint64
  | MovRegImm width nat guint64
  | MovZxByte width nat operand
  | Lea width nat ea
  | Xchg width operand nat
  | LockXadd width operand nat
  | LockCmpxchg width operand nat
  | LockInc width operand
  | LockDec width operand
  | Push operand
  | PushImm guint64
  | Pop nat
  | Jmp guint64
  | JmpInd operand
  | Jcc nat guint64
  | Jrcxz guint64
  | Call guint64
  | CallInd operand
  | RetImm guint16
  | Fxsave ea | Fxrstor ea
  | Simple simple_insn

section \<open>Decoder\<close>

record prefixes =
  p_seg :: "segment option"
  p_lock :: bool
  p_opsize :: bool
  p_rep :: bool
  p_addr32 :: bool
  p_rex :: bool
  p_w :: bool
  p_r :: bool
  p_x :: bool
  p_b :: bool

definition no_prefix :: prefixes where
  "no_prefix = \<lparr>p_seg = None, p_lock = False, p_opsize = False, p_rep = False, p_addr32 = False,
     p_rex = False, p_w = False, p_r = False, p_x = False, p_b = False\<rparr>"

fun legacy_prefixes :: "prefixes \<Rightarrow> guint8 list \<Rightarrow> prefixes \<times> guint8 list" where
  "legacy_prefixes p [] = (p, [])"
| "legacy_prefixes p (b # bs) =
     (if b = 0x64 then legacy_prefixes (p\<lparr>p_seg := Some FS\<rparr>) bs
      else if b = 0x65 then legacy_prefixes (p\<lparr>p_seg := Some GS\<rparr>) bs
      else if b = 0x66 then legacy_prefixes (p\<lparr>p_opsize := True\<rparr>) bs
      else if b = 0x67 then legacy_prefixes (p\<lparr>p_addr32 := True\<rparr>) bs
      else if b = 0xf0 then legacy_prefixes (p\<lparr>p_lock := True\<rparr>) bs
      else if b = 0xf3 then legacy_prefixes (p\<lparr>p_rep := True\<rparr>) bs
      else if b = 0x2e \<or> b = 0x3e then legacy_prefixes p bs
      else (p, b # bs))"

definition rex_prefix :: "prefixes \<Rightarrow> guint8 list \<Rightarrow> prefixes \<times> guint8 list" where
  "rex_prefix p bs =
     (case bs of
        [] \<Rightarrow> (p, [])
      | b # bs' \<Rightarrow>
          (let n = unat b in
           if n div 16 = 4
           then (p\<lparr>p_rex := True, p_w := odd (n div 8), p_r := odd (n div 4),
                   p_x := odd (n div 2), p_b := odd n\<rparr>, bs')
           else (p, bs)))"

definition ext :: "bool \<Rightarrow> nat \<Rightarrow> nat" where
  "ext b n = (if b then n + 8 else n)"

text \<open>Immediates and displacements, sign-extended to 64 bits.\<close>

fun imm8 :: "guint8 list \<Rightarrow> (guint64 \<times> guint8 list) option" where
  "imm8 (b # bs) = Some (scast b, bs)"
| "imm8 [] = None"

fun imm32 :: "guint8 list \<Rightarrow> (guint64 \<times> guint8 list) option" where
  "imm32 (a # b # c # d # bs) = Some (scast (of_le [a, b, c, d] :: guint32), bs)"
| "imm32 _ = None"

fun imm64 :: "guint8 list \<Rightarrow> (guint64 \<times> guint8 list) option" where
  "imm64 (a # b # c # d # e # f # g # h # bs) = Some (of_le [a, b, c, d, e, f, g, h], bs)"
| "imm64 _ = None"

definition disp :: "nat \<Rightarrow> guint8 list \<Rightarrow> (guint64 \<times> guint8 list) option" where
  "disp md bs = (if md = 0 then Some (0, bs) else if md = 1 then imm8 bs else imm32 bs)"

definition modrm :: "prefixes \<Rightarrow> guint8 list \<Rightarrow> (nat \<times> operand \<times> guint8 list) option" where
  "modrm p bs =
     (case bs of
        [] \<Rightarrow> None
      | b # bs \<Rightarrow>
          (let md = unat b div 64; reg = ext (p_r p) (unat b div 8 mod 8); rm = unat b mod 8 in
           if md = 3 then Some (reg, Reg (ext (p_b p) rm), bs)
           else if rm = 4 then
             (case bs of
                [] \<Rightarrow> None
              | s # bs \<Rightarrow>
                  (let scale = 2 ^ (unat s div 64); idx = ext (p_x p) (unat s div 8 mod 8);
                       bas = unat s mod 8;
                       index = (if idx = 4 then None else Some (idx, scale)) in
                   if bas = 5 \<and> md = 0
                   then map_option (\<lambda>(d, bs). (reg, Mem (EA (p_seg p) (p_addr32 p) None index d), bs)) (imm32 bs)
                   else map_option (\<lambda>(d, bs). (reg, Mem (EA (p_seg p) (p_addr32 p) (Some (ext (p_b p) bas)) index d), bs))
                          (disp md bs)))
           else if md = 0 \<and> rm = 5
           then map_option (\<lambda>(d, bs). (reg, Mem (EA_rip (p_seg p) d), bs)) (imm32 bs)
           else map_option (\<lambda>(d, bs). (reg, Mem (EA (p_seg p) (p_addr32 p) (Some (ext (p_b p) rm)) None d), bs))
                  (disp md bs)))"

definition opwidth :: "prefixes \<Rightarrow> width" where
  "opwidth p = (if p_w p then W64 else W32)"

definition alu_of :: "nat \<Rightarrow> alu" where
  "alu_of n = [AluAdd, AluOr, AluAdc, AluSbb, AluAnd, AluSub, AluXor, AluCmp] ! n"

text \<open>The operand combinations of the opcode map.\<close>

definition with_rm :: "prefixes \<Rightarrow> guint8 list \<Rightarrow> (nat \<Rightarrow> operand \<Rightarrow> guint8 list \<Rightarrow> (insn \<times> guint8 list) option)
    \<Rightarrow> (insn \<times> guint8 list) option" where
  "with_rm p bs k = (case modrm p bs of None \<Rightarrow> None | Some (reg, rm, bs) \<Rightarrow> k reg rm bs)"

definition with_imm :: "(guint64 \<times> guint8 list) option \<Rightarrow> (guint64 \<Rightarrow> insn) \<Rightarrow> (insn \<times> guint8 list) option" where
  "with_imm r f = map_option (\<lambda>(i, bs). (f i, bs)) r"

definition is_mem :: "operand \<Rightarrow> bool" where
  "is_mem rm = (case rm of Mem _ \<Rightarrow> True | Reg _ \<Rightarrow> False)"

text \<open>A register operand of 8 bits is a low byte: registers 4 to 7 need a REX prefix for that.\<close>

definition byte_reg :: "prefixes \<Rightarrow> nat \<Rightarrow> bool" where
  "byte_reg p r \<longleftrightarrow> r < 4 \<or> p_rex p"

definition decode_ff :: "prefixes \<Rightarrow> width \<Rightarrow> guint8 list \<Rightarrow> (insn \<times> guint8 list) option" where
  "decode_ff p w bs =
     with_rm p bs (\<lambda>reg rm bs.
       let reg = reg mod 8 in
       if reg = 0 then Some (if p_lock p then LockInc w rm else Inc w rm, bs)
       else if reg = 1 then Some (if p_lock p then LockDec w rm else Dec w rm, bs)
       else if reg = 2 then Some (CallInd rm, bs)
       else if reg = 4 then Some (JmpInd rm, bs)
       else if reg = 6 then Some (Push rm, bs)
       else None)"

definition decode_0f :: "prefixes \<Rightarrow> guint8 list \<Rightarrow> (insn \<times> guint8 list) option" where
  "decode_0f p bs =
     (case bs of
        [] \<Rightarrow> None
      | b # bs \<Rightarrow>
          (let n = unat b; w = opwidth p in
           if n = 0x0b then Some (Simple Ud2, bs)
           else if n = 0x1f then with_rm p bs (\<lambda>reg rm bs. Some (Simple Nop, bs))
           else if n = 0x31 then Some (Simple Rdtsc, bs)
           else if n = 0xa2 then Some (Simple Cpuid, bs)
           else if n = 0xae then
             with_rm p bs (\<lambda>reg rm bs.
               case rm of
                 Mem a \<Rightarrow> (if reg mod 8 = 0 then Some (Fxsave a, bs)
                           else if reg mod 8 = 1 then Some (Fxrstor a, bs) else None)
               | Reg r \<Rightarrow> (if reg mod 8 = 5 then Some (Simple Lfence, bs) else None))
           else if n = 0xb6 then
             with_rm p bs (\<lambda>reg rm bs.
               if is_mem rm \<or> (case rm of Reg r \<Rightarrow> byte_reg p r | _ \<Rightarrow> True)
               then Some (MovZxByte w reg rm, bs) else None)
           else if n = 0xb1 \<and> p_lock p then with_rm p bs (\<lambda>reg rm bs. Some (LockCmpxchg w rm reg, bs))
           else if n = 0xc1 \<and> p_lock p then with_rm p bs (\<lambda>reg rm bs. Some (LockXadd w rm reg, bs))
           else if n div 16 = 8 then with_imm (imm32 bs) (Jcc (n mod 16))
           else None))"

definition decode_op :: "prefixes \<Rightarrow> guint8 list \<Rightarrow> (insn \<times> guint8 list) option" where
  "decode_op p bs =
     (case bs of
        [] \<Rightarrow> None
      | b # bs \<Rightarrow>
          (let n = unat b; w = opwidth p in
           if n = 0x0f then decode_0f p bs
           else if n < 0x40 \<and> n mod 8 = 1
             then with_rm p bs (\<lambda>reg rm bs. Some (Alu (alu_of (n div 8)) w rm reg, bs))
           else if n < 0x40 \<and> n mod 8 = 3
             then with_rm p bs (\<lambda>reg rm bs. Some (AluLoad (alu_of (n div 8)) w reg rm, bs))
           else if n < 0x40 \<and> n mod 8 = 5
             then with_imm (imm32 bs) (AluImm (alu_of (n div 8)) w (Reg 0))
           else if n div 8 = 10 then Some (Push (Reg (ext (p_b p) (n mod 8))), bs)
           else if n div 8 = 11 then Some (Pop (ext (p_b p) (n mod 8)), bs)
           else if n = 0x68 then with_imm (imm32 bs) PushImm
           else if n div 16 = 7 then with_imm (imm8 bs) (Jcc (n mod 16))
           else if n = 0x81
             then with_rm p bs (\<lambda>reg rm bs. with_imm (imm32 bs) (AluImm (alu_of (reg mod 8)) w rm))
           else if n = 0x83
             then with_rm p bs (\<lambda>reg rm bs. with_imm (imm8 bs) (AluImm (alu_of (reg mod 8)) w rm))
           else if n = 0x85 then with_rm p bs (\<lambda>reg rm bs. Some (Test w rm reg, bs))
           else if n = 0x87 then with_rm p bs (\<lambda>reg rm bs. Some (Xchg w rm reg, bs))
           else if n = 0x88
             then with_rm p bs (\<lambda>reg rm bs. if byte_reg p reg then Some (MovStore W8 rm reg, bs) else None)
           else if n = 0x89 then with_rm p bs (\<lambda>reg rm bs. Some (MovStore w rm reg, bs))
           else if n = 0x8b then with_rm p bs (\<lambda>reg rm bs. Some (MovLoad w reg rm, bs))
           else if n = 0x8d
             then with_rm p bs (\<lambda>reg rm bs. case rm of Mem a \<Rightarrow> Some (Lea w reg a, bs) | Reg _ \<Rightarrow> None)
           else if n = 0x90 then Some (Simple (if p_rep p then Pause else Nop), bs)
           else if n = 0x9c then Some (Simple Pushf, bs)
           else if n = 0x9d then Some (Simple Popf, bs)
           else if n = 0x9e then Some (Simple Sahf, bs)
           else if n = 0x9f then Some (Simple Lahf, bs)
           else if n = 0xa9 then with_imm (imm32 bs) (TestImm w (Reg 0))
           else if n div 8 = 23
             then (if p_w p then with_imm (imm64 bs) (MovRegImm W64 (ext (p_b p) (n mod 8)))
                   else with_imm (imm32 bs) (MovRegImm W32 (ext (p_b p) (n mod 8))))
           else if n = 0xc1
             then with_rm p bs (\<lambda>reg rm bs.
               case bs of [] \<Rightarrow> None
               | i # bs \<Rightarrow> (if reg mod 8 = 4 then Some (Shl w rm i, bs)
                           else if reg mod 8 = 5 then Some (Shr w rm i, bs) else None))
           else if n = 0xc2
             then (case bs of a # b # bs \<Rightarrow> Some (RetImm (of_le [a, b]), bs) | _ \<Rightarrow> None)
           else if n = 0xc3 then Some (Simple Ret, bs)
           else if n = 0xc6
             then with_rm p bs (\<lambda>reg rm bs.
               if reg mod 8 = 0 \<and> is_mem rm then with_imm (imm8 bs) (MovImm W8 rm) else None)
           else if n = 0xc7
             then with_rm p bs (\<lambda>reg rm bs.
               if reg mod 8 = 0 then with_imm (imm32 bs) (MovImm w rm) else None)
           else if n = 0xc9 then Some (Simple Leave, bs)
           else if n = 0xcc then Some (Simple Int3, bs)
           else if n = 0xe3 then with_imm (imm8 bs) Jrcxz
           else if n = 0xe8 then with_imm (imm32 bs) Call
           else if n = 0xe9 then with_imm (imm32 bs) Jmp
           else if n = 0xeb then with_imm (imm8 bs) Jmp
           else if n = 0xf7
             then with_rm p bs (\<lambda>reg rm bs.
               if reg mod 8 = 0 then with_imm (imm32 bs) (TestImm w rm) else None)
           else if n = 0xf8 then Some (Simple Clc, bs)
           else if n = 0xf9 then Some (Simple Stc, bs)
           else if n = 0xfc then Some (Simple Cld, bs)
           else if n = 0xfd then Some (Simple Std, bs)
           else if n = 0xfe
             then with_rm p bs (\<lambda>reg rm bs.
               if \<not> is_mem rm then None
               else if reg mod 8 = 0 then Some (Inc W8 rm, bs)
               else if reg mod 8 = 1 then Some (Dec W8 rm, bs) else None)
           else if n = 0xff then decode_ff p w bs
           else None))"

text \<open>\<open>decode bs\<close> is the first instruction of \<open>bs\<close> and its length in bytes.\<close>

definition decode :: "guint8 list \<Rightarrow> (insn \<times> nat) option" where
  "decode bs =
     (let (p, bs1) = legacy_prefixes no_prefix bs;
          (p, bs2) = rex_prefix p bs1
      in map_option (\<lambda>(i, rest). (i, length bs - length rest)) (decode_op p bs2))"

lemmas decode_eval = decode_def decode_op_def decode_0f_def decode_ff_def with_rm_def with_imm_def
  modrm_def disp_def rex_prefix_def no_prefix_def opwidth_def alu_of_def ext_def is_mem_def
  byte_reg_def Let_def

section \<open>Machine state\<close>

record x86_state =
  s_reg :: "nat \<Rightarrow> guint64"
  s_rip :: guint64
  s_flags :: guint64
  s_fs_base :: guint64
  s_gs_base :: guint64
  s_fx :: "guint8 list"
  s_mem :: memory

abbreviation (input) RAX :: nat where "RAX \<equiv> 0"
abbreviation (input) RCX :: nat where "RCX \<equiv> 1"
abbreviation (input) RDX :: nat where "RDX \<equiv> 2"
abbreviation (input) RBX :: nat where "RBX \<equiv> 3"
abbreviation (input) RSP :: nat where "RSP \<equiv> 4"
abbreviation (input) RBP :: nat where "RBP \<equiv> 5"
abbreviation (input) RSI :: nat where "RSI \<equiv> 6"
abbreviation (input) RDI :: nat where "RDI \<equiv> 7"

definition trunc :: "width \<Rightarrow> guint64 \<Rightarrow> guint64" where
  "trunc w v = (case w of W8 \<Rightarrow> ucast (ucast v :: guint8) | W32 \<Rightarrow> ucast (ucast v :: guint32) | W64 \<Rightarrow> v)"

definition reg_write :: "width \<Rightarrow> nat \<Rightarrow> guint64 \<Rightarrow> x86_state \<Rightarrow> x86_state" where
  "reg_write w r v s =
     s\<lparr>s_reg := (s_reg s)(r := (case w of
          W8 \<Rightarrow> (s_reg s r AND NOT 0xff) OR trunc W8 v
        | W32 \<Rightarrow> trunc W32 v
        | W64 \<Rightarrow> v))\<rparr>"

definition mem_read :: "width \<Rightarrow> memory \<Rightarrow> gpointer \<Rightarrow> guint64" where
  "mem_read w m a = (case w of
      W8 \<Rightarrow> ucast (m a)
    | W32 \<Rightarrow> ucast (of_le (read_bytes m a 4) :: guint32)
    | W64 \<Rightarrow> of_le (read_bytes m a 8))"

definition mem_write :: "width \<Rightarrow> memory \<Rightarrow> gpointer \<Rightarrow> guint64 \<Rightarrow> memory" where
  "mem_write w m a v = (case w of
      W8 \<Rightarrow> m(a := ucast v)
    | W32 \<Rightarrow> write_bytes m a (le32 (ucast v))
    | W64 \<Rightarrow> write_bytes m a (le64 v))"

definition seg_base :: "x86_state \<Rightarrow> segment option \<Rightarrow> guint64" where
  "seg_base s sg = (case sg of None \<Rightarrow> 0 | Some FS \<Rightarrow> s_fs_base s | Some GS \<Rightarrow> s_gs_base s)"

text \<open>Here and below the instruction pointer is already that of the next instruction.\<close>

fun offset_of :: "x86_state \<Rightarrow> ea \<Rightarrow> guint64" where
  "offset_of s (EA sg a32 bas idx d) =
     trunc (if a32 then W32 else W64)
       ((case bas of None \<Rightarrow> 0 | Some b \<Rightarrow> s_reg s b)
        + (case idx of None \<Rightarrow> 0 | Some (i, sc) \<Rightarrow> s_reg s i * of_nat sc) + d)"
| "offset_of s (EA_rip sg d) = s_rip s + d"

fun segment_of :: "ea \<Rightarrow> segment option" where
  "segment_of (EA sg a32 bas idx d) = sg"
| "segment_of (EA_rip sg d) = sg"

definition address_of :: "x86_state \<Rightarrow> ea \<Rightarrow> guint64" where
  "address_of s e = seg_base s (segment_of e) + offset_of s e"

definition op_read :: "width \<Rightarrow> x86_state \<Rightarrow> operand \<Rightarrow> guint64" where
  "op_read w s rm = (case rm of Reg r \<Rightarrow> trunc w (s_reg s r) | Mem e \<Rightarrow> mem_read w (s_mem s) (address_of s e))"

definition op_write :: "width \<Rightarrow> x86_state \<Rightarrow> operand \<Rightarrow> guint64 \<Rightarrow> x86_state" where
  "op_write w s rm v = (case rm of
      Reg r \<Rightarrow> reg_write w r v s
    | Mem e \<Rightarrow> s\<lparr>s_mem := mem_write w (s_mem s) (address_of s e) v\<rparr>)"

section \<open>Flags\<close>

abbreviation (input) CF :: nat where "CF \<equiv> 0"
abbreviation (input) PF :: nat where "PF \<equiv> 2"
abbreviation (input) AF :: nat where "AF \<equiv> 4"
abbreviation (input) ZF :: nat where "ZF \<equiv> 6"
abbreviation (input) SF :: nat where "SF \<equiv> 7"
abbreviation (input) DF :: nat where "DF \<equiv> 10"
abbreviation (input) OF :: nat where "OF \<equiv> 11"

definition put_flag :: "nat \<Rightarrow> bool \<Rightarrow> guint64 \<Rightarrow> guint64" where
  "put_flag n b f = (if b then set_bit n f else unset_bit n f)"

fun put_flags :: "(nat \<times> bool) list \<Rightarrow> guint64 \<Rightarrow> guint64" where
  "put_flags [] f = f"
| "put_flags ((n, b) # xs) f = put_flag n b (put_flags xs f)"

definition sign :: "width \<Rightarrow> guint64 \<Rightarrow> bool" where
  "sign w v = bit v (case w of W8 \<Rightarrow> 7 | W32 \<Rightarrow> 31 | W64 \<Rightarrow> 63)"

definition parity :: "guint64 \<Rightarrow> bool" where
  "parity v = even (length (filter (bit v) [0..<8]))"

definition result_flags :: "width \<Rightarrow> guint64 \<Rightarrow> (nat \<times> bool) list" where
  "result_flags w r = [(ZF, r = 0), (SF, sign w r), (PF, parity r)]"

text \<open>Addition and subtraction with a carry or borrow: the result and the flags it sets.\<close>

definition add_with :: "width \<Rightarrow> guint64 \<Rightarrow> guint64 \<Rightarrow> bool \<Rightarrow> guint64 \<times> (nat \<times> bool) list" where
  "add_with w a b c =
     (let r = trunc w (a + b + (if c then 1 else 0)) in
      (r, [(CF, if c then r \<le> a else r < a), (OF, sign w a = sign w b \<and> sign w r \<noteq> sign w a),
           (AF, bit (a XOR b XOR r) 4)] @ result_flags w r))"

definition sub_with :: "width \<Rightarrow> guint64 \<Rightarrow> guint64 \<Rightarrow> bool \<Rightarrow> guint64 \<times> (nat \<times> bool) list" where
  "sub_with w a b c =
     (let r = trunc w (a - b - (if c then 1 else 0)) in
      (r, [(CF, if c then a \<le> b else a < b), (OF, sign w a \<noteq> sign w b \<and> sign w r \<noteq> sign w a),
           (AF, bit (a XOR b XOR r) 4)] @ result_flags w r))"

definition logic_with :: "width \<Rightarrow> guint64 \<Rightarrow> guint64 \<times> (nat \<times> bool) list" where
  "logic_with w r = (r, [(CF, False), (OF, False)] @ result_flags w r)"

definition alu_result :: "alu \<Rightarrow> width \<Rightarrow> bool \<Rightarrow> guint64 \<Rightarrow> guint64 \<Rightarrow> guint64 \<times> (nat \<times> bool) list" where
  "alu_result op w c a b = (case op of
      AluAdd \<Rightarrow> add_with w a b False
    | AluOr \<Rightarrow> logic_with w (a OR b)
    | AluAdc \<Rightarrow> add_with w a b c
    | AluSbb \<Rightarrow> sub_with w a b c
    | AluAnd \<Rightarrow> logic_with w (a AND b)
    | AluSub \<Rightarrow> sub_with w a b False
    | AluXor \<Rightarrow> logic_with w (a XOR b)
    | AluCmp \<Rightarrow> sub_with w a b False)"

definition set_flags :: "(nat \<times> bool) list \<Rightarrow> x86_state \<Rightarrow> x86_state" where
  "set_flags fs s = s\<lparr>s_flags := put_flags fs (s_flags s)\<rparr>"

definition condition :: "nat \<Rightarrow> guint64 \<Rightarrow> bool" where
  "condition cc f =
     (let c = (case cc div 2 of
          0 \<Rightarrow> bit f OF | Suc 0 \<Rightarrow> bit f CF | Suc (Suc 0) \<Rightarrow> bit f ZF
        | Suc (Suc (Suc 0)) \<Rightarrow> bit f CF \<or> bit f ZF
        | Suc (Suc (Suc (Suc 0))) \<Rightarrow> bit f SF
        | Suc (Suc (Suc (Suc (Suc 0)))) \<Rightarrow> bit f PF
        | Suc (Suc (Suc (Suc (Suc (Suc 0))))) \<Rightarrow> bit f SF \<noteq> bit f OF
        | _ \<Rightarrow> bit f ZF \<or> bit f SF \<noteq> bit f OF)
      in if even cc then c else \<not> c)"

section \<open>Execution\<close>

definition push :: "guint64 \<Rightarrow> x86_state \<Rightarrow> x86_state" where
  "push v s = s\<lparr>s_reg := (s_reg s)(RSP := s_reg s RSP - 8),
                s_mem := mem_write W64 (s_mem s) (s_reg s RSP - 8) v\<rparr>"

definition pop_value :: "x86_state \<Rightarrow> guint64" where
  "pop_value s = mem_read W64 (s_mem s) (s_reg s RSP)"

definition drop_stack :: "guint64 \<Rightarrow> x86_state \<Rightarrow> x86_state" where
  "drop_stack n s = s\<lparr>s_reg := (s_reg s)(RSP := s_reg s RSP + n)\<rparr>"

definition exec_alu :: "alu \<Rightarrow> width \<Rightarrow> operand \<Rightarrow> guint64 \<Rightarrow> x86_state \<Rightarrow> x86_state" where
  "exec_alu op w dst b s =
     (let (r, fs) = alu_result op w (bit (s_flags s) CF) (op_read w s dst) (trunc w b);
          s' = (if op = AluCmp then s else op_write w s dst r)
      in set_flags fs s')"

fun exec_simple :: "simple_insn \<Rightarrow> x86_state \<Rightarrow> x86_state option" where
  "exec_simple Pushf s = Some (push (s_flags s) s)"
| "exec_simple Popf s = Some ((drop_stack 8 s)\<lparr>s_flags := pop_value s\<rparr>)"
| "exec_simple Sahf s =
     Some (s\<lparr>s_flags := (s_flags s AND NOT 0xd5) OR (drop_bit 8 (s_reg s RAX) AND 0xd5)\<rparr>)"
| "exec_simple Lahf s =
     Some (s\<lparr>s_reg := (s_reg s)(RAX := (s_reg s RAX AND NOT 0xff00)
              OR push_bit 8 ((s_flags s AND 0xd5) OR 2))\<rparr>)"
| "exec_simple Clc s = Some (set_flags [(CF, False)] s)"
| "exec_simple Stc s = Some (set_flags [(CF, True)] s)"
| "exec_simple Cld s = Some (set_flags [(DF, False)] s)"
| "exec_simple Std s = Some (set_flags [(DF, True)] s)"
| "exec_simple Ret s = Some ((drop_stack 8 s)\<lparr>s_rip := pop_value s\<rparr>)"
| "exec_simple Leave s =
     (let s = s\<lparr>s_reg := (s_reg s)(RSP := s_reg s RBP)\<rparr>
      in Some ((drop_stack 8 s)\<lparr>s_reg := (s_reg (drop_stack 8 s))(RBP := pop_value s)\<rparr>))"
| "exec_simple Nop s = Some s"
| "exec_simple Pause s = Some s"
| "exec_simple Lfence s = Some s"
| "exec_simple Ud2 s = None"
| "exec_simple Int3 s = None"
| "exec_simple Cpuid s = None"
| "exec_simple Rdtsc s = None"

definition shift_count :: "width \<Rightarrow> guint8 \<Rightarrow> nat" where
  "shift_count w i = (if w = W64 then unat i mod 64 else unat i mod 32)"

fun exec :: "insn \<Rightarrow> x86_state \<Rightarrow> x86_state option" where
  "exec (Alu op w dst src) s = Some (exec_alu op w dst (s_reg s src) s)"
| "exec (AluLoad op w dst src) s = Some (exec_alu op w (Reg dst) (op_read w s src) s)"
| "exec (AluImm op w dst i) s = Some (exec_alu op w dst i s)"
| "exec (Test w dst src) s =
     Some (set_flags (snd (logic_with w (op_read w s dst AND trunc w (s_reg s src)))) s)"
| "exec (TestImm w dst i) s = Some (set_flags (snd (logic_with w (op_read w s dst AND trunc w i))) s)"
| "exec (Inc w dst) s =
     (let (r, fs) = add_with w (op_read w s dst) 1 False in Some (set_flags (tl fs) (op_write w s dst r)))"
| "exec (Dec w dst) s =
     (let (r, fs) = sub_with w (op_read w s dst) 1 False in Some (set_flags (tl fs) (op_write w s dst r)))"
| "exec (LockInc w dst) s =
     (let (r, fs) = add_with w (op_read w s dst) 1 False in Some (set_flags (tl fs) (op_write w s dst r)))"
| "exec (LockDec w dst) s =
     (let (r, fs) = sub_with w (op_read w s dst) 1 False in Some (set_flags (tl fs) (op_write w s dst r)))"
| "exec (Shl w dst i) s =
     (let k = shift_count w i; a = op_read w s dst; r = trunc w (push_bit k a) in
      if k = 0 then Some (op_write w s dst a)
      else Some (set_flags ((CF, sign w (push_bit (k - 1) a)) # result_flags w r) (op_write w s dst r)))"
| "exec (Shr w dst i) s =
     (let k = shift_count w i; a = op_read w s dst; r = drop_bit k a in
      if k = 0 then Some (op_write w s dst a)
      else Some (set_flags ((CF, bit a (k - 1)) # result_flags w r) (op_write w s dst r)))"
| "exec (MovStore w dst src) s = Some (op_write w s dst (trunc w (s_reg s src)))"
| "exec (MovLoad w dst src) s = Some (reg_write w dst (op_read w s src) s)"
| "exec (MovImm w dst i) s = Some (op_write w s dst i)"
| "exec (MovRegImm w dst i) s = Some (reg_write w dst i s)"
| "exec (MovZxByte w dst src) s = Some (reg_write w dst (op_read W8 s src) s)"
| "exec (Lea w dst e) s = Some (reg_write w dst (offset_of s e) s)"
| "exec (Xchg w dst src) s =
     Some (reg_write w src (op_read w s dst) (op_write w s dst (trunc w (s_reg s src))))"
| "exec (LockXadd w dst src) s =
     (let a = op_read w s dst; (r, fs) = add_with w a (trunc w (s_reg s src)) False
      in Some (set_flags fs (op_write w (reg_write w src a s) dst r)))"
| "exec (LockCmpxchg w dst src) s =
     (let a = op_read w s dst; acc = trunc w (s_reg s RAX); (r, fs) = sub_with w acc a False in
      Some (set_flags fs (if acc = a then op_write w s dst (trunc w (s_reg s src)) else reg_write w RAX a s)))"
| "exec (Push rm) s = Some (push (op_read W64 s rm) s)"
| "exec (PushImm i) s = Some (push i s)"
| "exec (Pop r) s = Some (reg_write W64 r (pop_value s) (drop_stack 8 s))"
| "exec (Jmp d) s = Some (s\<lparr>s_rip := s_rip s + d\<rparr>)"
| "exec (JmpInd rm) s = Some (s\<lparr>s_rip := op_read W64 s rm\<rparr>)"
| "exec (Jcc cc d) s = Some (if condition cc (s_flags s) then s\<lparr>s_rip := s_rip s + d\<rparr> else s)"
| "exec (Jrcxz d) s = Some (if s_reg s RCX = 0 then s\<lparr>s_rip := s_rip s + d\<rparr> else s)"
| "exec (Call d) s = Some ((push (s_rip s) s)\<lparr>s_rip := s_rip s + d\<rparr>)"
| "exec (CallInd rm) s = Some ((push (s_rip s) s)\<lparr>s_rip := op_read W64 s rm\<rparr>)"
| "exec (RetImm n) s = Some ((drop_stack (8 + ucast n) s)\<lparr>s_rip := pop_value s\<rparr>)"
| "exec (Fxsave e) s = Some (s\<lparr>s_mem := write_bytes (s_mem s) (address_of s e) (s_fx s)\<rparr>)"
| "exec (Fxrstor e) s = Some (s\<lparr>s_fx := read_bytes (s_mem s) (address_of s e) (length (s_fx s))\<rparr>)"
| "exec (Simple i) s = exec_simple i s"

text \<open>Fetch, decode, execute. No instruction is longer than fifteen bytes.\<close>

definition x86_step :: "x86_state \<Rightarrow> x86_state option" where
  "x86_step s =
     (case decode (read_bytes (s_mem s) (s_rip s) 15) of
        None \<Rightarrow> None
      | Some (i, n) \<Rightarrow> exec i (s\<lparr>s_rip := s_rip s + of_nat n\<rparr>))"

fun x86_run :: "nat \<Rightarrow> x86_state \<Rightarrow> x86_state option" where
  "x86_run 0 s = Some s"
| "x86_run (Suc n) s = (case x86_step s of None \<Rightarrow> None | Some s' \<Rightarrow> x86_run n s')"

lemma x86_run_add: "x86_run (m + n) s = (case x86_run m s of None \<Rightarrow> None | Some s' \<Rightarrow> x86_run n s')"
  by (induction m arbitrary: s) (auto split: option.splits)

end
