(* ===== verification/Gum_X86_Encoding.thy ===== *)
theory Gum_X86_Encoding
  imports Gum_X86_Branch X86_Machine
begin

text \<open>
  The writer's operations as appended bytes. \<open>emit self bs\<close> is the writer after \<open>bs\<close> have been stored
  at its cursor and committed, \<open>stage self bs\<close> the writer with \<open>bs\<close> stored and not committed. The
  rules of \<open>emit_rules\<close> turn an encoder of \<^verbatim>\<open>gumx86writer.c\<close> into an \<open>emit\<close> of explicit bytes, and the
  lemmas on REX prefixes and ModRM bytes connect those bytes to the decoder of \<^verbatim>\<open>X86_Machine\<close>.
\<close>

section \<open>Appending bytes\<close>

definition stage :: "GumX86Writer \<Rightarrow> guint8 list \<Rightarrow> GumX86Writer" where
  "stage self bs = self\<lparr>w_mem := write_bytes (w_mem self) (w_code self) bs\<rparr>"

definition emit :: "GumX86Writer \<Rightarrow> guint8 list \<Rightarrow> GumX86Writer" where
  "emit self bs = self\<lparr>w_code := w_code self + of_nat (length bs), w_pc := w_pc self + of_nat (length bs),
     w_mem := write_bytes (w_mem self) (w_code self) bs\<rparr>"

lemma emit_fields [simp]:
  "w_ref_count (emit self bs) = w_ref_count self"
  "w_flush_on_destroy (emit self bs) = w_flush_on_destroy self"
  "w_target_cpu (emit self bs) = w_target_cpu self"
  "w_target_abi (emit self bs) = w_target_abi self"
  "w_base (emit self bs) = w_base self"
  "w_code (emit self bs) = w_code self + of_nat (length bs)"
  "w_pc (emit self bs) = w_pc self + of_nat (length bs)"
  "w_label_defs (emit self bs) = w_label_defs self"
  "w_label_refs (emit self bs) = w_label_refs self"
  "w_mem (emit self bs) = write_bytes (w_mem self) (w_code self) bs"
  by (simp_all add: emit_def)

lemma stage_fields [simp]:
  "w_target_cpu (stage self bs) = w_target_cpu self"
  "w_target_abi (stage self bs) = w_target_abi self"
  "w_base (stage self bs) = w_base self"
  "w_code (stage self bs) = w_code self"
  "w_pc (stage self bs) = w_pc self"
  "w_label_defs (stage self bs) = w_label_defs self"
  "w_label_refs (stage self bs) = w_label_refs self"
  "w_mem (stage self bs) = write_bytes (w_mem self) (w_code self) bs"
  by (simp_all add: stage_def)

lemma emit_Nil [simp]: "emit self [] = self"
  by (simp add: emit_def)

lemma emit_emit [emit_rules]: "emit (emit self xs) ys = emit self (xs @ ys)"
  by (simp add: emit_def write_bytes_append algebra_simps)

lemma emit_read_back:
  "length bs \<le> 2 ^ 64 \<Longrightarrow> read_bytes (w_mem (emit self bs)) (w_code self) (length bs) = bs"
  by (simp add: read_write_bytes)

lemma poke_stage_first [emit_rules]:
  "poke8 self 0 b = stage self [b]"
  "poke32 self 0 d = stage self (le32 d)"
  "poke64 self 0 q = stage self (le64 q)"
  by (simp_all add: poke8_def poke32_def poke64_def stage_def)

lemma poke_stage_next [emit_rules]:
  "of_nat (length bs) = i \<Longrightarrow> poke8 (stage self bs) i b = stage self (bs @ [b])"
  "of_nat (length bs) = i \<Longrightarrow> poke32 (stage self bs) i d = stage self (bs @ le32 d)"
  "of_nat (length bs) = i \<Longrightarrow> poke64 (stage self bs) i q = stage self (bs @ le64 q)"
  by (auto simp: poke8_def poke32_def poke64_def stage_def write_bytes_append)

lemma ucast_of_nat_small: "n < 2 ^ 32 \<Longrightarrow> ucast (of_nat n :: guint32) = (of_nat n :: gpointer)"
  by (simp add: word_unat_eq_iff unsigned_ucast_eq unat_of_nat take_bit_nat_eq_self)

lemma commit_stage [emit_rules]:
  "of_nat (length bs) = n \<Longrightarrow> length bs < 2 ^ 32 \<Longrightarrow> gum_x86_writer_commit (stage self bs) n = emit self bs"
  by (auto simp: gum_x86_writer_commit_def stage_def emit_def ucast_of_nat_small)

lemma put_emit [emit_rules]:
  "gum_x86_writer_put_u8 self b = emit self [b]"
  "gum_x86_writer_put_s8 self b = emit self [b]"
  by (simp_all add: gum_x86_writer_put_u8_def gum_x86_writer_put_s8_def emit_rules)

lemma put_bytes_emit [emit_rules]:
  "length bs < 2 ^ 32 \<Longrightarrow> gum_x86_writer_put_bytes self bs = emit self bs"
  by (simp add: gum_x86_writer_put_bytes_def gum_x86_writer_commit_def emit_def ucast_of_nat_small)

lemma describe_gpr [emit_rules]:
  "w_target_cpu self = cpu \<Longrightarrow> gpr_of cpu r = Some (n, w)
     \<Longrightarrow> gum_x86_writer_describe_cpu_reg self r = reg_info n w"
  by (simp add: gum_x86_writer_describe_cpu_reg_def describe_cpu_reg_gpr)

lemma reg_info_fields [simp]:
  "ri_index (reg_info n w) = of_nat (n mod 8)"
  "ri_index_is_extended (reg_info n w) = (8 \<le> n)"
  "ri_width (reg_info n w) = of_nat w"
  "ri_meta (reg_info n w) = of_nat n"
  by (simp_all add: reg_info_def)

section \<open>REX prefixes and ModRM bytes\<close>

text \<open>The bytes as the architecture lays them out: \<open>REX\<close> is \<open>0100WRXB\<close>, ModRM \<open>mod:2 reg:3 rm:3\<close>.\<close>

definition rex :: "bool \<Rightarrow> bool \<Rightarrow> bool \<Rightarrow> bool \<Rightarrow> guint8 list" where
  "rex w r x b = (if w \<or> r \<or> x \<or> b
     then [of_nat (64 + 8 * of_bool w + 4 * of_bool r + 2 * of_bool x + of_bool b)] else [])"

definition modrm_byte :: "nat \<Rightarrow> nat \<Rightarrow> nat \<Rightarrow> guint8" where
  "modrm_byte md r m = of_nat (64 * md + 8 * r + m)"

lemma length_rex [simp]: "length (rex w r x b) = of_bool (w \<or> r \<or> x \<or> b)"
  by (simp add: rex_def)

lemma modrm_byte_table:
  "\<forall>md \<in> set [0..<4]. \<forall>r \<in> set [0..<8]. \<forall>m \<in> set [0..<8].
     ucast (of_nat (64 * md) OR push_bit 3 (of_nat r :: guint32) OR of_nat m) = modrm_byte md r m"
  unfolding modrm_byte_def by code_simp

lemma opcode_digit_table:
  "\<forall>k \<in> set [0..<32]. \<forall>m \<in> set [0..<8].
     ucast (of_nat (8 * k) OR (of_nat m :: guint32)) = (of_nat (8 * k + m) :: guint8)"
  by code_simp

lemma modrm_or:
  assumes "r < 8" "m < 8"
  shows "ucast (0xc0 OR push_bit 3 (of_nat r :: guint32) OR of_nat m) = modrm_byte 3 r m"
    and "ucast (0x80 OR push_bit 3 (of_nat r :: guint32) OR of_nat m) = modrm_byte 2 r m"
    and "ucast (0x40 OR push_bit 3 (of_nat r :: guint32) OR of_nat m) = modrm_byte 1 r m"
    and "ucast (push_bit 3 (of_nat r :: guint32) OR of_nat m) = modrm_byte 0 r m"
  using modrm_byte_table [rule_format, of 3 r m] modrm_byte_table [rule_format, of 2 r m]
    modrm_byte_table [rule_format, of 1 r m] modrm_byte_table [rule_format, of 0 r m] assms
  by simp_all

lemma modrm_or_fixed:
  assumes "r < 8"
  shows "ucast (push_bit 3 (of_nat r :: guint32) OR 5) = modrm_byte 0 r 5"
    and "ucast (push_bit 3 (of_nat r :: guint32) OR 4) = modrm_byte 0 r 4"
    and "ucast (5 OR push_bit 3 (of_nat r :: guint32)) = modrm_byte 0 r 5"
  using modrm_or(4) [of r 5] modrm_or(4) [of r 4] assms by (simp_all add: or.commute)

lemma digit_or:
  assumes "m < 8"
  shows "ucast (0xc0 OR (of_nat m :: guint32)) = modrm_byte 3 0 m"
    and "ucast (0xc8 OR (of_nat m :: guint32)) = modrm_byte 3 1 m"
    and "ucast (0xd0 OR (of_nat m :: guint32)) = modrm_byte 3 2 m"
    and "ucast (0xe0 OR (of_nat m :: guint32)) = modrm_byte 3 4 m"
    and "ucast (0xe8 OR (of_nat m :: guint32)) = modrm_byte 3 5 m"
    and "ucast (0xf8 OR (of_nat m :: guint32)) = modrm_byte 3 7 m"
    and "ucast (0x20 OR (of_nat m :: guint32)) = modrm_byte 0 4 m"
    and "ucast (0x60 OR (of_nat m :: guint32)) = modrm_byte 1 4 m"
    and "ucast (0xa0 OR (of_nat m :: guint32)) = modrm_byte 2 4 m"
    and "ucast (0x50 OR (of_nat m :: guint32)) = (of_nat (80 + m) :: guint8)"
    and "ucast (0x58 OR (of_nat m :: guint32)) = (of_nat (88 + m) :: guint8)"
    and "ucast (0xb8 OR (of_nat m :: guint32)) = (of_nat (184 + m) :: guint8)"
  using opcode_digit_table [rule_format, of 24 m] opcode_digit_table [rule_format, of 25 m]
    opcode_digit_table [rule_format, of 26 m] opcode_digit_table [rule_format, of 28 m]
    opcode_digit_table [rule_format, of 29 m] opcode_digit_table [rule_format, of 31 m]
    opcode_digit_table [rule_format, of 4 m] opcode_digit_table [rule_format, of 12 m]
    opcode_digit_table [rule_format, of 20 m] opcode_digit_table [rule_format, of 10 m]
    opcode_digit_table [rule_format, of 11 m] opcode_digit_table [rule_format, of 23 m] assms
  by (simp_all add: modrm_byte_def)

lemma rex_nibble:
  "(let n = (0 :: guint); n = (if w then n OR 0x8 else n); n = (if r then n OR 0x4 else n);
        n = (if x then n OR 0x2 else n); n = (if b then n OR 0x1 else n)
    in if n \<noteq> 0 then (True, emit self [ucast (0x40 OR n)]) else (True, self))
   = (True, emit self (rex w r x b))"
  by (cases w; cases r; cases x; cases b; simp add: rex_def)

lemma prefix_for_registers_emit [emit_rules]:
  "w_target_cpu self = GUM_CPU_AMD64 \<Longrightarrow>
   gum_x86_writer_put_prefix_for_registers self wr dw ra others =
     (True, emit self (rex (ri_width wr \<noteq> dw)
        (case (case others of [] \<Rightarrow> None | r # _ \<Rightarrow> Some r) of None \<Rightarrow> False | Some r \<Rightarrow> ri_index_is_extended r)
        (case (case others of _ # r # _ \<Rightarrow> Some r | _ \<Rightarrow> None) of None \<Rightarrow> False | Some r \<Rightarrow> ri_index_is_extended r)
        (ri_index_is_extended ra)))"
  unfolding rex_nibble [symmetric]
  by (simp only: gum_x86_writer_put_prefix_for_registers_def put_emit GumCpuType.distinct if_False Let_def)

lemma prefix_for_reg_info_emit [emit_rules]:
  "w_target_cpu self = GUM_CPU_AMD64 \<Longrightarrow>
   gum_x86_writer_put_prefix_for_reg_info self ri 0 =
     (True, emit self (rex (ri_width ri \<noteq> 32) False False (ri_index_is_extended ri)))"
  "w_target_cpu self = GUM_CPU_AMD64 \<Longrightarrow>
   gum_x86_writer_put_prefix_for_reg_info self ri 1 =
     (True, emit self (rex (ri_width ri \<noteq> 32) (ri_index_is_extended ri) False False))"
  by (simp_all add: gum_x86_writer_put_prefix_for_reg_info_def rex_def put_emit Let_def)

section \<open>Decoding what was emitted\<close>

definition prefixes_of :: "segment option \<Rightarrow> bool \<Rightarrow> bool \<Rightarrow> bool \<Rightarrow> bool \<Rightarrow> prefixes" where
  "prefixes_of sg w r x b = no_prefix\<lparr>p_seg := sg, p_rex := w \<or> r \<or> x \<or> b, p_w := w, p_r := r, p_x := x, p_b := b\<rparr>"

lemma prefixes_of_fields [simp]:
  "p_seg (prefixes_of sg w r x b) = sg" "p_lock (prefixes_of sg w r x b) = False"
  "p_rep (prefixes_of sg w r x b) = False" "p_addr32 (prefixes_of sg w r x b) = False"
  "p_rex (prefixes_of sg w r x b) = (w \<or> r \<or> x \<or> b)" "p_w (prefixes_of sg w r x b) = w"
  "p_r (prefixes_of sg w r x b) = r" "p_x (prefixes_of sg w r x b) = x" "p_b (prefixes_of sg w r x b) = b"
  by (simp_all add: prefixes_of_def no_prefix_def)

text \<open>A byte that begins an opcode: neither a legacy prefix nor a REX prefix.\<close>

definition opcode_byte :: "guint8 \<Rightarrow> bool" where
  "opcode_byte b \<longleftrightarrow> b \<notin> {0x64, 0x65, 0x66, 0x67, 0xf0, 0xf3, 0x2e, 0x3e} \<and> unat b div 16 \<noteq> 4"

lemma legacy_prefixes_rex:
  assumes "opcode_byte c"
  shows "legacy_prefixes p (rex w r x b @ c # bs) = (p, rex w r x b @ c # bs)"
  using assms by (cases w; cases r; cases x; cases b; simp add: rex_def opcode_byte_def)

lemma rex_prefix_rex:
  assumes "opcode_byte c"
  shows "rex_prefix p (rex w r x b @ c # bs) =
    (if w \<or> r \<or> x \<or> b then p\<lparr>p_rex := True, p_w := w, p_r := r, p_x := x, p_b := b\<rparr> else p, c # bs)"
  using assms
  by (cases w; cases r; cases x; cases b; simp add: rex_def rex_prefix_def opcode_byte_def Let_def)

lemma decode_rex:
  assumes "opcode_byte c"
  shows "decode (rex w r x b @ c # bs) =
    map_option (\<lambda>(i, rest). (i, length (rex w r x b) + Suc (length bs) - length rest))
      (decode_op (prefixes_of None w r x b) (c # bs))"
  using assms
  by (auto simp: decode_def legacy_prefixes_rex rex_prefix_rex prefixes_of_def no_prefix_def)

lemma decode_seg_rex:
  assumes "opcode_byte c"
  shows "decode (0x64 # rex w r x b @ c # bs) =
    map_option (\<lambda>(i, rest). (i, Suc (length (rex w r x b) + Suc (length bs)) - length rest))
      (decode_op (prefixes_of (Some FS) w r x b) (c # bs))"
    and "decode (0x65 # rex w r x b @ c # bs) =
    map_option (\<lambda>(i, rest). (i, Suc (length (rex w r x b) + Suc (length bs)) - length rest))
      (decode_op (prefixes_of (Some GS) w r x b) (c # bs))"
  using assms
  by (auto simp: decode_def legacy_prefixes_rex rex_prefix_rex prefixes_of_def no_prefix_def)

lemma unat_modrm_byte:
  assumes "md < 4" "r < 8" "m < 8"
  shows "unat (modrm_byte md r m) = 64 * md + 8 * r + m"
proof -
  from assms have "64 * md + 8 * r + m < 2 ^ LENGTH(8)" by simp
  then show ?thesis unfolding modrm_byte_def by (simp only: unat_of_nat mod_less)
qed

lemma modrm_byte_fields:
  assumes "md < 4" "r < 8" "m < 8"
  shows "unat (modrm_byte md r m) div 64 = md" "unat (modrm_byte md r m) div 8 mod 8 = r"
    "unat (modrm_byte md r m) mod 8 = m"
proof -
  have e: "unat (modrm_byte md r m) = m + 8 * (r + 8 * md)" by (simp add: unat_modrm_byte assms)
  have q: "(m + 8 * (r + 8 * md)) div 8 = r + 8 * md" using assms(3) by simp
  have "unat (modrm_byte md r m) div 64 = unat (modrm_byte md r m) div 8 div 8"
    by (simp add: div_mult2_eq [symmetric])
  also have "\<dots> = md" unfolding e q using assms(2) by simp
  finally show "unat (modrm_byte md r m) div 64 = md" .
  show "unat (modrm_byte md r m) div 8 mod 8 = r" unfolding e q using assms(2) by simp
  show "unat (modrm_byte md r m) mod 8 = m"
    unfolding e mod_mult_self2 using assms(3) by (rule mod_less)
qed

lemma modrm_register:
  assumes "r < 8" "m < 8"
  shows "modrm p (modrm_byte 3 r m # bs) = Some (ext (p_r p) r, Reg (ext (p_b p) m), bs)"
  using assms by (simp add: modrm_def Let_def modrm_byte_fields)

lemma modrm_base_disp:
  assumes "r < 8" "m < 8" "m \<noteq> 4"
  shows "modrm p (modrm_byte 1 r m # bs) =
      map_option (\<lambda>(d, bs). (ext (p_r p) r, Mem (EA (p_seg p) (p_addr32 p) (Some (ext (p_b p) m)) None d), bs)) (imm8 bs)"
    and "modrm p (modrm_byte 2 r m # bs) =
      map_option (\<lambda>(d, bs). (ext (p_r p) r, Mem (EA (p_seg p) (p_addr32 p) (Some (ext (p_b p) m)) None d), bs)) (imm32 bs)"
  using assms by (simp_all add: modrm_def Let_def modrm_byte_fields disp_def)

lemma modrm_stack_disp:
  assumes "r < 8" "\<not> p_x p"
  shows "modrm p (modrm_byte 1 r 4 # 0x24 # bs) =
      map_option (\<lambda>(d, bs). (ext (p_r p) r, Mem (EA (p_seg p) (p_addr32 p) (Some (ext (p_b p) 4)) None d), bs)) (imm8 bs)"
    and "modrm p (modrm_byte 2 r 4 # 0x24 # bs) =
      map_option (\<lambda>(d, bs). (ext (p_r p) r, Mem (EA (p_seg p) (p_addr32 p) (Some (ext (p_b p) 4)) None d), bs)) (imm32 bs)"
    and "modrm p (modrm_byte 0 r 4 # 0x24 # bs) =
      Some (ext (p_r p) r, Mem (EA (p_seg p) (p_addr32 p) (Some (ext (p_b p) 4)) None 0), bs)"
    and "modrm p (modrm_byte 0 r 4 # 0x25 # bs) =
      map_option (\<lambda>(d, bs). (ext (p_r p) r, Mem (EA (p_seg p) (p_addr32 p) None None d), bs)) (imm32 bs)"
  using assms by (simp_all add: modrm_def Let_def modrm_byte_fields disp_def ext_def)

lemma modrm_base:
  assumes "r < 8" "m < 8" "m \<noteq> 4" "m \<noteq> 5"
  shows "modrm p (modrm_byte 0 r m # bs) =
      Some (ext (p_r p) r, Mem (EA (p_seg p) (p_addr32 p) (Some (ext (p_b p) m)) None 0), bs)"
  using assms by (simp add: modrm_def Let_def modrm_byte_fields disp_def)

lemma modrm_rip:
  assumes "r < 8"
  shows "modrm p (modrm_byte 0 r 5 # bs) =
      map_option (\<lambda>(d, bs). (ext (p_r p) r, Mem (EA_rip (p_seg p) d), bs)) (imm32 bs)"
  using assms by (simp add: modrm_def Let_def modrm_byte_fields)

lemmas modrm_rules = modrm_register modrm_base_disp modrm_stack_disp modrm_base modrm_rip

lemma ext_reg [simp]: "n < 16 \<Longrightarrow> ext (8 \<le> n) (n mod 8) = n"
  by (simp add: ext_def le_mod_geq)

lemma imm32_le32 [simp]: "imm32 (le32 d @ bs) = Some (scast d, bs)"
  using of_le_le32 [of d] by (simp add: le32_def)

lemma imm64_le64 [simp]: "imm64 (le64 q @ bs) = Some (q, bs)"
  using of_le_le64 [of q] by (simp add: le64_def)

text \<open>
  \<open>encodes self self' i\<close>: the writer moved on by appending the encoding of exactly the instruction
  \<open>i\<close>, whatever bytes follow it. \<open>width_of\<close> is the operand size that goes with a register's width.
\<close>

definition encodes :: "GumX86Writer \<Rightarrow> GumX86Writer \<Rightarrow> insn \<Rightarrow> bool" where
  "encodes self self' i \<longleftrightarrow>
     (\<exists>bs. self' = emit self bs \<and> bs \<noteq> [] \<and> length bs \<le> 15 \<and> (\<forall>rest. decode (bs @ rest) = Some (i, length bs)))"

definition width_of :: "nat \<Rightarrow> width" where
  "width_of w = (if w = 64 then W64 else W32)"

lemma encodes_emit:
  assumes "bs \<noteq> []" "length bs \<le> 15" "\<And>rest. decode (bs @ rest) = Some (i, length bs)"
  shows "encodes self (emit self bs) i"
  using assms unfolding encodes_def by blast

section \<open>Labels beside the emitted bytes\<close>

lemma emit_label_update [emit_rules]:
  "emit (self\<lparr>w_label_refs := x\<rparr>) bs = (emit self bs)\<lparr>w_label_refs := x\<rparr>"
  "emit (self\<lparr>w_label_defs := d\<rparr>) bs = (emit self bs)\<lparr>w_label_defs := d\<rparr>"
  by (simp_all add: emit_def)

definition refs_of :: "GumX86Writer \<Rightarrow> GumX86LabelRef list" where
  "refs_of self = (case w_label_refs self of None \<Rightarrow> [] | Some r \<Rightarrow> r)"

definition defs_of :: "GumX86Writer \<Rightarrow> gpointer \<rightharpoonup> gpointer" where
  "defs_of self = (case w_label_defs self of None \<Rightarrow> Map.empty | Some d \<Rightarrow> d)"

lemma add_reference:
  "gum_x86_writer_add_label_reference_here self i sz =
     self\<lparr>w_label_refs := Some (refs_of self @ [\<lparr>lr_id = i, lr_address = w_code self, lr_size = sz\<rparr>])\<rparr>"
  by (simp add: gum_x86_writer_add_label_reference_here_def refs_of_def)

lemma refs_of_simps [simp]:
  "refs_of (emit self bs) = refs_of self" "refs_of (self\<lparr>w_label_refs := Some r\<rparr>) = r" "refs_of (self\<lparr>w_label_defs := d\<rparr>) = refs_of self"
  by (simp_all add: refs_of_def)

lemma defs_of_simps [simp]:
  "defs_of (emit self bs) = defs_of self" "defs_of (self\<lparr>w_label_defs := Some r\<rparr>) = r" "defs_of (self\<lparr>w_label_refs := d\<rparr>) = defs_of self"
  by (simp_all add: defs_of_def)

lemma put_label_fresh:
  "label_lookup (defs_of self) l = 0 \<Longrightarrow>
   gum_x86_writer_put_label self l = (True, self\<lparr>w_label_defs := Some ((defs_of self)(l \<mapsto> w_code self))\<rparr>)"
  by (simp add: gum_x86_writer_put_label_def defs_of_def Let_def split: option.splits)

end
