(* ===== verification/Gum_X86_Roundtrip.thy ===== *)
theory Gum_X86_Roundtrip
  imports Gum_X86_Encoding
begin

text \<open>
  What the encoders of \<^verbatim>\<open>gumx86writer.c\<close> emit in 64-bit mode decodes to the instruction their name
  says, for every register the architecture has. Encoders of the same shape share a locale: its
  assumptions are the bytes the encoder emits and the entry of the opcode map, its lemma the round
  trip; each encoder is an interpretation.
\<close>

section \<open>Register-to-register instructions\<close>

locale reg_reg_form =
  fixes put :: "GumX86Writer \<Rightarrow> GumX86Reg \<Rightarrow> GumX86Reg \<Rightarrow> bool \<times> GumX86Writer"
    and accepted :: "nat \<Rightarrow> bool"
    and opcode :: guint8
    and mk :: "width \<Rightarrow> operand \<Rightarrow> nat \<Rightarrow> insn"
  assumes emits: "w_target_cpu self = GUM_CPU_AMD64 \<Longrightarrow> gpr_of GUM_CPU_AMD64 d = Some (i, w)
      \<Longrightarrow> gpr_of GUM_CPU_AMD64 s = Some (j, w) \<Longrightarrow> accepted i \<Longrightarrow> accepted j
      \<Longrightarrow> put self d s = (True, emit self (rex (w = 64) (8 \<le> j) False (8 \<le> i)
                                 @ [opcode, modrm_byte 3 (j mod 8) (i mod 8)]))"
    and rejects: "w_target_cpu self = GUM_CPU_AMD64 \<Longrightarrow> gpr_of GUM_CPU_AMD64 d = Some (i, w)
      \<Longrightarrow> gpr_of GUM_CPU_AMD64 s = Some (j, v) \<Longrightarrow> w \<noteq> v \<or> \<not> accepted i \<or> \<not> accepted j
      \<Longrightarrow> put self d s = (False, self)"
    and opcode: "opcode_byte opcode"
    and decodes: "decode_op p (opcode # bs) = with_rm p bs (\<lambda>reg rm bs. Some (mk (opwidth p) rm reg, bs))"
begin

lemma decode_register_form:
  "i < 16 \<Longrightarrow> j < 16 \<Longrightarrow>
   decode ((rex (w = 64) (8 \<le> j) False (8 \<le> i) @ [opcode, modrm_byte 3 (j mod 8) (i mod 8)]) @ rest) =
     Some (mk (width_of w) (Reg i) j, length (rex (w = 64) (8 \<le> j) False (8 \<le> i)) + 2)"
  by (simp add: decode_rex [OF opcode] decodes with_rm_def modrm_register opwidth_def width_of_def)

lemma round_trip:
  assumes "w_target_cpu self = GUM_CPU_AMD64"
    and "gpr_of GUM_CPU_AMD64 d = Some (i, w)" and "gpr_of GUM_CPU_AMD64 s = Some (j, v)"
  shows "if w = v \<and> accepted i \<and> accepted j
         then fst (put self d s) \<and> encodes self (snd (put self d s)) (mk (width_of w) (Reg i) j)
         else put self d s = (False, self)"
proof (cases "w = v \<and> accepted i \<and> accepted j")
  case True
  with assms have e: "put self d s = (True, emit self (rex (w = 64) (8 \<le> j) False (8 \<le> i)
                         @ [opcode, modrm_byte 3 (j mod 8) (i mod 8)]))"
    by (simp add: emits)
  from assms gpr_of_bounds have "i < 16" "j < 16" by blast+
  then have "encodes self (snd (put self d s)) (mk (width_of w) (Reg i) j)"
    unfolding e snd_conv by (intro encodes_emit) (simp_all add: decode_register_form [simplified])
  with True e show ?thesis by simp
next
  case False
  with rejects [OF assms] show ?thesis by auto
qed

end

text \<open>The facts every interpretation needs: bounds of the registers and the shape of a ModRM byte.\<close>

lemma gpr_of_width: "gpr_of cpu r = Some (n, w) \<Longrightarrow> (of_nat w = (32 :: guint)) = (w = 32) \<and> (of_nat w = (64 :: guint)) = (w = 64) \<and> (w \<noteq> 32) = (w = 64)"
  using gpr_of_bounds [of cpu r n w] by auto

lemma gpr_of_width_eq:
  "gpr_of cpu r = Some (n, w) \<Longrightarrow> gpr_of cpu q = Some (m, v) \<Longrightarrow> (of_nat w = (of_nat v :: guint)) = (w = v)"
  using gpr_of_bounds [of cpu r n w] gpr_of_bounds [of cpu q m v] by auto

lemmas reg_form = writer_defs emit_rules Let_def modrm_or gpr_of_width gpr_of_width_eq

lemmas op_form = decode_op_def opcode_byte_def Let_def alu_of_def

interpretation mov_rr: reg_reg_form gum_x86_writer_put_mov_reg_reg "\<lambda>_. True" "0x89" MovStore
  by unfold_locales (simp_all add: reg_form op_form)

interpretation add_rr: reg_reg_form gum_x86_writer_put_add_reg_reg "\<lambda>_. True" "0x01" "Alu AluAdd"
  by unfold_locales (simp_all add: reg_form op_form)

interpretation sub_rr: reg_reg_form gum_x86_writer_put_sub_reg_reg "\<lambda>_. True" "0x29" "Alu AluSub"
  by unfold_locales (simp_all add: reg_form op_form)

interpretation cmp_rr: reg_reg_form gum_x86_writer_put_cmp_reg_reg "\<lambda>_. True" "0x39" "Alu AluCmp"
  by unfold_locales (simp_all add: reg_form op_form)

interpretation test_rr: reg_reg_form gum_x86_writer_put_test_reg_reg "\<lambda>_. True" "0x85" Test
  by unfold_locales (simp_all add: reg_form op_form)

interpretation and_rr: reg_reg_form gum_x86_writer_put_and_reg_reg "\<lambda>n. n < 8" "0x21" "Alu AluAnd"
  by unfold_locales (auto simp add: reg_form op_form)

interpretation xor_rr: reg_reg_form gum_x86_writer_put_xor_reg_reg "\<lambda>n. n < 8" "0x31" "Alu AluXor"
  by unfold_locales (auto simp add: reg_form op_form)

section \<open>A register and a 32-bit immediate\<close>

text \<open>
  Comparison, conjunction and test have a short form for the accumulator and the general form with
  the operation in the ModRM byte. The processor sign-extends the immediate.
\<close>

locale reg_imm32_form =
  fixes put :: "GumX86Writer \<Rightarrow> GumX86Reg \<Rightarrow> guint32 \<Rightarrow> bool \<times> GumX86Writer"
    and short_op :: guint8 and long_op :: guint8 and digit :: nat
    and mk :: "width \<Rightarrow> operand \<Rightarrow> guint64 \<Rightarrow> insn"
  assumes emits: "w_target_cpu self = GUM_CPU_AMD64 \<Longrightarrow> gpr_of GUM_CPU_AMD64 r = Some (i, w)
      \<Longrightarrow> put self r imm = (True, emit self (rex (w = 64) False False (8 \<le> i)
            @ (if i = 0 then [short_op] else [long_op, modrm_byte 3 digit (i mod 8)]) @ le32 imm))"
    and opcodes: "opcode_byte short_op" "opcode_byte long_op" "digit < 8"
    and decodes_short: "decode_op p (short_op # bs) = with_imm (imm32 bs) (mk (opwidth p) (Reg 0))"
    and decodes_long: "modrm p bs = Some (reg, rm, bs') \<Longrightarrow> reg mod 8 = digit
      \<Longrightarrow> decode_op p (long_op # bs) = with_imm (imm32 bs') (mk (opwidth p) rm)"
begin

lemma round_trip:
  assumes "w_target_cpu self = GUM_CPU_AMD64" and "gpr_of GUM_CPU_AMD64 r = Some (i, w)"
  shows "fst (put self r imm)" and "encodes self (snd (put self r imm)) (mk (width_of w) (Reg i) (scast imm))"
proof -
  from emits [OF assms] show "fst (put self r imm)" by simp
  from assms gpr_of_bounds have "i < 16" by blast
  have m: "modrm (prefixes_of None (w = 64) False False (8 \<le> i)) (modrm_byte 3 digit (i mod 8) # bs)
      = Some (digit, Reg i, bs)" for bs
    using opcodes(3) \<open>i < 16\<close> by (simp add: modrm_register) (simp add: ext_def)
  show "encodes self (snd (put self r imm)) (mk (width_of w) (Reg i) (scast imm))"
  proof (cases "i = 0")
    case True
    then show ?thesis unfolding emits [OF assms] snd_conv
      by (intro encodes_emit) (simp_all add: decode_rex [OF opcodes(1)] decodes_short with_imm_def opwidth_def width_of_def)
  next
    case False
    then show ?thesis unfolding emits [OF assms] snd_conv
      by (intro encodes_emit)
        (simp_all add: decode_rex [OF opcodes(2)] decodes_long [OF m] opcodes(3) with_imm_def opwidth_def width_of_def)
  qed
qed

end

lemma gpr_meta_zero: "gpr_of cpu r = Some (n, w) \<Longrightarrow> (of_nat n = (0 :: guint)) = (n = 0)"
  using gpr_of_bounds [of cpu r n w] by (auto simp: word_of_nat_eq_0_iff dest: dvd_imp_le)

interpretation and_ri: reg_imm32_form gum_x86_writer_put_and_reg_u32 "0x25" "0x81" 4 "AluImm AluAnd"
  by unfold_locales (simp_all add: reg_form op_form digit_or gpr_meta_zero with_rm_def)

interpretation cmp_ri: reg_imm32_form gum_x86_writer_put_cmp_reg_i32 "0x3d" "0x81" 7 "AluImm AluCmp"
  by unfold_locales (simp_all add: reg_form op_form digit_or gpr_meta_zero with_rm_def)

interpretation test_ri: reg_imm32_form gum_x86_writer_put_test_reg_u32 "0xa9" "0xf7" 0 TestImm
  by unfold_locales (simp_all add: reg_form op_form digit_or gpr_meta_zero with_rm_def)

section \<open>Displacements and immediates\<close>

lemma scast_ucast_in_range:
  fixes x :: gssize
  assumes "- (2 ^ (LENGTH('a) - Suc 0)) \<le> sint x" "sint x < 2 ^ (LENGTH('a) - Suc 0)" "LENGTH('a::len) \<le> 64"
  shows "scast (ucast x :: 'a word) = x"
proof (rule signed_word_eqI [where 'a = int])
  have "signed_take_bit (LENGTH('a) - Suc 0) (uint x) = signed_take_bit (LENGTH('a) - Suc 0) (sint x)"
    using le_diff_conv [of "LENGTH('a)" "Suc 0" 63] assms(3)
    by (simp add: sint_uint signed_take_bit_signed_take_bit min_def)
  also have "\<dots> = sint x"
    using assms(1,2) by (rule signed_take_bit_int_eq_self)
  finally have "signed_take_bit (LENGTH('a) - Suc 0) (uint x) = sint x" .
  moreover have "signed_take_bit 63 (sint x) = sint x"
    by (simp add: sint_uint signed_take_bit_signed_take_bit)
  ultimately show "(sint (scast (ucast x :: 'a word) :: gssize)) = sint x"
    by (subst signed_scast_eq, subst signed_ucast_eq) simp
qed

lemma scast_ucast_i8: "GUM_IS_WITHIN_INT8_RANGE x \<Longrightarrow> scast (ucast x :: guint8) = x"
  by (rule scast_ucast_in_range) (simp_all add: GUM_IS_WITHIN_INT8_RANGE_def)

lemma scast_ucast_i32: "GUM_IS_WITHIN_INT32_RANGE x \<Longrightarrow> scast (ucast x :: guint32) = x"
  by (rule scast_ucast_in_range) (simp_all add: GUM_IS_WITHIN_INT32_RANGE_def)

lemma imm8_i8: "GUM_IS_WITHIN_INT8_RANGE x \<Longrightarrow> imm8 (ucast x # bs) = Some (x, bs)"
  by (simp add: scast_ucast_i8)

lemma imm32_i32: "GUM_IS_WITHIN_INT32_RANGE x \<Longrightarrow> imm32 (le32 (ucast x) @ bs) = Some (x, bs)"
  by (simp add: scast_ucast_i32)

lemma i8_is_i32: "GUM_IS_WITHIN_INT8_RANGE x \<Longrightarrow> GUM_IS_WITHIN_INT32_RANGE x"
  by (simp add: GUM_IS_WITHIN_INT8_RANGE_def GUM_IS_WITHIN_INT32_RANGE_def)

lemma less_8_cases: "m < 8 \<Longrightarrow> m \<in> {0, 1, 2, 3, 4, 5, 6, 7}" for m :: nat
  by auto

lemma decode_op_digit:
  assumes "m < 8"
  shows "decode_op p (of_nat (80 + m) # bs) = Some (Push (Reg (ext (p_b p) m)), bs)"
    and "decode_op p (of_nat (88 + m) # bs) = Some (Pop (ext (p_b p) m), bs)"
    and "decode_op p (of_nat (184 + m) # bs) =
     (if p_w p then with_imm (imm64 bs) (MovRegImm W64 (ext (p_b p) m))
      else with_imm (imm32 bs) (MovRegImm W32 (ext (p_b p) m)))"
    and "opcode_byte (of_nat (80 + m))" "opcode_byte (of_nat (88 + m))" "opcode_byte (of_nat (184 + m))"
  using less_8_cases [OF assms] by (auto simp: decode_op_def opcode_byte_def)

section \<open>Instructions on one register\<close>

lemma digit_rex_encodes:
  assumes "opcode_byte op" "decode_op (prefixes_of None w False False (8 \<le> i)) (op # bs @ rest) = Some (ins, rest)"
  shows "decode ((rex w False False (8 \<le> i) @ op # bs) @ rest) = Some (ins, length (rex w False False (8 \<le> i) @ op # bs))"
  using assms by (simp add: decode_rex)

lemma push_reg_emits:
  assumes "w_target_cpu self = GUM_CPU_AMD64" and "gpr_of GUM_CPU_AMD64 r = Some (i, 64)"
  shows "gum_x86_writer_put_push_reg self r = (True, emit self (rex False False False (8 \<le> i) @ [of_nat (80 + i mod 8)]))"
    and "gum_x86_writer_put_pop_reg self r = (True, emit self (rex False False False (8 \<le> i) @ [of_nat (88 + i mod 8)]))"
    and "gum_x86_writer_put_mov_reg_u64 self r imm = (True, emit self (rex True False False (8 \<le> i) @ of_nat (184 + i mod 8) # le64 imm))"
  using assms by (simp_all add: writer_defs emit_rules Let_def digit_or del: of_nat_add)

lemma push_pop_encodes:
  assumes "w_target_cpu self = GUM_CPU_AMD64" and "gpr_of GUM_CPU_AMD64 r = Some (i, 64)"
  shows "encodes self (snd (gum_x86_writer_put_push_reg self r)) (Push (Reg i))"
    and "encodes self (snd (gum_x86_writer_put_pop_reg self r)) (Pop i)"
    and "encodes self (snd (gum_x86_writer_put_mov_reg_u64 self r imm)) (MovRegImm W64 i imm)"
proof -
  from assms(2) gpr_of_bounds have i: "i < 16" by blast
  note d = decode_op_digit [of "i mod 8"]
  show "encodes self (snd (gum_x86_writer_put_push_reg self r)) (Push (Reg i))"
    unfolding push_reg_emits [OF assms] snd_conv using i d
    by (intro encodes_emit) (simp_all add: decode_rex del: of_nat_add)
  show "encodes self (snd (gum_x86_writer_put_pop_reg self r)) (Pop i)"
    unfolding push_reg_emits [OF assms] snd_conv using i d
    by (intro encodes_emit) (simp_all add: decode_rex del: of_nat_add)
  show "encodes self (snd (gum_x86_writer_put_mov_reg_u64 self r imm)) (MovRegImm W64 i imm)"
    unfolding push_reg_emits [OF assms] snd_conv using i d
    by (intro encodes_emit) (simp_all add: decode_rex with_imm_def del: of_nat_add)
qed

lemma add_sub_imm_emits:
  assumes "w_target_cpu self = GUM_CPU_AMD64" and "gpr_of GUM_CPU_AMD64 r = Some (i, w)"
  shows "gum_x86_writer_put_add_or_sub_reg_imm self r imm add = (True, emit self (rex (w = 64) False False (8 \<le> i) @
     (if GUM_IS_WITHIN_INT8_RANGE imm then [0x83, modrm_byte 3 (if add then 0 else 5) (i mod 8), ucast imm]
      else (if i = 0 then [if add then 0x05 else 0x2d]
            else [0x81, modrm_byte 3 (if add then 0 else 5) (i mod 8)]) @ le32 (ucast imm))))"
  using assms by (simp add: writer_defs emit_rules Let_def digit_or gpr_of_width gpr_meta_zero)

lemma add_sub_imm_encodes:
  assumes "w_target_cpu self = GUM_CPU_AMD64" and "gpr_of GUM_CPU_AMD64 r = Some (i, w)"
    and "GUM_IS_WITHIN_INT32_RANGE imm"
  shows "encodes self (snd (gum_x86_writer_put_add_or_sub_reg_imm self r imm add))
     (AluImm (if add then AluAdd else AluSub) (width_of w) (Reg i) imm)"
proof -
  from assms(2) gpr_of_bounds have i: "i < 16" by blast
  show ?thesis unfolding add_sub_imm_emits [OF assms(1,2)] snd_conv
    using assms(3) i
    by (cases add; cases "i = 0"; cases "GUM_IS_WITHIN_INT8_RANGE imm"; intro encodes_emit)
      (simp_all add: decode_rex op_form with_rm_def with_imm_def scast_ucast_i8 scast_ucast_i32
         opwidth_def width_of_def modrm_register ext_def [of False])
qed

section \<open>Loads and stores\<close>

definition base_ea :: "nat \<Rightarrow> guint64 \<Rightarrow> operand" where
  "base_ea b d = Mem (EA None False (Some b) None d)"

definition disp_bytes :: "gssize \<Rightarrow> guint8 list" where
  "disp_bytes d = (if GUM_IS_WITHIN_INT8_RANGE d then [ucast d] else le32 (ucast d))"

definition disp_mode :: "gssize \<Rightarrow> nat" where
  "disp_mode d = (if GUM_IS_WITHIN_INT8_RANGE d then 1 else 2)"

definition sib_bytes :: "nat \<Rightarrow> guint8 list" where
  "sib_bytes b = (if b = 4 then [0x24] else [])"

lemma modrm_disp_bytes:
  assumes "r < 8" "b < 16" "b \<noteq> 12" "GUM_IS_WITHIN_INT32_RANGE d" "p_seg p = None" "\<not> p_addr32 p" "\<not> p_x p" "p_b p = (8 \<le> b)"
  shows "modrm p (modrm_byte (disp_mode d) r (b mod 8) # sib_bytes b @ disp_bytes d @ bs) =
    Some (ext (p_r p) r, base_ea b d, bs)"
proof (cases "b = 4")
  case True
  with assms show ?thesis
    by (auto simp: modrm_stack_disp [simplified One_nat_def] sib_bytes_def disp_bytes_def disp_mode_def base_ea_def ext_def imm8_i8 imm32_i32 scast_ucast_i8 scast_ucast_i32)
next
  case False
  with assms(2,3) have "b mod 8 \<noteq> 4" by presburger
  with assms False show ?thesis
    by (auto simp: modrm_base_disp [simplified One_nat_def] sib_bytes_def disp_bytes_def disp_mode_def base_ea_def imm8_i8 imm32_i32 scast_ucast_i8 scast_ucast_i32)
qed

lemma gpr_meta_small: "gpr_of cpu r = Some (n, w) \<Longrightarrow> (of_nat n = (4 :: guint)) = (n = 4)"
  "gpr_of cpu r = Some (n, w) \<Longrightarrow> (of_nat n = (5 :: guint)) = (n = 5)"
  using gpr_of_bounds [of cpu r n w] by (auto simp: word_unat_eq_iff unat_of_nat)

lemmas modrm_or_four = modrm_or [where m = 4, simplified]

lemma load_emits:
  assumes "w_target_cpu self = GUM_CPU_AMD64" "gpr_of GUM_CPU_AMD64 d = Some (i, w)" "gpr_of GUM_CPU_AMD64 s = Some (j, 64)"
  shows "gum_x86_writer_put_mov_reg_reg_offset_ptr self d s off =
    (True, emit self (rex (w = 64) (8 \<le> i) False (8 \<le> j) @ 0x8b #
       modrm_byte (disp_mode off) (i mod 8) (j mod 8) # sib_bytes j @ disp_bytes off))"
  using assms gpr_of_bounds [OF assms(3)]
  by (simp add: reg_form sib_bytes_def disp_bytes_def disp_mode_def gpr_meta_small modrm_or_four)

lemma store_emits:
  assumes "w_target_cpu self = GUM_CPU_AMD64" "gpr_of GUM_CPU_AMD64 d = Some (j, 64)" "gpr_of GUM_CPU_AMD64 s = Some (i, w)"
  shows "gum_x86_writer_put_mov_reg_offset_ptr_reg self d off s =
    (True, emit self (rex (w = 64) (8 \<le> i) False (8 \<le> j) @ 0x89 #
       (if off = 0 \<and> j \<noteq> 5 then modrm_byte 0 (i mod 8) (j mod 8) # sib_bytes j
        else modrm_byte (disp_mode off) (i mod 8) (j mod 8) # sib_bytes j @ disp_bytes off)))"
  using assms gpr_of_bounds [OF assms(2)]
  by (simp add: reg_form sib_bytes_def disp_bytes_def disp_mode_def gpr_meta_small modrm_or_four)

lemma lea_emits:
  assumes "w_target_cpu self = GUM_CPU_AMD64" "gpr_of GUM_CPU_AMD64 d = Some (i, 64)" "gpr_of GUM_CPU_AMD64 s = Some (j, 64)"
    "i < 8" "j < 8"
  shows "gum_x86_writer_put_lea_reg_reg_offset self d s off =
    (True, emit self (rex True False False False @ 0x8d # modrm_byte 2 i j # sib_bytes j @ le32 (ucast off)))"
  using assms
  by (simp add: reg_form sib_bytes_def gpr_meta_small modrm_or_four rex_def)

lemma lea_refuses:
  assumes "w_target_cpu self = GUM_CPU_AMD64" "gpr_of GUM_CPU_AMD64 d = Some (i, w)" "gpr_of GUM_CPU_AMD64 s = Some (j, v)"
    "8 \<le> i \<or> 8 \<le> j"
  shows "gum_x86_writer_put_lea_reg_reg_offset self d s off = (False, self)"
  using assms by (auto simp: reg_form)

lemma modrm_plain_base:
  assumes "r < 8" "b < 16" "b \<noteq> 12" "b \<noteq> 13" "b \<noteq> 5" "p_seg p = None" "\<not> p_addr32 p" "\<not> p_x p" "p_b p = (8 \<le> b)"
  shows "modrm p (modrm_byte 0 r (b mod 8) # sib_bytes b @ bs) = Some (ext (p_r p) r, base_ea b 0, bs)"
proof (cases "b = 4")
  case True
  with assms show ?thesis by (simp add: modrm_stack_disp sib_bytes_def base_ea_def ext_def)
next
  case False
  with assms(2-5) have "b mod 8 \<noteq> 4" "b mod 8 \<noteq> 5" by presburger+
  with assms False show ?thesis by (simp add: modrm_base sib_bytes_def base_ea_def)
qed

lemma length_operand_bytes [simp]:
  "length (sib_bytes b) \<le> 1" "length (disp_bytes d) \<le> 4"
  by (simp_all add: sib_bytes_def disp_bytes_def)

lemma load_encodes:
  assumes "w_target_cpu self = GUM_CPU_AMD64" "gpr_of GUM_CPU_AMD64 d = Some (i, w)" "gpr_of GUM_CPU_AMD64 s = Some (j, 64)"
    and "j \<noteq> 12" "GUM_IS_WITHIN_INT32_RANGE off"
  shows "encodes self (snd (gum_x86_writer_put_mov_reg_reg_offset_ptr self d s off)) (MovLoad (width_of w) i (base_ea j off))"
proof -
  from assms gpr_of_bounds have b: "i < 16" "j < 16" by blast+
  have op: "opcode_byte 0x8b" by (simp add: opcode_byte_def)
  have len: "length (sib_bytes j) + length (disp_bytes off) \<le> 5"
    using length_operand_bytes(1) [of j] length_operand_bytes(2) [of off] by linarith
  show ?thesis unfolding load_emits [OF assms(1-3)] snd_conv using assms(4,5) b len
    by (intro encodes_emit)
      (simp_all add: decode_rex [OF op] op_form with_rm_def modrm_disp_bytes opwidth_def width_of_def)
qed

lemma store_encodes:
  assumes "w_target_cpu self = GUM_CPU_AMD64" "gpr_of GUM_CPU_AMD64 d = Some (j, 64)" "gpr_of GUM_CPU_AMD64 s = Some (i, w)"
    and "j \<noteq> 12" "\<not> (j = 13 \<and> off = 0)" "GUM_IS_WITHIN_INT32_RANGE off"
  shows "encodes self (snd (gum_x86_writer_put_mov_reg_offset_ptr_reg self d off s)) (MovStore (width_of w) (base_ea j off) i)"
proof -
  from assms gpr_of_bounds have b: "i < 16" "j < 16" by blast+
  have op: "opcode_byte 0x89" by (simp add: opcode_byte_def)
  have len: "length (sib_bytes j) + length (disp_bytes off) \<le> 5" "length (sib_bytes j) \<le> 1"
    using length_operand_bytes(1) [of j] length_operand_bytes(2) [of off] by linarith+
  show ?thesis
  proof (cases "off = 0 \<and> j \<noteq> 5")
    case True
    then show ?thesis unfolding store_emits [OF assms(1-3)] snd_conv using assms(4,5) b len
      by (intro encodes_emit)
        (simp_all add: decode_rex [OF op] op_form with_rm_def modrm_plain_base opwidth_def width_of_def)
  next
    case False
    then show ?thesis unfolding store_emits [OF assms(1-3)] snd_conv using assms(4,6) b len
      by (simp only: if_False, intro encodes_emit)
        (simp_all add: decode_rex [OF op] op_form with_rm_def modrm_disp_bytes opwidth_def width_of_def)
  qed
qed

lemma lea_encodes:
  assumes "w_target_cpu self = GUM_CPU_AMD64" "gpr_of GUM_CPU_AMD64 d = Some (i, 64)" "gpr_of GUM_CPU_AMD64 s = Some (j, 64)"
    "i < 8" "j < 8" "GUM_IS_WITHIN_INT32_RANGE off"
  shows "encodes self (snd (gum_x86_writer_put_lea_reg_reg_offset self d s off)) (Lea W64 i (EA None False (Some j) None off))"
proof -
  have op: "opcode_byte 0x8d" by (simp add: opcode_byte_def)
  show ?thesis unfolding lea_emits [OF assms(1-5)] snd_conv using assms(4-6)
    by (cases "j = 4"; intro encodes_emit)
      (simp_all add: decode_rex [OF op] op_form with_rm_def sib_bytes_def modrm_stack_disp modrm_base_disp ext_def
         scast_ucast_i32 opwidth_def)
qed

section \<open>The round trips\<close>

text \<open>
  C32: Register-to-register encoders. In 64-bit mode each of \<^verbatim>\<open>mov\<close>, \<^verbatim>\<open>add\<close>, \<^verbatim>\<open>sub\<close>, \<^verbatim>\<open>cmp\<close> and \<^verbatim>\<open>test\<close> accepts
  any two registers of one width and emits exactly one instruction, which decodes to that operation
  on those registers; it rejects registers of two widths without emitting anything.
\<close>

theorem reg_reg_round_trip:
  assumes "w_target_cpu self = GUM_CPU_AMD64"
    and "gpr_of GUM_CPU_AMD64 d = Some (i, w)" and "gpr_of GUM_CPU_AMD64 s = Some (j, v)"
  shows "\<forall>(put, mk) \<in> {(gum_x86_writer_put_mov_reg_reg, MovStore), (gum_x86_writer_put_add_reg_reg, Alu AluAdd),
      (gum_x86_writer_put_sub_reg_reg, Alu AluSub), (gum_x86_writer_put_cmp_reg_reg, Alu AluCmp),
      (gum_x86_writer_put_test_reg_reg, Test)}.
    if w = v then fst (put self d s) \<and> encodes self (snd (put self d s)) (mk (width_of w) (Reg i) j)
    else put self d s = (False, self)"
  using mov_rr.round_trip [OF assms] add_rr.round_trip [OF assms] sub_rr.round_trip [OF assms]
    cmp_rr.round_trip [OF assms] test_rr.round_trip [OF assms]
  by simp

text \<open>A fresh writer, for the witnesses.\<close>

definition sample_writer :: GumX86Writer where
  "sample_writer = \<lparr>w_ref_count = 1, w_flush_on_destroy = True, w_target_cpu = GUM_CPU_AMD64, w_target_abi = GUM_ABI_UNIX,
     w_base = 0x1000, w_code = 0x1000, w_pc = 0x1000, w_label_defs = None, w_label_refs = None, w_mem = (\<lambda>_. 0)\<rparr>"

lemma sample_writer_fields [simp]:
  "w_target_cpu sample_writer = GUM_CPU_AMD64" "w_code sample_writer = 0x1000" "w_pc sample_writer = 0x1000"
  "w_label_defs sample_writer = None" "w_label_refs sample_writer = None"
  by (simp_all add: sample_writer_def)

theorem reg_reg_round_trip_witness:
  "encodes sample_writer (snd (gum_x86_writer_put_sub_reg_reg sample_writer GUM_X86_R9 GUM_X86_RSI))
     (Alu AluSub W64 (Reg 9) 6)"
  using reg_reg_round_trip [of sample_writer GUM_X86_R9 9 64 GUM_X86_RSI 6 64] by (simp add: width_of_def)

text \<open>
  Low registers only. \<^verbatim>\<open>and\<close> and \<^verbatim>\<open>xor\<close> of two registers have the same round trip for the eight
  registers that need no extension bit and reject the others without emitting anything.
\<close>

theorem low_reg_reg_round_trip:
  assumes "w_target_cpu self = GUM_CPU_AMD64"
    and "gpr_of GUM_CPU_AMD64 d = Some (i, w)" and "gpr_of GUM_CPU_AMD64 s = Some (j, v)"
  shows "\<forall>(put, mk) \<in> {(gum_x86_writer_put_and_reg_reg, Alu AluAnd), (gum_x86_writer_put_xor_reg_reg, Alu AluXor)}.
    if w = v \<and> i < 8 \<and> j < 8 then fst (put self d s) \<and> encodes self (snd (put self d s)) (mk (width_of w) (Reg i) j)
    else put self d s = (False, self)"
  using and_rr.round_trip [OF assms] xor_rr.round_trip [OF assms] by simp

theorem low_reg_reg_round_trip_witness:
  "gum_x86_writer_put_xor_reg_reg sample_writer GUM_X86_R9 GUM_X86_RSI = (False, sample_writer)"
  using low_reg_reg_round_trip [of sample_writer GUM_X86_R9 9 64 GUM_X86_RSI 6 64] by simp

text \<open>
  Immediates. \<^verbatim>\<open>and\<close>, \<^verbatim>\<open>cmp\<close> and \<^verbatim>\<open>test\<close> of any register with a 32-bit immediate emit one
  instruction with that operation, register and sign-extended immediate, through the accumulator's
  short form or the general one; \<^verbatim>\<open>add\<close> and \<^verbatim>\<open>sub\<close> do so for every immediate that fits 32 signed bits,
  in the 8-bit form when it fits that.
\<close>

theorem reg_imm_round_trip:
  assumes "w_target_cpu self = GUM_CPU_AMD64" and "gpr_of GUM_CPU_AMD64 r = Some (i, w)"
    and "GUM_IS_WITHIN_INT32_RANGE imm"
  shows "encodes self (snd (gum_x86_writer_put_and_reg_u32 self r u)) (AluImm AluAnd (width_of w) (Reg i) (scast u)) \<and>
    encodes self (snd (gum_x86_writer_put_cmp_reg_i32 self r u)) (AluImm AluCmp (width_of w) (Reg i) (scast u)) \<and>
    encodes self (snd (gum_x86_writer_put_test_reg_u32 self r u)) (TestImm (width_of w) (Reg i) (scast u)) \<and>
    encodes self (snd (gum_x86_writer_put_add_reg_imm self r imm)) (AluImm AluAdd (width_of w) (Reg i) imm) \<and>
    encodes self (snd (gum_x86_writer_put_sub_reg_imm self r imm)) (AluImm AluSub (width_of w) (Reg i) imm)"
  using and_ri.round_trip [OF assms(1,2)] cmp_ri.round_trip [OF assms(1,2)] test_ri.round_trip [OF assms(1,2)]
    add_sub_imm_encodes [OF assms, of True] add_sub_imm_encodes [OF assms, of False]
  by (simp add: gum_x86_writer_put_add_reg_imm_def gum_x86_writer_put_sub_reg_imm_def)

theorem reg_imm_round_trip_witness:
  "encodes sample_writer (snd (gum_x86_writer_put_sub_reg_imm sample_writer GUM_X86_RSP 512)) (AluImm AluSub W64 (Reg 4) 512)"
  using reg_imm_round_trip [of sample_writer GUM_X86_RSP 4 64 512]
  by (simp add: width_of_def GUM_IS_WITHIN_INT32_RANGE_def)

text \<open>
  Stack and constants. \<^verbatim>\<open>push\<close>, \<^verbatim>\<open>pop\<close> and the 64-bit \<^verbatim>\<open>mov\<close> of a constant emit exactly that
  instruction for each of the sixteen registers.
\<close>

theorem stack_round_trip:
  assumes "w_target_cpu self = GUM_CPU_AMD64" and "gpr_of GUM_CPU_AMD64 r = Some (i, 64)"
  shows "encodes self (snd (gum_x86_writer_put_push_reg self r)) (Push (Reg i)) \<and>
    encodes self (snd (gum_x86_writer_put_pop_reg self r)) (Pop i) \<and>
    encodes self (snd (gum_x86_writer_put_mov_reg_u64 self r imm)) (MovRegImm W64 i imm)"
  using push_pop_encodes [OF assms] by simp

theorem stack_round_trip_witness:
  "encodes sample_writer (snd (gum_x86_writer_put_push_reg sample_writer GUM_X86_R15)) (Push (Reg 15))"
  using stack_round_trip [of sample_writer GUM_X86_R15 15] by simp

text \<open>
  C33: Memory operands. With a base register and a displacement of 32 signed bits, in all forms the displacement has:
  a load addresses base plus displacement for every base but \<^verbatim>\<open>r12\<close>; a store for every base but
  \<^verbatim>\<open>r12\<close>, and \<^verbatim>\<open>r13\<close> with displacement 0; \<^verbatim>\<open>lea\<close> computes it for the eight low
  registers, and is refused, with nothing emitted, when one of the registers is \<^verbatim>\<open>r8\<close> to \<^verbatim>\<open>r15\<close>.
\<close>

theorem memory_round_trip:
  assumes "w_target_cpu self = GUM_CPU_AMD64" "gpr_of GUM_CPU_AMD64 r = Some (i, w)" "gpr_of GUM_CPU_AMD64 b = Some (j, 64)"
    and "GUM_IS_WITHIN_INT32_RANGE off"
  shows "(j \<noteq> 12 \<longrightarrow>
      encodes self (snd (gum_x86_writer_put_mov_reg_reg_offset_ptr self r b off)) (MovLoad (width_of w) i (base_ea j off))) \<and>
    (j \<noteq> 12 \<and> \<not> (j = 13 \<and> off = 0) \<longrightarrow>
      encodes self (snd (gum_x86_writer_put_mov_reg_offset_ptr_reg self b off r)) (MovStore (width_of w) (base_ea j off) i)) \<and>
    (w = 64 \<and> i < 8 \<and> j < 8 \<longrightarrow>
      encodes self (snd (gum_x86_writer_put_lea_reg_reg_offset self r b off)) (Lea W64 i (EA None False (Some j) None off))) \<and>
    (8 \<le> i \<or> 8 \<le> j \<longrightarrow> gum_x86_writer_put_lea_reg_reg_offset self r b off = (False, self))"
  using load_encodes [OF assms(1-3) _ assms(4)] store_encodes [OF assms(1,3,2) _ _ assms(4)] lea_encodes [of self r i b j off]
    lea_refuses [OF assms(1-3)] assms by simp

theorem memory_round_trip_witness:
  "encodes sample_writer (snd (gum_x86_writer_put_mov_reg_reg_offset_ptr sample_writer GUM_X86_RAX GUM_X86_RSP 0x18))
     (MovLoad W64 0 (base_ea 4 0x18)) \<and>
   encodes sample_writer (snd (gum_x86_writer_put_mov_reg_offset_ptr_reg sample_writer GUM_X86_RSP 0x18 GUM_X86_RAX))
     (MovStore W64 (base_ea 4 0x18) 0)"
  using memory_round_trip [of sample_writer GUM_X86_RAX 0 64 GUM_X86_RSP 4 "0x18"]
  by (simp add: width_of_def GUM_IS_WITHIN_INT32_RANGE_def)

section \<open>Encodings that name another operand\<close>

lemma plain_rex [simp]: "rex False False False False = []"
  by (simp add: rex_def)

text \<open>
  C39: Operands the encoders get wrong. In 64-bit mode, whatever the writer's state: an indirect jump
  through \<^verbatim>\<open>[rbp]\<close> is emitted as one through an address relative to the instruction pointer; a load
  from \<^verbatim>\<open>[r12 + 8]\<close> takes its displacement byte for an index byte and reads another address; and a
  load of \<^verbatim>\<open>r8\<close> from a near address sets \<^verbatim>\<open>rax\<close>.
\<close>

theorem misencoded_operands:
  assumes "w_target_cpu self = GUM_CPU_AMD64"
  shows "gum_x86_writer_put_jmp_reg_ptr self GUM_X86_RBP = (True, emit self [0xff, 0x25, 0x0f, 0x0b]) \<and>
    (\<forall>a b rest. \<exists>d. decode ([0xff, 0x25, 0x0f, 0x0b] @ a # b # rest) = Some (JmpInd (Mem (EA_rip None d)), 6)) \<and>
    gum_x86_writer_put_mov_reg_reg_offset_ptr self GUM_X86_RAX GUM_X86_R12 8 = (True, emit self [0x49, 0x8b, 0x44, 0x08]) \<and>
    (\<forall>d rest. decode ([0x49, 0x8b, 0x44, 0x08] @ d # rest) = Some (MovLoad W64 0 (Mem (EA None False (Some 8) (Some (1, 1)) (scast d))), 5)) \<and>
    (GUM_IS_WITHIN_INT32_RANGE (p - (w_pc self + 7)) \<longrightarrow>
      gum_x86_writer_put_mov_reg_near_ptr self GUM_X86_R8 p = (True, emit self ([0x49, 0x8b, 0x05] @ le32 (ucast (p - (w_pc self + 7)))))) \<and>
    (\<forall>d rest. decode ([0x49, 0x8b, 0x05] @ le32 d @ rest) = Some (MovLoad W64 0 (Mem (EA_rip None (scast d))), 7))"
proof (intro conjI allI impI)
  show "gum_x86_writer_put_jmp_reg_ptr self GUM_X86_RBP = (True, emit self [0xff, 0x25, 0x0f, 0x0b])"
    "gum_x86_writer_put_mov_reg_reg_offset_ptr self GUM_X86_RAX GUM_X86_R12 8 = (True, emit self [0x49, 0x8b, 0x44, 0x08])"
    using assms by (simp_all add: writer_defs emit_rules Let_def rex_def GUM_IS_WITHIN_INT8_RANGE_def)
  show "\<exists>d. decode ([0xff, 0x25, 0x0f, 0x0b] @ a # b # rest) = Some (JmpInd (Mem (EA_rip None d)), 6)" for a b rest
    by (simp add: decode_eval)
  show "decode ([0x49, 0x8b, 0x44, 0x08] @ d # rest) = Some (MovLoad W64 0 (Mem (EA None False (Some 8) (Some (1, 1)) (scast d))), 5)" for d rest
    by (simp add: decode_eval)
  show "decode ([0x49, 0x8b, 0x05] @ le32 d @ rest) = Some (MovLoad W64 0 (Mem (EA_rip None (scast d))), 7)" for d rest
    by (simp add: decode_eval)
  show "gum_x86_writer_put_mov_reg_near_ptr self GUM_X86_R8 p = (True, emit self ([0x49, 0x8b, 0x05] @ le32 (ucast (p - (w_pc self + 7)))))"
    if "GUM_IS_WITHIN_INT32_RANGE (p - (w_pc self + 7))"
    using assms that by (simp add: writer_defs emit_rules Let_def rex_def add.commute [of 7 "w_pc self"])
qed

theorem misencoded_operands_witness:
  "gum_x86_writer_put_jmp_reg_ptr sample_writer GUM_X86_RBP = (True, emit sample_writer [0xff, 0x25, 0x0f, 0x0b])"
  using misencoded_operands [of sample_writer 0] by simp

end
