(* ===== verification/Gum_X86_Exec.thy ===== *)
theory Gum_X86_Exec
  imports Gum_X86_Roundtrip
begin

text \<open>
  Running emitted code on the machine of \<^verbatim>\<open>X86_Machine\<close>: one step over a decoded instruction in
  memory, reads over writes at disjoint addresses, and the jump encoders, whose three forms all
  arrive at the requested address.
\<close>

section \<open>Code in memory\<close>

definition code_at :: "memory \<Rightarrow> gpointer \<Rightarrow> guint8 list \<Rightarrow> bool" where
  "code_at m a bs \<longleftrightarrow> read_bytes m a (length bs) = bs"

lemma code_at_append:
  "code_at m a (xs @ ys) \<longleftrightarrow> code_at m a xs \<and> code_at m (a + of_nat (length xs)) ys"
  by (simp add: code_at_def read_bytes_append)

lemma code_at_emit: "length bs \<le> 2 ^ 64 \<Longrightarrow> code_at (w_mem (emit self bs)) (w_code self) bs"
  by (simp add: code_at_def read_write_bytes)

lemma code_at_write:
  "disjoint_ranges a (length bs) b (length xs) \<Longrightarrow> code_at (write_bytes m b xs) a bs = code_at m a bs"
  by (simp add: code_at_def read_write_bytes_other)

lemma x86_step_code:
  assumes code: "code_at (s_mem s) (s_rip s) bs" and len: "length bs \<le> 15"
    and dec: "\<And>rest. decode (bs @ rest) = Some (i, length bs)"
  shows "x86_step s = exec i (s\<lparr>s_rip := s_rip s + of_nat (length bs)\<rparr>)"
proof -
  have "read_bytes (s_mem s) (s_rip s) 15 =
      bs @ read_bytes (s_mem s) (s_rip s + of_nat (length bs)) (15 - length bs)"
    using code len read_bytes_append [of "s_mem s" "s_rip s" "length bs" "15 - length bs"]
    by (simp add: code_at_def)
  then show ?thesis by (simp add: x86_step_def dec)
qed

lemma encodes_step:
  assumes "encodes self self' i" and "\<And>bs. self' = emit self bs \<Longrightarrow> code_at (s_mem s) (s_rip s) bs"
  shows "x86_step s = exec i (s\<lparr>s_rip := s_rip s + (w_code self' - w_code self)\<rparr>)"
proof -
  from assms(1) obtain bs where bs: "self' = emit self bs" "length bs \<le> 15"
      "\<And>rest. decode (bs @ rest) = Some (i, length bs)"
    unfolding encodes_def by blast
  from x86_step_code [OF assms(2) [OF bs(1)] bs(2,3)] bs(1) show ?thesis by simp
qed

section \<open>Reads over writes\<close>

lemma mem_read_write_same [simp]: "mem_read W64 (mem_write W64 m a v) a = v"
  using read_write_bytes [of "le64 v" m a] by (simp add: mem_read_def mem_write_def)

lemma mem_read_write_other:
  "disjoint_ranges a 8 b 8 \<Longrightarrow> mem_read W64 (mem_write W64 m b v) a = mem_read W64 m a"
  by (simp add: mem_read_def mem_write_def read_write_bytes_other)

lemma mem_read_update_other:
  assumes "\<not> in_range x a 8"
  shows "mem_read W64 (m(x := v)) a = mem_read W64 m a"
proof -
  have "m (a + of_nat i) = (m(x := v)) (a + of_nat i)" if "i < 8" for i
  proof -
    from that have "in_range (a + of_nat i) a 8" by (simp add: in_range_def unat_of_nat)
    with assms have "a + of_nat i \<noteq> x" by auto
    then show ?thesis by simp
  qed
  then have "read_bytes (m(x := v)) a 8 = read_bytes m a 8"
    by (intro read_bytes_cong) simp
  then show ?thesis by (simp add: mem_read_def)
qed

lemma disjoint_ranges_stack:
  "disjoint_ranges (r - x) n (r - y) k \<longleftrightarrow> n \<le> unat (x - y) \<and> k \<le> unat (y - x)"
  "disjoint_ranges r n (r - y) k \<longleftrightarrow> n \<le> unat (- y) \<and> k \<le> unat y"
  "disjoint_ranges (r - x) n r k \<longleftrightarrow> n \<le> unat x \<and> k \<le> unat (- x)"
  by (simp_all add: disjoint_ranges_def)

section \<open>Jumps\<close>

lemma decode_plain:
  "opcode_byte c \<Longrightarrow> decode (c # bs) =
    map_option (\<lambda>(i, rest). (i, Suc (length bs) - length rest)) (decode_op (prefixes_of None False False False False) (c # bs))"
  using decode_rex [of c False False False False bs] by (simp add: rex_def)

lemma decode_jmp:
  "decode (0xeb # d # rest) = Some (Jmp (scast d), 2)"
  "decode (0xe9 # le32 d4 @ rest) = Some (Jmp (scast d4), 5)"
  "decode (0xff # 0x25 # le32 d4 @ rest) = Some (JmpInd (Mem (EA_rip None (scast d4))), 6)"
  by (simp_all add: decode_plain op_form with_imm_def decode_ff_def with_rm_def modrm_def ext_def)

text \<open>The bytes of \<^verbatim>\<open>gum_x86_writer_put_jmp_address\<close>, by the distance to the target.\<close>

definition jmp_bytes :: "GumAddress \<Rightarrow> GumAddress \<Rightarrow> guint8 list" where
  "jmp_bytes pc address =
     (if GUM_IS_WITHIN_INT8_RANGE (address - (pc + 2)) then [0xeb, ucast (address - (pc + 2))]
      else if GUM_IS_WITHIN_INT32_RANGE (address - (pc + 5)) then 0xe9 # le32 (ucast (address - (pc + 5)))
      else 0xff # 0x25 # le32 2 @ 0x0f # 0x0b # le64 address)"

lemma jmp_address_emits:
  "w_target_cpu self = GUM_CPU_AMD64 \<Longrightarrow>
   gum_x86_writer_put_jmp_address self address = (True, emit self (jmp_bytes (w_pc self) address))"
  by (simp add: writer_defs emit_rules Let_def jmp_bytes_def)

lemma length_jmp_bytes: "length (jmp_bytes pc address) \<in> {2, 5, 16}"
  by (simp add: jmp_bytes_def)

lemma jmp_bytes_step:
  assumes "code_at (s_mem s) (s_rip s) (jmp_bytes (s_rip s) address)"
  shows "x86_step s = Some (s\<lparr>s_rip := address\<rparr>)"
proof -
  define pc where "pc = s_rip s"
  consider (short) "GUM_IS_WITHIN_INT8_RANGE (address - (pc + 2))"
    | (near) "\<not> GUM_IS_WITHIN_INT8_RANGE (address - (pc + 2))" "GUM_IS_WITHIN_INT32_RANGE (address - (pc + 5))"
    | (far) "\<not> GUM_IS_WITHIN_INT8_RANGE (address - (pc + 2))" "\<not> GUM_IS_WITHIN_INT32_RANGE (address - (pc + 5))"
    by blast
  then show ?thesis
  proof cases
    case short
    with assms have "code_at (s_mem s) (s_rip s) [0xeb, ucast (address - (pc + 2))]"
      by (simp add: jmp_bytes_def pc_def)
    from x86_step_code [OF this] short show ?thesis
      by (simp add: decode_jmp scast_ucast_i8 pc_def)
  next
    case near
    with assms have "code_at (s_mem s) (s_rip s) (0xe9 # le32 (ucast (address - (pc + 5))))"
      by (simp add: jmp_bytes_def pc_def)
    from x86_step_code [OF this] near show ?thesis
      by (simp add: decode_jmp scast_ucast_i32 pc_def)
  next
    case far
    with assms have "code_at (s_mem s) (s_rip s) ((0xff # 0x25 # le32 2) @ [0x0f, 0x0b] @ le64 address)"
      by (simp add: jmp_bytes_def pc_def)
    then have jmp: "code_at (s_mem s) (s_rip s) (0xff # 0x25 # le32 2)"
      and target: "code_at (s_mem s) (s_rip s + 8) (le64 address)"
      unfolding code_at_append by (simp_all add: add.assoc)
    from target have "mem_read W64 (s_mem s) (s_rip s + 8) = address"
      by (simp add: code_at_def mem_read_def)
    with x86_step_code [OF jmp] show ?thesis
      by (simp add: decode_jmp op_read_def address_of_def seg_base_def add.assoc)
  qed
qed

section \<open>Straight-line code\<close>

text \<open>
  A block is a list of instructions with their encodings. \<open>confined W p s\<close> says that running \<open>p\<close> from
  \<open>s\<close> neither branches nor traps and writes to addresses in \<open>W\<close> only; then the machine, which
  fetches from memory, runs the block as \<open>exec_block\<close> does.
\<close>

type_synonym block = "(guint8 list \<times> insn) list"

definition advance :: "guint8 list \<Rightarrow> x86_state \<Rightarrow> x86_state" where
  "advance bs s = s\<lparr>s_rip := s_rip s + of_nat (length bs)\<rparr>"

definition code :: "block \<Rightarrow> guint8 list" where
  "code p = concat (map fst p)"

definition well_encoded :: "block \<Rightarrow> bool" where
  "well_encoded p \<longleftrightarrow> list_all (\<lambda>(bs, i). length bs \<le> 15 \<and> (\<forall>rest. decode (bs @ rest) = Some (i, length bs))) p"

fun exec_block :: "block \<Rightarrow> x86_state \<Rightarrow> x86_state option" where
  "exec_block [] s = Some s"
| "exec_block ((bs, i) # p) s = Option.bind (exec i (advance bs s)) (exec_block p)"

definition agree :: "(gpointer \<Rightarrow> bool) \<Rightarrow> memory \<Rightarrow> memory \<Rightarrow> bool" where
  "agree W m m' \<longleftrightarrow> (\<forall>x. \<not> W x \<longrightarrow> m' x = m x)"

fun confined :: "(gpointer \<Rightarrow> bool) \<Rightarrow> block \<Rightarrow> x86_state \<Rightarrow> bool" where
  "confined W [] s = True"
| "confined W ((bs, i) # p) s =
     (case exec i (advance bs s) of
        None \<Rightarrow> False
      | Some s' \<Rightarrow> s_rip s' = s_rip s + of_nat (length bs) \<and> agree W (s_mem s) (s_mem s') \<and> confined W p s')"

lemma code_at_agree:
  assumes "code_at m a bs" "agree W m m'" "\<And>i. i < length bs \<Longrightarrow> \<not> W (a + of_nat i)"
  shows "code_at m' a bs"
proof -
  have "read_bytes m' a (length bs) = read_bytes m a (length bs)"
    using assms(2,3) by (intro read_bytes_cong) (auto simp: agree_def)
  with assms(1) show ?thesis by (simp add: code_at_def)
qed

lemma run_block:
  assumes "well_encoded p" "code_at (s_mem s) (s_rip s) (code p)"
    and "\<And>i. i < length (code p) \<Longrightarrow> \<not> W (s_rip s + of_nat i)" and "confined W p s"
  shows "x86_run (length p) s = exec_block p s"
  using assms
proof (induction p arbitrary: s)
  case Nil
  then show ?case by simp
next
  case (Cons bi p)
  obtain bs i where bi: "bi = (bs, i)" by (cases bi)
  from Cons.prems(2) have here: "code_at (s_mem s) (s_rip s) bs"
    and rest: "code_at (s_mem s) (s_rip s + of_nat (length bs)) (code p)"
    by (simp_all add: bi code_def code_at_append)
  from Cons.prems(1) have enc: "length bs \<le> 15" "\<And>rest. decode (bs @ rest) = Some (i, length bs)"
      and wp: "well_encoded p"
    by (simp_all add: bi well_encoded_def)
  from Cons.prems(4) obtain t where t: "exec i (advance bs s) = Some t"
      "s_rip t = s_rip s + of_nat (length bs)" "agree W (s_mem s) (s_mem t)" "confined W p t"
    by (auto simp: bi split: option.splits)
  have out: "\<not> W (s_rip t + of_nat k)" if "k < length (code p)" for k
    using Cons.prems(3) [of "length bs + k"] that by (simp add: bi code_def t(2) add.assoc)
  have "code_at (s_mem t) (s_rip t) (code p)"
    using code_at_agree [OF rest t(3)] out by (simp add: t(2))
  from Cons.IH [OF wp this out t(4)] have "x86_run (length p) t = exec_block p t" .
  moreover from x86_step_code [OF here enc] have "x86_step s = Some t"
    using t(1) by (simp add: advance_def)
  ultimately show ?case by (simp add: bi t(1))
qed

section \<open>Flags\<close>

lemma bit_put_flag: "n < 64 \<Longrightarrow> bit (put_flag n b f) k \<longleftrightarrow> (if k = n then b else bit f k)"
  by (auto simp: put_flag_def bit_simps)

text \<open>After a 64-bit comparison of small unsigned values, the signed condition is the expected one.\<close>

lemma bit_63: "bit v 63 \<longleftrightarrow> 2 ^ 63 \<le> unat v" for v :: guint64
proof -
  have "bit v 63 \<longleftrightarrow> odd (unat v div 2 ^ 63)"
    using bit_unsigned_iff [where 'a = nat, of v 63] by (simp add: bit_iff_odd)
  moreover have "unat v < 2 ^ 64" using unsigned_less [of v, where 'a = nat] by simp
  ultimately show ?thesis
  proof (cases "2 ^ 63 \<le> unat v")
    case True
    with \<open>unat v < 2 ^ 64\<close> have "unat v div 2 ^ 63 = 1" by (intro div_nat_eqI) simp_all
    with True \<open>bit v 63 \<longleftrightarrow> _\<close> show ?thesis by simp
  qed simp
qed

lemma cmp_less_condition:
  assumes "unat a < 2 ^ 63" "unat b < 2 ^ 63"
  shows "condition 12 (put_flags (snd (sub_with W64 a b False)) f) \<longleftrightarrow> a < b"
proof -
  have sgn: "\<not> bit a 63" "\<not> bit b 63" using assms by (simp_all add: bit_63)
  have "bit (a - b) 63 \<longleftrightarrow> a < b"
    using assms by (auto simp: bit_63 unat_sub_if' word_less_nat_alt)
  with sgn show ?thesis
    by (simp add: condition_def sub_with_def Let_def trunc_def result_flags_def sign_def bit_put_flag)
qed

end
