(* ===== verification/Gum_X86_Reader.thy ===== *)
theory Gum_X86_Reader
  imports Gum_X86_Branch
begin

text \<open>
  \<^verbatim>\<open>src/frida-gum/gum/arch-x86/gumx86reader.c\<close>, and the interface of the disassembler it calls.
  The disassembler (capstone) is not part of the repository: it is the argument \<open>cs\<close>, a record of the
  three functions the sources call, and no definition is made up for it. What it returns is a
  \<open>cs_insn\<close> with the fields the sources read.
\<close>

section \<open>The disassembler's interface\<close>

datatype x86_reg =
    X86_REG_INVALID | X86_REG_RIP | X86_REG_RAX | X86_REG_RCX | X86_REG_RDX | X86_REG_RBX
  | X86_REG_RBP | X86_REG_RSI | X86_REG_RDI | X86_REG_other nat

datatype cs_x86_op =
    X86_OP_INVALID
  | X86_OP_REG x86_reg
  | X86_OP_IMM guint64
  | X86_OP_MEM x86_reg x86_reg guint64

record cs_insn =
  ci_id :: x86_insn
  ci_address :: GumAddress
  ci_size :: guint16
  ci_bytes :: "guint8 list"
  ci_op0 :: cs_x86_op
  ci_op0_size :: guint8
  ci_modrm :: guint8
  ci_disp :: guint64
  ci_modrm_offset :: guint8
  ci_disp_offset :: guint8

text \<open>
  \<open>cs_disasm_iter cs cpu m code address\<close> decodes one instruction from the sixteen bytes at \<open>code\<close> of
  the memory \<open>m\<close> as if it stood at \<open>address\<close>; \<open>cs_reg_read\<close> and \<open>cs_reg_write\<close> say whether an
  instruction reads or writes a register.
\<close>

record capstone =
  cs_disasm_iter :: "GumCpuType \<Rightarrow> memory \<Rightarrow> gpointer \<Rightarrow> GumAddress \<Rightarrow> cs_insn option"
  cs_reg_read :: "cs_insn \<Rightarrow> x86_reg \<Rightarrow> bool"
  cs_reg_write :: "cs_insn \<Rightarrow> x86_reg \<Rightarrow> bool"

section \<open>The reader\<close>

definition gum_x86_reader_disassemble_instruction_at :: "capstone \<Rightarrow> memory \<Rightarrow> gpointer \<Rightarrow> cs_insn option" where
  "gum_x86_reader_disassemble_instruction_at cs m address =
     cs_disasm_iter cs GUM_CPU_AMD64 m address address"

definition gum_x86_reader_insn_length :: "capstone \<Rightarrow> memory \<Rightarrow> gpointer \<Rightarrow> guint" where
  "gum_x86_reader_insn_length cs m code =
     (case gum_x86_reader_disassemble_instruction_at cs m code of
        None \<Rightarrow> 0
      | Some insn \<Rightarrow> ucast (ci_size insn))"

definition gum_x86_reader_insn_is_jcc :: "cs_insn \<Rightarrow> bool" where
  "gum_x86_reader_insn_is_jcc insn =
     (case ci_id insn of
        X86_INS_JA \<Rightarrow> True | X86_INS_JAE \<Rightarrow> True | X86_INS_JB \<Rightarrow> True | X86_INS_JBE \<Rightarrow> True
      | X86_INS_JE \<Rightarrow> True | X86_INS_JG \<Rightarrow> True | X86_INS_JGE \<Rightarrow> True | X86_INS_JL \<Rightarrow> True
      | X86_INS_JLE \<Rightarrow> True | X86_INS_JNE \<Rightarrow> True | X86_INS_JNO \<Rightarrow> True | X86_INS_JNP \<Rightarrow> True
      | X86_INS_JNS \<Rightarrow> True | X86_INS_JO \<Rightarrow> True | X86_INS_JP \<Rightarrow> True | X86_INS_JS \<Rightarrow> True
      | _ \<Rightarrow> False)"

text \<open>The targets are pointers: 0 is \<^verbatim>\<open>NULL\<close>, no target.\<close>

definition try_get_relative_call_or_jump_target ::
    "capstone \<Rightarrow> memory \<Rightarrow> gpointer \<Rightarrow> x86_insn \<Rightarrow> gpointer" where
  "try_get_relative_call_or_jump_target cs m address call_or_jump =
     (case gum_x86_reader_disassemble_instruction_at cs m address of
        None \<Rightarrow> 0
      | Some insn \<Rightarrow>
          (if ci_id insn = call_or_jump
           then (case ci_op0 insn of X86_OP_IMM imm \<Rightarrow> imm | _ \<Rightarrow> 0)
           else 0))"

definition gum_x86_reader_try_get_relative_call_target :: "capstone \<Rightarrow> memory \<Rightarrow> gpointer \<Rightarrow> gpointer" where
  "gum_x86_reader_try_get_relative_call_target cs m address =
     try_get_relative_call_or_jump_target cs m address X86_INS_CALL"

definition gum_x86_reader_try_get_relative_jump_target :: "capstone \<Rightarrow> memory \<Rightarrow> gpointer \<Rightarrow> gpointer" where
  "gum_x86_reader_try_get_relative_jump_target cs m address =
     try_get_relative_call_or_jump_target cs m address X86_INS_JMP"

definition load_pointer :: "memory \<Rightarrow> gpointer \<Rightarrow> gpointer" where
  "load_pointer m a = of_le (read_bytes m a 8)"

definition gum_x86_reader_try_get_indirect_jump_target :: "capstone \<Rightarrow> memory \<Rightarrow> gpointer \<Rightarrow> gpointer" where
  "gum_x86_reader_try_get_indirect_jump_target cs m address =
     (case gum_x86_reader_disassemble_instruction_at cs m address of
        None \<Rightarrow> 0
      | Some insn \<Rightarrow>
          (if ci_id insn = X86_INS_JMP
           then (case ci_op0 insn of
                   X86_OP_MEM base index disp \<Rightarrow>
                     (if base = X86_REG_RIP \<and> index = X86_REG_INVALID
                      then load_pointer m (address + ucast (ci_size insn) + disp)
                      else if base = X86_REG_INVALID \<and> index = X86_REG_INVALID
                      then load_pointer m disp
                      else 0)
                 | _ \<Rightarrow> 0)
           else 0))"

end
