(* ===== verification/Gum_X86_Relocator.thy ===== *)
theory Gum_X86_Relocator
  imports Gum_X86_Reader
begin

text \<open>
  \<^verbatim>\<open>src/frida-gum/gum/arch-x86/gumx86relocator.c\<close>: reading instructions of a function into a ring
  buffer and writing them out at another address, rewriting what depends on the address.

  A relocator points to the writer it fills, and so does its owner: the writer is passed beside
  the relocator as the argument \<open>cw\<close>, and the field \<open>rl_output\<close> says whether the pointer is set.
  The instructions are read from the memory of \<open>cw\<close>. Operations that can abort (\<^verbatim>\<open>g_assert\<close>,
  \<^verbatim>\<open>g_abort\<close>) return \<open>None\<close> there.
\<close>

section \<open>State\<close>

definition GUM_MAX_INPUT_INSN_COUNT :: guint where
  "GUM_MAX_INPUT_INSN_COUNT = 100"

definition GUM_RED_ZONE_SIZE :: gssize where
  "GUM_RED_ZONE_SIZE = 128"

record GumX86Relocator =
  rl_ref_count :: guint
  rl_capstone_cpu :: GumCpuType
  rl_input_start :: gpointer
  rl_input_cur :: gpointer
  rl_input_pc :: GumAddress
  rl_input_insns :: "cs_insn option list"
  rl_output :: bool
  rl_inpos :: guint
  rl_outpos :: guint
  rl_eob :: bool
  rl_eoi :: bool

record GumCodeGenCtx =
  cg_insn :: cs_insn
  cg_pc :: GumAddress

definition gum_x86_relocator_reset ::
    "GumX86Relocator \<Rightarrow> gpointer \<Rightarrow> bool \<Rightarrow> GumX86Writer \<Rightarrow> GumX86Relocator \<times> GumX86Writer" where
  "gum_x86_relocator_reset relocator input_code output cw =
     (let relocator = relocator\<lparr>rl_input_start := input_code, rl_input_cur := input_code,
                                rl_input_pc := input_code\<rparr>;
          cw = (if output then gum_x86_writer_ref cw else cw);
          cw = (if rl_output relocator then snd (gum_x86_writer_unref cw) else cw)
      in (relocator\<lparr>rl_output := output, rl_inpos := 0, rl_outpos := 0, rl_eob := False, rl_eoi := False\<rparr>, cw))"

definition gum_x86_relocator_init ::
    "GumX86Relocator \<Rightarrow> gpointer \<Rightarrow> GumX86Writer \<Rightarrow> GumX86Relocator \<times> GumX86Writer" where
  "gum_x86_relocator_init relocator input_code cw =
     gum_x86_relocator_reset
       (relocator\<lparr>rl_ref_count := 1,
          rl_capstone_cpu := (if w_target_cpu cw = GUM_CPU_AMD64 then GUM_CPU_AMD64 else GUM_CPU_IA32),
          rl_input_insns := replicate (unat GUM_MAX_INPUT_INSN_COUNT) None,
          rl_output := False\<rparr>) input_code True cw"

text \<open>\<^verbatim>\<open>g_slice_new\<close> returns uninitialised storage, here the argument \<open>storage\<close>.\<close>

definition gum_x86_relocator_new ::
    "GumX86Relocator \<Rightarrow> gpointer \<Rightarrow> GumX86Writer \<Rightarrow> GumX86Relocator \<times> GumX86Writer" where
  "gum_x86_relocator_new storage input_code cw = gum_x86_relocator_init storage input_code cw"

definition gum_x86_relocator_ref :: "GumX86Relocator \<Rightarrow> GumX86Relocator" where
  "gum_x86_relocator_ref relocator = relocator\<lparr>rl_ref_count := rl_ref_count relocator + 1\<rparr>"

definition gum_x86_relocator_clear :: "GumX86Relocator \<Rightarrow> GumX86Writer \<Rightarrow> GumX86Relocator \<times> GumX86Writer" where
  "gum_x86_relocator_clear relocator cw =
     (let (relocator, cw) = gum_x86_relocator_reset relocator 0 False cw
      in (relocator\<lparr>rl_input_insns := []\<rparr>, cw))"

definition gum_x86_relocator_unref :: "GumX86Relocator \<Rightarrow> GumX86Writer \<Rightarrow> bool \<times> GumX86Relocator \<times> GumX86Writer" where
  "gum_x86_relocator_unref relocator cw =
     (let relocator = relocator\<lparr>rl_ref_count := rl_ref_count relocator - 1\<rparr>
      in if rl_ref_count relocator = 0
         then (True, gum_x86_relocator_clear relocator cw)
         else (False, relocator, cw))"

definition gum_x86_relocator_inpos :: "GumX86Relocator \<Rightarrow> guint" where
  "gum_x86_relocator_inpos self = rl_inpos self mod GUM_MAX_INPUT_INSN_COUNT"

definition gum_x86_relocator_outpos :: "GumX86Relocator \<Rightarrow> guint" where
  "gum_x86_relocator_outpos self = rl_outpos self mod GUM_MAX_INPUT_INSN_COUNT"

definition gum_x86_relocator_increment_inpos :: "GumX86Relocator \<Rightarrow> GumX86Relocator option" where
  "gum_x86_relocator_increment_inpos self =
     (let self = self\<lparr>rl_inpos := rl_inpos self + 1\<rparr>
      in if rl_outpos self < rl_inpos self then Some self else None)"

definition gum_x86_relocator_increment_outpos :: "GumX86Relocator \<Rightarrow> GumX86Relocator option" where
  "gum_x86_relocator_increment_outpos self =
     (let self = self\<lparr>rl_outpos := rl_outpos self + 1\<rparr>
      in if rl_outpos self \<le> rl_inpos self then Some self else None)"

definition gum_x86_relocator_eob :: "GumX86Relocator \<Rightarrow> bool" where
  "gum_x86_relocator_eob self = rl_eob self"

definition gum_x86_relocator_eoi :: "GumX86Relocator \<Rightarrow> bool" where
  "gum_x86_relocator_eoi self = rl_eoi self"

section \<open>Classifying calls\<close>

definition gum_x86_call_is_to_next_instruction :: "cs_insn \<Rightarrow> bool" where
  "gum_x86_call_is_to_next_instruction insn =
     (case ci_op0 insn of
        X86_OP_IMM imm \<Rightarrow> imm = ci_address insn + ucast (ci_size insn)
      | _ \<Rightarrow> False)"

text \<open>
  The result is \<open>None\<close> for \<^verbatim>\<open>FALSE\<close>, otherwise the register the thunk loads, which the source stores
  through \<^verbatim>\<open>pc_reg\<close>: the enum's first eight values are \<^verbatim>\<open>GUM_X86_EAX\<close> to \<^verbatim>\<open>GUM_X86_EDI\<close>.
\<close>

definition gum_x86_call_try_parse_get_pc_thunk ::
    "cs_insn \<Rightarrow> GumCpuType \<Rightarrow> memory \<Rightarrow> GumX86Reg option" where
  "gum_x86_call_try_parse_get_pc_thunk insn cpu_type m =
     (if cpu_type \<noteq> GUM_CPU_IA32 then None
      else
        case ci_op0 insn of
          X86_OP_IMM p \<Rightarrow>
            (if m p = 0x8b \<and> m (p + 1) AND 0xc7 = 0x04 \<and> m (p + 2) = 0x24 \<and> m (p + 3) = 0xc3
             then Some ([GUM_X86_EAX, GUM_X86_ECX, GUM_X86_EDX, GUM_X86_EBX, GUM_X86_ESP, GUM_X86_EBP,
                         GUM_X86_ESI, GUM_X86_EDI] ! unat (drop_bit 3 (m (p + 1) AND 0x38)))
             else None)
        | _ \<Rightarrow> None)"

section \<open>Reading\<close>

text \<open>What one instruction does to the end-of-block and end-of-input flags.\<close>

definition read_one_flags :: "GumX86Relocator \<Rightarrow> GumX86Writer \<Rightarrow> cs_insn \<Rightarrow> GumX86Relocator" where
  "read_one_flags self cw insn =
     (case ci_id insn of
        X86_INS_JECXZ \<Rightarrow> self\<lparr>rl_eob := True\<rparr>
      | X86_INS_JRCXZ \<Rightarrow> self\<lparr>rl_eob := True\<rparr>
      | X86_INS_JMP \<Rightarrow> self\<lparr>rl_eob := True, rl_eoi := True\<rparr>
      | X86_INS_RET \<Rightarrow> self\<lparr>rl_eob := True, rl_eoi := True\<rparr>
      | X86_INS_RETF \<Rightarrow> self\<lparr>rl_eob := True, rl_eoi := True\<rparr>
      | X86_INS_CALL \<Rightarrow>
          self\<lparr>rl_eob := (\<not> gum_x86_call_is_to_next_instruction insn
                          \<and> gum_x86_call_try_parse_get_pc_thunk insn (w_target_cpu cw) (w_mem cw) = None),
               rl_eoi := False\<rparr>
      | _ \<Rightarrow> self\<lparr>rl_eob := gum_x86_reader_insn_is_jcc insn\<rparr>)"

definition gum_x86_relocator_read_one ::
    "capstone \<Rightarrow> GumX86Relocator \<Rightarrow> GumX86Writer \<Rightarrow> (guint \<times> GumX86Relocator) option" where
  "gum_x86_relocator_read_one cs self cw =
     (if rl_eoi self then Some (0, self)
      else
        case cs_disasm_iter cs (rl_capstone_cpu self) (w_mem cw) (rl_input_cur self) (rl_input_pc self) of
          None \<Rightarrow> Some (0, self)
        | Some insn \<Rightarrow>
            (let pos = unat (gum_x86_relocator_inpos self);
                 self = self\<lparr>rl_input_insns := (rl_input_insns self)[pos := Some insn]\<rparr>;
                 self = read_one_flags self cw insn
             in case gum_x86_relocator_increment_inpos self of
                  None \<Rightarrow> None
                | Some self \<Rightarrow>
                    (let self = self\<lparr>rl_input_cur := rl_input_cur self + ucast (ci_size insn),
                                     rl_input_pc := rl_input_pc self + ucast (ci_size insn)\<rparr>
                     in Some (ucast (rl_input_cur self - rl_input_start self), self))))"

definition gum_x86_relocator_peek_next_write_insn :: "GumX86Relocator \<Rightarrow> cs_insn option" where
  "gum_x86_relocator_peek_next_write_insn self =
     (if rl_outpos self = rl_inpos self then None
      else rl_input_insns self ! unat (gum_x86_relocator_outpos self))"

definition gum_x86_relocator_peek_next_write_source :: "GumX86Relocator \<Rightarrow> gpointer" where
  "gum_x86_relocator_peek_next_write_source self =
     (case gum_x86_relocator_peek_next_write_insn self of None \<Rightarrow> 0 | Some n \<Rightarrow> ci_address n)"

section \<open>Rewriting\<close>

definition gum_x86_relocator_put_label_for :: "GumX86Writer \<Rightarrow> cs_insn \<Rightarrow> GumX86Writer" where
  "gum_x86_relocator_put_label_for cw insn = snd (gum_x86_writer_put_label cw (ci_address insn))"

definition splice :: "guint8 list \<Rightarrow> nat \<Rightarrow> guint8 list \<Rightarrow> guint8 list" where
  "splice code off bs = take off code @ bs @ drop (off + length bs) code"

text \<open>
  The registers tried in turn to hold the instruction pointer; \<^verbatim>\<open>g_assert\<close> aborts when none is free.
\<close>

definition rip_candidates :: "(GumX86Reg \<times> nat \<times> x86_reg) list" where
  "rip_candidates =
     [(GUM_X86_RAX, 0, X86_REG_RAX), (GUM_X86_RCX, 1, X86_REG_RCX), (GUM_X86_RDX, 2, X86_REG_RDX),
      (GUM_X86_RBX, 3, X86_REG_RBX), (GUM_X86_RBP, 5, X86_REG_RBP), (GUM_X86_RSI, 6, X86_REG_RSI),
      (GUM_X86_RDI, 7, X86_REG_RDI)]"

definition rip_candidate_ok :: "capstone \<Rightarrow> cs_insn \<Rightarrow> nat \<Rightarrow> GumX86Reg \<times> nat \<times> x86_reg \<Rightarrow> bool" where
  "rip_candidate_ok cs insn other_reg c =
     (case c of (r, n, x) \<Rightarrow>
        n \<noteq> other_reg \<and> \<not> (ci_id insn = X86_INS_CMPXCHG \<and> n = 0)
        \<and> \<not> cs_reg_read cs insn x \<and> \<not> cs_reg_write cs insn x)"

text \<open>The far form of an indirect call or jump through a RIP-relative pointer.\<close>

definition rewrite_far_indirect_branch :: "GumX86Writer \<Rightarrow> GumCodeGenCtx \<Rightarrow> GumX86Writer" where
  "rewrite_far_indirect_branch cw ctx =
     (let insn = cg_insn ctx;
          size = unat (ci_size insn);
          distance = (of_le (take 4 (drop (size - 4) (ci_bytes insn))) :: guint32);
          is_call = (ci_id insn = X86_INS_CALL);
          cw = (if is_call then snd (gum_x86_writer_put_push_reg cw GUM_X86_RAX) else cw);
          cw = (if is_call then gum_x86_writer_put_mov_reg_address cw GUM_X86_RAX 0 else cw);
          return_address_placeholder = w_code cw - 8;
          cw = (if is_call then snd (gum_x86_writer_put_xchg_reg_reg_ptr cw GUM_X86_RAX GUM_X86_RSP) else cw);
          cw = snd (gum_x86_writer_put_push_reg cw GUM_X86_RAX);
          cw = gum_x86_writer_put_mov_reg_address cw GUM_X86_RAX (cg_pc ctx + scast distance);
          cw = gum_x86_writer_put_mov_reg_reg_ptr cw GUM_X86_RAX GUM_X86_RAX;
          cw = snd (gum_x86_writer_put_xchg_reg_reg_ptr cw GUM_X86_RAX GUM_X86_RSP);
          cw = gum_x86_writer_put_ret cw
      in if is_call
         then cw\<lparr>w_mem := write_bytes (w_mem cw) return_address_placeholder (le64 (w_pc cw))\<rparr>
         else cw)"

text \<open>Going through a spare register when the operand is out of reach.\<close>

definition rewrite_with_rip_register ::
    "GumX86Writer \<Rightarrow> GumCodeGenCtx \<Rightarrow> nat \<Rightarrow> GumX86Reg \<Rightarrow> nat \<Rightarrow> GumX86Writer" where
  "rewrite_with_rip_register cw ctx reg rip_reg rm =
     (let insn = cg_insn ctx;
          is_push = (ci_id insn = X86_INS_PUSH);
          unix = (w_target_abi cw = GUM_ABI_UNIX);
          cw = (if is_push then snd (gum_x86_writer_put_push_reg cw GUM_X86_RAX) else cw);
          cw = (if unix
                then snd (gum_x86_writer_put_lea_reg_reg_offset cw GUM_X86_RSP GUM_X86_RSP (- GUM_RED_ZONE_SIZE))
                else cw);
          cw = snd (gum_x86_writer_put_push_reg cw rip_reg);
          cw = gum_x86_writer_put_mov_reg_address cw rip_reg (cg_pc ctx);
          cw = (if is_push
                then
                  let cw = snd (gum_x86_writer_put_mov_reg_reg_offset_ptr cw rip_reg rip_reg (ci_disp insn))
                  in snd (gum_x86_writer_put_mov_reg_offset_ptr_reg cw GUM_X86_RSP
                            (0x08 + (if unix then GUM_RED_ZONE_SIZE else 0)) rip_reg)
                else
                  let code = take (unat (ci_size insn)) (ci_bytes insn);
                      code = code[unat (ci_modrm_offset insn) := of_nat (128 + 8 * reg + rm)]
                  in gum_x86_writer_put_bytes cw code);
          cw = snd (gum_x86_writer_put_pop_reg cw rip_reg)
      in if unix
         then snd (gum_x86_writer_put_lea_reg_reg_offset cw GUM_X86_RSP GUM_X86_RSP GUM_RED_ZONE_SIZE)
         else cw)"

definition gum_x86_relocator_rewrite_if_rip_relative ::
    "capstone \<Rightarrow> GumX86Relocator \<Rightarrow> GumX86Writer \<Rightarrow> GumCodeGenCtx \<Rightarrow> (bool \<times> GumX86Writer) option" where
  "gum_x86_relocator_rewrite_if_rip_relative cs self cw ctx =
     (let insn = cg_insn ctx in
      if ci_modrm_offset insn = 0 then Some (False, cw)
      else
        let md = unat (ci_modrm insn) div 64;
            reg = unat (ci_modrm insn) div 8 mod 8;
            rm = unat (ci_modrm insn) mod 8
        in if \<not> (md = 0 \<and> rm = 5) then Some (False, cw)
           else
             let address = cg_pc ctx + ci_disp insn;
                 offset = address - (w_pc cw + ucast (ci_size insn))
             in if - 2147483648 \<le> sint offset \<and> sint offset \<le> 2147483647
                then
                  let code = take (unat (ci_size insn)) (ci_bytes insn);
                      code = splice code (unat (ci_disp_offset insn)) (le32 (ucast offset))
                  in Some (True, gum_x86_writer_put_bytes cw code)
                else if ci_id insn = X86_INS_CALL \<or> ci_id insn = X86_INS_JMP
                then Some (True, rewrite_far_indirect_branch cw ctx)
                else
                  case find (rip_candidate_ok cs insn reg) rip_candidates of
                    None \<Rightarrow> None
                  | Some (rip_reg, rm, _) \<Rightarrow>
                      Some (True, rewrite_with_rip_register cw ctx reg rip_reg rm))"

definition gum_x86_relocator_rewrite_unconditional_branch ::
    "capstone \<Rightarrow> GumX86Relocator \<Rightarrow> GumX86Writer \<Rightarrow> GumCodeGenCtx \<Rightarrow> (bool \<times> GumX86Writer) option" where
  "gum_x86_relocator_rewrite_unconditional_branch cs self cw ctx =
     (let insn = cg_insn ctx;
          pc_reg = gum_x86_call_try_parse_get_pc_thunk insn (w_target_cpu cw) (w_mem cw)
      in if ci_id insn = X86_INS_CALL \<and> gum_x86_call_is_to_next_instruction insn
         then
           (if w_target_cpu cw = GUM_CPU_AMD64
            then
              let cw = snd (gum_x86_writer_put_push_reg cw GUM_X86_XAX);
                  cw = gum_x86_writer_put_mov_reg_address cw GUM_X86_XAX (cg_pc ctx);
                  cw = snd (gum_x86_writer_put_xchg_reg_reg_ptr cw GUM_X86_XAX GUM_X86_XSP)
              in Some (True, cw)
            else Some (True, gum_x86_writer_put_push_u32 cw (ucast (cg_pc ctx))))
         else if ci_id insn = X86_INS_CALL \<and> pc_reg \<noteq> None
         then Some (True, snd (gum_x86_writer_put_mov_reg_u32 cw (the pc_reg) (ucast (cg_pc ctx))))
         else
           case ci_op0 insn of
             X86_OP_IMM imm \<Rightarrow>
               (if ci_id insn = X86_INS_CALL
                then Some (True, snd (gum_x86_writer_put_call_address cw imm))
                else Some (True, snd (gum_x86_writer_put_jmp_address cw imm)))
           | X86_OP_MEM _ _ _ \<Rightarrow>
               (if ci_id insn = X86_INS_CALL \<or> ci_id insn = X86_INS_JMP
                then (if w_target_cpu cw = GUM_CPU_AMD64
                      then gum_x86_relocator_rewrite_if_rip_relative cs self cw ctx
                      else Some (False, cw))
                else None)
           | X86_OP_REG _ \<Rightarrow> Some (False, cw)
           | X86_OP_INVALID \<Rightarrow> None)"

definition gum_x86_relocator_rewrite_conditional_branch ::
    "GumX86Relocator \<Rightarrow> GumX86Writer \<Rightarrow> GumCodeGenCtx \<Rightarrow> (bool \<times> GumX86Writer) option" where
  "gum_x86_relocator_rewrite_conditional_branch self cw ctx =
     (let insn = cg_insn ctx in
      case ci_op0 insn of
        X86_OP_IMM target \<Rightarrow>
          (if rl_input_pc self - (rl_input_cur self - rl_input_start self) \<le> target
              \<and> target < rl_input_pc self
           then Some (True, gum_x86_writer_put_jcc_short_label cw (ci_id insn) target GUM_NO_HINT)
           else
             let direct = (if ci_id insn = X86_INS_JECXZ \<or> ci_id insn = X86_INS_JRCXZ
                           then (False, cw)
                           else gum_x86_writer_put_jcc_near cw (ci_id insn) target GUM_NO_HINT)
             in if fst direct then Some (True, snd direct)
                else
                  let cw = snd direct;
                      unique_id = push_bit 1 (w_code cw);
                      is_true = unique_id OR 1;
                      is_false = unique_id OR 0;
                      cw = gum_x86_writer_put_jcc_short_label cw (ci_id insn) is_true GUM_NO_HINT;
                      cw = gum_x86_writer_put_jmp_short_label cw is_false;
                      cw = snd (gum_x86_writer_put_label cw is_true);
                      cw = snd (gum_x86_writer_put_jmp_address cw target);
                      cw = snd (gum_x86_writer_put_label cw is_false)
                  in Some (True, cw))
      | _ \<Rightarrow> None)"

section \<open>Writing\<close>

definition gum_x86_relocator_write_one_instruction ::
    "capstone \<Rightarrow> GumX86Relocator \<Rightarrow> GumX86Writer \<Rightarrow> (bool \<times> GumX86Relocator \<times> GumX86Writer) option" where
  "gum_x86_relocator_write_one_instruction cs self cw =
     (case gum_x86_relocator_peek_next_write_insn self of
        None \<Rightarrow> Some (False, self, cw)
      | Some insn \<Rightarrow>
          (case gum_x86_relocator_increment_outpos self of
             None \<Rightarrow> None
           | Some self \<Rightarrow>
               (let ctx = \<lparr>cg_insn = insn, cg_pc = ci_address insn + ucast (ci_size insn)\<rparr>;
                    r = (if ci_id insn = X86_INS_CALL \<or> ci_id insn = X86_INS_JMP
                         then gum_x86_relocator_rewrite_unconditional_branch cs self cw ctx
                         else if ci_id insn = X86_INS_JECXZ \<or> ci_id insn = X86_INS_JRCXZ
                         then gum_x86_relocator_rewrite_conditional_branch self cw ctx
                         else if ci_id insn = X86_INS_SYSCALL
                         then Some (w_target_cpu cw = GUM_CPU_IA32, cw)
                         else if gum_x86_reader_insn_is_jcc insn
                         then gum_x86_relocator_rewrite_conditional_branch self cw ctx
                         else if w_target_cpu cw = GUM_CPU_AMD64
                         then gum_x86_relocator_rewrite_if_rip_relative cs self cw ctx
                         else Some (False, cw))
                in case r of
                     None \<Rightarrow> None
                   | Some (rewritten, cw) \<Rightarrow>
                       Some (True, self,
                             if rewritten then cw
                             else gum_x86_writer_put_bytes cw (take (unat (ci_size insn)) (ci_bytes insn))))))"

definition gum_x86_relocator_skip_one ::
    "GumX86Relocator \<Rightarrow> GumX86Writer \<Rightarrow> (GumX86Relocator \<times> GumX86Writer) option" where
  "gum_x86_relocator_skip_one self cw =
     (case gum_x86_relocator_peek_next_write_insn self of
        None \<Rightarrow> None
      | Some n \<Rightarrow>
          (case gum_x86_relocator_increment_outpos self of
             None \<Rightarrow> None
           | Some self \<Rightarrow> Some (self, gum_x86_relocator_put_label_for cw n)))"

definition gum_x86_relocator_skip_one_no_label :: "GumX86Relocator \<Rightarrow> GumX86Relocator option" where
  "gum_x86_relocator_skip_one_no_label self = gum_x86_relocator_increment_outpos self"

definition gum_x86_relocator_write_one ::
    "capstone \<Rightarrow> GumX86Relocator \<Rightarrow> GumX86Writer \<Rightarrow> (bool \<times> GumX86Relocator \<times> GumX86Writer) option" where
  "gum_x86_relocator_write_one cs self cw =
     (case gum_x86_relocator_peek_next_write_insn self of
        None \<Rightarrow> Some (False, self, cw)
      | Some cur \<Rightarrow>
          gum_x86_relocator_write_one_instruction cs self (gum_x86_relocator_put_label_for cw cur))"

definition gum_x86_relocator_write_one_no_label ::
    "capstone \<Rightarrow> GumX86Relocator \<Rightarrow> GumX86Writer \<Rightarrow> (bool \<times> GumX86Relocator \<times> GumX86Writer) option" where
  "gum_x86_relocator_write_one_no_label cs self cw = gum_x86_relocator_write_one_instruction cs self cw"

text \<open>
  The loop of \<^verbatim>\<open>gum_x86_relocator_write_all\<close> with its count. Every iteration that goes on moves
  \<^verbatim>\<open>outpos\<close> one nearer to \<^verbatim>\<open>inpos\<close>, so \<open>inpos - outpos + 1\<close> iterations are enough.
\<close>

fun write_all_loop ::
    "capstone \<Rightarrow> nat \<Rightarrow> GumX86Relocator \<Rightarrow> GumX86Writer \<Rightarrow> nat \<Rightarrow> (nat \<times> GumX86Relocator \<times> GumX86Writer) option" where
  "write_all_loop cs 0 self cw count = None"
| "write_all_loop cs (Suc fuel) self cw count =
     (case gum_x86_relocator_write_one cs self cw of
        None \<Rightarrow> None
      | Some (True, self, cw) \<Rightarrow> write_all_loop cs fuel self cw (count + 1)
      | Some (False, self, cw) \<Rightarrow> Some (count, self, cw))"

definition gum_x86_relocator_write_all ::
    "capstone \<Rightarrow> GumX86Relocator \<Rightarrow> GumX86Writer \<Rightarrow> (GumX86Relocator \<times> GumX86Writer) option" where
  "gum_x86_relocator_write_all cs self cw =
     (case write_all_loop cs (Suc (unat (rl_inpos self - rl_outpos self))) self cw 0 of
        None \<Rightarrow> None
      | Some (count, self, cw) \<Rightarrow> (if count > 0 then Some (self, cw) else None))"

section \<open>Relocating a prologue\<close>

text \<open>
  The two read loops. Each round reads at least one byte, as every instruction has at least one, so
  \<open>min_bytes + 1\<close> rounds are enough; \<open>None\<close> is an abort.
\<close>

fun can_relocate_loop ::
    "capstone \<Rightarrow> nat \<Rightarrow> GumX86Relocator \<Rightarrow> GumX86Writer \<Rightarrow> guint \<Rightarrow> guint \<Rightarrow> (guint \<times> GumX86Relocator) option" where
  "can_relocate_loop cs 0 rl cw min_bytes n = None"
| "can_relocate_loop cs (Suc fuel) rl cw min_bytes n =
     (case gum_x86_relocator_read_one cs rl cw of
        None \<Rightarrow> None
      | Some (reloc_bytes, rl) \<Rightarrow>
          (if reloc_bytes = 0 then Some (n, rl)
           else if reloc_bytes < min_bytes then can_relocate_loop cs fuel rl cw min_bytes reloc_bytes
           else Some (reloc_bytes, rl)))"

text \<open>
  \<open>storage_cw\<close>, \<open>storage_rl\<close> and \<open>buf\<close> are the uninitialised locals and the \<^verbatim>\<open>g_alloca\<close> buffer; the
  writer's memory is the memory the function is read from. The result is the answer, the number of
  bytes that can be relocated, which the source stores through \<^verbatim>\<open>maximum\<close>, and the memory after the
  two locals have been cleared.
\<close>

definition gum_x86_relocator_can_relocate ::
    "capstone \<Rightarrow> GumX86Writer \<Rightarrow> GumX86Relocator \<Rightarrow> gpointer \<Rightarrow> gpointer \<Rightarrow> guint \<Rightarrow> (bool \<times> guint \<times> memory) option" where
  "gum_x86_relocator_can_relocate cs storage_cw storage_rl buf address min_bytes =
     (let cw = gum_x86_writer_init storage_cw buf;
          (rl, cw) = gum_x86_relocator_init storage_rl address cw
      in case can_relocate_loop cs (Suc (unat min_bytes)) rl cw min_bytes 0 of
           None \<Rightarrow> None
         | Some (n, rl) \<Rightarrow>
             (let (rl, cw) = gum_x86_relocator_clear rl cw;
                  cw = gum_x86_writer_clear cw
              in Some (min_bytes \<le> n, n, w_mem cw)))"

fun read_until ::
    "capstone \<Rightarrow> nat \<Rightarrow> GumX86Relocator \<Rightarrow> GumX86Writer \<Rightarrow> guint \<Rightarrow> (guint \<times> GumX86Relocator) option" where
  "read_until cs 0 rl cw min_bytes = None"
| "read_until cs (Suc fuel) rl cw min_bytes =
     (case gum_x86_relocator_read_one cs rl cw of
        None \<Rightarrow> None
      | Some (reloc_bytes, rl) \<Rightarrow>
          (if reloc_bytes = 0 then None
           else if reloc_bytes < min_bytes then read_until cs fuel rl cw min_bytes
           else Some (reloc_bytes, rl)))"

definition gum_x86_relocator_relocate ::
    "capstone \<Rightarrow> GumX86Writer \<Rightarrow> GumX86Relocator \<Rightarrow> gpointer \<Rightarrow> guint \<Rightarrow> gpointer \<Rightarrow> (guint \<times> memory) option" where
  "gum_x86_relocator_relocate cs storage_cw storage_rl from min_bytes to =
     (let cw = gum_x86_writer_init storage_cw to;
          (rl, cw) = gum_x86_relocator_init storage_rl from cw
      in case read_until cs (Suc (unat min_bytes)) rl cw min_bytes of
           None \<Rightarrow> None
         | Some (reloc_bytes, rl) \<Rightarrow>
             (case gum_x86_relocator_write_all cs rl cw of
                None \<Rightarrow> None
              | Some (rl, cw) \<Rightarrow>
                  (let (rl, cw) = gum_x86_relocator_clear rl cw;
                       cw = gum_x86_writer_clear cw
                   in Some (reloc_bytes, w_mem cw))))"

end
