(* ===== verification/Gum_Code_Allocator.thy ===== *)
theory Gum_Code_Allocator
  imports Gum_Memory
begin

text \<open>
  \<^verbatim>\<open>src/frida-gum/gum/gumcodeallocator.c\<close>: slices of executable memory, cut from batches of pages and
  recycled through a free list, and the deflectors, as built for Linux on x86-64.

  A \<^verbatim>\<open>GumCodePages\<close> block is an entry of the store \<open>ca_heap\<close> under its address, and holds the array
  of its slices; a \<^verbatim>\<open>GumCodeSlice *\<close> is the address of its block and its index there, as
  \<^verbatim>\<open>&pages->elements[i].slice\<close> is. What the operating system and the heap answer to the calls of one
  operation (page allocation, \<^verbatim>\<open>g_slice_alloc\<close>, the platform queries) is the argument \<open>os\<close>.
\<close>

section \<open>State\<close>

record GumCodeSlice =
  sl_data :: gpointer
  sl_size :: guint
  sl_ref_count :: guint32

record GumCodePages =
  pg_ref_count :: guint32
  pg_segment :: bool
  pg_data :: gpointer
  pg_size :: guint64
  pg_elements :: "GumCodeSlice list"

type_synonym slice_ptr = "gpointer \<times> nat"

record GumCodeDeflector =
  df_return_address :: gpointer
  df_target :: gpointer
  df_trampoline :: gpointer
  df_ref_count :: guint32

record GumCodeDeflectorDispatcher =
  dp_callers :: "gpointer list"
  dp_address :: gpointer
  dp_trampoline :: gpointer

record GumCodeAllocator =
  ca_slice_size :: guint64
  ca_pages_per_batch :: guint64
  ca_slices_per_batch :: guint64
  ca_pages_metadata_size :: guint64
  ca_uncommitted_pages :: "gpointer list"
  ca_dirty_pages :: "gpointer set"
  ca_free_slices :: "slice_ptr list"
  ca_dispatchers :: "GumCodeDeflectorDispatcher list"
  ca_heap :: "gpointer \<rightharpoonup> GumCodePages"
  ca_deflectors :: "gpointer \<rightharpoonup> GumCodeDeflector"

text \<open>
  The answers of the environment: the page size, whether pages can be writable and executable at
  once, whether code segments exist, the pages obtained near the address asked for (0 is \<^verbatim>\<open>NULL\<close>) or
  anywhere (\<^verbatim>\<open>gum_alloc_n_pages\<close>, which aborts rather than return \<^verbatim>\<open>NULL\<close>), the address of a new code segment, and the block for the metadata.
\<close>

record os_answers =
  os_page_size :: guint64
  os_rwx_supported :: bool
  os_code_segment_supported :: bool
  os_pages_near :: gpointer
  os_pages_anywhere :: gpointer
  os_segment :: gpointer
  os_metadata :: gpointer

section \<open>Predicates on slices\<close>

definition gum_code_slice_is_near :: "GumCodeSlice \<Rightarrow> GumAddressSpec option \<Rightarrow> bool" where
  "gum_code_slice_is_near self spec =
     (case spec of
        None \<Rightarrow> True
      | Some spec \<Rightarrow>
          (let slice_start = sl_data self;
               slice_end = slice_start + ucast (sl_size self) - 1;
               distance_start = ABS (near_address spec - slice_start);
               distance_end = ABS (near_address spec - slice_end)
           in distance_start \<le> max_distance spec \<and> distance_end \<le> max_distance spec))"

definition gum_code_slice_is_aligned :: "GumCodeSlice \<Rightarrow> guint64 \<Rightarrow> bool" where
  "gum_code_slice_is_aligned self alignment \<longleftrightarrow>
     (if alignment = 0 then True else sl_data self mod alignment = 0)"

text \<open>The slice a pointer stands for.\<close>

definition slice_at :: "GumCodeAllocator \<Rightarrow> slice_ptr \<Rightarrow> GumCodeSlice option" where
  "slice_at self p =
     (case ca_heap self (fst p) of
        None \<Rightarrow> None
      | Some pages \<Rightarrow> (if snd p < length (pg_elements pages) then Some (pg_elements pages ! snd p) else None))"

definition update_slice :: "(GumCodeSlice \<Rightarrow> GumCodeSlice) \<Rightarrow> GumCodeAllocator \<Rightarrow> slice_ptr \<Rightarrow> GumCodeAllocator" where
  "update_slice f self p =
     (case ca_heap self (fst p) of
        None \<Rightarrow> self
      | Some pages \<Rightarrow>
          self\<lparr>ca_heap := (ca_heap self)(fst p \<mapsto>
                 pages\<lparr>pg_elements := (pg_elements pages)[snd p := f (pg_elements pages ! snd p)]\<rparr>)\<rparr>)"

section \<open>Operations\<close>

text \<open>\<^verbatim>\<open>sizeof (GumCodePages)\<close> is 80 and \<^verbatim>\<open>sizeof (GumCodeSliceElement)\<close> 40.\<close>

definition gum_code_allocator_init :: "os_answers \<Rightarrow> guint64 \<Rightarrow> GumCodeAllocator" where
  "gum_code_allocator_init os slice_size =
     (let pages_per_batch = 7;
          slices_per_batch = (pages_per_batch * os_page_size os) div slice_size
      in \<lparr>ca_slice_size = slice_size, ca_pages_per_batch = pages_per_batch,
          ca_slices_per_batch = slices_per_batch,
          ca_pages_metadata_size = 80 + (slices_per_batch - 1) * 40,
          ca_uncommitted_pages = [], ca_dirty_pages = {}, ca_free_slices = [],
          ca_dispatchers = [], ca_heap = Map.empty, ca_deflectors = Map.empty\<rparr>)"

text \<open>
  The loop of \<^verbatim>\<open>gum_code_allocator_try_alloc_batch_near\<close>: it fills the elements from the last to the
  first and pushes all but the first on the free list.
\<close>

definition batch_elements :: "GumCodeAllocator \<Rightarrow> gpointer \<Rightarrow> GumCodeSlice list" where
  "batch_elements self data =
     map (\<lambda>slice_index. \<lparr>sl_data = data + of_nat slice_index * ca_slice_size self,
                          sl_size = ucast (ca_slice_size self), sl_ref_count = 1\<rparr>)
       [0..<unat (ca_slices_per_batch self)]"

fun batch_push :: "gpointer \<Rightarrow> nat \<Rightarrow> slice_ptr list \<Rightarrow> slice_ptr list" where
  "batch_push pages 0 free_slices = free_slices"
| "batch_push pages (Suc slice_index) free_slices =
     batch_push pages slice_index (if slice_index = 0 then free_slices else (pages, slice_index) # free_slices)"

definition gum_code_allocator_try_alloc_batch_near ::
    "os_answers \<Rightarrow> GumCodeAllocator \<Rightarrow> GumAddressSpec option \<Rightarrow> slice_ptr option \<times> GumCodeAllocator" where
  "gum_code_allocator_try_alloc_batch_near os self spec =
     (let rwx_supported = os_rwx_supported os;
          size_in_bytes = ca_pages_per_batch self * os_page_size os;
          plain = (rwx_supported \<or> \<not> os_code_segment_supported os);
          data = (if plain
                  then (if spec \<noteq> None then os_pages_near os else os_pages_anywhere os)
                  else os_segment os)
      in if (if plain then spec \<noteq> None \<and> data = 0 else data = 0) then (None, self)
         else
           let p = os_metadata os;
               pages = \<lparr>pg_ref_count = ucast (ca_slices_per_batch self), pg_segment = (\<not> plain),
                        pg_data = data, pg_size = size_in_bytes, pg_elements = batch_elements self data\<rparr>;
               self = self\<lparr>ca_heap := (ca_heap self)(p \<mapsto> pages),
                           ca_free_slices := batch_push p (unat (ca_slices_per_batch self)) (ca_free_slices self)\<rparr>;
               self = (if \<not> rwx_supported
                       then self\<lparr>ca_uncommitted_pages := p # ca_uncommitted_pages self\<rparr> else self);
               self = self\<lparr>ca_dirty_pages := insert p (ca_dirty_pages self)\<rparr>
           in (if ca_slices_per_batch self = 0 then None else Some (p, 0), self))"

definition usable_slice :: "GumCodeAllocator \<Rightarrow> GumAddressSpec option \<Rightarrow> guint64 \<Rightarrow> slice_ptr \<Rightarrow> bool" where
  "usable_slice self spec alignment p =
     (case slice_at self p of
        None \<Rightarrow> False
      | Some s \<Rightarrow> gum_code_slice_is_near s spec \<and> gum_code_slice_is_aligned s alignment)"

definition gum_code_allocator_try_alloc_slice_near ::
    "os_answers \<Rightarrow> GumCodeAllocator \<Rightarrow> GumAddressSpec option \<Rightarrow> guint64 \<Rightarrow> slice_ptr option \<times> GumCodeAllocator" where
  "gum_code_allocator_try_alloc_slice_near os self spec alignment =
     (case find (usable_slice self spec alignment) (ca_free_slices self) of
        Some p \<Rightarrow>
          (Some p, self\<lparr>ca_free_slices := remove1 p (ca_free_slices self),
                        ca_dirty_pages := insert (fst p) (ca_dirty_pages self)\<rparr>)
      | None \<Rightarrow> gum_code_allocator_try_alloc_batch_near os self spec)"

definition gum_code_allocator_alloc_slice :: "os_answers \<Rightarrow> GumCodeAllocator \<Rightarrow> slice_ptr option \<times> GumCodeAllocator" where
  "gum_code_allocator_alloc_slice os self = gum_code_allocator_try_alloc_slice_near os self None 0"

text \<open>Dropping the last reference releases the pages and the block: the entry leaves the store.\<close>

definition gum_code_pages_unref :: "GumCodeAllocator \<Rightarrow> gpointer \<Rightarrow> GumCodeAllocator" where
  "gum_code_pages_unref self p =
     (case ca_heap self p of
        None \<Rightarrow> self
      | Some pages \<Rightarrow>
          (let pages = pages\<lparr>pg_ref_count := pg_ref_count pages - 1\<rparr>
           in if pg_ref_count pages = 0 then self\<lparr>ca_heap := (ca_heap self)(p := None)\<rparr>
              else self\<lparr>ca_heap := (ca_heap self)(p \<mapsto> pages)\<rparr>))"

definition unref_all :: "GumCodeAllocator \<Rightarrow> slice_ptr list \<Rightarrow> GumCodeAllocator" where
  "unref_all self ps = fold (\<lambda>p self. gum_code_pages_unref self (fst p)) ps self"

text \<open>
  What a commit asks of the operating system: every block that was not committed before becomes executable, as a
  segment or by its protection, and the instruction cache is cleared for the blocks that were written to, which
  are kept in a hash table and therefore come in no particular order. (\<^verbatim>\<open>gum_mprotect\<close> aborts if it
  fails.)
\<close>

datatype commit_call =
    REALIZE_AND_MAP gpointer guint64
  | PROTECT_RX gpointer guint64
  | CLEAR_CACHES "(gpointer \<times> guint64) set"

definition commit_calls :: "GumCodeAllocator \<Rightarrow> commit_call list" where
  "commit_calls self =
     List.map_filter (\<lambda>p. map_option (\<lambda>pages.
         if pg_segment pages then REALIZE_AND_MAP (pg_data pages) (pg_size pages) else PROTECT_RX (pg_data pages) (pg_size pages))
       (ca_heap self p)) (ca_uncommitted_pages self) @
     [CLEAR_CACHES (\<Union>p \<in> ca_dirty_pages self.
        case ca_heap self p of None \<Rightarrow> {} | Some pages \<Rightarrow> {(pg_data pages, pg_size pages)})]"

definition gum_code_allocator_commit :: "os_answers \<Rightarrow> GumCodeAllocator \<Rightarrow> GumCodeAllocator" where
  "gum_code_allocator_commit os self =
     (let self = self\<lparr>ca_uncommitted_pages := [], ca_dirty_pages := {}\<rparr>
      in if \<not> os_rwx_supported os
         then (unref_all self (ca_free_slices self))\<lparr>ca_free_slices := []\<rparr>
         else self)"

definition gum_code_allocator_free :: "GumCodeAllocator \<Rightarrow> GumCodeAllocator" where
  "gum_code_allocator_free allocator =
     (unref_all allocator (ca_free_slices allocator))
       \<lparr>ca_dispatchers := [], ca_uncommitted_pages := [], ca_dirty_pages := {}, ca_free_slices := []\<rparr>"

definition gum_code_slice_ref :: "GumCodeAllocator \<Rightarrow> slice_ptr \<Rightarrow> GumCodeAllocator" where
  "gum_code_slice_ref self p =
     update_slice (\<lambda>s. s\<lparr>sl_ref_count := sl_ref_count s + 1\<rparr>) self p"

definition gum_code_slice_unref :: "os_answers \<Rightarrow> GumCodeAllocator \<Rightarrow> slice_ptr option \<Rightarrow> GumCodeAllocator" where
  "gum_code_slice_unref os self ptr =
     (case ptr of
        None \<Rightarrow> self
      | Some p \<Rightarrow>
          (let self = update_slice (\<lambda>s. s\<lparr>sl_ref_count := sl_ref_count s - 1\<rparr>) self p
           in case slice_at self p of
                None \<Rightarrow> self
              | Some s \<Rightarrow>
                  (if sl_ref_count s \<noteq> 0 then self
                   else if os_rwx_supported os
                   then self\<lparr>ca_free_slices := p # ca_free_slices self\<rparr>
                   else gum_code_pages_unref self (fst p))))"

section \<open>Deflectors\<close>

text \<open>
  A deflector lives in the store \<open>ca_deflectors\<close> under its address; \<open>fresh\<close> is the answer of
  \<^verbatim>\<open>g_slice_new\<close>. On this platform \<^verbatim>\<open>gum_code_deflector_dispatcher_new\<close> returns \<^verbatim>\<open>NULL\<close>, so no dispatcher
  ever gets on the list. \<open>None\<close> of the unref is \<^verbatim>\<open>g_assert_not_reached\<close>.
\<close>

definition gum_code_deflector_dispatcher_new ::
    "GumAddressSpec \<Rightarrow> gpointer \<Rightarrow> gpointer \<Rightarrow> GumCodeDeflectorDispatcher option" where
  "gum_code_deflector_dispatcher_new caller return_address dedicated_target = None"

definition dispatcher_is_near :: "GumAddressSpec \<Rightarrow> GumCodeDeflectorDispatcher \<Rightarrow> bool" where
  "dispatcher_is_near caller d \<longleftrightarrow> ABS (dp_address d - near_address caller) \<le> max_distance caller"

fun split_near :: "GumAddressSpec \<Rightarrow> GumCodeDeflectorDispatcher list
    \<Rightarrow> (GumCodeDeflectorDispatcher list \<times> GumCodeDeflectorDispatcher \<times> GumCodeDeflectorDispatcher list) option" where
  "split_near caller [] = None"
| "split_near caller (d # ds) =
     (if dispatcher_is_near caller d then Some ([], d, ds)
      else map_option (\<lambda>(xs, e, ys). (d # xs, e, ys)) (split_near caller ds))"

definition gum_code_allocator_alloc_deflector ::
    "gpointer \<Rightarrow> GumCodeAllocator \<Rightarrow> GumAddressSpec \<Rightarrow> gpointer \<Rightarrow> gpointer \<Rightarrow> bool \<Rightarrow> gpointer option \<times> GumCodeAllocator" where
  "gum_code_allocator_alloc_deflector fresh self caller return_address target dedicated =
     (let found = (if dedicated then None else split_near caller (ca_dispatchers self));
          place = (case found of
                     Some r \<Rightarrow> Some r
                   | None \<Rightarrow>
                       map_option (\<lambda>d. ([], d, ca_dispatchers self))
                         (gum_code_deflector_dispatcher_new caller return_address (if dedicated then target else 0)))
      in case place of
           None \<Rightarrow> (None, self)
         | Some (xs, d, ys) \<Rightarrow>
             (let deflector = \<lparr>df_return_address = return_address, df_target = target,
                                df_trampoline = dp_trampoline d, df_ref_count = 1\<rparr>
              in (Some fresh,
                  self\<lparr>ca_dispatchers := xs @ d\<lparr>dp_callers := fresh # dp_callers d\<rparr> # ys,
                       ca_deflectors := (ca_deflectors self)(fresh \<mapsto> deflector)\<rparr>)))"

definition gum_code_deflector_ref :: "GumCodeAllocator \<Rightarrow> gpointer \<Rightarrow> GumCodeAllocator" where
  "gum_code_deflector_ref self p =
     (case ca_deflectors self p of
        None \<Rightarrow> self
      | Some d \<Rightarrow> self\<lparr>ca_deflectors := (ca_deflectors self)(p \<mapsto> d\<lparr>df_ref_count := df_ref_count d + 1\<rparr>)\<rparr>)"

fun drop_caller :: "gpointer \<Rightarrow> GumCodeDeflectorDispatcher list \<Rightarrow> GumCodeDeflectorDispatcher list option" where
  "drop_caller p [] = None"
| "drop_caller p (d # ds) =
     (if p \<in> set (dp_callers d)
      then (let d = d\<lparr>dp_callers := remove1 p (dp_callers d)\<rparr>
            in Some (if dp_callers d = [] then ds else d # ds))
      else map_option (\<lambda>ds. d # ds) (drop_caller p ds))"

definition gum_code_deflector_unref :: "GumCodeAllocator \<Rightarrow> gpointer \<Rightarrow> GumCodeAllocator option" where
  "gum_code_deflector_unref self p =
     (if p = 0 then Some self
      else
        case ca_deflectors self p of
          None \<Rightarrow> None
        | Some d \<Rightarrow>
            (let d = d\<lparr>df_ref_count := df_ref_count d - 1\<rparr>
             in if df_ref_count d \<noteq> 0 then Some (self\<lparr>ca_deflectors := (ca_deflectors self)(p \<mapsto> d)\<rparr>)
                else map_option (\<lambda>ds. self\<lparr>ca_dispatchers := ds, ca_deflectors := (ca_deflectors self)(p := None)\<rparr>)
                       (drop_caller p (ca_dispatchers self))))"

fun gum_code_deflector_dispatcher_lookup :: "(gpointer \<Rightarrow> GumCodeDeflector) \<Rightarrow> gpointer list \<Rightarrow> gpointer \<Rightarrow> gpointer" where
  "gum_code_deflector_dispatcher_lookup deflectors [] return_address = 0"
| "gum_code_deflector_dispatcher_lookup deflectors (c # callers) return_address =
     (if df_return_address (deflectors c) = return_address then df_target (deflectors c)
      else gum_code_deflector_dispatcher_lookup deflectors callers return_address)"

end
