(* ===== verification/Gum_Interceptor_X86.thy ===== *)
theory Gum_Interceptor_X86
  imports Gum_X86_Relocator Gum_Code_Allocator
begin

text \<open>
  \<^verbatim>\<open>src/frida-gum/gum/backend-x86/guminterceptor-x86.c\<close> with the structs of
  \<^verbatim>\<open>guminterceptor-priv.h\<close>: the trampolines an intercepted function is redirected to, the sampling
  guard in them, the thunks they end in, and the patching and restoring of the prologue.

  The member \<^verbatim>\<open>sampling_counters\<close> is the first of the struct and is touched by generated code only:
  it is the 64 bytes of memory at the struct's address \<open>fc_address\<close>. Operations that can abort in a
  \<^verbatim>\<open>g_assert\<close>, or that would follow a null slice, return \<open>None\<close> there.
\<close>

section \<open>State\<close>

datatype GumInterceptorType = GUM_INTERCEPTOR_TYPE_DEFAULT | GUM_INTERCEPTOR_TYPE_FAST

record ListenerEntry =
  en_listener :: gpointer
  en_function_data :: gpointer

record GumFunctionContext =
  fc_address :: gpointer
  fc_function_address :: gpointer
  fc_grafted_hook :: gpointer
  fc_import_target :: gpointer
  fc_type :: GumInterceptorType
  fc_destroyed :: bool
  fc_activated :: bool
  fc_has_on_leave_listener :: bool
  fc_trampoline_slice :: "slice_ptr option"
  fc_trampoline_usage_counter :: guint32
  fc_on_enter_trampoline :: gpointer
  fc_overwritten_prologue :: "guint8 list"
  fc_overwritten_prologue_len :: guint
  fc_on_invoke_trampoline :: gpointer
  fc_on_leave_trampoline :: gpointer
  fc_listener_entries :: "ListenerEntry option list"
  fc_replacement_function :: gpointer
  fc_replacement_data :: gpointer
  fc_redirect_code_size :: guint

record GumInterceptorBackend =
  be_allocator :: GumCodeAllocator
  be_writer :: GumX86Writer
  be_relocator :: GumX86Relocator
  be_enter_thunk :: "slice_ptr option"
  be_leave_thunk :: "slice_ptr option"

text \<open>
  What the linker decides: the addresses of the two functions the thunks call and of the string
  literals used as label identifiers, equal literals being one object.
\<close>

record link_map =
  ld_begin_invocation :: GumAddress
  ld_end_invocation :: GumAddress
  ld_literal :: "string \<Rightarrow> gpointer"

text \<open>Uninitialised locals of \<^verbatim>\<open>gum_x86_relocator_can_relocate\<close>.\<close>

record locals =
  lo_writer :: GumX86Writer
  lo_relocator :: GumX86Relocator
  lo_buf :: gpointer

definition GUM_INTERCEPTOR_FULL_REDIRECT_SIZE :: guint where
  "GUM_INTERCEPTOR_FULL_REDIRECT_SIZE = 16"

definition GUM_INTERCEPTOR_NEAR_REDIRECT_SIZE :: guint where
  "GUM_INTERCEPTOR_NEAR_REDIRECT_SIZE = 5"

definition GUM_X86_JMP_MAX_DISTANCE :: guint64 where
  "GUM_X86_JMP_MAX_DISTANCE = 0x7fffffff - 16384"

definition GUM_FRAME_OFFSET_CPU_CONTEXT :: gssize where
  "GUM_FRAME_OFFSET_CPU_CONTEXT = 0"

definition GUM_FRAME_OFFSET_CPU_FLAGS :: gssize where
  "GUM_FRAME_OFFSET_CPU_FLAGS = GUM_FRAME_OFFSET_CPU_CONTEXT + 17 * 8"

definition GUM_FRAME_OFFSET_NEXT_HOP :: gssize where
  "GUM_FRAME_OFFSET_NEXT_HOP = GUM_FRAME_OFFSET_CPU_FLAGS + 8"

definition GUM_FRAME_OFFSET_TOP :: gssize where
  "GUM_FRAME_OFFSET_TOP = GUM_FRAME_OFFSET_NEXT_HOP + 8"

definition GUM_CPU_CONTEXT_OFFSET_XSP :: gssize where
  "GUM_CPU_CONTEXT_OFFSET_XSP = 12 * 8"

definition GUM_SAMPLE_RATE :: guint32 where
  "GUM_SAMPLE_RATE = 20"

definition GUM_TCB_TID_OFFSET :: guint32 where
  "GUM_TCB_TID_OFFSET = 0x2d0"

section \<open>Thunks\<close>

definition gum_emit_prolog :: "GumX86Writer \<Rightarrow> gssize \<Rightarrow> GumX86Writer" where
  "gum_emit_prolog cw stack_displacement =
     (let fxsave = [0x0f, 0xae, 0x04, 0x24];
          cw = gum_x86_writer_put_pushfx cw;
          cw = gum_x86_writer_put_cld cw;
          cw = gum_x86_writer_put_pushax cw;
          cw = snd (gum_x86_writer_put_lea_reg_reg_offset cw GUM_X86_XSP GUM_X86_XSP (- 8));
          cw = snd (gum_x86_writer_put_lea_reg_reg_offset cw GUM_X86_XAX GUM_X86_XSP
                      (GUM_FRAME_OFFSET_TOP + stack_displacement));
          cw = snd (gum_x86_writer_put_mov_reg_offset_ptr_reg cw GUM_X86_XSP GUM_CPU_CONTEXT_OFFSET_XSP GUM_X86_XAX);
          cw = snd (gum_x86_writer_put_mov_reg_reg_offset_ptr cw GUM_X86_XBX GUM_X86_XSP GUM_FRAME_OFFSET_NEXT_HOP);
          cw = snd (gum_x86_writer_put_mov_reg_reg cw GUM_X86_XBP GUM_X86_XSP);
          cw = snd (gum_x86_writer_put_and_reg_u32 cw GUM_X86_XSP (NOT (16 - 1)));
          cw = snd (gum_x86_writer_put_sub_reg_imm cw GUM_X86_XSP 512)
      in gum_x86_writer_put_bytes cw fxsave)"

definition gum_emit_epilog :: "GumX86Writer \<Rightarrow> GumX86Writer" where
  "gum_emit_epilog cw =
     (let fxrstor = [0x0f, 0xae, 0x0c, 0x24];
          cw = gum_x86_writer_put_bytes cw fxrstor;
          cw = snd (gum_x86_writer_put_mov_reg_reg cw GUM_X86_XSP GUM_X86_XBP);
          cw = snd (gum_x86_writer_put_lea_reg_reg_offset cw GUM_X86_XSP GUM_X86_XSP 8);
          cw = gum_x86_writer_put_popax cw;
          cw = gum_x86_writer_put_popfx cw
      in gum_x86_writer_put_ret cw)"

definition gum_emit_enter_thunk :: "link_map \<Rightarrow> GumX86Writer \<Rightarrow> GumX86Writer" where
  "gum_emit_enter_thunk ld cw =
     (let return_address_stack_displacement = 0;
          cw = gum_emit_prolog cw return_address_stack_displacement;
          cw = snd (gum_x86_writer_put_lea_reg_reg_offset cw GUM_X86_XSI GUM_X86_XBP GUM_FRAME_OFFSET_CPU_CONTEXT);
          cw = snd (gum_x86_writer_put_lea_reg_reg_offset cw GUM_X86_XDX GUM_X86_XBP GUM_FRAME_OFFSET_TOP);
          cw = snd (gum_x86_writer_put_lea_reg_reg_offset cw GUM_X86_XCX GUM_X86_XBP GUM_FRAME_OFFSET_NEXT_HOP);
          cw = snd (gum_x86_writer_put_call_address_with_aligned_arguments cw GUM_CALL_CAPI
                      (ld_begin_invocation ld) 4
                      [GUM_ARG_REGISTER GUM_X86_XBX, GUM_ARG_REGISTER GUM_X86_XSI,
                       GUM_ARG_REGISTER GUM_X86_XDX, GUM_ARG_REGISTER GUM_X86_XCX])
      in gum_emit_epilog cw)"

definition gum_emit_leave_thunk :: "link_map \<Rightarrow> GumX86Writer \<Rightarrow> GumX86Writer" where
  "gum_emit_leave_thunk ld cw =
     (let next_hop_stack_displacement = - 8;
          cw = gum_emit_prolog cw next_hop_stack_displacement;
          cw = snd (gum_x86_writer_put_lea_reg_reg_offset cw GUM_X86_XSI GUM_X86_XBP GUM_FRAME_OFFSET_CPU_CONTEXT);
          cw = snd (gum_x86_writer_put_lea_reg_reg_offset cw GUM_X86_XDX GUM_X86_XBP GUM_FRAME_OFFSET_NEXT_HOP);
          cw = snd (gum_x86_writer_put_call_address_with_aligned_arguments cw GUM_CALL_CAPI
                      (ld_end_invocation ld) 3
                      [GUM_ARG_REGISTER GUM_X86_XBX, GUM_ARG_REGISTER GUM_X86_XSI,
                       GUM_ARG_REGISTER GUM_X86_XDX])
      in gum_emit_epilog cw)"

text \<open>One thunk: a slice, the code, the flush, and the assertion that it fits.\<close>

definition create_thunk ::
    "os_answers \<Rightarrow> (GumX86Writer \<Rightarrow> GumX86Writer) \<Rightarrow> GumCodeAllocator \<Rightarrow> GumX86Writer
     \<Rightarrow> (slice_ptr \<times> GumCodeAllocator \<times> GumX86Writer) option" where
  "create_thunk os emit_thunk allocator cw =
     (case gum_code_allocator_alloc_slice os allocator of
        (None, allocator) \<Rightarrow> None
      | (Some p, allocator) \<Rightarrow>
          (case slice_at allocator p of
             None \<Rightarrow> None
           | Some sl \<Rightarrow>
               (let cw = gum_x86_writer_reset cw (sl_data sl);
                    cw = emit_thunk cw;
                    cw = snd (gum_x86_writer_flush cw)
                in if gum_x86_writer_offset cw \<le> sl_size sl then Some (p, allocator, cw) else None)))"

definition gum_interceptor_backend_create_thunks ::
    "link_map \<Rightarrow> os_answers \<Rightarrow> os_answers \<Rightarrow> GumInterceptorBackend \<Rightarrow> GumInterceptorBackend option" where
  "gum_interceptor_backend_create_thunks ld os1 os2 self =
     (case create_thunk os1 (gum_emit_enter_thunk ld) (be_allocator self) (be_writer self) of
        None \<Rightarrow> None
      | Some (enter_thunk, allocator, cw) \<Rightarrow>
          (case create_thunk os2 (gum_emit_leave_thunk ld) allocator cw of
             None \<Rightarrow> None
           | Some (leave_thunk, allocator, cw) \<Rightarrow>
               Some (self\<lparr>be_allocator := allocator, be_writer := cw,
                          be_enter_thunk := Some enter_thunk, be_leave_thunk := Some leave_thunk\<rparr>)))"

definition gum_interceptor_backend_destroy_thunks :: "os_answers \<Rightarrow> GumInterceptorBackend \<Rightarrow> GumInterceptorBackend" where
  "gum_interceptor_backend_destroy_thunks os self =
     (let allocator = gum_code_slice_unref os (be_allocator self) (be_leave_thunk self);
          allocator = gum_code_slice_unref os allocator (be_enter_thunk self)
      in self\<lparr>be_allocator := allocator\<rparr>)"

definition gum_interceptor_backend_create ::
    "link_map \<Rightarrow> os_answers \<Rightarrow> os_answers \<Rightarrow> GumInterceptorBackend \<Rightarrow> GumCodeAllocator \<Rightarrow> GumInterceptorBackend option" where
  "gum_interceptor_backend_create ld os1 os2 storage allocator =
     (let backend = storage\<lparr>be_allocator := allocator\<rparr>;
          cw = gum_x86_writer_init (be_writer backend) 0;
          (rl, cw) = gum_x86_relocator_init (be_relocator backend) 0 cw
      in gum_interceptor_backend_create_thunks ld os1 os2 (backend\<lparr>be_writer := cw, be_relocator := rl\<rparr>))"

definition gum_interceptor_backend_destroy :: "os_answers \<Rightarrow> GumInterceptorBackend \<Rightarrow> GumInterceptorBackend" where
  "gum_interceptor_backend_destroy os backend =
     (let backend = gum_interceptor_backend_destroy_thunks os backend;
          (rl, cw) = gum_x86_relocator_clear (be_relocator backend) (be_writer backend);
          cw = gum_x86_writer_clear cw
      in backend\<lparr>be_relocator := rl, be_writer := cw\<rparr>)"

definition gum_interceptor_backend_claim_grafted_trampoline ::
    "GumInterceptorBackend \<Rightarrow> GumFunctionContext \<Rightarrow> bool" where
  "gum_interceptor_backend_claim_grafted_trampoline self ctx = False"

section \<open>Creating a trampoline\<close>

definition gum_interceptor_backend_prepare_trampoline ::
    "capstone \<Rightarrow> locals \<Rightarrow> os_answers \<Rightarrow> os_answers \<Rightarrow> GumInterceptorBackend \<Rightarrow> GumFunctionContext
     \<Rightarrow> (bool \<times> GumInterceptorBackend \<times> GumFunctionContext) option" where
  "gum_interceptor_backend_prepare_trampoline cs lo os1 os2 self ctx =
     (let spec = \<lparr>near_address = fc_function_address ctx, max_distance = GUM_X86_JMP_MAX_DISTANCE\<rparr>;
          default_alignment = 0;
          (near_slice, allocator) =
            (if fc_type ctx = GUM_INTERCEPTOR_TYPE_DEFAULT
             then gum_code_allocator_try_alloc_slice_near os1 (be_allocator self) (Some spec) default_alignment
             else (fc_trampoline_slice ctx, be_allocator self));
          (slice_used, redirect_code_size, allocator) =
            (case near_slice of
               None \<Rightarrow>
                 (let (p, allocator) = gum_code_allocator_alloc_slice os2 allocator
                  in (p, GUM_INTERCEPTOR_FULL_REDIRECT_SIZE, allocator))
             | Some p \<Rightarrow> (Some p, GUM_INTERCEPTOR_NEAR_REDIRECT_SIZE, allocator));
          ctx = ctx\<lparr>fc_trampoline_slice := slice_used, fc_redirect_code_size := redirect_code_size\<rparr>
      in case gum_x86_relocator_can_relocate cs ((lo_writer lo)\<lparr>w_mem := w_mem (be_writer self)\<rparr>) (lo_relocator lo)
                (lo_buf lo) (fc_function_address ctx) redirect_code_size of
           None \<Rightarrow> None
         | Some (ok, n, m) \<Rightarrow>
             (let self = self\<lparr>be_allocator := allocator, be_writer := (be_writer self)\<lparr>w_mem := m\<rparr>\<rparr>
              in if \<not> ok
                 then Some (False,
                        self\<lparr>be_allocator := gum_code_slice_unref os2 allocator (fc_trampoline_slice ctx)\<rparr>,
                        ctx\<lparr>fc_trampoline_slice := None\<rparr>)
                 else Some (True, self, ctx)))"

text \<open>The sampling guard, from the saving of the three registers to the branch over the sampled path.\<close>

definition put_sampling_guard :: "link_map \<Rightarrow> GumX86Writer \<Rightarrow> GumX86Writer" where
  "put_sampling_guard ld cw =
     (let cw = snd (gum_x86_writer_put_push_reg cw GUM_X86_RAX);
          cw = snd (gum_x86_writer_put_push_reg cw GUM_X86_RCX);
          cw = snd (gum_x86_writer_put_push_reg cw GUM_X86_RDX);
          cw = snd (gum_x86_writer_put_mov_reg_reg_offset_ptr cw GUM_X86_RAX GUM_X86_RSP 0x18);
          cw = snd (gum_x86_writer_put_mov_reg_fs_u32_ptr cw GUM_X86_RDX GUM_TCB_TID_OFFSET);
          cw = snd (gum_x86_writer_put_and_reg_u32 cw GUM_X86_RDX 0x3f);
          cw = gum_x86_writer_put_u8 cw 0x0f;
          cw = gum_x86_writer_put_u8 cw 0xb6;
          cw = gum_x86_writer_put_u8 cw 0x0c;
          cw = gum_x86_writer_put_u8 cw 0x10;
          cw = gum_x86_writer_put_u8 cw 0xff;
          cw = gum_x86_writer_put_u8 cw 0xc1;
          cw = gum_x86_writer_put_u8 cw 0x88;
          cw = gum_x86_writer_put_u8 cw 0x0c;
          cw = gum_x86_writer_put_u8 cw 0x10;
          cw = snd (gum_x86_writer_put_cmp_reg_i32 cw GUM_X86_RCX GUM_SAMPLE_RATE);
          cw = gum_x86_writer_put_jcc_short_label cw X86_INS_JL (ld_literal ld ''sampling_skip'') GUM_NO_HINT;
          cw = gum_x86_writer_put_u8 cw 0xc6;
          cw = gum_x86_writer_put_u8 cw 0x04;
          cw = gum_x86_writer_put_u8 cw 0x10;
          cw = gum_x86_writer_put_u8 cw 0x00;
          cw = snd (gum_x86_writer_put_pop_reg cw GUM_X86_RDX);
          cw = snd (gum_x86_writer_put_pop_reg cw GUM_X86_RCX)
      in snd (gum_x86_writer_put_pop_reg cw GUM_X86_RAX))"

text \<open>The path of the calls that are not sampled.\<close>

definition put_sampling_skip :: "link_map \<Rightarrow> GumX86Writer \<Rightarrow> GumX86Writer" where
  "put_sampling_skip ld cw =
     (let cw = snd (gum_x86_writer_put_label cw (ld_literal ld ''sampling_skip''));
          cw = snd (gum_x86_writer_put_pop_reg cw GUM_X86_RDX);
          cw = snd (gum_x86_writer_put_pop_reg cw GUM_X86_RCX);
          cw = snd (gum_x86_writer_put_pop_reg cw GUM_X86_RAX);
          cw = snd (gum_x86_writer_put_add_reg_imm cw GUM_X86_RSP 8)
      in gum_x86_writer_put_jmp_near_label cw (ld_literal ld ''invoke_trampoline''))"

text \<open>
  The part of \<^verbatim>\<open>_gum_interceptor_backend_create_trampoline\<close> for contexts that are not fast: the
  pointer to the context, the two trampolines and, in between, the guard.
\<close>

definition put_listener_trampolines ::
    "link_map \<Rightarrow> gpointer \<Rightarrow> gpointer \<Rightarrow> GumFunctionContext \<Rightarrow> GumX86Writer \<Rightarrow> GumFunctionContext \<times> GumX86Writer" where
  "put_listener_trampolines ld enter_thunk_data leave_thunk_data ctx cw =
     (let function_ctx_ptr = gum_x86_writer_cur cw;
          cw = gum_x86_writer_put_bytes cw (le64 (fc_address ctx));
          ctx = ctx\<lparr>fc_on_enter_trampoline := gum_x86_writer_cur cw\<rparr>;
          cw = snd (gum_x86_writer_put_push_near_ptr cw function_ctx_ptr);
          cw = put_sampling_guard ld cw;
          cw = snd (gum_x86_writer_put_jmp_address cw enter_thunk_data);
          cw = put_sampling_skip ld cw;
          ctx = ctx\<lparr>fc_on_leave_trampoline := gum_x86_writer_cur cw\<rparr>;
          cw = snd (gum_x86_writer_put_push_near_ptr cw function_ctx_ptr);
          cw = snd (gum_x86_writer_put_jmp_address cw leave_thunk_data)
      in (ctx, cw))"

text \<open>\<^verbatim>\<open>gum_memcpy\<close> into the member \<^verbatim>\<open>overwritten_prologue\<close>.\<close>

definition copy_into :: "guint8 list \<Rightarrow> guint8 list \<Rightarrow> guint8 list" where
  "copy_into buf bytes = bytes @ drop (length bytes) buf"

text \<open>
  The part after the relocated instructions: the jump back, the flush, the assertion on the size,
  and the saving of the overwritten prologue.
\<close>

definition finish_trampoline ::
    "guint \<Rightarrow> guint \<Rightarrow> GumX86Relocator \<Rightarrow> GumX86Writer \<Rightarrow> GumInterceptorBackend \<Rightarrow> GumFunctionContext
     \<Rightarrow> (bool \<times> GumInterceptorBackend \<times> GumFunctionContext) option" where
  "finish_trampoline slice_size reloc_bytes rl cw self ctx =
     (let cw = (if \<not> gum_x86_relocator_eoi rl
                then snd (gum_x86_writer_put_jmp_address cw (fc_function_address ctx + ucast reloc_bytes))
                else cw);
          cw = snd (gum_x86_writer_flush cw)
      in if \<not> gum_x86_writer_offset cw \<le> slice_size then None
         else
           let ctx = ctx\<lparr>fc_overwritten_prologue_len := reloc_bytes,
                         fc_overwritten_prologue := copy_into (fc_overwritten_prologue ctx)
                           (read_bytes (w_mem cw) (fc_function_address ctx) (unat reloc_bytes))\<rparr>
           in Some (True, self\<lparr>be_writer := cw, be_relocator := rl\<rparr>, ctx))"

definition gum_interceptor_backend_create_trampoline ::
    "capstone \<Rightarrow> link_map \<Rightarrow> locals \<Rightarrow> os_answers \<Rightarrow> os_answers \<Rightarrow> GumInterceptorBackend \<Rightarrow> GumFunctionContext
     \<Rightarrow> (bool \<times> GumInterceptorBackend \<times> GumFunctionContext) option" where
  "gum_interceptor_backend_create_trampoline cs ld lo os1 os2 self ctx =
     (case gum_interceptor_backend_prepare_trampoline cs lo os1 os2 self ctx of
        None \<Rightarrow> None
      | Some (False, self, ctx) \<Rightarrow> Some (False, self, ctx)
      | Some (True, self, ctx) \<Rightarrow>
          (case (Option.bind (fc_trampoline_slice ctx) (slice_at (be_allocator self)),
                 Option.bind (be_enter_thunk self) (slice_at (be_allocator self)),
                 Option.bind (be_leave_thunk self) (slice_at (be_allocator self))) of
             (Some trampoline_slice, Some enter_thunk, Some leave_thunk) \<Rightarrow>
               (let cw = gum_x86_writer_reset (be_writer self) (sl_data trampoline_slice);
                    (ctx, cw) = (if fc_type ctx \<noteq> GUM_INTERCEPTOR_TYPE_FAST
                                 then put_listener_trampolines ld (sl_data enter_thunk) (sl_data leave_thunk) ctx cw
                                 else (ctx, cw));
                    ctx = ctx\<lparr>fc_on_invoke_trampoline := gum_x86_writer_cur cw\<rparr>;
                    cw = snd (gum_x86_writer_put_label cw (ld_literal ld ''invoke_trampoline''));
                    (rl, cw) = gum_x86_relocator_reset (be_relocator self) (fc_function_address ctx) True cw
                in case read_until cs (Suc (unat (fc_redirect_code_size ctx))) rl cw (fc_redirect_code_size ctx) of
                     None \<Rightarrow> None
                   | Some (reloc_bytes, rl) \<Rightarrow>
                       (case gum_x86_relocator_write_all cs rl cw of
                          None \<Rightarrow> None
                        | Some (rl, cw) \<Rightarrow>
                            finish_trampoline (sl_size trampoline_slice) reloc_bytes rl cw self ctx))
           | _ \<Rightarrow> None))"

section \<open>Using and removing a trampoline\<close>

definition gum_interceptor_backend_destroy_trampoline ::
    "os_answers \<Rightarrow> GumInterceptorBackend \<Rightarrow> GumFunctionContext \<Rightarrow> GumInterceptorBackend \<times> GumFunctionContext" where
  "gum_interceptor_backend_destroy_trampoline os self ctx =
     (self\<lparr>be_allocator := gum_code_slice_unref os (be_allocator self) (fc_trampoline_slice ctx)\<rparr>,
      ctx\<lparr>fc_trampoline_slice := None\<rparr>)"

definition gum_interceptor_backend_activate_trampoline ::
    "GumInterceptorBackend \<Rightarrow> GumFunctionContext \<Rightarrow> gpointer \<Rightarrow> GumInterceptorBackend option" where
  "gum_interceptor_backend_activate_trampoline self ctx prologue =
     (let cw = gum_x86_writer_reset (be_writer self) prologue;
          cw = cw\<lparr>w_pc := fc_function_address ctx\<rparr>;
          cw = (if fc_type ctx = GUM_INTERCEPTOR_TYPE_FAST
                then snd (gum_x86_writer_put_jmp_address cw (fc_replacement_function ctx))
                else snd (gum_x86_writer_put_jmp_address cw (fc_on_enter_trampoline ctx)));
          cw = snd (gum_x86_writer_flush cw)
      in if \<not> gum_x86_writer_offset cw \<le> fc_redirect_code_size ctx then None
         else if \<not> gum_x86_writer_offset cw \<le> fc_overwritten_prologue_len ctx then None
         else
           let padding = fc_overwritten_prologue_len ctx - gum_x86_writer_offset cw;
               cw = gum_x86_writer_put_nop_padding cw padding;
               cw = snd (gum_x86_writer_flush cw)
           in Some (self\<lparr>be_writer := cw\<rparr>))"

definition gum_interceptor_backend_deactivate_trampoline ::
    "GumInterceptorBackend \<Rightarrow> GumFunctionContext \<Rightarrow> gpointer \<Rightarrow> GumInterceptorBackend" where
  "gum_interceptor_backend_deactivate_trampoline self ctx prologue =
     self\<lparr>be_writer := (be_writer self)\<lparr>w_mem :=
        write_bytes (w_mem (be_writer self)) prologue
          (take (unat (fc_overwritten_prologue_len ctx)) (fc_overwritten_prologue ctx))\<rparr>\<rparr>"

definition gum_interceptor_backend_get_function_address :: "GumFunctionContext \<Rightarrow> gpointer" where
  "gum_interceptor_backend_get_function_address ctx = fc_function_address ctx"

definition gum_interceptor_backend_resolve_redirect ::
    "capstone \<Rightarrow> GumInterceptorBackend \<Rightarrow> gpointer \<Rightarrow> gpointer" where
  "gum_interceptor_backend_resolve_redirect cs self address =
     (let target = gum_x86_reader_try_get_relative_jump_target cs (w_mem (be_writer self)) address
      in if target = 0 then gum_x86_reader_try_get_indirect_jump_target cs (w_mem (be_writer self)) address
         else target)"

end
