(* ===== verification/Gum_Sampling_Guard.thy ===== *)
theory Gum_Sampling_Guard
  imports Gum_X86_Exec Gum_Interceptor_X86
begin

text \<open>
  What the sampling guard of \<^verbatim>\<open>_gum_interceptor_backend_create_trampoline\<close> does when the processor runs
  it. The first part gives the guard as instructions and runs them on the machine: the counter of
  the thread's bucket, the registers, the stack and the place where execution goes on. The second
  part shows that the bytes the backend emits and flushes are those instructions.
\<close>

section \<open>The guard as instructions\<close>

definition enter_prefix :: block where
  "enter_prefix =
    [([0xff, 0x35, 0xf2, 0xff, 0xff, 0xff], Push (Mem (EA_rip None (- 14)))),
     ([0x50], Push (Reg RAX)),
     ([0x51], Push (Reg RCX)),
     ([0x52], Push (Reg RDX)),
     ([0x48, 0x8b, 0x44, 0x24, 0x18], MovLoad W64 RAX (Mem (EA None False (Some RSP) None 0x18))),
     ([0x64, 0x48, 0x8b, 0x14, 0x25, 0xd0, 0x02, 0x00, 0x00],
        MovLoad W64 RDX (Mem (EA (Some FS) False None None 0x2d0))),
     ([0x48, 0x81, 0xe2, 0x3f, 0x00, 0x00, 0x00], AluImm AluAnd W64 (Reg RDX) 0x3f),
     ([0x0f, 0xb6, 0x0c, 0x10], MovZxByte W32 RCX (Mem (EA None False (Some RAX) (Some (RDX, 1)) 0))),
     ([0xff, 0xc1], Inc W32 (Reg RCX)),
     ([0x88, 0x0c, 0x10], MovStore W8 (Mem (EA None False (Some RAX) (Some (RDX, 1)) 0)) RCX),
     ([0x48, 0x81, 0xf9, 0x14, 0x00, 0x00, 0x00], AluImm AluCmp W64 (Reg RCX) 20)]"

definition reset_counter :: block where
  "reset_counter = [([0xc6, 0x04, 0x10, 0x00], MovImm W8 (Mem (EA None False (Some RAX) (Some (RDX, 1)) 0)) 0)]"

definition restore_registers :: block where
  "restore_registers = [([0x5a], Pop RDX), ([0x59], Pop RCX), ([0x58], Pop RAX)]"

definition drop_context :: block where
  "drop_context = [([0x48, 0x83, 0xc4, 0x08], AluImm AluAdd W64 (Reg RSP) 8)]"

lemmas guard_block_defs = enter_prefix_def reset_counter_def restore_registers_def drop_context_def

lemma guard_blocks_well_encoded:
  "well_encoded enter_prefix" "well_encoded (reset_counter @ restore_registers)"
  "well_encoded (restore_registers @ drop_context)"
  by (simp_all add: well_encoded_def guard_block_defs decode_eval)

lemma guard_block_lengths:
  "length (code enter_prefix) = 46" "length (code (reset_counter @ restore_registers)) = 7"
  "length (code (restore_registers @ drop_context)) = 7"
  by (simp_all add: code_def guard_block_defs)

lemma guard_block_sizes:
  "length enter_prefix = 11" "length (reset_counter @ restore_registers) = 4" "length (restore_registers @ drop_context) = 4"
  by (simp_all add: guard_block_defs)

section \<open>The stack frame of the guard\<close>

text \<open>The four words the guard pushes below the stack pointer \<open>r\<close>: the context and three registers.\<close>

definition saved :: "memory \<Rightarrow> gpointer \<Rightarrow> guint64 \<Rightarrow> guint64 \<Rightarrow> guint64 \<Rightarrow> guint64 \<Rightarrow> memory" where
  "saved m r ctx a c d =
     mem_write W64 (mem_write W64 (mem_write W64 (mem_write W64 m (r - 8) ctx) (r - 16) a) (r - 24) c) (r - 32) d"

lemma saved_reads:
  "mem_read W64 (saved m r ctx a c d) (r - 8) = ctx" "mem_read W64 (saved m r ctx a c d) (r - 16) = a"
  "mem_read W64 (saved m r ctx a c d) (r - 24) = c" "mem_read W64 (saved m r ctx a c d) (r - 32) = d"
  by (simp_all add: saved_def mem_read_write_other disjoint_ranges_stack)

lemma in_range_part:
  assumes "in_range x (b + of_nat i) k'" "i + k' \<le> k" "k < 2 ^ 64"
  shows "in_range x b k"
proof -
  from assms have u: "unat (x - (b + of_nat i)) + i < k" by (simp add: in_range_def)
  have "x - b = (x - (b + of_nat i)) + of_nat i" by simp
  moreover have "unat ((x - (b + of_nat i)) + of_nat i) = unat (x - (b + of_nat i)) + i"
    using u assms(3) by (subst unat_word_ariths) (simp add: unat_of_nat)
  ultimately have "unat (x - b) = unat (x - (b + of_nat i)) + i" by metis
  with u show ?thesis by (simp add: in_range_def)
qed

lemma in_frame_part:
  "in_range x (r - 8) 8 \<Longrightarrow> in_range x (r - 32) 32" "in_range x (r - 16) 8 \<Longrightarrow> in_range x (r - 32) 32"
  "in_range x (r - 24) 8 \<Longrightarrow> in_range x (r - 32) 32" "in_range x (r - 32) 8 \<Longrightarrow> in_range x (r - 32) 32"
  using in_range_part [of x "r - 32" 24 8 32] in_range_part [of x "r - 32" 16 8 32]
    in_range_part [of x "r - 32" 8 8 32] in_range_part [of x "r - 32" 0 8 32] by simp_all

lemma saved_other: "\<not> in_range x (r - 32) 32 \<Longrightarrow> saved m r ctx a c d x = m x"
proof -
  assume "\<not> in_range x (r - 32) 32"
  then have "\<not> in_range x (r - 8) 8" "\<not> in_range x (r - 16) 8" "\<not> in_range x (r - 24) 8" "\<not> in_range x (r - 32) 8"
    using in_frame_part by blast+
  then show ?thesis by (simp add: saved_def mem_write_def write_bytes_other)
qed

lemma saved_read_other:
  assumes "disjoint_ranges y 8 (r - 32) 32"
  shows "mem_read W64 (saved m r ctx a c d) y = mem_read W64 m y"
proof -
  have "read_bytes (saved m r ctx a c d) y 8 = read_bytes m y 8"
    using disjoint_not_in_range [OF assms] by (intro read_bytes_cong) (simp add: saved_other)
  then show ?thesis by (simp add: mem_read_def)
qed

section \<open>Running the guard\<close>

lemmas run_simps = advance_def op_read_def op_write_def address_of_def seg_base_def push_def
  reg_write_def pop_value_def drop_stack_def

lemma unat_byte_inc: "unat (ucast (c :: guint8) + (1 :: guint64)) = unat c + 1"
proof -
  have "unat c < 256" using unsigned_less [of c, where 'a = nat] by simp
  then show ?thesis by (simp add: unat_word_ariths unsigned_ucast_eq take_bit_nat_eq_self)
qed

lemma ucast_byte_inc: "ucast (ucast (c :: guint8) + (1 :: guint64)) = c + 1"
  using unsigned_less [of c, where 'a = nat]
  by (simp add: word_unat_eq_iff unsigned_ucast_eq unat_byte_inc unat_word_ariths take_bit_eq_mod)

lemma trunc_small: "unat v < 2 ^ 32 \<Longrightarrow> trunc W32 v = v"
  unfolding trunc_def width.case
  by (rule word_unat_eq_iff [THEN iffD2]) (simp only: unsigned_ucast_eq, simp add: unsigned_take_bit_eq take_bit_nat_eq_self)

lemma trunc_byte:
  "trunc W32 (ucast (c :: guint8)) = ucast c" "trunc W32 (ucast c + 1) = ucast c + 1"
  "trunc W8 (ucast c) = ucast c" "trunc W64 v = v" "ucast (trunc W8 v) = (ucast v :: guint8)"
proof -
  have c: "unat c < 256" using unsigned_less [of c, where 'a = nat] by simp
  show "trunc W32 (ucast c) = ucast c" "trunc W32 (ucast c + 1) = ucast c + 1"
    using c by (auto intro!: trunc_small simp: unat_byte_inc unsigned_ucast_eq take_bit_nat_eq_self)
  show "trunc W8 (ucast c) = ucast c" "ucast (trunc W8 v) = (ucast v :: guint8)"
    by (simp_all only: trunc_def width.case, rule_tac [!] bit_word_eqI) (auto simp: bit_simps dest: bit_imp_le_length)
  show "trunc W64 v = v" by (simp add: trunc_def)
qed

lemma enter_prefix_exec:
  fixes s :: x86_state
  defines "r \<equiv> s_reg s RSP" and "ctx \<equiv> mem_read W64 (s_mem s) (s_rip s - 8)"
    and "b \<equiv> mem_read W64 (s_mem s) (s_fs_base s + 0x2d0) AND 0x3f"
  assumes tcb: "disjoint_ranges (s_fs_base s + 0x2d0) 8 (r - 32) 32" and ctr: "\<not> in_range (ctx + b) (r - 32) 32"
  shows "\<exists>t f. exec_block enter_prefix s = Some t \<and>
     s_reg t = (s_reg s)(RSP := r - 32, RAX := ctx, RDX := b, RCX := ucast (s_mem s (ctx + b)) + 1) \<and>
     s_mem t = (saved (s_mem s) r ctx (s_reg s RAX) (s_reg s RCX) (s_reg s RDX))(ctx + b := s_mem s (ctx + b) + 1) \<and>
     s_rip t = s_rip s + 46 \<and>
     s_flags t = put_flags (snd (sub_with W64 (ucast (s_mem s (ctx + b)) + 1) 20 False)) f \<and>
     s_fs_base t = s_fs_base s \<and> s_gs_base t = s_gs_base s \<and> s_fx t = s_fx s"
proof -
  have sv: "mem_write W64 (mem_write W64 (mem_write W64 (mem_write W64 (s_mem s) (r - 8) ctx) (r - 16) x) (r - 24) y) (r - 32) z
      = saved (s_mem s) r ctx x y z" for x y z
    by (simp add: saved_def)
  show ?thesis using r_def [symmetric] ctx_def [symmetric] 
    by (simp add: split_beta enter_prefix_def run_simps sv saved_reads saved_read_other [OF tcb] b_def [symmetric]
        saved_other [OF ctr] exec_alu_def alu_result_def logic_with_def set_flags_def add_with_def Let_def mem_write_def [of W8] mem_read_def [of W8] trunc_byte ucast_byte_inc)
      blast
qed

text \<open>The memory the guard may write: its frame on the stack and the counters of the context.\<close>

definition guard_area :: "gpointer \<Rightarrow> gpointer \<Rightarrow> gpointer \<Rightarrow> bool" where
  "guard_area r ctx x \<longleftrightarrow> in_range x (r - 32) 32 \<or> in_range x ctx 64"

lemma agree_frame:
  "agree (guard_area r ctx) m (mem_write W64 m (r - 8) v)" "agree (guard_area r ctx) m (mem_write W64 m (r - 16) v)"
  "agree (guard_area r ctx) m (mem_write W64 m (r - 24) v)" "agree (guard_area r ctx) m (mem_write W64 m (r - 32) v)"
  using in_frame_part [of _ r] by (auto simp: agree_def guard_area_def mem_write_def intro!: write_bytes_other)

lemma agree_counter: "in_range y ctx 64 \<Longrightarrow> agree (guard_area r ctx) m (m(y := v))"
  by (auto simp: agree_def guard_area_def)

lemma agree_refl [simp]: "agree W m m"
  by (simp add: agree_def)

lemma agree_trans: "agree W m m' \<Longrightarrow> agree W m' m'' \<Longrightarrow> agree W m m''"
  by (simp add: agree_def)

lemma bucket_in_range: "in_range (ctx + (x AND 0x3f)) ctx 64"
proof -
  have "x AND 0x3f = take_bit 6 x" by (simp add: take_bit_eq_mask mask_eq_exp_minus_1)
  then have "unat (x AND 0x3f) < 2 ^ 6" by (simp only: unsigned_take_bit_eq take_bit_nat_less_exp)
  then show ?thesis by (simp add: in_range_def)
qed

lemma enter_prefix_confined:
  fixes s :: x86_state
  defines "r \<equiv> s_reg s RSP" and "ctx \<equiv> mem_read W64 (s_mem s) (s_rip s - 8)"
  assumes tcb: "disjoint_ranges (s_fs_base s + 0x2d0) 8 (r - 32) 32"
  shows "confined (guard_area r ctx) enter_prefix s"
proof -
  have sv: "mem_write W64 (mem_write W64 (mem_write W64 (mem_write W64 (s_mem s) (r - 8) ctx) (r - 16) x) (r - 24) y) (r - 32) z
      = saved (s_mem s) r ctx x y z" for x y z
    by (simp add: saved_def)
  have fr: "agree (guard_area r ctx) (mem_write W64 (mem_write W64 (mem_write W64 (s_mem s) (r - 8) ctx) (r - 16) x) (r - 24) y)
      (saved (s_mem s) r ctx x y z)" for x y z
    unfolding saved_def by (rule agree_frame)
  show ?thesis using r_def [symmetric] ctx_def [symmetric]
    by (simp add: split_beta enter_prefix_def run_simps sv saved_reads saved_read_other [OF tcb]
        exec_alu_def alu_result_def logic_with_def set_flags_def add_with_def Let_def mem_write_def [of W8] mem_read_def [of W8]
        trunc_byte ucast_byte_inc agree_frame fr agree_counter bucket_in_range)
qed

text \<open>The two ends of the guard, from a state whose stack holds the frame.\<close>

lemma frame_read_update:
  assumes "\<not> in_range y (r - 32) 32"
  shows "mem_read W64 (m(y := v)) (r - 8) = mem_read W64 m (r - 8)" "mem_read W64 (m(y := v)) (r - 16) = mem_read W64 m (r - 16)"
    "mem_read W64 (m(y := v)) (r - 24) = mem_read W64 m (r - 24)" "mem_read W64 (m(y := v)) (r - 32) = mem_read W64 m (r - 32)"
  using assms in_frame_part [of y r] by (auto intro: mem_read_update_other)

lemma sampled_exec:
  assumes sp: "s_reg t RSP = r - 32" and ax: "s_reg t RAX = ctx" and dx: "s_reg t RDX = b"
    and mem: "mem_read W64 (s_mem t) (r - 32) = d" "mem_read W64 (s_mem t) (r - 24) = c" "mem_read W64 (s_mem t) (r - 16) = a"
    and ctr: "\<not> in_range (ctx + b) (r - 32) 32" "in_range (ctx + b) ctx 64"
  shows "\<exists>u. exec_block (reset_counter @ restore_registers) t = Some u \<and>
      s_reg u = (s_reg t)(RDX := d, RCX := c, RAX := a, RSP := r - 8) \<and> s_rip u = s_rip t + 7 \<and>
      s_mem u = (s_mem t)(ctx + b := 0) \<and>
      s_fs_base u = s_fs_base t \<and> s_gs_base u = s_gs_base t \<and> s_fx u = s_fx t"
    and "confined (guard_area r ctx) (reset_counter @ restore_registers) t"
  using sp ax dx
  by (simp_all add: reset_counter_def restore_registers_def run_simps mem_write_def [of W8] frame_read_update [OF ctr(1)] mem
      agree_counter ctr(2) trunc_byte fun_upd_twist)

lemma skipped_exec:
  assumes sp: "s_reg t RSP = r - 32"
    and mem: "mem_read W64 (s_mem t) (r - 32) = d" "mem_read W64 (s_mem t) (r - 24) = c" "mem_read W64 (s_mem t) (r - 16) = a"
  shows "\<exists>u. exec_block (restore_registers @ drop_context) t = Some u \<and>
      s_reg u = (s_reg t)(RDX := d, RCX := c, RAX := a, RSP := r) \<and> s_rip u = s_rip t + 7 \<and>
      s_mem u = s_mem t \<and>
      s_fs_base u = s_fs_base t \<and> s_gs_base u = s_gs_base t \<and> s_fx u = s_fx t"
    and "confined (guard_area r ctx) (restore_registers @ drop_context) t"
  using sp
  by (simp_all add: restore_registers_def drop_context_def run_simps mem exec_alu_def alu_result_def add_with_def Let_def
      set_flags_def trunc_byte add.assoc fun_upd_twist)

section \<open>The whole guard\<close>

text \<open>
  The bytes at \<^verbatim>\<open>on_enter_trampoline\<close>, with the branch distances the flush fills in: \<open>enter\<close> is the
  address of the enter thunk, and \<open>k\<close> the length of the \<^verbatim>\<open>on_leave_trampoline\<close> that stands between
  the guard and \<^verbatim>\<open>on_invoke_trampoline\<close>.
\<close>

definition enter_code :: "gpointer \<Rightarrow> GumAddress \<Rightarrow> nat \<Rightarrow> guint8 list" where
  "enter_code a enter k =
     code enter_prefix @ [0x7c, of_nat (7 + length (jmp_bytes (a + 55) enter))] @
     code (reset_counter @ restore_registers) @ jmp_bytes (a + 55) enter @
     code (restore_registers @ drop_context) @ 0xe9 # le32 (of_nat k)"

definition enter_code_length :: "gpointer \<Rightarrow> GumAddress \<Rightarrow> nat" where
  "enter_code_length a enter = 67 + length (jmp_bytes (a + 55) enter)"

lemma length_enter_code: "length (enter_code a enter k) = enter_code_length a enter"
  by (simp add: enter_code_def enter_code_length_def guard_block_lengths)

lemma enter_code_parts:
  assumes "code_at m a (enter_code a enter k)"
  defines "n \<equiv> length (jmp_bytes (a + 55) enter)"
  shows "code_at m a (code enter_prefix)" "code_at m (a + 46) [0x7c, of_nat (7 + n)]"
    "code_at m (a + 48) (code (reset_counter @ restore_registers))" "code_at m (a + 55) (jmp_bytes (a + 55) enter)"
    "code_at m (a + 55 + of_nat n) (code (restore_registers @ drop_context))"
    "code_at m (a + 62 + of_nat n) (0xe9 # le32 (of_nat k))"
  using assms(1) unfolding enter_code_def n_def code_at_append guard_block_lengths
  by (simp_all add: ac_simps)

text \<open>Code, the guard's frame on the stack, the counters and the thread control block do not overlap.\<close>

definition guard_layout :: "x86_state \<Rightarrow> gpointer \<Rightarrow> nat \<Rightarrow> bool" where
  "guard_layout s ctx n \<longleftrightarrow>
     disjoint_ranges (s_rip s) n (s_reg s RSP - 32) 32 \<and> disjoint_ranges (s_rip s) n ctx 64 \<and>
     disjoint_ranges ctx 64 (s_reg s RSP - 32) 32 \<and>
     disjoint_ranges (s_fs_base s + 0x2d0) 8 (s_reg s RSP - 32) 32"

lemma guard_layout_code:
  "guard_layout s ctx n \<Longrightarrow> i < n \<Longrightarrow> \<not> guard_area (s_reg s RSP) ctx (s_rip s + of_nat i)"
  by (auto simp: guard_layout_def guard_area_def dest: disjoint_not_in_range)

lemma counter_not_in_frame:
  assumes "guard_layout s ctx n"
  shows "\<not> in_range (ctx + (x AND 0x3f)) (s_reg s RSP - 32) 32"
proof -
  have "unat (x AND 0x3f) < 64" using bucket_in_range [of ctx x] by (simp add: in_range_def)
  moreover have "disjoint_ranges ctx 64 (s_reg s RSP - 32) 32" using assms by (simp add: guard_layout_def)
  ultimately have "\<not> in_range (ctx + of_nat (unat (x AND 0x3f))) (s_reg s RSP - 32) 32"
    by (rule disjoint_not_in_range [rotated])
  then show ?thesis by simp
qed

lemma decode_jl: "decode ([0x7c, d] @ rest) = Some (Jcc 12 (scast d), length [0x7c, d])"
  by (simp add: decode_plain op_form with_imm_def)

lemma jl_distance: "scast (of_nat (7 + length (jmp_bytes a x)) :: guint8) = (of_nat (7 + length (jmp_bytes a x)) :: guint64)"
  using length_jmp_bytes [of a x] by auto

text \<open>The state at the conditional branch, and that the guard's code is still in place there.\<close>

definition at_branch :: "x86_state \<Rightarrow> gpointer \<Rightarrow> guint64 \<Rightarrow> x86_state \<Rightarrow> bool" where
  "at_branch s ctx b t \<longleftrightarrow>
     s_reg t = (s_reg s)(RSP := s_reg s RSP - 32, RAX := ctx, RDX := b, RCX := ucast (s_mem s (ctx + b)) + 1) \<and>
     s_mem t = (saved (s_mem s) (s_reg s RSP) ctx (s_reg s RAX) (s_reg s RCX) (s_reg s RDX))
                 (ctx + b := s_mem s (ctx + b) + 1) \<and>
     s_rip t = s_rip s + 46 \<and> (condition 12 (s_flags t) \<longleftrightarrow> unat (s_mem s (ctx + b)) + 1 < 20) \<and>
     s_fs_base t = s_fs_base s \<and> s_gs_base t = s_gs_base s \<and> s_fx t = s_fx s"

lemma guard_reaches_branch:
  fixes s :: x86_state
  defines "ctx \<equiv> mem_read W64 (s_mem s) (s_rip s - 8)"
    and "b \<equiv> mem_read W64 (s_mem s) (s_fs_base s + 0x2d0) AND 0x3f"
  assumes code: "code_at (s_mem s) (s_rip s) (enter_code (s_rip s) enter k)"
    and layout: "guard_layout s ctx (enter_code_length (s_rip s) enter)"
  shows "\<exists>t. x86_run 11 s = Some t \<and> at_branch s ctx b t \<and>
     code_at (s_mem t) (s_rip s) (enter_code (s_rip s) enter k)"
proof -
  let ?W = "guard_area (s_reg s RSP) ctx"
  have tcb: "disjoint_ranges (s_fs_base s + 0x2d0) 8 (s_reg s RSP - 32) 32"
    using layout by (simp add: guard_layout_def)
  have ctr: "\<not> in_range (ctx + b) (s_reg s RSP - 32) 32"
    unfolding b_def by (rule counter_not_in_frame [OF layout])
  obtain t f where t: "exec_block enter_prefix s = Some t"
      "s_reg t = (s_reg s)(RSP := s_reg s RSP - 32, RAX := ctx, RDX := b, RCX := ucast (s_mem s (ctx + b)) + 1)"
      "s_mem t = (saved (s_mem s) (s_reg s RSP) ctx (s_reg s RAX) (s_reg s RCX) (s_reg s RDX))(ctx + b := s_mem s (ctx + b) + 1)"
      "s_rip t = s_rip s + 46"
      "s_flags t = put_flags (snd (sub_with W64 (ucast (s_mem s (ctx + b)) + 1) 20 False)) f"
      "s_fs_base t = s_fs_base s" "s_gs_base t = s_gs_base s" "s_fx t = s_fx s"
    using enter_prefix_exec [of s] tcb ctr unfolding ctx_def b_def by blast
  have out: "\<not> ?W (s_rip s + of_nat i)" if "i < enter_code_length (s_rip s) enter" for i
    using that by (rule guard_layout_code [OF layout])
  have "x86_run (length enter_prefix) s = exec_block enter_prefix s"
  proof (rule run_block [where W = ?W])
    show "code_at (s_mem s) (s_rip s) (Gum_X86_Exec.code enter_prefix)" using enter_code_parts(1) [OF code] .
    show "confined ?W enter_prefix s" unfolding ctx_def using enter_prefix_confined tcb by blast
    show "\<not> ?W (s_rip s + of_nat i)" if "i < length (Gum_X86_Exec.code enter_prefix)" for i
      using that by (intro out) (simp add: guard_block_lengths enter_code_length_def)
  qed (rule guard_blocks_well_encoded)
  then have run: "x86_run 11 s = Some t" by (simp only: t(1) guard_block_sizes)
  have "unat (s_mem s (ctx + b)) < 256" using unsigned_less [of "s_mem s (ctx + b)", where 'a = nat] by simp
  then have "condition 12 (s_flags t) \<longleftrightarrow> (ucast (s_mem s (ctx + b)) + 1 :: guint64) < 20"
    unfolding t(5) by (intro cmp_less_condition) (simp_all add: unat_byte_inc)
  then have cond: "condition 12 (s_flags t) \<longleftrightarrow> unat (s_mem s (ctx + b)) + 1 < 20"
    by (simp add: word_less_nat_alt unat_byte_inc)
  have "in_range (ctx + b) ctx 64" unfolding b_def by (rule bucket_in_range)
  then have "agree ?W (s_mem s) (s_mem t)"
    unfolding t(3) by (auto simp: agree_def guard_area_def saved_other)
  from code_at_agree [OF code this] out
  have "code_at (s_mem t) (s_rip s) (enter_code (s_rip s) enter k)" by (simp add: length_enter_code)
  with run cond t show ?thesis by (auto simp: at_branch_def)
qed

lemma jl_step:
  assumes "at_branch s ctx b t" and "code_at (s_mem t) (s_rip s) (enter_code (s_rip s) enter k)"
  shows "x86_step t = Some (t\<lparr>s_rip := s_rip s + (if unat (s_mem s (ctx + b)) + 1 < 20
      then 55 + of_nat (length (jmp_bytes (s_rip s + 55) enter)) else 48)\<rparr>)"
proof -
  have "code_at (s_mem t) (s_rip t) [0x7c, of_nat (7 + length (jmp_bytes (s_rip s + 55) enter))]"
    using enter_code_parts(2) [OF assms(2)] assms(1) by (simp add: at_branch_def)
  from x86_step_code [OF this _ decode_jl] assms(1) show ?thesis
    unfolding jl_distance by (simp add: at_branch_def ac_simps)
qed

text \<open>What is the same after the guard: everything but the frame, the bucket and the flags.\<close>

definition only_bucket :: "x86_state \<Rightarrow> gpointer \<Rightarrow> guint8 \<Rightarrow> x86_state \<Rightarrow> bool" where
  "only_bucket s x v t \<longleftrightarrow>
     s_mem t x = v \<and> (\<forall>y. y \<noteq> x \<and> \<not> in_range y (s_reg s RSP - 32) 32 \<longrightarrow> s_mem t y = s_mem s y) \<and>
     s_fs_base t = s_fs_base s \<and> s_gs_base t = s_gs_base s \<and> s_fx t = s_fx s"

lemma frame_at_branch:
  assumes "at_branch s ctx b t" and "\<not> in_range (ctx + b) (s_reg s RSP - 32) 32"
  shows "mem_read W64 (s_mem t) (s_reg s RSP - 8) = ctx" "mem_read W64 (s_mem t) (s_reg s RSP - 16) = s_reg s RAX"
    "mem_read W64 (s_mem t) (s_reg s RSP - 24) = s_reg s RCX" "mem_read W64 (s_mem t) (s_reg s RSP - 32) = s_reg s RDX"
  using assms by (simp_all add: at_branch_def frame_read_update saved_reads)

lemma only_bucket_at_branch:
  assumes "at_branch s ctx b t" and "s_mem u = (s_mem t)(ctx + b := v)"
    and "s_fs_base u = s_fs_base t \<and> s_gs_base u = s_gs_base t \<and> s_fx u = s_fx t"
  shows "only_bucket s (ctx + b) v u"
  using assms by (simp add: only_bucket_def at_branch_def saved_other)

lemma scast_of_nat_small: "k < 2 ^ 31 \<Longrightarrow> scast (of_nat k :: guint32) = (of_nat k :: guint64)"
proof -
  assume "k < 2 ^ 31"
  then have "sint (of_nat k :: guint32) = int k"
    by (simp add: sint_uint uint_nat unat_of_nat signed_take_bit_int_eq_self)
  then have "word_of_int (sint (of_nat k :: guint32)) = (of_nat k :: guint64)" by simp
  then show ?thesis by (simp add: of_int_sint)
qed

lemma guard_skips:
  fixes s :: x86_state
  defines "ctx \<equiv> mem_read W64 (s_mem s) (s_rip s - 8)"
    and "b \<equiv> mem_read W64 (s_mem s) (s_fs_base s + 0x2d0) AND 0x3f"
  assumes code: "code_at (s_mem s) (s_rip s) (enter_code (s_rip s) enter k)" and k: "k < 2 ^ 31"
    and layout: "guard_layout s ctx (enter_code_length (s_rip s) enter)"
    and low: "unat (s_mem s (ctx + b)) + 1 < 20"
  shows "\<exists>u. x86_run 17 s = Some u \<and> s_reg u = s_reg s \<and>
     s_rip u = s_rip s + of_nat (enter_code_length (s_rip s) enter + k) \<and>
     only_bucket s (ctx + b) (s_mem s (ctx + b) + 1) u"
proof -
  let ?W = "guard_area (s_reg s RSP) ctx" and ?n = "length (jmp_bytes (s_rip s + 55) enter)"
  obtain t where run: "x86_run 11 s = Some t" and t: "at_branch s ctx b t"
      and code': "code_at (s_mem t) (s_rip s) (enter_code (s_rip s) enter k)"
    using guard_reaches_branch [OF code] layout unfolding ctx_def b_def by blast
  define t' where "t' = t\<lparr>s_rip := s_rip s + 55 + of_nat ?n\<rparr>"
  have jl: "x86_step t = Some t'" using jl_step [OF t code'] low by (simp add: t'_def add.assoc)
  have ctr: "\<not> in_range (ctx + b) (s_reg s RSP - 32) 32" unfolding b_def by (rule counter_not_in_frame [OF layout])
  have sp: "s_reg t' RSP = s_reg s RSP - 32" using t by (simp add: at_branch_def t'_def)
  have fr: "mem_read W64 (s_mem t') (s_reg s RSP - 32) = s_reg s RDX" "mem_read W64 (s_mem t') (s_reg s RSP - 24) = s_reg s RCX"
    "mem_read W64 (s_mem t') (s_reg s RSP - 16) = s_reg s RAX"
    using frame_at_branch [OF t ctr] by (simp_all add: t'_def)
  obtain u where u: "exec_block (restore_registers @ drop_context) t' = Some u"
      "s_reg u = (s_reg t')(RDX := s_reg s RDX, RCX := s_reg s RCX, RAX := s_reg s RAX, RSP := s_reg s RSP)"
      "s_rip u = s_rip t' + 7" "s_mem u = s_mem t'"
      "s_fs_base u = s_fs_base t' \<and> s_gs_base u = s_gs_base t' \<and> s_fx u = s_fx t'"
    using skipped_exec(1) [OF sp fr] by blast
  have "x86_run (length (restore_registers @ drop_context)) t' = exec_block (restore_registers @ drop_context) t'"
  proof (rule run_block [where W = ?W])
    show "code_at (s_mem t') (s_rip t') (Gum_X86_Exec.code (restore_registers @ drop_context))"
      using enter_code_parts(5) [OF code'] by (simp add: t'_def)
    show "confined ?W (restore_registers @ drop_context) t'" by (rule skipped_exec(2) [OF sp fr])
    fix i assume "i < length (Gum_X86_Exec.code (restore_registers @ drop_context))"
    then show "\<not> ?W (s_rip t' + of_nat i)"
      using guard_layout_code [OF layout, of "55 + ?n + i"]
      by (simp add: guard_block_lengths enter_code_length_def t'_def ac_simps)
  qed (rule guard_blocks_well_encoded)
  then have run2: "x86_run 4 t' = Some u" by (simp only: u(1) guard_block_sizes)
  have "code_at (s_mem u) (s_rip u) (0xe9 # le32 (of_nat k))"
    using enter_code_parts(6) [OF code'] by (simp add: u t'_def ac_simps)
  from x86_step_code [OF this] k
  have last: "x86_step u = Some (u\<lparr>s_rip := s_rip u + 5 + of_nat k\<rparr>)"
    by (simp add: decode_jmp scast_of_nat_small)
  define v where "v = u\<lparr>s_rip := s_rip u + 5 + of_nat k\<rparr>"
  have "x86_run 17 s = Some v"
    using x86_run_add [of 11 6 s] x86_run_add [of 4 1 t'] run run2 jl last by (simp add: v_def eval_nat_numeral)
  moreover have "s_reg v = s_reg s" using u(2) t by (auto simp: at_branch_def t'_def v_def)
  moreover have "only_bucket s (ctx + b) (s_mem s (ctx + b) + 1) v"
    using t u(4,5) by (intro only_bucket_at_branch [OF t]) (simp_all add: at_branch_def t'_def v_def)
  moreover have "s_rip v = s_rip s + of_nat (enter_code_length (s_rip s) enter + k)"
    by (simp add: u(3) t'_def v_def enter_code_length_def)
  ultimately show ?thesis by blast
qed

lemma guard_samples:
  fixes s :: x86_state
  defines "ctx \<equiv> mem_read W64 (s_mem s) (s_rip s - 8)"
    and "b \<equiv> mem_read W64 (s_mem s) (s_fs_base s + 0x2d0) AND 0x3f"
  assumes code: "code_at (s_mem s) (s_rip s) (enter_code (s_rip s) enter k)"
    and layout: "guard_layout s ctx (enter_code_length (s_rip s) enter)"
    and high: "20 \<le> unat (s_mem s (ctx + b)) + 1"
  shows "\<exists>u. x86_run 17 s = Some u \<and> s_reg u = (s_reg s)(RSP := s_reg s RSP - 8) \<and> s_rip u = enter \<and>
     mem_read W64 (s_mem u) (s_reg s RSP - 8) = ctx \<and> only_bucket s (ctx + b) 0 u"
proof -
  let ?W = "guard_area (s_reg s RSP) ctx"
  obtain t where run: "x86_run 11 s = Some t" and t: "at_branch s ctx b t"
      and code': "code_at (s_mem t) (s_rip s) (enter_code (s_rip s) enter k)"
    using guard_reaches_branch [OF code] layout unfolding ctx_def b_def by blast
  define t' where "t' = t\<lparr>s_rip := s_rip s + 48\<rparr>"
  have jl: "x86_step t = Some t'" using jl_step [OF t code'] high by (simp add: t'_def)
  have ctr: "\<not> in_range (ctx + b) (s_reg s RSP - 32) 32" unfolding b_def by (rule counter_not_in_frame [OF layout])
  have bucket: "in_range (ctx + b) ctx 64" unfolding b_def by (rule bucket_in_range)
  have regs: "s_reg t' RSP = s_reg s RSP - 32" "s_reg t' RAX = ctx" "s_reg t' RDX = b"
    using t by (simp_all add: at_branch_def t'_def)
  have fr: "mem_read W64 (s_mem t') (s_reg s RSP - 32) = s_reg s RDX" "mem_read W64 (s_mem t') (s_reg s RSP - 24) = s_reg s RCX"
    "mem_read W64 (s_mem t') (s_reg s RSP - 16) = s_reg s RAX"
    using frame_at_branch [OF t ctr] by (simp_all add: t'_def)
  obtain u where u: "exec_block (reset_counter @ restore_registers) t' = Some u"
      "s_reg u = (s_reg t')(RDX := s_reg s RDX, RCX := s_reg s RCX, RAX := s_reg s RAX, RSP := s_reg s RSP - 8)"
      "s_rip u = s_rip t' + 7" "s_mem u = (s_mem t')(ctx + b := 0)"
      "s_fs_base u = s_fs_base t' \<and> s_gs_base u = s_gs_base t' \<and> s_fx u = s_fx t'"
    using sampled_exec(1) [OF regs fr ctr bucket] by blast
  have out: "\<not> ?W (s_rip s + of_nat i)" if "i < enter_code_length (s_rip s) enter" for i
    using that by (rule guard_layout_code [OF layout])
  have "x86_run (length (reset_counter @ restore_registers)) t' = exec_block (reset_counter @ restore_registers) t'"
  proof (rule run_block [where W = ?W])
    show "code_at (s_mem t') (s_rip t') (Gum_X86_Exec.code (reset_counter @ restore_registers))"
      using enter_code_parts(3) [OF code'] by (simp add: t'_def)
    show "confined ?W (reset_counter @ restore_registers) t'" by (rule sampled_exec(2) [OF regs fr ctr bucket])
    fix i assume "i < length (Gum_X86_Exec.code (reset_counter @ restore_registers))"
    then show "\<not> ?W (s_rip t' + of_nat i)"
      using out [of "48 + i"] by (simp add: guard_block_lengths enter_code_length_def t'_def ac_simps)
  qed (rule guard_blocks_well_encoded)
  then have run2: "x86_run 4 t' = Some u" by (simp only: u(1) guard_block_sizes)
  have "agree ?W (s_mem t) (s_mem u)" using agree_counter [OF bucket] by (simp add: u(4) t'_def)
  from code_at_agree [OF code' this] out
  have "code_at (s_mem u) (s_rip s) (enter_code (s_rip s) enter k)" by (simp add: length_enter_code)
  from enter_code_parts(4) [OF this] have "code_at (s_mem u) (s_rip u) (jmp_bytes (s_rip u) enter)"
    by (simp add: u(3) t'_def add.assoc)
  then have last: "x86_step u = Some (u\<lparr>s_rip := enter\<rparr>)" by (rule jmp_bytes_step)
  have "x86_run 17 s = Some (u\<lparr>s_rip := enter\<rparr>)"
    using x86_run_add [of 11 6 s] x86_run_add [of 4 1 t'] run run2 jl last by (simp add: eval_nat_numeral)
  moreover have "s_reg u = (s_reg s)(RSP := s_reg s RSP - 8)" using u(2) t by (auto simp: at_branch_def t'_def)
  moreover have "only_bucket s (ctx + b) 0 (u\<lparr>s_rip := enter\<rparr>)"
    using u(4,5) by (intro only_bucket_at_branch [OF t]) (simp_all add: t'_def)
  moreover have "mem_read W64 (s_mem u) (s_reg s RSP - 8) = ctx"
    using frame_at_branch(1) [OF t ctr] frame_read_update(1) [OF ctr] by (simp add: u(4) t'_def)
  ultimately show ?thesis by (intro exI [of _ "u\<lparr>s_rip := enter\<rparr>"]) simp
qed

section \<open>The bytes the backend emits\<close>

lemma push_pop_bytes:
  assumes "w_target_cpu self = GUM_CPU_AMD64"
  shows "gum_x86_writer_put_push_reg self GUM_X86_RAX = (True, emit self [0x50])"
   "gum_x86_writer_put_push_reg self GUM_X86_RCX = (True, emit self [0x51])"
   "gum_x86_writer_put_push_reg self GUM_X86_RDX = (True, emit self [0x52])"
   "gum_x86_writer_put_pop_reg self GUM_X86_RAX = (True, emit self [0x58])"
   "gum_x86_writer_put_pop_reg self GUM_X86_RCX = (True, emit self [0x59])"
   "gum_x86_writer_put_pop_reg self GUM_X86_RDX = (True, emit self [0x5a])"
  using assms by (simp_all add: push_reg_emits rex_def)

lemma byte_numerals: "(720 :: guint8) = 208" "(18446744073709551614 :: guint8) = 254"
  by simp_all

lemma guard_insn_bytes:
  assumes "w_target_cpu self = GUM_CPU_AMD64"
  shows "gum_x86_writer_put_mov_reg_reg_offset_ptr self GUM_X86_RAX GUM_X86_RSP 0x18 = (True, emit self [0x48, 0x8b, 0x44, 0x24, 0x18])"
   "gum_x86_writer_put_mov_reg_fs_u32_ptr self GUM_X86_RDX GUM_TCB_TID_OFFSET = (True, emit self [0x64, 0x48, 0x8b, 0x14, 0x25, 0xd0, 0x02, 0x00, 0x00])"
   "gum_x86_writer_put_and_reg_u32 self GUM_X86_RDX 0x3f = (True, emit self [0x48, 0x81, 0xe2, 0x3f, 0x00, 0x00, 0x00])"
   "gum_x86_writer_put_cmp_reg_i32 self GUM_X86_RCX GUM_SAMPLE_RATE = (True, emit self [0x48, 0x81, 0xf9, 0x14, 0x00, 0x00, 0x00])"
   "gum_x86_writer_put_add_reg_imm self GUM_X86_RSP 8 = (True, emit self [0x48, 0x83, 0xc4, 0x08])"
   "gum_x86_writer_put_jcc_short_label self X86_INS_JL l GUM_NO_HINT =
      (emit self [0x7c, 0xfe])\<lparr>w_label_refs := Some (refs_of self @ [\<lparr>lr_id = l, lr_address = w_code self + 2, lr_size = GUM_LREF_SHORT\<rparr>])\<rparr>"
   "gum_x86_writer_put_jmp_near_label self l =
      (emit self (0xe9 # le32 (- 5)))\<lparr>w_label_refs := Some (refs_of self @ [\<lparr>lr_id = l, lr_address = w_code self + 5, lr_size = GUM_LREF_NEAR\<rparr>])\<rparr>"
  using assms
  by (simp_all add: writer_defs emit_rules Let_def rex_def le32_def add_reference gum_get_jcc_opcode_def GUM_TCB_TID_OFFSET_def GUM_SAMPLE_RATE_def
     byte_numerals GUM_IS_WITHIN_INT8_RANGE_def GUM_IS_WITHIN_INT32_RANGE_def)

definition leave_code :: "gpointer \<Rightarrow> gpointer \<Rightarrow> GumAddress \<Rightarrow> guint8 list" where
  "leave_code a p leave = 0xff # 0x35 # le32 (ucast (p - (a + 6))) @ jmp_bytes (a + 6) leave"

text \<open>The bytes before the flush: both branches to labels still have their placeholder distances.\<close>

definition unflushed_enter_code :: "gpointer \<Rightarrow> GumAddress \<Rightarrow> guint8 list" where
  "unflushed_enter_code a enter =
     code enter_prefix @ [0x7c, 0xfe] @
     code (reset_counter @ restore_registers) @ jmp_bytes (a + 55) enter @
     code (restore_registers @ drop_context) @ 0xe9 # le32 (- 5)"

lemma put_sampling_guard_emits:
  assumes "w_target_cpu cw = GUM_CPU_AMD64"
  shows "put_sampling_guard ld cw =
    (emit cw (drop 6 (code enter_prefix) @ [0x7c, 0xfe] @ code (reset_counter @ restore_registers)))
      \<lparr>w_label_refs := Some (refs_of cw @ [\<lparr>lr_id = ld_literal ld ''sampling_skip'', lr_address = w_code cw + 42, lr_size = GUM_LREF_SHORT\<rparr>])\<rparr>"
  using assms
  by (simp add: put_sampling_guard_def push_pop_bytes guard_insn_bytes put_emit emit_rules code_def guard_block_defs)

lemma put_sampling_skip_emits:
  assumes "w_target_cpu cw = GUM_CPU_AMD64" and "label_lookup (defs_of cw) (ld_literal ld ''sampling_skip'') = 0"
  shows "put_sampling_skip ld cw =
    (emit cw (code (restore_registers @ drop_context) @ 0xe9 # le32 (- 5)))
      \<lparr>w_label_refs := Some (refs_of cw @ [\<lparr>lr_id = ld_literal ld ''invoke_trampoline'', lr_address = w_code cw + 12, lr_size = GUM_LREF_NEAR\<rparr>]),
       w_label_defs := Some ((defs_of cw)(ld_literal ld ''sampling_skip'' \<mapsto> w_code cw))\<rparr>"
  using assms
  by (simp add: put_sampling_skip_def put_label_fresh push_pop_bytes guard_insn_bytes put_emit emit_rules code_def guard_block_defs)

lemma push_near_ptr_emits:
  assumes "w_target_cpu cw = GUM_CPU_AMD64" and "GUM_IS_WITHIN_INT32_RANGE (p - (w_pc cw + 6))"
  shows "gum_x86_writer_put_push_near_ptr cw p = (True, emit cw (0xff # 0x35 # le32 (ucast (p - (w_pc cw + 6)))))"
  using assms by (simp add: gum_x86_writer_put_push_near_ptr_def Let_def emit_rules)

text \<open>All the bytes a listener context gets in its slice at \<open>a\<close>, before and after the flush.\<close>

definition enter_jmp_length :: "gpointer \<Rightarrow> GumAddress \<Rightarrow> nat" where
  "enter_jmp_length a enter = length (jmp_bytes (a + 63) enter)"

definition leave_at :: "gpointer \<Rightarrow> GumAddress \<Rightarrow> gpointer" where
  "leave_at a enter = a + of_nat (75 + enter_jmp_length a enter)"

definition invoke_offset :: "gpointer \<Rightarrow> GumAddress \<Rightarrow> GumAddress \<Rightarrow> nat" where
  "invoke_offset a enter leave =
     75 + enter_jmp_length a enter + length (leave_code (leave_at a enter) a leave)"

definition unflushed_listener_code :: "gpointer \<Rightarrow> gpointer \<Rightarrow> GumAddress \<Rightarrow> GumAddress \<Rightarrow> guint8 list" where
  "unflushed_listener_code a ctx enter leave =
     le64 ctx @ unflushed_enter_code (a + 8) enter @ leave_code (leave_at a enter) a leave"

definition listener_code :: "gpointer \<Rightarrow> gpointer \<Rightarrow> GumAddress \<Rightarrow> GumAddress \<Rightarrow> guint8 list" where
  "listener_code a ctx enter leave =
     le64 ctx @ enter_code (a + 8) enter (length (leave_code (leave_at a enter) a leave)) @ leave_code (leave_at a enter) a leave"

lemma length_listener_code:
  "length (unflushed_listener_code a ctx enter leave) = invoke_offset a enter leave"
  "length (listener_code a ctx enter leave) = invoke_offset a enter leave"
  by (simp_all add: unflushed_listener_code_def listener_code_def unflushed_enter_code_def enter_code_def
      guard_block_lengths invoke_offset_def enter_jmp_length_def add.assoc)

definition guard_refs :: "link_map \<Rightarrow> gpointer \<Rightarrow> GumAddress \<Rightarrow> GumX86LabelRef list" where
  "guard_refs ld a enter =
     [\<lparr>lr_id = ld_literal ld ''sampling_skip'', lr_address = a + 56, lr_size = GUM_LREF_SHORT\<rparr>,
      \<lparr>lr_id = ld_literal ld ''invoke_trampoline'', lr_address = leave_at a enter, lr_size = GUM_LREF_NEAR\<rparr>]"

lemma small_distance:
  assumes "n \<le> 2 ^ 31"
  shows "GUM_IS_WITHIN_INT32_RANGE (- of_nat n)"
proof -
  have "sint (word_of_int (- int n) :: gssize) = - int n"
    unfolding signed_of_int using assms by (simp add: signed_take_bit_int_eq_self)
  then have "sint (- of_nat n :: gssize) = - int n" by simp
  then show ?thesis using assms by (simp add: GUM_IS_WITHIN_INT32_RANGE_def)
qed

lemma put_listener_trampolines_emits:
  assumes cpu: "w_target_cpu cw = GUM_CPU_AMD64" and at: "w_code cw = a" "w_pc cw = a"
    and fresh: "label_lookup (defs_of cw) (ld_literal ld ''sampling_skip'') = 0"
  shows "put_listener_trampolines ld enter leave ctx cw =
    (ctx\<lparr>fc_on_enter_trampoline := a + 8, fc_on_leave_trampoline := leave_at a enter\<rparr>,
     (emit cw (unflushed_listener_code a (fc_address ctx) enter leave))
       \<lparr>w_label_refs := Some (refs_of cw @ guard_refs ld a enter),
        w_label_defs := Some ((defs_of cw)(ld_literal ld ''sampling_skip'' \<mapsto> a + of_nat (63 + enter_jmp_length a enter)))\<rparr>)"
proof -
  have r14: "GUM_IS_WITHIN_INT32_RANGE (- 14)" by (simp add: GUM_IS_WITHIN_INT32_RANGE_def)
  have rl: "GUM_IS_WITHIN_INT32_RANGE (- of_nat (81 + enter_jmp_length a enter))"
    using length_jmp_bytes [of "a + 63" enter] by (intro small_distance) (auto simp: enter_jmp_length_def)
  define cw1 where "cw1 = (emit cw (le64 (fc_address ctx) @ unflushed_enter_code (a + 8) enter))
    \<lparr>w_label_refs := Some (refs_of cw @ guard_refs ld a enter),
     w_label_defs := Some ((defs_of cw)(ld_literal ld ''sampling_skip'' \<mapsto> a + of_nat (63 + enter_jmp_length a enter)))\<rparr>"
  have prefix: "0xff # 0x35 # le32 18446744073709551602 @ drop 6 (code enter_prefix) @ rest = code enter_prefix @ rest" for rest
    by (simp add: code_def enter_prefix_def le32_def)
  have ar: "56 + a = a + 56" "63 + a = a + 63" "75 + (a + x) = a + (75 + x)" for x by simp_all
  have guard: "put_sampling_skip ld (snd (gum_x86_writer_put_jmp_address (put_sampling_guard ld
      (snd (gum_x86_writer_put_push_near_ptr (gum_x86_writer_put_bytes cw (le64 (fc_address ctx))) a))) enter)) = cw1"
    using cpu at fresh
    by (simp add: cw1_def put_bytes_emit push_near_ptr_emits r14 put_sampling_guard_emits jmp_address_emits put_sampling_skip_emits
        emit_rules guard_block_lengths unflushed_enter_code_def prefix guard_refs_def leave_at_def enter_jmp_length_def ar)
  have cw1: "w_target_cpu cw1 = GUM_CPU_AMD64" "w_code cw1 = leave_at a enter" "w_pc cw1 = leave_at a enter"
    using cpu at
    by (simp_all add: cw1_def unflushed_enter_code_def guard_block_lengths leave_at_def enter_jmp_length_def ar)
  have "GUM_IS_WITHIN_INT32_RANGE (a - (w_pc cw1 + 6))"
    using rl by (simp add: cw1 leave_at_def algebra_simps)
  then have leave: "snd (gum_x86_writer_put_jmp_address (snd (gum_x86_writer_put_push_near_ptr cw1 a)) leave) =
      emit cw1 (leave_code (leave_at a enter) a leave)"
    using cw1 by (simp add: push_near_ptr_emits jmp_address_emits emit_rules leave_code_def)
  have "put_listener_trampolines ld enter leave ctx cw =
    (ctx\<lparr>fc_on_enter_trampoline := a + 8, fc_on_leave_trampoline := leave_at a enter\<rparr>,
     emit cw1 (leave_code (leave_at a enter) a leave))"
    unfolding put_listener_trampolines_def Let_def gum_x86_writer_cur_def at guard leave
    by (simp add: cw1 put_bytes_emit at)
  then show ?thesis by (simp add: cw1_def unflushed_listener_code_def emit_rules)
qed

lemma guard_skip_distance:
  fixes a :: gpointer and enter :: GumAddress
  defines "n \<equiv> enter_jmp_length a enter"
  shows "(ucast (a + of_nat (63 + n) - (a + 56)) :: guint32) = of_nat (7 + n)"
    and "GUM_IS_WITHIN_INT8_RANGE (scast (of_nat (7 + n) :: guint32))" and "(ucast (of_nat (7 + n) :: guint32) :: guint8) = of_nat (7 + n)"
  using length_jmp_bytes [of "a + 63" enter]
  by (auto simp: n_def enter_jmp_length_def GUM_IS_WITHIN_INT8_RANGE_def)

lemma guard_invoke_distance:
  fixes a :: gpointer
  shows "(ucast (a + of_nat (invoke_offset a enter leave) - leave_at a enter) :: guint32)
    = of_nat (length (leave_code (leave_at a enter) a leave))"
proof -
  have "a + of_nat (invoke_offset a enter leave) - leave_at a enter
      = (of_nat (length (leave_code (leave_at a enter) a leave)) :: gpointer)"
    by (simp add: invoke_offset_def leave_at_def)
  moreover have "length (leave_code (leave_at a enter) a leave) \<in> {8, 11, 22}"
    using length_jmp_bytes [of "leave_at a enter + 6" leave] by (auto simp: leave_code_def)
  ultimately show ?thesis by auto
qed

lemma flush_guard_refs:
  fixes a :: gpointer
  assumes mem: "w_mem self = write_bytes m a (unflushed_listener_code a ctx enter leave @ tail)"
    and len: "length (unflushed_listener_code a ctx enter leave @ tail) \<le> 2 ^ 64"
    and skip: "label_lookup defs (ld_literal ld ''sampling_skip'') = a + of_nat (63 + enter_jmp_length a enter)"
      "a + of_nat (63 + enter_jmp_length a enter) \<noteq> 0"
    and invoke: "label_lookup defs (ld_literal ld ''invoke_trampoline'') = a + of_nat (invoke_offset a enter leave)"
      "a + of_nat (invoke_offset a enter leave) \<noteq> 0"
  shows "flush_refs self defs (guard_refs ld a enter @ rs) =
    flush_refs (self\<lparr>w_mem := write_bytes m a (listener_code a ctx enter leave @ tail)\<rparr>) defs rs"
proof -
  let ?J = "jmp_bytes (a + 63) enter" and ?L = "leave_code (leave_at a enter) a leave"
  let ?mid = "code (reset_counter @ restore_registers) @ ?J @ code (restore_registers @ drop_context) @ [0xe9]"
  let ?xs = "le64 ctx @ code enter_prefix @ [0x7c]"
  let ?d = "of_nat (7 + enter_jmp_length a enter) :: guint8"
  define m1 where "m1 = write_bytes m a (?xs @ [?d] @ (?mid @ le32 (- 5) @ ?L @ tail))"
  have l: "length ?xs = 55" "length (?xs @ [?d] @ ?mid) = 71 + enter_jmp_length a enter"
    by (simp_all add: guard_block_lengths enter_jmp_length_def)
  have "unflushed_listener_code a ctx enter leave @ tail = ?xs @ [0xfe] @ (?mid @ le32 (- 5) @ ?L @ tail)"
    by (simp add: unflushed_listener_code_def unflushed_enter_code_def add.commute [of 63 a])
  then have p1: "(w_mem self)(a + 55 := ?d) = m1"
    using write_bytes_patch [of "[?d]" "[0xfe]" ?xs "?mid @ le32 (- 5) @ ?L @ tail" m a] len
    unfolding m1_def mem l by (simp del: of_nat_add)
  have m1: "m1 = write_bytes m a ((?xs @ [?d] @ ?mid) @ le32 (- 5) @ (?L @ tail))" by (simp add: m1_def)
  have len': "length ((?xs @ [?d] @ ?mid) @ le32 (- 5) @ (?L @ tail)) \<le> 2 ^ 64"
    using len by (simp add: unflushed_listener_code_def unflushed_enter_code_def add.commute [of 63 a])
  have p2: "write_bytes m1 (a + of_nat (71 + enter_jmp_length a enter)) (le32 (of_nat (length ?L)))
      = write_bytes m a ((?xs @ [?d] @ ?mid) @ le32 (of_nat (length ?L)) @ (?L @ tail))"
    unfolding m1 l(2) [symmetric] by (rule write_bytes_patch [OF _ len']) simp
  have final: "(?xs @ [?d] @ ?mid) @ le32 (of_nat (length ?L)) @ (?L @ tail) = listener_code a ctx enter leave @ tail"
    by (simp add: listener_code_def enter_code_def enter_jmp_length_def add.commute [of 63 a])
  have patched: "write_bytes ((w_mem self)(55 + a := ?d)) (a + of_nat (71 + enter_jmp_length a enter)) (le32 (of_nat (length ?L)))
      = write_bytes m a (listener_code a ctx enter leave @ tail)"
    using p1 p2 final by (simp only: add.commute [of 55 a])
  have "leave_at a enter - 4 = a + of_nat (71 + enter_jmp_length a enter)" by (simp add: leave_at_def)
  then show ?thesis
    using patched skip invoke guard_skip_distance [of a enter] guard_invoke_distance [of a enter leave]
    by (simp add: guard_refs_def flush_one_def Let_def del: of_nat_add)
qed

end
