(* ===== verification/Gum_Sampling.thy ===== *)
theory Gum_Sampling
  imports Gum_Sampling_Guard
begin

text \<open>
  The sampling policy as a specification, and the guard as an implementation of it. A sampler keeps
  one counter per bucket and takes one call in \<^verbatim>\<open>GUM_SAMPLE_RATE\<close>; the locale states its law, and from
  that law how many of any sequence of calls are taken. The interpretation is the step the guard's
  machine code performs on \<^verbatim>\<open>sampling_counters\<close>.
\<close>

section \<open>Specification\<close>

text \<open>
  \<open>step c\<close> is what one call does to a bucket's counter: whether the call is taken, and the counter
  afterwards. \<open>rate\<close> is how many calls one taken call stands for.
\<close>

locale sampler =
  fixes step :: "'c \<Rightarrow> bool \<times> 'c" and level :: "'c \<Rightarrow> nat" and rate :: nat
  assumes rate_pos: "0 < rate"
    and skips: "level c + 1 < rate \<Longrightarrow> \<not> fst (step c) \<and> level (snd (step c)) = level c + 1"
    and takes: "rate \<le> level c + 1 \<Longrightarrow> fst (step c) \<and> level (snd (step c)) = 0"
begin

fun taken :: "nat \<Rightarrow> 'c \<Rightarrow> nat \<times> 'c" where
  "taken 0 c = (0, c)"
| "taken (Suc n) c = (let (t, c') = step c; (k, c'') = taken n c' in (of_bool t + k, c''))"

lemma level_bound: "level c < rate \<Longrightarrow> level (snd (step c)) < rate"
  using skips [of c] takes [of c] rate_pos by (cases "level c + 1 < rate") auto

lemma taken_count:
  "level c < rate \<Longrightarrow> fst (taken n c) = (level c + n) div rate \<and> level (snd (taken n c)) = (level c + n) mod rate"
proof (induction n arbitrary: c)
  case 0
  then show ?case by simp
next
  case (Suc n)
  show ?case
  proof (cases "level c + 1 < rate")
    case True
    with skips [of c] Suc.IH [of "snd (step c)"] show ?thesis
      by (simp add: split_beta Let_def)
  next
    case False
    with Suc.prems have last: "level c + 1 = rate" by simp
    with takes [of c] Suc.IH [of "snd (step c)"] rate_pos
    have k: "fst (taken (Suc n) c) = n div rate + 1" "level (snd (taken (Suc n) c)) = n mod rate"
      by (simp_all add: split_beta Let_def)
    have eq: "level c + Suc n = n + rate" using last by simp
    show ?thesis unfolding k eq using rate_pos by (simp add: div_add_self2)
  qed
qed

lemma one_per_window: "level c < rate \<Longrightarrow> fst (taken rate c) = 1"
  using taken_count [of c rate] rate_pos by (simp add: div_add_self2)

end

section \<open>The guard's step on the counters\<close>

definition bucket_of :: "guint64 \<Rightarrow> guint64" where
  "bucket_of tid = tid AND 0x3f"

text \<open>One call through the guard, on the counter of its bucket and on all of them.\<close>

definition counter_step :: "guint8 \<Rightarrow> bool \<times> guint8" where
  "counter_step c = (if unat c + 1 < unat GUM_SAMPLE_RATE then (False, c + 1) else (True, 0))"

definition guard_step :: "(guint64 \<Rightarrow> guint8) \<Rightarrow> guint64 \<Rightarrow> bool \<times> (guint64 \<Rightarrow> guint8)" where
  "guard_step counters tid =
     (let (t, c) = counter_step (counters (bucket_of tid)) in (t, counters(bucket_of tid := c)))"

interpretation guard: sampler counter_step unat "unat GUM_SAMPLE_RATE"
proof
  show "0 < unat GUM_SAMPLE_RATE" by (simp add: GUM_SAMPLE_RATE_def)
  fix c :: guint8
  show "unat c + 1 < unat GUM_SAMPLE_RATE \<Longrightarrow> \<not> fst (counter_step c) \<and> unat (snd (counter_step c)) = unat c + 1"
    by (simp add: counter_step_def GUM_SAMPLE_RATE_def unat_word_ariths)
  show "unat GUM_SAMPLE_RATE \<le> unat c + 1 \<Longrightarrow> fst (counter_step c) \<and> unat (snd (counter_step c)) = 0"
    by (simp add: counter_step_def)
qed

text \<open>A sequence of calls by threads, one after the other: which are taken, and the counters after them.\<close>

fun guard_run :: "(guint64 \<Rightarrow> guint8) \<Rightarrow> guint64 list \<Rightarrow> bool list \<times> (guint64 \<Rightarrow> guint8)" where
  "guard_run counters [] = ([], counters)"
| "guard_run counters (tid # tids) =
     (let (t, counters') = guard_step counters tid; (ts, counters'') = guard_run counters' tids
      in (t # ts, counters''))"

definition taken_in :: "guint64 \<Rightarrow> guint64 list \<Rightarrow> bool list \<Rightarrow> nat" where
  "taken_in b tids ts = length (filter (\<lambda>(tid, t). bucket_of tid = b \<and> t) (zip tids ts))"

definition calls_in :: "guint64 \<Rightarrow> guint64 list \<Rightarrow> nat" where
  "calls_in b tids = length (filter (\<lambda>tid. bucket_of tid = b) tids)"

lemma guard_run_bucket:
  "taken_in b tids (fst (guard_run counters tids)) = fst (guard.taken (calls_in b tids) (counters b)) \<and>
   snd (guard_run counters tids) b = snd (guard.taken (calls_in b tids) (counters b))"
proof (induction tids arbitrary: counters)
  case Nil
  then show ?case by (simp add: taken_in_def calls_in_def)
next
  case (Cons tid tids)
  define c where "c = counters(bucket_of tid := snd (counter_step (counters (bucket_of tid))))"
  have run: "guard_run counters (tid # tids) =
      (fst (counter_step (counters (bucket_of tid))) # fst (guard_run c tids), snd (guard_run c tids))"
    by (simp add: guard_step_def split_beta Let_def c_def)
  show ?case
  proof (cases "bucket_of tid = b")
    case True
    then have "c b = snd (counter_step (counters b))" by (simp add: c_def)
    with Cons.IH [of c] True show ?thesis
      unfolding run by (simp add: taken_in_def calls_in_def split_beta Let_def)
  next
    case False
    then have "c b = counters b" by (simp add: c_def)
    with Cons.IH [of c] False show ?thesis
      unfolding run by (simp add: taken_in_def calls_in_def)
  qed
qed

text \<open>
  C12: Sampling rate. In any sequence of calls, from counters below the rate, the calls of one bucket
  that go to the listeners are one in \<^verbatim>\<open>GUM_SAMPLE_RATE\<close> of that bucket's calls, counting from the
  bucket's initial counter, whatever calls of other buckets come between.
\<close>

theorem guard_run_rate:
  assumes "unat (counters b) < unat GUM_SAMPLE_RATE"
  shows "taken_in b tids (fst (guard_run counters tids)) = (unat (counters b) + calls_in b tids) div 20 \<and>
         unat (snd (guard_run counters tids) b) = (unat (counters b) + calls_in b tids) mod 20"
  using guard_run_bucket [of b tids counters] guard.taken_count [OF assms, of "calls_in b tids"]
  by (simp add: GUM_SAMPLE_RATE_def)

theorem guard_run_rate_witness:
  "taken_in 5 (replicate 45 69) (fst (guard_run (\<lambda>_. 3) (replicate 45 69))) = 2"
proof -
  have "unat ((\<lambda>_. 3 :: guint8) (5 :: guint64)) < unat GUM_SAMPLE_RATE" by (simp add: GUM_SAMPLE_RATE_def)
  moreover have "calls_in 5 (replicate 45 69) = 45" by (simp add: calls_in_def bucket_of_def)
  ultimately show ?thesis using guard_run_rate [of "\<lambda>_. 3" 5 "replicate 45 69"] by simp
qed

section \<open>The emitted guard implements the step\<close>

lemma invoke_offset_bound: "invoke_offset a enter leave \<le> 113"
  using length_jmp_bytes [of "a + 63" enter] length_jmp_bytes [of "leave_at a enter + 6" leave]
  by (auto simp: invoke_offset_def enter_jmp_length_def leave_code_def)

lemma no_wrap_nonzero: "unat a + 256 \<le> 2 ^ 64 \<Longrightarrow> 0 < n \<Longrightarrow> n < 256 \<Longrightarrow> a + of_nat n \<noteq> 0" for a :: gpointer
proof -
  assume "unat a + 256 \<le> 2 ^ 64" "0 < n" "n < 256"
  then have "unat (a + of_nat n) = unat a + n" by (simp add: unat_word_ariths unat_of_nat)
  with \<open>0 < n\<close> show ?thesis by auto
qed

lemma listener_trampolines_flushed:
  assumes cpu: "w_target_cpu cw = GUM_CPU_AMD64" and at: "w_code cw = a" "w_pc cw = a"
    and empty: "refs_of cw = []" "defs_of cw = Map.empty"
    and lits: "ld_literal ld ''sampling_skip'' \<noteq> ld_literal ld ''invoke_trampoline''"
    and room: "unat a + 256 \<le> 2 ^ 64"
    and put: "put_listener_trampolines ld enter leave ctx cw = (ctx', cw1)"
    and flush: "gum_x86_writer_flush (snd (gum_x86_writer_put_label cw1 (ld_literal ld ''invoke_trampoline''))) = (ok, cw2)"
  shows "ok" "w_mem cw2 = write_bytes (w_mem cw) a (listener_code a (fc_address ctx) enter leave)"
    "fc_on_enter_trampoline ctx' = a + 8" "fc_on_leave_trampoline ctx' = leave_at a enter"
    "w_code cw1 = a + of_nat (invoke_offset a enter leave)"
proof -
  let ?skip = "ld_literal ld ''sampling_skip''" and ?inv = "ld_literal ld ''invoke_trampoline''"
  let ?code = "unflushed_listener_code a (fc_address ctx) enter leave"
  let ?defs = "[?skip \<mapsto> a + of_nat (63 + enter_jmp_length a enter), ?inv \<mapsto> a + of_nat (invoke_offset a enter leave)]"
  have "label_lookup (defs_of cw) ?skip = 0" by (simp add: empty label_lookup_def)
  note emits = put_listener_trampolines_emits [OF cpu at this, of enter leave ctx]
  then have ctx': "ctx' = ctx\<lparr>fc_on_enter_trampoline := a + 8, fc_on_leave_trampoline := leave_at a enter\<rparr>"
    and cw1: "cw1 = (emit cw ?code)\<lparr>w_label_refs := Some (guard_refs ld a enter),
        w_label_defs := Some [?skip \<mapsto> a + of_nat (63 + enter_jmp_length a enter)]\<rparr>"
    using put by (simp_all add: empty)
  show "fc_on_enter_trampoline ctx' = a + 8" "fc_on_leave_trampoline ctx' = leave_at a enter"
    by (simp_all add: ctx')
  show code: "w_code cw1 = a + of_nat (invoke_offset a enter leave)" by (simp add: cw1 at length_listener_code)
  define cw' where "cw' = cw1\<lparr>w_label_defs := Some ?defs\<rparr>"
  have "label_lookup (defs_of cw1) ?inv = 0" using lits by (simp add: cw1 label_lookup_def)
  then have "snd (gum_x86_writer_put_label cw1 ?inv) = cw'"
    using code by (simp add: put_label_fresh cw'_def) (simp add: cw1)
  moreover have "flush_refs cw' ?defs (guard_refs ld a enter) =
      (True, cw'\<lparr>w_mem := write_bytes (w_mem cw) a (listener_code a (fc_address ctx) enter leave)\<rparr>)"
    using flush_guard_refs [where self = cw' and m = "w_mem cw" and a = a and ctx = "fc_address ctx" and enter = enter
        and leave = leave and tail = "[]" and defs = ?defs and ld = ld and rs = "[]"]
      invoke_offset_bound [of a enter leave] lits no_wrap_nonzero [OF room, of "invoke_offset a enter leave"]
      no_wrap_nonzero [OF room, of "63 + enter_jmp_length a enter"]
      length_listener_code(1) [of a "fc_address ctx" enter leave]
    by (simp add: cw'_def cw1 at label_lookup_def invoke_offset_def del: of_nat_add)
  ultimately show "ok" "w_mem cw2 = write_bytes (w_mem cw) a (listener_code a (fc_address ctx) enter leave)"
    using flush by (auto simp: gum_x86_writer_flush_def cw'_def cw1)
qed

text \<open>The machine's memory holds the bytes of a slice as the writer left them.\<close>

definition slice_loaded :: "memory \<Rightarrow> memory \<Rightarrow> gpointer \<Rightarrow> nat \<Rightarrow> bool" where
  "slice_loaded m w a n \<longleftrightarrow> read_bytes m a n = read_bytes w a n"

lemma loaded_enter_code:
  assumes "slice_loaded m (write_bytes m0 a (listener_code a ctx enter leave)) a (invoke_offset a enter leave)"
  shows "code_at m (a + 8) (enter_code (a + 8) enter (length (leave_code (leave_at a enter) a leave)))"
    and "mem_read W64 m a = ctx"
proof -
  have "code_at m a (listener_code a ctx enter leave)"
    using assms read_write_bytes [of "listener_code a ctx enter leave" m0 a] invoke_offset_bound [of a enter leave]
    by (simp add: slice_loaded_def code_at_def length_listener_code)
  then have "code_at m a (le64 ctx)"
      "code_at m (a + 8) (enter_code (a + 8) enter (length (leave_code (leave_at a enter) a leave)))"
    unfolding listener_code_def code_at_append by simp_all
  then show "code_at m (a + 8) (enter_code (a + 8) enter (length (leave_code (leave_at a enter) a leave)))"
      "mem_read W64 m a = ctx"
    by (simp_all add: code_at_def mem_read_def)
qed

text \<open>What a pass through the guard does, told by the specification's step.\<close>

definition guard_outcome :: "x86_state \<Rightarrow> gpointer \<Rightarrow> GumAddress \<Rightarrow> GumAddress \<Rightarrow> x86_state \<Rightarrow> bool" where
  "guard_outcome s ctx enter invoke u \<longleftrightarrow>
     (let tid = mem_read W64 (s_mem s) (s_fs_base s + ucast GUM_TCB_TID_OFFSET);
          (sampled, counters) = guard_step (\<lambda>b. s_mem s (ctx + b)) tid
      in only_bucket s (ctx + bucket_of tid) (counters (bucket_of tid)) u \<and>
         (if sampled
          then s_rip u = enter \<and> s_reg u = (s_reg s)(RSP := s_reg s RSP - 8)
               \<and> mem_read W64 (s_mem u) (s_reg s RSP - 8) = ctx
          else s_rip u = invoke \<and> s_reg u = s_reg s))"

text \<open>
  C1: The sampling guard. Take the bytes \<^verbatim>\<open>_gum_interceptor_backend_create_trampoline\<close> writes for a
  listener context up to \<^verbatim>\<open>on_invoke_trampoline\<close>, flushed, and run the processor on them from
  \<^verbatim>\<open>on_enter_trampoline\<close>. The flush succeeds, and after seventeen instructions the counter of the
  thread's bucket has made the specified step and nothing else has changed but the flags and the 32
  bytes below the stack pointer; a sampled call is at the enter thunk with every register as before
  and the context pushed, any other call is at \<^verbatim>\<open>on_invoke_trampoline\<close> with every register as before.
\<close>

theorem sampling_guard_correct:
  assumes "w_target_cpu cw = GUM_CPU_AMD64" and "w_code cw = a" and "w_pc cw = a"
    and "refs_of cw = []" and "defs_of cw = Map.empty"
    and "ld_literal ld ''sampling_skip'' \<noteq> ld_literal ld ''invoke_trampoline''"
    and "unat a + 256 \<le> 2 ^ 64"
    and put: "put_listener_trampolines ld enter leave ctx cw = (ctx', cw1)"
    and "gum_x86_writer_flush (snd (gum_x86_writer_put_label cw1 (ld_literal ld ''invoke_trampoline''))) = (ok, cw2)"
    and loaded: "slice_loaded (s_mem s) (w_mem cw2) a (unat (w_code cw1 - a))"
    and rip: "s_rip s = fc_on_enter_trampoline ctx'"
    and layout: "guard_layout s (fc_address ctx) (enter_code_length (s_rip s) enter)"
  shows "ok \<and> (\<exists>u. x86_run 17 s = Some u \<and> guard_outcome s (fc_address ctx) enter (w_code cw1) u)"
proof -
  note flushed = listener_trampolines_flushed [OF assms(1-9)]
  define k where "k = length (leave_code (leave_at a enter) a leave)"
  have off: "invoke_offset a enter leave = 8 + enter_code_length (a + 8) enter + k"
    by (simp add: invoke_offset_def enter_code_length_def enter_jmp_length_def k_def add.commute [of 63 a])
  have "unat (w_code cw1 - a) = invoke_offset a enter leave"
    using invoke_offset_bound [of a enter leave] by (simp add: flushed(5) unat_of_nat)
  with loaded flushed(2) have "code_at (s_mem s) (a + 8) (enter_code (a + 8) enter k)" "mem_read W64 (s_mem s) a = fc_address ctx"
    using loaded_enter_code unfolding k_def by metis+
  moreover have rip: "s_rip s = a + 8" using rip flushed(3) by simp
  ultimately have code: "code_at (s_mem s) (s_rip s) (enter_code (s_rip s) enter k)"
    and ctx: "mem_read W64 (s_mem s) (s_rip s - 8) = fc_address ctx" by simp_all
  define b where "b = mem_read W64 (s_mem s) (s_fs_base s + 0x2d0) AND 0x3f"
  have k: "k < 2 ^ 31" using invoke_offset_bound [of a enter leave] off by simp
  have invoke: "s_rip s + of_nat (enter_code_length (s_rip s) enter + k) = w_code cw1"
    by (simp add: flushed(5) off rip)
  have "\<exists>u. x86_run 17 s = Some u \<and> guard_outcome s (fc_address ctx) enter (w_code cw1) u"
  proof (cases "unat (s_mem s (fc_address ctx + b)) + 1 < 20")
    case True
    then show ?thesis using guard_skips [OF code k] layout
      unfolding ctx b_def [symmetric] invoke guard_outcome_def
      by (auto simp: guard_step_def counter_step_def bucket_of_def GUM_TCB_TID_OFFSET_def GUM_SAMPLE_RATE_def b_def)
  next
    case False
    then show ?thesis using guard_samples [OF code] layout
      unfolding ctx b_def [symmetric] guard_outcome_def
      by (auto simp: guard_step_def counter_step_def bucket_of_def GUM_TCB_TID_OFFSET_def GUM_SAMPLE_RATE_def b_def)
  qed
  with flushed(1) show ?thesis by blast
qed

text \<open>A concrete slice, context and processor state that meet the hypotheses.\<close>

definition demo_writer :: GumX86Writer where
  "demo_writer = gum_x86_writer_init \<lparr>w_ref_count = 0, w_flush_on_destroy = False, w_target_cpu = GUM_CPU_INVALID,
     w_target_abi = GUM_ABI_WINDOWS, w_base = 0, w_code = 0, w_pc = 0, w_label_defs = None, w_label_refs = None,
     w_mem = (\<lambda>_. 0)\<rparr> 0x10000"

definition demo_link :: link_map where
  "demo_link = \<lparr>ld_begin_invocation = 0x51000, ld_end_invocation = 0x52000,
     ld_literal = (\<lambda>s. if s = ''sampling_skip'' then 0x61000 else 0x62000)\<rparr>"

definition demo_context :: GumFunctionContext where
  "demo_context = \<lparr>fc_address = 0x20000, fc_function_address = 0x11000, fc_grafted_hook = 0, fc_import_target = 0,
     fc_type = GUM_INTERCEPTOR_TYPE_DEFAULT, fc_destroyed = False, fc_activated = False, fc_has_on_leave_listener = False,
     fc_trampoline_slice = None, fc_trampoline_usage_counter = 0, fc_on_enter_trampoline = 0,
     fc_overwritten_prologue = replicate 32 0, fc_overwritten_prologue_len = 0, fc_on_invoke_trampoline = 0,
     fc_on_leave_trampoline = 0, fc_listener_entries = [], fc_replacement_function = 0, fc_replacement_data = 0,
     fc_redirect_code_size = 5\<rparr>"

definition demo_trampolines :: "GumFunctionContext \<times> GumX86Writer" where
  "demo_trampolines = put_listener_trampolines demo_link 0x30000 0x31000 demo_context demo_writer"

definition demo_flushed :: "bool \<times> GumX86Writer" where
  "demo_flushed = gum_x86_writer_flush
     (snd (gum_x86_writer_put_label (snd demo_trampolines) (ld_literal demo_link ''invoke_trampoline'')))"

definition demo_state :: x86_state where
  "demo_state = \<lparr>s_reg = (\<lambda>r. if r = RSP then 0x80000 else of_nat r), s_rip = 0x10008, s_flags = 2,
     s_fs_base = 0x40000, s_gs_base = 0, s_fx = [], s_mem = w_mem (snd demo_flushed)\<rparr>"

lemma demo_writer_fields:
  "w_target_cpu demo_writer = GUM_CPU_AMD64" "w_code demo_writer = 0x10000" "w_pc demo_writer = 0x10000"
  "refs_of demo_writer = []" "defs_of demo_writer = Map.empty"
  by (simp_all add: demo_writer_def gum_x86_writer_init_def gum_x86_writer_reset_def gum_x86_writer_has_label_defs_def
      gum_x86_writer_has_label_refs_def refs_of_def defs_of_def)

lemma demo_on_enter: "fc_on_enter_trampoline (fst demo_trampolines) = 0x10008"
  using put_listener_trampolines_emits [OF demo_writer_fields(1-3), of demo_link "0x30000" "0x31000" demo_context]
  by (simp add: demo_trampolines_def demo_writer_fields label_lookup_def)

lemma demo_layout: "guard_layout demo_state 0x20000 (enter_code_length (s_rip demo_state) 0x30000)"
  by (simp add: guard_layout_def demo_state_def enter_code_length_def jmp_bytes_def disjoint_ranges_def
      GUM_IS_WITHIN_INT8_RANGE_def GUM_IS_WITHIN_INT32_RANGE_def)

theorem sampling_guard_correct_witness:
  "fst demo_flushed \<and> (\<exists>u. x86_run 17 demo_state = Some u \<and>
     guard_outcome demo_state 0x20000 0x30000 (w_code (snd demo_trampolines)) u)"
  using sampling_guard_correct [where cw = demo_writer and a = "0x10000" and ld = demo_link and enter = "0x30000"
      and leave = "0x31000" and ctx = demo_context and ctx' = "fst demo_trampolines" and ?cw1.0 = "snd demo_trampolines"
      and ok = "fst demo_flushed" and ?cw2.0 = "snd demo_flushed" and s = demo_state]
    demo_layout demo_on_enter demo_writer_fields
  by (simp add: demo_trampolines_def [symmetric] demo_flushed_def [symmetric] slice_loaded_def)
    (simp add: demo_state_def demo_link_def demo_context_def)

end
