(* ===== verification/Gum_Sampling_Race.thy ===== *)
theory Gum_Sampling_Race
  imports Gum_Sampling
begin

text \<open>
  The guard under concurrency. It reads, increments, writes back and resets the counter of a bucket in separate
  instructions, without a lock; threads whose identifiers have the same six low bits share a bucket. This theory
  models the accesses to the counter one by one, in any interleaving, and shows what is left of the
  sampling rate.
\<close>

section \<open>The accesses to a counter\<close>

text \<open>
  Where a thread is: outside of the guard or in it before the load; after the load of a value; after
  storing the successor of a value for which the call is sampled, before the reset.
\<close>

datatype phase = Outside | Loaded guint8 | Stored

text \<open>
  The next access of a thread whose bucket is \<open>b\<close>, and the outcome when it is its last: \<^verbatim>\<open>movzx ecx, byte [rax + rdx]\<close>;
  \<^verbatim>\<open>inc ecx\<close>, \<^verbatim>\<open>mov [rax + rdx], cl\<close>, \<^verbatim>\<open>cmp\<close> and \<^verbatim>\<open>jl\<close>; \<^verbatim>\<open>mov byte [rax + rdx], 0\<close>.
\<close>

fun guard_access :: "guint64 \<Rightarrow> phase \<Rightarrow> (guint64 \<Rightarrow> guint8) \<Rightarrow> phase \<times> (guint64 \<Rightarrow> guint8) \<times> bool option" where
  "guard_access b Outside counters = (Loaded (counters b), counters, None)"
| "guard_access b (Loaded v) counters =
     (if unat v + 1 < unat GUM_SAMPLE_RATE then (Outside, counters(b := v + 1), Some False)
      else (Stored, counters(b := v + 1), None))"
| "guard_access b Stored counters = (Outside, counters(b := 0), Some True)"

text \<open>All threads: the phase of each, and the counters they share.\<close>

record guards =
  g_phase :: "guint64 \<Rightarrow> phase"
  g_counters :: "guint64 \<Rightarrow> guint8"

definition race_step :: "guint64 \<Rightarrow> guards \<Rightarrow> bool option \<times> guards" where
  "race_step tid s =
     (let (ph, counters, out) = guard_access (bucket_of tid) (g_phase s tid) (g_counters s)
      in (out, \<lparr>g_phase = (g_phase s)(tid := ph), g_counters = counters\<rparr>))"

text \<open>A schedule says whose access is next. The outcomes are listed in the order in which calls leave the guard.\<close>

fun race_run :: "guint64 list \<Rightarrow> guards \<Rightarrow> (guint64 \<times> bool) list \<times> guards" where
  "race_run [] s = ([], s)"
| "race_run (tid # tids) s =
     (let (out, s) = race_step tid s; (outs, s) = race_run tids s
      in (case out of None \<Rightarrow> outs | Some sampled \<Rightarrow> (tid, sampled) # outs, s))"

definition at_start :: "(guint64 \<Rightarrow> guint8) \<Rightarrow> guards" where
  "at_start counters = \<lparr>g_phase = (\<lambda>_. Outside), g_counters = counters\<rparr>"

lemma race_run_append:
  "race_run (xs @ ys) s =
     (fst (race_run xs s) @ fst (race_run ys (snd (race_run xs s))), snd (race_run ys (snd (race_run xs s))))"
  by (induction xs arbitrary: s) (simp_all add: split_beta Let_def split: option.splits)

section \<open>Threads with buckets of their own\<close>

text \<open>
  How the counter of a thread's bucket relates to the one of the guard run without interruption: the call counts when
  it leaves the guard.
\<close>

fun counts_later :: "phase \<Rightarrow> guint8 \<Rightarrow> guint8 \<Rightarrow> bool" where
  "counts_later Outside c c' \<longleftrightarrow> c' = c"
| "counts_later (Loaded v) c c' \<longleftrightarrow> v = c \<and> c' = c"
| "counts_later Stored c c' \<longleftrightarrow> unat GUM_SAMPLE_RATE \<le> unat c' + 1"

definition settled_counters :: "guint64 set \<Rightarrow> guards \<Rightarrow> (guint64 \<Rightarrow> guint8) \<Rightarrow> bool" where
  "settled_counters T s counters \<longleftrightarrow>
     (\<forall>t \<in> T. counts_later (g_phase s t) (g_counters s (bucket_of t)) (counters (bucket_of t)))"

definition own_buckets :: "guint64 list \<Rightarrow> bool" where
  "own_buckets tids \<longleftrightarrow> (\<forall>t \<in> set tids. \<forall>u \<in> set tids. bucket_of t = bucket_of u \<longrightarrow> t = u)"

lemma guard_access_elsewhere:
  "guard_access b ph counters = (ph', counters', out) \<Longrightarrow> b' \<noteq> b \<Longrightarrow> counters' b' = counters b'"
  by (cases ph) (auto split: if_splits)

lemma guard_access_counts:
  assumes "counts_later ph (counters b) c" and "guard_access b ph counters = (ph', counters', out)"
  shows "case out of None \<Rightarrow> counts_later ph' (counters' b) c
    | Some sampled \<Rightarrow> fst (counter_step c) = sampled \<and> counts_later ph' (counters' b) (snd (counter_step c))"
  using assms by (cases ph) (auto simp: counter_step_def not_less split: if_splits)

lemma settled_elsewhere:
  assumes "settled_counters T s counters" "tid \<in> T" "\<forall>t \<in> T. bucket_of t = bucket_of tid \<longrightarrow> t = tid"
    and "guard_access (bucket_of tid) (g_phase s tid) (g_counters s) = (ph', cs', out)"
    and "counts_later ph' (cs' (bucket_of tid)) c"
  shows "settled_counters T \<lparr>g_phase = (g_phase s)(tid := ph'), g_counters = cs'\<rparr> (counters(bucket_of tid := c))"
  unfolding settled_counters_def
proof
  fix t assume t: "t \<in> T"
  show "counts_later (g_phase \<lparr>g_phase = (g_phase s)(tid := ph'), g_counters = cs'\<rparr> t)
      (g_counters \<lparr>g_phase = (g_phase s)(tid := ph'), g_counters = cs'\<rparr> (bucket_of t)) ((counters(bucket_of tid := c)) (bucket_of t))"
  proof (cases "t = tid")
    case False
    then have "bucket_of t \<noteq> bucket_of tid" using assms(3) t by blast
    then show ?thesis using assms(1) t False guard_access_elsewhere [OF assms(4)] by (simp add: settled_counters_def)
  qed (simp add: assms(5))
qed

lemma race_run_settled:
  assumes "own_buckets tids" and "settled_counters (set tids) s counters" and "set later \<subseteq> set tids"
  shows "map snd (fst (race_run later s)) = fst (guard_run counters (map fst (fst (race_run later s)))) \<and>
    settled_counters (set tids) (snd (race_run later s)) (snd (guard_run counters (map fst (fst (race_run later s)))))"
  using assms(2,3)
proof (induction later arbitrary: s counters)
  case Nil
  then show ?case by simp
next
  case (Cons tid later)
  obtain ph cs out where a: "guard_access (bucket_of tid) (g_phase s tid) (g_counters s) = (ph, cs, out)" by (metis prod.exhaust)
  let ?s = "\<lparr>g_phase = (g_phase s)(tid := ph), g_counters = cs\<rparr>" and ?b = "bucket_of tid"
  have step: "race_step tid s = (out, ?s)" by (simp add: race_step_def a)
  have tid: "tid \<in> set tids" "set later \<subseteq> set tids" using Cons.prems(2) by simp_all
  have own: "\<forall>t \<in> set tids. bucket_of t = ?b \<longrightarrow> t = tid" using assms(1) tid(1) by (auto simp: own_buckets_def)
  have before: "counts_later (g_phase s tid) (g_counters s ?b) (counters ?b)"
    using Cons.prems(1) tid(1) by (simp add: settled_counters_def)
  note after = guard_access_counts [OF before a] and elsewhere = settled_elsewhere [OF Cons.prems(1) tid(1) own a]
  show ?case
  proof (cases out)
    case None
    then have "settled_counters (set tids) ?s (counters(?b := counters ?b))" using after elsewhere [of "counters ?b"] by simp
    then have "settled_counters (set tids) ?s counters" by simp
    from Cons.IH [OF this tid(2)] show ?thesis by (simp add: step None split_beta Let_def)
  next
    case (Some sampled)
    define cs' where "cs' = counters(?b := snd (counter_step (counters ?b)))"
    have g: "guard_step counters tid = (sampled, cs')"
      using after Some by (auto simp: guard_step_def split_beta Let_def cs'_def)
    have "settled_counters (set tids) ?s cs'" using after elsewhere Some by (simp add: cs'_def)
    from Cons.IH [OF this tid(2)] show ?thesis by (simp add: step Some g split_beta Let_def)
  qed
qed

section \<open>Threads that share a bucket\<close>

text \<open>
  A lower bound \<open>m\<close> of the counter of bucket \<open>b\<close> and of all values that threads of \<open>T\<close> have loaded from it.
\<close>

fun holds :: "nat \<Rightarrow> phase \<Rightarrow> bool" where
  "holds m Outside \<longleftrightarrow> True"
| "holds m (Loaded v) \<longleftrightarrow> m \<le> unat v"
| "holds m Stored \<longleftrightarrow> False"

definition above :: "guint64 \<Rightarrow> guint64 set \<Rightarrow> nat \<Rightarrow> guards \<Rightarrow> bool" where
  "above b T m s \<longleftrightarrow> m \<le> unat (g_counters s b) \<and> (\<forall>t \<in> T. holds m (g_phase s t))"

text \<open>Those of \<open>T\<close> that left the guard since the bound was \<open>m\<close> are above it.\<close>

definition rising :: "guint64 \<Rightarrow> guint64 set \<Rightarrow> guint64 set \<Rightarrow> nat \<Rightarrow> guards \<Rightarrow> bool" where
  "rising b T D m s \<longleftrightarrow> above b T m s \<and> (\<forall>t \<in> D. holds (Suc m) (g_phase s t)) \<and>
     (D \<noteq> {} \<longrightarrow> Suc m \<le> unat (g_counters s b) \<and> m < 19)"

abbreviation leavers :: "guint64 list \<Rightarrow> guards \<Rightarrow> guint64 set" where
  "leavers tids s \<equiv> fst ` set (fst (race_run tids s))"

abbreviation sampled_by :: "guint64 \<Rightarrow> guint64 list \<Rightarrow> guards \<Rightarrow> bool" where
  "sampled_by t tids s \<equiv> (t, True) \<in> set (fst (race_run tids s))"

definition sharing :: "guint64 \<Rightarrow> guint64 set \<Rightarrow> guint64 list \<Rightarrow> bool" where
  "sharing b T tids \<longleftrightarrow> (\<forall>t \<in> T. bucket_of t = b) \<and> (\<forall>t \<in> set tids. bucket_of t = b \<longrightarrow> t \<in> T)"

lemma race_step_phase: "t \<noteq> tid \<Longrightarrow> g_phase (snd (race_step tid s)) t = g_phase s t"
  by (simp add: race_step_def split_beta Let_def)

lemma race_step_counter: "bucket_of tid \<noteq> b \<Longrightarrow> g_counters (snd (race_step tid s)) b = g_counters s b"
  by (cases "g_phase s tid") (simp_all add: race_step_def split_beta Let_def)

lemma stays_stored:
  "g_phase s t = Stored \<Longrightarrow> \<not> sampled_by t tids s \<Longrightarrow>
     g_phase (snd (race_run tids s)) t = Stored \<and> t \<notin> leavers tids s"
proof (induction tids arbitrary: s)
  case (Cons tid tids)
  obtain out s' where step: "race_step tid s = (out, s')" by (metis prod.exhaust)
  have "tid \<noteq> t"
  proof
    assume "tid = t"
    then have "out = Some True" using step Cons.prems(1) by (simp add: race_step_def)
    then show False using Cons.prems(2) step \<open>tid = t\<close> by (simp add: split_beta Let_def)
  qed
  moreover have "g_phase s' t = Stored" using race_step_phase [of t tid s] step Cons.prems(1) \<open>tid \<noteq> t\<close> by simp
  moreover have "\<not> sampled_by t tids s'" using Cons.prems(2) step by (auto simp: split_beta Let_def split: option.splits)
  ultimately show ?case using Cons.IH [of s'] step by (auto simp: split_beta Let_def split: option.splits)
qed simp

lemma rising_step:
  assumes r: "rising b T D m s" and T: "\<forall>t \<in> T. bucket_of t = b" "bucket_of tid = b \<longrightarrow> tid \<in> T" and "D \<subseteq> T"
    and step: "race_step tid s = (out, s')" and quiet: "tid \<in> T \<longrightarrow> g_phase s' tid \<noteq> Stored" and out: "tid \<in> T \<longrightarrow> out \<noteq> Some True"
  shows "rising b T (if tid \<in> T \<and> out \<noteq> None then insert tid D else D) m s'"
proof (cases "tid \<in> T")
  case False
  have others: "g_phase s' t = g_phase s t" if "t \<noteq> tid" for t using race_step_phase [OF that] step by (metis snd_conv)
  have "bucket_of tid \<noteq> b" "\<And>t. t \<in> T \<Longrightarrow> g_phase s' t = g_phase s t"
    using T False others by metis+
  then show ?thesis using False r race_step_counter [of tid b s] step \<open>D \<subseteq> T\<close>
    by (auto simp: rising_def above_def)
next
  case True
  then have b: "bucket_of tid = b" using T by blast
  show ?thesis
  proof (cases "g_phase s tid")
    case Outside
    then have "out = None" "g_counters s' = g_counters s" "g_phase s' = (g_phase s)(tid := Loaded (g_counters s b))"
      using step b by (auto simp: race_step_def)
    then show ?thesis using r True \<open>D \<subseteq> T\<close> by (cases "D = {}") (auto simp: rising_def above_def)
  next
    case (Loaded v)
    then have low: "unat v + 1 < 20"
      using step b quiet True by (auto simp: race_step_def GUM_SAMPLE_RATE_def split: if_splits)
    then have "out = Some False" "g_counters s' b = v + 1" "g_phase s' = (g_phase s)(tid := Outside)"
      using step b Loaded by (auto simp: race_step_def GUM_SAMPLE_RATE_def)
    moreover have "unat (v + 1) = unat v + 1" using low by (simp add: unat_word_ariths)
    moreover have "m \<le> unat v" using r True Loaded by (auto simp: rising_def above_def)
    ultimately show ?thesis using r True low by (auto simp: rising_def above_def)
  next
    case Stored
    then show ?thesis using r True by (auto simp: rising_def above_def)
  qed
qed

lemma rising_run:
  assumes "rising b T D m s" "D \<subseteq> T" "sharing b T tids"
    and "\<forall>t \<in> T. \<not> sampled_by t tids s" "\<forall>t \<in> T. g_phase (snd (race_run tids s)) t \<noteq> Stored"
  shows "rising b T (D \<union> leavers tids s \<inter> T) m (snd (race_run tids s))"
  using assms
proof (induction tids arbitrary: s D)
  case (Cons tid tids)
  obtain out s' where step: "race_step tid s = (out, s')" by (metis prod.exhaust)
  have run: "race_run (tid # tids) s = (case out of None \<Rightarrow> fst (race_run tids s') | Some o' \<Rightarrow> (tid, o') # fst (race_run tids s'), snd (race_run tids s'))"
    by (simp add: step split_beta Let_def)
  have later: "\<forall>t \<in> T. \<not> sampled_by t tids s'" "\<forall>t \<in> T. g_phase (snd (race_run tids s')) t \<noteq> Stored"
    using Cons.prems(4,5) unfolding run by (auto split: option.splits)
  have quiet: "tid \<in> T \<longrightarrow> g_phase s' tid \<noteq> Stored" using stays_stored later by blast
  have out: "tid \<in> T \<longrightarrow> out \<noteq> Some True" using Cons.prems(4) unfolding run by auto
  let ?D = "if tid \<in> T \<and> out \<noteq> None then insert tid D else D"
  have T: "\<forall>t \<in> T. bucket_of t = b" "bucket_of tid = b \<longrightarrow> tid \<in> T" "sharing b T tids"
    using Cons.prems(3) by (auto simp: sharing_def)
  have "rising b T ?D m s'" by (rule rising_step [OF Cons.prems(1) T(1,2) Cons.prems(2) step quiet out])
  moreover have "?D \<subseteq> T" using Cons.prems(2) by auto
  ultimately have "rising b T (?D \<union> leavers tids s' \<inter> T) m (snd (race_run tids s'))"
    using Cons.IH T(3) later by blast
  moreover have "?D \<union> leavers tids s' \<inter> T = D \<union> leavers (tid # tids) s \<inter> T"
    unfolding run by (auto split: option.splits)
  ultimately show ?case unfolding run by simp
qed simp

lemma at_the_top:
  assumes "above b T 19 s" "T \<subseteq> leavers tids s" "T \<noteq> {}" "sharing b T tids"
  shows "\<exists>t \<in> T. sampled_by t tids s"
  using assms
proof (induction tids arbitrary: s)
  case (Cons tid tids)
  obtain out s' where step: "race_step tid s = (out, s')" by (metis prod.exhaust)
  have run: "fst (race_run (tid # tids) s) = (case out of None \<Rightarrow> fst (race_run tids s') | Some o' \<Rightarrow> (tid, o') # fst (race_run tids s'))"
    by (simp add: step split_beta Let_def)
  have T: "\<forall>t \<in> T. bucket_of t = b" "bucket_of tid = b \<longrightarrow> tid \<in> T" "sharing b T tids"
    using Cons.prems(4) by (auto simp: sharing_def)
  consider (other) "tid \<notin> T" | (load) "tid \<in> T" "g_phase s tid = Outside" | (store) v where "tid \<in> T" "g_phase s tid = Loaded v"
    using Cons.prems(1) by (cases "tid \<in> T"; cases "g_phase s tid") (auto simp: above_def dest!: bspec [of T _ tid])
  then show ?case
  proof cases
    case other
    then have "bucket_of tid \<noteq> b" using T(2) by blast
    then have "above b T 19 s'" using Cons.prems(1) other step race_step_counter [of tid b s] race_step_phase [of _ tid s]
      by (auto simp: above_def) (metis snd_conv)
    moreover have "T \<subseteq> leavers tids s'" using Cons.prems(2) other unfolding run by (auto split: option.splits)
    ultimately show ?thesis using Cons.IH Cons.prems(3) T(3) unfolding run by (fastforce split: option.splits)
  next
    case load
    then have "out = None" "above b T 19 s'"
      using Cons.prems(1) step T(1) by (auto simp: race_step_def above_def)
    then show ?thesis using Cons.IH [of s'] Cons.prems(2,3) T(3) unfolding run by simp
  next
    case store
    then have "19 \<le> unat v" using Cons.prems(1) by (auto simp: above_def dest!: bspec [of T _ tid])
    then have "out = None" "g_phase s' tid = Stored"
      using store step by (auto simp: race_step_def GUM_SAMPLE_RATE_def)
    then have "tid \<in> leavers tids s'" using Cons.prems(2) store unfolding run by auto
    then show ?thesis using stays_stored [of s' tid tids] \<open>g_phase s' tid = Stored\<close> \<open>out = None\<close> store unfolding run by auto
  qed
qed auto

text \<open>Rounds of a schedule in each of which every thread that shares the bucket leaves the guard.\<close>

fun all_leave :: "guint64 set \<Rightarrow> guint64 list list \<Rightarrow> guards \<Rightarrow> bool" where
  "all_leave T [] s \<longleftrightarrow> True"
| "all_leave T (tids # rounds) s \<longleftrightarrow> T \<subseteq> leavers tids s \<and> all_leave T rounds (snd (race_run tids s))"

lemma rounds_sample:
  assumes "above b T m s" "m \<le> 19" "20 \<le> m + length rounds" "all_leave T rounds s" "T \<noteq> {}" "\<forall>tids \<in> set rounds. sharing b T tids"
  shows "\<exists>t \<in> T. sampled_by t (concat rounds) s"
  using assms
proof (induction rounds arbitrary: m s)
  case (Cons tids rounds)
  let ?s = "snd (race_run tids s)"
  have run: "fst (race_run (concat (tids # rounds)) s) = fst (race_run tids s) @ fst (race_run (concat rounds) ?s)"
    by (simp add: race_run_append)
  show ?case
  proof (cases "\<exists>t \<in> T. sampled_by t tids s")
    case True
    then show ?thesis unfolding run by auto
  next
    case False
    then have m: "m < 19" using at_the_top [of b T s tids] Cons.prems by (cases "m = 19") auto
    then obtain next_tids rest where rounds: "rounds = next_tids # rest" using Cons.prems(3) by (cases rounds) auto
    show ?thesis
    proof (cases "\<exists>t \<in> T. g_phase ?s t = Stored")
      case True
      then obtain t where t: "t \<in> T" "g_phase ?s t = Stored" by blast
      moreover have "t \<in> leavers next_tids ?s" using Cons.prems(4) t(1) rounds by auto
      ultimately have "sampled_by t next_tids ?s" using stays_stored by blast
      then show ?thesis using t(1) unfolding run by (auto simp: rounds race_run_append)
    next
      case False
      have "rising b T {} m s" using Cons.prems(1) by (simp add: rising_def)
      from rising_run [OF this _ _ _ ] False \<open>\<not> (\<exists>t \<in> T. sampled_by t tids s)\<close> Cons.prems(6)
      have "rising b T (leavers tids s \<inter> T) m ?s" by fastforce
      moreover have "leavers tids s \<inter> T = T" using Cons.prems(4) by auto
      ultimately have "above b T (Suc m) ?s" using Cons.prems(5) by (auto simp: rising_def above_def)
      then have "\<exists>t \<in> T. sampled_by t (concat rounds) ?s" using Cons.IH [of "Suc m" ?s] Cons.prems m by simp
      then show ?thesis unfolding run by auto
    qed
  qed
qed auto

section \<open>Properties\<close>

text \<open>
  C13: Sampling of threads with buckets of their own. When no two threads of a schedule share a bucket, then in every
  interleaving of their accesses the calls are sampled as if each had run through the guard alone, in
  the order in which they leave it.
\<close>

theorem own_buckets_are_independent:
  assumes "own_buckets tids"
  shows "map snd (fst (race_run tids (at_start counters))) =
    fst (guard_run counters (map fst (fst (race_run tids (at_start counters)))))"
proof -
  have "settled_counters (set tids) (at_start counters) counters" by (simp add: settled_counters_def at_start_def)
  from race_run_settled [OF assms this] show ?thesis by simp
qed

theorem own_buckets_are_independent_witness:
  "fst (race_run [3, 4, 3, 3, 4, 4, 3, 3] (at_start (\<lambda>_. 18))) = [(3, False), (4, False), (3, True)]"
proof -
  let ?tids = "[3, 4, 3, 3, 4, 4, 3, 3]"
  have "own_buckets ?tids" by (simp add: own_buckets_def bucket_of_def)
  note indep = own_buckets_are_independent [OF this, of "\<lambda>_. 18"]
  have order: "map fst (fst (race_run ?tids (at_start (\<lambda>_. 18)))) = [3, 4, 3]" by code_simp
  have "map snd (fst (race_run ?tids (at_start (\<lambda>_. 18)))) = [False, False, True]"
    unfolding indep order by code_simp
  with order show ?thesis using zip_map_fst_snd [of "fst (race_run ?tids (at_start (\<lambda>_. 18)))"] by simp
qed

text \<open>
  C14: Threads that share a bucket are not starved. Whatever the interleaving of their accesses, whatever the counter
  and wherever they are at first: in any 20 rounds in each of which every one of them leaves the
  guard at least once, a call of one of them is sampled.
\<close>

theorem sharing_threads_are_sampled:
  assumes "T \<noteq> {}" and "\<forall>tids \<in> set rounds. sharing b T tids" and "length rounds = 20" and "all_leave T rounds s"
  shows "\<exists>t \<in> T. (t, True) \<in> set (fst (race_run (concat rounds) s))"
proof (cases "\<exists>t \<in> T. g_phase s t = Stored")
  case True
  then obtain t where t: "t \<in> T" "g_phase s t = Stored" by blast
  obtain tids rest where rounds: "rounds = tids # rest" using assms(3) by (cases rounds) auto
  then have "t \<in> leavers tids s" using assms(4) t(1) by auto
  then have "sampled_by t tids s" using stays_stored t(2) by blast
  then show ?thesis using t(1) by (auto simp: rounds race_run_append)
next
  case False
  have "holds 0 (g_phase s t)" if "t \<in> T" for t using False that by (cases "g_phase s t") auto
  then have "above b T 0 s" by (simp add: above_def)
  then show ?thesis using rounds_sample assms by simp
qed

definition close_race :: "guint64 list list" where
  "close_race = replicate 19 [1, 65, 1, 65] @ [[1, 65, 1, 65, 1, 65]]"

theorem sharing_threads_are_sampled_witness:
  "\<exists>t \<in> {1, 65}. (t, True) \<in> set (fst (race_run (concat close_race) (at_start (\<lambda>_. 0))))"
proof -
  have "\<forall>tids \<in> set close_race. sharing 1 {1, 65} tids" by (simp add: close_race_def sharing_def bucket_of_def)
  moreover have "all_leave {1, 65} close_race (at_start (\<lambda>_. 0))" by code_simp
  ultimately show ?thesis
    by (intro sharing_threads_are_sampled) (simp_all add: close_race_def)
qed

text \<open>
  Two threads in one bucket can defeat the guard. There is a schedule, from the counter at which the next call is
  due, in which fifty calls of each of two threads whose identifiers differ by 64 are all sampled: the
  reset of the one falls between the load and the store of the other.
\<close>

definition lockstep :: "guint64 list" where
  "lockstep = [1, 1] @ concat (replicate 50 [65, 1, 65, 1, 65, 1])"

theorem sharing_threads_all_sampled:
  "fst (race_run lockstep (at_start (\<lambda>_. 19))) = concat (replicate 50 [(1, True), (65, True)])"
  by code_simp

end
