(* ===== verification/Gum_Sampling_Smp.thy ===== *)
theory Gum_Sampling_Smp
  imports Gum_Sampling_Race
begin

text \<open>
  The emitted guard on a machine with many threads, which execute it one instruction at a time in any order over one
  memory, while the rest of the program runs too. Every run of that machine is a run of the accesses of
  \<^verbatim>\<open>Gum_Sampling_Race\<close>.
\<close>

section \<open>One thread, one instruction\<close>

text \<open>
  A place of the guard: the address of \<^verbatim>\<open>on_enter_trampoline\<close>, the enter thunk, the length of the code between the
  guard and \<^verbatim>\<open>on_invoke_trampoline\<close>, and the context.
\<close>

record guard_place =
  gp_at :: gpointer
  gp_enter :: GumAddress
  gp_gap :: nat
  gp_ctx :: gpointer

definition skipped :: "guint8 \<Rightarrow> bool" where
  "skipped v \<longleftrightarrow> unat v + 1 < 20"

text \<open>How many registers are restored before instruction \<open>j\<close> of the seventeen, on the path for the loaded value \<open>v\<close>.\<close>

definition pops :: "guint8 \<Rightarrow> nat \<Rightarrow> nat" where
  "pops v j = (if skipped v then j - 12 else j - 13)"

definition guard_offset :: "guard_place \<Rightarrow> guint8 \<Rightarrow> nat \<Rightarrow> nat" where
  "guard_offset g v j =
     (if j \<le> 11 then [0, 6, 7, 8, 9, 14, 23, 30, 34, 36, 39, 46] ! j
      else if skipped v then 55 + length (jmp_bytes (gp_at g + 55) (gp_enter g)) + [0, 1, 2, 3, 7] ! (j - 12)
      else [48, 52, 53, 54, 55] ! (j - 12))"

definition guard_regs :: "(nat \<Rightarrow> guint64) \<Rightarrow> guard_place \<Rightarrow> guint64 \<Rightarrow> guint8 \<Rightarrow> nat \<Rightarrow> nat \<Rightarrow> guint64" where
  "guard_regs R g tid v j =
     R(RSP := R RSP - of_nat (8 * (min j 4 - pops v j)),
       RAX := (if 5 \<le> j \<and> pops v j < 3 then gp_ctx g else R RAX),
       RDX := (if pops v j \<ge> 1 \<or> j < 6 then R RDX else if j = 6 then tid else bucket_of tid),
       RCX := (if pops v j \<ge> 2 \<or> j < 8 then R RCX else if j = 8 then ucast v else ucast v + 1))"

text \<open>What a thread before instruction \<open>j\<close> relies on in memory: the code, its identifier, its frame.\<close>

definition frame_holds :: "(nat \<Rightarrow> guint64) \<Rightarrow> guard_place \<Rightarrow> nat \<Rightarrow> memory \<Rightarrow> bool" where
  "frame_holds R g j m \<longleftrightarrow>
     (1 \<le> j \<longrightarrow> mem_read W64 m (R RSP - 8) = gp_ctx g) \<and> (2 \<le> j \<longrightarrow> mem_read W64 m (R RSP - 16) = R RAX) \<and>
     (3 \<le> j \<longrightarrow> mem_read W64 m (R RSP - 24) = R RCX) \<and> (4 \<le> j \<longrightarrow> mem_read W64 m (R RSP - 32) = R RDX)"

definition code_holds :: "guard_place \<Rightarrow> memory \<Rightarrow> bool" where
  "code_holds g m \<longleftrightarrow> mem_read W64 m (gp_at g - 8) = gp_ctx g \<and> code_at m (gp_at g) (enter_code (gp_at g) (gp_enter g) (gp_gap g))"

definition guard_at :: "guard_place \<Rightarrow> guint64 \<Rightarrow> (nat \<Rightarrow> guint64) \<Rightarrow> guint8 \<Rightarrow> nat \<Rightarrow> x86_state \<Rightarrow> bool" where
  "guard_at g tid R v j s \<longleftrightarrow> s_reg s = guard_regs R g tid v j \<and> s_rip s = gp_at g + of_nat (guard_offset g v j) \<and>
     (j = 11 \<longrightarrow> (condition 12 (s_flags s) \<longleftrightarrow> skipped v))"

text \<open>What instruction \<open>j\<close> writes.\<close>

definition guard_writes :: "guard_place \<Rightarrow> guint64 \<Rightarrow> (nat \<Rightarrow> guint64) \<Rightarrow> guint8 \<Rightarrow> nat \<Rightarrow> memory \<Rightarrow> memory" where
  "guard_writes g tid R v j m =
     (if j = 0 then mem_write W64 m (R RSP - 8) (gp_ctx g)
      else if j = 1 then mem_write W64 m (R RSP - 16) (R RAX)
      else if j = 2 then mem_write W64 m (R RSP - 24) (R RCX)
      else if j = 3 then mem_write W64 m (R RSP - 32) (R RDX)
      else if j = 9 then m(gp_ctx g + bucket_of tid := v + 1)
      else if j = 12 \<and> \<not> skipped v then m(gp_ctx g + bucket_of tid := 0)
      else m)"

lemma block_insn:
  assumes "well_encoded p" "j < length p" "code_at (s_mem s) a (code p)" "s_rip s = a + of_nat (length (code (take j p)))"
  shows "x86_step s = exec (snd (p ! j)) (advance (fst (p ! j)) s)"
proof -
  obtain bs i where bi: "p ! j = (bs, i)" by (cases "p ! j")
  have "p = take j p @ (bs, i) # drop (Suc j) p" using assms(2) bi by (metis id_take_nth_drop)
  then have "code p = code (take j p) @ bs @ code (drop (Suc j) p)" by (metis code_def concat.simps(2) concat_append fst_conv list.simps(9) map_append)
  then have "code_at (s_mem s) (s_rip s) bs" using assms(3,4) by (simp add: code_at_append)
  moreover have "length bs \<le> 15" "\<And>rest. decode (bs @ rest) = Some (i, length bs)"
    using assms(1,2) bi by (auto simp: well_encoded_def list_all_length)
  ultimately show ?thesis using x86_step_code [of s bs i] by (simp add: bi advance_def)
qed

lemma prefix_offsets: "j \<le> 11 \<Longrightarrow> length (code (take j enter_prefix)) = guard_offset g v j"
  by (auto simp: guard_offset_def enter_prefix_def code_def le_Suc_eq eval_nat_numeral)

lemma pops_early: "j \<le> 12 \<Longrightarrow> pops v j = 0"
  by (simp add: pops_def)

lemma guard_at_early: "j \<le> 7 \<Longrightarrow> guard_at g tid R v j s \<longleftrightarrow> guard_at g tid R v' j s"
  by (simp add: guard_at_def guard_regs_def guard_offset_def pops_def)

definition relies :: "guard_place \<Rightarrow> guint64 \<Rightarrow> (nat \<Rightarrow> guint64) \<Rightarrow> nat \<Rightarrow> x86_state \<Rightarrow> bool" where
  "relies g tid R j s \<longleftrightarrow> code_holds g (s_mem s) \<and> frame_holds R g j (s_mem s) \<and> mem_read W64 (s_mem s) (s_fs_base s + 0x2d0) = tid"

definition guard_moves :: "guard_place \<Rightarrow> guint64 \<Rightarrow> (nat \<Rightarrow> guint64) \<Rightarrow> guint8 \<Rightarrow> nat \<Rightarrow> x86_state \<Rightarrow> x86_state \<Rightarrow> bool" where
  "guard_moves g tid R v j s s' \<longleftrightarrow> guard_at g tid R v (Suc j) s' \<and> s_mem s' = guard_writes g tid R v j (s_mem s) \<and> s_fs_base s' = s_fs_base s"

lemma prefix_step:
  assumes "guard_at g tid R v j s" "j < 11" "relies g tid R j s"
  shows "x86_step s = exec (snd (enter_prefix ! j)) (advance (fst (enter_prefix ! j)) s)"
proof (rule block_insn)
  show "code_at (s_mem s) (gp_at g) (code enter_prefix)"
    using assms(3) enter_code_parts(1) unfolding relies_def code_holds_def by blast
  show "s_rip s = gp_at g + of_nat (length (code (take j enter_prefix)))"
    using assms(1,2) prefix_offsets [of j g v] by (simp add: guard_at_def)
qed (use assms(2) in \<open>simp_all add: guard_blocks_well_encoded guard_block_sizes\<close>)

lemmas guard_move_simps = guard_moves_def guard_at_def guard_regs_def guard_offset_def guard_writes_def run_simps trunc_byte
  Let_def mem_read_def [of W8] mem_write_def [of W8] ucast_byte_inc

lemma prefix_pushes:
  assumes "guard_at g tid R v j s" "j < 4" "relies g tid R j s"
  shows "\<exists>s'. x86_step s = Some s' \<and> guard_moves g tid R v j s s'"
proof -
  have "mem_read W64 (s_mem s) (gp_at g - 8) = gp_ctx g" using assms(3) by (simp add: relies_def code_holds_def)
  moreover consider "j = 0" | "j = 1" | "j = 2" | "j = 3" using assms(2) by linarith
  then show ?thesis using assms(1) calculation
    by cases (auto simp: pops_early prefix_step [OF assms(1) _ assms(3)] enter_prefix_def guard_move_simps fun_eq_iff)
qed

lemma prefix_loads:
  assumes "guard_at g tid R v j s" "4 \<le> j" "j < 9" "relies g tid R j s" "j = 7 \<longrightarrow> v = s_mem s (gp_ctx g + bucket_of tid)"
  shows "\<exists>s'. x86_step s = Some s' \<and> guard_moves g tid R v j s s'"
proof -
  have reads: "mem_read W64 (s_mem s) (R RSP - 8) = gp_ctx g" "mem_read W64 (s_mem s) (s_fs_base s + 0x2d0) = tid"
    using assms(2,4) by (simp_all add: relies_def frame_holds_def)
  consider "j = 4" | "j = 5" | "j = 6" | "j = 7" | "j = 8" using assms(2,3) by linarith
  then show ?thesis using assms(1,5) reads
    by cases (auto simp: pops_early prefix_step [OF assms(1) _ assms(4)] enter_prefix_def guard_move_simps fun_eq_iff bucket_of_def
        exec_alu_def alu_result_def logic_with_def set_flags_def add_with_def)
qed

lemma prefix_store:
  assumes "guard_at g tid R v j s" "9 \<le> j" "j < 11" "relies g tid R j s"
  shows "\<exists>s'. x86_step s = Some s' \<and> guard_moves g tid R v j s s'"
proof -
  have "unat v < 256" using unsigned_less [of v, where 'a = nat] by simp
  then have c: "condition 12 (put_flags (snd (sub_with W64 (ucast v + 1) 20 False)) f) \<longleftrightarrow> skipped v" for f
    by (subst cmp_less_condition) (simp_all add: unat_byte_inc skipped_def word_less_nat_alt)
  consider "j = 9" | "j = 10" using assms(2,3) by linarith
  then show ?thesis using assms(1)
    by cases (auto simp: pops_early prefix_step [OF assms(1) _ assms(4)] enter_prefix_def guard_move_simps fun_eq_iff bucket_of_def c split_beta
        exec_alu_def alu_result_def set_flags_def)
qed

lemma branch_step:
  assumes "guard_at g tid R v 11 s" "relies g tid R 11 s"
  shows "\<exists>s'. x86_step s = Some s' \<and> guard_moves g tid R v 11 s s'"
proof -
  let ?n = "length (jmp_bytes (gp_at g + 55) (gp_enter g))"
  have code: "code_at (s_mem s) (gp_at g + 46) [0x7c, of_nat (7 + ?n)]"
    using assms(2) enter_code_parts(2) unfolding relies_def code_holds_def by blast
  have rip: "s_rip s = gp_at g + 46" using assms(1) by (simp add: guard_at_def guard_offset_def)
  have "x86_step s = exec (Jcc 12 (scast (of_nat (7 + ?n) :: guint8))) (s\<lparr>s_rip := s_rip s + 2\<rparr>)"
    using x86_step_code [OF _ _ decode_jl, of s] code rip by simp
  then have step: "x86_step s = exec (Jcc 12 (of_nat (7 + ?n))) (s\<lparr>s_rip := s_rip s + 2\<rparr>)" by (simp only: jl_distance)
  have cond: "condition 12 (s_flags s) \<longleftrightarrow> skipped v" using assms(1) by (simp add: guard_at_def)
  define s' where "s' = s\<lparr>s_rip := gp_at g + of_nat (guard_offset g v 12)\<rparr>"
  have "x86_step s = Some s'"
    using cond by (simp add: step s'_def rip guard_offset_def add.assoc)
  moreover have "guard_regs R g tid v 12 = guard_regs R g tid v 11" by (simp add: guard_regs_def pops_early)
  then have "guard_moves g tid R v 11 s s'"
    using assms(1) by (simp add: guard_moves_def guard_at_def guard_writes_def s'_def)
  ultimately show ?thesis by blast
qed

text \<open>The path of a sampled call.\<close>

definition sampled_path :: block where
  "sampled_path = reset_counter @ restore_registers"

definition skipped_path :: block where
  "skipped_path = restore_registers @ drop_context"

lemma sampled_insn:
  assumes "guard_at g tid R v j s" "12 \<le> j" "j < 16" "relies g tid R j s" "\<not> skipped v"
  shows "x86_step s = exec (snd (sampled_path ! (j - 12))) (advance (fst (sampled_path ! (j - 12))) s)"
proof (rule block_insn)
  show "code_at (s_mem s) (gp_at g + 48) (code sampled_path)"
    using assms(4) enter_code_parts(3) unfolding relies_def code_holds_def sampled_path_def by blast
  consider "j = 12" | "j = 13" | "j = 14" | "j = 15" using assms(2,3) by linarith
  then show "s_rip s = gp_at g + 48 + of_nat (length (code (take (j - 12) sampled_path)))"
    using assms(1,5) by cases (simp_all add: guard_at_def guard_offset_def sampled_path_def guard_block_defs code_def)
qed (use assms(3) in \<open>simp_all add: guard_blocks_well_encoded guard_block_sizes [unfolded length_append] sampled_path_def\<close>)

lemma skipped_insn:
  assumes "guard_at g tid R v j s" "12 \<le> j" "j < 16" "relies g tid R j s" "skipped v"
  shows "x86_step s = exec (snd (skipped_path ! (j - 12))) (advance (fst (skipped_path ! (j - 12))) s)"
proof (rule block_insn)
  let ?n = "length (jmp_bytes (gp_at g + 55) (gp_enter g))"
  show "code_at (s_mem s) (gp_at g + 55 + of_nat ?n) (code skipped_path)"
    using assms(4) enter_code_parts(5) unfolding relies_def code_holds_def skipped_path_def by blast
  consider "j = 12" | "j = 13" | "j = 14" | "j = 15" using assms(2,3) by linarith
  then show "s_rip s = gp_at g + 55 + of_nat ?n + of_nat (length (code (take (j - 12) skipped_path)))"
    using assms(1,5) by cases (simp_all add: guard_at_def guard_offset_def skipped_path_def guard_block_defs code_def)
qed (use assms(3) in \<open>simp_all add: guard_blocks_well_encoded guard_block_sizes [unfolded length_append] skipped_path_def\<close>)

lemma path_step:
  assumes "guard_at g tid R v j s" "12 \<le> j" "j < 16" "relies g tid R j s"
  shows "\<exists>s'. x86_step s = Some s' \<and> guard_moves g tid R v j s s'"
proof -
  have fr: "mem_read W64 (s_mem s) (R RSP - 8) = gp_ctx g" "mem_read W64 (s_mem s) (R RSP - 16) = R RAX"
      "mem_read W64 (s_mem s) (R RSP - 24) = R RCX" "mem_read W64 (s_mem s) (R RSP - 32) = R RDX"
    using assms(2,4) by (simp_all add: relies_def frame_holds_def)
  have j: "j = 12 \<or> j = 13 \<or> j = 14 \<or> j = 15" using assms(2,3) by linarith
  show ?thesis
  proof (cases "skipped v")
    case True
    then show ?thesis using j assms(1) fr
      by (elim disjE) (auto simp: skipped_insn [OF assms(1) _ _ assms(4)] skipped_path_def guard_block_defs guard_move_simps pops_def
          fun_eq_iff exec_alu_def alu_result_def set_flags_def add_with_def)
  next
    case False
    then show ?thesis using j assms(1) fr
      by (elim disjE) (auto simp: sampled_insn [OF assms(1) _ _ assms(4)] sampled_path_def guard_block_defs guard_move_simps pops_def
          fun_eq_iff)
  qed
qed

definition gp_invoke :: "guard_place \<Rightarrow> gpointer" where
  "gp_invoke g = gp_at g + of_nat (enter_code_length (gp_at g) (gp_enter g) + gp_gap g)"

lemma last_step:
  assumes "guard_at g tid R v 16 s" "relies g tid R 16 s" "gp_gap g < 2 ^ 31"
  shows "x86_step s = Some (s\<lparr>s_rip := if skipped v then gp_invoke g else gp_enter g\<rparr>)"
proof (cases "skipped v")
  case True
  let ?n = "length (jmp_bytes (gp_at g + 55) (gp_enter g))"
  have "code_at (s_mem s) (gp_at g + 62 + of_nat ?n) (0xe9 # le32 (of_nat (gp_gap g)))"
    using assms(2) enter_code_parts(6) unfolding relies_def code_holds_def by blast
  moreover have rip: "s_rip s = gp_at g + 62 + of_nat ?n" using assms(1) True by (simp add: guard_at_def guard_offset_def ac_simps)
  ultimately have "x86_step s = exec (Jmp (scast (of_nat (gp_gap g) :: guint32))) (s\<lparr>s_rip := s_rip s + 5\<rparr>)"
    using x86_step_code [of s "0xe9 # le32 (of_nat (gp_gap g))"] by (simp add: decode_jmp)
  then show ?thesis using True assms(3)
    by (simp add: rip scast_of_nat_small gp_invoke_def enter_code_length_def ac_simps)
next
  case False
  have "code_at (s_mem s) (gp_at g + 55) (jmp_bytes (gp_at g + 55) (gp_enter g))"
    using assms(2) enter_code_parts(4) unfolding relies_def code_holds_def by blast
  moreover have rip: "s_rip s = gp_at g + 55" using assms(1) False by (simp add: guard_at_def guard_offset_def)
  ultimately show ?thesis using jmp_bytes_step [of s "gp_enter g"] False by simp
qed

text \<open>Any instruction of the guard but the last.\<close>

lemma guard_step_moves:
  assumes "guard_at g tid R v j s" "j < 16" "relies g tid R j s" "j = 7 \<longrightarrow> v = s_mem s (gp_ctx g + bucket_of tid)"
  shows "\<exists>s'. x86_step s = Some s' \<and> guard_moves g tid R v j s s'"
proof -
  consider "j < 4" | "4 \<le> j" "j < 9" | "9 \<le> j" "j < 11" | "j = 11" | "12 \<le> j" using assms(2) by linarith
  then show ?thesis
  proof cases
    case 1
    then show ?thesis using prefix_pushes [OF assms(1) _ assms(3)] by blast
  next
    case 2
    then show ?thesis using prefix_loads [OF assms(1) _ _ assms(3,4)] by blast
  next
    case 3
    then show ?thesis using prefix_store [OF assms(1) _ _ assms(3)] by blast
  next
    case 4
    then show ?thesis using branch_step assms(1,3) by simp
  next
    case 5
    then show ?thesis using path_step [OF assms(1) _ assms(2,3)] by blast
  qed
qed

section \<open>Many threads\<close>

text \<open>
  The shared memory, for every thread in the guard the state in which it entered and its present state,
  and for those that left, in order, the state in which they entered and the one in which they left.
\<close>

record smp =
  sm_mem :: memory
  sm_cpu :: "guint64 \<rightharpoonup> x86_state \<times> x86_state"
  sm_log :: "(guint64 \<times> x86_state \<times> x86_state) list"

definition code_length :: "guard_place \<Rightarrow> nat" where
  "code_length g = enter_code_length (gp_at g) (gp_enter g)"

definition frame_of :: "x86_state \<Rightarrow> gpointer" where
  "frame_of e = s_reg e RSP - 32"

definition tcb_of :: "x86_state \<Rightarrow> gpointer" where
  "tcb_of e = s_fs_base e + 0x2d0"

text \<open>The memory that the guard uses: its code and counters, and the frames and identifiers of the threads inside.\<close>

definition guarded :: "guard_place \<Rightarrow> smp \<Rightarrow> gpointer \<Rightarrow> bool" where
  "guarded g S x \<longleftrightarrow> in_range x (gp_at g - 8) (8 + code_length g) \<or> in_range x (gp_ctx g) 64 \<or>
     (\<exists>t e s. sm_cpu S t = Some (e, s) \<and> (in_range x (frame_of e) 32 \<or> in_range x (tcb_of e) 8))"

definition separate :: "guard_place \<Rightarrow> (guint64 \<rightharpoonup> x86_state \<times> x86_state) \<Rightarrow> bool" where
  "separate g cpus \<longleftrightarrow>
     (\<forall>t e s. cpus t = Some (e, s) \<longrightarrow>
        disjoint_ranges (gp_at g - 8) (8 + code_length g) (frame_of e) 32 \<and> disjoint_ranges (gp_ctx g) 64 (frame_of e) 32 \<and>
        disjoint_ranges (tcb_of e) 8 (gp_ctx g) 64) \<and>
     (\<forall>t e s u e' s'. cpus t = Some (e, s) \<longrightarrow> cpus u = Some (e', s') \<longrightarrow>
        disjoint_ranges (tcb_of e) 8 (frame_of e') 32 \<and> (t \<noteq> u \<longrightarrow> disjoint_ranges (frame_of e) 32 (frame_of e') 32))"

definition well_placed :: "guard_place \<Rightarrow> bool" where
  "well_placed g \<longleftrightarrow> disjoint_ranges (gp_at g - 8) (8 + code_length g) (gp_ctx g) 64 \<and> gp_gap g < 2 ^ 31 \<and> gp_enter g \<noteq> gp_invoke g \<and>
     \<not> in_range (gp_enter g) (gp_at g) (code_length g) \<and> \<not> in_range (gp_invoke g) (gp_at g) (code_length g)"

text \<open>
  A thread arrives at the trampoline; executes an instruction of the guard, after which it is still in the
  guard or has left it; or code elsewhere changes memory that the guard does not use.
\<close>

inductive smp_step :: "guard_place \<Rightarrow> smp \<Rightarrow> smp \<Rightarrow> bool" for g :: guard_place where
  arrives: "smp_step g S (S\<lparr>sm_cpu := (sm_cpu S)(t \<mapsto> (e, e))\<rparr>)"
    if "sm_cpu S t = None" "s_rip e = gp_at g" "mem_read W64 (sm_mem S) (tcb_of e) = t" "separate g ((sm_cpu S)(t \<mapsto> (e, e)))"
| runs: "smp_step g S (S\<lparr>sm_mem := s_mem s', sm_cpu := (sm_cpu S)(t \<mapsto> (e, s'))\<rparr>)"
    if "sm_cpu S t = Some (e, s)" "x86_step (s\<lparr>s_mem := sm_mem S\<rparr>) = Some s'" "in_range (s_rip s') (gp_at g) (code_length g)"
| leaves: "smp_step g S (S\<lparr>sm_mem := s_mem s', sm_cpu := (sm_cpu S)(t := None), sm_log := sm_log S @ [(t, e, s')]\<rparr>)"
    if "sm_cpu S t = Some (e, s)" "x86_step (s\<lparr>s_mem := sm_mem S\<rparr>) = Some s'" "\<not> in_range (s_rip s') (gp_at g) (code_length g)"
| elsewhere: "smp_step g S (S\<lparr>sm_mem := m\<rparr>)"
    if "\<forall>x. guarded g S x \<longrightarrow> m x = sm_mem S x"

definition smp_start :: "guard_place \<Rightarrow> memory \<Rightarrow> smp" where
  "smp_start g m = \<lparr>sm_mem = m, sm_cpu = Map.empty, sm_log = []\<rparr>"

text \<open>The outcomes of the calls of a thread, in the log and in a run of accesses.\<close>

definition outcomes_of :: "guint64 \<Rightarrow> (guint64 \<times> bool) list \<Rightarrow> bool list" where
  "outcomes_of t outs = map snd (filter (\<lambda>(u, _). u = t) outs)"

definition outcomes :: "guard_place \<Rightarrow> smp \<Rightarrow> (guint64 \<times> bool) list" where
  "outcomes g S = map (\<lambda>(t, e, s). (t, s_rip s = gp_enter g)) (sm_log S)"

definition phase_at :: "guint8 \<Rightarrow> nat \<Rightarrow> phase" where
  "phase_at v j = (if j \<le> 7 then Outside else if j \<le> 9 then Loaded v else if skipped v then Outside else if j \<le> 12 then Stored else Outside)"

definition decided :: "guint8 \<Rightarrow> nat \<Rightarrow> bool list" where
  "decided v j = (if j \<le> 9 then [] else if skipped v then [False] else if j \<le> 12 then [] else [True])"

text \<open>A thread in the guard, and a run of accesses that has come as far as it has.\<close>

definition thread_at :: "guard_place \<Rightarrow> smp \<Rightarrow> guards \<Rightarrow> (guint64 \<times> bool) list \<Rightarrow> guint64 \<Rightarrow> x86_state \<Rightarrow> x86_state \<Rightarrow> guint8 \<Rightarrow> nat \<Rightarrow> bool" where
  "thread_at g S gs outs t e s v j \<longleftrightarrow> j \<le> 16 \<and> guard_at g t (s_reg e) v j s \<and> s_fs_base s = s_fs_base e \<and>
     frame_holds (s_reg e) g j (sm_mem S) \<and> mem_read W64 (sm_mem S) (tcb_of e) = t \<and>
     g_phase gs t = phase_at v j \<and> outcomes_of t outs = outcomes_of t (outcomes g S) @ decided v j"

definition simulates :: "guard_place \<Rightarrow> smp \<Rightarrow> guards \<Rightarrow> (guint64 \<times> bool) list \<Rightarrow> bool" where
  "simulates g S gs outs \<longleftrightarrow>
     code_holds g (sm_mem S) \<and> separate g (sm_cpu S) \<and>
     (\<forall>t. g_counters gs (bucket_of t) = sm_mem S (gp_ctx g + bucket_of t)) \<and>
     (\<forall>t. sm_cpu S t = None \<longrightarrow> g_phase gs t = Outside \<and> outcomes_of t outs = outcomes_of t (outcomes g S)) \<and>
     (\<forall>t e s. sm_cpu S t = Some (e, s) \<longrightarrow> (\<exists>v j. thread_at g S gs outs t e s v j))"

lemma disjoint_in_range: "disjoint_ranges a n b k \<Longrightarrow> in_range y a n \<Longrightarrow> \<not> in_range y b k"
proof -
  assume d: "disjoint_ranges a n b k" and y: "in_range y a n"
  then have "\<not> in_range (a + of_nat (unat (y - a))) b k" by (intro disjoint_not_in_range) (simp_all add: in_range_def)
  then show ?thesis by simp
qed

lemma mem_read_agree:
  assumes "agree W m m'" "\<forall>y. in_range y a 8 \<longrightarrow> \<not> W y"
  shows "mem_read W64 m' a = mem_read W64 m a"
proof -
  have "read_bytes m' a 8 = read_bytes m a 8"
    using assms by (intro read_bytes_cong) (simp add: agree_def in_range_def unat_of_nat)
  then show ?thesis by (simp add: mem_read_def)
qed

lemma frame_holds_agree:
  assumes "agree W m m'" "\<forall>y. in_range y (R RSP - 32) 32 \<longrightarrow> \<not> W y"
  shows "frame_holds R g j m' \<longleftrightarrow> frame_holds R g j m"
proof -
  have "mem_read W64 m' (R RSP - 8) = mem_read W64 m (R RSP - 8)" "mem_read W64 m' (R RSP - 16) = mem_read W64 m (R RSP - 16)"
    "mem_read W64 m' (R RSP - 24) = mem_read W64 m (R RSP - 24)" "mem_read W64 m' (R RSP - 32) = mem_read W64 m (R RSP - 32)"
    using assms(2) in_frame_part [of _ "R RSP"] by (blast intro: mem_read_agree [OF assms(1)])+
  then show ?thesis by (simp add: frame_holds_def)
qed

lemma code_holds_agree:
  assumes "agree W m m'" "\<forall>y. in_range y (gp_at g - 8) (8 + code_length g) \<longrightarrow> \<not> W y" "code_length g < 2 ^ 32"
  shows "code_holds g m \<Longrightarrow> code_holds g m'"
proof -
  assume c: "code_holds g m"
  have "\<forall>y. in_range y (gp_at g - 8) 8 \<longrightarrow> \<not> W y" using assms(2) by (auto simp: in_range_def)
  then have "mem_read W64 m' (gp_at g - 8) = gp_ctx g" using mem_read_agree [OF assms(1)] c by (simp add: code_holds_def)
  moreover have "\<not> W (gp_at g + of_nat i)" if "i < code_length g" for i
  proof -
    have "gp_at g + of_nat i - (gp_at g - 8) = of_nat (8 + i)" by simp
    then have "unat (gp_at g + of_nat i - (gp_at g - 8)) = 8 + i" using that assms(3) by (simp only: unat_of_nat) (simp add: take_bit_nat_eq_self)
    then show ?thesis using assms(2) that by (simp add: in_range_def)
  qed
  then have "code_at m' (gp_at g) (enter_code (gp_at g) (gp_enter g) (gp_gap g))"
    using c by (intro code_at_agree [OF _ assms(1)]) (simp_all add: code_holds_def length_enter_code code_length_def)
  ultimately show ?thesis by (simp add: code_holds_def)
qed

lemma code_length_small: "code_length g < 2 ^ 32"
  using length_jmp_bytes [of "gp_at g + 55" "gp_enter g"] by (auto simp: code_length_def enter_code_length_def)

lemma guard_writes_confined: "agree (guard_area (R RSP) (gp_ctx g)) m (guard_writes g tid R v j m)"
  by (simp add: guard_writes_def agree_frame agree_counter bucket_in_range bucket_of_def)

lemma frame_written:
  assumes "frame_holds R g j m" "\<not> in_range (gp_ctx g + bucket_of tid) (R RSP - 32) 32"
  shows "frame_holds R g (Suc j) (guard_writes g tid R v j m)"
proof -
  consider "j = 0" | "j = 1" | "j = 2" | "j = 3" | "4 \<le> j" by linarith
  then show ?thesis using assms
    by cases (simp_all add: frame_holds_def guard_writes_def mem_read_write_other disjoint_ranges_stack frame_read_update)
qed

lemma guard_offset_inside: "j \<le> 16 \<Longrightarrow> in_range (gp_at g + of_nat (guard_offset g v j)) (gp_at g) (code_length g)"
proof -
  assume j: "j \<le> 16"
  then have "j \<in> {0, 1, 2, 3, 4, 5, 6, 7, 8, 9, 10, 11, 12, 13, 14, 15, 16}" by simp arith
  then have "guard_offset g v j < code_length g"
    by (elim insertE) (auto simp: guard_offset_def code_length_def enter_code_length_def)
  then show ?thesis using code_length_small [of g] by (simp add: in_range_def unat_of_nat take_bit_nat_eq_self)
qed

definition accesses :: "guint64 \<Rightarrow> guint8 \<Rightarrow> nat \<Rightarrow> guint64 list" where
  "accesses t v j = (if j = 7 \<or> j = 9 \<or> j = 12 \<and> \<not> skipped v then [t] else [])"

text \<open>One instruction makes one access to the counter, or none.\<close>

lemma accesses_follow:
  assumes "g_phase gs t = phase_at v j" "j = 7 \<longrightarrow> v = m (gp_ctx g + bucket_of t)"
    and same: "\<forall>u. g_counters gs (bucket_of u) = m (gp_ctx g + bucket_of u)"
    and away: "\<forall>u. \<not> in_range (gp_ctx g + bucket_of u) (R RSP - 32) 32"
  shows "g_phase (snd (race_run (accesses t v j) gs)) = (g_phase gs)(t := phase_at v (Suc j))"
    and "outcomes_of t (fst (race_run (accesses t v j) gs)) = drop (length (decided v j)) (decided v (Suc j))"
    and "u \<noteq> t \<Longrightarrow> outcomes_of u (fst (race_run (accesses t v j) gs)) = []"
    and "decided v j = take (length (decided v j)) (decided v (Suc j))"
    and "g_counters (snd (race_run (accesses t v j) gs)) (bucket_of u) = guard_writes g t R v j m (gp_ctx g + bucket_of u)"
proof -
  have stack: "mem_write W64 m (R RSP - 8) x (gp_ctx g + bucket_of u) = m (gp_ctx g + bucket_of u)"
      "mem_write W64 m (R RSP - 16) x (gp_ctx g + bucket_of u) = m (gp_ctx g + bucket_of u)"
      "mem_write W64 m (R RSP - 24) x (gp_ctx g + bucket_of u) = m (gp_ctx g + bucket_of u)"
      "mem_write W64 m (R RSP - 32) x (gp_ctx g + bucket_of u) = m (gp_ctx g + bucket_of u)" for x u
    using away in_frame_part [of "gp_ctx g + bucket_of u" "R RSP"] by (auto simp: mem_write_def intro!: write_bytes_other)
  consider "j = 7" | "j = 9" | "j = 12" "\<not> skipped v" | "\<not> (j = 7 \<or> j = 9 \<or> j = 12 \<and> \<not> skipped v)" by blast
  then show "g_phase (snd (race_run (accesses t v j) gs)) = (g_phase gs)(t := phase_at v (Suc j))"
    "outcomes_of t (fst (race_run (accesses t v j) gs)) = drop (length (decided v j)) (decided v (Suc j))"
    "u \<noteq> t \<Longrightarrow> outcomes_of u (fst (race_run (accesses t v j) gs)) = []"
    "decided v j = take (length (decided v j)) (decided v (Suc j))"
    "g_counters (snd (race_run (accesses t v j) gs)) (bucket_of u) = guard_writes g t R v j m (gp_ctx g + bucket_of u)"
    using assms(1,2) same stack
    by (cases; auto simp: accesses_def race_step_def phase_at_def decided_def outcomes_of_def guard_writes_def skipped_def GUM_SAMPLE_RATE_def fun_eq_iff)+
qed

lemma outcomes_of_append [simp]: "outcomes_of t (xs @ ys) = outcomes_of t xs @ outcomes_of t ys"
  by (simp add: outcomes_of_def)

lemma outcomes_of_simps [simp]:
  "outcomes_of t [] = []" "outcomes_of t ((u, x) # outs) = (if u = t then x # outcomes_of t outs else outcomes_of t outs)"
  by (simp_all add: outcomes_of_def)

text \<open>What the accesses and frame of one thread leave alone.\<close>

lemma area_apart:
  assumes "separate g cpus" "well_placed g" "cpus t = Some (e, s)" "agree (guard_area (s_reg e RSP) (gp_ctx g)) m m'"
  shows "code_holds g m \<Longrightarrow> code_holds g m'"
    and "cpus u = Some (e', s2) \<Longrightarrow> mem_read W64 m' (tcb_of e') = mem_read W64 m (tcb_of e')"
    and "cpus u = Some (e', s2) \<Longrightarrow> u \<noteq> t \<Longrightarrow> frame_holds (s_reg e') g j m' \<longleftrightarrow> frame_holds (s_reg e') g j m"
    and "\<not> in_range (gp_ctx g + bucket_of u) (s_reg e RSP - 32) 32"
proof -
  have d: "disjoint_ranges (gp_at g - 8) (8 + code_length g) (frame_of e) 32" "disjoint_ranges (gp_ctx g) 64 (frame_of e) 32"
    using assms(1,3) unfolding separate_def by blast+
  have w: "disjoint_ranges (gp_at g - 8) (8 + code_length g) (gp_ctx g) 64" using assms(2) by (simp add: well_placed_def)
  have "\<forall>y. in_range y (gp_at g - 8) (8 + code_length g) \<longrightarrow> \<not> guard_area (s_reg e RSP) (gp_ctx g) y"
    using disjoint_in_range [OF d(1)] disjoint_in_range [OF w] by (simp add: guard_area_def frame_of_def)
  then show "code_holds g m \<Longrightarrow> code_holds g m'" using code_holds_agree [OF assms(4) _ code_length_small] by blast
  show "\<not> in_range (gp_ctx g + bucket_of u) (s_reg e RSP - 32) 32"
    using disjoint_in_range [OF d(2)] bucket_in_range [of "gp_ctx g" u] by (simp add: bucket_of_def frame_of_def)
  assume u: "cpus u = Some (e', s2)"
  have "disjoint_ranges (tcb_of e') 8 (frame_of e) 32" "disjoint_ranges (tcb_of e') 8 (gp_ctx g) 64"
    using assms(1,3) u unfolding separate_def by blast+
  then have "\<forall>y. in_range y (tcb_of e') 8 \<longrightarrow> \<not> guard_area (s_reg e RSP) (gp_ctx g) y"
    using disjoint_in_range by (auto simp: guard_area_def frame_of_def)
  then show "mem_read W64 m' (tcb_of e') = mem_read W64 m (tcb_of e')" by (rule mem_read_agree [OF assms(4)])
  assume "u \<noteq> t"
  then have "disjoint_ranges (frame_of e') 32 (frame_of e) 32" "disjoint_ranges (gp_ctx g) 64 (frame_of e') 32"
    using assms(1,3) u unfolding separate_def by blast+
  then have "\<forall>y. in_range y (s_reg e' RSP - 32) 32 \<longrightarrow> \<not> guard_area (s_reg e RSP) (gp_ctx g) y"
    using disjoint_in_range by (auto simp: guard_area_def frame_of_def)
  then show "frame_holds (s_reg e') g j m' \<longleftrightarrow> frame_holds (s_reg e') g j m" by (rule frame_holds_agree [OF assms(4)])
qed

lemma separate_same: "separate g cpus \<Longrightarrow> cpus t = Some (e, s) \<Longrightarrow> separate g (cpus(t \<mapsto> (e, s')))"
  unfolding separate_def by (auto split: if_splits) blast+

lemma separate_less: "separate g cpus \<Longrightarrow> separate g (cpus(t := None))"
  unfolding separate_def by auto

lemma move_simulated:
  assumes sim: "simulates g S gs outs" and wp: "well_placed g" and cpu: "sm_cpu S t = Some (e, s)"
    and at: "thread_at g S gs outs t e s v j" "j < 16" "j = 7 \<longrightarrow> v = sm_mem S (gp_ctx g + bucket_of t)"
    and moves: "guard_moves g t (s_reg e) v j (s\<lparr>s_mem := sm_mem S\<rparr>) s'"
  shows "simulates g (S\<lparr>sm_mem := s_mem s', sm_cpu := (sm_cpu S)(t \<mapsto> (e, s'))\<rparr>)
    (snd (race_run (accesses t v j) gs)) (outs @ fst (race_run (accesses t v j) gs))" (is ?simulated)
    and "thread_at g (S\<lparr>sm_mem := s_mem s', sm_cpu := (sm_cpu S)(t \<mapsto> (e, s'))\<rparr>)
      (snd (race_run (accesses t v j) gs)) (outs @ fst (race_run (accesses t v j) gs)) t e s' v (Suc j)" (is ?moved)
proof -
  let ?S = "S\<lparr>sm_mem := s_mem s', sm_cpu := (sm_cpu S)(t \<mapsto> (e, s'))\<rparr>" and ?R = "s_reg e" and ?as = "accesses t v j"
  have mem: "s_mem s' = guard_writes g t ?R v j (sm_mem S)" and at': "guard_at g t ?R v (Suc j) s'" and fs: "s_fs_base s' = s_fs_base s"
    using moves by (simp_all add: guard_moves_def)
  have sep: "separate g (sm_cpu S)" using sim by (simp add: simulates_def)
  have agree: "agree (guard_area (?R RSP) (gp_ctx g)) (sm_mem S) (s_mem s')" unfolding mem by (rule guard_writes_confined)
  note apart = area_apart [OF sep wp cpu agree]
  have phase: "g_phase gs t = phase_at v j" using at(1) by (simp add: thread_at_def)
  have counters: "\<forall>u. g_counters gs (bucket_of u) = sm_mem S (gp_ctx g + bucket_of u)" using sim by (simp add: simulates_def)
  note follow = accesses_follow [OF phase at(3) counters, of ?R, OF allI, OF apart(4)]
  have outs: "outcomes g ?S = outcomes g S" by (simp add: outcomes_def)
  have moved: "thread_at g ?S (snd (race_run ?as gs)) (outs @ fst (race_run ?as gs)) t e s' v (Suc j)"
  proof -
    have "decided v (Suc j) = decided v j @ drop (length (decided v j)) (decided v (Suc j))"
      using follow(4) by (metis append_take_drop_id)
    moreover have "frame_holds ?R g (Suc j) (s_mem s')"
      using frame_written [of ?R g j "sm_mem S" t v] at(1) apart(4) by (simp add: mem thread_at_def)
    ultimately show ?thesis using at(1,2) at' fs apart(2) [OF cpu] follow(1,2) outs by (simp add: thread_at_def)
  qed
  then show ?moved .
  note moved
  moreover have others: "thread_at g ?S (snd (race_run ?as gs)) (outs @ fst (race_run ?as gs)) u e' s2 v' k"
    if "u \<noteq> t" "sm_cpu S u = Some (e', s2)" "thread_at g S gs outs u e' s2 v' k" for u e' s2 v' k
    using that(3) apart(2,3) [OF that(2)] that(1) follow(1,3) outs by (simp add: thread_at_def)
  ultimately have "\<exists>v j. thread_at g ?S (snd (race_run ?as gs)) (outs @ fst (race_run ?as gs)) u e' s2 v j"
    if u: "sm_cpu ?S u = Some (e', s2)" for u e' s2
  proof (cases "u = t")
    case True
    then show ?thesis using u moved by auto
  next
    case False
    then have "sm_cpu S u = Some (e', s2)" using u by simp
    moreover then obtain v' k where "thread_at g S gs outs u e' s2 v' k" using sim unfolding simulates_def by blast
    ultimately show ?thesis using False others by blast
  qed
  moreover have "g_phase (snd (race_run ?as gs)) u = Outside \<and> outcomes_of u (outs @ fst (race_run ?as gs)) = outcomes_of u (outcomes g ?S)"
    if "sm_cpu ?S u = None" for u
    using sim that follow(1,3) outs by (auto simp: simulates_def split: if_splits)
  moreover have "g_counters (snd (race_run ?as gs)) (bucket_of u) = sm_mem ?S (gp_ctx g + bucket_of u)" for u
    using follow(5) by (simp add: mem)
  moreover have "code_holds g (sm_mem ?S)" using apart(1) sim by (simp add: simulates_def)
  moreover have "separate g (sm_cpu ?S)" using separate_same [OF sep cpu] by simp
  ultimately show ?simulated unfolding simulates_def by blast
qed

text \<open>How threads leave: with their registers, to the listeners with the context on the stack, or to the function.\<close>

definition left_properly :: "guard_place \<Rightarrow> x86_state \<Rightarrow> x86_state \<Rightarrow> bool" where
  "left_properly g e u \<longleftrightarrow>
     (if s_rip u = gp_enter g
      then s_reg u = (s_reg e)(RSP := s_reg e RSP - 8) \<and> mem_read W64 (s_mem u) (s_reg u RSP) = gp_ctx g
      else s_rip u = gp_invoke g \<and> s_reg u = s_reg e)"

lemma last_instruction:
  assumes "thread_at g S gs outs t e s v 16" "code_holds g (sm_mem S)" "well_placed g"
  shows "x86_step (s\<lparr>s_mem := sm_mem S\<rparr>) = Some (s\<lparr>s_mem := sm_mem S, s_rip := if skipped v then gp_invoke g else gp_enter g\<rparr>)"
    and "left_properly g e (s\<lparr>s_mem := sm_mem S, s_rip := if skipped v then gp_invoke g else gp_enter g\<rparr>)"
proof -
  let ?s = "s\<lparr>s_mem := sm_mem S\<rparr>"
  have "guard_at g t (s_reg e) v 16 ?s" "relies g t (s_reg e) 16 ?s"
    using assms(1,2) by (simp_all add: thread_at_def guard_at_def relies_def tcb_of_def)
  then show "x86_step ?s = Some (s\<lparr>s_mem := sm_mem S, s_rip := if skipped v then gp_invoke g else gp_enter g\<rparr>)"
    using last_step [of g t "s_reg e" v ?s] assms(3) by (simp add: well_placed_def)
  have "s_reg s = guard_regs (s_reg e) g t v 16" "mem_read W64 (sm_mem S) (s_reg e RSP - 8) = gp_ctx g"
    using assms(1) by (simp_all add: thread_at_def guard_at_def frame_holds_def)
  then show "left_properly g e (s\<lparr>s_mem := sm_mem S, s_rip := if skipped v then gp_invoke g else gp_enter g\<rparr>)"
    using assms(3) by (auto simp: left_properly_def guard_regs_def pops_def well_placed_def)
qed

lemma leaving_simulated:
  assumes sim: "simulates g S gs outs" and cpu: "sm_cpu S t = Some (e, s)" and at: "thread_at g S gs outs t e s v 16"
    and "s_mem u = sm_mem S" "(s_rip u = gp_enter g) \<longleftrightarrow> \<not> skipped v"
  shows "simulates g (S\<lparr>sm_mem := s_mem u, sm_cpu := (sm_cpu S)(t := None), sm_log := sm_log S @ [(t, e, u)]\<rparr>) gs outs"
proof -
  let ?S = "S\<lparr>sm_mem := s_mem u, sm_cpu := (sm_cpu S)(t := None), sm_log := sm_log S @ [(t, e, u)]\<rparr>"
  have o: "outcomes_of w (outcomes g ?S) = outcomes_of w (outcomes g S) @ (if w = t then [\<not> skipped v] else [])" for w
    using assms(5) by (simp add: outcomes_def outcomes_of_def)
  have "g_phase gs t = Outside" "outcomes_of t outs = outcomes_of t (outcomes g S) @ [\<not> skipped v]"
    using at by (simp_all add: thread_at_def phase_at_def decided_def)
  moreover have "thread_at g ?S gs outs w e' s2 v' k" if "w \<noteq> t" "thread_at g S gs outs w e' s2 v' k" for w e' s2 v' k
    using that o by (simp add: thread_at_def assms(4))
  moreover have "separate g (sm_cpu ?S)" using sim separate_less by (simp add: simulates_def)
  ultimately show ?thesis using sim o by (auto simp: simulates_def assms(4)) blast+
qed

lemma arrival_simulated:
  assumes sim: "simulates g S gs outs" and new: "sm_cpu S t = None" "s_rip e = gp_at g" "mem_read W64 (sm_mem S) (tcb_of e) = t"
    and "separate g ((sm_cpu S)(t \<mapsto> (e, e)))"
  shows "simulates g (S\<lparr>sm_cpu := (sm_cpu S)(t \<mapsto> (e, e))\<rparr>) gs outs"
proof -
  let ?S = "S\<lparr>sm_cpu := (sm_cpu S)(t \<mapsto> (e, e))\<rparr>"
  have o: "outcomes g ?S = outcomes g S" by (simp add: outcomes_def)
  have "guard_regs (s_reg e) g t 0 0 = s_reg e" by (simp add: guard_regs_def pops_def)
  moreover have "g_phase gs t = Outside" "outcomes_of t outs = outcomes_of t (outcomes g S)"
    using sim new(1) by (simp_all add: simulates_def)
  ultimately have "thread_at g ?S gs outs t e e 0 0"
    using new(2,3) o by (simp add: thread_at_def guard_at_def guard_offset_def frame_holds_def phase_at_def decided_def)
  moreover have "thread_at g ?S gs outs w e' s2 v' k" if "thread_at g S gs outs w e' s2 v' k" for w e' s2 v' k
    using that o by (simp add: thread_at_def)
  ultimately show ?thesis using sim assms(5) o by (auto simp: simulates_def split: if_splits) blast+
qed

lemma elsewhere_simulated:
  assumes sim: "simulates g S gs outs" and m: "\<forall>x. guarded g S x \<longrightarrow> m x = sm_mem S x"
  shows "simulates g (S\<lparr>sm_mem := m\<rparr>) gs outs"
proof -
  let ?S = "S\<lparr>sm_mem := m\<rparr>" and ?W = "\<lambda>x. \<not> guarded g S x"
  have agree: "agree ?W (sm_mem S) m" using m by (simp add: agree_def)
  have o: "outcomes g ?S = outcomes g S" by (simp add: outcomes_def)
  have "thread_at g ?S gs outs w e' s2 v' k" if cpu: "sm_cpu S w = Some (e', s2)" and at: "thread_at g S gs outs w e' s2 v' k" for w e' s2 v' k
  proof -
    have "\<forall>y. in_range y (s_reg e' RSP - 32) 32 \<longrightarrow> \<not> ?W y" "\<forall>y. in_range y (tcb_of e') 8 \<longrightarrow> \<not> ?W y"
      using cpu unfolding guarded_def frame_of_def by blast+
    then have "frame_holds (s_reg e') g k m = frame_holds (s_reg e') g k (sm_mem S)" "mem_read W64 m (tcb_of e') = mem_read W64 (sm_mem S) (tcb_of e')"
      using frame_holds_agree [OF agree] mem_read_agree [OF agree] by blast+
    then show ?thesis using at o by (simp add: thread_at_def)
  qed
  moreover have "code_holds g m"
    using sim by (intro code_holds_agree [OF agree _ code_length_small]) (simp_all add: guarded_def simulates_def)
  moreover have "m (gp_ctx g + bucket_of t) = sm_mem S (gp_ctx g + bucket_of t)" for t
    using m bucket_in_range [of "gp_ctx g" t] by (simp add: guarded_def bucket_of_def)
  ultimately show ?thesis using sim o by (auto simp: simulates_def) blast+
qed

text \<open>The threads that ever arrived.\<close>

definition visitors :: "smp \<Rightarrow> guint64 set" where
  "visitors S = dom (sm_cpu S) \<union> fst ` set (sm_log S)"

definition run_matches :: "guard_place \<Rightarrow> (guint64 \<Rightarrow> guint8) \<Rightarrow> smp \<Rightarrow> guint64 list \<Rightarrow> bool" where
  "run_matches g counters S tids \<longleftrightarrow> set tids \<subseteq> visitors S \<and>
     simulates g S (snd (race_run tids (at_start counters))) (fst (race_run tids (at_start counters))) \<and>
     (\<forall>(t, e, u) \<in> set (sm_log S). left_properly g e u)"

lemma moves_at:
  assumes sim: "simulates g S gs outs" and at: "thread_at g S gs outs t e s w j" and j: "j < 16"
  obtains v s' where "thread_at g S gs outs t e s v j" "j = 7 \<longrightarrow> v = sm_mem S (gp_ctx g + bucket_of t)"
    "x86_step (s\<lparr>s_mem := sm_mem S\<rparr>) = Some s'" "guard_moves g t (s_reg e) v j (s\<lparr>s_mem := sm_mem S\<rparr>) s'"
    "in_range (s_rip s') (gp_at g) (code_length g)"
proof -
  have code: "code_holds g (sm_mem S)" using sim by (simp add: simulates_def)
  define v where "v = (if j = 7 then sm_mem S (gp_ctx g + bucket_of t) else w)"
  have at': "thread_at g S gs outs t e s v j"
    using at guard_at_early [of 7 g t "s_reg e" w s v] by (cases "j = 7") (simp_all add: v_def thread_at_def phase_at_def decided_def)
  let ?s = "s\<lparr>s_mem := sm_mem S\<rparr>"
  have "guard_at g t (s_reg e) v j ?s" "relies g t (s_reg e) j ?s" "j = 7 \<longrightarrow> v = s_mem ?s (gp_ctx g + bucket_of t)"
    using at' code by (simp_all add: thread_at_def guard_at_def relies_def tcb_of_def v_def)
  then obtain s' where s': "x86_step ?s = Some s'" "guard_moves g t (s_reg e) v j ?s s'"
    using guard_step_moves j by blast
  moreover have "in_range (s_rip s') (gp_at g) (code_length g)"
    using s'(2) guard_offset_inside [of "Suc j" g v] j by (simp add: guard_moves_def guard_at_def)
  ultimately show thesis using that [OF at'] by (simp add: v_def)
qed

lemma moves_on:
  assumes wp: "well_placed g" and sim: "simulates g S gs outs" and cpu: "sm_cpu S t = Some (e, s)"
  obtains (inside) v j s' where "thread_at g S gs outs t e s v j" "j < 16" "j = 7 \<longrightarrow> v = sm_mem S (gp_ctx g + bucket_of t)"
      "x86_step (s\<lparr>s_mem := sm_mem S\<rparr>) = Some s'" "guard_moves g t (s_reg e) v j (s\<lparr>s_mem := sm_mem S\<rparr>) s'"
      "in_range (s_rip s') (gp_at g) (code_length g)"
  | (last) v s' where "thread_at g S gs outs t e s v 16" "x86_step (s\<lparr>s_mem := sm_mem S\<rparr>) = Some s'"
      "s_mem s' = sm_mem S" "s_rip s' = gp_enter g \<longleftrightarrow> \<not> skipped v" "left_properly g e s'"
      "\<not> in_range (s_rip s') (gp_at g) (code_length g)"
proof -
  obtain w j where at: "thread_at g S gs outs t e s w j" using sim cpu unfolding simulates_def by blast
  have code: "code_holds g (sm_mem S)" using sim by (simp add: simulates_def)
  show thesis
  proof (cases "j = 16")
    case True
    show thesis
    proof (rule last)
      show "thread_at g S gs outs t e s w 16" using at True by simp
      then show "x86_step (s\<lparr>s_mem := sm_mem S\<rparr>) = Some (s\<lparr>s_mem := sm_mem S, s_rip := if skipped w then gp_invoke g else gp_enter g\<rparr>)"
        and "left_properly g e (s\<lparr>s_mem := sm_mem S, s_rip := if skipped w then gp_invoke g else gp_enter g\<rparr>)"
        using last_instruction code wp by blast+
    qed (use wp in \<open>auto simp: well_placed_def\<close>)
  next
    case False
    then have j: "j < 16" using at by (simp add: thread_at_def)
    show thesis
    proof (rule moves_at [OF sim at j])
      fix v s'
      assume "thread_at g S gs outs t e s v j" "j = 7 \<longrightarrow> v = sm_mem S (gp_ctx g + bucket_of t)"
        "x86_step (s\<lparr>s_mem := sm_mem S\<rparr>) = Some s'" "guard_moves g t (s_reg e) v j (s\<lparr>s_mem := sm_mem S\<rparr>) s'"
        "in_range (s_rip s') (gp_at g) (code_length g)"
      then show thesis using inside j by blast
    qed
  qed
qed

lemma smp_step_matches:
  assumes wp: "well_placed g" and "run_matches g counters S tids" and "smp_step g S S'"
  shows "\<exists>tids. run_matches g counters S' tids"
  using assms(3)
proof cases
  case (arrives t e)
  then show ?thesis
    using assms(2) arrival_simulated [OF _ arrives(2-5)]
    by (intro exI [of _ tids]) (auto simp: run_matches_def visitors_def)
next
  case (runs t e s s')
  have sim: "simulates g S (snd (race_run tids (at_start counters))) (fst (race_run tids (at_start counters)))"
    using assms(2) by (simp add: run_matches_def)
  show ?thesis
  proof (rule moves_on [OF wp sim runs(2)])
    fix v j r
    assume "thread_at g S (snd (race_run tids (at_start counters))) (fst (race_run tids (at_start counters))) t e s v j"
      "j < 16" "j = 7 \<longrightarrow> v = sm_mem S (gp_ctx g + bucket_of t)"
      "x86_step (s\<lparr>s_mem := sm_mem S\<rparr>) = Some r" "guard_moves g t (s_reg e) v j (s\<lparr>s_mem := sm_mem S\<rparr>) r"
    moreover from this have "r = s'" using runs(3) by simp
    ultimately have "simulates g S' (snd (race_run (tids @ accesses t v j) (at_start counters))) (fst (race_run (tids @ accesses t v j) (at_start counters)))"
      using move_simulated [OF sim wp runs(2)] by (simp add: race_run_append runs(1))
    moreover have "set (tids @ accesses t v j) \<subseteq> visitors S'"
      using assms(2) by (auto simp: run_matches_def visitors_def runs(1,2) accesses_def)
    ultimately have "run_matches g counters S' (tids @ accesses t v j)" using assms(2) by (simp add: run_matches_def runs(1))
    then show ?thesis by blast
  qed (use runs(3,4) in simp)
next
  case (leaves t e s s')
  have sim: "simulates g S (snd (race_run tids (at_start counters))) (fst (race_run tids (at_start counters)))"
    using assms(2) by (simp add: run_matches_def)
  show ?thesis
  proof (rule moves_on [OF wp sim leaves(2)])
    fix v r
    assume r: "thread_at g S (snd (race_run tids (at_start counters))) (fst (race_run tids (at_start counters))) t e s v 16"
      "x86_step (s\<lparr>s_mem := sm_mem S\<rparr>) = Some r" "s_mem r = sm_mem S" "s_rip r = gp_enter g \<longleftrightarrow> \<not> skipped v" "left_properly g e r"
    have "r = s'" using r(2) leaves(3) by simp
    then have "simulates g S' (snd (race_run tids (at_start counters))) (fst (race_run tids (at_start counters)))"
      using leaving_simulated [OF sim leaves(2) r(1,3,4)] by (simp add: leaves(1))
    moreover have "set tids \<subseteq> visitors S'" using assms(2) by (auto simp: run_matches_def visitors_def leaves(1))
    ultimately show ?thesis using assms(2) r(5) \<open>r = s'\<close> by (auto simp: run_matches_def leaves(1))
  qed (use leaves(3,4) in simp)
next
  case (elsewhere m)
  then show ?thesis
    using assms(2) elsewhere_simulated [OF _ elsewhere(2)]
    by (intro exI [of _ tids]) (auto simp: run_matches_def visitors_def)
qed

lemma smp_run_matches:
  assumes "well_placed g" "code_holds g m" "(smp_step g)\<^sup>*\<^sup>* (smp_start g m) S"
  shows "\<exists>tids. run_matches g (\<lambda>b. m (gp_ctx g + b)) S tids"
  using assms(3)
proof (induction rule: rtranclp_induct)
  case base
  show ?case
    using assms(2) by (intro exI [of _ "[]"]) (simp add: run_matches_def smp_start_def simulates_def separate_def at_start_def outcomes_def)
next
  case (step S S')
  then show ?case using smp_step_matches [OF assms(1)] by blast
qed

section \<open>A thread alone in its bucket\<close>

lemma alone_counts:
  assumes "\<forall>u \<in> set tids. bucket_of u = bucket_of t \<longrightarrow> u = t" "counts_later (g_phase s t) (g_counters s (bucket_of t)) c"
  shows "length (filter id (outcomes_of t (fst (race_run tids s)))) =
      fst (guard.taken (length (outcomes_of t (fst (race_run tids s)))) c) \<and>
    counts_later (g_phase (snd (race_run tids s)) t) (g_counters (snd (race_run tids s)) (bucket_of t))
      (snd (guard.taken (length (outcomes_of t (fst (race_run tids s)))) c))"
  using assms
proof (induction tids arbitrary: s c)
  case (Cons tid tids)
  obtain ph cs out where a: "guard_access (bucket_of tid) (g_phase s tid) (g_counters s) = (ph, cs, out)" by (metis prod.exhaust)
  let ?s = "\<lparr>g_phase = (g_phase s)(tid := ph), g_counters = cs\<rparr>"
  have step: "race_step tid s = (out, ?s)" by (simp add: race_step_def a)
  have alone: "\<forall>u \<in> set tids. bucket_of u = bucket_of t \<longrightarrow> u = t" using Cons.prems(1) by simp
  show ?case
  proof (cases "tid = t")
    case False
    then have "bucket_of t \<noteq> bucket_of tid" using Cons.prems(1) by auto
    then have "counts_later (g_phase ?s t) (g_counters ?s (bucket_of t)) c"
      using Cons.prems(2) False guard_access_elsewhere [OF a] by simp
    from Cons.IH [OF alone this] False show ?thesis
      by (simp add: step split_beta Let_def split: option.splits)
  next
    case True
    note after = guard_access_counts [OF Cons.prems(2) a [unfolded True]]
    show ?thesis
    proof (cases out)
      case None
      then have "counts_later (g_phase ?s t) (g_counters ?s (bucket_of t)) c" using after True by simp
      from Cons.IH [OF alone this] None show ?thesis by (simp add: step split_beta Let_def)
    next
      case (Some sampled)
      then have "counts_later (g_phase ?s t) (g_counters ?s (bucket_of t)) (snd (counter_step c))" "fst (counter_step c) = sampled"
        using after True by simp_all
      with Cons.IH [OF alone this(1)] Some show ?thesis
        by (simp add: step split_beta Let_def) (simp add: True split_beta Let_def)
    qed
  qed
qed (simp add: outcomes_of_def)

text \<open>A thread in the guard can leave by its own instructions alone, whatever the others have done.\<close>

lemma visit_ends:
  assumes "well_placed g" "simulates g S gs outs" "sm_cpu S t = Some (e, s)" "thread_at g S gs outs t e s v j"
  shows "\<exists>S' u. (smp_step g)\<^sup>*\<^sup>* S S' \<and> sm_cpu S' = (sm_cpu S)(t := None) \<and> sm_log S' = sm_log S @ [(t, e, u)]"
  using assms(2-4)
proof (induction "16 - j" arbitrary: S gs outs s v j)
  case 0
  then have "j = 16" by (simp add: thread_at_def)
  then have at: "thread_at g S gs outs t e s v 16" and code: "code_holds g (sm_mem S)"
    using 0 by (simp_all add: simulates_def)
  let ?u = "s\<lparr>s_mem := sm_mem S, s_rip := if skipped v then gp_invoke g else gp_enter g\<rparr>"
  have "\<not> in_range (s_rip ?u) (gp_at g) (code_length g)" using assms(1) by (simp add: well_placed_def)
  from smp_step.leaves [OF 0(3) last_instruction(1) [OF at code assms(1)] this] show ?case
    by (intro exI [of _ "S\<lparr>sm_mem := s_mem ?u, sm_cpu := (sm_cpu S)(t := None), sm_log := sm_log S @ [(t, e, ?u)]\<rparr>"] exI [of _ ?u])
      (auto intro: r_into_rtranclp)
next
  case (Suc k)
  then have j: "j < 16" by simp
  show ?case
  proof (rule moves_at [OF Suc.prems(1,3) j])
    fix w s'
    assume w: "thread_at g S gs outs t e s w j" "j = 7 \<longrightarrow> w = sm_mem S (gp_ctx g + bucket_of t)"
      "x86_step (s\<lparr>s_mem := sm_mem S\<rparr>) = Some s'" "guard_moves g t (s_reg e) w j (s\<lparr>s_mem := sm_mem S\<rparr>) s'"
      "in_range (s_rip s') (gp_at g) (code_length g)"
    let ?S = "S\<lparr>sm_mem := s_mem s', sm_cpu := (sm_cpu S)(t \<mapsto> (e, s'))\<rparr>"
    note moved = move_simulated [OF Suc.prems(1) assms(1) Suc.prems(2) w(1) j w(2,4)]
    have k: "k = 16 - Suc j" using Suc.hyps(2) by simp
    have "smp_step g S ?S" by (rule smp_step.runs [OF Suc.prems(2) w(3,5)])
    moreover obtain S' u where "(smp_step g)\<^sup>*\<^sup>* ?S S'" "sm_cpu S' = (sm_cpu ?S)(t := None)" "sm_log S' = sm_log ?S @ [(t, e, u)]"
      using Suc.hyps(1) [OF k moved(1) _ moved(2)] by auto
    ultimately show ?thesis by (intro exI [of _ S'] exI [of _ u]) (auto intro: converse_rtranclp_into_rtranclp)
  qed
qed

section \<open>The emitted guard\<close>

text \<open>A writer at the start of a slice, ready for a trampoline.\<close>

definition ready_writer :: "link_map \<Rightarrow> GumX86Writer \<Rightarrow> bool" where
  "ready_writer ld cw \<longleftrightarrow> w_target_cpu cw = GUM_CPU_AMD64 \<and> w_pc cw = w_code cw \<and> refs_of cw = [] \<and> defs_of cw = Map.empty \<and>
     ld_literal ld ''sampling_skip'' \<noteq> ld_literal ld ''invoke_trampoline'' \<and> unat (w_code cw) + 256 \<le> 2 ^ 64"

text \<open>Memory \<open>m\<close> holds the trampolines that the backend writes for a listener context, and \<open>g\<close> is where.\<close>

definition guard_emitted ::
    "link_map \<Rightarrow> GumAddress \<Rightarrow> GumAddress \<Rightarrow> GumFunctionContext \<Rightarrow> GumX86Writer \<Rightarrow> memory \<Rightarrow> guard_place \<Rightarrow> bool" where
  "guard_emitted ld enter leave ctx cw m g \<longleftrightarrow>
     (let (ctx', cw1) = put_listener_trampolines ld enter leave ctx cw;
          (ok, cw2) = gum_x86_writer_flush (snd (gum_x86_writer_put_label cw1 (ld_literal ld ''invoke_trampoline'')))
      in slice_loaded m (w_mem cw2) (w_code cw) (unat (w_code cw1 - w_code cw)) \<and>
         gp_at g = fc_on_enter_trampoline ctx' \<and> gp_enter g = enter \<and> gp_ctx g = fc_address ctx \<and>
         gp_gap g = unat (w_code cw1 - gp_at g) - code_length g)"

lemma emitted_code_holds:
  assumes "ready_writer ld cw" "guard_emitted ld enter leave ctx cw m g"
  shows "code_holds g m" "gp_gap g < 2 ^ 31" "\<not> in_range (gp_invoke g) (gp_at g) (code_length g)"
    and "gp_invoke g = w_code (snd (put_listener_trampolines ld enter leave ctx cw))"
proof -
  define a where "a = w_code cw"
  obtain ctx' cw1 where put: "put_listener_trampolines ld enter leave ctx cw = (ctx', cw1)" by (metis prod.exhaust)
  obtain ok cw2 where flush: "gum_x86_writer_flush (snd (gum_x86_writer_put_label cw1 (ld_literal ld ''invoke_trampoline''))) = (ok, cw2)"
    by (metis prod.exhaust)
  have r: "w_target_cpu cw = GUM_CPU_AMD64" "w_code cw = a" "w_pc cw = a" "refs_of cw = []" "defs_of cw = Map.empty"
    "ld_literal ld ''sampling_skip'' \<noteq> ld_literal ld ''invoke_trampoline''" "unat a + 256 \<le> 2 ^ 64"
    using assms(1) by (simp_all add: ready_writer_def a_def)
  note flushed = listener_trampolines_flushed [OF r put flush]
  have g: "slice_loaded m (w_mem cw2) a (unat (w_code cw1 - a))" "gp_at g = a + 8" "gp_enter g = enter" "gp_ctx g = fc_address ctx"
    "gp_gap g = unat (w_code cw1 - gp_at g) - code_length g"
    using assms(2) flushed(3) by (simp_all add: guard_emitted_def put flush a_def)
  define k where "k = length (leave_code (leave_at a enter) a leave)"
  have off: "invoke_offset a enter leave = 8 + code_length g + k"
    by (simp add: invoke_offset_def code_length_def g(2,3) enter_code_length_def enter_jmp_length_def k_def add.commute [of 63 a])
  have small: "8 + code_length g + k \<le> 113" using invoke_offset_bound [of a enter leave] off by simp
  have cw1: "w_code cw1 = gp_at g + of_nat (code_length g + k)" by (simp add: flushed(5) off g(2))
  have u: "unat (of_nat (code_length g + k) :: guint64) = code_length g + k"
    using small by (subst unat_of_nat) (simp add: take_bit_nat_eq_self)
  have gap: "gp_gap g = k" by (simp add: g(5) cw1 u del: of_nat_add)
  show "gp_gap g < 2 ^ 31" using small by (simp add: gap)
  show invoke: "gp_invoke g = w_code (snd (put_listener_trampolines ld enter leave ctx cw))"
    by (simp add: put gp_invoke_def cw1 gap code_length_def)
  have "unat (gp_invoke g - gp_at g) = code_length g + k"
    by (simp add: gp_invoke_def gap u del: of_nat_add flip: code_length_def)
  then show "\<not> in_range (gp_invoke g) (gp_at g) (code_length g)" by (simp add: in_range_def)
  have "unat (w_code cw1 - a) = invoke_offset a enter leave"
    using invoke_offset_bound [of a enter leave] by (simp add: flushed(5) unat_of_nat)
  with g(1) flushed(2) have "code_at m (a + 8) (enter_code (a + 8) enter k)" "mem_read W64 m a = fc_address ctx"
    using loaded_enter_code unfolding k_def by metis+
  then show "code_holds g m" by (simp add: code_holds_def g(2-4) gap)
qed


section \<open>A place, a memory and a thread\<close>

definition demo_place :: guard_place where
  "demo_place = \<lparr>gp_at = 0x10008, gp_enter = 0x30000, gp_gap = unat (w_code (snd demo_trampolines) - 0x10008) - enter_code_length 0x10008 0x30000,
     gp_ctx = 0x20000\<rparr>"

abbreviation demo_memory :: memory where
  "demo_memory \<equiv> w_mem (snd demo_flushed)"

definition demo_thread :: guint64 where
  "demo_thread = mem_read W64 demo_memory (tcb_of demo_state)"

lemma demo_ready: "ready_writer demo_link demo_writer"
  by (simp add: ready_writer_def demo_writer_fields) (simp add: demo_link_def)

lemma demo_emitted: "guard_emitted demo_link 0x30000 0x31000 demo_context demo_writer demo_memory demo_place"
proof -
  have "fc_address demo_context = 0x20000" by (simp add: demo_context_def)
  then show ?thesis
    using demo_on_enter unfolding guard_emitted_def demo_trampolines_def [symmetric]
    by (simp add: split_beta slice_loaded_def demo_flushed_def [symmetric])
      (simp add: demo_place_def code_length_def)
qed

lemma demo_lengths: "code_length demo_place = 72"
  by (simp add: code_length_def demo_place_def enter_code_length_def jmp_bytes_def GUM_IS_WITHIN_INT8_RANGE_def GUM_IS_WITHIN_INT32_RANGE_def)

lemma demo_contents:
  "demo_memory = write_bytes (w_mem demo_writer) 0x10000 (listener_code 0x10000 (fc_address demo_context) 0x30000 0x31000)"
  "w_code (snd demo_trampolines) = 0x10000 + of_nat (invoke_offset 0x10000 0x30000 0x31000)"
proof -
  have p: "unat (0x10000 :: gpointer) + 256 \<le> 2 ^ 64"
    "ld_literal demo_link ''sampling_skip'' \<noteq> ld_literal demo_link ''invoke_trampoline''"
    "put_listener_trampolines demo_link 0x30000 0x31000 demo_context demo_writer = (fst demo_trampolines, snd demo_trampolines)"
    "gum_x86_writer_flush (snd (gum_x86_writer_put_label (snd demo_trampolines) (ld_literal demo_link ''invoke_trampoline''))) =
        (fst demo_flushed, snd demo_flushed)"
    by (simp_all add: demo_trampolines_def demo_flushed_def) (simp add: demo_link_def)
  show "demo_memory = write_bytes (w_mem demo_writer) 0x10000 (listener_code 0x10000 (fc_address demo_context) 0x30000 0x31000)"
    "w_code (snd demo_trampolines) = 0x10000 + of_nat (invoke_offset 0x10000 0x30000 0x31000)"
    by (rule listener_trampolines_flushed(2,5) [OF demo_writer_fields p(2,1,3,4)])+
qed

lemma demo_well_placed: "well_placed demo_place"
  "disjoint_ranges (gp_at demo_place - 8) (8 + code_length demo_place) (gp_ctx demo_place) 64"
  "gp_enter demo_place \<noteq> gp_invoke demo_place" "\<not> in_range (gp_enter demo_place) (gp_at demo_place) (code_length demo_place)"
proof -
  note emitted = emitted_code_holds [OF demo_ready demo_emitted]
  show d: "disjoint_ranges (gp_at demo_place - 8) (8 + code_length demo_place) (gp_ctx demo_place) 64"
    "\<not> in_range (gp_enter demo_place) (gp_at demo_place) (code_length demo_place)"
    by (simp_all add: demo_lengths disjoint_ranges_def in_range_def) (simp_all add: demo_place_def)
  have "w_code (snd (put_listener_trampolines demo_link 0x30000 0x31000 demo_context demo_writer)) =
      0x10000 + of_nat (invoke_offset 0x10000 0x30000 0x31000)"
    using demo_contents(2) by (simp add: demo_trampolines_def)
  moreover have "0x10000 + of_nat n \<noteq> (0x30000 :: gpointer)" if "n \<le> 113" for n
  proof
    assume "0x10000 + of_nat n = (0x30000 :: gpointer)"
    then have "of_nat n = (0x30000 :: gpointer) - 0x10000" by (metis add_diff_cancel_left')
    then have "unat (of_nat n :: gpointer) = 0x20000" by simp
    then show False using that by (simp add: unat_of_nat take_bit_nat_eq_self)
  qed
  ultimately show n: "gp_enter demo_place \<noteq> gp_invoke demo_place"
    using emitted(4) invoke_offset_bound [of "0x10000" "0x30000" "0x31000"] by (simp add: demo_place_def)
  show "well_placed demo_place" using d n emitted(2,3) by (simp add: well_placed_def)
qed

text \<open>The thread arrives, and leaves.\<close>

lemma demo_visit:
  "\<exists>S u. (smp_step demo_place)\<^sup>*\<^sup>* (smp_start demo_place demo_memory) S \<and> sm_cpu S = Map.empty \<and> sm_log S = [(demo_thread, demo_state, u)]"
proof -
  let ?S0 = "smp_start demo_place demo_memory" and ?g = demo_place
  let ?S1 = "?S0\<lparr>sm_cpu := (sm_cpu ?S0)(demo_thread \<mapsto> (demo_state, demo_state))\<rparr>"
  have sep: "separate ?g ((sm_cpu ?S0)(demo_thread \<mapsto> (demo_state, demo_state)))"
    by (simp add: separate_def smp_start_def demo_lengths frame_of_def tcb_of_def disjoint_ranges_def) (simp add: demo_place_def demo_state_def)
  have arrive: "sm_cpu ?S0 demo_thread = None" "s_rip demo_state = gp_at ?g" "mem_read W64 (sm_mem ?S0) (tcb_of demo_state) = demo_thread"
    by (simp_all add: smp_start_def demo_thread_def demo_state_def demo_place_def)
  have step: "smp_step ?g ?S0 ?S1" by (rule smp_step.arrives [OF arrive sep])
  have "run_matches ?g (\<lambda>b. demo_memory (gp_ctx ?g + b)) ?S0 []"
    using emitted_code_holds(1) [OF demo_ready demo_emitted]
    by (simp add: run_matches_def smp_start_def simulates_def separate_def at_start_def outcomes_def)
  then obtain tids where "run_matches ?g (\<lambda>b. demo_memory (gp_ctx ?g + b)) ?S1 tids"
    using smp_step_matches [OF demo_well_placed(1) _ step] by blast
  then obtain gs outs where sim: "simulates ?g ?S1 gs outs" by (auto simp: run_matches_def)
  have cpu: "sm_cpu ?S1 demo_thread = Some (demo_state, demo_state)" by simp
  then obtain v j where "thread_at ?g ?S1 gs outs demo_thread demo_state demo_state v j" using sim unfolding simulates_def by blast
  from visit_ends [OF demo_well_placed(1) sim cpu this] obtain S u where
    "(smp_step ?g)\<^sup>*\<^sup>* ?S1 S" "sm_cpu S = (sm_cpu ?S1)(demo_thread := None)" "sm_log S = sm_log ?S1 @ [(demo_thread, demo_state, u)]" by blast
  then show ?thesis using step by (intro exI [of _ S] exI [of _ u]) (auto simp: smp_start_def intro: converse_rtranclp_into_rtranclp)
qed

lemma demo_counters: "demo_memory (gp_ctx demo_place + bucket_of t) = 0"
proof -
  have "in_range (gp_ctx demo_place + bucket_of t) (gp_ctx demo_place) 64"
    using bucket_in_range [of "gp_ctx demo_place" t] by (simp add: bucket_of_def)
  moreover have "disjoint_ranges (gp_ctx demo_place) 64 0x10000 113" by (simp add: disjoint_ranges_def demo_place_def)
  ultimately have "\<not> in_range (gp_ctx demo_place + bucket_of t) 0x10000 113" using disjoint_in_range by blast
  then have "\<not> in_range (gp_ctx demo_place + bucket_of t) 0x10000 (length (listener_code 0x10000 (fc_address demo_context) 0x30000 0x31000))"
    using invoke_offset_bound [of "0x10000" "0x30000" "0x31000"] by (simp add: in_range_def length_listener_code)
  then show ?thesis
    by (simp add: demo_contents(1) write_bytes_other)
      (simp add: demo_writer_def gum_x86_writer_init_def gum_x86_writer_reset_def gum_x86_writer_has_label_defs_def gum_x86_writer_has_label_refs_def)
qed

section \<open>Properties\<close>

text \<open>
  C2: The emitted guard under concurrency. Any number of threads execute the bytes of the flushed on-enter trampoline, one
  instruction at a time in any order, over one memory that the rest of the program uses as well. What they do to the
  counters is a run of the accesses of the guard in some order, with the same outcomes for
  every thread; every thread leaves with its registers, for the listeners or for the function; and none
  in the guard is ever stuck.
\<close>

theorem guard_on_many_threads:
  assumes "ready_writer ld cw" and "guard_emitted ld enter leave ctx cw m g"
    and "disjoint_ranges (gp_at g - 8) (8 + code_length g) (gp_ctx g) 64" and "gp_enter g \<noteq> gp_invoke g"
    and "\<not> in_range (gp_enter g) (gp_at g) (code_length g)" and "(smp_step g)\<^sup>*\<^sup>* (smp_start g m) S"
  shows "\<exists>tids gs outs. race_run tids (at_start (\<lambda>b. m (gp_ctx g + b))) = (outs, gs) \<and> set tids \<subseteq> visitors S \<and>
    (\<forall>t. sm_mem S (gp_ctx g + bucket_of t) = g_counters gs (bucket_of t)) \<and>
    (\<forall>t. sm_cpu S t = None \<longrightarrow> outcomes_of t (outcomes g S) = outcomes_of t outs) \<and>
    (\<forall>(t, e, u) \<in> set (sm_log S). left_properly g e u) \<and>
    (\<forall>t e s. sm_cpu S t = Some (e, s) \<longrightarrow> x86_step (s\<lparr>s_mem := sm_mem S\<rparr>) \<noteq> None)"
proof -
  note emitted = emitted_code_holds [OF assms(1,2)]
  have wp: "well_placed g" using assms(3-5) emitted(2,3) by (simp add: well_placed_def)
  obtain tids where run: "run_matches g (\<lambda>b. m (gp_ctx g + b)) S tids"
    using smp_run_matches [OF wp emitted(1) assms(6)] by blast
  obtain outs gs where r: "race_run tids (at_start (\<lambda>b. m (gp_ctx g + b))) = (outs, gs)" by (metis prod.exhaust)
  have sim: "simulates g S gs outs" and set: "set tids \<subseteq> visitors S" and left: "\<forall>(t, e, u) \<in> set (sm_log S). left_properly g e u"
    using run r by (simp_all add: run_matches_def)
  have "x86_step (s\<lparr>s_mem := sm_mem S\<rparr>) \<noteq> None" if "sm_cpu S t = Some (e, s)" for t e s
    by (rule moves_on [OF wp sim that]) simp_all
  moreover have "sm_mem S (gp_ctx g + bucket_of t) = g_counters gs (bucket_of t)"
      "sm_cpu S t = None \<Longrightarrow> outcomes_of t (outcomes g S) = outcomes_of t outs" for t
    using sim by (simp_all add: simulates_def)
  ultimately show ?thesis using r set left by (intro exI [of _ tids] exI [of _ gs] exI [of _ outs]) blast
qed

theorem guard_on_many_threads_witness:
  "\<exists>S outs. (smp_step demo_place)\<^sup>*\<^sup>* (smp_start demo_place demo_memory) S \<and> length (sm_log S) = 1 \<and>
     (\<exists>tids. fst (race_run tids (at_start (\<lambda>b. demo_memory (gp_ctx demo_place + b)))) = outs) \<and>
     outcomes_of demo_thread (outcomes demo_place S) = outcomes_of demo_thread outs"
proof -
  obtain S u where S: "(smp_step demo_place)\<^sup>*\<^sup>* (smp_start demo_place demo_memory) S" "sm_cpu S = Map.empty"
    "sm_log S = [(demo_thread, demo_state, u)]" using demo_visit by blast
  then obtain tids gs outs where "race_run tids (at_start (\<lambda>b. demo_memory (gp_ctx demo_place + b))) = (outs, gs)"
    "outcomes_of demo_thread (outcomes demo_place S) = outcomes_of demo_thread outs"
    using guard_on_many_threads [OF demo_ready demo_emitted demo_well_placed(2-4) S(1)] by auto
  then have "fst (race_run tids (at_start (\<lambda>b. demo_memory (gp_ctx demo_place + b)))) = outs"
    "outcomes_of demo_thread (outcomes demo_place S) = outcomes_of demo_thread outs" by simp_all
  then show ?thesis using S(1,3) by (intro exI [of _ S] exI [of _ outs]) auto
qed

text \<open>
  C3: A thread alone in its bucket. Let any number of threads execute the bytes of the flushed on-enter trampoline, as above, from a
  counter below the rate. When no other thread that ever arrived at the trampoline shares a thread's bucket, then of its calls
  exactly one in \<^verbatim>\<open>GUM_SAMPLE_RATE\<close>, which is 20, went to the listeners, counted from the initial value of the counter, and
  its counter is left at the remainder.
\<close>

theorem alone_in_its_bucket:
  assumes "ready_writer ld cw" and "guard_emitted ld enter leave ctx cw m g"
    and "disjoint_ranges (gp_at g - 8) (8 + code_length g) (gp_ctx g) 64" and "gp_enter g \<noteq> gp_invoke g"
    and "\<not> in_range (gp_enter g) (gp_at g) (code_length g)" and "(smp_step g)\<^sup>*\<^sup>* (smp_start g m) S"
    and "sm_cpu S t = None" and "\<forall>u \<in> visitors S. bucket_of u = bucket_of t \<longrightarrow> u = t"
    and "unat (m (gp_ctx g + bucket_of t)) < unat GUM_SAMPLE_RATE"
  shows "length (filter id (outcomes_of t (outcomes g S))) =
      (unat (m (gp_ctx g + bucket_of t)) + length (outcomes_of t (outcomes g S))) div unat GUM_SAMPLE_RATE \<and>
    unat (sm_mem S (gp_ctx g + bucket_of t)) =
      (unat (m (gp_ctx g + bucket_of t)) + length (outcomes_of t (outcomes g S))) mod unat GUM_SAMPLE_RATE \<and>
    GUM_SAMPLE_RATE = 20"
proof -
  let ?c = "m (gp_ctx g + bucket_of t)"
  note emitted = emitted_code_holds [OF assms(1,2)]
  have wp: "well_placed g" using assms(3-5) emitted(2,3) by (simp add: well_placed_def)
  obtain tids where run: "run_matches g (\<lambda>b. m (gp_ctx g + b)) S tids"
    using smp_run_matches [OF wp emitted(1) assms(6)] by blast
  define gs where "gs = race_run tids (at_start (\<lambda>b. m (gp_ctx g + b)))"
  have outs: "outcomes_of t (outcomes g S) = outcomes_of t (fst gs)" and rest: "g_phase (snd gs) t = Outside"
    "g_counters (snd gs) (bucket_of t) = sm_mem S (gp_ctx g + bucket_of t)"
    using run assms(7) by (simp_all add: run_matches_def simulates_def gs_def)
  have "\<forall>u \<in> set tids. bucket_of u = bucket_of t \<longrightarrow> u = t" using run assms(8) by (auto simp: run_matches_def)
  from alone_counts [OF this, of "at_start (\<lambda>b. m (gp_ctx g + b))" ?c]
  have "length (filter id (outcomes_of t (fst gs))) = fst (guard.taken (length (outcomes_of t (fst gs))) ?c)"
    "sm_mem S (gp_ctx g + bucket_of t) = snd (guard.taken (length (outcomes_of t (fst gs))) ?c)"
    using rest by (simp_all add: at_start_def gs_def)
  then show ?thesis using guard.taken_count [OF assms(9)] by (simp add: outs) (simp add: GUM_SAMPLE_RATE_def)
qed

theorem alone_in_its_bucket_witness:
  "\<exists>S. (smp_step demo_place)\<^sup>*\<^sup>* (smp_start demo_place demo_memory) S \<and> outcomes_of demo_thread (outcomes demo_place S) = [False]"
proof -
  obtain S u where S: "(smp_step demo_place)\<^sup>*\<^sup>* (smp_start demo_place demo_memory) S" "sm_cpu S = Map.empty"
    "sm_log S = [(demo_thread, demo_state, u)]" using demo_visit by blast
  have "length (filter id (outcomes_of demo_thread (outcomes demo_place S))) =
      (unat (demo_memory (gp_ctx demo_place + bucket_of demo_thread)) + length (outcomes_of demo_thread (outcomes demo_place S))) div 20"
    using alone_in_its_bucket [OF demo_ready demo_emitted demo_well_placed(2-4) S(1), of demo_thread]
    by (simp add: S visitors_def demo_counters GUM_SAMPLE_RATE_def)
  then have "outcomes_of demo_thread (outcomes demo_place S) = [False]"
    by (simp add: demo_counters outcomes_def S(3) split: if_splits)
  then show ?thesis using S(1) by blast
qed

end
