(* ===== verification/Gum_End_To_End.thy ===== *)
theory Gum_End_To_End
  imports Gum_Sampling_Race "HOL-Library.Char_ord"
begin

text \<open>
  The project's own programs around the sampling guard: the program that is observed and its observer
  (\<^verbatim>\<open>src/e2e\<close>), the test of the guard, the probe for the thread identifier and the comparison of ways to count
  (\<^verbatim>\<open>src/tests\<close>); and what the guard's rate makes of their numbers.
\<close>

section \<open>The observed program\<close>

definition target_step :: "nat \<Rightarrow> guint32 \<times> guint32 \<Rightarrow> guint32 \<times> guint32" where
  "target_step i s =
     (let (x, y) = s;
          x = (x * 31 + y) XOR of_nat i;
          y = (y * 17 + x) XOR of_nat (i + 1)
      in (x, y))"

definition target_function :: "guint32 \<Rightarrow> guint32 \<Rightarrow> guint64" where
  "target_function a b = (let (x, y) = fold target_step [0..<200] (a, b) in ucast x + ucast y)"

text \<open>The calls a worker makes, by their arguments, and what it sums up.\<close>

definition worker_single :: "nat \<Rightarrow> (guint32 \<times> guint32) list" where
  "worker_single n = map (\<lambda>i. (of_nat i, of_nat (i + 1))) [0..<n]"

definition worker_thread :: "nat \<Rightarrow> nat \<Rightarrow> (guint32 \<times> guint32) list" where
  "worker_thread total_per_thread thread_id =
     map (\<lambda>i. (of_nat thread_id, of_nat (thread_id + i + 1))) [0..<total_per_thread]"

definition sink :: "(guint32 \<times> guint32) list \<Rightarrow> guint64" where
  "sink calls = fold (\<lambda>(a, b) s. s + target_function a b) calls 0"

text \<open>\<^verbatim>\<open>strtol\<close> with base 10, and \<^verbatim>\<open>atoi\<close>, which is its value as an \<^verbatim>\<open>int\<close>.\<close>

definition is_space :: "char \<Rightarrow> bool" where
  "is_space c \<longleftrightarrow> of_char c = (32 :: nat) \<or> 9 \<le> (of_char c :: nat) \<and> of_char c \<le> (13 :: nat)"

definition is_digit :: "char \<Rightarrow> bool" where
  "is_digit c \<longleftrightarrow> 48 \<le> (of_char c :: nat) \<and> of_char c \<le> (57 :: nat)"

definition digits_value :: "string \<Rightarrow> int" where
  "digits_value ds = foldl (\<lambda>n c. 10 * n + (int (of_char c) - 48)) 0 ds"

definition strtol :: "string \<Rightarrow> int" where
  "strtol s =
     (let s = dropWhile is_space s;
          negative = (s \<noteq> [] \<and> hd s = CHR ''-'');
          s = (if s \<noteq> [] \<and> (hd s = CHR ''-'' \<or> hd s = CHR ''+'') then tl s else s);
          n = digits_value (takeWhile is_digit s)
      in if negative then max (- (2 ^ 63)) (- n) else min (2 ^ 63 - 1) n)"

definition atoi :: "string \<Rightarrow> int" where
  "atoi s = sint (word_of_int (strtol s) :: 32 word)"

definition DEFAULT_TOTAL_CALLS :: int where
  "DEFAULT_TOTAL_CALLS = 10000"

text \<open>
  \<^verbatim>\<open>main\<close> of the observed program: its exit status when the argument is bad, or the calls of every worker and the number
  it prints as \<^verbatim>\<open>OBSERVED_CALLS\<close>. Memory and threads are assumed to be there, as the program does.
\<close>

definition victim_main :: "string list \<Rightarrow> int + ((guint32 \<times> guint32) list list \<times> int)" where
  "victim_main argv =
     (let total_calls = (if length argv \<ge> 2 then strtol (argv ! 1) else DEFAULT_TOTAL_CALLS)
      in if length argv \<ge> 2 \<and> total_calls \<le> 0 then Inl 2
         else
           let num_threads = (if length argv \<ge> 3 then (let n = atoi (argv ! 2) in if n < 1 then 1 else n) else 1);
               workers = (if num_threads = 1 then [worker_single (nat total_calls)]
                          else let per = total_calls div num_threads
                               in map (\<lambda>i. worker_thread (nat per) (i + 1)) [0..<nat num_threads])
           in Inr (workers, total_calls))"

section \<open>The observer\<close>

text \<open>
  \<^verbatim>\<open>sample_counter\<close>, an array map of one 64-bit value, with the two operations the program calls, as bpftime has them for
  array maps (\<^verbatim>\<open>elem_lookup\<close> and \<^verbatim>\<open>elem_update\<close> of \<^verbatim>\<open>userspace/array_map.cpp\<close>); the program passes \<^verbatim>\<open>BPF_ANY\<close>.
\<close>

type_synonym bpf_map = "guint64 list"

definition bpf_map_lookup_elem :: "bpf_map \<Rightarrow> guint32 \<Rightarrow> guint64 option" where
  "bpf_map_lookup_elem m key = (if unat key < length m then Some (m ! unat key) else None)"

definition bpf_map_update_elem :: "bpf_map \<Rightarrow> guint32 \<Rightarrow> guint64 \<Rightarrow> bpf_map" where
  "bpf_map_update_elem m key v = (if unat key < length m then m[unat key := v] else m)"

definition sample_counter :: bpf_map where
  "sample_counter = [0]"

text \<open>
  The program reads the counter, and stores its successor in a second access: where a run of it is, and what is left of it
  after its next access, if anything.
\<close>

datatype count_phase = Entered | Count_read guint64

fun count_target_function :: "count_phase \<Rightarrow> bpf_map \<Rightarrow> count_phase option \<times> bpf_map" where
  "count_target_function Entered m =
     (case bpf_map_lookup_elem m 0 of
        None \<Rightarrow> (None, m)
      | Some cnt \<Rightarrow> (Some (Count_read cnt), m))"
| "count_target_function (Count_read v) m = (None, bpf_map_update_elem m 0 (v + 1))"

text \<open>The values the observer prints while it waits, from the maps it finds at its polls.\<close>

fun observer_poll :: "guint64 \<Rightarrow> bpf_map list \<Rightarrow> guint64 list" where
  "observer_poll last_val [] = []"
| "observer_poll last_val (m # ms) =
     (case bpf_map_lookup_elem m 0 of
        None \<Rightarrow> observer_poll last_val ms
      | Some val \<Rightarrow> if val \<noteq> last_val then val # observer_poll val ms else observer_poll last_val ms)"

text \<open>
  \<^verbatim>\<open>main\<close> of the observer, given whether opening, loading and attaching succeed, the maps at its polls and the map at the
  end: its exit status, what it prints while waiting, and \<^verbatim>\<open>SAMPLE_HITS\<close>.
\<close>

definition observer_main ::
    "nat \<Rightarrow> bool \<Rightarrow> bool \<Rightarrow> bool \<Rightarrow> bpf_map list \<Rightarrow> bpf_map \<Rightarrow> int \<times> guint64 list \<times> guint64 option" where
  "observer_main argc opened loaded attached polls final =
     (if argc < 3 then (2, [], None)
      else if \<not> opened then (1, [], None)
      else if \<not> loaded then (1, [], None)
      else if \<not> attached then (1, [], None)
      else (0, observer_poll 0 polls,
            Some (case bpf_map_lookup_elem final 0 of None \<Rightarrow> 0 | Some v \<Rightarrow> v)))"

section \<open>The test of the guard\<close>

definition CALLS_PER_THREAD :: nat where
  "CALLS_PER_THREAD = 10000"

definition N_THREADS :: nat where
  "N_THREADS = 4"

text \<open>\<^verbatim>\<open>on_enter\<close> counts; the verdicts compare with the expected number, give or take a quarter.\<close>

definition within_tolerance :: "nat \<Rightarrow> nat \<Rightarrow> bool" where
  "within_tolerance enter_count expected \<longleftrightarrow> 3 * expected \<le> 4 * enter_count \<and> 4 * enter_count \<le> 5 * expected"

definition test_exit :: "nat \<Rightarrow> nat \<Rightarrow> int" where
  "test_exit enter_count_main enter_count_multi =
     (let expected_main = CALLS_PER_THREAD div 20;
          expected_multi = N_THREADS * CALLS_PER_THREAD div 20
      in if within_tolerance enter_count_main expected_main \<and> within_tolerance enter_count_multi expected_multi then 0 else 1)"

section \<open>Three ways to count\<close>

definition NUM_BUCKETS :: nat where
  "NUM_BUCKETS = 64"

definition bench_bucket :: "guint32 \<Rightarrow> nat" where
  "bench_bucket tid = unat (tid AND 0x3f)"

definition bench_count :: "guint8 \<Rightarrow> guint8" where
  "bench_count c = (let c = c + 1 in if 20 \<le> c then 0 else c)"

text \<open>Methods A and B differ in how they get the thread's identifier; C has a counter for each thread.\<close>

fun run_method_A :: "guint32 \<Rightarrow> nat \<Rightarrow> guint8 list \<Rightarrow> guint8 list" where
  "run_method_A tid 0 buckets = buckets"
| "run_method_A tid (Suc i) buckets =
     (let bucket = bench_bucket tid
      in run_method_A tid i (buckets[bucket := bench_count (buckets ! bucket)]))"

fun run_method_B :: "memory \<Rightarrow> gpointer \<Rightarrow> nat \<Rightarrow> guint8 list \<Rightarrow> guint8 list" where
  "run_method_B m fs_base 0 buckets = buckets"
| "run_method_B m fs_base (Suc i) buckets =
     (let tid = of_le (read_bytes m (fs_base + 0x2d0) 4);
          bucket = bench_bucket tid
      in run_method_B m fs_base i (buckets[bucket := bench_count (buckets ! bucket)]))"

fun run_method_C :: "nat \<Rightarrow> guint8 \<Rightarrow> guint8" where
  "run_method_C 0 counter = counter"
| "run_method_C (Suc i) counter = run_method_C i (bench_count counter)"

section \<open>The probe for the thread's identifier\<close>

definition scan_hits :: "memory \<Rightarrow> gpointer \<Rightarrow> guint32 \<Rightarrow> nat list" where
  "scan_hits m base tid = filter (\<lambda>off. of_le (read_bytes m (base + of_nat off) 4) = tid) (map (\<lambda>k. 4 * k) [0..<0x400])"

definition validate_tid_offset :: "memory \<Rightarrow> (gpointer \<times> guint32) list \<Rightarrow> nat \<times> nat" where
  "validate_tid_offset m threads =
     (let oks = map (\<lambda>(fs_base, real_tid). of_le (read_bytes m (fs_base + 0x2d0) 4) = real_tid) threads
      in (length (filter id oks), length (filter Not oks)))"

section \<open>How many calls are sampled\<close>

text \<open>The number of calls that reach the listeners, when they pass the guard one after the other.\<close>

definition hits :: "(guint64 \<Rightarrow> guint8) \<Rightarrow> guint64 list \<Rightarrow> nat" where
  "hits counters order = length (filter id (fst (guard_run counters order)))"

lemma length_guard_run: "length (fst (guard_run counters order)) = length order"
  by (induction order arbitrary: counters) (simp_all add: split_beta Let_def)

lemma filter_by_image:
  "finite B \<Longrightarrow> f ` set xs \<subseteq> B \<Longrightarrow> (\<Sum>b \<in> B. length (filter (\<lambda>x. f x = b \<and> P x) xs)) = length (filter P xs)"
proof (induction xs)
  case (Cons x xs)
  have "(\<Sum>b \<in> B. length (filter (\<lambda>x. f x = b \<and> P x) (x # xs))) =
      (\<Sum>b \<in> B. of_bool (f x = b \<and> P x) + length (filter (\<lambda>x. f x = b \<and> P x) xs))"
    by (intro sum.cong) auto
  also have "\<dots> = (\<Sum>b \<in> B. of_bool (f x = b \<and> P x)) + length (filter P xs)"
    using Cons by (simp add: sum.distrib)
  also have "(\<Sum>b \<in> B. of_bool (f x = b \<and> P x)) = (of_bool (P x) :: nat)"
    using Cons.prems by (cases "P x") (simp_all add: of_bool_def sum.delta)
  finally show ?case by simp
qed simp

lemma hits_by_bucket:
  assumes "finite B" "bucket_of ` set order \<subseteq> B"
  shows "hits counters order = (\<Sum>b \<in> B. taken_in b order (fst (guard_run counters order)))"
    and "length order = (\<Sum>b \<in> B. calls_in b order)"
proof -
  let ?ts = "fst (guard_run counters order)"
  let ?z = "zip order ?ts"
  have "set (map fst ?z) = set order" by (simp add: length_guard_run)
  then have "(\<lambda>x. bucket_of (fst x)) ` set ?z \<subseteq> B" using assms(2) by auto
  from filter_by_image [OF assms(1) this, of snd]
  have "(\<Sum>b \<in> B. taken_in b order ?ts) = length (filter snd ?z)" by (simp add: taken_in_def case_prod_unfold)
  also have "\<dots> = length (filter id (map snd ?z))" by (simp add: filter_map comp_def)
  also have "map snd ?z = ?ts" by (simp add: length_guard_run)
  finally show "hits counters order = (\<Sum>b \<in> B. taken_in b order ?ts)" by (simp add: hits_def id_def)
  show "length order = (\<Sum>b \<in> B. calls_in b order)"
    using filter_by_image [OF assms, of "\<lambda>_. True"] by (simp add: calls_in_def)
qed

lemma hits_bounds:
  assumes "finite B" "bucket_of ` set order \<subseteq> B"
  shows "20 * hits (\<lambda>_. 0) order \<le> length order" "length order \<le> 20 * hits (\<lambda>_. 0) order + 19 * card B"
proof -
  let ?t = "\<lambda>b. taken_in b order (fst (guard_run (\<lambda>_. 0) order))"
  have t: "?t b = calls_in b order div 20" for b
    using guard_run_bucket [of b order "\<lambda>_. 0"] guard.taken_count [of 0 "calls_in b order"] by (simp add: GUM_SAMPLE_RATE_def)
  have "20 * (\<Sum>b \<in> B. ?t b) = (\<Sum>b \<in> B. 20 * (calls_in b order div 20))" by (simp add: t sum_distrib_left)
  moreover have "\<dots> \<le> (\<Sum>b \<in> B. calls_in b order)" by (intro sum_mono) simp
  moreover have "(\<Sum>b \<in> B. calls_in b order) \<le> (\<Sum>b \<in> B. 20 * (calls_in b order div 20) + 19)"
    by (intro sum_mono) presburger
  ultimately show "20 * hits (\<lambda>_. 0) order \<le> length order" "length order \<le> 20 * hits (\<lambda>_. 0) order + 19 * card B"
    using hits_by_bucket [OF assms] by (simp_all add: sum.distrib)
qed

lemma bucket_bound: "unat (bucket_of t) < 64"
  using bucket_in_range [of 0 t] by (simp add: bucket_of_def in_range_def)

lemma card_buckets: "card (bucket_of ` set tids) \<le> min (length tids) 64"
proof -
  have "card (bucket_of ` set tids) \<le> length tids" using card_image_le [of "set tids" bucket_of] card_length [of tids] by simp
  moreover have "bucket_of ` set tids \<subseteq> of_nat ` {..<64}"
    using bucket_bound by (auto intro!: image_eqI [where x = "unat (bucket_of _)"])
  then have "card (bucket_of ` set tids) \<le> card (of_nat ` {..<64} :: guint64 set)" by (intro card_mono) simp_all
  moreover have "card (of_nat ` {..<64} :: guint64 set) \<le> 64" using card_image_le [of "{..<64}" of_nat] by simp
  ultimately show ?thesis by simp
qed

lemma victim_lengths:
  assumes "victim_main argv = Inr (workers, printed)"
  shows "workers \<noteq> []" "sum_list (map length workers) \<le> nat printed"
    "nat printed \<le> sum_list (map length workers) + (length workers - 1)" "0 < printed"
proof -
  define n where "n = (if length argv \<ge> 3 then (let n = atoi (argv ! 2) in if n < 1 then 1 else n) else 1)"
  have n: "1 \<le> n" by (simp add: n_def Let_def)
  have p: "printed = (if length argv \<ge> 2 then strtol (argv ! 1) else DEFAULT_TOTAL_CALLS)" "0 < printed"
    "workers = (if n = 1 then [worker_single (nat printed)]
       else map (\<lambda>i. worker_thread (nat (printed div n)) (i + 1)) [0..<nat n])"
    using assms by (auto simp: victim_main_def Let_def n_def DEFAULT_TOTAL_CALLS_def split: if_splits)
  have "length (worker_thread k i) = k" "length (worker_single k) = k" for k i by (simp_all add: worker_thread_def worker_single_def)
  then have sum: "sum_list (map length workers) = (if n = 1 then nat printed else nat n * nat (printed div n))"
    and len: "length workers = nat n" using n by (simp_all add: p(3) comp_def sum_list_triv)
  show "workers \<noteq> []" using len n by auto
  show "0 < printed" by (rule p(2))
  define k where "k = n * (printed div n)"
  have "nat n * nat (printed div n) = nat k" using n p(2) by (simp add: nat_mult_distrib k_def)
  moreover have "k + printed mod n = printed" "0 \<le> printed mod n" "printed mod n < n" using n by (simp_all add: k_def)
  then have "k \<le> printed" "printed \<le> k + (n - 1)" by linarith+
  ultimately show "sum_list (map length workers) \<le> nat printed"
    "nat printed \<le> sum_list (map length workers) + (length workers - 1)"
    unfolding sum len using n p(2) by auto
qed

lemma victim_printed:
  assumes "victim_main argv = Inr (workers, printed)"
  shows "printed < 2 ^ 63"
proof -
  have "0 \<le> digits_value ds" if "\<forall>c \<in> set ds. is_digit c" for ds
    using that by (induction ds rule: rev_induct) (auto simp: digits_value_def is_digit_def)
  then have digits: "0 \<le> digits_value (takeWhile is_digit t)" for t using set_takeWhileD by metis
  have "strtol a < 2 ^ 63" for a
  proof -
    let ?s = "dropWhile is_space a"
    let ?n = "digits_value (takeWhile is_digit (if ?s \<noteq> [] \<and> (hd ?s = CHR ''-'' \<or> hd ?s = CHR ''+'') then tl ?s else ?s))"
    have "strtol a = (if ?s \<noteq> [] \<and> hd ?s = CHR ''-'' then max (- (2 ^ 63)) (- ?n) else min (2 ^ 63 - 1) ?n)"
      by (simp only: strtol_def Let_def)
    moreover have "max (- (2 ^ 63)) (- n) < 2 ^ 63" "min (2 ^ 63 - 1) n < 2 ^ 63" if "0 \<le> n" for n :: int using that by simp_all
    ultimately show ?thesis using digits by presburger
  qed
  then show ?thesis using assms by (auto simp: victim_main_def Let_def DEFAULT_TOTAL_CALLS_def split: if_splits)
qed

lemma calls_made:
  assumes "distinct tids" "length tids = length workers" "set order \<subseteq> set tids"
    and "\<forall>i < length tids. count_list order (tids ! i) = length (workers ! i)"
  shows "length order = sum_list (map length workers)"
proof -
  have "length order = (\<Sum>t \<in> set tids. count_list order t)" using sum_count_set [OF assms(3)] by simp
  also have "\<dots> = sum_list (map (count_list order) tids)" using assms(1) by (simp add: sum_list_distinct_conv_sum_set)
  also have "map (count_list order) tids = map length workers" using assms(2,4) by (intro nth_equalityI) simp_all
  finally show ?thesis .
qed

section \<open>The observed run\<close>

text \<open>
  Threads pass the guard, and a call that is sampled goes on to the eBPF program before the thread's next call; every access, to
  the guard's counters and to the map, is a step of its own. The outcomes are those of the guard, as calls leave it.
\<close>

record observation =
  ob_guards :: guards
  ob_counting :: "guint64 \<Rightarrow> count_phase option"
  ob_map :: bpf_map

definition observed_step :: "guint64 \<Rightarrow> observation \<Rightarrow> bool option \<times> observation" where
  "observed_step tid s =
     (case ob_counting s tid of
        Some ph \<Rightarrow>
          (let (ph, m) = count_target_function ph (ob_map s)
           in (None, s\<lparr>ob_counting := (ob_counting s)(tid := ph), ob_map := m\<rparr>))
      | None \<Rightarrow>
          (let (out, g) = race_step tid (ob_guards s)
           in (out, s\<lparr>ob_guards := g, ob_counting := (ob_counting s)(tid := if out = Some True then Some Entered else None)\<rparr>)))"

fun observed_run :: "guint64 list \<Rightarrow> observation \<Rightarrow> (guint64 \<times> bool) list \<times> observation" where
  "observed_run [] s = ([], s)"
| "observed_run (tid # tids) s =
     (let (out, s) = observed_step tid s; (outs, s) = observed_run tids s
      in (case out of None \<Rightarrow> outs | Some sampled \<Rightarrow> (tid, sampled) # outs, s))"

definition observed_start :: observation where
  "observed_start = \<lparr>ob_guards = at_start (\<lambda>_. 0), ob_counting = (\<lambda>_. None), ob_map = sample_counter\<rparr>"

text \<open>The guards of an observed run have made a run of their own.\<close>

lemma observed_guards:
  "\<exists>tids. set tids \<subseteq> set schedule \<and>
     race_run tids (ob_guards s) = (fst (observed_run schedule s), ob_guards (snd (observed_run schedule s)))"
proof (induction schedule arbitrary: s)
  case (Cons tid schedule)
  obtain out s1 where step: "observed_step tid s = (out, s1)" by (metis prod.exhaust)
  obtain tids where tids: "set tids \<subseteq> set schedule"
    "race_run tids (ob_guards s1) = (fst (observed_run schedule s1), ob_guards (snd (observed_run schedule s1)))"
    using Cons.IH by blast
  show ?case
  proof (cases "ob_counting s tid")
    case None
    then have "race_step tid (ob_guards s) = (out, ob_guards s1)"
      using step by (auto simp: observed_step_def split: prod.splits)
    then show ?thesis using tids by (intro exI [of _ "tid # tids"]) (auto simp: step split_beta Let_def split: option.split)
  next
    case (Some ph)
    then have "out = None" "ob_guards s1 = ob_guards s" using step by (auto simp: observed_step_def split: prod.splits)
    then show ?thesis using tids by (intro exI [of _ tids]) (auto simp: step split_beta Let_def)
  qed
qed simp

text \<open>
  \<open>d\<close> runs of the program are complete. The counter and every value read from it are at most \<open>d\<close>, because updates can be lost;
  they are \<open>d\<close> if there is only one thread.
\<close>

definition counted :: "guint64 set \<Rightarrow> nat \<Rightarrow> observation \<Rightarrow> bool" where
  "counted T d s \<longleftrightarrow> (\<exists>c. ob_map s = [c] \<and> unat c \<le> d \<and> (0 < d \<longrightarrow> 0 < unat c) \<and>
     (\<forall>t v. ob_counting s t = Some (Count_read v) \<longrightarrow> unat v \<le> d) \<and>
     (card T \<le> 1 \<longrightarrow> unat c = d \<and> (\<forall>t v. ob_counting s t = Some (Count_read v) \<longrightarrow> unat v = d)))"

definition running :: "guint64 set \<Rightarrow> observation \<Rightarrow> nat" where
  "running T s = card {t \<in> T. ob_counting s t \<noteq> None}"

lemma running_update:
  assumes "finite T" "tid \<in> T" "\<forall>t. t \<noteq> tid \<longrightarrow> ob_counting s' t = ob_counting s t"
  shows "running T s' + (if ob_counting s tid = None then 0 else 1) = running T s + (if ob_counting s' tid = None then 0 else 1)"
proof -
  let ?others = "{t \<in> T. t \<noteq> tid \<and> ob_counting s t \<noteq> None}"
  have "{t \<in> T. ob_counting s t \<noteq> None} = (if ob_counting s tid = None then ?others else insert tid ?others)"
    "{t \<in> T. ob_counting s' t \<noteq> None} = (if ob_counting s' tid = None then ?others else insert tid ?others)"
  proof -
    show "{t \<in> T. ob_counting s t \<noteq> None} = (if ob_counting s tid = None then ?others else insert tid ?others)" using assms(2) by auto
    have "t \<in> T \<and> ob_counting s' t \<noteq> None \<longleftrightarrow> t \<in> (if ob_counting s' tid = None then ?others else insert tid ?others)" for t
      using assms(2,3) by (cases "t = tid") simp_all
    then show "{t \<in> T. ob_counting s' t \<noteq> None} = (if ob_counting s' tid = None then ?others else insert tid ?others)" by blast
  qed
  then show ?thesis using assms(1) by (simp add: running_def)
qed

lemma counted_step:
  assumes T: "finite T" "tid \<in> T" and own: "\<forall>t. ob_counting s t \<noteq> None \<longrightarrow> t \<in> T"
    and c: "counted T d s" and bound: "d + 1 < 2 ^ 64" and step: "observed_step tid s = (out, s')"
  shows "\<exists>d' \<le> d + 1. counted T d' s' \<and> d' + running T s' = d + running T s + (if out = Some True then 1 else 0)"
    and "\<forall>t. ob_counting s' t \<noteq> None \<longrightarrow> t \<in> T"
proof -
  have others: "\<forall>t. t \<noteq> tid \<longrightarrow> ob_counting s' t = ob_counting s t"
    using step by (auto simp: observed_step_def split: option.splits prod.splits)
  note run = running_update [OF T others]
  show "\<forall>t. ob_counting s' t \<noteq> None \<longrightarrow> t \<in> T" using own others T(2) by metis
  obtain x where x: "ob_map s = [x]" "unat x \<le> d" "0 < d \<longrightarrow> 0 < unat x"
    "\<forall>t v. ob_counting s t = Some (Count_read v) \<longrightarrow> unat v \<le> d"
    "card T \<le> 1 \<longrightarrow> unat x = d \<and> (\<forall>t v. ob_counting s t = Some (Count_read v) \<longrightarrow> unat v = d)"
    using c unfolding counted_def by blast
  consider (guard) "ob_counting s tid = None" | (load) "ob_counting s tid = Some Entered" | (store) v where "ob_counting s tid = Some (Count_read v)"
    by (cases "ob_counting s tid"; metis count_phase.exhaust option.exhaust)
  then show "\<exists>d' \<le> d + 1. counted T d' s' \<and> d' + running T s' = d + running T s + (if out = Some True then 1 else 0)"
  proof cases
    case guard
    then have "ob_map s' = ob_map s" "ob_counting s' tid = (if out = Some True then Some Entered else None)"
      using step by (auto simp: observed_step_def split: prod.splits)
    moreover from this have "counted T d s'"
      unfolding counted_def using x others by (intro exI [of _ x]) (metis count_phase.distinct(1) option.distinct(1) option.inject)
    ultimately show ?thesis using run guard by (intro exI [of _ d]) simp
  next
    case load
    then have s': "ob_map s' = [x]" "ob_counting s' tid = Some (Count_read x)" "out = None"
      using step x(1) by (auto simp: observed_step_def bpf_map_lookup_elem_def)
    have "ob_counting s' t = Some (Count_read v) \<Longrightarrow> v = x \<or> ob_counting s t = Some (Count_read v)" for t v
      using others s'(2) by (cases "t = tid") auto
    then have "counted T d s'" unfolding counted_def using x s'(1) by (intro exI [of _ x]) metis
    then show ?thesis using run load s'(2,3) by (intro exI [of _ d]) simp
  next
    case store
    then have s': "ob_map s' = [v + 1]" "ob_counting s' tid = None" "out = None"
      using step x(1) by (auto simp: observed_step_def bpf_map_update_elem_def)
    have v: "unat v \<le> d" "card T \<le> 1 \<longrightarrow> unat v = d" using x(4,5) store by blast+
    then have succ: "unat (v + 1) = unat v + 1" using bound by (simp add: unat_word_ariths)
    have alone: "ob_counting s' t \<noteq> None \<Longrightarrow> \<not> card T \<le> 1" for t
    proof
      assume t: "ob_counting s' t \<noteq> None" "card T \<le> 1"
      then have "t \<noteq> tid" "t \<in> T" using s'(2) own others by metis+
      then have "card {t, tid} \<le> card T" using T by (intro card_mono) auto
      then show False using t(2) \<open>t \<noteq> tid\<close> by simp
    qed
    have "unat u \<le> d + 1" if "ob_counting s' t = Some (Count_read u)" for t u
      using that x(4) others s'(2) by (metis le_SucI Suc_eq_plus1 option.distinct(1))
    then have "counted T (d + 1) s'"
      unfolding counted_def using s'(1) succ v alone by (intro exI [of _ "v + 1"]) auto
    then show ?thesis using run store s'(2,3) by (intro exI [of _ "d + 1"]) simp
  qed
qed

lemma observed_counts:
  assumes "finite T" "set schedule \<subseteq> T" "\<forall>t. ob_counting s t \<noteq> None \<longrightarrow> t \<in> T" "counted T d s"
    and "d + running T s + length (filter snd (fst (observed_run schedule s))) < 2 ^ 64 - 1"
  shows "\<exists>d'. counted T d' (snd (observed_run schedule s)) \<and>
    d' + running T (snd (observed_run schedule s)) = d + running T s + length (filter snd (fst (observed_run schedule s)))"
  using assms(2-5)
proof (induction schedule arbitrary: s d)
  case (Cons tid schedule)
  obtain out s1 where step: "observed_step tid s = (out, s1)" by (metis prod.exhaust)
  have hits: "length (filter snd (fst (observed_run (tid # schedule) s))) =
      (if out = Some True then 1 else 0) + length (filter snd (fst (observed_run schedule s1)))"
    "snd (observed_run (tid # schedule) s) = snd (observed_run schedule s1)"
    by (auto simp: step split_beta Let_def split: option.split)
  have T: "tid \<in> T" "set schedule \<subseteq> T" using Cons.prems(1) by simp_all
  have "d + 1 < 2 ^ 64" using Cons.prems(4) by simp
  note next_step = counted_step [OF assms(1) T(1) Cons.prems(2,3) this step]
  from next_step(1) obtain d1 where d1: "counted T d1 s1" "d1 + running T s1 = d + running T s + (if out = Some True then 1 else 0)"
    by blast
  from Cons.IH [OF T(2) next_step(2) d1(1)] show ?case using Cons.prems(4) d1(2) unfolding hits by (simp split: if_splits)
qed auto

section \<open>The test runs with buckets of their own\<close>

lemma bucket_calls: "\<forall>u \<in> set order. bucket_of u = bucket_of t \<longrightarrow> u = t \<Longrightarrow> calls_in (bucket_of t) order = count_list order t"
  by (induction order) (auto simp: calls_in_def)

lemma solo_calls:
  assumes "\<forall>u. g_phase s u = Outside"
  shows "\<exists>tids. set tids \<subseteq> {t} \<and> map fst (fst (race_run tids s)) = replicate n t \<and> (\<forall>u. g_phase (snd (race_run tids s)) u = Outside)"
  using assms
proof (induction n arbitrary: s)
  case 0
  then show ?case by (intro exI [of _ "[]"]) simp
next
  case (Suc n)
  define one where "one = (if unat (g_counters s (bucket_of t)) + 1 < unat GUM_SAMPLE_RATE then [t, t] else [t, t, t])"
  have "map fst (fst (race_run one s)) = [t]" "\<forall>u. g_phase (snd (race_run one s)) u = Outside"
    using Suc.prems by (auto simp: one_def race_step_def)
  moreover then obtain tids where "set tids \<subseteq> {t}" "map fst (fst (race_run tids (snd (race_run one s)))) = replicate n t"
    "\<forall>u. g_phase (snd (race_run tids (snd (race_run one s)))) u = Outside" using Suc.IH by blast
  moreover have "set one \<subseteq> {t}" by (simp add: one_def)
  ultimately show ?case by (intro exI [of _ "one @ tids"]) (simp add: race_run_append)
qed

section \<open>The ways to count agree\<close>

lemma bench_count_step: "bench_count c = snd (counter_step c)"
proof (cases "unat c + 1 < 256")
  case True
  then have "unat (c + 1) = unat c + 1" by (simp add: unat_word_ariths)
  then show ?thesis by (simp add: bench_count_def counter_step_def GUM_SAMPLE_RATE_def Let_def word_le_nat_alt not_less)
next
  case False
  moreover have "unat c < 256" using unsigned_less [of c, where 'a = nat] by simp
  ultimately have "unat c = 255" by simp
  then have "c = 255" by (simp add: word_unat_eq_iff)
  then show ?thesis by (simp add: bench_count_def counter_step_def GUM_SAMPLE_RATE_def)
qed

lemma low_bits: "unat (of_le (read_bytes m a (Suc n)) AND 0x3f :: 'a::len word) = unat (m a AND 0x3f)" if "8 \<le> LENGTH('a)"
proof -
  have "(of_le (read_bytes m a (Suc n)) AND mask 6 :: 'a word) = ucast (m a AND mask 6)"
    by (rule bit_word_eqI) (auto simp: bit_simps)
  then have "(of_le (read_bytes m a (Suc n)) AND 0x3f :: 'a word) = ucast (m a AND 0x3f)"
    by (simp add: mask_eq_exp_minus_1)
  moreover have "unat (m a AND 0x3f) < 2 ^ LENGTH('a)"
    using unsigned_less [of "m a AND 0x3f", where 'a = nat] power_increasing [OF that, of "2 :: nat"] by simp
  ultimately show ?thesis by (simp only: unsigned_ucast_eq take_bit_nat_eq_self)
qed

lemma same_bucket: "bench_bucket (of_le (read_bytes m a 4)) = unat (bucket_of (mem_read W64 m a))"
  using low_bits [of m a 3, where 'a = 32] low_bits [of m a 7, where 'a = 64]
  by (simp add: bench_bucket_def bucket_of_def mem_read_def)

lemma method_A_bucket:
  "length buckets = 64 \<Longrightarrow> run_method_A tid n buckets = buckets[bench_bucket tid := run_method_C n (buckets ! bench_bucket tid)]"
proof (induction n arbitrary: buckets)
  case (Suc n)
  have "tid AND 0x3f \<le> 0x3f" by (rule word_and_le1)
  then have "bench_bucket tid < 64" by (simp add: bench_bucket_def word_le_nat_alt)
  then show ?case using Suc by (simp add: Let_def)
qed simp

lemma guard_run_same:
  "snd (guard_run counters (replicate n t)) = counters(bucket_of t := run_method_C n (counters (bucket_of t)))"
  by (induction n arbitrary: counters) (simp_all add: guard_step_def split_beta Let_def bench_count_step)

lemma count_replicate: "count_list (replicate n x) y = (if x = y then n else 0)"
  by (induction n) auto

lemma leavers_scheduled: "fst ` set (fst (race_run tids s)) \<subseteq> set tids"
  by (induction tids arbitrary: s) (auto simp: split_beta Let_def split: option.splits)

lemma taken_div:
  "taken_in b order (fst (guard_run (\<lambda>_. 0) order)) = calls_in b order div 20"
  "unat (snd (guard_run (\<lambda>_. 0) order) b) = calls_in b order mod 20"
  using guard_run_bucket [of b order "\<lambda>_. 0"] guard.taken_count [of 0 "calls_in b order"] by (simp_all add: GUM_SAMPLE_RATE_def)

lemma hits_in_own_buckets:
  assumes "distinct workers" "set order = set workers" "\<forall>t \<in> set workers. \<forall>u \<in> set workers. bucket_of t = bucket_of u \<longrightarrow> t = u"
    and "\<forall>t \<in> set workers. count_list order t = n"
  shows "hits (\<lambda>_. 0) order = length workers * (n div 20)"
proof -
  have inj: "inj_on bucket_of (set workers)" using assms(3) by (auto simp: inj_on_def)
  have "hits (\<lambda>_. 0) order = (\<Sum>b \<in> bucket_of ` set workers. calls_in b order div 20)"
    using hits_by_bucket(1) [of "bucket_of ` set workers" order "\<lambda>_. 0"] assms(2) by (simp add: taken_div)
  also have "\<dots> = (\<Sum>t \<in> set workers. calls_in (bucket_of t) order div 20)" by (simp add: sum.reindex [OF inj])
  also have "\<dots> = (\<Sum>t \<in> set workers. n div 20)"
    using assms(2-4) by (intro sum.cong) (simp_all add: bucket_calls)
  finally show ?thesis using assms(1) by (simp add: distinct_card)
qed

section \<open>Properties\<close>

text \<open>
  C15: What the end-to-end test measures. The observed program runs to its end, with its threads in any interleaving of their
  accesses to the guard's counters of a fresh context and to the map of the eBPF program. The number the observer reports is
  at most the number of calls that were sampled, since the eBPF program's updates can overwrite each other, and is not zero if one was
  sampled. With one thread it is exactly a twentieth of the number the program prints. With several threads in buckets of their
  own the sampled calls are at most a twentieth of that number, and less by no more than what each bucket has counted since its last
  sample and the calls that the division among the threads leaves out.
\<close>

theorem end_to_end_hits:
  assumes "victim_main argv = Inr (workers, printed)" and "distinct tids" and "length tids = length workers"
    and "set schedule \<subseteq> set tids" and "observed_run schedule observed_start = (outs, s)" and "\<forall>t. ob_counting s t = None"
    and "\<forall>i < length tids. count_list (map fst outs) (tids ! i) = length (workers ! i)"
  shows "\<exists>n. snd (snd (observer_main 3 True True True polls (ob_map s))) = Some n \<and>
    unat n \<le> length (filter snd outs) \<and> (0 < length (filter snd outs) \<longrightarrow> 0 < unat n) \<and>
    (length workers = 1 \<longrightarrow> unat n = nat printed div 20) \<and>
    (own_buckets tids \<longrightarrow> 20 * length (filter snd outs) \<le> nat printed \<and>
      nat printed \<le> 20 * length (filter snd outs) + 19 * length workers + (length workers - 1))"
proof -
  let ?h = "length (filter snd outs)" and ?order = "map fst outs"
  note victim = victim_lengths [OF assms(1)]
  obtain accesses where accesses: "set accesses \<subseteq> set schedule" "race_run accesses (at_start (\<lambda>_. 0)) = (outs, ob_guards s)"
    using observed_guards [of schedule observed_start] assms(5) by (auto simp: observed_start_def)
  have "set ?order \<subseteq> set tids" using leavers_scheduled [of accesses "at_start (\<lambda>_. 0)"] accesses assms(4) by auto
  note len = calls_made [OF assms(2,3) this assms(7)]
  have h: "?h \<le> nat printed" using victim(2) len by (intro le_trans [OF length_filter_le]) simp
  have "printed < 2 ^ 63" using victim_printed [OF assms(1)] .
  then have "counted (set tids) 0 observed_start" "0 + running (set tids) observed_start + ?h < 2 ^ 64 - 1"
    using h by (simp_all add: counted_def running_def observed_start_def sample_counter_def)
  moreover have "\<forall>t. ob_counting observed_start t \<noteq> None \<longrightarrow> t \<in> set tids" by (simp add: observed_start_def)
  ultimately obtain d where d: "counted (set tids) d s" "d = ?h"
    using observed_counts [of "set tids" schedule observed_start 0] assms(4-6) by (auto simp: running_def observed_start_def)
  then obtain n where n: "ob_map s = [n]" "unat n \<le> ?h" "0 < ?h \<longrightarrow> 0 < unat n" "card (set tids) \<le> 1 \<longrightarrow> unat n = ?h"
    by (auto simp: counted_def)
  have own: "20 * ?h \<le> nat printed \<and> nat printed \<le> 20 * ?h + 19 * length workers + (length workers - 1)" if "own_buckets tids"
  proof -
    have "own_buckets accesses" using that accesses(1) assms(4) unfolding own_buckets_def by blast
    moreover have "settled_counters (set accesses) (at_start (\<lambda>_. 0)) (\<lambda>_. 0)" by (simp add: settled_counters_def at_start_def)
    ultimately have "map snd outs = fst (guard_run (\<lambda>_. 0) ?order)" using race_run_settled [of accesses] accesses(2) by fastforce
    then have "?h = hits (\<lambda>_. 0) ?order" by (simp add: hits_def filter_map comp_def flip: \<open>map snd outs = _\<close>)
    then have "20 * ?h \<le> length ?order" "length ?order \<le> 20 * ?h + 19 * card (bucket_of ` set tids)"
      using hits_bounds [of "bucket_of ` set tids" ?order] \<open>set ?order \<subseteq> set tids\<close> by auto
    moreover have "card (bucket_of ` set tids) \<le> length workers" using card_buckets [of tids] assms(3) by simp
    ultimately show ?thesis using victim(2,3) len by linarith
  qed
  have "unat n = nat printed div 20" if one: "length workers = 1"
  proof -
    obtain t where t: "tids = [t]" using one assms(3) by (cases tids) auto
    then have "own_buckets tids" by (simp add: own_buckets_def)
    then have "20 * ?h \<le> nat printed" "nat printed < 20 * Suc ?h" using own one by simp_all
    then show ?thesis using div_nat_eqI [of 20 ?h "nat printed"] n(4) t by simp
  qed
  then show ?thesis using n(1-3) own by (simp add: observer_main_def bpf_map_lookup_elem_def)
qed

text \<open>One thread makes 45 calls, of which the twentieth and the fortieth are sampled.\<close>

definition solo_schedule :: "guint64 list" where
  "solo_schedule = concat (replicate 2 (replicate 43 3)) @ replicate 10 3"

lemma solo_outcomes: "map snd (fst (observed_run solo_schedule observed_start)) = (replicate 19 False @ [True]) @ (replicate 19 False @ [True]) @ replicate 5 False"
  by code_simp

lemma map_fst_replicate: "\<forall>x \<in> fst ` set xs. x = a \<Longrightarrow> map fst xs = replicate (length xs) a"
  by (induction xs) auto

lemma not_scheduled: "t \<notin> set tids \<Longrightarrow> ob_counting (snd (observed_run tids s)) t = ob_counting s t"
  by (induction tids arbitrary: s) (auto simp: observed_step_def split_beta Let_def split: option.splits)

lemma outcomes_scheduled: "fst ` set (fst (observed_run tids s)) \<subseteq> set tids"
  by (induction tids arbitrary: s) (auto simp: split_beta Let_def split: option.splits)

theorem end_to_end_hits_witness:
  "\<exists>n. snd (snd (observer_main 3 True True True [] (ob_map (snd (observed_run solo_schedule observed_start))))) = Some n \<and> unat n = 2"
proof -
  let ?run = "observed_run solo_schedule observed_start"
  have v: "victim_main [''victim'', ''45''] = Inr ([worker_single 45], 45)" by code_simp
  have set: "set solo_schedule \<subseteq> set [3]" by (simp add: solo_schedule_def)
  have "ob_counting (snd ?run) 3 = None" by code_simp
  then have idle: "\<forall>t. ob_counting (snd ?run) t = None"
    using not_scheduled [of _ solo_schedule observed_start] set by (auto simp: observed_start_def)
  have "fst ` set (fst ?run) \<subseteq> {3}" using outcomes_scheduled [of solo_schedule observed_start] set by auto
  then have "map fst (fst ?run) = replicate (length (fst ?run)) 3" by (intro map_fst_replicate) auto
  moreover have "length (fst ?run) = 45" using arg_cong [OF solo_outcomes, of length] by simp
  ultimately have calls: "\<forall>i < length [3 :: guint64]. count_list (map fst (fst ?run)) ([3] ! i) = length ([worker_single 45] ! i)"
    by (simp add: worker_single_def count_replicate)
  from end_to_end_hits [OF v _ _ set prod.collapse [symmetric] idle calls, of "[]"] show ?thesis by (simp add: conj_commute) blast
qed

text \<open>
  C16: The test of the guard passes. Its main thread calls the function ten thousand times, then four threads do so in any
  interleaving of their accesses to the counters. With buckets of their own, the listener is entered
  exactly 500 and 2000 times, and the test exits with status 0.
\<close>

theorem sampling_test_passes:
  assumes "own_buckets schedule" and "distinct workers" and "length workers = N_THREADS"
    and "race_run schedule (at_start (snd (guard_run (\<lambda>_. 0) (replicate CALLS_PER_THREAD main_thread)))) = (outs, end_state)"
    and "set (map fst outs) \<subseteq> set workers" and "\<forall>t \<in> set workers. count_list (map fst outs) t = CALLS_PER_THREAD"
  shows "hits (\<lambda>_. 0) (replicate CALLS_PER_THREAD main_thread) = 500 \<and> length (filter snd outs) = 2000 \<and>
    test_exit (hits (\<lambda>_. 0) (replicate CALLS_PER_THREAD main_thread)) (length (filter snd outs)) = 0"
proof -
  let ?main = "replicate CALLS_PER_THREAD main_thread" and ?order = "map fst outs"
  have main: "hits (\<lambda>_. 0) ?main = 500"
    using hits_in_own_buckets [of "[main_thread]" ?main CALLS_PER_THREAD] by (simp add: count_replicate CALLS_PER_THREAD_def)
  have "calls_in b ?main mod 20 = 0" for b by (simp add: calls_in_def CALLS_PER_THREAD_def filter_replicate)
  then have reset: "snd (guard_run (\<lambda>_. 0) ?main) = (\<lambda>_. 0)"
    using taken_div(2) [of ?main] by (simp add: fun_eq_iff unat_eq_zero)
  have outs: "race_run schedule (at_start (\<lambda>_. 0)) = (outs, end_state)" using assms(4) by (simp add: reset)
  have "settled_counters (set schedule) (at_start (\<lambda>_. 0)) (\<lambda>_. 0)" by (simp add: settled_counters_def at_start_def)
  from race_run_settled [OF assms(1) this subset_refl] have "map snd outs = fst (guard_run (\<lambda>_. 0) ?order)" by (simp add: outs)
  then have "length (filter snd outs) = hits (\<lambda>_. 0) ?order" by (simp add: hits_def filter_map comp_def flip: \<open>map snd outs = _\<close>)
  moreover have called: "set workers \<subseteq> set ?order"
  proof
    fix t assume "t \<in> set workers"
    then have "count_list ?order t \<noteq> 0" using assms(6) by (simp add: CALLS_PER_THREAD_def)
    then show "t \<in> set ?order" by (simp only: count_list_0_iff not_not)
  qed
  then have "set workers \<subseteq> set schedule" using leavers_scheduled [of schedule "at_start (\<lambda>_. 0)"] by (auto simp: outs)
  then have "\<forall>t \<in> set workers. \<forall>u \<in> set workers. bucket_of t = bucket_of u \<longrightarrow> t = u"
    using assms(1) unfolding own_buckets_def by blast
  from hits_in_own_buckets [OF assms(2) _ this assms(6)] called assms(5)
  have "hits (\<lambda>_. 0) ?order = length workers * (CALLS_PER_THREAD div 20)" by blast
  ultimately show ?thesis using main assms(3) by (simp add: N_THREADS_def CALLS_PER_THREAD_def test_exit_def within_tolerance_def)
qed

lemma four_workers:
  "\<exists>schedule. set schedule \<subseteq> set ws \<and>
     map fst (fst (race_run schedule (at_start c))) = concat (map (replicate n) ws) \<and>
     (\<forall>u. g_phase (snd (race_run schedule (at_start c))) u = Outside)"
proof (induction ws rule: rev_induct)
  case Nil
  then show ?case by (intro exI [of _ "[]"]) (simp add: at_start_def)
next
  case (snoc t ws)
  then obtain schedule where s: "set schedule \<subseteq> set ws" "map fst (fst (race_run schedule (at_start c))) = concat (map (replicate n) ws)"
    "\<forall>u. g_phase (snd (race_run schedule (at_start c))) u = Outside" by blast
  from solo_calls [OF s(3), of t n] obtain tids where "set tids \<subseteq> {t}"
    "map fst (fst (race_run tids (snd (race_run schedule (at_start c))))) = replicate n t"
    "\<forall>u. g_phase (snd (race_run tids (snd (race_run schedule (at_start c))))) u = Outside" by blast
  then show ?case using s by (intro exI [of _ "schedule @ tids"]) (auto simp: race_run_append)
qed

theorem sampling_test_passes_witness:
  "\<exists>schedule. own_buckets schedule \<and>
     length (filter snd (fst (race_run schedule (at_start (snd (guard_run (\<lambda>_. 0) (replicate CALLS_PER_THREAD 7))))))) = 2000"
proof -
  let ?c = "snd (guard_run (\<lambda>_. 0) (replicate CALLS_PER_THREAD 7))" and ?ws = "[1, 2, 3, 4] :: guint64 list"
  obtain schedule where s: "set schedule \<subseteq> set ?ws"
    "map fst (fst (race_run schedule (at_start ?c))) = concat (map (replicate CALLS_PER_THREAD) ?ws)"
    using four_workers [of ?ws ?c CALLS_PER_THREAD] by blast
  have "own_buckets ?ws" by (simp add: own_buckets_def bucket_of_def)
  then have own: "own_buckets schedule" using s(1) unfolding own_buckets_def by blast
  have "\<forall>t \<in> set ?ws. count_list (map fst (fst (race_run schedule (at_start ?c)))) t = CALLS_PER_THREAD"
    unfolding s(2) by (simp add: count_replicate)
  moreover have "set (map fst (fst (race_run schedule (at_start ?c)))) \<subseteq> set ?ws" unfolding s(2) by auto
  ultimately show ?thesis
    using sampling_test_passes [OF own _ _ surjective_pairing, of ?ws 7] own by (intro exI [of _ schedule]) (simp add: N_THREADS_def)
qed

text \<open>
  C37: The three ways to count are the guard's. When the probe finds the identifier of every thread at its offset, then
  for each of these threads methods A and B leave the counters as the same number of calls through the guard does, the
  counter of method C is that of the thread's bucket, and the bucket is the one the guard uses.
\<close>

theorem ways_to_count_agree:
  assumes "snd (validate_tid_offset m threads) = 0" and "(fs_base, tid) \<in> set threads" and "length buckets = 64"
  shows "run_method_B m fs_base n buckets = run_method_A tid n buckets \<and>
    (\<forall>b < 64. run_method_A tid n buckets ! b =
       snd (guard_run (\<lambda>b. buckets ! unat b) (replicate n (mem_read W64 m (fs_base + 0x2d0)))) (of_nat b)) \<and>
    run_method_C n (buckets ! bench_bucket tid) = run_method_A tid n buckets ! bench_bucket tid"
proof -
  let ?t = "mem_read W64 m (fs_base + 0x2d0)"
  have tid: "of_le (read_bytes m (fs_base + 0x2d0) 4) = tid"
    using assms(1,2) by (auto simp: validate_tid_offset_def Let_def filter_empty_conv)
  then have bucket: "bench_bucket tid = unat (bucket_of ?t)" using same_bucket [of m "fs_base + 0x2d0"] by simp
  have "run_method_B m fs_base n buckets = run_method_A tid n buckets" if "length buckets = 64" for buckets
    using that by (induction n arbitrary: buckets) (simp_all add: tid Let_def)
  moreover have "run_method_A tid n buckets ! b = snd (guard_run (\<lambda>b. buckets ! unat b) (replicate n ?t)) (of_nat b)" if "b < 64" for b
  proof -
    have "unat (of_nat b :: guint64) = b" using that by (simp add: unat_of_nat take_bit_nat_eq_self)
    moreover have "bench_bucket tid = b \<longleftrightarrow> bucket_of ?t = of_nat b"
      using calculation by (auto simp: bucket word_unat_eq_iff)
    ultimately show ?thesis
      using that assms(3) by (auto simp: method_A_bucket guard_run_same bucket)
  qed
  moreover have "bench_bucket tid < 64" using bucket bucket_bound by simp
  ultimately show ?thesis using assms(3) by (simp add: method_A_bucket)
qed

definition sample_tcb :: memory where
  "sample_tcb = (\<lambda>a. if a = 0x402d0 then 70 else 0)"

theorem ways_to_count_agree_witness:
  "run_method_B sample_tcb 0x40000 45 (replicate 64 0) = run_method_A 70 45 (replicate 64 0)"
proof -
  have "snd (validate_tid_offset sample_tcb [(0x40000, 70)]) = 0" by code_simp
  from ways_to_count_agree [OF this, of "0x40000" 70 "replicate 64 0" 45] show ?thesis by simp
qed

end
