(* ===== verification/Gum_Activation.thy ===== *)
theory Gum_Activation
  imports Gum_X86_Exec Gum_Interceptor_X86
begin

text \<open>
  Patching an intercepted function and restoring it: the padding of no-ops as a block of the machine,
  what \<^verbatim>\<open>_gum_interceptor_backend_activate_trampoline\<close> leaves in memory and how the processor runs it,
  and that \<^verbatim>\<open>_gum_interceptor_backend_deactivate_trampoline\<close> undoes it.
\<close>

section \<open>Padding\<close>

text \<open>The instructions of \<open>n\<close> bytes of padding, each with its encoding.\<close>

definition nop_block :: "nat \<Rightarrow> block" where
  "nop_block n = map (\<lambda>bs. (bs, Simple Nop))
     (replicate (n div 9) (nop_index ! 8) @ (if n mod 9 = 0 then [] else [nop_index ! (n mod 9 - 1)]))"

lemma length_nop: "k < 9 \<Longrightarrow> length (nop_index ! k) = Suc k"
proof -
  have "\<forall>k \<in> set [0..<9]. length (nop_index ! k) = Suc k" by (simp add: nop_index_def upt_rec)
  then show "k < 9 \<Longrightarrow> length (nop_index ! k) = Suc k" by simp
qed

lemma decode_nop: "nop \<in> set nop_index \<Longrightarrow> decode (nop @ rest) = Some (Simple Nop, length nop)"
  by (auto simp: nop_index_def decode_eval)

lemma nop_index_in: "k < 9 \<Longrightarrow> nop_index ! k \<in> set nop_index"
  by (rule nth_mem) (simp add: nop_index_def)

lemma nop_block_step:
  "0 < n \<Longrightarrow> n < 9 \<Longrightarrow> nop_block n = [(nop_index ! (n - 1), Simple Nop)]"
  "9 \<le> n \<Longrightarrow> nop_block n = (nop_index ! 8, Simple Nop) # nop_block (n - 9)"
  "nop_block 0 = []"
  by (simp_all add: nop_block_def le_div_geq le_mod_geq)

lemma length_nop_block: "length (code (nop_block n)) = n"
proof (induction n rule: less_induct)
  case (less n)
  consider "n = 0" | "0 < n" "n < 9" | "9 \<le> n" by linarith
  then show ?case
    by cases (simp_all add: nop_block_step code_def length_nop less [unfolded code_def])
qed

lemma nop_padding_emits: "nop_padding_loop self n = emit self (code (nop_block n))"
proof (induction n arbitrary: self rule: less_induct)
  case (less n)
  consider "n = 0" | "0 < n" "n < 9" | "9 \<le> n" by linarith
  then show ?case
  proof cases
    case 2
    then show ?thesis
      by (simp add: nop_padding_loop.simps [of self n] nop_block_step code_def put_bytes_emit length_nop)
  next
    case 3
    then have "nop_padding_loop self n = nop_padding_loop (emit self (nop_index ! 8)) (n - 9)"
      by (simp add: nop_padding_loop.simps [of self n] put_bytes_emit length_nop)
    with 3 less [of "n - 9"] show ?thesis by (simp add: nop_block_step code_def emit_emit)
  qed (simp add: nop_padding_loop.simps nop_block_step code_def)
qed

lemma well_encoded_nop: "well_encoded (nop_block n)"
proof -
  have "length bs \<le> 15 \<and> (\<forall>rest. decode (bs @ rest) = Some (Simple Nop, length bs))"
    if "bs \<in> set (replicate (n div 9) (nop_index ! 8) @ (if n mod 9 = 0 then [] else [nop_index ! (n mod 9 - 1)]))" for bs
  proof -
    from that have "\<exists>k < 9. bs = nop_index ! k"
      by (auto split: if_splits intro: exI [of _ 8] exI [of _ "n mod 9 - 1"] simp: less_imp_diff_less)
    then show ?thesis by (auto simp: length_nop decode_nop nop_index_in)
  qed
  then show ?thesis unfolding well_encoded_def nop_block_def list_all_iff by auto
qed

text \<open>Running a block of no-ops changes nothing but the instruction pointer.\<close>

lemma exec_nops:
  assumes "\<forall>(bs, i) \<in> set p. i = Simple Nop"
  shows "exec_block p s = Some (advance (code p) s) \<and> confined (\<lambda>_. False) p s"
  using assms
proof (induction p arbitrary: s)
  case Nil
  then show ?case by (simp add: advance_def code_def)
next
  case (Cons bi p)
  obtain bs where bi: "bi = (bs, Simple Nop)" using Cons.prems by (cases bi) auto
  from Cons.IH [of "advance bs s"] Cons.prems show ?case
    by (simp add: bi code_def advance_def agree_def add.assoc)
qed

lemma run_nops:
  assumes "code_at (s_mem s) (s_rip s) (code (nop_block n))"
  shows "x86_run (length (nop_block n)) s = Some (s\<lparr>s_rip := s_rip s + of_nat n\<rparr>)"
proof -
  have "\<forall>(bs, i) \<in> set (nop_block n). i = Simple Nop" by (auto simp: nop_block_def)
  from exec_nops [OF this] run_block [OF well_encoded_nop assms, where W = "\<lambda>_. False"] show ?thesis
    by (simp add: advance_def length_nop_block)
qed

section \<open>Activation\<close>

text \<open>Where the patched function continues: the replacement of a fast context, else the trampoline.\<close>

definition redirect_target :: "GumFunctionContext \<Rightarrow> gpointer" where
  "redirect_target ctx = (if fc_type ctx = GUM_INTERCEPTOR_TYPE_FAST then fc_replacement_function ctx else fc_on_enter_trampoline ctx)"

definition redirect_bytes :: "GumFunctionContext \<Rightarrow> guint8 list" where
  "redirect_bytes ctx =
     (let jmp = jmp_bytes (fc_function_address ctx) (redirect_target ctx)
      in jmp @ code (nop_block (unat (fc_overwritten_prologue_len ctx) - length jmp)))"

lemma flush_nothing: "w_label_refs self \<in> {None, Some []} \<Longrightarrow> snd (gum_x86_writer_flush self) = self"
  by (auto simp: gum_x86_writer_flush_def split: option.splits)

lemma reset_fields [simp]:
  "w_target_cpu (gum_x86_writer_reset self a) = GUM_CPU_AMD64"
  "w_base (gum_x86_writer_reset self a) = a"
  "w_code (gum_x86_writer_reset self a) = a"
  "w_pc (gum_x86_writer_reset self a) = a"
  "w_mem (gum_x86_writer_reset self a) = w_mem self"
  "w_label_defs (gum_x86_writer_reset self a) = map_option (\<lambda>_. Map.empty) (w_label_defs self)"
  "w_label_refs (gum_x86_writer_reset self a) = map_option (\<lambda>_. []) (w_label_refs self)"
  by (auto simp: gum_x86_writer_reset_def gum_x86_writer_has_label_defs_def gum_x86_writer_has_label_refs_def Let_def
      split: option.splits)

lemma offset_emit: "w_base self = w_code self \<Longrightarrow> length bs < 2 ^ 32 \<Longrightarrow> gum_x86_writer_offset (emit self bs) = of_nat (length bs)"
  by (simp add: gum_x86_writer_offset_def unsigned_of_nat take_bit_nat_eq_self)

lemma activate_unfold:
  fixes ctx
  defines "jmp \<equiv> jmp_bytes (fc_function_address ctx) (redirect_target ctx)"
  shows "gum_interceptor_backend_activate_trampoline self ctx prologue =
    (if length jmp \<le> unat (fc_redirect_code_size ctx) \<and> length jmp \<le> unat (fc_overwritten_prologue_len ctx)
     then Some (self\<lparr>be_writer := emit ((gum_x86_writer_reset (be_writer self) prologue)\<lparr>w_pc := fc_function_address ctx\<rparr>) (redirect_bytes ctx)\<rparr>)
     else None)"
proof -
  define cw where "cw = (gum_x86_writer_reset (be_writer self) prologue)\<lparr>w_pc := fc_function_address ctx\<rparr>"
  define j where "j = jmp_bytes (fc_function_address ctx) (redirect_target ctx)"
  have j: "length j \<in> {2, 5, 16}" unfolding j_def by (rule length_jmp_bytes)
  have refs: "w_label_refs (emit cw bs) \<in> {None, Some []}" for bs by (auto simp: cw_def)
  have jmp: "(if fc_type ctx = GUM_INTERCEPTOR_TYPE_FAST
                then snd (gum_x86_writer_put_jmp_address cw (fc_replacement_function ctx))
                else snd (gum_x86_writer_put_jmp_address cw (fc_on_enter_trampoline ctx))) = emit cw j"
    by (simp add: jmp_address_emits cw_def j_def redirect_target_def)
  have off: "gum_x86_writer_offset (emit cw j) = of_nat (length j)"
    using j by (subst offset_emit) (auto simp: cw_def)
  have le: "of_nat (length j) \<le> v \<longleftrightarrow> length j \<le> unat v" for v :: guint
    using j by (simp add: word_le_nat_alt unat_of_nat) auto
  have sub: "unat (v - of_nat (length j)) = unat v - length j" if "length j \<le> unat v" for v :: guint
    using that j by (subst unat_sub) (auto simp: word_le_nat_alt unat_of_nat)
  show ?thesis
    unfolding gum_interceptor_backend_activate_trampoline_def Let_def cw_def [symmetric] jmp
    by (simp add: flush_nothing [OF refs] off le sub jmp_def j_def [symmetric] gum_x86_writer_put_nop_padding_def
        nop_padding_emits emit_emit redirect_bytes_def Let_def)
qed

lemma length_redirect_bytes:
  "length (jmp_bytes (fc_function_address ctx) (redirect_target ctx)) \<le> unat (fc_overwritten_prologue_len ctx) \<Longrightarrow>
   length (redirect_bytes ctx) = unat (fc_overwritten_prologue_len ctx)"
  by (simp add: redirect_bytes_def Let_def length_nop_block)

lemma guint_small: "unat (v :: guint) \<le> 2 ^ 64"
  using unsigned_less [of v, where 'a = nat] by simp

text \<open>
  C17: Activation. Patching a function in place either aborts, exactly when the jump does not fit the
  space reserved for it, or leaves code with which the function's first instruction goes to the
  trampoline (to the replacement for a fast context) with nothing else changed; the rest of the
  overwritten prologue is padding that runs to its end, and no other byte of memory is touched.
\<close>

theorem activate_redirects:
  assumes "fc_function_address ctx = fa" and "redirect_target ctx = target"
    and "length (jmp_bytes fa target) = n" and "unat (fc_overwritten_prologue_len ctx) = len"
  shows "case gum_interceptor_backend_activate_trampoline self ctx fa of
      None \<Rightarrow> \<not> (n \<le> unat (fc_redirect_code_size ctx) \<and> n \<le> len)
    | Some self' \<Rightarrow> n \<le> unat (fc_redirect_code_size ctx) \<and> n \<le> len \<and>
        (\<forall>s. s_mem s = w_mem (be_writer self') \<and> s_rip s = fa \<longrightarrow> x86_step s = Some (s\<lparr>s_rip := target\<rparr>)) \<and>
        (\<forall>s. s_mem s = w_mem (be_writer self') \<and> s_rip s = fa + of_nat n \<longrightarrow>
           (\<exists>k. x86_run k s = Some (s\<lparr>s_rip := fa + of_nat len\<rparr>))) \<and>
        (\<forall>x. \<not> in_range x fa len \<longrightarrow> w_mem (be_writer self') x = w_mem (be_writer self) x)"
proof (cases "n \<le> unat (fc_redirect_code_size ctx) \<and> n \<le> len")
  case False
  with assms have "gum_interceptor_backend_activate_trampoline self ctx fa = None" by (auto simp: activate_unfold)
  with False show ?thesis by simp
next
  case True
  define m where "m = write_bytes (w_mem (be_writer self)) fa (redirect_bytes ctx)"
  have len: "length (redirect_bytes ctx) = len" using True assms by (simp add: length_redirect_bytes)
  have here: "gum_interceptor_backend_activate_trampoline self ctx fa =
      Some (self\<lparr>be_writer := emit ((gum_x86_writer_reset (be_writer self) fa)\<lparr>w_pc := fa\<rparr>) (redirect_bytes ctx)\<rparr>)"
    using True assms by (simp add: activate_unfold)
  have "code_at m fa (redirect_bytes ctx)"
    unfolding code_at_def m_def
    using guint_small [of "fc_overwritten_prologue_len ctx"] len assms(4) by (intro read_write_bytes) simp
  then have jmp: "code_at m fa (jmp_bytes fa target)" and pad: "code_at m (fa + of_nat n) (code (nop_block (len - n)))"
    using assms by (simp_all add: redirect_bytes_def Let_def code_at_append)
  have "\<forall>s. s_mem s = m \<and> s_rip s = fa \<longrightarrow> x86_step s = Some (s\<lparr>s_rip := target\<rparr>)"
    using jmp by (auto intro: jmp_bytes_step)
  moreover have "x86_run (length (nop_block (len - n))) s = Some (s\<lparr>s_rip := fa + of_nat len\<rparr>)"
    if "s_mem s = m \<and> s_rip s = fa + of_nat n" for s
    using run_nops [of s "len - n"] pad that True by (simp add: add.assoc flip: of_nat_add)
  moreover have "\<forall>x. \<not> in_range x fa len \<longrightarrow> m x = w_mem (be_writer self) x"
    by (simp add: m_def write_bytes_other len)
  ultimately show ?thesis using True unfolding here by (auto simp: m_def)
qed

text \<open>
  C18: Deactivation. Restoring the prologue saved when the trampoline was created undoes the
  activation: the memory is as it was before, byte for byte.
\<close>

theorem deactivate_restores:
  assumes "gum_interceptor_backend_activate_trampoline self ctx prologue = Some self'"
    and "take (unat (fc_overwritten_prologue_len ctx)) (fc_overwritten_prologue ctx) =
      read_bytes (w_mem (be_writer self)) prologue (unat (fc_overwritten_prologue_len ctx))"
  shows "w_mem (be_writer (gum_interceptor_backend_deactivate_trampoline self' ctx prologue)) = w_mem (be_writer self)"
proof
  fix x
  define len where "len = unat (fc_overwritten_prologue_len ctx)"
  from assms(1) have "w_mem (be_writer self') = write_bytes (w_mem (be_writer self)) prologue (redirect_bytes ctx)"
    and "length (redirect_bytes ctx) = len"
    by (auto simp: activate_unfold length_redirect_bytes len_def split: if_splits)
  moreover have "len \<le> 2 ^ 64" unfolding len_def by (rule guint_small)
  ultimately show "w_mem (be_writer (gum_interceptor_backend_deactivate_trampoline self' ctx prologue)) x = w_mem (be_writer self) x"
    using assms(2) by (simp add: gum_interceptor_backend_deactivate_trampoline_def write_bytes_apply nth_read_bytes flip: len_def)
qed

text \<open>A context whose trampoline is near and whose prologue is six zero bytes, for the witnesses.\<close>

definition sample_relocator :: GumX86Relocator where
  "sample_relocator = \<lparr>rl_ref_count = 1, rl_capstone_cpu = GUM_CPU_AMD64, rl_input_start = 0, rl_input_cur = 0, rl_input_pc = 0,
     rl_input_insns = replicate 100 None, rl_output = False, rl_inpos = 0, rl_outpos = 0, rl_eob = False, rl_eoi = False\<rparr>"

definition sample_allocator :: GumCodeAllocator where
  "sample_allocator = \<lparr>ca_slice_size = 256, ca_pages_per_batch = 7, ca_slices_per_batch = 112, ca_pages_metadata_size = 4520,
     ca_uncommitted_pages = [], ca_dirty_pages = {}, ca_free_slices = [], ca_dispatchers = [], ca_heap = Map.empty,
     ca_deflectors = Map.empty\<rparr>"

definition sample_backend :: GumInterceptorBackend where
  "sample_backend = \<lparr>be_allocator = sample_allocator, be_writer = sample_writer, be_relocator = sample_relocator,
     be_enter_thunk = None, be_leave_thunk = None\<rparr>"

definition sample_context :: GumFunctionContext where
  "sample_context = \<lparr>fc_address = 0x5000, fc_function_address = 0x400000, fc_grafted_hook = 0, fc_import_target = 0,
     fc_type = GUM_INTERCEPTOR_TYPE_DEFAULT, fc_destroyed = False, fc_activated = False, fc_has_on_leave_listener = False,
     fc_trampoline_slice = None, fc_trampoline_usage_counter = 0, fc_on_enter_trampoline = 0x300008,
     fc_overwritten_prologue = replicate 32 0, fc_overwritten_prologue_len = 6, fc_on_invoke_trampoline = 0,
     fc_on_leave_trampoline = 0, fc_listener_entries = [], fc_replacement_function = 0, fc_replacement_data = 0,
     fc_redirect_code_size = 5\<rparr>"

lemma sample_context_fields [simp]:
  "fc_function_address sample_context = 0x400000" "fc_overwritten_prologue_len sample_context = 6"
  "fc_redirect_code_size sample_context = 5" "redirect_target sample_context = 0x300008"
  "fc_overwritten_prologue sample_context = replicate 32 0" "length (jmp_bytes 0x400000 0x300008) = 5"
  by (simp_all add: sample_context_def redirect_target_def jmp_bytes_def GUM_IS_WITHIN_INT8_RANGE_def GUM_IS_WITHIN_INT32_RANGE_def)

theorem activate_redirects_witness:
  "\<exists>self'. gum_interceptor_backend_activate_trampoline sample_backend sample_context 0x400000 = Some self' \<and>
    (\<forall>s. s_mem s = w_mem (be_writer self') \<and> s_rip s = 0x400000 \<longrightarrow> x86_step s = Some (s\<lparr>s_rip := 0x300008\<rparr>))"
  using activate_redirects [of sample_context "0x400000" "0x300008" 5 6 sample_backend]
  by (simp split: option.splits)

theorem deactivate_restores_witness:
  "\<exists>self'. gum_interceptor_backend_activate_trampoline sample_backend sample_context 0x400000 = Some self' \<and>
    w_mem (be_writer (gum_interceptor_backend_deactivate_trampoline self' sample_context 0x400000)) = w_mem (be_writer sample_backend)"
proof -
  obtain self' where self': "gum_interceptor_backend_activate_trampoline sample_backend sample_context 0x400000 = Some self'"
    by (simp add: activate_unfold)
  have "w_mem (be_writer sample_backend) = (\<lambda>_. 0)" by (simp add: sample_backend_def sample_writer_def)
  then have "take 6 (fc_overwritten_prologue sample_context) = read_bytes (w_mem (be_writer sample_backend)) 0x400000 6"
    by (simp add: numeral_eq_Suc)
  with deactivate_restores [OF self'] self' show ?thesis by simp
qed
end
