(* ===== verification/Gum_Slices.thy ===== *)
theory Gum_Slices
  imports Gum_Code_Allocator
begin

text \<open>
  The safety of the code allocator. A step relation runs the allocator's operations in any order,
  beside the set of slices that clients hold; the invariant says that held slices and the free list
  are disjoint, lie in live pages and never overlap, and that a block of pages is counted by at
  least as many references as it has such slices.
\<close>

section \<open>Steps\<close>

text \<open>The memory the environment grants for a new batch is not in use by a live block.\<close>

definition os_fresh :: "nat \<Rightarrow> os_answers \<Rightarrow> GumCodeAllocator \<Rightarrow> bool" where
  "os_fresh ps os a \<longleftrightarrow> os_page_size os = of_nat ps \<and> os_metadata os \<notin> dom (ca_heap a) \<and>
     (\<forall>d \<in> {os_pages_near os, os_pages_anywhere os, os_segment os}. \<forall>pages \<in> ran (ca_heap a).
        disjoint_ranges d (7 * ps) (pg_data pages) (7 * ps))"

type_synonym client = "GumCodeAllocator \<times> slice_ptr set"

inductive alloc_step :: "bool \<Rightarrow> nat \<Rightarrow> client \<Rightarrow> client \<Rightarrow> bool" for rwx ps where
  alloc: "os_rwx_supported os = rwx \<Longrightarrow> os_fresh ps os a \<Longrightarrow>
    gum_code_allocator_try_alloc_slice_near os a spec alignment = (r, a') \<Longrightarrow>
    alloc_step rwx ps (a, U) (a', set_option r \<union> U)"
| ref: "p \<in> U \<Longrightarrow> alloc_step rwx ps (a, U) (gum_code_slice_ref a p, U)"
| unref: "os_rwx_supported os = rwx \<Longrightarrow> p \<in> U \<Longrightarrow> slice_at a p = Some s \<Longrightarrow>
    alloc_step rwx ps (a, U) (gum_code_slice_unref os a (Some p), if sl_ref_count s = 1 then U - {p} else U)"
| commit: "os_rwx_supported os = rwx \<Longrightarrow> alloc_step rwx ps (a, U) (gum_code_allocator_commit os a, U)"

inductive_cases alloc_stepE: "alloc_step rwx ps c c'"

section \<open>The invariant\<close>

definition sizes_ok :: "nat \<Rightarrow> GumCodeAllocator \<Rightarrow> bool" where
  "sizes_ok ps a \<longleftrightarrow> 0 < unat (ca_slice_size a) \<and> 0 < unat (ca_slices_per_batch a) \<and> ca_pages_per_batch a = 7 \<and>
     unat (ca_slices_per_batch a) * unat (ca_slice_size a) \<le> 7 * ps \<and> 7 * ps < 2 ^ 32"

definition indices :: "slice_ptr set \<Rightarrow> gpointer \<Rightarrow> nat set" where
  "indices P blk = {i. (blk, i) \<in> P}"

definition block_ok :: "nat \<Rightarrow> GumCodeAllocator \<Rightarrow> slice_ptr set \<Rightarrow> gpointer \<Rightarrow> GumCodePages \<Rightarrow> bool" where
  "block_ok ps a P blk pages \<longleftrightarrow>
     length (pg_elements pages) = unat (ca_slices_per_batch a) \<and>
     (\<forall>i < unat (ca_slices_per_batch a).
        sl_data (pg_elements pages ! i) = pg_data pages + of_nat i * ca_slice_size a \<and>
        sl_size (pg_elements pages ! i) = ucast (ca_slice_size a)) \<and>
     card (indices P blk) \<le> unat (pg_ref_count pages)"

definition blocks_apart :: "nat \<Rightarrow> (gpointer \<rightharpoonup> GumCodePages) \<Rightarrow> bool" where
  "blocks_apart ps h \<longleftrightarrow> (\<forall>b b' p p'. h b = Some p \<and> h b' = Some p' \<and> b \<noteq> b' \<longrightarrow>
     disjoint_ranges (pg_data p) (7 * ps) (pg_data p') (7 * ps))"

definition in_blocks :: "GumCodeAllocator \<Rightarrow> slice_ptr set \<Rightarrow> bool" where
  "in_blocks a P \<longleftrightarrow> (\<forall>(blk, i) \<in> P. blk \<in> dom (ca_heap a) \<and> i < unat (ca_slices_per_batch a))"

definition wf_allocator :: "nat \<Rightarrow> GumCodeAllocator \<Rightarrow> slice_ptr set \<Rightarrow> bool" where
  "wf_allocator ps a U \<longleftrightarrow> sizes_ok ps a \<and> distinct (ca_free_slices a) \<and> set (ca_free_slices a) \<inter> U = {} \<and>
     in_blocks a (set (ca_free_slices a) \<union> U) \<and> blocks_apart ps (ca_heap a) \<and>
     (\<forall>blk pages. ca_heap a blk = Some pages \<longrightarrow> block_ok ps a (set (ca_free_slices a) \<union> U) blk pages)"

lemma finite_indices: "in_blocks a P \<Longrightarrow> finite (indices P blk)"
  by (rule finite_subset [of _ "{..<unat (ca_slices_per_batch a)}"]) (auto simp: in_blocks_def indices_def)

text \<open>The invariant without the free list, to move slices between the list and the clients.\<close>

definition wf_store :: "nat \<Rightarrow> GumCodeAllocator \<Rightarrow> slice_ptr set \<Rightarrow> bool" where
  "wf_store ps a P \<longleftrightarrow> sizes_ok ps a \<and> in_blocks a P \<and> blocks_apart ps (ca_heap a) \<and>
     (\<forall>blk pages. ca_heap a blk = Some pages \<longrightarrow> block_ok ps a P blk pages)"

lemma wf_allocator_alt:
  "wf_allocator ps a U \<longleftrightarrow> distinct (ca_free_slices a) \<and> set (ca_free_slices a) \<inter> U = {} \<and>
     wf_store ps a (set (ca_free_slices a) \<union> U)"
  by (auto simp: wf_allocator_def wf_store_def)

lemma wf_store_frame:
  "ca_heap a' = ca_heap a \<Longrightarrow> ca_slice_size a' = ca_slice_size a \<Longrightarrow> ca_slices_per_batch a' = ca_slices_per_batch a \<Longrightarrow>
   ca_pages_per_batch a' = ca_pages_per_batch a \<Longrightarrow> wf_store ps a' P = wf_store ps a P"
  by (simp add: wf_store_def sizes_ok_def in_blocks_def block_ok_def)

lemma wf_store_subset:
  assumes "wf_store ps a P" "Q \<subseteq> P"
  shows "wf_store ps a Q"
proof -
  have fin: "finite (indices P blk)" for blk using assms(1) finite_indices by (auto simp: wf_store_def)
  have "card (indices Q blk) \<le> card (indices P blk)" for blk
    using assms(2) by (intro card_mono fin) (auto simp: indices_def)
  with assms show ?thesis unfolding wf_store_def block_ok_def in_blocks_def by (meson le_trans subsetD)
qed

section \<open>Preservation\<close>

lemma nth_update_self: "xs[k := f (xs ! k)] ! i = (if k = i \<and> k < length xs then f (xs ! i) else xs ! i)"
  by (cases "k < length xs") (auto simp: nth_list_update list_update_beyond)

lemma indices_remove:
  "indices (P - {p}) blk = (if fst p = blk then indices P blk - {snd p} else indices P blk)"
  by (cases p) (auto simp: indices_def)

text \<open>Changing reference counts of slices keeps the store.\<close>

lemma update_slice_store:
  assumes "wf_store ps a P" and "\<And>s. sl_data (f s) = sl_data s \<and> sl_size (f s) = sl_size s"
  shows "wf_store ps (update_slice f a p) P"
proof (cases "ca_heap a (fst p)")
  case None
  with assms(1) show ?thesis by (simp add: update_slice_def)
next
  case (Some pages)
  define pages' where "pages' = pages\<lparr>pg_elements := (pg_elements pages)[snd p := f (pg_elements pages ! snd p)]\<rparr>"
  define a' where "a' = update_slice f a p"
  have h: "ca_heap a' = (ca_heap a)(fst p \<mapsto> pages')" and c: "ca_slices_per_batch a' = ca_slices_per_batch a"
      "ca_slice_size a' = ca_slice_size a" "ca_pages_per_batch a' = ca_pages_per_batch a"
    using Some by (simp_all add: a'_def update_slice_def pages'_def)
  have "block_ok ps a P (fst p) pages" using assms(1) Some by (simp add: wf_store_def)
  then have ok: "block_ok ps a' P (fst p) pages'"
    using assms(2) by (auto simp: block_ok_def pages'_def c nth_update_self)
  have "blocks_apart ps (ca_heap a')"
    using assms(1) Some unfolding wf_store_def blocks_apart_def h by (auto simp: pages'_def)
  with assms(1) Some ok show ?thesis
    unfolding a'_def [symmetric] wf_store_def
    by (auto simp: h c sizes_ok_def in_blocks_def block_ok_def)
qed

lemma update_slice_fields [simp]:
  "ca_free_slices (update_slice f a p) = ca_free_slices a"
  by (simp add: update_slice_def split: option.splits)

text \<open>Giving up one slice of a block.\<close>

lemma pages_unref_store:
  assumes wf: "wf_store ps a P" and p: "p \<in> P"
  shows "wf_store ps (gum_code_pages_unref a (fst p)) (P - {p})"
proof -
  obtain blk i where bi: "p = (blk, i)" by (cases p)
  from wf p obtain pages where pages: "ca_heap a blk = Some pages"
    by (auto simp: wf_store_def in_blocks_def bi)
  have fin: "finite (indices P blk)" using wf finite_indices by (auto simp: wf_store_def)
  have "i \<in> indices P blk" using p by (simp add: indices_def bi)
  then have card: "card (indices P blk) = Suc (card (indices (P - {p}) blk))"
    using fin by (simp add: indices_remove bi card.remove del: card_Diff_insert)
  define pages' where "pages' = pages\<lparr>pg_ref_count := pg_ref_count pages - 1\<rparr>"
  from wf pages have ok: "block_ok ps a P blk pages" by (simp add: wf_store_def)
  then have "0 < unat (pg_ref_count pages)" using card by (simp add: block_ok_def)
  then have "unat (pg_ref_count pages - 1) = unat (pg_ref_count pages) - 1"
    by (intro unat_minus_one) auto
  with ok card have ok': "block_ok ps a (P - {p}) blk pages'" by (auto simp: block_ok_def pages'_def)
  have other: "block_ok ps a (P - {p}) b q" if "ca_heap a b = Some q" "b \<noteq> blk" for b q
    using wf that by (simp add: wf_store_def block_ok_def indices_remove bi)
  show ?thesis
  proof (cases "pg_ref_count pages' = 0")
    case True
    with ok' have "card (indices (P - {p}) blk) = 0" by (simp add: block_ok_def)
    then have "indices (P - {p}) blk = {}" using fin by (simp add: indices_remove bi)
    then have none: "(blk, j) \<notin> P - {p}" for j by (auto simp: indices_def)
    have e: "gum_code_pages_unref a (fst p) = a\<lparr>ca_heap := (ca_heap a)(blk := None)\<rparr>"
      using True pages by (simp add: gum_code_pages_unref_def Let_def bi pages'_def)
    show ?thesis
      using wf none other unfolding e wf_store_def
      by (auto simp: sizes_ok_def in_blocks_def blocks_apart_def block_ok_def)
  next
    case False
    then have e: "gum_code_pages_unref a (fst p) = a\<lparr>ca_heap := (ca_heap a)(blk \<mapsto> pages')\<rparr>"
      using pages by (simp add: gum_code_pages_unref_def Let_def bi pages'_def)
    have "blocks_apart ps ((ca_heap a)(blk \<mapsto> pages'))"
      using wf pages unfolding wf_store_def blocks_apart_def by (auto simp: pages'_def)
    with wf ok' other show ?thesis
      unfolding e wf_store_def by (auto simp: sizes_ok_def in_blocks_def block_ok_def)
  qed
qed

lemma pages_unref_free [simp]: "ca_free_slices (gum_code_pages_unref a p) = ca_free_slices a"
  by (simp add: gum_code_pages_unref_def Let_def split: option.splits)

lemma unref_all_store:
  "wf_store ps a P \<Longrightarrow> set qs \<subseteq> P \<Longrightarrow> distinct qs \<Longrightarrow> wf_store ps (unref_all a qs) (P - set qs)"
proof (induction qs arbitrary: a P)
  case Nil
  then show ?case by (simp add: unref_all_def)
next
  case (Cons q qs)
  from Cons.prems have "wf_store ps (gum_code_pages_unref a (fst q)) (P - {q})" by (intro pages_unref_store) auto
  from Cons.IH [OF this] Cons.prems show ?case
    by (simp add: unref_all_def Diff_insert2 [symmetric] subset_Diff_insert insert_commute)
qed

text \<open>A new batch: its block is new, its slices are the free ones and the one returned.\<close>

lemma set_batch_push: "set (batch_push blk n fs) = (\<lambda>i. (blk, i)) ` {1..<n} \<union> set fs"
proof (induction n arbitrary: fs)
  case (Suc n)
  then show ?case by (cases n) (auto simp: image_iff)
qed simp

lemma distinct_batch_push:
  "distinct fs \<Longrightarrow> (\<And>i. (blk, i) \<notin> set fs \<or> n \<le> i) \<Longrightarrow> distinct (batch_push blk n fs)"
proof (induction n arbitrary: fs)
  case (Suc n)
  have "distinct (if n = 0 then fs else (blk, n) # fs)" using Suc.prems(1) Suc.prems(2) [of n] by auto
  moreover have "(blk, i) \<notin> set (if n = 0 then fs else (blk, n) # fs) \<or> n \<le> i" for i
    using Suc.prems(2) [of i] by auto
  ultimately show ?case using Suc.IH by simp
qed simp

lemma batch_elements_nth:
  "i < unat (ca_slices_per_batch a) \<Longrightarrow> batch_elements a d ! i =
     \<lparr>sl_data = d + of_nat i * ca_slice_size a, sl_size = ucast (ca_slice_size a), sl_ref_count = 1\<rparr>"
  by (simp add: batch_elements_def)

lemma length_batch_elements [simp]: "length (batch_elements a d) = unat (ca_slices_per_batch a)"
  by (simp add: batch_elements_def)

lemma slices_per_batch_small: "sizes_ok ps a \<Longrightarrow> unat (ca_slices_per_batch a) < 2 ^ 32"
proof -
  assume a: "sizes_ok ps a"
  then have "unat (ca_slices_per_batch a) * 1 \<le> unat (ca_slices_per_batch a) * unat (ca_slice_size a)"
    by (intro mult_le_mono2) (simp add: sizes_ok_def)
  also have "\<dots> < 2 ^ 32" using a by (simp add: sizes_ok_def)
  finally show ?thesis by simp
qed

lemma unat_slices_per_batch: "sizes_ok ps a \<Longrightarrow> unat (ucast (ca_slices_per_batch a) :: guint32) = unat (ca_slices_per_batch a)"
  using slices_per_batch_small [of ps a] by (simp add: unsigned_ucast_eq take_bit_nat_eq_self)

lemma new_block_store:
  assumes wf: "wf_store ps a P" and new: "blk \<notin> dom (ca_heap a)"
    and pages: "pg_elements pages = batch_elements a d" "pg_data pages = d" "pg_ref_count pages = ucast (ca_slices_per_batch a)"
    and apart: "\<forall>q \<in> ran (ca_heap a). disjoint_ranges d (7 * ps) (pg_data q) (7 * ps)"
  shows "wf_store ps (a\<lparr>ca_heap := (ca_heap a)(blk \<mapsto> pages)\<rparr>) (P \<union> Pair blk ` {..<unat (ca_slices_per_batch a)})"
proof -
  define N where "N = unat (ca_slices_per_batch a)"
  have none: "(blk, i) \<notin> P" for i using wf new by (auto simp: wf_store_def in_blocks_def)
  have here: "indices (P \<union> Pair blk ` {..<N}) blk = {..<N}" using none by (auto simp: indices_def)
  have there: "indices (P \<union> Pair blk ` {..<N}) b = indices P b" if "b \<noteq> blk" for b using that by (auto simp: indices_def)
  have "sizes_ok ps a" using wf by (simp add: wf_store_def)
  then have "block_ok ps a (P \<union> Pair blk ` {..<N}) blk pages"
    by (auto simp: block_ok_def pages here batch_elements_nth unat_slices_per_batch simp flip: N_def)
  moreover have "block_ok ps a (P \<union> Pair blk ` {..<N}) b q" if "ca_heap a b = Some q" for b q
  proof -
    from that new have "b \<noteq> blk" by auto
    with wf that there [of b] show ?thesis by (simp add: wf_store_def block_ok_def)
  qed
  moreover have "blocks_apart ps ((ca_heap a)(blk \<mapsto> pages))"
    using wf apart disjoint_ranges_sym unfolding wf_store_def blocks_apart_def
    by (auto simp: pages ran_def split: if_splits)
  ultimately show ?thesis
    using wf unfolding wf_store_def N_def [symmetric] by (auto simp: sizes_ok_def in_blocks_def block_ok_def N_def)
qed

text \<open>The outcome of a batch allocation: nothing, or a new block.\<close>

definition batch_data :: "os_answers \<Rightarrow> GumAddressSpec option \<Rightarrow> gpointer" where
  "batch_data os spec = (if os_rwx_supported os \<or> \<not> os_code_segment_supported os
     then (if spec \<noteq> None then os_pages_near os else os_pages_anywhere os) else os_segment os)"

definition batch_pages :: "os_answers \<Rightarrow> GumAddressSpec option \<Rightarrow> GumCodeAllocator \<Rightarrow> GumCodePages" where
  "batch_pages os spec a = \<lparr>pg_ref_count = ucast (ca_slices_per_batch a),
     pg_segment = (\<not> (os_rwx_supported os \<or> \<not> os_code_segment_supported os)), pg_data = batch_data os spec,
     pg_size = ca_pages_per_batch a * os_page_size os, pg_elements = batch_elements a (batch_data os spec)\<rparr>"

lemma batch_cases:
  assumes "gum_code_allocator_try_alloc_batch_near os a spec = (r, a')" and "0 < unat (ca_slices_per_batch a)"
  obtains "r = None" "a' = a"
  | "r = Some (os_metadata os, 0)" "ca_heap a' = (ca_heap a)(os_metadata os \<mapsto> batch_pages os spec a)"
    "ca_free_slices a' = batch_push (os_metadata os) (unat (ca_slices_per_batch a)) (ca_free_slices a)"
    "ca_slice_size a' = ca_slice_size a" "ca_slices_per_batch a' = ca_slices_per_batch a" "ca_pages_per_batch a' = ca_pages_per_batch a"
proof -
  define pages where "pages = batch_pages os spec a"
  have "(r = None \<and> a' = a) \<or> (r = Some (os_metadata os, 0) \<and> ca_heap a' = (ca_heap a)(os_metadata os \<mapsto> pages) \<and>
      ca_free_slices a' = batch_push (os_metadata os) (unat (ca_slices_per_batch a)) (ca_free_slices a) \<and>
      ca_slice_size a' = ca_slice_size a \<and> ca_slices_per_batch a' = ca_slices_per_batch a \<and> ca_pages_per_batch a' = ca_pages_per_batch a)"
  proof (cases "if os_rwx_supported os \<or> \<not> os_code_segment_supported os then spec \<noteq> None \<and> batch_data os spec = 0
      else batch_data os spec = 0")
    case True
    then have "gum_code_allocator_try_alloc_batch_near os a spec = (None, a)"
      unfolding gum_code_allocator_try_alloc_batch_near_def Let_def batch_data_def [symmetric] by (rule if_P)
    with assms(1) show ?thesis by simp
  next
    case False
    have "ca_slices_per_batch a \<noteq> 0" using assms(2) by auto
    with False assms(1) show ?thesis
      unfolding gum_code_allocator_try_alloc_batch_near_def Let_def batch_data_def [symmetric]
      by (cases "os_rwx_supported os") (auto simp: pages_def batch_pages_def)
  qed
  then show thesis using that by (auto simp: pages_def)
qed

lemma batch_preserves:
  assumes wf: "wf_allocator ps a U" and os: "os_fresh ps os a"
    and r: "gum_code_allocator_try_alloc_batch_near os a spec = (r, a')"
  shows "wf_allocator ps a' (set_option r \<union> U)"
proof -
  define N where "N = unat (ca_slices_per_batch a)"
  define blk where "blk = os_metadata os"
  define pages where "pages = batch_pages os spec a"
  define d where "d = batch_data os spec"
  have N: "0 < N" using wf by (simp add: N_def wf_allocator_def sizes_ok_def)
  have blk: "blk \<notin> dom (ca_heap a)" using os by (simp add: os_fresh_def blk_def)
  have nin: "(blk, i) \<notin> set (ca_free_slices a) \<union> U" for i
    using wf blk by (auto simp: wf_allocator_def in_blocks_def)
  have d: "d \<in> {os_pages_near os, os_pages_anywhere os, os_segment os}" by (simp add: d_def batch_data_def)
  have pages: "pg_elements pages = batch_elements a d" "pg_data pages = d" "pg_ref_count pages = ucast (ca_slices_per_batch a)"
    by (simp_all add: pages_def batch_pages_def d_def)
  show ?thesis
  proof (cases rule: batch_cases [OF r N [unfolded N_def]])
    case 1
    with wf show ?thesis by simp
  next
    case 2
    note new = 2 [folded blk_def N_def pages_def]
    have "set (ca_free_slices a') \<union> (set_option r \<union> U) = set (ca_free_slices a) \<union> U \<union> Pair blk ` {..<N}"
      using N by (auto simp: new set_batch_push image_iff)
    moreover have "wf_store ps (a\<lparr>ca_heap := (ca_heap a)(blk \<mapsto> pages)\<rparr>) (set (ca_free_slices a) \<union> U \<union> Pair blk ` {..<N})"
      unfolding N_def
      using new_block_store [OF _ blk pages, of ps "set (ca_free_slices a) \<union> U"] wf os d
      by (auto simp: os_fresh_def wf_allocator_alt)
    ultimately have "wf_store ps a' (set (ca_free_slices a') \<union> (set_option r \<union> U))"
      using wf_store_frame [of a' "a\<lparr>ca_heap := (ca_heap a)(blk \<mapsto> pages)\<rparr>"] by (simp add: new)
    moreover have "distinct (ca_free_slices a')"
      unfolding new(3) using wf nin by (intro distinct_batch_push) (auto simp: wf_allocator_def)
    moreover have "set (ca_free_slices a') \<inter> (set_option r \<union> U) = {}"
      using wf nin by (auto simp: new set_batch_push wf_allocator_def)
    ultimately show ?thesis by (simp add: wf_allocator_alt)
  qed
qed

lemma alloc_preserves:
  assumes wf: "wf_allocator ps a U" and os: "os_fresh ps os a"
    and r: "gum_code_allocator_try_alloc_slice_near os a spec alignment = (r, a')"
  shows "wf_allocator ps a' (set_option r \<union> U)"
proof (cases "find (usable_slice a spec alignment) (ca_free_slices a)")
  case None
  with r have "gum_code_allocator_try_alloc_batch_near os a spec = (r, a')"
    by (simp add: gum_code_allocator_try_alloc_slice_near_def)
  with wf os show ?thesis by (rule batch_preserves)
next
  case (Some p)
  then have p: "p \<in> set (ca_free_slices a)" by (auto simp: find_Some_iff)
  from Some r have r': "r = Some p" and
    a': "a' = a\<lparr>ca_free_slices := remove1 p (ca_free_slices a), ca_dirty_pages := insert (fst p) (ca_dirty_pages a)\<rparr>"
    by (simp_all add: gum_code_allocator_try_alloc_slice_near_def)
  have "distinct (ca_free_slices a)" using wf by (simp add: wf_allocator_def)
  then have "set (ca_free_slices a') = set (ca_free_slices a) - {p}" by (simp add: a')
  moreover from this p have "set (ca_free_slices a') \<union> (set_option r \<union> U) = set (ca_free_slices a) \<union> U" by (auto simp: r')
  moreover have "wf_store ps a' P = wf_store ps a P" for P by (rule wf_store_frame) (simp_all add: a')
  ultimately show ?thesis using wf p by (auto simp: wf_allocator_alt r' a')
qed

lemma unref_preserves:
  assumes wf: "wf_allocator ps a U" and p: "p \<in> U" and s: "slice_at a p = Some s"
  shows "wf_allocator ps (gum_code_slice_unref os a (Some p)) (if sl_ref_count s = 1 then U - {p} else U)"
proof -
  define b where "b = update_slice (\<lambda>s. s\<lparr>sl_ref_count := sl_ref_count s - 1\<rparr>) a p"
  define P where "P = set (ca_free_slices a) \<union> U"
  have b: "wf_store ps b P" "ca_free_slices b = ca_free_slices a"
    using wf update_slice_store [of ps a P] by (auto simp: b_def P_def wf_allocator_alt)
  have sb: "slice_at b p = Some (s\<lparr>sl_ref_count := sl_ref_count s - 1\<rparr>)"
    using s by (auto simp: b_def slice_at_def update_slice_def split: option.splits if_splits)
  have free: "set (ca_free_slices a) \<inter> U = {}" "distinct (ca_free_slices a)" using wf by (auto simp: wf_allocator_def)
  consider (keep) "sl_ref_count s \<noteq> 1" | (list) "sl_ref_count s = 1" "os_rwx_supported os" | (drop) "sl_ref_count s = 1" "\<not> os_rwx_supported os"
    by blast
  then show ?thesis
  proof cases
    case keep
    then have "gum_code_slice_unref os a (Some p) = b" using sb by (simp add: gum_code_slice_unref_def flip: b_def)
    with keep b free show ?thesis by (simp add: wf_allocator_alt P_def)
  next
    case list
    then have e: "gum_code_slice_unref os a (Some p) = b\<lparr>ca_free_slices := p # ca_free_slices a\<rparr>"
      using sb b by (simp add: gum_code_slice_unref_def flip: b_def)
    have "insert p (set (ca_free_slices a) \<union> (U - {p})) = P" using p by (auto simp: P_def)
    moreover have "wf_store ps (b\<lparr>ca_free_slices := p # ca_free_slices a\<rparr>) P"
      using b(1) wf_store_frame [of "b\<lparr>ca_free_slices := p # ca_free_slices a\<rparr>" b] by simp
    ultimately show ?thesis using list free p by (auto simp: wf_allocator_alt e)
  next
    case drop
    then have e: "gum_code_slice_unref os a (Some p) = gum_code_pages_unref b (fst p)"
      using sb by (simp add: gum_code_slice_unref_def flip: b_def)
    have "P - {p} = set (ca_free_slices a) \<union> (U - {p})" using p free by (auto simp: P_def)
    with pages_unref_store [OF b(1), of p] p drop free b(2) show ?thesis
      by (auto simp: wf_allocator_alt e P_def)
  qed
qed

lemma commit_preserves:
  assumes wf: "wf_allocator ps a U"
  shows "wf_allocator ps (gum_code_allocator_commit os a) U"
proof -
  define b where "b = a\<lparr>ca_uncommitted_pages := [], ca_dirty_pages := {}\<rparr>"
  define P where "P = set (ca_free_slices a) \<union> U"
  have b: "wf_store ps b P" using wf wf_store_frame [of b a] by (simp add: b_def P_def wf_allocator_alt)
  have "P - set (ca_free_slices a) = U" "distinct (ca_free_slices a)"
    using wf by (auto simp: P_def wf_allocator_def)
  with unref_all_store [OF b, of "ca_free_slices a"] have "wf_store ps (unref_all b (ca_free_slices a)) U" by (simp add: P_def)
  then have "wf_store ps ((unref_all b (ca_free_slices a))\<lparr>ca_free_slices := []\<rparr>) U"
    by (simp add: wf_store_def sizes_ok_def in_blocks_def block_ok_def)
  moreover have "wf_allocator ps b U" using wf b by (simp add: wf_allocator_alt P_def b_def)
  ultimately show ?thesis
    by (simp add: gum_code_allocator_commit_def Let_def wf_allocator_alt b_def)
qed

lemma step_preserves: "alloc_step rwx ps c c' \<Longrightarrow> wf_allocator ps (fst c) (snd c) \<Longrightarrow> wf_allocator ps (fst c') (snd c')"
proof (induction rule: alloc_step.induct)
  case (ref p U a)
  then show ?case
    using update_slice_store [of ps a "set (ca_free_slices a) \<union> U"]
    by (simp add: gum_code_slice_ref_def wf_allocator_alt)
qed (simp_all add: alloc_preserves unref_preserves commit_preserves del: Un_insert_left)

section \<open>Reachable states\<close>

definition reachable :: "bool \<Rightarrow> nat \<Rightarrow> client \<Rightarrow> client \<Rightarrow> bool" where
  "reachable rwx ps = (alloc_step rwx ps)\<^sup>*\<^sup>*"

lemma init_wf:
  assumes "os_page_size os = of_nat ps" "0 < unat slice_size" "unat slice_size \<le> 7 * ps" "7 * ps < 2 ^ 32"
  shows "wf_allocator ps (gum_code_allocator_init os slice_size) {}"
proof -
  have "unat (7 * os_page_size os) = 7 * ps" using assms(1,4) by (simp add: unat_word_ariths unat_of_nat)
  then have "unat ((7 * os_page_size os) div slice_size) = 7 * ps div unat slice_size" by (simp add: unat_div)
  moreover have "0 < 7 * ps div unat slice_size" using assms(2,3) by (simp add: div_greater_zero_iff)
  moreover have "7 * ps div unat slice_size * unat slice_size \<le> 7 * ps" by simp
  ultimately show ?thesis
    using assms by (simp add: wf_allocator_def gum_code_allocator_init_def Let_def sizes_ok_def in_blocks_def blocks_apart_def)
qed

lemma reachable_wf:
  assumes "reachable rwx ps c c'" "wf_allocator ps (fst c) (snd c)"
  shows "wf_allocator ps (fst c') (snd c')"
  using assms unfolding reachable_def by (induction rule: rtranclp_induct) (auto intro: step_preserves)

lemma slices_apart:
  assumes "i < j" "j < n" "n * sz \<le> 2 ^ 32" "0 < sz" "sz = unat w"
  shows "disjoint_ranges (d + of_nat i * w) sz (d + of_nat j * w) sz"
proof -
  have "of_nat j * w - of_nat i * w = of_nat ((j - i) * sz)"
    using assms(1,5) by (simp add: of_nat_diff algebra_simps)
  moreover have lt: "(j - i) * sz < 2 ^ 32"
  proof -
    have "(j - i) * sz < n * sz" using assms by (intro mult_strict_right_mono) auto
    with assms(3) show ?thesis by linarith
  qed
  moreover have "sz \<le> (j - i) * sz" using assms(1) by (metis One_nat_def Suc_leI mult_le_mono1 nat_mult_1 zero_less_diff)
  moreover have "unat (of_nat ((j - i) * sz) :: gpointer) = (j - i) * sz"
    using lt by (simp add: unat_of_nat del: of_nat_mult of_nat_diff)
  ultimately have "unat (of_nat j * w - of_nat i * w) = (j - i) * sz" "sz \<le> (j - i) * sz" "(j - i) * sz < 2 ^ 32" by simp_all
  moreover from this have "of_nat j * w - of_nat i * w \<noteq> 0" using assms(4) by (metis le_zero_eq not_gr_zero unsigned_0)
  then have "unat (of_nat i * w - of_nat j * w) = 2 ^ 64 - unat (of_nat j * w - of_nat i * w)"
    using unat_uminus [of "of_nat j * w - of_nat i * w"] by simp
  moreover have "(2::nat) ^ 32 + 2 ^ 32 \<le> 2 ^ 64" by simp
  ultimately show ?thesis unfolding disjoint_ranges_def add_diff_cancel_left by (intro conjI) linarith+
qed

lemma wf_slice:
  assumes "wf_allocator ps a U" "(blk, i) \<in> U"
  obtains pages where "ca_heap a blk = Some pages" "i < unat (ca_slices_per_batch a)"
    "slice_at a (blk, i) = Some (pg_elements pages ! i)"
    "sl_data (pg_elements pages ! i) = pg_data pages + of_nat i * ca_slice_size a"
    "sl_size (pg_elements pages ! i) = ucast (ca_slice_size a)"
proof -
  from assms obtain pages where "ca_heap a blk = Some pages" "i < unat (ca_slices_per_batch a)"
    unfolding wf_allocator_def in_blocks_def by blast
  moreover from this assms(1) have "block_ok ps a (set (ca_free_slices a) \<union> U) blk pages" by (simp add: wf_allocator_def)
  ultimately show thesis using that by (auto simp: block_ok_def slice_at_def)
qed

lemma slice_size_small: "sizes_ok ps a \<Longrightarrow> unat (ucast (ca_slice_size a) :: guint) = unat (ca_slice_size a)"
proof -
  assume a: "sizes_ok ps a"
  then have "1 * unat (ca_slice_size a) \<le> unat (ca_slices_per_batch a) * unat (ca_slice_size a)"
    by (intro mult_le_mono1) (simp add: sizes_ok_def)
  also have "\<dots> < 2 ^ 32" using a by (simp add: sizes_ok_def)
  finally have "unat (ca_slice_size a) < 2 ^ 32" by simp
  then show ?thesis by (simp add: unsigned_ucast_eq take_bit_nat_eq_self)
qed

text \<open>A slice lies within the pages of its block.\<close>

lemma slice_within:
  assumes "sizes_ok ps a" "i < unat (ca_slices_per_batch a)"
  shows "i * unat (ca_slice_size a) + unat (ca_slice_size a) \<le> 7 * ps"
proof -
  have "Suc i * unat (ca_slice_size a) \<le> unat (ca_slices_per_batch a) * unat (ca_slice_size a)"
    using assms(2) by (intro mult_le_mono1) simp
  with assms(1) show ?thesis by (simp add: sizes_ok_def)
qed

lemma held_slices_apart:
  assumes wf: "wf_allocator ps a U" and "p \<in> U" "q \<in> U" "p \<noteq> q"
  shows "\<exists>s t. slice_at a p = Some s \<and> slice_at a q = Some t \<and>
    disjoint_ranges (sl_data s) (unat (sl_size s)) (sl_data t) (unat (sl_size t))"
proof -
  obtain b i c j where pq: "p = (b, i)" "q = (c, j)" by (cases p, cases q) auto
  define sz where "sz = unat (ca_slice_size a)"
  have ok: "sizes_ok ps a" using wf by (simp add: wf_allocator_def)
  from assms pq obtain P where P: "ca_heap a b = Some P" "i < unat (ca_slices_per_batch a)" "slice_at a p = Some (pg_elements P ! i)"
      "sl_data (pg_elements P ! i) = pg_data P + of_nat i * ca_slice_size a" "sl_size (pg_elements P ! i) = ucast (ca_slice_size a)"
    by (auto elim: wf_slice)
  from assms pq obtain Q where Q: "ca_heap a c = Some Q" "j < unat (ca_slices_per_batch a)" "slice_at a q = Some (pg_elements Q ! j)"
      "sl_data (pg_elements Q ! j) = pg_data Q + of_nat j * ca_slice_size a" "sl_size (pg_elements Q ! j) = ucast (ca_slice_size a)"
    by (auto elim: wf_slice)
  have sz: "0 < sz" "unat (ca_slices_per_batch a) * sz \<le> 2 ^ 32" using ok by (auto simp: sizes_ok_def sz_def)
  have prod: "of_nat k * ca_slice_size a = of_nat (k * sz)" for k by (simp add: sz_def)
  have "disjoint_ranges (pg_data P + of_nat i * ca_slice_size a) sz (pg_data Q + of_nat j * ca_slice_size a) sz"
  proof (cases "b = c")
    case True
    with pq assms(4) have "i < j \<or> j < i" by auto
    then show ?thesis
      using True P Q slices_apart [OF _ Q(2) sz(2,1) sz_def, of i "pg_data P"] slices_apart [OF _ P(2) sz(2,1) sz_def, of j "pg_data P"]
        disjoint_ranges_sym by auto
  next
    case False
    with wf P(1) Q(1) have "disjoint_ranges (pg_data P) (7 * ps) (pg_data Q) (7 * ps)"
      by (auto simp: wf_allocator_def blocks_apart_def)
    moreover have "i * sz + sz \<le> 7 * ps" "j * sz + sz \<le> 7 * ps" using slice_within [OF ok] P(2) Q(2) by (auto simp: sz_def)
    ultimately have "disjoint_ranges (pg_data P) (7 * ps) (pg_data Q + of_nat (j * sz)) sz"
      using sz(1) by (intro disjoint_ranges_part) auto
    with \<open>i * sz + sz \<le> 7 * ps\<close> sz(1) show ?thesis
      unfolding prod by (subst disjoint_ranges_sym, intro disjoint_ranges_part) (auto simp: disjoint_ranges_sym)
  qed
  with P Q slice_size_small [OF ok] show ?thesis by (auto simp: sz_def)
qed

text \<open>
  C19: Held slices never overlap. From a fresh allocator, after any sequence of allocations (near an
  address or not), references, releases and commits, with an environment that grants memory not in
  use: every slice a client holds is in a live block and off the free list, and any two of them
  occupy disjoint memory.
\<close>

theorem held_slices_disjoint:
  assumes "reachable rwx ps (gum_code_allocator_init os slice_size, {}) (a, U)"
    and "os_page_size os = of_nat ps" "0 < unat slice_size" "unat slice_size \<le> 7 * ps" "7 * ps < 2 ^ 32"
    and "p \<in> U" "q \<in> U" "p \<noteq> q"
  shows "p \<notin> set (ca_free_slices a) \<and> (\<exists>s t. slice_at a p = Some s \<and> slice_at a q = Some t \<and>
    disjoint_ranges (sl_data s) (unat (sl_size s)) (sl_data t) (unat (sl_size t)))"
proof -
  have "wf_allocator ps a U" using reachable_wf [OF assms(1)] init_wf [OF assms(2-5)] by simp
  with held_slices_apart [OF this assms(6-8)] assms(6) show ?thesis by (auto simp: wf_allocator_def)
qed

text \<open>
  A recycled slice is lost. Where code pages are writable and executable at once, a released
  slice goes back to the free list and is handed out again, but with the reference count it was
  released with: releasing it a second time wraps the count and returns it nowhere.
\<close>

theorem recycled_slice_is_lost:
  assumes "os_rwx_supported os" "slice_at a p = Some s" "sl_ref_count s = 1" "p \<notin> set (ca_free_slices a)"
    and "a1 = gum_code_slice_unref os a (Some p)" and "(r, a2) = gum_code_allocator_alloc_slice os a1"
    and "a3 = gum_code_slice_unref os a2 (Some p)"
  shows "p \<in> set (ca_free_slices a1) \<and> r = Some p \<and> p \<notin> set (ca_free_slices a3) \<and>
    slice_at a3 p = Some (s\<lparr>sl_ref_count := 0xffffffff\<rparr>)"
proof -
  define dec :: "GumCodeSlice \<Rightarrow> GumCodeSlice" where "dec = (\<lambda>s. s\<lparr>sl_ref_count := sl_ref_count s - 1\<rparr>)"
  have upd: "slice_at (update_slice dec b p) p = Some (dec t)" if "slice_at b p = Some t" for b t
    using that by (auto simp: slice_at_def update_slice_def split: option.splits if_splits)
  have a1: "a1 = (update_slice dec a p)\<lparr>ca_free_slices := p # ca_free_slices a\<rparr>"
    using assms(1,3,5) upd [OF assms(2)] by (simp add: gum_code_slice_unref_def dec_def [symmetric]) (simp add: dec_def)
  have s1: "slice_at a1 p = Some (dec s)" using upd [OF assms(2)] by (simp add: a1 slice_at_def)
  have r2: "r = Some p \<and> a2 = a1\<lparr>ca_free_slices := ca_free_slices a, ca_dirty_pages := insert (fst p) (ca_dirty_pages a1)\<rparr>"
    using assms(6) s1
    by (simp add: gum_code_allocator_alloc_slice_def gum_code_allocator_try_alloc_slice_near_def usable_slice_def
        gum_code_slice_is_near_def gum_code_slice_is_aligned_def a1)
  then have s2: "slice_at a2 p = Some (dec s)" using s1 by (simp add: slice_at_def)
  from upd [OF s2] assms(3) have s3: "slice_at (update_slice dec a2 p) p = Some (s\<lparr>sl_ref_count := 0xffffffff\<rparr>)"
    by (simp add: dec_def)
  then have "a3 = update_slice dec a2 p"
    using assms(7) by (simp add: gum_code_slice_unref_def flip: dec_def)
  with s3 r2 assms(4) show ?thesis by (simp add: a1)
qed

section \<open>Witnesses\<close>

definition sample_os :: os_answers where
  "sample_os = \<lparr>os_page_size = 4096, os_rwx_supported = True, os_code_segment_supported = False, os_pages_near = 0x70000,
     os_pages_anywhere = 0x70000, os_segment = 0x70000, os_metadata = 0x9000\<rparr>"

definition sample_fresh :: GumCodeAllocator where
  "sample_fresh = gum_code_allocator_init sample_os 0x3800"

lemma sample_fresh_fields [simp]:
  "ca_slices_per_batch sample_fresh = 2" "ca_free_slices sample_fresh = []" "ca_heap sample_fresh = Map.empty"
  "ca_slice_size sample_fresh = 0x3800" "ca_pages_per_batch sample_fresh = 7" "ca_dirty_pages sample_fresh = {}"
  by (simp_all add: sample_fresh_def gum_code_allocator_init_def sample_os_def Let_def)

definition sample_one :: GumCodeAllocator where
  "sample_one = sample_fresh\<lparr>ca_heap := [0x9000 \<mapsto> batch_pages sample_os None sample_fresh],
     ca_free_slices := [(0x9000, 1)], ca_dirty_pages := {0x9000}\<rparr>"

lemma sample_first: "gum_code_allocator_alloc_slice sample_os sample_fresh = (Some (0x9000, 0), sample_one)"
proof -
  have "batch_push 0x9000 2 [] = [(0x9000, 1)]" by (simp add: numeral_2_eq_2)
  then show ?thesis
    by (simp add: gum_code_allocator_alloc_slice_def gum_code_allocator_try_alloc_slice_near_def sample_one_def
        gum_code_allocator_try_alloc_batch_near_def batch_pages_def batch_data_def Let_def sample_os_def)
qed

lemma sample_slice: "\<exists>s. slice_at sample_one (0x9000, i) = Some s \<and> sl_ref_count s = 1" if "i < 2"
  using that by (simp add: sample_one_def slice_at_def batch_pages_def batch_elements_nth)

lemma sample_second:
  "gum_code_allocator_try_alloc_slice_near os sample_one None 0 =
     (Some (0x9000, 1), sample_one\<lparr>ca_free_slices := [], ca_dirty_pages := {0x9000}\<rparr>)"
proof -
  have "usable_slice sample_one None 0 (0x9000, 1)"
    using sample_slice [of 1] by (auto simp: usable_slice_def gum_code_slice_is_near_def gum_code_slice_is_aligned_def)
  moreover have "ca_free_slices sample_one = [(0x9000, 1)]" "ca_dirty_pages sample_one = {0x9000}" by (simp_all add: sample_one_def)
  ultimately show ?thesis by (simp add: gum_code_allocator_try_alloc_slice_near_def)
qed

lemma sample_reachable:
  "reachable True 4096 (sample_fresh, {}) (sample_one\<lparr>ca_free_slices := [], ca_dirty_pages := {0x9000}\<rparr>, {(0x9000, 0), (0x9000, 1)})"
proof -
  define os2 where "os2 = sample_os\<lparr>os_metadata := 0x8000, os_pages_near := 0x90000, os_pages_anywhere := 0x90000, os_segment := 0x90000\<rparr>"
  have "alloc_step True 4096 (sample_fresh, {}) (sample_one, {(0x9000, 0)})"
    using alloc_step.alloc [of sample_os True 4096 sample_fresh None 0 "Some (0x9000, 0)" sample_one "{}"] sample_first
    by (simp add: gum_code_allocator_alloc_slice_def os_fresh_def) (simp add: sample_os_def)
  moreover have "os_rwx_supported os2 = True" "os_fresh 4096 os2 sample_one"
    by (simp_all add: os2_def sample_os_def os_fresh_def sample_one_def batch_pages_def batch_data_def disjoint_ranges_def ran_def)
  from alloc_step.alloc [OF this sample_second, of "{(0x9000, 0)}"]
  have "alloc_step True 4096 (sample_one, {(0x9000, 0)})
      (sample_one\<lparr>ca_free_slices := [], ca_dirty_pages := {0x9000}\<rparr>, {(0x9000, 0), (0x9000, 1)})" by (simp add: insert_commute)
  ultimately show ?thesis unfolding reachable_def by simp
qed

theorem held_slices_disjoint_witness:
  "\<exists>s t. slice_at (sample_one\<lparr>ca_free_slices := [], ca_dirty_pages := {0x9000}\<rparr>) (0x9000, 0) = Some s \<and>
    slice_at (sample_one\<lparr>ca_free_slices := [], ca_dirty_pages := {0x9000}\<rparr>) (0x9000, 1) = Some t \<and>
    disjoint_ranges (sl_data s) (unat (sl_size s)) (sl_data t) (unat (sl_size t))"
  using held_slices_disjoint [OF sample_reachable [unfolded sample_fresh_def], of "(0x9000, 0)" "(0x9000, 1)"]
  by (simp add: sample_os_def)

theorem recycled_slice_is_lost_witness:
  "\<exists>a1 a2. a1 = gum_code_slice_unref sample_os sample_one (Some (0x9000, 0)) \<and>
    gum_code_allocator_alloc_slice sample_os a1 = (Some (0x9000, 0), a2) \<and>
    (0x9000, 0) \<notin> set (ca_free_slices (gum_code_slice_unref sample_os a2 (Some (0x9000, 0))))"
proof -
  define a1 where "a1 = gum_code_slice_unref sample_os sample_one (Some (0x9000, 0))"
  obtain r a2 where r: "gum_code_allocator_alloc_slice sample_os a1 = (r, a2)" by fastforce
  obtain s where "slice_at sample_one (0x9000, 0) = Some s" "sl_ref_count s = 1" using sample_slice [of 0] by auto
  from recycled_slice_is_lost [OF _ this _ a1_def r [symmetric] refl] r a1_def show ?thesis
    by (simp add: sample_os_def sample_one_def)
qed

end
