(* ===== verification/Gum_Metal_Hash.thy ===== *)
theory Gum_Metal_Hash
  imports Gum_Prelude
begin

text \<open>
  \<^verbatim>\<open>src/frida-gum/gum/gummetalhash.c\<close>: the open-addressing hash table behind the writer's labels and the
  interceptor's tables. Slots are probed at triangular distances from the key's home slot; removed
  entries leave a tombstone.

  The members of type \<^verbatim>\<open>gint\<close> are never negative and are natural numbers here (the invariant of
  \<^verbatim>\<open>Gum_Metal_Hash_Correct\<close> keeps them below \<open>2 ^ 31\<close>); hashes, indices and steps are the 32-bit words
  of the source. The member \<^verbatim>\<open>values\<close> may be the same array as \<^verbatim>\<open>keys\<close>: \<open>None\<close> stands for that. Calls
  of the two destroy functions are recorded in \<open>ht_notified\<close>, the latest first. A loop that might not
  end runs on fuel, one more than the number of slots, and \<open>None\<close> is an endless loop; that it does not
  happen is a theorem.
\<close>

section \<open>State\<close>

datatype notice = Key_destroyed gpointer | Value_destroyed gpointer

record GumMetalHashTable =
  ht_size :: nat
  ht_mod :: nat
  ht_mask :: guint
  ht_nnodes :: nat
  ht_noccupied :: nat
  ht_keys :: "gpointer list"
  ht_hashes :: "guint list"
  ht_values :: "gpointer list option"
  ht_hash_func :: "gpointer \<Rightarrow> guint"
  ht_key_equal_func :: "(gpointer \<Rightarrow> gpointer \<Rightarrow> bool) option"
  ht_ref_count :: nat
  ht_key_destroy_func :: bool
  ht_value_destroy_func :: bool
  ht_notified :: "notice list"

record RealIter =
  ri_position :: int

definition HASH_TABLE_MIN_SHIFT :: nat where
  "HASH_TABLE_MIN_SHIFT = 3"

definition UNUSED_HASH_VALUE :: guint where
  "UNUSED_HASH_VALUE = 0"

definition TOMBSTONE_HASH_VALUE :: guint where
  "TOMBSTONE_HASH_VALUE = 1"

definition HASH_IS_UNUSED :: "guint \<Rightarrow> bool" where
  "HASH_IS_UNUSED h \<longleftrightarrow> h = UNUSED_HASH_VALUE"

definition HASH_IS_TOMBSTONE :: "guint \<Rightarrow> bool" where
  "HASH_IS_TOMBSTONE h \<longleftrightarrow> h = TOMBSTONE_HASH_VALUE"

definition HASH_IS_REAL :: "guint \<Rightarrow> bool" where
  "HASH_IS_REAL h \<longleftrightarrow> h \<ge> 2"

definition prime_mod :: "nat list" where
  "prime_mod =
     [1, 2, 3, 7, 13, 31, 61, 127, 251, 509, 1021, 2039, 4093, 8191, 16381, 32749, 65521, 131071, 262139, 524287,
      1048573, 2097143, 4194301, 8388593, 16777213, 33554393, 67108859, 134217689, 268435399, 536870909, 1073741789,
      2147483647]"

text \<open>The array read through the member \<^verbatim>\<open>values\<close>, and a store through it.\<close>

definition values_of :: "GumMetalHashTable \<Rightarrow> gpointer list" where
  "values_of t = (case ht_values t of None \<Rightarrow> ht_keys t | Some vs \<Rightarrow> vs)"

definition set_value :: "GumMetalHashTable \<Rightarrow> nat \<Rightarrow> gpointer \<Rightarrow> GumMetalHashTable" where
  "set_value t i v =
     (case ht_values t of
        None \<Rightarrow> t\<lparr>ht_keys := (ht_keys t)[i := v]\<rparr>
      | Some vs \<Rightarrow> t\<lparr>ht_values := Some (vs[i := v])\<rparr>)"

section \<open>Sizes\<close>

fun shift_mask :: "nat \<Rightarrow> guint" where
  "shift_mask 0 = 0"
| "shift_mask (Suc i) = push_bit 1 (shift_mask i) OR 1"

definition gum_metal_hash_table_set_shift :: "GumMetalHashTable \<Rightarrow> nat \<Rightarrow> GumMetalHashTable" where
  "gum_metal_hash_table_set_shift hash_table shift =
     hash_table\<lparr>ht_size := 2 ^ shift, ht_mod := prime_mod ! shift, ht_mask := shift_mask shift\<rparr>"

fun gum_metal_hash_table_find_closest_shift :: "nat \<Rightarrow> nat" where
  "gum_metal_hash_table_find_closest_shift n =
     (if n = 0 then 0 else Suc (gum_metal_hash_table_find_closest_shift (n div 2)))"

declare gum_metal_hash_table_find_closest_shift.simps [simp del]

definition gum_metal_hash_table_set_shift_from_size :: "GumMetalHashTable \<Rightarrow> nat \<Rightarrow> GumMetalHashTable" where
  "gum_metal_hash_table_set_shift_from_size hash_table sz =
     (let shift = gum_metal_hash_table_find_closest_shift sz;
          shift = max shift HASH_TABLE_MIN_SHIFT
      in gum_metal_hash_table_set_shift hash_table shift)"

section \<open>Finding a node\<close>

definition keys_equal :: "GumMetalHashTable \<Rightarrow> gpointer \<Rightarrow> gpointer \<Rightarrow> bool" where
  "keys_equal t a b = (case ht_key_equal_func t of None \<Rightarrow> a = b | Some f \<Rightarrow> f a b)"

fun lookup_loop :: "GumMetalHashTable \<Rightarrow> gpointer \<Rightarrow> guint \<Rightarrow> nat \<Rightarrow> guint \<Rightarrow> guint \<Rightarrow> guint option \<Rightarrow> guint option" where
  "lookup_loop t key hash_value 0 node_index step first_tombstone = None"
| "lookup_loop t key hash_value (Suc fuel) node_index step first_tombstone =
     (let node_hash = ht_hashes t ! unat node_index
      in if HASH_IS_UNUSED node_hash
         then Some (case first_tombstone of Some i \<Rightarrow> i | None \<Rightarrow> node_index)
         else if node_hash = hash_value \<and> keys_equal t (ht_keys t ! unat node_index) key then Some node_index
         else
           let first_tombstone =
                 (if node_hash \<noteq> hash_value \<and> HASH_IS_TOMBSTONE node_hash \<and> first_tombstone = None
                  then Some node_index else first_tombstone);
               step = step + 1
           in lookup_loop t key hash_value fuel ((node_index + step) AND ht_mask t) step first_tombstone)"

text \<open>The hash under which a key is stored: the two reserved values are avoided.\<close>

definition real_hash :: "GumMetalHashTable \<Rightarrow> gpointer \<Rightarrow> guint" where
  "real_hash t key = (let hash_value = ht_hash_func t key in if \<not> HASH_IS_REAL hash_value then 2 else hash_value)"

definition gum_metal_hash_table_lookup_node :: "GumMetalHashTable \<Rightarrow> gpointer \<Rightarrow> (guint \<times> guint) option" where
  "gum_metal_hash_table_lookup_node hash_table key =
     (let hash_value = real_hash hash_table key;
          node_index = of_nat (unat hash_value mod ht_mod hash_table)
      in map_option (\<lambda>i. (i, hash_value))
           (lookup_loop hash_table key hash_value (Suc (ht_size hash_table)) node_index 0 None))"

section \<open>Removing nodes\<close>

definition notify_key :: "GumMetalHashTable \<Rightarrow> gpointer \<Rightarrow> GumMetalHashTable" where
  "notify_key t key = (if ht_key_destroy_func t then t\<lparr>ht_notified := Key_destroyed key # ht_notified t\<rparr> else t)"

definition notify_value :: "GumMetalHashTable \<Rightarrow> gpointer \<Rightarrow> GumMetalHashTable" where
  "notify_value t value = (if ht_value_destroy_func t then t\<lparr>ht_notified := Value_destroyed value # ht_notified t\<rparr> else t)"

definition gum_metal_hash_table_remove_node :: "GumMetalHashTable \<Rightarrow> nat \<Rightarrow> bool \<Rightarrow> GumMetalHashTable" where
  "gum_metal_hash_table_remove_node hash_table i notify =
     (let key = ht_keys hash_table ! i;
          value = values_of hash_table ! i;
          t = hash_table\<lparr>ht_hashes := (ht_hashes hash_table)[i := TOMBSTONE_HASH_VALUE]\<rparr>;
          t = t\<lparr>ht_keys := (ht_keys t)[i := 0]\<rparr>;
          t = set_value t i 0;
          t = t\<lparr>ht_nnodes := ht_nnodes t - 1\<rparr>;
          t = (if notify then notify_key t key else t)
      in if notify then notify_value t value else t)"

definition clear_slot :: "nat \<Rightarrow> GumMetalHashTable \<Rightarrow> GumMetalHashTable" where
  "clear_slot i t =
     (if HASH_IS_REAL (ht_hashes t ! i)
      then
        let key = ht_keys t ! i;
            value = values_of t ! i;
            t = t\<lparr>ht_hashes := (ht_hashes t)[i := UNUSED_HASH_VALUE]\<rparr>;
            t = t\<lparr>ht_keys := (ht_keys t)[i := 0]\<rparr>;
            t = set_value t i 0;
            t = notify_key t key
        in notify_value t value
      else if HASH_IS_TOMBSTONE (ht_hashes t ! i)
      then t\<lparr>ht_hashes := (ht_hashes t)[i := UNUSED_HASH_VALUE]\<rparr>
      else t)"

definition gum_metal_hash_table_remove_all_nodes :: "GumMetalHashTable \<Rightarrow> bool \<Rightarrow> GumMetalHashTable" where
  "gum_metal_hash_table_remove_all_nodes hash_table notify =
     (let t = hash_table\<lparr>ht_nnodes := 0, ht_noccupied := 0\<rparr>
      in if \<not> notify \<or> (\<not> ht_key_destroy_func t \<and> \<not> ht_value_destroy_func t)
         then t\<lparr>ht_hashes := replicate (ht_size t) 0, ht_keys := replicate (ht_size t) 0,
                ht_values := map_option (\<lambda>_. replicate (ht_size t) 0) (ht_values t)\<rparr>
         else fold clear_slot [0..<ht_size t] t)"

section \<open>Resizing\<close>

fun free_slot :: "guint list \<Rightarrow> guint \<Rightarrow> nat \<Rightarrow> guint \<Rightarrow> guint \<Rightarrow> guint option" where
  "free_slot hashes msk 0 hash_val step = None"
| "free_slot hashes msk (Suc fuel) hash_val step =
     (if HASH_IS_UNUSED (hashes ! unat hash_val) then Some hash_val
      else let step = step + 1 in free_slot hashes msk fuel ((hash_val + step) AND msk) step)"

text \<open>
  One round of the copying loop: the new arrays are the ones of \<open>new\<close>, the table being built, whose
  size, modulus and mask have been set; \<open>old\<close> is the table as it was.
\<close>

definition resize_one :: "GumMetalHashTable \<Rightarrow> nat \<Rightarrow> GumMetalHashTable \<Rightarrow> GumMetalHashTable option" where
  "resize_one old i new =
     (let node_hash = ht_hashes old ! i
      in if \<not> HASH_IS_REAL node_hash then Some new
         else
           case free_slot (ht_hashes new) (ht_mask new) (Suc (ht_size new)) (of_nat (unat node_hash mod ht_mod new)) 0 of
             None \<Rightarrow> None
           | Some hash_val \<Rightarrow>
               (let new = new\<lparr>ht_hashes := (ht_hashes new)[unat hash_val := node_hash]\<rparr>;
                    new = new\<lparr>ht_keys := (ht_keys new)[unat hash_val := ht_keys old ! i]\<rparr>
                in Some (set_value new (unat hash_val) (values_of old ! i))))"

fun resize_loop :: "GumMetalHashTable \<Rightarrow> nat list \<Rightarrow> GumMetalHashTable \<Rightarrow> GumMetalHashTable option" where
  "resize_loop old [] new = Some new"
| "resize_loop old (i # is) new =
     (case resize_one old i new of None \<Rightarrow> None | Some new \<Rightarrow> resize_loop old is new)"

definition gum_metal_hash_table_resize :: "GumMetalHashTable \<Rightarrow> GumMetalHashTable option" where
  "gum_metal_hash_table_resize hash_table =
     (let old_size = ht_size hash_table;
          t = gum_metal_hash_table_set_shift_from_size hash_table (ht_nnodes hash_table * 2);
          new = t\<lparr>ht_keys := replicate (ht_size t) 0,
                  ht_values := map_option (\<lambda>_. replicate (ht_size t) 0) (ht_values hash_table),
                  ht_hashes := replicate (ht_size t) 0\<rparr>
      in map_option (\<lambda>t. t\<lparr>ht_noccupied := ht_nnodes t\<rparr>) (resize_loop hash_table [0..<old_size] new))"

definition gum_metal_hash_table_maybe_resize :: "GumMetalHashTable \<Rightarrow> GumMetalHashTable option" where
  "gum_metal_hash_table_maybe_resize hash_table =
     (let noccupied = ht_noccupied hash_table;
          sz = ht_size hash_table
      in if (sz > ht_nnodes hash_table * 4 \<and> sz > 2 ^ HASH_TABLE_MIN_SHIFT) \<or> sz \<le> noccupied + noccupied div 16
         then gum_metal_hash_table_resize hash_table
         else Some hash_table)"

section \<open>Life cycle\<close>

text \<open>\<^verbatim>\<open>g_direct_hash\<close> converts the pointer to an unsigned integer.\<close>

definition g_direct_hash :: "gpointer \<Rightarrow> guint" where
  "g_direct_hash v = ucast v"

definition gum_metal_hash_table_new_full ::
    "(gpointer \<Rightarrow> guint) option \<Rightarrow> (gpointer \<Rightarrow> gpointer \<Rightarrow> bool) option \<Rightarrow> bool \<Rightarrow> bool \<Rightarrow> GumMetalHashTable" where
  "gum_metal_hash_table_new_full hash_func key_equal_func key_destroy_func value_destroy_func =
     \<lparr>ht_size = 2 ^ HASH_TABLE_MIN_SHIFT, ht_mod = prime_mod ! HASH_TABLE_MIN_SHIFT,
      ht_mask = shift_mask HASH_TABLE_MIN_SHIFT, ht_nnodes = 0, ht_noccupied = 0,
      ht_keys = replicate (2 ^ HASH_TABLE_MIN_SHIFT) 0, ht_hashes = replicate (2 ^ HASH_TABLE_MIN_SHIFT) 0,
      ht_values = None,
      ht_hash_func = (case hash_func of None \<Rightarrow> g_direct_hash | Some f \<Rightarrow> f),
      ht_key_equal_func = key_equal_func, ht_ref_count = 1,
      ht_key_destroy_func = key_destroy_func, ht_value_destroy_func = value_destroy_func, ht_notified = []\<rparr>"

definition gum_metal_hash_table_new ::
    "(gpointer \<Rightarrow> guint) option \<Rightarrow> (gpointer \<Rightarrow> gpointer \<Rightarrow> bool) option \<Rightarrow> GumMetalHashTable" where
  "gum_metal_hash_table_new hash_func key_equal_func = gum_metal_hash_table_new_full hash_func key_equal_func False False"

definition gum_metal_hash_table_ref :: "GumMetalHashTable \<Rightarrow> GumMetalHashTable" where
  "gum_metal_hash_table_ref hash_table = hash_table\<lparr>ht_ref_count := ht_ref_count hash_table + 1\<rparr>"

text \<open>Whether the table was freed, and the table (before the arrays and the struct are released).\<close>

definition gum_metal_hash_table_unref :: "GumMetalHashTable \<Rightarrow> bool \<times> GumMetalHashTable" where
  "gum_metal_hash_table_unref hash_table =
     (let t = hash_table\<lparr>ht_ref_count := ht_ref_count hash_table - 1\<rparr>
      in if ht_ref_count t = 0 then (True, gum_metal_hash_table_remove_all_nodes t True) else (False, t))"

section \<open>Inserting\<close>

definition gum_metal_hash_table_insert_node ::
    "GumMetalHashTable \<Rightarrow> nat \<Rightarrow> guint \<Rightarrow> gpointer \<Rightarrow> gpointer \<Rightarrow> bool \<Rightarrow> bool \<Rightarrow> (bool \<times> GumMetalHashTable) option" where
  "gum_metal_hash_table_insert_node hash_table node_index key_hash new_key new_value keep_new_key reusing_key =
     (let t = hash_table;
          old_hash = ht_hashes t ! node_index;
          already_exists = HASH_IS_REAL old_hash;
          value_to_free = values_of t ! node_index;
          key_to_free = (if keep_new_key then ht_keys t ! node_index else new_key);
          t = (if already_exists
               then (if keep_new_key then t\<lparr>ht_keys := (ht_keys t)[node_index := new_key]\<rparr> else t)
               else t\<lparr>ht_hashes := (ht_hashes t)[node_index := key_hash],
                      ht_keys := (ht_keys t)[node_index := new_key]\<rparr>);
          t = (if ht_values t = None \<and> ht_keys t ! node_index \<noteq> new_value
               then t\<lparr>ht_values := Some (ht_keys t)\<rparr> else t);
          t = set_value t node_index new_value
      in case (if already_exists then Some t
               else
                 let t = t\<lparr>ht_nnodes := ht_nnodes t + 1\<rparr>
                 in if HASH_IS_UNUSED old_hash
                    then gum_metal_hash_table_maybe_resize (t\<lparr>ht_noccupied := ht_noccupied t + 1\<rparr>)
                    else Some t) of
           None \<Rightarrow> None
         | Some t \<Rightarrow>
             (let t = (if already_exists \<and> \<not> reusing_key then notify_key t key_to_free else t);
                  t = (if already_exists then notify_value t value_to_free else t)
              in Some (\<not> already_exists, t)))"

definition gum_metal_hash_table_insert_internal ::
    "GumMetalHashTable \<Rightarrow> gpointer \<Rightarrow> gpointer \<Rightarrow> bool \<Rightarrow> (bool \<times> GumMetalHashTable) option" where
  "gum_metal_hash_table_insert_internal hash_table key value keep_new_key =
     (case gum_metal_hash_table_lookup_node hash_table key of
        None \<Rightarrow> None
      | Some (node_index, key_hash) \<Rightarrow>
          gum_metal_hash_table_insert_node hash_table (unat node_index) key_hash key value keep_new_key False)"

definition gum_metal_hash_table_insert ::
    "GumMetalHashTable \<Rightarrow> gpointer \<Rightarrow> gpointer \<Rightarrow> (bool \<times> GumMetalHashTable) option" where
  "gum_metal_hash_table_insert hash_table key value = gum_metal_hash_table_insert_internal hash_table key value False"

definition gum_metal_hash_table_replace ::
    "GumMetalHashTable \<Rightarrow> gpointer \<Rightarrow> gpointer \<Rightarrow> (bool \<times> GumMetalHashTable) option" where
  "gum_metal_hash_table_replace hash_table key value = gum_metal_hash_table_insert_internal hash_table key value True"

definition gum_metal_hash_table_add :: "GumMetalHashTable \<Rightarrow> gpointer \<Rightarrow> (bool \<times> GumMetalHashTable) option" where
  "gum_metal_hash_table_add hash_table key = gum_metal_hash_table_insert_internal hash_table key key True"

section \<open>Looking up and removing\<close>

definition gum_metal_hash_table_lookup :: "GumMetalHashTable \<Rightarrow> gpointer \<Rightarrow> gpointer option" where
  "gum_metal_hash_table_lookup hash_table key =
     map_option (\<lambda>(i, _). if HASH_IS_REAL (ht_hashes hash_table ! unat i) then values_of hash_table ! unat i else 0)
       (gum_metal_hash_table_lookup_node hash_table key)"

text \<open>The inner option is \<^verbatim>\<open>FALSE\<close>, or the original key and the value.\<close>

definition gum_metal_hash_table_lookup_extended ::
    "GumMetalHashTable \<Rightarrow> gpointer \<Rightarrow> (gpointer \<times> gpointer) option option" where
  "gum_metal_hash_table_lookup_extended hash_table lookup_key =
     map_option (\<lambda>(i, _). if \<not> HASH_IS_REAL (ht_hashes hash_table ! unat i) then None
                           else Some (ht_keys hash_table ! unat i, values_of hash_table ! unat i))
       (gum_metal_hash_table_lookup_node hash_table lookup_key)"

definition gum_metal_hash_table_contains :: "GumMetalHashTable \<Rightarrow> gpointer \<Rightarrow> bool option" where
  "gum_metal_hash_table_contains hash_table key =
     map_option (\<lambda>(i, _). HASH_IS_REAL (ht_hashes hash_table ! unat i)) (gum_metal_hash_table_lookup_node hash_table key)"

definition gum_metal_hash_table_remove_internal ::
    "GumMetalHashTable \<Rightarrow> gpointer \<Rightarrow> bool \<Rightarrow> (bool \<times> GumMetalHashTable) option" where
  "gum_metal_hash_table_remove_internal hash_table key notify =
     (case gum_metal_hash_table_lookup_node hash_table key of
        None \<Rightarrow> None
      | Some (node_index, _) \<Rightarrow>
          (if \<not> HASH_IS_REAL (ht_hashes hash_table ! unat node_index) then Some (False, hash_table)
           else map_option (Pair True)
                  (gum_metal_hash_table_maybe_resize
                     (gum_metal_hash_table_remove_node hash_table (unat node_index) notify))))"

definition gum_metal_hash_table_remove :: "GumMetalHashTable \<Rightarrow> gpointer \<Rightarrow> (bool \<times> GumMetalHashTable) option" where
  "gum_metal_hash_table_remove hash_table key = gum_metal_hash_table_remove_internal hash_table key True"

definition gum_metal_hash_table_steal :: "GumMetalHashTable \<Rightarrow> gpointer \<Rightarrow> (bool \<times> GumMetalHashTable) option" where
  "gum_metal_hash_table_steal hash_table key = gum_metal_hash_table_remove_internal hash_table key False"

definition gum_metal_hash_table_remove_all :: "GumMetalHashTable \<Rightarrow> GumMetalHashTable option" where
  "gum_metal_hash_table_remove_all hash_table =
     gum_metal_hash_table_maybe_resize (gum_metal_hash_table_remove_all_nodes hash_table True)"

definition gum_metal_hash_table_steal_all :: "GumMetalHashTable \<Rightarrow> GumMetalHashTable option" where
  "gum_metal_hash_table_steal_all hash_table =
     gum_metal_hash_table_maybe_resize (gum_metal_hash_table_remove_all_nodes hash_table False)"

definition gum_metal_hash_table_destroy :: "GumMetalHashTable \<Rightarrow> (bool \<times> GumMetalHashTable) option" where
  "gum_metal_hash_table_destroy hash_table =
     map_option gum_metal_hash_table_unref (gum_metal_hash_table_remove_all hash_table)"

section \<open>Traversals\<close>

definition foreach_remove_one ::
    "(gpointer \<Rightarrow> gpointer \<Rightarrow> bool) \<Rightarrow> bool \<Rightarrow> nat \<Rightarrow> nat \<times> GumMetalHashTable \<Rightarrow> nat \<times> GumMetalHashTable" where
  "foreach_remove_one func notify i s =
     (let (deleted, t) = s
      in if HASH_IS_REAL (ht_hashes t ! i) \<and> func (ht_keys t ! i) (values_of t ! i)
         then (deleted + 1, gum_metal_hash_table_remove_node t i notify)
         else (deleted, t))"

definition gum_metal_hash_table_foreach_remove_or_steal ::
    "GumMetalHashTable \<Rightarrow> (gpointer \<Rightarrow> gpointer \<Rightarrow> bool) \<Rightarrow> bool \<Rightarrow> (nat \<times> GumMetalHashTable) option" where
  "gum_metal_hash_table_foreach_remove_or_steal hash_table func notify =
     (let (deleted, t) = fold (foreach_remove_one func notify) [0..<ht_size hash_table] (0, hash_table)
      in map_option (Pair deleted) (gum_metal_hash_table_maybe_resize t))"

definition gum_metal_hash_table_foreach_remove ::
    "GumMetalHashTable \<Rightarrow> (gpointer \<Rightarrow> gpointer \<Rightarrow> bool) \<Rightarrow> (nat \<times> GumMetalHashTable) option" where
  "gum_metal_hash_table_foreach_remove hash_table func = gum_metal_hash_table_foreach_remove_or_steal hash_table func True"

definition gum_metal_hash_table_foreach_steal ::
    "GumMetalHashTable \<Rightarrow> (gpointer \<Rightarrow> gpointer \<Rightarrow> bool) \<Rightarrow> (nat \<times> GumMetalHashTable) option" where
  "gum_metal_hash_table_foreach_steal hash_table func = gum_metal_hash_table_foreach_remove_or_steal hash_table func False"

text \<open>The entries \<^verbatim>\<open>gum_metal_hash_table_foreach\<close> passes to its callback, in order.\<close>

definition gum_metal_hash_table_foreach :: "GumMetalHashTable \<Rightarrow> (gpointer \<times> gpointer) list" where
  "gum_metal_hash_table_foreach hash_table =
     map (\<lambda>i. (ht_keys hash_table ! i, values_of hash_table ! i))
       (filter (\<lambda>i. HASH_IS_REAL (ht_hashes hash_table ! i)) [0..<ht_size hash_table])"

definition gum_metal_hash_table_find :: "GumMetalHashTable \<Rightarrow> (gpointer \<Rightarrow> gpointer \<Rightarrow> bool) \<Rightarrow> gpointer" where
  "gum_metal_hash_table_find hash_table predicate =
     (case find (\<lambda>i. HASH_IS_REAL (ht_hashes hash_table ! i) \<and> predicate (ht_keys hash_table ! i) (values_of hash_table ! i))
        [0..<ht_size hash_table] of
        Some i \<Rightarrow> values_of hash_table ! i
      | None \<Rightarrow> 0)"

definition gum_metal_hash_table_size :: "GumMetalHashTable \<Rightarrow> nat" where
  "gum_metal_hash_table_size hash_table = ht_nnodes hash_table"

text \<open>An iterator holds a position; the table it points to is passed beside it.\<close>

definition gum_metal_hash_table_iter_init :: RealIter where
  "gum_metal_hash_table_iter_init = \<lparr>ri_position = - 1\<rparr>"

definition gum_metal_hash_table_iter_next ::
    "GumMetalHashTable \<Rightarrow> RealIter \<Rightarrow> (gpointer \<times> gpointer) option \<times> RealIter" where
  "gum_metal_hash_table_iter_next t ri =
     (if \<not> ri_position ri < int (ht_size t) then (None, ri)
      else
        case find (\<lambda>position. HASH_IS_REAL (ht_hashes t ! position)) [nat (ri_position ri + 1)..<ht_size t] of
          None \<Rightarrow> (None, ri\<lparr>ri_position := int (ht_size t)\<rparr>)
        | Some position \<Rightarrow>
            (Some (ht_keys t ! position, values_of t ! position), ri\<lparr>ri_position := int position\<rparr>))"

definition iter_remove_or_steal :: "GumMetalHashTable \<Rightarrow> RealIter \<Rightarrow> bool \<Rightarrow> GumMetalHashTable" where
  "iter_remove_or_steal t ri notify =
     (if \<not> 0 \<le> ri_position ri then t
      else if \<not> ri_position ri < int (ht_size t) then t
      else gum_metal_hash_table_remove_node t (nat (ri_position ri)) notify)"

definition gum_metal_hash_table_iter_remove :: "GumMetalHashTable \<Rightarrow> RealIter \<Rightarrow> GumMetalHashTable" where
  "gum_metal_hash_table_iter_remove t ri = iter_remove_or_steal t ri True"

definition gum_metal_hash_table_iter_steal :: "GumMetalHashTable \<Rightarrow> RealIter \<Rightarrow> GumMetalHashTable" where
  "gum_metal_hash_table_iter_steal t ri = iter_remove_or_steal t ri False"

definition gum_metal_hash_table_iter_replace ::
    "GumMetalHashTable \<Rightarrow> RealIter \<Rightarrow> gpointer \<Rightarrow> GumMetalHashTable option" where
  "gum_metal_hash_table_iter_replace t ri value =
     (if \<not> 0 \<le> ri_position ri then Some t
      else if \<not> ri_position ri < int (ht_size t) then Some t
      else
        let i = nat (ri_position ri)
        in map_option snd
             (gum_metal_hash_table_insert_node t i (ht_hashes t ! i) (ht_keys t ! i) value True True))"

end
