(* ===== verification/Gum_Metal_Hash_Correct.thy ===== *)
theory Gum_Metal_Hash_Correct
  imports Gum_Metal_Hash
begin

text \<open>
  The hash table implements a finite map. The triangular probe sequence of a table of \<open>2 ^ k\<close> slots
  visits every slot once, so the search loops end as long as one slot is unused; the invariant keeps
  one unused and keeps every entry on the probe sequence of its hash, before the first unused slot.
\<close>

section \<open>Triangular probing\<close>

definition tri :: "nat \<Rightarrow> nat" where
  "tri n = n * (n + 1) div 2"

lemma double_tri: "2 * tri n = n * (n + 1)"
  by (simp add: tri_def)

lemma tri_Suc: "tri (Suc n) = tri n + Suc n"
proof -
  have "2 * tri (Suc n) = 2 * (tri n + Suc n)" unfolding distrib_left double_tri by simp
  then show ?thesis by simp
qed

lemma tri_0 [simp]: "tri 0 = 0"
  by (simp add: tri_def)

lemma odd_dvd_power: "odd (a :: nat) \<Longrightarrow> 2 ^ k dvd a * b \<Longrightarrow> 2 ^ k dvd b"
  by (meson coprime_dvd_mult_right_iff coprime_left_2_iff_odd coprime_power_left_iff)

lemma tri_mod_distinct:
  assumes "m < n" "n < 2 ^ k"
  shows "(b + tri m) mod 2 ^ k \<noteq> (b + tri n) mod 2 ^ k"
proof
  assume eq: "(b + tri m) mod 2 ^ k = (b + tri n) mod 2 ^ k"
  have le: "tri m \<le> tri n"
    using assms(1) unfolding tri_def by (intro div_le_mono mult_le_mono) auto
  with mod_eq_dvd_iff_nat [of "b + tri m" "b + tri n" "2 ^ k"] eq have "2 ^ k dvd tri n - tri m" by simp
  then have "2 ^ Suc k dvd 2 * (tri n - tri m)" by simp
  moreover have "2 * (tri n - tri m) = (n - m) * (n + m + 1)"
  proof -
    obtain d where n: "n = m + d" using assms(1) less_imp_add_positive by blast
    have "2 * tri n - 2 * tri m = d * (n + m + 1)" unfolding double_tri n by (simp add: algebra_simps)
    then show ?thesis using n by (simp add: diff_mult_distrib2)
  qed
  ultimately have dvd: "2 ^ Suc k dvd (n - m) * (n + m + 1)" by simp
  show False
  proof (cases "odd (n - m)")
    case True
    from odd_dvd_power [OF True dvd] have "2 ^ Suc k \<le> n + m + 1" by (intro dvd_imp_le) auto
    with assms show False by simp
  next
    case False
    then have "odd (n + m + 1)" using assms(1) by auto
    then have "2 ^ Suc k dvd n - m" using odd_dvd_power [of "n + m + 1" "Suc k" "n - m"] dvd by (simp add: mult.commute)
    then have "2 ^ Suc k \<le> n - m" using assms(1) by (intro dvd_imp_le) auto
    with assms(2) show False by simp
  qed
qed

text \<open>The \<open>n\<close>-th slot probed for a home slot \<open>b\<close>.\<close>

definition probe :: "nat \<Rightarrow> nat \<Rightarrow> nat \<Rightarrow> nat" where
  "probe k b n = (b + tri n) mod 2 ^ k"

lemma probe_less [simp]: "probe k b n < 2 ^ k"
  by (simp add: probe_def)

lemma probe_0: "b < 2 ^ k \<Longrightarrow> probe k b 0 = b"
  by (simp add: probe_def)

lemma probe_Suc: "probe k b (Suc n) = (probe k b n + Suc n) mod 2 ^ k"
  unfolding probe_def tri_Suc mod_add_left_eq by (simp only: add.assoc)

lemma probe_inj: "inj_on (probe k b) {..<2 ^ k}"
proof (rule inj_onI)
  fix m n
  assume "m \<in> {..<2 ^ k}" "n \<in> {..<2 ^ k}" "probe k b m = probe k b n"
  then show "m = n"
    using tri_mod_distinct [of m n k b] tri_mod_distinct [of n m k b] unfolding probe_def
    by (cases m n rule: linorder_cases) auto
qed

lemma probe_surj:
  assumes "r < 2 ^ k"
  shows "\<exists>n < 2 ^ k. probe k b n = r"
proof -
  have "probe k b ` {..<2 ^ k} = {..<2 ^ k}"
    by (rule endo_inj_surj) (auto simp: probe_inj)
  with assms show ?thesis by (metis (no_types, lifting) imageE lessThan_iff)
qed

section \<open>The loops on words\<close>

lemma shift_mask: "shift_mask k = mask k"
  by (induction k) (simp_all add: mask_Suc_double push_bit_eq_mult or.commute mult.commute)

lemma masked_step: "(i + s) AND shift_mask k = of_nat ((unat i + unat s) mod 2 ^ k)" for i s :: guint
proof -
  have "take_bit k (of_nat x :: guint) = of_nat (take_bit k x)" for x
    by (rule bit_word_eqI) (auto simp: bit_simps)
  from this [of "unat i + unat s"] have "take_bit k (i + s) = of_nat (take_bit k (unat i + unat s))" by simp
  then show ?thesis by (simp add: shift_mask take_bit_eq_mod flip: take_bit_eq_mask)
qed


lemma probe_step:
  assumes "k < 32" "Suc n < 2 ^ 32"
  shows "(of_nat (probe k b n) + (of_nat n + 1)) AND shift_mask k = (of_nat (probe k b (Suc n)) :: guint)"
    and "unat (of_nat (probe k b n) :: guint) = probe k b n"
proof -
  have "(2::nat) ^ k < 2 ^ 32" using assms(1) by (intro power_strict_increasing) simp_all
  then have "probe k b n < 2 ^ 32" using probe_less [of k b n] by linarith
  then show u: "unat (of_nat (probe k b n) :: guint) = probe k b n" by (simp add: unat_of_nat)
  have "of_nat n + 1 = (of_nat (Suc n) :: guint)" by simp
  moreover have "unat (of_nat (Suc n) :: guint) = Suc n" unfolding unat_of_nat using assms(2) by simp
  ultimately have "unat (of_nat n + 1 :: guint) = Suc n" by metis
  then show "(of_nat (probe k b n) + (of_nat n + 1)) AND shift_mask k = (of_nat (probe k b (Suc n)) :: guint)"
    using u unfolding masked_step probe_Suc by simp
qed

text \<open>A probe sequence from position \<open>n\<close> meets its first unused slot at position \<open>m\<close>.\<close>

definition occupied :: "nat \<Rightarrow> guint list \<Rightarrow> nat \<Rightarrow> nat \<Rightarrow> bool" where
  "occupied k hs b n \<longleftrightarrow> hs ! probe k b n \<noteq> 0"

lemma free_slot_finds:
  assumes "k < 32" "n \<le> m" "m < 2 ^ k" "m - n < fuel"
    and "\<And>j. n \<le> j \<Longrightarrow> j < m \<Longrightarrow> occupied k hs b j" and "\<not> occupied k hs b m"
  shows "free_slot hs (shift_mask k) fuel (of_nat (probe k b n)) (of_nat n) = Some (of_nat (probe k b m))"
  using assms
proof (induction fuel arbitrary: n)
  case 0
  then show ?case by simp
next
  case (Suc fuel)
  have "(2::nat) ^ k < 2 ^ 32" using Suc.prems(1) by (intro power_strict_increasing) simp_all
  then have small: "Suc n < 2 ^ 32" using Suc.prems(2,3) by linarith
  note step = probe_step [OF Suc.prems(1) small, of b]
  show ?case
  proof (cases "n = m")
    case True
    with Suc.prems(6) step(2) [unfolded True] show ?thesis
      by (simp add: occupied_def HASH_IS_UNUSED_def UNUSED_HASH_VALUE_def)
  next
    case False
    with Suc.prems(2,4,5) have "n < m" "occupied k hs b n" "m - Suc n < fuel" by auto
    moreover have "free_slot hs (shift_mask k) fuel (of_nat (probe k b (Suc n))) (of_nat (Suc n)) = Some (of_nat (probe k b m))"
      using Suc.prems \<open>n < m\<close> \<open>m - Suc n < fuel\<close> by (intro Suc.IH) auto
    ultimately show ?thesis
      by (simp add: step occupied_def HASH_IS_UNUSED_def UNUSED_HASH_VALUE_def Let_def add.commute [of 1])
  qed
qed

text \<open>A slot that answers a search for a key, and where a search that meets none of them ends.\<close>

definition matches :: "GumMetalHashTable \<Rightarrow> gpointer \<Rightarrow> guint \<Rightarrow> nat \<Rightarrow> bool" where
  "matches t key h i \<longleftrightarrow> ht_hashes t ! i = h \<and> keys_equal t (ht_keys t ! i) key"

lemma lookup_loop_finds:
  assumes "k < 32" "ht_mask t = shift_mask k" "n \<le> m" "m < 2 ^ k" "m - n < fuel" "h \<noteq> 0"
    and "\<And>j. n \<le> j \<Longrightarrow> j < m \<Longrightarrow> occupied k (ht_hashes t) b j \<and> \<not> matches t key h (probe k b j)"
    and "\<not> occupied k (ht_hashes t) b m \<or> matches t key h (probe k b m)"
    and "case tomb of None \<Rightarrow> True | Some i \<Rightarrow> \<exists>j < m. i = of_nat (probe k b j) \<and> ht_hashes t ! probe k b j = 1"
  shows "\<exists>j \<le> m. lookup_loop t key h fuel (of_nat (probe k b n)) (of_nat n) tomb = Some (of_nat (probe k b j)) \<and>
    (j = m \<or> (\<not> occupied k (ht_hashes t) b m \<and> ht_hashes t ! probe k b j = 1))"
  using assms
proof (induction fuel arbitrary: n tomb)
  case 0
  then show ?case by simp
next
  case (Suc fuel)
  have "(2::nat) ^ k < 2 ^ 32" using Suc.prems(1) by (intro power_strict_increasing) simp_all
  then have small: "Suc n < 2 ^ 32" using Suc.prems(3,4) by linarith
  note step = probe_step [OF Suc.prems(1) small, of b]
  note defs = HASH_IS_UNUSED_def UNUSED_HASH_VALUE_def HASH_IS_TOMBSTONE_def TOMBSTONE_HASH_VALUE_def
  show ?case
  proof (cases "n = m")
    case True
    note here = step(2) [unfolded True]
    show ?thesis
    proof (cases "occupied k (ht_hashes t) b m")
      case o: True
      with True Suc.prems(8) have "lookup_loop t key h (Suc fuel) (of_nat (probe k b n)) (of_nat n) tomb = Some (of_nat (probe k b m))"
        by (simp add: here occupied_def matches_def defs)
      then show ?thesis by blast
    next
      case False
      with True have l: "lookup_loop t key h (Suc fuel) (of_nat (probe k b n)) (of_nat n) tomb =
          Some (case tomb of Some i \<Rightarrow> i | None \<Rightarrow> of_nat (probe k b m))"
        by (simp add: here occupied_def defs)
      with False Suc.prems(9) show ?thesis by (cases tomb) (auto intro: less_imp_le)
    qed
  next
    case False
    with Suc.prems(3,5,7) have n: "n < m" "occupied k (ht_hashes t) b n" "\<not> matches t key h (probe k b n)" "m - Suc n < fuel" by auto
    define tomb' where "tomb' = (if ht_hashes t ! probe k b n \<noteq> h \<and> HASH_IS_TOMBSTONE (ht_hashes t ! probe k b n) \<and> tomb = None
      then Some (of_nat (probe k b n)) else tomb)"
    have "\<exists>j \<le> m. lookup_loop t key h fuel (of_nat (probe k b (Suc n))) (of_nat (Suc n)) tomb' = Some (of_nat (probe k b j)) \<and>
        (j = m \<or> (\<not> occupied k (ht_hashes t) b m \<and> ht_hashes t ! probe k b j = 1))"
      using Suc.prems n by (intro Suc.IH) (auto simp: tomb'_def defs split: option.splits)
    moreover have "lookup_loop t key h (Suc fuel) (of_nat (probe k b n)) (of_nat n) tomb =
        lookup_loop t key h fuel (of_nat (probe k b (Suc n))) (of_nat (Suc n)) tomb'"
      using n(2,3) Suc.prems(2) step by (auto simp: occupied_def matches_def defs Let_def tomb'_def add.commute [of 1])
    ultimately show ?thesis by simp
  qed
qed

declare lookup_loop.simps [simp del] free_slot.simps [simp del]

section \<open>The invariant\<close>

definition home :: "nat \<Rightarrow> guint \<Rightarrow> nat" where
  "home k h = unat h mod prime_mod ! k"

lemma prime_mod_bounds: "k < 32 \<Longrightarrow> 0 < prime_mod ! k \<and> prime_mod ! k \<le> 2 ^ k"
proof -
  have "\<forall>k \<in> set [0..<32]. 0 < prime_mod ! k \<and> prime_mod ! k \<le> 2 ^ k"
    by (simp add: prime_mod_def upt_rec)
  then show "k < 32 \<Longrightarrow> 0 < prime_mod ! k \<and> prime_mod ! k \<le> 2 ^ k" by simp
qed

lemma home_less: "k < 32 \<Longrightarrow> home k h < 2 ^ k"
  using prime_mod_bounds [of k] mod_less_divisor [of "prime_mod ! k" "unat h"] unfolding home_def by linarith

definition reals :: "guint list \<Rightarrow> nat set" where
  "reals hs = {i. i < length hs \<and> HASH_IS_REAL (hs ! i)}"

definition used :: "guint list \<Rightarrow> nat set" where
  "used hs = {i. i < length hs \<and> hs ! i \<noteq> 0}"

definition placed :: "nat \<Rightarrow> guint list \<Rightarrow> guint \<Rightarrow> nat \<Rightarrow> bool" where
  "placed k hs h i \<longleftrightarrow> (\<exists>n < 2 ^ k. probe k (home k h) n = i \<and> (\<forall>m < n. occupied k hs (home k h) m))"

definition geometry :: "nat \<Rightarrow> GumMetalHashTable \<Rightarrow> bool" where
  "geometry k t \<longleftrightarrow> 3 \<le> k \<and> k < 31 \<and> ht_size t = 2 ^ k \<and> ht_mod t = prime_mod ! k \<and> ht_mask t = shift_mask k \<and>
     length (ht_keys t) = 2 ^ k \<and> length (ht_hashes t) = 2 ^ k \<and> length (values_of t) = 2 ^ k"

text \<open>Equality of keys is an equivalence that the hash function respects.\<close>

definition good_keys :: "GumMetalHashTable \<Rightarrow> bool" where
  "good_keys t \<longleftrightarrow> equivp (keys_equal t) \<and> (\<forall>a b. keys_equal t a b \<longrightarrow> ht_hash_func t a = ht_hash_func t b)"

definition entries_ok :: "nat \<Rightarrow> GumMetalHashTable \<Rightarrow> bool" where
  "entries_ok k t \<longleftrightarrow>
     (\<forall>i \<in> reals (ht_hashes t). ht_hashes t ! i = real_hash t (ht_keys t ! i) \<and> placed k (ht_hashes t) (ht_hashes t ! i) i) \<and>
     (\<forall>i \<in> reals (ht_hashes t). \<forall>j \<in> reals (ht_hashes t). keys_equal t (ht_keys t ! i) (ht_keys t ! j) \<longrightarrow> i = j)"

definition hash_body :: "nat \<Rightarrow> GumMetalHashTable \<Rightarrow> bool" where
  "hash_body k t \<longleftrightarrow> geometry k t \<and> good_keys t \<and> entries_ok k t"

definition hash_core :: "nat \<Rightarrow> GumMetalHashTable \<Rightarrow> bool" where
  "hash_core k t \<longleftrightarrow> hash_body k t \<and>
     ht_nnodes t = card (reals (ht_hashes t)) \<and> ht_noccupied t = card (used (ht_hashes t))"

definition hash_inv :: "GumMetalHashTable \<Rightarrow> bool" where
  "hash_inv t \<longleftrightarrow> (\<exists>k. hash_core k t) \<and> ht_noccupied t + ht_noccupied t div 16 < ht_size t"

text \<open>The map a table stands for.\<close>

definition hash_map :: "GumMetalHashTable \<Rightarrow> gpointer \<rightharpoonup> gpointer" where
  "hash_map t key =
     map_option (\<lambda>i. values_of t ! i)
       (find (\<lambda>i. HASH_IS_REAL (ht_hashes t ! i) \<and> keys_equal t (ht_keys t ! i) key) [0..<ht_size t])"

lemma finite_used [simp]: "finite (used hs)" "finite (reals hs)"
  by (simp_all add: used_def reals_def)

lemma reals_used: "reals hs \<subseteq> used hs"
  by (auto simp: reals_def used_def HASH_IS_REAL_def)

lemma not_real [simp]: "\<not> HASH_IS_REAL 0" "\<not> HASH_IS_REAL 1"
  by (simp_all add: HASH_IS_REAL_def word_le_nat_alt)

lemma good_keysD:
  assumes "good_keys t"
  shows "keys_equal t a a" "keys_equal t a b \<Longrightarrow> keys_equal t b a" "keys_equal t a b \<Longrightarrow> keys_equal t b c \<Longrightarrow> keys_equal t a c"
    "keys_equal t a b \<Longrightarrow> real_hash t a = real_hash t b"
  using assms unfolding good_keys_def real_hash_def
  by (auto elim: equivpE dest: reflpD sympD transpD)

lemma real_hash_real [simp]: "HASH_IS_REAL (real_hash t key)"
  by (simp add: real_hash_def HASH_IS_REAL_def Let_def)

lemma find_upt_unique:
  assumes "i < n" "P i" "\<And>j. j < n \<Longrightarrow> P j \<Longrightarrow> j = i"
  shows "find P [0..<n] = Some i"
proof (cases "find P [0..<n]")
  case None
  with assms(1,2) show ?thesis by (auto simp: find_None_iff)
next
  case (Some j)
  then have "j < n" "P j" by (auto simp: find_Some_iff)
  with assms(3) Some show ?thesis by simp
qed

lemma hash_map_hit:
  assumes "hash_body k t" "i \<in> reals (ht_hashes t)" "keys_equal t (ht_keys t ! i) key"
  shows "hash_map t key = Some (values_of t ! i)"
proof -
  define P where "P = (\<lambda>i. HASH_IS_REAL (ht_hashes t ! i) \<and> keys_equal t (ht_keys t ! i) key)"
  have sz: "ht_size t = length (ht_hashes t)" using assms(1) by (simp add: hash_body_def geometry_def)
  have gk: "good_keys t" using assms(1) by (simp add: hash_body_def)
  have unique: "j = i" if "j < ht_size t" "P j" for j
  proof -
    from that sz have "j \<in> reals (ht_hashes t)" by (simp add: reals_def P_def)
    moreover have "keys_equal t (ht_keys t ! j) (ht_keys t ! i)"
      using that(2) assms(3) good_keysD(2,3) [OF gk] unfolding P_def by blast
    ultimately show ?thesis using assms(1,2) by (simp add: hash_body_def entries_ok_def)
  qed
  have "i < ht_size t" "P i" using assms(2,3) sz by (auto simp: reals_def P_def)
  then have "find P [0..<ht_size t] = Some i" using unique by (rule find_upt_unique)
  then show ?thesis by (simp add: hash_map_def P_def)
qed

lemma hash_map_miss:
  assumes "hash_body k t" "\<And>i. i \<in> reals (ht_hashes t) \<Longrightarrow> \<not> keys_equal t (ht_keys t ! i) key"
  shows "hash_map t key = None"
  using assms by (auto simp: hash_map_def find_None_iff reals_def hash_body_def geometry_def)

lemma hash_map_cases:
  assumes "hash_body k t"
  obtains (hit) i where "i \<in> reals (ht_hashes t)" "keys_equal t (ht_keys t ! i) key" "hash_map t key = Some (values_of t ! i)"
  | (miss) "\<forall>i \<in> reals (ht_hashes t). \<not> keys_equal t (ht_keys t ! i) key" "hash_map t key = None"
proof (cases "\<exists>i \<in> reals (ht_hashes t). keys_equal t (ht_keys t ! i) key")
  case True
  with hash_map_hit [OF assms] hit show ?thesis by blast
next
  case False
  with hash_map_miss [OF assms, of key] show ?thesis by (intro miss) auto
qed

section \<open>Searching\<close>

lemma unused_on_path:
  assumes "\<exists>i < 2 ^ k. hs ! i = 0"
  obtains m where "m < 2 ^ k" "\<not> occupied k hs b m" "\<And>j. j < m \<Longrightarrow> occupied k hs b j"
proof -
  from assms probe_surj obtain n where "n < 2 ^ k" "\<not> occupied k hs b n" by (metis occupied_def)
  moreover define m where "m = (LEAST m. \<not> occupied k hs b m)"
  ultimately have "\<not> occupied k hs b m" "m \<le> n" "\<And>j. j < m \<Longrightarrow> occupied k hs b j"
    using LeastI [of "\<lambda>m. \<not> occupied k hs b m" n] Least_le [of "\<lambda>m. \<not> occupied k hs b m" n]
    by (auto dest: not_less_Least)
  with \<open>n < 2 ^ k\<close> that show thesis by (meson le_less_trans)
qed

lemma exists_unused:
  assumes "hash_inv t" "hash_core k t"
  shows "\<exists>i < 2 ^ k. ht_hashes t ! i = 0"
proof (rule ccontr)
  assume "\<not> ?thesis"
  then have "used (ht_hashes t) = {..<2 ^ k}" using assms(2) by (auto simp: used_def hash_core_def hash_body_def geometry_def)
  with assms show False by (simp add: hash_inv_def hash_core_def hash_body_def geometry_def)
qed

lemma lookup_node_spec:
  assumes "hash_body k t" "\<exists>i < 2 ^ k. ht_hashes t ! i = 0"
  obtains (hit) i where "gum_metal_hash_table_lookup_node t key = Some (of_nat i, real_hash t key)" "i < 2 ^ k"
      "i \<in> reals (ht_hashes t)" "keys_equal t (ht_keys t ! i) key"
  | (miss) i where "gum_metal_hash_table_lookup_node t key = Some (of_nat i, real_hash t key)" "i < 2 ^ k"
      "\<not> HASH_IS_REAL (ht_hashes t ! i)" "placed k (ht_hashes t) (real_hash t key) i"
      "\<And>j. j \<in> reals (ht_hashes t) \<Longrightarrow> \<not> keys_equal t (ht_keys t ! j) key"
proof -
  define h where "h = real_hash t key"
  define b where "b = home k h"
  define hs where "hs = ht_hashes t"
  have geo: "k < 31" "ht_mask t = shift_mask k" "ht_size t = 2 ^ k" "ht_mod t = prime_mod ! k" "length hs = 2 ^ k"
    using assms(1) by (auto simp: hash_body_def geometry_def hs_def)
  have gk: "good_keys t" using assms(1) by (simp add: hash_body_def)
  have b: "b < 2 ^ k" using geo(1) by (simp add: b_def home_less)
  have h: "h \<noteq> 0" "HASH_IS_REAL h" using real_hash_real [of t key] by (auto simp: h_def HASH_IS_REAL_def)
  have start: "gum_metal_hash_table_lookup_node t key =
      map_option (\<lambda>i. (i, h)) (lookup_loop t key h (Suc (2 ^ k)) (of_nat (probe k b 0)) (of_nat 0) None)"
    by (simp add: gum_metal_hash_table_lookup_node_def Let_def probe_0 [OF b] geo flip: h_def) (simp add: b_def home_def)
  obtain e where e: "e < 2 ^ k" "\<not> occupied k hs b e" "\<And>j. j < e \<Longrightarrow> occupied k hs b j"
    using unused_on_path assms(2) by (metis hs_def)
  show thesis
  proof (cases "\<exists>n < e. matches t key h (probe k b n)")
    case True
    define n where "n = (LEAST n. matches t key h (probe k b n))"
    from True have n: "matches t key h (probe k b n)" "n < e" "\<And>j. j < n \<Longrightarrow> \<not> matches t key h (probe k b j)"
      unfolding n_def using LeastI_ex [of "\<lambda>n. matches t key h (probe k b n)"]
      by (auto dest: not_less_Least intro: le_less_trans [OF Least_le])
    have "\<exists>j \<le> n. lookup_loop t key h (Suc (2 ^ k)) (of_nat (probe k b 0)) (of_nat 0) None = Some (of_nat (probe k b j)) \<and>
        (j = n \<or> (\<not> occupied k (ht_hashes t) b n \<and> ht_hashes t ! probe k b j = 1))"
      using geo n e h(1) by (intro lookup_loop_finds) (auto simp: hs_def)
    with e(3) n(2) have "lookup_loop t key h (Suc (2 ^ k)) (of_nat (probe k b 0)) (of_nat 0) None = Some (of_nat (probe k b n))"
      by (auto simp: hs_def)
    with n(1) geo h show thesis by (intro hit [of "probe k b n"]) (auto simp: start matches_def h_def reals_def hs_def)
  next
    case False
    have "\<exists>j \<le> e. lookup_loop t key h (Suc (2 ^ k)) (of_nat (probe k b 0)) (of_nat 0) None = Some (of_nat (probe k b j)) \<and>
        (j = e \<or> (\<not> occupied k (ht_hashes t) b e \<and> ht_hashes t ! probe k b j = 1))"
      using geo e h(1) False by (intro lookup_loop_finds) (auto simp: hs_def)
    then obtain j where j: "j \<le> e" "lookup_loop t key h (Suc (2 ^ k)) (of_nat (probe k b 0)) (of_nat 0) None = Some (of_nat (probe k b j))"
        "hs ! probe k b j = 0 \<or> hs ! probe k b j = 1"
      using e(2) by (auto simp: occupied_def hs_def)
    have "\<not> keys_equal t (ht_keys t ! i) key" if i: "i \<in> reals (ht_hashes t)" for i
    proof
      assume eq: "keys_equal t (ht_keys t ! i) key"
      from i assms(1) have hi: "hs ! i = real_hash t (ht_keys t ! i)" "placed k hs (hs ! i) i"
        by (auto simp: hash_body_def entries_ok_def hs_def)
      with good_keysD(4) [OF gk eq] have hh: "hs ! i = h" by (simp add: h_def)
      with hi(2) obtain n where n: "probe k b n = i" "\<And>m. m < n \<Longrightarrow> occupied k hs b m" by (auto simp: placed_def b_def)
      have "hs ! i \<noteq> 0" using hh h(1) by simp
      with n e(2) have "n < e" by (metis linorder_neqE_nat occupied_def)
      with False n(1) eq hh show False by (auto simp: matches_def hs_def)
    qed
    moreover have "placed k hs h (probe k b j)"
      unfolding placed_def b_def [symmetric] using j(1) e by (intro exI [of _ j]) auto
    ultimately show thesis
      using j by (intro miss [of "probe k b j"]) (auto simp: start h_def hs_def)
  qed
qed
section \<open>Changing one slot\<close>

lemma occupied_update: "occupied k hs b n \<Longrightarrow> h \<noteq> 0 \<Longrightarrow> occupied k (hs[i := h]) b n"
  by (cases "i < length hs") (auto simp: occupied_def nth_list_update list_update_beyond)

lemma placed_update: "placed k hs h' j \<Longrightarrow> h \<noteq> 0 \<Longrightarrow> placed k (hs[i := h]) h' j"
  using occupied_update unfolding placed_def by blast

text \<open>What two tables with the same key functions have in common.\<close>

definition same_funcs :: "GumMetalHashTable \<Rightarrow> GumMetalHashTable \<Rightarrow> bool" where
  "same_funcs t t' \<longleftrightarrow> ht_hash_func t' = ht_hash_func t \<and> ht_key_equal_func t' = ht_key_equal_func t"

lemma same_funcs:
  assumes "same_funcs t t'"
  shows "keys_equal t' = keys_equal t" "real_hash t' = real_hash t" "good_keys t' = good_keys t"
proof -
  show "keys_equal t' = keys_equal t" "real_hash t' = real_hash t"
    using assms by (auto simp: same_funcs_def keys_equal_def real_hash_def fun_eq_iff)
  then show "good_keys t' = good_keys t" using assms by (simp add: good_keys_def same_funcs_def)
qed

definition same_size :: "GumMetalHashTable \<Rightarrow> GumMetalHashTable \<Rightarrow> bool" where
  "same_size t t' \<longleftrightarrow> ht_size t' = ht_size t \<and> ht_mod t' = ht_mod t \<and> ht_mask t' = ht_mask t"

text \<open>Two tables that differ in their bookkeeping only hold the same entries.\<close>

definition same_table :: "GumMetalHashTable \<Rightarrow> GumMetalHashTable \<Rightarrow> bool" where
  "same_table t t' \<longleftrightarrow> same_funcs t t' \<and> same_size t t' \<and> ht_keys t' = ht_keys t \<and> ht_hashes t' = ht_hashes t \<and> ht_values t' = ht_values t"

lemma same_table:
  assumes "same_table t t'"
  shows "hash_body k t' = hash_body k t" "hash_map t' = hash_map t" "values_of t' = values_of t"
proof -
  have fs: "same_funcs t t'" and f: "ht_keys t' = ht_keys t" "ht_hashes t' = ht_hashes t" "ht_size t' = ht_size t"
      "ht_mod t' = ht_mod t" "ht_mask t' = ht_mask t"
    using assms by (auto simp: same_table_def same_size_def)
  show v: "values_of t' = values_of t" using assms by (simp add: same_table_def values_of_def split: option.splits)
  show "hash_body k t' = hash_body k t"
    unfolding hash_body_def geometry_def entries_ok_def v f same_funcs [OF fs] by (rule refl)
  show "hash_map t' = hash_map t" unfolding hash_map_def v f same_funcs [OF fs] by (rule refl)
qed

lemma insert_slot:
  assumes t: "hash_body k t" and fs: "same_funcs t t'" and sz: "same_size t t'"
    and arrays: "ht_hashes t' = (ht_hashes t)[i := real_hash t a]" "ht_keys t' = (ht_keys t)[i := a]" "values_of t' = (values_of t)[i := v]"
    and i: "i < 2 ^ k" "\<not> HASH_IS_REAL (ht_hashes t ! i)" "placed k (ht_hashes t) (real_hash t a) i"
    and fresh: "\<And>j. j \<in> reals (ht_hashes t) \<Longrightarrow> \<not> keys_equal t (ht_keys t ! j) a"
  shows "hash_body k t' \<and> reals (ht_hashes t') = insert i (reals (ht_hashes t)) \<and> used (ht_hashes t') = insert i (used (ht_hashes t)) \<and>
    hash_map t' = (\<lambda>x. if keys_equal t a x then Some v else hash_map t x)"
proof -
  define h where "h = real_hash t a"
  have h: "HASH_IS_REAL h" "h \<noteq> 0" unfolding h_def using not_real(1) by (simp, metis real_hash_real)
  have len: "length (ht_hashes t) = 2 ^ k" "length (ht_keys t) = 2 ^ k" "length (values_of t) = 2 ^ k"
    and gk: "good_keys t" using t by (auto simp: hash_body_def geometry_def)
  note gkD = good_keysD [OF gk]
  have geo: "geometry k t'" using t sz by (simp add: hash_body_def geometry_def arrays same_size_def)
  have rs: "reals (ht_hashes t') = insert i (reals (ht_hashes t))"
    using i h len by (auto simp: reals_def arrays nth_list_update h_def)
  have us: "used (ht_hashes t') = insert i (used (ht_hashes t))"
    using i h len by (auto simp: used_def arrays nth_list_update h_def)
  have nin: "i \<notin> reals (ht_hashes t)" using i(2) by (simp add: reals_def)
  have pl: "placed k (ht_hashes t') h' j" if "placed k (ht_hashes t) h' j" for h' j
    using placed_update [OF that h(2)] by (simp add: arrays h_def)
  have other: "ht_hashes t' ! j = ht_hashes t ! j" "ht_keys t' ! j = ht_keys t ! j" "values_of t' ! j = values_of t ! j"
    if "j \<in> reals (ht_hashes t)" for j
  proof -
    from that nin have "i \<noteq> j" by auto
    then show "ht_hashes t' ! j = ht_hashes t ! j" "ht_keys t' ! j = ht_keys t ! j" "values_of t' ! j = values_of t ! j"
      by (simp_all add: arrays)
  qed
  have here: "ht_hashes t' ! i = h" "ht_keys t' ! i = a" "values_of t' ! i = v" using i(1) len by (simp_all add: arrays h_def)
  have fresh': "\<not> keys_equal t a (ht_keys t ! j)" if "j \<in> reals (ht_hashes t)" for j using fresh [OF that] gkD(2) by blast
  have "entries_ok k t'"
    unfolding entries_ok_def rs same_funcs [OF fs]
    using t fresh i(3) pl by (auto simp: other here fresh' hash_body_def entries_ok_def h_def)
  then have body: "hash_body k t'" using geo gk same_funcs(3) [OF fs] by (simp add: hash_body_def)
  have "hash_map t' x = (if keys_equal t a x then Some v else hash_map t x)" for x
  proof (cases "keys_equal t a x")
    case True
    then show ?thesis using hash_map_hit [OF body, of i x] by (simp add: rs here same_funcs [OF fs])
  next
    case False
    consider (hit) j where "j \<in> reals (ht_hashes t)" "keys_equal t (ht_keys t ! j) x" "hash_map t x = Some (values_of t ! j)"
        | (miss) "\<forall>j \<in> reals (ht_hashes t). \<not> keys_equal t (ht_keys t ! j) x" "hash_map t x = None"
        by (rule hash_map_cases [OF t])
    then show ?thesis
    proof cases
      case (hit j)
      then show ?thesis using False hash_map_hit [OF body, of j x] by (simp add: rs other same_funcs [OF fs])
    next
      case miss
      then have "hash_map t' x = None"
        using False by (intro hash_map_miss [OF body]) (auto simp: rs other here same_funcs [OF fs])
      with miss False show ?thesis by simp
    qed
  qed
  with body rs us show ?thesis by (simp add: fun_eq_iff)
qed

lemma remove_slot:
  assumes t: "hash_body k t" and fs: "same_funcs t t'" and sz: "same_size t t'"
    and arrays: "ht_hashes t' = (ht_hashes t)[i := 1]" "ht_keys t' = (ht_keys t)[i := 0]" "values_of t' = (values_of t)[i := 0]"
    and i: "i \<in> reals (ht_hashes t)"
  shows "hash_body k t' \<and> reals (ht_hashes t') = reals (ht_hashes t) - {i} \<and> used (ht_hashes t') = used (ht_hashes t) \<and>
    hash_map t' = (\<lambda>x. if keys_equal t (ht_keys t ! i) x then None else hash_map t x)"
proof -
  have len: "length (ht_hashes t) = 2 ^ k" "length (ht_keys t) = 2 ^ k" "length (values_of t) = 2 ^ k"
    and gk: "good_keys t" using t by (auto simp: hash_body_def geometry_def)
  note gkD = good_keysD [OF gk]
  have geo: "geometry k t'" using t sz by (simp add: hash_body_def geometry_def arrays same_size_def)
  have rs: "reals (ht_hashes t') = reals (ht_hashes t) - {i}"
    using i len by (auto simp: reals_def arrays nth_list_update split: if_splits)
  have us: "used (ht_hashes t') = used (ht_hashes t)"
    using i len by (auto simp: used_def reals_def arrays nth_list_update)
  have pl: "placed k (ht_hashes t') h' j" if "placed k (ht_hashes t) h' j" for h' j
    using placed_update [OF that, of 1] by (simp add: arrays)
  have other: "ht_hashes t' ! j = ht_hashes t ! j" "ht_keys t' ! j = ht_keys t ! j" "values_of t' ! j = values_of t ! j"
    if "j \<noteq> i" for j
    using that by (auto simp: arrays)
  have uniq: "j = i" if "j \<in> reals (ht_hashes t)" "keys_equal t (ht_keys t ! i) (ht_keys t ! j)" for j
    using t i that by (auto simp: hash_body_def entries_ok_def)
  have "entries_ok k t'"
    unfolding entries_ok_def rs same_funcs [OF fs]
    using t pl by (auto simp: other hash_body_def entries_ok_def)
  then have body: "hash_body k t'" using geo gk same_funcs(3) [OF fs] by (simp add: hash_body_def)
  have "hash_map t' x = (if keys_equal t (ht_keys t ! i) x then None else hash_map t x)" for x
  proof -
    consider (hit) j where "j \<in> reals (ht_hashes t)" "keys_equal t (ht_keys t ! j) x" "hash_map t x = Some (values_of t ! j)"
      | (miss) "\<forall>j \<in> reals (ht_hashes t). \<not> keys_equal t (ht_keys t ! j) x" "hash_map t x = None"
      by (rule hash_map_cases [OF t])
    then show ?thesis
    proof cases
    case (hit j)
    show ?thesis
    proof (cases "j = i")
      case True
      with hit(2) have ix: "keys_equal t (ht_keys t ! i) x" by simp
      have "\<not> keys_equal t (ht_keys t ! l) x" if "l \<in> reals (ht_hashes t)" "l \<noteq> i" for l
        using that uniq [of l] ix gkD(2,3) by blast
      then have "hash_map t' x = None" by (intro hash_map_miss [OF body]) (simp add: rs other same_funcs [OF fs])
      with ix show ?thesis by simp
    next
      case False
      with hit uniq gkD(2,3) have "\<not> keys_equal t (ht_keys t ! i) x" by blast
      with False hit show ?thesis using hash_map_hit [OF body, of j x] by (simp add: rs other same_funcs [OF fs])
    qed
  next
    case miss
    then show ?thesis using hash_map_miss [OF body, of x] by (auto simp: rs other same_funcs [OF fs])
  qed
  qed
  with body rs us show ?thesis by (simp add: fun_eq_iff)
qed

lemma replace_slot:
  assumes t: "hash_body k t" and fs: "same_funcs t t'" and sz: "same_size t t'"
    and arrays: "ht_hashes t' = ht_hashes t" "ht_keys t' = (ht_keys t)[i := a]" "values_of t' = (values_of t)[i := v]"
    and i: "i \<in> reals (ht_hashes t)" "keys_equal t (ht_keys t ! i) a"
  shows "hash_body k t' \<and> hash_map t' = (\<lambda>x. if keys_equal t a x then Some v else hash_map t x)"
proof -
  have len: "length (ht_hashes t) = 2 ^ k" "length (ht_keys t) = 2 ^ k" "length (values_of t) = 2 ^ k"
    and gk: "good_keys t" using t by (auto simp: hash_body_def geometry_def)
  note gkD = good_keysD [OF gk]
  have geo: "geometry k t'" using t sz by (simp add: hash_body_def geometry_def arrays same_size_def)
  have ilen: "i < 2 ^ k" using i(1) len by (simp add: reals_def)
  have key: "keys_equal t (ht_keys t' ! j) (ht_keys t ! j)" if "j < 2 ^ k" for j
    using that i(2) gkD(1,2) len ilen by (auto simp: arrays nth_list_update)
  have keq: "keys_equal t (ht_keys t' ! j) x = keys_equal t (ht_keys t ! j) x" if "j < 2 ^ k" for j x
    using key [OF that] gkD(2,3) by blast
  have lt: "j < 2 ^ k" if "j \<in> reals (ht_hashes t)" for j using that len by (simp add: reals_def)
  have hash: "real_hash t (ht_keys t' ! j) = real_hash t (ht_keys t ! j)" if "j < 2 ^ k" for j
    using key [OF that] gkD(4) by blast
  have keq2: "keys_equal t (ht_keys t' ! j) (ht_keys t' ! l) = keys_equal t (ht_keys t ! j) (ht_keys t ! l)" if "j < 2 ^ k" "l < 2 ^ k" for j l
    using key [OF that(1)] key [OF that(2)] gkD(2,3) by blast
  have "entries_ok k t'"
    unfolding entries_ok_def same_funcs [OF fs] arrays(1)
    using t by (auto simp: lt hash keq2 hash_body_def entries_ok_def)
  then have body: "hash_body k t'" using geo gk same_funcs(3) [OF fs] by (simp add: hash_body_def)
  have "hash_map t' x = (if keys_equal t a x then Some v else hash_map t x)" for x
  proof -
    consider (hit) j where "j \<in> reals (ht_hashes t)" "keys_equal t (ht_keys t ! j) x" "hash_map t x = Some (values_of t ! j)"
      | (miss) "\<forall>j \<in> reals (ht_hashes t). \<not> keys_equal t (ht_keys t ! j) x" "hash_map t x = None"
      by (rule hash_map_cases [OF t])
    then show ?thesis
    proof cases
    case (hit j)
    have "j = i" if "keys_equal t a x"
    proof -
      from that i(2) gkD(3) have "keys_equal t (ht_keys t ! i) x" by blast
      with hit gkD(2,3) have "keys_equal t (ht_keys t ! j) (ht_keys t ! i)" by blast
      with t hit(1) i(1) show ?thesis by (auto simp: hash_body_def entries_ok_def)
    qed
    moreover have "keys_equal t a x" if "j = i" using hit(2) i(2) gkD(2,3) that by blast
    ultimately have "keys_equal t a x \<longleftrightarrow> j = i" by blast
    with hit lt len show ?thesis
      using hash_map_hit [OF body, of j x] by (auto simp: arrays(1,3) same_funcs [OF fs] keq nth_list_update)
  next
    case miss
    then have "\<not> keys_equal t a x" using i gkD(3) by blast
    with miss show ?thesis using hash_map_miss [OF body, of x] by (auto simp: arrays(1) lt keq same_funcs [OF fs])
  qed
  qed
  with body show ?thesis by (simp add: fun_eq_iff)
qed
section \<open>Resizing\<close>

lemma closest_shift: "n < 2 ^ gum_metal_hash_table_find_closest_shift n"
proof (induction n rule: gum_metal_hash_table_find_closest_shift.induct)
  case (1 n)
  show ?case
  proof (cases "n = 0")
    case False
    with 1 have "n div 2 < 2 ^ gum_metal_hash_table_find_closest_shift (n div 2)" by simp
    with False show ?thesis by (subst gum_metal_hash_table_find_closest_shift.simps) simp
  qed simp
qed

lemma closest_shift_least: "n < 2 ^ m \<Longrightarrow> gum_metal_hash_table_find_closest_shift n \<le> m"
proof (induction n arbitrary: m rule: gum_metal_hash_table_find_closest_shift.induct)
  case (1 n)
  show ?case
  proof (cases "n = 0")
    case True
    then show ?thesis by (subst gum_metal_hash_table_find_closest_shift.simps) simp
  next
    case False
    with 1(2) obtain m' where m: "m = Suc m'" by (cases m) auto
    with 1(2) have "n div 2 < 2 ^ m'" by (simp add: less_mult_imp_div_less)
    with 1(1) [OF False] m False show ?thesis by (subst gum_metal_hash_table_find_closest_shift.simps) simp
  qed
qed

lemma set_value_fields [simp]:
  "ht_hashes (set_value t i v) = ht_hashes t" "ht_size (set_value t i v) = ht_size t" "ht_mod (set_value t i v) = ht_mod t"
  "ht_mask (set_value t i v) = ht_mask t" "ht_hash_func (set_value t i v) = ht_hash_func t"
  "ht_key_equal_func (set_value t i v) = ht_key_equal_func t" "ht_nnodes (set_value t i v) = ht_nnodes t"
  "ht_noccupied (set_value t i v) = ht_noccupied t"
  by (simp_all add: set_value_def split: option.splits)

lemma set_value_arrays:
  "ht_values t = None \<longrightarrow> ht_keys t ! i = v \<Longrightarrow> ht_keys (set_value t i v) = ht_keys t"
  "values_of (set_value t i v) = (values_of t)[i := v]"
  "ht_values (set_value t i v) = None \<longleftrightarrow> ht_values t = None"
  by (auto simp: set_value_def values_of_def split: option.splits)

text \<open>The table under construction holds no tombstone and, besides what it had, the entries copied so far.\<close>

definition copying :: "nat \<Rightarrow> GumMetalHashTable \<Rightarrow> GumMetalHashTable \<Rightarrow> bool" where
  "copying k old new \<longleftrightarrow> hash_body k new \<and> same_funcs old new \<and> used (ht_hashes new) = reals (ht_hashes new) \<and>
     (ht_values new = None \<longleftrightarrow> ht_values old = None)"

lemma resize_one_copies:
  assumes old: "hash_body k0 old" and new: "copying k old new" and i: "i \<in> reals (ht_hashes old)"
    and room: "card (reals (ht_hashes new)) < 2 ^ k"
    and fresh: "\<And>j. j \<in> reals (ht_hashes new) \<Longrightarrow> \<not> keys_equal old (ht_keys new ! j) (ht_keys old ! i)"
  shows "\<exists>new' s. resize_one old i new = Some new' \<and> copying k old new' \<and> s \<notin> reals (ht_hashes new) \<and>
    reals (ht_hashes new') = insert s (reals (ht_hashes new)) \<and> ht_keys new' ! s = ht_keys old ! i \<and>
    (\<forall>j \<in> reals (ht_hashes new). ht_keys new' ! j = ht_keys new ! j) \<and>
    hash_map new' = (\<lambda>x. if keys_equal old (ht_keys old ! i) x then Some (values_of old ! i) else hash_map new x) \<and>
    ht_nnodes new' = ht_nnodes new"
proof -
  define a where "a = ht_keys old ! i"
  define h where "h = real_hash old a"
  define hs where "hs = ht_hashes new"
  define b where "b = home k h"
  have body: "hash_body k new" and fs: "same_funcs old new" and us: "used hs = reals hs"
    and al: "ht_values new = None \<longleftrightarrow> ht_values old = None" using new by (auto simp: copying_def hs_def)
  have geo: "k < 31" "ht_mask new = shift_mask k" "ht_size new = 2 ^ k" "ht_mod new = prime_mod ! k" "length hs = 2 ^ k" "length (ht_keys new) = 2 ^ k"
    using body by (auto simp: hash_body_def geometry_def hs_def)
  have hi: "ht_hashes old ! i = h" "HASH_IS_REAL h" using old i by (auto simp: hash_body_def entries_ok_def h_def a_def)
  have "\<exists>s < 2 ^ k. hs ! s = 0"
  proof (rule ccontr)
    assume "\<not> ?thesis"
    then have "used hs = {..<2 ^ k}" using geo(5) by (auto simp: used_def)
    with us room show False by (simp add: hs_def)
  qed
  then obtain e where e: "e < 2 ^ k" "\<not> occupied k hs b e" "\<And>j. j < e \<Longrightarrow> occupied k hs b j" by (metis unused_on_path)
  define s where "s = probe k b e"
  have "free_slot hs (shift_mask k) (Suc (2 ^ k)) (of_nat (probe k b 0)) (of_nat 0) = Some (of_nat s)"
    unfolding s_def using geo(1) e by (intro free_slot_finds) auto
  moreover have "probe k b 0 = unat h mod prime_mod ! k" using geo(1) by (simp add: probe_0 home_less b_def) (simp add: home_def)
  moreover have s: "s < 2 ^ k" "unat (of_nat s :: guint) = s"
    using probe_step(2) [of k e b] geo(1) e(1) power_strict_increasing [of k 31 "2::nat"] by (auto simp: s_def)
  define new1 where "new1 = new\<lparr>ht_hashes := hs[s := h], ht_keys := (ht_keys new)[s := a]\<rparr>"
  define new' where "new' = set_value new1 s (values_of old ! i)"
  ultimately have res: "resize_one old i new = Some new'"
    using hi geo s(2) by (simp add: resize_one_def Let_def new'_def new1_def hs_def a_def)
  have al1: "ht_values new1 = None \<longrightarrow> ht_keys new1 ! s = values_of old ! i"
    using al s geo by (simp add: new1_def values_of_def a_def)
  have vals: "values_of new1 = (if ht_values new = None then (values_of new)[s := a] else values_of new)"
    by (simp add: new1_def values_of_def split: option.splits)
  have "values_of new' = (values_of new)[s := values_of old ! i]"
    by (simp add: new'_def set_value_arrays vals)
  moreover have "ht_keys new' = (ht_keys new)[s := a]"
    using set_value_arrays(1) [OF al1] by (simp add: new'_def new1_def)
  moreover have "ht_hashes new' = hs[s := real_hash new a]" by (simp add: new'_def new1_def h_def same_funcs [OF fs])
  moreover have "same_funcs new new'" "same_size new new'" by (simp_all add: same_funcs_def same_size_def new'_def new1_def)
  moreover have "hs ! s = 0" using e(2) by (simp add: occupied_def s_def)
  moreover have "placed k hs (real_hash new a) s"
    unfolding placed_def using e by (intro exI [of _ e]) (simp add: s_def b_def h_def same_funcs [OF fs])
  ultimately have ins: "hash_body k new' \<and> reals (ht_hashes new') = insert s (reals hs) \<and> used (ht_hashes new') = insert s (used hs) \<and>
      hash_map new' = (\<lambda>x. if keys_equal new a x then Some (values_of old ! i) else hash_map new x)"
    and keys: "ht_keys new' = (ht_keys new)[s := a]" and z: "hs ! s = 0"
    using insert_slot [OF body, of new' s a "values_of old ! i"] s fresh by (auto simp: hs_def a_def same_funcs [OF fs])
  have nin: "s \<notin> reals hs" using z by (simp add: reals_def)
  have "ht_values new' = None \<longleftrightarrow> ht_values old = None" using al by (simp add: new'_def set_value_arrays new1_def)
  moreover have "same_funcs old new'" using fs by (simp add: same_funcs_def new'_def new1_def)
  ultimately have "copying k old new'" using ins us by (simp add: copying_def)
  moreover have "ht_keys new' ! j = ht_keys new ! j" if "j \<in> reals hs" for j
  proof -
    from that nin have "s \<noteq> j" by auto
    then show ?thesis by (simp add: keys)
  qed
  moreover have "ht_keys new' ! s = a" using s geo by (simp add: keys)
  ultimately show ?thesis
    using res ins nin by (intro exI [of _ new'] exI [of _ s]) (simp add: hs_def a_def same_funcs [OF fs] new'_def new1_def)
qed

lemma resize_loop_copies:
  assumes old: "hash_body k0 old" and "copying k old new" "distinct ns" "set ns \<subseteq> {..<length (ht_hashes old)}"
    and "card (reals (ht_hashes new)) + card (reals (ht_hashes old) \<inter> set ns) < 2 ^ k"
    and "\<And>i j. i \<in> reals (ht_hashes old) \<inter> set ns \<Longrightarrow> j \<in> reals (ht_hashes new) \<Longrightarrow> \<not> keys_equal old (ht_keys new ! j) (ht_keys old ! i)"
  shows "\<exists>new'. resize_loop old ns new = Some new' \<and> copying k old new' \<and>
    card (reals (ht_hashes new')) = card (reals (ht_hashes new)) + card (reals (ht_hashes old) \<inter> set ns) \<and>
    hash_map new' = (\<lambda>x. if \<exists>i \<in> reals (ht_hashes old) \<inter> set ns. keys_equal old (ht_keys old ! i) x then hash_map old x else hash_map new x) \<and>
    ht_nnodes new' = ht_nnodes new"
  using assms(2-)
proof (induction ns arbitrary: new)
  case Nil
  then show ?case by simp
next
  case (Cons i ns)
  show ?case
  proof (cases "i \<in> reals (ht_hashes old)")
    case False
    then have skip: "resize_one old i new = Some new" using Cons.prems(3) by (simp add: resize_one_def reals_def)
    have eq: "reals (ht_hashes old) \<inter> set (i # ns) = reals (ht_hashes old) \<inter> set ns" using False by auto
    show ?thesis
      using Cons.IH [OF Cons.prems(1)] Cons.prems unfolding eq by (simp add: skip)
  next
    case True
    have split: "reals (ht_hashes old) \<inter> set (i # ns) = insert i (reals (ht_hashes old) \<inter> set ns)" using True by auto
    have card: "card (reals (ht_hashes old) \<inter> set (i # ns)) = Suc (card (reals (ht_hashes old) \<inter> set ns))"
      unfolding split using Cons.prems(2) by simp
    from resize_one_copies [OF old Cons.prems(1) True] Cons.prems(4,5) card True obtain new1 s where
      one: "resize_one old i new = Some new1" "copying k old new1" "s \<notin> reals (ht_hashes new)"
        "reals (ht_hashes new1) = insert s (reals (ht_hashes new))" "ht_keys new1 ! s = ht_keys old ! i"
        "\<forall>j \<in> reals (ht_hashes new). ht_keys new1 ! j = ht_keys new ! j"
        "hash_map new1 = (\<lambda>x. if keys_equal old (ht_keys old ! i) x then Some (values_of old ! i) else hash_map new x)"
        "ht_nnodes new1 = ht_nnodes new"
      by fastforce
    have c1: "card (reals (ht_hashes new1)) = Suc (card (reals (ht_hashes new)))" using one(3,4) by simp
    have fresh1: "\<not> keys_equal old (ht_keys new1 ! j) (ht_keys old ! l)" if l: "l \<in> reals (ht_hashes old) \<inter> set ns" and j: "j \<in> reals (ht_hashes new1)" for l j
    proof (cases "j = s")
      case s: True
      have "l \<noteq> i" using l Cons.prems(2) by auto
      with old True l show ?thesis by (auto simp: s one(5) hash_body_def entries_ok_def)
    next
      case False
      with j one(4) have "j \<in> reals (ht_hashes new)" by simp
      with Cons.prems(5) [of l j] l one(6) show ?thesis by auto
    qed
    obtain new' where rest: "resize_loop old ns new1 = Some new'" "copying k old new'"
        "card (reals (ht_hashes new')) = card (reals (ht_hashes new1)) + card (reals (ht_hashes old) \<inter> set ns)"
        "hash_map new' = (\<lambda>x. if \<exists>i \<in> reals (ht_hashes old) \<inter> set ns. keys_equal old (ht_keys old ! i) x then hash_map old x else hash_map new1 x)"
        "ht_nnodes new' = ht_nnodes new1"
      using Cons.IH [OF one(2)] Cons.prems(2-4) card c1 fresh1 by auto
    have "hash_map new' x = (if \<exists>l \<in> reals (ht_hashes old) \<inter> set (i # ns). keys_equal old (ht_keys old ! l) x then hash_map old x else hash_map new x)" for x
      using hash_map_hit [OF old True, of x] unfolding split rest(4) one(7) by auto
    with one(1,8) rest card c1 show ?thesis by (intro exI [of _ new']) (simp add: fun_eq_iff)
  qed
qed
text \<open>A table counts its entries within the bounds in which the arithmetic of the sizes does not overflow.\<close>

lemma resize_keeps:
  assumes old: "hash_body k0 t" and n: "ht_nnodes t = card (reals (ht_hashes t))" "ht_nnodes t < 2 ^ 29"
  shows "\<exists>t'. gum_metal_hash_table_resize t = Some t' \<and> hash_inv t' \<and> same_funcs t t' \<and> hash_map t' = hash_map t \<and> ht_nnodes t' = ht_nnodes t"
proof -
  define k where "k = max (gum_metal_hash_table_find_closest_shift (ht_nnodes t * 2)) HASH_TABLE_MIN_SHIFT"
  have "gum_metal_hash_table_find_closest_shift (ht_nnodes t * 2) \<le> 30" using n(2) by (intro closest_shift_least) simp
  then have k: "3 \<le> k" "k < 31" by (auto simp: k_def HASH_TABLE_MIN_SHIFT_def)
  have room: "ht_nnodes t * 2 < 2 ^ k"
  proof -
    have "gum_metal_hash_table_find_closest_shift (ht_nnodes t * 2) \<le> k" by (simp add: k_def)
    then have "(2::nat) ^ gum_metal_hash_table_find_closest_shift (ht_nnodes t * 2) \<le> 2 ^ k" by (intro power_increasing) simp_all
    with closest_shift [of "ht_nnodes t * 2"] show ?thesis by (rule less_le_trans)
  qed
  define new where "new = t\<lparr>ht_size := 2 ^ k, ht_mod := prime_mod ! k, ht_mask := shift_mask k, ht_keys := replicate (2 ^ k) 0,
    ht_values := map_option (\<lambda>_. replicate (2 ^ k) 0) (ht_values t), ht_hashes := replicate (2 ^ k) 0\<rparr>"
  have empty: "reals (ht_hashes new) = {}" "used (ht_hashes new) = {}" by (auto simp: new_def reals_def used_def)
  have fs: "same_funcs t new" by (simp add: same_funcs_def new_def)
  have "geometry k new" using k by (auto simp: geometry_def new_def values_of_def split: option.splits)
  then have body: "hash_body k new"
    using old same_funcs(3) [OF fs] by (simp add: hash_body_def entries_ok_def empty)
  then have start: "copying k t new" using fs empty by (simp add: copying_def new_def)
  have sz: "ht_size t = length (ht_hashes t)" using old by (simp add: hash_body_def geometry_def)
  have all: "reals (ht_hashes t) \<inter> set [0..<ht_size t] = reals (ht_hashes t)" using sz by (auto simp: reals_def)
  have sub: "set [0..<ht_size t] \<subseteq> {..<length (ht_hashes t)}" using sz by auto
  have nn: "ht_nnodes new = ht_nnodes t" by (simp add: new_def)
  obtain t1 where t1: "resize_loop t [0..<ht_size t] new = Some t1" "copying k t t1" "card (reals (ht_hashes t1)) = card (reals (ht_hashes t))"
      "hash_map t1 = (\<lambda>x. if \<exists>i \<in> reals (ht_hashes t). keys_equal t (ht_keys t ! i) x then hash_map t x else hash_map new x)"
      "ht_nnodes t1 = ht_nnodes t"
    using resize_loop_copies [OF old start distinct_upt sub] room n(1) nn unfolding all empty by auto
  define t' where "t' = t1\<lparr>ht_noccupied := ht_nnodes t1\<rparr>"
  have b1: "hash_body k t1" "used (ht_hashes t1) = reals (ht_hashes t1)" "same_funcs t t1" using t1(2) by (simp_all add: copying_def)
  have st: "same_table t1 t'" by (simp add: same_table_def same_funcs_def same_size_def t'_def)
  note upd = same_table [OF st]
  have "hash_core k t'"
    using b1 t1(3,5) n(1) by (simp add: hash_core_def upd) (simp add: t'_def)
  moreover have "ht_noccupied t' + ht_noccupied t' div 16 < ht_size t'"
  proof -
    have "ht_size t1 = 2 ^ k" using b1(1) by (simp add: hash_body_def geometry_def)
    then show ?thesis using room t1(5) by (simp add: t'_def)
  qed
  ultimately have "hash_inv t'" unfolding hash_inv_def by blast
  moreover have "gum_metal_hash_table_resize t = Some t'"
    using t1(1) by (simp add: gum_metal_hash_table_resize_def gum_metal_hash_table_set_shift_from_size_def
        gum_metal_hash_table_set_shift_def Let_def t'_def new_def k_def)
  moreover have "hash_map t' x = hash_map t x" for x
  proof -
    have "hash_map new x = None" by (rule hash_map_miss [OF body]) (simp add: empty)
    then show ?thesis using hash_map_miss [OF old, of x] unfolding upd(2) t1(4) by auto
  qed
  ultimately show ?thesis
    using b1(3) t1(5) by (intro exI [of _ t']) (simp add: fun_eq_iff same_funcs_def t'_def)
qed

lemma maybe_resize_keeps:
  assumes "hash_core k t" "ht_nnodes t < 2 ^ 29"
  shows "\<exists>t'. gum_metal_hash_table_maybe_resize t = Some t' \<and> hash_inv t' \<and> same_funcs t t' \<and> hash_map t' = hash_map t \<and> ht_nnodes t' = ht_nnodes t"
proof (cases "(ht_size t > ht_nnodes t * 4 \<and> ht_size t > 2 ^ HASH_TABLE_MIN_SHIFT) \<or> ht_size t \<le> ht_noccupied t + ht_noccupied t div 16")
  case True
  then have "gum_metal_hash_table_maybe_resize t = gum_metal_hash_table_resize t"
    by (simp only: gum_metal_hash_table_maybe_resize_def Let_def if_True)
  then show ?thesis using resize_keeps [of k t] assms by (simp add: hash_core_def)
next
  case False
  then have "gum_metal_hash_table_maybe_resize t = Some t"
    by (simp only: gum_metal_hash_table_maybe_resize_def Let_def if_False)
  moreover have "hash_inv t" using assms(1) False unfolding hash_inv_def by auto
  ultimately show ?thesis by (simp add: same_funcs_def)
qed

section \<open>The operations\<close>

lemma notify_same: "same_table t (notify_key t x)" "same_table t (notify_value t x)"
  by (simp_all add: notify_key_def notify_value_def same_table_def same_funcs_def same_size_def)

lemma notify_frame:
  "hash_inv (notify_key t x) = hash_inv t" "hash_map (notify_key t x) = hash_map t" "same_funcs u (notify_key t x) = same_funcs u t"
  "hash_inv (notify_value t x) = hash_inv t" "hash_map (notify_value t x) = hash_map t" "same_funcs u (notify_value t x) = same_funcs u t"
  "ht_nnodes (notify_key t x) = ht_nnodes t" "ht_nnodes (notify_value t x) = ht_nnodes t"
  unfolding hash_inv_def hash_core_def same_table [OF notify_same(1)] same_table [OF notify_same(2)] same_funcs_def
  by (simp_all add: notify_key_def notify_value_def)

text \<open>The table between the stores of \<^verbatim>\<open>gum_metal_hash_table_insert_node\<close> and its bookkeeping.\<close>

definition stored :: "GumMetalHashTable \<Rightarrow> nat \<Rightarrow> guint \<Rightarrow> gpointer \<Rightarrow> gpointer \<Rightarrow> bool \<Rightarrow> GumMetalHashTable" where
  "stored t i h a v keep =
     (let t1 = (if HASH_IS_REAL (ht_hashes t ! i)
                then (if keep then t\<lparr>ht_keys := (ht_keys t)[i := a]\<rparr> else t)
                else t\<lparr>ht_hashes := (ht_hashes t)[i := h], ht_keys := (ht_keys t)[i := a]\<rparr>);
          t2 = (if ht_values t1 = None \<and> ht_keys t1 ! i \<noteq> v then t1\<lparr>ht_values := Some (ht_keys t1)\<rparr> else t1)
      in set_value t2 i v)"

lemma stored_arrays:
  assumes "i < length (ht_keys t)"
  shows "ht_hashes (stored t i h a v keep) = (if HASH_IS_REAL (ht_hashes t ! i) then ht_hashes t else (ht_hashes t)[i := h])"
    "ht_keys (stored t i h a v keep) = (if HASH_IS_REAL (ht_hashes t ! i) \<and> \<not> keep then ht_keys t else (ht_keys t)[i := a])"
    "values_of (stored t i h a v keep) = (values_of t)[i := v]"
  using assms by (auto simp: stored_def Let_def set_value_def values_of_def list_update_same_conv split: option.splits)

lemma stored_frame [simp]:
  "ht_size (stored t i h a v keep) = ht_size t" "ht_mod (stored t i h a v keep) = ht_mod t" "ht_mask (stored t i h a v keep) = ht_mask t"
  "ht_hash_func (stored t i h a v keep) = ht_hash_func t" "ht_key_equal_func (stored t i h a v keep) = ht_key_equal_func t"
  "ht_nnodes (stored t i h a v keep) = ht_nnodes t" "ht_noccupied (stored t i h a v keep) = ht_noccupied t"
  by (simp_all add: stored_def Let_def)

lemma stored_same: "same_funcs t (stored t i h a v keep)" "same_size t (stored t i h a v keep)"
  by (simp_all add: same_funcs_def same_size_def)
lemma insert_node_unfold:
  "gum_metal_hash_table_insert_node t i h a v keep reusing =
     (let real = HASH_IS_REAL (ht_hashes t ! i);
          s = stored t i h a v keep
      in if real
         then Some (False, notify_value (if reusing then s else notify_key s (if keep then ht_keys t ! i else a)) (values_of t ! i))
         else map_option (Pair True)
           (if HASH_IS_UNUSED (ht_hashes t ! i)
            then gum_metal_hash_table_maybe_resize (s\<lparr>ht_nnodes := ht_nnodes s + 1, ht_noccupied := ht_noccupied s + 1\<rparr>)
            else Some (s\<lparr>ht_nnodes := ht_nnodes s + 1\<rparr>)))"
  unfolding gum_metal_hash_table_insert_node_def stored_def Let_def
  by (cases "HASH_IS_REAL (ht_hashes t ! i)") (simp_all split: option.splits)

text \<open>The effect of an insertion on the map, with the equality of keys of the table.\<close>

lemma insert_internal_spec:
  assumes inv: "hash_inv t" and n: "ht_nnodes t + 1 < 2 ^ 29"
  shows "\<exists>t'. gum_metal_hash_table_insert_internal t a v keep = Some (hash_map t a = None, t') \<and> hash_inv t' \<and> same_funcs t t' \<and>
    hash_map t' = (\<lambda>x. if keys_equal t a x then Some v else hash_map t x) \<and>
    ht_nnodes t' = ht_nnodes t + (if hash_map t a = None then 1 else 0)"
proof -
  from inv obtain k where core: "hash_core k t" unfolding hash_inv_def by blast
  then have body: "hash_body k t" and cards: "ht_nnodes t = card (reals (ht_hashes t))" "ht_noccupied t = card (used (ht_hashes t))"
    by (simp_all add: hash_core_def)
  have len: "length (ht_keys t) = 2 ^ k" "length (ht_hashes t) = 2 ^ k" "ht_size t = 2 ^ k" and k: "k < 31"
    using body by (auto simp: hash_body_def geometry_def)
  have un: "unat (of_nat i :: guint) = i" if "i < 2 ^ k" for i
    using that k power_strict_increasing [of k 32 "2::nat"] by (simp add: unat_of_nat)
  show ?thesis
  proof (cases rule: lookup_node_spec [OF body exists_unused [OF inv core], of a])
    case (1 i)
    then have hit: "hash_map t a \<noteq> None" using hash_map_hit [OF body 1(3,4)] by simp
    have real: "HASH_IS_REAL (ht_hashes t ! i)" using 1(3) by (simp add: reals_def)
    define s where "s = stored t i (real_hash t a) a v keep"
    have "ht_keys s = (ht_keys t)[i := (if keep then a else ht_keys t ! i)]"
      using stored_arrays(2) [of i t] 1(2) len real by (simp add: s_def)
    moreover have "keys_equal t (ht_keys t ! i) (if keep then a else ht_keys t ! i)"
      using 1(4) good_keysD(1) body by (simp add: hash_body_def)
    ultimately have rep: "hash_body k s" "hash_map s = (\<lambda>x. if keys_equal t (if keep then a else ht_keys t ! i) x then Some v else hash_map t x)"
      using replace_slot [OF body stored_same, of i "real_hash t a" a v keep] 1 real stored_arrays(1,3) [of i t] len
      by (simp_all add: s_def)
    have gk: "good_keys t" using body by (simp add: hash_body_def)
    have "keys_equal t (ht_keys t ! i) x = keys_equal t a x" for x using 1(4) good_keysD(2,3) [OF gk] by blast
    then have "keys_equal t (if keep then a else ht_keys t ! i) x = keys_equal t a x" for x by simp
    with rep(2) have map: "hash_map s = (\<lambda>x. if keys_equal t a x then Some v else hash_map t x)" by simp
    have "hash_core k s" "hash_inv s"
      using rep(1) core inv stored_arrays(1) [of i t] 1(2) len real unfolding hash_inv_def hash_core_def
      by (auto simp: s_def)
    then show ?thesis
      using 1 un hit real map stored_same(1)
      by (simp add: gum_metal_hash_table_insert_internal_def insert_node_unfold Let_def notify_frame flip: s_def) (simp add: s_def)
  next
    case (2 i)
    then have miss: "hash_map t a = None" by (intro hash_map_miss [OF body]) simp
    define s where "s = stored t i (real_hash t a) a v keep"
    have same: "same_funcs t s" "same_size t s" unfolding s_def by (rule stored_same)+
    have arr: "ht_hashes s = (ht_hashes t)[i := real_hash t a]" "ht_keys s = (ht_keys t)[i := a]" "values_of s = (values_of t)[i := v]"
      using stored_arrays [of i t] 2(2,3) len by (simp_all add: s_def)
    have ins: "hash_body k s" "reals (ht_hashes s) = insert i (reals (ht_hashes t))" "used (ht_hashes s) = insert i (used (ht_hashes t))"
        "hash_map s = (\<lambda>x. if keys_equal t a x then Some v else hash_map t x)"
      using insert_slot [OF body same arr 2(2,3,4,5)] by simp_all
    have c: "card (reals (ht_hashes s)) = ht_nnodes t + 1" using ins(2) 2(3) cards by (simp add: reals_def)
    define u where "u = HASH_IS_UNUSED (ht_hashes t ! i)"
    define s' where "s' = s\<lparr>ht_nnodes := ht_nnodes s + 1, ht_noccupied := ht_noccupied s + (if u then 1 else 0)\<rparr>"
    have st: "same_table s s'" by (simp add: same_table_def same_funcs_def same_size_def s'_def)
    have cu: "card (used (ht_hashes s)) = ht_noccupied t + (if u then 1 else 0)"
      using ins(3) 2(2) cards len by (auto simp: used_def u_def HASH_IS_UNUSED_def UNUSED_HASH_VALUE_def card_insert_if)
    have core': "hash_core k s'"
      unfolding hash_core_def same_table [OF st] using ins(1) c cu by (simp add: s'_def) (simp add: s_def)
    have nn: "ht_nnodes s' = ht_nnodes t + 1" by (simp add: s'_def s_def)
    have "\<exists>t'. (if u then gum_metal_hash_table_maybe_resize s' else Some s') = Some t' \<and> hash_inv t' \<and> same_funcs s' t' \<and>
        hash_map t' = hash_map s' \<and> ht_nnodes t' = ht_nnodes s'"
    proof (cases u)
      case True
      then show ?thesis using maybe_resize_keeps [OF core'] nn n by simp
    next
      case False
      have "ht_noccupied s' = ht_noccupied t" "ht_size s' = ht_size t" using False by (simp_all add: s'_def s_def)
      with inv core' have "hash_inv s'" unfolding hash_inv_def by auto
      with False show ?thesis by (simp add: same_funcs_def)
    qed
    moreover have "same_funcs t s'" by (simp add: same_funcs_def s'_def s_def)
    moreover have "hash_map s' = hash_map s" by (rule same_table(2) [OF st])
    moreover have "gum_metal_hash_table_insert_internal t a v keep = map_option (Pair True) (if u then gum_metal_hash_table_maybe_resize s' else Some s')"
    proof -
      have "ht_nnodes s = ht_nnodes t" "ht_noccupied s = ht_noccupied t" by (simp_all add: s_def)
      then show ?thesis
        using 2 un by (cases u) (simp_all add: gum_metal_hash_table_insert_internal_def insert_node_unfold Let_def s'_def u_def flip: s_def)
    qed
    ultimately show ?thesis using miss ins(4) nn by (auto simp: same_funcs_def)
  qed
qed
lemma lookup_spec:
  assumes inv: "hash_inv t"
  shows "gum_metal_hash_table_lookup t a = Some (case hash_map t a of None \<Rightarrow> 0 | Some v \<Rightarrow> v)"
    "gum_metal_hash_table_contains t a = Some (hash_map t a \<noteq> None)"
proof -
  from inv obtain k where core: "hash_core k t" unfolding hash_inv_def by blast
  then have body: "hash_body k t" by (simp add: hash_core_def)
  have "k < 31" using body by (simp add: hash_body_def geometry_def)
  then have un: "unat (of_nat i :: guint) = i" if "i < 2 ^ k" for i
    using that power_strict_increasing [of k 32 "2::nat"] by (simp add: unat_of_nat)
  have "gum_metal_hash_table_lookup t a = Some (case hash_map t a of None \<Rightarrow> 0 | Some v \<Rightarrow> v) \<and>
    gum_metal_hash_table_contains t a = Some (hash_map t a \<noteq> None)"
  proof (cases rule: lookup_node_spec [OF body exists_unused [OF inv core], of a])
    case (1 i)
    then show ?thesis
      using un hash_map_hit [OF body 1(3,4)]
      by (simp add: gum_metal_hash_table_lookup_def gum_metal_hash_table_contains_def reals_def)
  next
    case (2 i)
    then have "hash_map t a = None" by (intro hash_map_miss [OF body]) simp
    with 2 un show ?thesis by (simp add: gum_metal_hash_table_lookup_def gum_metal_hash_table_contains_def)
  qed
  then show "gum_metal_hash_table_lookup t a = Some (case hash_map t a of None \<Rightarrow> 0 | Some v \<Rightarrow> v)"
    "gum_metal_hash_table_contains t a = Some (hash_map t a \<noteq> None)" by blast+
qed

lemma remove_internal_spec:
  assumes inv: "hash_inv t" and n: "ht_nnodes t < 2 ^ 29"
  shows "\<exists>t'. gum_metal_hash_table_remove_internal t a notify = Some (hash_map t a \<noteq> None, t') \<and> hash_inv t' \<and> same_funcs t t' \<and>
    hash_map t' = (\<lambda>x. if keys_equal t a x then None else hash_map t x) \<and> ht_nnodes t' \<le> ht_nnodes t"
proof -
  from inv obtain k where core: "hash_core k t" unfolding hash_inv_def by blast
  then have body: "hash_body k t" and cards: "ht_nnodes t = card (reals (ht_hashes t))" "ht_noccupied t = card (used (ht_hashes t))"
    by (simp_all add: hash_core_def)
  have len: "length (ht_keys t) = 2 ^ k" "length (ht_hashes t) = 2 ^ k" "ht_size t = 2 ^ k" and k: "k < 31" and gk: "good_keys t"
    using body by (auto simp: hash_body_def geometry_def)
  have un: "unat (of_nat i :: guint) = i" if "i < 2 ^ k" for i
    using that k power_strict_increasing [of k 32 "2::nat"] by (simp add: unat_of_nat)
  show ?thesis
  proof (cases rule: lookup_node_spec [OF body exists_unused [OF inv core], of a])
    case (1 i)
    have hit: "hash_map t a \<noteq> None" using hash_map_hit [OF body 1(3,4)] by simp
    have real: "HASH_IS_REAL (ht_hashes t ! i)" using 1(3) by (simp add: reals_def)
    define s where "s = gum_metal_hash_table_remove_node t i notify"
    have arr: "ht_hashes s = (ht_hashes t)[i := 1]" "ht_keys s = (ht_keys t)[i := 0]" "values_of s = (values_of t)[i := 0]"
      by (simp_all add: s_def gum_metal_hash_table_remove_node_def Let_def notify_key_def notify_value_def set_value_def
          values_of_def TOMBSTONE_HASH_VALUE_def split: option.splits)
    have same: "same_funcs t s" "same_size t s" and nodes: "ht_nnodes s = ht_nnodes t - 1" "ht_noccupied s = ht_noccupied t"
      by (simp_all add: s_def gum_metal_hash_table_remove_node_def Let_def notify_key_def notify_value_def same_funcs_def same_size_def)
    note rem = remove_slot [OF body same arr 1(3)]
    have eq: "keys_equal t (ht_keys t ! i) x = keys_equal t a x" for x using 1(4) good_keysD(2,3) [OF gk] by blast
    have "hash_core k s" using rem cards 1(3) nodes by (simp add: hash_core_def)
    moreover have "ht_nnodes s < 2 ^ 29" using nodes n by simp
    ultimately obtain t' where t': "gum_metal_hash_table_maybe_resize s = Some t'" "hash_inv t'" "same_funcs s t'" "hash_map t' = hash_map s" "ht_nnodes t' = ht_nnodes s"
      using maybe_resize_keeps by blast
    then show ?thesis
      using 1 un real hit rem eq same(1) nodes(1)
      by (auto simp: gum_metal_hash_table_remove_internal_def same_funcs_def simp flip: s_def)
  next
    case (2 i)
    then have "hash_map t a = None" by (intro hash_map_miss [OF body]) simp
    moreover have "hash_map t x = None" if "keys_equal t a x" for x
      using 2(5) that good_keysD(2,3) [OF gk] by (intro hash_map_miss [OF body]) blast
    ultimately show ?thesis using 2 un inv by (auto simp: gum_metal_hash_table_remove_internal_def same_funcs_def)
  qed
qed

lemma new_full_spec:
  assumes "good_keys (gum_metal_hash_table_new_full f e kd vd)"
  shows "hash_inv (gum_metal_hash_table_new_full f e kd vd) \<and> hash_map (gum_metal_hash_table_new_full f e kd vd) = Map.empty"
proof -
  define t where "t = gum_metal_hash_table_new_full f e kd vd"
  have "ht_hashes t = replicate (2 ^ 3) 0" by (simp add: t_def gum_metal_hash_table_new_full_def HASH_TABLE_MIN_SHIFT_def)
  then have empty: "reals (ht_hashes t) = {}" "used (ht_hashes t) = {}" by (auto simp: reals_def used_def)
  have "geometry 3 t" by (simp add: t_def geometry_def gum_metal_hash_table_new_full_def HASH_TABLE_MIN_SHIFT_def values_of_def)
  then have core: "hash_core 3 t"
    using assms by (simp add: hash_core_def hash_body_def entries_ok_def empty flip: t_def)
      (simp add: t_def gum_metal_hash_table_new_full_def)
  moreover have "ht_noccupied t = 0" "ht_size t = 8" by (simp_all add: t_def gum_metal_hash_table_new_full_def HASH_TABLE_MIN_SHIFT_def)
  ultimately have "hash_inv t" unfolding hash_inv_def by auto
  moreover have "hash_map t x = None" for x using core empty hash_map_miss [of 3 t] by (simp add: hash_core_def)
  ultimately show ?thesis by (simp add: t_def fun_eq_iff)
qed
section \<open>Maps keyed by pointers\<close>

text \<open>
  The interface the writer uses its label table through: a lookup that answers 0 for a missing key,
  and an insertion. \<open>invar n\<close> is the invariant of a table that has room for \<open>n\<close> more keys.
\<close>

locale pointer_map =
  fixes invar :: "nat \<Rightarrow> 't \<Rightarrow> bool"
    and abs :: "'t \<Rightarrow> gpointer \<rightharpoonup> gpointer"
    and empty :: "'t"
    and lookup :: "'t \<Rightarrow> gpointer \<Rightarrow> gpointer option"
    and insert :: "'t \<Rightarrow> gpointer \<Rightarrow> gpointer \<Rightarrow> (bool \<times> 't) option"
  assumes empty_law: "n < 2 ^ 29 \<Longrightarrow> invar n empty" "abs empty = Map.empty"
    and lookup_law: "invar n t \<Longrightarrow> lookup t k = Some (case abs t k of None \<Rightarrow> 0 | Some v \<Rightarrow> v)"
    and insert_law: "invar (Suc n) t \<Longrightarrow> \<exists>t'. insert t k v = Some (abs t k = None, t') \<and> invar n t' \<and> abs t' = (abs t)(k \<mapsto> v)"
begin

text \<open>Defining a label the way \<^verbatim>\<open>gum_x86_writer_put_label\<close> does: refused when it is already there.\<close>

definition put :: "'t \<Rightarrow> gpointer \<Rightarrow> gpointer \<Rightarrow> (bool \<times> 't) option" where
  "put t k v = (case lookup t k of None \<Rightarrow> None | Some old \<Rightarrow> if old \<noteq> 0 then Some (False, t) else map_option (\<lambda>(_, t). (True, t)) (insert t k v))"

lemma put_law:
  assumes "invar (Suc n) t"
  shows "\<exists>t'. put t k v = Some (case abs t k of None \<Rightarrow> True | Some old \<Rightarrow> old = 0, t') \<and>
    abs t' = (if (case abs t k of None \<Rightarrow> True | Some old \<Rightarrow> old = 0) then (abs t)(k \<mapsto> v) else abs t)"
  using lookup_law [OF assms, of k] insert_law [OF assms, of k v]
  by (auto simp: put_def split: option.splits)

lemma lookup_insert:
  assumes "invar (Suc n) t"
  obtains t' where "insert t k v = Some (abs t k = None, t')" "lookup t' k = Some v" "\<And>x. x \<noteq> k \<Longrightarrow> lookup t' x = lookup t x"
  using insert_law [OF assms, of k v] lookup_law [OF assms] lookup_law [of n] by (metis fun_upd_other fun_upd_same option.simps(5))

end

text \<open>A table of pointers compared by address, with room for \<open>n\<close> more.\<close>

definition pointer_table :: "nat \<Rightarrow> GumMetalHashTable \<Rightarrow> bool" where
  "pointer_table n t \<longleftrightarrow> hash_inv t \<and> ht_key_equal_func t = None \<and> ht_nnodes t + n < 2 ^ 29"

lemma pointer_equal: "ht_key_equal_func t = None \<Longrightarrow> keys_equal t = (=)"
  by (simp add: keys_equal_def fun_eq_iff)

lemma pointer_keys: "ht_key_equal_func t = None \<Longrightarrow> good_keys t"
  by (simp add: good_keys_def pointer_equal identity_equivp)

lemma pointer_insert:
  assumes "pointer_table (Suc n) t"
  shows "\<exists>t'. gum_metal_hash_table_insert_internal t k v keep = Some (hash_map t k = None, t') \<and> pointer_table n t' \<and> hash_map t' = (hash_map t)(k \<mapsto> v)"
proof -
  have t: "hash_inv t" "ht_nnodes t + 1 < 2 ^ 29" "keys_equal t = (=)" using assms by (auto simp: pointer_table_def pointer_equal)
  from insert_internal_spec [OF t(1,2), of k v keep] obtain t' where
    "gum_metal_hash_table_insert_internal t k v keep = Some (hash_map t k = None, t')" "hash_inv t'" "same_funcs t t'"
    "hash_map t' = (\<lambda>x. if k = x then Some v else hash_map t x)" "ht_nnodes t' \<le> ht_nnodes t + 1"
    unfolding t(3) by auto
  with assms show ?thesis by (auto simp: pointer_table_def same_funcs_def fun_eq_iff)
qed

lemma pointer_remove:
  assumes "pointer_table n t"
  shows "\<exists>t'. gum_metal_hash_table_remove_internal t k notify = Some (hash_map t k \<noteq> None, t') \<and> pointer_table n t' \<and> hash_map t' = (hash_map t)(k := None)"
proof -
  have t: "hash_inv t" "ht_nnodes t < 2 ^ 29" "keys_equal t = (=)" using assms by (auto simp: pointer_table_def pointer_equal)
  from remove_internal_spec [OF t(1,2), of k notify] obtain t' where
    "gum_metal_hash_table_remove_internal t k notify = Some (hash_map t k \<noteq> None, t')" "hash_inv t'" "same_funcs t t'"
    "hash_map t' = (\<lambda>x. if k = x then None else hash_map t x)" "ht_nnodes t' \<le> ht_nnodes t"
    unfolding t(3) by auto
  with assms show ?thesis by (auto simp: pointer_table_def same_funcs_def fun_eq_iff)
qed

lemma pointer_new: "n < 2 ^ 29 \<Longrightarrow> pointer_table n (gum_metal_hash_table_new f None) \<and> hash_map (gum_metal_hash_table_new f None) = Map.empty"
  using new_full_spec [OF pointer_keys, of f None False False]
  by (simp add: pointer_table_def gum_metal_hash_table_new_def gum_metal_hash_table_new_full_def)

interpretation metal: pointer_map pointer_table hash_map "gum_metal_hash_table_new None None"
  gum_metal_hash_table_lookup gum_metal_hash_table_insert
proof
  show "pointer_table n (gum_metal_hash_table_new None None)" if "n < 2 ^ 29" for n using pointer_new [OF that] by simp
  show "hash_map (gum_metal_hash_table_new None None) = Map.empty" using pointer_new [of 0] by simp
  show "gum_metal_hash_table_lookup t k = Some (case hash_map t k of None \<Rightarrow> 0 | Some v \<Rightarrow> v)" if "pointer_table n t" for n t k
    using that lookup_spec(1) [of t k] by (simp add: pointer_table_def)
  show "\<exists>t'. gum_metal_hash_table_insert t k v = Some (hash_map t k = None, t') \<and> pointer_table n t' \<and> hash_map t' = (hash_map t)(k \<mapsto> v)"
    if "pointer_table (Suc n) t" for n t k v
    using pointer_insert [OF that, of k v False] by (simp add: gum_metal_hash_table_insert_def)
qed

section \<open>The table refines a map\<close>

text \<open>Calls on a table and their answers, on the table and on the map it stands for.\<close>

datatype table_call = Insert gpointer gpointer | Replace gpointer gpointer | Add gpointer
  | Remove gpointer | Steal gpointer | Lookup gpointer | Contains gpointer

datatype table_answer = Flag bool | Pointer gpointer

fun table_step :: "table_call \<Rightarrow> GumMetalHashTable \<Rightarrow> (table_answer \<times> GumMetalHashTable) option" where
  "table_step (Insert k v) t = map_option (apfst Flag) (gum_metal_hash_table_insert t k v)"
| "table_step (Replace k v) t = map_option (apfst Flag) (gum_metal_hash_table_replace t k v)"
| "table_step (Add k) t = map_option (apfst Flag) (gum_metal_hash_table_add t k)"
| "table_step (Remove k) t = map_option (apfst Flag) (gum_metal_hash_table_remove t k)"
| "table_step (Steal k) t = map_option (apfst Flag) (gum_metal_hash_table_steal t k)"
| "table_step (Lookup k) t = map_option (\<lambda>v. (Pointer v, t)) (gum_metal_hash_table_lookup t k)"
| "table_step (Contains k) t = map_option (\<lambda>b. (Flag b, t)) (gum_metal_hash_table_contains t k)"

fun map_step :: "table_call \<Rightarrow> (gpointer \<rightharpoonup> gpointer) \<Rightarrow> table_answer \<times> (gpointer \<rightharpoonup> gpointer)" where
  "map_step (Insert k v) m = (Flag (m k = None), m(k \<mapsto> v))"
| "map_step (Replace k v) m = (Flag (m k = None), m(k \<mapsto> v))"
| "map_step (Add k) m = (Flag (m k = None), m(k \<mapsto> k))"
| "map_step (Remove k) m = (Flag (m k \<noteq> None), m(k := None))"
| "map_step (Steal k) m = (Flag (m k \<noteq> None), m(k := None))"
| "map_step (Lookup k) m = (Pointer (case m k of None \<Rightarrow> 0 | Some v \<Rightarrow> v), m)"
| "map_step (Contains k) m = (Flag (m k \<noteq> None), m)"

fun table_run :: "table_call list \<Rightarrow> GumMetalHashTable \<Rightarrow> (table_answer list \<times> GumMetalHashTable) option" where
  "table_run [] t = Some ([], t)"
| "table_run (c # cs) t =
     (case table_step c t of
        None \<Rightarrow> None
      | Some (r, t) \<Rightarrow> map_option (apfst (Cons r)) (table_run cs t))"

fun map_run :: "table_call list \<Rightarrow> (gpointer \<rightharpoonup> gpointer) \<Rightarrow> table_answer list \<times> (gpointer \<rightharpoonup> gpointer)" where
  "map_run [] m = ([], m)"
| "map_run (c # cs) m = (let (r, m) = map_step c m in apfst (Cons r) (map_run cs m))"

lemma pointer_table_less: "pointer_table (Suc n) t \<Longrightarrow> pointer_table n t"
  by (simp add: pointer_table_def)

lemma table_step_simulates:
  assumes "pointer_table (Suc n) t"
  shows "\<exists>t'. table_step c t = Some (fst (map_step c (hash_map t)), t') \<and> pointer_table n t' \<and> hash_map t' = snd (map_step c (hash_map t))"
proof -
  have ins: "\<exists>t'. gum_metal_hash_table_insert_internal t k v keep = Some (hash_map t k = None, t') \<and> pointer_table n t' \<and> hash_map t' = (hash_map t)(k \<mapsto> v)" for k v keep
    by (rule pointer_insert [OF assms])
  have rem: "\<exists>t'. gum_metal_hash_table_remove_internal t k notify = Some (hash_map t k \<noteq> None, t') \<and> pointer_table n t' \<and> hash_map t' = (hash_map t)(k := None)" for k notify
    by (rule pointer_remove [OF pointer_table_less [OF assms]])
  have "hash_inv t" using assms by (simp add: pointer_table_def)
  note look = lookup_spec [OF this]
  show ?thesis
  proof (cases c)
    case (Insert k v)
    then show ?thesis using ins [of k v False] by (auto simp: gum_metal_hash_table_insert_def)
  next
    case (Replace k v)
    then show ?thesis using ins [of k v True] by (auto simp: gum_metal_hash_table_replace_def)
  next
    case (Add k)
    then show ?thesis using ins [of k k True] by (auto simp: gum_metal_hash_table_add_def)
  next
    case (Remove k)
    then show ?thesis using rem [of k True] by (auto simp: gum_metal_hash_table_remove_def)
  next
    case (Steal k)
    then show ?thesis using rem [of k False] by (auto simp: gum_metal_hash_table_steal_def)
  qed (use look pointer_table_less [OF assms] in \<open>auto\<close>)
qed

lemma table_run_simulates:
  assumes "pointer_table (length cs + n) t"
  shows "\<exists>t'. table_run cs t = Some (fst (map_run cs (hash_map t)), t') \<and> pointer_table n t' \<and> hash_map t' = snd (map_run cs (hash_map t))"
  using assms
proof (induction cs arbitrary: t)
  case Nil
  then show ?case by simp
next
  case (Cons c cs)
  from Cons.prems have "pointer_table (Suc (length cs + n)) t" by simp
  from table_step_simulates [OF this, of c] obtain t1 where
    t1: "table_step c t = Some (fst (map_step c (hash_map t)), t1)" "pointer_table (length cs + n) t1" "hash_map t1 = snd (map_step c (hash_map t))"
    by blast
  from Cons.IH [OF t1(2)] t1 show ?case by (auto simp: Let_def split_beta)
qed

text \<open>
  C20: The hash table is a map. Any sequence of fewer than \<open>2 ^ 29\<close> insertions, replacements, additions,
  removals and look-ups on a fresh table keyed by pointers returns, every search and every resize
  ends, and the answers are those of a finite map; so is the content afterwards.
\<close>

theorem hash_table_refines_map:
  assumes "length calls < 2 ^ 29"
  shows "\<exists>t'. table_run calls (gum_metal_hash_table_new hash_func None) = Some (fst (map_run calls Map.empty), t') \<and>
    hash_map t' = snd (map_run calls Map.empty)"
  using table_run_simulates [of calls 0 "gum_metal_hash_table_new hash_func None"] pointer_new [OF assms, of hash_func] by auto

theorem hash_table_refines_map_witness:
  "\<exists>t'. table_run [Insert 8 80, Insert 15 150, Remove 8, Lookup 15, Lookup 8] (gum_metal_hash_table_new None None) =
      Some ([Flag True, Flag True, Flag True, Pointer 150, Pointer 0], t')"
  using hash_table_refines_map [of "[Insert 8 80, Insert 15 150, Remove 8, Lookup 15, Lookup 8]" None] by auto

text \<open>
  Probing reaches every slot. The triangular probe sequence of a table of \<open>2 ^ k\<close> slots visits each
  slot exactly once in its first \<open>2 ^ k\<close> steps, whatever the hash, and the word arithmetic of the search
  loops steps along it.
\<close>

theorem probing_is_exhaustive:
  fixes h :: guint
  assumes "k < 31" "n < 2 ^ k"
  shows "bij_betw (\<lambda>i. probe k (unat h mod prime_mod ! k) i) {..<2 ^ k} {..<2 ^ k} \<and>
    (of_nat (probe k b n) + (of_nat n + 1)) AND shift_mask k = (of_nat (probe k b (Suc n)) :: guint)"
proof -
  have "probe k c ` {..<2 ^ k} = {..<2 ^ k}" for c by (rule endo_inj_surj) (auto simp: probe_inj)
  moreover have "(2::nat) ^ k < 2 ^ 31" using assms(1) by (intro power_strict_increasing) simp_all
  then have "Suc n < 2 ^ 32" using assms(2) by simp
  with assms(1) probe_step(1) [of k n b] have "(of_nat (probe k b n) + (of_nat n + 1)) AND shift_mask k = (of_nat (probe k b (Suc n)) :: guint)"
    by simp
  ultimately show ?thesis by (auto simp: bij_betw_def intro: probe_inj)
qed

theorem probing_is_exhaustive_witness:
  "bij_betw (probe 3 (unat (1234 :: guint) mod prime_mod ! 3)) {..<2 ^ 3} {..<2 ^ 3}"
  using probing_is_exhaustive [of 3 0 1234 0] by simp

end
