(* ===== verification/Gum_Invocation.thy ===== *)
theory Gum_Invocation
  imports Gum_Interceptor_X86
begin

text \<open>
  The calling half of \<^verbatim>\<open>src/frida-gum/gum/guminterceptor.c\<close>: what happens when a thread enters an
  intercepted function through its trampoline and leaves it again, with the thread contexts, the
  invocation stacks and the data of the listeners, and the accessors of
  \<^verbatim>\<open>guminvocationcontext.c\<close> and \<^verbatim>\<open>backend-x86/gumcpucontext-x86.c\<close> that listeners use.

  A function context is an entry of the store \<open>rt_contexts\<close> under its address. A thread is named by
  its identifier; its \<open>thread\<close> record holds the value of the reentrancy guard in thread-local storage,
  the thread context, once there is one, and the system error (\<^verbatim>\<open>errno\<close>). An operation that would
  follow a pointer to a freed context, an empty stack or past the end of an array is \<open>None\<close> there.

  Listeners are code of the client: their two callbacks are the parameter \<open>ifaces\<close>, functions from what a
  callback can see to what it can change. Every call made is recorded in \<open>rt_calls\<close>.
\<close>

section \<open>Registers of an intercepted call\<close>

record GumCpuContext =
  cc_rip :: guint64
  cc_r15 :: guint64
  cc_r14 :: guint64
  cc_r13 :: guint64
  cc_r12 :: guint64
  cc_r11 :: guint64
  cc_r10 :: guint64
  cc_r9 :: guint64
  cc_r8 :: guint64
  cc_rdi :: guint64
  cc_rsi :: guint64
  cc_rbp :: guint64
  cc_rsp :: guint64
  cc_rbx :: guint64
  cc_rdx :: guint64
  cc_rcx :: guint64
  cc_rax :: guint64

text \<open>Arguments on the stack are in the memory of the process: \<^verbatim>\<open>stack_argument[n - 6]\<close>.\<close>

definition stack_argument :: "GumCpuContext \<Rightarrow> guint \<Rightarrow> gpointer" where
  "stack_argument self i = cc_rsp self + 8 + ucast i * 8"

definition gum_cpu_context_get_nth_argument :: "memory \<Rightarrow> GumCpuContext \<Rightarrow> guint \<Rightarrow> gpointer" where
  "gum_cpu_context_get_nth_argument m self n =
     (if n = 0 then cc_rdi self
      else if n = 1 then cc_rsi self
      else if n = 2 then cc_rdx self
      else if n = 3 then cc_rcx self
      else if n = 4 then cc_r8 self
      else if n = 5 then cc_r9 self
      else load_pointer m (stack_argument self (n - 6)))"

definition gum_cpu_context_replace_nth_argument ::
    "memory \<Rightarrow> GumCpuContext \<Rightarrow> guint \<Rightarrow> gpointer \<Rightarrow> memory \<times> GumCpuContext" where
  "gum_cpu_context_replace_nth_argument m self n value =
     (if n = 0 then (m, self\<lparr>cc_rdi := value\<rparr>)
      else if n = 1 then (m, self\<lparr>cc_rsi := value\<rparr>)
      else if n = 2 then (m, self\<lparr>cc_rdx := value\<rparr>)
      else if n = 3 then (m, self\<lparr>cc_rcx := value\<rparr>)
      else if n = 4 then (m, self\<lparr>cc_r8 := value\<rparr>)
      else if n = 5 then (m, self\<lparr>cc_r9 := value\<rparr>)
      else (write_bytes m (stack_argument self (n - 6)) (le64 value), self))"

definition gum_cpu_context_get_return_value :: "GumCpuContext \<Rightarrow> gpointer" where
  "gum_cpu_context_get_return_value self = cc_rax self"

definition gum_cpu_context_replace_return_value :: "GumCpuContext \<Rightarrow> gpointer \<Rightarrow> GumCpuContext" where
  "gum_cpu_context_replace_return_value self value = self\<lparr>cc_rax := value\<rparr>"

section \<open>Thread contexts and invocation stacks\<close>

datatype GumPointCut = GUM_POINT_ENTER | GUM_POINT_LEAVE

text \<open>
  The member \<^verbatim>\<open>cpu_context\<close> of an invocation context points at the registers the thunk saved on the
  machine stack, or at the copy in the entry of the invocation stack; the member \<^verbatim>\<open>backend\<close> at one of
  the two backends of the thread context.
\<close>

datatype cpu_context_ptr = NO_CPU_CONTEXT | FRAME_CPU_CONTEXT | ENTRY_CPU_CONTEXT
datatype backend_ptr = NO_BACKEND | LISTENER_BACKEND | REPLACEMENT_BACKEND

record GumInvocationContext =
  in_function :: gpointer
  in_cpu_context :: cpu_context_ptr
  in_system_error :: guint32
  in_backend :: backend_ptr

record GumInvocationStackEntry =
  se_function_ctx :: gpointer
  se_caller_ret_addr :: gpointer
  se_invocation_context :: GumInvocationContext
  se_cpu_context :: GumCpuContext
  se_listener_invocation_data :: "guint8 list list"
  se_calling_replacement :: bool
  se_original_system_error :: guint32

type_synonym GumInvocationStack = "GumInvocationStackEntry list"

record ListenerDataSlot =
  sd_owner :: gpointer
  sd_data :: "guint8 list"

text \<open>
  \<^verbatim>\<open>ListenerInvocationState\<close>: its \<^verbatim>\<open>invocation_data\<close> points at row \<open>ls_row\<close> of the array in the top
  entry of the stack.
\<close>

record ListenerInvocationState =
  ls_point_cut :: GumPointCut
  ls_entry :: ListenerEntry
  ls_row :: nat

text \<open>The \<^verbatim>\<open>data\<close> members of the two backends of a thread context are its first two fields here.\<close>

record InterceptorThreadContext =
  tc_listener_data :: "ListenerInvocationState option"
  tc_replacement_data :: gpointer
  tc_ignore_level :: guint32
  tc_stack :: GumInvocationStack
  tc_listener_data_slots :: "ListenerDataSlot list"

record thread =
  th_guard :: gpointer
  th_context :: "InterceptorThreadContext option"
  th_system_error :: guint32


record listener_call =
  call_thread :: GumThreadId
  call_function_ctx :: gpointer
  call_listener :: gpointer
  call_point_cut :: GumPointCut

record runtime =
  rt_interceptor :: gpointer
  rt_selected_thread_id :: guint
  rt_contexts :: "gpointer \<rightharpoonup> GumFunctionContext"
  rt_threads :: "GumThreadId \<Rightarrow> thread"
  rt_thread_contexts :: "GumThreadId list"
  rt_calls :: "listener_call list"

definition GUM_MAX_LISTENERS_PER_FUNCTION :: nat where
  "GUM_MAX_LISTENERS_PER_FUNCTION = 2"

definition GUM_MAX_LISTENER_DATA :: nat where
  "GUM_MAX_LISTENER_DATA = 1024"

definition interceptor_thread_context_new :: InterceptorThreadContext where
  "interceptor_thread_context_new =
     \<lparr>tc_listener_data = None, tc_replacement_data = 0, tc_ignore_level = 0, tc_stack = [], tc_listener_data_slots = []\<rparr>"

definition set_thread :: "runtime \<Rightarrow> GumThreadId \<Rightarrow> thread \<Rightarrow> runtime" where
  "set_thread rt tid th = rt\<lparr>rt_threads := (rt_threads rt)(tid := th)\<rparr>"

definition set_thread_context :: "runtime \<Rightarrow> GumThreadId \<Rightarrow> InterceptorThreadContext \<Rightarrow> runtime" where
  "set_thread_context rt tid tc = set_thread rt tid ((rt_threads rt tid)\<lparr>th_context := Some tc\<rparr>)"

definition get_interceptor_thread_context :: "runtime \<Rightarrow> GumThreadId \<Rightarrow> InterceptorThreadContext \<times> runtime" where
  "get_interceptor_thread_context rt tid =
     (case th_context (rt_threads rt tid) of
        Some context \<Rightarrow> (context, rt)
      | None \<Rightarrow>
          (let context = interceptor_thread_context_new;
               rt = rt\<lparr>rt_thread_contexts := List.insert tid (rt_thread_contexts rt)\<rparr>
           in (context, set_thread_context rt tid context)))"

text \<open>Run when a thread exits: the context is removed from the table, which frees it.\<close>

definition release_interceptor_thread_context :: "runtime \<Rightarrow> GumThreadId \<Rightarrow> runtime" where
  "release_interceptor_thread_context rt tid =
     set_thread (rt\<lparr>rt_thread_contexts := removeAll tid (rt_thread_contexts rt)\<rparr>) tid
       ((rt_threads rt tid)\<lparr>th_context := None\<rparr>)"

definition gum_interceptor_ignore_current_thread :: "runtime \<Rightarrow> GumThreadId \<Rightarrow> runtime" where
  "gum_interceptor_ignore_current_thread rt tid =
     (let (interceptor_ctx, rt) = get_interceptor_thread_context rt tid
      in set_thread_context rt tid (interceptor_ctx\<lparr>tc_ignore_level := tc_ignore_level interceptor_ctx + 1\<rparr>))"

definition gum_interceptor_unignore_current_thread :: "runtime \<Rightarrow> GumThreadId \<Rightarrow> runtime" where
  "gum_interceptor_unignore_current_thread rt tid =
     (let (interceptor_ctx, rt) = get_interceptor_thread_context rt tid
      in set_thread_context rt tid (interceptor_ctx\<lparr>tc_ignore_level := tc_ignore_level interceptor_ctx - 1\<rparr>))"

definition gum_interceptor_maybe_unignore_current_thread :: "runtime \<Rightarrow> GumThreadId \<Rightarrow> bool \<times> runtime" where
  "gum_interceptor_maybe_unignore_current_thread rt tid =
     (let (interceptor_ctx, rt) = get_interceptor_thread_context rt tid
      in if sint (tc_ignore_level interceptor_ctx) \<le> 0 then (False, rt)
         else (True, set_thread_context rt tid
                (interceptor_ctx\<lparr>tc_ignore_level := tc_ignore_level interceptor_ctx - 1\<rparr>)))"

definition gum_interceptor_ignore_other_threads :: "runtime \<Rightarrow> GumThreadId \<Rightarrow> runtime" where
  "gum_interceptor_ignore_other_threads rt tid = rt\<lparr>rt_selected_thread_id := ucast tid\<rparr>"

definition gum_interceptor_unignore_other_threads :: "runtime \<Rightarrow> GumThreadId \<Rightarrow> runtime option" where
  "gum_interceptor_unignore_other_threads rt tid =
     (if ucast (rt_selected_thread_id rt) = tid then Some (rt\<lparr>rt_selected_thread_id := 0\<rparr>) else None)"

text \<open>
  \<^verbatim>\<open>gum_invocation_stack_push\<close>. The array was made with the flag that clears new elements, so the new
  entry is zero but for what is assigned.
\<close>

definition zero_cpu_context :: GumCpuContext where
  "zero_cpu_context =
     \<lparr>cc_rip = 0, cc_r15 = 0, cc_r14 = 0, cc_r13 = 0, cc_r12 = 0, cc_r11 = 0, cc_r10 = 0, cc_r9 = 0, cc_r8 = 0,
      cc_rdi = 0, cc_rsi = 0, cc_rbp = 0, cc_rsp = 0, cc_rbx = 0, cc_rdx = 0, cc_rcx = 0, cc_rax = 0\<rparr>"

definition gum_invocation_stack_push ::
    "GumInvocationStack \<Rightarrow> gpointer \<Rightarrow> gpointer \<Rightarrow> gpointer \<Rightarrow> GumInvocationStack" where
  "gum_invocation_stack_push stack function_ctx function_address caller_ret_addr =
     stack @
     [\<lparr>se_function_ctx = function_ctx, se_caller_ret_addr = caller_ret_addr,
       se_invocation_context =
         \<lparr>in_function = function_address, in_cpu_context = NO_CPU_CONTEXT, in_system_error = 0, in_backend = NO_BACKEND\<rparr>,
       se_cpu_context = zero_cpu_context,
       se_listener_invocation_data = replicate GUM_MAX_LISTENERS_PER_FUNCTION (replicate GUM_MAX_LISTENER_DATA 0),
       se_calling_replacement = False, se_original_system_error = 0\<rparr>]"

definition gum_invocation_stack_pop :: "GumInvocationStack \<Rightarrow> (gpointer \<times> GumInvocationStack) option" where
  "gum_invocation_stack_pop stack =
     (if stack = [] then None else Some (se_caller_ret_addr (last stack), butlast stack))"

definition gum_invocation_stack_peek_top :: "GumInvocationStack \<Rightarrow> GumInvocationStackEntry option" where
  "gum_invocation_stack_peek_top stack = (if stack = [] then None else Some (last stack))"

text \<open>A store through the pointer to the top entry.\<close>

definition update_top :: "(GumInvocationStackEntry \<Rightarrow> GumInvocationStackEntry) \<Rightarrow> GumInvocationStack \<Rightarrow> GumInvocationStack" where
  "update_top f stack = (if stack = [] then [] else butlast stack @ [f (last stack)])"

definition gum_interceptor_get_current_stack :: "runtime \<Rightarrow> GumThreadId \<Rightarrow> GumInvocationStack" where
  "gum_interceptor_get_current_stack rt tid =
     (case th_context (rt_threads rt tid) of None \<Rightarrow> [] | Some context \<Rightarrow> tc_stack context)"

definition gum_interceptor_get_current_invocation ::
    "runtime \<Rightarrow> GumThreadId \<Rightarrow> GumInvocationContext option \<times> runtime" where
  "gum_interceptor_get_current_invocation rt tid =
     (let (interceptor_ctx, rt) = get_interceptor_thread_context rt tid
      in (map_option se_invocation_context (gum_invocation_stack_peek_top (tc_stack interceptor_ctx)), rt))"

fun gum_invocation_stack_translate ::
    "(gpointer \<rightharpoonup> GumFunctionContext) \<Rightarrow> GumInvocationStack \<Rightarrow> gpointer \<Rightarrow> gpointer option" where
  "gum_invocation_stack_translate ctxs [] return_address = Some return_address"
| "gum_invocation_stack_translate ctxs (entry # rest) return_address =
     (case ctxs (se_function_ctx entry) of
        None \<Rightarrow> None
      | Some function_ctx \<Rightarrow>
          (if fc_on_leave_trampoline function_ctx = return_address then Some (se_caller_ret_addr entry)
           else gum_invocation_stack_translate ctxs rest return_address))"

definition gum_interceptor_peek_top_caller_return_address :: "runtime \<Rightarrow> GumThreadId \<Rightarrow> gpointer" where
  "gum_interceptor_peek_top_caller_return_address rt tid =
     (case gum_invocation_stack_peek_top (gum_interceptor_get_current_stack rt tid) of
        None \<Rightarrow> 0
      | Some entry \<Rightarrow> se_caller_ret_addr entry)"

definition gum_interceptor_translate_top_return_address ::
    "runtime \<Rightarrow> GumThreadId \<Rightarrow> gpointer \<Rightarrow> gpointer option" where
  "gum_interceptor_translate_top_return_address rt tid return_address =
     (case gum_invocation_stack_peek_top (gum_interceptor_get_current_stack rt tid) of
        None \<Rightarrow> Some return_address
      | Some entry \<Rightarrow>
          (case rt_contexts rt (se_function_ctx entry) of
             None \<Rightarrow> None
           | Some function_ctx \<Rightarrow>
               (if fc_on_leave_trampoline function_ctx \<noteq> return_address then Some return_address
                else Some (se_caller_ret_addr entry))))"

text \<open>\<^verbatim>\<open>g_atomic_int_inc\<close> and \<^verbatim>\<open>g_atomic_int_dec_and_test\<close> on the usage counter of a context.\<close>

definition add_usage :: "guint32 \<Rightarrow> gpointer \<Rightarrow> runtime \<Rightarrow> runtime option" where
  "add_usage n function_ctx rt =
     (case rt_contexts rt function_ctx of
        None \<Rightarrow> None
      | Some ctx \<Rightarrow>
          Some (rt\<lparr>rt_contexts := (rt_contexts rt)(function_ctx \<mapsto>
                 ctx\<lparr>fc_trampoline_usage_counter := fc_trampoline_usage_counter ctx + n\<rparr>)\<rparr>))"

definition gum_interceptor_save :: "runtime \<Rightarrow> GumThreadId \<Rightarrow> nat" where
  "gum_interceptor_save rt tid = length (gum_interceptor_get_current_stack rt tid)"

fun release_entries :: "GumInvocationStack \<Rightarrow> runtime \<Rightarrow> runtime option" where
  "release_entries [] rt = Some rt"
| "release_entries (entry # rest) rt = Option.bind (add_usage (- 1) (se_function_ctx entry) rt) (release_entries rest)"

text \<open>With a depth above the current one the loop runs past the end of the array.\<close>

definition gum_interceptor_restore :: "runtime \<Rightarrow> GumThreadId \<Rightarrow> nat \<Rightarrow> runtime option" where
  "gum_interceptor_restore rt tid old_depth =
     (let stack = gum_interceptor_get_current_stack rt tid;
          new_depth = length stack
      in if new_depth = old_depth then Some rt
         else if old_depth > new_depth then None
         else
           (case release_entries (drop old_depth stack) rt of
              None \<Rightarrow> None
            | Some rt \<Rightarrow>
                (case th_context (rt_threads rt tid) of
                   None \<Rightarrow> None
                 | Some context \<Rightarrow> Some (set_thread_context rt tid (context\<lparr>tc_stack := take old_depth stack\<rparr>)))))"

section \<open>Data of the listeners\<close>

text \<open>The loop over the slots: the listener's own slot, or else the last free one.\<close>

fun find_data_slot :: "gpointer \<Rightarrow> nat \<Rightarrow> ListenerDataSlot list \<Rightarrow> nat option \<Rightarrow> bool \<times> nat option" where
  "find_data_slot listener i [] available_slot = (False, available_slot)"
| "find_data_slot listener i (sl # rest) available_slot =
     (if sd_owner sl = listener then (True, Some i)
      else find_data_slot listener (Suc i) rest (if sd_owner sl = 0 then Some i else available_slot))"

text \<open>The result is the index of the slot whose data the returned pointer points at.\<close>

definition interceptor_thread_context_get_listener_data ::
    "InterceptorThreadContext \<Rightarrow> gpointer \<Rightarrow> nat \<Rightarrow> nat option \<times> InterceptorThreadContext" where
  "interceptor_thread_context_get_listener_data self listener required_size =
     (if required_size > GUM_MAX_LISTENER_DATA then (None, self)
      else
        (let slots = tc_listener_data_slots self;
             cleared = \<lparr>sd_owner = listener, sd_data = replicate GUM_MAX_LISTENER_DATA 0\<rparr>
         in case find_data_slot listener 0 slots None of
              (True, found) \<Rightarrow> (found, self)
            | (False, None) \<Rightarrow> (Some (length slots), self\<lparr>tc_listener_data_slots := slots @ [cleared]\<rparr>)
            | (False, Some i) \<Rightarrow> (Some i, self\<lparr>tc_listener_data_slots := slots[i := cleared]\<rparr>)))"

fun forget_slot :: "gpointer \<Rightarrow> ListenerDataSlot list \<Rightarrow> ListenerDataSlot list" where
  "forget_slot listener [] = []"
| "forget_slot listener (sl # rest) =
     (if sd_owner sl = listener then sl\<lparr>sd_owner := 0\<rparr> # rest else sl # forget_slot listener rest)"

definition interceptor_thread_context_forget_listener_data ::
    "InterceptorThreadContext \<Rightarrow> gpointer \<Rightarrow> InterceptorThreadContext" where
  "interceptor_thread_context_forget_listener_data self listener =
     self\<lparr>tc_listener_data_slots := forget_slot listener (tc_listener_data_slots self)\<rparr>"

section \<open>Callbacks\<close>

text \<open>
  What a callback sees: the invocation context and the registers it points at, the thread and its
  identifier. What it changes: registers and system error, the bytes of its row of invocation data if it
  asked for them, and of its per-thread data, if it asked for some size of them.
\<close>

record callback_view =
  cv_listener :: gpointer
  cv_context :: GumInvocationContext
  cv_cpu_context :: GumCpuContext
  cv_thread_context :: InterceptorThreadContext
  cv_thread_id :: GumThreadId

record callback_effect =
  ce_cpu_context :: GumCpuContext
  ce_system_error :: guint32
  ce_invocation_data :: "guint8 list option"
  ce_thread_data :: "(nat \<times> guint8 list) option"

record GumInvocationListenerInterface =
  if_on_enter :: "(callback_view \<Rightarrow> callback_effect) option"
  if_on_leave :: "(callback_view \<Rightarrow> callback_effect) option"

text \<open>The functions of the two backends, reached through \<^verbatim>\<open>guminvocationcontext.c\<close>.\<close>

definition gum_invocation_context_get_point_cut ::
    "InterceptorThreadContext \<Rightarrow> GumInvocationContext \<Rightarrow> GumPointCut option" where
  "gum_invocation_context_get_point_cut tc context =
     (case in_backend context of
        NO_BACKEND \<Rightarrow> None
      | LISTENER_BACKEND \<Rightarrow> map_option ls_point_cut (tc_listener_data tc)
      | REPLACEMENT_BACKEND \<Rightarrow> Some GUM_POINT_ENTER)"

definition gum_invocation_context_get_depth :: "InterceptorThreadContext \<Rightarrow> guint" where
  "gum_invocation_context_get_depth tc = of_nat (length (tc_stack tc)) - 1"

definition gum_invocation_context_get_listener_function_data ::
    "InterceptorThreadContext \<Rightarrow> GumInvocationContext \<Rightarrow> gpointer option" where
  "gum_invocation_context_get_listener_function_data tc context =
     (case in_backend context of
        LISTENER_BACKEND \<Rightarrow> map_option (en_function_data \<circ> ls_entry) (tc_listener_data tc)
      | _ \<Rightarrow> None)"

definition gum_invocation_context_get_listener_thread_data ::
    "InterceptorThreadContext \<Rightarrow> GumInvocationContext \<Rightarrow> nat \<Rightarrow> (nat option \<times> InterceptorThreadContext) option" where
  "gum_invocation_context_get_listener_thread_data tc context required_size =
     (case in_backend context of
        LISTENER_BACKEND \<Rightarrow>
          map_option (\<lambda>data. interceptor_thread_context_get_listener_data tc (en_listener (ls_entry data)) required_size)
            (tc_listener_data tc)
      | _ \<Rightarrow> None)"

definition gum_invocation_context_get_listener_invocation_data ::
    "InterceptorThreadContext \<Rightarrow> GumInvocationContext \<Rightarrow> nat \<Rightarrow> nat option" where
  "gum_invocation_context_get_listener_invocation_data tc context required_size =
     (case in_backend context of
        LISTENER_BACKEND \<Rightarrow>
          (if required_size > GUM_MAX_LISTENER_DATA then None else map_option ls_row (tc_listener_data tc))
      | _ \<Rightarrow> None)"

definition gum_invocation_context_get_replacement_data ::
    "InterceptorThreadContext \<Rightarrow> GumInvocationContext \<Rightarrow> gpointer option" where
  "gum_invocation_context_get_replacement_data tc context =
     (case in_backend context of REPLACEMENT_BACKEND \<Rightarrow> Some (tc_replacement_data tc) | _ \<Rightarrow> None)"

text \<open>
  The stores of a callback: through the pointer to its invocation data, which are out of bounds when the
  row does not exist, and through the pointer to its thread data, unless it got \<^verbatim>\<open>NULL\<close>.
\<close>

definition store_invocation_data :: "nat \<Rightarrow> guint8 list option \<Rightarrow> InterceptorThreadContext \<Rightarrow> InterceptorThreadContext option" where
  "store_invocation_data row bytes tc =
     (case bytes of
        None \<Rightarrow> Some tc
      | Some bs \<Rightarrow>
          (case gum_invocation_stack_peek_top (tc_stack tc) of
             None \<Rightarrow> None
           | Some entry \<Rightarrow>
               (if row < length (se_listener_invocation_data entry)
                then Some (tc\<lparr>tc_stack := update_top
                       (\<lambda>e. e\<lparr>se_listener_invocation_data := (se_listener_invocation_data e)[row := bs]\<rparr>) (tc_stack tc)\<rparr>)
                else None)))"

definition store_thread_data :: "gpointer \<Rightarrow> (nat \<times> guint8 list) option \<Rightarrow> InterceptorThreadContext \<Rightarrow> InterceptorThreadContext" where
  "store_thread_data listener request tc =
     (case request of
        None \<Rightarrow> tc
      | Some (required_size, bs) \<Rightarrow>
          (case interceptor_thread_context_get_listener_data tc listener required_size of
             (None, tc) \<Rightarrow> tc
           | (Some i, tc) \<Rightarrow>
               tc\<lparr>tc_listener_data_slots := (tc_listener_data_slots tc)[i := (tc_listener_data_slots tc ! i)\<lparr>sd_data := bs\<rparr>]\<rparr>))"

definition run_callback ::
    "(callback_view \<Rightarrow> callback_effect) \<Rightarrow> GumThreadId \<Rightarrow> nat \<Rightarrow> gpointer \<Rightarrow> InterceptorThreadContext \<Rightarrow> GumCpuContext
     \<Rightarrow> (InterceptorThreadContext \<times> GumCpuContext) option" where
  "run_callback f tid row listener tc cpu_context =
     (case gum_invocation_stack_peek_top (tc_stack tc) of
        None \<Rightarrow> None
      | Some entry \<Rightarrow>
          (let eff = f \<lparr>cv_listener = listener, cv_context = se_invocation_context entry, cv_cpu_context = cpu_context,
                        cv_thread_context = tc, cv_thread_id = tid\<rparr>;
               tc = tc\<lparr>tc_stack := update_top
                      (\<lambda>e. e\<lparr>se_invocation_context := (se_invocation_context e)\<lparr>in_system_error := ce_system_error eff\<rparr>\<rparr>)
                      (tc_stack tc)\<rparr>;
               tc = store_thread_data listener (ce_thread_data eff) tc
           in map_option (\<lambda>tc. (tc, ce_cpu_context eff)) (store_invocation_data row (ce_invocation_data eff) tc)))"

text \<open>
  The loops over the listener entries of a context, for both point cuts. The calls made are appended to
  \<open>calls\<close>.
\<close>

fun invoke_listeners ::
    "(gpointer \<Rightarrow> GumInvocationListenerInterface) \<Rightarrow> GumPointCut \<Rightarrow> GumThreadId \<Rightarrow> gpointer \<Rightarrow> nat \<Rightarrow> ListenerEntry option list
     \<Rightarrow> InterceptorThreadContext \<Rightarrow> GumCpuContext \<Rightarrow> listener_call list
     \<Rightarrow> (InterceptorThreadContext \<times> GumCpuContext \<times> listener_call list) option" where
  "invoke_listeners ifaces point_cut tid function_ctx i [] tc cpu_context calls = Some (tc, cpu_context, calls)"
| "invoke_listeners ifaces point_cut tid function_ctx i (None # entries) tc cpu_context calls =
     invoke_listeners ifaces point_cut tid function_ctx (Suc i) entries tc cpu_context calls"
| "invoke_listeners ifaces point_cut tid function_ctx i (Some listener_entry # entries) tc cpu_context calls =
     (let tc = tc\<lparr>tc_listener_data := Some \<lparr>ls_point_cut = point_cut, ls_entry = listener_entry, ls_row = i\<rparr>\<rparr>;
          iface = ifaces (en_listener listener_entry)
      in case (if point_cut = GUM_POINT_ENTER then if_on_enter iface else if_on_leave iface) of
           None \<Rightarrow> invoke_listeners ifaces point_cut tid function_ctx (Suc i) entries tc cpu_context calls
         | Some f \<Rightarrow>
             (case run_callback f tid i (en_listener listener_entry) tc cpu_context of
                None \<Rightarrow> None
              | Some (tc, cpu_context) \<Rightarrow>
                  invoke_listeners ifaces point_cut tid function_ctx (Suc i) entries tc cpu_context
                    (calls @ [\<lparr>call_thread = tid, call_function_ctx = function_ctx,
                               call_listener = en_listener listener_entry, call_point_cut = point_cut\<rparr>])))"

section \<open>Entering an intercepted function\<close>

definition gum_function_context_fixup_cpu_context :: "GumFunctionContext \<Rightarrow> GumCpuContext \<Rightarrow> GumCpuContext" where
  "gum_function_context_fixup_cpu_context function_ctx cpu_context =
     cpu_context\<lparr>cc_rip := fc_function_address function_ctx\<rparr>"

definition set_guard :: "gpointer \<Rightarrow> GumThreadId \<Rightarrow> runtime \<Rightarrow> runtime" where
  "set_guard value tid rt = set_thread rt tid ((rt_threads rt tid)\<lparr>th_guard := value\<rparr>)"

definition set_system_error :: "guint32 \<Rightarrow> GumThreadId \<Rightarrow> runtime \<Rightarrow> runtime" where
  "set_system_error value tid rt = set_thread rt tid ((rt_threads rt tid)\<lparr>th_system_error := value\<rparr>)"

text \<open>The test for the original function being called by its replacement.\<close>

definition called_by_replacement :: "GumFunctionContext \<Rightarrow> GumInvocationStack \<Rightarrow> bool" where
  "called_by_replacement function_ctx stack =
     (case gum_invocation_stack_peek_top stack of
        None \<Rightarrow> False
      | Some stack_entry \<Rightarrow>
          se_calling_replacement stack_entry \<and>
          in_function (se_invocation_context stack_entry) = fc_function_address function_ctx)"

definition will_invoke_listeners :: "runtime \<Rightarrow> GumThreadId \<Rightarrow> InterceptorThreadContext \<Rightarrow> bool" where
  "will_invoke_listeners rt tid interceptor_ctx \<longleftrightarrow>
     (if rt_selected_thread_id rt \<noteq> 0 then tid = ucast (rt_selected_thread_id rt) else True) \<and>
     sint (tc_ignore_level interceptor_ctx) \<le> 0"

definition traps_on_leave :: "GumFunctionContext \<Rightarrow> bool \<Rightarrow> bool" where
  "traps_on_leave function_ctx invoking \<longleftrightarrow>
     fc_replacement_function function_ctx \<noteq> 0 \<or> (invoking \<and> fc_has_on_leave_listener function_ctx)"

text \<open>The entry pushed by the call, with the system error stored in its invocation context.\<close>

definition push_invocation ::
    "gpointer \<Rightarrow> GumFunctionContext \<Rightarrow> bool \<Rightarrow> bool \<Rightarrow> gpointer \<Rightarrow> guint32 \<Rightarrow> InterceptorThreadContext \<Rightarrow> InterceptorThreadContext" where
  "push_invocation p function_ctx invoking will_trap_on_leave caller_ret_addr system_error tc =
     (let stack =
            (if will_trap_on_leave
             then gum_invocation_stack_push (tc_stack tc) p (fc_function_address function_ctx) caller_ret_addr
             else if invoking
             then gum_invocation_stack_push (tc_stack tc) p (fc_function_address function_ctx) (fc_function_address function_ctx)
             else tc_stack tc)
      in if will_trap_on_leave \<or> invoking
         then tc\<lparr>tc_stack := update_top
                (\<lambda>e. e\<lparr>se_invocation_context := (se_invocation_context e)\<lparr>in_system_error := system_error\<rparr>\<rparr>) stack\<rparr>
         else tc)"

text \<open>The part that calls the listeners; it yields the system error as they left it.\<close>

definition enter_listeners ::
    "(gpointer \<Rightarrow> GumInvocationListenerInterface) \<Rightarrow> GumThreadId \<Rightarrow> gpointer \<Rightarrow> GumFunctionContext \<Rightarrow> InterceptorThreadContext
     \<Rightarrow> GumCpuContext \<Rightarrow> listener_call list
     \<Rightarrow> (InterceptorThreadContext \<times> GumCpuContext \<times> listener_call list \<times> guint32) option" where
  "enter_listeners ifaces tid p function_ctx tc cpu_context calls =
     (let tc = tc\<lparr>tc_stack := update_top
                 (\<lambda>e. e\<lparr>se_invocation_context := (se_invocation_context e)
                          \<lparr>in_cpu_context := FRAME_CPU_CONTEXT, in_backend := LISTENER_BACKEND\<rparr>\<rparr>) (tc_stack tc)\<rparr>
      in case invoke_listeners ifaces GUM_POINT_ENTER tid p 0 (fc_listener_entries function_ctx) tc cpu_context calls of
           None \<Rightarrow> None
         | Some (tc, cpu_context, calls) \<Rightarrow>
             (case gum_invocation_stack_peek_top (tc_stack tc) of
                None \<Rightarrow> None
              | Some e \<Rightarrow> Some (tc, cpu_context, calls, in_system_error (se_invocation_context e))))"

text \<open>The stores made when the function is replaced.\<close>

definition prepare_replacement ::
    "GumFunctionContext \<Rightarrow> GumCpuContext \<Rightarrow> guint32 \<Rightarrow> InterceptorThreadContext \<Rightarrow> InterceptorThreadContext" where
  "prepare_replacement function_ctx cpu_context system_error tc =
     tc\<lparr>tc_stack := update_top
          (\<lambda>e. e\<lparr>se_calling_replacement := True, se_cpu_context := cpu_context, se_original_system_error := system_error,
                  se_invocation_context := (se_invocation_context e)
                    \<lparr>in_cpu_context := ENTRY_CPU_CONTEXT, in_backend := REPLACEMENT_BACKEND\<rparr>\<rparr>) (tc_stack tc),
        tc_replacement_data := fc_replacement_data function_ctx\<rparr>"

text \<open>
  The path past the two bypasses. The results are the registers, the return address left in the caller's
  slot, and the next hop.
\<close>

definition enter_invocation ::
    "(gpointer \<Rightarrow> GumInvocationListenerInterface) \<Rightarrow> runtime \<Rightarrow> GumThreadId \<Rightarrow> gpointer \<Rightarrow> GumFunctionContext
     \<Rightarrow> InterceptorThreadContext \<Rightarrow> GumCpuContext \<Rightarrow> gpointer
     \<Rightarrow> (runtime \<times> GumCpuContext \<times> gpointer \<times> gpointer) option" where
  "enter_invocation ifaces rt tid p function_ctx interceptor_ctx cpu_context caller_ret_addr =
     (let system_error = th_system_error (rt_threads rt tid);
          invoking = will_invoke_listeners rt tid interceptor_ctx;
          will_trap_on_leave = traps_on_leave function_ctx invoking;
          tc = push_invocation p function_ctx invoking will_trap_on_leave caller_ret_addr system_error interceptor_ctx;
          cpu_context = gum_function_context_fixup_cpu_context function_ctx cpu_context
      in case (if invoking then enter_listeners ifaces tid p function_ctx tc cpu_context (rt_calls rt)
               else Some (tc, cpu_context, rt_calls rt, system_error)) of
           None \<Rightarrow> None
         | Some (tc, cpu_context, calls, system_error) \<Rightarrow>
             (let rt = rt\<lparr>rt_calls := calls\<rparr>;
                  tc = (if \<not> will_trap_on_leave \<and> invoking
                        then tc\<lparr>tc_stack := (case gum_invocation_stack_pop (tc_stack tc) of
                                              None \<Rightarrow> tc_stack tc | Some (r, stack) \<Rightarrow> stack)\<rparr>
                        else tc);
                  rt = set_system_error system_error tid rt;
                  rt = set_guard 0 tid rt;
                  caller_ret_addr = (if will_trap_on_leave then fc_on_leave_trampoline function_ctx else caller_ret_addr);
                  (tc, next_hop) =
                    (if fc_replacement_function function_ctx \<noteq> 0
                     then (prepare_replacement function_ctx cpu_context system_error tc, fc_replacement_function function_ctx)
                     else (tc, fc_on_invoke_trampoline function_ctx));
                  rt = set_thread_context rt tid tc
              in map_option (\<lambda>rt. (rt, cpu_context, caller_ret_addr, next_hop))
                   (if will_trap_on_leave then Some rt else add_usage (- 1) p rt)))"

definition gum_function_context_begin_invocation ::
    "(gpointer \<Rightarrow> GumInvocationListenerInterface) \<Rightarrow> runtime \<Rightarrow> GumThreadId \<Rightarrow> gpointer \<Rightarrow> GumCpuContext \<Rightarrow> gpointer
     \<Rightarrow> (runtime \<times> GumCpuContext \<times> gpointer \<times> gpointer) option" where
  "gum_function_context_begin_invocation ifaces rt tid p cpu_context caller_ret_addr =
     (case rt_contexts rt p of
        None \<Rightarrow> None
      | Some function_ctx \<Rightarrow>
          (case add_usage 1 p rt of
             None \<Rightarrow> None
           | Some rt \<Rightarrow>
               (let bypass = (\<lambda>rt. map_option (\<lambda>rt. (rt, cpu_context, caller_ret_addr, fc_on_invoke_trampoline function_ctx))
                                     (add_usage (- 1) p rt))
                in if th_guard (rt_threads rt tid) = rt_interceptor rt then bypass rt
                   else
                     let rt = set_guard (rt_interceptor rt) tid rt;
                         (interceptor_ctx, rt) = get_interceptor_thread_context rt tid
                     in if called_by_replacement function_ctx (tc_stack interceptor_ctx) then bypass (set_guard 0 tid rt)
                        else enter_invocation ifaces rt tid p function_ctx interceptor_ctx cpu_context caller_ret_addr)))"

section \<open>Leaving an intercepted function\<close>

text \<open>The stores into the invocation context of the top entry before the listeners are called.\<close>

definition prepare_leave :: "guint32 \<Rightarrow> InterceptorThreadContext \<Rightarrow> InterceptorThreadContext" where
  "prepare_leave system_error tc =
     tc\<lparr>tc_stack := update_top
          (\<lambda>stack_entry. stack_entry\<lparr>se_invocation_context := (se_invocation_context stack_entry)
             \<lparr>in_cpu_context := FRAME_CPU_CONTEXT,
              in_system_error :=
                (if se_calling_replacement stack_entry \<and>
                    in_system_error (se_invocation_context stack_entry) \<noteq> se_original_system_error stack_entry
                 then in_system_error (se_invocation_context stack_entry) else system_error),
              in_backend := LISTENER_BACKEND\<rparr>\<rparr>) (tc_stack tc)\<rparr>"

definition gum_function_context_end_invocation ::
    "(gpointer \<Rightarrow> GumInvocationListenerInterface) \<Rightarrow> runtime \<Rightarrow> GumThreadId \<Rightarrow> gpointer \<Rightarrow> GumCpuContext
     \<Rightarrow> (runtime \<times> GumCpuContext \<times> gpointer) option" where
  "gum_function_context_end_invocation ifaces rt tid p cpu_context =
     (case rt_contexts rt p of
        None \<Rightarrow> None
      | Some function_ctx \<Rightarrow>
          (let rt = set_guard (rt_interceptor rt) tid rt;
               system_error = th_system_error (rt_threads rt tid);
               (interceptor_ctx, rt) = get_interceptor_thread_context rt tid
           in case gum_invocation_stack_peek_top (tc_stack interceptor_ctx) of
                None \<Rightarrow> None
              | Some stack_entry \<Rightarrow>
                  (let next_hop = se_caller_ret_addr stack_entry;
                       cpu_context = gum_function_context_fixup_cpu_context function_ctx cpu_context
                   in case invoke_listeners ifaces GUM_POINT_LEAVE tid p 0 (fc_listener_entries function_ctx)
                             (prepare_leave system_error interceptor_ctx) cpu_context (rt_calls rt) of
                        None \<Rightarrow> None
                      | Some (tc, cpu_context, calls) \<Rightarrow>
                          (case gum_invocation_stack_peek_top (tc_stack tc) of
                             None \<Rightarrow> None
                           | Some e \<Rightarrow>
                               (let rt = rt\<lparr>rt_calls := calls\<rparr>;
                                    rt = set_system_error (in_system_error (se_invocation_context e)) tid rt;
                                    rt = set_thread_context rt tid (tc\<lparr>tc_stack := butlast (tc_stack tc)\<rparr>);
                                    rt = set_guard 0 tid rt
                                in map_option (\<lambda>rt. (rt, cpu_context, next_hop)) (add_usage (- 1) p rt))))))"

end
