(* ===== verification/Gum_Invocation_Correct.thy ===== *)
theory Gum_Invocation_Correct
  imports Gum_Invocation
begin

text \<open>
  What entering and leaving an intercepted function does to the invocation stacks, the usage counters and
  the listeners. An entry of a stack is reduced to its \<open>frame\<close>, the context and the saved return address,
  which no callback can change.
\<close>

section \<open>Frames\<close>

definition frame :: "GumInvocationStackEntry \<Rightarrow> gpointer \<times> gpointer" where
  "frame e = (se_function_ctx e, se_caller_ret_addr e)"

definition frames :: "runtime \<Rightarrow> GumThreadId \<Rightarrow> (gpointer \<times> gpointer) list" where
  "frames rt tid = map frame (gum_interceptor_get_current_stack rt tid)"

definition rows_ok :: "GumInvocationStack \<Rightarrow> bool" where
  "rows_ok stack \<longleftrightarrow> (\<forall>e \<in> set stack. length (se_listener_invocation_data e) = GUM_MAX_LISTENERS_PER_FUNCTION)"

lemma update_top_Nil [simp]: "update_top f stack = [] \<longleftrightarrow> stack = []"
  by (simp add: update_top_def)

lemma butlast_update_top [simp]: "butlast (update_top f stack) = butlast stack"
  by (simp add: update_top_def)

lemma last_update_top [simp]: "stack \<noteq> [] \<Longrightarrow> last (update_top f stack) = f (last stack)"
  by (simp add: update_top_def)

lemma update_top_snoc [simp]: "update_top f (stack @ [e]) = stack @ [f e]"
  by (simp add: update_top_def)

lemma map_update_top:
  assumes "\<And>e. g (f e) = g e"
  shows "map g (update_top f stack) = map g stack"
  by (cases stack rule: rev_cases) (simp_all add: update_top_def assms)

lemma rows_ok_update_top:
  assumes "\<And>e. length (se_listener_invocation_data (f e)) = length (se_listener_invocation_data e)"
  shows "rows_ok (update_top f stack) \<longleftrightarrow> rows_ok stack"
  by (cases stack rule: rev_cases) (simp_all add: update_top_def assms rows_ok_def)

lemma rows_ok_butlast: "rows_ok stack \<Longrightarrow> rows_ok (butlast stack)"
  by (auto simp: rows_ok_def dest: in_set_butlastD)

lemma store_thread_data_keeps [simp]:
  "tc_stack (store_thread_data l r tc) = tc_stack tc"
  "tc_ignore_level (store_thread_data l r tc) = tc_ignore_level tc"
  "tc_replacement_data (store_thread_data l r tc) = tc_replacement_data tc"
  by (auto simp: store_thread_data_def interceptor_thread_context_get_listener_data_def Let_def
      split: option.splits prod.splits bool.splits if_splits)

text \<open>A callback keeps the frames, the ignore level and the replacement data; only its row can be missing.\<close>

lemma run_callback_keeps:
  assumes "run_callback f tid row l tc cpu = Some (tc', cpu')"
  shows "map frame (tc_stack tc') = map frame (tc_stack tc)"
    and "map se_calling_replacement (tc_stack tc') = map se_calling_replacement (tc_stack tc)"
    and "tc_ignore_level tc' = tc_ignore_level tc"
    and "tc_replacement_data tc' = tc_replacement_data tc"
    and "rows_ok (tc_stack tc') = rows_ok (tc_stack tc)"
  using assms
  by (auto simp: run_callback_def store_invocation_data_def gum_invocation_stack_peek_top_def Let_def
      map_update_top frame_def rows_ok_update_top split: option.splits if_splits)

lemma run_callback_returns:
  assumes "tc_stack tc \<noteq> []" "rows_ok (tc_stack tc)" "row < GUM_MAX_LISTENERS_PER_FUNCTION"
  shows "\<exists>tc' cpu'. run_callback f tid row l tc cpu = Some (tc', cpu')"
proof -
  have "length (se_listener_invocation_data (last (tc_stack tc))) = GUM_MAX_LISTENERS_PER_FUNCTION"
    using assms by (auto simp: rows_ok_def)
  then show ?thesis
    using assms by (auto simp: run_callback_def store_invocation_data_def gum_invocation_stack_peek_top_def Let_def
        split: option.splits)
qed

text \<open>The calls a loop over listener entries makes.\<close>

definition wanted :: "(gpointer \<Rightarrow> GumInvocationListenerInterface) \<Rightarrow> GumPointCut \<Rightarrow> ListenerEntry \<Rightarrow> bool" where
  "wanted ifaces point_cut e \<longleftrightarrow>
     (case point_cut of
        GUM_POINT_ENTER \<Rightarrow> if_on_enter (ifaces (en_listener e)) \<noteq> None
      | GUM_POINT_LEAVE \<Rightarrow> if_on_leave (ifaces (en_listener e)) \<noteq> None)"

definition calls_of ::
    "(gpointer \<Rightarrow> GumInvocationListenerInterface) \<Rightarrow> GumPointCut \<Rightarrow> GumThreadId \<Rightarrow> gpointer \<Rightarrow> ListenerEntry option list
     \<Rightarrow> listener_call list" where
  "calls_of ifaces point_cut tid p entries =
     map (\<lambda>e. \<lparr>call_thread = tid, call_function_ctx = p, call_listener = en_listener e, call_point_cut = point_cut\<rparr>)
       (filter (wanted ifaces point_cut) (map the (filter (\<lambda>e. e \<noteq> None) entries)))"

lemma wanted_iff:
  "wanted ifaces point_cut e \<longleftrightarrow>
     (if point_cut = GUM_POINT_ENTER then if_on_enter (ifaces (en_listener e)) else if_on_leave (ifaces (en_listener e))) \<noteq> None"
  by (cases point_cut) (simp_all add: wanted_def)

lemma invoke_listeners_keeps:
  assumes "invoke_listeners ifaces pc tid p i entries tc cpu calls = Some (tc', cpu', calls')"
  shows "map frame (tc_stack tc') = map frame (tc_stack tc) \<and>
         map se_calling_replacement (tc_stack tc') = map se_calling_replacement (tc_stack tc) \<and>
         tc_ignore_level tc' = tc_ignore_level tc \<and>
         tc_replacement_data tc' = tc_replacement_data tc \<and>
         rows_ok (tc_stack tc') = rows_ok (tc_stack tc) \<and>
         calls' = calls @ calls_of ifaces pc tid p entries"
  using assms
proof (induction ifaces pc tid p i entries tc cpu calls rule: invoke_listeners.induct)
  case (1 ifaces pc tid p i tc cpu calls)
  then show ?case by (simp add: calls_of_def)
next
  case (2 ifaces pc tid p i entries tc cpu calls)
  then show ?case by (simp add: calls_of_def)
next
  case (3 ifaces pc tid p i e entries tc cpu calls)
  let ?tc = "tc\<lparr>tc_listener_data := Some \<lparr>ls_point_cut = pc, ls_entry = e, ls_row = i\<rparr>\<rparr>"
  let ?f = "if pc = GUM_POINT_ENTER then if_on_enter (ifaces (en_listener e)) else if_on_leave (ifaces (en_listener e))"
  show ?case
  proof (cases ?f)
    case None
    then have "\<not> wanted ifaces pc e" by (simp add: wanted_iff)
    then show ?thesis
      using "3.prems" "3.IH"(1) [OF refl refl None] None by (simp add: calls_of_def Let_def)
  next
    case (Some f)
    then have w: "wanted ifaces pc e" by (simp add: wanted_iff)
    obtain tc1 cpu1 where r: "run_callback f tid i (en_listener e) ?tc cpu = Some (tc1, cpu1)"
      using "3.prems" Some by (auto simp: Let_def split: option.splits)
    show ?thesis
      using "3.prems" "3.IH"(2) [OF refl refl Some r refl] Some r run_callback_keeps [OF r] w
      by (simp add: calls_of_def Let_def)
  qed
qed

lemma invoke_listeners_returns:
  assumes "tc_stack tc \<noteq> []" "rows_ok (tc_stack tc)" "i + length entries \<le> GUM_MAX_LISTENERS_PER_FUNCTION"
  shows "\<exists>tc' cpu' calls'. invoke_listeners ifaces pc tid p i entries tc cpu calls = Some (tc', cpu', calls')"
  using assms
proof (induction ifaces pc tid p i entries tc cpu calls rule: invoke_listeners.induct)
  case (3 ifaces pc tid p i e entries tc cpu calls)
  let ?tc = "tc\<lparr>tc_listener_data := Some \<lparr>ls_point_cut = pc, ls_entry = e, ls_row = i\<rparr>\<rparr>"
  let ?f = "if pc = GUM_POINT_ENTER then if_on_enter (ifaces (en_listener e)) else if_on_leave (ifaces (en_listener e))"
  show ?case
  proof (cases ?f)
    case None
    then show ?thesis using "3.prems" "3.IH"(1) [OF refl refl None] by (simp add: Let_def)
  next
    case (Some f)
    obtain tc1 cpu1 where r: "run_callback f tid i (en_listener e) ?tc cpu = Some (tc1, cpu1)"
      using run_callback_returns [of ?tc i f tid "en_listener e" cpu] "3.prems" by auto
    have "tc_stack tc1 \<noteq> []" using run_callback_keeps(1) [OF r] "3.prems"(1) by auto
    moreover have "rows_ok (tc_stack tc1)" using run_callback_keeps(5) [OF r] "3.prems"(2) by simp
    ultimately show ?thesis
      using "3.prems" "3.IH"(2) [OF refl refl Some r refl] Some r by (simp add: Let_def)
  qed
qed simp_all

section \<open>Effect of a call on the run-time state\<close>

definition context_of :: "runtime \<Rightarrow> GumThreadId \<Rightarrow> InterceptorThreadContext" where
  "context_of rt tid =
     (case th_context (rt_threads rt tid) of None \<Rightarrow> interceptor_thread_context_new | Some tc \<Rightarrow> tc)"

lemma current_stack: "gum_interceptor_get_current_stack rt tid = tc_stack (context_of rt tid)"
  by (auto simp: gum_interceptor_get_current_stack_def context_of_def interceptor_thread_context_new_def split: option.splits)

lemma set_thread_simps [simp]:
  "rt_threads (set_thread rt tid th) = (rt_threads rt)(tid := th)"
  "rt_contexts (set_thread rt tid th) = rt_contexts rt"
  "rt_interceptor (set_thread rt tid th) = rt_interceptor rt"
  "rt_selected_thread_id (set_thread rt tid th) = rt_selected_thread_id rt"
  "rt_thread_contexts (set_thread rt tid th) = rt_thread_contexts rt"
  "rt_calls (set_thread rt tid th) = rt_calls rt"
  by (simp_all add: set_thread_def)

lemma set_thread_derived [simp]:
  "rt_contexts (set_guard v tid rt) = rt_contexts rt"
  "rt_interceptor (set_guard v tid rt) = rt_interceptor rt"
  "rt_selected_thread_id (set_guard v tid rt) = rt_selected_thread_id rt"
  "rt_thread_contexts (set_guard v tid rt) = rt_thread_contexts rt"
  "rt_calls (set_guard v tid rt) = rt_calls rt"
  "rt_contexts (set_system_error e tid rt) = rt_contexts rt"
  "rt_interceptor (set_system_error e tid rt) = rt_interceptor rt"
  "rt_selected_thread_id (set_system_error e tid rt) = rt_selected_thread_id rt"
  "rt_thread_contexts (set_system_error e tid rt) = rt_thread_contexts rt"
  "rt_calls (set_system_error e tid rt) = rt_calls rt"
  "rt_contexts (set_thread_context rt tid tc) = rt_contexts rt"
  "rt_interceptor (set_thread_context rt tid tc) = rt_interceptor rt"
  "rt_selected_thread_id (set_thread_context rt tid tc) = rt_selected_thread_id rt"
  "rt_thread_contexts (set_thread_context rt tid tc) = rt_thread_contexts rt"
  "rt_calls (set_thread_context rt tid tc) = rt_calls rt"
  by (simp_all add: set_guard_def set_system_error_def set_thread_context_def)

lemma set_thread_context_of [simp]:
  "context_of (set_guard v tid rt) t = context_of rt t"
  "context_of (set_system_error e tid rt) t = context_of rt t"
  "context_of (set_thread_context rt tid tc) t = (if t = tid then tc else context_of rt t)"
  by (simp_all add: set_guard_def set_system_error_def set_thread_context_def context_of_def)

text \<open>The threads that have a context are the ones in the table.\<close>

definition tracked :: "runtime \<Rightarrow> bool" where
  "tracked rt \<longleftrightarrow>
     distinct (rt_thread_contexts rt) \<and> (\<forall>t. t \<in> set (rt_thread_contexts rt) \<longleftrightarrow> th_context (rt_threads rt t) \<noteq> None)"

text \<open>
  How two states are related by a step of thread \<open>tid\<close>: nothing of the other threads changes.
\<close>

definition only_thread :: "GumThreadId \<Rightarrow> runtime \<Rightarrow> runtime \<Rightarrow> bool" where
  "only_thread tid rt rt' \<longleftrightarrow>
     rt_interceptor rt' = rt_interceptor rt \<and> rt_selected_thread_id rt' = rt_selected_thread_id rt \<and>
     (\<forall>t. t \<noteq> tid \<longrightarrow> rt_threads rt' t = rt_threads rt t) \<and>
     (tracked rt \<longrightarrow> tracked rt')"

lemma only_thread_refl [simp]: "only_thread tid rt rt"
  by (simp add: only_thread_def)

lemma only_thread_trans: "only_thread tid rt rt1 \<Longrightarrow> only_thread tid rt1 rt2 \<Longrightarrow> only_thread tid rt rt2"
  by (simp add: only_thread_def)

lemma only_thread_set [simp]:
  "only_thread tid rt (set_guard v tid rt)"
  "only_thread tid rt (set_system_error e tid rt)"
  "th_context (rt_threads rt tid) \<noteq> None \<Longrightarrow> only_thread tid rt (set_thread_context rt tid tc)"
  "only_thread tid rt (rt\<lparr>rt_calls := calls\<rparr>)"
  "only_thread tid rt (rt\<lparr>rt_contexts := ctxs\<rparr>)"
  by (auto simp: only_thread_def tracked_def set_guard_def set_system_error_def set_thread_context_def)

lemma only_thread_after:
  assumes "only_thread tid rt rt1"
  shows "only_thread tid rt (set_guard v tid rt1)"
    "only_thread tid rt (set_system_error e tid rt1)"
    "th_context (rt_threads rt1 tid) \<noteq> None \<Longrightarrow> only_thread tid rt (set_thread_context rt1 tid tc)"
    "only_thread tid rt (rt1\<lparr>rt_calls := calls\<rparr>)"
  using assms by (auto intro: only_thread_trans)

lemma get_context:
  assumes "get_interceptor_thread_context rt tid = (tc, rt1)"
  shows "tc = context_of rt tid" "rt_contexts rt1 = rt_contexts rt" "rt_calls rt1 = rt_calls rt"
    "only_thread tid rt rt1" "th_context (rt_threads rt1 tid) = Some tc" "\<And>t. context_of rt1 t = context_of rt t"
    "th_guard (rt_threads rt1 tid) = th_guard (rt_threads rt tid)"
    "th_system_error (rt_threads rt1 tid) = th_system_error (rt_threads rt tid)"
  using assms
  by (auto simp: get_interceptor_thread_context_def context_of_def only_thread_def tracked_def set_thread_context_def Let_def
      split: option.splits if_splits)

lemma add_usage_live:
  "rt_contexts rt p = Some c \<Longrightarrow>
   add_usage n p rt = Some (rt\<lparr>rt_contexts := (rt_contexts rt)(p \<mapsto>
     c\<lparr>fc_trampoline_usage_counter := fc_trampoline_usage_counter c + n\<rparr>)\<rparr>)"
  by (simp add: add_usage_def)

lemma add_usage_thread [simp]:
  assumes "add_usage n p rt = Some rt'"
  shows "context_of rt' t = context_of rt t" "rt_threads rt' = rt_threads rt" "rt_calls rt' = rt_calls rt"
    "only_thread tid rt rt'" "rt_interceptor rt' = rt_interceptor rt"
    "rt_selected_thread_id rt' = rt_selected_thread_id rt" "rt_thread_contexts rt' = rt_thread_contexts rt"
  using assms by (auto simp: add_usage_def context_of_def split: option.splits)

text \<open>
  The two ways a call is entered. It passes when nothing is left on the stack and in the counters; it is
  trapped when the return address in the caller's slot is exchanged for the on-leave trampoline, a frame is
  pushed, and the context is marked as in use.
\<close>

definition passes :: "runtime \<Rightarrow> GumThreadId \<Rightarrow> gpointer \<Rightarrow> runtime \<Rightarrow> gpointer \<Rightarrow> bool" where
  "passes rt tid r rt' r' \<longleftrightarrow> frames rt' tid = frames rt tid \<and> rt_contexts rt' = rt_contexts rt \<and> r' = r"

definition trapped :: "runtime \<Rightarrow> GumThreadId \<Rightarrow> gpointer \<Rightarrow> GumFunctionContext \<Rightarrow> gpointer \<Rightarrow> runtime \<Rightarrow> gpointer \<Rightarrow> bool" where
  "trapped rt tid p c r rt' r' \<longleftrightarrow>
     frames rt' tid = frames rt tid @ [(p, r)] \<and>
     rt_contexts rt' = (rt_contexts rt)(p \<mapsto> c\<lparr>fc_trampoline_usage_counter := fc_trampoline_usage_counter c + 1\<rparr>) \<and>
     r' = fc_on_leave_trampoline c"

definition invoking :: "runtime \<Rightarrow> GumThreadId \<Rightarrow> bool" where
  "invoking rt tid = will_invoke_listeners rt tid (context_of rt tid)"

definition bypassed :: "runtime \<Rightarrow> GumThreadId \<Rightarrow> GumFunctionContext \<Rightarrow> bool" where
  "bypassed rt tid c \<longleftrightarrow>
     th_guard (rt_threads rt tid) = rt_interceptor rt \<or>
     called_by_replacement c (gum_interceptor_get_current_stack rt tid)"

lemma frames_context_of: "frames rt tid = map frame (tc_stack (context_of rt tid))"
  by (simp add: frames_def current_stack)

lemma map_frame_update_top:
  "map frame (update_top (\<lambda>e. e\<lparr>se_invocation_context := g e\<rparr>) stack) = map frame stack"
  by (rule map_update_top) (simp add: frame_def)

lemma push_invocation_frames:
  "map frame (tc_stack (push_invocation p c ivk trap r err tc)) =
     map frame (tc_stack tc) @ (if trap then [(p, r)] else if ivk then [(p, fc_function_address c)] else [])"
  "rows_ok (tc_stack tc) \<Longrightarrow> rows_ok (tc_stack (push_invocation p c ivk trap r err tc))"
  "tc_ignore_level (push_invocation p c ivk trap r err tc) = tc_ignore_level tc"
  by (simp_all add: push_invocation_def map_frame_update_top gum_invocation_stack_push_def frame_def rows_ok_def)

lemma enter_listeners_keeps:
  assumes "enter_listeners ifaces tid p c tc cpu calls = Some (tc', cpu', calls', err)"
  shows "map frame (tc_stack tc') = map frame (tc_stack tc)" "rows_ok (tc_stack tc) \<Longrightarrow> rows_ok (tc_stack tc')"
    "tc_ignore_level tc' = tc_ignore_level tc" "calls' = calls @ calls_of ifaces GUM_POINT_ENTER tid p (fc_listener_entries c)"
  using assms invoke_listeners_keeps
  by (auto simp: enter_listeners_def Let_def map_frame_update_top rows_ok_update_top split: option.splits)

text \<open>The calls of listeners a step adds, and the way out.\<close>

definition leads_to :: "GumFunctionContext \<Rightarrow> gpointer" where
  "leads_to c = (if fc_replacement_function c \<noteq> 0 then fc_replacement_function c else fc_on_invoke_trampoline c)"

lemma map_frame_prepare:
  "map frame (tc_stack (prepare_replacement c cpu err tc)) = map frame (tc_stack tc)"
  "rows_ok (tc_stack (prepare_replacement c cpu err tc)) = rows_ok (tc_stack tc)"
  "tc_ignore_level (prepare_replacement c cpu err tc) = tc_ignore_level tc"
  by (simp_all add: prepare_replacement_def map_update_top rows_ok_update_top frame_def)

lemma enter_invocation_state:
  assumes ret: "enter_invocation ifaces rt tid p c tc cpu r = Some (rt', cpu', r', hop)"
  defines "ivk \<equiv> will_invoke_listeners rt tid tc"
  defines "trap \<equiv> traps_on_leave c ivk"
  obtains tc' calls err rt1 where
    "rt1 = set_thread_context (set_guard 0 tid (set_system_error err tid (rt\<lparr>rt_calls := calls\<rparr>))) tid tc'"
    "(if trap then Some rt1 else add_usage (- 1) p rt1) = Some rt'"
    "r' = (if trap then fc_on_leave_trampoline c else r)" "hop = leads_to c"
    "map frame (tc_stack tc') = map frame (tc_stack tc) @ (if trap then [(p, r)] else [])"
    "rows_ok (tc_stack tc) \<Longrightarrow> rows_ok (tc_stack tc')"
    "calls = rt_calls rt @ (if ivk then calls_of ifaces GUM_POINT_ENTER tid p (fc_listener_entries c) else [])"
proof -
  define tc1 where "tc1 = push_invocation p c ivk trap r (th_system_error (rt_threads rt tid)) tc"
  define cpu1 where "cpu1 = gum_function_context_fixup_cpu_context c cpu"
  note unfolds = enter_invocation_def Let_def ivk_def [symmetric] trap_def [symmetric] tc1_def [symmetric] cpu1_def [symmetric]
  obtain tc2 cpu2 calls err where el:
    "(if ivk then enter_listeners ifaces tid p c tc1 cpu1 (rt_calls rt)
      else Some (tc1, cpu1, rt_calls rt, th_system_error (rt_threads rt tid))) = Some (tc2, cpu2, calls, err)"
    using ret unfolding unfolds by (auto split: option.splits)
  have calls: "calls = rt_calls rt @ (if ivk then calls_of ifaces GUM_POINT_ENTER tid p (fc_listener_entries c) else [])"
    and fr2: "map frame (tc_stack tc2) = map frame (tc_stack tc1)"
    and rows2: "rows_ok (tc_stack tc1) \<Longrightarrow> rows_ok (tc_stack tc2)"
    using el by (auto split: if_splits dest: enter_listeners_keeps)
  define tc3 where "tc3 = (if \<not> trap \<and> ivk then tc2\<lparr>tc_stack := butlast (tc_stack tc2)\<rparr> else tc2)"
  have pop: "(case gum_invocation_stack_pop s of None \<Rightarrow> s | Some (r, stack) \<Rightarrow> stack) = butlast s" for s
    by (simp add: gum_invocation_stack_pop_def)
  define tc4 where "tc4 = (if fc_replacement_function c \<noteq> 0 then prepare_replacement c cpu2 err tc3 else tc3)"
  have "map frame (tc_stack tc4) = map frame (tc_stack tc) @ (if trap then [(p, r)] else [])"
    using fr2 by (simp add: tc4_def map_frame_prepare tc3_def tc1_def push_invocation_frames map_butlast)
  moreover have "rows_ok (tc_stack tc4)" if "rows_ok (tc_stack tc)"
    using rows2 that by (simp add: tc4_def map_frame_prepare tc3_def tc1_def push_invocation_frames rows_ok_butlast)
  moreover have "(if trap then Some rt1 else add_usage (- 1) p rt1) = Some rt' \<and> r' = (if trap then fc_on_leave_trampoline c else r) \<and>
      hop = leads_to c"
    if "rt1 = set_thread_context (set_guard 0 tid (set_system_error err tid (rt\<lparr>rt_calls := calls\<rparr>))) tid tc4" for rt1
    using ret el unfolding unfolds that tc4_def tc3_def by (auto simp: leads_to_def pop split: if_splits)
  ultimately show thesis using calls that by blast
qed

lemma enter_invocation_effect:
  assumes ret: "enter_invocation ifaces rt tid p c tc cpu r = Some (rt', cpu', r', hop)"
    and ctx: "rt_contexts rt p = Some (c\<lparr>fc_trampoline_usage_counter := fc_trampoline_usage_counter c + 1\<rparr>)"
    and tc: "th_context (rt_threads rt tid) = Some tc"
  defines "ivk \<equiv> will_invoke_listeners rt tid tc"
  shows "hop = leads_to c"
    and "only_thread tid rt rt'"
    and "rows_ok (tc_stack tc) \<Longrightarrow> rows_ok (tc_stack (context_of rt' tid))"
    and "rt_calls rt' = rt_calls rt @ (if ivk then calls_of ifaces GUM_POINT_ENTER tid p (fc_listener_entries c) else [])"
    and "th_guard (rt_threads rt' tid) = 0"
    and "if traps_on_leave c ivk
         then frames rt' tid = map frame (tc_stack tc) @ [(p, r)] \<and> rt_contexts rt' = rt_contexts rt \<and> r' = fc_on_leave_trampoline c
         else frames rt' tid = map frame (tc_stack tc) \<and> rt_contexts rt' = (rt_contexts rt)(p \<mapsto> c) \<and> r' = r"
proof -
  define trap where "trap = traps_on_leave c ivk"
  obtain tc4 calls err rt4 where
    rt4: "rt4 = set_thread_context (set_guard 0 tid (set_system_error err tid (rt\<lparr>rt_calls := calls\<rparr>))) tid tc4"
    and rt': "(if trap then Some rt4 else add_usage (- 1) p rt4) = Some rt'"
    and r': "r' = (if trap then fc_on_leave_trampoline c else r)" and hop: "hop = leads_to c"
    and fr4: "map frame (tc_stack tc4) = map frame (tc_stack tc) @ (if trap then [(p, r)] else [])"
    and rows4: "rows_ok (tc_stack tc) \<Longrightarrow> rows_ok (tc_stack tc4)"
    and calls: "calls = rt_calls rt @ (if ivk then calls_of ifaces GUM_POINT_ENTER tid p (fc_listener_entries c) else [])"
    using enter_invocation_state [OF ret] unfolding ivk_def trap_def by metis
  have ctx4: "rt_contexts rt4 = rt_contexts rt" "context_of rt4 tid = tc4" "rt_calls rt4 = calls" by (simp_all add: rt4)
  have guard4: "th_guard (rt_threads rt4 tid) = 0" by (simp add: rt4 set_guard_def set_thread_context_def)
  have cases: "rt' = rt4 \<and> trap \<or> \<not> trap \<and> add_usage (- 1) p rt4 = Some rt'" using rt' by (auto split: if_splits)
  have "th_context (rt_threads (set_guard 0 tid (set_system_error err tid (rt\<lparr>rt_calls := calls\<rparr>))) tid) \<noteq> None"
    using tc by (simp add: set_guard_def set_system_error_def)
  then have "only_thread tid rt rt4" unfolding rt4 by (intro only_thread_after only_thread_refl)
  then show "only_thread tid rt rt'" using cases by (auto intro: only_thread_trans)
  show "hop = leads_to c" by (rule hop)
  show "rows_ok (tc_stack tc) \<Longrightarrow> rows_ok (tc_stack (context_of rt' tid))" using rows4 cases ctx4(2) by auto
  show "rt_calls rt' = rt_calls rt @ (if ivk then calls_of ifaces GUM_POINT_ENTER tid p (fc_listener_entries c) else [])"
    using cases ctx4(3) calls by auto
  show "th_guard (rt_threads rt' tid) = 0" using cases guard4 by auto
  have fr': "frames rt' tid = map frame (tc_stack tc) @ (if trap then [(p, r)] else [])"
    using cases ctx4(2) fr4 by (auto simp: frames_context_of)
  have "rt_contexts rt' = (if trap then rt_contexts rt else (rt_contexts rt)(p \<mapsto> c))"
    using cases ctx ctx4(1) by (auto simp: add_usage_live)
  then show "if traps_on_leave c ivk
         then frames rt' tid = map frame (tc_stack tc) @ [(p, r)] \<and> rt_contexts rt' = rt_contexts rt \<and> r' = fc_on_leave_trampoline c
         else frames rt' tid = map frame (tc_stack tc) \<and> rt_contexts rt' = (rt_contexts rt)(p \<mapsto> c) \<and> r' = r"
    using r' fr' by (simp add: trap_def [symmetric])
qed

lemma begin_unfold:
  assumes "rt_contexts rt p = Some c"
  obtains rt1 rt2 tc where
    "add_usage 1 p rt = Some rt1"
    "rt_contexts rt1 = (rt_contexts rt)(p \<mapsto> c\<lparr>fc_trampoline_usage_counter := fc_trampoline_usage_counter c + 1\<rparr>)"
    "get_interceptor_thread_context (set_guard (rt_interceptor rt) tid rt1) tid = (tc, rt2)"
    "gum_function_context_begin_invocation ifaces rt tid p cpu r =
       (if th_guard (rt_threads rt tid) = rt_interceptor rt
        then map_option (\<lambda>rt. (rt, cpu, r, fc_on_invoke_trampoline c)) (add_usage (- 1) p rt1)
        else if called_by_replacement c (tc_stack tc)
        then map_option (\<lambda>rt. (rt, cpu, r, fc_on_invoke_trampoline c)) (add_usage (- 1) p (set_guard 0 tid rt2))
        else enter_invocation ifaces rt2 tid p c tc cpu r)"
proof -
  define rt1 where "rt1 = rt\<lparr>rt_contexts := (rt_contexts rt)(p \<mapsto> c\<lparr>fc_trampoline_usage_counter := fc_trampoline_usage_counter c + 1\<rparr>)\<rparr>"
  obtain tc rt2 where g: "get_interceptor_thread_context (set_guard (rt_interceptor rt) tid rt1) tid = (tc, rt2)"
    by fastforce
  show thesis
  proof (rule that)
    show "add_usage 1 p rt = Some rt1" using assms by (simp add: add_usage_live rt1_def)
    show "gum_function_context_begin_invocation ifaces rt tid p cpu r =
       (if th_guard (rt_threads rt tid) = rt_interceptor rt
        then map_option (\<lambda>rt. (rt, cpu, r, fc_on_invoke_trampoline c)) (add_usage (- 1) p rt1)
        else if called_by_replacement c (tc_stack tc)
        then map_option (\<lambda>rt. (rt, cpu, r, fc_on_invoke_trampoline c)) (add_usage (- 1) p (set_guard 0 tid rt2))
        else enter_invocation ifaces rt2 tid p c tc cpu r)"
      using assms g
      by (simp add: gum_function_context_begin_invocation_def add_usage_live rt1_def [symmetric] Let_def)
        (simp add: rt1_def)
  qed (use g in \<open>simp_all add: rt1_def\<close>)
qed

lemma begin_effect:
  assumes ret: "gum_function_context_begin_invocation ifaces rt tid p cpu r = Some (rt', cpu', r', hop)"
    and c: "rt_contexts rt p = Some c"
  shows "only_thread tid rt rt'"
    and "rows_ok (gum_interceptor_get_current_stack rt tid) \<Longrightarrow> rows_ok (gum_interceptor_get_current_stack rt' tid)"
    and "if \<not> bypassed rt tid c \<and> traps_on_leave c (invoking rt tid) then trapped rt tid p c r rt' r' else passes rt tid r rt' r'"
    and "hop = (if bypassed rt tid c then fc_on_invoke_trampoline c else leads_to c)"
    and "rt_calls rt' = rt_calls rt @ (if \<not> bypassed rt tid c \<and> invoking rt tid
           then calls_of ifaces GUM_POINT_ENTER tid p (fc_listener_entries c) else [])"
proof -
  obtain rt1 rt2 tc where b:
    "add_usage 1 p rt = Some rt1"
    "rt_contexts rt1 = (rt_contexts rt)(p \<mapsto> c\<lparr>fc_trampoline_usage_counter := fc_trampoline_usage_counter c + 1\<rparr>)"
    "get_interceptor_thread_context (set_guard (rt_interceptor rt) tid rt1) tid = (tc, rt2)"
    "gum_function_context_begin_invocation ifaces rt tid p cpu r =
       (if th_guard (rt_threads rt tid) = rt_interceptor rt
        then map_option (\<lambda>rt. (rt, cpu, r, fc_on_invoke_trampoline c)) (add_usage (- 1) p rt1)
        else if called_by_replacement c (tc_stack tc)
        then map_option (\<lambda>rt. (rt, cpu, r, fc_on_invoke_trampoline c)) (add_usage (- 1) p (set_guard 0 tid rt2))
        else enter_invocation ifaces rt2 tid p c tc cpu r)"
    by (rule begin_unfold [OF c])
  note g = get_context [OF b(3)]
  have tc: "tc = context_of rt tid" using g(1) b(1) by simp
  have o2: "only_thread tid rt rt2"
    using only_thread_after(1) [OF add_usage_thread(4) [OF b(1)]] g(4) by (rule only_thread_trans)
  have ivk: "will_invoke_listeners rt2 tid tc = invoking rt tid"
    using o2 by (simp add: will_invoke_listeners_def invoking_def tc only_thread_def)
  have undo: "rt_contexts rt0 = rt_contexts rt1 \<Longrightarrow> add_usage (- 1) p rt0 = Some rt'' \<Longrightarrow> rt_contexts rt'' = rt_contexts rt"
    for rt0 rt'' using b(2) c by (auto simp: add_usage_live intro!: ext)
  have byp: "bypassed rt tid c = (th_guard (rt_threads rt tid) = rt_interceptor rt \<or> called_by_replacement c (tc_stack tc))"
    by (simp add: bypassed_def current_stack tc)
  consider (guard) "th_guard (rt_threads rt tid) = rt_interceptor rt" "add_usage (- 1) p rt1 = Some rt'"
      "r' = r" "hop = fc_on_invoke_trampoline c"
    | (repl) "th_guard (rt_threads rt tid) \<noteq> rt_interceptor rt" "called_by_replacement c (tc_stack tc)"
      "add_usage (- 1) p (set_guard 0 tid rt2) = Some rt'" "r' = r" "hop = fc_on_invoke_trampoline c"
    | (enter) "\<not> bypassed rt tid c" "enter_invocation ifaces rt2 tid p c tc cpu r = Some (rt', cpu', r', hop)"
    using ret unfolding b(4) byp by (auto split: if_splits)
  then have "only_thread tid rt rt' \<and>
    (rows_ok (gum_interceptor_get_current_stack rt tid) \<longrightarrow> rows_ok (gum_interceptor_get_current_stack rt' tid)) \<and>
    (if \<not> bypassed rt tid c \<and> traps_on_leave c (invoking rt tid) then trapped rt tid p c r rt' r' else passes rt tid r rt' r') \<and>
    hop = (if bypassed rt tid c then fc_on_invoke_trampoline c else leads_to c) \<and>
    rt_calls rt' = rt_calls rt @ (if \<not> bypassed rt tid c \<and> invoking rt tid
           then calls_of ifaces GUM_POINT_ENTER tid p (fc_listener_entries c) else [])"
  proof cases
    case guard
    have "only_thread tid rt rt'" using add_usage_thread(4) [OF b(1)] add_usage_thread(4) [OF guard(2)] by (rule only_thread_trans)
    moreover have "context_of rt' tid = context_of rt tid" using add_usage_thread(1) [OF b(1)] add_usage_thread(1) [OF guard(2)] by simp
    ultimately show ?thesis
      using guard undo [OF refl guard(2)] b(1) by (simp add: bypassed_def passes_def frames_context_of current_stack)
  next
    case repl
    have "only_thread tid rt rt'"
      using only_thread_after(1) [OF o2] add_usage_thread(4) [OF repl(3)] by (rule only_thread_trans)
    moreover have "context_of rt' tid = context_of rt tid" using g(6) b(1) repl(3) by simp
    ultimately show ?thesis
      using repl byp undo [OF _ repl(3)] g(2,3) b(1) by (simp add: passes_def frames_context_of current_stack)
  next
    case enter
    have ctx2: "rt_contexts rt2 p = Some (c\<lparr>fc_trampoline_usage_counter := fc_trampoline_usage_counter c + 1\<rparr>)"
      using g(2) b(2) by simp
    have fr: "map frame (tc_stack tc) = frames rt tid" by (simp add: tc frames_context_of)
    note e = enter_invocation_effect [OF enter(2) ctx2 g(5), unfolded ivk fr]
    have upd: "(rt_contexts rt2)(p \<mapsto> c) = rt_contexts rt" using g(2) b(2) c by (auto intro!: ext)
    have "only_thread tid rt rt'" using o2 e(2) by (rule only_thread_trans)
    then show ?thesis
      using enter(1) e(1,3,4,6) g(2,3) b(1,2) upd by (simp add: trapped_def passes_def tc current_stack)
  qed
  then show "only_thread tid rt rt'"
    and "rows_ok (gum_interceptor_get_current_stack rt tid) \<Longrightarrow> rows_ok (gum_interceptor_get_current_stack rt' tid)"
    and "if \<not> bypassed rt tid c \<and> traps_on_leave c (invoking rt tid) then trapped rt tid p c r rt' r' else passes rt tid r rt' r'"
    and "hop = (if bypassed rt tid c then fc_on_invoke_trampoline c else leads_to c)"
    and "rt_calls rt' = rt_calls rt @ (if \<not> bypassed rt tid c \<and> invoking rt tid
           then calls_of ifaces GUM_POINT_ENTER tid p (fc_listener_entries c) else [])" by blast+
qed

text \<open>The guard is free again afterwards, unless it was held before.\<close>

lemma begin_guard:
  assumes ret: "gum_function_context_begin_invocation ifaces rt tid p cpu r = Some (rt', cpu', r', hop)"
    and c: "rt_contexts rt p = Some c"
  shows "th_guard (rt_threads rt' tid) = (if th_guard (rt_threads rt tid) = rt_interceptor rt then rt_interceptor rt else 0)"
proof -
  obtain rt1 rt2 tc where b:
    "add_usage 1 p rt = Some rt1"
    "rt_contexts rt1 = (rt_contexts rt)(p \<mapsto> c\<lparr>fc_trampoline_usage_counter := fc_trampoline_usage_counter c + 1\<rparr>)"
    "get_interceptor_thread_context (set_guard (rt_interceptor rt) tid rt1) tid = (tc, rt2)"
    "gum_function_context_begin_invocation ifaces rt tid p cpu r =
       (if th_guard (rt_threads rt tid) = rt_interceptor rt
        then map_option (\<lambda>rt. (rt, cpu, r, fc_on_invoke_trampoline c)) (add_usage (- 1) p rt1)
        else if called_by_replacement c (tc_stack tc)
        then map_option (\<lambda>rt. (rt, cpu, r, fc_on_invoke_trampoline c)) (add_usage (- 1) p (set_guard 0 tid rt2))
        else enter_invocation ifaces rt2 tid p c tc cpu r)"
    by (rule begin_unfold [OF c])
  note g = get_context [OF b(3)]
  have free: "th_guard (rt_threads (set_guard 0 tid rt2) tid) = 0" by (simp add: set_guard_def)
  have ctx2: "rt_contexts rt2 p = Some (c\<lparr>fc_trampoline_usage_counter := fc_trampoline_usage_counter c + 1\<rparr>)"
    using g(2) b(2) by simp
  consider (guard) "th_guard (rt_threads rt tid) = rt_interceptor rt" "add_usage (- 1) p rt1 = Some rt'"
    | (repl) "th_guard (rt_threads rt tid) \<noteq> rt_interceptor rt" "add_usage (- 1) p (set_guard 0 tid rt2) = Some rt'"
    | (enter) "th_guard (rt_threads rt tid) \<noteq> rt_interceptor rt" "enter_invocation ifaces rt2 tid p c tc cpu r = Some (rt', cpu', r', hop)"
    using ret unfolding b(4) by (auto split: if_splits)
  then show ?thesis
  proof cases
    case guard
    then show ?thesis using add_usage_thread(2) [OF b(1)] add_usage_thread(2) [OF guard(2)] by simp
  next
    case repl
    then show ?thesis using add_usage_thread(2) [OF repl(2)] free by simp
  next
    case enter
    then show ?thesis using enter_invocation_effect(5) [OF enter(2) ctx2 g(5)] by simp
  qed
qed

text \<open>Leaving undoes a trapped entry: the frame is popped, and the next hop is the address it saved.\<close>

lemma end_effect:
  assumes ret: "gum_function_context_end_invocation ifaces rt tid p cpu = Some (rt', cpu', hop)"
    and c: "rt_contexts rt p = Some c"
  shows "only_thread tid rt rt'"
    and "rows_ok (gum_interceptor_get_current_stack rt tid) \<Longrightarrow> rows_ok (gum_interceptor_get_current_stack rt' tid)"
    and "frames rt tid \<noteq> []" and "frames rt' tid = butlast (frames rt tid)" and "hop = snd (last (frames rt tid))"
    and "rt_contexts rt' = (rt_contexts rt)(p \<mapsto> c\<lparr>fc_trampoline_usage_counter := fc_trampoline_usage_counter c - 1\<rparr>)"
    and "rt_calls rt' = rt_calls rt @ calls_of ifaces GUM_POINT_LEAVE tid p (fc_listener_entries c)"
proof -
  obtain tc rt1 where g: "get_interceptor_thread_context (set_guard (rt_interceptor rt) tid rt) tid = (tc, rt1)" by fastforce
  note g = g get_context [OF g]
  have tc: "tc = context_of rt tid" using g(2) by simp
  define tc1 where "tc1 = prepare_leave (th_system_error (rt_threads rt tid)) tc"
  have tc1: "map frame (tc_stack tc1) = map frame (tc_stack tc)" "rows_ok (tc_stack tc1) = rows_ok (tc_stack tc)"
    by (simp_all add: tc1_def prepare_leave_def map_update_top rows_ok_update_top frame_def)
  have same_error: "th_system_error (rt_threads (set_guard v tid rt) tid) = th_system_error (rt_threads rt tid)" for v
    by (simp add: set_guard_def)
  have ne: "tc_stack tc \<noteq> []"
    using ret c g(1) by (auto simp: gum_function_context_end_invocation_def gum_invocation_stack_peek_top_def Let_def)
  obtain tc2 cpu2 calls err where il: "invoke_listeners ifaces GUM_POINT_LEAVE tid p 0 (fc_listener_entries c) tc1
        (gum_function_context_fixup_cpu_context c cpu) (rt_calls rt1) = Some (tc2, cpu2, calls)"
    and au: "add_usage (- 1) p (set_guard 0 tid (set_thread_context (set_system_error err tid (rt1\<lparr>rt_calls := calls\<rparr>)) tid
        (tc2\<lparr>tc_stack := butlast (tc_stack tc2)\<rparr>))) = Some rt'"
    and hop: "hop = se_caller_ret_addr (last (tc_stack tc))"
    using ret unfolding gum_function_context_end_invocation_def
    by (simp add: c g(1) ne gum_invocation_stack_peek_top_def same_error tc1_def [symmetric] split: option.splits prod.splits if_splits)
  note k = invoke_listeners_keeps [OF il]
  have "th_context (rt_threads (set_system_error err tid (rt1\<lparr>rt_calls := calls\<rparr>)) tid) \<noteq> None"
    using g(6) by (simp add: set_system_error_def)
  then have "only_thread tid rt (set_guard 0 tid (set_thread_context (set_system_error err tid (rt1\<lparr>rt_calls := calls\<rparr>)) tid
        (tc2\<lparr>tc_stack := butlast (tc_stack tc2)\<rparr>)))"
    by (intro only_thread_after only_thread_trans [OF only_thread_set(1) g(5)])
  then show "only_thread tid rt rt'" using add_usage_thread(4) [OF au] by (rule only_thread_trans)
  have ctx': "context_of rt' tid = tc2\<lparr>tc_stack := butlast (tc_stack tc2)\<rparr>" using add_usage_thread(1) [OF au] by simp
  show "frames rt tid \<noteq> []" using ne by (simp add: frames_context_of tc)
  show "frames rt' tid = butlast (frames rt tid)"
    using k tc1(1) by (simp add: frames_context_of ctx' map_butlast tc)
  show "hop = snd (last (frames rt tid))" using ne hop by (simp add: frames_context_of tc last_map frame_def)
  show "rows_ok (gum_interceptor_get_current_stack rt tid) \<Longrightarrow> rows_ok (gum_interceptor_get_current_stack rt' tid)"
    using k tc1(2) by (simp add: current_stack ctx' tc rows_ok_butlast)
  show "rt_contexts rt' = (rt_contexts rt)(p \<mapsto> c\<lparr>fc_trampoline_usage_counter := fc_trampoline_usage_counter c - 1\<rparr>)"
    using au g(3) c by (auto simp: add_usage_live)
  show "rt_calls rt' = rt_calls rt @ calls_of ifaces GUM_POINT_LEAVE tid p (fc_listener_entries c)"
    using add_usage_thread(3) [OF au] k g(4) by simp
qed

text \<open>Both ends return when the context has no more listener slots than the array of a stack entry has rows.\<close>

lemma end_returns:
  assumes c: "rt_contexts rt p = Some c" and ne: "frames rt tid \<noteq> []"
    and rows: "rows_ok (gum_interceptor_get_current_stack rt tid)"
    and fits: "length (fc_listener_entries c) \<le> GUM_MAX_LISTENERS_PER_FUNCTION"
  shows "\<exists>rt' cpu' hop. gum_function_context_end_invocation ifaces rt tid p cpu = Some (rt', cpu', hop)"
proof -
  obtain tc rt1 where g: "get_interceptor_thread_context (set_guard (rt_interceptor rt) tid rt) tid = (tc, rt1)" by fastforce
  note g = g get_context [OF g]
  have tc: "tc = context_of rt tid" using g(2) by simp
  define tc1 where "tc1 = prepare_leave (th_system_error (rt_threads (set_guard (rt_interceptor rt) tid rt) tid)) tc"
  have tc1: "tc_stack tc1 \<noteq> []" "rows_ok (tc_stack tc1)"
    using ne rows by (simp_all add: tc1_def prepare_leave_def rows_ok_update_top tc frames_context_of current_stack)
  obtain tc2 cpu2 calls where il: "invoke_listeners ifaces GUM_POINT_LEAVE tid p 0 (fc_listener_entries c) tc1
        (gum_function_context_fixup_cpu_context c cpu) (rt_calls rt1) = Some (tc2, cpu2, calls)"
    using invoke_listeners_returns [OF tc1] fits by fastforce
  have "tc_stack tc2 \<noteq> []" using invoke_listeners_keeps [OF il] tc1(1) by auto
  moreover have "tc_stack tc \<noteq> []" using ne by (simp add: tc frames_context_of)
  moreover have "rt_contexts rt1 p = Some c" using g(3) c by simp
  ultimately show ?thesis
    by (simp add: gum_function_context_end_invocation_def c g(1) gum_invocation_stack_peek_top_def tc1_def [symmetric] il add_usage_live)
qed

lemma enter_returns:
  assumes rows: "rows_ok (tc_stack tc)"
    and fits: "length (fc_listener_entries c) \<le> GUM_MAX_LISTENERS_PER_FUNCTION"
    and live: "rt_contexts rt p = Some c'"
  shows "\<exists>rt' cpu' r' hop. enter_invocation ifaces rt tid p c tc cpu r = Some (rt', cpu', r', hop)"
proof -
  define ivk where "ivk = will_invoke_listeners rt tid tc"
  define tc1 where "tc1 = push_invocation p c ivk (traps_on_leave c ivk) r (th_system_error (rt_threads rt tid)) tc"
  have "\<exists>tc2 cpu2 calls err. enter_listeners ifaces tid p c tc1 cpu1 (rt_calls rt) = Some (tc2, cpu2, calls, err)" if "ivk" for cpu1
  proof -
    have ne: "tc_stack tc1 \<noteq> []" using that by (simp add: tc1_def push_invocation_def gum_invocation_stack_push_def)
    have "rows_ok (tc_stack tc1)" using rows by (simp add: tc1_def push_invocation_frames)
    then obtain tc2 cpu2 calls where il:
      "invoke_listeners ifaces GUM_POINT_ENTER tid p 0 (fc_listener_entries c)
         (tc1\<lparr>tc_stack := update_top (\<lambda>e. e\<lparr>se_invocation_context := (se_invocation_context e)
            \<lparr>in_cpu_context := FRAME_CPU_CONTEXT, in_backend := LISTENER_BACKEND\<rparr>\<rparr>) (tc_stack tc1)\<rparr>) cpu1 (rt_calls rt)
       = Some (tc2, cpu2, calls)"
      using invoke_listeners_returns [of "tc1\<lparr>tc_stack := update_top (\<lambda>e. e\<lparr>se_invocation_context := (se_invocation_context e)
            \<lparr>in_cpu_context := FRAME_CPU_CONTEXT, in_backend := LISTENER_BACKEND\<rparr>\<rparr>) (tc_stack tc1)\<rparr>" 0 "fc_listener_entries c"] ne fits
      by (fastforce simp: rows_ok_update_top)
    have "tc_stack tc2 \<noteq> []" using invoke_listeners_keeps [OF il] ne by auto
    then show ?thesis by (simp add: enter_listeners_def il gum_invocation_stack_peek_top_def)
  qed
  then obtain x where x: "(if ivk then enter_listeners ifaces tid p c tc1 (gum_function_context_fixup_cpu_context c cpu) (rt_calls rt)
      else Some (tc1, gum_function_context_fixup_cpu_context c cpu, rt_calls rt, th_system_error (rt_threads rt tid))) = Some x"
    by (cases ivk) fastforce+
  show ?thesis
    unfolding enter_invocation_def Let_def ivk_def [symmetric] tc1_def [symmetric] x
    by (simp add: add_usage_live live split: prod.splits)
qed

lemma begin_returns:
  assumes c: "rt_contexts rt p = Some c" and rows: "rows_ok (gum_interceptor_get_current_stack rt tid)"
    and fits: "length (fc_listener_entries c) \<le> GUM_MAX_LISTENERS_PER_FUNCTION"
  shows "\<exists>rt' cpu' r' hop. gum_function_context_begin_invocation ifaces rt tid p cpu r = Some (rt', cpu', r', hop)"
proof -
  obtain rt1 rt2 tc where b:
    "add_usage 1 p rt = Some rt1"
    "rt_contexts rt1 = (rt_contexts rt)(p \<mapsto> c\<lparr>fc_trampoline_usage_counter := fc_trampoline_usage_counter c + 1\<rparr>)"
    "get_interceptor_thread_context (set_guard (rt_interceptor rt) tid rt1) tid = (tc, rt2)"
    "gum_function_context_begin_invocation ifaces rt tid p cpu r =
       (if th_guard (rt_threads rt tid) = rt_interceptor rt
        then map_option (\<lambda>rt. (rt, cpu, r, fc_on_invoke_trampoline c)) (add_usage (- 1) p rt1)
        else if called_by_replacement c (tc_stack tc)
        then map_option (\<lambda>rt. (rt, cpu, r, fc_on_invoke_trampoline c)) (add_usage (- 1) p (set_guard 0 tid rt2))
        else enter_invocation ifaces rt2 tid p c tc cpu r)"
    by (rule begin_unfold [OF c])
  note g = get_context [OF b(3)]
  have live: "rt_contexts rt1 p \<noteq> None" "rt_contexts rt2 p = Some (c\<lparr>fc_trampoline_usage_counter := fc_trampoline_usage_counter c + 1\<rparr>)"
    using b(2) g(2) by simp_all
  have "rows_ok (tc_stack tc)" using rows g(1) b(1) by (simp add: current_stack)
  from enter_returns [OF this fits live(2)] show ?thesis
    unfolding b(4) using live by (auto simp: add_usage_live)
qed

end
