(* ===== verification/Gum_Transparency.thy ===== *)
theory Gum_Transparency
  imports Gum_Invocation_Correct
begin

text \<open>
  Threads calling and returning through trampolines, as a step relation. A state is the run-time state of
  the interceptor together with the return addresses that lie on the machine stack of every thread, the
  innermost first. The trampolines exchange some of these addresses for their own; the plain machine, in
  which nothing is intercepted, is what the steps are compared with.
\<close>

section \<open>The step relation\<close>

type_synonym returns = "GumThreadId \<Rightarrow> gpointer list"

datatype event =
    Call GumThreadId gpointer
  | Tail GumThreadId
  | Leave GumThreadId
  | Return GumThreadId gpointer
  | Exit GumThreadId
  | Update

text \<open>Where the on-leave trampolines of the contexts are; contexts of the fast type have none.\<close>

definition leave_sites :: "(gpointer \<rightharpoonup> GumFunctionContext) \<Rightarrow> gpointer \<rightharpoonup> gpointer" where
  "leave_sites ctxs p =
     (case ctxs p of
        None \<Rightarrow> None
      | Some c \<Rightarrow> if fc_type c = GUM_INTERCEPTOR_TYPE_DEFAULT then Some (fc_on_leave_trampoline c) else None)"

text \<open>The number of frames of a context on the stacks of all threads.\<close>

definition in_flight :: "runtime \<Rightarrow> gpointer \<Rightarrow> nat" where
  "in_flight rt p = (\<Sum>t \<in> UNIV. length (filter (\<lambda>f. fst f = p) (frames rt t)))"

text \<open>
  What the other half of the interceptor may do to the contexts between the steps of threads: change
  anything but type, trampoline and counter of a context, free a context whose counter is zero, and add a
  context with a trampoline at a new place, which is no return address in use.
\<close>

definition unused :: "runtime \<Rightarrow> returns \<Rightarrow> gpointer \<Rightarrow> bool" where
  "unused rt \<sigma> a \<longleftrightarrow> (\<forall>t. a \<notin> set (\<sigma> t) \<and> a \<notin> snd ` set (frames rt t))"

definition allowed_update :: "runtime \<Rightarrow> returns \<Rightarrow> (gpointer \<rightharpoonup> GumFunctionContext) \<Rightarrow> bool" where
  "allowed_update rt \<sigma> ctxs' \<longleftrightarrow>
     inj_on (leave_sites ctxs') (dom (leave_sites ctxs')) \<and>
     (\<forall>p. case (rt_contexts rt p, ctxs' p) of
            (Some c, Some c') \<Rightarrow>
              fc_trampoline_usage_counter c' = fc_trampoline_usage_counter c \<and> leave_sites ctxs' p = leave_sites (rt_contexts rt) p
          | (Some c, None) \<Rightarrow> fc_trampoline_usage_counter c = 0
          | (None, Some c') \<Rightarrow>
              fc_trampoline_usage_counter c' = 0 \<and> (\<forall>a. leave_sites ctxs' p = Some a \<longrightarrow> unused rt \<sigma> a)
          | (None, None) \<Rightarrow> True)"

inductive machine_step ::
    "(gpointer \<Rightarrow> GumInvocationListenerInterface) \<Rightarrow> runtime \<times> returns \<Rightarrow> event \<Rightarrow> runtime \<times> returns \<Rightarrow> bool"
  for ifaces where
  intercepted_call:
    "\<lbrakk>leave_sites (rt_contexts rt) p \<noteq> None; r \<notin> ran (leave_sites (rt_contexts rt)); in_flight rt p < 2 ^ 32 - 1;
      gum_function_context_begin_invocation ifaces rt tid p cpu r = Some (rt', cpu', r', hop)\<rbrakk>
     \<Longrightarrow> machine_step ifaces (rt, \<sigma>) (Call tid r) (rt', \<sigma>(tid := r' # \<sigma> tid))"
| plain_call:
    "r \<notin> ran (leave_sites (rt_contexts rt)) \<Longrightarrow> machine_step ifaces (rt, \<sigma>) (Call tid r) (rt, \<sigma>(tid := r # \<sigma> tid))"
| intercepted_tail_call:
    "\<lbrakk>leave_sites (rt_contexts rt) p \<noteq> None; \<sigma> tid = x # xs; in_flight rt p < 2 ^ 32 - 1;
      gum_function_context_begin_invocation ifaces rt tid p cpu x = Some (rt', cpu', x', hop)\<rbrakk>
     \<Longrightarrow> machine_step ifaces (rt, \<sigma>) (Tail tid) (rt', \<sigma>(tid := x' # xs))"
| leave:
    "\<lbrakk>\<sigma> tid = x # xs; leave_sites (rt_contexts rt) p = Some x;
      gum_function_context_end_invocation ifaces rt tid p cpu = Some (rt', cpu', hop)\<rbrakk>
     \<Longrightarrow> machine_step ifaces (rt, \<sigma>) (Leave tid) (rt', \<sigma>(tid := hop # xs))"
| plain_return:
    "\<lbrakk>\<sigma> tid = x # xs; x \<notin> ran (leave_sites (rt_contexts rt))\<rbrakk>
     \<Longrightarrow> machine_step ifaces (rt, \<sigma>) (Return tid x) (rt, \<sigma>(tid := xs))"
| thread_exit:
    "\<sigma> tid = [] \<Longrightarrow> machine_step ifaces (rt, \<sigma>) (Exit tid) (release_interceptor_thread_context rt tid, \<sigma>)"
| update:
    "allowed_update rt \<sigma> ctxs' \<Longrightarrow> machine_step ifaces (rt, \<sigma>) Update (rt\<lparr>rt_contexts := ctxs'\<rparr>, \<sigma>)"
| ignore: "machine_step ifaces (rt, \<sigma>) Update (gum_interceptor_ignore_current_thread rt tid, \<sigma>)"
| unignore: "machine_step ifaces (rt, \<sigma>) Update (gum_interceptor_unignore_current_thread rt tid, \<sigma>)"

inductive machine_run ::
    "(gpointer \<Rightarrow> GumInvocationListenerInterface) \<Rightarrow> runtime \<times> returns \<Rightarrow> event list \<Rightarrow> runtime \<times> returns \<Rightarrow> bool"
  for ifaces where
  run_nil: "machine_run ifaces s [] s"
| run_step: "machine_run ifaces s es s1 \<Longrightarrow> machine_step ifaces s1 e s2 \<Longrightarrow> machine_run ifaces s (es @ [e]) s2"

text \<open>The plain machine: calls push their return address and returns go to the one on top.\<close>

fun plain_step :: "event \<Rightarrow> returns \<Rightarrow> returns option" where
  "plain_step (Call tid r) \<alpha> = Some (\<alpha>(tid := r # \<alpha> tid))"
| "plain_step (Return tid r) \<alpha> =
     (case \<alpha> tid of [] \<Rightarrow> None | x # xs \<Rightarrow> if x = r then Some (\<alpha>(tid := xs)) else None)"
| "plain_step (Exit tid) \<alpha> = (if \<alpha> tid = [] then Some \<alpha> else None)"
| "plain_step _ \<alpha> = Some \<alpha>"

fun plain_run :: "event list \<Rightarrow> returns \<Rightarrow> returns option" where
  "plain_run [] \<alpha> = Some \<alpha>"
| "plain_run (e # es) \<alpha> = Option.bind (plain_step e \<alpha>) (plain_run es)"

lemma plain_run_snoc: "plain_run (es @ [e]) \<alpha> = Option.bind (plain_run es \<alpha>) (plain_step e)"
  by (induction es arbitrary: \<alpha>) (auto split: Option.bind_splits)

section \<open>Machine stack, invocation stack and plain stack\<close>

text \<open>
  \<open>returns_through sites fs rs \<alpha>\<close>: the slots \<open>rs\<close> of the machine stack lead, through the frames \<open>fs\<close> of
  the invocation stack, to the return addresses \<open>\<alpha>\<close> of the plain machine.
\<close>

inductive returns_through :: "(gpointer \<rightharpoonup> gpointer) \<Rightarrow> (gpointer \<times> gpointer) list \<Rightarrow> gpointer list \<Rightarrow> gpointer list \<Rightarrow> bool"
  for sites where
  empty: "returns_through sites [] [] []"
| plain: "r \<notin> ran sites \<Longrightarrow> returns_through sites fs rs \<alpha> \<Longrightarrow> returns_through sites fs (r # rs) (r # \<alpha>)"
| through: "sites p = Some a \<Longrightarrow> returns_through sites fs (x # rs) (r # \<alpha>) \<Longrightarrow>
    returns_through sites ((p, x) # fs) (a # rs) (r # \<alpha>)"

inductive_cases returns_through_NilE: "returns_through sites fs [] \<alpha>"
inductive_cases returns_through_ConsE: "returns_through sites fs (x # rs) \<alpha>"

lemma returns_through_length: "returns_through sites fs rs \<alpha> \<Longrightarrow> length rs = length \<alpha>"
  by (induction rule: returns_through.induct) simp_all

lemma returns_through_live: "returns_through sites fs rs \<alpha> \<Longrightarrow> (p, x) \<in> set fs \<Longrightarrow> sites p \<noteq> None"
  by (induction rule: returns_through.induct) auto

lemma returns_through_sites:
  assumes "returns_through sites fs rs \<alpha>"
    and "\<And>p x. (p, x) \<in> set fs \<Longrightarrow> sites' p = sites p"
    and "\<And>a. a \<in> ran sites' \<Longrightarrow> a \<notin> ran sites \<Longrightarrow> a \<notin> set rs \<and> a \<notin> snd ` set fs"
  shows "returns_through sites' fs rs \<alpha>"
  using assms
proof (induction rule: returns_through.induct)
  case empty
  show ?case by (rule returns_through.empty)
next
  case (plain r fs rs \<alpha>)
  have "r \<notin> ran sites'" using plain.hyps(1) plain.prems(2) [of r] by auto
  moreover have "returns_through sites' fs rs \<alpha>" using plain.prems by (intro plain.IH) auto
  ultimately show ?case by (rule returns_through.plain)
next
  case (through p a fs x rs r \<alpha>)
  have "sites' p = Some a" using through.hyps(1) through.prems(1) [of p x] by simp
  moreover have "returns_through sites' fs (x # rs) (r # \<alpha>)"
    using through.prems by (intro through.IH) auto
  ultimately show ?case by (rule returns_through.through)
qed

lemma leave_sites_counter [simp]:
  "ctxs p = Some c \<Longrightarrow> leave_sites (ctxs(p \<mapsto> c\<lparr>fc_trampoline_usage_counter := n\<rparr>)) = leave_sites ctxs"
  by (auto simp: leave_sites_def)

lemma leave_sites_Some:
  "leave_sites ctxs p = Some a \<longleftrightarrow> (\<exists>c. ctxs p = Some c \<and> fc_type c = GUM_INTERCEPTOR_TYPE_DEFAULT \<and> fc_on_leave_trampoline c = a)"
  by (auto simp: leave_sites_def split: option.splits)

section \<open>The invariant\<close>

definition count_frames :: "gpointer \<Rightarrow> (gpointer \<times> gpointer) list \<Rightarrow> nat" where
  "count_frames p fs = length (filter (\<lambda>f. fst f = p) fs)"

lemma count_frames_simps [simp]:
  "count_frames p [] = 0"
  "count_frames p (f # fs) = (if fst f = p then 1 else 0) + count_frames p fs"
  "count_frames p (fs @ gs) = count_frames p fs + count_frames p gs"
  by (simp_all add: count_frames_def)

lemma in_flight_frames: "in_flight rt p = (\<Sum>t \<in> UNIV. count_frames p (frames rt t))"
  by (simp add: in_flight_def count_frames_def)

lemma in_flight_step:
  assumes "\<And>t. t \<noteq> tid \<Longrightarrow> frames rt' t = frames rt t"
  shows "in_flight rt' p + count_frames p (frames rt tid) = in_flight rt p + count_frames p (frames rt' tid)"
proof -
  have "(\<Sum>t \<in> UNIV - {tid}. count_frames p (frames rt' t)) = (\<Sum>t \<in> UNIV - {tid}. count_frames p (frames rt t))"
    using assms by (intro sum.cong) auto
  moreover have "in_flight r p = count_frames p (frames r tid) + (\<Sum>t \<in> UNIV - {tid}. count_frames p (frames r t))" for r
    by (simp add: in_flight_frames sum.remove [of UNIV tid])
  ultimately show ?thesis by simp
qed

lemma in_flight_same: "(\<And>t. frames rt' t = frames rt t) \<Longrightarrow> in_flight rt' p = in_flight rt p"
  by (simp add: in_flight_frames)

lemma in_flight_member: "(p, x) \<in> set (frames rt t) \<Longrightarrow> 0 < in_flight rt p"
proof -
  assume "(p, x) \<in> set (frames rt t)"
  then have "0 < count_frames p (frames rt t)" by (force simp: count_frames_def filter_empty_conv)
  also have "\<dots> \<le> in_flight rt p" unfolding in_flight_frames by (rule member_le_sum) simp_all
  finally show ?thesis .
qed

lemma only_thread_frames:
  assumes "only_thread tid rt rt'" "t \<noteq> tid"
  shows "frames rt' t = frames rt t"
    "gum_interceptor_get_current_stack rt' t = gum_interceptor_get_current_stack rt t"
  using assms by (simp_all add: only_thread_def frames_def gum_interceptor_get_current_stack_def)

definition counters_exact :: "runtime \<Rightarrow> bool" where
  "counters_exact rt \<longleftrightarrow> (\<forall>p c. rt_contexts rt p = Some c \<longrightarrow> unat (fc_trampoline_usage_counter c) = in_flight rt p)"

definition leads_home :: "runtime \<times> returns \<Rightarrow> returns \<Rightarrow> bool" where
  "leads_home s \<alpha> \<longleftrightarrow> (\<forall>t. returns_through (leave_sites (rt_contexts (fst s))) (rev (frames (fst s) t)) (snd s t) (\<alpha> t))"

definition machine_inv :: "runtime \<times> returns \<Rightarrow> returns \<Rightarrow> bool" where
  "machine_inv s \<alpha> \<longleftrightarrow>
     leads_home s \<alpha> \<and> counters_exact (fst s) \<and>
     inj_on (leave_sites (rt_contexts (fst s))) (dom (leave_sites (rt_contexts (fst s)))) \<and>
     (\<forall>t. rows_ok (gum_interceptor_get_current_stack (fst s) t))"

text \<open>Entering through a trampoline, whatever slot of the machine stack holds the return address.\<close>

lemma begin_invariant:
  assumes I: "machine_inv (rt, \<sigma>) \<alpha>" and site: "leave_sites (rt_contexts rt) p \<noteq> None"
    and few: "in_flight rt p < 2 ^ 32 - 1"
    and ret: "gum_function_context_begin_invocation ifaces rt tid p cpu x = Some (rt', cpu', x', hop)"
    and through: "returns_through (leave_sites (rt_contexts rt)) (rev (frames rt tid)) (x # xs) (r # \<beta>)"
  shows "machine_inv (rt', \<sigma>(tid := x' # xs)) (\<alpha>(tid := r # \<beta>))"
proof -
  obtain c where c: "rt_contexts rt p = Some c" and a: "leave_sites (rt_contexts rt) p = Some (fc_on_leave_trampoline c)"
    using site by (auto simp: leave_sites_def split: option.splits if_splits)
  note b = begin_effect [OF ret c]
  note other = only_thread_frames [OF b(1)]
  have home: "\<forall>t. returns_through (leave_sites (rt_contexts rt)) (rev (frames rt t)) (\<sigma> t) (\<alpha> t)"
    using I by (simp add: machine_inv_def leads_home_def)
  have exact: "unat (fc_trampoline_usage_counter d) = in_flight rt q" if "rt_contexts rt q = Some d" for q d
    using I that by (simp add: machine_inv_def counters_exact_def)
  have rows: "rows_ok (gum_interceptor_get_current_stack rt' t)" for t
    using I b(2) other(2) by (cases "t = tid") (simp_all add: machine_inv_def)
  consider (pass) "passes rt tid x rt' x'" | (trap) "trapped rt tid p c x rt' x'" using b(3) by (auto split: if_splits)
  then show ?thesis
  proof cases
    case pass
    then have fr: "frames rt' t = frames rt t" for t using other(1) by (cases "t = tid") (simp_all add: passes_def)
    then have fl: "in_flight rt' q = in_flight rt q" for q by (rule in_flight_same)
    show ?thesis
      using pass rows I through home by (simp add: machine_inv_def leads_home_def counters_exact_def passes_def fr fl)
  next
    case trap
    have sites: "leave_sites (rt_contexts rt') = leave_sites (rt_contexts rt)" using trap c by (simp add: trapped_def)
    have fl: "in_flight rt' q = in_flight rt q + (if q = p then 1 else 0)" for q
      using in_flight_step [of tid rt' rt q] other(1) trap by (simp add: trapped_def)
    have "unat (fc_trampoline_usage_counter c + 1) = Suc (in_flight rt p)"
      using exact [OF c] few by (simp add: unat_word_ariths)
    then have "counters_exact rt'" using exact trap fl by (auto simp: counters_exact_def trapped_def)
    moreover have "returns_through (leave_sites (rt_contexts rt)) (rev (frames rt' tid)) (x' # xs) (r # \<beta>)"
      using trap through a by (simp add: trapped_def returns_through.through)
    ultimately show ?thesis using I rows home other(1) by (simp add: machine_inv_def leads_home_def sites)
  qed
qed

text \<open>A slot that holds a trampoline is answered for by the top frame.\<close>

lemma top_frame:
  assumes "returns_through sites (rev fs) (a # xs) \<alpha>" "sites p = Some a" "inj_on sites (dom sites)"
  obtains x r \<beta> where "fs \<noteq> []" "last fs = (p, x)" "\<alpha> = r # \<beta>" "returns_through sites (rev (butlast fs)) (x # xs) (r # \<beta>)"
proof -
  consider "a \<notin> ran sites"
    | q fs' x r \<beta> where "rev fs = (q, x) # fs'" "\<alpha> = r # \<beta>" "sites q = Some a" "returns_through sites fs' (x # xs) (r # \<beta>)"
    using assms(1) by (cases rule: returns_through_ConsE) auto
  then show thesis
proof cases
  case 1
  then show ?thesis using assms(2) by (auto intro: ranI)
next
  case (2 q fs' x r \<beta>)
  have q: "q = p" using assms(2,3) 2 by (metis domI inj_onD)
  have "fs = rev fs' @ [(q, x)]" using 2 by (metis rev.simps(2) rev_rev_ident)
  then show ?thesis using that 2 q by simp
qed
qed

lemma leave_invariant:
  assumes I: "machine_inv (rt, \<sigma>) \<alpha>" and slot: "\<sigma> tid = x # xs" and site: "leave_sites (rt_contexts rt) p = Some x"
    and ret: "gum_function_context_end_invocation ifaces rt tid p cpu = Some (rt', cpu', hop)"
  shows "machine_inv (rt', \<sigma>(tid := hop # xs)) \<alpha>"
proof -
  obtain c where c: "rt_contexts rt p = Some c" using site by (auto simp: leave_sites_Some)
  note e = end_effect [OF ret c]
  note other = only_thread_frames [OF e(1)]
  have home: "\<forall>t. returns_through (leave_sites (rt_contexts rt)) (rev (frames rt t)) (\<sigma> t) (\<alpha> t)"
    and inj: "inj_on (leave_sites (rt_contexts rt)) (dom (leave_sites (rt_contexts rt)))"
    using I by (simp_all add: machine_inv_def leads_home_def)
  have exact: "unat (fc_trampoline_usage_counter d) = in_flight rt q" if "rt_contexts rt q = Some d" for q d
    using I that by (simp add: machine_inv_def counters_exact_def)
  have rows: "rows_ok (gum_interceptor_get_current_stack rt' t)" for t
    using I e(2) other(2) by (cases "t = tid") (simp_all add: machine_inv_def)
  have "returns_through (leave_sites (rt_contexts rt)) (rev (frames rt tid)) (x # xs) (\<alpha> tid)" using home slot by metis
  then obtain y r \<beta> where top: "frames rt tid \<noteq> []" "last (frames rt tid) = (p, y)" "\<alpha> tid = r # \<beta>"
    "returns_through (leave_sites (rt_contexts rt)) (rev (butlast (frames rt tid))) (y # xs) (r # \<beta>)"
    using site inj by (rule top_frame)
  have sites: "leave_sites (rt_contexts rt') = leave_sites (rt_contexts rt)" using e(6) c by simp
  have split: "frames rt tid = frames rt' tid @ [(p, y)]"
    using e(4) top(1,2) append_butlast_last_id [of "frames rt tid"] by simp
  then have fl: "in_flight rt q = in_flight rt' q + (if q = p then 1 else 0)" for q
    using in_flight_step [of tid rt' rt q, OF other(1)] by (cases "p = q") auto
  have "unat (fc_trampoline_usage_counter c) = Suc (in_flight rt' p)" using exact [OF c] fl [of p] by simp
  then have "unat (fc_trampoline_usage_counter c - 1) = in_flight rt' p"
    by (metis diff_Suc_1 nat.distinct(1) unat_0 unat_minus_one)
  then have "counters_exact rt'" using exact fl e(6) by (auto simp: counters_exact_def)
  moreover have "leads_home (rt', \<sigma>(tid := hop # xs)) \<alpha>"
    using home top e(4,5) other(1) by (simp add: leads_home_def sites)
  ultimately show ?thesis using inj rows by (simp add: machine_inv_def sites)
qed

lemma update_invariant:
  assumes I: "machine_inv (rt, \<sigma>) \<alpha>" and upd: "allowed_update rt \<sigma> ctxs'"
  shows "machine_inv (rt\<lparr>rt_contexts := ctxs'\<rparr>, \<sigma>) \<alpha>"
proof -
  let ?rt = "rt\<lparr>rt_contexts := ctxs'\<rparr>"
  have fr: "frames ?rt t = frames rt t" "gum_interceptor_get_current_stack ?rt t = gum_interceptor_get_current_stack rt t" for t
    by (simp_all add: frames_def gum_interceptor_get_current_stack_def)
  have fl: "in_flight ?rt p = in_flight rt p" for p by (rule in_flight_same) (rule fr)
  have home: "\<forall>t. returns_through (leave_sites (rt_contexts rt)) (rev (frames rt t)) (\<sigma> t) (\<alpha> t)"
    using I by (simp add: machine_inv_def leads_home_def)
  have exact: "unat (fc_trampoline_usage_counter d) = in_flight rt q" if "rt_contexts rt q = Some d" for q d
    using I that by (simp add: machine_inv_def counters_exact_def)
  have per: "case (rt_contexts rt p, ctxs' p) of
            (Some c, Some c') \<Rightarrow>
              fc_trampoline_usage_counter c' = fc_trampoline_usage_counter c \<and> leave_sites ctxs' p = leave_sites (rt_contexts rt) p
          | (Some c, None) \<Rightarrow> fc_trampoline_usage_counter c = 0
          | (None, Some c') \<Rightarrow>
              fc_trampoline_usage_counter c' = 0 \<and> (\<forall>a. leave_sites ctxs' p = Some a \<longrightarrow> unused rt \<sigma> a)
          | (None, None) \<Rightarrow> True" for p
    using upd by (simp add: allowed_update_def)
  have live: "rt_contexts rt p \<noteq> None" if "(p, x) \<in> set (frames rt t)" for p x t
    using returns_through_live [OF home [rule_format, of t], of p x] that by (auto simp: leave_sites_Some)
  have kept: "leave_sites ctxs' p = leave_sites (rt_contexts rt) p" if "(p, x) \<in> set (frames rt t)" for p x t
    using live [OF that] in_flight_member [OF that] exact [of p] per [of p] by (auto split: option.splits)
  have new: "unused rt \<sigma> a" if a: "a \<in> ran (leave_sites ctxs')" "a \<notin> ran (leave_sites (rt_contexts rt))" for a
  proof -
    obtain p where p: "leave_sites ctxs' p = Some a" using a(1) by (auto simp: ran_def)
    obtain c' where c': "ctxs' p = Some c'" using p by (auto simp: leave_sites_Some)
    have "rt_contexts rt p = None" using per [of p] c' p a(2) by (auto intro: ranI split: option.splits)
    then show ?thesis using per [of p] c' p by simp
  qed
  have dead: "in_flight rt p = 0" if "rt_contexts rt p = None" for p
    using live that unfolding in_flight_frames count_frames_def
    by (intro sum.neutral ballI) (force simp: filter_empty_conv)
  have "counters_exact ?rt"
    unfolding counters_exact_def fl
  proof (intro allI impI)
    fix p c assume "rt_contexts ?rt p = Some c"
    then show "unat (fc_trampoline_usage_counter c) = in_flight rt p"
      using per [of p] exact [of p] dead [of p] by (cases "rt_contexts rt p") auto
  qed
  moreover have "leads_home (?rt, \<sigma>) \<alpha>"
    unfolding leads_home_def fst_conv snd_conv fr
  proof
    fix t
    show "returns_through (leave_sites (rt_contexts ?rt)) (rev (frames rt t)) (\<sigma> t) (\<alpha> t)"
      using home kept new by (intro returns_through_sites [OF home [rule_format, of t]]) (auto simp: unused_def)
  qed
  ultimately show ?thesis using I upd by (simp add: machine_inv_def fr allowed_update_def)
qed

lemma same_frames_invariant:
  assumes I: "machine_inv (rt, \<sigma>) \<alpha>" and fr: "\<And>t. frames rt' t = frames rt t" and ctx: "rt_contexts rt' = rt_contexts rt"
    and rows: "\<And>t. rows_ok (gum_interceptor_get_current_stack rt' t)"
  shows "machine_inv (rt', \<sigma>) \<alpha>"
proof -
  have fl: "in_flight rt' p = in_flight rt p" for p using fr by (rule in_flight_same)
  show ?thesis using I rows by (simp add: machine_inv_def leads_home_def counters_exact_def fr fl ctx)
qed

lemma ignore_keeps:
  "frames (gum_interceptor_ignore_current_thread rt tid) t = frames rt t"
  "rt_contexts (gum_interceptor_ignore_current_thread rt tid) = rt_contexts rt"
  "rows_ok (gum_interceptor_get_current_stack (gum_interceptor_ignore_current_thread rt tid) t) =
     rows_ok (gum_interceptor_get_current_stack rt t)"
  "frames (gum_interceptor_unignore_current_thread rt tid) t = frames rt t"
  "rt_contexts (gum_interceptor_unignore_current_thread rt tid) = rt_contexts rt"
  "rows_ok (gum_interceptor_get_current_stack (gum_interceptor_unignore_current_thread rt tid) t) =
     rows_ok (gum_interceptor_get_current_stack rt t)"
proof -
  obtain tc rt1 where g: "get_interceptor_thread_context rt tid = (tc, rt1)" by fastforce
  note g = g get_context [OF g]
  show "frames (gum_interceptor_ignore_current_thread rt tid) t = frames rt t"
    "rt_contexts (gum_interceptor_ignore_current_thread rt tid) = rt_contexts rt"
    "rows_ok (gum_interceptor_get_current_stack (gum_interceptor_ignore_current_thread rt tid) t) =
       rows_ok (gum_interceptor_get_current_stack rt t)"
    "frames (gum_interceptor_unignore_current_thread rt tid) t = frames rt t"
    "rt_contexts (gum_interceptor_unignore_current_thread rt tid) = rt_contexts rt"
    "rows_ok (gum_interceptor_get_current_stack (gum_interceptor_unignore_current_thread rt tid) t) =
       rows_ok (gum_interceptor_get_current_stack rt t)"
    using g by (simp_all add: gum_interceptor_ignore_current_thread_def gum_interceptor_unignore_current_thread_def
        frames_context_of current_stack)
qed

lemma release_keeps:
  assumes "frames rt tid = []"
  shows "frames (release_interceptor_thread_context rt tid) t = frames rt t"
    "rt_contexts (release_interceptor_thread_context rt tid) = rt_contexts rt"
    "rows_ok (gum_interceptor_get_current_stack rt t) \<Longrightarrow>
     rows_ok (gum_interceptor_get_current_stack (release_interceptor_thread_context rt tid) t)"
  using assms by (auto simp: release_interceptor_thread_context_def frames_def gum_interceptor_get_current_stack_def rows_ok_def)

lemma step_simulated:
  assumes I: "machine_inv s \<alpha>" and step: "machine_step ifaces s e s'"
  shows "\<exists>\<alpha>'. plain_step e \<alpha> = Some \<alpha>' \<and> machine_inv s' \<alpha>'"
  using step I
proof cases
  case (intercepted_call rt p r tid cpu rt' cpu' r' hop \<sigma>)
  have "returns_through (leave_sites (rt_contexts rt)) (rev (frames rt tid)) (r # \<sigma> tid) (r # \<alpha> tid)"
    using I intercepted_call by (auto simp: machine_inv_def leads_home_def intro: returns_through.plain)
  then show ?thesis
    using begin_invariant [OF _ intercepted_call(4,6,7)] I intercepted_call by simp
next
  case (plain_call r rt \<sigma> tid)
  then show ?thesis using I by (auto simp: machine_inv_def leads_home_def intro: returns_through.plain)
next
  case (intercepted_tail_call rt p \<sigma> tid x xs cpu rt' cpu' x' hop)
  have home: "returns_through (leave_sites (rt_contexts rt)) (rev (frames rt tid)) (x # xs) (\<alpha> tid)"
    using I intercepted_tail_call(1,5) by (metis fst_conv leads_home_def machine_inv_def snd_conv)
  then obtain r \<beta> where \<alpha>: "\<alpha> tid = r # \<beta>" by (auto elim: returns_through_ConsE)
  have "machine_inv (rt', \<sigma>(tid := x' # xs)) (\<alpha>(tid := r # \<beta>))"
    using I intercepted_tail_call(1) home \<alpha> by (intro begin_invariant [OF _ intercepted_tail_call(4,6,7)]) simp_all
  then show ?thesis using \<alpha> intercepted_tail_call(2,3) by (metis fun_upd_triv plain_step.simps(4))
next
  case (leave \<sigma> tid x xs rt p cpu rt' cpu' hop)
  have I': "machine_inv (rt, \<sigma>) \<alpha>" using I leave(1) by simp
  show ?thesis using leave_invariant [OF I' leave(4-6)] leave(2,3) by simp
next
  case (plain_return \<sigma> tid x xs rt)
  have home: "returns_through (leave_sites (rt_contexts rt)) (rev (frames rt tid)) (x # xs) (\<alpha> tid)"
    using I plain_return(1,4) by (metis fst_conv leads_home_def machine_inv_def snd_conv)
  then obtain \<beta> where "\<alpha> tid = x # \<beta>" "returns_through (leave_sites (rt_contexts rt)) (rev (frames rt tid)) xs \<beta>"
    using plain_return(5) by (auto elim: returns_through_ConsE intro: ranI)
  then show ?thesis using I plain_return(1-3) by (auto simp: machine_inv_def leads_home_def)
next
  case (thread_exit \<sigma> tid rt)
  have "returns_through (leave_sites (rt_contexts rt)) (rev (frames rt tid)) [] (\<alpha> tid)"
    using I thread_exit(1,4) by (metis fst_conv leads_home_def machine_inv_def snd_conv)
  then have empty: "frames rt tid = []" "\<alpha> tid = []" by (auto elim: returns_through_NilE)
  have I': "machine_inv (rt, \<sigma>) \<alpha>" using I thread_exit(1) by simp
  have "machine_inv (release_interceptor_thread_context rt tid, \<sigma>) \<alpha>"
  proof (rule same_frames_invariant [OF I' release_keeps(1,2) [OF empty(1)]])
    show "rows_ok (gum_interceptor_get_current_stack (release_interceptor_thread_context rt tid) t)" for t
      using I' by (intro release_keeps(3) [OF empty(1)]) (simp add: machine_inv_def)
  qed
  then show ?thesis using thread_exit empty(2) by simp
next
  case (update rt \<sigma> ctxs')
  have I': "machine_inv (rt, \<sigma>) \<alpha>" using I update(1) by simp
  show ?thesis using update_invariant [OF I' update(4)] update(2,3) by simp
next
  case (ignore rt \<sigma> tid)
  have I': "machine_inv (rt, \<sigma>) \<alpha>" using I ignore(1) by simp
  have "machine_inv (gum_interceptor_ignore_current_thread rt tid, \<sigma>) \<alpha>"
    by (rule same_frames_invariant [OF I' ignore_keeps(1,2)]) (use I' in \<open>simp add: machine_inv_def ignore_keeps\<close>)
  then show ?thesis using ignore by simp
next
  case (unignore rt \<sigma> tid)
  have I': "machine_inv (rt, \<sigma>) \<alpha>" using I unignore(1) by simp
  have "machine_inv (gum_interceptor_unignore_current_thread rt tid, \<sigma>) \<alpha>"
    by (rule same_frames_invariant [OF I' ignore_keeps(4,5)]) (use I' in \<open>simp add: machine_inv_def ignore_keeps\<close>)
  then show ?thesis using unignore by simp
qed

definition quiet :: "runtime \<Rightarrow> bool" where
  "quiet rt \<longleftrightarrow>
     (\<forall>t. gum_interceptor_get_current_stack rt t = []) \<and>
     (\<forall>p c. rt_contexts rt p = Some c \<longrightarrow> fc_trampoline_usage_counter c = 0) \<and>
     inj_on (leave_sites (rt_contexts rt)) (dom (leave_sites (rt_contexts rt)))"

lemma quiet_invariant: "quiet rt \<Longrightarrow> machine_inv (rt, \<lambda>_. []) (\<lambda>_. [])"
  by (auto simp: quiet_def machine_inv_def leads_home_def counters_exact_def frames_def in_flight_frames rows_ok_def
      intro: returns_through.empty)

lemma run_simulated:
  assumes "machine_run ifaces s es s'" "machine_inv s \<alpha>"
  shows "\<exists>\<alpha>'. plain_run es \<alpha> = Some \<alpha>' \<and> machine_inv s' \<alpha>'"
  using assms
proof (induction rule: machine_run.induct)
  case (run_nil s)
  then show ?case by simp
next
  case (run_step s es s1 e s2)
  then show ?case using step_simulated [OF _ run_step.hyps(2)] by (auto simp: plain_run_snoc)
qed

section \<open>Returning\<close>



section \<open>Example\<close>

text \<open>
  One function context with a listener for both point cuts, and a thread that calls the function and
  returns from it.
\<close>

definition sample_function_ctx :: GumFunctionContext where
  "sample_function_ctx =
     \<lparr>fc_address = 0x5000, fc_function_address = 0x400000, fc_grafted_hook = 0, fc_import_target = 0,
      fc_type = GUM_INTERCEPTOR_TYPE_DEFAULT, fc_destroyed = False, fc_activated = True, fc_has_on_leave_listener = True,
      fc_trampoline_slice = None, fc_trampoline_usage_counter = 0, fc_on_enter_trampoline = 0x10008,
      fc_overwritten_prologue = [], fc_overwritten_prologue_len = 5, fc_on_invoke_trampoline = 0x10070,
      fc_on_leave_trampoline = 0x10060,
      fc_listener_entries = [Some \<lparr>en_listener = 0x6000, en_function_data = 0\<rparr>],
      fc_replacement_function = 0, fc_replacement_data = 0, fc_redirect_code_size = 5\<rparr>"

definition sample_callback :: "callback_view \<Rightarrow> callback_effect" where
  "sample_callback v =
     \<lparr>ce_cpu_context = cv_cpu_context v, ce_system_error = in_system_error (cv_context v),
      ce_invocation_data = None, ce_thread_data = None\<rparr>"

definition sample_ifaces :: "gpointer \<Rightarrow> GumInvocationListenerInterface" where
  "sample_ifaces l = \<lparr>if_on_enter = Some sample_callback, if_on_leave = Some sample_callback\<rparr>"

definition sample_runtime :: runtime where
  "sample_runtime =
     \<lparr>rt_interceptor = 0x7000, rt_selected_thread_id = 0, rt_contexts = [0x5000 \<mapsto> sample_function_ctx],
      rt_threads = \<lambda>_. \<lparr>th_guard = 0, th_context = None, th_system_error = 0\<rparr>, rt_thread_contexts = [], rt_calls = []\<rparr>"

lemma sample_quiet: "quiet sample_runtime"
  by (auto simp: quiet_def sample_runtime_def sample_function_ctx_def gum_interceptor_get_current_stack_def
      leave_sites_def inj_on_def split: if_splits)

lemma sample_trapped: "\<not> bypassed sample_runtime t sample_function_ctx \<and> traps_on_leave sample_function_ctx (invoking sample_runtime t)"
  by (simp add: bypassed_def sample_runtime_def called_by_replacement_def gum_interceptor_get_current_stack_def
      gum_invocation_stack_peek_top_def traps_on_leave_def sample_function_ctx_def invoking_def will_invoke_listeners_def
      context_of_def interceptor_thread_context_new_def)

lemma sample_call:
  obtains rt where "machine_run sample_ifaces (sample_runtime, \<lambda>_. []) [Call 1 0x401000] (rt, (\<lambda>_. [])(1 := [0x10060]))"
    "rt_contexts rt = [0x5000 \<mapsto> sample_function_ctx\<lparr>fc_trampoline_usage_counter := 1\<rparr>]"
    "frames rt 1 = [(0x5000, 0x401000)]" "\<And>t. rows_ok (gum_interceptor_get_current_stack rt t)"
proof -
  have c: "rt_contexts sample_runtime 0x5000 = Some sample_function_ctx" by (simp add: sample_runtime_def)
  have rows: "rows_ok (gum_interceptor_get_current_stack sample_runtime 1)"
    by (simp add: sample_runtime_def gum_interceptor_get_current_stack_def rows_ok_def)
  have fits: "length (fc_listener_entries sample_function_ctx) \<le> GUM_MAX_LISTENERS_PER_FUNCTION"
    by (simp add: sample_function_ctx_def GUM_MAX_LISTENERS_PER_FUNCTION_def)
  obtain rt cpu r hop where b:
    "gum_function_context_begin_invocation sample_ifaces sample_runtime 1 0x5000 zero_cpu_context 0x401000 = Some (rt, cpu, r, hop)"
    using begin_returns [OF c rows fits] by blast
  have t: "trapped sample_runtime 1 0x5000 sample_function_ctx 0x401000 rt r"
    using begin_effect(3) [OF b c] sample_trapped by simp
  have step: "machine_step sample_ifaces (sample_runtime, \<lambda>_. []) (Call 1 0x401000) (rt, (\<lambda>_. [])(1 := r # []))"
    by (rule intercepted_call [OF _ _ _ b])
      (simp_all add: sample_runtime_def leave_sites_def sample_function_ctx_def ran_def in_flight_def frames_def
        gum_interceptor_get_current_stack_def)
  then have run: "machine_run sample_ifaces (sample_runtime, \<lambda>_. []) [Call 1 0x401000] (rt, (\<lambda>_. [])(1 := r # []))"
    using run_step [OF run_nil] by fastforce
  show thesis
  proof (rule that)
    show "machine_run sample_ifaces (sample_runtime, \<lambda>_. []) [Call 1 0x401000] (rt, (\<lambda>_. [])(1 := [0x10060]))"
      using run t by (simp add: trapped_def sample_function_ctx_def)
    show "rt_contexts rt = [0x5000 \<mapsto> sample_function_ctx\<lparr>fc_trampoline_usage_counter := 1\<rparr>]"
      using t by (simp add: trapped_def sample_runtime_def sample_function_ctx_def)
    show "frames rt 1 = [(0x5000, 0x401000)]"
      using t by (simp add: trapped_def frames_def sample_runtime_def gum_interceptor_get_current_stack_def)
    show "rows_ok (gum_interceptor_get_current_stack rt t)" for t
      using run_simulated [OF run quiet_invariant [OF sample_quiet]] by (auto simp: machine_inv_def)
  qed
qed

section \<open>Properties\<close>

text \<open>
  C4: Interception is transparent for control flow. Start with empty stacks, let any number of threads
  call intercepted and other functions, tail-call, return and exit, in any order, while contexts are
  added, changed and freed when their counter is zero. Then the plain machine, in which nothing is
  intercepted, can make the same calls and the same returns to the same addresses, and the return addresses
  on every machine stack lead, through the invocation stack, to those of the plain machine.
\<close>

theorem interception_is_transparent:
  assumes "quiet rt0" and "machine_run ifaces (rt0, \<lambda>_. []) es (rt, \<sigma>)"
  shows "\<exists>\<alpha>. plain_run es (\<lambda>_. []) = Some \<alpha> \<and> leads_home (rt, \<sigma>) \<alpha> \<and> (\<forall>t. length (\<sigma> t) = length (\<alpha> t))"
proof -
  obtain \<alpha> where \<alpha>: "plain_run es (\<lambda>_. []) = Some \<alpha>" "machine_inv (rt, \<sigma>) \<alpha>"
    using run_simulated [OF assms(2) quiet_invariant [OF assms(1)]] by blast
  then have home: "leads_home (rt, \<sigma>) \<alpha>" by (simp add: machine_inv_def)
  then have "length (\<sigma> t) = length (\<alpha> t)" for t
    unfolding leads_home_def using returns_through_length by fastforce
  then show ?thesis using \<alpha>(1) home by blast
qed

theorem interception_is_transparent_witness:
  "\<exists>rt \<sigma>. machine_run sample_ifaces (sample_runtime, \<lambda>_. []) [Call 1 0x401000] (rt, \<sigma>) \<and> \<sigma> 1 = [0x10060] \<and>
     (\<exists>\<alpha>. plain_run [Call 1 0x401000] (\<lambda>_. []) = Some \<alpha> \<and> leads_home (rt, \<sigma>) \<alpha> \<and> (\<forall>t. length (\<sigma> t) = length (\<alpha> t)))"
proof -
  obtain rt where "machine_run sample_ifaces (sample_runtime, \<lambda>_. []) [Call 1 0x401000] (rt, (\<lambda>_. [])(1 := [0x10060]))"
    by (rule sample_call)
  from this interception_is_transparent [OF sample_quiet this] show ?thesis
    by (intro exI [of _ rt] exI [of _ "(\<lambda>_. [])(1 := [0x10060])"]) simp
qed

text \<open>
  C5: In every state so reached the usage counter of every context is the number of its frames on the
  stacks of all threads, and every frame is of a context that still exists: a context whose counter is zero
  can be freed, since no thread will return through its trampoline.
\<close>

theorem usage_counter_counts_frames:
  assumes "quiet rt0" and "machine_run ifaces (rt0, \<lambda>_. []) es (rt, \<sigma>)"
  shows "(\<forall>p c. rt_contexts rt p = Some c \<longrightarrow>
            unat (fc_trampoline_usage_counter c) = (\<Sum>t \<in> UNIV. length (filter (\<lambda>f. fst f = p) (frames rt t)))) \<and>
         (\<forall>t p x. (p, x) \<in> set (frames rt t) \<longrightarrow>
            (\<exists>c. rt_contexts rt p = Some c \<and> fc_trampoline_usage_counter c \<noteq> 0))"
proof -
  obtain \<alpha> where I: "machine_inv (rt, \<sigma>) \<alpha>" using run_simulated [OF assms(2) quiet_invariant [OF assms(1)]] by blast
  then have exact: "\<forall>p c. rt_contexts rt p = Some c \<longrightarrow> unat (fc_trampoline_usage_counter c) = in_flight rt p"
    by (simp add: machine_inv_def counters_exact_def)
  moreover have "\<exists>c. rt_contexts rt p = Some c \<and> fc_trampoline_usage_counter c \<noteq> 0" if f: "(p, x) \<in> set (frames rt t)" for t p x
  proof -
    have "returns_through (leave_sites (rt_contexts rt)) (rev (frames rt t)) (\<sigma> t) (\<alpha> t)"
      using I by (simp add: machine_inv_def leads_home_def)
    then have "leave_sites (rt_contexts rt) p \<noteq> None" using f by (simp add: returns_through_live)
    then obtain c where "rt_contexts rt p = Some c" by (auto simp: leave_sites_def split: option.splits)
    then show ?thesis using exact in_flight_member [OF f] by fastforce
  qed
  ultimately show ?thesis by (auto simp: in_flight_def)
qed

theorem usage_counter_counts_frames_witness:
  "\<exists>rt \<sigma>. machine_run sample_ifaces (sample_runtime, \<lambda>_. []) [Call 1 0x401000] (rt, \<sigma>) \<and>
     frames rt 1 = [(0x5000, 0x401000)] \<and>
     (\<Sum>t \<in> (UNIV :: GumThreadId set). length (filter (\<lambda>f. fst f = 0x5000) (frames rt t))) = 1"
proof -
  obtain rt where r: "machine_run sample_ifaces (sample_runtime, \<lambda>_. []) [Call 1 0x401000] (rt, (\<lambda>_. [])(1 := [0x10060]))"
    "rt_contexts rt = [0x5000 \<mapsto> sample_function_ctx\<lparr>fc_trampoline_usage_counter := 1\<rparr>]" "frames rt 1 = [(0x5000, 0x401000)]"
    by (rule sample_call)
  have "rt_contexts rt 0x5000 = Some (sample_function_ctx\<lparr>fc_trampoline_usage_counter := 1\<rparr>)" using r(2) by simp
  with usage_counter_counts_frames [OF sample_quiet r(1)]
  have "unat (fc_trampoline_usage_counter (sample_function_ctx\<lparr>fc_trampoline_usage_counter := 1\<rparr>)) =
      (\<Sum>t \<in> (UNIV :: GumThreadId set). length (filter (\<lambda>f. fst f = 0x5000) (frames rt t)))" by blast
  then have "(\<Sum>t \<in> (UNIV :: GumThreadId set). length (filter (\<lambda>f. fst f = 0x5000) (frames rt t))) = 1" by simp
  with r show ?thesis by blast
qed



end
