(* ===== verification/Gum_Listener_Data.thy ===== *)
theory Gum_Listener_Data
  imports Gum_Transparency
begin

text \<open>
  What listeners and replacements get at: the arguments of the intercepted call, the data a listener keeps
  per thread and per invocation, and the data of a replacement.
\<close>

section \<open>Arguments\<close>

lemma stack_arguments_disjoint:
  assumes "i \<noteq> j"
  shows "disjoint_ranges (stack_argument c i) 8 (stack_argument c j) 8"
proof -
  define d :: "guint \<Rightarrow> guint \<Rightarrow> gpointer" where "d x y = stack_argument c x - stack_argument c y" for x y
  have less: "unat x < 2 ^ 32" for x :: guint using unsigned_less [of x] by simp
  have up: "unat (d x y) = (unat x - unat y) * 8" if "unat y < unat x" for x y :: guint
  proof -
    have "d x y = of_nat ((unat x - unat y) * 8)"
      using that by (simp add: d_def stack_argument_def of_nat_diff algebra_simps)
    moreover have "(unat x - unat y) * 8 < 2 ^ 64" using less [of x] by simp
    ultimately show ?thesis by (simp only: unat_of_nat take_bit_nat_eq_self) simp
  qed
  have flip: "d y x = - d x y" for x y by (simp add: d_def)
  have "8 \<le> unat (d i j) \<and> 8 \<le> unat (d j i)"
  proof (cases "unat i < unat j")
    case True
    then have "unat (d j i) = (unat j - unat i) * 8" "d j i \<noteq> 0" using up [OF True] by auto
    then show ?thesis using True less [of j] unat_uminus [of "d j i"] flip [of i j] by (simp, intro conjI; linarith)
  next
    case False
    then have lt: "unat j < unat i" using assms by (metis linorder_neqE_nat word_unat_eq_iff)
    then have "unat (d i j) = (unat i - unat j) * 8" "d i j \<noteq> 0" using up [OF lt] by auto
    then show ?thesis using lt less [of i] unat_uminus [of "d i j"] flip [of j i] by (simp, intro conjI; linarith)
  qed
  then show ?thesis by (simp add: disjoint_ranges_def d_def)
qed

lemma load_stored_pointer:
  "load_pointer (write_bytes m a (le64 v)) a = v"
  "disjoint_ranges a 8 b 8 \<Longrightarrow> load_pointer (write_bytes m b (le64 v)) a = load_pointer m a"
  using read_write_bytes [of "le64 v" m a] read_write_bytes_other [of a 8 b "le64 v" m] by (simp_all add: load_pointer_def)

text \<open>
  After an argument of the intercepted call is replaced, reading it gives the new value, and every
  other argument, in a register or on the stack, is what it was.
\<close>

theorem replaced_argument_is_read_back:
  "(let (m', self') = gum_cpu_context_replace_nth_argument m self n value
    in gum_cpu_context_get_nth_argument m' self' k =
         (if k = n then value else gum_cpu_context_get_nth_argument m self k))"
proof (cases "n \<in> {0, 1, 2, 3, 4, 5}")
  case True
  then show ?thesis
    by (auto simp: gum_cpu_context_replace_nth_argument_def gum_cpu_context_get_nth_argument_def stack_argument_def)
next
  case False
  then have "gum_cpu_context_replace_nth_argument m self n value = (write_bytes m (stack_argument self (n - 6)) (le64 value), self)"
    by (simp add: gum_cpu_context_replace_nth_argument_def)
  moreover have "disjoint_ranges (stack_argument self (k - 6)) 8 (stack_argument self (n - 6)) 8" if "k \<noteq> n"
    using that by (intro stack_arguments_disjoint) simp
  ultimately show ?thesis
    using False by (simp add: gum_cpu_context_get_nth_argument_def load_stored_pointer)
qed

section \<open>Data of a listener per thread\<close>

text \<open>The slots of a thread as a map from listeners to their bytes.\<close>

definition data_map :: "ListenerDataSlot list \<Rightarrow> gpointer \<rightharpoonup> guint8 list" where
  "data_map slots l = (if l = 0 then None else map_option sd_data (find (\<lambda>s. sd_owner s = l) slots))"

definition owners_distinct :: "ListenerDataSlot list \<Rightarrow> bool" where
  "owners_distinct slots \<longleftrightarrow>
     (\<forall>i j. i < length slots \<longrightarrow> j < length slots \<longrightarrow> sd_owner (slots ! i) = sd_owner (slots ! j) \<longrightarrow>
            sd_owner (slots ! i) \<noteq> 0 \<longrightarrow> i = j)"

lemma data_map_nth:
  assumes "owners_distinct slots" "i < length slots" "sd_owner (slots ! i) \<noteq> 0"
  shows "data_map slots (sd_owner (slots ! i)) = Some (sd_data (slots ! i))"
proof -
  obtain s where s: "find (\<lambda>s. sd_owner s = sd_owner (slots ! i)) slots = Some s"
    using nth_mem [OF assms(2)] by (cases "find (\<lambda>s. sd_owner s = sd_owner (slots ! i)) slots") (auto simp: find_None_iff)
  then obtain j where "j < length slots" "s = slots ! j" "sd_owner s = sd_owner (slots ! i)" by (auto simp: find_Some_iff)
  then have "s = slots ! i" using assms by (metis owners_distinct_def)
  then show ?thesis using s assms(3) by (simp add: data_map_def)
qed

lemma data_map_None:
  "data_map slots l = None \<longleftrightarrow> l = 0 \<or> (\<forall>i < length slots. sd_owner (slots ! i) \<noteq> l)"
  by (auto simp: data_map_def find_None_iff set_conv_nth)

lemma data_map_eqI:
  assumes "owners_distinct slots'"
    and "\<And>l d. f l = Some d \<Longrightarrow> l \<noteq> 0 \<and> (\<exists>i < length slots'. sd_owner (slots' ! i) = l \<and> sd_data (slots' ! i) = d)"
    and "\<And>i. i < length slots' \<Longrightarrow> sd_owner (slots' ! i) \<noteq> 0 \<Longrightarrow> f (sd_owner (slots' ! i)) \<noteq> None"
  shows "data_map slots' = f"
proof
  fix l
  show "data_map slots' l = f l"
  proof (cases "f l")
    case None
    then have "data_map slots' l = None" unfolding data_map_None using assms(3) by metis
    then show ?thesis using None by simp
  next
    case (Some d)
    then show ?thesis using assms(2) [OF Some] data_map_nth [OF assms(1)] by auto
  qed
qed

lemma find_data_slot_found:
  "find_data_slot l k slots av = (True, r) \<Longrightarrow> \<exists>i < length slots. r = Some (k + i) \<and> sd_owner (slots ! i) = l"
proof (induction l k slots av rule: find_data_slot.induct)
  case (2 l k sl rest av)
  show ?case
  proof (cases "sd_owner sl = l")
    case True
    then show ?thesis using "2.prems" by (intro exI [of _ 0]) simp
  next
    case False
    then obtain i where "i < length rest" "r = Some (Suc k + i)" "sd_owner (rest ! i) = l" using "2.IH" "2.prems" by auto
    then show ?thesis by (intro exI [of _ "Suc i"]) simp
  qed
qed simp

lemma find_data_slot_missing:
  "find_data_slot l k slots av = (False, r) \<Longrightarrow>
     (\<forall>i < length slots. sd_owner (slots ! i) \<noteq> l) \<and>
     (r = av \<or> (\<exists>i < length slots. r = Some (k + i) \<and> sd_owner (slots ! i) = 0))"
proof (induction l k slots av rule: find_data_slot.induct)
  case (2 l k sl rest av)
  let ?av = "if sd_owner sl = 0 then Some k else av"
  have ne: "sd_owner sl \<noteq> l" and r: "find_data_slot l (Suc k) rest ?av = (False, r)" using "2.prems" by (auto split: if_splits)
  note IH = "2.IH" [OF ne r]
  have "\<forall>i < length (sl # rest). sd_owner ((sl # rest) ! i) \<noteq> l" using IH ne by (simp add: nth_Cons split: nat.splits)
  moreover have "r = av \<or> (\<exists>i < length (sl # rest). r = Some (k + i) \<and> sd_owner ((sl # rest) ! i) = 0)"
    using IH by (force split: if_splits)
  ultimately show ?case by blast
qed simp

lemma owners_distinct_update:
  assumes "owners_distinct slots" "sd_owner s = 0 \<or> (\<forall>i < length slots. i \<noteq> k \<longrightarrow> sd_owner (slots ! i) \<noteq> sd_owner s)"
  shows "owners_distinct (slots[k := s])"
  unfolding owners_distinct_def
proof (intro allI impI)
  fix i j assume "i < length (slots[k := s])" "j < length (slots[k := s])"
    "sd_owner (slots[k := s] ! i) = sd_owner (slots[k := s] ! j)" "sd_owner (slots[k := s] ! i) \<noteq> 0"
  then show "i = j" using assms unfolding owners_distinct_def
    by (cases "i = k"; cases "j = k") (simp_all, metis+)
qed

lemma owners_distinct_snoc:
  assumes "owners_distinct slots" "\<forall>i < length slots. sd_owner (slots ! i) \<noteq> sd_owner s"
  shows "owners_distinct (slots @ [s])"
  unfolding owners_distinct_def
proof (intro allI impI)
  fix i j assume "i < length (slots @ [s])" "j < length (slots @ [s])"
    and same: "sd_owner ((slots @ [s]) ! i) = sd_owner ((slots @ [s]) ! j)" "sd_owner ((slots @ [s]) ! i) \<noteq> 0"
  then consider "i < length slots" "j < length slots" | "i = length slots" "j = length slots"
    | "i < length slots" "j = length slots" | "i = length slots" "j < length slots" by fastforce
  then show "i = j"
  proof cases
    case 1
    then show ?thesis using same assms(1) unfolding owners_distinct_def by (simp add: nth_append)
  next
    case 3
    then show ?thesis using same assms(2) by (simp add: nth_append)
  next
    case 4
    then show ?thesis using same(1) [symmetric] assms(2) by (simp add: nth_append)
  qed simp
qed

lemma data_map_update:
  assumes od: "owners_distinct slots" and i: "i < length slots" and l: "l \<noteq> 0"
    and own: "sd_owner (slots ! i) = 0 \<or> sd_owner (slots ! i) = l"
    and rest: "\<forall>j < length slots. j \<noteq> i \<longrightarrow> sd_owner (slots ! j) \<noteq> l"
  shows "data_map (slots[i := \<lparr>sd_owner = l, sd_data = d\<rparr>]) = (data_map slots)(l \<mapsto> d)"
    and "owners_distinct (slots[i := \<lparr>sd_owner = l, sd_data = d\<rparr>])"
proof -
  let ?slots = "slots[i := \<lparr>sd_owner = l, sd_data = d\<rparr>]"
  show od': "owners_distinct ?slots" using rest by (intro owners_distinct_update od) simp
  show "data_map ?slots = (data_map slots)(l \<mapsto> d)"
  proof (rule data_map_eqI [OF od'])
    fix k e assume k: "((data_map slots)(l \<mapsto> d)) k = Some e"
    show "k \<noteq> 0 \<and> (\<exists>j < length ?slots. sd_owner (?slots ! j) = k \<and> sd_data (?slots ! j) = e)"
    proof (cases "k = l")
      case True
      then show ?thesis using k l i by (auto intro!: exI [of _ i])
    next
      case False
      then have m: "data_map slots k = Some e" using k by simp
      then obtain j where j: "j < length slots" "sd_owner (slots ! j) = k" "k \<noteq> 0" using data_map_None [of slots k] by auto
      then have "sd_data (slots ! j) = e" "j \<noteq> i" using data_map_nth [OF od, of j] m own False by auto
      then show ?thesis using j by (auto intro!: exI [of _ j])
    qed
  next
    fix j assume "j < length ?slots" "sd_owner (?slots ! j) \<noteq> 0"
    then show "((data_map slots)(l \<mapsto> d)) (sd_owner (?slots ! j)) \<noteq> None"
      using data_map_nth [OF od, of j] by (cases "j = i") auto
  qed
qed

lemma find_snoc: "find P (xs @ [x]) = (case find P xs of None \<Rightarrow> if P x then Some x else None | Some y \<Rightarrow> Some y)"
  by (induction xs) simp_all

definition zero_data :: "guint8 list" where
  "zero_data = replicate GUM_MAX_LISTENER_DATA 0"

lemma get_listener_data_spec:
  assumes od: "owners_distinct (tc_listener_data_slots tc)" and l: "l \<noteq> 0" and sz: "sz \<le> GUM_MAX_LISTENER_DATA"
  obtains i tc' where "interceptor_thread_context_get_listener_data tc l sz = (Some i, tc')"
    "i < length (tc_listener_data_slots tc')" "sd_owner (tc_listener_data_slots tc' ! i) = l"
    "owners_distinct (tc_listener_data_slots tc')"
    "data_map (tc_listener_data_slots tc') =
       (case data_map (tc_listener_data_slots tc) l of
          None \<Rightarrow> (data_map (tc_listener_data_slots tc))(l \<mapsto> zero_data)
        | Some d \<Rightarrow> data_map (tc_listener_data_slots tc))"
proof -
  let ?s = "tc_listener_data_slots tc"
  let ?new = "\<lparr>sd_owner = l, sd_data = zero_data\<rparr>"
  note unf = interceptor_thread_context_get_listener_data_def zero_data_def Let_def
  obtain b r where f: "find_data_slot l 0 ?s None = (b, r)" by fastforce
  consider (found) i where "b" "r = Some i" "i < length ?s" "sd_owner (?s ! i) = l"
    | (free) i where "\<not> b" "r = Some i" "i < length ?s" "sd_owner (?s ! i) = 0" "\<forall>i < length ?s. sd_owner (?s ! i) \<noteq> l"
    | (none) "\<not> b" "r = None" "\<forall>i < length ?s. sd_owner (?s ! i) \<noteq> l"
    using find_data_slot_found [of l 0 ?s None r] find_data_slot_missing [of l 0 ?s None r] f by (cases b) auto
  then show thesis
  proof cases
    case found
    then have "data_map ?s l = Some (sd_data (?s ! i))" using data_map_nth [OF od] l by auto
    then show ?thesis using that [of i tc] found f sz od by (simp add: unf)
  next
    case free
    have none: "data_map ?s l = None" using free by (simp add: data_map_None)
    show ?thesis
      using that [of i "tc\<lparr>tc_listener_data_slots := ?s[i := ?new]\<rparr>"] data_map_update [OF od free(3) l, of zero_data] free f sz none
      by (simp add: unf)
  next
    case none
    have nn: "data_map ?s l = None" using none by (simp add: data_map_None)
    then have "data_map (?s @ [?new]) = (data_map ?s)(l \<mapsto> zero_data)"
      using l by (auto simp: data_map_def find_snoc split: option.splits)
    then show ?thesis
      using that [of "length ?s" "tc\<lparr>tc_listener_data_slots := ?s @ [?new]\<rparr>"] none f sz nn owners_distinct_snoc [OF od, of ?new]
      by (simp add: unf)
  qed
qed

lemma store_thread_data_spec:
  assumes od: "owners_distinct (tc_listener_data_slots tc)" and l: "l \<noteq> 0"
  shows "owners_distinct (tc_listener_data_slots (store_thread_data l (Some (sz, d)) tc))"
    and "data_map (tc_listener_data_slots (store_thread_data l (Some (sz, d)) tc)) =
           (if sz \<le> GUM_MAX_LISTENER_DATA then (data_map (tc_listener_data_slots tc))(l \<mapsto> d)
            else data_map (tc_listener_data_slots tc))"
proof -
  have "owners_distinct (tc_listener_data_slots (store_thread_data l (Some (sz, d)) tc)) \<and>
      data_map (tc_listener_data_slots (store_thread_data l (Some (sz, d)) tc)) =
           (if sz \<le> GUM_MAX_LISTENER_DATA then (data_map (tc_listener_data_slots tc))(l \<mapsto> d)
            else data_map (tc_listener_data_slots tc))"
  proof (cases "sz \<le> GUM_MAX_LISTENER_DATA")
    case False
    then show ?thesis using od by (simp add: store_thread_data_def interceptor_thread_context_get_listener_data_def)
  next
    case True
    obtain i tc' where g: "interceptor_thread_context_get_listener_data tc l sz = (Some i, tc')"
      "i < length (tc_listener_data_slots tc')" "sd_owner (tc_listener_data_slots tc' ! i) = l"
      "owners_distinct (tc_listener_data_slots tc')"
      "data_map (tc_listener_data_slots tc') =
         (case data_map (tc_listener_data_slots tc) l of
            None \<Rightarrow> (data_map (tc_listener_data_slots tc))(l \<mapsto> zero_data)
          | Some d \<Rightarrow> data_map (tc_listener_data_slots tc))"
      using od l True by (rule get_listener_data_spec)
    let ?s = "tc_listener_data_slots tc'"
    have rest: "\<forall>j < length ?s. j \<noteq> i \<longrightarrow> sd_owner (?s ! j) \<noteq> l"
      using g(2-4) l by (metis owners_distinct_def)
    have new: "(?s ! i)\<lparr>sd_data := d\<rparr> = \<lparr>sd_owner = l, sd_data = d\<rparr>" using g(3) by (cases "?s ! i") simp
    have "(data_map ?s)(l \<mapsto> d) = (data_map (tc_listener_data_slots tc))(l \<mapsto> d)"
      using g(5) by (auto split: option.splits)
    then show ?thesis
      using data_map_update [OF g(4) g(2) l _ rest, of d] g(1,3) True by (simp add: store_thread_data_def new)
  qed
  then show "owners_distinct (tc_listener_data_slots (store_thread_data l (Some (sz, d)) tc))"
    and "data_map (tc_listener_data_slots (store_thread_data l (Some (sz, d)) tc)) =
           (if sz \<le> GUM_MAX_LISTENER_DATA then (data_map (tc_listener_data_slots tc))(l \<mapsto> d)
            else data_map (tc_listener_data_slots tc))" by blast+
qed

lemma owners_distinct_Cons:
  "owners_distinct (s # slots) \<longleftrightarrow>
     owners_distinct slots \<and> (sd_owner s = 0 \<or> (\<forall>k < length slots. sd_owner (slots ! k) \<noteq> sd_owner s))" (is "?L \<longleftrightarrow> ?R")
proof
  assume L: ?L
  have "owners_distinct slots"
    using L unfolding owners_distinct_def by (metis Suc_less_eq length_Cons nat.inject nth_Cons_Suc)
  moreover have "sd_owner s \<noteq> 0 \<Longrightarrow> k < length slots \<Longrightarrow> sd_owner (slots ! k) \<noteq> sd_owner s" for k
    using L unfolding owners_distinct_def
    by (metis Suc_less_eq length_Cons nat.distinct(1) nth_Cons_0 nth_Cons_Suc zero_less_Suc)
  ultimately show ?R by blast
next
  assume R: ?R
  show ?L unfolding owners_distinct_def
  proof (intro allI impI)
    fix i j assume "i < length (s # slots)" "j < length (s # slots)"
      "sd_owner ((s # slots) ! i) = sd_owner ((s # slots) ! j)" "sd_owner ((s # slots) ! i) \<noteq> 0"
    then show "i = j" using R unfolding owners_distinct_def by (cases i; cases j) (simp_all, metis+)
  qed
qed

lemma forget_slot_spec:
  "owners_distinct slots \<Longrightarrow> l \<noteq> 0 \<Longrightarrow>
     owners_distinct (forget_slot l slots) \<and> data_map (forget_slot l slots) = (data_map slots)(l := None)"
proof (induction slots)
  case Nil
  then show ?case by (simp add: data_map_def fun_eq_iff)
next
  case (Cons s slots)
  have od: "owners_distinct slots" and head: "sd_owner s = 0 \<or> (\<forall>k < length slots. sd_owner (slots ! k) \<noteq> sd_owner s)"
    using Cons.prems(1) by (simp_all add: owners_distinct_Cons)
  show ?case
  proof (cases "sd_owner s = l")
    case True
    have "owners_distinct ((s # slots)[0 := s\<lparr>sd_owner := 0\<rparr>])" by (rule owners_distinct_update [OF Cons.prems(1)]) simp
    moreover have "data_map (s\<lparr>sd_owner := 0\<rparr> # slots) = (data_map (s # slots))(l := None)"
    proof
      fix k
      have "data_map slots l = None" using head True Cons.prems(2) by (auto simp: data_map_None)
      then show "data_map (s\<lparr>sd_owner := 0\<rparr> # slots) k = ((data_map (s # slots))(l := None)) k"
        using True Cons.prems(2) by (cases "k = l") (auto simp: data_map_def)
    qed
    ultimately show ?thesis using True by simp
  next
    case False
    note IH = Cons.IH [OF od Cons.prems(2)]
    have "data_map (s # forget_slot l slots) = (data_map (s # slots))(l := None)"
      using IH False by (auto simp: data_map_def fun_eq_iff split: if_splits)
    moreover have "owners_distinct (s # forget_slot l slots)"
    proof (cases "sd_owner s = 0")
      case ne: False
      have "data_map (forget_slot l slots) (sd_owner s) = None" using IH head ne False by (simp add: data_map_None)
      then have "\<forall>k < length (forget_slot l slots). sd_owner (forget_slot l slots ! k) \<noteq> sd_owner s"
        unfolding data_map_None using ne by simp
      then show ?thesis using IH by (simp add: owners_distinct_Cons)
    qed (use IH in \<open>simp add: owners_distinct_Cons\<close>)
    ultimately show ?thesis using False by simp
  qed
qed

text \<open>
  The interface a listener relies on: its own bytes, keyed by its address. \<open>Put\<close> asks for data of some size
  and writes them, \<open>Drop\<close> is what detaching the listener does.
\<close>

datatype data_op = Put gpointer nat "guint8 list" | Drop gpointer

fun data_op_listener :: "data_op \<Rightarrow> gpointer" where
  "data_op_listener (Put l sz d) = l"
| "data_op_listener (Drop l) = l"

fun run_data_op :: "data_op \<Rightarrow> InterceptorThreadContext \<Rightarrow> InterceptorThreadContext" where
  "run_data_op (Put l sz d) tc = store_thread_data l (Some (sz, d)) tc"
| "run_data_op (Drop l) tc = interceptor_thread_context_forget_listener_data tc l"

fun abstract_data_op :: "data_op \<Rightarrow> (gpointer \<rightharpoonup> guint8 list) \<Rightarrow> (gpointer \<rightharpoonup> guint8 list)" where
  "abstract_data_op (Put l sz d) m = (if sz \<le> GUM_MAX_LISTENER_DATA then m(l \<mapsto> d) else m)"
| "abstract_data_op (Drop l) m = m(l := None)"

lemma data_ops_refine:
  assumes "\<forall>op \<in> set ops. data_op_listener op \<noteq> 0" "owners_distinct (tc_listener_data_slots tc)"
  shows "owners_distinct (tc_listener_data_slots (fold run_data_op ops tc)) \<and>
    data_map (tc_listener_data_slots (fold run_data_op ops tc)) = fold abstract_data_op ops (data_map (tc_listener_data_slots tc))"
  using assms
proof (induction ops arbitrary: tc)
  case (Cons op ops)
  have "owners_distinct (tc_listener_data_slots (run_data_op op tc)) \<and>
      data_map (tc_listener_data_slots (run_data_op op tc)) = abstract_data_op op (data_map (tc_listener_data_slots tc))"
    using Cons.prems store_thread_data_spec forget_slot_spec
    by (cases op) (simp_all add: interceptor_thread_context_forget_listener_data_def)
  then show ?case using Cons by simp
qed simp

text \<open>
  C35: Per-thread data are private to their listener and last until it is detached. After any sequence of
  requests and detachments on a new thread context, a request of at most 1024 bytes by a listener gives it
  its own slot, with what it stored there last since it was attached, or zeros; larger requests give nothing.
\<close>

theorem thread_data_refines_map:
  assumes "\<forall>op \<in> set ops. data_op_listener op \<noteq> 0" and "l \<noteq> 0"
  defines "tc \<equiv> fold run_data_op ops interceptor_thread_context_new"
  defines "m \<equiv> fold abstract_data_op ops Map.empty"
  shows "if sz \<le> GUM_MAX_LISTENER_DATA
    then \<exists>i tc'. interceptor_thread_context_get_listener_data tc l sz = (Some i, tc') \<and>
           i < length (tc_listener_data_slots tc') \<and> sd_owner (tc_listener_data_slots tc' ! i) = l \<and>
           sd_data (tc_listener_data_slots tc' ! i) = (case m l of None \<Rightarrow> zero_data | Some d \<Rightarrow> d) \<and>
           (\<forall>k. k \<noteq> l \<longrightarrow> data_map (tc_listener_data_slots tc') k = m k)
    else interceptor_thread_context_get_listener_data tc l sz = (None, tc)"
proof (cases "sz \<le> GUM_MAX_LISTENER_DATA")
  case False
  then show ?thesis by (simp add: interceptor_thread_context_get_listener_data_def)
next
  case True
  have "data_map (tc_listener_data_slots interceptor_thread_context_new) = Map.empty"
    "owners_distinct (tc_listener_data_slots interceptor_thread_context_new)"
    by (auto simp: interceptor_thread_context_new_def data_map_def owners_distinct_def)
  then have tc: "owners_distinct (tc_listener_data_slots tc)" "data_map (tc_listener_data_slots tc) = m"
    using data_ops_refine [OF assms(1), of interceptor_thread_context_new] by (simp_all add: tc_def m_def)
  obtain i tc' where g: "interceptor_thread_context_get_listener_data tc l sz = (Some i, tc')"
    "i < length (tc_listener_data_slots tc')" "sd_owner (tc_listener_data_slots tc' ! i) = l"
    "owners_distinct (tc_listener_data_slots tc')"
    "data_map (tc_listener_data_slots tc') =
       (case data_map (tc_listener_data_slots tc) l of
          None \<Rightarrow> (data_map (tc_listener_data_slots tc))(l \<mapsto> zero_data)
        | Some d \<Rightarrow> data_map (tc_listener_data_slots tc))"
    using tc(1) assms(2) True by (rule get_listener_data_spec)
  have "data_map (tc_listener_data_slots tc') l = Some (sd_data (tc_listener_data_slots tc' ! i))"
    using data_map_nth [OF g(4) g(2)] g(3) assms(2) by simp
  then show ?thesis using g True tc(2) by (auto split: option.splits)
qed

theorem thread_data_refines_map_witness:
  "\<exists>i tc'. interceptor_thread_context_get_listener_data
       (fold run_data_op [Put 0x6000 4 [1, 2, 3, 4], Put 0x7000 1 [9], Drop 0x7000] interceptor_thread_context_new) 0x6000 4 = (Some i, tc') \<and>
     sd_data (tc_listener_data_slots tc' ! i) = [1, 2, 3, 4]"
  using thread_data_refines_map [of "[Put 0x6000 4 [1, 2, 3, 4], Put 0x7000 1 [9], Drop 0x7000]" "0x6000" 4]
  by (auto simp: GUM_MAX_LISTENER_DATA_def)

section \<open>Entering and leaving\<close>

text \<open>
  C34: What entering an intercepted function does, for a context with at most two listener slots: the array of a stack entry has
  no more rows. It returns. If the reentrancy guard is held, or the function is called by its own replacement, the original
  code is next and stack, counters and return address stay as they are. Otherwise the next hop is the replacement, if there is one,
  and the original code if not; the on-enter callbacks of the attached listeners are made, in their order, unless the
  thread is ignored or another one selected; and the return is trapped, with a frame for it and the context in use once more, exactly when
  there is a replacement, or listeners are invoked and one of them has an on-leave callback. In every case but that of a
  guard held before, the guard is free afterwards, and no other thread is affected.
\<close>

theorem entering_an_intercepted_function:
  assumes "rt_contexts rt p = Some c" and "rows_ok (gum_interceptor_get_current_stack rt tid)"
    and "length (fc_listener_entries c) \<le> GUM_MAX_LISTENERS_PER_FUNCTION"
  shows "\<exists>rt' cpu' r' hop.
    gum_function_context_begin_invocation ifaces rt tid p cpu r = Some (rt', cpu', r', hop) \<and>
    hop = (if bypassed rt tid c \<or> fc_replacement_function c = 0 then fc_on_invoke_trampoline c else fc_replacement_function c) \<and>
    rt_calls rt' = rt_calls rt @
      (if \<not> bypassed rt tid c \<and> invoking rt tid then calls_of ifaces GUM_POINT_ENTER tid p (fc_listener_entries c) else []) \<and>
    (if \<not> bypassed rt tid c \<and>
        (fc_replacement_function c \<noteq> 0 \<or> invoking rt tid \<and> fc_has_on_leave_listener c)
     then frames rt' tid = frames rt tid @ [(p, r)] \<and> r' = fc_on_leave_trampoline c \<and>
       rt_contexts rt' = (rt_contexts rt)(p \<mapsto> c\<lparr>fc_trampoline_usage_counter := fc_trampoline_usage_counter c + 1\<rparr>)
     else frames rt' tid = frames rt tid \<and> r' = r \<and> rt_contexts rt' = rt_contexts rt) \<and>
    th_guard (rt_threads rt' tid) = (if th_guard (rt_threads rt tid) = rt_interceptor rt then rt_interceptor rt else 0) \<and>
    (\<forall>t. t \<noteq> tid \<longrightarrow> rt_threads rt' t = rt_threads rt t)"
proof -
  obtain rt' cpu' r' hop where b: "gum_function_context_begin_invocation ifaces rt tid p cpu r = Some (rt', cpu', r', hop)"
    using begin_returns [OF assms] by blast
  note e = begin_effect [OF b assms(1)]
  show ?thesis
    using b begin_guard [OF b assms(1)] e(1,3-5) by (auto simp: leads_to_def traps_on_leave_def trapped_def passes_def only_thread_def split: if_splits)
qed

theorem entering_an_intercepted_function_witness:
  "\<exists>rt' cpu' r'. gum_function_context_begin_invocation sample_ifaces sample_runtime 1 0x5000 zero_cpu_context 0x401000
      = Some (rt', cpu', r', 0x10070) \<and>
     rt_calls rt' = [\<lparr>call_thread = 1, call_function_ctx = 0x5000, call_listener = 0x6000, call_point_cut = GUM_POINT_ENTER\<rparr>] \<and>
     frames rt' 1 = [(0x5000, 0x401000)] \<and> r' = 0x10060 \<and> th_guard (rt_threads rt' 1) = 0"
proof -
  have c: "rt_contexts sample_runtime 0x5000 = Some sample_function_ctx" by (simp add: sample_runtime_def)
  have rows: "rows_ok (gum_interceptor_get_current_stack sample_runtime 1)"
    by (simp add: sample_runtime_def gum_interceptor_get_current_stack_def rows_ok_def)
  have fits: "length (fc_listener_entries sample_function_ctx) \<le> GUM_MAX_LISTENERS_PER_FUNCTION"
    by (simp add: sample_function_ctx_def GUM_MAX_LISTENERS_PER_FUNCTION_def)
  have state: "\<not> bypassed sample_runtime 1 sample_function_ctx" "invoking sample_runtime 1" "frames sample_runtime 1 = []"
    "rt_calls sample_runtime = []"
    by (simp_all add: bypassed_def sample_runtime_def called_by_replacement_def gum_interceptor_get_current_stack_def
        gum_invocation_stack_peek_top_def invoking_def will_invoke_listeners_def context_of_def
        interceptor_thread_context_new_def frames_def)
  have ctx: "fc_replacement_function sample_function_ctx = 0" "fc_has_on_leave_listener sample_function_ctx"
    "fc_on_invoke_trampoline sample_function_ctx = 0x10070" "fc_on_leave_trampoline sample_function_ctx = 0x10060"
    "calls_of sample_ifaces GUM_POINT_ENTER 1 0x5000 (fc_listener_entries sample_function_ctx) =
       [\<lparr>call_thread = 1, call_function_ctx = 0x5000, call_listener = 0x6000, call_point_cut = GUM_POINT_ENTER\<rparr>]"
    by (simp_all add: sample_function_ctx_def calls_of_def wanted_def sample_ifaces_def)
  have "th_guard (rt_threads sample_runtime 1) \<noteq> rt_interceptor sample_runtime" using state(1) by (simp add: bypassed_def)
  then show ?thesis
    using entering_an_intercepted_function [OF c rows fits, of sample_ifaces zero_cpu_context "0x401000"] state ctx by auto
qed

definition replaced_ctx :: "gpointer \<Rightarrow> gpointer \<Rightarrow> gpointer \<Rightarrow> GumFunctionContext" where
  "replaced_ctx address function_address data =
     sample_function_ctx\<lparr>fc_address := address, fc_function_address := function_address, fc_has_on_leave_listener := False,
       fc_listener_entries := [], fc_on_leave_trampoline := address + 0x10000,
       fc_replacement_function := function_address + 0x10000, fc_replacement_data := data\<rparr>"

definition replaced_runtime :: runtime where
  "replaced_runtime = sample_runtime\<lparr>rt_contexts := [0x5000 \<mapsto> replaced_ctx 0x5000 0x400000 0xa, 0x5100 \<mapsto> replaced_ctx 0x5100 0x400100 0xb]\<rparr>"

definition data_seen_by_top :: "runtime \<Rightarrow> GumThreadId \<Rightarrow> gpointer option" where
  "data_seen_by_top rt tid =
     Option.bind (th_context (rt_threads rt tid)) (\<lambda>tc.
       Option.bind (gum_invocation_stack_peek_top (tc_stack tc)) (\<lambda>e.
         gum_invocation_context_get_replacement_data tc (se_invocation_context e)))"

definition nested_replacements :: "(gpointer option \<times> gpointer option \<times> (gpointer \<times> gpointer) list) option" where
  "nested_replacements =
     (case gum_function_context_begin_invocation sample_ifaces replaced_runtime 1 0x5000 zero_cpu_context 0x401000 of
        None \<Rightarrow> None
      | Some (rt1, cpu1, r1, hop1) \<Rightarrow>
          (case gum_function_context_begin_invocation sample_ifaces rt1 1 0x5100 zero_cpu_context 0x402000 of
             None \<Rightarrow> None
           | Some (rt2, cpu2, r2, hop2) \<Rightarrow>
               (case gum_function_context_end_invocation sample_ifaces rt2 1 0x5100 zero_cpu_context of
                  None \<Rightarrow> None
                | Some (rt3, cpu3, hop3) \<Rightarrow> Some (data_seen_by_top rt1 1, data_seen_by_top rt3 1, frames rt3 1))))"

text \<open>
  Two functions are replaced, and the replacement of the first calls the second. After the second call
  has returned, the first replacement asks for its data and is given those of the second: the pointer is
  kept once per thread and not once per invocation.
\<close>

theorem nested_replacement_loses_data:
  "nested_replacements = Some (Some 0xa, Some 0xb, [(0x5000, 0x401000)])"
  by code_simp

lemma store_past_end:
  assumes "rows_ok (tc_stack tc)" "GUM_MAX_LISTENERS_PER_FUNCTION \<le> row" "ce_invocation_data (f v) \<noteq> None"
  shows "store_invocation_data row (ce_invocation_data (f v)) tc = None"
  using assms by (auto simp: store_invocation_data_def gum_invocation_stack_peek_top_def rows_ok_def)

lemma writer_past_end_is_caught:
  assumes "rows_ok (tc_stack tc)" "GUM_MAX_LISTENERS_PER_FUNCTION \<le> i + length before"
    and "(if pc = GUM_POINT_ENTER then if_on_enter (ifaces (en_listener e)) else if_on_leave (ifaces (en_listener e))) = Some f"
    and "\<And>v. ce_invocation_data (f v) \<noteq> None"
  shows "invoke_listeners ifaces pc tid p i (before @ Some e # after) tc cpu calls = None"
  using assms(1,2)
proof (induction before arbitrary: i tc cpu calls)
  case Nil
  let ?tc = "tc\<lparr>tc_listener_data := Some \<lparr>ls_point_cut = pc, ls_entry = e, ls_row = i\<rparr>\<rparr>"
  have "run_callback f tid i (en_listener e) ?tc cpu = None"
    using Nil assms(4) store_past_end [of _ i f]
    by (simp add: run_callback_def Let_def rows_ok_update_top split: option.splits)
  then show ?case using assms(3) by (simp add: Let_def)
next
  case (Cons x before)
  show ?case
  proof (cases x)
    case None
    then show ?thesis using Cons.IH [of tc "Suc i"] Cons.prems by simp
  next
    case (Some d)
    let ?tc = "tc\<lparr>tc_listener_data := Some \<lparr>ls_point_cut = pc, ls_entry = d, ls_row = i\<rparr>\<rparr>"
    have "invoke_listeners ifaces pc tid p (Suc i) (before @ Some e # after) tc1 cpu1 calls1 = None"
      if "run_callback g tid i (en_listener d) ?tc cpu = Some (tc1, cpu1)" for g tc1 cpu1 calls1
      using Cons.IH [of tc1 "Suc i"] run_callback_keeps(5) [OF that] Cons.prems by simp
    moreover have "invoke_listeners ifaces pc tid p (Suc i) (before @ Some e # after) ?tc cpu calls = None"
      using Cons.IH [of ?tc "Suc i"] Cons.prems by simp
    ultimately show ?thesis using Some by (auto simp: Let_def split: option.splits)
  qed
qed

definition writing_callback :: "callback_view \<Rightarrow> callback_effect" where
  "writing_callback v = (sample_callback v)\<lparr>ce_invocation_data := Some (replicate GUM_MAX_LISTENER_DATA 1)\<rparr>"

definition crowded_entry :: "gpointer \<Rightarrow> ListenerEntry" where
  "crowded_entry l = \<lparr>en_listener = l, en_function_data = 0\<rparr>"

definition crowded_ctx :: GumFunctionContext where
  "crowded_ctx = sample_function_ctx\<lparr>fc_listener_entries := [Some (crowded_entry 1), Some (crowded_entry 2), Some (crowded_entry 3)]\<rparr>"

definition crowded_runtime :: runtime where
  "crowded_runtime = sample_runtime\<lparr>rt_contexts := [0x5000 \<mapsto> crowded_ctx]\<rparr>"

text \<open>
  C38: A stack entry has room for the invocation data of two listeners, but nothing limits the number of
  listeners of a function. When a third listener stores into its invocation data on entry, the store is past
  the end of the array.
\<close>

theorem third_listener_out_of_bounds:
  assumes "rt_contexts rt p = Some c" and "rows_ok (gum_interceptor_get_current_stack rt tid)"
    and "\<not> bypassed rt tid c" and "invoking rt tid"
    and "fc_listener_entries c = before @ Some e # after" and "2 \<le> length before"
    and "if_on_enter (ifaces (en_listener e)) = Some f" and "\<forall>v. ce_invocation_data (f v) \<noteq> None"
  shows "gum_function_context_begin_invocation ifaces rt tid p cpu r = None"
proof -
  obtain rt1 rt2 tc where b:
    "add_usage 1 p rt = Some rt1"
    "rt_contexts rt1 = (rt_contexts rt)(p \<mapsto> c\<lparr>fc_trampoline_usage_counter := fc_trampoline_usage_counter c + 1\<rparr>)"
    "get_interceptor_thread_context (set_guard (rt_interceptor rt) tid rt1) tid = (tc, rt2)"
    "gum_function_context_begin_invocation ifaces rt tid p cpu r =
       (if th_guard (rt_threads rt tid) = rt_interceptor rt
        then map_option (\<lambda>rt. (rt, cpu, r, fc_on_invoke_trampoline c)) (add_usage (- 1) p rt1)
        else if called_by_replacement c (tc_stack tc)
        then map_option (\<lambda>rt. (rt, cpu, r, fc_on_invoke_trampoline c)) (add_usage (- 1) p (set_guard 0 tid rt2))
        else enter_invocation ifaces rt2 tid p c tc cpu r)"
    by (rule begin_unfold [OF assms(1)])
  note g = get_context [OF b(3)]
  have tc: "tc = context_of rt tid" using g(1) b(1) by simp
  have ivk: "will_invoke_listeners rt2 tid tc"
    using assms(4) g(4) b(1) by (simp add: will_invoke_listeners_def invoking_def tc only_thread_def)
  have rows: "rows_ok (tc_stack tc)" using assms(2) by (simp add: tc current_stack)
  have "enter_listeners ifaces tid p c (push_invocation p c True trap r err tc) cpu1 calls = None" for trap err cpu1 calls
  proof -
    have "rows_ok (tc_stack (push_invocation p c True trap r err tc))" using rows by (simp add: push_invocation_frames)
    then show ?thesis
      using assms(5-8) by (simp add: enter_listeners_def writer_past_end_is_caught rows_ok_update_top GUM_MAX_LISTENERS_PER_FUNCTION_def)
  qed
  then have "enter_invocation ifaces rt2 tid p c tc cpu r = None"
    using ivk by (simp add: enter_invocation_def Let_def)
  then show ?thesis using b(4) assms(3) by (simp add: bypassed_def current_stack tc)
qed

theorem third_listener_out_of_bounds_witness:
  "gum_function_context_begin_invocation (\<lambda>l. \<lparr>if_on_enter = Some writing_callback, if_on_leave = None\<rparr>)
     crowded_runtime 1 0x5000 zero_cpu_context 0x401000 = None"
proof (rule third_listener_out_of_bounds)
  show "rt_contexts crowded_runtime 0x5000 = Some crowded_ctx" by (simp add: crowded_runtime_def)
  show "fc_listener_entries crowded_ctx = [Some (crowded_entry 1), Some (crowded_entry 2)] @ Some (crowded_entry 3) # []"
    by (simp add: crowded_ctx_def)
  show "\<forall>v. ce_invocation_data (writing_callback v) \<noteq> None" by (simp add: writing_callback_def)
qed (simp_all add: crowded_runtime_def bypassed_def sample_runtime_def called_by_replacement_def gum_interceptor_get_current_stack_def
      gum_invocation_stack_peek_top_def invoking_def will_invoke_listeners_def context_of_def rows_ok_def
      interceptor_thread_context_new_def)

end
