(* ===== verification/Gum_Interceptor.thy ===== *)
theory Gum_Interceptor
  imports Gum_Transparency
begin

text \<open>
  The administrative half of \<^verbatim>\<open>src/frida-gum/gum/guminterceptor.c\<close>: attaching and detaching listeners,
  replacing and reverting functions, and the transactions in which code is patched and contexts are freed.

  The state carries the run-time half of the interceptor (contexts and threads), the table of intercepted
  functions, the current transaction, and the backend, whose record holds the code allocator and, in its
  writer, the memory of the process; \<open>ip_has_backend\<close> says whether \<^verbatim>\<open>self->backend\<close> is set. A
  \<^verbatim>\<open>GHashTable\<close> is the list of its associations; in which order it is traversed is the environment's
  choice, as are the answers of the operating system, the address of a new context, and what
  \<^verbatim>\<open>g_list_sort\<close> makes of a list. Operations are whole critical sections of the interceptor's lock;
  \<open>None\<close> is an aborting assertion or an access through a pointer to a freed context.
\<close>

section \<open>State\<close>

datatype GumUpdateTaskFunc = GUM_INTERCEPTOR_ACTIVATE | GUM_INTERCEPTOR_DEACTIVATE

record GumUpdateTask =
  ut_ctx :: gpointer
  ut_func :: GumUpdateTaskFunc

text \<open>What a destroy task calls, with its data.\<close>

datatype destroy_notify =
    UNREF_LISTENER gpointer
  | UNREF_ENTRIES "ListenerEntry option list"
  | PERFORM_DESTROY gpointer

record GumDestroyTask =
  dt_ctx :: gpointer
  dt_notify :: destroy_notify

record GumInterceptorTransaction =
  tx_is_dirty :: bool
  tx_level :: guint32
  tx_pending_destroy_tasks :: "GumDestroyTask list"
  tx_pending_update_tasks :: "(gpointer \<times> GumUpdateTask list) list"

text \<open>Effects on the process that are not changes of this state, in the order they are made.\<close>

datatype effect =
    SUSPEND GumThreadId
  | RESUME GumThreadId
  | PROTECT gpointer GumPageProtection
  | PATCH gpointer GumUpdateTaskFunc
  | CLEAR_CACHE gpointer
  | COMMIT "commit_call list"
  | NOTIFY destroy_notify

record GumInterceptor =
  ip_runtime :: runtime
  ip_function_by_address :: "(gpointer \<times> gpointer) list"
  ip_has_backend :: bool
  ip_backend :: GumInterceptorBackend
  ip_current_transaction :: GumInterceptorTransaction
  ip_effects :: "effect list"

record environment =
  en_cs :: capstone
  en_ld :: link_map
  en_lo :: locals
  en_storage :: "os_answers \<times> os_answers"
  en_slices :: "os_answers \<times> os_answers"
  en_os :: os_answers
  en_signing_required :: bool
  en_new_ctx :: gpointer
  en_thread :: GumThreadId
  en_threads :: "GumThreadId list"
  en_suspend :: "GumThreadId \<Rightarrow> bool"
  en_mprotect :: "gpointer \<Rightarrow> bool"
  en_hash_order :: "gpointer list \<Rightarrow> gpointer list"
  en_sort :: "(gpointer \<Rightarrow> gpointer \<Rightarrow> guint32) \<Rightarrow> gpointer list \<Rightarrow> gpointer list"
  en_between :: "nat \<Rightarrow> runtime \<Rightarrow> runtime"
  en_ifaces :: "gpointer \<Rightarrow> GumInvocationListenerInterface"

datatype GumInstrumentationError =
    GUM_INSTRUMENTATION_ERROR_WRONG_SIGNATURE
  | GUM_INSTRUMENTATION_ERROR_POLICY_VIOLATION
  | GUM_INSTRUMENTATION_ERROR_WRONG_TYPE

datatype GumAttachReturn =
    GUM_ATTACH_OK
  | GUM_ATTACH_WRONG_SIGNATURE
  | GUM_ATTACH_ALREADY_ATTACHED
  | GUM_ATTACH_POLICY_VIOLATION
  | GUM_ATTACH_WRONG_TYPE

datatype GumReplaceReturn =
    GUM_REPLACE_OK
  | GUM_REPLACE_WRONG_SIGNATURE
  | GUM_REPLACE_ALREADY_REPLACED
  | GUM_REPLACE_POLICY_VIOLATION
  | GUM_REPLACE_WRONG_TYPE

definition GUM_INTERCEPTOR_CODE_SLICE_SIZE :: guint64 where
  "GUM_INTERCEPTOR_CODE_SLICE_SIZE = 256"

text \<open>\<^verbatim>\<open>gum_code_segment_is_supported\<close> outside of Darwin.\<close>

definition gum_code_segment_is_supported :: bool where
  "gum_code_segment_is_supported = False"

section \<open>Small steps on the state\<close>

definition hash_insert :: "'a \<Rightarrow> 'b \<Rightarrow> ('a \<times> 'b) list \<Rightarrow> ('a \<times> 'b) list" where
  "hash_insert k v table = (k, v) # filter (\<lambda>e. fst e \<noteq> k) table"

definition hash_remove :: "'a \<Rightarrow> ('a \<times> 'b) list \<Rightarrow> ('a \<times> 'b) list" where
  "hash_remove k table = filter (\<lambda>e. fst e \<noteq> k) table"

definition log_effect :: "effect \<Rightarrow> GumInterceptor \<Rightarrow> GumInterceptor" where
  "log_effect e self = self\<lparr>ip_effects := ip_effects self @ [e]\<rparr>"

definition ctx_at :: "GumInterceptor \<Rightarrow> gpointer \<Rightarrow> GumFunctionContext option" where
  "ctx_at self p = rt_contexts (ip_runtime self) p"

definition set_ctx :: "gpointer \<Rightarrow> GumFunctionContext option \<Rightarrow> GumInterceptor \<Rightarrow> GumInterceptor" where
  "set_ctx p c self =
     self\<lparr>ip_runtime := (ip_runtime self)\<lparr>rt_contexts := (rt_contexts (ip_runtime self))(p := c)\<rparr>\<rparr>"

definition update_transaction ::
    "(GumInterceptorTransaction \<Rightarrow> GumInterceptorTransaction) \<Rightarrow> GumInterceptor \<Rightarrow> GumInterceptor" where
  "update_transaction f self = self\<lparr>ip_current_transaction := f (ip_current_transaction self)\<rparr>"

definition mark_dirty :: "GumInterceptor \<Rightarrow> GumInterceptor" where
  "mark_dirty = update_transaction (\<lambda>tx. tx\<lparr>tx_is_dirty := True\<rparr>)"

definition ignore_current_thread :: "environment \<Rightarrow> GumInterceptor \<Rightarrow> GumInterceptor" where
  "ignore_current_thread en self =
     self\<lparr>ip_runtime := gum_interceptor_ignore_current_thread (ip_runtime self) (en_thread en)\<rparr>"

definition unignore_current_thread :: "environment \<Rightarrow> GumInterceptor \<Rightarrow> GumInterceptor" where
  "unignore_current_thread en self =
     self\<lparr>ip_runtime := gum_interceptor_unignore_current_thread (ip_runtime self) (en_thread en)\<rparr>"

section \<open>Scheduling\<close>

definition gum_interceptor_transaction_init :: GumInterceptorTransaction where
  "gum_interceptor_transaction_init =
     \<lparr>tx_is_dirty = False, tx_level = 0, tx_pending_destroy_tasks = [], tx_pending_update_tasks = []\<rparr>"

definition gum_interceptor_transaction_begin :: "GumInterceptor \<Rightarrow> GumInterceptor" where
  "gum_interceptor_transaction_begin = update_transaction (\<lambda>tx. tx\<lparr>tx_level := tx_level tx + 1\<rparr>)"

definition gum_interceptor_transaction_schedule_destroy ::
    "gpointer \<Rightarrow> destroy_notify \<Rightarrow> GumInterceptor \<Rightarrow> GumInterceptor" where
  "gum_interceptor_transaction_schedule_destroy ctx notify =
     update_transaction (\<lambda>tx. tx\<lparr>tx_pending_destroy_tasks :=
       tx_pending_destroy_tasks tx @ [\<lparr>dt_ctx = ctx, dt_notify = notify\<rparr>]\<rparr>)"

definition gum_page_address_from_pointer :: "environment \<Rightarrow> gpointer \<Rightarrow> gpointer" where
  "gum_page_address_from_pointer en ptr = ptr AND NOT (os_page_size (en_os en) - 1)"

text \<open>The lookup of the array of a page, made empty when there is none.\<close>

definition pending_at :: "gpointer \<Rightarrow> (gpointer \<times> GumUpdateTask list) list \<Rightarrow> (gpointer \<times> GumUpdateTask list) list" where
  "pending_at page table = (if map_of table page = None then hash_insert page [] table else table)"

definition append_task :: "gpointer \<Rightarrow> GumUpdateTask \<Rightarrow> (gpointer \<times> GumUpdateTask list) list \<Rightarrow> (gpointer \<times> GumUpdateTask list) list" where
  "append_task page t table = map (\<lambda>(k, ts). if k = page then (k, ts @ [t]) else (k, ts)) table"

definition gum_interceptor_transaction_schedule_update ::
    "environment \<Rightarrow> gpointer \<Rightarrow> GumFunctionContext \<Rightarrow> GumUpdateTaskFunc \<Rightarrow> GumInterceptor \<Rightarrow> GumInterceptor" where
  "gum_interceptor_transaction_schedule_update en p ctx func =
     (let function_address = gum_interceptor_backend_get_function_address ctx;
          start_page = gum_page_address_from_pointer en function_address;
          end_page = gum_page_address_from_pointer en (function_address + ucast (fc_overwritten_prologue_len ctx) - 1);
          update = \<lparr>ut_ctx = p, ut_func = func\<rparr>
      in update_transaction (\<lambda>tx.
           let table = append_task start_page update (pending_at start_page (tx_pending_update_tasks tx));
               table = (if end_page \<noteq> start_page then pending_at end_page table else table)
           in tx\<lparr>tx_pending_update_tasks := table\<rparr>))"

section \<open>Function contexts\<close>

text \<open>\<^verbatim>\<open>g_slice_new0\<close>: the context is zero but for three members; its counters are zero bytes of memory.\<close>

definition gum_function_context_new :: "gpointer \<Rightarrow> gpointer \<Rightarrow> GumInterceptorType \<Rightarrow> GumFunctionContext" where
  "gum_function_context_new address function_address type =
     \<lparr>fc_address = address, fc_function_address = function_address, fc_grafted_hook = 0, fc_import_target = 0,
      fc_type = type, fc_destroyed = False, fc_activated = False, fc_has_on_leave_listener = False,
      fc_trampoline_slice = None, fc_trampoline_usage_counter = 0, fc_on_enter_trampoline = 0,
      fc_overwritten_prologue = replicate 32 0, fc_overwritten_prologue_len = 0, fc_on_invoke_trampoline = 0,
      fc_on_leave_trampoline = 0, fc_listener_entries = [], fc_replacement_function = 0, fc_replacement_data = 0,
      fc_redirect_code_size = 0\<rparr>"

definition clear_counters :: "gpointer \<Rightarrow> GumInterceptorBackend \<Rightarrow> GumInterceptorBackend" where
  "clear_counters address be =
     be\<lparr>be_writer := (be_writer be)\<lparr>w_mem := write_bytes (w_mem (be_writer be)) address (replicate 64 0)\<rparr>\<rparr>"

definition gum_function_context_finalize :: "gpointer \<Rightarrow> GumInterceptor \<Rightarrow> GumInterceptor option" where
  "gum_function_context_finalize p self =
     (case ctx_at self p of
        None \<Rightarrow> None
      | Some ctx \<Rightarrow> if fc_trampoline_slice ctx = None then Some (set_ctx p None self) else None)"

definition gum_function_context_destroy :: "environment \<Rightarrow> gpointer \<Rightarrow> GumInterceptor \<Rightarrow> GumInterceptor option" where
  "gum_function_context_destroy en p self =
     (case ctx_at self p of
        None \<Rightarrow> None
      | Some ctx \<Rightarrow>
          (if fc_destroyed ctx then None
           else
             let self = set_ctx p (Some (ctx\<lparr>fc_destroyed := True\<rparr>)) self;
                 self = (if fc_activated ctx
                         then gum_interceptor_transaction_schedule_update en p ctx GUM_INTERCEPTOR_DEACTIVATE self
                         else self)
             in Some (gum_interceptor_transaction_schedule_destroy p (PERFORM_DESTROY p) self)))"

definition gum_function_context_perform_destroy :: "environment \<Rightarrow> gpointer \<Rightarrow> GumInterceptor \<Rightarrow> GumInterceptor option" where
  "gum_function_context_perform_destroy en p self =
     (case ctx_at self p of
        None \<Rightarrow> None
      | Some ctx \<Rightarrow>
          (let (be, ctx) = gum_interceptor_backend_destroy_trampoline (en_os en) (ip_backend self) ctx
           in gum_function_context_finalize p (set_ctx p (Some ctx) (self\<lparr>ip_backend := be\<rparr>))))"

text \<open>The two searches return the index of the slot.\<close>

fun find_listener :: "gpointer \<Rightarrow> ListenerEntry option list \<Rightarrow> nat \<Rightarrow> nat option" where
  "find_listener listener [] i = None"
| "find_listener listener (sl # rest) i =
     (if (case sl of None \<Rightarrow> False | Some e \<Rightarrow> en_listener e = listener) then Some i
      else find_listener listener rest (Suc i))"

definition gum_function_context_find_listener :: "GumFunctionContext \<Rightarrow> gpointer \<Rightarrow> nat option" where
  "gum_function_context_find_listener ctx listener = find_listener listener (fc_listener_entries ctx) 0"

definition gum_function_context_has_listener :: "GumFunctionContext \<Rightarrow> gpointer \<Rightarrow> bool" where
  "gum_function_context_has_listener ctx listener \<longleftrightarrow> gum_function_context_find_listener ctx listener \<noteq> None"

fun find_taken_slot :: "ListenerEntry option list \<Rightarrow> nat \<Rightarrow> nat option" where
  "find_taken_slot [] i = None"
| "find_taken_slot (sl # rest) i = (if sl \<noteq> None then Some i else find_taken_slot rest (Suc i))"

definition gum_function_context_find_taken_listener_slot :: "GumFunctionContext \<Rightarrow> nat option" where
  "gum_function_context_find_taken_listener_slot ctx = find_taken_slot (fc_listener_entries ctx) 0"

definition gum_function_context_is_empty :: "GumFunctionContext \<Rightarrow> bool" where
  "gum_function_context_is_empty ctx \<longleftrightarrow>
     (if fc_replacement_function ctx \<noteq> 0 then False else gum_function_context_find_taken_listener_slot ctx = None)"

text \<open>A new array is made, without the empty slots; the old one is released by a task.\<close>

definition gum_function_context_add_listener ::
    "environment \<Rightarrow> gpointer \<Rightarrow> gpointer \<Rightarrow> gpointer \<Rightarrow> GumInterceptor \<Rightarrow> GumInterceptor option" where
  "gum_function_context_add_listener en p listener function_data self =
     (case ctx_at self p of
        None \<Rightarrow> None
      | Some ctx \<Rightarrow>
          (let entry = \<lparr>en_listener = listener, en_function_data = function_data\<rparr>;
               old_entries = fc_listener_entries ctx;
               new_entries = filter (\<lambda>e. e \<noteq> None) old_entries @ [Some entry];
               ctx = ctx\<lparr>fc_listener_entries := new_entries\<rparr>;
               ctx = (if if_on_leave (en_ifaces en listener) \<noteq> None then ctx\<lparr>fc_has_on_leave_listener := True\<rparr> else ctx)
           in Some (gum_interceptor_transaction_schedule_destroy p (UNREF_ENTRIES old_entries) (set_ctx p (Some ctx) self))))"

definition gum_function_context_remove_listener ::
    "environment \<Rightarrow> gpointer \<Rightarrow> gpointer \<Rightarrow> GumInterceptor \<Rightarrow> GumInterceptor option" where
  "gum_function_context_remove_listener en p listener self =
     (case ctx_at self p of
        None \<Rightarrow> None
      | Some ctx \<Rightarrow>
          (case gum_function_context_find_listener ctx listener of
             None \<Rightarrow> None
           | Some i \<Rightarrow>
               (let entries = (fc_listener_entries ctx)[i := None];
                    has_on_leave_listener =
                      list_ex (\<lambda>e. case e of None \<Rightarrow> False | Some e \<Rightarrow> if_on_leave (en_ifaces en (en_listener e)) \<noteq> None) entries
                in Some (set_ctx p (Some (ctx\<lparr>fc_listener_entries := entries,
                                              fc_has_on_leave_listener := has_on_leave_listener\<rparr>)) self))))"

section \<open>Patching\<close>

definition gum_interceptor_activate :: "gpointer \<Rightarrow> gpointer \<Rightarrow> GumInterceptor \<Rightarrow> GumInterceptor option" where
  "gum_interceptor_activate p prologue self =
     (case ctx_at self p of
        None \<Rightarrow> None
      | Some ctx \<Rightarrow>
          (if fc_destroyed ctx then Some self
           else if fc_activated ctx then None
           else
             let ctx = ctx\<lparr>fc_activated := True\<rparr>
             in case gum_interceptor_backend_activate_trampoline (ip_backend self) ctx prologue of
                  None \<Rightarrow> None
                | Some be \<Rightarrow> Some (log_effect (PATCH p GUM_INTERCEPTOR_ACTIVATE) (set_ctx p (Some ctx) (self\<lparr>ip_backend := be\<rparr>)))))"

definition gum_interceptor_deactivate :: "gpointer \<Rightarrow> gpointer \<Rightarrow> GumInterceptor \<Rightarrow> GumInterceptor option" where
  "gum_interceptor_deactivate p prologue self =
     (case ctx_at self p of
        None \<Rightarrow> None
      | Some ctx \<Rightarrow>
          (if \<not> fc_activated ctx then None
           else
             let ctx = ctx\<lparr>fc_activated := False\<rparr>;
                 be = gum_interceptor_backend_deactivate_trampoline (ip_backend self) ctx prologue
             in Some (log_effect (PATCH p GUM_INTERCEPTOR_DEACTIVATE) (set_ctx p (Some ctx) (self\<lparr>ip_backend := be\<rparr>)))))"

text \<open>The call \<^verbatim>\<open>update->func (interceptor, update->ctx, ...)\<close> on the function itself.\<close>

definition run_update :: "GumUpdateTask \<Rightarrow> GumInterceptor \<Rightarrow> GumInterceptor option" where
  "run_update update self =
     (case ctx_at self (ut_ctx update) of
        None \<Rightarrow> None
      | Some ctx \<Rightarrow>
          (let prologue = gum_interceptor_backend_get_function_address ctx
           in case ut_func update of
                GUM_INTERCEPTOR_ACTIVATE \<Rightarrow> gum_interceptor_activate (ut_ctx update) prologue self
              | GUM_INTERCEPTOR_DEACTIVATE \<Rightarrow> gum_interceptor_deactivate (ut_ctx update) prologue self))"

fun run_all :: "('a \<Rightarrow> 's \<Rightarrow> 's option) \<Rightarrow> 'a list \<Rightarrow> 's \<Rightarrow> 's option" where
  "run_all f [] s = Some s"
| "run_all f (x # xs) s = Option.bind (f x s) (run_all f xs)"

text \<open>The loop over the pages, in the order of the sorted list, and over the tasks of each.\<close>

definition run_page_updates ::
    "(gpointer \<times> GumUpdateTask list) list \<Rightarrow> gpointer \<Rightarrow> GumInterceptor \<Rightarrow> GumInterceptor option" where
  "run_page_updates table target_page self =
     (case map_of table target_page of None \<Rightarrow> None | Some pending \<Rightarrow> run_all run_update pending self)"

definition protect_page :: "environment \<Rightarrow> GumPageProtection \<Rightarrow> gpointer \<Rightarrow> GumInterceptor \<Rightarrow> GumInterceptor option" where
  "protect_page en prot target_page self =
     (if en_mprotect en target_page then Some (log_effect (PROTECT target_page prot) self) else None)"

text \<open>\<^verbatim>\<open>gum_process_enumerate_threads\<close> with \<^verbatim>\<open>gum_maybe_suspend_thread\<close>; the result is the queue.\<close>

definition suspended_threads :: "environment \<Rightarrow> GumThreadId list" where
  "suspended_threads en = filter (\<lambda>t. t \<noteq> en_thread en \<and> en_suspend en t) (en_threads en)"

definition log_effects :: "effect list \<Rightarrow> GumInterceptor \<Rightarrow> GumInterceptor" where
  "log_effects es self = self\<lparr>ip_effects := ip_effects self @ es\<rparr>"

definition patch_pages ::
    "environment \<Rightarrow> gpointer list \<Rightarrow> (gpointer \<times> GumUpdateTask list) list \<Rightarrow> GumInterceptor \<Rightarrow> GumInterceptor option" where
  "patch_pages en addresses table self =
     (let rwx_supported = os_rwx_supported (en_os en);
          protection = (if rwx_supported then GUM_PAGE_RWX else GUM_PAGE_RW);
          suspended = (if rwx_supported then [] else suspended_threads en);
          self = log_effects (map SUSPEND suspended) self
      in case run_all (protect_page en protection) addresses self of
           None \<Rightarrow> None
         | Some self \<Rightarrow>
             (case run_all (run_page_updates table) addresses self of
                None \<Rightarrow> None
              | Some self \<Rightarrow>
                  (case (if rwx_supported then Some self else run_all (protect_page en GUM_PAGE_RX) addresses self) of
                     None \<Rightarrow> None
                   | Some self \<Rightarrow>
                       Some (log_effects (map CLEAR_CACHE addresses @ map RESUME (rev suspended)) self))))"

section \<open>The end of a transaction\<close>

definition run_notify :: "environment \<Rightarrow> destroy_notify \<Rightarrow> GumInterceptor \<Rightarrow> GumInterceptor option" where
  "run_notify en notify self =
     (let self = log_effect (NOTIFY notify) self
      in case notify of
           PERFORM_DESTROY p \<Rightarrow> gum_function_context_perform_destroy en p self
         | _ \<Rightarrow> Some self)"

text \<open>
  The loop over the destroy tasks. The lock is not held by threads that call intercepted functions, so
  before each task their counters may have moved: \<open>en_between\<close> says how.
\<close>

fun run_destroy_tasks :: "environment \<Rightarrow> nat \<Rightarrow> GumDestroyTask list \<Rightarrow> GumInterceptor \<Rightarrow> GumInterceptor option" where
  "run_destroy_tasks en k [] self = Some self"
| "run_destroy_tasks en k (task # tasks) self =
     (let self = self\<lparr>ip_runtime := en_between en k (ip_runtime self)\<rparr>
      in case ctx_at self (dt_ctx task) of
           None \<Rightarrow> None
         | Some ctx \<Rightarrow>
             (if fc_trampoline_usage_counter ctx = 0
              then Option.bind (run_notify en (dt_notify task) self) (run_destroy_tasks en (Suc k) tasks)
              else run_destroy_tasks en (Suc k) tasks
                     (update_transaction (\<lambda>tx. tx\<lparr>tx_is_dirty := True,
                        tx_pending_destroy_tasks := tx_pending_destroy_tasks tx @ [task]\<rparr>) self)))"

definition gum_interceptor_transaction_destroy :: "environment \<Rightarrow> GumInterceptor \<Rightarrow> GumInterceptor option" where
  "gum_interceptor_transaction_destroy en self =
     (let tasks = tx_pending_destroy_tasks (ip_current_transaction self);
          self = update_transaction (\<lambda>tx. tx\<lparr>tx_pending_update_tasks := [], tx_pending_destroy_tasks := []\<rparr>) self
      in run_all (run_notify en) (map dt_notify tasks) self)"

text \<open>\<^verbatim>\<open>gint gum_page_address_compare\<close>: the difference of two addresses, cut to 32 bits.\<close>

definition gum_page_address_compare :: "gpointer \<Rightarrow> gpointer \<Rightarrow> guint32" where
  "gum_page_address_compare a b = ucast (a - b)"

definition commit_code :: "environment \<Rightarrow> GumInterceptor \<Rightarrow> GumInterceptor" where
  "commit_code en self =
     self\<lparr>ip_backend := (ip_backend self)\<lparr>be_allocator := gum_code_allocator_commit (en_os en) (be_allocator (ip_backend self))\<rparr>,
       ip_effects := ip_effects self @ [COMMIT (commit_calls (be_allocator (ip_backend self)))]\<rparr>"

text \<open>
  Without code segments the branch that remaps copies of the pages is never taken.
\<close>

definition run_updates ::
    "environment \<Rightarrow> (gpointer \<times> GumUpdateTask list) list \<Rightarrow> GumInterceptor \<Rightarrow> GumInterceptor option" where
  "run_updates en table self =
     (let addresses = en_sort en gum_page_address_compare (en_hash_order en (map fst table))
      in if en_signing_required en then run_all (run_page_updates table) addresses self
         else if os_rwx_supported (en_os en) \<or> \<not> gum_code_segment_is_supported then patch_pages en addresses table self
         else None)"

definition gum_interceptor_transaction_end :: "environment \<Rightarrow> GumInterceptor \<Rightarrow> GumInterceptor option" where
  "gum_interceptor_transaction_end en self =
     (let self = update_transaction (\<lambda>tx. tx\<lparr>tx_level := tx_level tx - 1\<rparr>) self;
          tx = ip_current_transaction self
      in if 0 <s tx_level tx then Some self
         else if \<not> tx_is_dirty tx then Some self
         else
           let self = commit_code en (ignore_current_thread en self)
           in if tx_pending_destroy_tasks tx = [] \<and> tx_pending_update_tasks tx = []
              then Some (unignore_current_thread en (update_transaction (\<lambda>tx. tx\<lparr>tx_is_dirty := False\<rparr>) self))
              else
                let self = self\<lparr>ip_current_transaction := gum_interceptor_transaction_init\<rparr>
                in map_option (unignore_current_thread en)
                     (Option.bind (run_updates en (tx_pending_update_tasks tx) self)
                        (run_destroy_tasks en 0 (tx_pending_destroy_tasks tx))))"

section \<open>Operations of the interceptor\<close>

definition gum_interceptor_init :: "environment \<Rightarrow> runtime \<Rightarrow> GumInterceptorBackend \<Rightarrow> GumInterceptor" where
  "gum_interceptor_init en rt storage =
     \<lparr>ip_runtime = rt, ip_function_by_address = [], ip_has_backend = False,
      ip_backend = storage\<lparr>be_allocator := gum_code_allocator_init (en_os en) GUM_INTERCEPTOR_CODE_SLICE_SIZE\<rparr>,
      ip_current_transaction = gum_interceptor_transaction_init, ip_effects = []\<rparr>"

definition gum_interceptor_has :: "GumInterceptor \<Rightarrow> gpointer \<Rightarrow> bool" where
  "gum_interceptor_has self function_address \<longleftrightarrow> map_of (ip_function_by_address self) function_address \<noteq> None"

text \<open>\<open>None\<close> is a recursion that does not end.\<close>

partial_function (option) gum_interceptor_resolve :: "environment \<Rightarrow> GumInterceptor \<Rightarrow> gpointer \<Rightarrow> gpointer option" where
  "gum_interceptor_resolve en self address =
     (if gum_interceptor_has self address then Some address
      else if en_signing_required en then Some address
      else
        let target = gum_interceptor_backend_resolve_redirect (en_cs en) (ip_backend self) address
        in if target \<noteq> 0 then gum_interceptor_resolve en self target else Some address)"

declare gum_interceptor_resolve.simps [code]

definition ensure_backend :: "environment \<Rightarrow> GumInterceptor \<Rightarrow> GumInterceptor option" where
  "ensure_backend en self =
     (if ip_has_backend self then Some self
      else map_option (\<lambda>be. self\<lparr>ip_backend := be, ip_has_backend := True\<rparr>)
             (gum_interceptor_backend_create (en_ld en) (fst (en_storage en)) (snd (en_storage en))
                (ip_backend self) (be_allocator (ip_backend self))))"

definition gum_interceptor_instrument ::
    "environment \<Rightarrow> GumInterceptorType \<Rightarrow> gpointer \<Rightarrow> GumInterceptor
     \<Rightarrow> ((GumInstrumentationError + gpointer) \<times> GumInterceptor) option" where
  "gum_interceptor_instrument en type function_address self =
     (case map_of (ip_function_by_address self) function_address of
        Some p \<Rightarrow>
          (case ctx_at self p of
             None \<Rightarrow> None
           | Some ctx \<Rightarrow>
               Some (if fc_type ctx \<noteq> type then Inl GUM_INSTRUMENTATION_ERROR_WRONG_TYPE else Inr p, self))
      | None \<Rightarrow>
          (case ensure_backend en self of
             None \<Rightarrow> None
           | Some self \<Rightarrow>
               (let p = en_new_ctx en;
                    ctx = gum_function_context_new p function_address type;
                    self = self\<lparr>ip_backend := clear_counters p (ip_backend self)\<rparr>
                in if en_signing_required en
                   then
                     (if \<not> gum_interceptor_backend_claim_grafted_trampoline (ip_backend self) ctx
                      then map_option (\<lambda>self. (Inl GUM_INSTRUMENTATION_ERROR_POLICY_VIOLATION, self))
                             (gum_function_context_finalize p (set_ctx p (Some ctx) self))
                      else
                        let self = self\<lparr>ip_function_by_address := hash_insert function_address p (ip_function_by_address self)\<rparr>;
                            self = set_ctx p (Some ctx) self
                        in Some (Inr p, gum_interceptor_transaction_schedule_update en p ctx GUM_INTERCEPTOR_ACTIVATE self))
                   else
                     (case gum_interceptor_backend_create_trampoline (en_cs en) (en_ld en) (en_lo en)
                             (fst (en_slices en)) (snd (en_slices en)) (ip_backend self) ctx of
                        None \<Rightarrow> None
                      | Some (ok, be, ctx) \<Rightarrow>
                          (let self = set_ctx p (Some ctx) (self\<lparr>ip_backend := be\<rparr>)
                           in if \<not> ok
                              then map_option (\<lambda>self. (Inl GUM_INSTRUMENTATION_ERROR_WRONG_SIGNATURE, self))
                                     (gum_function_context_finalize p self)
                              else
                                let self = self\<lparr>ip_function_by_address :=
                                             hash_insert function_address p (ip_function_by_address self)\<rparr>
                                in Some (Inr p,
                                     gum_interceptor_transaction_schedule_update en p ctx GUM_INTERCEPTOR_ACTIVATE self))))))"

fun attach_error :: "GumInstrumentationError \<Rightarrow> GumAttachReturn" where
  "attach_error GUM_INSTRUMENTATION_ERROR_WRONG_SIGNATURE = GUM_ATTACH_WRONG_SIGNATURE"
| "attach_error GUM_INSTRUMENTATION_ERROR_POLICY_VIOLATION = GUM_ATTACH_POLICY_VIOLATION"
| "attach_error GUM_INSTRUMENTATION_ERROR_WRONG_TYPE = GUM_ATTACH_WRONG_TYPE"

fun replace_error :: "GumInstrumentationError \<Rightarrow> GumReplaceReturn" where
  "replace_error GUM_INSTRUMENTATION_ERROR_WRONG_SIGNATURE = GUM_REPLACE_WRONG_SIGNATURE"
| "replace_error GUM_INSTRUMENTATION_ERROR_POLICY_VIOLATION = GUM_REPLACE_POLICY_VIOLATION"
| "replace_error GUM_INSTRUMENTATION_ERROR_WRONG_TYPE = GUM_REPLACE_WRONG_TYPE"

text \<open>
  Every operation opens a transaction, marks it dirty, does its work, and ends the transaction on every path.
\<close>

definition open_transaction :: "GumInterceptor \<Rightarrow> GumInterceptor" where
  "open_transaction self = mark_dirty (gum_interceptor_transaction_begin self)"

definition attach_body ::
    "environment \<Rightarrow> gpointer \<Rightarrow> gpointer \<Rightarrow> gpointer \<Rightarrow> GumInterceptor \<Rightarrow> (GumAttachReturn \<times> GumInterceptor) option" where
  "attach_body en function_address listener listener_function_data self =
     (case gum_interceptor_resolve en self function_address of
        None \<Rightarrow> None
      | Some function_address \<Rightarrow>
          (case gum_interceptor_instrument en GUM_INTERCEPTOR_TYPE_DEFAULT function_address self of
             None \<Rightarrow> None
           | Some (Inl error, self) \<Rightarrow> Some (attach_error error, self)
           | Some (Inr p, self) \<Rightarrow>
               (case ctx_at self p of
                  None \<Rightarrow> None
                | Some function_ctx \<Rightarrow>
                    (if gum_function_context_has_listener function_ctx listener
                     then Some (GUM_ATTACH_ALREADY_ATTACHED, self)
                     else map_option (\<lambda>self. (GUM_ATTACH_OK, self))
                            (gum_function_context_add_listener en p listener listener_function_data self)))))"

definition gum_interceptor_attach ::
    "environment \<Rightarrow> GumInterceptor \<Rightarrow> gpointer \<Rightarrow> gpointer \<Rightarrow> gpointer \<Rightarrow> (GumAttachReturn \<times> GumInterceptor) option" where
  "gum_interceptor_attach en self function_address listener listener_function_data =
     (case attach_body en function_address listener listener_function_data
             (open_transaction (ignore_current_thread en self)) of
        None \<Rightarrow> None
      | Some (result, self) \<Rightarrow>
          map_option (\<lambda>self. (result, unignore_current_thread en self)) (gum_interceptor_transaction_end en self))"

text \<open>One step of the loop of \<^verbatim>\<open>gum_interceptor_detach\<close> over the table of functions.\<close>

definition detach_one :: "environment \<Rightarrow> gpointer \<Rightarrow> gpointer \<Rightarrow> GumInterceptor \<Rightarrow> GumInterceptor option" where
  "detach_one en listener function_address self =
     (case map_of (ip_function_by_address self) function_address of
        None \<Rightarrow> None
      | Some p \<Rightarrow>
          (case ctx_at self p of
             None \<Rightarrow> None
           | Some function_ctx \<Rightarrow>
               (if \<not> gum_function_context_has_listener function_ctx listener then Some self
                else
                  case gum_function_context_remove_listener en p listener self of
                    None \<Rightarrow> None
                  | Some self \<Rightarrow>
                      (let self = gum_interceptor_transaction_schedule_destroy p (UNREF_LISTENER listener) self
                       in case ctx_at self p of
                            None \<Rightarrow> None
                          | Some function_ctx \<Rightarrow>
                              (if gum_function_context_is_empty function_ctx
                               then gum_function_context_destroy en p
                                      (self\<lparr>ip_function_by_address := hash_remove function_address (ip_function_by_address self)\<rparr>)
                               else Some self)))))"

definition forget_everywhere :: "gpointer \<Rightarrow> runtime \<Rightarrow> runtime" where
  "forget_everywhere listener rt =
     rt\<lparr>rt_threads := \<lambda>t.
          if t \<in> set (rt_thread_contexts rt)
          then (rt_threads rt t)\<lparr>th_context :=
                 map_option (\<lambda>tc. interceptor_thread_context_forget_listener_data tc listener) (th_context (rt_threads rt t))\<rparr>
          else rt_threads rt t\<rparr>"

definition detach_body :: "environment \<Rightarrow> gpointer \<Rightarrow> GumInterceptor \<Rightarrow> GumInterceptor option" where
  "detach_body en listener self =
     map_option (\<lambda>self. self\<lparr>ip_runtime := forget_everywhere listener (ip_runtime self)\<rparr>)
       (run_all (detach_one en listener) (en_hash_order en (map fst (ip_function_by_address self))) self)"

definition gum_interceptor_detach :: "environment \<Rightarrow> GumInterceptor \<Rightarrow> gpointer \<Rightarrow> GumInterceptor option" where
  "gum_interceptor_detach en self listener =
     map_option (unignore_current_thread en)
       (Option.bind (detach_body en listener (open_transaction (ignore_current_thread en self)))
          (gum_interceptor_transaction_end en))"

text \<open>The result carries \<^verbatim>\<open>*original_function\<close> too.\<close>

definition replace_body ::
    "environment \<Rightarrow> GumInterceptorType \<Rightarrow> gpointer \<Rightarrow> gpointer \<Rightarrow> gpointer \<Rightarrow> GumInterceptor
     \<Rightarrow> ((GumReplaceReturn \<times> gpointer option) \<times> GumInterceptor) option" where
  "replace_body en type function_address replacement_function replacement_data self =
     (case gum_interceptor_resolve en self function_address of
        None \<Rightarrow> None
      | Some function_address \<Rightarrow>
          (case gum_interceptor_instrument en type function_address self of
             None \<Rightarrow> None
           | Some (Inl error, self) \<Rightarrow> Some ((replace_error error, None), self)
           | Some (Inr p, self) \<Rightarrow>
               (case ctx_at self p of
                  None \<Rightarrow> None
                | Some function_ctx \<Rightarrow>
                    (if fc_replacement_function function_ctx \<noteq> 0
                     then Some ((GUM_REPLACE_ALREADY_REPLACED, None), self)
                     else Some ((GUM_REPLACE_OK, Some (fc_on_invoke_trampoline function_ctx)),
                            set_ctx p (Some (function_ctx\<lparr>fc_replacement_data := replacement_data,
                                                          fc_replacement_function := replacement_function\<rparr>)) self)))))"

definition gum_interceptor_replace_with_type ::
    "environment \<Rightarrow> GumInterceptor \<Rightarrow> GumInterceptorType \<Rightarrow> gpointer \<Rightarrow> gpointer \<Rightarrow> gpointer
     \<Rightarrow> ((GumReplaceReturn \<times> gpointer option) \<times> GumInterceptor) option" where
  "gum_interceptor_replace_with_type en self type function_address replacement_function replacement_data =
     (case replace_body en type function_address replacement_function replacement_data (open_transaction self) of
        None \<Rightarrow> None
      | Some (result, self) \<Rightarrow> map_option (\<lambda>self. (result, self)) (gum_interceptor_transaction_end en self))"

definition gum_interceptor_replace ::
    "environment \<Rightarrow> GumInterceptor \<Rightarrow> gpointer \<Rightarrow> gpointer \<Rightarrow> gpointer
     \<Rightarrow> ((GumReplaceReturn \<times> gpointer option) \<times> GumInterceptor) option" where
  "gum_interceptor_replace en self function_address replacement_function replacement_data =
     gum_interceptor_replace_with_type en self GUM_INTERCEPTOR_TYPE_DEFAULT function_address replacement_function replacement_data"

definition gum_interceptor_replace_fast ::
    "environment \<Rightarrow> GumInterceptor \<Rightarrow> gpointer \<Rightarrow> gpointer
     \<Rightarrow> ((GumReplaceReturn \<times> gpointer option) \<times> GumInterceptor) option" where
  "gum_interceptor_replace_fast en self function_address replacement_function =
     gum_interceptor_replace_with_type en self GUM_INTERCEPTOR_TYPE_FAST function_address replacement_function 0"

definition revert_body :: "environment \<Rightarrow> gpointer \<Rightarrow> GumInterceptor \<Rightarrow> GumInterceptor option" where
  "revert_body en function_address self =
     (case gum_interceptor_resolve en self function_address of
        None \<Rightarrow> None
      | Some function_address \<Rightarrow>
          (case map_of (ip_function_by_address self) function_address of
             None \<Rightarrow> Some self
           | Some p \<Rightarrow>
               (case ctx_at self p of
                  None \<Rightarrow> None
                | Some function_ctx \<Rightarrow>
                    (let function_ctx = function_ctx\<lparr>fc_replacement_function := 0, fc_replacement_data := 0\<rparr>;
                         self = set_ctx p (Some function_ctx) self
                     in if gum_function_context_is_empty function_ctx
                        then gum_function_context_destroy en p
                               (self\<lparr>ip_function_by_address := hash_remove function_address (ip_function_by_address self)\<rparr>)
                        else Some self))))"

definition gum_interceptor_revert :: "environment \<Rightarrow> GumInterceptor \<Rightarrow> gpointer \<Rightarrow> GumInterceptor option" where
  "gum_interceptor_revert en self function_address =
     Option.bind (revert_body en function_address (open_transaction self)) (gum_interceptor_transaction_end en)"

definition gum_interceptor_begin_transaction :: "GumInterceptor \<Rightarrow> GumInterceptor" where
  "gum_interceptor_begin_transaction self = gum_interceptor_transaction_begin self"

definition gum_interceptor_end_transaction :: "environment \<Rightarrow> GumInterceptor \<Rightarrow> GumInterceptor option" where
  "gum_interceptor_end_transaction en self = gum_interceptor_transaction_end en self"

definition gum_interceptor_flush :: "environment \<Rightarrow> GumInterceptor \<Rightarrow> (bool \<times> GumInterceptor) option" where
  "gum_interceptor_flush en self =
     (if tx_level (ip_current_transaction self) = 0
      then map_option (\<lambda>self. (tx_pending_destroy_tasks (ip_current_transaction self) = [], self))
             (gum_interceptor_transaction_end en (gum_interceptor_transaction_begin self))
      else Some (False, self))"

text \<open>\<^verbatim>\<open>g_hash_table_remove_all\<close> destroys the contexts in the order of the table.\<close>

definition dispose_one :: "environment \<Rightarrow> gpointer \<Rightarrow> GumInterceptor \<Rightarrow> GumInterceptor option" where
  "dispose_one en function_address self =
     (case map_of (ip_function_by_address self) function_address of
        None \<Rightarrow> None
      | Some p \<Rightarrow>
          gum_function_context_destroy en p
            (self\<lparr>ip_function_by_address := hash_remove function_address (ip_function_by_address self)\<rparr>))"

definition dispose_body :: "environment \<Rightarrow> GumInterceptor \<Rightarrow> GumInterceptor option" where
  "dispose_body en self =
     run_all (dispose_one en) (en_hash_order en (map fst (ip_function_by_address self))) self"

definition gum_interceptor_do_dispose :: "environment \<Rightarrow> GumInterceptor \<Rightarrow> GumInterceptor option" where
  "gum_interceptor_do_dispose en self =
     Option.bind (dispose_body en (open_transaction self)) (gum_interceptor_transaction_end en)"

definition gum_interceptor_do_finalize :: "environment \<Rightarrow> GumInterceptor \<Rightarrow> GumInterceptor option" where
  "gum_interceptor_do_finalize en self =
     (case gum_interceptor_transaction_destroy en self of
        None \<Rightarrow> None
      | Some self \<Rightarrow>
          (let be = (if ip_has_backend self then gum_interceptor_backend_destroy (en_os en) (ip_backend self) else ip_backend self);
               be = be\<lparr>be_allocator := gum_code_allocator_free (be_allocator be)\<rparr>
           in Some (self\<lparr>ip_backend := be, ip_has_backend := False, ip_function_by_address := []\<rparr>)))"

end
