(* ===== verification/Gum_Interceptor_Correct.thy ===== *)
theory Gum_Interceptor_Correct
  imports Gum_Interceptor "HOL-Library.Multiset"
begin

text \<open>
  The invariant of the interceptor's administrative state, and that every operation keeps it: which
  contexts exist, which are registered, which are waiting to be patched, restored or freed.
\<close>

section \<open>Observations\<close>

definition tasks :: "GumInterceptor \<Rightarrow> GumDestroyTask list" where
  "tasks self = tx_pending_destroy_tasks (ip_current_transaction self)"

definition updates :: "GumInterceptor \<Rightarrow> GumUpdateTask list" where
  "updates self = concat (map snd (tx_pending_update_tasks (ip_current_transaction self)))"

definition pages :: "GumInterceptor \<Rightarrow> gpointer list" where
  "pages self = map fst (tx_pending_update_tasks (ip_current_transaction self))"

abbreviation table_of :: "GumInterceptor \<Rightarrow> (gpointer \<times> gpointer) list" where
  "table_of self \<equiv> ip_function_by_address self"

abbreviation act :: "gpointer \<Rightarrow> GumUpdateTask" where
  "act p \<equiv> \<lparr>ut_ctx = p, ut_func = GUM_INTERCEPTOR_ACTIVATE\<rparr>"

abbreviation deact :: "gpointer \<Rightarrow> GumUpdateTask" where
  "deact p \<equiv> \<lparr>ut_ctx = p, ut_func = GUM_INTERCEPTOR_DEACTIVATE\<rparr>"

abbreviation perform :: "gpointer \<Rightarrow> GumDestroyTask" where
  "perform p \<equiv> \<lparr>dt_ctx = p, dt_notify = PERFORM_DESTROY p\<rparr>"

named_theorems observe \<open>what the small steps do to the observations\<close>

lemma observe_steps [observe]:
  "ctx_at (set_ctx p c self) = (ctx_at self)(p := c)"
  "tasks (set_ctx p c self) = tasks self" "updates (set_ctx p c self) = updates self" "pages (set_ctx p c self) = pages self"
  "table_of (set_ctx p c self) = table_of self"
  "ctx_at (log_effect e self) = ctx_at self" "tasks (log_effect e self) = tasks self"
  "updates (log_effect e self) = updates self" "pages (log_effect e self) = pages self" "table_of (log_effect e self) = table_of self"
  "ctx_at (log_effects es self) = ctx_at self" "tasks (log_effects es self) = tasks self"
  "updates (log_effects es self) = updates self" "pages (log_effects es self) = pages self" "table_of (log_effects es self) = table_of self"
  "ctx_at (self\<lparr>ip_backend := be\<rparr>) = ctx_at self" "tasks (self\<lparr>ip_backend := be\<rparr>) = tasks self"
  "updates (self\<lparr>ip_backend := be\<rparr>) = updates self" "pages (self\<lparr>ip_backend := be\<rparr>) = pages self"
  "ctx_at (self\<lparr>ip_function_by_address := fs\<rparr>) = ctx_at self" "tasks (self\<lparr>ip_function_by_address := fs\<rparr>) = tasks self"
  "updates (self\<lparr>ip_function_by_address := fs\<rparr>) = updates self" "pages (self\<lparr>ip_function_by_address := fs\<rparr>) = pages self"
  "ctx_at (self\<lparr>ip_has_backend := b\<rparr>) = ctx_at self" "tasks (self\<lparr>ip_has_backend := b\<rparr>) = tasks self"
  "updates (self\<lparr>ip_has_backend := b\<rparr>) = updates self" "pages (self\<lparr>ip_has_backend := b\<rparr>) = pages self"
  "ctx_at (update_transaction f self) = ctx_at self" "table_of (update_transaction f self) = table_of self"
  by (simp_all add: fun_eq_iff ctx_at_def set_ctx_def tasks_def updates_def pages_def log_effect_def log_effects_def update_transaction_def)

lemma observe_tasks [observe]:
  "tasks (gum_interceptor_transaction_schedule_destroy p n self) = tasks self @ [\<lparr>dt_ctx = p, dt_notify = n\<rparr>]"
  "updates (gum_interceptor_transaction_schedule_destroy p n self) = updates self"
  "pages (gum_interceptor_transaction_schedule_destroy p n self) = pages self"
  "ctx_at (gum_interceptor_transaction_schedule_destroy p n self) = ctx_at self"
  "table_of (gum_interceptor_transaction_schedule_destroy p n self) = table_of self"
  "tasks (gum_interceptor_transaction_schedule_update en p c f self) = tasks self"
  "ctx_at (gum_interceptor_transaction_schedule_update en p c f self) = ctx_at self"
  "table_of (gum_interceptor_transaction_schedule_update en p c f self) = table_of self"
  by (simp_all add: fun_eq_iff gum_interceptor_transaction_schedule_destroy_def gum_interceptor_transaction_schedule_update_def
      tasks_def updates_def pages_def update_transaction_def ctx_at_def Let_def)

lemma observe_opening [observe]:
  "ctx_at (open_transaction self) = ctx_at self" "tasks (open_transaction self) = tasks self"
  "updates (open_transaction self) = updates self" "pages (open_transaction self) = pages self"
  "table_of (open_transaction self) = table_of self"
  "ctx_at (ignore_current_thread en self) = ctx_at self" "tasks (ignore_current_thread en self) = tasks self"
  "updates (ignore_current_thread en self) = updates self" "pages (ignore_current_thread en self) = pages self"
  "table_of (ignore_current_thread en self) = table_of self"
  "ctx_at (unignore_current_thread en self) = ctx_at self" "tasks (unignore_current_thread en self) = tasks self"
  "updates (unignore_current_thread en self) = updates self" "pages (unignore_current_thread en self) = pages self"
  "table_of (unignore_current_thread en self) = table_of self"
  "ctx_at (commit_code en self) = ctx_at self" "tasks (commit_code en self) = tasks self"
  "updates (commit_code en self) = updates self" "pages (commit_code en self) = pages self" "table_of (commit_code en self) = table_of self"
  by (simp_all add: fun_eq_iff open_transaction_def mark_dirty_def gum_interceptor_transaction_begin_def update_transaction_def tasks_def
      updates_def pages_def ctx_at_def ignore_current_thread_def unignore_current_thread_def ignore_keeps commit_code_def)

text \<open>Scheduling an update adds one task, whatever page it goes to.\<close>

lemma append_task_Cons:
  "append_task page u [] = []"
  "append_task page u ((k, ts) # table) = (if k = page then (k, ts @ [u]) else (k, ts)) # append_task page u table"
  by (simp_all add: append_task_def)

lemma append_task_other: "page \<notin> fst ` set table \<Longrightarrow> append_task page u table = table"
  by (induction table) (auto simp: append_task_Cons)

lemma append_task_count:
  assumes "distinct (map fst table)" "page \<in> set (map fst table)"
  shows "mset (concat (map snd (append_task page u table))) = add_mset u (mset (concat (map snd table)))"
  using assms
proof (induction table)
  case (Cons e table)
  then show ?case by (cases e) (auto simp: append_task_Cons append_task_other)
qed simp

lemma append_task_keys: "map fst (append_task page u table) = map fst table"
  by (induction table) (auto simp: append_task_Cons)

lemma pending_at_simps:
  "distinct (map fst table) \<Longrightarrow> distinct (map fst (pending_at page table))"
  "page \<in> set (map fst (pending_at page table))"
  "set (map fst (pending_at page table)) = insert page (set (map fst table))"
  "concat (map snd (pending_at page table)) = concat (map snd table)"
proof -
  have fresh: "map_of table page = None \<Longrightarrow> filter (\<lambda>e. fst e \<noteq> page) table = table"
    by (auto simp: map_of_eq_None_iff filter_id_conv)
  show "distinct (map fst table) \<Longrightarrow> distinct (map fst (pending_at page table))"
    "concat (map snd (pending_at page table)) = concat (map snd table)"
    using fresh by (auto simp: pending_at_def hash_insert_def map_of_eq_None_iff)
  show "page \<in> set (map fst (pending_at page table))"
    "set (map fst (pending_at page table)) = insert page (set (map fst table))"
    using fresh by (auto simp: pending_at_def hash_insert_def) (metis map_of_eq_None_iff option.distinct(1) not_None_eq)+
qed

lemma schedule_update_adds:
  assumes "distinct (pages self)"
  shows "mset (updates (gum_interceptor_transaction_schedule_update en p c f self)) = add_mset \<lparr>ut_ctx = p, ut_func = f\<rparr> (mset (updates self))"
    and "distinct (pages (gum_interceptor_transaction_schedule_update en p c f self))"
proof -
  define table where "table = tx_pending_update_tasks (ip_current_transaction self)"
  define start where "start = gum_page_address_from_pointer en (gum_interceptor_backend_get_function_address c)"
  define stop where "stop = gum_page_address_from_pointer en
      (gum_interceptor_backend_get_function_address c + ucast (fc_overwritten_prologue_len c) - 1)"
  define table1 where "table1 = append_task start \<lparr>ut_ctx = p, ut_func = f\<rparr> (pending_at start table)"
  have d: "distinct (map fst (pending_at start table))"
    using assms pending_at_simps(1) by (simp add: pages_def table_def)
  have t1: "mset (concat (map snd table1)) = add_mset \<lparr>ut_ctx = p, ut_func = f\<rparr> (mset (concat (map snd table)))"
    "distinct (map fst table1)"
    using append_task_count [OF d pending_at_simps(2)] d
    by (simp_all add: table1_def pending_at_simps(4) append_task_keys)
  have "tx_pending_update_tasks (ip_current_transaction (gum_interceptor_transaction_schedule_update en p c f self)) =
      (if stop \<noteq> start then pending_at stop table1 else table1)"
    by (simp add: gum_interceptor_transaction_schedule_update_def update_transaction_def Let_def table1_def table_def start_def stop_def)
  then show "mset (updates (gum_interceptor_transaction_schedule_update en p c f self)) = add_mset \<lparr>ut_ctx = p, ut_func = f\<rparr> (mset (updates self))"
    "distinct (pages (gum_interceptor_transaction_schedule_update en p c f self))"
    using t1 pending_at_simps(1) by (simp_all add: updates_def pages_def pending_at_simps(4) table_def)
qed

section \<open>The invariant\<close>

text \<open>
  The updates due for a context, by its flags: one that is neither active nor destroyed waits to be
  activated, one that is active and destroyed waits to be deactivated, and a destroyed one that was never
  activated may have a request to activate it left over.
\<close>

definition due :: "GumFunctionContext option \<Rightarrow> nat \<Rightarrow> nat \<Rightarrow> bool" where
  "due c a d =
     (case c of
        None \<Rightarrow> a = 0 \<and> d = 0
      | Some c \<Rightarrow>
          (if fc_activated c then a = 0 \<and> d = (if fc_destroyed c then 1 else 0)
           else d = 0 \<and> (if fc_destroyed c then a \<le> 1 else a = 1)))"

text \<open>No task of a context follows the one that frees it.\<close>

fun freed_last :: "GumDestroyTask list \<Rightarrow> bool" where
  "freed_last [] = True"
| "freed_last (t # ts) =
     ((case dt_notify t of PERFORM_DESTROY p \<Rightarrow> \<forall>s \<in> set ts. dt_ctx s \<noteq> p | _ \<Rightarrow> True) \<and> freed_last ts)"

lemma freed_last_append:
  "freed_last (ts @ us) \<longleftrightarrow> freed_last ts \<and> freed_last us \<and> (\<forall>t \<in> set ts. \<forall>p. dt_notify t = PERFORM_DESTROY p \<longrightarrow> (\<forall>s \<in> set us. dt_ctx s \<noteq> p))"
  by (induction ts) (auto split: destroy_notify.splits)

definition tasks_wf :: "(gpointer \<Rightarrow> GumFunctionContext option) \<Rightarrow> GumDestroyTask list \<Rightarrow> bool" where
  "tasks_wf ctxs ts \<longleftrightarrow>
     freed_last ts \<and>
     (\<forall>t \<in> set ts. ctxs (dt_ctx t) \<noteq> None \<and> (\<forall>q. dt_notify t = PERFORM_DESTROY q \<longrightarrow> q = dt_ctx t)) \<and>
     (\<forall>p c. ctxs p = Some c \<longrightarrow> (fc_destroyed c \<longleftrightarrow> perform p \<in> set ts))"

definition table_wf :: "(gpointer \<Rightarrow> GumFunctionContext option) \<Rightarrow> (gpointer \<times> gpointer) list \<Rightarrow> bool" where
  "table_wf ctxs fs \<longleftrightarrow>
     distinct (map fst fs) \<and> distinct (map snd fs) \<and>
     (\<forall>a p. (a, p) \<in> set fs \<longrightarrow> (\<exists>c. ctxs p = Some c \<and> fc_function_address c = a \<and> \<not> fc_destroyed c)) \<and>
     (\<forall>p c. ctxs p = Some c \<longrightarrow> \<not> fc_destroyed c \<longrightarrow> (fc_function_address c, p) \<in> set fs)"

definition updates_wf :: "(gpointer \<Rightarrow> GumFunctionContext option) \<Rightarrow> GumUpdateTask multiset \<Rightarrow> bool" where
  "updates_wf ctxs us \<longleftrightarrow> (\<forall>p. due (ctxs p) (count us (act p)) (count us (deact p)))"

definition consistent :: "GumInterceptor \<Rightarrow> bool" where
  "consistent self \<longleftrightarrow>
     tasks_wf (ctx_at self) (tasks self) \<and> table_wf (ctx_at self) (table_of self) \<and>
     updates_wf (ctx_at self) (mset (updates self)) \<and> distinct (pages self)"

text \<open>A context is at rest when it is active exactly if it is registered.\<close>

definition settled :: "GumInterceptor \<Rightarrow> bool" where
  "settled self \<longleftrightarrow> (\<forall>p c. ctx_at self p = Some c \<longrightarrow> (fc_activated c \<longleftrightarrow> \<not> fc_destroyed c))"

lemma wf_observed:
  assumes "ctx_at self' = ctx_at self" "tasks self' = tasks self" "table_of self' = table_of self"
    "updates self' = updates self" "pages self' = pages self"
  shows "consistent self' = consistent self"
  using assms by (simp add: consistent_def)

lemma registered_ctx:
  assumes "consistent self" "map_of (table_of self) a = Some p"
  obtains c where "ctx_at self p = Some c" "fc_function_address c = a" "\<not> fc_destroyed c"
  using assms by (auto simp: consistent_def table_wf_def dest!: map_of_SomeD)

lemma tasks_wf_flags:
  assumes "tasks_wf ctxs ts" "ctxs p = Some c" "fc_destroyed c' = fc_destroyed c"
  shows "tasks_wf (ctxs(p \<mapsto> c')) ts"
  using assms by (auto simp: tasks_wf_def)

lemma table_wf_flags:
  assumes "table_wf ctxs fs" "ctxs p = Some c" "fc_destroyed c' = fc_destroyed c" "fc_function_address c' = fc_function_address c"
  shows "table_wf (ctxs(p \<mapsto> c')) fs"
  using assms by (fastforce simp: table_wf_def)

lemma updates_wf_flags:
  assumes "updates_wf ctxs us" "ctxs p = Some c" "fc_destroyed c' = fc_destroyed c" "fc_activated c' = fc_activated c"
  shows "updates_wf (ctxs(p \<mapsto> c')) us"
  unfolding updates_wf_def
proof
  fix q
  have "due (Some c') = due (Some c)" using assms(3,4) by (simp add: due_def fun_eq_iff)
  then show "due ((ctxs(p \<mapsto> c')) q) (count us (act q)) (count us (deact q))"
    using assms(1,2) by (metis fun_upd_apply updates_wf_def)
qed

text \<open>Changes to a context that keep its address and its flags.\<close>

lemma wf_set_ctx:
  assumes "consistent self" "ctx_at self p = Some c"
    and "fc_function_address c' = fc_function_address c" "fc_destroyed c' = fc_destroyed c" "fc_activated c' = fc_activated c"
  shows "consistent (set_ctx p (Some c') self)"
  using assms tasks_wf_flags [of "ctx_at self" _ p c c'] table_wf_flags [of "ctx_at self" _ p c c']
    updates_wf_flags [of "ctx_at self" _ p c c']
  by (simp add: consistent_def observe)

text \<open>A task for a context that is not to be freed.\<close>

lemma task_eq: "t = \<lparr>dt_ctx = dt_ctx t, dt_notify = dt_notify t\<rparr>"
  by (cases t) simp

lemma tasks_wf_snoc:
  assumes "tasks_wf ctxs ts" "ctxs p = Some c" "\<not> fc_destroyed c" "\<And>q. n \<noteq> PERFORM_DESTROY q"
  shows "tasks_wf ctxs (ts @ [\<lparr>dt_ctx = p, dt_notify = n\<rparr>])"
proof -
  have "dt_notify t = PERFORM_DESTROY p \<Longrightarrow> t \<notin> set ts" for t
    using assms(1-3) task_eq [of t] unfolding tasks_wf_def by metis
  then have "freed_last (ts @ [\<lparr>dt_ctx = p, dt_notify = n\<rparr>])"
    using assms(1,4) by (auto simp: freed_last_append tasks_wf_def split: destroy_notify.splits)
  then show ?thesis using assms by (auto simp: tasks_wf_def)
qed

lemma wf_schedule_destroy:
  assumes "consistent self" "ctx_at self p = Some c" "\<not> fc_destroyed c" "\<And>q. n \<noteq> PERFORM_DESTROY q"
  shows "consistent (gum_interceptor_transaction_schedule_destroy p n self)"
  using assms tasks_wf_snoc [of "ctx_at self" _ p c n] by (simp add: consistent_def observe)

text \<open>Unregistering and destroying a context.\<close>

lemma table_wf_remove:
  assumes "table_wf ctxs fs" "(a, p) \<in> set fs" "ctxs p = Some c" "fc_function_address c' = a" "fc_destroyed c'"
  shows "table_wf (ctxs(p \<mapsto> c')) (hash_remove a fs)"
proof -
  have other: "b = a" if "(b, p) \<in> set fs" for b
    using assms(1,2) that by (auto simp: table_wf_def dest: eq_key_imp_eq_value) (metis distinct_map inj_on_contraD old.prod.inject snd_conv)
  have p: "q = p" if "(a, q) \<in> set fs" for q
    using assms(1,2) that by (auto simp: table_wf_def dest: eq_key_imp_eq_value)
  have live: "\<exists>d. ctxs q = Some d \<and> fc_function_address d = b \<and> \<not> fc_destroyed d" if "(b, q) \<in> set fs" for b q
    using assms(1) that by (auto simp: table_wf_def)
  have reg: "(fc_function_address d, q) \<in> set fs" if "ctxs q = Some d" "\<not> fc_destroyed d" for q d
    using assms(1) that by (auto simp: table_wf_def)
  show ?thesis
    unfolding table_wf_def hash_remove_def
  proof (intro conjI allI impI)
    show "distinct (map fst (filter (\<lambda>e. fst e \<noteq> a) fs))" "distinct (map snd (filter (\<lambda>e. fst e \<noteq> a) fs))"
      using assms(1) by (simp_all add: table_wf_def distinct_map_filter)
  next
    fix b q assume "(b, q) \<in> set (filter (\<lambda>e. fst e \<noteq> a) fs)"
    then show "\<exists>d. (ctxs(p \<mapsto> c')) q = Some d \<and> fc_function_address d = b \<and> \<not> fc_destroyed d"
      using live [of b q] other [of b] by auto
  next
    fix q d assume "(ctxs(p \<mapsto> c')) q = Some d" "\<not> fc_destroyed d"
    then show "(fc_function_address d, q) \<in> set (filter (\<lambda>e. fst e \<noteq> a) fs)"
      using reg [of q d] p [of q] assms(5) by (auto split: if_splits)
  qed
qed

lemma destroy_context:
  assumes w: "consistent self" and a: "map_of (table_of self) a = Some p" and c: "ctx_at self p = Some c"
  obtains self' where
    "gum_function_context_destroy en p (self\<lparr>ip_function_by_address := hash_remove a (table_of self)\<rparr>) = Some self'" "consistent self'"
    "ctx_at self' = (ctx_at self)(p \<mapsto> c\<lparr>fc_destroyed := True\<rparr>)" "table_of self' = hash_remove a (table_of self)"
proof -
  let ?c = "c\<lparr>fc_destroyed := True\<rparr>"
  let ?s0 = "self\<lparr>ip_function_by_address := hash_remove a (table_of self)\<rparr>"
  let ?s1 = "set_ctx p (Some ?c) ?s0"
  let ?s2 = "if fc_activated c then gum_interceptor_transaction_schedule_update en p c GUM_INTERCEPTOR_DEACTIVATE ?s1 else ?s1"
  let ?s3 = "gum_interceptor_transaction_schedule_destroy p (PERFORM_DESTROY p) ?s2"
  have alive: "fc_function_address c = a" "\<not> fc_destroyed c" using registered_ctx [OF w a] c by auto
  have d: "distinct (pages ?s1)" using w by (simp add: consistent_def observe)
  have ctx: "ctx_at ?s3 = (ctx_at self)(p \<mapsto> ?c)" by (simp add: observe)
  have "tasks_wf (ctx_at ?s3) (tasks ?s3)"
  proof -
    have t: "tasks_wf (ctx_at self) (tasks self)" using w by (simp add: consistent_def)
    then have "perform p \<notin> set (tasks self)" using c alive by (auto simp: tasks_wf_def)
    then have "dt_notify t = PERFORM_DESTROY p \<Longrightarrow> t \<notin> set (tasks self)" for t
      using t task_eq [of t] unfolding tasks_wf_def by metis
    then have "freed_last (tasks self @ [perform p])" using t by (auto simp: freed_last_append tasks_wf_def)
    then show ?thesis using t c unfolding ctx by (auto simp: observe tasks_wf_def)
  qed
  moreover have "table_wf (ctx_at ?s3) (table_of ?s3)"
    unfolding ctx using w a c alive table_wf_remove [of "ctx_at self" "table_of self" a p c ?c]
    by (simp add: observe consistent_def map_of_SomeD)
  moreover have "updates_wf (ctx_at ?s3) (mset (updates ?s3))"
    unfolding ctx updates_wf_def
  proof
    fix q
    have u: "mset (updates ?s3) = (if fc_activated c then add_mset (deact p) (mset (updates self)) else mset (updates self))"
      using schedule_update_adds(1) [OF d] by (simp add: observe)
    have "due (ctx_at self q) (count (mset (updates self)) (act q)) (count (mset (updates self)) (deact q))"
      using w by (simp add: consistent_def updates_wf_def)
    then show "due (((ctx_at self)(p \<mapsto> ?c)) q) (count (mset (updates ?s3)) (act q)) (count (mset (updates ?s3)) (deact q))"
      unfolding u using c alive by (cases "q = p") (auto simp: due_def split: option.splits if_splits)
  qed
  moreover have "distinct (pages ?s3)" using schedule_update_adds(2) [OF d] d by (simp add: observe)
  ultimately have "consistent ?s3" by (simp add: consistent_def)
  moreover have "gum_function_context_destroy en p ?s0 = Some ?s3"
    using c alive by (simp add: gum_function_context_destroy_def observe)
  ultimately show thesis using that ctx by (simp add: observe)
qed

lemma find_listener_bounds:
  "find_listener l es k = Some i \<Longrightarrow> k \<le> i \<and> i - k < length es"
  by (induction es arbitrary: k) (fastforce split: if_splits)+

lemma remove_listener_returns:
  assumes "ctx_at self p = Some c" "gum_function_context_has_listener c l"
  obtains i b where "gum_function_context_find_listener c l = Some i" "i < length (fc_listener_entries c)"
    "gum_function_context_remove_listener en p l self =
       Some (set_ctx p (Some (c\<lparr>fc_listener_entries := (fc_listener_entries c)[i := None], fc_has_on_leave_listener := b\<rparr>)) self)"
proof -
  obtain i where i: "gum_function_context_find_listener c l = Some i"
    using assms(2) by (auto simp: gum_function_context_has_listener_def)
  then have "i < length (fc_listener_entries c)"
    using find_listener_bounds [of l "fc_listener_entries c" 0 i] by (simp add: gum_function_context_find_listener_def)
  from that [OF i this] show thesis using assms(1) i by (simp add: gum_function_context_remove_listener_def Let_def)
qed

section \<open>Instrumenting a function\<close>

text \<open>What creating a trampoline leaves of the context.\<close>

definition same_function :: "GumFunctionContext \<Rightarrow> GumFunctionContext \<Rightarrow> bool" where
  "same_function c c' \<longleftrightarrow>
     fc_address c' = fc_address c \<and> fc_function_address c' = fc_function_address c \<and> fc_type c' = fc_type c \<and>
     fc_destroyed c' = fc_destroyed c \<and> fc_activated c' = fc_activated c \<and>
     fc_has_on_leave_listener c' = fc_has_on_leave_listener c \<and>
     fc_trampoline_usage_counter c' = fc_trampoline_usage_counter c \<and>
     fc_listener_entries c' = fc_listener_entries c \<and> fc_replacement_function c' = fc_replacement_function c \<and>
     fc_replacement_data c' = fc_replacement_data c"

lemma same_function_refl [simp]: "same_function c c"
  by (simp add: same_function_def)

lemma same_function_trans: "same_function a b \<Longrightarrow> same_function b c \<Longrightarrow> same_function a c"
  by (simp add: same_function_def)

lemma prepare_same:
  assumes "gum_interceptor_backend_prepare_trampoline cs lo os1 os2 be c = Some (ok, be', c')"
  shows "same_function c c'" "\<not> ok \<Longrightarrow> fc_trampoline_slice c' = None"
  using assms
  by (auto simp: gum_interceptor_backend_prepare_trampoline_def same_function_def Let_def
      split: option.splits prod.splits if_splits)

lemma listener_trampolines_same: "same_function c (fst (put_listener_trampolines ld a b c cw))"
  by (simp add: put_listener_trampolines_def Let_def same_function_def split: prod.splits)

lemma finish_same:
  assumes "finish_trampoline sz n rl cw be c = Some (ok, be', c')"
  shows "same_function c c'" "ok"
  using assms by (auto simp: finish_trampoline_def same_function_def Let_def split: if_splits)

lemma create_same:
  assumes "gum_interceptor_backend_create_trampoline cs ld lo os1 os2 be c = Some (ok, be', c')"
  shows "same_function c c'" "\<not> ok \<Longrightarrow> fc_trampoline_slice c' = None"
proof -
  obtain ok1 be1 c1 where p: "gum_interceptor_backend_prepare_trampoline cs lo os1 os2 be c = Some (ok1, be1, c1)"
    using assms by (auto simp: gum_interceptor_backend_create_trampoline_def split: option.splits)
  note p' = prepare_same [OF p]
  have "same_function c c' \<and> (\<not> ok \<longrightarrow> fc_trampoline_slice c' = None)"
  proof (cases ok1)
    case False
    then show ?thesis using assms p p' by (simp add: gum_interceptor_backend_create_trampoline_def)
  next
    case True
    obtain ts et lt where sl: "Option.bind (fc_trampoline_slice c1) (slice_at (be_allocator be1)) = Some ts"
        "Option.bind (be_enter_thunk be1) (slice_at (be_allocator be1)) = Some et"
        "Option.bind (be_leave_thunk be1) (slice_at (be_allocator be1)) = Some lt"
      using assms True p by (auto simp: gum_interceptor_backend_create_trampoline_def split: option.splits)
    define cw where "cw = gum_x86_writer_reset (be_writer be1) (sl_data ts)"
    obtain c2 cw2 where put: "(if fc_type c1 \<noteq> GUM_INTERCEPTOR_TYPE_FAST
        then put_listener_trampolines ld (sl_data et) (sl_data lt) c1 cw else (c1, cw)) = (c2, cw2)" by fastforce
    have c2: "same_function c1 c2"
      using put listener_trampolines_same [of c1 ld "sl_data et" "sl_data lt" cw] by (auto split: if_splits)
    define c3 where "c3 = c2\<lparr>fc_on_invoke_trampoline := gum_x86_writer_cur cw2\<rparr>"
    have "\<exists>sz n rl cw'. finish_trampoline sz n rl cw' be1 c3 = Some (ok, be', c')"
      using assms unfolding gum_interceptor_backend_create_trampoline_def
      by (simp add: p True sl cw_def [symmetric] put c3_def [symmetric] split: option.splits prod.splits) blast
    moreover have "same_function c1 c3" using c2 by (simp add: c3_def same_function_def)
    ultimately have "\<exists>sz n rl cw' c3. same_function c1 c3 \<and> finish_trampoline sz n rl cw' be1 c3 = Some (ok, be', c')" by blast
    then show ?thesis using p'(1) finish_same by (meson same_function_trans)
  qed
  then show "same_function c c'" "\<not> ok \<Longrightarrow> fc_trampoline_slice c' = None" by blast+
qed

lemma insert_wf:
  assumes "tasks_wf ctxs ts" "table_wf ctxs fs" "updates_wf ctxs us"
    and "ctxs p = None" "map_of fs a = None" "fc_function_address c = a" "\<not> fc_destroyed c" "\<not> fc_activated c"
  shows "tasks_wf (ctxs(p \<mapsto> c)) ts" "table_wf (ctxs(p \<mapsto> c)) (hash_insert a p fs)" "updates_wf (ctxs(p \<mapsto> c)) (add_mset (act p) us)"
proof -
  have "perform p \<notin> set ts" using assms(1,4) unfolding tasks_wf_def by fastforce
  then show "tasks_wf (ctxs(p \<mapsto> c)) ts" using assms(1,4,7) by (auto simp: tasks_wf_def)
  have fresh: "filter (\<lambda>e. fst e \<noteq> a) fs = fs" using assms(5) by (auto simp: map_of_eq_None_iff filter_id_conv)
  have p: "p \<notin> snd ` set fs" using assms(2,4) by (fastforce simp: table_wf_def)
  have a: "a \<notin> fst ` set fs" using assms(5) by (simp add: map_of_eq_None_iff)
  show "table_wf (ctxs(p \<mapsto> c)) (hash_insert a p fs)"
    unfolding table_wf_def hash_insert_def fresh
  proof (intro conjI allI impI)
    show "distinct (map fst ((a, p) # fs))" "distinct (map snd ((a, p) # fs))" using assms(2) p a by (auto simp: table_wf_def)
  next
    fix b q assume q: "(b, q) \<in> set ((a, p) # fs)"
    show "\<exists>d. (ctxs(p \<mapsto> c)) q = Some d \<and> fc_function_address d = b \<and> \<not> fc_destroyed d"
    proof (cases "q = p")
      case True
      then show ?thesis using q p assms(6,7) by force
    next
      case False
      then show ?thesis using q assms(2) by (auto simp: table_wf_def)
    qed
  next
    fix q d assume "(ctxs(p \<mapsto> c)) q = Some d" "\<not> fc_destroyed d"
    then show "(fc_function_address d, q) \<in> set ((a, p) # fs)"
      using assms(2,6) by (auto simp: table_wf_def split: if_splits)
  qed
  show "updates_wf (ctxs(p \<mapsto> c)) (add_mset (act p) us)"
    unfolding updates_wf_def
  proof
    fix q
    have "due (ctxs q) (count us (act q)) (count us (deact q))" using assms(3) by (simp add: updates_wf_def)
    then show "due ((ctxs(p \<mapsto> c)) q) (count (add_mset (act p) us) (act q)) (count (add_mset (act p) us) (deact q))"
      using assms(4,7,8) by (cases "q = p") (auto simp: due_def split: option.splits if_splits)
  qed
qed

text \<open>The three outcomes of instrumenting a function.\<close>

definition instrumented ::
    "environment \<Rightarrow> GumInterceptorType \<Rightarrow> gpointer \<Rightarrow> GumInterceptor \<Rightarrow> GumInstrumentationError + gpointer \<Rightarrow> GumInterceptor \<Rightarrow> bool" where
  "instrumented en type a self r self' \<longleftrightarrow>
     tasks self' = tasks self \<and>
     (case map_of (table_of self) a of
        Some p \<Rightarrow>
          self' = self \<and>
          (\<exists>c. ctx_at self p = Some c \<and> r = (if fc_type c = type then Inr p else Inl GUM_INSTRUMENTATION_ERROR_WRONG_TYPE))
      | None \<Rightarrow>
          (case r of
             Inl e \<Rightarrow> ctx_at self' = ctx_at self \<and> table_of self' = table_of self \<and> updates self' = updates self \<and>
               e = (if en_signing_required en then GUM_INSTRUMENTATION_ERROR_POLICY_VIOLATION
                    else GUM_INSTRUMENTATION_ERROR_WRONG_SIGNATURE)
           | Inr p \<Rightarrow> p = en_new_ctx en \<and> table_of self' = hash_insert a p (table_of self) \<and>
               (\<exists>c. ctx_at self' = (ctx_at self)(p \<mapsto> c) \<and> same_function (gum_function_context_new p a type) c)))"

lemma ensure_backend_observe:
  assumes "ensure_backend en self = Some self'"
  shows "ctx_at self' = ctx_at self" "tasks self' = tasks self" "updates self' = updates self" "pages self' = pages self"
    "table_of self' = table_of self"
  using assms by (auto simp: ensure_backend_def observe split: if_splits)

lemma instrument_wf:
  assumes w: "consistent self" and fresh: "ctx_at self (en_new_ctx en) = None"
    and ret: "gum_interceptor_instrument en type a self = Some (r, self')"
  shows "consistent self' \<and> instrumented en type a self r self'"
proof (cases "map_of (table_of self) a")
  case (Some p)
  then obtain c where "ctx_at self p = Some c" using registered_ctx [OF w] by blast
  then show ?thesis using ret Some w by (auto simp: gum_interceptor_instrument_def instrumented_def)
next
  case None
  let ?p = "en_new_ctx en"
  let ?new = "gum_function_context_new ?p a type"
  obtain s1 where s1: "ensure_backend en self = Some s1"
    using ret None by (auto simp: gum_interceptor_instrument_def split: option.splits)
  note o1 = ensure_backend_observe [OF s1]
  define s2 where "s2 = s1\<lparr>ip_backend := clear_counters ?p (ip_backend s1)\<rparr>"
  have o2: "ctx_at s2 = ctx_at self" "tasks s2 = tasks self" "updates s2 = updates self" "pages s2 = pages self" "table_of s2 = table_of self"
    using o1 by (simp_all add: s2_def observe)
  have be2: "clear_counters ?p (ip_backend s1) = ip_backend s2" by (simp add: s2_def)
  have same: "(ctx_at self)(?p := None) = ctx_at self" using fresh by auto
  show ?thesis
  proof (cases "en_signing_required en")
    case True
    then have "r = Inl GUM_INSTRUMENTATION_ERROR_POLICY_VIOLATION \<and> self' = set_ctx ?p None (set_ctx ?p (Some ?new) s2)"
      using ret None s1 by (auto simp: gum_interceptor_instrument_def s2_def [symmetric] Let_def
          gum_interceptor_backend_claim_grafted_trampoline_def gum_function_context_finalize_def observe
          gum_function_context_new_def split: option.splits if_splits)
    then show ?thesis using True None w by (simp add: instrumented_def observe o2 same consistent_def)
  next
    case False
    obtain ok be c where create: "gum_interceptor_backend_create_trampoline (en_cs en) (en_ld en) (en_lo en)
        (fst (en_slices en)) (snd (en_slices en)) (ip_backend s2) ?new = Some (ok, be, c)"
      using ret None s1 False by (auto simp: gum_interceptor_instrument_def s2_def [symmetric] be2 Let_def split: option.splits)
    note cs = create_same [OF create]
    define s3 where "s3 = set_ctx ?p (Some c) (s2\<lparr>ip_backend := be\<rparr>)"
    show ?thesis
    proof (cases ok)
      case not_ok: False
      then have "r = Inl GUM_INSTRUMENTATION_ERROR_WRONG_SIGNATURE \<and> self' = set_ctx ?p None s3"
        using ret None s1 False create [unfolded s2_def] cs(2)
        by (auto simp: gum_interceptor_instrument_def gum_function_context_finalize_def s3_def s2_def observe Let_def)
      then show ?thesis using False None w by (simp add: instrumented_def observe o2 same consistent_def s3_def)
    next
      case True
      define s4 where "s4 = s3\<lparr>ip_function_by_address := hash_insert a ?p (table_of s3)\<rparr>"
      have r: "r = Inr ?p" "self' = gum_interceptor_transaction_schedule_update en ?p c GUM_INTERCEPTOR_ACTIVATE s4"
        using ret None s1 False create [unfolded s2_def] True
        by (auto simp: gum_interceptor_instrument_def s4_def s3_def s2_def Let_def)
      have flags: "fc_function_address c = a" "\<not> fc_destroyed c" "\<not> fc_activated c"
        using cs(1) by (simp_all add: same_function_def gum_function_context_new_def)
      have o4: "ctx_at s4 = (ctx_at self)(?p \<mapsto> c)" "tasks s4 = tasks self" "updates s4 = updates self" "pages s4 = pages self"
        "table_of s4 = hash_insert a ?p (table_of self)"
        using o2 by (simp_all add: s4_def s3_def observe)
      have d: "distinct (pages s4)" using w o4 by (simp add: consistent_def)
      note i = insert_wf [of "ctx_at self" "tasks self" "table_of self" "mset (updates self)" ?p a c, OF _ _ _ fresh None flags]
      have "consistent self'" using i w schedule_update_adds [OF d] by (simp add: consistent_def r(2) observe o4)
      then show ?thesis using None r cs(1) by (simp add: instrumented_def observe o4) blast
    qed
  qed
qed

end
