(* ===== verification/Gum_Transactions.thy ===== *)
theory Gum_Transactions
  imports Gum_Interceptor_Correct
begin

text \<open>
  The end of a transaction: the pending updates bring every context to rest, the pending destroy tasks free
  the contexts nobody uses, and the invariant of the interceptor is kept by every operation.
\<close>

section \<open>Running the updates\<close>

lemma run_all_append: "run_all f (xs @ ys) s = Option.bind (run_all f xs s) (run_all f ys)"
  by (induction xs arbitrary: s) (simp_all split: Option.bind_splits)

lemma run_all_concat:
  assumes "\<And>x s. x \<in> set xs \<Longrightarrow> f x s = run_all g (h x) s"
  shows "run_all f xs s = run_all g (concat (map h xs)) s"
  using assms
proof (induction xs arbitrary: s)
  case (Cons x xs)
  then show ?case by (cases "f x s") (simp_all add: run_all_append)
qed simp

text \<open>Where updates leave a context.\<close>

definition at_rest :: "GumFunctionContext \<Rightarrow> GumFunctionContext" where
  "at_rest c = c\<lparr>fc_activated := \<not> fc_destroyed c\<rparr>"

lemma at_rest_simps [simp]:
  "fc_destroyed (at_rest c) = fc_destroyed c" "fc_activated (at_rest c) \<longleftrightarrow> \<not> fc_destroyed c"
  "at_rest (c\<lparr>fc_activated := b\<rparr>) = at_rest c"
  by (simp_all add: at_rest_def)

definition all_due :: "GumInterceptor \<Rightarrow> GumUpdateTask list \<Rightarrow> bool" where
  "all_due self us \<longleftrightarrow> updates_wf (ctx_at self) (mset us)"

text \<open>The part of the state that updates do not touch.\<close>

definition same_admin :: "GumInterceptor \<Rightarrow> GumInterceptor \<Rightarrow> bool" where
  "same_admin self self' \<longleftrightarrow>
     ip_current_transaction self' = ip_current_transaction self \<and> table_of self' = table_of self \<and>
     ip_has_backend self' = ip_has_backend self \<and> rt_threads (ip_runtime self') = rt_threads (ip_runtime self)"

lemma same_admin_refl [simp]: "same_admin s s"
  by (simp add: same_admin_def)

lemma same_admin_trans: "same_admin a b \<Longrightarrow> same_admin b c \<Longrightarrow> same_admin a c"
  by (simp add: same_admin_def)

lemma same_admin_observe: "same_admin self self' \<Longrightarrow> tasks self' = tasks self \<and> updates self' = updates self \<and> pages self' = pages self"
  by (simp add: same_admin_def tasks_def updates_def pages_def)

lemma same_admin_steps [simp]:
  "same_admin self (set_ctx p c (self\<lparr>ip_backend := be\<rparr>))" "same_admin self (log_effect e self)" "same_admin self (log_effects es self)"
  "same_admin self (log_effect e (set_ctx p c (self\<lparr>ip_backend := be\<rparr>)))"
  by (simp_all add: same_admin_def set_ctx_def log_effect_def log_effects_def)

lemma run_act:
  assumes "run_update (act p) self = Some self'"
  obtains c where "ctx_at self p = Some c" "fc_destroyed c" "self' = self"
  | c where "ctx_at self p = Some c" "\<not> fc_destroyed c" "\<not> fc_activated c"
      "ctx_at self' = (ctx_at self)(p \<mapsto> c\<lparr>fc_activated := True\<rparr>)" "same_admin self self'"
  using assms
  by (auto simp: run_update_def gum_interceptor_activate_def Let_def observe split: option.splits if_splits)

lemma run_deact:
  assumes "run_update (deact p) self = Some self'"
  obtains c where "ctx_at self p = Some c" "fc_activated c"
      "ctx_at self' = (ctx_at self)(p \<mapsto> c\<lparr>fc_activated := False\<rparr>)" "same_admin self self'"
  using assms
  by (auto simp: run_update_def gum_interceptor_deactivate_def Let_def observe split: option.splits if_splits)

lemma absent_count: "x \<notin> set us \<Longrightarrow> count (mset us) x = 0"
  by (simp add: count_eq_zero_iff)

lemma run_update_step:
  assumes d: "all_due self (u # us)" and ret: "run_update u self = Some self'"
  shows "all_due self' us \<and> same_admin self self' \<and>
    (\<forall>q. map_option at_rest (ctx_at self' q) = map_option at_rest (ctx_at self q))"
proof -
  have due: "due (ctx_at self q) (count (mset (u # us)) (act q)) (count (mset (u # us)) (deact q))" for q
    using d unfolding all_due_def updates_wf_def by blast
  obtain p where "u = act p \<or> u = deact p" by (cases u; cases "ut_func u") auto
  then consider (idle) c where "u = act p" "ctx_at self p = Some c" "fc_destroyed c" "self' = self"
    | (activate) c where "u = act p" "ctx_at self p = Some c" "\<not> fc_destroyed c" "\<not> fc_activated c"
      "ctx_at self' = (ctx_at self)(p \<mapsto> c\<lparr>fc_activated := True\<rparr>)" "same_admin self self'"
    | (deactivate) c where "u = deact p" "ctx_at self p = Some c" "fc_activated c"
      "ctx_at self' = (ctx_at self)(p \<mapsto> c\<lparr>fc_activated := False\<rparr>)" "same_admin self self'"
    using ret by (metis run_act run_deact)
  then show ?thesis
  proof cases
    case idle
    have "due (ctx_at self q) (count (mset us) (act q)) (count (mset us) (deact q))" for q
      using due [of q] idle by (cases "q = p") (auto simp: due_def absent_count split: option.splits if_splits)
    then show ?thesis using idle(4) by (simp add: all_due_def updates_wf_def)
  next
    case activate
    have "due (ctx_at self' q) (count (mset us) (act q)) (count (mset us) (deact q))" for q
      using due [of q] activate(1-5) by (cases "q = p") (auto simp: due_def split: option.splits if_splits)
    then show ?thesis using activate by (simp add: all_due_def updates_wf_def)
  next
    case deactivate
    have "due (ctx_at self' q) (count (mset us) (act q)) (count (mset us) (deact q))" for q
      using due [of q] deactivate(1-4) by (cases "q = p") (auto simp: due_def absent_count split: option.splits if_splits)
    then show ?thesis using deactivate by (simp add: all_due_def updates_wf_def)
  qed
qed

lemma nothing_due: "all_due self [] \<Longrightarrow> ctx_at self p = Some c \<Longrightarrow> at_rest c = c"
  unfolding all_due_def updates_wf_def
  by (drule spec [of _ p]) (cases c; auto simp: due_def at_rest_def split: if_splits)

lemma run_updates_list:
  assumes "all_due self us" "run_all run_update us self = Some self'"
  shows "ctx_at self' = map_option at_rest \<circ> ctx_at self \<and> same_admin self self'"
  using assms
proof (induction us arbitrary: self)
  case Nil
  have "ctx_at self = map_option at_rest \<circ> ctx_at self"
  proof
    fix p
    show "ctx_at self p = (map_option at_rest \<circ> ctx_at self) p"
      using nothing_due [OF Nil(1)] by (cases "ctx_at self p") simp_all
  qed
  then show ?case using Nil by simp
next
  case (Cons u us)
  then obtain s1 where s1: "run_update u self = Some s1" "run_all run_update us s1 = Some self'"
    by (auto split: Option.bind_splits)
  note step = run_update_step [OF Cons.prems(1) s1(1)]
  have "ctx_at self' = map_option at_rest \<circ> ctx_at s1 \<and> same_admin s1 self'" using Cons.IH s1(2) step by blast
  then show ?case using step same_admin_trans by (simp add: fun_eq_iff) blast
qed

text \<open>
  The environment's order of traversal and of sorting are permutations.
\<close>

definition orderly :: "environment \<Rightarrow> bool" where
  "orderly en \<longleftrightarrow> (\<forall>xs. mset (en_hash_order en xs) = mset xs) \<and> (\<forall>f xs. mset (en_sort en f xs) = mset xs)"

lemma page_order_complete:
  assumes "distinct (map fst table)" "mset addresses = mset (map fst table)"
  shows "mset (concat (map (\<lambda>a. the (map_of table a)) addresses)) = mset (concat (map snd table))"
proof -
  have "mset (concat (map (\<lambda>a. the (map_of table a)) addresses)) = (\<Sum>a\<in>#mset addresses. mset (the (map_of table a)))"
    by (simp add: mset_concat comp_def flip: sum_mset_sum_list)
  also have "\<dots> = (\<Sum>a\<in>#mset (map fst table). mset (the (map_of table a)))" by (simp only: assms(2))
  also have "\<dots> = (\<Sum>e\<in>#mset table. mset (the (map_of table (fst e))))" by (simp add: image_mset.compositionality comp_def)
  also have "\<dots> = (\<Sum>e\<in>#mset table. mset (snd e))"
    using assms(1) by (intro arg_cong [of _ _ sum_mset] image_mset_cong) (auto simp: map_of_is_SomeI)
  also have "\<dots> = mset (concat (map snd table))" by (simp add: mset_concat comp_def flip: sum_mset_sum_list)
  finally show ?thesis .
qed

lemma run_pages:
  assumes "distinct (map fst table)" "mset addresses = mset (map fst table)" "updates_wf (ctx_at self) (mset (concat (map snd table)))"
    and ret: "run_all (run_page_updates table) addresses self = Some self'"
  shows "ctx_at self' = map_option at_rest \<circ> ctx_at self \<and> same_admin self self'"
proof (rule run_updates_list)
  have "set addresses = set (map fst table)" using assms(2) by (metis set_mset_mset)
  then have found: "map_of table a = Some (the (map_of table a))" if "a \<in> set addresses" for a
    using that by (metis map_of_eq_None_iff option.collapse set_map)
  have "run_page_updates table a s = run_all run_update (the (map_of table a)) s" if "a \<in> set addresses" for a s
    unfolding run_page_updates_def by (subst found [OF that]) simp
  then show "run_all run_update (concat (map (\<lambda>a. the (map_of table a)) addresses)) self = Some self'"
    using ret run_all_concat [of addresses "run_page_updates table" run_update "\<lambda>a. the (map_of table a)" self] by simp
  show "all_due self (concat (map (\<lambda>a. the (map_of table a)) addresses))"
    using assms(3) page_order_complete [OF assms(1,2)] by (simp add: all_due_def)
qed

lemma run_all_protect:
  assumes "run_all (protect_page en prot) addresses self = Some self'"
  shows "ctx_at self' = ctx_at self \<and> same_admin self self'"
  using assms
proof (induction addresses arbitrary: self)
  case (Cons a addresses)
  then obtain s1 where s1: "protect_page en prot a self = Some s1" "run_all (protect_page en prot) addresses s1 = Some self'"
    by (auto split: Option.bind_splits)
  then have "ctx_at s1 = ctx_at self" "same_admin self s1" by (auto simp: protect_page_def observe split: if_splits)
  then show ?case using Cons.IH [OF s1(2)] same_admin_trans by auto
qed simp

lemma run_updates_rests:
  assumes "orderly en" "distinct (map fst table)" "updates_wf (ctx_at self) (mset (concat (map snd table)))"
    and ret: "run_updates en table self = Some self'"
  shows "ctx_at self' = map_option at_rest \<circ> ctx_at self \<and> same_admin self self'"
proof -
  define addresses where "addresses = en_sort en gum_page_address_compare (en_hash_order en (map fst table))"
  have perm: "mset addresses = mset (map fst table)" using assms(1) by (simp add: addresses_def orderly_def)
  show ?thesis
  proof (cases "en_signing_required en")
    case True
    then show ?thesis using ret run_pages [OF assms(2) perm assms(3)] by (simp add: run_updates_def addresses_def [symmetric] Let_def)
  next
    case False
    define suspended where "suspended = (if os_rwx_supported (en_os en) then [] else suspended_threads en)"
    define s0 where "s0 = log_effects (map SUSPEND suspended) self"
    have "patch_pages en addresses table self = Some self'"
      using ret False by (simp add: run_updates_def addresses_def [symmetric] Let_def split: if_splits)
    then obtain s1 s2 s3 where
      s1: "run_all (protect_page en (if os_rwx_supported (en_os en) then GUM_PAGE_RWX else GUM_PAGE_RW)) addresses s0 = Some s1"
      and s2: "run_all (run_page_updates table) addresses s1 = Some s2"
      and s3: "(if os_rwx_supported (en_os en) then Some s2 else run_all (protect_page en GUM_PAGE_RX) addresses s2) = Some s3"
      and fin: "self' = log_effects (map CLEAR_CACHE addresses @ map RESUME (rev suspended)) s3"
      unfolding patch_pages_def Let_def suspended_def [symmetric] s0_def [symmetric] by (auto split: option.splits)
    have o0: "ctx_at s0 = ctx_at self" "same_admin self s0" by (simp_all add: s0_def observe)
    have o1: "ctx_at s1 = ctx_at s0" "same_admin s0 s1" using run_all_protect [OF s1] by auto
    have "ctx_at s2 = map_option at_rest \<circ> ctx_at s1 \<and> same_admin s1 s2"
      by (rule run_pages [OF assms(2) perm _ s2]) (use assms(3) o0 o1 in simp)
    moreover have "ctx_at s3 = ctx_at s2 \<and> same_admin s2 s3"
      using s3 run_all_protect [of en GUM_PAGE_RX addresses s2 s3] by (auto split: if_splits)
    moreover have "ctx_at self' = ctx_at s3" "same_admin s3 self'" by (simp_all add: fin observe)
    ultimately show ?thesis using o0 o1 by (simp add: same_admin_def)
  qed
qed

section \<open>Freeing contexts\<close>

text \<open>
  What other threads may do to the usage counters between two tasks of the loop: anything but leave the last
  frame of a context that is destroyed and waits to be freed. Contexts of functions that are still
  intercepted may be entered and left freely.
\<close>

definition stays_busy :: "environment \<Rightarrow> bool" where
  "stays_busy en \<longleftrightarrow>
     (\<forall>k rt p. case (rt_contexts rt p, rt_contexts (en_between en k rt) p) of
        (None, None) \<Rightarrow> True
      | (Some c, Some c') \<Rightarrow>
          (\<exists>n. c' = c\<lparr>fc_trampoline_usage_counter := n\<rparr> \<and> (fc_destroyed c \<longrightarrow> fc_trampoline_usage_counter c \<noteq> 0 \<longrightarrow> n \<noteq> 0))
      | _ \<Rightarrow> False)"

definition flags :: "GumFunctionContext \<Rightarrow> bool \<times> bool \<times> gpointer" where
  "flags c = (fc_destroyed c, fc_activated c, fc_function_address c)"

definition same_flags :: "(gpointer \<Rightarrow> GumFunctionContext option) \<Rightarrow> (gpointer \<Rightarrow> GumFunctionContext option) \<Rightarrow> bool" where
  "same_flags ctxs ctxs' \<longleftrightarrow> (\<forall>p. map_option flags (ctxs' p) = map_option flags (ctxs p))"

lemma same_flags_wf:
  assumes "same_flags ctxs ctxs'"
  shows "tasks_wf ctxs ts \<Longrightarrow> tasks_wf ctxs' ts" "table_wf ctxs fs \<Longrightarrow> table_wf ctxs' fs" "updates_wf ctxs us \<Longrightarrow> updates_wf ctxs' us"
proof -
  have some: "ctxs' p = Some c' \<Longrightarrow> \<exists>c. ctxs p = Some c \<and> fc_destroyed c' = fc_destroyed c \<and> fc_activated c' = fc_activated c \<and>
      fc_function_address c' = fc_function_address c" for p c'
    using assms [unfolded same_flags_def, rule_format, of p] by (cases "ctxs p") (auto simp: flags_def)
  have live: "ctxs p = None \<longleftrightarrow> ctxs' p = None" for p
    using assms [unfolded same_flags_def, rule_format, of p] by (cases "ctxs p"; cases "ctxs' p") simp_all
  have onward: "ctxs p = Some c \<Longrightarrow> \<exists>c'. ctxs' p = Some c' \<and> fc_destroyed c' = fc_destroyed c \<and> fc_activated c' = fc_activated c \<and>
      fc_function_address c' = fc_function_address c" for p c
    using assms [unfolded same_flags_def, rule_format, of p] by (cases "ctxs' p") (auto simp: flags_def)
  show "tasks_wf ctxs' ts" if t: "tasks_wf ctxs ts"
    unfolding tasks_wf_def
  proof (intro conjI allI impI ballI)
    show "freed_last ts" using t by (simp add: tasks_wf_def)
  next
    fix t' assume "t' \<in> set ts"
    then show "ctxs' (dt_ctx t') \<noteq> None" using t live [of "dt_ctx t'"] by (auto simp: tasks_wf_def)
  next
    fix t' q assume "t' \<in> set ts" "dt_notify t' = PERFORM_DESTROY q"
    then show "q = dt_ctx t'" using t by (auto simp: tasks_wf_def)
  next
    fix p c' assume "ctxs' p = Some c'"
    then show "fc_destroyed c' \<longleftrightarrow> perform p \<in> set ts" using t some [of p c'] by (auto simp: tasks_wf_def)
  qed
  show "table_wf ctxs' fs" if t: "table_wf ctxs fs"
    unfolding table_wf_def
  proof (intro conjI allI impI)
    show "distinct (map fst fs)" "distinct (map snd fs)" using t by (simp_all add: table_wf_def)
  next
    fix a p assume "(a, p) \<in> set fs"
    then obtain c where "ctxs p = Some c" "fc_function_address c = a" "\<not> fc_destroyed c" using t by (auto simp: table_wf_def)
    then show "\<exists>c. ctxs' p = Some c \<and> fc_function_address c = a \<and> \<not> fc_destroyed c" using onward [of p c] by auto
  next
    fix p c' assume "ctxs' p = Some c'" "\<not> fc_destroyed c'"
    then show "(fc_function_address c', p) \<in> set fs" using t some [of p c'] by (auto simp: table_wf_def)
  qed
  show "updates_wf ctxs us \<Longrightarrow> updates_wf ctxs' us"
    unfolding updates_wf_def
  proof
    fix p assume u: "\<forall>p. due (ctxs p) (count us (act p)) (count us (deact p))"
    show "due (ctxs' p) (count us (act p)) (count us (deact p))"
    proof (cases "ctxs' p")
      case None
      then show ?thesis using u live by metis
    next
      case (Some c')
      then obtain c where "ctxs p = Some c" "fc_destroyed c' = fc_destroyed c" "fc_activated c' = fc_activated c" using some by blast
      then show ?thesis using u [rule_format, of p] Some by (auto simp: due_def split: if_splits)
    qed
  qed
qed

text \<open>The state of the loop: \<open>ts\<close> are the tasks to come, and every task put back is of a busy context.\<close>

definition draining :: "GumDestroyTask list \<Rightarrow> GumInterceptor \<Rightarrow> bool" where
  "draining ts self \<longleftrightarrow>
     tasks_wf (ctx_at self) (tasks self @ ts) \<and> table_wf (ctx_at self) (table_of self) \<and>
     updates_wf (ctx_at self) {#} \<and> updates self = [] \<and> pages self = [] \<and>
     (\<forall>t \<in> set (tasks self). \<exists>c. ctx_at self (dt_ctx t) = Some c \<and> (fc_destroyed c \<longrightarrow> fc_trampoline_usage_counter c \<noteq> 0))"

text \<open>
  Contexts that are not to be freed, or that are in use, stay, with their counters possibly moved, and in use
  if they are to be freed; others stay so or go.
\<close>

definition kept :: "GumFunctionContext \<Rightarrow> bool" where
  "kept c \<longleftrightarrow> \<not> fc_destroyed c \<or> fc_trampoline_usage_counter c \<noteq> 0"

definition outlives :: "GumInterceptor \<Rightarrow> GumInterceptor \<Rightarrow> bool" where
  "outlives self self' \<longleftrightarrow>
     table_of self' = table_of self \<and>
     (\<forall>p c. ctx_at self p = Some c \<longrightarrow> kept c \<longrightarrow>
        (\<exists>n. (fc_destroyed c \<longrightarrow> fc_trampoline_usage_counter c \<noteq> 0 \<longrightarrow> n \<noteq> 0) \<and> ctx_at self' p = Some (c\<lparr>fc_trampoline_usage_counter := n\<rparr>))) \<and>
     (\<forall>p c'. ctx_at self' p = Some c' \<longrightarrow> (\<exists>c n. ctx_at self p = Some c \<and> c' = c\<lparr>fc_trampoline_usage_counter := n\<rparr>))"

lemma own_counter: "\<exists>n. (fc_destroyed c \<longrightarrow> fc_trampoline_usage_counter c \<noteq> 0 \<longrightarrow> n \<noteq> 0) \<and> c = c\<lparr>fc_trampoline_usage_counter := n\<rparr>" for c :: GumFunctionContext
  by (rule exI [of _ "fc_trampoline_usage_counter c"]) (cases c; simp)

lemma outlives_shrink:
  assumes "table_of self' = table_of self"
    and "\<And>p c. ctx_at self p = Some c \<Longrightarrow> kept c \<Longrightarrow> ctx_at self' p = Some c"
    and "\<And>p c. ctx_at self' p = Some c \<Longrightarrow> ctx_at self p = Some c"
  shows "outlives self self'"
  unfolding outlives_def
proof (intro conjI allI impI)
  fix p c assume "ctx_at self p = Some c" "kept c"
  then show "\<exists>n. (fc_destroyed c \<longrightarrow> fc_trampoline_usage_counter c \<noteq> 0 \<longrightarrow> n \<noteq> 0) \<and> ctx_at self' p = Some (c\<lparr>fc_trampoline_usage_counter := n\<rparr>)"
    using assms(2) own_counter [of c] by metis
next
  fix p c' assume "ctx_at self' p = Some c'"
  then show "\<exists>c n. ctx_at self p = Some c \<and> c' = c\<lparr>fc_trampoline_usage_counter := n\<rparr>" using assms(3) own_counter [of c'] by blast
qed (rule assms(1))

lemma outlives_refl: "outlives self self"
  by (rule outlives_shrink) simp_all

lemma outlivesD:
  assumes "outlives self self'"
  shows "ctx_at self p = Some c \<Longrightarrow> kept c \<Longrightarrow>
      \<exists>n. (fc_destroyed c \<longrightarrow> fc_trampoline_usage_counter c \<noteq> 0 \<longrightarrow> n \<noteq> 0) \<and> ctx_at self' p = Some (c\<lparr>fc_trampoline_usage_counter := n\<rparr>)"
    and "ctx_at self' p = Some c' \<Longrightarrow> \<exists>c n. ctx_at self p = Some c \<and> c' = c\<lparr>fc_trampoline_usage_counter := n\<rparr>"
  using assms by (simp_all add: outlives_def)

lemma outlives_trans:
  assumes "outlives a b" "outlives b c"
  shows "outlives a c"
  unfolding outlives_def
proof (intro conjI allI impI)
  show "table_of c = table_of a" using assms by (simp add: outlives_def)
next
  fix p d assume d: "ctx_at a p = Some d" "kept d"
  obtain n where n: "fc_destroyed d \<longrightarrow> fc_trampoline_usage_counter d \<noteq> 0 \<longrightarrow> n \<noteq> 0" "ctx_at b p = Some (d\<lparr>fc_trampoline_usage_counter := n\<rparr>)"
    using outlivesD(1) [OF assms(1) d] by blast
  have kept: "kept (d\<lparr>fc_trampoline_usage_counter := n\<rparr>)" using d(2) n(1) by (auto simp: kept_def)
  then obtain m where m: "fc_destroyed d \<longrightarrow> n \<noteq> 0 \<longrightarrow> m \<noteq> 0" "ctx_at c p = Some (d\<lparr>fc_trampoline_usage_counter := n\<rparr>\<lparr>fc_trampoline_usage_counter := m\<rparr>)"
    using outlivesD(1) [OF assms(2) n(2) kept] by auto
  show "\<exists>n. (fc_destroyed d \<longrightarrow> fc_trampoline_usage_counter d \<noteq> 0 \<longrightarrow> n \<noteq> 0) \<and> ctx_at c p = Some (d\<lparr>fc_trampoline_usage_counter := n\<rparr>)"
    by (rule exI [of _ m]) (use m n in simp)
next
  fix p e assume e: "ctx_at c p = Some e"
  obtain d n where d: "ctx_at b p = Some d" "e = d\<lparr>fc_trampoline_usage_counter := n\<rparr>"
    using assms(2) e unfolding outlives_def by blast
  obtain f m where f: "ctx_at a p = Some f" "d = f\<lparr>fc_trampoline_usage_counter := m\<rparr>"
    using assms(1) d(1) unfolding outlives_def by blast
  show "\<exists>f m. ctx_at a p = Some f \<and> e = f\<lparr>fc_trampoline_usage_counter := m\<rparr>"
    by (rule exI [of _ f], rule exI [of _ n]) (use d(2) f in simp)
qed

lemma between_step:
  assumes busy: "stays_busy en" and d: "draining ts self" and self'_def: "self' = self\<lparr>ip_runtime := en_between en k (ip_runtime self)\<rparr>"
  shows "draining ts self'" "outlives self self'"
proof -
  have o: "tasks self' = tasks self" "table_of self' = table_of self" "updates self' = updates self" "pages self' = pages self"
    by (simp_all add: self'_def tasks_def updates_def pages_def)
  have per: "case (ctx_at self p, ctx_at self' p) of
        (None, None) \<Rightarrow> True
      | (Some c, Some c') \<Rightarrow>
          (\<exists>n. c' = c\<lparr>fc_trampoline_usage_counter := n\<rparr> \<and> (fc_destroyed c \<longrightarrow> fc_trampoline_usage_counter c \<noteq> 0 \<longrightarrow> n \<noteq> 0))
      | _ \<Rightarrow> False" for p
    using busy unfolding stays_busy_def ctx_at_def self'_def by simp
  have same: "same_flags (ctx_at self) (ctx_at self')"
    unfolding same_flags_def
  proof
    fix p
    show "map_option flags (ctx_at self' p) = map_option flags (ctx_at self p)"
      using per [of p] by (auto simp: flags_def split: option.splits)
  qed
  have "\<exists>c'. ctx_at self' q = Some c' \<and> (fc_destroyed c' \<longrightarrow> fc_trampoline_usage_counter c' \<noteq> 0)"
    if "ctx_at self q = Some c" "fc_destroyed c \<longrightarrow> fc_trampoline_usage_counter c \<noteq> 0" for q c
    using per [of q] that by (auto split: option.splits)
  then show "draining ts self'"
    using d same_flags_wf [OF same] unfolding draining_def o by blast
  show "outlives self self'"
    unfolding outlives_def
  proof (intro conjI allI impI)
    fix p c assume "ctx_at self p = Some c" "kept c"
    then show "\<exists>n. (fc_destroyed c \<longrightarrow> fc_trampoline_usage_counter c \<noteq> 0 \<longrightarrow> n \<noteq> 0) \<and> ctx_at self' p = Some (c\<lparr>fc_trampoline_usage_counter := n\<rparr>)"
      using per [of p] by (auto split: option.splits)
  next
    fix p c' assume "ctx_at self' p = Some c'"
    then show "\<exists>c n. ctx_at self p = Some c \<and> c' = c\<lparr>fc_trampoline_usage_counter := n\<rparr>"
      using per [of p] by (auto split: option.splits)
  qed (rule o)
qed

lemma perform_destroy_effect:
  assumes "ctx_at self p = Some c"
  obtains self' where "gum_function_context_perform_destroy en p self = Some self'" "ctx_at self' = (ctx_at self)(p := None)"
    "tasks self' = tasks self" "table_of self' = table_of self" "updates self' = updates self" "pages self' = pages self"
  using assms
  by (auto simp: gum_function_context_perform_destroy_def gum_interceptor_backend_destroy_trampoline_def
      gum_function_context_finalize_def observe)

lemma free_step:
  assumes d: "draining (perform p # ts) self" and c: "ctx_at self p = Some c" and idle: "fc_trampoline_usage_counter c = 0"
    and o: "ctx_at self' = (ctx_at self)(p := None)" "tasks self' = tasks self" "table_of self' = table_of self"
      "updates self' = updates self" "pages self' = pages self"
  shows "draining ts self'" "outlives self self'"
proof -
  have t: "tasks_wf (ctx_at self) (tasks self @ perform p # ts)" using d by (simp add: draining_def)
  then have gone: "dt_ctx s \<noteq> p" if "s \<in> set ts" for s using that by (auto simp: tasks_wf_def freed_last_append)
  have destroyed: "fc_destroyed c" using t c by (auto simp: tasks_wf_def)
  have busy: "dt_ctx s \<noteq> p" if "s \<in> set (tasks self)" for s
    using d c idle destroyed that unfolding draining_def by (metis option.inject)
  have "tasks_wf ((ctx_at self)(p := None)) (tasks self @ ts)"
    using t gone busy by (auto simp: tasks_wf_def freed_last_append split: if_splits)
  moreover have "table_wf ((ctx_at self)(p := None)) (table_of self)"
    using d c destroyed by (fastforce simp: draining_def table_wf_def)
  moreover have "updates_wf ((ctx_at self)(p := None)) {#}" using d by (auto simp: draining_def updates_wf_def due_def)
  ultimately show "draining ts self'" using d busy by (auto simp: draining_def o)
  show "outlives self self'" by (rule outlives_shrink) (use destroyed c idle in \<open>auto simp: o kept_def split: if_splits\<close>)
qed

lemma observe_runtime [observe]:
  "tasks (self\<lparr>ip_runtime := rt\<rparr>) = tasks self" "updates (self\<lparr>ip_runtime := rt\<rparr>) = updates self"
  "pages (self\<lparr>ip_runtime := rt\<rparr>) = pages self"
  by (simp_all add: tasks_def updates_def pages_def)

lemma drain_step:
  assumes busy: "stays_busy en" and d: "draining (t # ts) self"
  obtains self' where "draining ts self'" "outlives self self'"
    "run_destroy_tasks en k (t # ts) self = run_destroy_tasks en (Suc k) ts self'"
proof -
  define s1 where "s1 = self\<lparr>ip_runtime := en_between en k (ip_runtime self)\<rparr>"
  have d1: "draining (t # ts) s1" and o1: "outlives self s1" using between_step [OF busy d s1_def] by auto
  obtain c where c: "ctx_at s1 (dt_ctx t) = Some c" using d1 by (auto simp: draining_def tasks_wf_def)
  have own: "dt_notify t = PERFORM_DESTROY q \<Longrightarrow> q = dt_ctx t" for q using d1 by (auto simp: draining_def tasks_wf_def)
  show thesis
  proof (cases "fc_trampoline_usage_counter c = 0")
    case False
    let ?s = "update_transaction (\<lambda>tx. tx\<lparr>tx_is_dirty := True,
        tx_pending_destroy_tasks := tx_pending_destroy_tasks tx @ [t]\<rparr>) s1"
    have o: "ctx_at ?s = ctx_at s1" "tasks ?s = tasks s1 @ [t]" "table_of ?s = table_of s1" "updates ?s = updates s1" "pages ?s = pages s1"
      by (simp_all add: observe) (simp_all add: tasks_def updates_def pages_def update_transaction_def)
    have "draining ts ?s" using d1 c False unfolding draining_def o by auto
    moreover have "outlives self ?s" using o1 by (simp add: outlives_def o(1,3))
    ultimately show ?thesis using that c False by (simp add: s1_def [symmetric])
  next
    case True
    let ?s = "log_effect (NOTIFY (dt_notify t)) s1"
    show ?thesis
    proof (cases "\<exists>q. dt_notify t = PERFORM_DESTROY q")
      case perform: True
      then have t: "t = perform (dt_ctx t)" using own task_eq [of t] by auto
      have "ctx_at ?s (dt_ctx t) = Some c" using c by (simp add: observe)
      then obtain s2 where s2: "gum_function_context_perform_destroy en (dt_ctx t) ?s = Some s2" "ctx_at s2 = (ctx_at ?s)(dt_ctx t := None)"
        "tasks s2 = tasks ?s" "table_of s2 = table_of ?s" "updates s2 = updates ?s" "pages s2 = pages ?s"
        by (rule perform_destroy_effect)
      have "draining ts s2" "outlives s1 s2"
        using free_step [of "dt_ctx t" ts s1 c s2] d1 t c True s2(2-6) by (simp_all add: observe)
      moreover have "run_notify en (dt_notify t) s1 = Some s2"
        using s2(1) t by (metis GumDestroyTask.select_convs(2) destroy_notify.simps(12) run_notify_def)
      ultimately show ?thesis using that [of s2] c True outlives_trans [OF o1] by (simp add: s1_def [symmetric])
    next
      case other: False
      then have n: "run_notify en (dt_notify t) s1 = Some ?s" by (cases "dt_notify t") (simp_all add: run_notify_def)
      have "perform p \<noteq> t" for p using other by auto
      then have "tasks_wf (ctx_at s1) (tasks s1 @ ts)" using d1 by (auto simp: draining_def tasks_wf_def freed_last_append)
      then have "draining ts ?s" using d1 by (simp add: draining_def observe)
      moreover have "outlives s1 ?s" using outlives_refl [of s1] by (simp add: outlives_def observe)
      ultimately show ?thesis using that [of ?s] n c True outlives_trans [OF o1] by (simp add: s1_def [symmetric])
    qed
  qed
qed

lemma drain:
  assumes busy: "stays_busy en" and d: "draining ts self"
  shows "\<exists>self'. run_destroy_tasks en k ts self = Some self' \<and> draining [] self' \<and> outlives self self'"
  using d
proof (induction ts arbitrary: k self)
  case Nil
  then show ?case using outlives_refl by simp
next
  case (Cons t ts)
  obtain s1 where "draining ts s1" "outlives self s1" "run_destroy_tasks en k (t # ts) self = run_destroy_tasks en (Suc k) ts s1"
    by (rule drain_step [OF busy Cons.prems])
  then show ?case using Cons.IH [of s1 "Suc k"] outlives_trans by metis
qed

section \<open>Ending a transaction\<close>

abbreviation level :: "GumInterceptor \<Rightarrow> guint32" where
  "level self \<equiv> tx_level (ip_current_transaction self)"

abbreviation dirty :: "GumInterceptor \<Rightarrow> bool" where
  "dirty self \<equiv> tx_is_dirty (ip_current_transaction self)"

definition outermost :: "GumInterceptor \<Rightarrow> bool" where
  "outermost self \<longleftrightarrow> \<not> 0 <s level self"

text \<open>
  The invariant between operations: besides consistency, pending work marks the transaction dirty, and
  outside of transactions no update is pending.
\<close>

definition sound :: "GumInterceptor \<Rightarrow> bool" where
  "sound self \<longleftrightarrow>
     consistent self \<and> (tasks self \<noteq> [] \<or> pages self \<noteq> [] \<longrightarrow> dirty self) \<and> (outermost self \<longrightarrow> pages self = [])"

lemma pages_updates: "pages self = [] \<Longrightarrow> updates self = []"
  by (simp add: pages_def updates_def)

lemma empty_table: "pages self = [] \<longleftrightarrow> tx_pending_update_tasks (ip_current_transaction self) = []"
  by (simp add: pages_def)

lemma consistent_settled:
  assumes "consistent self" "updates self = []"
  shows "settled self"
  unfolding settled_def
proof (intro allI impI)
  fix p c assume c: "ctx_at self p = Some c"
  have "all_due self []" using assms by (simp add: consistent_def all_due_def)
  then have "at_rest c = c" using nothing_due c by blast
  then show "fc_activated c \<longleftrightarrow> \<not> fc_destroyed c" by (metis at_rest_simps(2))
qed

text \<open>The three ways a transaction ends: an outer one goes on, there is nothing to do, or the work is done.\<close>

definition rested :: "GumInterceptor \<Rightarrow> GumInterceptor \<Rightarrow> bool" where
  "rested self self' \<longleftrightarrow>
     table_of self' = table_of self \<and>
     (\<forall>p c. ctx_at self p = Some c \<longrightarrow> kept c \<longrightarrow>
        (\<exists>n. (fc_destroyed c \<longrightarrow> fc_trampoline_usage_counter c \<noteq> 0 \<longrightarrow> n \<noteq> 0) \<and>
           ctx_at self' p = Some (c\<lparr>fc_activated := \<not> fc_destroyed c, fc_trampoline_usage_counter := n\<rparr>))) \<and>
     (\<forall>p c'. ctx_at self' p = Some c' \<longrightarrow>
        (\<exists>c n. ctx_at self p = Some c \<and> c' = c\<lparr>fc_activated := \<not> fc_destroyed c, fc_trampoline_usage_counter := n\<rparr>))"

lemma observe_level [observe]:
  "level (ignore_current_thread en self) = level self" "level (unignore_current_thread en self) = level self"
  "level (commit_code en self) = level self" "dirty (ignore_current_thread en self) = dirty self"
  "dirty (unignore_current_thread en self) = dirty self" "dirty (commit_code en self) = dirty self"
  by (simp_all add: ignore_current_thread_def unignore_current_thread_def commit_code_def)

lemma drain_dirty:
  "run_destroy_tasks en k ts self = Some self' \<Longrightarrow> (tasks self \<noteq> [] \<longrightarrow> dirty self) \<Longrightarrow>
     (tasks self' \<noteq> [] \<longrightarrow> dirty self') \<and> level self' = level self"
proof (induction ts arbitrary: k self)
  case (Cons t ts)
  define s1 where "s1 = self\<lparr>ip_runtime := en_between en k (ip_runtime self)\<rparr>"
  have tx1: "ip_current_transaction s1 = ip_current_transaction self" by (simp add: s1_def)
  obtain c where c: "ctx_at s1 (dt_ctx t) = Some c" using Cons.prems(1) by (auto simp: s1_def Let_def split: option.splits)
  show ?case
  proof (cases "fc_trampoline_usage_counter c = 0")
    case True
    then obtain s2 where s2: "run_notify en (dt_notify t) s1 = Some s2" "run_destroy_tasks en (Suc k) ts s2 = Some self'"
      using Cons.prems(1) c by (auto simp: s1_def [symmetric] split: Option.bind_splits)
    have "ip_current_transaction s2 = ip_current_transaction s1"
      using s2(1) by (auto simp: run_notify_def gum_function_context_perform_destroy_def gum_function_context_finalize_def
          log_effect_def set_ctx_def Let_def split: destroy_notify.splits option.splits prod.splits if_splits)
    then show ?thesis using Cons.IH [OF s2(2)] Cons.prems(2) tx1 by (simp add: tasks_def)
  next
    case False
    let ?s = "update_transaction (\<lambda>tx. tx\<lparr>tx_is_dirty := True,
        tx_pending_destroy_tasks := tx_pending_destroy_tasks tx @ [t]\<rparr>) s1"
    have "run_destroy_tasks en (Suc k) ts ?s = Some self'" using Cons.prems(1) c False by (simp add: s1_def [symmetric])
    then show ?thesis using Cons.IH [of "Suc k" ?s] tx1 by (simp add: update_transaction_def)
  qed
qed simp

lemma process_all:
  assumes en: "orderly en" "stays_busy en" and c: "consistent self"
    and run: "run_updates en (tx_pending_update_tasks (ip_current_transaction self)) (self\<lparr>ip_current_transaction := gum_interceptor_transaction_init\<rparr>) = Some s1"
  shows "\<exists>self'. run_destroy_tasks en 0 (tasks self) s1 = Some self' \<and> consistent self' \<and> pages self' = [] \<and> level self' = 0 \<and>
    (tasks self' \<noteq> [] \<longrightarrow> dirty self') \<and> rested self self'"
proof -
  let ?s0 = "self\<lparr>ip_current_transaction := gum_interceptor_transaction_init\<rparr>"
  let ?table = "tx_pending_update_tasks (ip_current_transaction self)"
  have o0: "ctx_at ?s0 = ctx_at self" "table_of ?s0 = table_of self" "tasks ?s0 = []" "updates ?s0 = []" "pages ?s0 = []"
    by (simp_all add: ctx_at_def fun_eq_iff tasks_def updates_def pages_def gum_interceptor_transaction_init_def)
  have "distinct (map fst ?table)" "updates_wf (ctx_at ?s0) (mset (concat (map snd ?table)))"
    using c by (simp_all add: consistent_def pages_def updates_def o0)
  from run_updates_rests [OF en(1) this run] have s1: "ctx_at s1 = map_option at_rest \<circ> ctx_at self" "same_admin ?s0 s1"
    by (simp_all add: o0)
  have o1: "tasks s1 = []" "updates s1 = []" "pages s1 = []" "table_of s1 = table_of self"
    using same_admin_observe [OF s1(2)] s1(2) o0 by (simp_all add: same_admin_def)
  have "tasks_wf (ctx_at s1) (tasks self)"
    unfolding tasks_wf_def s1(1)
  proof (intro conjI allI impI ballI)
    have t: "tasks_wf (ctx_at self) (tasks self)" using c by (simp add: consistent_def)
    then show "freed_last (tasks self)" by (simp add: tasks_wf_def)
    fix t' q
    show "t' \<in> set (tasks self) \<Longrightarrow> (map_option at_rest \<circ> ctx_at self) (dt_ctx t') \<noteq> None" using t by (auto simp: tasks_wf_def)
    show "t' \<in> set (tasks self) \<Longrightarrow> dt_notify t' = PERFORM_DESTROY q \<Longrightarrow> q = dt_ctx t'" using t by (auto simp: tasks_wf_def)
    fix p c' assume "(map_option at_rest \<circ> ctx_at self) p = Some c'"
    then show "fc_destroyed c' \<longleftrightarrow> perform p \<in> set (tasks self)" using t by (auto simp: tasks_wf_def)
  qed
  moreover have "table_wf (ctx_at s1) (table_of s1)"
  proof -
    have "table_wf (ctx_at self) (table_of self)" using c by (simp add: consistent_def)
    then show ?thesis unfolding s1(1) o1 by (fastforce simp: table_wf_def at_rest_def)
  qed
  moreover have "updates_wf (ctx_at s1) {#}"
    unfolding updates_wf_def s1(1) by (auto simp: due_def at_rest_def split: option.splits)
  ultimately have "draining (tasks self) s1" by (simp add: draining_def o1)
  then obtain s2 where s2: "run_destroy_tasks en 0 (tasks self) s1 = Some s2" "draining [] s2" "outlives s1 s2"
    using drain [OF en(2)] by blast
  have l1: "level s1 = 0" "tasks s1 = []" using s1(2) o1 by (simp_all add: same_admin_def gum_interceptor_transaction_init_def)
  have "rested self s2"
    unfolding rested_def
  proof (intro conjI allI impI)
    show "table_of s2 = table_of self" using s2(3) o1 by (simp add: outlives_def)
  next
    fix p d assume d: "ctx_at self p = Some d" "kept d"
    then have r: "ctx_at s1 p = Some (at_rest d)" "kept (at_rest d)" by (simp_all add: s1(1) kept_def at_rest_def)
    then obtain n where n: "fc_destroyed d \<longrightarrow> fc_trampoline_usage_counter d \<noteq> 0 \<longrightarrow> n \<noteq> 0" "ctx_at s2 p = Some ((at_rest d)\<lparr>fc_trampoline_usage_counter := n\<rparr>)"
      using outlivesD(1) [OF s2(3) r] by (auto simp: at_rest_def)
    show "\<exists>n. (fc_destroyed d \<longrightarrow> fc_trampoline_usage_counter d \<noteq> 0 \<longrightarrow> n \<noteq> 0) \<and>
        ctx_at s2 p = Some (d\<lparr>fc_activated := \<not> fc_destroyed d, fc_trampoline_usage_counter := n\<rparr>)"
      by (rule exI [of _ n]) (use n in \<open>simp add: at_rest_def\<close>)
  next
    fix p d' assume "ctx_at s2 p = Some d'"
    then obtain d1 n where "ctx_at s1 p = Some d1" "d' = d1\<lparr>fc_trampoline_usage_counter := n\<rparr>" using s2(3) unfolding outlives_def by blast
    then show "\<exists>d n. ctx_at self p = Some d \<and> d' = d\<lparr>fc_activated := \<not> fc_destroyed d, fc_trampoline_usage_counter := n\<rparr>"
      by (auto simp: s1(1) at_rest_def)
  qed
  moreover have "consistent s2" using s2(2) by (simp add: draining_def consistent_def)
  ultimately show ?thesis using s2 drain_dirty [OF s2(1)] l1 by (simp add: draining_def)
qed

end
