(* ===== verification/Gum_Hooks.thy ===== *)
theory Gum_Hooks
  imports Gum_Transactions
begin

text \<open>
  The administrative operations of the interceptor keep its invariant, and implement a map from functions
  to what is attached to them: their listeners in order and their replacement.
\<close>

section \<open>What an ended transaction leaves\<close>

definition ended :: "GumInterceptor \<Rightarrow> GumInterceptor \<Rightarrow> bool" where
  "ended self self' \<longleftrightarrow>
     table_of self' = table_of self \<and>
     (\<forall>p c. ctx_at self p = Some c \<longrightarrow> kept c \<longrightarrow>
        (\<exists>n b. (fc_destroyed c \<longrightarrow> fc_trampoline_usage_counter c \<noteq> 0 \<longrightarrow> n \<noteq> 0) \<and>
           ctx_at self' p = Some (c\<lparr>fc_activated := b, fc_trampoline_usage_counter := n\<rparr>))) \<and>
     (\<forall>p c'. ctx_at self' p = Some c' \<longrightarrow>
        (\<exists>c n b. ctx_at self p = Some c \<and> c' = c\<lparr>fc_activated := b, fc_trampoline_usage_counter := n\<rparr>))"

lemma rested_ended: "rested self self' \<Longrightarrow> ended self self'"
  unfolding rested_def ended_def by blast

lemma own_flags: "\<exists>n b. (fc_destroyed c \<longrightarrow> fc_trampoline_usage_counter c \<noteq> 0 \<longrightarrow> n \<noteq> 0) \<and> c = c\<lparr>fc_activated := b, fc_trampoline_usage_counter := n\<rparr>"
  for c :: GumFunctionContext
  by (rule exI [of _ "fc_trampoline_usage_counter c"], rule exI [of _ "fc_activated c"]) (cases c; simp)

lemma ended_same:
  assumes "ctx_at self' = ctx_at self" "table_of self' = table_of self"
  shows "ended self self'"
  unfolding ended_def assms
proof (intro conjI allI impI)
  fix p c assume c: "ctx_at self p = Some c"
  show "\<exists>n b. (fc_destroyed c \<longrightarrow> fc_trampoline_usage_counter c \<noteq> 0 \<longrightarrow> n \<noteq> 0) \<and>
      ctx_at self p = Some (c\<lparr>fc_activated := b, fc_trampoline_usage_counter := n\<rparr>)"
    using own_flags [of c] c by simp
  show "\<exists>d n b. ctx_at self p = Some d \<and> c = d\<lparr>fc_activated := b, fc_trampoline_usage_counter := n\<rparr>"
    using own_flags [of c] c by blast
qed simp

lemma ended_observed:
  assumes "ended s self'" "ctx_at s = ctx_at self" "table_of s = table_of self"
  shows "ended self self'"
  using assms(1) unfolding ended_def assms(2,3) .

abbreviation lower :: "GumInterceptor \<Rightarrow> GumInterceptor" where
  "lower self \<equiv> update_transaction (\<lambda>tx. tx\<lparr>tx_level := tx_level tx - 1\<rparr>) self"

lemma lower_observe [observe]:
  "tasks (lower self) = tasks self" "updates (lower self) = updates self" "pages (lower self) = pages self"
  "level (lower self) = level self - 1" "dirty (lower self) = dirty self"
  by (simp_all add: update_transaction_def tasks_def updates_def pages_def)

abbreviation working :: "environment \<Rightarrow> GumInterceptor \<Rightarrow> GumInterceptor" where
  "working en self \<equiv> commit_code en (ignore_current_thread en (lower self))"

lemma working_transaction: "ip_current_transaction (working en self) = ip_current_transaction (lower self)"
  by (simp add: commit_code_def ignore_current_thread_def)

lemma lower_pending:
  "tx_pending_destroy_tasks (ip_current_transaction (lower self)) = tasks self"
  "tx_pending_update_tasks (ip_current_transaction (lower self)) = [] \<longleftrightarrow> pages self = []"
  by (simp_all add: update_transaction_def tasks_def pages_def)

text \<open>The three ways a transaction ends.\<close>

lemma end_goes_on:
  "0 <s level (lower self) \<or> \<not> dirty (lower self) \<Longrightarrow> gum_interceptor_transaction_end en self = Some (lower self)"
  unfolding gum_interceptor_transaction_end_def Let_def by (elim disjE) simp_all

lemma end_idle:
  assumes "\<not> (0 <s level (lower self) \<or> \<not> dirty (lower self))" "tasks self = []" "pages self = []"
  shows "gum_interceptor_transaction_end en self =
    Some (unignore_current_thread en (update_transaction (\<lambda>tx. tx\<lparr>tx_is_dirty := False\<rparr>) (working en self)))"
proof -
  have "tx_pending_destroy_tasks (ip_current_transaction (lower self)) = []"
    "tx_pending_update_tasks (ip_current_transaction (lower self)) = []"
    using assms(2,3) by (simp_all only: lower_pending)
  then show ?thesis using assms(1) unfolding gum_interceptor_transaction_end_def Let_def by simp
qed

lemma end_works:
  assumes "\<not> (0 <s level (lower self) \<or> \<not> dirty (lower self))" "\<not> (tasks self = [] \<and> pages self = [])"
  shows "gum_interceptor_transaction_end en self = map_option (unignore_current_thread en)
      (Option.bind (run_updates en (tx_pending_update_tasks (ip_current_transaction (working en self)))
          ((working en self)\<lparr>ip_current_transaction := gum_interceptor_transaction_init\<rparr>))
        (run_destroy_tasks en 0 (tasks (working en self))))"
proof -
  have "\<not> (tx_pending_destroy_tasks (ip_current_transaction (lower self)) = [] \<and>
    tx_pending_update_tasks (ip_current_transaction (lower self)) = [])"
    unfolding lower_pending using assms(2) .
  then show ?thesis using assms(1)
    unfolding gum_interceptor_transaction_end_def Let_def working_transaction tasks_def by simp blast
qed

lemma end_transaction:
  assumes en: "orderly en" "stays_busy en" and c: "consistent self" and d: "tasks self \<noteq> [] \<or> pages self \<noteq> [] \<longrightarrow> dirty self"
    and ret: "gum_interceptor_transaction_end en self = Some self'"
  shows "sound self'" "ended self self'"
proof -
  let ?s2 = "working en self"
  have c2: "consistent (lower self)" "consistent ?s2"
    using c wf_observed [of "lower self" self] wf_observed [of ?s2 self] by (simp_all add: observe)
  have "sound self' \<and> ended self self'"
  proof (cases "0 <s level (lower self) \<or> \<not> dirty (lower self)")
    case True
    then have "self' = lower self" using ret end_goes_on by simp
    then show ?thesis using True c2(1) d ended_same [of "lower self" self] by (auto simp: sound_def outermost_def observe)
  next
    case go: False
    show ?thesis
    proof (cases "tasks self = [] \<and> pages self = []")
      case True
      let ?s3 = "unignore_current_thread en (update_transaction (\<lambda>tx. tx\<lparr>tx_is_dirty := False\<rparr>) ?s2)"
      have r: "self' = ?s3" using ret end_idle [OF go] True by simp
      have tx: "tasks ?s3 = tasks self" "pages ?s3 = pages self" "updates ?s3 = updates self"
        unfolding tasks_def pages_def updates_def update_transaction_def commit_code_def ignore_current_thread_def
          unignore_current_thread_def by simp_all
      have o: "ctx_at ?s3 = ctx_at self" "table_of ?s3 = table_of self" by (simp_all add: observe)
      have "consistent ?s3" using c tx o by (simp add: consistent_def)
      then show ?thesis unfolding r using True tx ended_same [OF o] by (simp add: sound_def)
    next
      case pending: False
      obtain s1 where s1: "run_updates en (tx_pending_update_tasks (ip_current_transaction ?s2)) (?s2\<lparr>ip_current_transaction := gum_interceptor_transaction_init\<rparr>) = Some s1"
          "map_option (unignore_current_thread en) (run_destroy_tasks en 0 (tasks ?s2) s1) = Some self'"
        using ret unfolding end_works [OF go pending] by (auto simp del: map_option_eq_Some split: Option.bind_splits)
      obtain s2 where s2: "run_destroy_tasks en 0 (tasks ?s2) s1 = Some s2" "consistent s2" "pages s2 = []" "tasks s2 \<noteq> [] \<longrightarrow> dirty s2" "rested ?s2 s2"
        using process_all [OF en c2(2) s1(1)] by blast
      have r: "self' = unignore_current_thread en s2" using s1(2) s2(1) by simp
      have "sound self'" using s2(2-4) wf_observed [of self' s2] by (simp add: sound_def r observe)
      moreover have "ended self self'"
      proof -
        have "ended ?s2 self'" using rested_ended [OF s2(5)] by (simp add: ended_def r observe)
        then show ?thesis by (rule ended_observed) (simp_all add: observe)
      qed
      ultimately show ?thesis ..
    qed
  qed
  then show "sound self'" "ended self self'" by simp_all
qed

section \<open>The map of hooks\<close>

record hook =
  hk_type :: GumInterceptorType
  hk_listeners :: "ListenerEntry list"
  hk_replacement :: gpointer
  hk_replacement_data :: gpointer

type_synonym hooks = "gpointer \<rightharpoonup> hook"

definition present :: "'a option list \<Rightarrow> 'a list" where
  "present xs = map the (filter (\<lambda>x. x \<noteq> None) xs)"

lemma present_simps [simp]:
  "present [] = []" "present (None # xs) = present xs" "present (Some x # xs) = x # present xs"
  "present (xs @ ys) = present xs @ present ys"
  by (simp_all add: present_def)

lemma present_filter [simp]:
  "present (filter (\<lambda>x. x \<noteq> None) xs) = present xs" "present (filter (\<lambda>x. \<exists>y. x = Some y) xs) = present xs"
  by (simp_all add: present_def)

lemma set_present: "set (present xs) = {x. Some x \<in> set xs}"
  by (induction xs rule: induct_list012) (auto simp: present_def)

definition hook_of :: "GumFunctionContext \<Rightarrow> hook" where
  "hook_of c = \<lparr>hk_type = fc_type c, hk_listeners = present (fc_listener_entries c),
                hk_replacement = fc_replacement_function c, hk_replacement_data = fc_replacement_data c\<rparr>"

definition hooks_of :: "GumInterceptor \<Rightarrow> hooks" where
  "hooks_of self a = Option.bind (map_of (table_of self) a) (\<lambda>p. map_option hook_of (ctx_at self p))"

lemma hooks_observed:
  "ctx_at self' = ctx_at self \<Longrightarrow> table_of self' = table_of self \<Longrightarrow> hooks_of self' = hooks_of self"
  by (rule ext) (simp add: hooks_of_def)

lemma hooks_registered:
  "consistent self \<Longrightarrow> hooks_of self a = None \<longleftrightarrow> map_of (table_of self) a = None"
  by (cases "map_of (table_of self) a") (auto simp: hooks_of_def elim: registered_ctx)

lemma hooks_at:
  "map_of (table_of self) a = Some p \<Longrightarrow> ctx_at self p = Some c \<Longrightarrow> hooks_of self a = Some (hook_of c)"
  by (simp add: hooks_of_def)

text \<open>Two functions never share a context.\<close>

lemma registered_once:
  assumes "consistent self" "map_of (table_of self) a = Some p" "map_of (table_of self) b = Some p"
  shows "a = b"
  using assms by (metis option.inject registered_ctx)

lemma hooks_set_ctx:
  assumes "consistent self" "map_of (table_of self) a = Some p"
  shows "hooks_of (set_ctx p (Some c) self) = (hooks_of self)(a \<mapsto> hook_of c)"
proof
  fix b
  show "hooks_of (set_ctx p (Some c) self) b = ((hooks_of self)(a \<mapsto> hook_of c)) b"
  proof (cases "map_of (table_of self) b")
    case None
    then show ?thesis using assms(2) by (auto simp: hooks_of_def observe)
  next
    case (Some q)
    then have "q \<noteq> p" if "b \<noteq> a" using registered_once [OF assms, of b] that by blast
    then show ?thesis using Some assms(2) by (cases "b = a") (simp_all add: hooks_of_def observe)
  qed
qed

lemma map_of_remove: "map_of (hash_remove a fs) = (map_of fs)(a := None)"
  by (induction fs) (auto simp: hash_remove_def fun_eq_iff)

lemma map_of_insert: "map_of (hash_insert a p fs) = (map_of fs)(a \<mapsto> p)"
  by (simp add: hash_insert_def map_of_remove [unfolded hash_remove_def] fun_eq_iff)

lemma hooks_destroyed:
  assumes "consistent self" "map_of (table_of self) a = Some p"
    and "ctx_at self' = (ctx_at self)(p \<mapsto> c)" "table_of self' = hash_remove a (table_of self)"
  shows "hooks_of self' = (hooks_of self)(a := None)"
proof
  fix b
  show "hooks_of self' b = ((hooks_of self)(a := None)) b"
  proof (cases "map_of (table_of self) b")
    case None
    then show ?thesis by (simp add: hooks_of_def assms(3,4) map_of_remove)
  next
    case (Some q)
    then have "q \<noteq> p" if "b \<noteq> a" using registered_once [OF assms(1,2), of b] that by blast
    then show ?thesis using Some by (cases "b = a") (simp_all add: hooks_of_def assms(3,4) map_of_remove)
  qed
qed

lemma hook_of_counters [simp]:
  "hook_of (c\<lparr>fc_activated := b, fc_trampoline_usage_counter := n\<rparr>) = hook_of c"
  "hook_of (c\<lparr>fc_destroyed := b\<rparr>) = hook_of c"
  by (simp_all add: hook_of_def)

lemma hooks_ended:
  assumes "consistent self" "ended self self'"
  shows "hooks_of self' = hooks_of self"
proof
  fix a
  show "hooks_of self' a = hooks_of self a"
  proof (cases "map_of (table_of self) a")
    case None
    then show ?thesis using assms(2) by (simp add: hooks_of_def ended_def)
  next
    case (Some p)
    then obtain c where c: "ctx_at self p = Some c" "\<not> fc_destroyed c" using registered_ctx [OF assms(1)] by blast
    then obtain n b where "ctx_at self' p = Some (c\<lparr>fc_activated := b, fc_trampoline_usage_counter := n\<rparr>)"
      using assms(2) unfolding ended_def kept_def by blast
    then show ?thesis using Some c assms(2) by (simp add: hooks_of_def ended_def)
  qed
qed

section \<open>The bodies of the operations\<close>

text \<open>Every body works in an open transaction, which it leaves open.\<close>

definition tx_kept :: "GumInterceptor \<Rightarrow> GumInterceptor \<Rightarrow> bool" where
  "tx_kept self self' \<longleftrightarrow> level self' = level self \<and> (dirty self' \<longleftrightarrow> dirty self)"

lemma tx_kept_refl [simp]: "tx_kept s s"
  by (simp add: tx_kept_def)

lemma tx_kept_trans: "tx_kept a b \<Longrightarrow> tx_kept b c \<Longrightarrow> tx_kept a c"
  by (simp add: tx_kept_def)

lemma tx_kept_steps [simp]:
  "tx_kept self (set_ctx p c self)" "tx_kept self (self\<lparr>ip_backend := be\<rparr>)" "tx_kept self (self\<lparr>ip_function_by_address := fs\<rparr>)"
  "tx_kept self (gum_interceptor_transaction_schedule_destroy p n self)"
  "tx_kept self (gum_interceptor_transaction_schedule_update en p x f self)"
  "tx_kept self (self\<lparr>ip_runtime := rt\<rparr>)"
  by (simp_all add: tx_kept_def set_ctx_def gum_interceptor_transaction_schedule_destroy_def
      gum_interceptor_transaction_schedule_update_def update_transaction_def Let_def)

lemma ensure_backend_tx: "ensure_backend en self = Some self' \<Longrightarrow> tx_kept self self'"
  by (auto simp: ensure_backend_def tx_kept_def split: if_splits)

lemma instrument_tx:
  assumes "gum_interceptor_instrument en type a self = Some (r, self')"
  shows "tx_kept self self'"
proof (cases "map_of (table_of self) a")
  case (Some p)
  then show ?thesis using assms by (auto simp: gum_interceptor_instrument_def split: option.splits)
next
  case None
  obtain s1 where s1: "ensure_backend en self = Some s1"
    using assms None by (auto simp: gum_interceptor_instrument_def split: option.splits)
  have "tx_kept s1 self'"
    using assms None s1
    by (auto simp: gum_interceptor_instrument_def gum_function_context_finalize_def Let_def tx_kept_def set_ctx_def
        gum_interceptor_transaction_schedule_update_def update_transaction_def split: option.splits if_splits prod.splits)
  then show ?thesis using ensure_backend_tx [OF s1] tx_kept_trans by blast
qed

lemma find_listener_None: "find_listener l es k = None \<longleftrightarrow> l \<notin> en_listener ` set (present es)"
proof (induction es arbitrary: k)
  case (Cons e es)
  then show ?case by (cases e) auto
qed simp

lemma find_listener_present:
  "find_listener l es k = Some i \<Longrightarrow> distinct (map en_listener (present es)) \<Longrightarrow>
     present (es[i - k := None]) = filter (\<lambda>e. en_listener e \<noteq> l) (present es)"
proof (induction es arbitrary: k)
  case (Cons e es)
  show ?case
  proof (cases "\<exists>x. e = Some x \<and> en_listener x = l")
    case True
    then obtain x where x: "e = Some x" "en_listener x = l" by blast
    then have i: "i = k" "l \<notin> en_listener ` set (present es)" using Cons.prems by auto
    then have "\<forall>y \<in> set (present es). en_listener y \<noteq> l" by blast
    then show ?thesis using x i(1) by (simp add: filter_id_conv)
  next
    case False
    then have i: "find_listener l es (Suc k) = Some i" using Cons.prems(1) by (cases e) auto
    then have "Suc k \<le> i" using find_listener_bounds by blast
    then have "i - k = Suc (i - Suc k)" by simp
    then show ?thesis using Cons.IH [OF i] Cons.prems(2) False by (cases e) auto
  qed
qed simp

definition listening :: "gpointer \<Rightarrow> hook \<Rightarrow> bool" where
  "listening l h \<longleftrightarrow> l \<in> en_listener ` set (hk_listeners h)"

definition unused_hook :: "hook \<Rightarrow> bool" where
  "unused_hook h \<longleftrightarrow> hk_replacement h = 0 \<and> hk_listeners h = []"

lemma has_listener_hook: "gum_function_context_has_listener c l \<longleftrightarrow> listening l (hook_of c)"
  using find_listener_None [of l "fc_listener_entries c" 0]
  by (simp add: gum_function_context_has_listener_def gum_function_context_find_listener_def listening_def hook_of_def)

lemma find_taken_slot_None: "find_taken_slot es k = None \<longleftrightarrow> present es = []"
proof (induction es arbitrary: k)
  case (Cons e es)
  then show ?case by (cases e) auto
qed simp

lemma is_empty_hook: "gum_function_context_is_empty c \<longleftrightarrow> unused_hook (hook_of c)"
  by (simp add: gum_function_context_is_empty_def gum_function_context_find_taken_listener_slot_def
      find_taken_slot_None unused_hook_def hook_of_def)

definition apart :: "hooks \<Rightarrow> bool" where
  "apart m \<longleftrightarrow> (\<forall>a h. m a = Some h \<longrightarrow> distinct (map en_listener (hk_listeners h)))"

text \<open>
  The part of the contexts that operations on known functions leave as it is; they may be destroyed, but
  not brought back.
\<close>

definition stable :: "GumFunctionContext \<Rightarrow> bool \<times> guint32 \<times> GumInterceptorType \<times> gpointer" where
  "stable c = (fc_activated c, fc_trampoline_usage_counter c, fc_type c, fc_on_leave_trampoline c)"

definition steady :: "GumInterceptor \<Rightarrow> GumInterceptor \<Rightarrow> bool" where
  "steady self self' \<longleftrightarrow>
     (\<forall>p. map_option stable (ctx_at self' p) = map_option stable (ctx_at self p)) \<and>
     (\<forall>p c c'. ctx_at self p = Some c \<longrightarrow> ctx_at self' p = Some c' \<longrightarrow> fc_destroyed c \<longrightarrow> fc_destroyed c')"

lemma steady_same: "ctx_at self' = ctx_at self \<Longrightarrow> steady self self'"
  by (simp add: steady_def)

lemma steady_refl [simp]: "steady s s"
  by (rule steady_same) simp

lemma steady_trans:
  assumes "steady a b" "steady b c"
  shows "steady a c"
  unfolding steady_def
proof (intro conjI allI impI)
  fix p
  show "map_option stable (ctx_at c p) = map_option stable (ctx_at a p)" using assms by (simp add: steady_def)
  fix x z assume xz: "ctx_at a p = Some x" "ctx_at c p = Some z" "fc_destroyed x"
  have "map_option stable (ctx_at b p) = Some (stable x)" using assms(1) xz(1) by (simp add: steady_def)
  then obtain y where "ctx_at b p = Some y" by blast
  then show "fc_destroyed z" using assms xz unfolding steady_def by blast
qed

lemma steady_set_ctx:
  assumes "ctx_at self p = Some c" "ctx_at self' = (ctx_at self)(p \<mapsto> c')" "stable c' = stable c" "fc_destroyed c \<longrightarrow> fc_destroyed c'"
  shows "steady self self'"
  using assms by (auto simp: steady_def)

text \<open>What a step of a body does: it keeps the invariant and the transaction, and changes one hook.\<close>

definition hooked :: "GumInterceptor \<Rightarrow> gpointer \<Rightarrow> hook option \<Rightarrow> GumInterceptor \<Rightarrow> bool" where
  "hooked self a h self' \<longleftrightarrow>
     consistent self' \<and> tx_kept self self' \<and> hooks_of self' = (hooks_of self)(a := h)"

lemma hooked_same: "consistent self \<Longrightarrow> hooks_of self a = h \<Longrightarrow> hooked self a h self"
  by (auto simp: hooked_def)

lemma set_ctx_hooked:
  assumes "consistent self" "map_of (table_of self) a = Some p" "ctx_at self p = Some c"
    and "fc_function_address c' = fc_function_address c" "fc_destroyed c' = fc_destroyed c" "fc_activated c' = fc_activated c"
  shows "hooked self a (Some (hook_of c')) (set_ctx p (Some c') self)"
  using wf_set_ctx [OF assms(1,3-6)] hooks_set_ctx [OF assms(1,2), of c'] by (simp add: hooked_def)

lemma schedule_hooked:
  assumes "hooked self a h self'" "ctx_at self' p = Some c" "\<not> fc_destroyed c" "\<And>q. n \<noteq> PERFORM_DESTROY q"
  shows "hooked self a h (gum_interceptor_transaction_schedule_destroy p n self')"
proof -
  have "hooks_of (gum_interceptor_transaction_schedule_destroy p n self') = hooks_of self'"
    by (rule hooks_observed) (simp_all add: observe)
  moreover have "tx_kept self (gum_interceptor_transaction_schedule_destroy p n self')"
    using assms(1) tx_kept_trans tx_kept_steps(4) unfolding hooked_def by blast
  ultimately show ?thesis using assms(1) wf_schedule_destroy [OF _ assms(2-4)] by (simp add: hooked_def)
qed

lemma destroy_hooked:
  assumes "consistent self" "map_of (table_of self) a = Some p"
  obtains self' where
    "gum_function_context_destroy en p (self\<lparr>ip_function_by_address := hash_remove a (table_of self)\<rparr>) = Some self'"
    "hooked self a None self'" "table_of self' = hash_remove a (table_of self)" "steady self self'"
proof -
  obtain c where c: "ctx_at self p = Some c" using registered_ctx [OF assms] by blast
  obtain self' where d: "gum_function_context_destroy en p (self\<lparr>ip_function_by_address := hash_remove a (table_of self)\<rparr>) = Some self'"
    "consistent self'" "ctx_at self' = (ctx_at self)(p \<mapsto> c\<lparr>fc_destroyed := True\<rparr>)" "table_of self' = hash_remove a (table_of self)"
    by (rule destroy_context [OF assms c])
  have "tx_kept self self'"
    using d(1) by (auto simp: gum_function_context_destroy_def Let_def tx_kept_def set_ctx_def update_transaction_def
        gum_interceptor_transaction_schedule_update_def gum_interceptor_transaction_schedule_destroy_def split: option.splits if_splits)
  then have "hooked self a None self'" using d(2) hooks_destroyed [OF assms d(3,4)] by (simp add: hooked_def)
  moreover have "steady self self'" by (rule steady_set_ctx [OF c d(3)]) (simp_all add: stable_def)
  ultimately show thesis using that d by blast
qed

definition new_hook :: "GumInterceptorType \<Rightarrow> hook" where
  "new_hook type = \<lparr>hk_type = type, hk_listeners = [], hk_replacement = 0, hk_replacement_data = 0\<rparr>"

lemma new_context_hook: "same_function (gum_function_context_new p a type) c \<Longrightarrow> hook_of c = new_hook type"
  by (simp add: hook_of_def new_hook_def same_function_def gum_function_context_new_def)

definition refusal :: "environment \<Rightarrow> GumInstrumentationError" where
  "refusal en = (if en_signing_required en then GUM_INSTRUMENTATION_ERROR_POLICY_VIOLATION
                 else GUM_INSTRUMENTATION_ERROR_WRONG_SIGNATURE)"

lemma instrument_hooked:
  assumes w: "consistent self" and fresh: "ctx_at self (en_new_ctx en) = None"
    and ret: "gum_interceptor_instrument en type a self = Some (r, self')"
  obtains (wrong_type) h where "hooks_of self a = Some h" "hk_type h \<noteq> type" "r = Inl GUM_INSTRUMENTATION_ERROR_WRONG_TYPE" "self' = self"
  | (known) p h where "hooks_of self a = Some h" "hk_type h = type" "r = Inr p" "self' = self" "map_of (table_of self) a = Some p"
  | (refused) "hooks_of self a = None" "r = Inl (refusal en)" "hooked self a None self'"
  | (new) p where "hooks_of self a = None" "r = Inr p" "map_of (table_of self') a = Some p" "hooked self a (Some (new_hook type)) self'"
proof -
  have c: "consistent self'" and i: "instrumented en type a self r self'" using instrument_wf [OF w fresh ret] by auto
  have tx: "tx_kept self self'" by (rule instrument_tx [OF ret])
  show thesis
  proof (cases "map_of (table_of self) a")
    case (Some p)
    then obtain d where d: "self' = self" "ctx_at self p = Some d" "r = (if fc_type d = type then Inr p else Inl GUM_INSTRUMENTATION_ERROR_WRONG_TYPE)"
      using i by (auto simp: instrumented_def)
    have h: "hooks_of self a = Some (hook_of d)" "hk_type (hook_of d) = fc_type d"
      using hooks_at [OF Some d(2)] by (simp_all add: hook_of_def)
    show ?thesis using wrong_type known Some d h by (cases "fc_type d = type") auto
  next
    case None
    have none: "hooks_of self a = None" using None by (simp add: hooks_of_def)
    show ?thesis
    proof (cases r)
      case (Inl e)
      then have o: "ctx_at self' = ctx_at self" "table_of self' = table_of self" "e = refusal en"
        using i None by (auto simp: instrumented_def refusal_def)
      have "hooked self a None self'" using c tx hooks_observed [OF o(1,2)] none by (auto simp: hooked_def)
      then show ?thesis using refused none Inl o(3) by blast
    next
      case (Inr p)
      then obtain d where d: "ctx_at self' = (ctx_at self)(p \<mapsto> d)" "same_function (gum_function_context_new p a type) d"
          "table_of self' = hash_insert a p (table_of self)" "p = en_new_ctx en"
        using i None by (auto simp: instrumented_def)
      have "hooks_of self' = (hooks_of self)(a \<mapsto> new_hook type)"
      proof
        fix b
        show "hooks_of self' b = ((hooks_of self)(a \<mapsto> new_hook type)) b"
        proof (cases "b = a")
          case True
          then show ?thesis using new_context_hook [OF d(2)] by (simp add: hooks_of_def d(1,3) map_of_insert)
        next
          case False
          then have t: "map_of (table_of self') b = map_of (table_of self) b" by (simp add: d(3) map_of_insert)
          show ?thesis
          proof (cases "map_of (table_of self) b")
            case None
            then show ?thesis using t False by (simp add: hooks_of_def)
          next
            case (Some q)
            then have "q \<noteq> p" using registered_ctx [OF w Some] fresh d(4) by fastforce
            then show ?thesis using t False Some by (simp add: hooks_of_def d(1))
          qed
        qed
      qed
      then have "hooked self a (Some (new_hook type)) self'" using c tx by (simp add: hooked_def)
      moreover have "map_of (table_of self') a = Some p" by (simp add: d(3) map_of_insert)
      ultimately show ?thesis using new none Inr by blast
    qed
  qed
qed

lemma add_listener_hooked:
  assumes w: "consistent self" and p: "map_of (table_of self) a = Some p" and h: "hooks_of self a = Some h"
  obtains self' where "gum_function_context_add_listener en p l d self = Some self'"
    "hooked self a (Some (h\<lparr>hk_listeners := hk_listeners h @ [\<lparr>en_listener = l, en_function_data = d\<rparr>]\<rparr>)) self'"
proof -
  obtain c where c: "ctx_at self p = Some c" "\<not> fc_destroyed c" using registered_ctx [OF w p] by blast
  have hc: "h = hook_of c" using hooks_at [OF p c(1)] h by simp
  define entries where "entries = filter (\<lambda>e. e \<noteq> None) (fc_listener_entries c) @ [Some \<lparr>en_listener = l, en_function_data = d\<rparr>]"
  define c' where "c' = (if if_on_leave (en_ifaces en l) \<noteq> None
    then c\<lparr>fc_listener_entries := entries, fc_has_on_leave_listener := True\<rparr> else c\<lparr>fc_listener_entries := entries\<rparr>)"
  define self' where "self' = gum_interceptor_transaction_schedule_destroy p (UNREF_ENTRIES (fc_listener_entries c)) (set_ctx p (Some c') self)"
  have same: "fc_function_address c' = fc_function_address c" "fc_destroyed c' = fc_destroyed c" "fc_activated c' = fc_activated c"
    by (simp_all add: c'_def)
  have "hook_of c' = h\<lparr>hk_listeners := hk_listeners h @ [\<lparr>en_listener = l, en_function_data = d\<rparr>]\<rparr>"
    by (simp add: hc hook_of_def c'_def entries_def)
  then have "hooked self a (Some (h\<lparr>hk_listeners := hk_listeners h @ [\<lparr>en_listener = l, en_function_data = d\<rparr>]\<rparr>)) (set_ctx p (Some c') self)"
    using set_ctx_hooked [OF w p c(1) same] by simp
  then have "hooked self a (Some (h\<lparr>hk_listeners := hk_listeners h @ [\<lparr>en_listener = l, en_function_data = d\<rparr>]\<rparr>)) self'"
    unfolding self'_def by (rule schedule_hooked [where c = c']) (use c same in \<open>simp_all add: observe\<close>)
  moreover have "gum_function_context_add_listener en p l d self = Some self'"
    unfolding gum_function_context_add_listener_def by (simp add: c(1) Let_def self'_def c'_def entries_def)
  ultimately show thesis using that by blast
qed

text \<open>The specification of the operations on the map; \<open>e\<close> is the error of a function that cannot be patched.\<close>

definition attach_spec ::
    "GumInstrumentationError \<Rightarrow> gpointer \<Rightarrow> gpointer \<Rightarrow> gpointer \<Rightarrow> hooks \<Rightarrow> GumAttachReturn \<Rightarrow> hooks \<Rightarrow> bool" where
  "attach_spec e f l d m r m' \<longleftrightarrow>
     (let entry = \<lparr>en_listener = l, en_function_data = d\<rparr>
      in case m f of
           None \<Rightarrow>
             (r = attach_error e \<and> m' = m) \<or>
             (r = GUM_ATTACH_OK \<and> m' = m(f \<mapsto> (new_hook GUM_INTERCEPTOR_TYPE_DEFAULT)\<lparr>hk_listeners := [entry]\<rparr>))
         | Some h \<Rightarrow>
             (if hk_type h \<noteq> GUM_INTERCEPTOR_TYPE_DEFAULT then r = GUM_ATTACH_WRONG_TYPE \<and> m' = m
              else if listening l h then r = GUM_ATTACH_ALREADY_ATTACHED \<and> m' = m
              else r = GUM_ATTACH_OK \<and> m' = m(f \<mapsto> h\<lparr>hk_listeners := hk_listeners h @ [entry]\<rparr>)))"

definition replace_spec ::
    "GumInstrumentationError \<Rightarrow> GumInterceptorType \<Rightarrow> gpointer \<Rightarrow> gpointer \<Rightarrow> gpointer \<Rightarrow> hooks \<Rightarrow> GumReplaceReturn \<Rightarrow> hooks \<Rightarrow> bool" where
  "replace_spec e type f g d m r m' \<longleftrightarrow>
     (case m f of
        None \<Rightarrow>
          (r = replace_error e \<and> m' = m) \<or>
          (r = GUM_REPLACE_OK \<and> m' = m(f \<mapsto> (new_hook type)\<lparr>hk_replacement := g, hk_replacement_data := d\<rparr>))
      | Some h \<Rightarrow>
          (if hk_type h \<noteq> type then r = GUM_REPLACE_WRONG_TYPE \<and> m' = m
           else if hk_replacement h \<noteq> 0 then r = GUM_REPLACE_ALREADY_REPLACED \<and> m' = m
           else r = GUM_REPLACE_OK \<and> m' = m(f \<mapsto> h\<lparr>hk_replacement := g, hk_replacement_data := d\<rparr>)))"

definition drop_unused :: "hook \<Rightarrow> hook option" where
  "drop_unused h = (if unused_hook h then None else Some h)"

definition without_listener :: "gpointer \<Rightarrow> hook \<Rightarrow> hook option" where
  "without_listener l h =
     (if listening l h then drop_unused (h\<lparr>hk_listeners := filter (\<lambda>e. en_listener e \<noteq> l) (hk_listeners h)\<rparr>) else Some h)"

definition detach_spec :: "gpointer \<Rightarrow> hooks \<Rightarrow> hooks" where
  "detach_spec l m = (\<lambda>f. Option.bind (m f) (without_listener l))"

definition revert_spec :: "gpointer \<Rightarrow> hooks \<Rightarrow> hooks" where
  "revert_spec f m =
     (case m f of
        None \<Rightarrow> m
      | Some h \<Rightarrow> m(f := drop_unused (h\<lparr>hk_replacement := 0, hk_replacement_data := 0\<rparr>)))"

lemma attach_body_spec:
  assumes w: "consistent self" and fresh: "ctx_at self (en_new_ctx en) = None"
    and ret: "attach_body en a l d self = Some (r, self')"
  obtains f where "gum_interceptor_resolve en self a = Some f" "attach_spec (refusal en) f l d (hooks_of self) r (hooks_of self')"
    "consistent self'" "tx_kept self self'"
proof -
  obtain f where f: "gum_interceptor_resolve en self a = Some f"
    using ret by (auto simp: attach_body_def split: option.splits)
  obtain q s1 where s1: "gum_interceptor_instrument en GUM_INTERCEPTOR_TYPE_DEFAULT f self = Some (q, s1)"
    using ret f by (auto simp: attach_body_def split: option.splits)
  let ?entry = "\<lparr>en_listener = l, en_function_data = d\<rparr>"
  have adds: "r = GUM_ATTACH_OK \<and> hooked s1 f (Some (h\<lparr>hk_listeners := hk_listeners h @ [?entry]\<rparr>)) self'"
    if asm: "q = Inr p" "consistent s1" "map_of (table_of s1) f = Some p" "hooks_of s1 f = Some h" "\<not> listening l h" for p h
  proof -
    obtain c where c: "ctx_at s1 p = Some c" using registered_ctx [OF asm(2,3)] by blast
    have "\<not> gum_function_context_has_listener c l" using asm(5) hooks_at [OF asm(3) c] asm(4) by (simp add: has_listener_hook)
    then show ?thesis using add_listener_hooked [OF asm(2-4), of en l d] ret f s1 asm(1) c
      by (auto simp: attach_body_def)
  qed
  from w fresh s1 have "attach_spec (refusal en) f l d (hooks_of self) r (hooks_of self') \<and> consistent self' \<and> tx_kept self self'"
  proof (cases rule: instrument_hooked)
    case (wrong_type h)
    then show ?thesis using ret f s1 w by (simp add: attach_body_def attach_spec_def)
  next
    case (known p h)
    obtain c where c: "ctx_at self p = Some c" using registered_ctx [OF w known(5)] by blast
    have hc: "h = hook_of c" using hooks_at [OF known(5) c] known(1) by simp
    show ?thesis
    proof (cases "listening l h")
      case True
      then show ?thesis using ret f s1 known c w hc by (simp add: attach_body_def attach_spec_def has_listener_hook)
    next
      case False
      then show ?thesis using adds [of p h] known w by (simp add: hooked_def attach_spec_def)
    qed
  next
    case refused
    then show ?thesis using ret f s1 by (auto simp: attach_body_def attach_spec_def hooked_def)
  next
    case (new p)
    then have s: "consistent s1" "hooks_of s1 f = Some (new_hook GUM_INTERCEPTOR_TYPE_DEFAULT)" by (simp_all add: hooked_def)
    have "\<not> listening l (new_hook GUM_INTERCEPTOR_TYPE_DEFAULT)" by (simp add: listening_def new_hook_def)
    then have "r = GUM_ATTACH_OK" "hooked s1 f (Some ((new_hook GUM_INTERCEPTOR_TYPE_DEFAULT)\<lparr>hk_listeners := [?entry]\<rparr>)) self'"
      using adds [OF new(2) s(1) new(3) s(2)] by (simp_all add: new_hook_def)
    then show ?thesis using new(1,4) tx_kept_trans by (auto simp: attach_spec_def hooked_def)
  qed
  then show thesis using that f by blast
qed

lemma replace_body_spec:
  assumes w: "consistent self" and fresh: "ctx_at self (en_new_ctx en) = None"
    and ret: "replace_body en type a g d self = Some ((r, orig), self')"
  obtains f where "gum_interceptor_resolve en self a = Some f" "replace_spec (refusal en) type f g d (hooks_of self) r (hooks_of self')"
    "consistent self'" "tx_kept self self'"
proof -
  obtain f where f: "gum_interceptor_resolve en self a = Some f"
    using ret by (auto simp: replace_body_def split: option.splits)
  obtain q s1 where s1: "gum_interceptor_instrument en type f self = Some (q, s1)"
    using ret f by (auto simp: replace_body_def split: option.splits)
  have sets: "r = GUM_REPLACE_OK \<and> hooked s1 f (Some (h\<lparr>hk_replacement := g, hk_replacement_data := d\<rparr>)) self'"
    if asm: "q = Inr p" "consistent s1" "map_of (table_of s1) f = Some p" "hooks_of s1 f = Some h" "hk_replacement h = 0" for p h
  proof -
    obtain c where c: "ctx_at s1 p = Some c" using registered_ctx [OF asm(2,3)] by blast
    let ?c = "c\<lparr>fc_replacement_data := d, fc_replacement_function := g\<rparr>"
    have hc: "h = hook_of c" using hooks_at [OF asm(3) c] asm(4) by simp
    then have "fc_replacement_function c = 0" using asm(5) by (simp add: hook_of_def)
    then have "r = GUM_REPLACE_OK" "self' = set_ctx p (Some ?c) s1" using ret f s1 asm(1) c by (simp_all add: replace_body_def)
    moreover have "hook_of ?c = h\<lparr>hk_replacement := g, hk_replacement_data := d\<rparr>" by (simp add: hc hook_of_def)
    ultimately show ?thesis using set_ctx_hooked [OF asm(2,3) c, of ?c] by simp
  qed
  from w fresh s1 have "replace_spec (refusal en) type f g d (hooks_of self) r (hooks_of self') \<and> consistent self' \<and> tx_kept self self'"
  proof (cases rule: instrument_hooked)
    case (wrong_type h)
    then show ?thesis using ret f s1 w by (auto simp: replace_body_def replace_spec_def)
  next
    case (known p h)
    obtain c where c: "ctx_at self p = Some c" using registered_ctx [OF w known(5)] by blast
    have hc: "h = hook_of c" using hooks_at [OF known(5) c] known(1) by simp
    show ?thesis
    proof (cases "hk_replacement h = 0")
      case True
      then show ?thesis using sets [of p h] known w by (simp add: hooked_def replace_spec_def)
    next
      case False
      then have "fc_replacement_function c \<noteq> 0" by (simp add: hc hook_of_def)
      then show ?thesis using False ret f s1 known c w by (auto simp: replace_body_def replace_spec_def)
    qed
  next
    case refused
    then show ?thesis using ret f s1 by (auto simp: replace_body_def replace_spec_def hooked_def)
  next
    case (new p)
    then have s: "consistent s1" "hooks_of s1 f = Some (new_hook type)" by (simp_all add: hooked_def)
    have "hk_replacement (new_hook type) = 0" by (simp add: new_hook_def)
    then show ?thesis using sets [OF new(2) s(1) new(3) s(2)] new(1,4) tx_kept_trans
      by (auto simp: replace_spec_def hooked_def)
  qed
  then show thesis using that f by blast
qed

lemma drop_unused_hooked:
  assumes h: "hooked self a (Some (hook_of c)) self'" and p: "map_of (table_of self') a = Some p" and c: "ctx_at self' p = Some c"
  obtains s where "(if gum_function_context_is_empty c
      then gum_function_context_destroy en p (self'\<lparr>ip_function_by_address := hash_remove a (table_of self')\<rparr>) else Some self') = Some s"
    "hooked self a (drop_unused (hook_of c)) s"
    "\<forall>b. b \<noteq> a \<longrightarrow> map_of (table_of s) b = map_of (table_of self') b" "steady self' s"
proof (cases "gum_function_context_is_empty c")
  case True
  have w: "consistent self'" using h by (simp add: hooked_def)
  obtain s where s: "gum_function_context_destroy en p (self'\<lparr>ip_function_by_address := hash_remove a (table_of self')\<rparr>) = Some s"
    "hooked self' a None s" "table_of s = hash_remove a (table_of self')" "steady self' s"
    by (rule destroy_hooked [OF w p])
  have "hooked self a None s" using h s(2) tx_kept_trans by (auto simp: hooked_def)
  then show thesis using that [of s] s True by (simp add: drop_unused_def is_empty_hook map_of_remove)
next
  case False
  then show thesis using that [of self'] h by (simp add: drop_unused_def is_empty_hook)
qed

lemma detach_one_hooked:
  assumes w: "consistent self" and p: "map_of (table_of self) a = Some p" and ap: "apart (hooks_of self)"
  obtains s where "detach_one en l a self = Some s" "hooked self a (Option.bind (hooks_of self a) (without_listener l)) s"
    "\<forall>b. b \<noteq> a \<longrightarrow> map_of (table_of s) b = map_of (table_of self) b" "steady self s"
proof -
  obtain c where c: "ctx_at self p = Some c" "\<not> fc_destroyed c" using registered_ctx [OF w p] by blast
  have hc: "hooks_of self a = Some (hook_of c)" by (rule hooks_at [OF p c(1)])
  show thesis
  proof (cases "gum_function_context_has_listener c l")
    case False
    then have "detach_one en l a self = Some self" using p c by (simp add: detach_one_def)
    moreover have "hooked self a (Option.bind (hooks_of self a) (without_listener l)) self"
      using w hc False by (auto intro!: hooked_same simp: without_listener_def has_listener_hook)
    ultimately show ?thesis using that [of self] by simp
  next
    case True
    obtain i b where i: "gum_function_context_find_listener c l = Some i"
      "gum_function_context_remove_listener en p l self =
         Some (set_ctx p (Some (c\<lparr>fc_listener_entries := (fc_listener_entries c)[i := None], fc_has_on_leave_listener := b\<rparr>)) self)"
      using remove_listener_returns [OF c(1) True] by blast
    define c' where "c' = c\<lparr>fc_listener_entries := (fc_listener_entries c)[i := None], fc_has_on_leave_listener := b\<rparr>"
    define s1 where "s1 = gum_interceptor_transaction_schedule_destroy p (UNREF_LISTENER l) (set_ctx p (Some c') self)"
    have same: "fc_function_address c' = fc_function_address c" "fc_destroyed c' = fc_destroyed c" "fc_activated c' = fc_activated c"
      by (simp_all add: c'_def)
    have "distinct (map en_listener (hk_listeners (hook_of c)))" using ap hc unfolding apart_def by blast
    then have "distinct (map en_listener (present (fc_listener_entries c)))" by (simp add: hook_of_def)
    then have "present ((fc_listener_entries c)[i := None]) = filter (\<lambda>e. en_listener e \<noteq> l) (present (fc_listener_entries c))"
      using find_listener_present [of l "fc_listener_entries c" 0 i] i(1) by (simp add: gum_function_context_find_listener_def)
    then have hook: "drop_unused (hook_of c') = without_listener l (hook_of c)"
      using True by (simp add: without_listener_def has_listener_hook hook_of_def c'_def)
    have h1: "hooked self a (Some (hook_of c')) s1"
      unfolding s1_def by (rule schedule_hooked [OF set_ctx_hooked [OF w p c(1) same], where c = c']) (use c same in \<open>simp_all add: observe\<close>)
    have o1: "map_of (table_of s1) a = Some p" "ctx_at s1 p = Some c'" "table_of s1 = table_of self" using p by (simp_all add: s1_def observe)
    obtain s where s: "(if gum_function_context_is_empty c'
        then gum_function_context_destroy en p (s1\<lparr>ip_function_by_address := hash_remove a (table_of s1)\<rparr>) else Some s1) = Some s"
      "hooked self a (drop_unused (hook_of c')) s" "\<forall>b. b \<noteq> a \<longrightarrow> map_of (table_of s) b = map_of (table_of s1) b" "steady s1 s"
      by (rule drop_unused_hooked [OF h1 o1(1,2), where en = en])
    have "detach_one en l a self = Some s"
      using s(1) p c(1) True i(2) o1(2) unfolding detach_one_def by (simp add: c'_def [symmetric] s1_def [symmetric] Let_def)
    moreover have "steady self s1" by (rule steady_set_ctx [OF c(1), where c' = c']) (simp_all add: s1_def observe c'_def stable_def)
    ultimately show ?thesis using that s(2,3) hc hook o1(3) steady_trans [OF _ s(4)] by simp
  qed
qed

lemma without_listener_apart:
  "distinct (map en_listener (hk_listeners h)) \<Longrightarrow> without_listener l h = Some h' \<Longrightarrow> distinct (map en_listener (hk_listeners h'))"
  by (auto simp: without_listener_def drop_unused_def distinct_map_filter split: if_splits)

lemma apart_update: "apart m \<Longrightarrow> (\<And>h. x = Some h \<Longrightarrow> distinct (map en_listener (hk_listeners h))) \<Longrightarrow> apart (m(a := x))"
  by (auto simp: apart_def)

lemma detach_loop:
  "consistent self \<Longrightarrow> apart (hooks_of self) \<Longrightarrow> distinct fs \<Longrightarrow> (\<forall>f \<in> set fs. map_of (table_of self) f \<noteq> None) \<Longrightarrow>
   \<exists>self'. run_all (detach_one en l) fs self = Some self' \<and> consistent self' \<and> tx_kept self self' \<and> steady self self' \<and>
     hooks_of self' = (\<lambda>f. if f \<in> set fs then Option.bind (hooks_of self f) (without_listener l) else hooks_of self f)"
proof (induction fs arbitrary: self)
  case (Cons f fs)
  obtain p where p: "map_of (table_of self) f = Some p" using Cons.prems(4) by auto
  obtain s where s: "detach_one en l f self = Some s" "hooked self f (Option.bind (hooks_of self f) (without_listener l)) s"
    "\<forall>b. b \<noteq> f \<longrightarrow> map_of (table_of s) b = map_of (table_of self) b" "steady self s"
    by (rule detach_one_hooked [OF Cons.prems(1) p Cons.prems(2), where en = en and l = l])
  have h: "hooks_of s = (hooks_of self)(f := Option.bind (hooks_of self f) (without_listener l))" using s(2) by (simp add: hooked_def)
  have ap: "apart (hooks_of s)"
    unfolding h
  proof (rule apart_update [OF Cons.prems(2)])
    fix k assume "Option.bind (hooks_of self f) (without_listener l) = Some k"
    then obtain h where h: "hooks_of self f = Some h" "without_listener l h = Some k" by (auto split: Option.bind_splits)
    then have "distinct (map en_listener (hk_listeners h))" using Cons.prems(2) unfolding apart_def by blast
    then show "distinct (map en_listener (hk_listeners k))" using h(2) by (rule without_listener_apart)
  qed
  have reg: "\<forall>g \<in> set fs. map_of (table_of s) g \<noteq> None"
  proof
    fix g assume "g \<in> set fs"
    then show "map_of (table_of s) g \<noteq> None" using Cons.prems(3,4) s(3) by (cases "g = f") auto
  qed
  have c: "consistent s" "tx_kept self s" "distinct fs" using s(2) Cons.prems(3) by (simp_all add: hooked_def)
  obtain s' where s': "run_all (detach_one en l) fs s = Some s'" "consistent s'" "tx_kept s s'" "steady s s'"
    "hooks_of s' = (\<lambda>g. if g \<in> set fs then Option.bind (hooks_of s g) (without_listener l) else hooks_of s g)"
    using Cons.IH [OF c(1) ap c(3) reg] by blast
  have "hooks_of s' = (\<lambda>g. if g \<in> set (f # fs) then Option.bind (hooks_of self g) (without_listener l) else hooks_of self g)"
    using s'(5) h Cons.prems(3) by (auto simp: fun_eq_iff)
  then show ?case using s(1) s' tx_kept_trans [OF c(2) s'(3)] steady_trans [OF s(4) s'(4)] by simp
qed auto

lemma forget_observe:
  "ctx_at (self\<lparr>ip_runtime := forget_everywhere l (ip_runtime self)\<rparr>) = ctx_at self"
  "table_of (self\<lparr>ip_runtime := rt\<rparr>) = table_of self"
  by (simp_all add: ctx_at_def fun_eq_iff forget_everywhere_def)

lemma registered_keys:
  assumes "orderly en" "consistent self"
  shows "distinct (en_hash_order en (map fst (table_of self)))"
    "set (en_hash_order en (map fst (table_of self))) = {f. hooks_of self f \<noteq> None}"
proof -
  have perm: "mset (en_hash_order en (map fst (table_of self))) = mset (map fst (table_of self))" using assms(1) by (simp add: orderly_def)
  then show "distinct (en_hash_order en (map fst (table_of self)))"
    using assms(2) mset_eq_imp_distinct_iff [OF perm] by (simp add: consistent_def table_wf_def)
  have "set (en_hash_order en (map fst (table_of self))) = fst ` set (table_of self)" using perm by (metis set_mset_mset set_map)
  then show "set (en_hash_order en (map fst (table_of self))) = {f. hooks_of self f \<noteq> None}"
    using hooks_registered [OF assms(2)] by (auto simp: map_of_eq_None_iff)
qed

lemma detach_body_spec:
  assumes "orderly en" "consistent self" "apart (hooks_of self)"
  obtains self' where "detach_body en l self = Some self'" "consistent self'" "tx_kept self self'" "steady self self'"
    "hooks_of self' = detach_spec l (hooks_of self)"
proof -
  let ?fs = "en_hash_order en (map fst (table_of self))"
  note keys = registered_keys [OF assms(1,2)]
  have "\<forall>f \<in> set ?fs. map_of (table_of self) f \<noteq> None" using keys(2) hooks_registered [OF assms(2)] by auto
  then obtain s where s: "run_all (detach_one en l) ?fs self = Some s" "consistent s" "tx_kept self s" "steady self s"
    "hooks_of s = (\<lambda>f. if f \<in> set ?fs then Option.bind (hooks_of self f) (without_listener l) else hooks_of self f)"
    using detach_loop [OF assms(2,3) keys(1)] by blast
  let ?s = "s\<lparr>ip_runtime := forget_everywhere l (ip_runtime s)\<rparr>"
  have "hooks_of ?s = hooks_of s" by (rule hooks_observed) (simp_all only: forget_observe)
  moreover have "hooks_of s = detach_spec l (hooks_of self)" using s(5) keys(2) by (auto simp: detach_spec_def fun_eq_iff)
  moreover have "consistent ?s"
    using s(2) wf_observed [of ?s s] by (simp only: forget_observe observe_runtime)
  moreover have "tx_kept self ?s" using s(3) by (simp add: tx_kept_def)
  moreover have "steady self ?s" using s(4) unfolding steady_def forget_observe .
  ultimately show thesis using that [of ?s] s(1) by (simp add: detach_body_def)
qed

lemma revert_body_spec:
  assumes w: "consistent self" and f: "gum_interceptor_resolve en self a = Some f"
  obtains self' where "revert_body en a self = Some self'" "consistent self'" "tx_kept self self'" "steady self self'"
    "hooks_of self' = revert_spec f (hooks_of self)"
proof (cases "map_of (table_of self) f")
  case None
  then show thesis using that [of self] f w by (simp add: revert_body_def revert_spec_def hooks_of_def)
next
  case (Some p)
  obtain c where c: "ctx_at self p = Some c" using registered_ctx [OF w Some] by blast
  define c' where "c' = c\<lparr>fc_replacement_function := 0, fc_replacement_data := 0\<rparr>"
  define s1 where "s1 = set_ctx p (Some c') self"
  have h1: "hooked self f (Some (hook_of c')) s1"
    unfolding s1_def by (rule set_ctx_hooked [OF w Some c]) (simp_all add: c'_def)
  have o1: "map_of (table_of s1) f = Some p" "ctx_at s1 p = Some c'" using Some by (simp_all add: s1_def observe)
  obtain s where s: "(if gum_function_context_is_empty c'
      then gum_function_context_destroy en p (s1\<lparr>ip_function_by_address := hash_remove f (table_of s1)\<rparr>) else Some s1) = Some s"
    "hooked self f (drop_unused (hook_of c')) s" "steady s1 s"
    by (rule drop_unused_hooked [OF h1 o1, where en = en])
  have "revert_body en a self = Some s"
    using s(1) f Some c unfolding revert_body_def
    by (cases "gum_function_context_is_empty c'") (simp_all add: c'_def [symmetric] s1_def [symmetric] Let_def)
  moreover have "hook_of c' = (hook_of c)\<lparr>hk_replacement := 0, hk_replacement_data := 0\<rparr>" by (simp add: hook_of_def c'_def)
  moreover have "steady self s1" by (rule steady_set_ctx [OF c, where c' = c']) (simp_all add: s1_def observe c'_def stable_def)
  ultimately show thesis using that s(2) hooks_at [OF Some c] steady_trans [OF _ s(3)] by (simp add: hooked_def revert_spec_def)
qed

lemma dispose_loop:
  "consistent self \<Longrightarrow> distinct fs \<Longrightarrow> (\<forall>f \<in> set fs. map_of (table_of self) f \<noteq> None) \<Longrightarrow>
   \<exists>self'. run_all (dispose_one en) fs self = Some self' \<and> consistent self' \<and> tx_kept self self' \<and> steady self self' \<and>
     hooks_of self' = (\<lambda>f. if f \<in> set fs then None else hooks_of self f)"
proof (induction fs arbitrary: self)
  case (Cons f fs)
  obtain p where p: "map_of (table_of self) f = Some p" using Cons.prems(3) by auto
  obtain s where s: "gum_function_context_destroy en p (self\<lparr>ip_function_by_address := hash_remove f (table_of self)\<rparr>) = Some s"
    "hooked self f None s" "table_of s = hash_remove f (table_of self)" "steady self s"
    by (rule destroy_hooked [OF Cons.prems(1) p])
  have "\<forall>g \<in> set fs. map_of (table_of s) g \<noteq> None" using Cons.prems(2,3) by (auto simp: s(3) map_of_remove)
  note reg = this
  have c: "consistent s" "tx_kept self s" "distinct fs" using s(2) Cons.prems(2) by (simp_all add: hooked_def)
  obtain s' where s': "run_all (dispose_one en) fs s = Some s'" "consistent s'" "tx_kept s s'" "steady s s'"
    "hooks_of s' = (\<lambda>g. if g \<in> set fs then None else hooks_of s g)"
    using Cons.IH [OF c(1,3) reg] by blast
  have "hooks_of s = (hooks_of self)(f := None)" using s(2) by (simp add: hooked_def)
  then have "hooks_of s' = (\<lambda>g. if g \<in> set (f # fs) then None else hooks_of self g)" using s'(5) by (auto simp: fun_eq_iff)
  moreover have "dispose_one en f self = Some s" using s(1) p by (simp add: dispose_one_def)
  ultimately show ?case using s' tx_kept_trans [OF c(2) s'(3)] steady_trans [OF s(4) s'(4)] by simp
qed auto

lemma dispose_body_spec:
  assumes "orderly en" "consistent self"
  obtains self' where "dispose_body en self = Some self'" "consistent self'" "tx_kept self self'" "steady self self'" "hooks_of self' = Map.empty"
proof -
  note keys = registered_keys [OF assms]
  have "\<forall>f \<in> set (en_hash_order en (map fst (table_of self))). map_of (table_of self) f \<noteq> None"
    using keys(2) hooks_registered [OF assms(2)] by auto
  from dispose_loop [OF assms(2) keys(1) this, of en] show thesis
    using that keys(2) by (auto simp: dispose_body_def fun_eq_iff)
qed

end
