(* ===== verification/Gum_Operations.thy ===== *)
theory Gum_Operations
  imports Gum_Hooks
begin

text \<open>
  The operations of the interceptor as a client calls them, in any order and from reachable states: they
  implement the map of hooks, keep the invariant, return, and never free what is in use.
\<close>

section \<open>Resolving redirections\<close>

abbreviation redirect :: "environment \<Rightarrow> GumInterceptor \<Rightarrow> gpointer \<Rightarrow> gpointer" where
  "redirect en self a \<equiv> gum_interceptor_backend_resolve_redirect (en_cs en) (ip_backend self) a"

definition resolved :: "environment \<Rightarrow> GumInterceptor \<Rightarrow> gpointer \<Rightarrow> bool" where
  "resolved en self a \<longleftrightarrow> gum_interceptor_has self a \<or> en_signing_required en \<or> redirect en self a = 0"

lemma resolve_step:
  "gum_interceptor_resolve en self a =
     (if resolved en self a then Some a else gum_interceptor_resolve en self (redirect en self a))"
  by (subst gum_interceptor_resolve.simps) (simp add: resolved_def Let_def)

lemma resolve_chain:
  assumes "gum_interceptor_resolve en self a = Some b"
  shows "\<exists>n. b = (redirect en self ^^ n) a \<and> resolved en self b \<and> (\<forall>i<n. \<not> resolved en self ((redirect en self ^^ i) a))"
proof (rule gum_interceptor_resolve.raw_induct [OF _ assms])
  fix resolve en self a b
  assume IH: "\<And>en self a b. resolve en self a = Some b \<Longrightarrow>
      \<exists>n. b = (redirect en self ^^ n) a \<and> resolved en self b \<and> (\<forall>i<n. \<not> resolved en self ((redirect en self ^^ i) a))"
    and ret: "(if gum_interceptor_has self a then Some a else if en_signing_required en then Some a
      else let target = redirect en self a in if target \<noteq> 0 then resolve en self target else Some a) = Some b"
  show "\<exists>n. b = (redirect en self ^^ n) a \<and> resolved en self b \<and> (\<forall>i<n. \<not> resolved en self ((redirect en self ^^ i) a))"
  proof (cases "resolved en self a")
    case True
    then have "b = a" using ret by (auto simp: resolved_def Let_def split: if_splits)
    then show ?thesis using True by (intro exI [of _ 0]) simp
  next
    case False
    then have "resolve en self (redirect en self a) = Some b" using ret by (auto simp: resolved_def Let_def split: if_splits)
    then obtain n where n: "b = (redirect en self ^^ n) (redirect en self a)" "resolved en self b"
      "\<forall>i<n. \<not> resolved en self ((redirect en self ^^ i) (redirect en self a))"
      using IH by blast
    have "\<not> resolved en self ((redirect en self ^^ i) a)" if "i < Suc n" for i
      using n(3) False that by (cases i) (simp_all add: funpow_swap1)
    then show ?thesis using n(1,2) by (intro exI [of _ "Suc n"]) (simp add: funpow_swap1)
  qed
qed

lemma chain_resolves:
  "resolved en self ((redirect en self ^^ n) a) \<Longrightarrow> (\<forall>i<n. \<not> resolved en self ((redirect en self ^^ i) a)) \<Longrightarrow>
     gum_interceptor_resolve en self a = Some ((redirect en self ^^ n) a)"
proof (induction n arbitrary: a)
  case 0
  then show ?case by (subst resolve_step) simp
next
  case (Suc n)
  have a: "\<not> resolved en self a" using Suc.prems(2) by fastforce
  have "\<not> resolved en self ((redirect en self ^^ i) (redirect en self a))" if "i < n" for i
    using Suc.prems(2) that by (metis Suc_mono funpow_Suc_right comp_apply)
  then have "gum_interceptor_resolve en self (redirect en self a) = Some ((redirect en self ^^ n) (redirect en self a))"
    using Suc.IH [of "redirect en self a"] Suc.prems(1) by (simp add: funpow_swap1)
  then show ?case using a by (subst resolve_step) (simp add: funpow_swap1)
qed

text \<open>Resolution depends on the table and the backend only.\<close>

lemma resolve_cong:
  assumes "table_of self' = table_of self" "ip_backend self' = ip_backend self"
  shows "gum_interceptor_resolve en self' a = gum_interceptor_resolve en self a"
proof -
  have r: "resolved en self' = resolved en self" using assms by (simp add: resolved_def gum_interceptor_has_def fun_eq_iff)
  show ?thesis
  proof (cases "gum_interceptor_resolve en self a")
    case (Some b)
    then obtain n where "b = (redirect en self ^^ n) a" "resolved en self b" "\<forall>i<n. \<not> resolved en self ((redirect en self ^^ i) a)"
      using resolve_chain by blast
    then show ?thesis using chain_resolves [of en self' n a] Some by (simp add: r assms)
  next
    case None
    show ?thesis
    proof (cases "gum_interceptor_resolve en self' a")
      case (Some b)
      then obtain n where "b = (redirect en self' ^^ n) a" "resolved en self' b" "\<forall>i<n. \<not> resolved en self' ((redirect en self' ^^ i) a)"
        using resolve_chain by blast
      then show ?thesis using chain_resolves [of en self n a] None by (simp add: r assms)
    qed (simp add: None)
  qed
qed

section \<open>Operations\<close>

datatype operation =
    ATTACH gpointer gpointer gpointer
  | DETACH gpointer
  | REPLACE GumInterceptorType gpointer gpointer gpointer
  | REVERT gpointer
  | BEGIN_TRANSACTION
  | END_TRANSACTION
  | FLUSH
  | DISPOSE

datatype answer =
    ATTACHED GumAttachReturn
  | REPLACED GumReplaceReturn "gpointer option"
  | FLUSHED bool
  | DONE

fun perform_operation :: "environment \<Rightarrow> operation \<Rightarrow> GumInterceptor \<Rightarrow> (answer \<times> GumInterceptor) option" where
  "perform_operation en (ATTACH a l d) self = map_option (map_prod ATTACHED id) (gum_interceptor_attach en self a l d)"
| "perform_operation en (DETACH l) self = map_option (Pair DONE) (gum_interceptor_detach en self l)"
| "perform_operation en (REPLACE type a g d) self =
     map_option (map_prod (\<lambda>(r, original). REPLACED r original) id) (gum_interceptor_replace_with_type en self type a g d)"
| "perform_operation en (REVERT a) self = map_option (Pair DONE) (gum_interceptor_revert en self a)"
| "perform_operation en BEGIN_TRANSACTION self = Some (DONE, gum_interceptor_begin_transaction self)"
| "perform_operation en END_TRANSACTION self = map_option (Pair DONE) (gum_interceptor_end_transaction en self)"
| "perform_operation en FLUSH self = map_option (map_prod FLUSHED id) (gum_interceptor_flush en self)"
| "perform_operation en DISPOSE self = map_option (Pair DONE) (gum_interceptor_do_dispose en self)"

text \<open>
  What an operation does to the map of hooks; \<open>target\<close> is what the address it was given resolves to, if
  it does.
\<close>

fun hook_step ::
    "GumInstrumentationError \<Rightarrow> gpointer option \<Rightarrow> operation \<Rightarrow> hooks \<Rightarrow> answer \<Rightarrow> hooks \<Rightarrow> bool" where
  "hook_step e target (ATTACH a l d) m (ATTACHED r) m' \<longleftrightarrow> (\<exists>f. target = Some f \<and> attach_spec e f l d m r m')"
| "hook_step e target (DETACH l) m DONE m' \<longleftrightarrow> m' = detach_spec l m"
| "hook_step e target (REPLACE type a g d) m (REPLACED r original) m' \<longleftrightarrow>
     (\<exists>f. target = Some f \<and> replace_spec e type f g d m r m')"
| "hook_step e target (REVERT a) m DONE m' \<longleftrightarrow> (\<exists>f. target = Some f \<and> m' = revert_spec f m)"
| "hook_step e target BEGIN_TRANSACTION m DONE m' \<longleftrightarrow> m' = m"
| "hook_step e target END_TRANSACTION m DONE m' \<longleftrightarrow> m' = m"
| "hook_step e target FLUSH m (FLUSHED b) m' \<longleftrightarrow> m' = m"
| "hook_step e target DISPOSE m DONE m' \<longleftrightarrow> m' = Map.empty"
| "hook_step e target _ m _ m' \<longleftrightarrow> False"

fun target_of :: "environment \<Rightarrow> operation \<Rightarrow> GumInterceptor \<Rightarrow> gpointer option" where
  "target_of en (ATTACH a l d) self = gum_interceptor_resolve en self a"
| "target_of en (REPLACE type a g d) self = gum_interceptor_resolve en self a"
| "target_of en (REVERT a) self = gum_interceptor_resolve en self a"
| "target_of en _ self = None"

text \<open>
  What the operations rely on: traversals and sorting are permutations, no thread leaves the last frame of a
  destroyed context between two tasks at the end of a transaction (the code allows it, and then can read a
  context that it has freed), an address that GLib returns for a new context is not that of a living one,
  and nested transactions do not overflow the level.
\<close>

definition friendly :: "environment \<Rightarrow> operation \<Rightarrow> GumInterceptor \<Rightarrow> bool" where
  "friendly en op self \<longleftrightarrow>
     orderly en \<and> stays_busy en \<and> ctx_at self (en_new_ctx en) = None \<and>
     (op = BEGIN_TRANSACTION \<longrightarrow> level self \<noteq> 2 ^ 31 - 1)"

definition good :: "GumInterceptor \<Rightarrow> bool" where
  "good self \<longleftrightarrow> sound self \<and> apart (hooks_of self)"

lemma opened:
  "tasks (open_transaction self) = tasks self" "pages (open_transaction self) = pages self"
  "dirty (open_transaction self)" "consistent (open_transaction self) = consistent self"
  "hooks_of (open_transaction self) = hooks_of self"
  "gum_interceptor_resolve en (open_transaction self) a = gum_interceptor_resolve en self a"
proof -
  show "tasks (open_transaction self) = tasks self" "pages (open_transaction self) = pages self" by (simp_all add: observe)
  show "consistent (open_transaction self) = consistent self" by (rule wf_observed) (simp_all add: observe)
  show "hooks_of (open_transaction self) = hooks_of self" by (rule hooks_observed) (simp_all add: observe)
  show "dirty (open_transaction self)" by (simp add: open_transaction_def mark_dirty_def update_transaction_def)
  show "gum_interceptor_resolve en (open_transaction self) a = gum_interceptor_resolve en self a"
    by (rule resolve_cong) (simp_all add: open_transaction_def mark_dirty_def gum_interceptor_transaction_begin_def update_transaction_def)
qed

lemma ignored:
  "consistent (ignore_current_thread en self) = consistent self" "hooks_of (ignore_current_thread en self) = hooks_of self"
  "gum_interceptor_resolve en (ignore_current_thread en self) a = gum_interceptor_resolve en self a"
  "consistent (unignore_current_thread en self) = consistent self" "hooks_of (unignore_current_thread en self) = hooks_of self"
  "sound (unignore_current_thread en self) = sound self"
proof -
  show u: "consistent (unignore_current_thread en self) = consistent self" by (rule wf_observed) (simp_all add: observe)
  show "consistent (ignore_current_thread en self) = consistent self" by (rule wf_observed) (simp_all add: observe)
  show "hooks_of (ignore_current_thread en self) = hooks_of self" "hooks_of (unignore_current_thread en self) = hooks_of self"
    by (rule hooks_observed; simp add: observe)+
  show "gum_interceptor_resolve en (ignore_current_thread en self) a = gum_interceptor_resolve en self a"
    by (rule resolve_cong) (simp_all add: ignore_current_thread_def)
  show "sound (unignore_current_thread en self) = sound self"
    using u by (simp add: sound_def outermost_def observe)
qed

text \<open>After a body that worked in an open transaction, its end keeps the hooks.\<close>

lemma close_transaction:
  assumes "orderly en" "stays_busy en" "consistent s" "tx_kept (open_transaction self) s"
    and "gum_interceptor_transaction_end en s = Some self'"
  shows "sound self'" "hooks_of self' = hooks_of s"
proof -
  have "dirty s" using assms(4) opened(3) [of self] by (simp add: tx_kept_def)
  then show "sound self'" "hooks_of self' = hooks_of s"
    using end_transaction [OF assms(1-3) _ assms(5)] hooks_ended [OF assms(3)] by simp_all
qed

lemma attach_step:
  assumes "orderly en" "stays_busy en" "ctx_at self (en_new_ctx en) = None" "consistent self"
    and "gum_interceptor_attach en self a l d = Some (r, self')"
  shows "sound self' \<and> (\<exists>f. gum_interceptor_resolve en self a = Some f \<and> attach_spec (refusal en) f l d (hooks_of self) r (hooks_of self'))"
proof -
  let ?s0 = "open_transaction (ignore_current_thread en self)"
  obtain s1 s2 where s: "attach_body en a l d ?s0 = Some (r, s1)" "gum_interceptor_transaction_end en s1 = Some s2"
    "self' = unignore_current_thread en s2"
    using assms(5) by (auto simp: gum_interceptor_attach_def split: option.splits)
  have c0: "consistent ?s0" using assms(4) by (simp add: opened ignored)
  have f0: "ctx_at ?s0 (en_new_ctx en) = None" using assms(3) by (simp add: observe)
  obtain f where f: "gum_interceptor_resolve en ?s0 a = Some f" "attach_spec (refusal en) f l d (hooks_of ?s0) r (hooks_of s1)"
    "consistent s1" "tx_kept ?s0 s1"
    by (rule attach_body_spec [OF c0 f0 s(1)])
  show ?thesis using close_transaction [OF assms(1,2) f(3,4) s(2)] f(1,2) by (simp add: s(3) opened ignored)
qed

lemma replace_step:
  assumes "orderly en" "stays_busy en" "ctx_at self (en_new_ctx en) = None" "consistent self"
    and "gum_interceptor_replace_with_type en self type a g d = Some ((r, original), self')"
  shows "sound self' \<and> (\<exists>f. gum_interceptor_resolve en self a = Some f \<and> replace_spec (refusal en) type f g d (hooks_of self) r (hooks_of self'))"
proof -
  let ?s0 = "open_transaction self"
  obtain s1 where s: "replace_body en type a g d ?s0 = Some ((r, original), s1)" "gum_interceptor_transaction_end en s1 = Some self'"
    using assms(5) by (auto simp: gum_interceptor_replace_with_type_def split: option.splits)
  have c0: "consistent ?s0" using assms(4) by (simp add: opened)
  have f0: "ctx_at ?s0 (en_new_ctx en) = None" using assms(3) by (simp add: observe)
  obtain f where f: "gum_interceptor_resolve en ?s0 a = Some f" "replace_spec (refusal en) type f g d (hooks_of ?s0) r (hooks_of s1)"
    "consistent s1" "tx_kept ?s0 s1"
    by (rule replace_body_spec [OF c0 f0 s(1)])
  show ?thesis using close_transaction [OF assms(1,2) f(3,4) s(2)] f(1,2) by (simp add: opened)
qed

lemma detach_step:
  assumes "orderly en" "stays_busy en" "consistent self" "apart (hooks_of self)" and "gum_interceptor_detach en self l = Some self'"
  shows "sound self' \<and> hooks_of self' = detach_spec l (hooks_of self)"
proof -
  let ?s0 = "open_transaction (ignore_current_thread en self)"
  have c0: "consistent ?s0" "apart (hooks_of ?s0)" using assms(3,4) by (simp_all add: opened ignored)
  obtain s1 where s1: "detach_body en l ?s0 = Some s1" "consistent s1" "tx_kept ?s0 s1" "hooks_of s1 = detach_spec l (hooks_of ?s0)"
    by (rule detach_body_spec [OF assms(1) c0])
  obtain s2 where s2: "gum_interceptor_transaction_end en s1 = Some s2" "self' = unignore_current_thread en s2"
    using assms(5) s1(1) by (auto simp: gum_interceptor_detach_def)
  show ?thesis using close_transaction [OF assms(1,2) s1(2,3) s2(1)] s1(4) by (simp add: s2(2) opened ignored)
qed

lemma revert_step:
  assumes "orderly en" "stays_busy en" "consistent self" and "gum_interceptor_revert en self a = Some self'"
  shows "sound self' \<and> (\<exists>f. gum_interceptor_resolve en self a = Some f \<and> hooks_of self' = revert_spec f (hooks_of self))"
proof -
  let ?s0 = "open_transaction self"
  obtain s where s: "revert_body en a ?s0 = Some s" "gum_interceptor_transaction_end en s = Some self'"
    using assms(4) by (auto simp: gum_interceptor_revert_def split: Option.bind_splits)
  obtain f where f: "gum_interceptor_resolve en ?s0 a = Some f" using s(1) by (auto simp: revert_body_def split: option.splits)
  have c0: "consistent ?s0" using assms(3) by (simp add: opened)
  obtain s1 where "revert_body en a ?s0 = Some s1" "consistent s1" "tx_kept ?s0 s1" "hooks_of s1 = revert_spec f (hooks_of ?s0)"
    by (rule revert_body_spec [OF c0 f])
  then show ?thesis using close_transaction [OF assms(1,2) _ _ s(2)] f s(1) by (simp add: opened)
qed

lemma dispose_step:
  assumes "orderly en" "stays_busy en" "consistent self" and "gum_interceptor_do_dispose en self = Some self'"
  shows "sound self' \<and> hooks_of self' = Map.empty"
proof -
  have c0: "consistent (open_transaction self)" using assms(3) by (simp add: opened)
  obtain s where s: "dispose_body en (open_transaction self) = Some s" "consistent s" "tx_kept (open_transaction self) s" "hooks_of s = Map.empty"
    by (rule dispose_body_spec [OF assms(1) c0])
  then have "gum_interceptor_transaction_end en s = Some self'" using assms(4) by (simp add: gum_interceptor_do_dispose_def)
  then show ?thesis using close_transaction [OF assms(1,2) s(2,3)] s(4) by simp
qed

lemma begin_observe:
  "tasks (gum_interceptor_transaction_begin self) = tasks self" "pages (gum_interceptor_transaction_begin self) = pages self"
  "dirty (gum_interceptor_transaction_begin self) = dirty self" "level (gum_interceptor_transaction_begin self) = level self + 1"
  "consistent (gum_interceptor_transaction_begin self) = consistent self"
  "hooks_of (gum_interceptor_transaction_begin self) = hooks_of self"
proof -
  show t: "tasks (gum_interceptor_transaction_begin self) = tasks self" "pages (gum_interceptor_transaction_begin self) = pages self"
    "dirty (gum_interceptor_transaction_begin self) = dirty self" "level (gum_interceptor_transaction_begin self) = level self + 1"
    by (simp_all add: gum_interceptor_transaction_begin_def update_transaction_def tasks_def pages_def)
  have u: "updates (gum_interceptor_transaction_begin self) = updates self"
    by (simp add: gum_interceptor_transaction_begin_def update_transaction_def updates_def)
  show "consistent (gum_interceptor_transaction_begin self) = consistent self"
    by (rule wf_observed) (simp_all only: t u, simp_all add: gum_interceptor_transaction_begin_def observe)
  show "hooks_of (gum_interceptor_transaction_begin self) = hooks_of self"
    by (rule hooks_observed) (simp_all add: gum_interceptor_transaction_begin_def observe)
qed

lemma begin_sound:
  assumes "sound self" "level self \<noteq> 2 ^ 31 - 1"
  shows "sound (gum_interceptor_transaction_begin self)"
proof -
  have "outermost self" if "outermost (gum_interceptor_transaction_begin self)"
  proof (rule ccontr)
    assume "\<not> outermost self"
    then have "0 < sint (level self)" by (simp add: outermost_def word_sless_alt)
    moreover have "sint (level self) < 2147483647"
    proof -
      have "sint (level self) \<noteq> 2147483647"
      proof
        assume "sint (level self) = 2147483647"
        then have "(of_int (sint (level self)) :: guint32) = of_int 2147483647" by (rule arg_cong)
        then show False using assms(2) by simp
      qed
      moreover have "sint (level self) < 2 ^ 31" using sint_lt [of "level self"] by simp
      ultimately show ?thesis by simp
    qed
    ultimately have "0 < sint (level self + 1)" by (simp add: sint_word_ariths signed_take_bit_int_eq_self)
    then have "0 <s level self + 1" by (simp add: word_sless_alt)
    then show False using that by (simp add: outermost_def begin_observe)
  qed
  then show ?thesis using assms(1) by (auto simp: sound_def begin_observe)
qed

lemma apart_step:
  assumes "apart m" "hook_step e target op m r m'"
  shows "apart m'"
proof (cases op)
  case (ATTACH a l d)
  then obtain q f where s: "attach_spec e f l d m q m'" using assms(2) by (cases r) auto
  have m: "distinct (map en_listener (hk_listeners h))" if "m f = Some h" for h using assms(1) that by (simp add: apart_def)
  show ?thesis
    using s assms(1) m by (auto simp: attach_spec_def Let_def listening_def new_hook_def intro!: apart_update split: option.splits if_splits)
next
  case (REPLACE type a g d)
  then obtain q f where s: "replace_spec e type f g d m q m'" using assms(2) by (cases r) auto
  have m: "distinct (map en_listener (hk_listeners h))" if "m f = Some h" for h using assms(1) that by (simp add: apart_def)
  show ?thesis
    using s assms(1) m by (auto simp: replace_spec_def new_hook_def intro!: apart_update split: option.splits if_splits)
next
  case (REVERT a)
  then obtain f where s: "m' = revert_spec f m" using assms(2) by (cases r) auto
  have m: "distinct (map en_listener (hk_listeners h))" if "m f = Some h" for h using assms(1) that by (simp add: apart_def)
  show ?thesis
    using assms(1) m by (auto simp: s revert_spec_def drop_unused_def intro!: apart_update split: option.splits if_splits)
next
  case (DETACH l)
  then have "m' = detach_spec l m" using assms(2) by (cases r) auto
  then show ?thesis using assms(1) without_listener_apart by (fastforce simp: apart_def detach_spec_def split: Option.bind_splits)
next
  case DISPOSE
  then show ?thesis using assms(2) by (cases r) (auto simp: apart_def)
next
  case BEGIN_TRANSACTION
  then show ?thesis using assms by (cases r) auto
next
  case END_TRANSACTION
  then show ?thesis using assms by (cases r) auto
next
  case FLUSH
  then show ?thesis using assms by (cases r) auto
qed

lemma operation_step:
  assumes "good self" "friendly en op self" "perform_operation en op self = Some (r, self')"
  shows "good self' \<and> hook_step (refusal en) (target_of en op self) op (hooks_of self) r (hooks_of self')"
proof -
  have en: "orderly en" "stays_busy en" "ctx_at self (en_new_ctx en) = None" using assms(2) by (simp_all add: friendly_def)
  have w: "sound self" "consistent self" "apart (hooks_of self)" using assms(1) by (simp_all add: good_def sound_def)
  have d: "tasks self \<noteq> [] \<or> pages self \<noteq> [] \<longrightarrow> dirty self" using w(1) by (simp add: sound_def)
  have "sound self' \<and> hook_step (refusal en) (target_of en op self) op (hooks_of self) r (hooks_of self')"
  proof (cases op)
    case (ATTACH a l d)
    then obtain q where "gum_interceptor_attach en self a l d = Some (q, self')" "r = ATTACHED q" using assms(3) by auto
    then show ?thesis using attach_step [OF en w(2)] ATTACH by auto
  next
    case (DETACH l)
    then have "gum_interceptor_detach en self l = Some self'" "r = DONE" using assms(3) by auto
    then show ?thesis using detach_step [OF en(1,2) w(2,3)] DETACH by auto
  next
    case (REPLACE type a g d)
    then obtain q original where "gum_interceptor_replace_with_type en self type a g d = Some ((q, original), self')" "r = REPLACED q original"
      using assms(3) by auto
    then show ?thesis using replace_step [OF en w(2)] REPLACE by auto
  next
    case (REVERT a)
    then have "gum_interceptor_revert en self a = Some self'" "r = DONE" using assms(3) by auto
    then show ?thesis using revert_step [OF en(1,2) w(2)] REVERT by auto
  next
    case BEGIN_TRANSACTION
    then show ?thesis using assms(2,3) w(1) begin_sound by (auto simp: friendly_def gum_interceptor_begin_transaction_def begin_observe)
  next
    case END_TRANSACTION
    then have "gum_interceptor_transaction_end en self = Some self'" "r = DONE"
      using assms(3) by (auto simp: gum_interceptor_end_transaction_def)
    then show ?thesis using end_transaction [OF en(1,2) w(2) d] hooks_ended [OF w(2)] END_TRANSACTION by auto
  next
    case DISPOSE
    then have "gum_interceptor_do_dispose en self = Some self'" "r = DONE" using assms(3) by auto
    then show ?thesis using dispose_step [OF en(1,2) w(2)] DISPOSE by auto
  next
    case FLUSH
    let ?s = "gum_interceptor_transaction_begin self"
    show ?thesis
    proof (cases "level self = 0")
      case True
      then have e: "gum_interceptor_transaction_end en ?s = Some self'" "\<exists>b. r = FLUSHED b"
        using assms(3) FLUSH by (auto simp: gum_interceptor_flush_def)
      have "consistent ?s" "tasks ?s \<noteq> [] \<or> pages ?s \<noteq> [] \<longrightarrow> dirty ?s" using w(2) d by (simp_all add: begin_observe)
      then show ?thesis using end_transaction [OF en(1,2) _ _ e(1)] hooks_ended [of ?s self'] e(2) FLUSH by (auto simp: begin_observe)
    next
      case False
      then show ?thesis using assms(3) w FLUSH by (auto simp: gum_interceptor_flush_def)
    qed
  qed
  then show ?thesis using apart_step [OF w(3)] by (auto simp: good_def)
qed

section \<open>Histories\<close>

text \<open>Between operations, other threads call intercepted functions, which moves the usage counters.\<close>

definition only_counters :: "runtime \<Rightarrow> runtime \<Rightarrow> bool" where
  "only_counters rt rt' \<longleftrightarrow>
     (\<forall>p. map_option (\<lambda>c. c\<lparr>fc_trampoline_usage_counter := 0\<rparr>) (rt_contexts rt' p) =
          map_option (\<lambda>c. c\<lparr>fc_trampoline_usage_counter := 0\<rparr>) (rt_contexts rt p))"

lemma hook_of_counter: "hook_of (c\<lparr>fc_trampoline_usage_counter := n\<rparr>) = hook_of c"
  by (simp add: hook_of_def)

lemma counters_good:
  assumes "good self" "only_counters (ip_runtime self) rt'"
  shows "good (self\<lparr>ip_runtime := rt'\<rparr>)" "hooks_of (self\<lparr>ip_runtime := rt'\<rparr>) = hooks_of self"
proof -
  let ?s = "self\<lparr>ip_runtime := rt'\<rparr>"
  have up: "map_option (\<lambda>c. c\<lparr>fc_trampoline_usage_counter := 0\<rparr>) (ctx_at ?s p) =
      map_option (\<lambda>c. c\<lparr>fc_trampoline_usage_counter := 0\<rparr>) (ctx_at self p)" for p
    using assms(2) by (simp add: only_counters_def ctx_at_def)
  have fl: "flags (c\<lparr>fc_trampoline_usage_counter := n\<rparr>) = flags c" for c n by (simp add: flags_def)
  have "map_option flags (ctx_at ?s p) = map_option flags (ctx_at self p)" for p
  proof -
    have "map_option flags (map_option (\<lambda>c. c\<lparr>fc_trampoline_usage_counter := 0\<rparr>) (ctx_at ?s p)) =
        map_option flags (map_option (\<lambda>c. c\<lparr>fc_trampoline_usage_counter := 0\<rparr>) (ctx_at self p))" by (simp only: up)
    then show ?thesis by (simp add: option.map_comp comp_def fl)
  qed
  then have "same_flags (ctx_at self) (ctx_at ?s)" by (simp add: same_flags_def)
  note same = same_flags_wf [OF this]
  have "consistent self" using assms(1) by (simp add: good_def sound_def)
  then have "consistent ?s" using same unfolding consistent_def observe_runtime forget_observe(2) by blast
  then have "sound ?s" using assms(1) by (simp add: good_def sound_def outermost_def observe)
  moreover show h: "hooks_of ?s = hooks_of self"
  proof
    fix f
    have "map_option hook_of (map_option (\<lambda>c. c\<lparr>fc_trampoline_usage_counter := 0\<rparr>) (ctx_at ?s p)) =
        map_option hook_of (map_option (\<lambda>c. c\<lparr>fc_trampoline_usage_counter := 0\<rparr>) (ctx_at self p))" for p by (simp only: up)
    then show "hooks_of ?s f = hooks_of self f" by (simp add: hooks_of_def option.map_comp comp_def hook_of_counter)
  qed
  ultimately show "good ?s" using assms(1) by (simp add: good_def)
qed

type_synonym event_record = "GumInstrumentationError \<times> gpointer option \<times> operation \<times> answer"

inductive history :: "GumInterceptor \<Rightarrow> event_record list \<Rightarrow> GumInterceptor \<Rightarrow> bool" for start where
  nothing_yet: "history start [] start"
| operation: "history start es self \<Longrightarrow> friendly en op self \<Longrightarrow> perform_operation en op self = Some (r, self') \<Longrightarrow>
    history start (es @ [(refusal en, target_of en op self, op, r)]) self'"
| calls: "history start es self \<Longrightarrow> only_counters (ip_runtime self) rt' \<Longrightarrow> history start es (self\<lparr>ip_runtime := rt'\<rparr>)"

inductive hook_run :: "hooks \<Rightarrow> event_record list \<Rightarrow> hooks \<Rightarrow> bool" for start where
  no_step: "hook_run start [] start"
| one_more: "hook_run start es m \<Longrightarrow> hook_step e target op m r m' \<Longrightarrow> hook_run start (es @ [(e, target, op, r)]) m'"

definition initial :: "GumInterceptor \<Rightarrow> bool" where
  "initial self \<longleftrightarrow> (\<exists>en rt storage. rt_contexts rt = Map.empty \<and> self = gum_interceptor_init en rt storage)"

lemma initial_good:
  assumes "initial self"
  shows "good self" "hooks_of self = Map.empty"
proof -
  obtain en rt storage where i: "rt_contexts rt = Map.empty" "self = gum_interceptor_init en rt storage"
    using assms by (auto simp: initial_def)
  have o: "ctx_at self = Map.empty" "table_of self = []" "tasks self = []" "updates self = []" "pages self = []"
    using i by (simp_all add: gum_interceptor_init_def ctx_at_def fun_eq_iff tasks_def updates_def pages_def gum_interceptor_transaction_init_def)
  show h: "hooks_of self = Map.empty" by (simp add: fun_eq_iff hooks_of_def o(2))
  have "consistent self" by (simp add: consistent_def o tasks_wf_def table_wf_def updates_wf_def due_def)
  then show "good self" by (simp add: good_def sound_def o h apart_def)
qed

lemma history_good:
  assumes "history start es self" "good start"
  shows "good self \<and> hook_run (hooks_of start) es (hooks_of self)"
  using assms
proof (induction rule: history.induct)
  case nothing_yet
  then show ?case by (simp add: no_step)
next
  case (operation es self en op r self')
  then show ?case using operation_step [of self en op r self'] one_more by blast
next
  case (calls es self rt')
  then show ?case using counters_good [of self rt'] by simp
qed

lemma good_contexts:
  assumes "good self" "ctx_at self p = Some c"
  shows "fc_destroyed c \<longleftrightarrow> perform p \<in> set (tasks self)"
    and "\<not> fc_destroyed c \<longleftrightarrow> map_of (table_of self) (fc_function_address c) = Some p"
    and "outermost self \<Longrightarrow> fc_activated c \<longleftrightarrow> \<not> fc_destroyed c"
proof -
  have w: "consistent self" "sound self" using assms(1) by (simp_all add: good_def sound_def)
  show "fc_destroyed c \<longleftrightarrow> perform p \<in> set (tasks self)" using w(1) assms(2) by (simp add: consistent_def tasks_wf_def)
  have d: "distinct (map fst (table_of self))" using w(1) by (simp add: consistent_def table_wf_def)
  have "(fc_function_address c, p) \<in> set (table_of self)" if "\<not> fc_destroyed c"
    using w(1) assms(2) that by (simp add: consistent_def table_wf_def)
  moreover have "\<not> fc_destroyed c" if r: "map_of (table_of self) (fc_function_address c) = Some p"
  proof -
    obtain c' where "ctx_at self p = Some c'" "\<not> fc_destroyed c'" using registered_ctx [OF w(1) r] by blast
    then show ?thesis using assms(2) by simp
  qed
  ultimately show "\<not> fc_destroyed c \<longleftrightarrow> map_of (table_of self) (fc_function_address c) = Some p"
    using map_of_is_SomeI [OF d] by blast
  assume "outermost self"
  then have "updates self = []" using w(2) pages_updates by (simp add: sound_def)
  then show "fc_activated c \<longleftrightarrow> \<not> fc_destroyed c" using consistent_settled [OF w(1)] assms(2) by (simp add: settled_def)
qed

end
