(* ===== verification/Gum_Teardown.thy ===== *)
theory Gum_Teardown
  imports Gum_Operations
begin

text \<open>
  Operations that take hooks away return, and with no thread inside an intercepted function everything is
  freed; no operation frees what a thread still needs.
\<close>

section \<open>Updates that only restore code\<close>

definition settled_live :: "GumInterceptor \<Rightarrow> bool" where
  "settled_live self \<longleftrightarrow> (\<forall>p c. ctx_at self p = Some c \<longrightarrow> \<not> fc_destroyed c \<longrightarrow> fc_activated c)"

lemma steady_settled:
  assumes "settled_live self" "steady self self'"
  shows "settled_live self'"
  unfolding settled_live_def
proof (intro allI impI)
  fix p c' assume c': "ctx_at self' p = Some c'" "\<not> fc_destroyed c'"
  have "map_option stable (ctx_at self p) = Some (stable c')" using assms(2) c'(1) by (metis option.simps(9) steady_def)
  then obtain c where c: "ctx_at self p = Some c" "stable c = stable c'" by blast
  then have "\<not> fc_destroyed c" using assms(2) c' unfolding steady_def by blast
  then show "fc_activated c'" using assms(1) c by (simp add: settled_live_def stable_def)
qed

lemma run_update_returns:
  assumes d: "all_due self (u # us)" and l: "settled_live self"
  shows "\<exists>self'. run_update u self = Some self' \<and> settled_live self'"
proof -
  have due: "due (ctx_at self q) (count (mset (u # us)) (act q)) (count (mset (u # us)) (deact q))" for q
    using d unfolding all_due_def updates_wf_def by blast
  obtain p where "u = act p \<or> u = deact p" by (cases u; cases "ut_func u") auto
  then show ?thesis
  proof
    assume u: "u = act p"
    then obtain c where c: "ctx_at self p = Some c" using due [of p] by (auto simp: due_def split: option.splits)
    then have "fc_destroyed c" using due [of p] u l by (auto simp: due_def settled_live_def split: if_splits)
    then have "run_update u self = Some self" using u c by (simp add: run_update_def gum_interceptor_activate_def)
    then show ?thesis using l by blast
  next
    assume u: "u = deact p"
    then obtain c where c: "ctx_at self p = Some c" using due [of p] by (auto simp: due_def split: option.splits)
    then have f: "fc_activated c" "fc_destroyed c" using due [of p] u by (auto simp: due_def split: if_splits)
    then obtain s where s: "run_update u self = Some s"
      using u c by (simp add: run_update_def gum_interceptor_deactivate_def Let_def)
    then have "ctx_at s = (ctx_at self)(p \<mapsto> c\<lparr>fc_activated := False\<rparr>)" using u c run_deact by (metis option.inject)
    then have "settled_live s" using l f by (auto simp: settled_live_def)
    then show ?thesis using s by blast
  qed
qed

lemma run_list_returns:
  "all_due self us \<Longrightarrow> settled_live self \<Longrightarrow> \<exists>self'. run_all run_update us self = Some self'"
proof (induction us arbitrary: self)
  case (Cons u us)
  obtain s where s: "run_update u self = Some s" "settled_live s" using run_update_returns [OF Cons.prems] by blast
  then show ?case using Cons.IH [of s] run_update_step [OF Cons.prems(1) s(1)] by simp
qed simp

lemma run_pages_returns:
  assumes "distinct (map fst table)" "mset addresses = mset (map fst table)" "updates_wf (ctx_at self) (mset (concat (map snd table)))"
    and "settled_live self"
  shows "\<exists>self'. run_all (run_page_updates table) addresses self = Some self'"
proof -
  have "set addresses = set (map fst table)" using assms(2) by (metis set_mset_mset)
  then have found: "map_of table a = Some (the (map_of table a))" if "a \<in> set addresses" for a
    using that by (metis map_of_eq_None_iff option.collapse set_map)
  have "run_page_updates table a s = run_all run_update (the (map_of table a)) s" if "a \<in> set addresses" for a s
    unfolding run_page_updates_def by (subst found [OF that]) simp
  moreover have "all_due self (concat (map (\<lambda>a. the (map_of table a)) addresses))"
    using assms(3) page_order_complete [OF assms(1,2)] by (simp add: all_due_def)
  ultimately show ?thesis
    using run_all_concat [of addresses "run_page_updates table" run_update "\<lambda>a. the (map_of table a)" self]
      run_list_returns [OF _ assms(4)] by simp
qed

text \<open>The kernel lets every page be made writable.\<close>

definition permissive :: "environment \<Rightarrow> bool" where
  "permissive en \<longleftrightarrow> (\<forall>page. en_mprotect en page)"

lemma protect_returns: "permissive en \<Longrightarrow> \<exists>self'. run_all (protect_page en prot) addresses self = Some self'"
  by (induction addresses arbitrary: self) (simp_all add: protect_page_def permissive_def)

lemma run_updates_returns:
  assumes "orderly en" "permissive en" "distinct (map fst table)" "updates_wf (ctx_at self) (mset (concat (map snd table)))"
    and live: "settled_live self"
  shows "\<exists>self'. run_updates en table self = Some self'"
proof -
  define addresses where "addresses = en_sort en gum_page_address_compare (en_hash_order en (map fst table))"
  have perm: "mset addresses = mset (map fst table)" using assms(1) by (simp add: addresses_def orderly_def)
  have run: "\<exists>s'. run_all (run_page_updates table) addresses s = Some s'" if "ctx_at s = ctx_at self" for s
    by (rule run_pages_returns [OF assms(3) perm]) (use assms(4) live that in \<open>simp_all add: settled_live_def\<close>)
  show ?thesis
  proof (cases "en_signing_required en")
    case True
    then show ?thesis using run [of self] by (simp add: run_updates_def addresses_def [symmetric] Let_def)
  next
    case False
    let ?rwx = "os_rwx_supported (en_os en)"
    define suspended where "suspended = (if ?rwx then [] else suspended_threads en)"
    define s0 where "s0 = log_effects (map SUSPEND suspended) self"
    obtain s1 where s1: "run_all (protect_page en (if ?rwx then GUM_PAGE_RWX else GUM_PAGE_RW)) addresses s0 = Some s1"
      using protect_returns [OF assms(2)] by blast
    have "ctx_at s1 = ctx_at self" using run_all_protect [OF s1] by (simp add: s0_def observe)
    then obtain s2 where s2: "run_all (run_page_updates table) addresses s1 = Some s2" using run by blast
    obtain s3 where s3: "(if ?rwx then Some s2 else run_all (protect_page en GUM_PAGE_RX) addresses s2) = Some s3"
      using protect_returns [OF assms(2), of GUM_PAGE_RX addresses s2] by (cases ?rwx) auto
    have "\<exists>s4. patch_pages en addresses table self = Some s4"
      unfolding patch_pages_def Let_def suspended_def [symmetric] s0_def [symmetric] s1 option.case s2 s3 by blast
    then show ?thesis using False
      by (simp add: run_updates_def addresses_def [symmetric] Let_def gum_code_segment_is_supported_def)
  qed
qed

lemma transaction_end_returns:
  assumes en: "orderly en" "stays_busy en" "permissive en" and c: "consistent self" and live: "settled_live self"
  shows "\<exists>self'. gum_interceptor_transaction_end en self = Some self'"
proof (cases "0 <s level (lower self) \<or> \<not> dirty (lower self)")
  case True
  then show ?thesis using end_goes_on by blast
next
  case go: False
  show ?thesis
  proof (cases "tasks self = [] \<and> pages self = []")
    case True
    then show ?thesis using end_idle [OF go] by blast
  next
    case pending: False
    let ?s2 = "working en self"
    let ?s3 = "?s2\<lparr>ip_current_transaction := gum_interceptor_transaction_init\<rparr>"
    let ?table = "tx_pending_update_tasks (ip_current_transaction ?s2)"
    have c2: "consistent ?s2" using c wf_observed [of ?s2 self] by (simp add: observe)
    have o3: "ctx_at ?s3 = ctx_at ?s2" "ctx_at ?s2 = ctx_at self" by (simp_all add: ctx_at_def fun_eq_iff) (simp_all add: observe flip: ctx_at_def)
    have t: "distinct (map fst ?table)" "updates_wf (ctx_at ?s3) (mset (concat (map snd ?table)))"
      using c2 by (simp_all add: consistent_def pages_def updates_def o3)
    have "settled_live ?s3" using live by (simp add: settled_live_def o3)
    then obtain s1 where s1: "run_updates en ?table ?s3 = Some s1" using run_updates_returns [OF en(1,3) t] by blast
    then show ?thesis using process_all [OF en(1,2) c2 s1] end_works [OF go pending] by auto
  qed
qed

section \<open>Operations that take hooks away\<close>

lemma good_settled_live: "good self \<Longrightarrow> outermost self \<Longrightarrow> settled_live self"
  using good_contexts(3) by (auto simp: settled_live_def)

lemma settled_live_observed: "settled_live self \<Longrightarrow> ctx_at self' = ctx_at self \<Longrightarrow> settled_live self'"
  by (simp add: settled_live_def)

lemma body_then_end:
  assumes "orderly en" "stays_busy en" "permissive en" "settled_live self" "consistent s" "steady self s"
  shows "\<exists>self'. gum_interceptor_transaction_end en s = Some self'"
  using transaction_end_returns [OF assms(1-3,5)] steady_settled [OF assms(4,6)] by blast

fun takes_away :: "environment \<Rightarrow> operation \<Rightarrow> GumInterceptor \<Rightarrow> bool" where
  "takes_away en (ATTACH a l d) self \<longleftrightarrow> False"
| "takes_away en (REPLACE type a g d) self \<longleftrightarrow> False"
| "takes_away en (REVERT a) self \<longleftrightarrow> gum_interceptor_resolve en self a \<noteq> None"
| "takes_away en _ self \<longleftrightarrow> True"

lemma detach_returns:
  assumes "orderly en" "stays_busy en" "permissive en" "good self" "outermost self"
  shows "\<exists>self'. gum_interceptor_detach en self l = Some self'"
proof -
  let ?s0 = "open_transaction (ignore_current_thread en self)"
  have c0: "consistent ?s0" "apart (hooks_of ?s0)" using assms(4) by (simp_all add: good_def sound_def opened ignored)
  have l0: "settled_live ?s0" using settled_live_observed [OF good_settled_live [OF assms(4,5)], of ?s0] by (simp add: observe)
  obtain s where s: "detach_body en l ?s0 = Some s" "consistent s" "tx_kept ?s0 s" "steady ?s0 s" "hooks_of s = detach_spec l (hooks_of ?s0)"
    by (rule detach_body_spec [OF assms(1) c0])
  show ?thesis using body_then_end [OF assms(1-3) l0 s(2,4)] s(1) by (auto simp: gum_interceptor_detach_def)
qed

lemma revert_returns:
  assumes "orderly en" "stays_busy en" "permissive en" "good self" "outermost self" "gum_interceptor_resolve en self a = Some f"
  shows "\<exists>self'. gum_interceptor_revert en self a = Some self'"
proof -
  let ?s0 = "open_transaction self"
  have c0: "consistent ?s0" using assms(4) by (simp add: good_def sound_def opened)
  have l0: "settled_live ?s0" using settled_live_observed [OF good_settled_live [OF assms(4,5)], of ?s0] by (simp add: observe)
  have f0: "gum_interceptor_resolve en ?s0 a = Some f" using assms(6) by (simp add: opened)
  obtain s where s: "revert_body en a ?s0 = Some s" "consistent s" "tx_kept ?s0 s" "steady ?s0 s" "hooks_of s = revert_spec f (hooks_of ?s0)"
    by (rule revert_body_spec [OF c0 f0])
  show ?thesis using body_then_end [OF assms(1-3) l0 s(2,4)] s(1) by (simp add: gum_interceptor_revert_def)
qed

lemma dispose_returns:
  assumes "orderly en" "stays_busy en" "permissive en" "good self" "outermost self"
  obtains s self' where "dispose_body en (open_transaction self) = Some s" "consistent s" "tx_kept (open_transaction self) s"
    "steady (open_transaction self) s" "gum_interceptor_transaction_end en s = Some self'" "gum_interceptor_do_dispose en self = Some self'"
proof -
  let ?s0 = "open_transaction self"
  have c0: "consistent ?s0" using assms(4) by (simp add: good_def sound_def opened)
  have l0: "settled_live ?s0" using settled_live_observed [OF good_settled_live [OF assms(4,5)], of ?s0] by (simp add: observe)
  obtain s where s: "dispose_body en ?s0 = Some s" "consistent s" "tx_kept ?s0 s" "steady ?s0 s" "hooks_of s = Map.empty"
    by (rule dispose_body_spec [OF assms(1) c0])
  obtain self' where "gum_interceptor_transaction_end en s = Some self'" using body_then_end [OF assms(1-3) l0 s(2,4)] by blast
  then show thesis using that s by (simp add: gum_interceptor_do_dispose_def)
qed

lemma end_outermost_returns:
  assumes "orderly en" "stays_busy en" "permissive en" "good self" "outermost self"
  shows "\<exists>self'. gum_interceptor_transaction_end en self = Some self'"
    "\<exists>self'. gum_interceptor_transaction_end en (gum_interceptor_transaction_begin self) = Some self'"
proof -
  have c: "consistent self" using assms(4) by (simp add: good_def sound_def)
  note l = good_settled_live [OF assms(4,5)]
  have "ctx_at (gum_interceptor_transaction_begin self) = ctx_at self" by (simp add: gum_interceptor_transaction_begin_def observe)
  then have l': "settled_live (gum_interceptor_transaction_begin self)" by (rule settled_live_observed [OF l])
  show "\<exists>self'. gum_interceptor_transaction_end en self = Some self'" by (rule transaction_end_returns [OF assms(1-3) c l])
  show "\<exists>self'. gum_interceptor_transaction_end en (gum_interceptor_transaction_begin self) = Some self'"
    by (rule transaction_end_returns [OF assms(1-3) _ l']) (use c in \<open>simp add: begin_observe\<close>)
qed

lemma takes_away_returns:
  assumes "orderly en" "stays_busy en" "permissive en" "good self" "outermost self" "takes_away en op self"
  shows "\<exists>r self'. perform_operation en op self = Some (r, self')"
proof (cases op)
  case (DETACH l)
  then show ?thesis using detach_returns [OF assms(1-5)] by auto
next
  case (REVERT a)
  then obtain f where "gum_interceptor_resolve en self a = Some f" using assms(6) by auto
  then show ?thesis using revert_returns [OF assms(1-5)] REVERT by auto
next
  case DISPOSE
  then show ?thesis using dispose_returns [OF assms(1-5)] by auto
next
  case END_TRANSACTION
  then show ?thesis using end_outermost_returns(1) [OF assms(1-5)] by (auto simp: gum_interceptor_end_transaction_def)
next
  case FLUSH
  then show ?thesis using end_outermost_returns(2) [OF assms(1-5)] by (auto simp: gum_interceptor_flush_def)
qed (use assms(6) in auto)

section \<open>Freeing everything\<close>

text \<open>No other thread is in an intercepted function, or enters one.\<close>

definition quiescent :: "environment \<Rightarrow> GumInterceptor \<Rightarrow> bool" where
  "quiescent en self \<longleftrightarrow>
     en_between en = (\<lambda>k rt. rt) \<and> (\<forall>p c. ctx_at self p = Some c \<longrightarrow> fc_trampoline_usage_counter c = 0)"

lemma still_busy: "en_between en = (\<lambda>k rt. rt) \<Longrightarrow> stays_busy en"
  using own_counter by (auto simp: stays_busy_def conj_commute split: option.splits)

lemma run_notify_effect:
  assumes "run_notify en n self = Some self'"
  shows "tasks self' = tasks self" "ctx_at self' = (case n of PERFORM_DESTROY p \<Rightarrow> (ctx_at self)(p := None) | _ \<Rightarrow> ctx_at self)"
proof -
  have "tasks self' = tasks self \<and> ctx_at self' = (case n of PERFORM_DESTROY p \<Rightarrow> (ctx_at self)(p := None) | _ \<Rightarrow> ctx_at self)"
  proof (cases n)
    case (PERFORM_DESTROY p)
    then have d: "gum_function_context_perform_destroy en p (log_effect (NOTIFY n) self) = Some self'"
      using assms by (simp add: run_notify_def)
    then obtain c where "ctx_at (log_effect (NOTIFY n) self) p = Some c"
      by (auto simp: gum_function_context_perform_destroy_def split: option.splits)
    then obtain s where "gum_function_context_perform_destroy en p (log_effect (NOTIFY n) self) = Some s"
      "ctx_at s = (ctx_at (log_effect (NOTIFY n) self))(p := None)" "tasks s = tasks (log_effect (NOTIFY n) self)"
      "table_of s = table_of (log_effect (NOTIFY n) self)" "updates s = updates (log_effect (NOTIFY n) self)"
      "pages s = pages (log_effect (NOTIFY n) self)"
      by (rule perform_destroy_effect)
    then show ?thesis using d PERFORM_DESTROY by (simp add: observe)
  qed (use assms in \<open>auto simp: run_notify_def observe\<close>)
  then show "tasks self' = tasks self" "ctx_at self' = (case n of PERFORM_DESTROY p \<Rightarrow> (ctx_at self)(p := None) | _ \<Rightarrow> ctx_at self)"
    by simp_all
qed

lemma quiescent_step:
  assumes "quiescent en self" "run_notify en n self = Some self'"
  shows "quiescent en self'"
  using assms(1) run_notify_effect(2) [OF assms(2)] by (auto simp: quiescent_def split: destroy_notify.splits if_splits)

lemma drain_quiescent:
  "quiescent en self \<Longrightarrow> run_destroy_tasks en k ts self = Some self' \<Longrightarrow> tasks self' = tasks self"
proof (induction ts arbitrary: k self)
  case (Cons t ts)
  have same: "self\<lparr>ip_runtime := en_between en k (ip_runtime self)\<rparr> = self" using Cons.prems(1) by (simp add: quiescent_def)
  obtain c where c: "ctx_at self (dt_ctx t) = Some c"
    using Cons.prems(2) unfolding run_destroy_tasks.simps Let_def same by (auto split: option.splits)
  then have "fc_trampoline_usage_counter c = 0" using Cons.prems(1) by (simp add: quiescent_def)
  then obtain s where s: "run_notify en (dt_notify t) self = Some s" "run_destroy_tasks en (Suc k) ts s = Some self'"
    using Cons.prems(2) c unfolding run_destroy_tasks.simps Let_def same by (auto split: Option.bind_splits)
  show ?case using Cons.IH [OF quiescent_step [OF Cons.prems(1) s(1)] s(2)] run_notify_effect(1) [OF s(1)] by simp
qed simp

lemma quiescent_observed:
  assumes "quiescent en self" "\<And>p c'. ctx_at s p = Some c' \<Longrightarrow> \<exists>c. ctx_at self p = Some c \<and> fc_trampoline_usage_counter c' = fc_trampoline_usage_counter c"
  shows "quiescent en s"
  using assms unfolding quiescent_def by fastforce

lemma steady_counters:
  assumes "steady self s" "ctx_at s p = Some c'"
  shows "\<exists>c. ctx_at self p = Some c \<and> fc_trampoline_usage_counter c' = fc_trampoline_usage_counter c"
proof -
  have "map_option stable (ctx_at self p) = Some (stable c')" using assms by (metis option.simps(9) steady_def)
  then show ?thesis by (auto simp: stable_def)
qed

lemma end_frees_all:
  assumes en: "orderly en" and c: "consistent self" and q: "quiescent en self" and go: "outermost (lower self)" "dirty self"
    and ret: "gum_interceptor_transaction_end en self = Some self'"
  shows "tasks self' = []"
proof -
  have go': "\<not> (0 <s level (lower self) \<or> \<not> dirty (lower self))" using go by (simp add: outermost_def observe)
  show ?thesis
  proof (cases "tasks self = [] \<and> pages self = []")
    case True
    then have "tasks self' = tasks self" using ret end_idle [OF go']
      by (auto simp: unignore_current_thread_def tasks_def update_transaction_def commit_code_def ignore_current_thread_def)
    then show ?thesis using True by simp
  next
    case pending: False
    let ?s2 = "working en self"
    let ?s3 = "?s2\<lparr>ip_current_transaction := gum_interceptor_transaction_init\<rparr>"
    let ?table = "tx_pending_update_tasks (ip_current_transaction ?s2)"
    have c2: "consistent ?s2" using c wf_observed [of ?s2 self] by (simp add: observe)
    have o3: "ctx_at ?s3 = ctx_at self"
      by (simp add: ctx_at_def fun_eq_iff) (simp add: observe flip: ctx_at_def)
    obtain s1 s2 where s: "run_updates en ?table ?s3 = Some s1" "run_destroy_tasks en 0 (tasks ?s2) s1 = Some s2" "self' = unignore_current_thread en s2"
      using ret unfolding end_works [OF go' pending] by (auto split: Option.bind_splits)
    have "distinct (map fst ?table)" "updates_wf (ctx_at ?s3) (mset (concat (map snd ?table)))"
      using c2 by (simp_all add: consistent_def pages_def updates_def o3 observe)
    from run_updates_rests [OF en this s(1)] have r: "ctx_at s1 = map_option at_rest \<circ> ctx_at self" "same_admin ?s3 s1"
      by (simp_all add: o3)
    have "quiescent en s1"
      by (rule quiescent_observed [OF q]) (auto simp: r(1) at_rest_def)
    then have "tasks s2 = tasks s1" using s(2) by (rule drain_quiescent)
    also have "tasks s1 = []" using r(2) by (simp add: same_admin_def tasks_def gum_interceptor_transaction_init_def)
    finally show ?thesis by (simp add: s(3) observe)
  qed
qed

lemma dispose_frees:
  assumes "orderly en" "permissive en" "good self" "outermost self" "quiescent en self"
  shows "\<exists>self'. gum_interceptor_do_dispose en self = Some self' \<and> ctx_at self' = Map.empty \<and> table_of self' = [] \<and> tasks self' = []"
proof -
  have busy: "stays_busy en" using assms(5) still_busy by (simp add: quiescent_def)
  obtain s self' where s: "dispose_body en (open_transaction self) = Some s" "consistent s" "tx_kept (open_transaction self) s"
    "steady (open_transaction self) s" "gum_interceptor_transaction_end en s = Some self'" "gum_interceptor_do_dispose en self = Some self'"
    by (rule dispose_returns [OF assms(1) busy assms(2-4)])
  have q: "quiescent en s"
    by (rule quiescent_observed [OF assms(5)]) (use steady_counters [OF s(4)] in \<open>simp add: observe\<close>)
  have "level (open_transaction self) = level self + 1"
    by (simp add: open_transaction_def mark_dirty_def gum_interceptor_transaction_begin_def update_transaction_def)
  then have o: "outermost (lower s)" "dirty s"
    using s(3) assms(4) opened(3) [of self] by (simp_all add: tx_kept_def outermost_def observe)
  have t: "tasks self' = []" by (rule end_frees_all [OF assms(1) s(2) q o s(5)])
  have d: "sound self' \<and> hooks_of self' = Map.empty"
    by (rule dispose_step [OF assms(1) busy _ s(6)]) (use assms(3) in \<open>simp add: good_def sound_def\<close>)
  then have g: "good self'" by (simp add: good_def apart_def)
  have w: "consistent self'" using d by (simp add: sound_def)
  have none: "map_of (table_of self') f = None" for f using hooks_registered [OF w, of f] d by simp
  have "ctx_at self' p = None" for p
  proof (cases "ctx_at self' p")
    case (Some c)
    then show ?thesis using good_contexts(1,2) [OF g Some] t none by simp
  qed
  moreover have "table_of self' = []"
  proof (cases "table_of self'")
    case (Cons e fs)
    then show ?thesis using none [of "fst e"] by (cases e) simp
  qed
  ultimately show ?thesis using s(6) t by (auto simp: fun_eq_iff)
qed

end
