(* ===== verification/Gum_Frontend.thy ===== *)
theory Gum_Frontend
  imports Gum_Teardown
begin

text \<open>
  The properties of the interceptor's operations, and the one that ties them to the threads: an operation
  is an update that the machine of threads allows.
\<close>

section \<open>Operations as updates of the machine\<close>

text \<open>What matters of a context to the threads inside its function.\<close>

definition grip :: "GumFunctionContext \<Rightarrow> guint32 \<times> GumInterceptorType \<times> gpointer" where
  "grip c = (fc_trampoline_usage_counter c, fc_type c, fc_on_leave_trampoline c)"

text \<open>An operation adds at most the new context, unused, and loosens the grip of no other.\<close>

definition grows :: "environment \<Rightarrow> GumInterceptor \<Rightarrow> GumInterceptor \<Rightarrow> bool" where
  "grows en self self' \<longleftrightarrow>
     (\<forall>p. case ctx_at self p of
            Some c \<Rightarrow> map_option grip (ctx_at self' p) = Some (grip c)
          | None \<Rightarrow> (case ctx_at self' p of
                      None \<Rightarrow> True
                    | Some c' \<Rightarrow> p = en_new_ctx en \<and> fc_trampoline_usage_counter c' = 0))"

text \<open>
  What other threads do to the contexts while the tasks at the end of a transaction are worked off and the
  lock is released: they count. A context stays in use if they never bring its counter to zero.
\<close>

definition counting_between :: "environment \<Rightarrow> bool" where
  "counting_between en \<longleftrightarrow> (\<forall>k rt. only_counters rt (en_between en k rt))"

definition stays_in_use :: "environment \<Rightarrow> gpointer \<Rightarrow> bool" where
  "stays_in_use en p \<longleftrightarrow>
     (\<forall>k rt c c'. rt_contexts rt p = Some c \<longrightarrow> fc_trampoline_usage_counter c \<noteq> 0 \<longrightarrow>
        rt_contexts (en_between en k rt) p = Some c' \<longrightarrow> fc_trampoline_usage_counter c' \<noteq> 0)"

definition nobody_between :: "environment \<Rightarrow> bool" where
  "nobody_between en \<longleftrightarrow> (\<forall>k rt. en_between en k rt = rt)"

text \<open>What the end of a transaction does to a context.\<close>

definition spared :: "environment \<Rightarrow> gpointer \<Rightarrow> GumFunctionContext option \<Rightarrow> GumFunctionContext option \<Rightarrow> bool" where
  "spared en p x y \<longleftrightarrow>
     (case (x, y) of
        (None, None) \<Rightarrow> True
      | (Some c, Some c') \<Rightarrow>
          snd (grip c') = snd (grip c) \<and>
          (stays_in_use en p \<longrightarrow> fc_trampoline_usage_counter c \<noteq> 0 \<longrightarrow> fc_trampoline_usage_counter c' \<noteq> 0) \<and>
          (nobody_between en \<longrightarrow> fc_trampoline_usage_counter c' = fc_trampoline_usage_counter c)
      | (Some c, None) \<Rightarrow> stays_in_use en p \<longrightarrow> fc_trampoline_usage_counter c = 0
      | (None, Some c') \<Rightarrow> False)"

definition frees :: "environment \<Rightarrow> GumInterceptor \<Rightarrow> GumInterceptor \<Rightarrow> bool" where
  "frees en self self' \<longleftrightarrow> (\<forall>p. spared en p (ctx_at self p) (ctx_at self' p))"

lemma nobody_stays: "nobody_between en \<Longrightarrow> stays_in_use en p"
  by (simp add: nobody_between_def stays_in_use_def)

lemma spared_same: "map_option grip y = map_option grip x \<Longrightarrow> spared en p x y"
  by (cases x; cases y) (simp_all add: spared_def grip_def)

lemma spared_trans: "spared en p x y \<Longrightarrow> spared en p y z \<Longrightarrow> spared en p x z"
  by (cases x; cases y; cases z) (auto simp: spared_def)

lemma grip_stable: "grip c = snd (stable c)"
  by (simp add: stable_def grip_def)

lemma grip_at_rest: "grip (at_rest c) = grip c"
  by (simp add: at_rest_def grip_def)

lemma steady_grip:
  assumes "steady self self'"
  shows "map_option grip (ctx_at self' p) = map_option grip (ctx_at self p)"
proof -
  have "map_option stable (ctx_at self' p) = map_option stable (ctx_at self p)" using assms by (simp add: steady_def)
  moreover have "map_option grip x = map_option snd (map_option stable x)" for x
    by (cases x) (simp_all add: grip_stable)
  ultimately show ?thesis by simp
qed

lemma grip_grows:
  assumes "\<And>p. map_option grip (ctx_at self' p) = map_option grip (ctx_at self p)"
  shows "grows en self self'"
  unfolding grows_def
proof
  fix p
  show "case ctx_at self p of Some c \<Rightarrow> map_option grip (ctx_at self' p) = Some (grip c)
    | None \<Rightarrow> (case ctx_at self' p of None \<Rightarrow> True | Some c' \<Rightarrow> p = en_new_ctx en \<and> fc_trampoline_usage_counter c' = 0)"
    using assms [of p] by (cases "ctx_at self p"; cases "ctx_at self' p") simp_all
qed

lemma grows_then:
  assumes "grows en self s" "\<And>p. map_option grip (ctx_at s' p) = map_option grip (ctx_at s p)"
  shows "grows en self s'"
  unfolding grows_def
proof
  fix p
  have "case ctx_at self p of Some c \<Rightarrow> map_option grip (ctx_at s p) = Some (grip c)
    | None \<Rightarrow> (case ctx_at s p of None \<Rightarrow> True | Some c' \<Rightarrow> p = en_new_ctx en \<and> fc_trampoline_usage_counter c' = 0)"
    using assms(1) by (simp add: grows_def)
  then show "case ctx_at self p of Some c \<Rightarrow> map_option grip (ctx_at s' p) = Some (grip c)
    | None \<Rightarrow> (case ctx_at s' p of None \<Rightarrow> True | Some c' \<Rightarrow> p = en_new_ctx en \<and> fc_trampoline_usage_counter c' = 0)"
    using assms(2) [of p]
    by (cases "ctx_at self p"; cases "ctx_at s p"; cases "ctx_at s' p") (auto simp: grip_def)
qed

lemma instrument_grows:
  assumes w: "consistent self" and fresh: "ctx_at self (en_new_ctx en) = None"
    and ret: "gum_interceptor_instrument en type a self = Some (r, self')"
  shows "grows en self self'"
proof (cases "ctx_at self' = ctx_at self")
  case True
  then show ?thesis by (intro grip_grows) simp
next
  case False
  have i: "instrumented en type a self r self'" using instrument_wf [OF w fresh ret] by simp
  then obtain c where c: "ctx_at self' = (ctx_at self)(en_new_ctx en \<mapsto> c)" "fc_trampoline_usage_counter c = 0"
    using False by (auto simp: instrumented_def same_function_def gum_function_context_new_def split: option.splits sum.splits)
  show ?thesis
    unfolding grows_def
  proof
    fix p
    show "case ctx_at self p of Some d \<Rightarrow> map_option grip (ctx_at self' p) = Some (grip d)
      | None \<Rightarrow> (case ctx_at self' p of None \<Rightarrow> True | Some c' \<Rightarrow> p = en_new_ctx en \<and> fc_trampoline_usage_counter c' = 0)"
      using fresh by (cases "p = en_new_ctx en"; cases "ctx_at self p") (simp_all add: c)
  qed
qed

lemma set_grip:
  assumes "ctx_at self p = Some c" "grip c' = grip c" "ctx_at self' = (ctx_at self)(p \<mapsto> c')"
  shows "map_option grip (ctx_at self' q) = map_option grip (ctx_at self q)"
  using assms by (cases "q = p") simp_all

lemma add_listener_grip:
  assumes "gum_function_context_add_listener en p l d self = Some self'"
  shows "map_option grip (ctx_at self' q) = map_option grip (ctx_at self q)"
proof -
  obtain c where c: "ctx_at self p = Some c"
    using assms by (auto simp: gum_function_context_add_listener_def split: option.splits)
  define entries where "entries = filter (\<lambda>e. e \<noteq> None) (fc_listener_entries c) @ [Some \<lparr>en_listener = l, en_function_data = d\<rparr>]"
  define c' where "c' = (if if_on_leave (en_ifaces en l) \<noteq> None
    then c\<lparr>fc_listener_entries := entries, fc_has_on_leave_listener := True\<rparr> else c\<lparr>fc_listener_entries := entries\<rparr>)"
  have "gum_function_context_add_listener en p l d self =
      Some (gum_interceptor_transaction_schedule_destroy p (UNREF_ENTRIES (fc_listener_entries c)) (set_ctx p (Some c') self))"
    unfolding gum_function_context_add_listener_def by (simp add: c Let_def c'_def entries_def)
  then have "self' = gum_interceptor_transaction_schedule_destroy p (UNREF_ENTRIES (fc_listener_entries c)) (set_ctx p (Some c') self)"
    using assms by simp
  then have "ctx_at self' = (ctx_at self)(p \<mapsto> c')" by (simp add: observe)
  moreover have "grip c' = grip c" by (simp add: c'_def grip_def)
  ultimately show ?thesis using set_grip [OF c] by blast
qed

lemma attach_body_grows:
  assumes w: "consistent self" and fresh: "ctx_at self (en_new_ctx en) = None"
    and ret: "attach_body en a l d self = Some (r, self')"
  shows "grows en self self'"
proof -
  obtain f q s1 where s1: "gum_interceptor_resolve en self a = Some f"
    "gum_interceptor_instrument en GUM_INTERCEPTOR_TYPE_DEFAULT f self = Some (q, s1)"
    using ret by (auto simp: attach_body_def split: option.splits)
  have g: "grows en self s1" by (rule instrument_grows [OF w fresh s1(2)])
  have "self' = s1 \<or> (\<exists>p. gum_function_context_add_listener en p l d s1 = Some self')"
    using ret s1 by (auto simp: attach_body_def split: sum.splits option.splits if_splits)
  then show ?thesis using g grows_then add_listener_grip by blast
qed

lemma replace_body_grows:
  assumes w: "consistent self" and fresh: "ctx_at self (en_new_ctx en) = None"
    and ret: "replace_body en type a g d self = Some (r, self')"
  shows "grows en self self'"
proof -
  obtain f q s1 where s1: "gum_interceptor_resolve en self a = Some f" "gum_interceptor_instrument en type f self = Some (q, s1)"
    using ret by (auto simp: replace_body_def split: option.splits)
  have g: "grows en self s1" by (rule instrument_grows [OF w fresh s1(2)])
  have "self' = s1 \<or> (\<exists>p c. ctx_at s1 p = Some c \<and>
      self' = set_ctx p (Some (c\<lparr>fc_replacement_data := d, fc_replacement_function := g\<rparr>)) s1)"
    using ret s1 by (auto simp: replace_body_def split: sum.splits option.splits if_splits)
  then show ?thesis
  proof
    assume "\<exists>p c. ctx_at s1 p = Some c \<and> self' = set_ctx p (Some (c\<lparr>fc_replacement_data := d, fc_replacement_function := g\<rparr>)) s1"
    then obtain p c where c: "ctx_at s1 p = Some c" "self' = set_ctx p (Some (c\<lparr>fc_replacement_data := d, fc_replacement_function := g\<rparr>)) s1"
      by blast
    have "map_option grip (ctx_at self' q) = map_option grip (ctx_at s1 q)" for q
      by (rule set_grip [OF c(1)]) (simp_all add: c(2) observe grip_def)
    then show ?thesis by (rule grows_then [OF g])
  qed (simp add: g)
qed

text \<open>The end of a transaction, with threads coming in between.\<close>

lemma frees_refl: "(\<And>p. map_option grip (ctx_at self' p) = map_option grip (ctx_at self p)) \<Longrightarrow> frees en self self'"
  by (simp add: frees_def spared_same)

lemma frees_then: "frees en self s \<Longrightarrow> frees en s s' \<Longrightarrow> frees en self s'"
  unfolding frees_def using spared_trans by blast

lemma between_frees:
  assumes "counting_between en"
  shows "frees en self (self\<lparr>ip_runtime := en_between en k (ip_runtime self)\<rparr>)"
  unfolding frees_def
proof
  fix p
  define x y where "x = rt_contexts (ip_runtime self) p" and "y = rt_contexts (en_between en k (ip_runtime self)) p"
  have c: "map_option (\<lambda>c. c\<lparr>fc_trampoline_usage_counter := 0\<rparr>) y = map_option (\<lambda>c. c\<lparr>fc_trampoline_usage_counter := 0\<rparr>) x"
    using assms by (simp add: counting_between_def only_counters_def x_def y_def)
  have u: "stays_in_use en p \<Longrightarrow> x = Some c \<Longrightarrow> fc_trampoline_usage_counter c \<noteq> 0 \<Longrightarrow> y = Some c' \<Longrightarrow>
      fc_trampoline_usage_counter c' \<noteq> 0" for c c'
    unfolding stays_in_use_def x_def y_def by blast
  have n: "nobody_between en \<Longrightarrow> y = x" by (simp add: nobody_between_def x_def y_def)
  have "spared en p x y"
  proof (cases x)
    case None
    then show ?thesis using c by (cases y) (simp_all add: spared_def)
  next
    case (Some d)
    then obtain d' where d': "y = Some d'" "d'\<lparr>fc_trampoline_usage_counter := 0\<rparr> = d\<lparr>fc_trampoline_usage_counter := 0\<rparr>"
      using c by (cases y) auto
    have "snd (grip (e\<lparr>fc_trampoline_usage_counter := 0\<rparr>)) = snd (grip e)" for e by (simp add: grip_def)
    then have "snd (grip d') = snd (grip d)" using d'(2) by metis
    moreover have "nobody_between en \<Longrightarrow> d' = d" using n d'(1) Some by simp
    ultimately show ?thesis using u [OF _ Some _ d'(1)] Some d'(1) by (auto simp: spared_def)
  qed
  then show "spared en p (ctx_at self p) (ctx_at (self\<lparr>ip_runtime := en_between en k (ip_runtime self)\<rparr>) p)"
    by (simp add: x_def y_def ctx_at_def)
qed

definition own_tasks :: "GumDestroyTask list \<Rightarrow> bool" where
  "own_tasks ts \<longleftrightarrow> (\<forall>t \<in> set ts. \<forall>q. dt_notify t = PERFORM_DESTROY q \<longrightarrow> q = dt_ctx t)"

lemma drain_frees:
  "counting_between en \<Longrightarrow> own_tasks ts \<Longrightarrow> run_destroy_tasks en k ts self = Some self' \<Longrightarrow> frees en self self'"
proof (induction ts arbitrary: k self)
  case Nil
  then show ?case by (auto intro: frees_refl)
next
  case (Cons t ts)
  define s1 where "s1 = self\<lparr>ip_runtime := en_between en k (ip_runtime self)\<rparr>"
  have f1: "frees en self s1" unfolding s1_def by (rule between_frees [OF Cons.prems(1)])
  have run: "run_destroy_tasks en k (t # ts) self = (case ctx_at s1 (dt_ctx t) of None \<Rightarrow> None | Some c \<Rightarrow>
      if fc_trampoline_usage_counter c = 0 then Option.bind (run_notify en (dt_notify t) s1) (run_destroy_tasks en (Suc k) ts)
      else run_destroy_tasks en (Suc k) ts (update_transaction (\<lambda>tx. tx\<lparr>tx_is_dirty := True,
        tx_pending_destroy_tasks := tx_pending_destroy_tasks tx @ [t]\<rparr>) s1))"
    by (simp add: s1_def Let_def split: option.splits)
  obtain c where c: "ctx_at s1 (dt_ctx t) = Some c"
    using Cons.prems(3) unfolding run by (auto split: option.splits)
  have own: "own_tasks ts" "\<And>q. dt_notify t = PERFORM_DESTROY q \<Longrightarrow> q = dt_ctx t" using Cons.prems(2) by (simp_all add: own_tasks_def)
  show ?case
  proof (cases "fc_trampoline_usage_counter c = 0")
    case True
    obtain s where s: "run_notify en (dt_notify t) s1 = Some s" "run_destroy_tasks en (Suc k) ts s = Some self'"
      using Cons.prems(3) c True unfolding run by (auto split: Option.bind_splits)
    have "spared en p (ctx_at s1 p) (ctx_at s p)" for p
    proof (cases "ctx_at s p = ctx_at s1 p")
      case False
      then have "p = dt_ctx t" "ctx_at s p = None"
        using run_notify_effect(2) [OF s(1)] own(2) by (auto split: destroy_notify.splits if_splits)
      then show ?thesis using c True by (simp add: spared_def)
    qed (simp add: spared_same)
    then have "frees en s1 s" by (simp add: frees_def)
    then show ?thesis using Cons.IH [OF Cons.prems(1) own(1) s(2)] f1 frees_then by blast
  next
    case False
    let ?s = "update_transaction (\<lambda>tx. tx\<lparr>tx_is_dirty := True,
        tx_pending_destroy_tasks := tx_pending_destroy_tasks tx @ [t]\<rparr>) s1"
    have "run_destroy_tasks en (Suc k) ts ?s = Some self'"
      using Cons.prems(3) c False unfolding run by simp
    then have "frees en ?s self'" using Cons.IH [OF Cons.prems(1) own(1)] by blast
    moreover have "frees en s1 ?s" by (rule frees_refl) (simp add: observe)
    ultimately show ?thesis using f1 frees_then by blast
  qed
qed

lemma end_frees:
  assumes en: "orderly en" "counting_between en" and c: "consistent self"
    and ret: "gum_interceptor_transaction_end en self = Some self'"
  shows "frees en self self'"
proof (cases "0 <s level (lower self) \<or> \<not> dirty (lower self)")
  case True
  then have "self' = lower self" using ret end_goes_on by simp
  then show ?thesis by (auto intro: frees_refl simp: observe)
next
  case go: False
  show ?thesis
  proof (cases "tasks self = [] \<and> pages self = []")
    case True
    then have "self' = unignore_current_thread en (update_transaction (\<lambda>tx. tx\<lparr>tx_is_dirty := False\<rparr>) (working en self))"
      using ret end_idle [OF go] by simp
    then show ?thesis by (auto intro: frees_refl simp: observe)
  next
    case pending: False
    let ?s2 = "working en self"
    let ?s3 = "?s2\<lparr>ip_current_transaction := gum_interceptor_transaction_init\<rparr>"
    let ?table = "tx_pending_update_tasks (ip_current_transaction ?s2)"
    have c2: "consistent ?s2" using c wf_observed [of ?s2 self] by (simp add: observe)
    have o3: "ctx_at ?s3 = ctx_at self"
      by (simp add: ctx_at_def fun_eq_iff) (simp add: observe flip: ctx_at_def)
    obtain s1 s2 where s: "run_updates en ?table ?s3 = Some s1" "run_destroy_tasks en 0 (tasks ?s2) s1 = Some s2" "self' = unignore_current_thread en s2"
      using ret unfolding end_works [OF go pending] by (auto split: Option.bind_splits)
    have "distinct (map fst ?table)" "updates_wf (ctx_at ?s3) (mset (concat (map snd ?table)))"
      using c2 by (simp_all add: consistent_def pages_def updates_def o3 observe)
    from run_updates_rests [OF en(1) this s(1)] have r: "ctx_at s1 = map_option at_rest \<circ> ctx_at self" by (simp add: o3)
    have own: "own_tasks (tasks ?s2)" using c2 by (auto simp: own_tasks_def consistent_def tasks_wf_def)
    have "frees en self s1" by (rule frees_refl) (simp add: r option.map_comp comp_def grip_at_rest)
    moreover have "frees en s1 s2" by (rule drain_frees [OF en(2) own s(2)])
    moreover have "frees en s2 self'" by (rule frees_refl) (simp add: s(3) observe)
    ultimately show ?thesis using frees_then by blast
  qed
qed

lemma operation_frees:
  assumes "good self" "orderly en" "ctx_at self (en_new_ctx en) = None" "counting_between en" and "perform_operation en op self = Some (r, self')"
  shows "\<exists>s. grows en self s \<and> frees en s self'"
proof -
  note en = assms(2,3)
  have w: "consistent self" "apart (hooks_of self)" using assms(1) by (simp_all add: good_def sound_def)
  let ?i = "ignore_current_thread en self"
  have opens: "grows en (open_transaction self) s \<Longrightarrow> grows en self s" "grows en (open_transaction ?i) s \<Longrightarrow> grows en self s" for s
    by (simp_all add: grows_def observe)
  have steady_grows: "steady s s' \<Longrightarrow> grows en s s'" for s s' using steady_grip grip_grows by blast
  have c0: "consistent (open_transaction self)" "consistent (open_transaction ?i)" "apart (hooks_of (open_transaction ?i))"
    "ctx_at (open_transaction self) (en_new_ctx en) = None" "ctx_at (open_transaction ?i) (en_new_ctx en) = None"
    using w en(2) by (simp_all add: opened ignored observe)
  have closing: "\<exists>s. grows en self s \<and> frees en s self'" if g: "grows en self s" and c: "consistent s" and e: "gum_interceptor_transaction_end en s = Some s'"
      and o: "self' = s' \<or> self' = unignore_current_thread en s'" for s s'
  proof -
    have "frees en s s'" by (rule end_frees [OF en(1) assms(4) c e])
    moreover have "frees en s' self'" using o by (auto intro: frees_refl simp: observe)
    ultimately have "frees en s self'" by (rule frees_then)
    then show ?thesis using g by blast
  qed
  show ?thesis
  proof (cases op)
    case (ATTACH a l d)
    then obtain q s s' where s: "attach_body en a l d (open_transaction ?i) = Some (q, s)" "gum_interceptor_transaction_end en s = Some s'"
      "self' = unignore_current_thread en s'"
      using assms(5) by (auto simp: gum_interceptor_attach_def split: option.splits)
    have "consistent s" using attach_body_spec [OF c0(2,5) s(1)] by blast
    then show ?thesis using closing [OF opens(2) [OF attach_body_grows [OF c0(2,5) s(1)]]] s(2,3) by blast
  next
    case (DETACH l)
    obtain s where s: "detach_body en l (open_transaction ?i) = Some s" "consistent s" "tx_kept (open_transaction ?i) s"
      "steady (open_transaction ?i) s" "hooks_of s = detach_spec l (hooks_of (open_transaction ?i))"
      by (rule detach_body_spec [OF en(1) c0(2,3)])
    obtain s' where "gum_interceptor_transaction_end en s = Some s'" "self' = unignore_current_thread en s'"
      using assms(5) DETACH s(1) by (auto simp: gum_interceptor_detach_def)
    then show ?thesis using closing [OF opens(2) [OF steady_grows [OF s(4)]] s(2)] by blast
  next
    case (REPLACE type a g d)
    then obtain q o' s where s: "replace_body en type a g d (open_transaction self) = Some ((q, o'), s)" "gum_interceptor_transaction_end en s = Some self'"
      using assms(5) by (auto simp: gum_interceptor_replace_with_type_def split: option.splits)
    have "consistent s" using replace_body_spec [OF c0(1,4) s(1)] by blast
    then show ?thesis using closing [OF opens(1) [OF replace_body_grows [OF c0(1,4) s(1)]]] s(2) by blast
  next
    case (REVERT a)
    then obtain s where s: "revert_body en a (open_transaction self) = Some s" "gum_interceptor_transaction_end en s = Some self'"
      using assms(5) by (auto simp: gum_interceptor_revert_def split: Option.bind_splits)
    obtain f where f: "gum_interceptor_resolve en (open_transaction self) a = Some f"
      using s(1) by (auto simp: revert_body_def split: option.splits)
    obtain s1 where s1: "revert_body en a (open_transaction self) = Some s1" "consistent s1" "tx_kept (open_transaction self) s1"
      "steady (open_transaction self) s1" "hooks_of s1 = revert_spec f (hooks_of (open_transaction self))"
      by (rule revert_body_spec [OF c0(1) f])
    then have "s1 = s" using s(1) by simp
    then show ?thesis using closing [OF opens(1) [OF steady_grows [OF s1(4)]] s1(2)] s(2) by blast
  next
    case DISPOSE
    obtain s where s: "dispose_body en (open_transaction self) = Some s" "consistent s" "tx_kept (open_transaction self) s"
      "steady (open_transaction self) s" "hooks_of s = Map.empty"
      by (rule dispose_body_spec [OF en(1) c0(1)])
    have "gum_interceptor_transaction_end en s = Some self'" using assms(5) DISPOSE s(1) by (auto simp: gum_interceptor_do_dispose_def)
    then show ?thesis using closing [OF opens(1) [OF steady_grows [OF s(4)]] s(2)] by blast
  next
    case BEGIN_TRANSACTION
    then have "self' = gum_interceptor_transaction_begin self" using assms(5) by (simp add: gum_interceptor_begin_transaction_def)
    then have "frees en self self'" by (auto intro: frees_refl simp: gum_interceptor_transaction_begin_def observe)
    moreover have "grows en self self" by (rule grip_grows) simp
    ultimately show ?thesis by blast
  next
    case END_TRANSACTION
    then have "gum_interceptor_transaction_end en self = Some self'" using assms(5) by (auto simp: gum_interceptor_end_transaction_def)
    then show ?thesis using closing [OF _ w(1)] grip_grows [of self self] by blast
  next
    case FLUSH
    show ?thesis
    proof (cases "level self = 0")
      case True
      let ?s = "gum_interceptor_transaction_begin self"
      have "gum_interceptor_transaction_end en ?s = Some self'" using assms(5) FLUSH True by (auto simp: gum_interceptor_flush_def)
      moreover have "grows en self ?s" by (rule grip_grows) (simp add: gum_interceptor_transaction_begin_def observe)
      moreover have "consistent ?s" using w(1) by (simp add: begin_observe)
      ultimately show ?thesis using closing by blast
    next
      case False
      then have "self' = self" using assms(5) FLUSH by (auto simp: gum_interceptor_flush_def)
      then show ?thesis using grip_grows [of self self] frees_refl [of self self en] by blast
    qed
  qed
qed

lemma leave_sites_grip:
  "leave_sites ctxs p = Option.bind (map_option grip (ctxs p))
     (\<lambda>(n, type, site). if type = GUM_INTERCEPTOR_TYPE_DEFAULT then Some site else None)"
  by (cases "ctxs p") (simp_all add: leave_sites_def grip_def)

lemma grown_and_freed:
  assumes "grows en self s" "frees en s self'"
  shows "ctx_at self p = Some c \<Longrightarrow> fc_trampoline_usage_counter c \<noteq> 0 \<Longrightarrow> stays_in_use en p \<Longrightarrow>
      \<exists>c'. ctx_at self' p = Some c' \<and> fc_trampoline_usage_counter c' \<noteq> 0"
    and "ctx_at self p = Some c \<Longrightarrow> ctx_at self' p = Some c' \<Longrightarrow>
      fc_type c' = fc_type c \<and> fc_on_leave_trampoline c' = fc_on_leave_trampoline c"
    and "ctx_at self p = None \<Longrightarrow> ctx_at self' p = Some c' \<Longrightarrow>
      p = en_new_ctx en \<and> (nobody_between en \<longrightarrow> fc_trampoline_usage_counter c' = 0)"
    and "nobody_between en \<Longrightarrow> ctx_at self p = Some c \<Longrightarrow>
      (case ctx_at self' p of None \<Rightarrow> fc_trampoline_usage_counter c = 0 | Some c' \<Rightarrow> grip c' = grip c)"
proof -
  have g: "case ctx_at self p of Some c \<Rightarrow> map_option grip (ctx_at s p) = Some (grip c)
    | None \<Rightarrow> (case ctx_at s p of None \<Rightarrow> True | Some c' \<Rightarrow> p = en_new_ctx en \<and> fc_trampoline_usage_counter c' = 0)"
    using assms(1) by (simp add: grows_def)
  have f: "spared en p (ctx_at s p) (ctx_at self' p)" using assms(2) by (simp add: frees_def)
  show "ctx_at self p = Some c \<Longrightarrow> fc_trampoline_usage_counter c \<noteq> 0 \<Longrightarrow> stays_in_use en p \<Longrightarrow>
      \<exists>c'. ctx_at self' p = Some c' \<and> fc_trampoline_usage_counter c' \<noteq> 0"
    using g f by (cases "ctx_at s p"; cases "ctx_at self' p") (auto simp: spared_def grip_def)
  show "ctx_at self p = Some c \<Longrightarrow> ctx_at self' p = Some c' \<Longrightarrow>
      fc_type c' = fc_type c \<and> fc_on_leave_trampoline c' = fc_on_leave_trampoline c"
    using g f by (cases "ctx_at s p") (auto simp: spared_def grip_def)
  show "ctx_at self p = None \<Longrightarrow> ctx_at self' p = Some c' \<Longrightarrow>
      p = en_new_ctx en \<and> (nobody_between en \<longrightarrow> fc_trampoline_usage_counter c' = 0)"
    using g f by (cases "ctx_at s p") (auto simp: spared_def)
  show "nobody_between en \<Longrightarrow> ctx_at self p = Some c \<Longrightarrow>
      (case ctx_at self' p of None \<Rightarrow> fc_trampoline_usage_counter c = 0 | Some c' \<Rightarrow> grip c' = grip c)"
    using g f nobody_stays [of en p] by (cases "ctx_at s p"; cases "ctx_at self' p") (auto simp: spared_def grip_def)
qed

lemma unshared_update:
  assumes s: "grows en self s" "frees en s self'" and nobody: "nobody_between en"
    and inj: "inj_on (leave_sites (ctx_at self)) (dom (leave_sites (ctx_at self)))" and fresh: "ctx_at self (en_new_ctx en) = None"
    and new: "\<And>a. leave_sites (ctx_at self') (en_new_ctx en) = Some a \<Longrightarrow> unused (ip_runtime self) \<sigma> a \<and> a \<notin> ran (leave_sites (ctx_at self))"
  shows "allowed_update (ip_runtime self) \<sigma> (rt_contexts (ip_runtime self'))"
proof -
  note e = grown_and_freed [OF s]
  have c: "rt_contexts (ip_runtime self) = ctx_at self" "rt_contexts (ip_runtime self') = ctx_at self'" by (simp_all add: ctx_at_def fun_eq_iff)
  have old: "leave_sites (ctx_at self) p = Some a" if l: "leave_sites (ctx_at self') p = Some a" and p: "p \<noteq> en_new_ctx en" for p a
  proof -
    obtain c' where c': "ctx_at self' p = Some c'" using l by (auto simp: leave_sites_Some)
    then obtain c where c: "ctx_at self p = Some c" using e(3) [of p] p by (cases "ctx_at self p") auto
    show ?thesis using l c c' e(2) [OF c c'] by (auto simp: leave_sites_Some)
  qed
  show ?thesis
    unfolding allowed_update_def c
  proof (intro conjI allI)
    show "inj_on (leave_sites (ctx_at self')) (dom (leave_sites (ctx_at self')))"
    proof (rule inj_onI)
      fix p q assume "p \<in> dom (leave_sites (ctx_at self'))" "leave_sites (ctx_at self') p = leave_sites (ctx_at self') q"
      then obtain a where a: "leave_sites (ctx_at self') p = Some a" "leave_sites (ctx_at self') q = Some a" by (auto simp: dom_def)
      have "r \<noteq> en_new_ctx en" if "leave_sites (ctx_at self') r = Some a" "leave_sites (ctx_at self) r' = Some a" for r r'
        using new that by (auto simp: ran_def)
      moreover have "p = q" if "leave_sites (ctx_at self) p = Some a" "leave_sites (ctx_at self) q = Some a"
        using inj that by (auto simp: inj_on_def dom_def)
      ultimately show "p = q" using a old by metis
    qed
    fix p
    have site: "leave_sites (ctx_at self') p = leave_sites (ctx_at self) p" if "ctx_at self p = Some c" "ctx_at self' p = Some c'" "grip c' = grip c" for c c'
      using that by (simp add: leave_sites_grip)
    show "case (ctx_at self p, ctx_at self' p) of
        (Some c, Some c') \<Rightarrow> fc_trampoline_usage_counter c' = fc_trampoline_usage_counter c \<and> leave_sites (ctx_at self') p = leave_sites (ctx_at self) p
      | (Some c, None) \<Rightarrow> fc_trampoline_usage_counter c = 0
      | (None, Some c') \<Rightarrow> fc_trampoline_usage_counter c' = 0 \<and> (\<forall>a. leave_sites (ctx_at self') p = Some a \<longrightarrow> unused (ip_runtime self) \<sigma> a)
      | (None, None) \<Rightarrow> True"
    proof (cases "ctx_at self p")
      case None
      then show ?thesis using e(3) [of p] nobody new by (cases "ctx_at self' p") auto
    next
      case (Some c)
      then show ?thesis using e(4) [OF nobody Some] site by (cases "ctx_at self' p") (auto simp: grip_def)
    qed
  qed
qed

section \<open>An interceptor with one function\<close>

definition sample_storage :: GumInterceptorBackend where
  "sample_storage =
     \<lparr>be_allocator = \<lparr>ca_slice_size = 256, ca_pages_per_batch = 7, ca_slices_per_batch = 112, ca_pages_metadata_size = 4520,
        ca_uncommitted_pages = [], ca_dirty_pages = {}, ca_free_slices = [], ca_dispatchers = [], ca_heap = Map.empty,
        ca_deflectors = Map.empty\<rparr>,
      be_writer = \<lparr>w_ref_count = 1, w_flush_on_destroy = True, w_target_cpu = GUM_CPU_AMD64, w_target_abi = GUM_ABI_UNIX,
        w_base = 0x1000, w_code = 0x1000, w_pc = 0x1000, w_label_defs = None, w_label_refs = None, w_mem = (\<lambda>_. 0)\<rparr>,
      be_relocator = \<lparr>rl_ref_count = 1, rl_capstone_cpu = GUM_CPU_AMD64, rl_input_start = 0, rl_input_cur = 0, rl_input_pc = 0,
        rl_input_insns = replicate 100 None, rl_output = False, rl_inpos = 0, rl_outpos = 0, rl_eob = False, rl_eoi = False\<rparr>,
      be_enter_thunk = None, be_leave_thunk = None\<rparr>"

definition sample_interceptor :: "guint32 \<Rightarrow> GumInterceptor" where
  "sample_interceptor counter =
     \<lparr>ip_runtime = sample_runtime\<lparr>rt_contexts := [0x5000 \<mapsto> sample_function_ctx\<lparr>fc_trampoline_usage_counter := counter\<rparr>]\<rparr>,
      ip_function_by_address = [(0x400000, 0x5000)], ip_has_backend = True, ip_backend = sample_storage,
      ip_current_transaction = gum_interceptor_transaction_init, ip_effects = []\<rparr>"

definition sample_answers :: os_answers where
  "sample_answers = \<lparr>os_page_size = 4096, os_rwx_supported = True, os_code_segment_supported = False, os_pages_near = 0x70000,
     os_pages_anywhere = 0x70000, os_segment = 0, os_metadata = 0x9000\<rparr>"

definition sample_environment :: environment where
  "sample_environment =
     \<lparr>en_cs = \<lparr>cs_disasm_iter = \<lambda>_ _ _ _. None, cs_reg_read = \<lambda>_ _. False, cs_reg_write = \<lambda>_ _. False\<rparr>,
      en_ld = \<lparr>ld_begin_invocation = 0x500000, ld_end_invocation = 0x500100,
               ld_literal = (\<lambda>s. if s = ''sampling_skip'' then 0x600000 else 0x600010)\<rparr>,
      en_lo = \<lparr>lo_writer = be_writer sample_storage, lo_relocator = be_relocator sample_storage, lo_buf = 0x7f0000\<rparr>,
      en_storage = (sample_answers, sample_answers), en_slices = (sample_answers, sample_answers), en_os = sample_answers,
      en_signing_required = False, en_new_ctx = 0x5200, en_thread = 1, en_threads = [1], en_suspend = \<lambda>_. True,
      en_mprotect = \<lambda>_. True, en_hash_order = \<lambda>xs. xs, en_sort = \<lambda>f xs. xs, en_between = \<lambda>k rt. rt, en_ifaces = sample_ifaces\<rparr>"

lemma sample_observe:
  "ctx_at (sample_interceptor n) = [0x5000 \<mapsto> sample_function_ctx\<lparr>fc_trampoline_usage_counter := n\<rparr>]"
  "tasks (sample_interceptor n) = []" "updates (sample_interceptor n) = []" "pages (sample_interceptor n) = []"
  "table_of (sample_interceptor n) = [(0x400000, 0x5000)]"
  by (simp_all add: sample_interceptor_def ctx_at_def fun_eq_iff tasks_def updates_def pages_def gum_interceptor_transaction_init_def)

lemma sample_good: "good (sample_interceptor n)" "outermost (sample_interceptor n)"
proof -
  have "consistent (sample_interceptor n)"
    by (simp add: consistent_def sample_observe tasks_wf_def table_wf_def updates_wf_def due_def sample_function_ctx_def)
  moreover have "apart (hooks_of (sample_interceptor n))"
    by (simp add: apart_def hooks_of_def sample_observe hook_of_def sample_function_ctx_def)
  moreover show "outermost (sample_interceptor n)"
    by (simp add: outermost_def sample_interceptor_def gum_interceptor_transaction_init_def)
  ultimately show "good (sample_interceptor n)" by (simp add: good_def sound_def sample_observe)
qed

lemma sample_friendly:
  "orderly sample_environment" "stays_busy sample_environment" "permissive sample_environment"
  "en_between sample_environment = (\<lambda>k rt. rt)" "en_new_ctx sample_environment = 0x5200"
proof -
  show b: "en_between sample_environment = (\<lambda>k rt. rt)" by (simp add: sample_environment_def)
  show "orderly sample_environment" "permissive sample_environment" "en_new_ctx sample_environment = 0x5200"
    by (simp_all add: sample_environment_def orderly_def permissive_def)
  show "stays_busy sample_environment" by (rule still_busy [OF b])
qed

section \<open>Properties\<close>

text \<open>
  C7: The interceptor implements a map from functions to their hooks: the listeners in the order in which they were
  attached, and the replacement. Whatever operations are made, in whatever nesting of transactions and with
  whatever calls of intercepted functions in between, every return code and the hooks afterwards are those
  that the same steps on the abstract map allow. A history has only steps with a friendly environment: while
  the tasks at the end of a transaction are worked off with the lock released, no thread leaves the last
  frame of a destroyed context.
\<close>

theorem operations_refine_hooks:
  assumes "good start" and "history start es self"
  shows "hook_run (hooks_of start) es (hooks_of self)"
  using history_good [OF assms(2,1)] by blast

definition sample_answers_of :: "(answer \<times> answer \<times> bool \<times> hook option) option" where
  "sample_answers_of =
     (case perform_operation sample_environment (ATTACH 0x400000 0x6001 0) (sample_interceptor 0) of
        None \<Rightarrow> None
      | Some (r1, s1) \<Rightarrow>
          (case perform_operation sample_environment (DETACH 0x6000) s1 of
             None \<Rightarrow> None
           | Some (r2, s2) \<Rightarrow> Some (r1, r2, Option.is_none (ctx_at s1 0x5200), hooks_of s2 0x400000)))"

lemma sample_answers_are:
  "sample_answers_of = Some (ATTACHED GUM_ATTACH_OK, DONE, True,
     Some \<lparr>hk_type = GUM_INTERCEPTOR_TYPE_DEFAULT, hk_listeners = [\<lparr>en_listener = 0x6001, en_function_data = 0\<rparr>],
           hk_replacement = 0, hk_replacement_data = 0\<rparr>)"
  by code_simp

theorem operations_refine_hooks_witness:
  "\<exists>es self. map (snd \<circ> snd) es = [(ATTACH 0x400000 0x6001 0, ATTACHED GUM_ATTACH_OK), (DETACH 0x6000, DONE)] \<and>
     hook_run (hooks_of (sample_interceptor 0)) es (hooks_of self) \<and>
     map_option hk_listeners (hooks_of self 0x400000) = Some [\<lparr>en_listener = 0x6001, en_function_data = 0\<rparr>]"
proof -
  let ?en = sample_environment and ?s0 = "sample_interceptor 0"
  obtain s1 s2 where s: "perform_operation ?en (ATTACH 0x400000 0x6001 0) ?s0 = Some (ATTACHED GUM_ATTACH_OK, s1)"
    "perform_operation ?en (DETACH 0x6000) s1 = Some (DONE, s2)" "ctx_at s1 0x5200 = None"
    "map_option hk_listeners (hooks_of s2 0x400000) = Some [\<lparr>en_listener = 0x6001, en_function_data = 0\<rparr>]"
    using sample_answers_are by (auto simp: sample_answers_of_def Option.is_none_def split: option.splits)
  have "friendly ?en (ATTACH 0x400000 0x6001 0) ?s0" "friendly ?en (DETACH 0x6000) s1"
    using sample_friendly s(3) by (simp_all add: friendly_def sample_observe)
  then have "history ?s0 ([] @ [(refusal ?en, target_of ?en (ATTACH 0x400000 0x6001 0) ?s0, ATTACH 0x400000 0x6001 0, ATTACHED GUM_ATTACH_OK)] @
      [(refusal ?en, target_of ?en (DETACH 0x6000) s1, DETACH 0x6000, DONE)]) s2"
    using s(1,2) history.operation history.nothing_yet by (metis append_assoc)
  from operations_refine_hooks [OF sample_good(1) this] this s(4) show ?thesis
    by (intro exI conjI) auto
qed

text \<open>
  C8: The invariant of the interceptor. In every state that a history of operations and calls of threads reaches from the
  initial one, each context that exists is registered under its function, or is destroyed and waits to be
  freed; every pending task is of a context that exists; and outside of transactions the code of a function is
  patched exactly if the function is registered. The steps of a history are made in a friendly environment: GLib
  gives fresh addresses, the level of nested transactions does not overflow, and while the tasks at the
  end of a transaction are worked off with the lock released, no thread leaves the last frame of a destroyed
  context. Without the last condition a task can stay behind that names a freed context, as is shown at the
  end of this theory.
\<close>

theorem contexts_accounted_for:
  assumes "initial start" and "history start es self"
  shows "(\<forall>p c. ctx_at self p = Some c \<longrightarrow>
            (if fc_destroyed c then perform p \<in> set (tasks self) \<and> p \<notin> snd ` set (table_of self)
             else map_of (table_of self) (fc_function_address c) = Some p)) \<and>
         (\<forall>t \<in> set (tasks self). ctx_at self (dt_ctx t) \<noteq> None) \<and>
         (outermost self \<longrightarrow> (\<forall>p c. ctx_at self p = Some c \<longrightarrow> (fc_activated c \<longleftrightarrow> p \<in> snd ` set (table_of self))))"
proof -
  have g: "good self" using history_good [OF assms(2) initial_good(1) [OF assms(1)]] by simp
  then have w: "consistent self" by (simp add: good_def sound_def)
  have reg: "p \<in> snd ` set (table_of self) \<longleftrightarrow> \<not> fc_destroyed c" if c: "ctx_at self p = Some c" for p c
  proof
    assume "p \<in> snd ` set (table_of self)"
    then obtain a where "(a, p) \<in> set (table_of self)" by auto
    moreover have "table_wf (ctx_at self) (table_of self)" using w by (simp add: consistent_def)
    ultimately have "\<exists>d. ctx_at self p = Some d \<and> \<not> fc_destroyed d" unfolding table_wf_def by blast
    then show "\<not> fc_destroyed c" using c by simp
  next
    assume "\<not> fc_destroyed c"
    then have "(fc_function_address c, p) \<in> set (table_of self)" using w c by (simp add: consistent_def table_wf_def)
    then show "p \<in> snd ` set (table_of self)" by force
  qed
  have "ctx_at self (dt_ctx t) \<noteq> None" if "t \<in> set (tasks self)" for t
    using w that by (auto simp: consistent_def tasks_wf_def)
  moreover have "if fc_destroyed c then perform p \<in> set (tasks self) \<and> p \<notin> snd ` set (table_of self)
      else map_of (table_of self) (fc_function_address c) = Some p" if c: "ctx_at self p = Some c" for p c
    using good_contexts(1,2) [OF g c] reg [OF c] by (cases "fc_destroyed c") simp_all
  moreover have "fc_activated c \<longleftrightarrow> p \<in> snd ` set (table_of self)" if "outermost self" and c: "ctx_at self p = Some c" for p c
    using good_contexts(3) [OF g c that(1)] reg [OF c] by simp
  ultimately show ?thesis by blast
qed

lemma sample_initial: "initial (gum_interceptor_init sample_environment (sample_runtime\<lparr>rt_contexts := Map.empty\<rparr>) sample_storage)"
  unfolding initial_def by (intro exI conjI) simp_all

theorem contexts_accounted_for_witness:
  "\<exists>start self. initial start \<and> history start [(GUM_INSTRUMENTATION_ERROR_WRONG_SIGNATURE, None, BEGIN_TRANSACTION, DONE)] self \<and>
     (\<forall>t \<in> set (tasks self). ctx_at self (dt_ctx t) \<noteq> None)"
proof -
  let ?en = sample_environment and ?s = "gum_interceptor_init sample_environment (sample_runtime\<lparr>rt_contexts := Map.empty\<rparr>) sample_storage"
  have "friendly ?en BEGIN_TRANSACTION ?s"
    using sample_friendly by (simp add: friendly_def gum_interceptor_init_def ctx_at_def gum_interceptor_transaction_init_def)
  moreover have "refusal ?en = GUM_INSTRUMENTATION_ERROR_WRONG_SIGNATURE" by (simp add: refusal_def sample_environment_def)
  ultimately have "history ?s [(GUM_INSTRUMENTATION_ERROR_WRONG_SIGNATURE, None, BEGIN_TRANSACTION, DONE)] (gum_interceptor_begin_transaction ?s)"
    using history.operation [OF history.nothing_yet, of ?en BEGIN_TRANSACTION ?s DONE "gum_interceptor_begin_transaction ?s"] by simp
  with contexts_accounted_for [OF sample_initial this] sample_initial show ?thesis by blast
qed

text \<open>
  C10: Taking hooks away returns, outside of transactions, when the kernel lets the patched pages be made writable, and
  when no thread leaves the last frame of a destroyed context while the tasks at the end of the transaction
  are worked off with the lock released. Then detaching, flushing, disposing, ending a transaction, and
  reverting a function whose address resolves fail no assertion, follow no pointer to a freed context, and
  leave the invariant and the map of hooks as specified. Without the last condition a flush can follow such a
  pointer, as is shown at the end of this theory.
\<close>

theorem taking_away_returns:
  assumes "good self" and "outermost self" and "takes_away en op self" and "friendly en op self" and "permissive en"
  shows "\<exists>r self'. perform_operation en op self = Some (r, self') \<and> good self' \<and>
    hook_step (refusal en) (target_of en op self) op (hooks_of self) r (hooks_of self')"
proof -
  have "orderly en" "stays_busy en" using assms(4) by (simp_all add: friendly_def)
  then obtain r self' where "perform_operation en op self = Some (r, self')"
    using takes_away_returns [OF _ _ assms(5,1-3)] by blast
  then show ?thesis using operation_step [OF assms(1,4)] by blast
qed

theorem taking_away_returns_witness:
  "\<exists>r self'. perform_operation sample_environment (DETACH 0x6000) (sample_interceptor 1) = Some (r, self') \<and>
     hooks_of self' 0x400000 = None"
proof -
  have f: "friendly sample_environment (DETACH 0x6000) (sample_interceptor 1)"
    using sample_friendly by (simp add: friendly_def sample_observe)
  have h: "hooks_of (sample_interceptor 1) 0x400000 = Some \<lparr>hk_type = GUM_INTERCEPTOR_TYPE_DEFAULT,
      hk_listeners = [\<lparr>en_listener = 0x6000, en_function_data = 0\<rparr>], hk_replacement = 0, hk_replacement_data = 0\<rparr>"
    by (simp add: hooks_of_def sample_observe hook_of_def sample_function_ctx_def)
  have "hook_step e t (DETACH 0x6000) m r m' \<Longrightarrow> m' = detach_spec 0x6000 m" for e t m r m' by (cases r) simp_all
  then obtain r self' where "perform_operation sample_environment (DETACH 0x6000) (sample_interceptor 1) = Some (r, self')"
    "hooks_of self' = detach_spec 0x6000 (hooks_of (sample_interceptor 1))"
    using taking_away_returns [OF sample_good _ f sample_friendly(3)] by (metis takes_away.simps(4))
  then show ?thesis by (simp add: detach_spec_def h without_listener_def listening_def drop_unused_def unused_hook_def)
qed



text \<open>
  C9: No operation takes a context away from the threads inside its function. While an operation runs, other threads may
  change usage counters whenever the lock is released. A context whose counter is not zero, and is not
  brought to zero by them, exists afterwards and is still in use; no context gets another type or another
  trampoline; and a context appears only at the address that GLib gave for a new one. If no thread comes in
  between, the operation is one of the updates under which interception was shown transparent, provided that the
  on-leave trampoline of the new context is none of the existing ones and no return address in use.
\<close>

theorem operations_are_allowed_updates:
  assumes "good self" and "orderly en" and "ctx_at self (en_new_ctx en) = None" and "counting_between en"
    and "perform_operation en op self = Some (r, self')"
  shows "(\<forall>p c. ctx_at self p = Some c \<longrightarrow> fc_trampoline_usage_counter c \<noteq> 0 \<longrightarrow> stays_in_use en p \<longrightarrow>
            (\<exists>c'. ctx_at self' p = Some c' \<and> fc_trampoline_usage_counter c' \<noteq> 0)) \<and>
         (\<forall>p c c'. ctx_at self p = Some c \<longrightarrow> ctx_at self' p = Some c' \<longrightarrow>
            fc_type c' = fc_type c \<and> fc_on_leave_trampoline c' = fc_on_leave_trampoline c) \<and>
         (\<forall>p c'. ctx_at self p = None \<longrightarrow> ctx_at self' p = Some c' \<longrightarrow> p = en_new_ctx en) \<and>
         (nobody_between en \<longrightarrow> inj_on (leave_sites (ctx_at self)) (dom (leave_sites (ctx_at self))) \<longrightarrow>
            (\<forall>a. leave_sites (ctx_at self') (en_new_ctx en) = Some a \<longrightarrow>
               unused (ip_runtime self) \<sigma> a \<and> a \<notin> ran (leave_sites (ctx_at self))) \<longrightarrow>
            allowed_update (ip_runtime self) \<sigma> (rt_contexts (ip_runtime self')))"
proof -
  obtain s where s: "grows en self s" "frees en s self'" using operation_frees [OF assms] by blast
  note e = grown_and_freed [OF s]
  have "p = en_new_ctx en" if "ctx_at self p = None" "ctx_at self' p = Some c'" for p c'
    using e(3) [of p] that by auto
  moreover have "allowed_update (ip_runtime self) \<sigma> (rt_contexts (ip_runtime self'))"
    if "nobody_between en" "inj_on (leave_sites (ctx_at self)) (dom (leave_sites (ctx_at self)))"
      "\<forall>a. leave_sites (ctx_at self') (en_new_ctx en) = Some a \<longrightarrow> unused (ip_runtime self) \<sigma> a \<and> a \<notin> ran (leave_sites (ctx_at self))"
    using unshared_update [OF s that(1,2) assms(3)] that(3) by blast
  ultimately show ?thesis using e(1,2) by blast
qed

text \<open>A thread may come into the function whenever the lock is released.\<close>

definition sample_traffic :: environment where
  "sample_traffic = sample_environment\<lparr>en_between := \<lambda>k rt.
     rt\<lparr>rt_contexts := \<lambda>p. map_option (\<lambda>c. c\<lparr>fc_trampoline_usage_counter := max 1 (fc_trampoline_usage_counter c)\<rparr>) (rt_contexts rt p)\<rparr>\<rparr>"

lemma sample_traffic_counts: "counting_between sample_traffic" "stays_in_use sample_traffic p" "orderly sample_traffic"
proof -
  show "orderly sample_traffic" using sample_friendly(1) by (simp add: orderly_def sample_traffic_def)
  show "counting_between sample_traffic" by (simp add: counting_between_def only_counters_def sample_traffic_def option.map_comp comp_def)
  show "stays_in_use sample_traffic p" by (auto simp: stays_in_use_def sample_traffic_def max_def split: if_splits)
qed

lemma sample_freed:
  "map_option (\<lambda>(r, s). (Option.is_none (ctx_at s 0x5000), Option.is_none (ctx_at s 0x5200)))
     (perform_operation sample_environment (DETACH 0x6000) (sample_interceptor 0)) = Some (True, True)"
  "map_option (\<lambda>(r, s). Option.is_none (ctx_at s 0x5200))
     (perform_operation sample_traffic (DETACH 0x6000) (sample_interceptor 1)) = Some True"
  by code_simp+

theorem operations_are_allowed_updates_witness:
  "\<exists>r self' r2 self2. perform_operation sample_traffic (DETACH 0x6000) (sample_interceptor 1) = Some (r, self') \<and>
     ctx_at self' 0x5000 \<noteq> None \<and>
     perform_operation sample_environment (DETACH 0x6000) (sample_interceptor 0) = Some (r2, self2) \<and>
     allowed_update (ip_runtime (sample_interceptor 0)) (\<lambda>_. []) (rt_contexts (ip_runtime self2))"
proof -
  obtain r self' where ret: "perform_operation sample_traffic (DETACH 0x6000) (sample_interceptor 1) = Some (r, self')"
    using sample_freed(2) by auto
  have fresh: "ctx_at (sample_interceptor n) (en_new_ctx sample_traffic) = None" for n
    by (simp add: sample_observe sample_traffic_def sample_environment_def)
  note spared = conjunct1 [OF operations_are_allowed_updates [OF sample_good(1) sample_traffic_counts(3) fresh sample_traffic_counts(1) ret]]
  have "ctx_at (sample_interceptor 1) 0x5000 = Some (sample_function_ctx\<lparr>fc_trampoline_usage_counter := 1\<rparr>)"
    by (simp add: sample_observe)
  then have "\<exists>c'. ctx_at self' 0x5000 = Some c' \<and> fc_trampoline_usage_counter c' \<noteq> 0"
    by (rule spared [rule_format]) (simp_all add: sample_traffic_counts)
  then have kept: "ctx_at self' 0x5000 \<noteq> None" by auto
  let ?en = sample_environment and ?s = "sample_interceptor 0"
  have nobody: "nobody_between ?en" using sample_friendly(4) by (simp add: nobody_between_def)
  have counters: "counting_between ?en" by (simp add: counting_between_def only_counters_def sample_friendly(4))
  have new: "ctx_at ?s (en_new_ctx ?en) = None" by (simp add: sample_observe sample_friendly)
  obtain r2 self2 where ret2: "perform_operation ?en (DETACH 0x6000) ?s = Some (r2, self2)"
    "ctx_at self2 0x5200 = None"
    using sample_freed(1) by (auto simp: Option.is_none_def)
  have "leave_sites (ctx_at self2) (en_new_ctx ?en) = None" by (simp add: leave_sites_def sample_friendly ret2(2))
  moreover have "inj_on (leave_sites (ctx_at ?s)) (dom (leave_sites (ctx_at ?s)))"
    by (auto simp: inj_on_def sample_observe leave_sites_def split: if_splits)
  ultimately have "allowed_update (ip_runtime ?s) (\<lambda>_. []) (rt_contexts (ip_runtime self2))"
    using operations_are_allowed_updates [OF sample_good(1) sample_friendly(1) new counters ret2(1)] nobody by simp
  then show ?thesis using ret ret2(1) kept by blast
qed

text \<open>
  C36: Where a redirection leads. The address that is patched for a function is the first on its chain of jumps that
  is registered already, or is not a jump; resolving returns exactly if the chain has such an address.
\<close>

theorem resolving_follows_the_chain:
  "gum_interceptor_resolve en self a = Some b \<longleftrightarrow>
     (\<exists>n. b = (redirect en self ^^ n) a \<and> resolved en self b \<and> (\<forall>i<n. \<not> resolved en self ((redirect en self ^^ i) a)))"
  using resolve_chain chain_resolves by metis

definition sample_jumps :: environment where
  "sample_jumps = sample_environment\<lparr>en_cs := \<lparr>cs_disasm_iter = \<lambda>cpu m code addr. Some \<lparr>ci_id = X86_INS_JMP, ci_address = addr, ci_size = 2,
     ci_bytes = [0xeb, 0xfe], ci_op0 = X86_OP_IMM 0x410000, ci_op0_size = 8, ci_modrm = 0, ci_disp = 0, ci_modrm_offset = 0, ci_disp_offset = 0\<rparr>,
     cs_reg_read = \<lambda>_ _. False, cs_reg_write = \<lambda>_ _. False\<rparr>\<rparr>"

lemma sample_jumps_redirect: "redirect sample_jumps (sample_interceptor n) a = 0x410000"
  by (simp add: sample_jumps_def gum_interceptor_backend_resolve_redirect_def gum_x86_reader_try_get_relative_jump_target_def
      try_get_relative_call_or_jump_target_def gum_x86_reader_disassemble_instruction_at_def)

theorem resolving_follows_the_chain_witness:
  "gum_interceptor_resolve sample_jumps (sample_interceptor 0) 0x420000 = None \<and>
   gum_interceptor_resolve sample_jumps (sample_interceptor 0) 0x400000 = Some 0x400000"
proof -
  have "\<not> en_signing_required sample_jumps" by (simp add: sample_jumps_def sample_environment_def)
  then have stuck: "\<not> resolved sample_jumps (sample_interceptor 0) a" if "a \<noteq> 0x400000" for a
    using that by (simp add: resolved_def sample_jumps_redirect gum_interceptor_has_def) (simp add: sample_interceptor_def)
  have chain: "(redirect sample_jumps (sample_interceptor 0) ^^ n) 0x420000 \<noteq> 0x400000" for n
    by (cases n) (simp_all add: sample_jumps_redirect)
  have "gum_interceptor_resolve sample_jumps (sample_interceptor 0) 0x420000 \<noteq> Some b" for b
    unfolding resolving_follows_the_chain using stuck chain by metis
  moreover have "resolved sample_jumps (sample_interceptor 0) 0x400000"
    by (simp add: resolved_def gum_interceptor_has_def sample_interceptor_def)
  then have "gum_interceptor_resolve sample_jumps (sample_interceptor 0) 0x400000 = Some 0x400000"
    unfolding resolving_follows_the_chain by (intro exI [of _ 0]) simp
  ultimately show ?thesis by auto
qed

section \<open>A race\<close>

text \<open>
  Why the environment has to be friendly. While the tasks at the end of a transaction are worked off the lock
  is released, so that a thread can leave the last frame of a destroyed context between a task that names
  it and the task that frees it. In this run the first task is queued again, the second frees the context,
  and the next flush reads the counter of a context that does not exist.
\<close>

definition race :: "environment" where
  "race = sample_environment\<lparr>en_between := \<lambda>k rt. if k = 0 then rt else
     rt\<lparr>rt_contexts := \<lambda>p. map_option (\<lambda>c. c\<lparr>fc_trampoline_usage_counter := 0\<rparr>) (rt_contexts rt p)\<rparr>\<rparr>"

lemma freed_context_is_read:
  "map_option (\<lambda>s. (tasks s, Option.is_none (ctx_at s 0x5000), Option.is_none (gum_interceptor_flush sample_environment s)))
     (gum_interceptor_detach race (sample_interceptor 1) 0x6000) =
   Some ([\<lparr>dt_ctx = 0x5000, dt_notify = UNREF_LISTENER 0x6000\<rparr>], True, True)"
  by code_simp

end
