(* ===== verification/Spec2Isabelle.thy ===== *)
theory Spec2Isabelle
  imports Gum_Cloak_Registry Gum_Scan Gum_Memory_Access Gum_Sampling_Smp Gum_End_To_End Gum_Activation Gum_Slices Gum_Metal_Hash_Correct
    Gum_Listener_Data Gum_Frontend
begin

text \<open>
  FreeProbe is a fork of the instrumentation library Gum, whose interceptor patches a function's first bytes with a
  jump to a generated trampoline. The trampoline calls listeners before and after the function, or a
  replacement instead of it. FreeProbe adds a sampling guard to the trampoline, for x86-64 on Linux: only one call in
  twenty of a thread goes on to the listeners, the others continue in the function at once. This development
  models the interception path, \<^verbatim>\<open>src/frida-gum/gum\<close>, for that target, from the bytes of the emitted
  instructions up to the operations a client calls.

  \<^bold>\<open>Machine code.\<close>
  \<^theory_text>\<open>Gum_X86_Regs\<close>, \<^theory_text>\<open>Gum_X86_Writer\<close>, \<^theory_text>\<open>Gum_X86_Data\<close> and \<^theory_text>\<open>Gum_X86_Branch\<close> are \<^verbatim>\<open>arch-x86/gumx86writer.c\<close>: a
  writer is a record with the memory it writes to, its position, and its labels; every \<^verbatim>\<open>put\<close> function returns
  whether it succeeded with the new writer. \<^theory_text>\<open>Gum_X86_Reader\<close> and \<^theory_text>\<open>Gum_X86_Relocator\<close> are
  \<^verbatim>\<open>gumx86reader.c\<close> and \<^verbatim>\<open>gumx86relocator.c\<close> over a disassembler (Capstone) that is a parameter.
  \<^theory_text>\<open>X86_Machine\<close> is the processor of the proofs: a decoder and an interpreter of the instructions concerned,
  independent of the writer. \<^theory_text>\<open>Gum_X86_Encoding\<close> and \<^theory_text>\<open>Gum_X86_Roundtrip\<close> show that what the encoders emit decodes to
  what they were asked for, and which operands they get wrong; \<^theory_text>\<open>Gum_X86_Exec\<close> executes emitted blocks.

  \<^bold>\<open>Memory.\<close>
  \<^theory_text>\<open>Gum_Memory\<close> is the page allocation of \<^verbatim>\<open>gummemory.c\<close> and \<^verbatim>\<open>backend-posix/gummemory-posix.c\<close>; the
  kernel is a parameter, which keeps a log of the mappings. \<^theory_text>\<open>Gum_Code_Allocator\<close> is
  \<^verbatim>\<open>gumcodeallocator.c\<close>; \<^theory_text>\<open>Gum_Slices\<close> shows that the slices it hands out never overlap, and which ones it
  loses. \<^theory_text>\<open>Gum_Metal_Hash\<close> is \<^verbatim>\<open>gummetalhash.c\<close>, an open-addressing hash table, and \<^theory_text>\<open>Gum_Metal_Hash_Correct\<close>
  that it is a finite map and that its searches end.
  \<^theory_text>\<open>Gum_Libc\<close> and \<^theory_text>\<open>Gum_Metal_Array\<close> are \<^verbatim>\<open>gumlibc.c\<close> and \<^verbatim>\<open>gummetalarray.c\<close>, a growing array on pages of
  the kernel, with the proof that its bytes are a list of elements. \<^theory_text>\<open>Gum_Cloak\<close> is \<^verbatim>\<open>gumcloak.c\<close>, which keeps what belongs to the
  instrumentation out of sight in three such arrays; \<^theory_text>\<open>Gum_Cloak_Correct\<close> has the invariant of the arrays and the threads and file
  descriptors, through one locale for both, \<^theory_text>\<open>Gum_Cloak_Ranges\<close> what adding, removing and clipping ranges do, and
  \<^theory_text>\<open>Gum_Cloak_Registry\<close> the histories of calls: the cloak is two multisets and a set of addresses, it hides what it should but for the
  pages of one array, and removing a range ends, unless the range is empty.
  \<^theory_text>\<open>Gum_Pattern\<close> has the match patterns of \<^verbatim>\<open>gummemory.c\<close>: their parser, matching and scanning; \<^theory_text>\<open>Gum_Pattern_Correct\<close> and
  \<^theory_text>\<open>Gum_Scan\<close> show that the text of a pattern is read as it is meant, what a scan reports, and when it leaves its range.
  \<^theory_text>\<open>Gum_Memory_Access\<close> is \<^verbatim>\<open>backend-linux/gummemory-linux.c\<close> with the patching of code: reads and writes that are checked against the map of
  the process, whose lines are a parameter, and the changes of protection around a patch.

  \<^bold>\<open>The trampoline.\<close>
  \<^theory_text>\<open>Gum_Interceptor_X86\<close> is \<^verbatim>\<open>backend-x86/guminterceptor-x86.c\<close> with the function contexts of
  \<^verbatim>\<open>guminterceptor-priv.h\<close>: thunks, trampolines with the guard, activation and its reverse. \<^theory_text>\<open>Gum_Sampling_Guard\<close> and
  \<^theory_text>\<open>Gum_Sampling\<close> run the emitted guard on the machine and show that it makes one step of the specified
  counter, transparently, and that one call in twenty of each bucket is sampled. \<^theory_text>\<open>Gum_Sampling_Race\<close> interleaves the
  guard's accesses to the counters by many threads, \<^theory_text>\<open>Gum_Sampling_Smp\<close> their instructions: threads with buckets of their
  own are sampled at the exact rate, threads that share one are still sampled, though possibly too often. \<^theory_text>\<open>Gum_Activation\<close> shows that
  patching redirects the function, keeps every other byte, and is undone exactly.

  \<^bold>\<open>Calls.\<close>
  \<^theory_text>\<open>Gum_Invocation\<close> is the half of \<^verbatim>\<open>guminterceptor.c\<close> that runs when a thread enters an intercepted function and
  leaves it: guard, thread contexts, invocation stacks, listener data, with \<^verbatim>\<open>guminvocationcontext.c\<close> and
  \<^verbatim>\<open>gumcpucontext-x86.c\<close>. \<^theory_text>\<open>Gum_Invocation_Correct\<close> summarises the two handlers; \<^theory_text>\<open>Gum_Transparency\<close> puts threads
  around them, as a step relation on machine stacks, and shows by a simulation that every call returns where it
  would without interception and that the usage counters count the frames; \<^theory_text>\<open>Gum_Listener_Data\<close> covers
  what listeners are given and can rely on.

  \<^bold>\<open>Administration.\<close>
  \<^theory_text>\<open>Gum_Interceptor\<close> is the other half of \<^verbatim>\<open>guminterceptor.c\<close>: attaching, detaching, replacing, reverting, and the
  transactions that patch code and free contexts. \<^theory_text>\<open>Gum_Interceptor_Correct\<close> states the invariant of its tables and
  queues, \<^theory_text>\<open>Gum_Transactions\<close> what ending a transaction does to them. \<^theory_text>\<open>Gum_Hooks\<close> specifies the operations on an abstract
  map from functions to hooks, and that each implements its specification; \<^theory_text>\<open>Gum_Operations\<close> composes them into
  histories, with calls by threads in between, and \<^theory_text>\<open>Gum_Teardown\<close> shows which operations always return and that
  disposing frees everything. \<^theory_text>\<open>Gum_Frontend\<close> has the resulting properties; one of them is that an operation is an update
  that \<^theory_text>\<open>Gum_Transparency\<close> allows between the steps of threads, which joins the two halves.

  \<^bold>\<open>Programs.\<close>
  \<^theory_text>\<open>Gum_End_To_End\<close> has the project's own programs: the observed program and its observer (\<^verbatim>\<open>src/e2e\<close>), the test of the
  guard, the benchmark and the probe (\<^verbatim>\<open>src/tests\<close>), and the numbers they report when the guard does what it should.

  \<^bold>\<open>Conventions.\<close> A \<^verbatim>\<open>NULL\<close> or aborting branch, an access out of bounds or through a freed pointer is
  \<open>None\<close>. Machine words have their width, so wrap-around is that of the code. \<open>gum_interceptor_resolve\<close> and the loops
  \<open>remove_loop\<close> and \<open>clip_loop\<close> of the cloak and \<open>scan_loop\<close> of the scan may not end and are \<open>partial_function\<close>s whose (outer) \<open>None\<close> is that; all other loops are recursions over their data, or count down the
  number of slots of a table, an array or a buffer, which bounds the loop of the code.
  What is not under \<^verbatim>\<open>src/\<close> is a parameter: Capstone, the answers of the kernel and the lines of its map of the process, the regular expressions of GLib, the addresses
  the allocator of GLib returns, the order in which a \<^verbatim>\<open>GHashTable\<close> is traversed, the callbacks of listeners.

  \<^bold>\<open>Not modelled.\<close> The other processors and operating systems, whose code has no sampling guard; Stalker, Exceptor
  and the services for processes, modules and symbols, which the interception path does not use; code segments,
  which do not exist on Linux; the weak reference that keeps one interceptor per process; the creation of threads and processes,
  the timing and the printing of the programs under \<^verbatim>\<open>src/e2e\<close> and \<^verbatim>\<open>src/tests\<close>; the rest of the vendored eBPF runtime \<^verbatim>\<open>src/bpftime\<close>.
\<close>

end
